(* ===== verification/OS_Prelude.thy ===== *)
theory OS_Prelude
  imports Main "HOL-Library.Word" "HOL-Library.Signed_Division" "HOL-Library.Monad_Syntax"
begin

section \<open>Prelude: C integers, bytes, slots\<close>

text \<open>
  Shared vocabulary of the development. The kernel is compiled by bcc for the 8086:
  \<^verbatim>\<open>int\<close> is 16 bits wide and signed, plain \<^verbatim>\<open>char\<close> is one byte that is widened
  without sign (bcc emits \<^verbatim>\<open>xor ah,ah\<close>, see \<^verbatim>\<open>ctoi\<close> in
  \<^verbatim>\<open>dev86-0.16.17/bcc/codefrag.c\<close>). A C int is a HOL \<^typ>\<open>int\<close> kept in range by
  \<open>i16\<close> after each operation that can leave the range; a byte is an \<open>8 word\<close>.
  Bochs registers are words of their own width.
  An \<^typ>\<open>'a option\<close> result \<^const>\<open>None\<close> means that the C code does not return or
  reads or writes outside an object.
\<close>

unbundle bit_operations_syntax

named_theorems proc_defs \<open>definitions of the process and memory-segment operations\<close>
named_theorems fs_defs \<open>definitions of the disk and file operations\<close>
named_theorems sched_defs \<open>definitions of the scheduler and system-call operations\<close>

type_synonym byte = "8 word"

subsection \<open>16-bit C arithmetic\<close>

definition i16 :: "int \<Rightarrow> int" where
  "i16 x = signed_take_bit 15 x"

definition in_i16 :: "int \<Rightarrow> bool" where
  "in_i16 x \<longleftrightarrow> -32768 \<le> x \<and> x \<le> 32767"

lemma i16_id [simp]: "-32768 \<le> x \<Longrightarrow> x \<le> 32767 \<Longrightarrow> i16 x = x"
  by (simp add: i16_def signed_take_bit_int_eq_self)

lemma i16_mod: "i16 x = (x + 32768) mod 65536 - 32768"
  by (simp add: i16_def signed_take_bit_eq_take_bit_shift take_bit_eq_mod)

lemma i16_over: "32768 \<le> x \<Longrightarrow> x \<le> 98303 \<Longrightarrow> i16 x = x - 65536"
  using mod_pos_pos_trivial [of "x - 32768" 65536] minus_mod_self2 [of "x + 32768" 65536]
  by (simp add: i16_mod)

lemma in_i16_i16 [simp]: "in_i16 (i16 x)"
  using signed_take_bit_int_greater_eq_minus_exp [of 15 x] signed_take_bit_int_less_exp [of 15 x]
  by (simp add: i16_def in_i16_def)

lemma i16_range: "-32768 \<le> i16 x \<and> i16 x \<le> 32767"
  using in_i16_i16 [of x] by (simp add: in_i16_def)

text \<open>C division truncates towards zero.\<close>

definition cdiv :: "int \<Rightarrow> int \<Rightarrow> int" where
  "cdiv a b = a sdiv b"

lemma cdiv_nonneg [simp]: "0 \<le> a \<Longrightarrow> 0 < b \<Longrightarrow> cdiv a b = a div b"
  by (simp add: cdiv_def signed_divide_int_def sgn_if)

subsection \<open>Bytes\<close>

definition bytes :: "string \<Rightarrow> byte list" where
  "bytes s = map of_char s"

lemma length_bytes [simp]: "length (bytes s) = length s"
  by (simp add: bytes_def)

lemma unat_byte_less [simp]: "unat (b :: byte) < 256"
  by (rule order_less_le_trans [OF unsigned_less]) simp

lemma uint_byte_less [simp]: "uint (b :: byte) < 256"
  by (rule order_less_le_trans [OF unsigned_less]) simp

subsection \<open>Steps that may fail\<close>

text \<open>A step that ends early yields \<^const>\<open>Inl\<close>; \<open>and_then\<close> runs the next one otherwise.\<close>

definition and_then :: "'e + 'a \<Rightarrow> ('a \<Rightarrow> 'e + 'b) \<Rightarrow> 'e + 'b" where
  "and_then x f = (case x of Inl e \<Rightarrow> Inl e | Inr y \<Rightarrow> f y)"

lemma and_then_simps [simp]: "and_then (Inl e) f = Inl e" "and_then (Inr x) f = f x"
  by (simp_all add: and_then_def)

lemma and_then_Inr: "and_then x f = Inr z \<longleftrightarrow> (\<exists>y. x = Inr y \<and> f y = Inr z)"
  by (cases x) simp_all

lemma and_then_assoc: "and_then (and_then x f) g = and_then x (\<lambda>y. and_then (f y) g)"
  by (cases x) simp_all

lemma and_then_Inl: "and_then x f = Inl e \<longleftrightarrow> x = Inl e \<or> (\<exists>y. x = Inr y \<and> f y = Inl e)"
  by (cases x) simp_all

subsection \<open>First slot that satisfies a condition\<close>

text \<open>A counting loop that returns the first index with a property is \<^const>\<open>List.find\<close> on
  \<^term>\<open>[0..<n]\<close>.\<close>

lemma find_upt_Some:
  "find P [0..<n] = Some i \<longleftrightarrow> i < n \<and> P i \<and> (\<forall>j<i. \<not> P j)"
  by (auto simp: find_Some_iff intro: exI [of _ i])

lemma find_upt_None: "find P [0..<n] = None \<longleftrightarrow> (\<forall>i<n. \<not> P i)"
  by (auto simp: find_None_iff)

lemma filter_upt_single: "filter (\<lambda>j. j = i) [0..<n] = (if i < n then [i] else [])"
  by (induction n) auto

lemma find_upt_cong:
  "(\<And>i. i < n \<Longrightarrow> P i = Q i) \<Longrightarrow> find P [0..<n] = find Q [0..<n]"
  by (rule find_cong) auto

end
