(* ===== verification/OS_Contracts.thy ===== *)
theory OS_Contracts
  imports OS_Prelude
begin

section \<open>Interfaces between the components\<close>

text \<open>
  The contracts the kernel's components rely on, each as a locale with the consequences a
  client uses: a FIFO queue (the scheduler's view of the ready queue) and a pool of
  numbered slots (memory segments and PCBs). Each is interpreted on the model's own
  operations in the theory of the component that provides it.
\<close>

subsection \<open>FIFO queue\<close>

text \<open>\<open>drain deq n s\<close> takes \<open>n\<close> elements out of the queue.\<close>

primrec drain :: "('s \<Rightarrow> 'p \<times> 's) \<Rightarrow> nat \<Rightarrow> 's \<Rightarrow> 'p list \<times> 's" where
  "drain deq 0 s = ([], s)"
| "drain deq (Suc n) s =
     (let (p, s1) = deq s; (ps, s2) = drain deq n s1 in (p # ps, s2))"

text \<open>One turn of a round-robin scheduler: the head goes to the tail.\<close>

definition turn :: "('p \<Rightarrow> 's \<Rightarrow> 's) \<Rightarrow> ('s \<Rightarrow> 'p \<times> 's) \<Rightarrow> 's \<Rightarrow> 's" where
  "turn enq deq s = (let (p, s1) = deq s in enq p s1)"

locale fifo_queue =
  fixes enq :: "'p \<Rightarrow> 's \<Rightarrow> 's"
    and deq :: "'s \<Rightarrow> 'p \<times> 's"
    and null :: 'p
    and repr :: "'s \<Rightarrow> 'p list \<Rightarrow> bool"
  assumes repr_wf: "repr s qs \<Longrightarrow> distinct qs \<and> null \<notin> set qs"
    and enq_repr: "repr s qs \<Longrightarrow> p \<notin> set qs \<Longrightarrow> p \<noteq> null \<Longrightarrow> repr (enq p s) (qs @ [p])"
    and deq_Nil: "repr s [] \<Longrightarrow> deq s = (null, s)"
    and deq_fst: "repr s (q # qs) \<Longrightarrow> fst (deq s) = q"
    and deq_repr: "repr s (q # qs) \<Longrightarrow> repr (snd (deq s)) qs"
begin

lemma enq_all_repr:
  "repr s qs \<Longrightarrow> distinct (qs @ ps) \<Longrightarrow> null \<notin> set ps \<Longrightarrow> repr (fold enq ps s) (qs @ ps)"
proof (induction ps arbitrary: s qs)
  case (Cons p ps)
  then have "repr (enq p s) (qs @ [p])" by (intro enq_repr) auto
  from Cons.IH [OF this] Cons.prems show ?case by auto
qed simp

lemma drain_repr:
  "repr s (ps @ qs) \<Longrightarrow>
     fst (drain deq (length ps) s) = ps \<and> repr (snd (drain deq (length ps) s)) qs"
proof (induction ps arbitrary: s)
  case (Cons p ps)
  then have "fst (deq s) = p" "repr (snd (deq s)) (ps @ qs)"
    using deq_fst deq_repr by auto
  with Cons.IH [of "snd (deq s)"] show ?case
    by (auto simp: case_prod_beta Let_def)
qed simp

lemma fifo_order:
  assumes "repr s []" and "distinct ps" and "null \<notin> set ps"
  shows "fst (drain deq (length ps) (fold enq ps s)) = ps"
    and "repr (snd (drain deq (length ps) (fold enq ps s))) []"
  using enq_all_repr [of s "[]" ps] drain_repr [of _ ps "[]"] assms by auto

lemma turn_repr:
  assumes "repr s (q # qs)"
  shows "repr (turn enq deq s) (qs @ [q])"
proof -
  have "repr (snd (deq s)) qs" "fst (deq s) = q"
    using assms deq_repr deq_fst by auto
  moreover have "q \<notin> set qs" "q \<noteq> null"
    using repr_wf [OF assms] by auto
  ultimately show ?thesis
    using enq_repr [of "snd (deq s)" qs q] by (simp add: turn_def case_prod_beta)
qed

lemma turns_repr:
  "repr s qs \<Longrightarrow> qs \<noteq> [] \<Longrightarrow> repr ((turn enq deq ^^ n) s) (rotate n qs)"
proof (induction n)
  case (Suc n)
  then have r: "repr ((turn enq deq ^^ n) s) (rotate n qs)" by simp
  obtain q rs where "rotate n qs = q # rs"
    using Suc.prems by (cases "rotate n qs") auto
  with turn_repr [of _ q rs] r show ?case by simp
qed simp

text \<open>Round robin: the element \<open>k\<close> places behind the head is at the head after \<open>k\<close> turns.\<close>

lemma turns_head:
  "repr s qs \<Longrightarrow> k < length qs \<Longrightarrow> fst (deq ((turn enq deq ^^ k) s)) = qs ! k"
proof -
  assume r: "repr s qs" and k: "k < length qs"
  then have "rotate k qs \<noteq> []" by auto
  then obtain q rs where q: "rotate k qs = q # rs" by (cases "rotate k qs") auto
  have "repr ((turn enq deq ^^ k) s) (q # rs)"
    using turns_repr [OF r, of k] k unfolding q by fastforce
  moreover have "q = qs ! k"
    using q k hd_rotate_conv_nth [of qs k] by (cases qs) auto
  ultimately show ?thesis using deq_fst by blast
qed

end

subsection \<open>Pool of numbered slots\<close>

locale slot_pool =
  fixes alloc :: "'s \<Rightarrow> 'r \<times> 's"
    and release :: "nat \<Rightarrow> 's \<Rightarrow> 's"
    and ref :: "nat \<Rightarrow> 'r"
    and none :: 'r
    and used :: "'s \<Rightarrow> nat \<Rightarrow> bool"
    and n :: nat
    and wf :: "'s \<Rightarrow> bool"
  assumes alloc_free: "wf s \<Longrightarrow> i < n \<Longrightarrow> \<not> used s i \<Longrightarrow> \<forall>j<i. used s j \<Longrightarrow>
        fst (alloc s) = ref i \<and> wf (snd (alloc s)) \<and>
        (\<forall>j<n. used (snd (alloc s)) j \<longleftrightarrow> j = i \<or> used s j)"
    and alloc_full: "wf s \<Longrightarrow> \<forall>i<n. used s i \<Longrightarrow> alloc s = (none, s)"
    and release_slot: "wf s \<Longrightarrow> i < n \<Longrightarrow>
        wf (release i s) \<and> (\<forall>j<n. used (release i s) j \<longleftrightarrow> j \<noteq> i \<and> used s j)"
    and ref_none: "i < n \<Longrightarrow> ref i \<noteq> none"
begin

lemma least_free:
  assumes "\<not> (\<forall>i<n. used s i)"
  shows "\<exists>i<n. \<not> used s i \<and> (\<forall>j<i. used s j)"
proof -
  from assms obtain k where k: "k < n" "\<not> used s k" by blast
  define i where "i = (LEAST i. \<not> used s i)"
  have "\<not> used s i" unfolding i_def using k(2) by (rule LeastI)
  moreover have "i < n" unfolding i_def using Least_le [of "\<lambda>i. \<not> used s i", OF k(2)] k(1) by simp
  moreover have "\<forall>j<i. used s j" unfolding i_def by (auto dest: not_less_Least)
  ultimately show ?thesis by blast
qed

lemma alloc_none_iff: "wf s \<Longrightarrow> fst (alloc s) = none \<longleftrightarrow> (\<forall>i<n. used s i)"
proof
  assume w: "wf s" and no: "fst (alloc s) = none"
  show "\<forall>i<n. used s i"
  proof (rule ccontr)
    assume "\<not> ?thesis"
    then obtain i where i: "i < n" "\<not> used s i" "\<forall>j<i. used s j"
      using least_free by blast
    then have "fst (alloc s) = ref i" using alloc_free [OF w] by blast
    with no ref_none [OF i(1)] show False by simp
  qed
qed (simp add: alloc_full)

lemma alloc_wf:
  assumes "wf s"
  shows "wf (snd (alloc s))"
proof (cases "\<forall>i<n. used s i")
  case True
  with assms show ?thesis by (simp add: alloc_full)
next
  case False
  then obtain i where "i < n" "\<not> used s i" "\<forall>j<i. used s j"
    using least_free by blast
  with alloc_free [OF assms] show ?thesis by blast
qed

lemma alloc_in_order:
  assumes "wf s" and "\<forall>i<n. \<not> used s i" and "k \<le> n"
  shows "fst (drain alloc k s) = map ref [0..<k] \<and> wf (snd (drain alloc k s)) \<and>
    (\<forall>j<n. used (snd (drain alloc k s)) j \<longleftrightarrow> j < k)"
proof -
  have "wf s \<Longrightarrow> \<forall>i<n. used s i = (i < m) \<Longrightarrow> m + k \<le> n \<Longrightarrow>
      fst (drain alloc k s) = map ref [m..<m + k] \<and> wf (snd (drain alloc k s)) \<and>
      (\<forall>j<n. used (snd (drain alloc k s)) j \<longleftrightarrow> j < m + k)" for m
  proof (induction k arbitrary: s m)
    case (Suc k)
    note a = alloc_free [OF Suc.prems(1), of m]
    have "fst (alloc s) = ref m" "wf (snd (alloc s))"
      "\<forall>j<n. used (snd (alloc s)) j \<longleftrightarrow> j < Suc m"
      using a Suc.prems by auto
    moreover have "[m..<m + Suc k] = m # [Suc m..<Suc m + k]"
      by (simp add: upt_conv_Cons)
    ultimately show ?case
      using Suc.IH [of "snd (alloc s)" "Suc m"] Suc.prems(3)
      by (simp add: case_prod_beta Let_def del: upt_Suc)
  qed simp
  from this [of 0] assms show ?thesis by auto
qed

lemma release_alloc:
  assumes "wf s" and "i < n" and "\<forall>j<i. used s j"
  shows "fst (alloc (release i s)) = ref i"
  using release_slot [OF assms(1,2)] alloc_free [of "release i s" i] assms by force

end

end
