(* ===== verification/OS_Proc.thy ===== *)
theory OS_Proc
  imports OS_Contracts
begin

section \<open>Memory segments, process control blocks and the ready queue\<close>

text \<open>
  Models \<^verbatim>\<open>project6/proc.h\<close> and \<^verbatim>\<open>project6/proc.c\<close>. The PCBs live in a heap
  indexed by \<open>pcbref\<close>, so aliasing (the same PCB linked twice, a stale \<^verbatim>\<open>next\<close>
  field) is as in the C code. \<open>NULL\<close> is an address like any other: the 8086 does not
  trap on it, so a store through \<open>NULL\<close> changes \<open>heap NULL\<close> and nothing else of the
  model.
\<close>

subsection \<open>Data\<close>

text \<open>\<^verbatim>\<open>Pool i\<close> is \<^verbatim>\<open>&pcbPool[i]\<close>, \<^verbatim>\<open>Extern i\<close> any other
  \<^verbatim>\<open>struct PCB\<close> (the locals of the unit tests).\<close>

datatype pcbref = NULL | IdleProc | Pool nat | Extern nat

record PCB =
  name :: "byte list"
  state :: int
  segment :: int
  stackPointer :: int
  sleepCounter :: int
  nextp :: pcbref
  prevp :: pcbref

abbreviation "FREE \<equiv> (0 :: int)"
abbreviation "USED \<equiv> (1 :: int)"
abbreviation "NO_FREE_SEGMENTS \<equiv> (-1 :: int)"

abbreviation "DEFUNCT \<equiv> (0 :: int)"
abbreviation "RUNNING \<equiv> (1 :: int)"
abbreviation "READY \<equiv> (2 :: int)"
abbreviation "BLOCKED \<equiv> (3 :: int)"
abbreviation "STARTING \<equiv> (4 :: int)"
abbreviation "SLEEPING \<equiv> (5 :: int)"

text \<open>The globals. \<open>stray\<close> is no variable of the code: it records the stores that
  \<^verbatim>\<open>memoryMap[seg] = v\<close> makes outside the eight entries.\<close>

record procs =
  running :: pcbref
  heap :: "pcbref \<Rightarrow> PCB"
  readyHead :: pcbref
  readyTail :: pcbref
  memoryMap :: "int list"
  stray :: "(int \<times> int) list"

definition modify :: "pcbref \<Rightarrow> (PCB \<Rightarrow> PCB) \<Rightarrow> procs \<Rightarrow> procs" where
  "modify p f s = s\<lparr>heap := (heap s)(p := f (heap s p))\<rparr>"

definition set_map :: "int \<Rightarrow> int \<Rightarrow> procs \<Rightarrow> procs" where
  "set_map i v s =
     (if 0 \<le> i \<and> i < 8 then s\<lparr>memoryMap := (memoryMap s)[nat i := v]\<rparr>
      else s\<lparr>stray := stray s @ [(i, v)]\<rparr>)"

subsection \<open>Operations\<close>

definition init_slot :: "nat \<Rightarrow> procs \<Rightarrow> procs" where
  "init_slot i s =
     modify (Pool i)
       (\<lambda>p. p\<lparr>name := (name p)[0 := 0], state := DEFUNCT, segment := 0, stackPointer := 0\<rparr>)
       (set_map (int i) FREE s)"

definition initializeProcStructures :: "procs \<Rightarrow> procs" where
  "initializeProcStructures s =
     (let s1 = fold init_slot [0..<8] s;
          s2 = modify IdleProc
                 (\<lambda>p. p\<lparr>name := (name p)[0 := of_char (CHR ''I''), 1 := of_char (CHR ''D''),
                                        2 := of_char (CHR ''L''), 3 := of_char (CHR ''E''), 4 := 0],
                       state := READY, segment := 0, stackPointer := 0\<rparr>) s1
      in s2\<lparr>running := IdleProc, readyHead := NULL, readyTail := NULL\<rparr>)"

definition getFreeMemorySegment :: "procs \<Rightarrow> int \<times> procs" where
  "getFreeMemorySegment s =
     (case find (\<lambda>i. memoryMap s ! i = FREE) [0..<8] of
        Some i \<Rightarrow> (int i, set_map (int i) USED s)
      | None \<Rightarrow> (-1, s))"

definition releaseMemorySegment :: "int \<Rightarrow> procs \<Rightarrow> procs" where
  "releaseMemorySegment seg s = set_map seg FREE s"

definition getFreePCB :: "procs \<Rightarrow> pcbref \<times> procs" where
  "getFreePCB s =
     (case find (\<lambda>i. state (heap s (Pool i)) = DEFUNCT) [0..<8] of
        Some i \<Rightarrow> (Pool i, modify (Pool i) (\<lambda>p. p\<lparr>state := STARTING\<rparr>) s)
      | None \<Rightarrow> (NULL, s))"

definition unlink :: "pcbref \<Rightarrow> procs \<Rightarrow> procs" where
  "unlink pcb s =
     (let p = prevp (heap s pcb); n = nextp (heap s pcb) in
      if p = NULL \<and> n \<noteq> NULL then
        modify n (\<lambda>q. q\<lparr>prevp := NULL\<rparr>) (s\<lparr>readyHead := n\<rparr>)
      else if p \<noteq> NULL \<and> n \<noteq> NULL then
        (let s1 = modify n (\<lambda>q. q\<lparr>prevp := p\<rparr>) s
         in modify (prevp (heap s1 pcb)) (\<lambda>q. q\<lparr>nextp := nextp (heap s1 pcb)\<rparr>) s1)
      else if p \<noteq> NULL \<and> n = NULL then
        modify p (\<lambda>q. q\<lparr>nextp := NULL\<rparr>) (s\<lparr>readyTail := p\<rparr>)
      else s)"

definition releasePCB :: "pcbref \<Rightarrow> procs \<Rightarrow> procs" where
  "releasePCB pcb s =
     (let s1 = modify pcb (\<lambda>p. p\<lparr>state := DEFUNCT, name := (name p)[0 := 0]\<rparr>) s
      in modify pcb (\<lambda>p. p\<lparr>nextp := NULL, prevp := NULL\<rparr>) (unlink pcb s1))"

definition addToReady :: "pcbref \<Rightarrow> procs \<Rightarrow> procs" where
  "addToReady pcb s =
     (if readyHead s = NULL then s\<lparr>readyTail := pcb, readyHead := pcb\<rparr>
      else if readyHead s = readyTail s then
        (let s1 = modify (readyHead s) (\<lambda>p. p\<lparr>nextp := pcb\<rparr>) s;
             s2 = s1\<lparr>readyTail := pcb\<rparr>
         in modify (readyTail s2) (\<lambda>p. p\<lparr>prevp := readyHead s2\<rparr>) s2)
      else
        (let s1 = modify pcb (\<lambda>p. p\<lparr>prevp := readyTail s\<rparr>) s;
             s2 = modify (prevp (heap s1 pcb)) (\<lambda>p. p\<lparr>nextp := pcb\<rparr>) s1
         in s2\<lparr>readyTail := pcb\<rparr>))"

definition removeFromReady :: "procs \<Rightarrow> pcbref \<times> procs" where
  "removeFromReady s =
     (let temp = readyHead s in
      if temp = NULL then (NULL, s)
      else if readyHead s = readyTail s then
        (temp, s\<lparr>readyHead := NULL, readyTail := NULL\<rparr>)
      else if nextp (heap s (readyHead s)) = readyTail s then
        (let s1 = modify (nextp (heap s (readyHead s))) (\<lambda>p. p\<lparr>prevp := NULL\<rparr>) s;
             s2 = s1\<lparr>readyHead := nextp (heap s1 (readyHead s1))\<rparr>;
             s3 = modify (readyTail s2) (\<lambda>p. p\<lparr>prevp := NULL\<rparr>) s2;
             s4 = modify (readyHead s3) (\<lambda>p. p\<lparr>nextp := NULL\<rparr>) s3
         in (temp, s4))
      else
        (let s1 = s\<lparr>readyHead := nextp (heap s (readyHead s))\<rparr>
         in (temp, modify (readyHead s1) (\<lambda>p. p\<lparr>prevp := NULL\<rparr>) s1)))"

lemmas queue_defs = addToReady_def removeFromReady_def modify_def Let_def


subsection \<open>Frame facts\<close>

text \<open>The queue operations write link fields only; releasing a PCB also resets its state and
  the first character of its name.\<close>

lemma addToReady_frame [simp]:
  "running (addToReady p s) = running s"
  "memoryMap (addToReady p s) = memoryMap s"
  "stray (addToReady p s) = stray s"
  "state (heap (addToReady p s) q) = state (heap s q)"
  "name (heap (addToReady p s) q) = name (heap s q)"
  "segment (heap (addToReady p s) q) = segment (heap s q)"
  "stackPointer (heap (addToReady p s) q) = stackPointer (heap s q)"
  "sleepCounter (heap (addToReady p s) q) = sleepCounter (heap s q)"
  by (simp_all add: queue_defs)

lemma removeFromReady_frame [simp]:
  "running (snd (removeFromReady s)) = running s"
  "memoryMap (snd (removeFromReady s)) = memoryMap s"
  "stray (snd (removeFromReady s)) = stray s"
  "state (heap (snd (removeFromReady s)) q) = state (heap s q)"
  "name (heap (snd (removeFromReady s)) q) = name (heap s q)"
  "segment (heap (snd (removeFromReady s)) q) = segment (heap s q)"
  "stackPointer (heap (snd (removeFromReady s)) q) = stackPointer (heap s q)"
  "sleepCounter (heap (snd (removeFromReady s)) q) = sleepCounter (heap s q)"
  by (simp_all add: queue_defs)

lemma fst_removeFromReady [simp]: "fst (removeFromReady s) = readyHead s"
  by (simp add: removeFromReady_def Let_def)

lemma releasePCB_frame [simp]:
  "running (releasePCB p s) = running s"
  "memoryMap (releasePCB p s) = memoryMap s"
  "stray (releasePCB p s) = stray s"
  "state (heap (releasePCB p s) q) = (if q = p then DEFUNCT else state (heap s q))"
  "name (heap (releasePCB p s) q) = (if q = p then (name (heap s p))[0 := 0] else name (heap s q))"
  "segment (heap (releasePCB p s) q) = segment (heap s q)"
  "stackPointer (heap (releasePCB p s) q) = stackPointer (heap s q)"
  "sleepCounter (heap (releasePCB p s) q) = sleepCounter (heap s q)"
  by (simp_all add: releasePCB_def unlink_def modify_def Let_def)

lemma set_map_frame [simp]:
  "running (set_map i v s) = running s" "heap (set_map i v s) = heap s"
  "readyHead (set_map i v s) = readyHead s" "readyTail (set_map i v s) = readyTail s"
  by (simp_all add: set_map_def)

lemma modify_frame [simp]:
  "running (modify p f s) = running s" "memoryMap (modify p f s) = memoryMap s"
  "stray (modify p f s) = stray s"
  "readyHead (modify p f s) = readyHead s" "readyTail (modify p f s) = readyTail s"
  "heap (modify p f s) q = (if q = p then f (heap s p) else heap s q)"
  by (simp_all add: modify_def)

subsection \<open>The ready queue as a list\<close>

text \<open>\<open>chain h qs\<close>: consecutive elements of \<open>qs\<close> point to each other. The
  \<^verbatim>\<open>next\<close> field of the last element is not constrained: \<^verbatim>\<open>removeFromReady\<close>
  leaves the old \<^verbatim>\<open>next\<close> in a PCB it takes from a queue of three or more, and
  \<^verbatim>\<open>addToReady\<close> does not clear it.\<close>

fun chain :: "(pcbref \<Rightarrow> PCB) \<Rightarrow> pcbref list \<Rightarrow> bool" where
  "chain h [] = True"
| "chain h [x] = True"
| "chain h (x # y # zs) = (nextp (h x) = y \<and> prevp (h y) = x \<and> chain h (y # zs))"

definition queue_repr :: "procs \<Rightarrow> pcbref list \<Rightarrow> bool" where
  "queue_repr s qs \<longleftrightarrow>
     distinct qs \<and> NULL \<notin> set qs \<and> chain (heap s) qs \<and>
     readyHead s = (if qs = [] then NULL else hd qs) \<and>
     readyTail s = (if qs = [] then NULL else last qs)"

lemma chain_Cons:
  "chain h (x # ys) \<longleftrightarrow>
     chain h ys \<and> (ys \<noteq> [] \<longrightarrow> nextp (h x) = hd ys \<and> prevp (h (hd ys)) = x)"
  by (cases ys) auto

lemma chain_append:
  "chain h (xs @ ys) \<longleftrightarrow>
     chain h xs \<and> chain h ys \<and>
     (xs \<noteq> [] \<and> ys \<noteq> [] \<longrightarrow> nextp (h (last xs)) = hd ys \<and> prevp (h (hd ys)) = last xs)"
  by (induction xs) (auto simp: chain_Cons)

lemma chain_cong:
  assumes "\<And>x. x \<in> set (butlast qs) \<Longrightarrow> nextp (h x) = nextp (h' x)"
    and "\<And>x. x \<in> set (tl qs) \<Longrightarrow> prevp (h x) = prevp (h' x)"
  shows "chain h qs \<longleftrightarrow> chain h' qs"
  using assms
proof (induction qs rule: induct_list012)
  case (3 x y zs)
  then have "chain h (y # zs) = chain h' (y # zs)" by (cases zs) auto
  with 3 show ?case by auto
qed auto

lemma queue_repr_Nil [simp]:
  "queue_repr s [] \<longleftrightarrow> readyHead s = NULL \<and> readyTail s = NULL"
  by (simp add: queue_repr_def)

lemma queue_repr_head: "queue_repr s (q # qs) \<Longrightarrow> readyHead s = q"
  by (simp add: queue_repr_def)

lemma queue_repr_head_NULL: "queue_repr s qs \<Longrightarrow> readyHead s = NULL \<longleftrightarrow> qs = []"
  by (cases qs) (auto simp: queue_repr_def)

lemma head_eq_tail:
  "queue_repr s qs \<Longrightarrow> qs \<noteq> [] \<Longrightarrow> readyHead s = readyTail s \<longleftrightarrow> (\<exists>q. qs = [q])"
  by (cases qs) (auto simp: queue_repr_def split: if_splits)


lemma addToReady_links:
  assumes "queue_repr s qs" and "p \<notin> set qs" and "p \<noteq> NULL"
  shows "nextp (heap (addToReady p s) x) =
           (if qs \<noteq> [] \<and> x = last qs then p else nextp (heap s x))"
    and "prevp (heap (addToReady p s) x) =
           (if qs \<noteq> [] \<and> x = p then last qs else prevp (heap s x))"
    and "readyTail (addToReady p s) = p"
    and "readyHead (addToReady p s) = (if qs = [] then p else hd qs)"
  using assms by (cases qs; auto simp: addToReady_def queue_repr_def Let_def split: if_splits)+

lemma addToReady_repr:
  assumes q: "queue_repr s qs" and p: "p \<notin> set qs" "p \<noteq> NULL"
  shows "queue_repr (addToReady p s) (qs @ [p])"
proof -
  note links = addToReady_links [OF q p]
  have "distinct qs" "NULL \<notin> set qs" and ch: "chain (heap s) qs"
    using q by (auto simp: queue_repr_def)
  have "last qs \<notin> set (butlast qs)" if "qs \<noteq> []"
    using \<open>distinct qs\<close> that by (metis append_butlast_last_id distinct_butlast not_distinct_conv_prefix)
  then have "chain (heap (addToReady p s)) qs"
    using ch p by (subst chain_cong [of qs _ "heap s"]) (auto simp: links dest: list.set_sel(2))
  with \<open>distinct qs\<close> \<open>NULL \<notin> set qs\<close> p show ?thesis
    by (auto simp: queue_repr_def chain_append links)
qed

lemma removeFromReady_links:
  assumes "queue_repr s (q # qs)"
  shows "prevp (heap (snd (removeFromReady s)) x) =
           (if qs \<noteq> [] \<and> x = hd qs then NULL else prevp (heap s x))"
    and "nextp (heap (snd (removeFromReady s)) x) =
           (if length qs = 1 \<and> x = hd qs then NULL else nextp (heap s x))"
    and "readyHead (snd (removeFromReady s)) = (if qs = [] then NULL else hd qs)"
    and "readyTail (snd (removeFromReady s)) = (if qs = [] then NULL else last qs)"
  using assms
  by (cases qs rule: remdups_adj.cases;
      auto simp: removeFromReady_def queue_repr_def Let_def split: if_splits)+

lemma removeFromReady_repr:
  assumes q: "queue_repr s (q # qs)"
  shows "queue_repr (snd (removeFromReady s)) qs"
proof -
  note links = removeFromReady_links [OF q]
  have d: "distinct (q # qs)" "NULL \<notin> set (q # qs)" and ch: "chain (heap s) qs"
    using q by (auto simp: queue_repr_def chain_Cons)
  have "hd qs \<notin> set (tl qs)" if "qs \<noteq> []"
    using d that by (cases qs) auto
  moreover have "length qs \<noteq> 1" if "x \<in> set (butlast qs)" for x
    using that by (cases qs rule: remdups_adj.cases) auto
  ultimately have "chain (heap (snd (removeFromReady s))) qs"
    using ch by (subst chain_cong [of qs _ "heap s"]) (auto simp: links)
  with d show ?thesis by (auto simp: queue_repr_def links)
qed

lemma removeFromReady_empty: "queue_repr s [] \<Longrightarrow> removeFromReady s = (NULL, s)"
  by (simp add: removeFromReady_def)


interpretation rq: fifo_queue addToReady removeFromReady NULL queue_repr
  by unfold_locales
    (auto simp: addToReady_repr removeFromReady_repr removeFromReady_empty queue_repr_head,
     auto simp: queue_repr_def)

subsection \<open>Releasing a PCB that is in the queue\<close>

text \<open>\<open>tidy s qs\<close>: the queue is \<open>qs\<close> and only elements behind the head have a
  \<^verbatim>\<open>prev\<close>. Adding and removing keep it.\<close>

definition tidy :: "procs \<Rightarrow> pcbref list \<Rightarrow> bool" where
  "tidy s qs \<longleftrightarrow>
     queue_repr s qs \<and> (\<forall>p. p \<noteq> NULL \<and> p \<notin> set (tl qs) \<longrightarrow> prevp (heap s p) = NULL)"

lemma tidy_repr [dest]: "tidy s qs \<Longrightarrow> queue_repr s qs"
  by (simp add: tidy_def)

lemma tidy_add:
  assumes "tidy s qs" and "p \<notin> set qs" and "p \<noteq> NULL"
  shows "tidy (addToReady p s) (qs @ [p])"
proof -
  have q: "queue_repr s qs" using assms(1) by auto
  show ?thesis
    using assms addToReady_repr [OF q assms(2,3)]
    by (cases qs) (auto simp: tidy_def addToReady_links [OF q assms(2,3)])
qed

lemma tidy_remove:
  assumes "tidy s (q # qs)"
  shows "tidy (snd (removeFromReady s)) qs"
proof -
  have q: "queue_repr s (q # qs)" using assms by auto
  show ?thesis
    using assms removeFromReady_repr [OF q]
    by (cases qs) (auto simp: tidy_def removeFromReady_links [OF q])
qed

lemma releasePCB_links:
  assumes "prevp (heap s p) \<noteq> p" and "nextp (heap s p) \<noteq> p"
  shows "nextp (heap (releasePCB p s) x) =
           (if x = p then NULL
            else if prevp (heap s p) \<noteq> NULL \<and> x = prevp (heap s p) then nextp (heap s p)
            else nextp (heap s x))"
    and "prevp (heap (releasePCB p s) x) =
           (if x = p then NULL
            else if nextp (heap s p) \<noteq> NULL \<and> x = nextp (heap s p) then prevp (heap s p)
            else prevp (heap s x))"
    and "readyHead (releasePCB p s) =
           (if prevp (heap s p) = NULL \<and> nextp (heap s p) \<noteq> NULL then nextp (heap s p)
            else readyHead s)"
    and "readyTail (releasePCB p s) =
           (if prevp (heap s p) \<noteq> NULL \<and> nextp (heap s p) = NULL then prevp (heap s p)
            else readyTail s)"
  using assms by (auto simp: releasePCB_def unlink_def modify_def Let_def)

text \<open>A queued PCB is unlinked properly when the queue holds another one and the
  \<^verbatim>\<open>next\<close> field of the tail is \<open>NULL\<close>.\<close>

lemma releasePCB_queued:
  assumes t: "tidy s (xs @ p # ys)" and len: "xs \<noteq> [] \<or> ys \<noteq> []"
    and last: "ys = [] \<Longrightarrow> nextp (heap s p) = NULL"
  shows "tidy (releasePCB p s) (xs @ ys)"
proof -
  have q: "queue_repr s (xs @ p # ys)" using t by auto
  then have d: "distinct (xs @ p # ys)" "NULL \<notin> set (xs @ p # ys)"
    and ch: "chain (heap s) (xs @ p # ys)"
    and hd: "readyHead s = hd (xs @ p # ys)" and tl: "readyTail s = last (xs @ p # ys)"
    by (auto simp: queue_repr_def)
  have nn: "xs \<noteq> [] \<Longrightarrow> last xs \<noteq> NULL" "ys \<noteq> [] \<Longrightarrow> hd ys \<noteq> NULL"
    using d(2) by (metis Un_iff last_in_set set_append,
        metis Un_iff hd_in_set list.set_intros(2) set_append)
  have pr: "prevp (heap s p) = (if xs = [] then NULL else last xs)"
    using t ch d by (cases xs) (auto simp: tidy_def chain_append chain_Cons)
  have nx: "nextp (heap s p) = (if ys = [] then NULL else hd ys)"
    using ch last by (auto simp: chain_append chain_Cons)
  have ne: "prevp (heap s p) \<noteq> p" "nextp (heap s p) \<noteq> p"
    using d by (auto simp: pr nx)
  note links = releasePCB_links [OF ne, unfolded pr nx]
  have "chain (heap s) xs" "chain (heap s) ys"
    using ch by (auto simp: chain_append chain_Cons)
  moreover have "last xs \<notin> set (butlast xs)" if "xs \<noteq> []"
    using d(1) that by (metis append_butlast_last_id distinct_append not_distinct_conv_prefix)
  moreover have "hd ys \<notin> set (tl ys)" if "ys \<noteq> []"
    using d(1) that by (cases ys) auto
  moreover have "last xs \<notin> set (butlast ys)" if "xs \<noteq> []"
    using d(1) last_in_set [OF that] in_set_butlastD [of "last xs" ys] by auto
  moreover have "hd ys \<notin> set (tl xs)" if "ys \<noteq> []"
    using d(1) that by (cases xs; cases ys) auto
  ultimately have "chain (heap (releasePCB p s)) xs" "chain (heap (releasePCB p s)) ys"
    using d by (subst chain_cong [of _ _ "heap s"];
        auto simp: links dest: in_set_butlastD list.set_sel(2))+
  then have "chain (heap (releasePCB p s)) (xs @ ys)"
    using d nn by (auto simp: chain_append links)
  then have "queue_repr (releasePCB p s) (xs @ ys)"
    using d hd tl len nn by (cases xs; cases ys; auto simp: queue_repr_def links)
  moreover have "prevp (heap (releasePCB p s) r) = NULL"
    if "r \<noteq> NULL" "r \<notin> set (tl (xs @ ys))" for r
    using t that d by (cases xs; cases ys; auto simp: tidy_def links)
  ultimately show ?thesis by (auto simp: tidy_def)
qed

text \<open>A PCB outside the queue is released without touching the queue if its own links are
  clear or it still points to the head, as the running process may.\<close>

lemma releasePCB_not_queued:
  assumes t: "tidy s qs" and p: "p \<notin> set qs" "p \<noteq> NULL"
    and nx: "nextp (heap s p) = NULL \<or> (qs \<noteq> [] \<and> nextp (heap s p) = hd qs)"
  shows "tidy (releasePCB p s) qs"
proof -
  have pr: "prevp (heap s p) = NULL"
    using t p by (cases qs) (auto simp: tidy_def)
  have ne: "prevp (heap s p) \<noteq> p" "nextp (heap s p) \<noteq> p"
    using pr p nx by auto
  note links = releasePCB_links [OF ne, unfolded pr]
  have q: "queue_repr s qs" using t by auto
  have "chain (heap (releasePCB p s)) qs"
  proof (cases qs)
    case (Cons a as)
    then have "a \<notin> set as" using q by (auto simp: queue_repr_def)
    then show ?thesis
      using q p nx Cons
      by (subst chain_cong [of _ _ "heap s"]) (auto simp: links queue_repr_def dest: in_set_butlastD split: if_splits)
  qed simp
  moreover have "hd qs \<noteq> NULL" if "qs \<noteq> []"
    using q that by (cases qs) (auto simp: queue_repr_def)
  ultimately show ?thesis
    using t p nx q by (auto simp: tidy_def queue_repr_def links)
qed


subsection \<open>Initialisation\<close>

text \<open>The shapes the C declarations fix: eight map entries, seven characters per name.\<close>

definition procs_wf :: "procs \<Rightarrow> bool" where
  "procs_wf s \<longleftrightarrow> length (memoryMap s) = 8 \<and> (\<forall>p. length (name (heap s p)) = 7)"

abbreviation reset_pcb :: "PCB \<Rightarrow> PCB" where
  "reset_pcb p \<equiv>
     p\<lparr>name := (name p)[0 := 0], state := DEFUNCT, segment := 0, stackPointer := 0\<rparr>"

lemma init_slots_heap:
  "heap (fold init_slot [0..<n] s) p =
     (case p of Pool i \<Rightarrow> if i < n then reset_pcb (heap s p) else heap s p | _ \<Rightarrow> heap s p)"
  by (induction n) (auto simp: init_slot_def split: pcbref.splits)

lemma init_slots_map:
  assumes "length (memoryMap s) = 8" and "n \<le> 8"
  shows "length (memoryMap (fold init_slot [0..<n] s)) = 8 \<and>
         (\<forall>i<8. memoryMap (fold init_slot [0..<n] s) ! i = (if i < n then FREE else memoryMap s ! i))"
  using assms(2)
proof (induction n)
  case (Suc n)
  then show ?case by (auto simp: init_slot_def set_map_def nth_list_update)
qed (simp add: assms(1))

lemma init_slots_stray: "n \<le> 8 \<Longrightarrow> stray (fold init_slot [0..<n] s) = stray s"
  by (induction n) (auto simp: init_slot_def set_map_def)

lemma init_memoryMap:
  assumes "length (memoryMap s) = 8"
  shows "memoryMap (initializeProcStructures s) = replicate 8 FREE"
  using init_slots_map [OF assms, of 8]
  by (auto simp: initializeProcStructures_def Let_def intro: nth_equalityI)

lemma init_globals [simp]:
  "running (initializeProcStructures s) = IdleProc"
  "readyHead (initializeProcStructures s) = NULL"
  "readyTail (initializeProcStructures s) = NULL"
  "stray (initializeProcStructures s) = stray s"
  by (simp_all add: initializeProcStructures_def Let_def init_slots_stray)

lemma init_pool: "i < 8 \<Longrightarrow>
    heap (initializeProcStructures s) (Pool i) = reset_pcb (heap s (Pool i))"
  by (simp add: initializeProcStructures_def Let_def init_slots_heap)

lemma init_idle:
  "heap (initializeProcStructures s) IdleProc =
     (heap s IdleProc)\<lparr>name := (name (heap s IdleProc))
        [0 := of_char (CHR ''I''), 1 := of_char (CHR ''D''), 2 := of_char (CHR ''L''),
         3 := of_char (CHR ''E''), 4 := 0],
      state := READY, segment := 0, stackPointer := 0\<rparr>"
  by (simp add: initializeProcStructures_def Let_def init_slots_heap)

lemma init_other: "p \<noteq> IdleProc \<Longrightarrow> (\<And>i. i < 8 \<Longrightarrow> p \<noteq> Pool i) \<Longrightarrow>
    heap (initializeProcStructures s) p = heap s p"
  by (auto simp: initializeProcStructures_def Let_def init_slots_heap split: pcbref.splits)

lemma init_links:
  "nextp (heap (initializeProcStructures s) p) = nextp (heap s p)"
  "prevp (heap (initializeProcStructures s) p) = prevp (heap s p)"
  by (auto simp: initializeProcStructures_def Let_def init_slots_heap split: pcbref.splits)

lemma init_name_length:
  "length (name (heap (initializeProcStructures s) p)) = length (name (heap s p))"
  by (auto simp: initializeProcStructures_def Let_def init_slots_heap split: pcbref.splits)

lemma init_wf: "procs_wf s \<Longrightarrow> procs_wf (initializeProcStructures s)"
  by (auto simp: procs_wf_def init_memoryMap init_name_length)

definition pcb0 :: PCB where
  "pcb0 = \<lparr>name = replicate 7 0, state = 0, segment = 0, stackPointer = 0, sleepCounter = 0,
    nextp = NULL, prevp = NULL\<rparr>"

text \<open>The globals as the loader leaves them: all zero.\<close>

definition procs0 :: procs where
  "procs0 = \<lparr>running = NULL, heap = \<lambda>_. pcb0, readyHead = NULL, readyTail = NULL,
    memoryMap = replicate 8 0, stray = []\<rparr>"

lemma procs0_wf: "procs_wf procs0"
  by (simp add: procs_wf_def procs0_def pcb0_def)

subsection \<open>Memory segments and PCBs as slot pools\<close>

definition seg_used :: "procs \<Rightarrow> nat \<Rightarrow> bool" where
  "seg_used s i \<longleftrightarrow> memoryMap s ! i \<noteq> FREE"

definition pcb_used :: "procs \<Rightarrow> nat \<Rightarrow> bool" where
  "pcb_used s i \<longleftrightarrow> state (heap s (Pool i)) \<noteq> DEFUNCT"

lemma find_free_Some:
  "i < n \<Longrightarrow> \<not> u i \<Longrightarrow> \<forall>j<i. u j \<Longrightarrow> find (\<lambda>i. \<not> u i) [0..<n] = Some i"
  by (simp add: find_upt_Some)

lemma getFreeMemorySegment_find:
  "getFreeMemorySegment s =
     (case find (\<lambda>i. \<not> seg_used s i) [0..<8] of
        Some i \<Rightarrow> (int i, set_map (int i) USED s) | None \<Rightarrow> (-1, s))"
  by (simp add: getFreeMemorySegment_def seg_used_def)

lemma getFreePCB_find:
  "getFreePCB s =
     (case find (\<lambda>i. \<not> pcb_used s i) [0..<8] of
        Some i \<Rightarrow> (Pool i, modify (Pool i) (\<lambda>p. p\<lparr>state := STARTING\<rparr>) s) | None \<Rightarrow> (NULL, s))"
  by (simp add: getFreePCB_def pcb_used_def)

interpretation seg: slot_pool getFreeMemorySegment "\<lambda>i. releaseMemorySegment (int i)"
  int "-1" seg_used 8 "\<lambda>s. length (memoryMap s) = 8"
proof (unfold_locales, goal_cases)
  case (1 s i)
  then have "find (\<lambda>i. \<not> seg_used s i) [0..<8] = Some i" by (intro find_free_Some)
  with 1 show ?case
    by (auto simp: getFreeMemorySegment_find seg_used_def set_map_def nth_list_update)
next
  case (2 s)
  then have "find (\<lambda>i. \<not> seg_used s i) [0..<8] = None" by (simp only: find_upt_None) blast
  then show ?case by (simp only: getFreeMemorySegment_find option.case)
qed (auto simp: releaseMemorySegment_def seg_used_def set_map_def nth_list_update)

interpretation pool: slot_pool getFreePCB "\<lambda>i. releasePCB (Pool i)" Pool NULL pcb_used 8 "\<lambda>_. True"
proof (unfold_locales, goal_cases)
  case (1 s i)
  then have "find (\<lambda>i. \<not> pcb_used s i) [0..<8] = Some i" by (intro find_free_Some)
  then show ?case by (auto simp: getFreePCB_find pcb_used_def)
next
  case (2 s)
  then have "find (\<lambda>i. \<not> pcb_used s i) [0..<8] = None" by (simp only: find_upt_None) blast
  then show ?case by (simp only: getFreePCB_find option.case)
qed (auto simp: pcb_used_def)

lemma getFreeMemorySegment_frame [simp]:
  "running (snd (getFreeMemorySegment s)) = running s"
  "heap (snd (getFreeMemorySegment s)) = heap s"
  "readyHead (snd (getFreeMemorySegment s)) = readyHead s"
  "readyTail (snd (getFreeMemorySegment s)) = readyTail s"
  by (auto simp: getFreeMemorySegment_def split: option.splits)

lemma getFreePCB_frame [simp]:
  "running (snd (getFreePCB s)) = running s"
  "memoryMap (snd (getFreePCB s)) = memoryMap s"
  "stray (snd (getFreePCB s)) = stray s"
  "readyHead (snd (getFreePCB s)) = readyHead s"
  "readyTail (snd (getFreePCB s)) = readyTail s"
  "nextp (heap (snd (getFreePCB s)) p) = nextp (heap s p)"
  "prevp (heap (snd (getFreePCB s)) p) = prevp (heap s p)"
  "segment (heap (snd (getFreePCB s)) p) = segment (heap s p)"
  "name (heap (snd (getFreePCB s)) p) = name (heap s p)"
  by (auto simp: getFreePCB_def split: option.splits)

subsection \<open>What the structures promise\<close>

text \<open>The ready queue is first in, first out: PCBs added to an empty queue come out in the order
  they went in, and the queue is then empty again.\<close>

theorem ready_queue_fifo:
  assumes "queue_repr s []" and "distinct ps" and "NULL \<notin> set ps"
  shows "fst (drain removeFromReady (length ps) (fold addToReady ps s)) = ps \<and>
     queue_repr (snd (drain removeFromReady (length ps) (fold addToReady ps s))) []"
  using rq.fifo_order [OF assms] by simp

theorem ready_queue_fifo_witness:
  "fst (drain removeFromReady 3 (fold addToReady [Pool 4, Pool 1, Pool 2] procs0)) = [Pool 4, Pool 1, Pool 2]"
  using ready_queue_fifo [of procs0 "[Pool 4, Pool 1, Pool 2]"]
  by (simp add: procs0_def numeral_3_eq_3)

text \<open>Releasing a queued PCB takes it out of the doubly linked ready queue, wherever it stands,
  and keeps the order of the others, if the queue holds another PCB and the last one's
  \<^verbatim>\<open>next\<close> is clear.\<close>

theorem releasePCB_unlinks:
  assumes "tidy s (xs @ p # ys)" and "xs \<noteq> [] \<or> ys \<noteq> []" and "nextp (heap s (last (p # ys))) = NULL"
  shows "queue_repr (releasePCB p s) (xs @ ys) \<and> state (heap (releasePCB p s) p) = DEFUNCT"
proof -
  have "ys = [] \<Longrightarrow> nextp (heap s p) = NULL" using assms(3) by simp
  from releasePCB_queued [OF assms(1,2) this] show ?thesis by auto
qed

theorem releasePCB_unlinks_witness:
  "queue_repr (releasePCB (Pool 1) (fold addToReady [Pool 0, Pool 1, Pool 2] procs0)) [Pool 0, Pool 2]"
proof -
  let ?s = "fold addToReady [Pool 0, Pool 1, Pool 2] procs0"
  have t0: "tidy procs0 []" by (simp add: tidy_def procs0_def pcb0_def)
  have "tidy ?s ([Pool 0] @ Pool 1 # [Pool 2])"
    using tidy_add [OF tidy_add [OF tidy_add [OF t0, of "Pool 0"], of "Pool 1"], of "Pool 2"] by simp
  from releasePCB_unlinks [OF this] show ?thesis
    by (simp add: addToReady_def Let_def procs0_def pcb0_def)
qed

text \<open>Memory segments are handed out from the lowest free one, each once: from a map with no
  segment in use, \<open>n \<le> 8\<close> calls return 0 to \<open>n - 1\<close>, and a call when all eight are taken returns
  \<open>-1\<close> and changes nothing.\<close>

theorem segments_in_order:
  assumes "memoryMap s = replicate 8 FREE" and "n \<le> 8"
  shows "fst (drain getFreeMemorySegment n s) = map int [0..<n] \<and>
     getFreeMemorySegment (snd (drain getFreeMemorySegment 8 s)) =
       (-1, snd (drain getFreeMemorySegment 8 s))"
proof -
  have l: "length (memoryMap s) = 8" and f: "\<forall>i<8. \<not> seg_used s i"
    using assms(1) by (simp_all add: seg_used_def)
  have w: "length (memoryMap (snd (drain getFreeMemorySegment 8 s))) = 8"
    and u: "\<forall>i<8. seg_used (snd (drain getFreeMemorySegment 8 s)) i"
    using seg.alloc_in_order [OF l f, of 8] by blast+
  show ?thesis using seg.alloc_in_order [OF l f assms(2)] seg.alloc_full [OF w u] by blast
qed

theorem segments_in_order_witness:
  "fst (drain getFreeMemorySegment 3 procs0) = map int [0..<3]"
  using segments_in_order [of procs0 3] by (simp add: procs0_def)

text \<open>Releasing a PCB that is alone in the ready queue leaves it there: none of the three
  cases of \<^verbatim>\<open>releasePCB\<close> applies to it, so the queue still starts and ends with the released
  PCB and \<^verbatim>\<open>removeFromReady\<close> hands it out.\<close>

theorem releasePCB_alone:
  assumes "tidy s [p]" and "nextp (heap s p) = NULL"
  shows "queue_repr (releasePCB p s) [p] \<and> fst (removeFromReady (releasePCB p s)) = p \<and>
     state (heap (releasePCB p s) p) = DEFUNCT"
proof -
  have q: "queue_repr s [p]" and pr: "prevp (heap s p) = NULL" "p \<noteq> NULL"
    using assms(1) by (auto simp: tidy_def queue_repr_def)
  then have ne: "prevp (heap s p) \<noteq> p" "nextp (heap s p) \<noteq> p" using assms(2) by auto
  have "queue_repr (releasePCB p s) [p]"
    using q releasePCB_links(3,4) [OF ne] pr(1) assms(2) by (simp add: queue_repr_def)
  then show ?thesis by (simp add: queue_repr_def)
qed

theorem releasePCB_alone_witness:
  "fst (removeFromReady (releasePCB (Pool 3) (addToReady (Pool 3) procs0))) = Pool 3"
proof -
  have t0: "tidy procs0 []" by (simp add: tidy_def procs0_def pcb0_def)
  have "tidy (addToReady (Pool 3) procs0) [Pool 3]" using tidy_add [OF t0, of "Pool 3"] by simp
  from releasePCB_alone [OF this] show ?thesis by (simp add: addToReady_def Let_def procs0_def pcb0_def)
qed


end
