(* ===== verification/OS_ProcTest.thy ===== *)
theory OS_ProcTest
  imports OS_Proc
begin

section \<open>The unit tests of the process structures\<close>

text \<open>
  Models \<^verbatim>\<open>project6/testproc.c\<close>: each test function is a definition that runs the
  same calls and gives \<^const>\<open>None\<close> when an \<^verbatim>\<open>assert\<close> fails. The local PCBs
  \<^verbatim>\<open>check1\<close>, \<^verbatim>\<open>check2\<close>, \<^verbatim>\<open>check3\<close> are
  \<open>Extern 1\<close>, \<open>Extern 2\<close>, \<open>Extern 3\<close>; their uninitialised fields are whatever the heap holds.
  The \<^verbatim>\<open>printf\<close> calls of \<^verbatim>\<open>main\<close> are left out.
\<close>

subsection \<open>The tests\<close>

definition ensure :: "bool \<Rightarrow> procs \<Rightarrow> procs option" where
  "ensure b s = (if b then Some s else None)"

text \<open>\<open>c_string p\<close>: the bytes before the terminator, as \<^verbatim>\<open>strcmp\<close> sees them.\<close>

definition c_string :: "byte list \<Rightarrow> byte list" where
  "c_string = takeWhile (\<lambda>b. b \<noteq> 0)"

definition testInit :: "procs \<Rightarrow> procs option" where
  "testInit s0 =
     (let s = initializeProcStructures s0 in
      ensure (running s = IdleProc \<and> readyHead s = NULL \<and> readyTail s = NULL \<and>
        list_all (\<lambda>i. memoryMap s ! i = FREE \<and> name (heap s (Pool i)) ! 0 = 0 \<and>
            state (heap s (Pool i)) = DEFUNCT \<and> segment (heap s (Pool i)) = 0 \<and>
            stackPointer (heap s (Pool i)) = 0) [0..<8] \<and>
        c_string (name (heap s IdleProc)) = map of_char ''IDLE'' \<and>
        segment (heap s IdleProc) = 0 \<and> stackPointer (heap s IdleProc) = 0) s)"

definition take_segment :: "nat \<Rightarrow> procs \<Rightarrow> procs option" where
  "take_segment i s =
     (let (check, s') = getFreeMemorySegment s in
      ensure (check = int i \<and> memoryMap s' ! i = USED) s')"

fun each :: "nat \<Rightarrow> nat \<Rightarrow> (nat \<Rightarrow> procs \<Rightarrow> procs option) \<Rightarrow> procs \<Rightarrow> procs option" where
  "each i 0 f s = Some s"
| "each i (Suc n) f s = do { s' \<leftarrow> f i s; each (Suc i) n f s' }"

definition testGetFreeMemorySegment :: "procs \<Rightarrow> procs option" where
  "testGetFreeMemorySegment s0 =
     do { s \<leftarrow> each 0 8 take_segment (initializeProcStructures s0);
          let (check, s') = getFreeMemorySegment s;
          ensure (check = -1) s' }"

definition testReleaseMemorySegment :: "procs \<Rightarrow> procs option" where
  "testReleaseMemorySegment s0 =
     do { s \<leftarrow> testGetFreeMemorySegment (initializeProcStructures s0);
          each 0 8 (\<lambda>i s. let s' = releaseMemorySegment (int i) s in
                     ensure (memoryMap s' ! i = FREE) s') s }"

text \<open>The first assertion of the loop is an assignment, \<^verbatim>\<open>pcbPool[i].state = STARTING\<close>.\<close>

definition take_pcb :: "nat \<Rightarrow> procs \<Rightarrow> procs option" where
  "take_pcb i s =
     (let (check, s1) = getFreePCB s;
          s2 = modify (Pool i) (\<lambda>p. p\<lparr>state := STARTING\<rparr>) s1
      in ensure (state (heap s2 (Pool i)) \<noteq> 0 \<and> check = Pool i) s2)"

definition testGetFreePCB :: "procs \<Rightarrow> procs option" where
  "testGetFreePCB s0 =
     do { s \<leftarrow> each 0 8 take_pcb (initializeProcStructures s0);
          let (check, s') = getFreePCB s;
          ensure (check = NULL) s' }"

definition release_check :: "pcbref list \<Rightarrow> nat \<Rightarrow> procs \<Rightarrow> procs option" where
  "release_check check i s =
     (let s' = releasePCB (check ! i) s; p = heap s' (Pool i) in
      ensure (state p = DEFUNCT \<and> name p ! 0 = 0 \<and> nextp p = NULL \<and> prevp p = NULL) s')"

definition testReleasePCB :: "procs \<Rightarrow> procs option" where
  "testReleasePCB s0 =
     (let (check, s) = drain getFreePCB 8 (initializeProcStructures s0) in
      each 0 8 (release_check check) s)"

definition testAddToReady :: "procs \<Rightarrow> procs option" where
  "testAddToReady s0 =
     (let check1 = Extern 1; check2 = Extern 2; check3 = Extern 3;
          s1 = addToReady check1 (initializeProcStructures s0);
          s2 = addToReady check2 s1;
          s3 = addToReady check3 s2
      in do { _ \<leftarrow> ensure (readyHead s1 = check1 \<and> readyTail s1 = check1) s1;
              _ \<leftarrow> ensure (readyHead s2 = check1 \<and> nextp (heap s2 (readyHead s2)) = check2 \<and>
                     readyTail s2 = check2 \<and> prevp (heap s2 (readyTail s2)) = check1) s2;
              ensure (readyHead s3 = check1 \<and> nextp (heap s3 (readyHead s3)) = check2 \<and>
                nextp (heap s3 (nextp (heap s3 (readyHead s3)))) = check3 \<and>
                readyTail s3 = check3 \<and> prevp (heap s3 (readyTail s3)) = check2 \<and>
                prevp (heap s3 (prevp (heap s3 (readyTail s3)))) = check1) s3 })"

definition testRemoveFromReady :: "procs \<Rightarrow> procs option" where
  "testRemoveFromReady s0 =
     (let check1 = Extern 1; check2 = Extern 2; check3 = Extern 3;
          (r0, s1) = removeFromReady (initializeProcStructures s0);
          (r1, s2) = removeFromReady (addToReady check1 s1);
          (r2, s3) = removeFromReady (addToReady check2 (addToReady check1 s2));
          (_, s4) = removeFromReady s3;
          (r3, s5) = removeFromReady (addToReady check3 (addToReady check2 (addToReady check1 s4)))
      in do { _ \<leftarrow> ensure (r0 = NULL) s1;
              _ \<leftarrow> ensure (r1 = check1 \<and> readyHead s2 = NULL \<and> readyTail s2 = NULL) s2;
              _ \<leftarrow> ensure (r2 = check1 \<and> readyHead s3 = check2 \<and> readyTail s3 = check2 \<and>
                     nextp (heap s3 (readyHead s3)) = NULL \<and> prevp (heap s3 (readyHead s3)) = NULL) s3;
              ensure (r3 = check1 \<and> readyHead s5 = check2 \<and> readyTail s5 = check3 \<and>
                nextp (heap s5 (readyHead s5)) = check3 \<and> prevp (heap s5 (readyTail s5)) = check2 \<and>
                prevp (heap s5 (readyHead s5)) = NULL) s5 })"

definition test_main :: "procs \<Rightarrow> procs option" where
  "test_main s =
     do { s \<leftarrow> testInit s; s \<leftarrow> testGetFreeMemorySegment s; s \<leftarrow> testReleaseMemorySegment s;
          s \<leftarrow> testGetFreePCB s; s \<leftarrow> testReleasePCB s; s \<leftarrow> testAddToReady s; testRemoveFromReady s }"

subsection \<open>They all pass\<close>

lemma testInit_passes: "procs_wf s \<Longrightarrow> testInit s = Some (initializeProcStructures s)"
proof -
  assume wf: "procs_wf s"
  have "length (name (heap s IdleProc)) = 7" using wf by (simp add: procs_wf_def)
  then obtain a b c d e f g where "name (heap s IdleProc) = [a, b, c, d, e, f, g]"
    by (auto simp: length_Suc_conv numeral_eq_Suc)
  then have "c_string (name (heap (initializeProcStructures s) IdleProc)) = map of_char ''IDLE''"
    by (simp add: c_string_def init_idle)
  moreover have "list_all (\<lambda>i. memoryMap (initializeProcStructures s) ! i = FREE \<and>
      name (heap (initializeProcStructures s) (Pool i)) ! 0 = 0 \<and>
      state (heap (initializeProcStructures s) (Pool i)) = DEFUNCT \<and>
      segment (heap (initializeProcStructures s) (Pool i)) = 0 \<and>
      stackPointer (heap (initializeProcStructures s) (Pool i)) = 0) [0..<8]"
    using wf by (simp only: list_all_iff set_upt) (auto simp: procs_wf_def init_memoryMap init_pool)
  ultimately show ?thesis
    by (simp add: testInit_def Let_def ensure_def init_idle del: upt_rec_numeral)
qed

text \<open>A loop of checks passes when an invariant carries it from step to step.\<close>

lemma each_invariant:
  assumes "\<And>i s. k \<le> i \<Longrightarrow> i < k + n \<Longrightarrow> I i s \<Longrightarrow> \<exists>s'. f i s = Some s' \<and> I (Suc i) s'" and "I k s"
  shows "\<exists>s'. each k n f s = Some s' \<and> I (k + n) s'"
  using assms
proof (induction n arbitrary: k s)
  case (Suc n)
  from Suc.prems(1) [of k s] Suc.prems(2) obtain s1 where "f k s = Some s1" "I (Suc k) s1" by auto
  with Suc.IH [of "Suc k" s1] Suc.prems(1) show ?case by auto
qed simp
lemma each0_invariant:
  "I 0 s \<Longrightarrow> (\<And>i s. i < n \<Longrightarrow> I i s \<Longrightarrow> \<exists>s'. f i s = Some s' \<and> I (Suc i) s') \<Longrightarrow>
     \<exists>s'. each 0 n f s = Some s' \<and> I n s'"
  using each_invariant [of 0 n I f s] by simp

lemma wf_steps [simp]:
  "procs_wf (set_map i v s) = procs_wf s"
  "procs_wf (addToReady p s) = procs_wf s"
  "procs_wf (snd (removeFromReady s)) = procs_wf s"
  "procs_wf (releasePCB p s) = procs_wf s"
  "procs_wf (snd (getFreePCB s)) = procs_wf s"
  "procs_wf (snd (getFreeMemorySegment s)) = procs_wf s"
  by (auto simp: procs_wf_def set_map_def getFreeMemorySegment_def split: option.splits if_splits)

definition segs_taken :: "nat \<Rightarrow> procs \<Rightarrow> bool" where
  "segs_taken i s \<longleftrightarrow> procs_wf s \<and> (\<forall>j<8. memoryMap s ! j = (if j < i then USED else FREE))"

lemma take_segment_step:
  "i < 8 \<Longrightarrow> segs_taken i s \<Longrightarrow> \<exists>s'. take_segment i s = Some s' \<and> segs_taken (Suc i) s'"
proof -
  assume a: "i < 8" "segs_taken i s"
  then have "find (\<lambda>i. memoryMap s ! i = FREE) [0..<8] = Some i"
    by (simp add: find_upt_Some segs_taken_def)
  then have "getFreeMemorySegment s = (int i, set_map (int i) USED s)"
    by (simp add: getFreeMemorySegment_def)
  moreover have "segs_taken (Suc i) (set_map (int i) USED s)"
    using a by (auto simp: segs_taken_def procs_wf_def set_map_def nth_list_update)
  ultimately show ?thesis
    using a by (simp add: take_segment_def ensure_def segs_taken_def)
qed

lemma testGetFreeMemorySegment_passes:
  assumes "procs_wf s"
  shows "\<exists>s'. testGetFreeMemorySegment s = Some s' \<and> segs_taken 8 s'"
proof -
  have "segs_taken 0 (initializeProcStructures s)"
    using assms init_wf by (simp add: segs_taken_def init_memoryMap procs_wf_def)
  then obtain s' where s': "each 0 8 take_segment (initializeProcStructures s) = Some s'" "segs_taken 8 s'"
    using each0_invariant [of segs_taken _ 8 take_segment] take_segment_step by meson
  then have "find (\<lambda>i. memoryMap s' ! i = FREE) [0..<8] = None"
    by (simp only: find_upt_None segs_taken_def) auto
  then show ?thesis
    using s' by (simp add: testGetFreeMemorySegment_def getFreeMemorySegment_def ensure_def)
qed

lemma testReleaseMemorySegment_passes:
  assumes "procs_wf s"
  shows "\<exists>s'. testReleaseMemorySegment s = Some s' \<and> procs_wf s'"
proof -
  obtain s1 where s1: "testGetFreeMemorySegment (initializeProcStructures s) = Some s1" "procs_wf s1"
    using testGetFreeMemorySegment_passes [OF init_wf [OF assms]] by (auto simp: segs_taken_def)
  have "\<exists>s'. each 0 8 (\<lambda>i s. let s' = releaseMemorySegment (int i) s in
      ensure (memoryMap s' ! i = FREE) s') s1 = Some s' \<and> procs_wf s'"
    using s1(2) by (intro each_invariant [of 0 8 "\<lambda>_. procs_wf", simplified])
      (auto simp: releaseMemorySegment_def ensure_def procs_wf_def set_map_def)
  then show ?thesis by (simp add: testReleaseMemorySegment_def s1)
qed

definition pcbs_taken :: "nat \<Rightarrow> procs \<Rightarrow> bool" where
  "pcbs_taken i s \<longleftrightarrow>
     procs_wf s \<and> (\<forall>j<8. state (heap s (Pool j)) = (if j < i then STARTING else DEFUNCT))"

lemma getFreePCB_step:
  assumes "i < 8" and "pcbs_taken i s"
  shows "getFreePCB s = (Pool i, modify (Pool i) (\<lambda>p. p\<lparr>state := STARTING\<rparr>) s)"
proof -
  have "find (\<lambda>i. state (heap s (Pool i)) = DEFUNCT) [0..<8] = Some i"
    using assms by (simp add: find_upt_Some pcbs_taken_def)
  then show ?thesis by (simp add: getFreePCB_def)
qed

lemma pcbs_taken_Suc:
  "pcbs_taken i s \<Longrightarrow> pcbs_taken (Suc i) (modify (Pool i) (\<lambda>p. p\<lparr>state := STARTING\<rparr>) s)"
  by (auto simp: pcbs_taken_def procs_wf_def)

lemma pcbs_taken_init: "procs_wf s \<Longrightarrow> pcbs_taken 0 (initializeProcStructures s)"
  by (simp add: pcbs_taken_def init_wf init_pool)

lemma testGetFreePCB_passes:
  assumes "procs_wf s"
  shows "\<exists>s'. testGetFreePCB s = Some s' \<and> procs_wf s'"
proof -
  have "\<exists>s'. take_pcb i s = Some s' \<and> pcbs_taken (Suc i) s'" if "i < 8" "pcbs_taken i s" for i s
    using getFreePCB_step [OF that] pcbs_taken_Suc [OF pcbs_taken_Suc [OF that(2), THEN iffD1 [OF refl]]] that(2)
    by (auto simp: take_pcb_def ensure_def pcbs_taken_def procs_wf_def)
  then obtain s' where s': "each 0 8 take_pcb (initializeProcStructures s) = Some s'" "pcbs_taken 8 s'"
    using each0_invariant [of pcbs_taken _ 8 take_pcb] pcbs_taken_init [OF assms] by meson
  then have "find (\<lambda>i. state (heap s' (Pool i)) = DEFUNCT) [0..<8] = None"
    by (simp only: find_upt_None pcbs_taken_def) auto
  then show ?thesis
    using s' by (simp add: testGetFreePCB_def getFreePCB_def ensure_def pcbs_taken_def)
qed

lemma drain_pcbs:
  "pcbs_taken i s \<Longrightarrow> i + n \<le> 8 \<Longrightarrow>
     fst (drain getFreePCB n s) = map Pool [i..<i + n] \<and> pcbs_taken (i + n) (snd (drain getFreePCB n s))"
proof (induction n arbitrary: i s)
  case (Suc n)
  then have "getFreePCB s = (Pool i, modify (Pool i) (\<lambda>p. p\<lparr>state := STARTING\<rparr>) s)"
    by (intro getFreePCB_step) auto
  with Suc.IH [OF pcbs_taken_Suc [OF Suc.prems(1)]] Suc.prems(2) show ?case
    by (simp add: case_prod_beta Let_def upt_conv_Cons)
qed simp

lemma testReleasePCB_passes:
  assumes "procs_wf s"
  shows "\<exists>s'. testReleasePCB s = Some s' \<and> procs_wf s'"
proof -
  let ?d = "drain getFreePCB 8 (initializeProcStructures s)"
  have d: "fst ?d = map Pool [0..<8]" "procs_wf (snd ?d)"
    using drain_pcbs [OF pcbs_taken_init [OF assms], of 8] by (auto simp: pcbs_taken_def)
  have "\<exists>s'. release_check (map Pool [0..<8]) i s = Some s' \<and> procs_wf s'" if "i < 8" "procs_wf s" for i s
  proof -
    have "length (name (heap s (Pool i))) = 7" using that by (simp add: procs_wf_def)
    moreover have "nextp (heap (releasePCB p s) p) = NULL" "prevp (heap (releasePCB p s) p) = NULL" for p
      by (simp_all add: releasePCB_def)
    ultimately show ?thesis using that by (simp add: release_check_def ensure_def del: upt_rec_numeral)
  qed
  then have "\<exists>s'. each 0 8 (release_check (map Pool [0..<8])) (snd ?d) = Some s' \<and> procs_wf s'"
    using each_invariant [of 0 8 "\<lambda>_. procs_wf" "release_check (map Pool [0..<8])" "snd ?d"] d(2)
    by (simp del: upt_rec_numeral)
  then show ?thesis using d(1) by (simp add: testReleasePCB_def case_prod_beta)
qed

lemma testAddToReady_passes:
  "procs_wf s \<Longrightarrow> \<exists>s'. testAddToReady s = Some s' \<and> procs_wf s'"
  by (simp add: testAddToReady_def addToReady_def Let_def ensure_def procs_wf_def init_name_length
      init_memoryMap)

lemma testRemoveFromReady_passes:
  "procs_wf s \<Longrightarrow> \<exists>s'. testRemoveFromReady s = Some s'"
  by (simp add: testRemoveFromReady_def addToReady_def removeFromReady_def Let_def ensure_def)

text \<open>The program's unit tests pass: from any values of the globals and of the local PCBs, as
  long as the arrays have their declared sizes, no \<^verbatim>\<open>assert\<close> of \<^verbatim>\<open>testproc.c\<close> fails.\<close>

theorem unit_tests_pass:
  assumes "procs_wf s"
  shows "\<exists>s'. test_main s = Some s'"
proof -
  obtain s2 where s2: "testGetFreeMemorySegment (initializeProcStructures s) = Some s2" "procs_wf s2"
    using testGetFreeMemorySegment_passes [OF init_wf [OF assms]] by (auto simp: segs_taken_def)
  obtain s3 where s3: "testReleaseMemorySegment s2 = Some s3" "procs_wf s3"
    using testReleaseMemorySegment_passes [OF s2(2)] by auto
  obtain s4 where s4: "testGetFreePCB s3 = Some s4" "procs_wf s4"
    using testGetFreePCB_passes [OF s3(2)] by auto
  obtain s5 where s5: "testReleasePCB s4 = Some s5" "procs_wf s5"
    using testReleasePCB_passes [OF s4(2)] by auto
  obtain s6 where s6: "testAddToReady s5 = Some s6" "procs_wf s6"
    using testAddToReady_passes [OF s5(2)] by auto
  show ?thesis
    using testRemoveFromReady_passes [OF s6(2)]
    by (simp add: test_main_def testInit_passes [OF assms] s2 s3 s4 s5 s6)
qed

theorem unit_tests_pass_witness: "\<exists>s'. test_main procs0 = Some s'"
  by (rule unit_tests_pass [OF procs0_wf])


end
