(* ===== verification/OS_Console.thy ===== *)
theory OS_Console
  imports OS_Prelude
begin

section \<open>Memory stores, strings, keyboard and screen\<close>

text \<open>
  Models the string and console functions of \<^verbatim>\<open>project6/kernel.c\<close>:
  \<^verbatim>\<open>stringMatch\<close>, \<^verbatim>\<open>printString\<close>, \<^verbatim>\<open>readString\<close>,
  \<^verbatim>\<open>putChar\<close>, \<^verbatim>\<open>putStr\<close>, and \<^verbatim>\<open>putInMemory\<close> of
  \<^verbatim>\<open>kernel.asm\<close>. BIOS teletype output (interrupt 0x10, function 0x0E) appends a
  byte to the output; the keyboard service (interrupt 0x16) takes the next byte of the
  input and waits forever when there is none, so a function that runs out of keys has the
  result \<^const>\<open>None\<close>. A loop counter is a 16-bit offset from the pointer, written as
  a \<^typ>\<open>nat\<close> below 65536; the C int it is returned as is its \<^const>\<open>i16\<close>.
\<close>

subsection \<open>Physical memory\<close>

type_synonym mem = "nat \<Rightarrow> byte"

definition u16 :: "int \<Rightarrow> int" where
  "u16 x = x mod 65536"

text \<open>The address of \<open>seg:off\<close> in real mode.\<close>

definition phys :: "int \<Rightarrow> int \<Rightarrow> nat" where
  "phys seg off = nat (u16 seg * 16 + u16 off)"

definition putInMemory :: "int \<Rightarrow> int \<Rightarrow> byte \<Rightarrow> mem \<Rightarrow> mem" where
  "putInMemory seg addr c m = m(phys seg addr := c)"

lemma u16_id [simp]: "0 \<le> x \<Longrightarrow> x < 65536 \<Longrightarrow> u16 x = x"
  by (simp add: u16_def)

lemma u16_i16 [simp]: "u16 (i16 x) = u16 x"
proof -
  have "signed_take_bit 15 x mod 65536 = take_bit 16 (signed_take_bit 15 x)"
    by (simp add: take_bit_eq_mod)
  also have "\<dots> = take_bit 16 x" by (simp add: take_bit_signed_take_bit)
  finally show ?thesis by (simp add: u16_def i16_def take_bit_eq_mod)
qed

subsection \<open>stringMatch\<close>

text \<open>The loop stops with 0 at the first difference.\<close>

definition stringMatch :: "byte list \<Rightarrow> byte list \<Rightarrow> nat \<Rightarrow> int" where
  "stringMatch command inp n =
     (case find (\<lambda>i. command ! i \<noteq> inp ! i) [0..<n] of Some _ \<Rightarrow> 0 | None \<Rightarrow> 1)"

lemma stringMatch_take:
  assumes "n \<le> length a" and "n \<le> length b"
  shows "stringMatch a b n = (if take n a = take n b then 1 else 0)"
proof -
  have "take n a = take n b \<longleftrightarrow> (\<forall>i<n. a ! i = b ! i)"
    using assms by (auto simp: list_eq_iff_nth_eq)
  moreover have "find (\<lambda>i. a ! i \<noteq> b ! i) [0..<n] = None \<longleftrightarrow> (\<forall>i<n. a ! i = b ! i)"
    by (simp add: find_upt_None)
  ultimately show ?thesis
    by (auto simp: stringMatch_def split: option.splits)
qed

lemma stringMatch_01: "stringMatch a b n = 0 \<or> stringMatch a b n = 1"
  by (auto simp: stringMatch_def split: option.splits)

subsection \<open>printString\<close>

text \<open>\<open>str i\<close> is the byte \<open>i\<close> places behind the pointer. \<open>print_loop str i out\<close> is the loop with
  counter \<open>i\<close>; with no terminator in the 64 KiB the loop runs for ever.\<close>

function print_loop :: "(nat \<Rightarrow> byte) \<Rightarrow> nat \<Rightarrow> byte list \<Rightarrow> (int \<times> byte list) option" where
  "print_loop str i out =
     (if i > 65535 then None
      else if str i = 0 then Some (i16 (int i), out)
      else print_loop str (Suc i) (out @ [str i]))"
  by pat_completeness auto
termination
  by (relation "measure (\<lambda>(str, i, out). 65536 - i)") auto

declare print_loop.simps [simp del]

definition printString :: "(nat \<Rightarrow> byte) \<Rightarrow> byte list \<Rightarrow> (int \<times> byte list) option" where
  "printString str out = print_loop str 0 out"

text \<open>A string literal as the memory behind its pointer: the bytes, then the terminator.\<close>

definition lit :: "byte list \<Rightarrow> nat \<Rightarrow> byte" where
  "lit s i = (if i < length s then s ! i else 0)"

lemma print_loop_stop:
  assumes "\<forall>j. i \<le> j \<and> j < n \<longrightarrow> str j \<noteq> 0" and "str n = 0" and "i \<le> n" and "n \<le> 65535"
  shows "print_loop str i out = Some (i16 (int n), out @ map str [i..<n])"
  using assms
proof (induction str i out rule: print_loop.induct)
  case (1 str i out)
  show ?case
  proof (cases "i = n")
    case False
    with "1.prems" have "i < n" "str i \<noteq> 0" by auto
    moreover have "print_loop str (Suc i) (out @ [str i]) =
        Some (i16 (int n), (out @ [str i]) @ map str [Suc i..<n])"
      using "1.IH" "1.prems" \<open>i < n\<close> \<open>str i \<noteq> 0\<close> by auto
    ultimately show ?thesis
      using "1.prems" by (simp add: print_loop.simps [of str i out] upt_conv_Cons)
  qed (use "1.prems" in \<open>simp add: print_loop.simps [of str n out]\<close>)
qed

lemma print_loop_no_end:
  assumes "\<forall>j. i \<le> j \<and> j \<le> 65535 \<longrightarrow> str j \<noteq> 0"
  shows "print_loop str i out = None"
  using assms
proof (induction str i out rule: print_loop.induct)
  case (1 str i out)
  then show ?case by (cases "i > 65535") (auto simp: print_loop.simps [of str i out])
qed

lemma printString_lit:
  assumes "0 \<notin> set s" and "length s \<le> 32767"
  shows "printString (lit s) out = Some (int (length s), out @ s)"
proof -
  have "map (lit s) [0..<length s] = s"
    by (rule nth_equalityI) (auto simp: lit_def)
  moreover have "\<forall>j. 0 \<le> j \<and> j < length s \<longrightarrow> lit s j \<noteq> 0"
    using assms(1) nth_mem by (fastforce simp: lit_def)
  ultimately show ?thesis
    using print_loop_stop [of 0 "length s" "lit s" out] assms(2)
    by (simp add: printString_def lit_def)
qed

subsection \<open>readString\<close>

abbreviation "KEY_ENTER \<equiv> (0x0D :: byte)"
abbreviation "KEY_BACKSPACE \<equiv> (0x08 :: byte)"

text \<open>\<open>read_loop in i buf out keys\<close>: \<open>in\<close> was just read, \<open>keys\<close> is what the keyboard
  will still deliver, \<open>out\<close> the echo so far.\<close>

fun read_loop ::
    "byte \<Rightarrow> nat \<Rightarrow> (nat \<Rightarrow> byte) \<Rightarrow> byte list \<Rightarrow> byte list
      \<Rightarrow> (int \<times> (nat \<Rightarrow> byte) \<times> byte list \<times> byte list) option" where
  "read_loop inp i buf out keys =
     (if inp = KEY_ENTER then Some (i16 (int i), buf(i := 0), out, keys)
      else case keys of
        [] \<Rightarrow> None
      | key # keys' \<Rightarrow>
          if inp = KEY_BACKSPACE then
            (if i \<noteq> 0 then read_loop key (i - 1) (buf(i - 1 := 0)) (out @ [0x08, 0x20, 0x08]) keys'
             else read_loop key i buf out keys')
          else read_loop key ((i + 1) mod 65536) (buf(i := inp)) (out @ [inp]) keys')"

definition readString ::
    "(nat \<Rightarrow> byte) \<Rightarrow> byte list \<Rightarrow> byte list
      \<Rightarrow> (int \<times> (nat \<Rightarrow> byte) \<times> byte list \<times> byte list) option" where
  "readString buf out keys =
     (case keys of [] \<Rightarrow> None | key # keys' \<Rightarrow> read_loop key 0 buf out keys')"

text \<open>The specification: what a line editor with a backspace key leaves of the typed keys,
  and what a teletype shows for the echoed bytes (a backspace moves the cursor back, any
  other byte overwrites the cell under the cursor).\<close>

definition edit_key :: "byte list \<Rightarrow> byte \<Rightarrow> byte list" where
  "edit_key line k = (if k = KEY_BACKSPACE then butlast line else line @ [k])"

definition edit :: "byte list \<Rightarrow> byte list \<Rightarrow> byte list" where
  "edit = fold (\<lambda>k line. edit_key line k)"

definition tty_put :: "byte \<Rightarrow> nat \<times> (nat \<Rightarrow> byte) \<Rightarrow> nat \<times> (nat \<Rightarrow> byte)" where
  "tty_put c = (\<lambda>(cur, cells).
     if c = 0x08 then (cur - 1, cells) else (cur + 1, cells(cur := c)))"

text \<open>A line of the screen that shows \<open>l\<close> and is blank behind it.\<close>

definition shown :: "byte list \<Rightarrow> nat \<Rightarrow> byte" where
  "shown l j = (if j < length l then l ! j else 0x20)"

definition holds :: "(nat \<Rightarrow> byte) \<Rightarrow> byte list \<Rightarrow> bool" where
  "holds buf l \<longleftrightarrow> (\<forall>j<length l. buf j = l ! j)"

lemma holds_snoc: "holds buf l \<Longrightarrow> holds (buf(length l := c)) (l @ [c])"
  by (auto simp: holds_def nth_append less_Suc_eq)

lemma holds_butlast: "holds buf l \<Longrightarrow> holds (buf(length l - 1 := c)) (butlast l)"
  by (auto simp: holds_def nth_butlast)

lemma tty_type: "c \<noteq> 0x08 \<Longrightarrow> tty_put c (length l, shown l) = (length (l @ [c]), shown (l @ [c]))"
  by (auto simp: tty_put_def shown_def nth_append less_Suc_eq fun_eq_iff)

lemma tty_erase:
  assumes "l \<noteq> []"
  shows "fold tty_put [0x08, 0x20, 0x08] (length l, shown l) = (length (butlast l), shown (butlast l))"
proof -
  have "length l - Suc 0 < length l" using assms by simp
  then show ?thesis
    by (auto simp: tty_put_def shown_def nth_butlast fun_eq_iff)
qed

declare read_loop.simps [simp del]

lemma read_loop_spec:
  assumes "holds buf line" and "KEY_ENTER \<notin> set ks" and "length line + length ks \<le> 32767"
  shows "\<exists>buf' echo. read_loop (hd (ks @ [KEY_ENTER])) (length line) buf out (tl (ks @ [KEY_ENTER]) @ rest) =
            Some (int (length (edit ks line)), buf', out @ echo, rest) \<and>
          holds buf' (edit ks line @ [0]) \<and>
          fold tty_put echo (length line, shown line) = (length (edit ks line), shown (edit ks line))"
  using assms
proof (induction ks arbitrary: line buf out)
  case Nil
  then have "read_loop KEY_ENTER (length line) buf out rest =
      Some (int (length line), buf(length line := 0), out, rest)"
    by (simp add: read_loop.simps)
  with holds_snoc [OF Nil.prems(1), of 0] show ?case
    by (auto simp: edit_def intro!: exI [of _ "[]"])
next
  case (Cons k ks)
  obtain k2 ks2 where k2: "ks @ [KEY_ENTER] = k2 # ks2" by (cases "ks @ [KEY_ENTER]") auto
  then have keys: "tl ((k # ks) @ [KEY_ENTER]) @ rest = k2 # (ks2 @ rest)" by simp
  define e where "e = (if k = KEY_BACKSPACE then if line = [] then [] else [0x08, 0x20, 0x08] else [k])"
  define b where "b = (if k = KEY_BACKSPACE then if line = [] then buf else buf(length line - 1 := 0)
                       else buf(length line := k))"
  have "read_loop k (length line) buf out (k2 # (ks2 @ rest)) =
      read_loop k2 (length (edit_key line k)) b (out @ e) (ks2 @ rest)"
    using Cons.prems(2,3)
    by (subst read_loop.simps) (auto simp: edit_key_def e_def b_def)
  moreover have "holds b (edit_key line k)"
    using Cons.prems(1) holds_snoc holds_butlast by (auto simp: b_def edit_key_def)
  moreover have "length (edit_key line k) + length ks \<le> 32767"
    using Cons.prems(3) by (auto simp: edit_key_def)
  moreover have "fold tty_put e (length line, shown line) =
      (length (edit_key line k), shown (edit_key line k))"
    using tty_type [of k line] tty_erase [of line] by (auto simp: e_def edit_key_def)
  ultimately show ?case
    using Cons.IH [of b "edit_key line k" "out @ e"] Cons.prems(2) k2 keys
    by (auto simp: edit_def intro!: exI [of _ "e @ _"])
qed

lemma readString_edit:
  assumes "KEY_ENTER \<notin> set ks" and "length ks \<le> 32767"
  shows "\<exists>buf' echo. readString buf out (ks @ KEY_ENTER # rest) =
            Some (int (length (edit ks [])), buf', out @ echo, rest) \<and>
          holds buf' (edit ks [] @ [0]) \<and>
          fold tty_put echo (0, shown []) = (length (edit ks []), shown (edit ks []))"
proof -
  have "ks @ KEY_ENTER # rest = hd (ks @ [KEY_ENTER]) # (tl (ks @ [KEY_ENTER]) @ rest)"
    by (cases ks) auto
  then have "readString buf out (ks @ KEY_ENTER # rest) =
      read_loop (hd (ks @ [KEY_ENTER])) (length ([] :: byte list)) buf out (tl (ks @ [KEY_ENTER]) @ rest)"
    by (simp only: readString_def list.case list.size)
  with read_loop_spec [of buf "[]" ks out rest] assms show ?thesis
    by (simp add: holds_def)
qed

subsection \<open>putChar and putStr\<close>

definition video_offset :: "int \<Rightarrow> int \<Rightarrow> int" where
  "video_offset row col = i16 (i16 (i16 (80 * i16 (row - 1)) * 2) + i16 (col * 2))"

definition putChar :: "byte \<Rightarrow> int \<Rightarrow> int \<Rightarrow> int \<Rightarrow> mem \<Rightarrow> mem" where
  "putChar toBePrinted row col color m =
     (let offset = video_offset row col in
      putInMemory 0xB800 (i16 (offset + 1)) (word_of_int color)
        (putInMemory 0xB800 offset toBePrinted m))"

text \<open>The string is the list of the bytes before the terminator.\<close>

fun putStr :: "byte list \<Rightarrow> int \<Rightarrow> int \<Rightarrow> int \<Rightarrow> mem \<Rightarrow> mem" where
  "putStr [] currentRow currentCol color m = m"
| "putStr (c # cs) currentRow currentCol color m =
     (let (r, k) = (if currentCol > 80 then (i16 (currentRow + 1), 1) else (currentRow, currentCol))
      in putStr cs r (i16 (k + 1)) color (putChar c r k color m))"

text \<open>The cells of the 80-column screen in the order \<^verbatim>\<open>putStr\<close> numbers them.\<close>

definition cell :: "int \<Rightarrow> int \<Rightarrow> nat" where
  "cell row col = nat (80 * (row - 1) + col)"

definition cell_addr :: "nat \<Rightarrow> nat" where
  "cell_addr k = 0xB8000 + 2 * k"

lemma putChar_cell:
  assumes "1 \<le> row" and "1 \<le> col" and "col \<le> 81" and "cell row col \<le> 16000"
  shows "putChar c row col color m =
           m(cell_addr (cell row col) := c, Suc (cell_addr (cell row col)) := word_of_int color)"
proof -
  have b: "80 * (row - 1) + col \<le> 16000" "0 \<le> 80 * (row - 1)" "row \<le> 201"
    using assms by (auto simp: cell_def)
  then have "video_offset row col = 160 * (row - 1) + 2 * col"
    using assms by (simp add: video_offset_def)
  moreover have "phys 0xB800 (160 * (row - 1) + 2 * col) = cell_addr (cell row col)"
    "phys 0xB800 (160 * (row - 1) + 2 * col + 1) = cell_addr (cell row col) + 1"
    using b assms by (auto simp: phys_def cell_addr_def cell_def nat_add_distrib)
  ultimately show ?thesis
    using b assms by (simp add: putChar_def putInMemory_def Let_def)
qed

text \<open>The reference: the string in consecutive cells, with no line breaks.\<close>

fun write_cells :: "byte list \<Rightarrow> nat \<Rightarrow> byte \<Rightarrow> mem \<Rightarrow> mem" where
  "write_cells [] k color m = m"
| "write_cells (c # cs) k color m =
     write_cells cs (Suc k) color (m(cell_addr k := c, Suc (cell_addr k) := color))"

lemma putStr_write_cells:
  assumes "1 \<le> row" and "1 \<le> col" and "col \<le> 81" and "cell row col + length s \<le> 16000"
  shows "putStr s row col color m = write_cells s (cell row col) (word_of_int color) m"
  using assms
proof (induction s arbitrary: row col m)
  case (Cons c cs)
  define r where "r = (if col > 80 then row + 1 else row)"
  define k where "k = (if col > 80 then 1 else col)"
  have rk: "1 \<le> r" "1 \<le> k" "k \<le> 80" and same: "cell r k = cell row col"
    using Cons.prems by (auto simp: r_def k_def cell_def)
  have "80 * (row - 1) + col \<le> 16000" using Cons.prems by (auto simp: cell_def)
  then have "row + 1 \<le> 32767" using Cons.prems by simp
  then have step: "putStr (c # cs) row col color m = putStr cs r (k + 1) color (putChar c r k color m)"
    using Cons.prems rk by (auto simp: r_def k_def)
  have "cell r (k + 1) = Suc (cell r k)"
    using rk by (simp add: cell_def Suc_nat_eq_nat_zadd1 algebra_simps)
  then have next_cell: "cell r (k + 1) = Suc (cell row col)"
    by (simp only: same)
  have "putChar c r k color m =
      m(cell_addr (cell row col) := c, Suc (cell_addr (cell row col)) := word_of_int color)"
    using putChar_cell [of r k c color m] rk Cons.prems same by simp
  then show ?case
    using Cons.IH [of r "k + 1" "putChar c r k color m"] rk Cons.prems next_cell step
    by (simp del: fun_upd_apply putStr.simps)
qed simp

lemma write_cells_outside:
  "a < cell_addr k \<or> cell_addr (k + length s) \<le> a \<Longrightarrow> write_cells s k color m a = m a"
  by (induction s k color m rule: write_cells.induct) (auto simp: cell_addr_def)

lemma write_cells_inside:
  "i < length s \<Longrightarrow> write_cells s k color m (cell_addr (k + i)) = s ! i \<and>
     write_cells s k color m (Suc (cell_addr (k + i))) = color"
proof (induction s k color m arbitrary: i rule: write_cells.induct)
  case (2 c cs k color m)
  show ?case
  proof (cases i)
    case 0
    then show ?thesis by (simp add: write_cells_outside cell_addr_def)
  next
    case (Suc j)
    then show ?thesis using "2.IH" [of j] "2.prems" by (simp del: fun_upd_apply)
  qed
qed simp

subsection \<open>What the console functions promise\<close>

text \<open>Line editing: \<^verbatim>\<open>readString\<close> returns the length of the typed line as a terminal would edit
  it (a backspace erases the last character, if any), stores that line and a zero behind it, takes
  the keys up to Enter and no more, and what it echoes makes the screen show exactly the stored
  line.\<close>

theorem readString_edits:
  assumes "KEY_ENTER \<notin> set ks" and "length ks \<le> 32767"
  shows "\<exists>buf' echo. readString buf out (ks @ KEY_ENTER # rest) =
            Some (int (length (edit ks [])), buf', out @ echo, rest) \<and>
          holds buf' (edit ks [] @ [0]) \<and>
          fold tty_put echo (0, shown []) = (length (edit ks []), shown (edit ks []))"
  by (rule readString_edit [OF assms])

theorem readString_edits_witness:
  "\<exists>buf' echo. readString (\<lambda>_. 0) [] [97, 98, KEY_BACKSPACE, 99, KEY_ENTER, 100] =
      Some (int (length (edit [97, 98, KEY_BACKSPACE, 99] [])), buf', echo, [100]) \<and>
    holds buf' (edit [97, 98, KEY_BACKSPACE, 99] [] @ [0])"
  using readString_edits [of "[97, 98, KEY_BACKSPACE, 99]" "\<lambda>_. 0" "[]" "[100]"] by simp blast

text \<open>\<^verbatim>\<open>putStr\<close> fills the screen in reading order: character \<open>i\<close> and its colour go to the
  \<open>i\<close>-th cell after the given one, lines wrap after column 80, and no other byte of memory
  changes.\<close>

theorem putStr_fills_cells:
  assumes "1 \<le> row" and "1 \<le> col" and "col \<le> 80" and "cell row col + length s \<le> 16000"
  shows "(\<forall>i<length s. putStr s row col color m (cell_addr (cell row col + i)) = s ! i \<and>
      putStr s row col color m (Suc (cell_addr (cell row col + i))) = word_of_int color) \<and>
    (\<forall>a. a < cell_addr (cell row col) \<or> cell_addr (cell row col + length s) \<le> a \<longrightarrow>
      putStr s row col color m a = m a)"
  using putStr_write_cells [OF assms(1,2) _ assms(4)] assms(3) write_cells_inside write_cells_outside
  by simp

theorem putStr_fills_cells_witness:
  "putStr [72, 105] 1 80 7 (\<lambda>_. 0) (cell_addr (cell 1 80 + 1)) = 105"
  using conjunct1 [OF putStr_fills_cells [of 1 80 "[72, 105]" 7 "\<lambda>_. 0"], THEN spec, of 1]
  by (simp add: cell_def del: putStr.simps)

text \<open>\<^verbatim>\<open>printString\<close> writes the bytes before the terminator and returns their number; on memory
  without a terminator in the 64 KiB its pointer can reach it never returns.\<close>

theorem printString_result:
  assumes "str n = 0" and "\<forall>j<n. str j \<noteq> 0" and "n \<le> 65535"
  shows "printString str out = Some (i16 (int n), out @ map str [0..<n]) \<and>
    ((\<forall>j\<le>65535. wild j \<noteq> 0) \<longrightarrow> printString wild out = None)"
  using print_loop_stop [of 0 n str out] print_loop_no_end [of 0 wild out] assms
  by (simp add: printString_def)

theorem printString_result_witness:
  "printString (lit [72, 105]) [] = Some (2, map (lit [72, 105]) [0..<2])"
  using printString_result [of "lit [72, 105]" 2 "[]" "\<lambda>_. 1"]
  by (simp add: lit_def less_2_cases_iff nth_Cons' del: upt_rec_numeral)


end
