(* ===== verification/OS_Disk.thy ===== *)
theory OS_Disk
  imports OS_Console
begin

section \<open>Sectors of the floppy disk\<close>

text \<open>
  Models \<^verbatim>\<open>mod\<close>, \<^verbatim>\<open>readSector\<close> and \<^verbatim>\<open>writeSector\<close> of
  \<^verbatim>\<open>project6/kernel.c\<close>. The BIOS disk service (interrupt 0x13) is a parameter
  \<open>int13 ax cx dx buf d\<close>: it gets the registers, the 512 bytes at the buffer address and
  the disk, and returns the bytes then at the buffer and the disk. What the kernel relies on
  is the locale \<open>floppy_bios\<close>: the documented behaviour of functions 2 and 3 for one sector
  on a 1.44 MB disk (80 tracks, 2 heads, 18 sectors), drive 0.
\<close>

type_synonym 'd int13 = "int \<Rightarrow> int \<Rightarrow> int \<Rightarrow> byte list \<Rightarrow> 'd \<Rightarrow> byte list \<times> 'd"

subsection \<open>mod\<close>

partial_function (option) mod_loop :: "int \<Rightarrow> int \<Rightarrow> int \<Rightarrow> int \<Rightarrow> int option" where
  "mod_loop number divisor modu temp =
     (if modu \<le> number
      then mod_loop number divisor (i16 (modu + divisor)) (i16 (temp - divisor))
      else Some temp)"

definition c_mod :: "int \<Rightarrow> int \<Rightarrow> int option" where
  "c_mod number modu = mod_loop number modu modu number"

lemma mod_loop_exit: "number < modu \<Longrightarrow> mod_loop number d modu temp = Some temp"
  by (simp add: mod_loop.simps)

lemma mod_loop_correct:
  assumes "0 < d" and "0 \<le> temp" and "0 \<le> number" and "number + d \<le> 32767"
    and "modu = number - temp + d" and "0 \<le> number - temp"
  shows "mod_loop number d modu temp = Some (temp mod d)"
  using assms
proof (induction "nat temp" arbitrary: modu temp rule: less_induct)
  case less
  show ?case
  proof (cases "modu \<le> number")
    case True
    with less.prems have t: "d \<le> temp" by simp
    with less.prems have "i16 (modu + d) = modu + d" "i16 (temp - d) = temp - d"
      by (auto intro!: i16_id)
    moreover have "mod_loop number d (modu + d) (temp - d) = Some ((temp - d) mod d)"
      using less.prems t by (intro less.hyps) auto
    ultimately show ?thesis
      using True by (simp add: mod_loop.simps [of number d modu temp])
  next
    case False
    with less.prems show ?thesis by (simp add: mod_loop_exit)
  qed
qed

lemma c_mod_nonneg:
  "0 \<le> number \<Longrightarrow> 0 < m \<Longrightarrow> number + m \<le> 32767 \<Longrightarrow> c_mod number m = Some (number mod m)"
  by (simp add: c_mod_def mod_loop_correct)

lemma c_mod_neg: "number < 0 \<Longrightarrow> 0 < m \<Longrightarrow> c_mod number m = Some number"
  by (simp add: c_mod_def mod_loop_exit)

text \<open>With the largest int as \<^verbatim>\<open>number\<close> the loop condition never fails.\<close>

lemma mod_loop_diverges: "in_i16 modu \<Longrightarrow> mod_loop 32767 d modu temp = None"
proof (rule ccontr)
  assume "in_i16 modu" and "mod_loop 32767 d modu temp \<noteq> None"
  then obtain r where r: "mod_loop 32767 d modu temp = Some r" by blast
  have "\<not> (32767 = (32767 :: int) \<and> in_i16 modu)"
  proof (rule mod_loop.raw_induct [where P = "\<lambda>n d m t r. \<not> (n = 32767 \<and> in_i16 m)", OF _ r])
    fix f n d m t r
    assume IH: "\<And>n d m t r. f n d m t = Some r \<Longrightarrow> \<not> (n = 32767 \<and> in_i16 m)"
      and eq: "(if m \<le> n then f n d (i16 (m + d)) (i16 (t - d)) else Some t) = Some r"
    show "\<not> (n = 32767 \<and> in_i16 m)"
      using IH [of n d "i16 (m + d)" "i16 (t - d)" r] eq by (auto simp: in_i16_def i16_range)
  qed
  with \<open>in_i16 modu\<close> show False by simp
qed

subsection \<open>readSector and writeSector\<close>

text \<open>Assignment to a \<^verbatim>\<open>char\<close> variable keeps the low byte.\<close>

definition uchar :: "int \<Rightarrow> int" where
  "uchar x = x mod 256"

text \<open>The CX and DX both functions compute: cylinder and sector, head and drive.\<close>

definition chs_regs :: "int \<Rightarrow> (int \<times> int) option" where
  "chs_regs absSector =
     do { r \<leftarrow> c_mod absSector 18;
          h \<leftarrow> c_mod (cdiv absSector 18) 2;
          let relSector = uchar (r + 1);
          let head = uchar h;
          let track = uchar (cdiv absSector 36);
          Some (i16 (track * 256 + relSector), i16 (head * 256 + 0x00)) }"

definition readSector :: "'d int13 \<Rightarrow> byte list \<Rightarrow> int \<Rightarrow> 'd \<Rightarrow> (byte list \<times> 'd) option" where
  "readSector int13 buf absSector d =
     do { (cx, dx) \<leftarrow> chs_regs absSector;
          Some (int13 (0x02 * 256 + 0x01) cx dx buf d) }"

definition writeSector :: "'d int13 \<Rightarrow> byte list \<Rightarrow> int \<Rightarrow> 'd \<Rightarrow> (byte list \<times> 'd) option" where
  "writeSector int13 buf sector d =
     do { (cx, dx) \<leftarrow> chs_regs sector;
          Some (int13 (0x03 * 256 + 0x01) cx dx buf d) }"

text \<open>The geometry: sector \<open>n\<close> of the disk as track, head and sector on the track.\<close>

definition chs :: "nat \<Rightarrow> nat \<times> nat \<times> nat" where
  "chs n = (n div 36, n div 18 mod 2, n mod 18 + 1)"

definition valid_chs :: "nat \<times> nat \<times> nat \<Rightarrow> bool" where
  "valid_chs = (\<lambda>(t, h, s). t < 80 \<and> h < 2 \<and> 1 \<le> s \<and> s \<le> 18)"

lemma valid_chs_chs: "n < 2880 \<Longrightarrow> valid_chs (chs n)"
  by (auto simp: valid_chs_def chs_def)

lemma chs_inj: "chs m = chs n \<Longrightarrow> m = n"
proof -
  assume "chs m = chs n"
  then have e: "m div 36 = n div 36" "m div 18 mod 2 = n div 18 mod 2" "m mod 18 = n mod 18"
    by (auto simp: chs_def)
  then have "m div 18 = n div 18"
    by (metis div_mult2_eq div_mult_mod_eq numeral_times_numeral semiring_norm(13) semiring_norm(11))
  with e(3) show "m = n" by (metis div_mult_mod_eq)
qed

lemma chs_onto:
  assumes "valid_chs c"
  shows "\<exists>n<2880. chs n = c"
proof -
  obtain t h s where c: "c = (t, h, s)" by (cases c)
  with assms obtain q where q: "s = Suc q" "q < 18" "t < 80" "h < 2"
    by (cases s) (auto simp: valid_chs_def)
  let ?n = "18 * (2 * t + h) + q"
  have "(18 * k + q) div 18 = k \<and> (18 * k + q) mod 18 = q" for k using q(2) by simp
  from this [of "2 * t + h"] have "?n div 18 = 2 * t + h" "?n mod 18 = q" by simp_all
  moreover have "?n div 36 = t"
    using q by (simp add: div_nat_eqI)
  ultimately have "chs ?n = c" using q by (simp add: chs_def c)
  moreover have "?n < 2880" using q by simp
  ultimately show ?thesis by blast
qed

lemma uchar_id [simp]: "0 \<le> x \<Longrightarrow> x < 256 \<Longrightarrow> uchar x = x"
  by (simp add: uchar_def)

lemma chs_regs_chs:
  assumes "n < 2880"
  shows "chs_regs (int n) =
    (case chs n of (t, h, s) \<Rightarrow> Some (int t * 256 + int s, int h * 256))"
proof -
  have m: "c_mod (int n) 18 = Some (int (n mod 18))"
    using assms by (simp add: c_mod_nonneg zmod_int)
  have h: "c_mod (int n div 18) 2 = Some (int (n div 18 mod 2))"
    using assms by (simp add: c_mod_nonneg zmod_int zdiv_int)
  have h18: "cdiv (int n) 18 = int n div 18" by simp
  have t: "cdiv (int n) 36 = int (n div 36)" by (simp add: zdiv_int)
  have b: "n mod 18 < 18" "n div 18 mod 2 < 2" "n div 36 < 80" using assms by auto
  then have "uchar (int (n mod 18) + 1) = int (n mod 18) + 1"
    "uchar (int (n div 18 mod 2)) = int (n div 18 mod 2)" "uchar (int (n div 36)) = int (n div 36)"
    by simp_all
  then show ?thesis
    using b by (simp add: chs_regs_def chs_def m h h18 t Let_def)
qed

text \<open>A negative sector number makes the head byte and the sector byte meaningless: nothing of
  the code checks the range.\<close>

subsection \<open>What the kernel relies on\<close>

locale floppy_bios =
  fixes int13 :: "'d int13"
    and track_data :: "'d \<Rightarrow> nat \<times> nat \<times> nat \<Rightarrow> byte list"
  assumes int13_read: "valid_chs (t, h, s) \<Longrightarrow> length buf = 512 \<Longrightarrow>
        int13 0x0201 (int t * 256 + int s) (int h * 256) buf d = (track_data d (t, h, s), d)"
    and int13_write: "valid_chs (t, h, s) \<Longrightarrow> length buf = 512 \<Longrightarrow>
        fst (int13 0x0301 (int t * 256 + int s) (int h * 256) buf d) = buf \<and>
        (\<forall>c. valid_chs c \<longrightarrow>
           track_data (snd (int13 0x0301 (int t * 256 + int s) (int h * 256) buf d)) c =
           (if c = (t, h, s) then buf else track_data d c))"
    and track_data_length: "valid_chs c \<Longrightarrow> length (track_data d c) = 512"

definition disk_sector :: "('d \<Rightarrow> nat \<times> nat \<times> nat \<Rightarrow> byte list) \<Rightarrow> 'd \<Rightarrow> nat \<Rightarrow> byte list" where
  "disk_sector track_data d n = track_data d (chs n)"

text \<open>The same contract by sector number, which is what the file functions use.\<close>

locale sector_store =
  fixes rd wr :: "byte list \<Rightarrow> int \<Rightarrow> 'd \<Rightarrow> (byte list \<times> 'd) option"
    and contents :: "'d \<Rightarrow> nat \<Rightarrow> byte list"
  assumes rd_sector: "n < 2880 \<Longrightarrow> length buf = 512 \<Longrightarrow> rd buf (int n) d = Some (contents d n, d)"
    and wr_sector: "n < 2880 \<Longrightarrow> length buf = 512 \<Longrightarrow>
        \<exists>d'. wr buf (int n) d = Some (buf, d') \<and>
          (\<forall>m<2880. contents d' m = (if m = n then buf else contents d m))"
    and contents_length: "n < 2880 \<Longrightarrow> length (contents d n) = 512"
begin

lemma read_after_write:
  assumes "n < 2880" and "m < 2880" and "length buf = 512" and "length old = 512"
    and "wr buf (int n) d = Some (b, d')"
  shows "rd old (int m) d' = Some (if m = n then buf else contents d m, d')"
  using wr_sector [OF assms(1,3), of d] rd_sector [OF assms(2,4), of d'] assms by auto

end

sublocale floppy_bios \<subseteq> sec: sector_store "readSector int13" "writeSector int13"
  "disk_sector track_data"
proof (unfold_locales, goal_cases)
  case (1 n buf d)
  then show ?case
    using int13_read [of _ _ _ buf d] valid_chs_chs [of n]
    by (cases "chs n") (auto simp: readSector_def chs_regs_chs disk_sector_def)
next
  case (2 n buf d)
  obtain t h s where c: "chs n = (t, h, s)" by (cases "chs n")
  then have "valid_chs (t, h, s)" using valid_chs_chs [of n] 2 by simp
  note w = int13_write [OF this 2(2), of d]
  have "track_data (snd (int13 0x0301 (int t * 256 + int s) (int h * 256) buf d)) (chs m) =
      (if m = n then buf else track_data d (chs m))" if "m < 2880" for m
    using w valid_chs_chs [OF that] chs_inj [of m n] c by metis
  moreover have "writeSector int13 buf (int n) d =
      Some (buf, snd (int13 0x0301 (int t * 256 + int s) (int h * 256) buf d))"
  proof -
    have "int13 0x0301 (int t * 256 + int s) (int h * 256) buf d =
        (buf, snd (int13 0x0301 (int t * 256 + int s) (int h * 256) buf d))"
      using w by (metis prod.collapse)
    then show ?thesis using 2(1) c by (simp add: writeSector_def chs_regs_chs)
  qed
  ultimately show ?case by (simp add: disk_sector_def)
next
  case (3 n d)
  then show ?case using track_data_length valid_chs_chs by (simp add: disk_sector_def)
qed

text \<open>A disk image as the array of its sectors, the way \<^verbatim>\<open>floppya.img\<close> stores them,
  behind a service that decodes CX and DX and ignores any other request.\<close>

definition lba :: "nat \<times> nat \<times> nat \<Rightarrow> nat" where
  "lba = (\<lambda>(t, h, s). 36 * t + 18 * h + (s - 1))"

definition image_data :: "(nat \<Rightarrow> byte list) \<Rightarrow> nat \<times> nat \<times> nat \<Rightarrow> byte list" where
  "image_data d c = take 512 (d (lba c) @ replicate 512 0)"

definition image_int13 :: "(nat \<Rightarrow> byte list) int13" where
  "image_int13 ax cx dx buf d =
     (let c = (nat (cx div 256), nat (dx div 256), nat (cx mod 256)) in
      if ax = 0x0201 then (image_data d c, d)
      else if ax = 0x0301 then (buf, d(lba c := buf))
      else (buf, d))"

lemma lba_chs: "lba (chs n) = n"
proof -
  have "n div 36 = n div 18 div 2" by (simp add: div_mult2_eq [symmetric])
  moreover have "lba (chs n) = 36 * (n div 36) + 18 * (n div 18 mod 2) + n mod 18"
    by (simp only: lba_def chs_def case_prod_conv add_diff_cancel_right')
  ultimately show ?thesis
    using mult_div_mod_eq [of 18 n] mult_div_mod_eq [of 2 "n div 18"] by linarith
qed

lemma lba_inj:
  assumes "valid_chs c" and "valid_chs c'" and "lba c = lba c'"
  shows "c = c'"
proof -
  obtain m n where "c = chs m" "c' = chs n" using assms(1,2) chs_onto by metis
  with assms(3) show ?thesis by (simp add: lba_chs)
qed

interpretation image: floppy_bios image_int13 image_data
proof (unfold_locales, goal_cases)
  case (1 t h s buf d)
  then show ?case by (simp add: image_int13_def valid_chs_def Let_def)
next
  case (2 t h s buf d)
  then show ?case
    using lba_inj [of _ "(t, h, s)"]
    by (auto simp: image_int13_def image_data_def valid_chs_def Let_def)
next
  case (3 c d)
  show ?case by (simp add: image_data_def)
qed

context floppy_bios
begin

lemma write_then_read:
  assumes "n < 2880" and "m < 2880" and "length buf = 512" and "length old = 512"
  shows "\<exists>b d'. writeSector int13 buf (int n) d = Some (b, d') \<and>
    readSector int13 old (int m) d' = Some (if m = n then buf else disk_sector track_data d m, d')"
  using sec.wr_sector [OF assms(1,3), of d] sec.read_after_write [OF assms] by blast

end

subsection \<open>What the disk functions promise\<close>

text \<open>A sector reads back what was written to it last and every other sector what it held,
  through the track, head and sector numbers the code computes, for all 2880 sectors of the disk.\<close>

theorem sector_read_after_write:
  assumes "floppy_bios int13 td" and "n < 2880" and "m < 2880" and "length buf = 512" and "length old = 512"
  shows "\<exists>b d'. writeSector int13 buf (int n) d = Some (b, d') \<and>
    readSector int13 old (int m) d' = Some (if m = n then buf else disk_sector td d m, d')"
  by (rule floppy_bios.write_then_read [OF assms])

theorem sector_read_after_write_witness:
  "\<exists>b d'. writeSector image_int13 (replicate 512 7) 2879 (\<lambda>_. []) = Some (b, d') \<and>
    readSector image_int13 (replicate 512 1) 5 d' = Some (disk_sector image_data (\<lambda>_. []) 5, d')"
  using sector_read_after_write [OF image.floppy_bios_axioms, of 2879 5 "replicate 512 7" "replicate 512 1"]
  by simp

text \<open>The kernel's \<^verbatim>\<open>mod\<close> returns the remainder for a non-negative number as long as the
  number plus the divisor fits in an int, returns a negative number unchanged, and for 32767 it
  never returns.\<close>

theorem mod_result:
  assumes "0 < m" and "m \<le> 32767"
  shows "(0 \<le> k \<and> k + m \<le> 32767 \<longrightarrow> c_mod k m = Some (k mod m)) \<and>
    (k < 0 \<longrightarrow> c_mod k m = Some k) \<and> c_mod 32767 m = None"
  using assms c_mod_nonneg [of k m] c_mod_neg [of k m] mod_loop_diverges [of m m 32767]
  by (simp add: c_mod_def in_i16_def)

theorem mod_result_witness:
  "c_mod 100 18 = Some 10 \<and> c_mod 32767 18 = None"
  using mod_result [of 18 100] by simp


end
