(* ===== verification/OS_FileSystem.thy ===== *)
theory OS_FileSystem
  imports OS_Disk
begin

section \<open>Disk directory, disk map and files\<close>

text \<open>
  Models \<^verbatim>\<open>findFile\<close>, \<^verbatim>\<open>readFile\<close>, \<^verbatim>\<open>deleteFile\<close> and
  \<^verbatim>\<open>writeFile\<close> of \<^verbatim>\<open>project6/kernel.c\<close>. The directory (sector 2) is kept as
  the flat 512 bytes the code casts to \<^verbatim>\<open>struct directory\<close>: entry \<open>i\<close> has its name
  at \<open>32 * i\<close> (6 bytes) and its sector numbers at \<open>32 * i + 6\<close> (26 bytes), so indexing
  \<^verbatim>\<open>sectors\<close> past 25 reads the next entry, as in the C code. Reading past the 512
  bytes is \<^const>\<open>None\<close>. Pointers are passed as the memory behind them.
\<close>

subsection \<open>Buffers\<close>

text \<open>Sector \<open>k\<close> of the memory behind \<^verbatim>\<open>buf\<close>: the argument \<^verbatim>\<open>&buf[k*512]\<close>.\<close>

definition chunk :: "(nat \<Rightarrow> byte) \<Rightarrow> nat \<Rightarrow> byte list" where
  "chunk buf k = map (\<lambda>j. buf (k * 512 + j)) [0..<512]"

definition put_chunk :: "(nat \<Rightarrow> byte) \<Rightarrow> nat \<Rightarrow> byte list \<Rightarrow> nat \<Rightarrow> byte" where
  "put_chunk buf k block a =
     (if k * 512 \<le> a \<and> a < k * 512 + 512 then block ! (a - k * 512) else buf a)"

text \<open>A local array before the first read; its contents do not matter to the disk service.\<close>

definition fresh_buffer :: "byte list" where
  "fresh_buffer = replicate 512 0"

lemma length_chunk [simp]: "length (chunk buf k) = 512"
  by (simp add: chunk_def)

lemma length_fresh_buffer [simp]: "length fresh_buffer = 512"
  by (simp add: fresh_buffer_def)

lemma chunk_put_chunk:
  "length block = 512 \<Longrightarrow> chunk (put_chunk buf k block) j = (if j = k then block else chunk buf j)"
  by (rule nth_equalityI) (auto simp: chunk_def put_chunk_def)

subsection \<open>Operations\<close>

definition name_matches :: "byte list \<Rightarrow> (nat \<Rightarrow> byte) \<Rightarrow> nat \<Rightarrow> bool" where
  "name_matches dir fileName i \<longleftrightarrow>
     dir ! (32 * i) = fileName 0 \<and> list_all (\<lambda>j. dir ! (32 * i + j) = fileName j) [0..<6]"

definition findFile :: "(nat \<Rightarrow> byte) \<Rightarrow> byte list \<Rightarrow> int" where
  "findFile fileName dir =
     (case find (name_matches dir fileName) [0..<16] of Some i \<Rightarrow> int i | None \<Rightarrow> -1)"

function read_sectors ::
    "'d int13 \<Rightarrow> byte list \<Rightarrow> nat \<Rightarrow> nat \<Rightarrow> (nat \<Rightarrow> byte) \<Rightarrow> 'd
      \<Rightarrow> (int \<times> (nat \<Rightarrow> byte) \<times> 'd) option" where
  "read_sectors int13 dir i k buf d =
     (if length dir \<le> 32 * i + 6 + k then None
      else if dir ! (32 * i + 6 + k) = 0 then Some (int k, buf, d)
      else do { (block, d') \<leftarrow> readSector int13 (chunk buf k) (uint (dir ! (32 * i + 6 + k))) d;
                read_sectors int13 dir i (Suc k) (put_chunk buf k block) d' })"
  by pat_completeness auto
termination
  by (relation "measure (\<lambda>(int13, dir, i, k, buf, d). length dir - (32 * i + 6 + k))") auto

declare read_sectors.simps [simp del]

definition readFile ::
    "'d int13 \<Rightarrow> (nat \<Rightarrow> byte) \<Rightarrow> (nat \<Rightarrow> byte) \<Rightarrow> 'd \<Rightarrow> (int \<times> (nat \<Rightarrow> byte) \<times> 'd) option" where
  "readFile int13 fileName buf d =
     do { (dir, d1) \<leftarrow> readSector int13 fresh_buffer 2 d;
          (case find (name_matches dir fileName) [0..<16] of
             Some i \<Rightarrow> read_sectors int13 dir i 0 buf d1
           | None \<Rightarrow> Some (-1, buf, d1)) }"

function free_sectors :: "byte list \<Rightarrow> byte list \<Rightarrow> nat \<Rightarrow> nat \<Rightarrow> (byte list \<times> byte list) option" where
  "free_sectors dir diskMap entry j =
     (if length dir \<le> 32 * entry + 6 + j then None
      else if dir ! (32 * entry + 6 + j) = 0 then Some (dir, diskMap)
      else free_sectors (dir[32 * entry + 6 + j := 0])
             (diskMap[unat (dir ! (32 * entry + 6 + j)) := 0]) entry (Suc j))"
  by pat_completeness auto
termination
  by (relation "measure (\<lambda>(dir, diskMap, entry, j). length dir - (32 * entry + 6 + j))") auto

declare free_sectors.simps [simp del]

definition deleteFile :: "'d int13 \<Rightarrow> (nat \<Rightarrow> byte) \<Rightarrow> 'd \<Rightarrow> (int \<times> 'd) option" where
  "deleteFile int13 fname d =
     do { (dir, d1) \<leftarrow> readSector int13 fresh_buffer 2 d;
          let entry = findFile fname dir;
          (diskMap, d2) \<leftarrow> readSector int13 fresh_buffer 1 d1;
          if entry = -1 then Some (-1, d2)
          else do { (dir', diskMap') \<leftarrow>
                      free_sectors (dir[32 * nat entry := 0]) diskMap (nat entry) 0;
                    (_, d3) \<leftarrow> writeSector int13 dir' 2 d2;
                    (_, d4) \<leftarrow> writeSector int13 diskMap' 1 d3;
                    Some (1, d4) } }"

text \<open>The entry to write to: the file's own entry, or the first one whose name is empty.\<close>

definition writing_entry :: "(nat \<Rightarrow> byte) \<Rightarrow> byte list \<Rightarrow> int" where
  "writing_entry fname dir =
     (let e = findFile fname dir in
      if e = -1 then
        (case find (\<lambda>i. dir ! (32 * i) = 0) [0..<16] of Some i \<Rightarrow> int i | None \<Rightarrow> -1)
      else e)"

definition unused_sectors :: "byte list \<Rightarrow> int \<Rightarrow> nat list" where
  "unused_sectors diskMap sectors = take (nat sectors) (filter (\<lambda>j. diskMap ! j = 0) [0..<512])"

definition put_name :: "(nat \<Rightarrow> byte) \<Rightarrow> nat \<Rightarrow> byte list \<Rightarrow> byte list" where
  "put_name fname e dir = fold (\<lambda>l dir. dir[32 * e + l := fname l]) [0..<6] dir"

text \<open>\<open>junk m\<close> is the content of \<^verbatim>\<open>unusedSectors[m]\<close> when the search left it
  uninitialised.\<close>

definition slot_of :: "(nat \<Rightarrow> int) \<Rightarrow> nat list \<Rightarrow> nat \<Rightarrow> int" where
  "slot_of junk unused m = (if m < length unused then int (unused ! m) else junk m)"

function mark_sectors ::
    "(nat \<Rightarrow> int) \<Rightarrow> nat list \<Rightarrow> int \<Rightarrow> nat \<Rightarrow> nat \<Rightarrow> byte list \<Rightarrow> byte list
      \<Rightarrow> (byte list \<times> byte list) option" where
  "mark_sectors junk unused sectors e m dir diskMap =
     (if int m < sectors then
        (let s = slot_of junk unused m in
         if 0 \<le> s \<and> s < 512 then
           mark_sectors junk unused sectors e (Suc m)
             (dir[32 * e + 6 + m := word_of_int s]) (diskMap[nat s := 0xFF])
         else None)
      else Some (dir, diskMap))"
  by pat_completeness auto
termination
  by (relation "measure (\<lambda>(junk, unused, sectors, e, m, dir, diskMap). nat (sectors - int m))") auto

declare mark_sectors.simps [simp del]

function write_sectors ::
    "'d int13 \<Rightarrow> byte list \<Rightarrow> nat \<Rightarrow> nat \<Rightarrow> nat \<Rightarrow> (nat \<Rightarrow> byte) \<Rightarrow> 'd \<Rightarrow> 'd option" where
  "write_sectors int13 dir e k z buf d =
     (if z < k then
        do { (_, d') \<leftarrow> writeSector int13 (chunk buf z) (uint (dir ! (32 * e + 6 + z))) d;
             write_sectors int13 dir e k (Suc z) buf d' }
      else Some d)"
  by pat_completeness auto
termination
  by (relation "measure (\<lambda>(int13, dir, e, k, z, buf, d). k - z)") auto

declare write_sectors.simps [simp del]

definition writeFile ::
    "'d int13 \<Rightarrow> (nat \<Rightarrow> int) \<Rightarrow> (nat \<Rightarrow> byte) \<Rightarrow> (nat \<Rightarrow> byte) \<Rightarrow> int \<Rightarrow> 'd \<Rightarrow> (int \<times> 'd) option" where
  "writeFile int13 junk fname buffer sectors0 d =
     do { (dir, d1) \<leftarrow> readSector int13 fresh_buffer 2 d;
          (diskMap, d2) \<leftarrow> readSector int13 fresh_buffer 1 d1;
          let sectors = (if sectors0 > 26 then 26 else sectors0);
          let writingEntry = writing_entry fname dir;
          if writingEntry = -1 then Some (-1, d2)
          else do {
            let e = nat writingEntry;
            let unused = unused_sectors diskMap sectors;
            let k = length unused;
            (dir', diskMap') \<leftarrow> mark_sectors junk unused sectors e 0 (put_name fname e dir) diskMap;
            d3 \<leftarrow> write_sectors int13 dir' e k 0 buffer d2;
            (_, d4) \<leftarrow> writeSector int13 dir' 2 d3;
            (_, d5) \<leftarrow> writeSector int13 diskMap' 1 d4;
            Some (if int k < sectors then -2 else int k, d5) } }"

subsection \<open>Directory entries\<close>

definition entry_area :: "byte list \<Rightarrow> nat \<Rightarrow> byte list" where
  "entry_area dir i = take 26 (drop (32 * i + 6) dir)"

definition entry_sectors :: "byte list \<Rightarrow> nat \<Rightarrow> byte list" where
  "entry_sectors dir i = takeWhile (\<lambda>b. b \<noteq> 0) (entry_area dir i)"

text \<open>A well-formed directory and map: boot sector, map and directory are reserved; the sector
  numbers of an entry are non-zero, ended by a zero within the entry and followed by zeros
  only; an entry with an empty name has no sectors; all sectors in use are marked in the map
  and belong to one entry.\<close>

definition entry_ok :: "byte list \<Rightarrow> byte list \<Rightarrow> nat \<Rightarrow> bool" where
  "entry_ok dir diskMap i \<longleftrightarrow>
     length (entry_sectors dir i) < 26 \<and>
     entry_area dir i = entry_sectors dir i @ replicate (26 - length (entry_sectors dir i)) 0 \<and>
     (dir ! (32 * i) = 0 \<longrightarrow> entry_sectors dir i = []) \<and>
     distinct (entry_sectors dir i) \<and>
     (\<forall>b\<in>set (entry_sectors dir i). 3 \<le> unat b \<and> diskMap ! unat b \<noteq> 0)"

definition fs_ok :: "byte list \<Rightarrow> byte list \<Rightarrow> bool" where
  "fs_ok dir diskMap \<longleftrightarrow>
     length dir = 512 \<and> length diskMap = 512 \<and> (\<forall>j<3. diskMap ! j \<noteq> 0) \<and>
     (\<forall>i<16. entry_ok dir diskMap i) \<and>
     (\<forall>i<16. \<forall>j<16. i \<noteq> j \<longrightarrow> set (entry_sectors dir i) \<inter> set (entry_sectors dir j) = {})"

lemma fs_ok_sector:
  "fs_ok dir diskMap \<Longrightarrow> i < 16 \<Longrightarrow> b \<in> set (entry_sectors dir i) \<Longrightarrow> 3 \<le> unat b \<and> diskMap ! unat b \<noteq> 0"
  by (simp add: fs_ok_def entry_ok_def)

lemma fs_ok_disjoint:
  "fs_ok dir diskMap \<Longrightarrow> i < 16 \<Longrightarrow> j < 16 \<Longrightarrow> i \<noteq> j \<Longrightarrow> b \<in> set (entry_sectors dir i) \<Longrightarrow>
     b \<notin> set (entry_sectors dir j)"
  unfolding fs_ok_def by blast

lemma length_entry_area: "length dir = 512 \<Longrightarrow> i < 16 \<Longrightarrow> length (entry_area dir i) = 26"
  by (simp add: entry_area_def)

lemma nth_entry_area:
  "length dir = 512 \<Longrightarrow> i < 16 \<Longrightarrow> j < 26 \<Longrightarrow> entry_area dir i ! j = dir ! (32 * i + 6 + j)"
  by (simp add: entry_area_def)

lemma entry_sectors_nz: "0 \<notin> set (entry_sectors dir i)"
  by (auto simp: entry_sectors_def dest: set_takeWhileD)

text \<open>The code's loop reads exactly \<open>entry_sectors\<close> when the entry is ended.\<close>

lemma dir_at_sector:
  assumes "entry_ok dir diskMap i" and "length dir = 512" and "i < 16"
    and "j \<le> length (entry_sectors dir i)"
  shows "dir ! (32 * i + 6 + j) =
           (if j < length (entry_sectors dir i) then entry_sectors dir i ! j else 0)"
proof -
  have j: "j < 26" using assms(1,4) by (auto simp: entry_ok_def)
  then have "dir ! (32 * i + 6 + j) = entry_area dir i ! j"
    using assms nth_entry_area by simp
  also have "\<dots> = (entry_sectors dir i @ replicate (26 - length (entry_sectors dir i)) 0) ! j"
    using assms(1) by (simp add: entry_ok_def)
  finally show ?thesis using j assms(4) by (auto simp: nth_append)
qed

lemma findFile_range: "findFile f dir = -1 \<or> (0 \<le> findFile f dir \<and> findFile f dir < 16)"
  by (auto simp: findFile_def find_upt_Some split: option.splits)

lemma findFile_none_iff: "findFile f dir = -1 \<longleftrightarrow> (\<forall>i<16. \<not> name_matches dir f i)"
proof -
  have "findFile f dir = -1 \<longleftrightarrow> find (name_matches dir f) [0..<16] = None"
    by (auto simp: findFile_def split: option.splits)
  then show ?thesis by (simp only: find_upt_None)
qed

lemma findFile_some_iff:
  "findFile f dir = int i \<longleftrightarrow> i < 16 \<and> name_matches dir f i \<and> (\<forall>j<i. \<not> name_matches dir f j)"
proof -
  have "findFile f dir = int i \<longleftrightarrow> find (name_matches dir f) [0..<16] = Some i"
    by (auto simp: findFile_def split: option.splits)
  then show ?thesis by (simp only: find_upt_Some)
qed

subsection \<open>Reading\<close>

text \<open>The memory after reading the sectors \<open>ss\<close> of disk \<open>d\<close> from block \<open>k\<close> on.\<close>

fun fill :: "(nat \<Rightarrow> byte list) \<Rightarrow> byte list \<Rightarrow> nat \<Rightarrow> (nat \<Rightarrow> byte) \<Rightarrow> nat \<Rightarrow> byte" where
  "fill sec [] k buf = buf"
| "fill sec (b # bs) k buf = fill sec bs (Suc k) (put_chunk buf k (sec (unat b)))"

lemma fill_chunk:
  assumes "\<And>b. b \<in> set ss \<Longrightarrow> length (sec (unat b)) = 512"
  shows "chunk (fill sec ss k buf) j =
           (if k \<le> j \<and> j < k + length ss then sec (unat (ss ! (j - k))) else chunk buf j)"
  using assms
proof (induction sec ss k buf rule: fill.induct)
  case (2 sec b bs k buf)
  then show ?case
    by (auto simp: chunk_put_chunk nth_Cons' less_Suc_eq simp del: fun_upd_apply)
qed auto

lemma fill_outside: "a < k * 512 \<or> (k + length ss) * 512 \<le> a \<Longrightarrow> fill sec ss k buf a = buf a"
  by (induction sec ss k buf rule: fill.induct) (auto simp: put_chunk_def)

context floppy_bios
begin

lemma rd: "n < 2880 \<Longrightarrow> length buf = 512 \<Longrightarrow>
    readSector int13 buf (int n) d = Some (disk_sector track_data d n, d)"
  by (rule sec.rd_sector)

lemma sector_length: "n < 2880 \<Longrightarrow> length (disk_sector track_data d n) = 512"
  by (rule sec.contents_length)

lemma sector_of_byte_length: "length (disk_sector track_data d (unat (b :: byte))) = 512"
  by (rule sec.contents_length) (rule order_less_trans [OF unat_byte_less], simp)

lemma rd12:
  "readSector int13 fresh_buffer 2 d = Some (disk_sector track_data d 2, d)"
  "readSector int13 fresh_buffer 1 d = Some (disk_sector track_data d 1, d)"
  using rd [of 2 fresh_buffer d] rd [of 1 fresh_buffer d] by simp_all

lemma read_sectors_fill:
  assumes "\<And>j. j < length ss \<Longrightarrow> dir ! (32 * i + 6 + (k + j)) = ss ! j"
    and "0 \<notin> set ss" and "dir ! (32 * i + 6 + (k + length ss)) = 0"
    and "32 * i + 6 + (k + length ss) < length dir"
  shows "read_sectors int13 dir i k buf d =
           Some (int (k + length ss), fill (disk_sector track_data d) ss k buf, d)"
  using assms
proof (induction ss arbitrary: k buf)
  case Nil
  then show ?case by (simp add: read_sectors.simps)
next
  case (Cons b bs)
  have b: "dir ! (32 * i + 6 + k) = b" "b \<noteq> 0" using Cons.prems(1) [of 0] Cons.prems(2) by auto
  have "uint b = int (unat b)" by simp
  then have "readSector int13 (chunk buf k) (uint b) d = Some (disk_sector track_data d (unat b), d)"
    using rd [of "unat b" "chunk buf k" d] order_less_trans [OF unat_byte_less [of b]] by simp
  moreover have "read_sectors int13 dir i (Suc k) (put_chunk buf k (disk_sector track_data d (unat b))) d =
      Some (int (Suc k + length bs),
        fill (disk_sector track_data d) bs (Suc k) (put_chunk buf k (disk_sector track_data d (unat b))), d)"
    using Cons.prems Cons.prems(1) [of "Suc _"] by (intro Cons.IH) auto
  ultimately show ?case
    using b Cons.prems(4) by (simp add: read_sectors.simps [of int13 dir i k buf d])
qed

lemma readFile_found:
  assumes ok: "fs_ok (disk_sector track_data d 2) diskMap"
    and f: "findFile fileName (disk_sector track_data d 2) = int i"
  shows "readFile int13 fileName buf d =
    Some (int (length (entry_sectors (disk_sector track_data d 2) i)),
          fill (disk_sector track_data d) (entry_sectors (disk_sector track_data d 2) i) 0 buf, d)"
proof -
  let ?dir = "disk_sector track_data d 2" let ?ss = "entry_sectors ?dir i"
  have i: "i < 16" and fd: "find (name_matches ?dir fileName) [0..<16] = Some i"
    using f by (auto simp: findFile_some_iff find_upt_Some)
  have e: "entry_ok ?dir diskMap i" "length ?dir = 512" using ok i by (auto simp: fs_ok_def)
  note at = dir_at_sector [OF e i]
  have "read_sectors int13 ?dir i 0 buf d =
      Some (int (0 + length ?ss), fill (disk_sector track_data d) ?ss 0 buf, d)"
    using at e i entry_sectors_nz by (intro read_sectors_fill) (auto simp: entry_ok_def)
  then show ?thesis by (simp add: readFile_def rd12 fd)
qed

lemma readFile_missing:
  assumes "findFile fileName (disk_sector track_data d 2) = -1"
  shows "readFile int13 fileName buf d = Some (-1, buf, d)"
proof -
  have "find (name_matches (disk_sector track_data d 2) fileName) [0..<16] = None"
    using assms by (simp only: findFile_none_iff find_upt_None)
  then show ?thesis by (simp add: readFile_def rd12)
qed

end

subsection \<open>Writing\<close>

lemma length_put_upt [simp]:
  "length (fold (\<lambda>l dir. dir[32 * e + l := f l]) [0..<n] dir) = length dir"
  by (induction n) auto

lemma length_put_name [simp]: "length (put_name f e dir) = length dir"
  unfolding put_name_def by (rule length_put_upt)

lemma put_name_nth:
  assumes "32 * e + 6 \<le> length dir" and "a < length dir"
  shows "put_name f e dir ! a =
           (if 32 * e \<le> a \<and> a < 32 * e + 6 then f (a - 32 * e) else dir ! a)"
proof -
  have "fold (\<lambda>l dir. dir[32 * e + l := f l]) [0..<n] dir ! a =
      (if 32 * e \<le> a \<and> a < 32 * e + n then f (a - 32 * e) else dir ! a)" if "n \<le> 6" for n
    using that
  proof (induction n)
    case 0
    then show ?case by auto
  next
    case (Suc n)
    with assms show ?case by (auto simp: nth_list_update less_Suc_eq)
  qed
  from this [of 6] show ?thesis unfolding put_name_def by blast
qed

lemma unused_sectors_props:
  "distinct (unused_sectors diskMap n)"
  "j \<in> set (unused_sectors diskMap n) \<Longrightarrow> j < 512 \<and> diskMap ! j = 0"
  by (auto simp: unused_sectors_def dest: in_set_takeD)

text \<open>Enough free sectors among the first 256: the search finds as many as asked for, all of
  them numbers that fit in a byte.\<close>

lemma unused_sectors_enough:
  assumes "0 \<le> n" and "nat n \<le> length (filter (\<lambda>j. diskMap ! j = 0) [0..<256])"
  shows "length (unused_sectors diskMap n) = nat n"
    and "j \<in> set (unused_sectors diskMap n) \<Longrightarrow> j < 256"
proof -
  have "[0..<512] = [0..<256] @ [256..<512]"
    by (simp add: upt_add_eq_append [of 0 256 256, simplified])
  then have "unused_sectors diskMap n = take (nat n) (filter (\<lambda>j. diskMap ! j = 0) [0..<256])"
    using assms by (simp only: unused_sectors_def filter_append) simp
  then show "length (unused_sectors diskMap n) = nat n"
    and "j \<in> set (unused_sectors diskMap n) \<Longrightarrow> j < 256"
    using assms by (auto dest: in_set_takeD)
qed

lemma mark_sectors_full:
  assumes "m \<le> length us" and "\<And>s. s \<in> set us \<Longrightarrow> s < 512"
    and "32 * e + 6 + length us \<le> length dir" and "length diskMap = 512"
  shows "\<exists>dir' diskMap'. mark_sectors junk us (int (length us)) e m dir diskMap = Some (dir', diskMap') \<and>
     length dir' = length dir \<and> length diskMap' = 512 \<and>
     (\<forall>a<length dir. dir' ! a = (if 32 * e + 6 + m \<le> a \<and> a < 32 * e + 6 + length us
        then of_nat (us ! (a - (32 * e + 6))) else dir ! a)) \<and>
     (\<forall>a<512. diskMap' ! a = (if a \<in> set (drop m us) then 0xFF else diskMap ! a))"
  using assms(1,3,4)
proof (induction "length us - m" arbitrary: m dir diskMap)
  case 0
  then have "m = length us" by simp
  with 0(4) show ?case by (auto simp: mark_sectors.simps)
next
  case (Suc l)
  then have m: "m < length us" by simp
  let ?dir = "dir[32 * e + 6 + m := word_of_int (int (us ! m))]"
  let ?map = "diskMap[us ! m := 0xFF]"
  have "us ! m < 512" using m assms(2) by simp
  then have "mark_sectors junk us (int (length us)) e m dir diskMap =
      mark_sectors junk us (int (length us)) e (Suc m) ?dir ?map"
    using m by (simp add: mark_sectors.simps [of _ _ _ _ m] slot_of_def)
  moreover obtain dir' diskMap' where
    "mark_sectors junk us (int (length us)) e (Suc m) ?dir ?map = Some (dir', diskMap')"
    "length dir' = length dir" "length diskMap' = 512"
    "\<forall>a<length dir. dir' ! a = (if 32 * e + 6 + Suc m \<le> a \<and> a < 32 * e + 6 + length us
        then of_nat (us ! (a - (32 * e + 6))) else ?dir ! a)"
    "\<forall>a<512. diskMap' ! a = (if a \<in> set (drop (Suc m) us) then 0xFF else ?map ! a)"
  proof -
    have "l = length us - Suc m" "Suc m \<le> length us" using Suc.hyps(2) by simp_all
    from Suc.hyps(1) [OF this, of ?dir ?map] show ?thesis using that Suc.prems(2,3) by auto
  qed
  moreover have "drop m us = us ! m # drop (Suc m) us" using m by (simp add: Cons_nth_drop_Suc)
  ultimately show ?case
    using m Suc.prems by (auto simp: nth_list_update le_eq_less_or_eq [of "32 * e + 6 + m"])
qed

context floppy_bios
begin

lemma wr: "n < 2880 \<Longrightarrow> length buf = 512 \<Longrightarrow>
    \<exists>d'. writeSector int13 buf (int n) d = Some (buf, d') \<and>
      (\<forall>m<2880. disk_sector track_data d' m = (if m = n then buf else disk_sector track_data d m))"
  by (rule sec.wr_sector)

lemma write_sectors_chunks:
  assumes "z \<le> length ss" and "distinct ss"
    and "\<And>j. j < length ss \<Longrightarrow> dir ! (32 * e + 6 + j) = ss ! j"
  shows "\<exists>d'. write_sectors int13 dir e (length ss) z buf d = Some d' \<and>
    (\<forall>j<length ss. z \<le> j \<longrightarrow> disk_sector track_data d' (unat (ss ! j)) = chunk buf j) \<and>
    (\<forall>m<2880. m \<notin> unat ` set (drop z ss) \<longrightarrow>
       disk_sector track_data d' m = disk_sector track_data d m)"
  using assms(1)
proof (induction "length ss - z" arbitrary: z d)
  case 0
  then show ?case by (simp add: write_sectors.simps)
next
  case (Suc l)
  then have z: "z < length ss" by simp
  let ?n = "unat (ss ! z)"
  have n: "?n < 2880" using unat_byte_less [of "ss ! z"] by linarith
  obtain d1 where w: "writeSector int13 (chunk buf z) (int ?n) d = Some (chunk buf z, d1)"
    and c1: "\<And>m. m < 2880 \<Longrightarrow>
        disk_sector track_data d1 m = (if m = ?n then chunk buf z else disk_sector track_data d m)"
    using wr [OF n, of "chunk buf z" d] by auto
  obtain d' where r: "write_sectors int13 dir e (length ss) (Suc z) buf d1 = Some d'"
    and c2: "\<And>j. j < length ss \<Longrightarrow> Suc z \<le> j \<Longrightarrow> disk_sector track_data d' (unat (ss ! j)) = chunk buf j"
    and c3: "\<And>m. m < 2880 \<Longrightarrow> m \<notin> unat ` set (drop (Suc z) ss) \<Longrightarrow>
        disk_sector track_data d' m = disk_sector track_data d1 m"
  proof -
    have "l = length ss - Suc z" "Suc z \<le> length ss" using Suc.hyps(2) by simp_all
    from Suc.hyps(1) [OF this, of d1] show ?thesis using that by blast
  qed
  have d: "drop z ss = ss ! z # drop (Suc z) ss" using z by (simp add: Cons_nth_drop_Suc)
  then have "?n \<notin> unat ` set (drop (Suc z) ss)"
    using assms(2) by (metis distinct.simps(2) distinct_drop image_iff word_unat_eq_iff)
  then have "disk_sector track_data d' ?n = chunk buf z" using c3 c1 n by simp
  moreover have "write_sectors int13 dir e (length ss) z buf d = Some d'"
    using z w r assms(3) by (simp add: write_sectors.simps [of _ _ _ _ z])
  ultimately show ?case
    using c2 c3 c1 d by (auto simp: le_eq_less_or_eq [of z] Suc_le_eq)
qed

end

text \<open>The directory after a name and sector numbers were put into entry \<open>e\<close>.\<close>

definition entry_put :: "nat \<Rightarrow> (nat \<Rightarrow> byte) \<Rightarrow> byte list \<Rightarrow> byte list \<Rightarrow> byte list \<Rightarrow> bool" where
  "entry_put e f bs dir dir' \<longleftrightarrow> e < 16 \<and> length bs < 26 \<and> length dir = 512 \<and> length dir' = 512 \<and>
     (\<forall>a<512. dir' ! a =
        (if 32 * e \<le> a \<and> a < 32 * e + 6 then f (a - 32 * e)
         else if 32 * e + 6 \<le> a \<and> a < 32 * e + 6 + length bs then bs ! (a - (32 * e + 6))
         else dir ! a))"

lemma put_other_byte:
  "entry_put e f bs dir dir' \<Longrightarrow> i < 16 \<Longrightarrow> i \<noteq> e \<Longrightarrow> j < 32 \<Longrightarrow>
     dir' ! (32 * i + j) = dir ! (32 * i + j)"
  by (auto simp: entry_put_def)

lemma put_name_byte: "entry_put e f bs dir dir' \<Longrightarrow> j < 6 \<Longrightarrow> dir' ! (32 * e + j) = f j"
  by (auto simp: entry_put_def)

lemma put_other_area:
  assumes "entry_put e f bs dir dir'" and "i < 16" and "i \<noteq> e"
  shows "entry_area dir' i = entry_area dir i"
  using assms put_other_byte [OF assms, of "6 + _"]
  by (intro nth_equalityI) (auto simp: entry_put_def length_entry_area nth_entry_area add.assoc)

lemma put_area:
  assumes put: "entry_put e f bs dir dir'" and "entry_area dir e = replicate 26 0"
  shows "entry_area dir' e = bs @ replicate (26 - length bs) 0"
proof (rule nth_equalityI)
  have l: "length dir' = 512" "e < 16" "length bs < 26" "length dir = 512"
    using put by (simp_all add: entry_put_def)
  then show "length (entry_area dir' e) = length (bs @ replicate (26 - length bs) 0)"
    by (simp add: length_entry_area)
  fix j assume "j < length (entry_area dir' e)"
  then have j: "j < 26" using l by (simp add: length_entry_area)
  have "dir ! (32 * e + 6 + j) = 0"
    using assms j l by (metis nth_entry_area nth_replicate)
  then show "entry_area dir' e ! j = (bs @ replicate (26 - length bs) 0) ! j"
    using put l j by (auto simp: nth_entry_area nth_append entry_put_def)
qed

lemma put_sectors:
  assumes "entry_put e f bs dir dir'" and "entry_area dir e = replicate 26 0" and "0 \<notin> set bs"
  shows "entry_sectors dir' e = bs"
proof -
  have "takeWhile (\<lambda>b. b \<noteq> 0) (bs @ replicate (26 - length bs) 0) =
      bs @ takeWhile (\<lambda>b. b \<noteq> (0::byte)) (replicate (26 - length bs) 0)"
    using assms(3) by (intro takeWhile_append2) auto
  then show ?thesis by (simp add: entry_sectors_def put_area [OF assms(1,2)])
qed

lemma name_matches_iff: "name_matches dir g i \<longleftrightarrow> (\<forall>j<6. dir ! (32 * i + j) = g j)"
  unfolding name_matches_def list_all_iff by force

lemma put_name_matches:
  assumes "entry_put e f bs dir dir'" and "i < 16"
  shows "name_matches dir' g i = (if i = e then (\<forall>j<6. g j = f j) else name_matches dir g i)"
  using put_other_byte [OF assms] put_name_byte [OF assms(1)] by (auto simp: name_matches_iff)

lemma empty_entry_area:
  assumes "fs_ok dir diskMap" and "e < 16" and "dir ! (32 * e) = 0"
  shows "entry_area dir e = replicate 26 0" and "entry_sectors dir e = []"
proof -
  have "entry_ok dir diskMap e" using assms by (simp add: fs_ok_def)
  with assms(3) show "entry_sectors dir e = []" and "entry_area dir e = replicate 26 0"
    by (auto simp: entry_ok_def)
qed

lemma put_fs_ok:
  assumes put: "entry_put e f bs dir dir'" and ok: "fs_ok dir diskMap"
    and e: "dir ! (32 * e) = 0" and f: "f 0 \<noteq> 0" and bs: "distinct bs"
    and free: "\<And>b. b \<in> set bs \<Longrightarrow> 3 \<le> unat b \<and> diskMap ! unat b = 0"
    and map: "length diskMap' = 512"
      "\<And>a. a < 512 \<Longrightarrow> diskMap' ! a = (if a \<in> unat ` set bs then 0xFF else diskMap ! a)"
  shows "fs_ok dir' diskMap'" and "i < 16 \<Longrightarrow> entry_sectors dir' i = (if i = e then bs else entry_sectors dir i)"
proof -
  have e16: "e < 16" and len: "length bs < 26" "length dir' = 512" using put by (simp_all add: entry_put_def)
  note empty = empty_entry_area [OF ok e16 e]
  have nz: "0 \<notin> set bs" using free by force
  have sec: "entry_sectors dir' i = (if i = e then bs else entry_sectors dir i)" if "i < 16" for i
    using that put_other_area [OF put that] put_sectors [OF put empty(1) nz]
    by (auto simp: entry_sectors_def)
  then show "i < 16 \<Longrightarrow> entry_sectors dir' i = (if i = e then bs else entry_sectors dir i)" .
  have old: "3 \<le> unat b \<and> diskMap ! unat b \<noteq> 0" if "b \<in> set (entry_sectors dir i)" "i < 16" for b i
    using ok that by (auto simp: fs_ok_def entry_ok_def)
  have keep: "a < 512 \<Longrightarrow> diskMap ! a \<noteq> 0 \<Longrightarrow> diskMap' ! a \<noteq> 0" for a by (simp add: map)
  have u: "unat b < 512" for b :: byte using unat_byte_less [of b] by linarith
  have "entry_ok dir' diskMap' i" if i: "i < 16" for i
  proof (cases "i = e")
    case True
    have "dir' ! (32 * e) = f 0" using put_name_byte [OF put, of 0] by simp
    then show ?thesis
      using True len bs free u f put_area [OF put empty(1)] sec [OF i] by (auto simp: entry_ok_def map)
  next
    case False
    have "entry_ok dir diskMap i" using ok i by (simp add: fs_ok_def)
    moreover have "dir' ! (32 * i) = dir ! (32 * i)" using put_other_byte [OF put i False, of 0] by simp
    ultimately show ?thesis
      using False sec [OF i] put_other_area [OF put i False] keep u by (auto simp: entry_ok_def)
  qed
  moreover have "set (entry_sectors dir' i) \<inter> set (entry_sectors dir' j) = {}"
    if "i < 16" "j < 16" "i \<noteq> j" for i j
  proof -
    have "set bs \<inter> set (entry_sectors dir k) = {}" if "k < 16" for k using old free that by blast
    moreover have "set (entry_sectors dir i) \<inter> set (entry_sectors dir j) = {}"
      using ok that by (simp add: fs_ok_def)
    ultimately show ?thesis using that by (auto simp: sec)
  qed
  ultimately show "fs_ok dir' diskMap'" using ok len map keep by (auto simp: fs_ok_def)
qed

lemma put_findFile:
  assumes put: "entry_put e f bs dir dir'"
  shows "findFile f dir = -1 \<Longrightarrow> findFile f dir' = int e"
    and "dir ! (32 * e) = 0 \<Longrightarrow> g 0 \<noteq> 0 \<Longrightarrow> \<exists>j<6. g j \<noteq> f j \<Longrightarrow> findFile g dir' = findFile g dir"
proof -
  have e: "e < 16" using put by (simp add: entry_put_def)
  note nm = put_name_matches [OF put]
  show "findFile f dir' = int e" if "findFile f dir = -1"
    using that e unfolding findFile_none_iff findFile_some_iff by (simp add: nm)
  assume z: "dir ! (32 * e) = 0" "g 0 \<noteq> 0" and ne: "\<exists>j<6. g j \<noteq> f j"
  have "\<not> name_matches dir g e" using z by (auto simp: name_matches_iff intro!: exI [of _ 0])
  then have "name_matches dir' g i = name_matches dir g i" if "i < 16" for i
    using ne that by (auto simp: nm)
  then have "find (name_matches dir' g) [0..<16] = find (name_matches dir g) [0..<16]"
    by (intro find_upt_cong) auto
  then show "findFile g dir' = findFile g dir" by (simp add: findFile_def)
qed

definition free_count :: "byte list \<Rightarrow> nat" where
  "free_count diskMap = length (filter (\<lambda>j. diskMap ! j = 0) [0..<256])"

lemma mark_fresh:
  assumes len: "length dir = 512" "length diskMap = 512" and e: "e < 16"
    and us: "us = unused_sectors diskMap (int n)" and n: "n \<le> 25" "n \<le> free_count diskMap"
    and bs: "bs = map word_of_nat us"
  shows "length us = n" and "map unat bs = us"
    and "\<exists>dir' diskMap'. mark_sectors junk us (int n) e 0 (put_name f e dir) diskMap = Some (dir', diskMap') \<and>
      entry_put e f bs dir dir' \<and> length diskMap' = 512 \<and>
      (\<forall>a<512. diskMap' ! a = (if a \<in> unat ` set bs then 0xFF else diskMap ! a))"
proof -
  show l: "length us = n" using unused_sectors_enough(1) [of "int n" diskMap] n us by (simp add: free_count_def)
  have u: "u < 256" if "u \<in> set us" for u
    using unused_sectors_enough(2) [of "int n" diskMap] n us that by (simp add: free_count_def)
  have eq: "unat (word_of_nat x :: byte) = x" if "x \<in> set us" for x
    using u [OF that] by (simp add: unat_of_nat)
  then show m: "map unat bs = us" by (simp add: bs map_idI)
  have st: "unat ` set bs = set us" using m by (metis list.set_map)
  obtain dir' diskMap' where
    "mark_sectors junk us (int (length us)) e 0 (put_name f e dir) diskMap = Some (dir', diskMap')"
    "length dir' = length (put_name f e dir)" "length diskMap' = 512"
    and b: "\<forall>a<length (put_name f e dir). dir' ! a = (if 32 * e + 6 + 0 \<le> a \<and> a < 32 * e + 6 + length us
        then of_nat (us ! (a - (32 * e + 6))) else put_name f e dir ! a)"
    and "\<forall>a<512. diskMap' ! a = (if a \<in> set (drop 0 us) then 0xFF else diskMap ! a)"
    using mark_sectors_full [of 0 us e "put_name f e dir" diskMap junk] u l n len e by force
  moreover from this(2) b have "entry_put e f bs dir dir'"
    using len e l n by (auto simp: entry_put_def put_name_nth bs)
  ultimately show "\<exists>dir' diskMap'. mark_sectors junk us (int n) e 0 (put_name f e dir) diskMap = Some (dir', diskMap') \<and>
      entry_put e f bs dir dir' \<and> length diskMap' = 512 \<and>
      (\<forall>a<512. diskMap' ! a = (if a \<in> unat ` set bs then 0xFF else diskMap ! a))"
    using l by (auto simp: st)
qed

context floppy_bios
begin

text \<open>Storing a new file: the sectors it was given hold the caller's buffer, and no sector of
  another file, nor the boot sector, was written.\<close>

lemma writeFile_fresh:
  fixes d
  defines "dir \<equiv> disk_sector track_data d 2" and "diskMap \<equiv> disk_sector track_data d 1"
  assumes ok: "fs_ok dir diskMap" and new: "findFile f dir = -1" and f: "f 0 \<noteq> 0"
    and room: "\<exists>i<16. dir ! (32 * i) = 0" and n: "n \<le> 25" "n \<le> free_count diskMap"
  shows "\<exists>d' e bs. writeFile int13 junk f buf (int n) d = Some (int n, d') \<and>
     entry_put e f bs dir (disk_sector track_data d' 2) \<and> dir ! (32 * e) = 0 \<and> length bs = n \<and>
     fs_ok (disk_sector track_data d' 2) (disk_sector track_data d' 1) \<and>
     (\<forall>i<16. entry_sectors (disk_sector track_data d' 2) i = (if i = e then bs else entry_sectors dir i)) \<and>
     (\<forall>j<n. disk_sector track_data d' (unat (bs ! j)) = chunk buf j) \<and>
     (\<forall>m<2880. m \<notin> unat ` set bs \<longrightarrow> m \<noteq> 1 \<longrightarrow> m \<noteq> 2 \<longrightarrow>
        disk_sector track_data d' m = disk_sector track_data d m) \<and>
     (\<forall>a<512. disk_sector track_data d' 1 ! a = (if a \<in> unat ` set bs then 0xFF else diskMap ! a)) \<and>
     (\<forall>b\<in>set bs. diskMap ! unat b = 0)"
proof -
  have len: "length dir = 512" "length diskMap = 512" using ok by (simp_all add: fs_ok_def)
  obtain e where fe: "find (\<lambda>i. dir ! (32 * i) = 0) [0..<16] = Some e"
    using room find_upt_None [of "\<lambda>i. dir ! (32 * i) = 0" 16] by (meson not_Some_eq)
  then have e: "e < 16" "dir ! (32 * e) = 0" by (simp_all add: find_upt_Some)
  have we: "writing_entry f dir = int e" using new fe by (simp add: writing_entry_def)
  define us where "us = unused_sectors diskMap (int n)"
  define bs where "bs = map (word_of_nat :: nat \<Rightarrow> byte) us"
  note mk = mark_fresh [OF len e(1) us_def n bs_def]
  obtain dir' diskMap' where mark: "mark_sectors junk us (int n) e 0 (put_name f e dir) diskMap = Some (dir', diskMap')"
    and put: "entry_put e f bs dir dir'" and lm: "length diskMap' = 512"
    and mp: "\<And>a. a < 512 \<Longrightarrow> diskMap' ! a = (if a \<in> unat ` set bs then 0xFF else diskMap ! a)"
    using mk(3) by blast
  have us: "distinct us" "\<And>u. u \<in> set us \<Longrightarrow> u < 512 \<and> diskMap ! u = 0"
    using unused_sectors_props by (auto simp: us_def)
  have dbs: "distinct bs" and lbs: "length bs = n"
    using us(1) mk(1,2) by (metis distinct_map, simp add: bs_def)
  have free: "3 \<le> unat b \<and> diskMap ! unat b = 0" if "b \<in> set bs" for b
  proof -
    have z: "diskMap ! unat b = 0" using that mk(2) us(2) by (metis list.set_map image_eqI)
    then show ?thesis using ok by (auto simp: fs_ok_def not_less [symmetric])
  qed
  note fsok = put_fs_ok [OF put ok e(2) f dbs free lm mp]
  have at: "dir' ! (32 * e + 6 + j) = bs ! j" if "j < length bs" for j
    using put that by (auto simp: entry_put_def)
  obtain d3 where w: "write_sectors int13 dir' e (length bs) 0 buf d = Some d3"
    and c1: "\<And>j. j < length bs \<Longrightarrow> disk_sector track_data d3 (unat (bs ! j)) = chunk buf j"
    and c2: "\<And>m. m < 2880 \<Longrightarrow> m \<notin> unat ` set bs \<Longrightarrow> disk_sector track_data d3 m = disk_sector track_data d m"
    using write_sectors_chunks [of 0 bs dir' e buf d] dbs at by auto
  have ld: "length dir' = 512" using put by (simp add: entry_put_def)
  obtain d4 where w4: "writeSector int13 dir' 2 d3 = Some (dir', d4)"
    and c4: "\<And>m. m < 2880 \<Longrightarrow> disk_sector track_data d4 m = (if m = 2 then dir' else disk_sector track_data d3 m)"
    using wr [of 2 dir' d3] ld by auto
  obtain d5 where w5: "writeSector int13 diskMap' 1 d4 = Some (diskMap', d5)"
    and c5: "\<And>m. m < 2880 \<Longrightarrow> disk_sector track_data d5 m = (if m = 1 then diskMap' else disk_sector track_data d4 m)"
    using wr [of 1 diskMap' d4] lm by auto
  have "writeFile int13 junk f buf (int n) d = Some (int n, d5)"
    using n w w4 w5 mark mk(1) lbs we e
    by (simp add: writeFile_def rd12 dir_def [symmetric] diskMap_def [symmetric] us_def [symmetric] Let_def
          del: One_nat_def)
  moreover have "disk_sector track_data d5 2 = dir'" "disk_sector track_data d5 1 = diskMap'"
    using c4 c5 by simp_all
  moreover have "disk_sector track_data d5 (unat (bs ! j)) = chunk buf j" if "j < n" for j
    using free [of "bs ! j"] that lbs c1 [of j] c4 [of "unat (bs ! j)"] c5 [of "unat (bs ! j)"]
      unat_byte_less [of "bs ! j"] by auto
  moreover have "disk_sector track_data d5 m = disk_sector track_data d m"
    if "m < 2880" "m \<notin> unat ` set bs" "m \<noteq> 1" "m \<noteq> 2" for m
    using that c2 c4 c5 by simp
  ultimately show ?thesis
    using put e(2) lbs fsok mp free by (intro exI [of _ d5] exI [of _ e] exI [of _ bs]) simp
qed

end

context floppy_bios
begin

text \<open>Reading depends on the directory and on the sectors the file names, and on nothing else.\<close>

lemma readFile_local:
  assumes "fs_ok (disk_sector track_data d 2) diskMap" and "fs_ok (disk_sector track_data d' 2) diskMap'"
    and "findFile g (disk_sector track_data d 2) = int i" and "findFile g (disk_sector track_data d' 2) = int i"
    and "entry_sectors (disk_sector track_data d' 2) i = entry_sectors (disk_sector track_data d 2) i"
    and "\<And>b. b \<in> set (entry_sectors (disk_sector track_data d 2) i) \<Longrightarrow>
           disk_sector track_data d' (unat b) = disk_sector track_data d (unat b)"
    and "readFile int13 g out d = Some (r, out', d)"
  shows "readFile int13 g out d' = Some (r, out', d')"
proof -
  let ?ss = "entry_sectors (disk_sector track_data d 2) i"
  have "fill s ss k b = fill t ss k b" if "\<And>x. x \<in> set ss \<Longrightarrow> s (unat x) = t (unat x)" for s t ss k b
    using that by (induction s ss k b rule: fill.induct) auto
  then have f: "fill (disk_sector track_data d') ?ss 0 out = fill (disk_sector track_data d) ?ss 0 out"
    using assms(6) by blast
  show ?thesis
    using readFile_found [OF assms(1,3), of out] readFile_found [OF assms(2,4), of out] assms(5,7) f by simp
qed

end

subsection \<open>Deleting\<close>

lemma free_sectors_run:
  assumes "\<And>k. j \<le> k \<Longrightarrow> k < length ss \<Longrightarrow> dir ! (32 * e + 6 + k) = ss ! k" and "0 \<notin> set ss"
    and "dir ! (32 * e + 6 + length ss) = 0" and "32 * e + 6 + length ss < length dir"
    and "j \<le> length ss" and "length diskMap = 512"
  shows "\<exists>dir' diskMap'. free_sectors dir diskMap e j = Some (dir', diskMap') \<and>
     length dir' = length dir \<and> length diskMap' = 512 \<and>
     (\<forall>a<length dir. dir' ! a = (if 32 * e + 6 + j \<le> a \<and> a < 32 * e + 6 + length ss then 0 else dir ! a)) \<and>
     (\<forall>a<512. diskMap' ! a = (if a \<in> unat ` set (drop j ss) then 0 else diskMap ! a))"
  using assms(1,3-6)
proof (induction "length ss - j" arbitrary: j dir diskMap)
  case 0
  then have "j = length ss" by simp
  with 0(3,4,6) show ?case by (auto simp: free_sectors.simps [of _ _ _ "length ss"])
next
  case (Suc l)
  then have j: "j < length ss" by simp
  let ?dir = "dir[32 * e + 6 + j := 0]" and ?map = "diskMap[unat (ss ! j) := 0]"
  have b: "dir ! (32 * e + 6 + j) = ss ! j" "ss ! j \<noteq> 0" "unat (ss ! j) < 512"
    using Suc.prems(1) [of j] j assms(2) nth_mem [OF j] order_less_trans [OF unat_byte_less [of "ss ! j"]]
    by (simp, metis, simp)
  have step: "free_sectors dir diskMap e j = free_sectors ?dir ?map e (Suc j)"
    using b j Suc.prems(3) by (simp add: free_sectors.simps [of dir])
  have l: "l = length ss - Suc j" "Suc j \<le> length ss" using Suc.hyps(2) by simp_all
  have "\<exists>dir' diskMap'. free_sectors ?dir ?map e (Suc j) = Some (dir', diskMap') \<and>
     length dir' = length ?dir \<and> length diskMap' = 512 \<and>
     (\<forall>a<length ?dir. dir' ! a = (if 32 * e + 6 + Suc j \<le> a \<and> a < 32 * e + 6 + length ss then 0 else ?dir ! a)) \<and>
     (\<forall>a<512. diskMap' ! a = (if a \<in> unat ` set (drop (Suc j) ss) then 0 else ?map ! a))"
    using Suc.prems j l(2) by (intro Suc.hyps(1) [OF l(1)]) (auto simp: nth_list_update)
  then obtain dir' diskMap' where *: "free_sectors ?dir ?map e (Suc j) = Some (dir', diskMap')"
     "length dir' = length dir" "length diskMap' = 512"
     "\<And>a. a < length dir \<Longrightarrow>
        dir' ! a = (if 32 * e + 6 + Suc j \<le> a \<and> a < 32 * e + 6 + length ss then 0 else ?dir ! a)"
     "\<And>a. a < 512 \<Longrightarrow> diskMap' ! a = (if a \<in> unat ` set (drop (Suc j) ss) then 0 else ?map ! a)"
    by auto
  have "drop j ss = ss ! j # drop (Suc j) ss" using j by (simp add: Cons_nth_drop_Suc)
  then show ?case
    using * step j b(3) Suc.prems(3,5)
    by (auto simp: nth_list_update le_eq_less_or_eq [of "32 * e + 6 + j"])
qed

text \<open>The directory after entry \<open>e\<close> was emptied.\<close>

definition entry_cut :: "nat \<Rightarrow> byte list \<Rightarrow> byte list \<Rightarrow> bool" where
  "entry_cut e dir dir' \<longleftrightarrow> e < 16 \<and> length dir = 512 \<and> length dir' = 512 \<and>
     dir' ! (32 * e) = 0 \<and> entry_area dir' e = replicate 26 0 \<and>
     (\<forall>i<16. i \<noteq> e \<longrightarrow> (\<forall>j<32. dir' ! (32 * i + j) = dir ! (32 * i + j)))"

lemma cut_fs_ok:
  assumes cut: "entry_cut e dir dir'" and ok: "fs_ok dir diskMap"
    and map: "length diskMap' = 512"
      "\<And>a. a < 512 \<Longrightarrow> diskMap' ! a = (if a \<in> unat ` set (entry_sectors dir e) then 0 else diskMap ! a)"
  shows "fs_ok dir' diskMap'" and "i < 16 \<Longrightarrow> entry_sectors dir' i = (if i = e then [] else entry_sectors dir i)"
    and "g 0 \<noteq> 0 \<Longrightarrow> i < 16 \<Longrightarrow> name_matches dir' g i = (i \<noteq> e \<and> name_matches dir g i)"
proof -
  have e: "e < 16" and len: "length dir' = 512" "length dir = 512" using cut by (simp_all add: entry_cut_def)
  have area: "entry_area dir' i = entry_area dir i" if "i < 16" "i \<noteq> e" for i
    using cut that by (intro nth_equalityI) (auto simp: entry_cut_def length_entry_area nth_entry_area add.assoc)
  have sec: "entry_sectors dir' i = (if i = e then [] else entry_sectors dir i)" if "i < 16" for i
    using that area [OF that] cut by (auto simp: entry_sectors_def entry_cut_def)
  then show "i < 16 \<Longrightarrow> entry_sectors dir' i = (if i = e then [] else entry_sectors dir i)" .
  have old: "3 \<le> unat b \<and> diskMap ! unat b \<noteq> 0" if "b \<in> set (entry_sectors dir i)" "i < 16" for b i
    using ok that by (auto simp: fs_ok_def entry_ok_def)
  have u: "unat b < 512" for b :: byte using unat_byte_less [of b] by linarith
  have disj: "set (entry_sectors dir i) \<inter> set (entry_sectors dir j) = {}" if "i < 16" "j < 16" "i \<noteq> j" for i j
    using ok that by (simp add: fs_ok_def)
  have "entry_ok dir' diskMap' i" if i: "i < 16" for i
  proof (cases "i = e")
    case True
    then show ?thesis using cut sec [OF i] by (simp add: entry_ok_def entry_cut_def)
  next
    case False
    have o: "entry_ok dir diskMap i" using ok i by (simp add: fs_ok_def)
    have "dir' ! (32 * i + j) = dir ! (32 * i + j)" if "j < 32" for j
      using cut i False that by (simp add: entry_cut_def)
    from this [of 0] have n: "dir' ! (32 * i) = dir ! (32 * i)" by simp
    have "diskMap' ! unat b \<noteq> 0" if "b \<in> set (entry_sectors dir i)" for b
    proof -
      have "b \<notin> set (entry_sectors dir e)" using disj [OF i e False] that by blast
      then have "unat b \<notin> unat ` set (entry_sectors dir e)" 
        by (metis image_iff word_unat_eq_iff)
      then show ?thesis using old [OF that i] map(2) [OF u] by simp
    qed
    then show ?thesis using o n False sec [OF i] area [OF i False] by (simp add: entry_ok_def)
  qed
  moreover have "diskMap' ! a \<noteq> 0" if "a < 3" for a
  proof -
    have "a \<notin> unat ` set (entry_sectors dir e)" using old [OF _ e] that by (auto simp: not_less [symmetric])
    then show ?thesis using ok that map(2) [of a] by (simp add: fs_ok_def)
  qed
  ultimately show "fs_ok dir' diskMap'" using len map disj by (auto simp: fs_ok_def sec)
  show "name_matches dir' g i = (i \<noteq> e \<and> name_matches dir g i)" if "g 0 \<noteq> 0" "i < 16"
  proof (cases "i = e")
    case True
    have "dir' ! (32 * e + 0) \<noteq> g 0" using cut that by (simp add: entry_cut_def)
    with True show ?thesis unfolding name_matches_iff by (metis zero_less_numeral)
  next
    case False
    then show ?thesis using cut that by (simp add: name_matches_iff entry_cut_def)
  qed
qed

lemma entry_bytes:
  "entry_put e f bs dir dir' \<Longrightarrow> \<forall>i<16. i \<noteq> e \<longrightarrow> (\<forall>j<32. dir' ! (32 * i + j) = dir ! (32 * i + j))"
  using put_other_byte by blast

context floppy_bios
begin

lemma deleteFile_missing:
  "findFile f (disk_sector track_data d 2) = -1 \<Longrightarrow> deleteFile int13 f d = Some (-1, d)"
  by (simp add: deleteFile_def rd12)

lemma deleteFile_found:
  fixes d
  defines "dir \<equiv> disk_sector track_data d 2" and "diskMap \<equiv> disk_sector track_data d 1"
  assumes ok: "fs_ok dir diskMap" and f: "findFile f dir = int e"
  shows "\<exists>d'. deleteFile int13 f d = Some (1, d') \<and>
     entry_cut e dir (disk_sector track_data d' 2) \<and>
     fs_ok (disk_sector track_data d' 2) (disk_sector track_data d' 1) \<and>
     (\<forall>a<512. disk_sector track_data d' 1 ! a =
        (if a \<in> unat ` set (entry_sectors dir e) then 0 else diskMap ! a)) \<and>
     (\<forall>m<2880. m \<noteq> 1 \<longrightarrow> m \<noteq> 2 \<longrightarrow> disk_sector track_data d' m = disk_sector track_data d m)"
proof -
  have len: "length dir = 512" "length diskMap = 512" using ok by (simp_all add: fs_ok_def)
  have e: "e < 16" using f by (simp add: findFile_some_iff)
  have eo: "entry_ok dir diskMap e" using ok e by (simp add: fs_ok_def)
  let ?ss = "entry_sectors dir e" and ?d0 = "dir[32 * e := 0]"
  have lss: "length ?ss < 26" using eo by (simp add: entry_ok_def)
  note at = dir_at_sector [OF eo len(1) e]
  obtain dir' diskMap' where fr: "free_sectors ?d0 diskMap e 0 = Some (dir', diskMap')"
    and l: "length dir' = 512" "length diskMap' = 512"
    and d': "\<And>a. a < 512 \<Longrightarrow> dir' ! a =
        (if 32 * e + 6 \<le> a \<and> a < 32 * e + 6 + length ?ss then 0 else ?d0 ! a)"
    and m': "\<And>a. a < 512 \<Longrightarrow> diskMap' ! a = (if a \<in> unat ` set ?ss then 0 else diskMap ! a)"
    using free_sectors_run [of 0 ?ss ?d0 e diskMap] at lss e len entry_sectors_nz by auto
  have "entry_area dir' e = replicate 26 0"
  proof (rule nth_equalityI)
    fix j assume "j < length (entry_area dir' e)"
    then have j: "j < 26" using l e by (simp add: length_entry_area)
    have "j < length ?ss \<or> entry_area dir e ! j = 0"
      using eo j by (auto simp: entry_ok_def nth_append)
    then show "entry_area dir' e ! j = replicate 26 0 ! j"
      using j e l len by (auto simp: nth_entry_area d' nth_list_update)
  qed (use l e in \<open>simp add: length_entry_area\<close>)
  then have cut: "entry_cut e dir dir'"
    using e l len lss by (auto simp: entry_cut_def d' nth_list_update)
  obtain d3 where w3: "writeSector int13 dir' 2 d = Some (dir', d3)"
    and c3: "\<And>m. m < 2880 \<Longrightarrow> disk_sector track_data d3 m = (if m = 2 then dir' else disk_sector track_data d m)"
    using wr [of 2 dir' d] l by auto
  obtain d4 where w4: "writeSector int13 diskMap' 1 d3 = Some (diskMap', d4)"
    and c4: "\<And>m. m < 2880 \<Longrightarrow> disk_sector track_data d4 m = (if m = 1 then diskMap' else disk_sector track_data d3 m)"
    using wr [of 1 diskMap' d3] l by auto
  have "deleteFile int13 f d = Some (1, d4)"
    using f fr w3 w4
    by (simp add: deleteFile_def rd12 dir_def [symmetric] diskMap_def [symmetric] Let_def del: One_nat_def)
  moreover have "disk_sector track_data d4 2 = dir'" "disk_sector track_data d4 1 = diskMap'"
    using c3 c4 by simp_all
  moreover have "disk_sector track_data d4 m = disk_sector track_data d m"
    if "m < 2880" "m \<noteq> 1" "m \<noteq> 2" for m
    using that c3 c4 by simp
  ultimately show ?thesis using cut cut_fs_ok(1) [OF cut ok l(2) m'] m' by auto
qed

end

subsection \<open>What the file operations promise\<close>

abbreviation directory :: "('d \<Rightarrow> nat \<times> nat \<times> nat \<Rightarrow> byte list) \<Rightarrow> 'd \<Rightarrow> byte list" where
  "directory td d \<equiv> disk_sector td d 2"

abbreviation disk_map :: "('d \<Rightarrow> nat \<times> nat \<times> nat \<Rightarrow> byte list) \<Rightarrow> 'd \<Rightarrow> byte list" where
  "disk_map td d \<equiv> disk_sector td d 1"

text \<open>What a caller of \<^verbatim>\<open>readFile\<close> sees: the result and its memory.\<close>

definition file_view :: "'d int13 \<Rightarrow> (nat \<Rightarrow> byte) \<Rightarrow> (nat \<Rightarrow> byte) \<Rightarrow> 'd \<Rightarrow> (int \<times> (nat \<Rightarrow> byte)) option" where
  "file_view int13 f out d = map_option (\<lambda>(r, out', d'). (r, out')) (readFile int13 f out d)"

text \<open>A disk on which a new file of \<open>n\<close> sectors named \<open>f\<close> can be stored.\<close>

definition can_store :: "('d \<Rightarrow> nat \<times> nat \<times> nat \<Rightarrow> byte list) \<Rightarrow> 'd \<Rightarrow> (nat \<Rightarrow> byte) \<Rightarrow> nat \<Rightarrow> bool" where
  "can_store td d f n \<longleftrightarrow>
     fs_ok (directory td d) (disk_map td d) \<and> findFile f (directory td d) = -1 \<and> f 0 \<noteq> 0 \<and>
     list_ex (\<lambda>i. directory td d ! (32 * i) = 0) [0..<16] \<and> n \<le> 25 \<and> n \<le> free_count (disk_map td d)"

lemma list_ex_upt: "list_ex P [0..<n] \<longleftrightarrow> (\<exists>i<n. P i)"
  by (auto simp: list_ex_iff)

lemma chunks_bytes:
  assumes "\<And>j. j < n \<Longrightarrow> chunk b j = chunk c j" and "a < n * 512"
  shows "b a = c a"
proof -
  have j: "a div 512 < n" using assms(2) by (simp add: less_mult_imp_div_less)
  have "chunk b (a div 512) ! (a mod 512) = chunk c (a div 512) ! (a mod 512)"
    using assms(1) [OF j] by simp
  then show ?thesis by (simp add: chunk_def)
qed

lemma stored_reads:
  assumes "floppy_bios int13 td" and "can_store td d f n"
  shows "\<exists>d' out'. writeFile int13 junk f buf (int n) d = Some (int n, d') \<and>
     fs_ok (directory td d') (disk_map td d') \<and>
     readFile int13 f out d' = Some (int n, out', d') \<and>
     (\<forall>a. out' a = (if a < n * 512 then buf a else out a))"
proof -
  obtain d' e bs where w: "writeFile int13 junk f buf (int n) d = Some (int n, d')"
    and put: "entry_put e f bs (directory td d) (directory td d')" and lbs: "length bs = n"
    and ok: "fs_ok (directory td d') (disk_map td d')"
    and es: "\<forall>i<16. entry_sectors (directory td d') i = (if i = e then bs else entry_sectors (directory td d) i)"
    and c: "\<forall>j<n. disk_sector td d' (unat (bs ! j)) = chunk buf j"
    using floppy_bios.writeFile_fresh [OF assms(1), of d f n junk buf] assms(2) by (auto simp: can_store_def list_ex_upt)
  have e: "e < 16" using put by (simp add: entry_put_def)
  have f: "findFile f (directory td d') = int e"
    using put_findFile(1) [OF put] assms(2) by (simp add: can_store_def)
  let ?out = "fill (disk_sector td d') bs 0 out"
  have "chunk ?out j = chunk buf j" if "j < n" for j
    using that fill_chunk [of bs "disk_sector td d'" 0 out j] c lbs
      floppy_bios.sector_of_byte_length [OF assms(1), of d'] by simp
  then have "?out a = buf a" if "a < n * 512" for a using chunks_bytes that by metis
  moreover have "?out a = out a" if "\<not> a < n * 512" for a using that lbs by (intro fill_outside) auto
  ultimately show ?thesis using w ok floppy_bios.readFile_found [OF assms(1) ok f, of out] es e lbs by auto
qed

text \<open>A negative sector count stores what the count 0 stores: the name and no sectors.\<close>

lemma writeFile_negative: "n < 0 \<Longrightarrow> writeFile int13 junk f buf n d = writeFile int13 junk f buf 0 d"
proof -
  assume n: "n < 0"
  then have "unused_sectors m n = unused_sectors m 0" for m by (simp add: unused_sectors_def)
  moreover have "mark_sectors junk us n e 0 a b = mark_sectors junk us 0 e 0 a b" for us e a b
    using n by (simp add: mark_sectors.simps)
  moreover have "unused_sectors m 0 = []" for m by (simp add: unused_sectors_def)
  ultimately show ?thesis
    using n by (simp add: writeFile_def cong: if_cong)
qed

text \<open>C4. A new file read back: on a well-formed disk with a free directory entry and enough free
  sectors below 256, \<^verbatim>\<open>writeFile\<close> of \<open>n \<le> 25\<close> sectors under a new name returns \<open>n\<close> and leaves
  a well-formed disk, and \<^verbatim>\<open>readFile\<close> of that name then returns \<open>n\<close> and fills exactly the
  first \<open>n * 512\<close> bytes of the caller's memory with what was written.\<close>

theorem writeFile_readFile:
  assumes "floppy_bios int13 td" and "can_store td d f n"
  shows "\<exists>d' out'. writeFile int13 junk f buf (int n) d = Some (int n, d') \<and>
     fs_ok (directory td d') (disk_map td d') \<and>
     readFile int13 f out d' = Some (int n, out', d') \<and>
     (\<forall>a. out' a = (if a < n * 512 then buf a else out a))"
  by (rule stored_reads [OF assms])


text \<open>A freshly formatted disk: boot sector, map and directory marked in the map, no files.\<close>

definition blank_disk :: "nat \<Rightarrow> byte list" where
  "blank_disk n = (if n = 1 then [0xFF, 0xFF, 0xFF] else [])"

lemma blank_sectors:
  "disk_sector image_data blank_disk n =
     (if n = 1 then [0xFF, 0xFF, 0xFF] @ replicate 509 0 else replicate 512 0)"
  by (simp add: disk_sector_def image_data_def blank_disk_def lba_chs)

lemma blank_fs_ok: "fs_ok (directory image_data blank_disk) (disk_map image_data blank_disk)"
proof -
  have a: "entry_area (replicate 512 0) i = replicate 26 0" if "i < 16" for i
    using that by (simp add: entry_area_def)
  then have "entry_sectors (replicate 512 0) i = []" if "i < 16" for i
    using that by (simp add: entry_sectors_def)
  then show ?thesis
    by (simp add: fs_ok_def entry_ok_def blank_sectors a nth_Cons')
qed

lemma blank_free_count: "25 \<le> free_count (disk_map image_data blank_disk)"
proof -
  have "(disk_map image_data blank_disk ! j = 0) = (3 \<le> j)" if "j < 512" for j
    using that by (auto simp: blank_sectors nth_Cons')
  then have "{3..<28} \<subseteq> {j. j < 256 \<and> disk_map image_data blank_disk ! ([0..<256] ! j) = 0}"
    by (auto simp del: upt_rec_numeral)
  from card_mono [OF _ this] show ?thesis
    by (simp add: free_count_def length_filter_conv_card del: upt_rec_numeral)
qed

lemma blank_can_store: "f 0 \<noteq> 0 \<Longrightarrow> n \<le> 25 \<Longrightarrow> can_store image_data blank_disk f n"
proof -
  assume f: "f 0 \<noteq> 0" "n \<le> 25"
  have "\<not> name_matches (directory image_data blank_disk) f i" if "i < 16" for i
    using that f by (auto simp: name_matches_iff blank_sectors intro!: exI [of _ 0])
  moreover have "list_ex (\<lambda>i. directory image_data blank_disk ! (32 * i) = 0) [0..<16]"
    unfolding list_ex_upt blank_sectors by (intro exI [of _ 0]) (simp)
  ultimately show ?thesis
    using f blank_fs_ok blank_free_count
    by (simp add: can_store_def findFile_none_iff)
qed

theorem writeFile_readFile_witness:
  "\<exists>d' out'. writeFile image_int13 (\<lambda>_. 0) (\<lambda>_. 65) (\<lambda>a. word_of_nat a) 3 blank_disk = Some (3, d') \<and>
     fs_ok (directory image_data d') (disk_map image_data d') \<and>
     readFile image_int13 (\<lambda>_. 65) (\<lambda>_. 0) d' = Some (3, out', d') \<and>
     (\<forall>a. out' a = (if a < 3 * 512 then word_of_nat a else 0))"
  using writeFile_readFile [OF image.floppy_bios_axioms blank_can_store, of "\<lambda>_. 65" 3] by simp


context floppy_bios
begin

text \<open>A file keeps its contents when its directory entry and its sectors do.\<close>

lemma file_view_kept:
  assumes ok: "fs_ok (directory track_data d) m" and ok': "fs_ok (directory track_data d') m'"
    and f: "findFile g (directory track_data d') = findFile g (directory track_data d)"
    and s: "\<And>i. findFile g (directory track_data d) = int i \<Longrightarrow>
       entry_sectors (directory track_data d') i = entry_sectors (directory track_data d) i \<and>
       (\<forall>b\<in>set (entry_sectors (directory track_data d) i).
          disk_sector track_data d' (unat b) = disk_sector track_data d (unat b))"
  shows "file_view int13 g out d' = file_view int13 g out d"
proof (cases "findFile g (directory track_data d) = -1")
  case True
  then show ?thesis using f by (simp add: file_view_def readFile_missing)
next
  case False
  then obtain i where i: "findFile g (directory track_data d) = int i"
    using findFile_range [of g "directory track_data d"] nonneg_int_cases by metis
  show ?thesis
    using readFile_found [OF ok i, of out] readFile_local [OF ok ok' i] f i s [OF i]
    by (simp add: file_view_def)
qed

end

lemma stored_keeps:
  assumes "floppy_bios int13 td" and "can_store td d f n"
  shows "\<exists>d'. writeFile int13 junk f buf (int n) d = Some (int n, d') \<and>
     disk_sector td d' 0 = disk_sector td d 0 \<and>
     (\<forall>g out. g 0 \<noteq> 0 \<and> (\<exists>j<6. g j \<noteq> f j) \<longrightarrow> file_view int13 g out d' = file_view int13 g out d)"
proof -
  let ?dir = "directory td d"
  have ok0: "fs_ok ?dir (disk_map td d)" using assms(2) by (simp add: can_store_def)
  obtain d' e bs where w: "writeFile int13 junk f buf (int n) d = Some (int n, d')"
    and put: "entry_put e f bs ?dir (directory td d')" and z: "?dir ! (32 * e) = 0"
    and ok: "fs_ok (directory td d') (disk_map td d')"
    and es: "\<forall>i<16. entry_sectors (directory td d') i = (if i = e then bs else entry_sectors ?dir i)"
    and c: "\<forall>m<2880. m \<notin> unat ` set bs \<longrightarrow> m \<noteq> 1 \<longrightarrow> m \<noteq> 2 \<longrightarrow> disk_sector td d' m = disk_sector td d m"
    using floppy_bios.writeFile_fresh [OF assms(1), of d f n junk buf] assms(2)
    by (auto simp: can_store_def list_ex_upt)
  have e: "e < 16" using put by (simp add: entry_put_def)
  have bse: "set bs = set (entry_sectors (directory td d') e)" using es e by simp
  have new: "b \<notin> set bs" if "b \<in> set (entry_sectors ?dir i)" "i < 16" "i \<noteq> e" for b i
    using fs_ok_disjoint [OF ok _ e, of i b] es that by (simp add: bse)
  have bs3: "3 \<le> unat b" if "b \<in> set bs" for b
    using fs_ok_sector [OF ok e, of b] that by (simp add: bse)
  have zero: "0 \<notin> unat ` set bs"
  proof
    assume "0 \<in> unat ` set bs"
    then obtain b where "b \<in> set bs" "unat b = 0" by (metis imageE)
    then show False using bs3 by fastforce
  qed
  have "file_view int13 g out d' = file_view int13 g out d" if g: "g 0 \<noteq> 0" "\<exists>j<6. g j \<noteq> f j" for g out
  proof (rule floppy_bios.file_view_kept [OF assms(1) ok0 ok])
    show "findFile g (directory td d') = findFile g ?dir" using put_findFile(2) [OF put z g] .
    fix i assume "findFile g ?dir = int i"
    then have i: "i < 16" "name_matches ?dir g i" by (simp_all add: findFile_some_iff)
    have "\<not> name_matches ?dir g e" using z g(1) by (auto simp: name_matches_iff intro!: exI [of _ 0])
    with i have ie: "i \<noteq> e" by blast
    have "disk_sector td d' (unat b) = disk_sector td d (unat b)" if b: "b \<in> set (entry_sectors ?dir i)" for b
    proof -
      have "3 \<le> unat b" using fs_ok_sector [OF ok0 i(1) b] by simp
      moreover have "unat b \<notin> unat ` set bs" using new [OF b i(1) ie] by (metis imageE word_unat_eq_iff)
      moreover have "unat b < 2880" using order_less_trans [OF unat_byte_less [of b]] by simp
      ultimately show ?thesis using c by simp
    qed
    then show "entry_sectors (directory td d') i = entry_sectors ?dir i \<and>
       (\<forall>b\<in>set (entry_sectors ?dir i). disk_sector td d' (unat b) = disk_sector td d (unat b))"
      using es i ie by simp
  qed
  moreover have "disk_sector td d' 0 = disk_sector td d 0" using c zero by simp
  ultimately show ?thesis using w by auto
qed

text \<open>C32. Storing a new file disturbs no other one: under the same conditions every other name reads
  back the result and bytes it read before, and the boot sector is unchanged.\<close>

theorem writeFile_keeps_files:
  assumes "floppy_bios int13 td" and "can_store td d f n"
  shows "\<exists>d'. writeFile int13 junk f buf (int n) d = Some (int n, d') \<and>
     disk_sector td d' 0 = disk_sector td d 0 \<and>
     (\<forall>g out. g 0 \<noteq> 0 \<and> (\<exists>j<6. g j \<noteq> f j) \<longrightarrow> file_view int13 g out d' = file_view int13 g out d)"
  by (rule stored_keeps [OF assms])

theorem writeFile_keeps_files_witness:
  "\<exists>d'. writeFile image_int13 (\<lambda>_. 0) (\<lambda>_. 65) (\<lambda>_. 7) 2 blank_disk = Some (2, d') \<and>
     disk_sector image_data d' 0 = disk_sector image_data blank_disk 0 \<and>
     (\<forall>g out. g 0 \<noteq> 0 \<and> (\<exists>j<6. g j \<noteq> 65) \<longrightarrow>
        file_view image_int13 g out d' = file_view image_int13 g out blank_disk)"
  using writeFile_keeps_files [OF image.floppy_bios_axioms blank_can_store, of "\<lambda>_. 65" 2] by simp


text \<open>C33. Deleting: when a file's name is in the directory once, \<^verbatim>\<open>deleteFile\<close> returns 1, the name
  is gone, the file's sectors are free in the map, the disk stays well-formed, and every other
  name reads back the result and bytes it read before.\<close>

theorem deleteFile_removes:
  assumes "floppy_bios int13 td" and "fs_ok (directory td d) (disk_map td d)"
    and "findFile f (directory td d) = int e" and "f 0 \<noteq> 0"
    and "list_all (\<lambda>i. name_matches (directory td d) f i \<longrightarrow> i = e) [0..<16]"
  shows "\<exists>d'. deleteFile int13 f d = Some (1, d') \<and>
     fs_ok (directory td d') (disk_map td d') \<and>
     (\<forall>b\<in>set (entry_sectors (directory td d) e). disk_map td d' ! unat b = 0) \<and>
     (\<forall>out. file_view int13 f out d' = Some (-1, out)) \<and>
     (\<forall>g out. g 0 \<noteq> 0 \<and> (\<exists>j<6. g j \<noteq> f j) \<longrightarrow> file_view int13 g out d' = file_view int13 g out d)"
proof -
  let ?dir = "directory td d"
  have e: "e < 16" "name_matches ?dir f e" using assms(3) by (simp_all add: findFile_some_iff)
  obtain d' where w: "deleteFile int13 f d = Some (1, d')"
    and cut: "entry_cut e ?dir (directory td d')"
    and ok: "fs_ok (directory td d') (disk_map td d')"
    and m: "\<forall>a<512. disk_map td d' ! a = (if a \<in> unat ` set (entry_sectors ?dir e) then 0 else disk_map td d ! a)"
    and c: "\<forall>m<2880. m \<noteq> 1 \<longrightarrow> m \<noteq> 2 \<longrightarrow> disk_sector td d' m = disk_sector td d m"
    using floppy_bios.deleteFile_found [OF assms(1-3)] by blast
  have lm: "length (disk_map td d') = 512" using ok by (simp add: fs_ok_def)
  have es: "entry_sectors (directory td d') i = (if i = e then [] else entry_sectors ?dir i)" if "i < 16" for i
    using cut_fs_ok(2) [OF cut assms(2) lm _ that] m by blast
  have nm: "name_matches (directory td d') g i = (i \<noteq> e \<and> name_matches ?dir g i)" if "g 0 \<noteq> 0" "i < 16" for g i
    using m cut_fs_ok(3) [where g = g and i = i, OF cut assms(2) lm] that by blast
  have "findFile f (directory td d') = -1"
    using assms(4,5) by (auto simp: findFile_none_iff nm list_all_iff)
  then have gone: "file_view int13 f out d' = Some (-1, out)" for out
    by (simp add: file_view_def floppy_bios.readFile_missing [OF assms(1)])
  have "file_view int13 g out d' = file_view int13 g out d" if g: "g 0 \<noteq> 0" "\<exists>j<6. g j \<noteq> f j" for g out
  proof (rule floppy_bios.file_view_kept [OF assms(1,2) ok])
    have ne: "\<not> name_matches ?dir g e" using g(2) e(2) by (auto simp: name_matches_iff)
    then have "find (name_matches (directory td d') g) [0..<16] = find (name_matches ?dir g) [0..<16]"
      using nm [where g = g] g(1) by (intro find_upt_cong) auto
    then show "findFile g (directory td d') = findFile g ?dir" by (simp add: findFile_def)
    fix i assume "findFile g ?dir = int i"
    then have i: "i < 16" "i \<noteq> e" using ne by (auto simp: findFile_some_iff)
    have "disk_sector td d' (unat b) = disk_sector td d (unat b)" if "b \<in> set (entry_sectors ?dir i)" for b
      using fs_ok_sector [OF assms(2) i(1) that] c order_less_trans [OF unat_byte_less [of b], of 2880] by auto
    then show "entry_sectors (directory td d') i = entry_sectors ?dir i \<and>
       (\<forall>b\<in>set (entry_sectors ?dir i). disk_sector td d' (unat b) = disk_sector td d (unat b))"
      using es i by simp
  qed
  moreover have "disk_map td d' ! unat b = 0" if "b \<in> set (entry_sectors ?dir e)" for b
    using m that order_less_trans [OF unat_byte_less [of b], of 512] by simp
  ultimately show ?thesis using w ok gone by blast
qed

text \<open>Deleting undoes storing: \<^verbatim>\<open>deleteFile\<close> after \<^verbatim>\<open>writeFile\<close> of a new name gives back the
  disk map there was before, to the byte, so no sector leaks, and the name is gone again.\<close>

theorem deleteFile_undoes_writeFile:
  assumes "floppy_bios int13 td" and "can_store td d f n"
  shows "\<exists>d' d''. writeFile int13 junk f buf (int n) d = Some (int n, d') \<and>
     deleteFile int13 f d' = Some (1, d'') \<and> disk_map td d'' = disk_map td d \<and>
     fs_ok (directory td d'') (disk_map td d'') \<and> findFile f (directory td d'') = -1"
proof -
  let ?dir = "directory td d"
  obtain d' e bs where w: "writeFile int13 junk f buf (int n) d = Some (int n, d')"
    and put: "entry_put e f bs ?dir (directory td d')" and z: "?dir ! (32 * e) = 0"
    and ok: "fs_ok (directory td d') (disk_map td d')"
    and es: "\<forall>i<16. entry_sectors (directory td d') i = (if i = e then bs else entry_sectors ?dir i)"
    and mp: "\<forall>a<512. disk_map td d' ! a = (if a \<in> unat ` set bs then 0xFF else disk_map td d ! a)"
    and free: "\<forall>b\<in>set bs. disk_map td d ! unat b = 0"
    using floppy_bios.writeFile_fresh [OF assms(1), of d f n junk buf] assms(2)
    by (auto simp: can_store_def list_ex_upt)
  have e: "e < 16" using put by (simp add: entry_put_def)
  have f: "findFile f (directory td d') = int e"
    using put_findFile(1) [OF put] assms(2) by (simp add: can_store_def)
  obtain d'' where del: "deleteFile int13 f d' = Some (1, d'')"
    and cut: "entry_cut e (directory td d') (directory td d'')"
    and ok2: "fs_ok (directory td d'') (disk_map td d'')"
    and m2: "\<forall>a<512. disk_map td d'' ! a =
       (if a \<in> unat ` set (entry_sectors (directory td d') e) then 0 else disk_map td d' ! a)"
    using floppy_bios.deleteFile_found [OF assms(1) ok f] by blast
  have len: "length (disk_map td d'') = 512" "length (disk_map td d) = 512"
    using ok2 assms(2) by (simp_all add: fs_ok_def can_store_def)
  have "disk_map td d'' = disk_map td d"
    using len es e mp m2 free by (intro nth_equalityI) auto
  moreover have "findFile f (directory td d'') = -1"
    unfolding findFile_none_iff
  proof (intro allI impI)
    fix i :: nat assume i: "i < 16"
    have "\<not> name_matches (directory td d) f i" if "i \<noteq> e"
      using assms(2) i by (simp add: can_store_def findFile_none_iff)
    moreover have "name_matches (directory td d') f i = name_matches (directory td d) f i" if "i \<noteq> e"
      using put_name_matches [OF put i] that by simp
    moreover have "name_matches (directory td d'') f i = (i \<noteq> e \<and> name_matches (directory td d') f i)"
      using m2 cut_fs_ok(3) [where g = f and i = i, OF cut ok len(1)] i assms(2)
      by (simp add: can_store_def)
    ultimately show "\<not> name_matches (directory td d'') f i" by blast
  qed
  ultimately show ?thesis using w del ok2 by blast
qed

theorem deleteFile_undoes_writeFile_witness:
  "\<exists>d' d''. writeFile image_int13 (\<lambda>_. 0) (\<lambda>_. 65) (\<lambda>_. 7) 4 blank_disk = Some (4, d') \<and>
     deleteFile image_int13 (\<lambda>_. 65) d' = Some (1, d'') \<and>
     disk_map image_data d'' = disk_map image_data blank_disk \<and>
     fs_ok (directory image_data d'') (disk_map image_data d'') \<and>
     findFile (\<lambda>_. 65) (directory image_data d'') = -1"
  using deleteFile_undoes_writeFile [OF image.floppy_bios_axioms blank_can_store, of "\<lambda>_. 65" 4] by simp

text \<open>A disk with the one-sector file \<open>AAAAAA\<close> in sector 3.\<close>

definition file_disk :: "nat \<Rightarrow> byte list" where
  "file_disk n = (if n = 1 then replicate 4 0xFF else if n = 2 then replicate 6 65 @ [3]
     else if n = 3 then [1, 2, 3] else [])"

lemma file_sectors:
  "disk_sector image_data file_disk n =
     (if n = 1 then replicate 4 0xFF @ replicate 508 0
      else if n = 2 then (replicate 6 65 @ [3]) @ replicate 505 0
      else if n = 3 then [1, 2, 3] @ replicate 509 0 else replicate 512 0)"
  by (simp add: disk_sector_def image_data_def file_disk_def lba_chs del: append_assoc)

lemma file_disk_put:
  "entry_put 0 (\<lambda>_. 65) [3] (directory image_data blank_disk) (directory image_data file_disk)"
  by (auto simp: entry_put_def blank_sectors file_sectors nth_append nth_Cons')

lemma file_disk_ok: "fs_ok (directory image_data file_disk) (disk_map image_data file_disk)"
  by (rule put_fs_ok(1) [OF file_disk_put blank_fs_ok])
    (auto simp: blank_sectors file_sectors nth_append nth_Cons')

lemma file_disk_names:
  "i < 16 \<Longrightarrow> name_matches (directory image_data file_disk) (\<lambda>_. 65) i = (i = 0)"
proof -
  assume i: "i < 16"
  have "\<not> name_matches (directory image_data blank_disk) (\<lambda>_. 65) i"
    using i by (auto simp: name_matches_iff blank_sectors intro!: exI [of _ 0])
  then show ?thesis using put_name_matches [OF file_disk_put i, of "\<lambda>_. 65"] by simp
qed

theorem deleteFile_removes_witness:
  "\<exists>d'. deleteFile image_int13 (\<lambda>_. 65) file_disk = Some (1, d') \<and>
     fs_ok (directory image_data d') (disk_map image_data d') \<and>
     (\<forall>b\<in>set (entry_sectors (directory image_data file_disk) 0). disk_map image_data d' ! unat b = 0) \<and>
     (\<forall>out. file_view image_int13 (\<lambda>_. 65) out d' = Some (-1, out)) \<and>
     (\<forall>g out. g 0 \<noteq> 0 \<and> (\<exists>j<6. g j \<noteq> 65) \<longrightarrow>
        file_view image_int13 g out d' = file_view image_int13 g out file_disk)"
proof -
  have f: "findFile (\<lambda>_. 65) (directory image_data file_disk) = int 0"
    unfolding findFile_some_iff by (simp add: file_disk_names)
  have "list_all (\<lambda>i. name_matches (directory image_data file_disk) (\<lambda>_. 65) i \<longrightarrow> i = 0) [0..<16]"
    by (simp only: list_all_iff set_upt) (simp add: file_disk_names)
  from deleteFile_removes [OF image.floppy_bios_axioms file_disk_ok f _ this] show ?thesis by simp
qed

text \<open>Sector numbers are kept in a byte: when sectors 0 to 255 are in use and 256 is free,
  storing a one-sector file reports success but writes the data over the boot sector, and the
  file reads back empty.\<close>

theorem writeFile_byte_wrap:
  assumes "floppy_bios int13 td" and "findFile f (directory td d) = -1"
    and "list_ex (\<lambda>i. directory td d ! (32 * i) = 0) [0..<16]"
    and "list_all (\<lambda>j. disk_map td d ! j \<noteq> 0) [0..<256]" and "disk_map td d ! 256 = 0"
  shows "\<exists>d' out'. writeFile int13 junk f buf 1 d = Some (1, d') \<and>
     disk_sector td d' 0 = chunk buf 0 \<and> readFile int13 f out d' = Some (0, out, d')"
proof -
  let ?dir = "directory td d" and ?map = "disk_map td d"
  have len: "length ?dir = 512" "length ?map = 512"
    using floppy_bios.sector_length [OF assms(1)] by simp_all
  obtain e where fe: "find (\<lambda>i. ?dir ! (32 * i) = 0) [0..<16] = Some e"
    using assms(3) find_upt_None [of "\<lambda>i. ?dir ! (32 * i) = 0" 16] by (auto simp: list_ex_upt)
  then have e: "e < 16" "?dir ! (32 * e) = 0" by (simp_all add: find_upt_Some)
  have we: "writing_entry f ?dir = int e" using assms(2) fe by (simp add: writing_entry_def)
  have "[0..<512] = [0..<256] @ 256 # [257..<512]"
    by (simp add: upt_add_eq_append [of 0 256 256, simplified] upt_conv_Cons del: upt_rec_numeral)
  then have us: "unused_sectors ?map 1 = [256]"
    using assms(4,5) by (simp add: unused_sectors_def list_all_iff del: upt_rec_numeral)
  let ?d1 = "put_name f e ?dir"
  let ?dir' = "?d1[32 * e + 6 := 0]" and ?map' = "?map[256 := 0xFF]"
  have mark: "mark_sectors junk [256] 1 e 0 ?d1 ?map = Some (?dir', ?map')"
  proof -
    have "?d1[32 * e + 6 := 256] = ?dir'" by (rule arg_cong [of _ _ "\<lambda>b. ?d1[32 * e + 6 := b]"]) simp
    then show ?thesis by (simp add: mark_sectors.simps slot_of_def)
  qed
  have put: "entry_put e f [0] ?dir ?dir'"
    using e len by (auto simp: entry_put_def nth_list_update put_name_nth)
  have len': "length ?dir' = 512" "length ?map' = 512" using len by simp_all
  note wr = floppy_bios.wr [OF assms(1)]
  obtain d3 where w3: "writeSector int13 (chunk buf 0) 0 d = Some (chunk buf 0, d3)"
    and c3: "disk_sector td d3 0 = chunk buf 0"
    using wr [of 0 "chunk buf 0" d] by auto
  obtain d4 where w4: "writeSector int13 ?dir' 2 d3 = Some (?dir', d4)"
    and c4: "\<And>m. m < 2880 \<Longrightarrow> disk_sector td d4 m = (if m = 2 then ?dir' else disk_sector td d3 m)"
    using wr [of 2 ?dir' d3] len'(1) by auto
  obtain d5 where w5: "writeSector int13 ?map' 1 d4 = Some (?map', d5)"
    and c5: "\<And>m. m < 2880 \<Longrightarrow> disk_sector td d5 m = (if m = 1 then ?map' else disk_sector td d4 m)"
    using wr [of 1 ?map' d4] len'(2) by auto
  have at: "?dir' ! (32 * e + 6) = 0" using len e by simp
  then have ws: "write_sectors int13 ?dir' e (Suc 0) 0 buf d = Some d3"
    using w3 by (simp add: write_sectors.simps)
  have "writeFile int13 junk f buf 1 d = Some (1, d5)"
    using we mark ws w4 w5 us
    by (simp add: writeFile_def floppy_bios.rd12 [OF assms(1)] Let_def del: One_nat_def)
  moreover have "disk_sector td d5 0 = chunk buf 0" using c3 c4 c5 by simp
  moreover have d2: "directory td d5 = ?dir'" using c4 c5 by simp
  moreover have "find (name_matches ?dir' f) [0..<16] = Some e"
    using put_findFile(1) [OF put assms(2)] unfolding findFile_some_iff find_upt_Some .
  then have "readFile int13 f out d5 = Some (0, out, d5)"
    using at e len' by (simp add: readFile_def floppy_bios.rd12 [OF assms(1)] d2 read_sectors.simps)
  ultimately show ?thesis by blast
qed

text \<open>A disk whose sectors 0 to 255 are all in use.\<close>

definition busy_disk :: "nat \<Rightarrow> byte list" where
  "busy_disk n = (if n = 1 then replicate 256 0xFF else [])"

theorem writeFile_byte_wrap_witness:
  "\<exists>d' out'. writeFile image_int13 (\<lambda>_. 0) (\<lambda>_. 65) (\<lambda>_. 7) 1 busy_disk = Some (1, d') \<and>
     disk_sector image_data d' 0 = chunk (\<lambda>_. 7) 0 \<and>
     readFile image_int13 (\<lambda>_. 65) (\<lambda>_. 0) d' = Some (0, (\<lambda>_. 0), d')"
proof -
  have s: "disk_sector image_data busy_disk n =
      (if n = 1 then replicate 256 0xFF @ replicate 256 0 else replicate 512 0)" for n
    by (simp add: disk_sector_def image_data_def busy_disk_def lba_chs)
  have "findFile (\<lambda>_. 65) (directory image_data busy_disk) = -1"
    by (auto simp: findFile_none_iff name_matches_iff s intro!: exI [of _ 0])
  moreover have "list_ex (\<lambda>i. directory image_data busy_disk ! (32 * i) = 0) [0..<16]"
    unfolding list_ex_upt by (intro exI [of _ 0]) (simp add: s)
  moreover have "list_all (\<lambda>j. disk_map image_data busy_disk ! j \<noteq> 0) [0..<256]"
    by (simp only: list_all_iff set_upt) (simp add: s nth_append)
  moreover have "disk_map image_data busy_disk ! 256 = 0" by (simp add: s nth_append)
  ultimately show ?thesis by (rule writeFile_byte_wrap [OF image.floppy_bios_axioms])
qed

end
