(* ===== verification/OS_Sched.thy ===== *)
theory OS_Sched
  imports OS_Proc OS_Console
begin

section \<open>Scheduling\<close>

text \<open>
  Models the process functions of \<^verbatim>\<open>project6/kernel.c\<close> that work on the process
  structures alone: \<^verbatim>\<open>handleTimerInterrupt\<close>, \<^verbatim>\<open>sleep\<close>,
  \<^verbatim>\<open>terminate\<close>, \<^verbatim>\<open>yield\<close>, \<^verbatim>\<open>kill\<close>,
  \<^verbatim>\<open>kStrCopy\<close> and \<^verbatim>\<open>showProcesses\<close>, and the timer handler of
  \<^verbatim>\<open>project5/kernel.c\<close>. \<^verbatim>\<open>setKernelDataSegment\<close> and
  \<^verbatim>\<open>restoreDataSegment\<close> only select the segment the globals are in; a switch to another
  process (\<^verbatim>\<open>returnFromTimer\<close>) is the pair of segment and stack pointer handed to it.
\<close>

subsection \<open>The timer interrupt\<close>

definition idle_name :: "byte list \<Rightarrow> bool" where
  "idle_name nm \<longleftrightarrow> stringMatch nm (map of_char ''IDLE'' @ [0]) 5 \<noteq> 0"

definition tick_slot :: "nat \<Rightarrow> procs \<Rightarrow> procs" where
  "tick_slot i s =
     (if state (heap s (Pool i)) = SLEEPING then
        (let s1 = modify (Pool i) (\<lambda>p. p\<lparr>sleepCounter := i16 (sleepCounter p - 1)\<rparr>) s in
         if sleepCounter (heap s1 (Pool i)) \<le> 0 then
           addToReady (Pool i) (modify (Pool i) (\<lambda>p. p\<lparr>state := READY\<rparr>) s1)
         else s1)
      else s)"

definition preempt :: "procs \<Rightarrow> procs" where
  "preempt s =
     (let r = running s in
      if state (heap s r) \<noteq> DEFUNCT \<and> \<not> idle_name (name (heap s r)) \<and> state (heap s r) \<noteq> SLEEPING
      then addToReady r (modify r (\<lambda>p. p\<lparr>state := READY\<rparr>) s)
      else s)"

definition dispatch :: "procs \<Rightarrow> procs" where
  "dispatch s =
     (let (process, s1) = removeFromReady s in
      if process = NULL then s1\<lparr>running := IdleProc\<rparr>
      else (modify process (\<lambda>p. p\<lparr>state := RUNNING\<rparr>) s1)\<lparr>running := process\<rparr>)"

definition return_frame :: "procs \<Rightarrow> int \<times> int" where
  "return_frame s = (segment (heap s (running s)), stackPointer (heap s (running s)))"

definition handleTimerInterrupt :: "int \<Rightarrow> int \<Rightarrow> procs \<Rightarrow> (int \<times> int) \<times> procs" where
  "handleTimerInterrupt seg sp s =
     (let s1 = fold tick_slot [0..<8] s;
          s2 = modify (running s1) (\<lambda>p. p\<lparr>stackPointer := sp\<rparr>) s1;
          s3 = dispatch (preempt s2)
      in (return_frame s3, s3))"

text \<open>The version of project 5, before sleeping was added.\<close>

definition preempt5 :: "procs \<Rightarrow> procs" where
  "preempt5 s =
     (let r = running s in
      if state (heap s r) \<noteq> DEFUNCT \<and> \<not> idle_name (name (heap s r))
      then addToReady r (modify r (\<lambda>p. p\<lparr>state := READY\<rparr>) s)
      else s)"

definition handleTimerInterrupt5 :: "int \<Rightarrow> int \<Rightarrow> procs \<Rightarrow> (int \<times> int) \<times> procs" where
  "handleTimerInterrupt5 seg sp s =
     (let s1 = modify (running s) (\<lambda>p. p\<lparr>stackPointer := sp\<rparr>) s;
          s2 = dispatch (preempt5 s1)
      in (return_frame s2, s2))"

subsection \<open>System calls on processes\<close>

text \<open>\<^verbatim>\<open>interrupt(0x08,...)\<close> enters the timer handler with the caller's stack.\<close>

definition sleep_mark :: "int \<Rightarrow> procs \<Rightarrow> procs" where
  "sleep_mark seconds s =
     (let x = i16 (seconds * 125) in
      modify (running s) (\<lambda>p. p\<lparr>state := SLEEPING, sleepCounter := x\<rparr>) s)"

definition sleep :: "int \<Rightarrow> int \<Rightarrow> int \<Rightarrow> procs \<Rightarrow> (int \<times> int) \<times> procs" where
  "sleep seconds seg sp s = handleTimerInterrupt seg sp (sleep_mark seconds s)"

text \<open>The state in which \<^verbatim>\<open>terminate\<close> loops for ever.\<close>

definition terminate :: "procs \<Rightarrow> procs" where
  "terminate s =
     (let s1 = releaseMemorySegment (cdiv (segment (heap s (running s))) 0x1000 - 2) s
      in releasePCB (running s1) s1)"

definition yield :: "procs \<Rightarrow> procs" where
  "yield s = addToReady (running s) s"

definition kill :: "int \<Rightarrow> procs \<Rightarrow> int \<times> procs" where
  "kill seg_index s =
     (let seg = i16 ((seg_index + 2) * 0x1000) in
      case find (\<lambda>i. segment (heap s (Pool i)) = seg) [0..<8] of
        Some i \<Rightarrow> (1, modify (Pool i) (\<lambda>p. p\<lparr>state := DEFUNCT\<rparr>)
                       (releasePCB (Pool i) (releaseMemorySegment seg_index s)))
      | None \<Rightarrow> (-1, s))"

text \<open>\<^verbatim>\<open>kStrCopy\<close> into an array of the kernel: at most \<open>len\<close> bytes, up to and with the
  terminator.\<close>

fun kStrCopy :: "nat \<Rightarrow> (nat \<Rightarrow> byte) \<Rightarrow> nat \<Rightarrow> byte list \<Rightarrow> byte list" where
  "kStrCopy i src 0 dest = dest"
| "kStrCopy i src (Suc len) dest =
     (if src i = 0 then dest[i := src i] else kStrCopy (Suc i) src len (dest[i := src i]))"

definition processes_header :: "byte list" where
  "processes_header = [0x0A, 0x0D] @ map of_char ''Current Processes:'' @ [0x0A, 0x0D]"

partial_function (option) show_loop :: "procs \<Rightarrow> pcbref \<Rightarrow> byte list \<Rightarrow> byte list option" where
  "show_loop s pcb out =
     do { (_, out') \<leftarrow> printString (lit (takeWhile (\<lambda>b. b \<noteq> 0) (name (heap s (running s))))) out;
          let pcb' = nextp (heap s pcb);
          if nextp (heap s (nextp (heap s pcb'))) \<noteq> NULL then show_loop s pcb' out' else Some out' }"

definition showProcesses :: "procs \<Rightarrow> byte list \<Rightarrow> byte list option" where
  "showProcesses s out =
     do { (_, out') \<leftarrow> printString (lit processes_header) out;
          show_loop s (readyHead s) out' }"

subsection \<open>What the scheduler keeps\<close>

definition pool_ref :: "pcbref \<Rightarrow> bool" where
  "pool_ref p \<longleftrightarrow> (\<exists>i<8. p = Pool i)"

lemma pool_ref_simps [simp]:
  "\<not> pool_ref NULL" "\<not> pool_ref IdleProc" "pool_ref (Pool i) = (i < 8)" "\<not> pool_ref (Extern j)"
  by (auto simp: pool_ref_def)

text \<open>The queue holds exactly the pool processes that are ready or starting; a pool process that
  is marked running is the running one; names are not the idle process's.\<close>

definition sched_inv :: "procs \<Rightarrow> pcbref list \<Rightarrow> bool" where
  "sched_inv s qs \<longleftrightarrow> tidy s qs \<and>
     (\<forall>p. p \<in> set qs \<longleftrightarrow> pool_ref p \<and> state (heap s p) \<in> {READY, STARTING}) \<and>
     (\<forall>p. pool_ref p \<and> state (heap s p) = RUNNING \<longrightarrow> running s = p) \<and>
     (\<forall>p. pool_ref p \<and> state (heap s p) \<noteq> DEFUNCT \<longrightarrow> \<not> idle_name (name (heap s p))) \<and>
     (running s = IdleProc \<or>
        pool_ref (running s) \<and> state (heap s (running s)) \<in> {RUNNING, DEFUNCT, SLEEPING}) \<and>
     idle_name (name (heap s IdleProc)) \<and> state (heap s IdleProc) = READY"

text \<open>The sleepers that this tick wakes.\<close>

definition due :: "procs \<Rightarrow> nat \<Rightarrow> bool" where
  "due s i \<longleftrightarrow> state (heap s (Pool i)) = SLEEPING \<and> i16 (sleepCounter (heap s (Pool i)) - 1) \<le> 0"

definition woken :: "procs \<Rightarrow> pcbref list" where
  "woken s = map Pool (filter (due s) [0..<8])"

text \<open>Writing other fields than the links does not touch the queue.\<close>

lemma tidy_modify:
  assumes "\<And>x. nextp (f x) = nextp x" and "\<And>x. prevp (f x) = prevp x"
  shows "tidy (modify p f u) rs = tidy u rs"
proof -
  have h: "nextp (heap (modify p f u) x) = nextp (heap u x)"
    "prevp (heap (modify p f u) x) = prevp (heap u x)" for x using assms by auto
  have "chain (heap (modify p f u)) rs = chain (heap u) rs"
    by (induction rs rule: induct_list012) (simp_all only: chain.simps h)
  then show ?thesis unfolding tidy_def queue_repr_def h by (simp only: modify_frame(4,5))
qed

lemma tick_slots:
  assumes t: "tidy s qs"
    and q: "\<And>p. p \<in> set qs \<Longrightarrow> state (heap s p) \<noteq> SLEEPING"
  shows "tidy (fold tick_slot [0..<n] s) (qs @ map Pool (filter (due s) [0..<n])) \<and>
     running (fold tick_slot [0..<n] s) = running s \<and>
     (\<forall>p. name (heap (fold tick_slot [0..<n] s) p) = name (heap s p) \<and>
       segment (heap (fold tick_slot [0..<n] s) p) = segment (heap s p) \<and>
       stackPointer (heap (fold tick_slot [0..<n] s) p) = stackPointer (heap s p) \<and>
       state (heap (fold tick_slot [0..<n] s) p) =
         (if p \<in> set (map Pool (filter (due s) [0..<n])) then READY else state (heap s p)) \<and>
       sleepCounter (heap (fold tick_slot [0..<n] s) p) =
         (if p \<in> Pool ` {..<n} \<and> state (heap s p) = SLEEPING
          then i16 (sleepCounter (heap s p) - 1) else sleepCounter (heap s p)))"
proof (induction n)
  case 0
  then show ?case using t by simp
next
  case (Suc n)
  let ?t = "fold tick_slot [0..<n] s" and ?w = "map Pool (filter (due s) [0..<n])"
  note IH = Suc.IH
  have tt: "tidy ?t (qs @ ?w)" using IH by blast
  have st: "state (heap ?t (Pool n)) = state (heap s (Pool n))"
    and sc: "sleepCounter (heap ?t (Pool n)) = sleepCounter (heap s (Pool n))"
    using IH by auto
  show ?case
  proof (cases "state (heap s (Pool n)) = SLEEPING")
    case False
    then have "tick_slot n ?t = ?t" "\<not> due s n" using st by (simp_all add: tick_slot_def due_def)
    then show ?thesis using IH False by (auto simp: less_Suc_eq)
  next
    case True
    define u where "u = modify (Pool n) (\<lambda>p. p\<lparr>sleepCounter := i16 (sleepCounter p - 1)\<rparr>) ?t"
    have tu: "tidy u (qs @ ?w)" using tt by (simp add: u_def tidy_modify)
    show ?thesis
    proof (cases "due s n")
      case False
      then have "tick_slot n ?t = u" using True st sc by (simp add: tick_slot_def u_def Let_def due_def)
      then show ?thesis using False IH tu True by (auto simp: u_def)
    next
      case D: True
      define v where "v = modify (Pool n) (\<lambda>p. p\<lparr>state := READY\<rparr>) u"
      have tv: "tidy v (qs @ ?w)" using tu by (simp add: v_def tidy_modify)
      have "tick_slot n ?t = addToReady (Pool n) v"
        using True st sc D by (simp add: tick_slot_def u_def v_def Let_def due_def)
      moreover have "Pool n \<notin> set (qs @ ?w)" using q True by auto
      then have "tidy (addToReady (Pool n) v) ((qs @ ?w) @ [Pool n])" by (rule tidy_add [OF tv]) simp
      ultimately show ?thesis using D IH True by (auto simp: u_def v_def)
    qed
  qed
qed


lemma dispatch_spec:
  assumes "tidy s all" and "IdleProc \<notin> set all"
  shows "tidy (dispatch s) (tl all)"
    and "running (dispatch s) = (if all = [] then IdleProc else hd all)"
    and "state (heap (dispatch s) p) = (if all \<noteq> [] \<and> p = hd all then RUNNING else state (heap s p))"
    and "name (heap (dispatch s) p) = name (heap s p)"
    and "segment (heap (dispatch s) p) = segment (heap s p)"
    and "stackPointer (heap (dispatch s) p) = stackPointer (heap s p)"
    and "sleepCounter (heap (dispatch s) p) = sleepCounter (heap s p)"
    and "memoryMap (dispatch s) = memoryMap s" and "stray (dispatch s) = stray s"
proof -
  have nn: "hd all \<noteq> NULL" if "all \<noteq> []"
    using assms(1) that by (cases all) (auto simp: tidy_def queue_repr_def)
  have fst: "fst (removeFromReady s) = (if all = [] then NULL else hd all)"
    using assms(1) by (auto simp: tidy_def queue_repr_def)
  have td: "tidy (snd (removeFromReady s)) (tl all)"
    using assms(1) by (cases all) (auto simp: tidy_remove removeFromReady_empty [OF tidy_repr])
  have keep: "tidy (u\<lparr>running := r\<rparr>) rs = tidy u rs" for u r rs
    by (simp add: tidy_def queue_repr_def)
  show "tidy (dispatch s) (tl all)"
    using td nn fst by (auto simp: dispatch_def case_prod_beta Let_def keep tidy_modify simp del: fst_removeFromReady)
  show "running (dispatch s) = (if all = [] then IdleProc else hd all)"
    using nn fst by (auto simp: dispatch_def case_prod_beta Let_def simp del: fst_removeFromReady)
  show "state (heap (dispatch s) p) = (if all \<noteq> [] \<and> p = hd all then RUNNING else state (heap s p))"
    and "name (heap (dispatch s) p) = name (heap s p)"
    and "segment (heap (dispatch s) p) = segment (heap s p)"
    and "stackPointer (heap (dispatch s) p) = stackPointer (heap s p)"
    and "sleepCounter (heap (dispatch s) p) = sleepCounter (heap s p)"
    and "memoryMap (dispatch s) = memoryMap s" and "stray (dispatch s) = stray s"
    using nn fst by (auto simp: dispatch_def case_prod_beta Let_def simp del: fst_removeFromReady)
qed

text \<open>The order in which the processes will run after this tick.\<close>

definition next_queue :: "procs \<Rightarrow> pcbref list \<Rightarrow> pcbref list" where
  "next_queue s qs = qs @ woken s @ (if state (heap s (running s)) = RUNNING then [running s] else [])"

definition running_due :: "procs \<Rightarrow> bool" where
  "running_due s \<longleftrightarrow> running s \<in> set (woken s)"

lemma woken_pool: "p \<in> set (woken s) \<Longrightarrow> pool_ref p \<and> state (heap s p) = SLEEPING"
  by (auto simp: woken_def due_def simp del: upt_rec_numeral)

lemma idle_state:
  "sched_inv s qs \<Longrightarrow> running s = IdleProc \<Longrightarrow> idle_name (name (heap s (running s)))"
  by (simp add: sched_inv_def)

definition tick_result :: "int \<Rightarrow> procs \<Rightarrow> procs" where
  "tick_result sp s =
     preempt (modify (running (fold tick_slot [0..<8] s)) (\<lambda>p. p\<lparr>stackPointer := sp\<rparr>) (fold tick_slot [0..<8] s))"

lemma handleTimerInterrupt_tick:
  "handleTimerInterrupt seg sp s =
     (return_frame (dispatch (tick_result sp s)), dispatch (tick_result sp s))"
  by (simp add: handleTimerInterrupt_def tick_result_def Let_def del: upt_rec_numeral)

lemma tick_result_spec:
  assumes inv: "sched_inv s qs" and nd: "\<not> running_due s"
  shows "tidy (tick_result sp s) (next_queue s qs)"
    and "running (tick_result sp s) = running s"
    and "name (heap (tick_result sp s) p) = name (heap s p)"
    and "segment (heap (tick_result sp s) p) = segment (heap s p)"
    and "stackPointer (heap (tick_result sp s) p) = (if p = running s then sp else stackPointer (heap s p))"
    and "state (heap (tick_result sp s) p) =
           (if p \<in> set (woken s) \<or> p = running s \<and> state (heap s p) = RUNNING then READY else state (heap s p))"
    and "sleepCounter (heap (tick_result sp s) p) =
           (if pool_ref p \<and> state (heap s p) = SLEEPING then i16 (sleepCounter (heap s p) - 1)
            else sleepCounter (heap s p))"
proof -
  let ?t = "fold tick_slot [0..<8] s"
  define u where "u = modify (running ?t) (\<lambda>p. p\<lparr>stackPointer := sp\<rparr>) ?t"
  have q: "state (heap s p) \<noteq> SLEEPING" if "p \<in> set qs" for p
    using inv that by (auto simp: sched_inv_def)
  have td: "tidy s qs" using inv by (simp add: sched_inv_def)
  have T: "tidy ?t (qs @ woken s)" "running ?t = running s"
    "\<And>p. name (heap ?t p) = name (heap s p)" "\<And>p. segment (heap ?t p) = segment (heap s p)"
    "\<And>p. stackPointer (heap ?t p) = stackPointer (heap s p)"
    "\<And>p. state (heap ?t p) = (if p \<in> set (woken s) then READY else state (heap s p))"
    "\<And>p. sleepCounter (heap ?t p) =
       (if pool_ref p \<and> state (heap s p) = SLEEPING then i16 (sleepCounter (heap s p) - 1)
        else sleepCounter (heap s p))"
    using tick_slots [OF td q, of 8] by (auto simp: woken_def pool_ref_def simp del: upt_rec_numeral)
  have U: "tidy u (qs @ woken s)" "running u = running s"
    using T(1,2) by (simp_all add: u_def tidy_modify del: upt_rec_numeral)
  have su: "state (heap u (running s)) = state (heap s (running s))"
    using nd T(2,6) by (simp add: u_def running_due_def del: upt_rec_numeral)
  have nu: "name (heap u (running s)) = name (heap s (running s))"
    using T(2,3) by (simp add: u_def del: upt_rec_numeral)
  define go where "go \<longleftrightarrow> state (heap s (running s)) = RUNNING"
  have cond: "(state (heap u (running u)) \<noteq> DEFUNCT \<and> \<not> idle_name (name (heap u (running u))) \<and>
      state (heap u (running u)) \<noteq> SLEEPING) = go"
  proof (cases "running s = IdleProc")
    case True
    then show ?thesis using su nu inv idle_state [OF inv True] by (simp add: U go_def sched_inv_def)
  next
    case False
    then have r: "pool_ref (running s)" "state (heap s (running s)) \<in> {RUNNING, DEFUNCT, SLEEPING}"
      using inv unfolding sched_inv_def by blast+
    then have "\<not> idle_name (name (heap s (running s)))" if "state (heap s (running s)) \<noteq> DEFUNCT"
      using inv that unfolding sched_inv_def by blast
    then show ?thesis using r(2) by (auto simp: U su nu go_def)
  qed
  have P: "preempt u = (if go then addToReady (running s) (modify (running s) (\<lambda>p. p\<lparr>state := READY\<rparr>) u) else u)"
    using cond by (simp add: preempt_def Let_def U)
  have r: "tick_result sp s = preempt u" by (simp add: tick_result_def u_def del: upt_rec_numeral)
  note rP = trans [OF r P]
  have notin: "running s \<notin> set (qs @ woken s)" "running s \<noteq> NULL" if go
  proof -
    have "pool_ref (running s)"
      using inv that unfolding sched_inv_def go_def by (metis (no_types, lifting) num.distinct(1) numeral_eq_one_iff)
    moreover have "running s \<notin> set qs" using inv that unfolding sched_inv_def go_def by auto
    ultimately show "running s \<notin> set (qs @ woken s)" "running s \<noteq> NULL"
      using nd by (auto simp: running_due_def)
  qed
  show "tidy (tick_result sp s) (next_queue s qs)"
  proof (cases go)
    case True
    have "tidy (modify (running s) (\<lambda>p. p\<lparr>state := READY\<rparr>) u) (qs @ woken s)"
      using U(1) by (simp add: tidy_modify)
    from tidy_add [OF this notin [OF True]] True show ?thesis
      by (simp add: rP next_queue_def go_def)
  next
    case False
    then show ?thesis using U(1) by (simp add: rP next_queue_def go_def)
  qed
  show "running (tick_result sp s) = running s"
    and "name (heap (tick_result sp s) p) = name (heap s p)"
    and "segment (heap (tick_result sp s) p) = segment (heap s p)"
    and "stackPointer (heap (tick_result sp s) p) = (if p = running s then sp else stackPointer (heap s p))"
    and "sleepCounter (heap (tick_result sp s) p) =
           (if pool_ref p \<and> state (heap s p) = SLEEPING then i16 (sleepCounter (heap s p) - 1)
            else sleepCounter (heap s p))"
    using T U by (simp_all add: rP u_def del: upt_rec_numeral)
  show "state (heap (tick_result sp s) p) =
           (if p \<in> set (woken s) \<or> p = running s \<and> state (heap s p) = RUNNING then READY else state (heap s p))"
    using T by (auto simp: rP u_def go_def simp del: upt_rec_numeral)
qed


definition tick :: "int \<Rightarrow> procs \<Rightarrow> procs" where
  "tick sp s = snd (handleTimerInterrupt 0 sp s)"

lemma handleTimerInterrupt_any_segment: "handleTimerInterrupt seg sp s = handleTimerInterrupt seg' sp s"
  by (simp add: handleTimerInterrupt_def)

lemma tick_dispatch: "tick sp s = dispatch (tick_result sp s)"
  by (simp add: tick_def handleTimerInterrupt_tick)

lemma next_queue_members:
  assumes inv: "sched_inv s qs" and nd: "\<not> running_due s"
  shows "p \<in> set (next_queue s qs) \<longleftrightarrow>
     pool_ref p \<and> (state (heap s p) \<in> {READY, STARTING} \<or> p \<in> set (woken s) \<or>
                   p = running s \<and> state (heap s p) = RUNNING)"
proof -
  have "pool_ref (running s)" if "state (heap s (running s)) = RUNNING"
    using inv that unfolding sched_inv_def by (metis num.distinct(1) numeral_eq_one_iff)
  then show ?thesis
    using inv woken_pool by (auto simp: next_queue_def sched_inv_def)
qed

text \<open>One tick: the machine and the list of processes move together.\<close>

lemma tick_spec:
  assumes inv: "sched_inv s qs" and nd: "\<not> running_due s"
  shows "sched_inv (tick sp s) (tl (next_queue s qs))"
    and "running (tick sp s) = (if next_queue s qs = [] then IdleProc else hd (next_queue s qs))"
    and "name (heap (tick sp s) p) = name (heap s p)"
    and "segment (heap (tick sp s) p) = segment (heap s p)"
    and "stackPointer (heap (tick sp s) p) = (if p = running s then sp else stackPointer (heap s p))"
    and "state (heap (tick sp s) p) =
          (if next_queue s qs \<noteq> [] \<and> p = hd (next_queue s qs) then RUNNING
           else if p \<in> set (woken s) \<or> p = running s \<and> state (heap s p) = RUNNING then READY
           else state (heap s p))"
    and "sleepCounter (heap (tick sp s) p) =
           (if pool_ref p \<and> state (heap s p) = SLEEPING then i16 (sleepCounter (heap s p) - 1)
            else sleepCounter (heap s p))"
    and "state (heap (tick sp s) (running (tick sp s))) \<noteq> SLEEPING"
proof -
  let ?q = "next_queue s qs"
  note R = tick_result_spec [OF inv nd, of sp]
  note mem = next_queue_members [OF inv nd]
  have idle: "IdleProc \<notin> set ?q" using mem by simp
  note D = dispatch_spec [OF R(1) idle]
  have hdq: "hd ?q \<in> set ?q" if "?q \<noteq> []" using that by simp
  have d: "distinct ?q" using R(1) by (auto simp: tidy_def queue_repr_def)
  show run: "running (tick sp s) = (if ?q = [] then IdleProc else hd ?q)"
    and nm: "name (heap (tick sp s) p) = name (heap s p)" for p
    using D(2,4) R(3) by (simp_all add: tick_dispatch)
  show "segment (heap (tick sp s) p) = segment (heap s p)"
    and "stackPointer (heap (tick sp s) p) = (if p = running s then sp else stackPointer (heap s p))"
    and "sleepCounter (heap (tick sp s) p) =
           (if pool_ref p \<and> state (heap s p) = SLEEPING then i16 (sleepCounter (heap s p) - 1)
            else sleepCounter (heap s p))"
    using D(5,6,7) R(4,5,7) by (simp_all add: tick_dispatch)
  show st: "state (heap (tick sp s) p) =
          (if ?q \<noteq> [] \<and> p = hd ?q then RUNNING
           else if p \<in> set (woken s) \<or> p = running s \<and> state (heap s p) = RUNNING then READY
           else state (heap s p))" for p
    using D(3) R(6) by (simp add: tick_dispatch)
  have td: "tidy (tick sp s) (tl ?q)" using D(1) by (simp add: tick_dispatch)
  have tl: "p \<in> set (tl ?q) \<longleftrightarrow> p \<in> set ?q \<and> p \<noteq> hd ?q" for p
    using d by (cases ?q) auto
  have idle_st: "state (heap (tick sp s) IdleProc) = READY"
  proof -
    have "state (heap s IdleProc) = READY" using inv by (simp add: sched_inv_def)
    moreover have "\<not> (?q \<noteq> [] \<and> IdleProc = hd ?q)" using hdq idle by metis
    moreover have "IdleProc \<notin> set (woken s)" using woken_pool [of IdleProc s] by auto
    ultimately show ?thesis by (simp only: st if_False) simp
  qed
  have A: "p \<in> set (tl ?q) \<longleftrightarrow> pool_ref p \<and> state (heap (tick sp s) p) \<in> {READY, STARTING}" for p
  proof (cases "?q = []")
    case True
    then show ?thesis using mem [of p] st [of p] by auto
  next
    case False
    then show ?thesis unfolding tl mem st by auto
  qed
  have B: "running (tick sp s) = p" if "pool_ref p" "state (heap (tick sp s) p) = RUNNING" for p
  proof (rule ccontr)
    assume "running (tick sp s) \<noteq> p"
    then have ne: "\<not> (?q \<noteq> [] \<and> p = hd ?q)" using run by auto
    with that(2) have "state (heap s p) = RUNNING" "p \<noteq> running s" using st [of p] by (auto split: if_splits)
    then show False using inv that(1) by (auto simp: sched_inv_def)
  qed
  have C: "\<not> idle_name (name (heap (tick sp s) p))" if "pool_ref p" "state (heap (tick sp s) p) \<noteq> DEFUNCT" for p
  proof -
    have "state (heap s p) \<noteq> DEFUNCT"
    proof
      assume z: "state (heap s p) = DEFUNCT"
      then have "p \<notin> set (woken s)" using woken_pool [of p s] by auto
      with z that have "?q \<noteq> []" "p = hd ?q" using st [of p] by (auto split: if_splits)
      with z \<open>p \<notin> set (woken s)\<close> mem [of p] hdq show False by auto
    qed
    then show ?thesis using inv that(1) by (simp add: nm sched_inv_def)
  qed
  have E: "running (tick sp s) = IdleProc \<or>
      pool_ref (running (tick sp s)) \<and> state (heap (tick sp s) (running (tick sp s))) \<in> {RUNNING, DEFUNCT, SLEEPING}"
    using run st hdq mem by simp
  show "sched_inv (tick sp s) (tl ?q)"
    using td A B C E inv idle_st by (auto simp: sched_inv_def nm)
  show "state (heap (tick sp s) (running (tick sp s))) \<noteq> SLEEPING"
    using run st idle_st by (cases "?q = []") simp_all
qed


subsection \<open>Fair turns and saved contexts\<close>

abbreviation ticks :: "int list \<Rightarrow> procs \<Rightarrow> procs" where
  "ticks sps s \<equiv> fold tick sps s"

lemma not_running_due_tick:
  assumes "sched_inv s qs" and "\<not> running_due s"
  shows "\<not> running_due (tick sp s)"
  using tick_spec(8) [OF assms, of sp] woken_pool [of "running (tick sp s)" "tick sp s"]
  by (auto simp: running_due_def)

lemma next_queue_Cons: "next_queue s (q # qs) = q # (qs @ woken s @
    (if state (heap s (running s)) = RUNNING then [running s] else []))"
  by (simp add: next_queue_def)

lemma running_not_queued:
  assumes "sched_inv s qs"
  shows "running s \<notin> set qs"
proof
  assume r: "running s \<in> set qs"
  have m: "\<And>p. p \<in> set qs \<longleftrightarrow> pool_ref p \<and> state (heap s p) \<in> {READY, STARTING}"
    and c: "running s = IdleProc \<or> state (heap s (running s)) \<in> {RUNNING, DEFUNCT, SLEEPING}"
    using assms unfolding sched_inv_def by blast+
  from m [of "running s"] r c show False by auto
qed

lemma queue_turn:
  assumes "sched_inv s qs" and "\<not> running_due s" and "k < length qs" and "length sps = Suc k"
  shows "running (ticks sps s) = qs ! k \<and> return_frame (ticks sps s) =
     (segment (heap s (qs ! k)), stackPointer (heap s (qs ! k))) \<and>
     state (heap (ticks sps s) (qs ! k)) = RUNNING"
  using assms
proof (induction k arbitrary: s qs sps)
  case 0
  then obtain q rs sp where q: "qs = q # rs" "sps = [sp]"
    by (cases qs) (auto simp: length_Suc_conv)
  have inv: "sched_inv s qs" and nd: "\<not> running_due s" using 0 by auto
  have "q \<noteq> running s" using running_not_queued [OF inv] q by auto
  then show ?case
    using tick_spec [OF inv nd, of sp] q by (simp add: next_queue_Cons return_frame_def)
next
  case (Suc k)
  then obtain q rs where q: "qs = q # rs" by (cases qs) auto
  obtain sp sps' where sps: "sps = sp # sps'" "length sps' = Suc k"
    using Suc.prems(4) by (cases sps) auto
  have inv: "sched_inv s qs" and nd: "\<not> running_due s" using Suc.prems by auto
  note T = tick_spec [OF inv nd, of sp]
  let ?rest = "rs @ woken s @ (if state (heap s (running s)) = RUNNING then [running s] else [])"
  have k: "k < length rs" and rk: "?rest ! k = rs ! k" using Suc.prems(3) q by (simp_all add: nth_append)
  have "sched_inv (tick sp s) ?rest" using T(1) by (simp add: q next_queue_Cons)
  from Suc.IH [OF this not_running_due_tick [OF inv nd] _ sps(2)]
  have IH: "running (ticks sps' (tick sp s)) = rs ! k \<and> return_frame (ticks sps' (tick sp s)) =
     (segment (heap (tick sp s) (rs ! k)), stackPointer (heap (tick sp s) (rs ! k))) \<and>
     state (heap (ticks sps' (tick sp s)) (rs ! k)) = RUNNING"
    using k rk by simp
  have "rs ! k \<in> set qs" using k q by simp
  then have "rs ! k \<noteq> running s" using running_not_queued [OF inv] by metis
  then show ?case using IH T(4,5) by (simp add: sps q)
qed

text \<open>C1. One timer tick is one round-robin step: from a state whose ready queue holds the
  processes \<open>qs\<close>, the tick appends the sleepers that are due and then the preempted process,
  gives the processor to the head of that list (the idle process when it is empty), leaves the
  tail as the ready queue, saves the stack pointer of the process switched out and no other, and
  returns with the saved segment and stack pointer of the process switched in.\<close>

theorem timer_round_robin:
  assumes "sched_inv s qs" and "\<not> running_due s"
  shows "handleTimerInterrupt seg sp s = (return_frame (tick sp s), tick sp s) \<and>
     sched_inv (tick sp s) (tl (next_queue s qs)) \<and>
     running (tick sp s) = (if next_queue s qs = [] then IdleProc else hd (next_queue s qs)) \<and>
     (\<forall>p. segment (heap (tick sp s) p) = segment (heap s p) \<and>
          stackPointer (heap (tick sp s) p) = (if p = running s then sp else stackPointer (heap s p)))"
  using tick_spec [OF assms, of sp]
  by (simp add: handleTimerInterrupt_tick tick_dispatch)

text \<open>C22. No process starves and none loses its context: the process at place \<open>k\<close> of the ready
  queue is running after \<open>k + 1\<close> ticks, whatever the stack pointers of the processes running in
  between, and is resumed at the segment and stack pointer it was stored with.\<close>

theorem ready_process_runs:
  assumes "sched_inv s qs" and "\<not> running_due s" and "k < length qs" and "length sps = Suc k"
  shows "running (ticks sps s) = qs ! k \<and>
     return_frame (ticks sps s) = (segment (heap s (qs ! k)), stackPointer (heap s (qs ! k)))"
  using queue_turn [OF assms] by simp


subsection \<open>Sleeping\<close>

lemma sleep_mark_inv:
  assumes inv: "sched_inv s qs" and run: "state (heap s (running s)) = RUNNING"
  shows "sched_inv (sleep_mark n s) qs" and "pool_ref (running s)"
proof -
  show p: "pool_ref (running s)"
    using inv run unfolding sched_inv_def by (metis num.distinct(1) numeral_eq_one_iff)
  have "tidy (sleep_mark n s) qs" using inv by (simp add: sleep_mark_def sched_inv_def tidy_modify Let_def)
  moreover have st: "state (heap (sleep_mark n s) q) = (if q = running s then SLEEPING else state (heap s q))"
    and nm: "name (heap (sleep_mark n s) q) = name (heap s q)"
    and r: "running (sleep_mark n s) = running s" for q
    by (simp_all add: sleep_mark_def Let_def)
  moreover have "q \<in> set qs \<longleftrightarrow> pool_ref q \<and> state (heap (sleep_mark n s) q) \<in> {READY, STARTING}" for q
  proof (cases "q = running s")
    case True
    then show ?thesis using running_not_queued [OF inv] by (simp add: st)
  next
    case False
    then show ?thesis using inv by (simp add: st sched_inv_def)
  qed
  moreover have "\<not> (pool_ref q \<and> state (heap (sleep_mark n s) q) = RUNNING)" for q
    using inv by (auto simp: st sched_inv_def)
  moreover have "IdleProc \<noteq> running s" using p by auto
  moreover have "\<not> idle_name (name (heap s q))"
    if "pool_ref q" "state (heap (sleep_mark n s) q) \<noteq> DEFUNCT" for q
  proof -
    have "state (heap s q) \<noteq> DEFUNCT" using that(2) run by (cases "q = running s") (simp_all add: st)
    then show ?thesis using inv that(1) unfolding sched_inv_def by blast
  qed
  ultimately show "sched_inv (sleep_mark n s) qs"
    using inv p unfolding sched_inv_def by (simp add: nm r st)
qed

lemma tick_sleeping:
  assumes inv: "sched_inv s qs" and nd: "\<not> running_due s" and p: "pool_ref p"
    and st: "state (heap s p) = SLEEPING" and c: "sleepCounter (heap s p) = int c" "0 < c" "c \<le> 32767"
  shows "if c = 1 then state (heap (tick sp s) p) \<in> {READY, RUNNING}
         else state (heap (tick sp s) p) = SLEEPING \<and> sleepCounter (heap (tick sp s) p) = int (c - 1)"
proof -
  obtain i where i: "p = Pool i" "i < 8" using p by (auto simp: pool_ref_def)
  have i16: "i16 (int c - 1) = int c - 1" using c by (intro i16_id) auto
  have w: "p \<in> set (woken s) \<longleftrightarrow> c = 1"
    using i st c i16 by (auto simp: woken_def due_def simp del: upt_rec_numeral)
  note T = tick_spec [OF inv nd, of sp]
  have "p \<in> set (next_queue s qs) \<longleftrightarrow> c = 1"
    using next_queue_members [OF inv nd, of p] p st w by auto
  then have "next_queue s qs \<noteq> [] \<and> p = hd (next_queue s qs) \<Longrightarrow> c = 1" by auto
  then show ?thesis using T(6,7) [of p] w st p c i16 by auto
qed

lemma ticks_sleeping:
  assumes "sched_inv s qs" and "\<not> running_due s" and "pool_ref p"
    and "state (heap s p) = SLEEPING" and "sleepCounter (heap s p) = int c" and "c \<le> 32767"
    and "length sps \<le> c" and "0 < c"
  shows "if length sps < c then state (heap (ticks sps s) p) = SLEEPING
         else state (heap (ticks sps s) p) \<in> {READY, RUNNING}"
  using assms
proof (induction sps arbitrary: s qs c)
  case (Cons sp sps)
  note step = tick_sleeping [OF Cons.prems(1-5,8,6), of sp]
  show ?case
  proof (cases "c = 1")
    case True
    then show ?thesis using step Cons.prems(7) by simp
  next
    case False
    then have "state (heap (tick sp s) p) = SLEEPING" "sleepCounter (heap (tick sp s) p) = int (c - 1)"
      using step by simp_all
    from Cons.IH [OF tick_spec(1) [OF Cons.prems(1,2)] not_running_due_tick [OF Cons.prems(1,2)] Cons.prems(3) this]
    show ?thesis using Cons.prems(6,7) False \<open>0 < c\<close> by (auto split: if_splits)
  qed
qed simp

lemma sleeping_ticks:
  assumes "sched_inv s qs" and "state (heap s (running s)) = RUNNING" and "1 \<le> n" and "n \<le> 262"
    and "m < 125 * n" and "length sps = m"
  shows "(let p = running s; s' = ticks sps (snd (sleep (int n) seg sp s)) in
     if m + 1 < 125 * n then state (heap s' p) = SLEEPING \<and> running s' \<noteq> p
     else state (heap s' p) \<in> {READY, RUNNING})"
proof -
  let ?p = "running s" and ?u = "sleep_mark (int n) s"
  note inv = sleep_mark_inv(1) [OF assms(1,2), of "int n"]
  note p = sleep_mark_inv(2) [OF assms(1,2)]
  have x: "i16 (int n * 125) = int (125 * n)"
    using assms(3,4) by (subst i16_id) auto
  have u: "state (heap ?u ?p) = SLEEPING" "sleepCounter (heap ?u ?p) = int (125 * n)" "running ?u = ?p"
    by (simp_all add: sleep_mark_def Let_def x)
  have c: "0 < 125 * n" "125 * n \<le> 32767" using assms(3,4) by auto
  have nd: "\<not> running_due ?u"
  proof -
    obtain i where i: "?p = Pool i" using p by (auto simp: pool_ref_def)
    have "i16 (int (125 * n) - 1) = int (125 * n) - 1"
      using c assms(3) by (intro i16_id) auto
    then have "\<not> due ?u i" using u i assms(3) by (auto simp: due_def)
    then show ?thesis using i u(3) by (auto simp: running_due_def woken_def simp del: upt_rec_numeral)
  qed
  have s': "ticks sps (snd (sleep (int n) seg sp s)) = ticks (sp # sps) ?u"
    by (simp add: sleep_def tick_def handleTimerInterrupt_any_segment [of seg _ _ 0])
  have "if Suc m < 125 * n then state (heap (ticks (sp # sps) ?u) ?p) = SLEEPING
        else state (heap (ticks (sp # sps) ?u) ?p) \<in> {READY, RUNNING}"
    using ticks_sleeping [OF inv nd p u(1,2) c(2), of "sp # sps"] assms(5,6) c(1) by simp
  moreover have "state (heap (ticks (a # as) v) (running (ticks (a # as) v))) \<noteq> SLEEPING"
    if "sched_inv v rs" "\<not> running_due v" for a as v rs
    using that
  proof (induction as arbitrary: a v rs)
    case Nil
    then show ?case using tick_spec(8) by simp
  next
    case (Cons b as)
    from Cons.IH [OF tick_spec(1) [OF Cons.prems] not_running_due_tick [OF Cons.prems], of b] show ?case by simp
  qed
  from this [OF inv nd] have "state (heap (ticks (sp # sps) ?u) (running (ticks (sp # sps) ?u))) \<noteq> SLEEPING" .
  ultimately show ?thesis unfolding s' Let_def by (metis Suc_eq_plus1)
qed

text \<open>\<^verbatim>\<open>sleep(n)\<close> for 1 to 262 seconds keeps the process off the processor for exactly
  \<open>125 * n\<close> timer ticks, counting the one \<^verbatim>\<open>sleep\<close> itself raises: until then it is marked
  sleeping and does not run, at that tick it is ready again or running.\<close>

theorem sleep_wakes_on_time:
  assumes "sched_inv s qs" and "state (heap s (running s)) = RUNNING" and "1 \<le> n" and "n \<le> 262"
    and "m < 125 * n" and "length sps = m"
  shows "(let p = running s; s' = ticks sps (snd (sleep (int n) seg sp s)) in
     if m + 1 < 125 * n then state (heap s' p) = SLEEPING \<and> running s' \<noteq> p
     else state (heap s' p) \<in> {READY, RUNNING})"
  by (rule sleeping_ticks [OF assms])

lemma sleep_overflow_counter:
  assumes "263 \<le> n" and "n \<le> 524"
  shows "i16 (i16 (n * 125) - 1) \<le> 0"
proof -
  have "i16 (n * 125) = n * 125 - 65536" using assms by (intro i16_over) auto
  then show ?thesis using assms by simp
qed

lemma dispatch_state: "state (heap (dispatch s) p) = state (heap s p) \<or> state (heap (dispatch s) p) = RUNNING"
  by (simp add: dispatch_def case_prod_beta Let_def)

lemma preempt_state:
  "state (heap (preempt s) p) = state (heap s p) \<or> state (heap (preempt s) p) = READY"
  by (simp add: preempt_def Let_def)

text \<open>The 16-bit overflow in \<^verbatim>\<open>sleep\<close>: for 263 to 524 seconds the counter
  \<^verbatim>\<open>seconds * 125\<close> is negative, so the timer interrupt that \<^verbatim>\<open>sleep\<close> raises makes the
  process ready again at once, and when no other process is ready it simply goes on running.\<close>

theorem sleep_overflow_wakes:
  assumes "sched_inv s qs" and "state (heap s (running s)) = RUNNING" and "263 \<le> n" and "n \<le> 524"
  shows "state (heap (snd (sleep n seg sp s)) (running s)) \<in> {READY, RUNNING} \<and>
    (qs = [] \<and> woken s = [] \<longrightarrow> running (snd (sleep n seg sp s)) = running s)"
proof -
  let ?p = "running s" and ?u = "sleep_mark n s"
  note inv = sleep_mark_inv(1) [OF assms(1,2), of n]
  note pool = sleep_mark_inv(2) [OF assms(1,2)]
  then obtain i where i: "?p = Pool i" "i < 8" by (auto simp: pool_ref_def)
  have td: "tidy ?u qs" using inv by (simp add: sched_inv_def)
  have q: "state (heap ?u q) \<noteq> SLEEPING" if "q \<in> set qs" for q
    using inv that by (auto simp: sched_inv_def)
  have x: "due ?u i"
    using sleep_overflow_counter [OF assms(3,4)] i by (simp add: due_def sleep_mark_def Let_def)
  let ?t = "fold tick_slot [0..<8] ?u"
  have w: "?p \<in> set (woken ?u)" using x i by (auto simp: woken_def simp del: upt_rec_numeral)
  have T: "tidy ?t (qs @ woken ?u)" "running ?t = ?p" "state (heap ?t ?p) = READY"
    "name (heap ?t ?p) = name (heap s ?p)"
    using tick_slots [OF td q, of 8] w
    by (simp_all add: woken_def [symmetric] sleep_mark_def Let_def del: upt_rec_numeral)
  define v where "v = modify ?p (\<lambda>p. p\<lparr>stackPointer := sp\<rparr>) ?t"
  have res: "snd (sleep n seg sp s) = dispatch (preempt v)"
    by (simp add: sleep_def handleTimerInterrupt_def Let_def T v_def del: upt_rec_numeral)
  have V: "state (heap v ?p) = READY" "tidy v (qs @ woken ?u)" "running v = ?p" "name (heap v ?p) = name (heap s ?p)"
    using T by (simp_all add: v_def tidy_modify del: upt_rec_numeral)
  have "state (heap (preempt v) ?p) = READY" using preempt_state [of v ?p] V by simp
  then have A: "state (heap (dispatch (preempt v)) ?p) \<in> {READY, RUNNING}"
    using dispatch_state [of "preempt v" ?p] by auto
  have B: "running (dispatch (preempt v)) = ?p" if e: "qs = []" "woken s = []"
  proof -
    have "due ?u j \<longleftrightarrow> j = i" if "j < 8" for j
      using that e(2) x i by (cases "j = i") (auto simp: woken_def due_def sleep_mark_def Let_def filter_empty_conv simp del: upt_rec_numeral)
    then have "filter (due ?u) [0..<8] = filter (\<lambda>j. j = i) [0..<8]" by (intro filter_cong) auto
    also have "\<dots> = [i]" using i(2) by (simp only: filter_upt_single) simp
    finally have "tidy v [?p]" using V(2) e i by (simp add: woken_def del: upt_rec_numeral)
    then have v: "readyHead v = ?p" "readyTail v = ?p" "?p \<noteq> NULL" by (auto simp: tidy_def queue_repr_def)
    define a where "a = addToReady ?p (modify ?p (\<lambda>p. p\<lparr>state := READY\<rparr>) v)"
    have "\<not> idle_name (name (heap v ?p))"
    proof -
      have "state (heap s ?p) \<noteq> DEFUNCT" using assms(2) by simp
      then show ?thesis using assms(1) pool unfolding V(4) sched_inv_def by blast
    qed
    then have "preempt v = a" using V(1,3) by (simp add: preempt_def a_def Let_def)
    moreover have "readyHead a = ?p" "readyTail a = ?p" using v by (simp_all add: a_def addToReady_def Let_def)
    ultimately show ?thesis using v(3) by (simp add: dispatch_def removeFromReady_def)
  qed
  show ?thesis using A B by (simp add: res)
qed

subsection \<open>Starting and terminating\<close>

text \<open>The end of \<^verbatim>\<open>executeProgram\<close>: from \<^verbatim>\<open>getFreePCB\<close> to \<^verbatim>\<open>addToReady\<close>.
  \<^verbatim>\<open>0xFF00\<close> as an int is \<open>- 256\<close>.\<close>

definition fill_pcb :: "(nat \<Rightarrow> byte) \<Rightarrow> int \<Rightarrow> pcbref \<Rightarrow> procs \<Rightarrow> procs" where
  "fill_pcb nm seg process s =
     addToReady process
       (modify process
          (\<lambda>p. p\<lparr>name := kStrCopy 0 nm 6 (name p), state := STARTING, segment := seg,
                 stackPointer := i16 0xFF00\<rparr>) s)"

definition start_process :: "(nat \<Rightarrow> byte) \<Rightarrow> int \<Rightarrow> procs \<Rightarrow> procs option" where
  "start_process nm seg s =
     (let (process, s1) = getFreePCB s in
      if process = NULL then None else Some (fill_pcb nm seg process s1))"

lemma length_kStrCopy [simp]: "length (kStrCopy i src len dest) = length dest"
  by (induction i src len dest rule: kStrCopy.induct) auto

lemma getFreePCB_pool:
  "fst (getFreePCB s) \<noteq> NULL \<Longrightarrow>
     pool_ref (fst (getFreePCB s)) \<and> state (heap s (fst (getFreePCB s))) = DEFUNCT \<and>
     snd (getFreePCB s) = modify (fst (getFreePCB s)) (\<lambda>p. p\<lparr>state := STARTING\<rparr>) s"
  by (auto simp: getFreePCB_def find_upt_Some simp del: upt_rec_numeral split: option.splits)

lemma start_process_spec:
  assumes inv: "sched_inv s qs" and run: "state (heap s (running s)) \<noteq> DEFUNCT"
    and st: "start_process nm seg s = Some s'"
    and nm: "\<And>d. length d = 7 \<Longrightarrow> \<not> idle_name (kStrCopy 0 nm 6 d)" and wf: "procs_wf s"
  shows "\<exists>p. sched_inv s' (qs @ [p]) \<and> p \<notin> set qs \<and> pool_ref p \<and>
     state (heap s p) = DEFUNCT \<and> segment (heap s' p) = seg \<and> stackPointer (heap s' p) = -256 \<and>
     running s' = running s \<and> memoryMap s' = memoryMap s \<and> procs_wf s' \<and>
     (\<forall>q. q \<noteq> p \<longrightarrow> state (heap s' q) = state (heap s q) \<and> segment (heap s' q) = segment (heap s q) \<and>
        stackPointer (heap s' q) = stackPointer (heap s q) \<and> sleepCounter (heap s' q) = sleepCounter (heap s q))"
proof -
  define p where "p = fst (getFreePCB s)"
  have nn: "p \<noteq> NULL" and s': "s' = fill_pcb nm seg p (snd (getFreePCB s))"
    using st by (auto simp: start_process_def p_def case_prod_beta split: if_splits)
  note g = getFreePCB_pool [of s, folded p_def, OF nn]
  define u where "u = modify p (\<lambda>p. p\<lparr>name := kStrCopy 0 nm 6 (name p), state := STARTING,
      segment := seg, stackPointer := i16 0xFF00\<rparr>) (snd (getFreePCB s))"
  have s'': "s' = addToReady p u" by (simp add: s' fill_pcb_def u_def)
  have notin: "p \<notin> set qs" using g inv unfolding sched_inv_def by auto
  have pr: "p \<noteq> running s" using g run by auto
  have tu: "tidy u qs" using inv g by (simp add: u_def tidy_modify sched_inv_def)
  have td: "tidy s' (qs @ [p])" unfolding s'' by (rule tidy_add [OF tu notin nn])
  have i16: "i16 0xFF00 = -256" by (subst i16_over) simp_all
  have h: "state (heap s' q) = (if q = p then STARTING else state (heap s q))"
    "segment (heap s' q) = (if q = p then seg else segment (heap s q))"
    "stackPointer (heap s' q) = (if q = p then -256 else stackPointer (heap s q))"
    "sleepCounter (heap s' q) = sleepCounter (heap s q)"
    "name (heap s' q) = (if q = p then kStrCopy 0 nm 6 (name (heap s p)) else name (heap s q))"
    "running s' = running s" "memoryMap s' = memoryMap s" for q
    using g by (simp_all add: s'' u_def i16)
  have "length (name (heap s p)) = 7" using wf by (simp add: procs_wf_def)
  note nmp = nm [OF this]
  have wf': "procs_wf s'" using wf by (simp add: procs_wf_def h)
  have ip: "p \<noteq> IdleProc" using g by auto
  have A: "q \<in> set (qs @ [p]) \<longleftrightarrow> pool_ref q \<and> state (heap s' q) \<in> {READY, STARTING}" for q
    using inv g by (cases "q = p") (simp_all add: h sched_inv_def)
  have B: "running s' = q" if "pool_ref q" "state (heap s' q) = RUNNING" for q
  proof -
    have "q \<noteq> p" using that(2) by (auto simp: h)
    then show ?thesis using inv that unfolding sched_inv_def h(6) by (simp add: h)
  qed
  have C: "\<not> idle_name (name (heap s' q))" if "pool_ref q" "state (heap s' q) \<noteq> DEFUNCT" for q
    using inv that nmp by (cases "q = p") (simp_all add: h sched_inv_def)
  have D: "running s' = IdleProc \<or> pool_ref (running s') \<and>
      state (heap s' (running s')) \<in> {RUNNING, DEFUNCT, SLEEPING}"
    using inv pr unfolding sched_inv_def h(6) by (simp add: h)
  have E: "idle_name (name (heap s' IdleProc)) \<and> state (heap s' IdleProc) = READY"
    using inv ip by (simp add: h sched_inv_def)
  have "sched_inv s' (qs @ [p])"
    unfolding sched_inv_def using td A B C D E by blast
  then show ?thesis using notin g wf' by (intro exI [of _ p]) (simp add: h)
qed

text \<open>A process terminates: its PCB is free and it will not run again. Its links are clear, or its
  \<^verbatim>\<open>next\<close> still points to the head of the queue, when the queue survives this.\<close>

definition link_ok :: "procs \<Rightarrow> pcbref list \<Rightarrow> bool" where
  "link_ok s qs \<longleftrightarrow> nextp (heap s (running s)) = NULL \<or>
     (qs \<noteq> [] \<and> nextp (heap s (running s)) = hd qs)"

lemma set_map_tidy [simp]: "tidy (set_map i v s) qs = tidy s qs"
  by (simp add: tidy_def queue_repr_def)

lemma terminate_inv:
  assumes inv: "sched_inv s qs" and run: "pool_ref (running s)" and ok: "link_ok s qs"
  shows "sched_inv (terminate s) qs" and "state (heap (terminate s) (running (terminate s))) = DEFUNCT"
proof -
  let ?p = "running s"
  define u where "u = releaseMemorySegment (cdiv (segment (heap s (running s))) 0x1000 - 2) s"
  have u: "running u = ?p" "heap u = heap s" "tidy u qs = tidy s qs"
    by (simp_all add: u_def releaseMemorySegment_def)
  have t: "terminate s = releasePCB ?p u" by (simp add: terminate_def u_def Let_def releaseMemorySegment_def)
  have nn: "?p \<noteq> NULL" "?p \<noteq> IdleProc" using run by auto
  have td: "tidy (terminate s) qs"
    unfolding t using inv ok running_not_queued [OF inv] nn
    by (intro releasePCB_not_queued) (auto simp: u sched_inv_def link_ok_def)
  have h: "state (heap (terminate s) q) = (if q = ?p then DEFUNCT else state (heap s q))"
    "q \<noteq> ?p \<Longrightarrow> name (heap (terminate s) q) = name (heap s q)" "running (terminate s) = ?p" for q
    by (simp_all add: t u)
  show "state (heap (terminate s) (running (terminate s))) = DEFUNCT" by (simp add: h)
  have A: "q \<in> set qs \<longleftrightarrow> pool_ref q \<and> state (heap (terminate s) q) \<in> {READY, STARTING}" for q
    using inv running_not_queued [OF inv] by (cases "q = ?p") (simp_all add: h sched_inv_def)
  have B: "\<not> (pool_ref q \<and> state (heap (terminate s) q) = RUNNING)" for q
    using inv by (auto simp: h sched_inv_def)
  have C: "\<not> idle_name (name (heap (terminate s) q))"
    if "pool_ref q" "state (heap (terminate s) q) \<noteq> DEFUNCT" for q
    using inv that by (cases "q = ?p") (simp_all add: h sched_inv_def)
  have E: "idle_name (name (heap (terminate s) IdleProc)) \<and> state (heap (terminate s) IdleProc) = READY"
    using inv nn by (simp add: h sched_inv_def)
  have D: "running (terminate s) = IdleProc \<or> pool_ref (running (terminate s)) \<and>
      state (heap (terminate s) (running (terminate s))) \<in> {RUNNING, DEFUNCT, SLEEPING}"
    using run by (simp add: h)
  show "sched_inv (terminate s) qs"
    unfolding sched_inv_def using td A B C D E by blast
qed

text \<open>Terminating: a process loaded in segment \<open>0x1000 * (k + 2)\<close> has its PCB released and
  never runs again, and for \<open>k < 6\<close> its segment \<open>k\<close> becomes free. For \<open>k = 6\<close> and \<open>k = 7\<close> the
  signed division gives \<open>-10\<close> and \<open>-9\<close>: the segment stays marked used for ever and a word in front
  of the memory map is overwritten.\<close>

theorem terminate_frees:
  assumes "sched_inv s qs" and "pool_ref (running s)" and "link_ok s qs" and "k < 8"
    and "segment (heap s (running s)) = i16 (0x1000 * (int k + 2))"
  shows "sched_inv (terminate s) qs \<and> running s \<notin> set qs \<and>
     state (heap (terminate s) (running s)) = DEFUNCT \<and>
     running (tick sp (terminate s)) \<noteq> running s \<and>
     (if k < 6 then memoryMap (terminate s) = (memoryMap s)[k := FREE] \<and> stray (terminate s) = stray s
      else memoryMap (terminate s) = memoryMap s \<and> stray (terminate s) = stray s @ [(int k - 16, FREE)])"
proof -
  note T = terminate_inv [OF assms(1-3)]
  have r: "running (terminate s) = running s"
    by (simp add: terminate_def Let_def releaseMemorySegment_def)
  have d: "state (heap (terminate s) (running s)) = DEFUNCT" using T(2) by (simp add: r)
  have nw: "running s \<notin> set (woken (terminate s))" using woken_pool d by fastforce
  then have nd: "\<not> running_due (terminate s)" by (simp add: running_due_def r)
  have "running s \<notin> set (next_queue (terminate s) qs)"
    using running_not_queued [OF assms(1)] nw d by (simp add: next_queue_def r)
  then have nr: "running (tick sp (terminate s)) \<noteq> running s"
    using tick_spec(2) [OF T(1) nd, of sp] assms(2)
    by (cases "next_queue (terminate s) qs = []") (auto dest: hd_in_set)
  have seg: "cdiv (segment (heap s (running s))) 0x1000 - 2 = (if k < 6 then int k else int k - 16)"
  proof -
    have "k \<in> {0,1,2,3,4,5,6,7}" using assms(4) by auto
    then show ?thesis by (auto simp: assms(5) i16_mod cdiv_def)
  qed
  have "memoryMap (terminate s) = memoryMap (set_map (if k < 6 then int k else int k - 16) FREE s)"
    "stray (terminate s) = stray (set_map (if k < 6 then int k else int k - 16) FREE s)"
    by (simp_all only: terminate_def seg Let_def releaseMemorySegment_def releasePCB_frame)
  then show ?thesis using T(1) d nr running_not_queued [OF assms(1)] assms(4)
    by (auto simp: set_map_def)
qed


subsection \<open>Booted states\<close>

definition boot0 :: procs where
  "boot0 = initializeProcStructures procs0"

lemma idle_name_IDLE:
  assumes "length d = 7"
  shows "idle_name (d[0 := of_char (CHR ''I''), 1 := of_char (CHR ''D''), 2 := of_char (CHR ''L''),
     3 := of_char (CHR ''E''), 4 := 0])"
proof -
  obtain a b c e f g h where "d = [a, b, c, e, f, g, h]"
    using assms by (auto simp: length_Suc_conv numeral_eq_Suc)
  then show ?thesis
    by (simp add: idle_name_def stringMatch_take)
qed

lemma boot_inv:
  assumes "procs_wf s" and "\<And>p. prevp (heap s p) = NULL"
  shows "sched_inv (initializeProcStructures s) []"
proof -
  have td: "tidy (initializeProcStructures s) []" using assms(2) by (simp add: tidy_def init_links)
  have st: "state (heap (initializeProcStructures s) p) = DEFUNCT" if "pool_ref p" for p
    using that by (auto simp: pool_ref_def init_pool)
  have l: "length (name (heap s IdleProc)) = 7" using assms(1) by (simp add: procs_wf_def)
  have "idle_name (name (heap (initializeProcStructures s) IdleProc))"
    unfolding init_idle using idle_name_IDLE [OF l] by simp
  then show ?thesis using td st by (auto simp: sched_inv_def init_idle)
qed

lemma boot0_inv: "sched_inv boot0 []"
  unfolding boot0_def by (rule boot_inv [OF procs0_wf]) (simp add: procs0_def pcb0_def)

text \<open>Two processes, started right after boot in segments 0x2000 and 0x3000.\<close>

definition demo1 :: procs where
  "demo1 = fill_pcb (lit [65]) 0x2000 (Pool 0) (snd (getFreePCB boot0))"

definition demo2 :: procs where
  "demo2 = fill_pcb (lit [66]) 0x3000 (Pool 1) (snd (getFreePCB demo1))"

definition demo3 :: procs where
  "demo3 = tick 0 demo2"

lemma boot0_state: "i < 8 \<Longrightarrow> state (heap boot0 (Pool i)) = DEFUNCT"
  by (simp add: boot0_def init_pool)

lemma demo1_start: "start_process (lit [65]) 0x2000 boot0 = Some demo1"
proof -
  have "find (\<lambda>i. state (heap boot0 (Pool i)) = DEFUNCT) [0..<8] = Some 0"
    by (simp add: find_upt_Some boot0_state del: upt_rec_numeral)
  then show ?thesis by (simp add: start_process_def demo1_def getFreePCB_def)
qed

lemma demo_heads: "readyHead boot0 = NULL" "readyTail boot0 = NULL" "running boot0 = IdleProc"
  by (simp_all add: boot0_def)

lemma getFreePCB_boot0: "getFreePCB boot0 = (Pool 0, modify (Pool 0) (\<lambda>p. p\<lparr>state := STARTING\<rparr>) boot0)"
proof -
  have "find (\<lambda>i. state (heap boot0 (Pool i)) = DEFUNCT) [0..<8] = Some 0"
    by (simp add: find_upt_Some boot0_state del: upt_rec_numeral)
  then show ?thesis by (simp add: getFreePCB_def)
qed

lemma demo2_start: "start_process (lit [66]) 0x3000 demo1 = Some demo2"
proof -
  have "state (heap demo1 (Pool i)) = (if i = 0 then STARTING else DEFUNCT)" if "i < 8" for i
    using that by (simp add: demo1_def fill_pcb_def getFreePCB_boot0 boot0_state)
  then have "find (\<lambda>i. state (heap demo1 (Pool i)) = DEFUNCT) [0..<8] = Some 1"
    by (simp add: find_upt_Some del: upt_rec_numeral)
  then show ?thesis by (simp add: start_process_def demo2_def getFreePCB_def)
qed

lemma short_name: "length d = 7 \<Longrightarrow> x \<noteq> 73 \<Longrightarrow> \<not> idle_name (kStrCopy 0 (lit [x]) 6 d)"
  by (auto simp: length_Suc_conv numeral_eq_Suc lit_def idle_name_def stringMatch_def split: option.splits)

lemma demo1_inv: "sched_inv demo1 [Pool 0]" "procs_wf demo1" "running demo1 = IdleProc"
proof -
  have wf: "procs_wf boot0" unfolding boot0_def by (rule init_wf [OF procs0_wf])
  have run: "state (heap boot0 (running boot0)) \<noteq> DEFUNCT" by (simp add: boot0_def init_idle)
  obtain p where p: "sched_inv demo1 ([] @ [p])" "procs_wf demo1" "running demo1 = running boot0"
    using start_process_spec [OF boot0_inv run demo1_start short_name wf] by auto
  have "readyHead demo1 = Pool 0"
    by (simp add: demo1_def fill_pcb_def addToReady_def getFreePCB_boot0 demo_heads)
  then have "p = Pool 0" using p(1) by (simp add: sched_inv_def tidy_def queue_repr_def)
  with p show "sched_inv demo1 [Pool 0]" "procs_wf demo1" "running demo1 = IdleProc"
    by (simp_all add: demo_heads)
qed

lemma demo2_inv: "sched_inv demo2 [Pool 0, Pool 1]" "procs_wf demo2" "running demo2 = IdleProc"
proof -
  have run: "state (heap demo1 (running demo1)) \<noteq> DEFUNCT"
    using demo1_inv by (simp add: sched_inv_def)
  obtain p where p: "sched_inv demo2 ([Pool 0] @ [p])" "procs_wf demo2" "running demo2 = running demo1"
    using start_process_spec [OF demo1_inv(1) run demo2_start short_name demo1_inv(2)] by auto
  have "readyTail demo2 = Pool 1"
    by (simp add: demo2_def fill_pcb_def addToReady_def Let_def)
  then have "p = Pool 1" using p(1) by (simp add: sched_inv_def tidy_def queue_repr_def)
  with p show "sched_inv demo2 [Pool 0, Pool 1]" "procs_wf demo2" "running demo2 = IdleProc"
    by (simp_all add: demo1_inv)
qed


lemma demo2_states:
  "i < 8 \<Longrightarrow> state (heap demo2 (Pool i)) = (if i < 2 then STARTING else DEFUNCT)"
proof -
  assume i: "i < 8"
  have "state (heap demo1 (Pool i)) = (if i = 0 then STARTING else DEFUNCT)" if "i < 8" for i
    using that by (simp add: demo1_def fill_pcb_def getFreePCB_boot0 boot0_state)
  moreover have "find (\<lambda>i. state (heap demo1 (Pool i)) = DEFUNCT) [0..<8] = Some 1"
    using calculation by (simp add: find_upt_Some del: upt_rec_numeral)
  ultimately show ?thesis
    using i by (auto simp: demo2_def fill_pcb_def getFreePCB_def)
qed

lemma demo2_woken: "woken demo2 = []"
  using demo2_states by (auto simp: woken_def due_def filter_empty_conv simp del: upt_rec_numeral)

lemma demo2_not_due: "\<not> running_due demo2"
  by (simp add: running_due_def demo2_woken)

lemma demo2_next: "next_queue demo2 [Pool 0, Pool 1] = [Pool 0, Pool 1]"
  using demo2_inv(1) by (simp add: next_queue_def demo2_woken demo2_inv(3) sched_inv_def)

lemma demo3_inv: "sched_inv demo3 [Pool 1]" "running demo3 = Pool 0" "state (heap demo3 (Pool 0)) = RUNNING"
  using tick_spec(1,2,6) [OF demo2_inv(1) demo2_not_due, of 0] by (simp_all add: demo3_def demo2_next del: One_nat_def)

theorem timer_round_robin_witness:
  "handleTimerInterrupt 0x1000 7 demo2 = (return_frame (tick 7 demo2), tick 7 demo2) \<and>
   sched_inv (tick 7 demo2) (tl (next_queue demo2 [Pool 0, Pool 1])) \<and>
   running (tick 7 demo2) = hd (next_queue demo2 [Pool 0, Pool 1])"
  using timer_round_robin [where seg = "0x1000" and sp = 7, OF demo2_inv(1) demo2_not_due]
  by (simp add: demo2_next del: One_nat_def)

theorem ready_process_runs_witness:
  "running (ticks [3, 5] demo2) = Pool 1 \<and>
   return_frame (ticks [3, 5] demo2) = (segment (heap demo2 (Pool 1)), stackPointer (heap demo2 (Pool 1)))"
  using ready_process_runs [where k = 1 and sps = "[3, 5]", OF demo2_inv(1) demo2_not_due] by simp

theorem sleep_wakes_on_time_witness:
  "state (heap (ticks [4] (snd (sleep 1 0x2000 9 demo3))) (Pool 0)) = SLEEPING \<and>
   running (ticks [4] (snd (sleep 1 0x2000 9 demo3))) \<noteq> Pool 0"
  using sleep_wakes_on_time [where n = 1 and m = 1 and sps = "[4]" and seg = "0x2000" and sp = 9, OF demo3_inv(1)]
    demo3_inv(2,3) by (simp add: Let_def)

theorem sleep_overflow_wakes_witness:
  "state (heap (snd (sleep 300 0x2000 9 demo3)) (Pool 0)) \<in> {READY, RUNNING}"
  using sleep_overflow_wakes [where n = 300 and seg = "0x2000" and sp = 9, OF demo3_inv(1)] demo3_inv(2,3) by simp

text \<open>The same states field by field, for the links.\<close>

lemma getFreePCB_demo1: "getFreePCB demo1 = (Pool 1, modify (Pool 1) (\<lambda>p. p\<lparr>state := STARTING\<rparr>) demo1)"
proof -
  have "state (heap demo1 (Pool i)) = (if i = 0 then STARTING else DEFUNCT)" if "i < 8" for i
    using that by (simp add: demo1_def fill_pcb_def getFreePCB_boot0 boot0_state)
  then have "find (\<lambda>i. state (heap demo1 (Pool i)) = DEFUNCT) [0..<8] = Some 1"
    by (simp add: find_upt_Some del: upt_rec_numeral)
  then show ?thesis by (simp add: getFreePCB_def)
qed

lemma boot0_links: "nextp (heap boot0 p) = NULL" "prevp (heap boot0 p) = NULL"
  by (simp_all add: boot0_def init_links) (simp_all add: procs0_def pcb0_def)

lemma demo1_fields:
  "nextp (heap demo1 p) = NULL" "readyHead demo1 = Pool 0" "readyTail demo1 = Pool 0"
  "segment (heap demo1 (Pool 0)) = 0x2000"
  by (simp_all add: demo1_def fill_pcb_def addToReady_def getFreePCB_boot0 demo_heads boot0_links Let_def)

lemma demo2_fields:
  "nextp (heap demo2 p) = (if p = Pool 0 then Pool 1 else NULL)"
  "segment (heap demo2 (Pool 0)) = 0x2000" "segment (heap demo2 (Pool 1)) = 0x3000"
  by (simp_all add: demo2_def fill_pcb_def addToReady_def getFreePCB_demo1 demo1_fields Let_def)

subsection \<open>A terminating process can wake a sleeper\<close>

text \<open>Slots that wake nobody leave all links alone.\<close>

lemma quiet_slots:
  assumes "\<And>i. i \<in> set is \<Longrightarrow> \<not> due s i" and "distinct is"
  shows "nextp (heap (fold tick_slot is s) x) = nextp (heap s x) \<and>
     prevp (heap (fold tick_slot is s) x) = prevp (heap s x) \<and>
     readyHead (fold tick_slot is s) = readyHead s \<and> readyTail (fold tick_slot is s) = readyTail s \<and>
     running (fold tick_slot is s) = running s \<and> memoryMap (fold tick_slot is s) = memoryMap s \<and>
     state (heap (fold tick_slot is s) x) = state (heap s x) \<and>
     name (heap (fold tick_slot is s) x) = name (heap s x)"
  using assms
proof (induction "is" arbitrary: s)
  case (Cons i js)
  have step: "tick_slot i s = (if state (heap s (Pool i)) = SLEEPING then
      modify (Pool i) (\<lambda>p. p\<lparr>sleepCounter := i16 (sleepCounter p - 1)\<rparr>) s else s)"
    using Cons.prems(1) [of i] by (auto simp: tick_slot_def due_def Let_def)
  have "\<not> due (tick_slot i s) j" if "j \<in> set js" for j
    using Cons.prems that by (auto simp: due_def step)
  from Cons.IH [OF this] Cons.prems(2) show ?case by (simp add: step)
qed simp

text \<open>A quiet tick: nobody is woken and the processor was given up.\<close>

lemma quiet_tick:
  assumes "woken s = []" and "state (heap s (running s)) \<in> {DEFUNCT, SLEEPING} \<or> idle_name (name (heap s (running s)))"
  shows "nextp (heap (tick sp s) x) = nextp (heap (snd (removeFromReady (tick_result sp s))) x)"
    and "nextp (heap (tick_result sp s) x) = nextp (heap s x)"
    and "readyHead (tick_result sp s) = readyHead s" and "readyTail (tick_result sp s) = readyTail s"
    and "running (tick sp s) = (if readyHead s = NULL then IdleProc else readyHead s)"
proof -
  have "\<not> due s i" if "i \<in> set [0..<8]" for i
    using assms(1) that by (auto simp: woken_def filter_empty_conv simp del: upt_rec_numeral)
  note Q = quiet_slots [OF this distinct_upt]
  show "nextp (heap (tick sp s) x) = nextp (heap (snd (removeFromReady (tick_result sp s))) x)"
    by (simp add: tick_dispatch dispatch_def case_prod_beta Let_def)
  have r: "tick_result sp s = modify (running s) (\<lambda>p. p\<lparr>stackPointer := sp\<rparr>) (fold tick_slot [0..<8] s)"
    using assms(2) Q by (auto simp: tick_result_def preempt_def Let_def simp del: upt_rec_numeral)
  show "nextp (heap (tick_result sp s) x) = nextp (heap s x)"
    and h: "readyHead (tick_result sp s) = readyHead s" and "readyTail (tick_result sp s) = readyTail s"
    using Q by (simp_all add: r del: upt_rec_numeral)
  show "running (tick sp s) = (if readyHead s = NULL then IdleProc else readyHead s)"
    by (simp add: tick_dispatch dispatch_def case_prod_beta Let_def h)
qed

lemma quiet_tick_links:
  assumes "sched_inv s qs" and "woken s = []"
    and "state (heap s (running s)) \<in> {DEFUNCT, SLEEPING} \<or> idle_name (name (heap s (running s)))"
  shows "nextp (heap (tick sp s) x) = (if length qs = 2 \<and> x = qs ! 1 then NULL else nextp (heap s x))"
proof (cases qs)
  case Nil
  then have "readyHead s = NULL" using assms(1) by (simp add: sched_inv_def tidy_def)
  then show ?thesis using quiet_tick [OF assms(2,3)] Nil by (simp add: removeFromReady_def)
next
  case (Cons q rs)
  have nd: "\<not> running_due s" using assms(2) by (simp add: running_due_def)
  have "queue_repr (tick_result sp s) (next_queue s qs)"
    using tick_result_spec(1) [OF assms(1) nd] by auto
  moreover have "state (heap s (running s)) \<noteq> RUNNING"
  proof
    assume r: "state (heap s (running s)) = RUNNING"
    then have "idle_name (name (heap s (running s)))" using assms(3) by simp
    moreover have "pool_ref (running s)" using assms(1) r by (rule sleep_mark_inv(2))
    ultimately show False using assms(1) r unfolding sched_inv_def by (metis zero_neq_one)
  qed
  ultimately have "queue_repr (tick_result sp s) (q # rs)"
    using assms(2) Cons by (simp add: next_queue_def)
  from removeFromReady_links(2) [OF this, of x] show ?thesis
    using quiet_tick(1,2) [OF assms(2,3)] Cons by (cases rs) (auto simp: nth_Cons')
qed

definition demo4 :: procs where "demo4 = snd (sleep 1 0x2000 0 demo3)"
definition demo5 :: procs where "demo5 = snd (sleep 2 0x3000 0 demo4)"
definition demo6 :: procs where "demo6 = ticks (replicate 122 0) demo5"
definition demo7 :: procs where "demo7 = tick 0 demo6"


lemma woken_empty: "woken s = [] \<longleftrightarrow> (\<forall>i<8. \<not> due s i)"
  by (auto simp: woken_def filter_empty_conv simp del: upt_rec_numeral)

lemma sleep_mark_fields:
  "state (heap (sleep_mark n s) p) = (if p = running s then SLEEPING else state (heap s p))"
  "sleepCounter (heap (sleep_mark n s) p) = (if p = running s then i16 (n * 125) else sleepCounter (heap s p))"
  "nextp (heap (sleep_mark n s) p) = nextp (heap s p)"
  "segment (heap (sleep_mark n s) p) = segment (heap s p)"
  "running (sleep_mark n s) = running s"
  by (simp_all add: sleep_mark_def Let_def)

text \<open>Going to sleep while nobody else is due: the next process in the queue, or the idle
  process, takes over.\<close>

lemma sleep_step:
  assumes inv: "sched_inv s qs" and run: "state (heap s (running s)) = RUNNING"
    and n: "1 \<le> n" "n \<le> 262" and w: "woken s = []"
  shows "sched_inv (snd (sleep n seg sp s)) (tl qs)"
    and "\<not> running_due (snd (sleep n seg sp s))"
    and "running (snd (sleep n seg sp s)) = (if qs = [] then IdleProc else hd qs)"
    and "state (heap (snd (sleep n seg sp s)) p) =
           (if qs \<noteq> [] \<and> p = hd qs then RUNNING else if p = running s then SLEEPING else state (heap s p))"
    and "sleepCounter (heap (snd (sleep n seg sp s)) p) =
           (if p = running s then n * 125 - 1
            else if pool_ref p \<and> state (heap s p) = SLEEPING then i16 (sleepCounter (heap s p) - 1)
            else sleepCounter (heap s p))"
    and "nextp (heap (snd (sleep n seg sp s)) p) =
           (if length qs = 2 \<and> p = qs ! 1 then NULL else nextp (heap s p))"
proof -
  let ?u = "sleep_mark n s"
  note inv' = sleep_mark_inv(1) [OF inv run, of n] and pool = sleep_mark_inv(2) [OF inv run]
  have x: "i16 (n * 125) = n * 125" "i16 (n * 125 - 1) = n * 125 - 1" using n by (intro i16_id; simp)+
  have w': "woken ?u = []"
    unfolding woken_empty
  proof (intro allI impI)
    fix i :: nat assume "i < 8"
    then show "\<not> due ?u i"
      using w n x by (cases "Pool i = running s") (auto simp: woken_empty due_def sleep_mark_fields)
  qed
  then have nd: "\<not> running_due ?u" by (simp add: running_due_def)
  have nq: "next_queue ?u qs = qs" by (simp add: next_queue_def w' sleep_mark_fields)
  have t: "snd (sleep n seg sp s) = tick sp ?u"
    by (simp add: sleep_def tick_def handleTimerInterrupt_any_segment [of seg _ _ 0])
  note T = tick_spec [OF inv' nd, of sp]
  show "sched_inv (snd (sleep n seg sp s)) (tl qs)" using T(1) by (simp add: t nq)
  show "\<not> running_due (snd (sleep n seg sp s))" using not_running_due_tick [OF inv' nd] by (simp add: t)
  show "running (snd (sleep n seg sp s)) = (if qs = [] then IdleProc else hd qs)" using T(2) by (simp add: t nq)
  show "state (heap (snd (sleep n seg sp s)) p) =
           (if qs \<noteq> [] \<and> p = hd qs then RUNNING else if p = running s then SLEEPING else state (heap s p))"
    using T(6) [of p] by (simp add: t nq w' sleep_mark_fields)
  show "sleepCounter (heap (snd (sleep n seg sp s)) p) =
           (if p = running s then n * 125 - 1
            else if pool_ref p \<and> state (heap s p) = SLEEPING then i16 (sleepCounter (heap s p) - 1)
            else sleepCounter (heap s p))"
    using T(7) [of p] pool x by (simp add: t sleep_mark_fields)
  show "nextp (heap (snd (sleep n seg sp s)) p) =
           (if length qs = 2 \<and> p = qs ! 1 then NULL else nextp (heap s p))"
    unfolding t by (subst quiet_tick_links [OF inv' w']) (simp_all add: sleep_mark_fields)
qed

text \<open>While everybody sleeps, ticks only count down.\<close>

lemma idle_ticks:
  assumes "sched_inv s []" and "running s = IdleProc"
    and "\<And>p. pool_ref p \<Longrightarrow> state (heap s p) \<in> {DEFUNCT, SLEEPING}"
    and "\<And>p. pool_ref p \<Longrightarrow> state (heap s p) = SLEEPING \<Longrightarrow>
           int (length sps) < sleepCounter (heap s p) \<and> sleepCounter (heap s p) \<le> 32767"
  shows "sched_inv (ticks sps s) [] \<and> running (ticks sps s) = IdleProc \<and>
    (\<forall>p. state (heap (ticks sps s) p) = state (heap s p) \<and> nextp (heap (ticks sps s) p) = nextp (heap s p) \<and>
       sleepCounter (heap (ticks sps s) p) =
         (if pool_ref p \<and> state (heap s p) = SLEEPING then sleepCounter (heap s p) - int (length sps)
          else sleepCounter (heap s p)))"
  using assms
proof (induction sps arbitrary: s)
  case (Cons sp sps)
  note inv = Cons.prems(1) and run = Cons.prems(2)
  have i16: "i16 (sleepCounter (heap s p) - 1) = sleepCounter (heap s p) - 1"
    if "pool_ref p" "state (heap s p) = SLEEPING" for p
    using Cons.prems(4) [OF that] by (intro i16_id) auto
  have w: "woken s = []"
    unfolding woken_empty
  proof (intro allI impI)
    fix i :: nat assume "i < 8"
    then show "\<not> due s i"
      using Cons.prems(4) [of "Pool i"] i16 [of "Pool i"] by (auto simp: due_def)
  qed
  then have nd: "\<not> running_due s" by (simp add: running_due_def)
  have rd: "state (heap s IdleProc) = READY" using inv by (simp add: sched_inv_def)
  then have nq: "next_queue s [] = []" by (simp add: next_queue_def w run)
  note T = tick_spec [OF inv nd, of sp, unfolded nq w]
  have st: "state (heap (tick sp s) p) = state (heap s p)" for p
    using T(6) [of p] rd run by auto
  have sc: "sleepCounter (heap (tick sp s) p) =
      (if pool_ref p \<and> state (heap s p) = SLEEPING then sleepCounter (heap s p) - 1 else sleepCounter (heap s p))" for p
    using T(7) [of p] i16 [of p] by auto
  have nx: "nextp (heap (tick sp s) p) = nextp (heap s p)" for p
    using quiet_tick_links [OF inv w, of sp p] inv run by (simp add: sched_inv_def)
  have "sched_inv (ticks sps (tick sp s)) [] \<and> running (ticks sps (tick sp s)) = IdleProc \<and>
    (\<forall>p. state (heap (ticks sps (tick sp s)) p) = state (heap (tick sp s) p) \<and>
       nextp (heap (ticks sps (tick sp s)) p) = nextp (heap (tick sp s) p) \<and>
       sleepCounter (heap (ticks sps (tick sp s)) p) =
         (if pool_ref p \<and> state (heap (tick sp s) p) = SLEEPING then sleepCounter (heap (tick sp s) p) - int (length sps)
          else sleepCounter (heap (tick sp s) p)))"
  proof (rule Cons.IH)
    show "sched_inv (tick sp s) []" using T(1) by simp
    show "running (tick sp s) = IdleProc" using T(2) by simp
    show "state (heap (tick sp s) p) \<in> {DEFUNCT, SLEEPING}" if "pool_ref p" for p
      using Cons.prems(3) [OF that] by (simp add: st)
    show "int (length sps) < sleepCounter (heap (tick sp s) p) \<and> sleepCounter (heap (tick sp s) p) \<le> 32767"
      if "pool_ref p" "state (heap (tick sp s) p) = SLEEPING" for p
      using Cons.prems(4) [of p] that by (simp add: st sc)
  qed
  then show ?case by (simp add: st sc nx)
qed simp


lemma pool_cases: "pool_ref p \<Longrightarrow> p = Pool 0 \<or> p = Pool 1 \<or> (\<exists>i. 2 \<le> i \<and> i < 8 \<and> p = Pool i)"
proof -
  assume "pool_ref p"
  then obtain i where i: "i < 8" "p = Pool i" by (auto simp: pool_ref_def)
  then show ?thesis by (cases "i = 0"; cases "i = 1") auto
qed

lemma demo3_more:
  "state (heap demo3 (Pool 1)) = STARTING" "2 \<le> i \<Longrightarrow> i < 8 \<Longrightarrow> state (heap demo3 (Pool i)) = DEFUNCT"
  "nextp (heap demo3 (Pool 0)) = Pool 1" "nextp (heap demo3 (Pool 1)) = NULL" "woken demo3 = []"
proof -
  have st: "state (heap demo3 (Pool i)) = (if i = 0 then RUNNING else state (heap demo2 (Pool i)))" if "i < 8" for i
    using tick_spec(6) [OF demo2_inv(1) demo2_not_due, of 0 "Pool i"]
    by (simp add: demo3_def demo2_next demo2_woken demo2_inv(3) del: One_nat_def)
  show "state (heap demo3 (Pool 1)) = STARTING" using st [of 1] demo2_states [of 1] by simp
  show "2 \<le> i \<Longrightarrow> i < 8 \<Longrightarrow> state (heap demo3 (Pool i)) = DEFUNCT" using st [of i] demo2_states [of i] by simp
  have i: "idle_name (name (heap demo2 (running demo2)))"
    using demo2_inv(1) by (simp add: demo2_inv(3) sched_inv_def)
  show "nextp (heap demo3 (Pool 0)) = Pool 1" "nextp (heap demo3 (Pool 1)) = NULL"
    using quiet_tick_links [OF demo2_inv(1) demo2_woken, of 0 "Pool 0"]
      quiet_tick_links [OF demo2_inv(1) demo2_woken, of 0 "Pool 1"] i
    by (simp_all add: demo3_def demo2_fields)
  show "woken demo3 = []"
    unfolding woken_empty due_def using st demo2_states by auto
qed

lemma demo4_facts:
  "sched_inv demo4 []" "running demo4 = Pool 1" "state (heap demo4 (Pool 0)) = SLEEPING"
  "state (heap demo4 (Pool 1)) = RUNNING" "2 \<le> i \<Longrightarrow> i < 8 \<Longrightarrow> state (heap demo4 (Pool i)) = DEFUNCT"
  "sleepCounter (heap demo4 (Pool 0)) = 124" "nextp (heap demo4 (Pool 0)) = Pool 1"
  "nextp (heap demo4 (Pool 1)) = NULL" "woken demo4 = []"
proof -
  have run: "state (heap demo3 (running demo3)) = RUNNING" by (simp add: demo3_inv)
  note S = sleep_step [OF demo3_inv(1) run, of 1 "0x2000" 0, OF _ _ demo3_more(5), folded demo4_def]
  show A: "sched_inv demo4 []" "running demo4 = Pool 1" "state (heap demo4 (Pool 0)) = SLEEPING"
    "state (heap demo4 (Pool 1)) = RUNNING" "2 \<le> i \<Longrightarrow> i < 8 \<Longrightarrow> state (heap demo4 (Pool i)) = DEFUNCT"
    "sleepCounter (heap demo4 (Pool 0)) = 124" "nextp (heap demo4 (Pool 0)) = Pool 1"
    "nextp (heap demo4 (Pool 1)) = NULL" for i
    using S(1,3) S(4) [of "Pool 0"] S(4) [of "Pool 1"] S(4) [of "Pool i"] S(5) [of "Pool 0"]
      S(6) [of "Pool 0"] S(6) [of "Pool 1"]
    by (simp_all add: demo3_inv demo3_more del: One_nat_def)
  show "woken demo4 = []"
    unfolding woken_empty
  proof (intro allI impI)
    fix j :: nat assume "j < 8"
    then show "\<not> due demo4 j"
      using A(3,4,6) A(5) [of j] pool_cases [of "Pool j"] by (auto simp: due_def)
  qed
qed

lemma demo5_facts:
  "sched_inv demo5 []" "running demo5 = IdleProc" "state (heap demo5 (Pool 0)) = SLEEPING"
  "state (heap demo5 (Pool 1)) = SLEEPING" "2 \<le> i \<Longrightarrow> i < 8 \<Longrightarrow> state (heap demo5 (Pool i)) = DEFUNCT"
  "sleepCounter (heap demo5 (Pool 0)) = 123" "sleepCounter (heap demo5 (Pool 1)) = 249"
  "nextp (heap demo5 (Pool 0)) = Pool 1"
proof -
  have run: "state (heap demo4 (running demo4)) = RUNNING" by (simp only: demo4_facts)
  note S = sleep_step [OF demo4_facts(1) run, of 2 "0x3000" 0, OF _ _ demo4_facts(9), folded demo5_def]
  show "sched_inv demo5 []" "running demo5 = IdleProc" "state (heap demo5 (Pool 0)) = SLEEPING"
    "state (heap demo5 (Pool 1)) = SLEEPING" "2 \<le> i \<Longrightarrow> i < 8 \<Longrightarrow> state (heap demo5 (Pool i)) = DEFUNCT"
    "sleepCounter (heap demo5 (Pool 0)) = 123" "sleepCounter (heap demo5 (Pool 1)) = 249"
    "nextp (heap demo5 (Pool 0)) = Pool 1"
    using S(1,3) S(4) [of "Pool 0"] S(4) [of "Pool 1"] S(4) [of "Pool i"] S(5) [of "Pool 0"]
      S(5) [of "Pool 1"] S(6) [of "Pool 0"]
    by (simp_all add: demo4_facts del: One_nat_def)
qed

lemma demo6_facts:
  "sched_inv demo6 []" "running demo6 = IdleProc" "state (heap demo6 (Pool 0)) = SLEEPING"
  "state (heap demo6 (Pool 1)) = SLEEPING" "2 \<le> i \<Longrightarrow> i < 8 \<Longrightarrow> state (heap demo6 (Pool i)) = DEFUNCT"
  "sleepCounter (heap demo6 (Pool 0)) = 1" "sleepCounter (heap demo6 (Pool 1)) = 127"
  "nextp (heap demo6 (Pool 0)) = Pool 1"
proof -
  have a: "state (heap demo5 p) \<in> {DEFUNCT, SLEEPING}" if "pool_ref p" for p
    using pool_cases [OF that] demo5_facts by auto
  have b: "int (length (replicate 122 (0 :: int))) < sleepCounter (heap demo5 p) \<and> sleepCounter (heap demo5 p) \<le> 32767"
    if "pool_ref p" "state (heap demo5 p) = SLEEPING" for p
    using pool_cases [OF that(1)] demo5_facts that(2) by auto
  have t: "ticks (replicate 122 0) demo5 = demo6" by (simp only: demo6_def)
  note I = idle_ticks [OF demo5_facts(1,2) a b, unfolded length_replicate t]
  from I have F: "state (heap demo6 p) = state (heap demo5 p) \<and> nextp (heap demo6 p) = nextp (heap demo5 p) \<and>
       sleepCounter (heap demo6 p) =
         (if pool_ref p \<and> state (heap demo5 p) = SLEEPING then sleepCounter (heap demo5 p) - int 122
          else sleepCounter (heap demo5 p))" for p
    by blast
  show "sched_inv demo6 []" "running demo6 = IdleProc" using I by blast+
  show "state (heap demo6 (Pool 0)) = SLEEPING"
    "state (heap demo6 (Pool 1)) = SLEEPING" "2 \<le> i \<Longrightarrow> i < 8 \<Longrightarrow> state (heap demo6 (Pool i)) = DEFUNCT"
    "sleepCounter (heap demo6 (Pool 0)) = 1" "sleepCounter (heap demo6 (Pool 1)) = 127"
    "nextp (heap demo6 (Pool 0)) = Pool 1"
    using F demo5_facts by (simp_all del: One_nat_def)
qed

lemma demo7_facts:
  "sched_inv demo7 []" "running demo7 = Pool 0" "nextp (heap demo7 (Pool 0)) = Pool 1"
  "state (heap demo7 (Pool 1)) = SLEEPING" "sleepCounter (heap demo7 (Pool 1)) = 126"
  "2 \<le> i \<Longrightarrow> i < 8 \<Longrightarrow> state (heap demo7 (Pool i)) = DEFUNCT"
proof -
  have due: "due demo6 j \<longleftrightarrow> j = 0" if "j < 8" for j
    using pool_cases [of "Pool j"] that demo6_facts by (auto simp: due_def)
  have "filter (due demo6) [0..<8] = filter (\<lambda>j. j = 0) [0..<8]"
    using due by (intro filter_cong) auto
  then have w: "woken demo6 = [Pool 0]" by (simp only: woken_def filter_upt_single) simp
  have nd: "\<not> running_due demo6" by (simp add: running_due_def w demo6_facts(2))
  have nq: "next_queue demo6 [] = [Pool 0]"
    using demo6_facts(1) by (simp add: next_queue_def w demo6_facts(2) sched_inv_def)
  note T = tick_spec [OF demo6_facts(1) nd, of 0, folded demo7_def, unfolded nq w demo6_facts(2)]
  show "sched_inv demo7 []" "running demo7 = Pool 0" using T(1,2) by simp_all
  show "state (heap demo7 (Pool 1)) = SLEEPING" "sleepCounter (heap demo7 (Pool 1)) = 126"
    using T(6) [of "Pool 1"] T(7) [of "Pool 1"] demo6_facts by (simp_all del: One_nat_def)
  show "2 \<le> i \<Longrightarrow> i < 8 \<Longrightarrow> state (heap demo7 (Pool i)) = DEFUNCT"
    using T(6) [of "Pool i"] demo6_facts by simp
  have h: "readyHead demo6 = NULL" "readyTail demo6 = NULL"
    using demo6_facts(1) by (simp_all add: sched_inv_def tidy_def)
  define v where "v = tick_slot 0 demo6"
  have v: "v = addToReady (Pool 0) (modify (Pool 0) (\<lambda>p. p\<lparr>state := READY\<rparr>)
      (modify (Pool 0) (\<lambda>p. p\<lparr>sleepCounter := i16 (sleepCounter p - 1)\<rparr>) demo6))"
    by (simp add: v_def tick_slot_def demo6_facts Let_def)
  have nv: "nextp (heap v x) = nextp (heap demo6 x)" "readyHead v = Pool 0" "readyTail v = Pool 0"
    "running v = IdleProc" "name (heap v x) = name (heap demo6 x)" for x
    by (simp_all add: v addToReady_def h demo6_facts(2))
  have sv: "state (heap v (Pool j)) = state (heap demo6 (Pool j))"
    "sleepCounter (heap v (Pool j)) = sleepCounter (heap demo6 (Pool j))" if "j \<noteq> 0" for j
    using that by (simp_all add: v)
  have "\<not> due v j" if "j \<in> set [1..<8]" for j
  proof -
    have "j \<noteq> 0" "j < 8" using that by auto
    then show ?thesis using due [of j] sv [of j] by (simp add: due_def)
  qed
  note Q = quiet_slots [OF this distinct_upt]
  have f: "fold tick_slot [0..<8] demo6 = fold tick_slot [1..<8] v"
  proof -
    have "[0..<8] = 0 # [1..<8]" using upt_conv_Cons [of 0 8] by (simp del: upt_rec_numeral)
    then show ?thesis by (simp only: fold_Cons comp_apply v_def)
  qed
  have idle: "idle_name (name (heap demo6 IdleProc))" using demo6_facts(1) by (simp add: sched_inv_def)
  have r: "tick_result 0 demo6 = modify IdleProc (\<lambda>p. p\<lparr>stackPointer := 0\<rparr>) (fold tick_slot [1..<8] v)"
    using Q idle unfolding tick_result_def f
    by (simp add: preempt_def Let_def nv del: upt_rec_numeral One_nat_def)
  show "nextp (heap demo7 (Pool 0)) = Pool 1"
    using Q demo6_facts(8)
    by (simp add: demo7_def tick_dispatch r dispatch_def removeFromReady_def nv del: upt_rec_numeral One_nat_def)
qed

text \<open>C40. \<^verbatim>\<open>releasePCB\<close> trusts stale links: two processes A and B are started after boot, A
  sleeps 1 second while B is queued behind it, B sleeps 2 seconds, A wakes up on time and
  terminates. A's \<^verbatim>\<open>next\<close> still names B, so \<^verbatim>\<open>terminate\<close> makes B the head of the ready
  queue, and the next tick runs B although it is marked sleeping with 126 ticks to go.\<close>

theorem terminate_wakes_sleeper:
  "running demo7 = Pool 0 \<and> readyHead demo7 = NULL \<and>
   state (heap (terminate demo7) (Pool 1)) = SLEEPING \<and>
   sleepCounter (heap (terminate demo7) (Pool 1)) = 126 \<and>
   readyHead (terminate demo7) = Pool 1 \<and> running (tick 0 (terminate demo7)) = Pool 1"
proof -
  let ?t = "terminate demo7"
  define u where "u = releaseMemorySegment (cdiv (segment (heap demo7 (Pool 0))) 0x1000 - 2) demo7"
  have t: "?t = releasePCB (Pool 0) u" by (simp add: terminate_def u_def demo7_facts(2) releaseMemorySegment_def)
  have u: "heap u = heap demo7" by (simp add: u_def releaseMemorySegment_def)
  have pr: "prevp (heap demo7 (Pool 0)) = NULL" and hd: "readyHead demo7 = NULL"
    using demo7_facts(1) by (auto simp: sched_inv_def tidy_def)
  have "prevp (heap u (Pool 0)) \<noteq> Pool 0" "nextp (heap u (Pool 0)) \<noteq> Pool 0"
    using pr demo7_facts(3) by (simp_all add: u)
  from releasePCB_links(3) [OF this] have h: "readyHead ?t = Pool 1"
    using pr demo7_facts(3) by (simp add: t u)
  have st: "state (heap ?t p) = (if p = Pool 0 then DEFUNCT else state (heap demo7 p))"
    "sleepCounter (heap ?t p) = sleepCounter (heap demo7 p)" "running ?t = Pool 0" for p
    by (simp_all add: t u) (simp add: u_def releaseMemorySegment_def demo7_facts(2))
  have w: "woken ?t = []"
    unfolding woken_empty
  proof (intro allI impI)
    fix j :: nat assume "j < 8"
    then show "\<not> due ?t j"
      using pool_cases [of "Pool j"] demo7_facts by (auto simp: due_def st)
  qed
  have "state (heap ?t (running ?t)) \<in> {DEFUNCT, SLEEPING} \<or> idle_name (name (heap ?t (running ?t)))"
    by (simp add: st)
  from quiet_tick(5) [OF w this] h have "running (tick 0 ?t) = Pool 1" by simp
  then show ?thesis using hd h demo7_facts(2,4,5) by (simp add: st)
qed


theorem terminate_frees_witness:
  "sched_inv (terminate demo3) [Pool 1] \<and> memoryMap (terminate demo3) = (memoryMap demo3)[0 := FREE]"
proof -
  have "link_ok demo3 [Pool 1]" using demo3_more(3) by (simp add: link_ok_def demo3_inv)
  moreover have "segment (heap demo3 (running demo3)) = i16 (0x1000 * (int 0 + 2))"
    using tick_spec(4) [OF demo2_inv(1) demo2_not_due, of 0 "Pool 0"] demo2_fields(2)
    unfolding demo3_inv(2) by (simp add: demo3_def)
  ultimately show ?thesis
    using terminate_frees [where k = 0 and sp = 0, OF demo3_inv(1)] demo3_inv(2) by simp
qed

subsection \<open>Reachable scheduler states\<close>

text \<open>What can happen to the process structures of a booted kernel: a program is started, the
  timer ticks, the running process sleeps for a time that does not overflow, or terminates while
  its links are in order.\<close>

inductive reachable :: "procs \<Rightarrow> bool" where
  boot: "procs_wf s \<Longrightarrow> (\<And>p. prevp (heap s p) = NULL) \<Longrightarrow> reachable (initializeProcStructures s)"
| start: "reachable s \<Longrightarrow> state (heap s (running s)) \<noteq> DEFUNCT \<Longrightarrow>
    (\<And>d. length d = 7 \<Longrightarrow> \<not> idle_name (kStrCopy 0 nm 6 d)) \<Longrightarrow>
    start_process nm seg s = Some s' \<Longrightarrow> reachable s'"
| timer: "reachable s \<Longrightarrow> reachable (tick sp s)"
| sleeping: "reachable s \<Longrightarrow> state (heap s (running s)) = RUNNING \<Longrightarrow> 1 \<le> n \<Longrightarrow> n \<le> 262 \<Longrightarrow>
    reachable (snd (sleep n seg sp s))"
| terminating: "reachable s \<Longrightarrow> pool_ref (running s) \<Longrightarrow> (\<And>qs. sched_inv s qs \<Longrightarrow> link_ok s qs) \<Longrightarrow>
    reachable (terminate s)"

lemma tick_wf: "sched_inv s qs \<Longrightarrow> \<not> running_due s \<Longrightarrow> procs_wf s \<Longrightarrow> procs_wf (tick sp s)"
proof -
  assume a: "sched_inv s qs" "\<not> running_due s" "procs_wf s"
  have "memoryMap (tick_slot i u) = memoryMap u" for i u by (simp add: tick_slot_def Let_def)
  then have "memoryMap (fold tick_slot is u) = memoryMap u" for "is" u
    by (induction "is" arbitrary: u) simp_all
  then have "memoryMap (tick sp s) = memoryMap s"
    by (simp add: tick_dispatch dispatch_def tick_result_def preempt_def case_prod_beta Let_def
        del: upt_rec_numeral)
  then show ?thesis using a(3) tick_spec(3) [OF a(1,2)] by (simp add: procs_wf_def)
qed

lemma running_due_sleeping: "running_due s \<Longrightarrow> state (heap s (running s)) = SLEEPING"
  using woken_pool by (auto simp: running_due_def)




subsection \<open>Killing\<close>

definition found_by_kill :: "procs \<Rightarrow> int \<Rightarrow> nat \<Rightarrow> bool" where
  "found_by_kill s k i \<longleftrightarrow> i < 8 \<and> segment (heap s (Pool i)) = i16 ((k + 2) * 0x1000) \<and>
     (\<forall>j<i. segment (heap s (Pool j)) \<noteq> i16 ((k + 2) * 0x1000))"

lemma kill_found:
  "found_by_kill s k i \<Longrightarrow> kill k s =
     (1, modify (Pool i) (\<lambda>p. p\<lparr>state := DEFUNCT\<rparr>) (releasePCB (Pool i) (set_map k FREE s)))"
proof -
  assume "found_by_kill s k i"
  then have "find (\<lambda>i. segment (heap s (Pool i)) = i16 ((k + 2) * 0x1000)) [0..<8] = Some i"
    by (simp add: find_upt_Some found_by_kill_def del: upt_rec_numeral)
  then show ?thesis by (simp add: kill_def Let_def releaseMemorySegment_def)
qed

lemma kill_not_found: "(\<And>i. \<not> found_by_kill s k i) \<Longrightarrow> kill k s = (-1, s)"
proof -
  assume none: "\<And>i. \<not> found_by_kill s k i"
  have "find (\<lambda>i. segment (heap s (Pool i)) = i16 ((k + 2) * 0x1000)) [0..<8] = None"
  proof (rule ccontr)
    assume "find (\<lambda>i. segment (heap s (Pool i)) = i16 ((k + 2) * 0x1000)) [0..<8] \<noteq> None"
    then show False using none by (auto simp: find_upt_Some found_by_kill_def simp del: upt_rec_numeral)
  qed
  then show ?thesis by (simp add: kill_def Let_def)
qed

text \<open>Killing a queued process: when the queue holds another process as well and the last
  element's \<^verbatim>\<open>next\<close> is clear, \<^verbatim>\<open>kill\<close> returns 1, takes the process out of the ready queue, frees
  its PCB and its memory segment, and keeps the order of the others.\<close>

theorem kill_queued:
  assumes "sched_inv s (xs @ Pool i # ys)" and "found_by_kill s (int k) i" and "k < 8"
    and "xs \<noteq> [] \<or> ys \<noteq> []" and "nextp (heap s (last (Pool i # ys))) = NULL"
  shows "fst (kill (int k) s) = 1 \<and> sched_inv (snd (kill (int k) s)) (xs @ ys) \<and>
     state (heap (snd (kill (int k) s)) (Pool i)) = DEFUNCT \<and>
     memoryMap (snd (kill (int k) s)) = (memoryMap s)[k := FREE]"
proof -
  let ?p = "Pool i"
  define u where "u = set_map (int k) FREE s"
  have u: "heap u = heap s" "running u = running s" "tidy u qs = tidy s qs" for qs by (simp_all add: u_def)
  have K: "kill (int k) s = (1, modify ?p (\<lambda>p. p\<lparr>state := DEFUNCT\<rparr>) (releasePCB ?p u))"
    using kill_found [OF assms(2)] by (simp add: u_def)
  let ?s' = "snd (kill (int k) s)"
  have inv: "sched_inv s (xs @ ?p # ys)" by (rule assms(1))
  have d: "distinct (xs @ ?p # ys)" using inv by (auto simp: sched_inv_def tidy_def queue_repr_def)
  have "tidy u (xs @ ?p # ys)" using inv by (simp add: u sched_inv_def)
  then have "tidy (releasePCB ?p u) (xs @ ys)"
    using assms(4,5) by (intro releasePCB_queued) (auto simp: u)
  then have td: "tidy ?s' (xs @ ys)" by (simp add: K tidy_modify)
  have h: "state (heap ?s' q) = (if q = ?p then DEFUNCT else state (heap s q))"
    "running ?s' = running s" "q \<noteq> ?p \<Longrightarrow> name (heap ?s' q) = name (heap s q)" for q
    by (simp_all add: K u)
  have r: "running s \<noteq> ?p" using running_not_queued [OF inv] by auto
  have A: "q \<in> set (xs @ ys) \<longleftrightarrow> pool_ref q \<and> state (heap ?s' q) \<in> {READY, STARTING}" for q
    using inv d by (cases "q = ?p") (auto simp: h(1) sched_inv_def)
  have B: "running ?s' = q" if "pool_ref q" "state (heap ?s' q) = RUNNING" for q
    using inv that unfolding sched_inv_def h(2) by (auto simp: h(1) split: if_splits)
  have C: "\<not> idle_name (name (heap ?s' q))" if "pool_ref q" "state (heap ?s' q) \<noteq> DEFUNCT" for q
    using inv that by (cases "q = ?p") (simp_all add: h(1,3) sched_inv_def)
  have D: "running ?s' = IdleProc \<or> pool_ref (running ?s') \<and>
      state (heap ?s' (running ?s')) \<in> {RUNNING, DEFUNCT, SLEEPING}"
    using inv r unfolding sched_inv_def h(2) by (simp add: h(1))
  have E: "idle_name (name (heap ?s' IdleProc)) \<and> state (heap ?s' IdleProc) = READY"
    using inv by (simp add: h(1,3) sched_inv_def)
  have "sched_inv ?s' (xs @ ys)" unfolding sched_inv_def using td A B C D E by blast
  moreover have "memoryMap ?s' = (memoryMap s)[k := FREE]"
    using assms(3) by (simp add: K u_def set_map_def)
  ultimately show ?thesis using K h(1) [of ?p] by simp
qed

text \<open>The head of a non-empty queue is dispatched whatever else happens in the tick.\<close>

lemma addToReady_head: "readyHead s \<noteq> NULL \<Longrightarrow> readyHead (addToReady p s) = readyHead s"
  by (simp add: addToReady_def Let_def)

lemma tick_slots_head: "readyHead s \<noteq> NULL \<Longrightarrow> readyHead (fold tick_slot is s) = readyHead s"
proof (induction "is" arbitrary: s)
  case (Cons i js)
  have "readyHead (tick_slot i s) = readyHead s"
    using Cons.prems by (simp add: tick_slot_def Let_def addToReady_head)
  then show ?case using Cons.IH [of "tick_slot i s"] Cons.prems by simp
qed simp

lemma tick_runs_head: "readyHead s \<noteq> NULL \<Longrightarrow> running (tick sp s) = readyHead s"
proof -
  assume h: "readyHead s \<noteq> NULL"
  define u where "u = modify (running (fold tick_slot [0..<8] s)) (\<lambda>p. p\<lparr>stackPointer := sp\<rparr>) (fold tick_slot [0..<8] s)"
  have u: "readyHead u = readyHead s" using tick_slots_head [OF h] by (simp add: u_def del: upt_rec_numeral)
  then have "readyHead (preempt u) = readyHead s" using h by (simp add: preempt_def Let_def addToReady_head)
  moreover have "tick_result sp s = preempt u" by (simp only: tick_result_def u_def)
  ultimately show ?thesis using h by (simp add: tick_dispatch dispatch_def case_prod_beta Let_def)
qed

text \<open>Killing the only queued process does not stop it: its PCB is marked defunct and its
  segment is free for another program, but it stays the head of the ready queue, and the next
  timer tick gives it the processor.\<close>

theorem kill_only_queued:
  assumes "sched_inv s [Pool i]" and "found_by_kill s k i" and "nextp (heap s (Pool i)) = NULL"
  shows "fst (kill k s) = 1 \<and> state (heap (snd (kill k s)) (Pool i)) = DEFUNCT \<and>
     readyHead (snd (kill k s)) = Pool i \<and> running (tick sp (snd (kill k s))) = Pool i"
proof -
  have "prevp (heap s (Pool i)) = NULL" and hd: "readyHead s = Pool i"
    using assms(1) by (auto simp: sched_inv_def tidy_def queue_repr_def)
  then have "readyHead (releasePCB (Pool i) (set_map k FREE s)) = Pool i"
    using releasePCB_links(3) [of "set_map k FREE s" "Pool i"] assms(3) by simp
  then have "readyHead (snd (kill k s)) = Pool i" by (simp add: kill_found [OF assms(2)])
  then show ?thesis using tick_runs_head [of "snd (kill k s)"] by (simp add: kill_found [OF assms(2)])
qed


theorem kill_queued_witness:
  "fst (kill 0 demo2) = 1 \<and> sched_inv (snd (kill 0 demo2)) [Pool 1] \<and>
   memoryMap (snd (kill 0 demo2)) = (memoryMap demo2)[0 := FREE]"
  using kill_queued [where k = 0 and s = demo2 and xs = "[]" and i = 0 and ys = "[Pool 1]"] demo2_inv(1)
  by (simp add: found_by_kill_def demo2_fields)

theorem kill_only_queued_witness:
  "fst (kill 0 demo1) = 1 \<and> running (tick 5 (snd (kill 0 demo1))) = Pool 0"
  using kill_only_queued [where k = 0 and sp = 5, OF demo1_inv(1)]
  by (simp add: found_by_kill_def demo1_fields)

text \<open>A PCB keeps its segment number after its process has ended, and \<^verbatim>\<open>kill\<close> does not look
  at the state: killing the segment of a process that has already terminated reports success.\<close>

theorem kill_after_terminate:
  assumes "pool_ref (running s)" and "segment (heap s (running s)) = i16 ((k + 2) * 0x1000)"
  shows "fst (kill k (terminate s)) = 1"
proof -
  obtain i where i: "running s = Pool i" "i < 8" using assms(1) by (auto simp: pool_ref_def)
  have seg: "segment (heap (terminate s) p) = segment (heap s p)" for p
    by (simp add: terminate_def Let_def releaseMemorySegment_def)
  have "find (\<lambda>i. segment (heap (terminate s) (Pool i)) = i16 ((k + 2) * 0x1000)) [0..<8] \<noteq> None"
    using i assms(2) unfolding find_upt_None by (auto simp: seg)
  then show ?thesis by (auto simp: kill_def Let_def)
qed

theorem kill_after_terminate_witness: "fst (kill 0 (terminate demo3)) = 1"
  using kill_after_terminate [of demo3 0] tick_spec(4) [OF demo2_inv(1) demo2_not_due, of 0 "Pool 0"] demo2_fields(2)
  unfolding demo3_inv(2) by (simp add: demo3_def)

subsection \<open>The handler of project 5\<close>

text \<open>The sleeping feature of project 6 is a conservative extension: while no process is marked
  sleeping, the timer handlers of project 5 and project 6 do the same.\<close>

theorem timer_without_sleepers:
  assumes "list_all (\<lambda>i. state (heap s (Pool i)) \<noteq> SLEEPING) [0..<8]"
    and "state (heap s (running s)) \<noteq> SLEEPING"
  shows "handleTimerInterrupt seg sp s = handleTimerInterrupt5 seg sp s"
proof -
  have "fold tick_slot is s = s" if "set is \<subseteq> {..<8}" for "is"
    using that
  proof (induction "is")
    case (Cons i js)
    then have "state (heap s (Pool i)) \<noteq> SLEEPING" using assms(1) by (auto simp: list_all_iff simp del: upt_rec_numeral)
    then have "tick_slot i s = s" by (simp add: tick_slot_def)
    then show ?case using Cons by simp
  qed simp
  then have f: "fold tick_slot [0..<8] s = s" by (simp add: subset_eq del: upt_rec_numeral)
  have "preempt (modify (running s) (\<lambda>p. p\<lparr>stackPointer := sp\<rparr>) s) =
      preempt5 (modify (running s) (\<lambda>p. p\<lparr>stackPointer := sp\<rparr>) s)"
    using assms(2) by (simp add: preempt_def preempt5_def Let_def)
  then show ?thesis by (simp only: handleTimerInterrupt_def handleTimerInterrupt5_def f Let_def)
qed

theorem timer_without_sleepers_witness:
  "handleTimerInterrupt 0 3 demo3 = handleTimerInterrupt5 0 3 demo3"
proof (rule timer_without_sleepers)
  show "list_all (\<lambda>i. state (heap demo3 (Pool i)) \<noteq> SLEEPING) [0..<8]"
    unfolding list_all_iff
  proof
    fix i assume "i \<in> set [0..<8]"
    then have "pool_ref (Pool i)" by (simp del: upt_rec_numeral)
    from pool_cases [OF this] show "state (heap demo3 (Pool i)) \<noteq> SLEEPING"
      using demo3_more(1,2) demo3_inv(3) by auto
  qed
  show "state (heap demo3 (running demo3)) \<noteq> SLEEPING" using demo3_inv by simp
qed

subsection \<open>Listing the processes\<close>

abbreviation c_name :: "PCB \<Rightarrow> byte list" where
  "c_name p \<equiv> takeWhile (\<lambda>b. b \<noteq> 0) (name p)"

lemma print_c_name:
  "length (name p) \<le> 32767 \<Longrightarrow>
     printString (lit (c_name p)) out = Some (int (length (c_name p)), out @ c_name p)"
  by (intro printString_lit) (auto dest: set_takeWhileD intro: le_trans [OF length_takeWhile_le])

lemma chain_nth: "chain h qs \<Longrightarrow> Suc i < length qs \<Longrightarrow> nextp (h (qs ! i)) = qs ! Suc i"
proof (induction h qs arbitrary: i rule: chain.induct)
  case (3 h x y zs)
  then show ?case by (cases i) auto
qed simp_all

lemma show_loop_run:
  assumes "queue_repr s qs" and "nextp (heap s (last qs)) = NULL" and "length (name (heap s (running s))) \<le> 32767"
    and "j + 3 + m = length qs"
  shows "show_loop s (qs ! j) out =
     Some (out @ concat (replicate (Suc m) (c_name (heap s (running s)))))"
  using assms(4)
proof (induction m arbitrary: j out)
  case 0
  have ch: "chain (heap s) qs" using assms(1) by (simp add: queue_repr_def)
  have "qs \<noteq> []" "length qs - 1 = Suc (Suc j)" using 0 by auto
  then have "last qs = qs ! Suc (Suc j)" by (simp add: last_conv_nth)
  then show ?case
    using 0 assms(2) chain_nth [OF ch, of j] chain_nth [OF ch, of "Suc j"]
    by (simp add: show_loop.simps print_c_name [OF assms(3)] Let_def)
next
  case (Suc m)
  have ch: "chain (heap s) qs" using assms(1) by (simp add: queue_repr_def)
  have "qs ! Suc (Suc (Suc j)) \<in> set qs" using Suc.prems by simp
  then have "qs ! Suc (Suc (Suc j)) \<noteq> NULL" using assms(1) by (auto simp: queue_repr_def)
  then show ?case
    using Suc.prems Suc.IH [of "Suc j"] chain_nth [OF ch, of j] chain_nth [OF ch, of "Suc j"]
      chain_nth [OF ch, of "Suc (Suc j)"]
    by (simp add: show_loop.simps [of s "qs ! j"] print_c_name [OF assms(3)] Let_def)
qed

text \<open>What \<^verbatim>\<open>showProcesses\<close> prints: with \<open>n \<ge> 3\<close> processes in the ready queue it prints its
  header and then the name of the running process \<open>n - 2\<close> times; no queued process is named.\<close>

theorem showProcesses_prints:
  assumes "queue_repr s qs" and "nextp (heap s (last qs)) = NULL"
    and "length (name (heap s (running s))) = 7" and "3 \<le> length qs"
  shows "showProcesses s out =
     Some (out @ processes_header @ concat (replicate (length qs - 2) (c_name (heap s (running s)))))"
proof -
  have h: "printString (lit processes_header) out =
      Some (int (length processes_header), out @ processes_header)"
    by (intro printString_lit) (auto simp: processes_header_def)
  have "readyHead s = qs ! 0" using assms(1,4) by (cases qs) (auto simp: queue_repr_def)
  moreover have "length qs - 2 = Suc (length qs - 3)" using assms(4) by simp
  ultimately show ?thesis
    using show_loop_run [OF assms(1,2), of 0 "length qs - 3"] assms(3,4) by (simp add: showProcesses_def h)
qed


definition queue3 :: procs where
  "queue3 = fold addToReady [Pool 0, Pool 1, Pool 2] boot0"

lemma queue3_facts:
  "queue_repr queue3 [Pool 0, Pool 1, Pool 2]" "nextp (heap queue3 (Pool 2)) = NULL"
  "length (name (heap queue3 (running queue3))) = 7"
proof -
  have "queue_repr boot0 []" by (simp add: demo_heads)
  from rq.enq_all_repr [OF this, of "[Pool 0, Pool 1, Pool 2]"] show "queue_repr queue3 [Pool 0, Pool 1, Pool 2]"
    by (simp add: queue3_def)
  show "nextp (heap queue3 (Pool 2)) = NULL"
    by (simp add: queue3_def addToReady_def Let_def demo_heads boot0_links)
  have "procs_wf queue3"
    using init_wf [OF procs0_wf] by (simp add: queue3_def boot0_def procs_wf_def)
  then show "length (name (heap queue3 (running queue3))) = 7" by (simp add: procs_wf_def)
qed

theorem showProcesses_prints_witness:
  "showProcesses queue3 [] = Some (processes_header @ c_name (heap queue3 (running queue3)))"
  using showProcesses_prints [OF queue3_facts(1), of "[]"] queue3_facts(2,3) by simp


end
