(* ===== verification/OS_Kernel.thy ===== *)
theory OS_Kernel
  imports OS_FileSystem OS_Sched
begin

section \<open>Loading programs and system calls\<close>

text \<open>
  Models \<^verbatim>\<open>executeProgram\<close>, \<^verbatim>\<open>main\<close> and \<^verbatim>\<open>handleInterrupt21\<close> of
  \<^verbatim>\<open>project6/kernel.c\<close> with the parts of \<^verbatim>\<open>kernel.asm\<close> they rest on:
  the stack image \<^verbatim>\<open>initializeProgram\<close> builds and the one \<^verbatim>\<open>returnFromTimer\<close> takes
  apart. The machine is the process structures, the memory, the disk, the text put out by
  the BIOS and the keys not yet read. The structures of \<^verbatim>\<open>proc.c\<close> are kept apart from the
  bytes of memory; programs are loaded in other segments than the kernel's.
\<close>

subsection \<open>The machine\<close>

record 'd machine =
  procs_of :: procs
  ram :: mem
  disk :: 'd
  screen :: "byte list"
  keys :: "byte list"

text \<open>The memory behind a pointer into data segment \<open>ds\<close>, and storing it back; offsets wrap
  in the segment.\<close>

definition at :: "mem \<Rightarrow> int \<Rightarrow> int \<Rightarrow> nat \<Rightarrow> byte" where
  "at m ds p i = m (phys ds (p + int i))"

definition put_at :: "int \<Rightarrow> int \<Rightarrow> (nat \<Rightarrow> byte) \<Rightarrow> mem \<Rightarrow> mem" where
  "put_at ds p f m a =
     (let base = u16 ds * 16 in
      if base \<le> int a \<and> int a < base + 65536 then f (nat (u16 (int a - base - p))) else m a)"

subsection \<open>Stack images\<close>

definition push_word :: "int \<Rightarrow> int \<Rightarrow> int \<times> mem \<Rightarrow> int \<times> mem" where
  "push_word seg v = (\<lambda>(sp, m).
     (sp - 2, putInMemory seg (sp - 1) (word_of_int (u16 v div 256))
                (putInMemory seg (sp - 2) (word_of_int (u16 v mod 256)) m)))"

definition peek_word :: "int \<Rightarrow> int \<Rightarrow> mem \<Rightarrow> int" where
  "peek_word seg sp m = uint (m (phys seg sp)) + 256 * uint (m (phys seg (sp + 1)))"

text \<open>In the order of the pushes: IP, CS, flags, BX, CX, DX, SI, DI, BP, AX, DS, ES (the names are
  those of the comments; \<^verbatim>\<open>iret\<close> takes the first pushed word for the flags).\<close>

definition initializeProgram :: "int \<Rightarrow> mem \<Rightarrow> mem" where
  "initializeProgram seg m =
     snd (fold (push_word seg) [0, seg, 0, 0, 0, 0, 0, 0, 0, 0, seg, seg] (0xFF18, m))"

text \<open>The registers \<^verbatim>\<open>returnFromTimer\<close> loads from the stack at \<open>seg:sp\<close>.\<close>

record cpu_context =
  cES :: int
  cDS :: int
  cAX :: int
  cBP :: int
  cDI :: int
  cSI :: int
  cDX :: int
  cCX :: int
  cBX :: int
  cIP :: int
  cCS :: int
  cFLAGS :: int
  cSP :: int

definition returnFromTimer :: "int \<Rightarrow> int \<Rightarrow> mem \<Rightarrow> cpu_context" where
  "returnFromTimer seg sp m =
     (let w = (\<lambda>k. peek_word seg (sp + 2 * k) m) in
      \<lparr>cES = w 0, cDS = w 1, cAX = w 2, cBP = w 3, cDI = w 4, cSI = w 5, cDX = w 6, cCX = w 7,
       cBX = w 8, cIP = w 9, cCS = w 10, cFLAGS = w 11, cSP = sp + 24\<rparr>)"

subsection \<open>executeProgram\<close>

definition load_program :: "int \<Rightarrow> (nat \<Rightarrow> byte) \<Rightarrow> nat \<Rightarrow> mem \<Rightarrow> mem" where
  "load_program seg buf n m = fold (\<lambda>i. putInMemory seg (int i) (buf i)) [0..<n] m"

text \<open>\<open>junk\<close> is the stack array \<^verbatim>\<open>buf\<close> before the read, \<open>msg\<close> the memory at the address of the
  literal \<^verbatim>\<open>"There is no free PCB"\<close> in the data segment of the caller. A file of more than 26
  sectors overruns \<^verbatim>\<open>buf\<close>: \<^const>\<open>None\<close>.\<close>

definition executeProgram ::
    "'d int13 \<Rightarrow> (nat \<Rightarrow> byte) \<Rightarrow> (nat \<Rightarrow> byte) \<Rightarrow> (nat \<Rightarrow> byte) \<Rightarrow> 'd machine \<Rightarrow> (int \<times> 'd machine) option" where
  "executeProgram int13 junk msg nm M =
     do { (found, buf, d) \<leftarrow> readFile int13 nm junk (disk M);
          let M0 = M\<lparr>disk := d\<rparr>;
          if found = -1 then Some (-1, M0)
          else if found > 26 then None
          else
            (let (s, p1) = getFreeMemorySegment (procs_of M0); M1 = M0\<lparr>procs_of := p1\<rparr> in
             if s = -1 then Some (-2, M1)
             else
               (let seg = i16 (0x1000 * (s + 2));
                    M2 = M1\<lparr>ram := load_program seg buf (nat (found * 512)) (ram M1)\<rparr>;
                    (process, p2) = getFreePCB (procs_of M2); M3 = M2\<lparr>procs_of := p2\<rparr>
                in if process = NULL then
                     do { (_, out) \<leftarrow> printString msg (screen M3); Some (-2, M3\<lparr>screen := out\<rparr>) }
                   else
                     Some (1, M3\<lparr>procs_of := fill_pcb nm seg process (procs_of M3),
                                 ram := initializeProgram seg (ram M3)\<rparr>))) }"

subsection \<open>The system call handler\<close>

text \<open>How a call ends: with a value; without a \<^verbatim>\<open>return\<close> statement; in a switch to another
  process; or in the endless loop of \<^verbatim>\<open>terminate\<close>.\<close>

datatype outcome = Returned int | FellOff | Switched "int \<times> int" | Looping

definition readChar :: "byte list \<Rightarrow> (byte \<times> byte list) option" where
  "readChar ks = (case ks of [] \<Rightarrow> None | k # ks' \<Rightarrow> Some (k, ks'))"

definition handleInterrupt21 ::
    "'d int13 \<Rightarrow> (nat \<Rightarrow> int) \<Rightarrow> (nat \<Rightarrow> byte) \<Rightarrow> (nat \<Rightarrow> byte) \<Rightarrow> int \<Rightarrow> int \<Rightarrow>
      int \<Rightarrow> int \<Rightarrow> int \<Rightarrow> int \<Rightarrow> 'd machine \<Rightarrow> (outcome \<times> 'd machine) option" where
  "handleInterrupt21 int13 sectjunk junk msg ds sp ax bx cx dx M =
     (let mem = at (ram M) ds in
      if ax = 0x00 then
        do { (_, out) \<leftarrow> printString (mem bx) (screen M); Some (Returned 1, M\<lparr>screen := out\<rparr>) }
      else if ax = 0x11 then
        do { (k, ks) \<leftarrow> readChar (keys M);
             Some (Returned 1, M\<lparr>keys := ks, ram := (ram M)(phys ds bx := k)\<rparr>) }
      else if ax = 0x01 then
        do { (n, buf, out, ks) \<leftarrow> readString (mem bx) (screen M) (keys M);
             Some (Returned n, M\<lparr>ram := put_at ds bx buf (ram M), screen := out, keys := ks\<rparr>) }
      else if ax = 0x03 then
        do { (_, buf, d) \<leftarrow> readFile int13 (mem bx) (mem cx) (disk M);
             Some (FellOff, M\<lparr>ram := put_at ds cx buf (ram M), disk := d\<rparr>) }
      else if ax = 0x04 then
        do { (_, M') \<leftarrow> executeProgram int13 junk msg (mem bx) M; Some (FellOff, M') }
      else if ax = 0x05 then Some (Looping, M\<lparr>procs_of := terminate (procs_of M)\<rparr>)
      else if ax = 0x07 then
        do { (_, d) \<leftarrow> deleteFile int13 (mem bx) (disk M); Some (FellOff, M\<lparr>disk := d\<rparr>) }
      else if ax = 0x08 then
        do { (_, d) \<leftarrow> writeFile int13 sectjunk (mem bx) (mem cx) dx (disk M); Some (FellOff, M\<lparr>disk := d\<rparr>) }
      else if ax = 0x98 then
        do { (b, d) \<leftarrow> readSector int13 (chunk (mem bx) 0) cx (disk M);
             Some (FellOff, M\<lparr>ram := put_at ds bx (put_chunk (mem bx) 0 b) (ram M), disk := d\<rparr>) }
      else if ax = 0x09 then Some (Returned 1, M\<lparr>procs_of := yield (procs_of M)\<rparr>)
      else if ax = 0x0A then
        do { out \<leftarrow> showProcesses (procs_of M) (screen M); Some (Returned 1, M\<lparr>screen := out\<rparr>) }
      else if ax = 0x0B then
        (let (r, p) = kill bx (procs_of M) in Some (Returned r, M\<lparr>procs_of := p\<rparr>))
      else if ax = 0xA1 then
        (let (f, p) = sleep bx ds sp (procs_of M) in Some (Switched f, M\<lparr>procs_of := p\<rparr>))
      else Some (Returned (-1), M))"

text \<open>\<^verbatim>\<open>main\<close> up to its endless loop: the structures are initialised and the shell is started.\<close>

definition kernel_main :: "'d int13 \<Rightarrow> (nat \<Rightarrow> byte) \<Rightarrow> (nat \<Rightarrow> byte) \<Rightarrow> 'd machine \<Rightarrow> (int \<times> 'd machine) option" where
  "kernel_main int13 junk msg M =
     executeProgram int13 junk msg (lit (map of_char ''shell''))
       (M\<lparr>procs_of := initializeProcStructures (procs_of M)\<rparr>)"

subsection \<open>What loading establishes\<close>

lemma u16_bounds: "0 \<le> u16 x" "u16 x < 65536"
  by (simp_all add: u16_def)

lemma phys_eq: "phys seg a = phys seg b \<longleftrightarrow> u16 a = u16 b"
  using u16_bounds [of seg] u16_bounds [of a] u16_bounds [of b] by (auto simp: phys_def)

lemma phys_less: "phys seg a < nat (u16 seg * 16) + 65536" "nat (u16 seg * 16) \<le> phys seg a"
  using u16_bounds [of seg] u16_bounds [of a] by (simp_all add: phys_def)

lemma load_program_byte:
  assumes "n \<le> 65536"
  shows "load_program seg buf n m a =
    (if phys seg 0 \<le> a \<and> a < phys seg 0 + n then buf (a - phys seg 0) else m a)"
  using assms
proof (induction n)
  case (Suc n)
  have p: "phys seg (int n) = phys seg 0 + n"
    using Suc.prems u16_bounds [of seg] by (simp add: phys_def nat_add_distrib)
  have "load_program seg buf (Suc n) m = (load_program seg buf n m)(phys seg (int n) := buf n)"
    by (simp add: load_program_def putInMemory_def)
  then show ?case using Suc p by auto
qed (auto simp: load_program_def)

lemma word_bytes: "uint (word_of_int (u16 v mod 256) :: byte) + 256 * uint (word_of_int (u16 v div 256) :: byte) = u16 v"
proof -
  have "u16 v div 256 < 256" "0 \<le> u16 v div 256" using u16_bounds [of v] by simp_all
  then show ?thesis by (simp add: uint_word_of_int take_bit_eq_mod)
qed

text \<open>The image of the stack of a new program: what the first switch to it loads.\<close>

definition start_context :: "int \<Rightarrow> cpu_context" where
  "start_context seg =
     \<lparr>cES = u16 seg, cDS = u16 seg, cAX = 0, cBP = 0, cDI = 0, cSI = 0, cDX = 0, cCX = 0, cBX = 0,
      cIP = 0, cCS = u16 seg, cFLAGS = 0, cSP = -232\<rparr>"

lemma initializeProgram_context: "returnFromTimer seg (-256) (initializeProgram seg m) = start_context seg"
  by (simp add: returnFromTimer_def initializeProgram_def push_word_def putInMemory_def peek_word_def
      phys_eq u16_def start_context_def Let_def word_bytes [unfolded u16_def])

lemma initializeProgram_outside:
  assumes "a < phys seg 0 + 0xFF00 \<or> phys seg 0 + 0x10000 \<le> a"
  shows "initializeProgram seg m a = m a"
proof -
  have "a \<noteq> phys seg k" if "0xFF00 \<le> k" "k < 0x10000" for k
    using assms that u16_bounds [of seg] by (auto simp: phys_def)
  then show ?thesis by (simp add: initializeProgram_def push_word_def putInMemory_def)
qed


text \<open>The bytes of a stored file.\<close>

definition file_byte :: "('d \<Rightarrow> nat \<times> nat \<times> nat \<Rightarrow> byte list) \<Rightarrow> 'd \<Rightarrow> nat \<Rightarrow> nat \<Rightarrow> byte" where
  "file_byte td d e a =
     disk_sector td d (unat (entry_sectors (directory td d) e ! (a div 512))) ! (a mod 512)"

lemma readFile_bytes:
  assumes "floppy_bios int13 td" and ok: "fs_ok (directory td d) dm"
    and f: "findFile nm (directory td d) = int e"
  shows "\<exists>buf. readFile int13 nm junk d = Some (int (length (entry_sectors (directory td d) e)), buf, d) \<and>
     (\<forall>a<length (entry_sectors (directory td d) e) * 512. buf a = file_byte td d e a)"
proof -
  let ?ss = "entry_sectors (directory td d) e"
  let ?buf = "fill (disk_sector td d) ?ss 0 junk"
  have "?buf a = file_byte td d e a" if a: "a < length ?ss * 512" for a
  proof -
    have j: "a div 512 < length ?ss" using a by (simp add: less_mult_imp_div_less)
    have "chunk ?buf (a div 512) = disk_sector td d (unat (?ss ! (a div 512)))"
      using fill_chunk [of ?ss "disk_sector td d" 0 junk "a div 512"] j
        floppy_bios.sector_of_byte_length [OF assms(1), of d] by simp
    then have "chunk ?buf (a div 512) ! (a mod 512) = file_byte td d e a" by (simp add: file_byte_def)
    then show ?thesis by (simp add: chunk_def)
  qed
  then show ?thesis using floppy_bios.readFile_found [OF assms(1) ok f, of junk] by blast
qed

text \<open>A machine on which the program \<open>nm\<close>, stored in directory entry \<open>e\<close>, can be started in
  segment \<open>k\<close>.\<close>

definition can_start :: "('d \<Rightarrow> nat \<times> nat \<times> nat \<Rightarrow> byte list) \<Rightarrow> 'd machine \<Rightarrow> pcbref list \<Rightarrow>
    (nat \<Rightarrow> byte) \<Rightarrow> nat \<Rightarrow> nat \<Rightarrow> bool" where
  "can_start td M qs nm e k \<longleftrightarrow>
     fs_ok (directory td (disk M)) (disk_map td (disk M)) \<and>
     findFile nm (directory td (disk M)) = int e \<and>
     sched_inv (procs_of M) qs \<and> procs_wf (procs_of M) \<and>
     state (heap (procs_of M) (running (procs_of M))) \<noteq> DEFUNCT \<and>
     (\<forall>d. length d = 7 \<longrightarrow> \<not> idle_name (kStrCopy 0 nm 6 d)) \<and>
     k < 8 \<and> memoryMap (procs_of M) ! k = FREE \<and> (\<forall>j<k. memoryMap (procs_of M) ! j \<noteq> FREE)"

lemma getFreePCB_set_map:
  "getFreePCB (set_map i v s) = (fst (getFreePCB s), set_map i v (snd (getFreePCB s)))"
  by (auto simp: getFreePCB_def modify_def set_map_def split: option.splits)

lemma sched_inv_set_map: "sched_inv (set_map i v s) qs = sched_inv s qs"
  by (simp add: sched_inv_def)

text \<open>C34. Starting a program: with the file on a well-formed disk, a free segment and a free PCB,
  \<^verbatim>\<open>executeProgram\<close> returns 1, takes the lowest free segment \<open>k\<close>, copies the file to offset 0 of
  segment \<open>0x1000 * (k + 2)\<close>, changes no memory outside it, and appends a PCB to the ready queue
  whose saved stack makes the first switch to it continue at offset 0 of its segment with DS, ES
  and CS there and all other registers and the flags (the interrupt flag included) zero.\<close>

theorem executeProgram_starts:
  assumes bios: "floppy_bios int13 td" and start: "can_start td M qs nm e k"
    and pcb: "list_ex (\<lambda>i. state (heap (procs_of M) (Pool i)) = DEFUNCT) [0..<8]"
  shows "\<exists>M' p. executeProgram int13 junk msg nm M = Some (1, M') \<and>
     sched_inv (procs_of M') (qs @ [p]) \<and> disk M' = disk M \<and>
     memoryMap (procs_of M') = (memoryMap (procs_of M))[k := USED] \<and>
     segment (heap (procs_of M') p) = i16 (0x1000 * (int k + 2)) \<and>
     stackPointer (heap (procs_of M') p) = -256 \<and>
     returnFromTimer (segment (heap (procs_of M') p)) (stackPointer (heap (procs_of M') p)) (ram M') =
       start_context (0x1000 * (int k + 2)) \<and>
     (\<forall>a<length (entry_sectors (directory td (disk M)) e) * 512.
        ram M' (0x10000 * (k + 2) + a) = file_byte td (disk M) e a) \<and>
     (\<forall>a. a < 0x10000 * (k + 2) \<or> 0x10000 * (k + 3) \<le> a \<longrightarrow> ram M' a = ram M a)"
proof -
  note st = start [unfolded can_start_def]
  let ?s = "procs_of M" and ?ss = "entry_sectors (directory td (disk M)) e"
  let ?seg = "i16 (0x1000 * (int k + 2))" and ?n = "length ?ss * 512"
  obtain buf where rf: "readFile int13 nm junk (disk M) = Some (int (length ?ss), buf, disk M)"
    and buf: "\<And>a. a < ?n \<Longrightarrow> buf a = file_byte td (disk M) e a"
    using readFile_bytes [OF bios, of "disk M" _ nm e junk] st by blast
  have e: "e < 16" using st by (simp add: findFile_some_iff)
  have l: "length ?ss < 26" using st e by (auto simp: fs_ok_def entry_ok_def)
  have k: "k < 8" using st by blast
  have gm: "getFreeMemorySegment ?s = (int k, set_map (int k) USED ?s)"
  proof -
    have "find (\<lambda>i. memoryMap ?s ! i = FREE) [0..<8] = Some k"
      using st by (simp add: find_upt_Some del: upt_rec_numeral)
    then show ?thesis by (simp add: getFreeMemorySegment_def)
  qed
  let ?s1 = "set_map (int k) USED ?s"
  have gp: "fst (getFreePCB ?s1) \<noteq> NULL"
  proof -
    have "find (\<lambda>i. state (heap ?s (Pool i)) = DEFUNCT) [0..<8] \<noteq> None"
      using pcb unfolding list_ex_upt find_upt_None by blast
    then show ?thesis by (auto simp: getFreePCB_def)
  qed
  define s2 where "s2 = fill_pcb nm ?seg (fst (getFreePCB ?s1)) (snd (getFreePCB ?s1))"
  have sp: "start_process nm ?seg ?s1 = Some s2"
    using gp by (simp add: start_process_def case_prod_beta s2_def)
  have inv1: "sched_inv ?s1 qs" using st by (simp add: sched_inv_set_map)
  have run1: "state (heap ?s1 (running ?s1)) \<noteq> DEFUNCT" using st by simp
  have wf1: "procs_wf ?s1" using st by (auto simp: procs_wf_def set_map_def)
  have nm: "\<And>d. length d = 7 \<Longrightarrow> \<not> idle_name (kStrCopy 0 nm 6 d)" using st by blast
  obtain p where p: "sched_inv s2 (qs @ [p])" "segment (heap s2 p) = ?seg"
    "stackPointer (heap s2 p) = -256" "memoryMap s2 = memoryMap ?s1"
    using start_process_spec [OF inv1 run1 sp nm wf1] by blast
  define r where "r = initializeProgram ?seg (load_program ?seg buf ?n (ram M))"
  define M' where "M' = M\<lparr>disk := disk M, procs_of := s2, ram := r\<rparr>"
  have nn: "nat (int (length ?ss) * 512) = ?n" by (simp add: nat_mult_distrib)
  have ex: "executeProgram int13 junk msg nm M = Some (1, M')"
    using l gp by (simp add: executeProgram_def rf gm case_prod_beta Let_def M'_def s2_def r_def nn)
  have u: "u16 ?seg = 0x1000 * (int k + 2)" using k by (subst u16_i16, intro u16_id) auto
  have base: "phys ?seg 0 = 0x10000 * (k + 2)" unfolding phys_def u by (simp add: u16_def)
  have ctx: "returnFromTimer ?seg (-256) r = start_context (0x1000 * (int k + 2))"
    using initializeProgram_context [of ?seg] by (simp add: r_def start_context_def)
  have n: "?n \<le> 0xFF00" using l by simp
  have code: "r (0x10000 * (k + 2) + a) = file_byte td (disk M) e a" if "a < ?n" for a
    using that n buf [OF that] base
    by (simp add: r_def initializeProgram_outside load_program_byte)
  have out: "r a = ram M a" if "a < 0x10000 * (k + 2) \<or> 0x10000 * (k + 3) \<le> a" for a
    using that n base by (subst r_def, subst initializeProgram_outside) (auto simp: load_program_byte)
  have mm: "memoryMap s2 = (memoryMap ?s)[k := USED]" using p(4) k by (simp add: set_map_def)
  have f: "procs_of M' = s2" "disk M' = disk M" "ram M' = r" by (simp_all add: M'_def)
  show ?thesis
    by (rule exI [of _ M'], rule exI [of _ p], unfold f p(2,3)) (use ex p(1) mm ctx code out in blast)
qed


definition demo_machine :: "(nat \<Rightarrow> byte list) machine" where
  "demo_machine = \<lparr>procs_of = demo1, ram = \<lambda>_. 0, disk = file_disk, screen = [], keys = []\<rparr>"

lemma A_name: "length d = 7 \<Longrightarrow> \<not> idle_name (kStrCopy 0 (\<lambda>_. 65) 6 d)"
proof -
  assume "length d = 7"
  then obtain a b c e f g h where "d = [a, b, c, e, f, g, h]"
    by (auto simp: length_Suc_conv numeral_eq_Suc)
  moreover have "(65 :: byte) \<noteq> 0" "(6 :: nat) = Suc (Suc (Suc (Suc (Suc (Suc 0)))))" by simp_all
  ultimately have "kStrCopy 0 (\<lambda>_. 65) 6 d = [65, 65, 65, 65, 65, 65, h]"
    by (simp only: kStrCopy.simps if_False) simp
  then show ?thesis by (simp add: idle_name_def stringMatch_take)
qed

lemma demo_can_start: "can_start image_data demo_machine [Pool 0] (\<lambda>_. 65) 0 0"
proof -
  have "findFile (\<lambda>_. 65) (directory image_data file_disk) = int 0"
    unfolding findFile_some_iff by (simp add: file_disk_names)
  moreover have "state (heap demo1 (running demo1)) \<noteq> DEFUNCT"
    using demo1_inv by (simp add: sched_inv_def)
  moreover have "memoryMap demo1 = replicate 8 FREE"
    by (simp add: demo1_def fill_pcb_def getFreePCB_boot0 boot0_def init_memoryMap procs0_def)
  ultimately show ?thesis
    using file_disk_ok demo1_inv A_name by (simp add: can_start_def demo_machine_def)
qed

theorem executeProgram_starts_witness:
  "\<exists>M' p. executeProgram image_int13 (\<lambda>_. 0) (\<lambda>_. 0) (\<lambda>_. 65) demo_machine = Some (1, M') \<and>
     sched_inv (procs_of M') ([Pool 0] @ [p])"
proof -
  have "state (heap demo1 (Pool 7)) = DEFUNCT"
    by (simp add: demo1_def fill_pcb_def getFreePCB_boot0 boot0_state)
  then have "list_ex (\<lambda>i. state (heap (procs_of demo_machine) (Pool i)) = DEFUNCT) [0..<8]"
    unfolding list_ex_upt by (intro exI [of _ 7]) (simp add: demo_machine_def)
  from executeProgram_starts [OF image.floppy_bios_axioms demo_can_start this, of "\<lambda>_. 0" "\<lambda>_. 0"]
  show ?thesis by blast
qed

text \<open>The failures that leave the processes alone.\<close>

lemma executeProgram_missing:
  assumes "floppy_bios int13 td" and "findFile nm (directory td (disk M)) = -1"
  shows "executeProgram int13 junk msg nm M = Some (-1, M)"
  by (simp add: executeProgram_def floppy_bios.readFile_missing [OF assms] Let_def)

lemma executeProgram_no_segment:
  assumes "floppy_bios int13 td" and "fs_ok (directory td (disk M)) dm"
    and "findFile nm (directory td (disk M)) = int e"
    and "\<And>i. i < 8 \<Longrightarrow> memoryMap (procs_of M) ! i \<noteq> FREE"
  shows "executeProgram int13 junk msg nm M = Some (-2, M)"
proof -
  have "find (\<lambda>i. memoryMap (procs_of M) ! i = FREE) [0..<8] = None"
    using assms(4) by (simp only: find_upt_None) blast
  then have g: "getFreeMemorySegment (procs_of M) = (-1, procs_of M)" by (simp add: getFreeMemorySegment_def)
  have e: "e < 16" using assms(3) by (simp add: findFile_some_iff)
  then have l: "length (entry_sectors (directory td (disk M)) e) < 26"
    using assms(2) by (auto simp: fs_ok_def entry_ok_def)
  obtain buf where "readFile int13 nm junk (disk M) =
      Some (int (length (entry_sectors (directory td (disk M)) e)), buf, disk M)"
    using readFile_bytes [OF assms(1-3), of junk] by blast
  then show ?thesis using l by (simp add: executeProgram_def g Let_def)
qed

text \<open>The ways \<^verbatim>\<open>executeProgram\<close> fails: for a missing file it returns \<open>-1\<close>, when all eight
  segments are taken \<open>-2\<close>, and in both cases the machine is unchanged.\<close>

theorem executeProgram_errors:
  assumes "floppy_bios int13 td" and "fs_ok (directory td (disk M)) dm"
  shows "(findFile nm (directory td (disk M)) = -1 \<longrightarrow> executeProgram int13 junk msg nm M = Some (-1, M)) \<and>
    (findFile nm (directory td (disk M)) \<noteq> -1 \<and> list_all (\<lambda>i. memoryMap (procs_of M) ! i \<noteq> FREE) [0..<8] \<longrightarrow>
       executeProgram int13 junk msg nm M = Some (-2, M))"
proof (intro conjI impI)
  show "executeProgram int13 junk msg nm M = Some (-1, M)" if "findFile nm (directory td (disk M)) = -1"
    by (rule executeProgram_missing [OF assms(1) that])
  assume a: "findFile nm (directory td (disk M)) \<noteq> -1 \<and> list_all (\<lambda>i. memoryMap (procs_of M) ! i \<noteq> FREE) [0..<8]"
  then obtain e where e: "findFile nm (directory td (disk M)) = int e"
    using findFile_range [of nm "directory td (disk M)"] nonneg_int_cases by metis
  have "memoryMap (procs_of M) ! i \<noteq> FREE" if "i < 8" for i
    using a that by (auto simp: list_all_iff simp del: upt_rec_numeral)
  then show "executeProgram int13 junk msg nm M = Some (-2, M)"
    by (rule executeProgram_no_segment [OF assms e])
qed

theorem executeProgram_errors_witness:
  "executeProgram image_int13 (\<lambda>_. 0) (\<lambda>_. 0) (\<lambda>_. 65) (demo_machine\<lparr>disk := blank_disk\<rparr>) =
     Some (-1, demo_machine\<lparr>disk := blank_disk\<rparr>)"
proof -
  have "findFile (\<lambda>_. 65) (directory image_data blank_disk) = -1"
    using blank_can_store [of "\<lambda>_. 65" 1] by (simp add: can_store_def)
  then show ?thesis
    using executeProgram_errors [OF image.floppy_bios_axioms, of "demo_machine\<lparr>disk := blank_disk\<rparr>"
        "disk_map image_data blank_disk" "\<lambda>_. 65" "\<lambda>_. 0" "\<lambda>_. 0"] blank_fs_ok by simp
qed


end
