(* ===== verification/OS_LoadFile.thy ===== *)
theory OS_LoadFile
  imports OS_FileSystem
begin

section \<open>Loading files into the disk image\<close>

text \<open>
  Models \<^verbatim>\<open>project6/loadFile.c\<close>, the program run on the host to put a file into
  \<^verbatim>\<open>floppya.img\<close>, and relates what it stores to what the kernel's \<^verbatim>\<open>readFile\<close> reads.
  The image is its bytes by file position; the source file is the list of its bytes and the
  flag that \<^verbatim>\<open>feof\<close> returns, which is set by the read that hits the end. The local array
  \<^verbatim>\<open>map\<close> is \<open>mp\<close>. Opening the files and the messages are left out.
\<close>

subsection \<open>The program\<close>

type_synonym floppy_image = "nat \<Rightarrow> byte"

datatype load_error = Directory_full | Entry_full | Disk_full

definition image_sector :: "floppy_image \<Rightarrow> nat \<Rightarrow> byte list" where
  "image_sector img n = map (\<lambda>j. img (512 * n + j)) [0..<512]"

definition put_image_sector :: "nat \<Rightarrow> byte list \<Rightarrow> floppy_image \<Rightarrow> floppy_image" where
  "put_image_sector n bs img a = (if a div 512 = n then bs ! (a mod 512) else img a)"

text \<open>The name: six zeros, then the characters of the argument up to its end.\<close>

fun copy_name :: "nat \<Rightarrow> nat \<Rightarrow> (nat \<Rightarrow> byte) \<Rightarrow> byte list \<Rightarrow> byte list" where
  "copy_name 0 at arg dir = dir"
| "copy_name (Suc n) at arg dir =
     (if arg 0 = 0 then dir else copy_name n (Suc at) (\<lambda>i. arg (Suc i)) (dir[at := arg 0]))"

definition put_arg :: "nat \<Rightarrow> (nat \<Rightarrow> byte) \<Rightarrow> byte list \<Rightarrow> byte list" where
  "put_arg dirindex arg dir =
     copy_name 6 dirindex arg (fold (\<lambda>i dir. dir[dirindex + i := 0]) [0..<6] dir)"

text \<open>The inner loop, \<open>n\<close> bytes of the sector being left: at the end of the file the byte
  \<^verbatim>\<open>(char) EOF\<close> is written, and then a zero if the sector is not full.\<close>

fun copy_block :: "nat \<Rightarrow> nat \<Rightarrow> byte list \<Rightarrow> bool \<Rightarrow> floppy_image \<Rightarrow> byte list \<times> bool \<times> floppy_image" where
  "copy_block 0 pos rest eof img = (rest, eof, img)"
| "copy_block (Suc n) pos rest eof img =
     (if eof then (rest, eof, img(pos := 0))
      else case rest of
        [] \<Rightarrow> copy_block n (Suc pos) [] True (img(pos := 0xFF))
      | c # cs \<Rightarrow> copy_block n (Suc pos) cs False (img(pos := c)))"

lemma copy_block_progress:
  "copy_block n pos rest eof img = (rest', eof', img') \<Longrightarrow>
     2 * length rest' + of_bool (\<not> eof') \<le> 2 * length rest + of_bool (\<not> eof)"
  by (induction n pos rest eof img rule: copy_block.induct) (auto split: if_splits list.splits)

lemma copy_block_less:
  assumes "copy_block 512 pos rest False img = (rest', eof', img')"
  shows "2 * length rest' + of_bool (\<not> eof') < Suc (2 * length rest)"
proof -
  have e: "copy_block (Suc 511) pos rest False img = (rest', eof', img')" using assms by simp
  show ?thesis
  proof (cases rest)
    case Nil
    have "copy_block 511 (Suc pos) [] True (img(pos := 0xFF)) = (rest', eof', img')"
      using e unfolding Nil by (simp only: copy_block.simps if_False list.case)
    from copy_block_progress [OF this] show ?thesis by simp
  next
    case (Cons c cs)
    have "copy_block 511 (Suc pos) cs False (img(pos := c)) = (rest', eof', img')"
      using e unfolding Cons by (simp only: copy_block.simps if_False list.case)
    from copy_block_progress [OF this] show ?thesis using Cons by simp
  qed
qed

function load_loop ::
    "byte list \<Rightarrow> bool \<Rightarrow> byte list \<Rightarrow> byte list \<Rightarrow> nat \<Rightarrow> nat \<Rightarrow> floppy_image
      \<Rightarrow> load_error \<times> floppy_image + byte list \<times> byte list \<times> floppy_image" where
  "load_loop rest eof mp dir dirindex sectcount img =
     (if eof then Inr (mp, dir, img)
      else if sectcount = 26 then Inl (Entry_full, img)
      else case find (\<lambda>i. mp ! i = 0) [0..<256] of
        None \<Rightarrow> Inl (Disk_full, img)
      | Some i \<Rightarrow>
          (case copy_block 512 (i * 512) rest False img of
             (rest', eof', img') \<Rightarrow>
               load_loop rest' eof' (mp[i := 0xFF]) (dir[dirindex := word_of_nat i])
                 (Suc dirindex) (Suc sectcount) img'))"
  by pat_completeness auto
termination
  by (relation "measure (\<lambda>(rest, eof, _). 2 * length rest + of_bool (\<not> eof))")
     (auto dest: copy_block_less [OF sym])

declare load_loop.simps [simp del]

definition load_file :: "(nat \<Rightarrow> byte) \<Rightarrow> byte list \<Rightarrow> floppy_image \<Rightarrow> load_error option \<times> floppy_image" where
  "load_file arg content img =
     (let mp = image_sector img 1; dir = image_sector img 2 in
      case find (\<lambda>k. dir ! (k * 0x20) = 0) [0..<16] of
        None \<Rightarrow> (Some Directory_full, img)
      | Some k \<Rightarrow>
          (case load_loop content False mp (put_arg (k * 0x20) arg dir) (k * 0x20 + 6) 0 img of
             Inl (e, img') \<Rightarrow> (Some e, img')
           | Inr (mp', dir', img') \<Rightarrow> (None, put_image_sector 2 dir' (put_image_sector 1 mp' img'))))"

subsection \<open>One sector\<close>

text \<open>Byte \<open>a\<close> of what is stored for a file: its bytes, 0xFF for the end, and a zero.\<close>

definition payload :: "byte list \<Rightarrow> nat \<Rightarrow> byte" where
  "payload bs a = (if a < length bs then bs ! a else if a = length bs then 0xFF else 0)"

lemma copy_block_eof: "copy_block n pos rest True img = (rest, True, if n = 0 then img else img(pos := 0))"
  by (cases n) simp_all

lemma payload_Cons: "payload (c # cs) (Suc a) = payload cs a"
  by (auto simp: payload_def)

lemma copy_block_full:
  "n \<le> length rest \<Longrightarrow> copy_block n pos rest False img =
     (drop n rest, False, (\<lambda>a. if pos \<le> a \<and> a < pos + n then rest ! (a - pos) else img a))"
proof (induction n arbitrary: pos rest img)
  case (Suc n)
  then obtain c cs where r: "rest = c # cs" by (cases rest) auto
  show ?case using Suc by (auto simp: r fun_eq_iff nth_Cons')
qed (auto simp: fun_eq_iff)

lemma copy_block_last:
  "length rest < n \<Longrightarrow> copy_block n pos rest False img =
     ([], True, (\<lambda>a. if pos \<le> a \<and> a < pos + n \<and> a < pos + length rest + 2 then payload rest (a - pos) else img a))"
proof (induction rest arbitrary: n pos img)
  case Nil
  then obtain m where "n = Suc m" by (cases n) auto
  then show ?case by (auto simp: copy_block_eof fun_eq_iff payload_def)
next
  case (Cons c cs)
  then obtain m where n: "n = Suc m" "length cs < m" by (cases n) auto
  have "payload (c # cs) (a - pos) = payload cs (a - Suc pos)" if "Suc pos \<le> a" for a
    using that payload_Cons [of c cs "a - Suc pos"] by (simp add: Suc_diff_Suc Suc_le_eq)
  then show ?case using Cons.IH [OF n(2)] by (auto simp: n fun_eq_iff payload_def)
qed

subsection \<open>The whole file\<close>

lemma filter_after_mark:
  assumes "find (\<lambda>i. mp ! i = (0::byte)) [0..<n] = Some i" and "n \<le> length mp"
  shows "filter (\<lambda>j. mp ! j = 0) [0..<n] = i # filter (\<lambda>j. mp[i := 0xFF] ! j = 0) [0..<n]"
proof -
  have i: "i < n" "mp ! i = 0" "\<And>j. j < i \<Longrightarrow> mp ! j \<noteq> 0" using assms(1) unfolding find_upt_Some by auto
  have u: "[0..<n] = [0..<i] @ i # [Suc i..<n]"
    using i(1) upt_add_eq_append [of 0 i "n - i"] by (simp add: upt_conv_Cons)
  have l: "filter (\<lambda>j. mp ! j = 0) [0..<i] = []" "filter (\<lambda>j. mp[i := 0xFF] ! j = 0) [0..<i] = []"
    using i(3) by (auto simp: filter_empty_conv)
  have r: "filter (\<lambda>j. mp[i := 0xFF] ! j = 0) [Suc i..<n] = filter (\<lambda>j. mp ! j = 0) [Suc i..<n]"
    by (rule filter_cong) auto
  show ?thesis unfolding u filter_append l using i(1,2) assms(2) by (simp add: r)
qed

lemma load_loop_ok:
  assumes "n = length rest div 512 + 1" and "us = take n (filter (\<lambda>j. mp ! j = 0) [0..<256])"
    and "length us = n" and "length mp = 512" and "cnt + n \<le> 26" and "di + n \<le> length dir"
  shows "\<exists>mp' dir' img'. load_loop rest False mp dir di cnt img = Inr (mp', dir', img') \<and>
     length mp' = 512 \<and> length dir' = length dir \<and>
     (\<forall>a<512. mp' ! a = (if a \<in> set us then 0xFF else mp ! a)) \<and>
     (\<forall>a<length dir. dir' ! a = (if di \<le> a \<and> a < di + n then of_nat (us ! (a - di)) else dir ! a)) \<and>
     (\<forall>k<n. \<forall>j<512. 512 * k + j < length rest + 2 \<longrightarrow> img' (512 * (us ! k) + j) = payload rest (512 * k + j)) \<and>
     (\<forall>a. a div 512 \<notin> set us \<longrightarrow> img' a = img a)"
  using assms
proof (induction n arbitrary: rest us mp dir di cnt img)
  case (Suc n)
  have "filter (\<lambda>j. mp ! j = 0) [0..<256] \<noteq> []" using Suc.prems(2,3) by auto
  then obtain i where f: "find (\<lambda>i. mp ! i = 0) [0..<256] = Some i"
    by (metis (mono_tags, lifting) filter_False find_None_iff not_None_eq)
  have i: "i < 256" "mp ! i = 0" using f unfolding find_upt_Some by auto
  define us' where "us' = take n (filter (\<lambda>j. mp[i := 0xFF] ! j = 0) [0..<256])"
  have us: "us = i # us'" using Suc.prems(2,4) filter_after_mark [OF f] by (simp add: us'_def)
  have i': "i \<notin> set us'" using i(1) Suc.prems(4) by (auto simp: us'_def dest!: in_set_takeD)
  have len: "length us' = n" using us Suc.prems(3) by simp
  note step = load_loop.simps [of rest False mp dir di cnt img]
  show ?case
  proof (cases "n = 0")
    case True
    then have r: "length rest < 512" using Suc.prems(1) by simp
    have cb: "copy_block 512 (i * 512) rest False img = ([], True, (\<lambda>a. if i * 512 \<le> a \<and> a < i * 512 + 512 \<and>
        a < i * 512 + length rest + 2 then payload rest (a - i * 512) else img a))"
      by (rule copy_block_last [OF r])
    have "load_loop rest False mp dir di cnt img = Inr (mp[i := 0xFF], dir[di := word_of_nat i],
        (\<lambda>a. if i * 512 \<le> a \<and> a < i * 512 + 512 \<and> a < i * 512 + length rest + 2 then payload rest (a - i * 512) else img a))"
      using Suc.prems(5) f cb by (simp add: step load_loop.simps [of _ True])
    then show ?thesis using Suc.prems(3-6) us len True i(1)
      by (auto simp: nth_list_update mult.commute [of i])
  next
    case False
    then have r: "512 \<le> length rest" using Suc.prems(1) by (metis One_nat_def Suc_eq_plus1 add_right_cancel div_less not_less)
    let ?img = "\<lambda>a. if i * 512 \<le> a \<and> a < i * 512 + 512 then rest ! (a - i * 512) else img a"
    have cb: "copy_block 512 (i * 512) rest False img = (drop 512 rest, False, ?img)"
      by (rule copy_block_full [OF r])
    have n: "n = length (drop 512 rest) div 512 + 1" using Suc.prems(1) r False by (simp add: le_div_geq)
    have "load_loop rest False mp dir di cnt img =
        load_loop (drop 512 rest) False (mp[i := 0xFF]) (dir[di := word_of_nat i]) (Suc di) (Suc cnt) ?img"
      using Suc.prems(5) f cb by (simp add: step)
    moreover obtain mp' dir' img' where
      "load_loop (drop 512 rest) False (mp[i := 0xFF]) (dir[di := word_of_nat i]) (Suc di) (Suc cnt) ?img = Inr (mp', dir', img')"
      "length mp' = 512" "length dir' = length dir"
      "\<forall>a<512. mp' ! a = (if a \<in> set us' then 0xFF else mp[i := 0xFF] ! a)"
      "\<forall>a<length dir. dir' ! a = (if Suc di \<le> a \<and> a < Suc di + n then of_nat (us' ! (a - Suc di)) else dir[di := word_of_nat i] ! a)"
      "\<forall>k<n. \<forall>j<512. 512 * k + j < length (drop 512 rest) + 2 \<longrightarrow> img' (512 * (us' ! k) + j) = payload (drop 512 rest) (512 * k + j)"
      "\<forall>a. a div 512 \<notin> set us' \<longrightarrow> img' a = ?img a"
      using Suc.IH [OF n us'_def len, of "Suc cnt" "Suc di" "dir[di := word_of_nat i]" ?img] Suc.prems(4,5,6) by auto
    note res = this
    have p: "payload (drop 512 rest) a = payload rest (512 + a)" for a
      using r by (auto simp: payload_def)
    have bytes: "img' (512 * (us ! k) + j) = payload rest (512 * k + j)"
      if k: "k < Suc n" "j < 512" "512 * k + j < length rest + 2" for k j
    proof (cases k)
      case 0
      have "(512 * i + j) div 512 = i" using k(2) by simp
      then have "img' (512 * i + j) = ?img (512 * i + j)" using res(7) i' by metis
      then show ?thesis using 0 us k(2) r by (simp add: payload_def mult.commute [of i])
    next
      case (Suc k')
      then show ?thesis using res(6) k us p r by (simp add: add.assoc)
    qed
    have "img' a = img a" if "a div 512 \<notin> set us" for a
    proof -
      have "a div 512 \<noteq> i" "a div 512 \<notin> set us'" using that us by auto
      moreover from this(1) have "\<not> (i * 512 \<le> a \<and> a < i * 512 + 512)"
        by (metis add.commute div_nat_eqI mult.commute mult_Suc_right)
      ultimately show ?thesis using res(7) by auto
    qed
    then show ?thesis using res(1-5) calculation bytes us i(1) Suc.prems(4,6)
      by (intro exI [of _ mp'] exI [of _ dir'] exI [of _ img']) (auto simp: nth_list_update nth_Cons' le_eq_less_or_eq [of di])
  qed
qed simp

subsection \<open>The directory entry\<close>

definition loaded_name :: "(nat \<Rightarrow> byte) \<Rightarrow> nat \<Rightarrow> byte" where
  "loaded_name arg j = (if list_ex (\<lambda>k. arg k = 0) [0..<Suc j] then 0 else arg j)"

lemma loaded_name_0: "loaded_name arg 0 = arg 0"
  by (simp add: loaded_name_def)

lemma loaded_name_Suc: "loaded_name arg (Suc j) = (if arg 0 = 0 then 0 else loaded_name (\<lambda>i. arg (Suc i)) j)"
  unfolding loaded_name_def list_ex_upt by (auto simp: less_Suc_eq_0_disj)

lemma copy_name_nth:
  assumes "at + n \<le> length dir" and "a < length dir" and "\<And>b. at \<le> b \<Longrightarrow> b < at + n \<Longrightarrow> dir ! b = 0"
  shows "copy_name n at arg dir ! a = (if at \<le> a \<and> a < at + n then loaded_name arg (a - at) else dir ! a)"
    and "length (copy_name n at arg dir) = length dir"
  using assms
proof (induction n at arg dir rule: copy_name.induct)
  case (2 n at arg dir)
  have z: "loaded_name arg j = 0" if "arg 0 = 0" for j using that by (cases j) (simp_all add: loaded_name_0 loaded_name_Suc)
  {
    case 1
    show ?case
    proof (cases "arg 0 = 0")
      case True
      then show ?thesis using 1 z by auto
    next
      case False
      have s: "a - at = Suc (a - Suc at)" if "Suc at \<le> a" using that by simp
      show ?thesis using False 2(1) [of] 1 s
        by (cases "a = at") (auto simp: nth_list_update loaded_name_Suc loaded_name_0)
    qed
  next
    case 2
    then show ?case using "2.IH"(2) by (cases "arg 0 = 0") auto
  }
qed auto

lemma put_arg_nth:
  assumes "length dir = 512" and "k < 16" and "a < 512"
  shows "put_arg (k * 32) arg dir ! a =
      (if 32 * k \<le> a \<and> a < 32 * k + 6 then loaded_name arg (a - 32 * k) else dir ! a)"
    and "length (put_arg (k * 32) arg dir) = 512"
proof -
  let ?d = "fold (\<lambda>i dir. dir[k * 32 + i := 0]) [0..<6] dir"
  have d: "?d = put_name (\<lambda>_. 0) k dir" by (simp only: put_name_def mult.commute [of k])
  have at: "?d ! b = (if 32 * k \<le> b \<and> b < 32 * k + 6 then 0 else dir ! b)" if "b < 512" for b
    unfolding d using put_name_nth [of k dir b] assms that by auto
  have l: "length ?d = 512" unfolding d using assms by simp
  have z: "?d ! b = 0" if "k * 32 \<le> b" "b < k * 32 + 6" for b using at [of b] that assms(2) by auto
  show "put_arg (k * 32) arg dir ! a =
      (if 32 * k \<le> a \<and> a < 32 * k + 6 then loaded_name arg (a - 32 * k) else dir ! a)"
    "length (put_arg (k * 32) arg dir) = 512"
    using copy_name_nth [of "k * 32" 6 ?d a arg, OF _ _ z] l assms at [of a]
    unfolding put_arg_def by (simp_all add: mult.commute [of k])
qed

subsection \<open>What the kernel reads\<close>

lemma image_sector_disk: "disk_sector image_data (image_sector img) n = image_sector img n"
  by (simp add: disk_sector_def image_data_def lba_chs image_sector_def)

lemma image_sector_put:
  "length bs = 512 \<Longrightarrow> image_sector (put_image_sector m bs img) n = (if n = m then bs else image_sector img n)"
  by (auto simp: image_sector_def put_image_sector_def intro!: nth_equalityI)

text \<open>C35. A loaded file read back by the kernel: on a well-formed image with a free entry and
  enough free sectors, loading a file of L bytes under a new name succeeds, keeps the file
  system well-formed, and \<^verbatim>\<open>readFile\<close> of that name (cut to six characters) returns
  \<open>L div 512 + 1\<close> sectors holding the L bytes, then the byte 0xFF that \<^verbatim>\<open>fgetc\<close> returned at
  the end of the file, then a zero unless the sector ended.\<close>

theorem loaded_file_reads:
  assumes "fs_ok (image_sector img 2) (image_sector img 1)"
    and "findFile (loaded_name arg) (image_sector img 2) = -1" and "arg 0 \<noteq> 0"
    and "list_ex (\<lambda>k. image_sector img 2 ! (32 * k) = 0) [0..<16]"
    and "n = length content div 512 + 1" and "n \<le> 25" and "n \<le> free_count (image_sector img 1)"
  shows "\<exists>img' out'. load_file arg content img = (None, img') \<and>
     fs_ok (image_sector img' 2) (image_sector img' 1) \<and>
     readFile image_int13 (loaded_name arg) out (image_sector img') = Some (int n, out', image_sector img') \<and>
     (\<forall>a < n * 512. a < length content + 2 \<longrightarrow> out' a = payload content a)"
proof -
  let ?dir = "image_sector img 2" and ?mp = "image_sector img 1" and ?f = "loaded_name arg"
  have len: "length ?dir = 512" "length ?mp = 512" by (simp_all add: image_sector_def)
  have "find (\<lambda>k. ?dir ! (k * 0x20) = 0) [0..<16] \<noteq> None"
    using assms(4) unfolding list_ex_upt find_upt_None by (auto simp: mult.commute)
  then obtain e where fe: "find (\<lambda>k. ?dir ! (k * 0x20) = 0) [0..<16] = Some e" by blast
  then have e: "e < 16" "?dir ! (32 * e) = 0" unfolding find_upt_Some by (simp_all add: mult.commute)
  define us where "us = take n (filter (\<lambda>j. ?mp ! j = 0) [0..<256])"
  have lus: "length us = n" using assms(7) by (simp add: us_def free_count_def)
  have us: "distinct us" "\<And>u. u \<in> set us \<Longrightarrow> u < 256 \<and> ?mp ! u = 0" by (auto simp: us_def dest!: in_set_takeD)
  note arg = put_arg_nth [OF len(1) e(1), of _ arg]
  obtain mp' dir' img1 where ll: "load_loop content False ?mp (put_arg (e * 0x20) arg ?dir) (e * 0x20 + 6) 0 img = Inr (mp', dir', img1)"
    and l': "length mp' = 512" "length dir' = 512"
    and m': "\<forall>a<512. mp' ! a = (if a \<in> set us then 0xFF else ?mp ! a)"
    and d': "\<forall>a<512. dir' ! a = (if e * 0x20 + 6 \<le> a \<and> a < e * 0x20 + 6 + n then of_nat (us ! (a - (e * 0x20 + 6)))
          else put_arg (e * 0x20) arg ?dir ! a)"
    and bytes: "\<forall>k<n. \<forall>j<512. 512 * k + j < length content + 2 \<longrightarrow> img1 (512 * (us ! k) + j) = payload content (512 * k + j)"
    using load_loop_ok [OF assms(5) us_def lus len(2), of 0 "e * 0x20 + 6" "put_arg (e * 0x20) arg ?dir" img]
      assms(6) e(1) arg(2) [of 0] by auto
  define bs where "bs = map (word_of_nat :: nat \<Rightarrow> byte) us"
  have ub: "unat (word_of_nat u :: byte) = u" if "u \<in> set us" for u using us(2) [OF that] by (simp add: unat_of_nat)
  then have mu: "map unat bs = us" by (simp add: bs_def map_idI)
  then have st: "unat ` set bs = set us" by (metis list.set_map)
  have dbs: "distinct bs" using us(1) mu by (metis distinct_map)
  have free: "3 \<le> unat b \<and> ?mp ! unat b = 0" if "b \<in> set bs" for b
  proof -
    have z: "?mp ! unat b = 0" using that us(2) st by blast
    then show ?thesis using assms(1) by (auto simp: fs_ok_def not_less [symmetric])
  qed
  have put: "entry_put e ?f bs ?dir dir'"
    using d' arg(1) l' len lus assms(6) e(1) by (auto simp: entry_put_def bs_def mult.commute [of e])
  have mp: "mp' ! a = (if a \<in> unat ` set bs then 0xFF else ?mp ! a)" if "a < 512" for a using m' that st by simp
  have f0: "?f 0 \<noteq> 0" using assms(3) by (simp add: loaded_name_0)
  note ok = put_fs_ok [OF put assms(1) e(2) f0 dbs free l'(1) mp]
  define img2 where "img2 = put_image_sector 2 dir' (put_image_sector 1 mp' img1)"
  have sec: "image_sector img2 m = (if m = 2 then dir' else if m = 1 then mp' else image_sector img1 m)" for m
    using l' by (simp add: img2_def image_sector_put)
  have found: "findFile ?f (image_sector img2 2) = int e" using put_findFile(1) [OF put assms(2)] by (simp add: sec)
  have fs: "fs_ok (image_sector img2 2) (image_sector img2 1)" using ok(1) by (simp add: sec)
  let ?out = "fill (image_sector img2) bs 0 out"
  have es: "entry_sectors (image_sector img2 2) e = bs" using ok(2) [of e] e(1) by (simp add: sec)
  have ds: "disk_sector image_data (image_sector img2) = image_sector img2" by (rule ext) (rule image_sector_disk)
  have rd: "readFile image_int13 ?f out (image_sector img2) = Some (int n, ?out, image_sector img2)"
    using image.readFile_found [of "image_sector img2" _ ?f e out] fs found es lus
    unfolding ds by (simp add: bs_def)
  have "?out a = payload content a" if a: "a < n * 512" "a < length content + 2" for a
  proof -
    let ?k = "a div 512" let ?j = "a mod 512"
    have k: "?k < n" using a(1) by (simp add: less_mult_imp_div_less)
    have lb: "length bs = n" by (simp add: bs_def lus)
    have u: "us ! ?k \<in> set us" using k lus by simp
    have ub': "unat (bs ! ?k) = us ! ?k" using k lus ub [OF u] by (simp add: bs_def)
    have "us ! ?k \<noteq> 2" "us ! ?k \<noteq> 1" using free [of "bs ! ?k"] k lb ub' by auto
    then have "image_sector img2 (us ! ?k) = image_sector img1 (us ! ?k)" by (simp add: sec)
    moreover have "chunk ?out ?k = image_sector img2 (unat (bs ! ?k))"
      using fill_chunk [of bs "image_sector img2" 0 out ?k] k lb by (simp add: image_sector_def)
    ultimately have "chunk ?out ?k ! ?j = img1 (512 * (us ! ?k) + ?j)"
      by (simp add: ub' image_sector_def)
    then have "?out a = img1 (512 * (us ! ?k) + ?j)" by (simp add: chunk_def)
    also have "\<dots> = payload content (512 * ?k + ?j)" using bytes k a(2) by simp
    finally show ?thesis by simp
  qed
  moreover have "load_file arg content img = (None, img2)"
    using fe ll by (simp add: load_file_def img2_def)
  ultimately show ?thesis using fs rd by (intro exI [of _ img2] exI [of _ ?out]) simp
qed


theorem loaded_file_reads_witness:
  "\<exists>img' out'. load_file (\<lambda>i. if i < 2 then 65 else 0) (replicate 511 7)
       (\<lambda>a. if 512 \<le> a \<and> a < 515 then 0xFF else 0) = (None, img') \<and>
     readFile image_int13 (loaded_name (\<lambda>i. if i < 2 then 65 else 0)) (\<lambda>_. 1) (image_sector img') =
       Some (1, out', image_sector img') \<and> out' 511 = 0xFF"
proof -
  let ?img = "\<lambda>a::nat. if 512 \<le> a \<and> a < 515 then 0xFF else (0 :: byte)"
  have s: "image_sector ?img = disk_sector image_data blank_disk"
    by (rule ext) (auto simp: image_sector_def blank_sectors nth_Cons' intro!: nth_equalityI)
  let ?f = "loaded_name (\<lambda>i. if i < 2 then 65 else 0)"
  have "can_store image_data blank_disk ?f 1"
    by (intro blank_can_store) (simp_all add: loaded_name_0)
  note c = this [unfolded can_store_def]
  have n: "(1 :: nat) = length (replicate 511 (7 :: byte)) div 512 + 1" by simp
  have "\<exists>img' out'. load_file (\<lambda>i. if i < 2 then 65 else 0) (replicate 511 7) ?img = (None, img') \<and>
     fs_ok (image_sector img' 2) (image_sector img' 1) \<and>
     readFile image_int13 (loaded_name (\<lambda>i. if i < 2 then 65 else 0)) (\<lambda>_. 1) (image_sector img') =
       Some (int 1, out', image_sector img') \<and>
     (\<forall>a < 1 * 512. a < length (replicate 511 (7 :: byte)) + 2 \<longrightarrow> out' a = payload (replicate 511 7) a)"
    using c n by (intro loaded_file_reads) (simp_all only: s, simp_all)
  then show ?thesis by (auto simp: payload_def)
qed
end
