(* ===== verification/OS_Shell.thy ===== *)
theory OS_Shell
  imports OS_Kernel
begin

section \<open>The shell\<close>

text \<open>
  Models the loop of \<^verbatim>\<open>project6/shell.c\<close>, one pass per command line, and the stubs of
  \<^verbatim>\<open>userlib.c\<close> it calls the kernel through. The stubs and three cases of the kernel's
  dispatcher have no \<^verbatim>\<open>return\<close> statement although their value is used; the compiler leaves
  the value of the last call in AX, and that is what the model returns. The globals of the
  shell are the memory behind their pointers; \<open>name_addr\<close> is the address of \<^verbatim>\<open>name\<close>, which
  the shell passes to \<^verbatim>\<open>kill\<close>.
\<close>

record 'd shell =
  mach :: "'d machine"
  line :: "nat \<Rightarrow> byte"
  buffer :: "nat \<Rightarrow> byte"
  name :: "nat \<Rightarrow> byte"
  name2 :: "nat \<Rightarrow> byte"
  dirBuffer :: "byte list"

subsection \<open>System calls\<close>

definition chars :: "string \<Rightarrow> byte list" where
  "chars s = map of_char s"

definition u_printString :: "(nat \<Rightarrow> byte) \<Rightarrow> 'd shell \<Rightarrow> 'd shell option" where
  "u_printString p S =
     map_option (\<lambda>(_, out). S\<lparr>mach := (mach S)\<lparr>screen := out\<rparr>\<rparr>) (printString p (screen (mach S)))"

abbreviation say :: "byte list \<Rightarrow> 'd shell \<Rightarrow> 'd shell option" where
  "say s \<equiv> u_printString (lit s)"

abbreviation nl :: "byte list" where "nl \<equiv> [0x0A, 0x0D]"

definition u_readString :: "'d shell \<Rightarrow> 'd shell option" where
  "u_readString S =
     map_option (\<lambda>(_, buf, out, ks). S\<lparr>line := buf, mach := (mach S)\<lparr>screen := out, keys := ks\<rparr>\<rparr>)
       (readString (line S) (screen (mach S)) (keys (mach S)))"

definition u_readFile :: "'d int13 \<Rightarrow> 'd shell \<Rightarrow> (int \<times> 'd shell) option" where
  "u_readFile int13 S =
     map_option (\<lambda>(r, buf, d). (r, S\<lparr>buffer := buf, mach := (mach S)\<lparr>disk := d\<rparr>\<rparr>))
       (readFile int13 (name S) (buffer S) (disk (mach S)))"

definition u_writeFile :: "'d int13 \<Rightarrow> (nat \<Rightarrow> int) \<Rightarrow> int \<Rightarrow> 'd shell \<Rightarrow> (int \<times> 'd shell) option" where
  "u_writeFile int13 sectjunk n S =
     map_option (\<lambda>(r, d). (r, S\<lparr>mach := (mach S)\<lparr>disk := d\<rparr>\<rparr>))
       (writeFile int13 sectjunk (name2 S) (buffer S) n (disk (mach S)))"

definition u_deleteFile :: "'d int13 \<Rightarrow> 'd shell \<Rightarrow> (int \<times> 'd shell) option" where
  "u_deleteFile int13 S =
     map_option (\<lambda>(r, d). (r, S\<lparr>mach := (mach S)\<lparr>disk := d\<rparr>\<rparr>)) (deleteFile int13 (name S) (disk (mach S)))"

definition u_executeFile ::
    "'d int13 \<Rightarrow> (nat \<Rightarrow> byte) \<Rightarrow> (nat \<Rightarrow> byte) \<Rightarrow> 'd shell \<Rightarrow> (int \<times> 'd shell) option" where
  "u_executeFile int13 junk msg S =
     map_option (\<lambda>(r, M). (r, S\<lparr>mach := M\<rparr>)) (executeProgram int13 junk msg (name S) (mach S))"

definition u_readSector :: "'d int13 \<Rightarrow> int \<Rightarrow> 'd shell \<Rightarrow> 'd shell option" where
  "u_readSector int13 n S =
     map_option (\<lambda>(b, d). S\<lparr>dirBuffer := b, mach := (mach S)\<lparr>disk := d\<rparr>\<rparr>)
       (readSector int13 (dirBuffer S) n (disk (mach S)))"

definition u_showProcesses :: "'d shell \<Rightarrow> 'd shell option" where
  "u_showProcesses S =
     map_option (\<lambda>out. S\<lparr>mach := (mach S)\<lparr>screen := out\<rparr>\<rparr>) (showProcesses (procs_of (mach S)) (screen (mach S)))"

definition u_kill :: "int \<Rightarrow> 'd shell \<Rightarrow> int \<times> 'd shell" where
  "u_kill n S = (let (r, p) = kill n (procs_of (mach S)) in (r, S\<lparr>mach := (mach S)\<lparr>procs_of := p\<rparr>\<rparr>))"

subsection \<open>Commands\<close>

text \<open>Six characters of the command line from position \<open>k\<close>.\<close>

definition word_at :: "nat \<Rightarrow> (nat \<Rightarrow> byte) \<Rightarrow> (nat \<Rightarrow> byte) \<Rightarrow> nat \<Rightarrow> byte" where
  "word_at k l old i = (if i < 6 then l (i + k) else old i)"

definition get_name :: "nat \<Rightarrow> 'd shell \<Rightarrow> 'd shell" where
  "get_name k S = S\<lparr>name := word_at k (line S) (name S)\<rparr>"

definition shell_type :: "'d int13 \<Rightarrow> 'd shell \<Rightarrow> 'd shell option" where
  "shell_type int13 S0 =
     do { (r, S1) \<leftarrow> u_readFile int13 (get_name 5 S0);
          if r = -1 then say (nl @ chars ''file not found'') S1
          else do { S2 \<leftarrow> say nl S1;
                    (_, S3) \<leftarrow> u_readFile int13 S2;
                    u_printString (buffer S3) S3 } }"

definition shell_execute ::
    "'d int13 \<Rightarrow> (nat \<Rightarrow> byte) \<Rightarrow> (nat \<Rightarrow> byte) \<Rightarrow> 'd shell \<Rightarrow> 'd shell option" where
  "shell_execute int13 junk msg S0 =
     do { S1 \<leftarrow> say nl (get_name 8 S0);
          (r, S2) \<leftarrow> u_executeFile int13 junk msg S1;
          if r = -1 then say (chars ''program not found'') S2 else Some S2 }"

definition shell_delete :: "'d int13 \<Rightarrow> 'd shell \<Rightarrow> 'd shell option" where
  "shell_delete int13 S0 =
     do { S1 \<leftarrow> say [0x0D] (get_name 7 S0);
          (r, S2) \<leftarrow> u_deleteFile int13 S1;
          if r = -1 then say (0x0A # chars ''file not found'') S2 else Some S2 }"

definition shell_copy :: "'d int13 \<Rightarrow> (nat \<Rightarrow> int) \<Rightarrow> 'd shell \<Rightarrow> 'd shell option" where
  "shell_copy int13 sectjunk S0 =
     do { let S1 = get_name 5 S0;
          S3 \<leftarrow> say nl (S1\<lparr>name2 := word_at 12 (line S1) (name2 S1)\<rparr>);
          (numSectors, S4) \<leftarrow> u_readFile int13 S3;
          S5 \<leftarrow> (if numSectors = -1 then say (chars ''program not found'') S4 else Some S4);
          (returner, S6) \<leftarrow> u_writeFile int13 sectjunk numSectors S5;
          if returner = -2 then say (chars ''Disk is full'') S6
          else if returner = -1 then say (chars ''Disk Directory is full'') S6
          else Some S6 }"

text \<open>The loop over the 16 entries: \<^verbatim>\<open>name[6] = 0\<close> overwrites the first sector number in the
  shell's copy of the directory to end the name.\<close>

fun dir_loop :: "nat \<Rightarrow> nat \<Rightarrow> 'd shell \<Rightarrow> 'd shell option" where
  "dir_loop 0 j S = Some S"
| "dir_loop (Suc n) j S =
     (if dirBuffer S ! (32 * j) \<noteq> 0 then
        do { let S1 = S\<lparr>dirBuffer := (dirBuffer S)[32 * j + 6 := 0]\<rparr>;
             S2 \<leftarrow> u_printString (\<lambda>i. lit (dirBuffer S1) (32 * j + i)) S1;
             S3 \<leftarrow> say nl S2;
             dir_loop n (Suc j) S3 }
      else dir_loop n (Suc j) S)"

definition shell_dir :: "'d int13 \<Rightarrow> 'd shell \<Rightarrow> 'd shell option" where
  "shell_dir int13 S0 =
     do { S1 \<leftarrow> say nl S0;
          S2 \<leftarrow> u_readSector int13 2 S1;
          dir_loop 16 0 S2 }"

definition shell_ps :: "'d shell \<Rightarrow> 'd shell option" where
  "shell_ps S0 = do { S1 \<leftarrow> say nl S0; S2 \<leftarrow> u_showProcesses S1; say nl S2 }"

definition shell_kill :: "int \<Rightarrow> 'd shell \<Rightarrow> 'd shell option" where
  "shell_kill name_addr S0 =
     (let (returner, S1) = u_kill name_addr (get_name 5 S0) in
      if returner = -1 then say (nl @ chars ''Program was not killed'') S1
      else say (nl @ chars ''Program was killed'') S1)"

text \<open>The help texts; 0x27 is the quote character.\<close>

definition quoted :: "string \<Rightarrow> byte list" where
  "quoted s = [0x27] @ chars s @ [0x27]"

definition help_text :: "byte list list" where
  "help_text =
     [[0x0A] @ nl @ chars ''To see the current files on disk, enter '' @ quoted ''dir'' @ chars '','' @ [0x0D],
      nl @ chars ''To view the contents of the file, enter '' @ quoted ''type'' @ [0x0D],
      nl @ chars ''To execute a program, enter '' @ quoted ''execute <filename>'' @ [0x0D],
      nl @ chars ''One such file is a text editor. To use the text editor, enter '' @ quoted ''execute texted'' @ [0x0D],
      nl @ chars ''To copy a file'' @ [0x27] @ chars ''s contents to a new file, enter '' @
        quoted ''copy <filename> <newfilename>'' @ [0x0D],
      nl @ chars ''To delete a file, enter '' @ quoted ''delete <filename>'' @ [0x0D],
      nl @ chars ''To show the currently running processes, enter '' @ quoted ''ps'' @ [0x0D],
      nl @ chars ''To stop a currently running process, enter '' @ quoted ''kill <filename>'' @ [0x0D],
      nl]"

fun say_all :: "byte list list \<Rightarrow> 'd shell \<Rightarrow> 'd shell option" where
  "say_all [] S = Some S"
| "say_all (t # ts) S = do { S' \<leftarrow> say t S; say_all ts S' }"

definition is_command :: "string \<Rightarrow> 'd shell \<Rightarrow> bool" where
  "is_command c S \<longleftrightarrow> stringMatch (map (line S) [0..<40]) (chars c) (length c) \<noteq> 0"

definition shell_command ::
    "'d int13 \<Rightarrow> (nat \<Rightarrow> int) \<Rightarrow> (nat \<Rightarrow> byte) \<Rightarrow> (nat \<Rightarrow> byte) \<Rightarrow> int \<Rightarrow> 'd shell \<Rightarrow> 'd shell option" where
  "shell_command int13 sectjunk junk msg name_addr S =
     (if is_command ''type'' S then shell_type int13 S
      else if is_command ''execute'' S then shell_execute int13 junk msg S
      else if is_command ''delete'' S then shell_delete int13 S
      else if is_command ''copy'' S then shell_copy int13 sectjunk S
      else if is_command ''dir'' S then shell_dir int13 S
      else if is_command ''ps'' S then shell_ps S
      else if is_command ''kill'' S then shell_kill name_addr S
      else if is_command ''help'' S then say_all help_text S
      else say (nl @ chars ''Unrecognized Command'') S)"

text \<open>One pass: \<^const>\<open>None\<close> when the shell waits for a key that never comes, or when a call does
  not return.\<close>

definition shell_pass ::
    "'d int13 \<Rightarrow> (nat \<Rightarrow> int) \<Rightarrow> (nat \<Rightarrow> byte) \<Rightarrow> (nat \<Rightarrow> byte) \<Rightarrow> int \<Rightarrow> 'd shell \<Rightarrow> 'd shell option" where
  "shell_pass int13 sectjunk junk msg name_addr S0 =
     do { S1 \<leftarrow> say (nl @ chars ''Shell>'') S0;
          S2 \<leftarrow> u_readString S1;
          shell_command int13 sectjunk junk msg name_addr S2 }"

subsection \<open>The text editor\<close>

text \<open>\<^verbatim>\<open>texted.c\<close> after the file name: lines are read into \<open>file + tracker\<close>, where \<open>tracker\<close>
  is the length of the last line only, until the byte before \<open>tracker\<close> is Ctrl-D. After an
  empty line that byte is \<^verbatim>\<open>file[-1]\<close>, outside the array: \<^const>\<open>None\<close>. \<open>fuel\<close> bounds the
  number of lines.\<close>

fun edit_loop :: "nat \<Rightarrow> int \<Rightarrow> (nat \<Rightarrow> byte) \<Rightarrow> byte list \<Rightarrow> byte list
    \<Rightarrow> (int \<times> (nat \<Rightarrow> byte) \<times> byte list \<times> byte list) option" where
  "edit_loop 0 tracker file out ks = None"
| "edit_loop (Suc fuel) tracker file out ks =
     (if tracker < 1 then None
      else if file (nat (tracker - 1)) = 0x04 then Some (tracker, file, out, ks)
      else do { (n, buf, out', ks') \<leftarrow> readString (\<lambda>i. file (nat tracker + i)) out ks;
                edit_loop fuel n (\<lambda>i. if i < nat tracker then file i else buf (i - nat tracker)) out' ks' })"

definition texted :: "'d int13 \<Rightarrow> (nat \<Rightarrow> int) \<Rightarrow> nat \<Rightarrow> (nat \<Rightarrow> byte) \<Rightarrow> (nat \<Rightarrow> byte) \<Rightarrow> 'd machine \<Rightarrow> 'd machine option" where
  "texted int13 sectjunk fuel filename file M =
     do { (_, out1) \<leftarrow> printString (lit (chars ''Enter filename into which the entered text will be stored: '')) (screen M);
          (_, filename', out2, ks2) \<leftarrow> readString filename out1 (keys M);
          (_, out3) \<leftarrow> printString (lit nl) out2;
          (_, out4) \<leftarrow> printString (lit (chars ''Start typing. Press CTRL+D to break text and Return to save & exit.'' @ nl)) out3;
          (n, file1, out5, ks5) \<leftarrow> readString file out4 ks2;
          (tracker, file2, out6, ks6) \<leftarrow> edit_loop fuel n file1 out5 ks5;
          (_, d) \<leftarrow> writeFile int13 sectjunk filename' (file2(nat (tracker - 1) := 0)) (cdiv (tracker + 511) 512) (disk M);
          Some (M\<lparr>procs_of := terminate (procs_of M), screen := out6, keys := ks6, disk := d\<rparr>) }"

section \<open>What the commands do\<close>

lemma is_command_iff:
  "length c \<le> 40 \<Longrightarrow> is_command c S \<longleftrightarrow> (\<forall>i<length c. line S i = of_char (c ! i))"
proof -
  assume c: "length c \<le> 40"
  have "map (line S) [0..<40] ! i = line S i" if "i < length c" for i using that c by (simp del: upt_rec_numeral)
  then show ?thesis
    by (auto simp: is_command_def stringMatch_def chars_def find_upt_None find_upt_Some simp del: upt_rec_numeral
        split: option.splits)
qed

lemma say_eq:
  "0 \<notin> set s \<Longrightarrow> length s \<le> 32767 \<Longrightarrow>
     say s S = Some (S\<lparr>mach := (mach S)\<lparr>screen := screen (mach S) @ s\<rparr>\<rparr>)"
  by (simp add: u_printString_def printString_lit)

lemma printString_upto:
  assumes "str k = 0" and "k \<le> 65535"
  shows "\<exists>r. printString str out = Some (r, out @ takeWhile (\<lambda>x. x \<noteq> 0) (map str [0..<k]))"
proof -
  let ?t = "takeWhile (\<lambda>x. x \<noteq> 0) (map str [0..<k])" let ?n = "length ?t"
  have n: "?n \<le> k" using length_takeWhile_le [of "\<lambda>x. x \<noteq> 0" "map str [0..<k]"] by simp
  have z: "str ?n = 0"
  proof (cases "?n = k")
    case False
    then have "?n < length (map str [0..<k])" using n by simp
    from nth_length_takeWhile [OF this] show ?thesis using False n by simp
  qed (simp only: assms(1))
  have nz: "str j \<noteq> 0" if "j < ?n" for j
    using takeWhile_nth [OF that] nth_mem [OF that] that n by (auto dest!: set_takeWhileD)
  have "map str [0..<?n] = ?t"
  proof (rule nth_equalityI)
    fix i assume "i < length (map str [0..<?n])"
    then have i: "i < ?n" by simp
    then show "map str [0..<?n] ! i = ?t ! i" using takeWhile_nth [OF i] n by simp
  qed simp
  then show ?thesis
    using print_loop_stop [of 0 ?n str out] z nz n assms(2) by (simp add: printString_def)
qed

lemma fill_same:
  "fill sec ss 0 out = (\<lambda>a. if a < length ss * 512 then fill sec ss 0 buf a else out a)"
  if "\<And>b. b \<in> set ss \<Longrightarrow> length (sec (unat b)) = 512" for sec :: "nat \<Rightarrow> byte list"
proof (rule ext)
  fix a
  have "chunk (fill sec ss 0 out) j = chunk (fill sec ss 0 buf) j" if "j < length ss" for j
    using fill_chunk [of ss sec 0 _ j] that \<open>\<And>b. b \<in> set ss \<Longrightarrow> length (sec (unat b)) = 512\<close> by simp
  from chunks_bytes [of "length ss", OF this]
  show "fill sec ss 0 out a = (if a < length ss * 512 then fill sec ss 0 buf a else out a)"
    using fill_outside [of a 0 ss sec out] by auto
qed

definition copy_source :: "'d shell \<Rightarrow> nat \<Rightarrow> byte" where
  "copy_source S = word_at 5 (line S) (name S)"

definition copy_target :: "'d shell \<Rightarrow> nat \<Rightarrow> byte" where
  "copy_target S = word_at 12 (line S) (name2 S)"

lemma command_copy:
  "is_command ''copy'' S \<Longrightarrow> shell_command int13 sj junk msg na S = shell_copy int13 sj S"
  by (simp add: shell_command_def is_command_iff All_less_Suc of_char_def)

lemma command_dir:
  "is_command ''dir'' S \<Longrightarrow> shell_command int13 sj junk msg na S = shell_dir int13 S"
  by (simp add: shell_command_def is_command_iff All_less_Suc of_char_def)

lemma no_zero_nl: "0 \<notin> set (nl @ s) \<longleftrightarrow> 0 \<notin> set s" by simp

text \<open>The state of the copy command up to the call of \<^verbatim>\<open>writeFile\<close>.\<close>

lemma shell_copy_eq:
  assumes "readFile int13 (copy_source S) (buffer S) (disk (mach S)) = Some (n, buf, d)"
    and "writeFile int13 sj (copy_target S) buf n d = Some (r, d')" and "r \<ge> 0"
  shows "\<exists>S'. shell_copy int13 sj S = Some S' \<and> disk (mach S') = d' \<and>
    screen (mach S') = screen (mach S) @ nl @ (if n = -1 then chars ''program not found'' else [])"
  using assms
  by (cases "n = -1") (simp_all add: shell_copy_def get_name_def say_eq u_readFile_def u_writeFile_def copy_source_def
      copy_target_def chars_def of_char_def)

text \<open>C36. Copying a file: when the source exists, the target name is new and there is room, the
  shell's copy command prints a new line and no message, and afterwards the target reads back
  exactly as the source did, while every other name reads back what it read before.\<close>

theorem shell_copy_copies:
  assumes "floppy_bios int13 td" and "is_command ''copy'' S"
    and "fs_ok (directory td (disk (mach S))) m"
    and "findFile (copy_source S) (directory td (disk (mach S))) = int e"
    and "can_store td (disk (mach S)) (copy_target S) (length (entry_sectors (directory td (disk (mach S))) e))"
  shows "\<exists>S'. shell_command int13 sj junk msg na S = Some S' \<and> screen (mach S') = screen (mach S) @ nl \<and>
     (\<forall>out. file_view int13 (copy_target S) out (disk (mach S')) = file_view int13 (copy_source S) out (disk (mach S))) \<and>
     (\<forall>g out. g 0 \<noteq> 0 \<and> (\<exists>j<6. g j \<noteq> copy_target S j) \<longrightarrow>
        file_view int13 g out (disk (mach S')) = file_view int13 g out (disk (mach S)))"
proof -
  let ?d = "disk (mach S)" let ?ss = "entry_sectors (directory td ?d) e" let ?n = "length ?ss"
  let ?buf = "fill (disk_sector td ?d) ?ss 0 (buffer S)"
  note rf = floppy_bios.readFile_found [OF assms(1,3,4)]
  obtain d' where w: "writeFile int13 sj (copy_target S) ?buf (int ?n) ?d = Some (int ?n, d')"
    and k: "\<forall>g out. g 0 \<noteq> 0 \<and> (\<exists>j<6. g j \<noteq> copy_target S j) \<longrightarrow> file_view int13 g out d' = file_view int13 g out ?d"
    using stored_keeps [OF assms(1,5)] by blast
  obtain S' where S': "shell_copy int13 sj S = Some S'" "disk (mach S') = d'" "screen (mach S') = screen (mach S) @ nl"
    using shell_copy_eq [OF rf w] by auto
  have "file_view int13 (copy_target S) out d' = file_view int13 (copy_source S) out ?d" for out
  proof -
    obtain out' where "readFile int13 (copy_target S) out d' = Some (int ?n, out', d')"
      "\<forall>a. out' a = (if a < ?n * 512 then ?buf a else out a)"
      using stored_reads [OF assms(1,5), of sj ?buf out] w by auto
    moreover have "fill (disk_sector td ?d) ?ss 0 out = (\<lambda>a. if a < ?n * 512 then ?buf a else out a)"
      by (rule fill_same) (rule floppy_bios.sector_of_byte_length [OF assms(1)])
    ultimately have "readFile int13 (copy_target S) out d' = Some (int ?n, fill (disk_sector td ?d) ?ss 0 out, d')"
      by (auto simp: fun_eq_iff)
    then show ?thesis by (simp add: file_view_def rf)
  qed
  then show ?thesis using S' k by (auto simp: command_copy [OF assms(2)])
qed

text \<open>Copying a missing file: the shell prints \<open>program not found\<close> and still calls
  \<^verbatim>\<open>writeFile\<close> with the sector count \<open>-1\<close>, so the target name, which was not in the directory,
  is now there as an empty file.\<close>

theorem shell_copy_missing_creates:
  assumes "floppy_bios int13 td" and "is_command ''copy'' S"
    and "findFile (copy_source S) (directory td (disk (mach S))) = -1"
    and "can_store td (disk (mach S)) (copy_target S) 0"
  shows "\<exists>S'. shell_command int13 sj junk msg na S = Some S' \<and>
     screen (mach S') = screen (mach S) @ nl @ chars ''program not found'' \<and>
     (\<forall>out. file_view int13 (copy_target S) out (disk (mach S)) = Some (-1, out) \<and>
            file_view int13 (copy_target S) out (disk (mach S')) = Some (0, out))"
proof -
  let ?d = "disk (mach S)"
  note missing = floppy_bios.readFile_missing [OF assms(1)]
  obtain d' where w: "writeFile int13 sj (copy_target S) (buffer S) (int 0) ?d = Some (int 0, d')"
    using stored_keeps [OF assms(1,4)] by blast
  then have "writeFile int13 sj (copy_target S) (buffer S) (-1) ?d = Some (0, d')"
    by (simp add: writeFile_negative)
  from shell_copy_eq [OF missing [OF assms(3)] this]
  obtain S' where S': "shell_copy int13 sj S = Some S'" "disk (mach S') = d'"
    "screen (mach S') = screen (mach S) @ nl @ chars ''program not found''" by auto
  have "file_view int13 (copy_target S) out d' = Some (0, out)" for out
    using stored_reads [OF assms(1,4), of sj "buffer S" out] w by (auto simp: file_view_def fun_eq_iff)
  moreover have "file_view int13 (copy_target S) out ?d = Some (-1, out)" for out
    using missing [of "copy_target S"] assms(4) by (simp add: file_view_def can_store_def)
  ultimately show ?thesis using S' by (auto simp: command_copy [OF assms(2)])
qed

text \<open>The directory listing: the names of the entries in use, in directory order, each on its line.\<close>

definition entry_name :: "byte list \<Rightarrow> nat \<Rightarrow> byte list" where
  "entry_name dir i = takeWhile (\<lambda>x. x \<noteq> 0) (map (\<lambda>j. dir ! (32 * i + j)) [0..<6])"

lemma dir_loop_prints:
  assumes "length (dirBuffer S) = 512" and "j + n = 16" and "\<And>a. 32 * j \<le> a \<Longrightarrow> dirBuffer S ! a = dir ! a"
  shows "\<exists>S'. dir_loop n j S = Some S' \<and> disk (mach S') = disk (mach S) \<and>
    screen (mach S') = screen (mach S) @
      concat (map (\<lambda>i. entry_name dir i @ nl) (filter (\<lambda>i. dir ! (32 * i) \<noteq> 0) [j..<16]))"
  using assms
proof (induction n arbitrary: j S)
  case (Suc n)
  then have j: "j < 16" "[j..<16] = j # [Suc j..<16]" by (simp_all add: upt_conv_Cons)
  have d: "dirBuffer S ! (32 * j + i) = dir ! (32 * j + i)" for i using Suc.prems(3) by simp
  show ?case
  proof (cases "dir ! (32 * j) = 0")
    case True
    then show ?thesis using Suc.IH [of S "Suc j"] Suc.prems j d [of 0] by (simp del: upt_rec_numeral)
  next
    case False
    let ?b = "(dirBuffer S)[32 * j + 6 := 0]"
    let ?str = "\<lambda>i. lit ?b (32 * j + i)"
    have z: "?str 6 = 0" using j Suc.prems(1) by (simp add: lit_def)
    have m: "map ?str [0..<6] = map (\<lambda>i. dir ! (32 * j + i)) [0..<6]"
      using j Suc.prems(1) d by (intro map_cong) (auto simp: lit_def)
    obtain r where "printString ?str (screen (mach S)) = Some (r, screen (mach S) @ entry_name dir j)"
      unfolding entry_name_def m [symmetric] using printString_upto [of ?str 6 "screen (mach S)"] z by auto
    then show ?thesis
      using Suc.IH [of "S\<lparr>dirBuffer := ?b, mach := (mach S)\<lparr>screen := screen (mach S) @ entry_name dir j @ nl\<rparr>\<rparr>" "Suc j"]
        False Suc.prems j d [of 0]
      by (simp add: u_printString_def printString_lit del: upt_rec_numeral)
  qed
qed auto

text \<open>The directory listing: the shell's \<open>dir\<close> command prints a new line, then the name of
  every entry in use, in directory order and each with a line end, although it overwrites
  a byte of its copy of the directory for every name; the disk is unchanged.\<close>

theorem shell_dir_lists:
  assumes "floppy_bios int13 td" and "is_command ''dir'' S" and "length (dirBuffer S) = 512"
  shows "\<exists>S'. shell_command int13 sj junk msg na S = Some S' \<and> disk (mach S') = disk (mach S) \<and>
     screen (mach S') = screen (mach S) @ nl @
       (let dir = directory td (disk (mach S)) in
        concat (map (\<lambda>i. entry_name dir i @ nl) (filter (\<lambda>i. dir ! (32 * i) \<noteq> 0) [0..<16])))"
proof -
  let ?d = "disk (mach S)"
  have rd: "readSector int13 (dirBuffer S) 2 ?d = Some (directory td ?d, ?d)"
    using floppy_bios.rd [OF assms(1), of 2 "dirBuffer S" ?d] assms(3) by simp
  have len: "length (directory td ?d) = 512" by (rule floppy_bios.sector_length [OF assms(1)]) simp
  show ?thesis
    using dir_loop_prints [of "S\<lparr>dirBuffer := directory td ?d, mach := (mach S)\<lparr>screen := screen (mach S) @ nl\<rparr>\<rparr>" 0 16
        "directory td ?d"] len
    by (simp add: command_dir [OF assms(2)] shell_dir_def say_eq u_readSector_def rd Let_def del: upt_rec_numeral)
qed

text \<open>A shell with the command line \<open>copy AAAAAA BBBBBB\<close> or \<open>dir\<close>.\<close>

definition demo_shell :: "string \<Rightarrow> (nat \<Rightarrow> byte list) \<Rightarrow> (nat \<Rightarrow> byte list) shell" where
  "demo_shell c d =
     \<lparr>mach = demo_machine\<lparr>disk := d\<rparr>,
      line = (\<lambda>i. if i < length c then of_char (c ! i) else if i < 12 then 65 else 66),
      buffer = (\<lambda>_. 0), name = (\<lambda>_. 65), name2 = (\<lambda>_. 66), dirBuffer = replicate 512 0\<rparr>"

lemma demo_shell:
  "is_command ''copy'' (demo_shell ''copy'' d)" "is_command ''dir'' (demo_shell ''dir'' d)"
  "disk (mach (demo_shell c d)) = d" "length (dirBuffer (demo_shell c d)) = 512"
  "copy_source (demo_shell ''copy'' d) = (\<lambda>_. 65)" "copy_target (demo_shell ''copy'' d) = (\<lambda>_. 66)"
  by (auto simp: is_command_iff demo_shell_def copy_source_def copy_target_def word_at_def fun_eq_iff)

lemma file_can_store: "can_store image_data file_disk (\<lambda>_. 66) 1"
proof -
  have "findFile (\<lambda>_. 66) (directory image_data file_disk) = -1"
    unfolding findFile_none_iff
    by (auto simp: name_matches_iff file_sectors nth_append nth_Cons' intro!: exI [of _ 0])
  moreover have "list_ex (\<lambda>i. directory image_data file_disk ! (32 * i) = 0) [0..<16]"
    unfolding list_ex_upt by (intro exI [of _ 1]) (simp add: file_sectors nth_append)
  moreover have "{4} \<subseteq> {j. j < 256 \<and> disk_map image_data file_disk ! ([0..<256] ! j) = 0}"
    by (auto simp: file_sectors nth_append simp del: upt_rec_numeral)
  from card_mono [OF _ this] have "1 \<le> free_count (disk_map image_data file_disk)"
    by (simp add: free_count_def length_filter_conv_card del: upt_rec_numeral)
  ultimately show ?thesis using file_disk_ok by (simp add: can_store_def)
qed

theorem shell_copy_copies_witness:
  "\<exists>S'. shell_command image_int13 (\<lambda>_. 0) (\<lambda>_. 0) (\<lambda>_. 0) 0 (demo_shell ''copy'' file_disk) = Some S' \<and>
     (\<forall>out. file_view image_int13 (\<lambda>_. 66) out (disk (mach S')) = file_view image_int13 (\<lambda>_. 65) out file_disk)"
proof -
  have f: "findFile (\<lambda>_. 65) (directory image_data file_disk) = int 0"
    unfolding findFile_some_iff by (simp add: file_disk_names)
  have "entry_sectors (directory image_data file_disk) 0 = [3]"
    using put_sectors(1) [OF file_disk_put] empty_entry_area(1) [OF blank_fs_ok, of 0] by (simp add: blank_sectors)
  then show ?thesis
    using shell_copy_copies [OF image.floppy_bios_axioms demo_shell(1), of file_disk "disk_map image_data file_disk" 0
        "\<lambda>_. 0" "\<lambda>_. 0" "\<lambda>_. 0" 0] f file_can_store file_disk_ok by (auto simp: demo_shell)
qed

theorem shell_copy_missing_creates_witness:
  "\<exists>S'. shell_command image_int13 (\<lambda>_. 0) (\<lambda>_. 0) (\<lambda>_. 0) 0 (demo_shell ''copy'' blank_disk) = Some S' \<and>
     (\<forall>out. file_view image_int13 (\<lambda>_. 66) out (disk (mach S')) = Some (0, out))"
proof -
  have "findFile (\<lambda>_. 65) (directory image_data blank_disk) = -1" "can_store image_data blank_disk (\<lambda>_. 66) 0"
    using blank_can_store [of "\<lambda>_. 65" 1] blank_can_store [of "\<lambda>_. 66" 0] by (simp_all add: can_store_def)
  then show ?thesis
    using shell_copy_missing_creates [OF image.floppy_bios_axioms demo_shell(1), of blank_disk]
    by (fastforce simp: demo_shell)
qed

theorem shell_dir_lists_witness:
  "\<exists>S'. shell_command image_int13 (\<lambda>_. 0) (\<lambda>_. 0) (\<lambda>_. 0) 0 (demo_shell ''dir'' file_disk) = Some S' \<and>
     disk (mach S') = file_disk"
  using shell_dir_lists [OF image.floppy_bios_axioms demo_shell(2), of file_disk "\<lambda>_. 0"  "\<lambda>_. 0" "\<lambda>_. 0" 0]
  by (auto simp: demo_shell)

end
