(* ===== verification/Bochs_PIC.thy ===== *)
theory Bochs_PIC
  imports OS_Prelude
begin

section \<open>The interrupt controllers of the emulated PC\<close>

text \<open>
  Models \<^verbatim>\<open>bochs-2.4.2/iodev/pic.cc\<close> and \<^verbatim>\<open>pic.h\<close>: the two cascaded 8259A
  controllers the operating system's timer and disk interrupts go through. The CPU's INTR
  line (\<^verbatim>\<open>BX_SET_INTR\<close>) is the field \<open>intr\<close>. \<^verbatim>\<open>BX_PANIC\<close> records a message and goes on,
  as the emulator does when told to continue. Flags held in a \<^verbatim>\<open>Bit8u\<close> that only take the
  values 0 and 1 are booleans; IRQ numbers and priorities are natural numbers. Forwarding to
  an I/O APIC (a build option) and the state tree for saving are left out.
\<close>

unbundle bit_operations_syntax

subsection \<open>State\<close>

record pic =
  single_PIC :: bool
  interrupt_offset :: byte
  connect :: byte
  sfnm :: bool
  buffered_mode :: bool
  master_slave :: bool
  auto_eoi :: bool
  imr :: byte
  isr :: byte
  irr :: byte
  read_reg_select :: bool
  irq :: nat
  lowest_priority :: nat
  INTpin :: bool
  IRQ_in :: byte
  in_init :: bool
  requires_4 :: bool
  byte_expected :: nat
  special_mask :: bool
  polled :: bool
  rotate_on_autoeoi :: bool
  edge_level :: byte

record pics =
  master :: pic
  slave :: pic
  intr :: bool
  panics :: "string list"

definition pic_panic :: "string \<Rightarrow> pics \<Rightarrow> pics" where
  "pic_panic msg s = s\<lparr>panics := panics s @ [msg]\<rparr>"

definition irq_bit :: "nat \<Rightarrow> byte" where
  "irq_bit i = push_bit i 1"

text \<open>The state after \<^verbatim>\<open>init\<close>; the fields of the slave that differ.\<close>

definition pic_init :: "bool \<Rightarrow> byte \<Rightarrow> byte \<Rightarrow> pic" where
  "pic_init ms off con =
     \<lparr>single_PIC = False, interrupt_offset = off, connect = con, sfnm = False, buffered_mode = False,
      master_slave = ms, auto_eoi = False, imr = 0xFF, isr = 0, irr = 0, read_reg_select = False,
      irq = 0, lowest_priority = 7, INTpin = False, IRQ_in = 0, in_init = False, requires_4 = False,
      byte_expected = 0, special_mask = False, polled = False, rotate_on_autoeoi = False, edge_level = 0\<rparr>"

definition pic_c_init :: "pics \<Rightarrow> pics" where
  "pic_c_init s = s\<lparr>master := pic_init True 0x08 0x04, slave := pic_init False 0x70 0x02\<rparr>"

subsection \<open>Priorities\<close>

definition next_irq :: "nat \<Rightarrow> nat" where
  "next_irq i = (if i + 1 > 7 then 0 else i + 1)"

definition highest_priority :: "pic \<Rightarrow> nat" where
  "highest_priority p = next_irq (lowest_priority p)"

text \<open>\<^verbatim>\<open>do { if (P irq) ...; irq++ (wrapping at 7) } while (irq != stop)\<close>; eight rounds are
  enough for any IRQ numbers.\<close>

fun scan :: "nat \<Rightarrow> (nat \<Rightarrow> bool) \<Rightarrow> nat \<Rightarrow> nat \<Rightarrow> nat option" where
  "scan 0 P stop i = None"
| "scan (Suc n) P stop i =
     (if P i then Some i
      else (let j = next_irq i in if j = stop then None else scan n P stop j))"

definition clear_highest_interrupt :: "pic \<Rightarrow> pic" where
  "clear_highest_interrupt p =
     (let h = highest_priority p in
      case scan 8 (bit (isr p)) h h of
        Some i \<Rightarrow> p\<lparr>isr := isr p AND NOT (irq_bit i)\<rparr>
      | None \<Rightarrow> p)"

text \<open>The common part of \<^verbatim>\<open>service_master_pic\<close> and \<^verbatim>\<open>service_slave_pic\<close>: the IRQ to
  signal.\<close>

definition max_irq :: "pic \<Rightarrow> nat option" where
  "max_irq p =
     (let h = highest_priority p in
      if special_mask p then Some h
      else if isr p \<noteq> 0 then
        (case scan 8 (bit (isr p)) h h of
           Some m \<Rightarrow> if m = h then None else Some m
         | None \<Rightarrow> None)
      else Some h)"

definition service_pick :: "pic \<Rightarrow> nat option" where
  "service_pick p =
     (if INTpin p then None
      else case max_irq p of
        None \<Rightarrow> None
      | Some m \<Rightarrow>
          (let unmasked_requests = irr p AND NOT (imr p); h = highest_priority p in
           if unmasked_requests \<noteq> 0 then
             scan 8 (\<lambda>i. \<not> (special_mask p \<and> bit (isr p) i) \<and> bit unmasked_requests i) m h
           else None))"

definition service_master_pic :: "pics \<Rightarrow> pics" where
  "service_master_pic s =
     (case service_pick (master s) of
        Some i \<Rightarrow> s\<lparr>master := (master s)\<lparr>INTpin := True, irq := i\<rparr>, intr := True\<rparr>
      | None \<Rightarrow> s)"

subsection \<open>Request lines\<close>

text \<open>\<^verbatim>\<open>raise_irq\<close> for the lines of the master, which is also how the slave requests IRQ 2.\<close>

definition raise_master :: "nat \<Rightarrow> pics \<Rightarrow> pics" where
  "raise_master n s =
     (let mask = irq_bit n; m = master s in
      if \<not> (IRQ_in m AND mask \<noteq> 0) then
        service_master_pic (s\<lparr>master := m\<lparr>IRQ_in := IRQ_in m OR mask, irr := irr m OR mask\<rparr>\<rparr>)
      else s)"

definition service_slave_pic :: "pics \<Rightarrow> pics" where
  "service_slave_pic s =
     (case service_pick (slave s) of
        Some i \<Rightarrow> raise_master 2 (s\<lparr>slave := (slave s)\<lparr>INTpin := True, irq := i\<rparr>\<rparr>)
      | None \<Rightarrow> s)"

definition raise_irq :: "nat \<Rightarrow> pics \<Rightarrow> pics" where
  "raise_irq irq_no s =
     (if irq_no \<le> 7 then raise_master irq_no s
      else
        (let mask = irq_bit (irq_no mod 8); p = slave s in
         if irq_no \<le> 15 \<and> \<not> (IRQ_in p AND mask \<noteq> 0) then
           service_slave_pic (s\<lparr>slave := p\<lparr>IRQ_in := IRQ_in p OR mask, irr := irr p OR mask\<rparr>\<rparr>)
         else s))"

definition lower_irq :: "nat \<Rightarrow> pics \<Rightarrow> pics" where
  "lower_irq irq_no s =
     (let mask = irq_bit (irq_no mod 8); m = master s; p = slave s in
      if irq_no \<le> 7 \<and> IRQ_in m AND mask \<noteq> 0 then
        s\<lparr>master := m\<lparr>IRQ_in := IRQ_in m AND NOT mask, irr := irr m AND NOT mask\<rparr>\<rparr>
      else if irq_no > 7 \<and> irq_no \<le> 15 \<and> IRQ_in p AND mask \<noteq> 0 then
        s\<lparr>slave := p\<lparr>IRQ_in := IRQ_in p AND NOT mask, irr := irr p AND NOT mask\<rparr>\<rparr>
      else s)"

definition set_mode :: "bool \<Rightarrow> byte \<Rightarrow> pics \<Rightarrow> pics" where
  "set_mode ma_sl mode s =
     (if ma_sl then s\<lparr>master := (master s)\<lparr>edge_level := mode\<rparr>\<rparr>
      else s\<lparr>slave := (slave s)\<lparr>edge_level := mode\<rparr>\<rparr>)"

subsection \<open>Acknowledging an interrupt\<close>

text \<open>\<open>take_irq p\<close>: the bookkeeping of \<^verbatim>\<open>IAC\<close> on one controller.\<close>

definition take_irq :: "pic \<Rightarrow> pic" where
  "take_irq p =
     (let b = irq_bit (irq p);
          p1 = (if \<not> bit (edge_level p) (irq p) then p\<lparr>irr := irr p AND NOT b\<rparr> else p)
      in if \<not> auto_eoi p1 then p1\<lparr>isr := isr p1 OR b\<rparr>
         else if rotate_on_autoeoi p1 then p1\<lparr>lowest_priority := irq p1\<rparr> else p1)"

definition IAC :: "pics \<Rightarrow> byte \<times> pics" where
  "IAC s =
     (let s1 = s\<lparr>intr := False, master := (master s)\<lparr>INTpin := False\<rparr>\<rparr>; m = master s1 in
      if irr m = 0 then (interrupt_offset m + 7, s1)
      else
        (let s2 = s1\<lparr>master := take_irq m\<rparr> in
         if irq m \<noteq> 2 then (word_of_nat (irq m) + interrupt_offset m, service_master_pic s2)
         else
           (let s3 = s2\<lparr>slave := (slave s2)\<lparr>INTpin := False\<rparr>,
                        master := (master s2)\<lparr>IRQ_in := IRQ_in (master s2) AND NOT (irq_bit 2)\<rparr>\<rparr>;
                p = slave s3
            in if irr p = 0 then (interrupt_offset p + 7, s3)
               else (word_of_nat (irq p) + interrupt_offset p,
                     service_master_pic (service_slave_pic (s3\<lparr>slave := take_irq p\<rparr>))))))"

subsection \<open>Port reads\<close>

definition pic_read :: "nat \<Rightarrow> nat \<Rightarrow> pics \<Rightarrow> nat \<times> pics" where
  "pic_read address io_len s =
     (let both = (\<lambda>i. if io_len = 1 then i else i * 256 + i) in
      if (address = 0x20 \<or> address = 0x21) \<and> polled (master s) then
        (let s1 = service_master_pic
                    (s\<lparr>master := (clear_highest_interrupt (master s))\<lparr>polled := False\<rparr>\<rparr>)
         in (both (irq (master s1)), s1))
      else if (address = 0xA0 \<or> address = 0xA1) \<and> polled (slave s) then
        (let s1 = service_slave_pic
                    (s\<lparr>slave := (clear_highest_interrupt (slave s))\<lparr>polled := False\<rparr>\<rparr>)
         in (both (irq (slave s1)), s1))
      else if address = 0x20 then
        (unat (if read_reg_select (master s) then isr (master s) else irr (master s)), s)
      else if address = 0x21 then (unat (imr (master s)), s)
      else if address = 0xA0 then
        (unat (if read_reg_select (slave s) then isr (slave s) else irr (slave s)), s)
      else if address = 0xA1 then (unat (imr (slave s)), s)
      else (0, pic_panic ''io read'' s))"

subsection \<open>Port writes\<close>

text \<open>The fields the first initialisation word resets.\<close>

definition icw1 :: "byte \<Rightarrow> pic \<Rightarrow> pic" where
  "icw1 v p =
     p\<lparr>in_init := True, requires_4 := bit v 0, byte_expected := 2, imr := 0, isr := 0, irr := 0,
       lowest_priority := 7, INTpin := False, auto_eoi := False, rotate_on_autoeoi := False\<rparr>"

text \<open>Operation command word 3 on one controller: the new state and whether it is serviced.\<close>

definition ocw3 :: "byte \<Rightarrow> pic \<Rightarrow> pic \<times> bool" where
  "ocw3 v p =
     (let special = (unat v div 32) mod 4; poll = bit v 2; read_op = unat v mod 4 in
      if poll then (p\<lparr>polled := True\<rparr>, False)
      else
        (let p1 = (if read_op = 2 then p\<lparr>read_reg_select := False\<rparr>
                   else if read_op = 3 then p\<lparr>read_reg_select := True\<rparr> else p)
         in if special = 2 then (p1\<lparr>special_mask := False\<rparr>, False)
            else if special = 3 then (p1\<lparr>special_mask := True\<rparr>, True)
            else (p1, False)))"

text \<open>Operation command word 2: \<^const>\<open>None\<close> is an unknown command.\<close>

definition ocw2 :: "nat \<Rightarrow> pic \<Rightarrow> (pic \<times> bool) option" where
  "ocw2 v p =
     (if v = 0x00 \<or> v = 0x80 then Some (p\<lparr>rotate_on_autoeoi := v \<noteq> 0\<rparr>, False)
      else if v = 0x0A then Some (p\<lparr>read_reg_select := False\<rparr>, False)
      else if v = 0x0B then Some (p\<lparr>read_reg_select := True\<rparr>, False)
      else if v = 0xA0 \<or> v = 0x20 then
        (let p1 = clear_highest_interrupt p in
         Some (if v = 0xA0 then p1\<lparr>lowest_priority := next_irq (lowest_priority p1)\<rparr> else p1, True))
      else if v = 0x40 then Some (p, False)
      else if 0x60 \<le> v \<and> v \<le> 0x67 then Some (p\<lparr>isr := isr p AND NOT (irq_bit (v - 0x60))\<rparr>, True)
      else if 0xC0 \<le> v \<and> v \<le> 0xC7 then Some (p\<lparr>lowest_priority := v - 0xC0\<rparr>, False)
      else if 0xE0 \<le> v \<and> v \<le> 0xE7 then
        Some (p\<lparr>isr := isr p AND NOT (irq_bit (v - 0xE0)), lowest_priority := v - 0xE0\<rparr>, True)
      else None)"

text \<open>Writes to the odd port while initialising; the flag tells that the word was taken, the
  second that it asked for something other than 80x86 mode. With no byte expected the write
  falls through to the mask register.\<close>

definition icw234 :: "byte \<Rightarrow> pic \<Rightarrow> pic \<times> bool \<times> bool" where
  "icw234 v p =
     (if byte_expected p = 2 then (p\<lparr>interrupt_offset := v AND 0xF8, byte_expected := 3\<rparr>, True, False)
      else if byte_expected p = 3 then
        (if requires_4 p then p\<lparr>byte_expected := 4\<rparr> else p\<lparr>in_init := False\<rparr>, True, False)
      else if byte_expected p = 4 then
        (p\<lparr>auto_eoi := bit v 1, in_init := False\<rparr>, True, \<not> bit v 0)
      else (p, False, False))"

definition write_master_command :: "byte \<Rightarrow> pics \<Rightarrow> pics" where
  "write_master_command v s =
     (if bit v 4 then
        (let s1 = s\<lparr>master := icw1 v (master s)\<rparr>;
             s2 = (if bit v 1 then pic_panic ''master: ICW1: single mode not supported'' s1 else s1);
             s3 = (if bit v 3 then pic_panic ''master: ICW1: level sensitive mode not supported'' s2 else s2)
         in s3\<lparr>intr := False\<rparr>)
      else if bit v 3 then
        (let (p, serve) = ocw3 v (master s); s1 = s\<lparr>master := p\<rparr> in
         if serve then service_master_pic s1 else s1)
      else
        (case ocw2 (unat v) (master s) of
           Some (p, serve) \<Rightarrow> (let s1 = s\<lparr>master := p\<rparr> in if serve then service_master_pic s1 else s1)
         | None \<Rightarrow> pic_panic ''write to port 20h'' s))"

definition write_master_data :: "byte \<Rightarrow> pics \<Rightarrow> pics" where
  "write_master_data v s =
     (let (p, taken, bad) = (if in_init (master s) then icw234 v (master s) else (master s, False, False));
          s0 = (if in_init (master s) \<and> \<not> taken then pic_panic ''master expecting bad init command'' s else s);
          s1 = s0\<lparr>master := p\<rparr>
      in if taken then (if bad then pic_panic ''not 80x86 mode'' s1 else s1)
         else service_master_pic (s1\<lparr>master := (master s1)\<lparr>imr := v\<rparr>\<rparr>))"

definition write_slave_command :: "byte \<Rightarrow> pics \<Rightarrow> pics" where
  "write_slave_command v s =
     (if bit v 4 then
        (let s1 = s\<lparr>slave := icw1 v (slave s),
                    master := (master s)\<lparr>IRQ_in := IRQ_in (master s) AND NOT (irq_bit 2)\<rparr>\<rparr>;
             s2 = (if bit v 1 then pic_panic ''slave: ICW1: single mode not supported'' s1 else s1)
         in if bit v 3 then pic_panic ''slave: ICW1: level sensitive mode not supported'' s2 else s2)
      else if bit v 3 then
        (let (p, serve) = ocw3 v (slave s); s1 = s\<lparr>slave := p\<rparr> in
         if serve then service_slave_pic s1 else s1)
      else
        (case ocw2 (unat v) (slave s) of
           Some (p, serve) \<Rightarrow> (let s1 = s\<lparr>slave := p\<rparr> in if serve then service_slave_pic s1 else s1)
         | None \<Rightarrow> pic_panic ''write to port A0h'' s))"

definition write_slave_data :: "byte \<Rightarrow> pics \<Rightarrow> pics" where
  "write_slave_data v s =
     (let (p, taken, bad) = (if in_init (slave s) then icw234 v (slave s) else (slave s, False, False));
          s0 = (if in_init (slave s) \<and> \<not> taken then pic_panic ''slave: expecting bad init command'' s else s);
          s1 = s0\<lparr>slave := p\<rparr>
      in if taken then (if bad then pic_panic ''not 80x86 mode'' s1 else s1)
         else service_slave_pic (s1\<lparr>slave := (slave s1)\<lparr>imr := v\<rparr>\<rparr>))"

definition pic_write :: "nat \<Rightarrow> byte \<Rightarrow> pics \<Rightarrow> pics" where
  "pic_write address v s =
     (if address = 0x20 then write_master_command v s
      else if address = 0x21 then write_master_data v s
      else if address = 0xA0 then write_slave_command v s
      else if address = 0xA1 then write_slave_data v s
      else s)"


subsection \<open>The scan loop as a search by rank\<close>

lemma next_irq_mod: "next_irq i = (i + 1) mod 8" if "i < 8"
proof -
  have "i \<in> {0,1,2,3,4,5,6,7}" using that by auto
  then show ?thesis by (auto simp: next_irq_def)
qed

lemma next_irq_pos: "h < 8 \<Longrightarrow> next_irq ((h + j) mod 8) = (h + Suc j) mod 8"
  using mod_Suc_eq [of "h + j" 8] by (simp add: next_irq_mod)

lemma scan_from:
  assumes "h < 8" and "d \<le> 8" and "j < d" and "d - j \<le> n" and "stop = (h + d) mod 8"
  shows "scan n P stop ((h + j) mod 8) =
    map_option (\<lambda>k. (h + k) mod 8) (find (\<lambda>k. P ((h + k) mod 8)) [j..<d])"
  using assms
proof (induction n arbitrary: j)
  case (Suc n)
  have u: "[j..<d] = j # [Suc j..<d]" using Suc.prems(3) by (simp add: upt_conv_Cons)
  have "(h + Suc j) mod 8 = stop \<longleftrightarrow> Suc j = d"
  proof
    assume "(h + Suc j) mod 8 = stop"
    then have "(h + Suc j) mod 8 = (h + d) mod 8" using Suc.prems(5) by simp
    then have "8 dvd d - Suc j" using Suc.prems(3)
      by (metis add_diff_cancel_left add_le_cancel_left less_eq_Suc_le mod_eq_dvd_iff_nat)
    moreover have "d - Suc j < 8" using Suc.prems(2) by simp
    ultimately have "d - Suc j = 0" using nat_dvd_not_less by (metis gr0I)
    then show "Suc j = d" using Suc.prems(3) by simp
  qed (use Suc.prems(5) in simp)
  then show ?case
    using Suc.IH [of "Suc j"] Suc.prems u by (auto simp: next_irq_pos Let_def)
qed simp

lemma scan_full:
  "h < 8 \<Longrightarrow> scan 8 P h h = map_option (\<lambda>k. (h + k) mod 8) (find (\<lambda>k. P ((h + k) mod 8)) [0..<8])"
  using scan_from [of h 8 0 8 h P] by simp

lemma scan_part:
  "h < 8 \<Longrightarrow> 0 < d \<Longrightarrow> d < 8 \<Longrightarrow>
     scan 8 P ((h + d) mod 8) h = map_option (\<lambda>k. (h + k) mod 8) (find (\<lambda>k. P ((h + k) mod 8)) [0..<d])"
  using scan_from [of h d 0 8 "(h + d) mod 8" P] by simp

text \<open>The rank of an IRQ: 0 for the highest priority, 7 for the lowest.\<close>

definition rank :: "pic \<Rightarrow> nat \<Rightarrow> nat" where
  "rank p i = (i + 7 - lowest_priority p) mod 8"

lemma rank_less: "rank p i < 8" by (simp add: rank_def)

lemma highest_less: "highest_priority p < 8" by (simp add: highest_priority_def next_irq_def)

lemma rank_shift:
  assumes "lowest_priority p \<le> 7" and "k < 8"
  shows "rank p ((highest_priority p + k) mod 8) = k"
proof -
  have "lowest_priority p \<in> {0,1,2,3,4,5,6,7}" "k \<in> {0,1,2,3,4,5,6,7}" using assms by auto
  then show ?thesis by (auto simp: rank_def highest_priority_def next_irq_def)
qed

lemma shift_rank:
  assumes "lowest_priority p \<le> 7" and "i < 8"
  shows "(highest_priority p + rank p i) mod 8 = i"
proof -
  have "lowest_priority p \<in> {0,1,2,3,4,5,6,7}" "i \<in> {0,1,2,3,4,5,6,7}" using assms by auto
  then show ?thesis by (auto simp: rank_def highest_priority_def next_irq_def)
qed

lemma rank_inj: "lowest_priority p \<le> 7 \<Longrightarrow> i < 8 \<Longrightarrow> j < 8 \<Longrightarrow> rank p i = rank p j \<Longrightarrow> i = j"
  by (metis shift_rank)

lemma find_rank:
  assumes "lowest_priority p \<le> 7" and "d \<le> 8"
  shows "map_option (\<lambda>k. (highest_priority p + k) mod 8)
       (find (\<lambda>k. P ((highest_priority p + k) mod 8)) [0..<d]) = Some i \<longleftrightarrow>
     i < 8 \<and> P i \<and> rank p i < d \<and> (\<forall>j<8. P j \<longrightarrow> rank p i \<le> rank p j)"
proof -
  let ?h = "highest_priority p"
  have "find (\<lambda>k. P ((?h + k) mod 8)) [0..<d] = Some k \<longleftrightarrow>
      k < d \<and> P ((?h + k) mod 8) \<and> (\<forall>j<k. \<not> P ((?h + j) mod 8))" for k
    by (rule find_upt_Some)
  then have "map_option (\<lambda>k. (?h + k) mod 8) (find (\<lambda>k. P ((?h + k) mod 8)) [0..<d]) = Some i \<longleftrightarrow>
      (\<exists>k<d. i = (?h + k) mod 8 \<and> P i \<and> (\<forall>j<k. \<not> P ((?h + j) mod 8)))"
    by auto
  also have "\<dots> \<longleftrightarrow> i < 8 \<and> P i \<and> rank p i < d \<and> (\<forall>j<8. P j \<longrightarrow> rank p i \<le> rank p j)"
  proof
    assume "\<exists>k<d. i = (?h + k) mod 8 \<and> P i \<and> (\<forall>j<k. \<not> P ((?h + j) mod 8))"
    then obtain k where k: "k < d" "i = (?h + k) mod 8" "P i" "\<forall>j<k. \<not> P ((?h + j) mod 8)" by blast
    have "k < 8" using k(1) assms(2) by simp
    then have r: "rank p i = k" using rank_shift [OF assms(1)] k(2) by simp
    moreover have "rank p i \<le> rank p j" if "j < 8" "P j" for j
      using that k(4) shift_rank [OF assms(1) that(1)] r by (metis not_less)
    ultimately show "i < 8 \<and> P i \<and> rank p i < d \<and> (\<forall>j<8. P j \<longrightarrow> rank p i \<le> rank p j)"
      using k(1,2,3) by simp
  next
    assume a: "i < 8 \<and> P i \<and> rank p i < d \<and> (\<forall>j<8. P j \<longrightarrow> rank p i \<le> rank p j)"
    have "\<not> P ((?h + j) mod 8)" if "j < rank p i" for j
      using a that rank_shift [OF assms(1), of j] rank_less [of p i]
      by (metis less_trans mod_less_divisor not_less zero_less_numeral)
    then show "\<exists>k<d. i = (?h + k) mod 8 \<and> P i \<and> (\<forall>j<k. \<not> P ((?h + j) mod 8))"
      using a shift_rank [OF assms(1), of i] by (intro exI [of _ "rank p i"]) auto
  qed
  finally show ?thesis .
qed

lemma scan_min:
  assumes "lowest_priority p \<le> 7"
  shows "scan 8 P (highest_priority p) (highest_priority p) = Some i \<longleftrightarrow>
     i < 8 \<and> P i \<and> (\<forall>j<8. P j \<longrightarrow> rank p i \<le> rank p j)"
  using find_rank [OF assms, of 8 P i] rank_less [of p i] by (simp only: scan_full [OF highest_less]) simp

lemma scan_below:
  assumes "lowest_priority p \<le> 7" and "m < 8" and "m \<noteq> highest_priority p"
  shows "scan 8 P m (highest_priority p) = Some i \<longleftrightarrow>
     i < 8 \<and> P i \<and> rank p i < rank p m \<and> (\<forall>j<8. P j \<longrightarrow> rank p i \<le> rank p j)"
proof -
  have "rank p m \<noteq> 0"
    using shift_rank [OF assms(1,2)] assms(3) highest_less [of p] by (metis add.right_neutral mod_less)
  then have "0 < rank p m" by simp
  from scan_part [OF highest_less [of p] this rank_less, of P]
  have "scan 8 P m (highest_priority p) = map_option (\<lambda>k. (highest_priority p + k) mod 8)
      (find (\<lambda>k. P ((highest_priority p + k) mod 8)) [0..<rank p m])"
    by (simp only: shift_rank [OF assms(1,2)])
  then show ?thesis by (simp only: find_rank [OF assms(1) less_imp_le [OF rank_less]])
qed

lemma byte_nonzero_bit: "(x :: byte) \<noteq> 0 \<longleftrightarrow> (\<exists>i<8. bit x i)"
  by (auto simp: bit_eq_iff dest: bit_imp_le_length)

subsection \<open>The reference: which request is signalled\<close>

definition wanted :: "pic \<Rightarrow> nat \<Rightarrow> bool" where
  "wanted p i \<longleftrightarrow> i < 8 \<and> bit (irr p) i \<and> \<not> bit (imr p) i"

definition eligible :: "pic \<Rightarrow> nat \<Rightarrow> bool" where
  "eligible p i \<longleftrightarrow> wanted p i \<and>
     (if special_mask p then \<not> bit (isr p) i
      else (\<forall>j<8. bit (isr p) j \<longrightarrow> rank p i < rank p j))"

lemma service_pick_spec:
  assumes low: "lowest_priority p \<le> 7"
  shows "service_pick p = Some i \<longleftrightarrow>
     \<not> INTpin p \<and> eligible p i \<and> (\<forall>j<8. eligible p j \<longrightarrow> rank p i \<le> rank p j)"
proof (cases "INTpin p")
  case False
  let ?un = "irr p AND NOT (imr p)" and ?h = "highest_priority p"
  let ?P = "\<lambda>i. \<not> (special_mask p \<and> bit (isr p) i) \<and> bit ?un i"
  have un: "bit ?un i \<longleftrightarrow> wanted p i" for i
    by (auto simp: wanted_def bit_simps dest: bit_imp_le_length)
  have un0: "?un \<noteq> 0 \<longleftrightarrow> (\<exists>i. wanted p i)"
    unfolding byte_nonzero_bit un by (auto simp: wanted_def)
  show ?thesis
  proof (cases "special_mask p \<or> isr p = 0")
    case True
    then have "service_pick p = (if ?un \<noteq> 0 then scan 8 ?P ?h ?h else None)"
      using False by (auto simp: service_pick_def max_irq_def Let_def)
    moreover have "?P = eligible p"
      using True by (intro ext) (auto simp: eligible_def un)
    moreover have "scan 8 (eligible p) ?h ?h = Some i \<longleftrightarrow>
        eligible p i \<and> (\<forall>j<8. eligible p j \<longrightarrow> rank p i \<le> rank p j)"
      using scan_min [OF low, of "eligible p" i] by (auto simp: eligible_def wanted_def)
    moreover have "\<not> eligible p i" if "?un = 0" using that un0 by (auto simp: eligible_def)
    ultimately show ?thesis using False by auto
  next
    case nrm: False
    then have "\<exists>i<8. bit (isr p) i" using byte_nonzero_bit by blast
    obtain m where m: "scan 8 (bit (isr p)) ?h ?h = Some m"
    proof (cases "scan 8 (bit (isr p)) ?h ?h")
      case None
      then have "find (\<lambda>k. bit (isr p) ((?h + k) mod 8)) [0..<8] = None"
        unfolding scan_full [OF highest_less] by simp
      then have "\<not> bit (isr p) ((?h + k) mod 8)" if "k < 8" for k using that unfolding find_upt_None by blast
      then show ?thesis using \<open>\<exists>i<8. bit (isr p) i\<close> shift_rank [OF low] rank_less by metis
    qed
    then have m': "m < 8" "bit (isr p) m" "\<And>j. j < 8 \<Longrightarrow> bit (isr p) j \<Longrightarrow> rank p m \<le> rank p j"
      using scan_min [OF low, of "bit (isr p)" m] by auto
    have el: "eligible p j \<longleftrightarrow> wanted p j \<and> rank p j < rank p m" for j
      using nrm m' by (auto simp: eligible_def intro: less_le_trans)
    show ?thesis
    proof (cases "m = ?h")
      case True
      then have "rank p m = 0" using rank_shift [OF low, of 0] highest_less [of p] by simp
      then show ?thesis using nrm m True False by (simp add: service_pick_def max_irq_def Let_def el)
    next
      case mh: False
      have "service_pick p = (if ?un \<noteq> 0 then scan 8 ?P m ?h else None)"
        using nrm m mh False by (simp add: service_pick_def max_irq_def Let_def)
      moreover have "scan 8 ?P m ?h = Some i \<longleftrightarrow>
          i < 8 \<and> wanted p i \<and> rank p i < rank p m \<and> (\<forall>j<8. wanted p j \<longrightarrow> rank p i \<le> rank p j)"
        using scan_below [OF low m'(1) mh, of ?P i] nrm by (simp add: un)
      ultimately show ?thesis
        using un0 False by (auto simp: el wanted_def)
    qed
  qed
qed (simp add: service_pick_def)

lemma pick_none:
  assumes "lowest_priority p \<le> 7" and "\<not> INTpin p" and "service_pick p = None"
  shows "\<not> eligible p i"
proof
  assume e: "eligible p i"
  define k where "k = arg_min_on (rank p) {i. eligible p i}"
  have fin: "finite {i. eligible p i}"
    by (rule finite_subset [of _ "{..<8}"]) (auto simp: eligible_def wanted_def)
  have "eligible p k" "\<forall>j<8. eligible p j \<longrightarrow> rank p k \<le> rank p j"
    using arg_min_if_finite(1) [OF fin, of "rank p"] arg_min_least [OF fin, of _ "rank p"] e
    by (auto simp: k_def)
  then have "service_pick p = Some k" using service_pick_spec [OF assms(1)] assms(2) by blast
  then show False using assms(3) by simp
qed

lemma irq_bit_simps:
  "bit (irq_bit i) j \<longleftrightarrow> j = i \<and> i < 8"
  by (auto simp: irq_bit_def bit_simps)

lemma clear_highest_spec:
  assumes "lowest_priority p \<le> 7"
  shows "bit (isr (clear_highest_interrupt p)) j \<longleftrightarrow>
     bit (isr p) j \<and> (\<exists>k<8. bit (isr p) k \<and> rank p k < rank p j)"
proof (cases "scan 8 (bit (isr p)) (highest_priority p) (highest_priority p)")
  case None
  have "\<not> bit (isr p) k" if "k < 8" for k
  proof -
    have "find (\<lambda>k. bit (isr p) ((highest_priority p + k) mod 8)) [0..<8] = None"
      using None unfolding scan_full [OF highest_less] by simp
    then have "\<not> bit (isr p) ((highest_priority p + rank p k) mod 8)"
      using rank_less unfolding find_upt_None by blast
    then show ?thesis by (simp add: shift_rank [OF assms that])
  qed
  moreover have "bit (isr p) j \<Longrightarrow> j < 8" by (auto dest: bit_imp_le_length)
  ultimately show ?thesis using None by (auto simp: clear_highest_interrupt_def Let_def)
next
  case (Some m)
  then have m: "m < 8" "bit (isr p) m" "\<And>j. j < 8 \<Longrightarrow> bit (isr p) j \<Longrightarrow> rank p m \<le> rank p j"
    using scan_min [OF assms, of "bit (isr p)" m] by auto
  have j8: "bit (isr p) j \<Longrightarrow> j < 8" by (auto dest: bit_imp_le_length)
  have "bit (isr (clear_highest_interrupt p)) j \<longleftrightarrow> bit (isr p) j \<and> j \<noteq> m"
    using Some m(1) j8 by (auto simp: clear_highest_interrupt_def Let_def bit_simps irq_bit_simps dest: bit_imp_le_length)
  moreover have "j \<noteq> m \<longleftrightarrow> (\<exists>k<8. bit (isr p) k \<and> rank p k < rank p j)" if "bit (isr p) j"
  proof
    assume "j \<noteq> m"
    then have "rank p m \<noteq> rank p j" using rank_inj [OF assms m(1) j8 [OF that]] by metis
    then have "rank p m < rank p j" using m(3) [OF j8 [OF that] that] by simp
    then show "\<exists>k<8. bit (isr p) k \<and> rank p k < rank p j" using m(1,2) by blast
  qed (use m(3) in \<open>auto simp: not_le [symmetric]\<close>)
  ultimately show ?thesis by blast
qed

subsection \<open>What the controllers keep\<close>

definition pic_ok :: "pic \<Rightarrow> bool" where
  "pic_ok p \<longleftrightarrow> lowest_priority p \<le> 7 \<and> irq p \<le> 7"

text \<open>The INTR line to the CPU is the INT pin of the master.\<close>

definition pics_ok :: "pics \<Rightarrow> bool" where
  "pics_ok s \<longleftrightarrow> pic_ok (master s) \<and> pic_ok (slave s) \<and> (intr s \<longleftrightarrow> INTpin (master s))"

lemma service_pick_ok: "pic_ok p \<Longrightarrow> service_pick p = Some i \<Longrightarrow> i \<le> 7"
  using service_pick_spec [of p i] by (auto simp: pic_ok_def eligible_def wanted_def)

lemma service_master_ok: "pics_ok s \<Longrightarrow> pics_ok (service_master_pic s)"
proof -
  assume ok: "pics_ok s"
  show ?thesis
  proof (cases "service_pick (master s)")
    case (Some i)
    have "pic_ok (master s)" using ok by (simp add: pics_ok_def)
    from service_pick_ok [OF this Some] show ?thesis
      using ok Some by (simp add: service_master_pic_def pics_ok_def pic_ok_def)
  qed (use ok in \<open>simp add: service_master_pic_def\<close>)
qed

lemma raise_master_ok: "pics_ok s \<Longrightarrow> pics_ok (raise_master n s)"
proof -
  assume ok: "pics_ok s"
  have "pics_ok (s\<lparr>master := (master s)\<lparr>IRQ_in := a, irr := b\<rparr>\<rparr>)" for a b
    using ok by (simp add: pics_ok_def pic_ok_def)
  then show ?thesis using ok by (simp add: raise_master_def Let_def service_master_ok)
qed

lemma service_slave_ok: "pics_ok s \<Longrightarrow> pics_ok (service_slave_pic s)"
proof -
  assume ok: "pics_ok s"
  show ?thesis
  proof (cases "service_pick (slave s)")
    case (Some i)
    have "pic_ok (slave s)" using ok by (simp add: pics_ok_def)
    from service_pick_ok [OF this Some] have "pics_ok (s\<lparr>slave := (slave s)\<lparr>INTpin := True, irq := i\<rparr>\<rparr>)"
      using ok by (simp add: pics_ok_def pic_ok_def)
    then show ?thesis using Some by (simp add: service_slave_pic_def raise_master_ok)
  qed (use ok in \<open>simp add: service_slave_pic_def\<close>)
qed

lemma clear_highest_fields [simp]:
  "lowest_priority (clear_highest_interrupt p) = lowest_priority p"
  "irq (clear_highest_interrupt p) = irq p" "INTpin (clear_highest_interrupt p) = INTpin p"
  "irr (clear_highest_interrupt p) = irr p" "imr (clear_highest_interrupt p) = imr p"
  "special_mask (clear_highest_interrupt p) = special_mask p"
  by (simp_all add: clear_highest_interrupt_def Let_def split: option.splits)

lemma take_irq_ok: "pic_ok p \<Longrightarrow> pic_ok (take_irq p) \<and> INTpin (take_irq p) = INTpin p"
  by (auto simp: take_irq_def pic_ok_def Let_def)

lemma IAC_ok: "pics_ok s \<Longrightarrow> pics_ok (snd (IAC s))"
proof -
  assume ok: "pics_ok s"
  let ?s1 = "s\<lparr>intr := False, master := (master s)\<lparr>INTpin := False\<rparr>\<rparr>"
  have 1: "pics_ok ?s1" using ok by (simp add: pics_ok_def pic_ok_def)
  let ?s2 = "?s1\<lparr>master := take_irq (master ?s1)\<rparr>"
  have 2: "pics_ok ?s2" using 1 take_irq_ok [of "master ?s1"] by (simp add: pics_ok_def)
  let ?s3 = "?s2\<lparr>slave := (slave ?s2)\<lparr>INTpin := False\<rparr>,
     master := (master ?s2)\<lparr>IRQ_in := IRQ_in (master ?s2) AND NOT (irq_bit 2)\<rparr>\<rparr>"
  have 3: "pics_ok ?s3" using 2 by (simp add: pics_ok_def pic_ok_def)
  have 4: "pics_ok (?s3\<lparr>slave := take_irq (slave ?s3)\<rparr>)"
    using 3 take_irq_ok [of "slave ?s3"] by (simp add: pics_ok_def)
  note served = service_master_ok [OF service_slave_ok [OF 4]] service_master_ok [OF 2]
  show ?thesis using 1 2 3 served by (simp add: IAC_def Let_def)
qed

lemma ocw2_ok:
  "pic_ok p \<Longrightarrow> ocw2 v p = Some (q, b) \<Longrightarrow> pic_ok q \<and> INTpin q = INTpin p"
  by (auto simp: ocw2_def pic_ok_def next_irq_def Let_def split: if_splits)

lemma ocw3_ok: "pic_ok p \<Longrightarrow> pic_ok (fst (ocw3 v p)) \<and> INTpin (fst (ocw3 v p)) = INTpin p"
  by (auto simp: ocw3_def pic_ok_def Let_def)

lemma icw234_ok: "pic_ok p \<Longrightarrow> pic_ok (fst (icw234 v p)) \<and> INTpin (fst (icw234 v p)) = INTpin p"
  by (auto simp: icw234_def pic_ok_def)

lemma panic_ok [simp]: "pics_ok (pic_panic m s) = pics_ok s"
  by (simp add: pic_panic_def pics_ok_def)

lemma panic_fields [simp]:
  "master (pic_panic m s) = master s" "slave (pic_panic m s) = slave s" "intr (pic_panic m s) = intr s"
  by (simp_all add: pic_panic_def)


subsection \<open>Operations as seen from the bus and the devices\<close>

datatype pic_op = Raise nat | Lower nat | Ack | Mode bool byte | In nat nat | Out nat byte

fun pic_do :: "pic_op \<Rightarrow> pics \<Rightarrow> pics" where
  "pic_do (Raise n) s = raise_irq n s"
| "pic_do (Lower n) s = lower_irq n s"
| "pic_do Ack s = snd (IAC s)"
| "pic_do (Mode b m) s = set_mode b m s"
| "pic_do (In a l) s = snd (pic_read a l s)"
| "pic_do (Out a v) s = pic_write a v s"

lemma pic_ok_master: "pics_ok s \<Longrightarrow> pic_ok (master s)"
  and pic_ok_slave: "pics_ok s \<Longrightarrow> pic_ok (slave s)"
  by (simp_all add: pics_ok_def)

lemma set_master_ok:
  "pics_ok s \<Longrightarrow> pic_ok p \<Longrightarrow> INTpin p = INTpin (master s) \<Longrightarrow> pics_ok (s\<lparr>master := p\<rparr>)"
  and set_slave_ok: "pics_ok s \<Longrightarrow> pic_ok p \<Longrightarrow> pics_ok (s\<lparr>slave := p\<rparr>)"
  by (simp_all add: pics_ok_def)

lemma request_ok: "pics_ok s \<Longrightarrow> pics_ok (s\<lparr>slave := (slave s)\<lparr>IRQ_in := a, irr := b\<rparr>\<rparr>)"
  by (simp add: pics_ok_def pic_ok_def)

lemma raise_irq_ok: "pics_ok s \<Longrightarrow> pics_ok (raise_irq n s)"
  by (simp add: raise_irq_def Let_def raise_master_ok request_ok service_slave_ok)

lemma lower_irq_ok: "pics_ok s \<Longrightarrow> pics_ok (lower_irq n s)"
  by (simp add: lower_irq_def Let_def pics_ok_def pic_ok_def)

lemma set_mode_ok: "pics_ok s \<Longrightarrow> pics_ok (set_mode b m s)"
  by (simp add: set_mode_def pics_ok_def pic_ok_def)

lemma polled_ok: "pic_ok p \<Longrightarrow> pic_ok ((clear_highest_interrupt p)\<lparr>polled := b\<rparr>)"
  by (simp add: pic_ok_def)

lemma pic_read_ok:
  assumes "pics_ok s" shows "pics_ok (snd (pic_read a l s))"
proof -
  have m: "pics_ok (s\<lparr>master := (clear_highest_interrupt (master s))\<lparr>polled := False\<rparr>\<rparr>)"
    using assms by (intro set_master_ok polled_ok pic_ok_master) simp_all
  have p: "pics_ok (s\<lparr>slave := (clear_highest_interrupt (slave s))\<lparr>polled := False\<rparr>\<rparr>)"
    using assms by (intro set_slave_ok polled_ok pic_ok_slave) simp_all
  show ?thesis using assms service_master_ok [OF m] service_slave_ok [OF p]
    by (simp add: pic_read_def Let_def)
qed

lemma serve_master_ok:
  "pics_ok s \<Longrightarrow> pic_ok p \<Longrightarrow> INTpin p = INTpin (master s) \<Longrightarrow>
     pics_ok (if b then service_master_pic (s\<lparr>master := p\<rparr>) else s\<lparr>master := p\<rparr>)"
  and serve_slave_ok:
  "pics_ok s \<Longrightarrow> pic_ok p \<Longrightarrow>
     pics_ok (if b then service_slave_pic (s\<lparr>slave := p\<rparr>) else s\<lparr>slave := p\<rparr>)"
  by (simp_all add: set_master_ok set_slave_ok service_master_ok service_slave_ok)

lemma icw1_ok: "pics_ok s \<Longrightarrow> pics_ok (s\<lparr>master := icw1 v (master s), intr := False\<rparr>)"
  by (simp add: pics_ok_def pic_ok_def icw1_def)

lemma panic_updates:
  "(pic_panic m s)\<lparr>intr := b\<rparr> = pic_panic m (s\<lparr>intr := b\<rparr>)"
  "(pic_panic m s)\<lparr>master := p\<rparr> = pic_panic m (s\<lparr>master := p\<rparr>)"
  "(pic_panic m s)\<lparr>slave := p\<rparr> = pic_panic m (s\<lparr>slave := p\<rparr>)"
  by (simp_all add: pic_panic_def)

lemma write_master_command_ok:
  assumes "pics_ok s" shows "pics_ok (write_master_command v s)"
proof -
  note m = pic_ok_master [OF assms]
  consider (icw) "bit v 4" | (ocw3) "\<not> bit v 4" "bit v 3" | (ocw2) "\<not> bit v 4" "\<not> bit v 3" by blast
  then show ?thesis
  proof cases
    case icw
    then show ?thesis by (simp add: write_master_command_def Let_def panic_updates icw1_ok assms)
  next
    case ocw3
    obtain p b where "ocw3 v (master s) = (p, b)" by fastforce
    then show ?thesis using ocw3 serve_master_ok [OF assms, of p b] ocw3_ok [OF m, of v]
      by (simp add: write_master_command_def Let_def)
  next
    case ocw2
    show ?thesis
    proof (cases "ocw2 (unat v) (master s)")
      case (Some r)
      then obtain p b where "ocw2 (unat v) (master s) = Some (p, b)" by (cases r) simp
      then show ?thesis using ocw2 serve_master_ok [OF assms, of p b] ocw2_ok [OF m, of "unat v" p b]
        by (simp add: write_master_command_def Let_def)
    qed (use assms ocw2 in \<open>simp add: write_master_command_def\<close>)
  qed
qed

lemma write_slave_command_ok:
  assumes "pics_ok s" shows "pics_ok (write_slave_command v s)"
proof -
  note p = pic_ok_slave [OF assms]
  consider (icw) "bit v 4" | (ocw3) "\<not> bit v 4" "bit v 3" | (ocw2) "\<not> bit v 4" "\<not> bit v 3" by blast
  then show ?thesis
  proof cases
    case icw
    have "pics_ok (s\<lparr>slave := icw1 v (slave s), master := (master s)\<lparr>IRQ_in := a\<rparr>\<rparr>)" for a
      using assms by (simp add: pics_ok_def pic_ok_def icw1_def)
    then show ?thesis using icw by (simp add: write_slave_command_def Let_def)
  next
    case ocw3
    obtain p b where "ocw3 v (slave s) = (p, b)" by fastforce
    then show ?thesis using ocw3 serve_slave_ok [OF assms, of p b] ocw3_ok [OF p, of v]
      by (simp add: write_slave_command_def Let_def)
  next
    case ocw2
    show ?thesis
    proof (cases "ocw2 (unat v) (slave s)")
      case (Some r)
      then obtain p b where "ocw2 (unat v) (slave s) = Some (p, b)" by (cases r) simp
      then show ?thesis using ocw2 serve_slave_ok [OF assms, of p b] ocw2_ok [OF p, of "unat v" p b]
        by (simp add: write_slave_command_def Let_def)
    qed (use assms ocw2 in \<open>simp add: write_slave_command_def\<close>)
  qed
qed

lemma mask_ok:
  "pics_ok s \<Longrightarrow> pic_ok p \<Longrightarrow> INTpin p = INTpin (master s) \<Longrightarrow> pics_ok (s\<lparr>master := p\<lparr>imr := v\<rparr>\<rparr>)"
  "pics_ok s \<Longrightarrow> pic_ok q \<Longrightarrow> pics_ok (s\<lparr>slave := q\<lparr>imr := v\<rparr>\<rparr>)"
  by (simp_all add: pics_ok_def pic_ok_def)

lemma write_master_data_ok:
  assumes "pics_ok s" shows "pics_ok (write_master_data v s)"
proof -
  obtain p t b where r: "(if in_init (master s) then icw234 v (master s) else (master s, False, False)) = (p, t, b)"
    by (metis prod_cases3)
  have p: "pic_ok p" "INTpin p = INTpin (master s)"
    using r icw234_ok [OF pic_ok_master [OF assms], of v] pic_ok_master [OF assms] by (auto split: if_splits)
  let ?s0 = "if in_init (master s) \<and> \<not> t then pic_panic ''master expecting bad init command'' s else s"
  have "pics_ok ?s0" "INTpin p = INTpin (master ?s0)" using assms p by simp_all
  then show ?thesis unfolding write_master_data_def r Let_def
    using set_master_ok [of ?s0 p] service_master_ok [OF mask_ok(1) [of ?s0 p v]] p
    by (cases "in_init (master s)"; cases t) simp_all
qed

lemma write_slave_data_ok:
  assumes "pics_ok s" shows "pics_ok (write_slave_data v s)"
proof -
  obtain p t b where r: "(if in_init (slave s) then icw234 v (slave s) else (slave s, False, False)) = (p, t, b)"
    by (metis prod_cases3)
  have p: "pic_ok p"
    using r icw234_ok [OF pic_ok_slave [OF assms], of v] pic_ok_slave [OF assms] by (auto split: if_splits)
  let ?s0 = "if in_init (slave s) \<and> \<not> t then pic_panic ''slave: expecting bad init command'' s else s"
  have "pics_ok ?s0" using assms by simp
  then show ?thesis unfolding write_slave_data_def r Let_def
    using set_slave_ok [of ?s0 p] service_slave_ok [OF mask_ok(2) [of ?s0 p v]] p
    by (cases "in_init (slave s)"; cases t) simp_all
qed

lemma pic_do_ok: "pics_ok s \<Longrightarrow> pics_ok (pic_do a s)"
  by (cases a) (simp_all add: raise_irq_ok lower_irq_ok set_mode_ok IAC_ok pic_read_ok pic_write_def
      write_master_command_ok write_master_data_ok write_slave_command_ok write_slave_data_ok)

lemma pic_run_ok: "pics_ok s \<Longrightarrow> pics_ok (fold pic_do ops s)"
  by (induction ops arbitrary: s) (simp_all add: pic_do_ok)

text \<open>C31. From power-on (any state whose INTR line is low, then \<^verbatim>\<open>init\<close>), whatever devices,
  CPU and programs do to the controllers, the priorities and IRQ numbers stay in range and the
  CPU's INTR line is exactly the INT pin of the master.\<close>

theorem pic_invariant:
  assumes "\<not> intr s0"
  shows "pics_ok (fold pic_do ops (pic_c_init s0))"
proof -
  have "pics_ok (pic_c_init s0)" using assms by (simp add: pics_ok_def pic_ok_def pic_c_init_def pic_init_def)
  then show ?thesis by (rule pic_run_ok)
qed

definition pics0 :: pics where
  "pics0 = pic_c_init \<lparr>master = pic_init True 0 0, slave = pic_init False 0 0, intr = False, panics = []\<rparr>"

theorem pic_invariant_witness:
  "pics_ok (fold pic_do [Out 0x21 0, Raise 0, Ack] pics0)"
  unfolding pics0_def by (rule pic_invariant) simp

text \<open>C25. Which request the master signals: the INT pin, when it is low, rises exactly when some
  unmasked request outranks everything in service (in special mask mode: is not itself in
  service), and the IRQ it carries is the one of highest rotated priority among those.\<close>

theorem master_signals_highest:
  assumes "pics_ok s" and "\<not> INTpin (master s)"
  shows "(INTpin (master (service_master_pic s)) \<longleftrightarrow> (\<exists>i. eligible (master s) i)) \<and>
     (\<forall>i. eligible (master s) i \<longrightarrow>
        eligible (master s) (irq (master (service_master_pic s))) \<and>
        rank (master s) (irq (master (service_master_pic s))) \<le> rank (master s) i)"
proof -
  have low: "lowest_priority (master s) \<le> 7" using assms(1) by (simp add: pics_ok_def pic_ok_def)
  note spec = service_pick_spec [OF low]
  show ?thesis
  proof (cases "service_pick (master s)")
    case (Some i)
    then show ?thesis using spec [of i] by (auto simp: service_master_pic_def eligible_def wanted_def)
  next
    case None
    then show ?thesis using pick_none [OF low assms(2) None] assms(2) by (auto simp: service_master_pic_def)
  qed
qed

theorem master_signals_highest_witness:
  "eligible (master (pics0\<lparr>master := (master pics0)\<lparr>imr := 0, irr := 0x82\<rparr>\<rparr>)) 7 \<and>
   INTpin (master (service_master_pic (pics0\<lparr>master := (master pics0)\<lparr>imr := 0, irr := 0x82\<rparr>\<rparr>)))"
proof -
  let ?s = "pics0\<lparr>master := (master pics0)\<lparr>imr := 0, irr := 0x82\<rparr>\<rparr>"
  have a: "pics_ok ?s" "\<not> INTpin (master ?s)"
    by (simp_all add: pics0_def pic_c_init_def pic_init_def pics_ok_def pic_ok_def)
  have e: "eligible (master ?s) 7"
    by (simp add: pics0_def pic_c_init_def pic_init_def eligible_def wanted_def)
  with master_signals_highest [OF a] show ?thesis by blast
qed


subsection \<open>End of interrupt\<close>

lemma service_master_fields [simp]:
  "isr (master (service_master_pic s)) = isr (master s)"
  "irr (master (service_master_pic s)) = irr (master s)"
  "imr (master (service_master_pic s)) = imr (master s)"
  "lowest_priority (master (service_master_pic s)) = lowest_priority (master s)"
  "special_mask (master (service_master_pic s)) = special_mask (master s)"
  "slave (service_master_pic s) = slave s" "panics (service_master_pic s) = panics s"
  by (simp_all add: service_master_pic_def split: option.splits)

text \<open>The end-of-interrupt command \<^verbatim>\<open>out 0x20, 0x20\<close>: exactly the in-service bit of
  highest priority is cleared, no other IRQ's, and nothing else of the registers changes.\<close>

theorem pic_eoi:
  assumes "pics_ok s"
  shows "(\<forall>j. bit (isr (master (pic_write 0x20 0x20 s))) j \<longleftrightarrow>
       bit (isr (master s)) j \<and> (\<exists>k<8. bit (isr (master s)) k \<and> rank (master s) k < rank (master s) j)) \<and>
     irr (master (pic_write 0x20 0x20 s)) = irr (master s) \<and>
     imr (master (pic_write 0x20 0x20 s)) = imr (master s) \<and> slave (pic_write 0x20 0x20 s) = slave s"
proof -
  have low: "lowest_priority (master s) \<le> 7" using assms by (simp add: pics_ok_def pic_ok_def)
  have "pic_write 0x20 0x20 s = service_master_pic (s\<lparr>master := clear_highest_interrupt (master s)\<rparr>)"
    by (simp add: pic_write_def write_master_command_def ocw2_def Let_def)
  then show ?thesis using clear_highest_spec [OF low] by simp
qed

theorem pic_eoi_witness:
  "\<not> bit (isr (master (pic_write 0x20 0x20 (snd (IAC (raise_irq 0 (pics0\<lparr>master := (master pics0)\<lparr>imr := 0\<rparr>\<rparr>))))))) 0"
proof -
  have "pics_ok (pics0\<lparr>master := (master pics0)\<lparr>imr := 0\<rparr>\<rparr>)"
    by (simp add: pics0_def pic_c_init_def pic_init_def pics_ok_def pic_ok_def)
  then have ok: "pics_ok (snd (IAC (raise_irq 0 (pics0\<lparr>master := (master pics0)\<lparr>imr := 0\<rparr>\<rparr>))))"
    by (intro IAC_ok raise_irq_ok)
  have "lowest_priority (master (snd (IAC (raise_irq 0 (pics0\<lparr>master := (master pics0)\<lparr>imr := 0\<rparr>\<rparr>))))) = 7"
    by code_simp
  then have "rank (master (snd (IAC (raise_irq 0 (pics0\<lparr>master := (master pics0)\<lparr>imr := 0\<rparr>\<rparr>))))) 0 = 0"
    by (simp add: rank_def)
  then show ?thesis using pic_eoi [OF ok] by simp
qed

subsection \<open>The timer interrupt of the kernel\<close>

text \<open>The state the BIOS leaves for the timer: IRQ 0 unmasked, edge triggered, delivered as
  INT 8, fixed priorities, manual end of interrupt, nothing requested or in service above it.\<close>

definition timer_ready :: "pics \<Rightarrow> bool" where
  "timer_ready s \<longleftrightarrow> \<not> INTpin (master s) \<and> \<not> intr s \<and> lowest_priority (master s) = 7 \<and>
     \<not> special_mask (master s) \<and> \<not> auto_eoi (master s) \<and> interrupt_offset (master s) = 0x08 \<and>
     \<not> bit (imr (master s)) 0 \<and> \<not> bit (edge_level (master s)) 0 \<and>
     isr (master s) = 0 \<and> \<not> bit (IRQ_in (master s)) 0"

definition timer_in_service :: "pics \<Rightarrow> bool" where
  "timer_in_service s \<longleftrightarrow> bit (isr (master s)) 0 \<and> lowest_priority (master s) = 7 \<and>
     \<not> special_mask (master s) \<and> \<not> INTpin (master s) \<and> \<not> intr s"

lemma line_bit: "(x AND irq_bit i \<noteq> 0) \<longleftrightarrow> bit x i" for x :: byte
proof
  assume "x AND irq_bit i \<noteq> 0"
  then obtain j where "bit (x AND irq_bit i) j" using bit_eq_iff [of "x AND irq_bit i" 0] by auto
  then show "bit x i" by (auto simp: bit_simps irq_bit_simps)
next
  assume "bit x i"
  then have "bit (x AND irq_bit i) i"
    using bit_imp_le_length [of x i] by (simp add: bit_simps irq_bit_simps)
  then show "x AND irq_bit i \<noteq> 0" by auto
qed

lemma pick_top:
  assumes "lowest_priority p = 7" and "\<not> INTpin p" and "wanted p 0"
    and "special_mask p \<longrightarrow> \<not> bit (isr p) 0" and "\<not> special_mask p \<longrightarrow> isr p = 0"
  shows "service_pick p = Some 0"
proof -
  have "eligible p 0" using assms by (auto simp: eligible_def)
  moreover have "rank p 0 = 0" by (simp add: rank_def assms(1))
  ultimately show ?thesis using service_pick_spec [of p 0] assms by simp
qed

lemma none_below:
  assumes "lowest_priority p = 7" and "bit (isr p) 0" and "\<not> special_mask p"
  shows "\<not> eligible p i"
proof
  assume "eligible p i"
  then have "rank p i < rank p 0" using assms(2,3) by (simp add: eligible_def)
  then show False by (simp add: rank_def assms(1))
qed

lemma pick_blocked:
  assumes "lowest_priority p = 7" and "bit (isr p) 0" and "\<not> special_mask p"
  shows "service_pick p = None"
proof (cases "service_pick p")
  case (Some i)
  then have "eligible p i" using service_pick_spec [of p i] assms(1) by simp
  then show ?thesis using none_below [OF assms] by blast
qed simp


text \<open>One timer tick: raising IRQ 0 on a controller set up as the BIOS leaves it raises
  INTR, the CPU's acknowledge cycle returns vector 8 (the vector whose entry
  \<^verbatim>\<open>makeTimerInterrupt\<close> overwrites) and drops INTR, and IRQ 0 is then in service.\<close>

theorem timer_delivered:
  assumes "timer_ready s"
  shows "intr (raise_irq 0 s) \<and> fst (IAC (raise_irq 0 s)) = 8 \<and> timer_in_service (snd (IAC (raise_irq 0 s)))"
proof -
  note r = assms [unfolded timer_ready_def]
  let ?p = "(master s)\<lparr>IRQ_in := IRQ_in (master s) OR irq_bit 0, irr := irr (master s) OR irq_bit 0\<rparr>"
  have "wanted ?p 0" using r by (simp add: wanted_def bit_simps irq_bit_simps)
  then have pick: "service_pick ?p = Some 0" using r by (intro pick_top) simp_all
  have raised: "raise_irq 0 s = s\<lparr>master := ?p\<lparr>INTpin := True, irq := 0\<rparr>, intr := True\<rparr>"
    using r pick line_bit [of "IRQ_in (master s)" 0]
    by (simp add: raise_irq_def raise_master_def service_master_pic_def Let_def)
  have "bit (irr (master s) OR irq_bit 0) 0" by (simp add: bit_simps irq_bit_simps)
  then have nz: "irr (master s) OR irq_bit 0 \<noteq> 0" by (metis bit_0_eq bot_apply bot_bool_def)
  let ?q = "(master s)\<lparr>IRQ_in := IRQ_in (master s) OR irq_bit 0, irq := 0, INTpin := False,
     irr := (irr (master s) OR irq_bit 0) AND NOT (irq_bit 0), isr := isr (master s) OR irq_bit 0\<rparr>"
  have blocked: "service_pick ?q = None" using r by (intro pick_blocked) (simp_all add: bit_simps irq_bit_simps)
  have "IAC (raise_irq 0 s) = (8, s\<lparr>intr := False, master := ?q\<rparr>)"
    using r nz blocked by (simp add: raised IAC_def take_irq_def Let_def service_master_pic_def)
  then show ?thesis using r by (simp add: raised timer_in_service_def bit_simps irq_bit_simps)
qed

theorem timer_delivered_witness:
  "fst (IAC (raise_irq 0 (pics0\<lparr>master := (master pics0)\<lparr>imr := 0\<rparr>\<rparr>))) = 8"
proof -
  have "timer_ready (pics0\<lparr>master := (master pics0)\<lparr>imr := 0\<rparr>\<rparr>)"
    by (simp add: timer_ready_def pics0_def pic_c_init_def pic_init_def)
  from timer_delivered [OF this] show ?thesis by blast
qed

text \<open>The request lines of the devices.\<close>

definition device_op :: "pic_op \<Rightarrow> bool" where
  "device_op a = (case a of Raise _ \<Rightarrow> True | Lower _ \<Rightarrow> True | _ \<Rightarrow> False)"

lemma service_blocked: "timer_in_service s \<Longrightarrow> service_master_pic s = s"
  using pick_blocked [of "master s"] by (simp add: timer_in_service_def service_master_pic_def)

lemma raise_blocked: "timer_in_service s \<Longrightarrow> timer_in_service (raise_master n s)"
  by (simp add: raise_master_def Let_def service_blocked timer_in_service_def)

lemma slave_blocked: "timer_in_service (s\<lparr>slave := p\<rparr>) = timer_in_service s"
  by (simp add: timer_in_service_def)

lemma service_slave_blocked: "timer_in_service s \<Longrightarrow> timer_in_service (service_slave_pic s)"
  by (simp add: service_slave_pic_def raise_blocked slave_blocked split: option.splits)

lemma device_blocked:
  assumes "timer_in_service s" and "device_op a" shows "timer_in_service (pic_do a s)"
proof (cases a)
  case (Raise n)
  then show ?thesis using assms(1)
    by (simp add: raise_irq_def raise_blocked service_slave_blocked slave_blocked Let_def)
next
  case (Lower n)
  then show ?thesis using assms(1) by (simp add: lower_irq_def Let_def timer_in_service_def)
qed (use assms(2) in \<open>simp_all add: device_op_def\<close>)

text \<open>While the timer interrupt is in service, no request of any device, in any number or
  order, reaches the CPU: the kernel's handler is not re-entered before its
  end-of-interrupt.\<close>

theorem timer_not_reentered:
  assumes "timer_in_service s" and "list_all device_op ops"
  shows "\<not> intr (fold pic_do ops s)"
proof -
  have "timer_in_service (fold pic_do ops s)" using assms
    by (induction ops arbitrary: s) (simp_all add: device_blocked)
  then show ?thesis by (simp add: timer_in_service_def)
qed

theorem timer_not_reentered_witness:
  "\<not> intr (fold pic_do [Lower 0, Raise 0, Raise 1, Raise 14] (snd (IAC (raise_irq 0 (pics0\<lparr>master := (master pics0)\<lparr>imr := 0\<rparr>\<rparr>)))))"
proof -
  have "timer_in_service (snd (IAC (raise_irq 0 (pics0\<lparr>master := (master pics0)\<lparr>imr := 0\<rparr>\<rparr>))))"
    unfolding timer_in_service_def by code_simp
  then show ?thesis by (rule timer_not_reentered) (simp add: device_op_def)
qed


subsection \<open>No request is forgotten\<close>

definition served :: "pics \<Rightarrow> bool" where
  "served s \<longleftrightarrow> INTpin (master s) \<or> (\<forall>i. \<not> eligible (master s) i)"

lemma served_service: "pics_ok s \<Longrightarrow> served (service_master_pic s)"
proof (cases "service_pick (master s)")
  case None
  assume ok: "pics_ok s"
  then have low: "lowest_priority (master s) \<le> 7" by (simp add: pics_ok_def pic_ok_def)
  show ?thesis using pick_none [OF low _ None] None by (auto simp: served_def service_master_pic_def)
qed (simp add: served_def service_master_pic_def)

lemma served_slave [simp]: "served (s\<lparr>slave := p\<rparr>) = served s"
  and served_panic [simp]: "served (pic_panic m s) = served s"
  by (simp_all add: served_def)

lemma served_raise: "pics_ok s \<Longrightarrow> served s \<Longrightarrow> served (raise_master n s)"
proof -
  assume a: "pics_ok s" "served s"
  have "pics_ok (s\<lparr>master := (master s)\<lparr>IRQ_in := x, irr := y\<rparr>\<rparr>)" for x y
    using a(1) by (simp add: pics_ok_def pic_ok_def)
  then show ?thesis using a(2) by (simp add: raise_master_def Let_def served_service)
qed

lemma served_slave_service: "pics_ok s \<Longrightarrow> served s \<Longrightarrow> served (service_slave_pic s)"
proof (cases "service_pick (slave s)")
  case (Some i)
  assume a: "pics_ok s" "served s"
  have "pics_ok (s\<lparr>slave := (slave s)\<lparr>INTpin := True, irq := i\<rparr>\<rparr>)"
    using a(1) service_pick_ok [OF pic_ok_slave Some] by (simp add: pics_ok_def pic_ok_def)
  then show ?thesis using Some a by (simp add: service_slave_pic_def served_raise)
qed (simp add: service_slave_pic_def)

text \<open>A change that keeps requests, masks, services and priorities, or only drops requests.\<close>

lemma eligible_update [simp]:
  "eligible (p\<lparr>IRQ_in := x\<rparr>) = eligible p" "eligible (p\<lparr>edge_level := m\<rparr>) = eligible p"
  by (intro ext, simp add: eligible_def wanted_def rank_def cong: if_cong)+

lemma served_mono:
  assumes "served s" and "INTpin p = INTpin (master s)" and "\<And>i. eligible p i \<Longrightarrow> eligible (master s) i"
  shows "served (s\<lparr>master := p\<rparr>)"
  using assms by (auto simp: served_def)

lemma served_lower: "served s \<Longrightarrow> served (lower_irq n s)"
  by (simp add: lower_irq_def Let_def, intro impI served_mono)
     (auto simp: eligible_def wanted_def rank_def bit_simps split: if_splits)

lemma served_IAC:
  assumes "pics_ok s" and "irq (master s) \<noteq> 2 \<or> irr (slave s) \<noteq> 0"
  shows "served (snd (IAC s))"
proof -
  let ?s1 = "s\<lparr>intr := False, master := (master s)\<lparr>INTpin := False\<rparr>\<rparr>"
  have 1: "pics_ok ?s1" using assms(1) by (simp add: pics_ok_def pic_ok_def)
  let ?s2 = "?s1\<lparr>master := take_irq (master ?s1)\<rparr>"
  have 2: "pics_ok ?s2" using 1 take_irq_ok [of "master ?s1"] by (simp add: pics_ok_def)
  let ?s3 = "?s2\<lparr>slave := (slave ?s2)\<lparr>INTpin := False\<rparr>,
     master := (master ?s2)\<lparr>IRQ_in := IRQ_in (master ?s2) AND NOT (irq_bit 2)\<rparr>\<rparr>"
  have 3: "pics_ok ?s3" using 2 by (simp add: pics_ok_def pic_ok_def)
  have 4: "pics_ok (?s3\<lparr>slave := take_irq (slave ?s3)\<rparr>)"
    using 3 take_irq_ok [of "slave ?s3"] by (simp add: pics_ok_def)
  have none: "served ?s1" if "irr (master s) = 0" using that by (simp add: served_def eligible_def wanted_def)
  note full = served_service [OF 2] served_service [OF service_slave_ok [OF 4]]
  show ?thesis using assms(2) none full by (auto simp: IAC_def Let_def)
qed

lemma served_read:
  assumes "pics_ok s" and "served s" shows "served (snd (pic_read a l s))"
proof -
  have m: "pics_ok (s\<lparr>master := (clear_highest_interrupt (master s))\<lparr>polled := False\<rparr>\<rparr>)"
    using assms(1) by (intro set_master_ok polled_ok pic_ok_master) simp_all
  have p: "pics_ok (s\<lparr>slave := (clear_highest_interrupt (slave s))\<lparr>polled := False\<rparr>\<rparr>)"
    using assms(1) by (intro set_slave_ok polled_ok pic_ok_slave) simp_all
  show ?thesis using assms(2) served_service [OF m] served_slave_service [OF p]
    by (simp add: pic_read_def Let_def)
qed


lemma ocw3_calm:
  "\<not> snd (ocw3 v p) \<Longrightarrow> eligible (fst (ocw3 v p)) i \<Longrightarrow> eligible p i"
  by (auto simp: ocw3_def Let_def eligible_def wanted_def rank_def split: if_splits)

lemma ocw2_calm:
  "ocw2 v p = Some (q, False) \<Longrightarrow> \<not> (0xC0 \<le> v \<and> v \<le> 0xC7) \<Longrightarrow> eligible q i \<longleftrightarrow> eligible p i"
  by (auto simp: ocw2_def Let_def eligible_def wanted_def rank_def split: if_splits)

lemma served_master_command:
  assumes "pics_ok s" and "served s" and "\<not> (0xC0 \<le> unat v \<and> unat v \<le> 0xC7)"
  shows "served (write_master_command v s)"
proof -
  note m = pic_ok_master [OF assms(1)]
  consider (icw) "bit v 4" | (ocw3) "\<not> bit v 4" "bit v 3" | (ocw2) "\<not> bit v 4" "\<not> bit v 3" by blast
  then show ?thesis
  proof cases
    case icw
    then show ?thesis
      by (simp add: write_master_command_def Let_def panic_updates served_def icw1_def eligible_def wanted_def)
  next
    case ocw3
    obtain p b where r: "ocw3 v (master s) = (p, b)" by fastforce
    have p: "pic_ok p" "INTpin p = INTpin (master s)" using r ocw3_ok [OF m, of v] by simp_all
    show ?thesis
    proof (cases b)
      case True
      then show ?thesis using ocw3 r served_service [OF set_master_ok [OF assms(1) p]]
        by (simp add: write_master_command_def Let_def)
    next
      case False
      have "served (s\<lparr>master := p\<rparr>)"
        using served_mono [OF assms(2) p(2)] ocw3_calm [of v "master s"] r False by simp
      then show ?thesis using False ocw3 r by (simp add: write_master_command_def Let_def)
    qed
  next
    case ocw2
    show ?thesis
    proof (cases "ocw2 (unat v) (master s)")
      case (Some r)
      then obtain p b where r: "ocw2 (unat v) (master s) = Some (p, b)" by (cases r) simp
      have p: "pic_ok p" "INTpin p = INTpin (master s)" using ocw2_ok [OF m r] by simp_all
      show ?thesis
      proof (cases b)
        case True
        then show ?thesis using ocw2 r served_service [OF set_master_ok [OF assms(1) p]]
          by (simp add: write_master_command_def Let_def)
      next
        case False
        have "served (s\<lparr>master := p\<rparr>)"
          using served_mono [OF assms(2) p(2)] ocw2_calm [of "unat v" "master s" p] r False assms(3) by simp
        then show ?thesis using False ocw2 r by (simp add: write_master_command_def Let_def)
      qed
    qed (use assms ocw2 in \<open>simp add: write_master_command_def\<close>)
  qed
qed

lemma served_slave_command:
  assumes "pics_ok s" and "served s" shows "served (write_slave_command v s)"
proof -
  note p = pic_ok_slave [OF assms(1)]
  have sl: "served (service_slave_pic (s\<lparr>slave := q\<rparr>))" if "pic_ok q" for q
    using that assms by (simp add: served_slave_service set_slave_ok)
  consider (icw) "bit v 4" | (ocw3) "\<not> bit v 4" "bit v 3" | (ocw2) "\<not> bit v 4" "\<not> bit v 3" by blast
  then show ?thesis
  proof cases
    case icw
    have "served (s\<lparr>master := (master s)\<lparr>IRQ_in := x\<rparr>\<rparr>)" for x
      using assms(2) by (intro served_mono) simp_all
    then have "served (s\<lparr>slave := icw1 v (slave s), master := (master s)\<lparr>IRQ_in := x\<rparr>\<rparr>)" for x
      by (simp add: served_def)
    then show ?thesis using icw by (simp add: write_slave_command_def Let_def)
  next
    case ocw3
    obtain q b where "ocw3 v (slave s) = (q, b)" by fastforce
    then show ?thesis using ocw3 sl [of q] ocw3_ok [OF p, of v] assms(2)
      by (simp add: write_slave_command_def Let_def)
  next
    case ocw2
    show ?thesis
    proof (cases "ocw2 (unat v) (slave s)")
      case (Some r)
      then obtain q b where "ocw2 (unat v) (slave s) = Some (q, b)" by (cases r) simp
      then show ?thesis using ocw2 sl [of q] ocw2_ok [OF p, of "unat v" q b] assms(2)
        by (simp add: write_slave_command_def Let_def)
    qed (use assms ocw2 in \<open>simp add: write_slave_command_def\<close>)
  qed
qed

lemma icw234_calm: "eligible (fst (icw234 v p)) i \<longleftrightarrow> eligible p i"
  by (auto simp: icw234_def eligible_def wanted_def rank_def)

lemma served_master_data:
  assumes "pics_ok s" and "served s" shows "served (write_master_data v s)"
proof -
  obtain p t b where r: "(if in_init (master s) then icw234 v (master s) else (master s, False, False)) = (p, t, b)"
    by (metis prod_cases3)
  have p: "pic_ok p" "INTpin p = INTpin (master s)" "\<And>i. eligible p i \<longleftrightarrow> eligible (master s) i"
    using r icw234_ok [OF pic_ok_master [OF assms(1)], of v] pic_ok_master [OF assms(1)] icw234_calm [of v "master s"]
    by (auto split: if_splits)
  let ?s0 = "if in_init (master s) \<and> \<not> t then pic_panic ''master expecting bad init command'' s else s"
  have 0: "pics_ok ?s0" "INTpin p = INTpin (master ?s0)" using assms p by simp_all
  have "served (s\<lparr>master := p\<rparr>)" using served_mono [OF assms(2) p(2)] p(3) by blast
  then show ?thesis unfolding write_master_data_def r Let_def
    using served_service [OF mask_ok(1) [OF 0(1) p(1) 0(2), of v]]
    by (cases "in_init (master s)"; cases t) simp_all
qed

lemma served_slave_data:
  assumes "pics_ok s" and "served s" shows "served (write_slave_data v s)"
proof -
  obtain p t b where r: "(if in_init (slave s) then icw234 v (slave s) else (slave s, False, False)) = (p, t, b)"
    by (metis prod_cases3)
  have p: "pic_ok p"
    using r icw234_ok [OF pic_ok_slave [OF assms(1)], of v] pic_ok_slave [OF assms(1)] by (auto split: if_splits)
  let ?s0 = "if in_init (slave s) \<and> \<not> t then pic_panic ''slave: expecting bad init command'' s else s"
  have 0: "pics_ok ?s0" "served ?s0" using assms by simp_all
  show ?thesis unfolding write_slave_data_def r Let_def
    using served_slave_service [OF mask_ok(2) [OF 0(1) p, of v]] 0 assms(2)
    by (cases "in_init (slave s)"; cases t) simp_all
qed




subsection \<open>Reprogramming the master alone\<close>

definition slave_stuck :: "pics \<Rightarrow> bool" where
  "slave_stuck s \<longleftrightarrow> INTpin (slave s) \<and> bit (IRQ_in (master s)) 2 \<and> \<not> bit (irr (master s)) 2"

definition line_or_mask_op :: "pic_op \<Rightarrow> bool" where
  "line_or_mask_op a = (case a of Raise n \<Rightarrow> n \<noteq> 2 | Lower n \<Rightarrow> n \<noteq> 2
     | Out a v \<Rightarrow> a = 0x21 \<or> a = 0xA1 \<or> a = 0x20 \<and> v = 0x20 | _ \<Rightarrow> False)"

lemma stuck_service: "INTpin (slave s) \<Longrightarrow> service_slave_pic s = s"
  by (simp add: service_slave_pic_def service_pick_def)

lemma IRQ_in_service [simp]: "IRQ_in (master (service_master_pic s)) = IRQ_in (master s)"
  by (simp add: service_master_pic_def split: option.splits)

lemma stuck_raise: "slave_stuck s \<Longrightarrow> n \<noteq> 2 \<Longrightarrow> slave_stuck (raise_master n s)"
  by (simp add: raise_master_def Let_def slave_stuck_def bit_simps irq_bit_simps)

lemma icw234_fields [simp]:
  "INTpin (fst (icw234 v p)) = INTpin p" "irr (fst (icw234 v p)) = irr p" "IRQ_in (fst (icw234 v p)) = IRQ_in p"
  by (simp_all add: icw234_def)

lemma stuck_data:
  assumes "slave_stuck s" shows "slave_stuck (write_master_data v s)" and "slave_stuck (write_slave_data v s)"
proof -
  obtain p t b where r: "icw234 v (master s) = (p, t, b)" by (metis prod_cases3)
  have p: "INTpin p = INTpin (master s)" "irr p = irr (master s)" "IRQ_in p = IRQ_in (master s)"
    using icw234_fields [of v "master s"] r by simp_all
  show "slave_stuck (write_master_data v s)"
    using assms p by (simp add: write_master_data_def r Let_def slave_stuck_def)
  obtain q u c where r: "icw234 v (slave s) = (q, u, c)" by (metis prod_cases3)
  have q: "INTpin q = INTpin (slave s)" using icw234_fields [of v "slave s"] r by simp
  show "slave_stuck (write_slave_data v s)"
    using assms q by (simp add: write_slave_data_def r Let_def slave_stuck_def stuck_service)
qed

lemma stuck_step:
  assumes "slave_stuck s" and "line_or_mask_op a" shows "slave_stuck (pic_do a s)"
proof (cases a)
  case (Raise n)
  have n: "n \<noteq> 2" using assms(2) Raise by (simp add: line_or_mask_op_def)
  have "slave_stuck (s\<lparr>slave := (slave s)\<lparr>IRQ_in := x, irr := y\<rparr>\<rparr>)" for x y
    using assms(1) by (simp add: slave_stuck_def)
  moreover have "INTpin (slave s)" using assms(1) by (simp add: slave_stuck_def)
  ultimately show ?thesis using Raise assms(1) n
    by (simp add: raise_irq_def stuck_raise Let_def stuck_service)
next
  case (Lower n)
  then have "n \<noteq> 2" using assms(2) by (simp add: line_or_mask_op_def)
  then show ?thesis using Lower assms(1)
    by (auto simp: lower_irq_def Let_def slave_stuck_def bit_simps irq_bit_simps)
next
  case (Out x v)
  consider "x = 0x21" | "x = 0xA1" | "x = 0x20" "v = 0x20"
    using assms(2) Out by (auto simp: line_or_mask_op_def)
  then show ?thesis
  proof cases
    case 3
    have "IRQ_in (clear_highest_interrupt (master s)) = IRQ_in (master s)"
      by (simp add: clear_highest_interrupt_def Let_def split: option.splits)
    then show ?thesis using Out 3 assms(1)
      by (simp add: pic_write_def write_master_command_def ocw2_def Let_def slave_stuck_def)
  qed (use Out assms(1) in \<open>simp_all add: pic_write_def stuck_data\<close>)
qed (use assms(2) in \<open>simp_all add: line_or_mask_op_def\<close>)

text \<open>Reprogramming the master while the slave's request is pending loses the slave: ICW1 to
  the master clears its request register but neither the slave's INT pin nor the master's
  level of line 2, so no later slave request, however often its lines are raised, masks
  written or interrupts ended, reaches the master's request register again.\<close>

theorem master_reinit_loses_slave:
  assumes "INTpin (slave s)" and "bit (IRQ_in (master s)) 2" and "bit icw 4"
    and "list_all line_or_mask_op ops"
  shows "\<not> bit (irr (master (fold pic_do ops (pic_write 0x20 icw s)))) 2"
proof -
  have "slave_stuck (pic_write 0x20 icw s)" using assms(1-3)
    by (simp add: pic_write_def write_master_command_def Let_def icw1_def slave_stuck_def)
  then have "slave_stuck (fold pic_do ops (pic_write 0x20 icw s))" using assms(4)
    by (induction ops arbitrary: s rule: rev_induct) (simp_all add: stuck_step)
  then show ?thesis by (simp add: slave_stuck_def)
qed

theorem master_reinit_loses_slave_witness:
  "\<not> bit (irr (master (fold pic_do [Out 0x21 8, Out 0x21 4, Out 0x21 1, Out 0x21 0, Raise 8, Lower 14, Raise 14]
      (pic_write 0x20 0x11 (fold pic_do [Out 0xA1 0, Raise 14] pics0))))) 2"
proof -
  have "INTpin (slave (fold pic_do [Out 0xA1 0, Raise 14] pics0)) \<and>
      bit (IRQ_in (master (fold pic_do [Out 0xA1 0, Raise 14] pics0))) 2" by code_simp
  then show ?thesis by (intro master_reinit_loses_slave) (simp_all add: line_or_mask_op_def)
qed


end
