(* ===== verification/Bochs_PIT.thy ===== *)
theory Bochs_PIT
  imports Bochs_PIC
begin

section \<open>The interval timer of the emulated PC\<close>

text \<open>
  Models \<^verbatim>\<open>bochs-2.4.2/iodev/pit82c54.cc\<close> and \<^verbatim>\<open>pit82c54.h\<close>, the three counters of the 82C54,
  and \<^verbatim>\<open>pit_wrap.cc\<close>, which drives them from the emulated clock and connects the output of
  counter 0 to IRQ 0. Unsigned integers are natural numbers with the wrap-around written out
  where the source can wrap. Messages to the log are left out. The OUT handler of a counter is
  a flag, and the values it is called with, in order, are collected in the field \<open>calls\<close> until
  the wrapper delivers them to the interrupt controller.
\<close>

subsection \<open>Counters\<close>

datatype rw_status = LSByte | MSByte | LSByte_multiple | MSByte_multiple

record counter =
  GATE :: bool
  OUTpin :: bool
  count :: nat
  outlatch :: nat
  inlatch :: nat
  status_latch :: nat
  rw_mode :: nat
  mode :: nat
  bcd_mode :: bool
  null_count :: bool
  count_LSB_latched :: bool
  count_MSB_latched :: bool
  status_latched :: bool
  count_binary :: nat
  triggerGATE :: bool
  write_state :: rw_status
  read_state :: rw_status
  count_written :: bool
  first_pass :: bool
  state_bit_1 :: bool
  state_bit_2 :: bool
  next_change_time :: nat
  out_handler :: bool
  calls :: "bool list"

record pit =
  counters :: "counter list"
  controlword :: nat

definition counter_init :: "counter \<Rightarrow> counter" where
  "counter_init c =
     c\<lparr>read_state := LSByte, write_state := LSByte, GATE := True, OUTpin := True, triggerGATE := False,
       mode := 4, first_pass := False, bcd_mode := False, count := 0, count_binary := 0,
       state_bit_1 := False, state_bit_2 := False, null_count := False, rw_mode := 1,
       count_written := True, count_LSB_latched := False, count_MSB_latched := False,
       status_latched := False, next_change_time := 0, out_handler := False\<rparr>"

definition latch_counter :: "counter \<Rightarrow> counter" where
  "latch_counter c =
     (if count_LSB_latched c \<or> count_MSB_latched c then c
      else case read_state c of
        MSByte \<Rightarrow> c\<lparr>outlatch := count c mod 0x10000, count_MSB_latched := True\<rparr>
      | LSByte \<Rightarrow> c\<lparr>outlatch := count c mod 0x10000, count_LSB_latched := True\<rparr>
      | LSByte_multiple \<Rightarrow>
          c\<lparr>outlatch := count c mod 0x10000, count_LSB_latched := True, count_MSB_latched := True\<rparr>
      | MSByte_multiple \<Rightarrow>
          c\<lparr>read_state := LSByte_multiple, outlatch := count c mod 0x10000,
            count_LSB_latched := True, count_MSB_latched := True\<rparr>)"

definition set_OUT :: "bool \<Rightarrow> counter \<Rightarrow> counter" where
  "set_OUT d c =
     (if OUTpin c \<noteq> d then
        c\<lparr>OUTpin := d, calls := (if out_handler c then calls c @ [d] else calls c)\<rparr>
      else c)"

definition bcd_of :: "nat \<Rightarrow> nat" where
  "bcd_of n = (n div 1) mod 10 + 16 * ((n div 10) mod 10) + 256 * ((n div 100) mod 10) +
     4096 * ((n div 1000) mod 10)"

definition of_bcd :: "nat \<Rightarrow> nat" where
  "of_bcd n = 1 * (n mod 16) + 10 * (n div 16 mod 16) + 100 * (n div 256 mod 16) + 1000 * (n div 4096 mod 16)"

definition set_count_to_binary :: "counter \<Rightarrow> counter" where
  "set_count_to_binary c =
     (if bcd_mode c then c\<lparr>count := bcd_of (count_binary c)\<rparr> else c\<lparr>count := count_binary c\<rparr>)"

definition set_binary_to_count :: "counter \<Rightarrow> counter" where
  "set_binary_to_count c =
     (if bcd_mode c then c\<lparr>count_binary := of_bcd (count c)\<rparr> else c\<lparr>count_binary := count c\<rparr>)"

definition set_count :: "nat \<Rightarrow> counter \<Rightarrow> counter" where
  "set_count d c = set_binary_to_count (c\<lparr>count := d mod 0x10000\<rparr>)"

definition decrement :: "counter \<Rightarrow> counter" where
  "decrement c =
     (if count c = 0 then
        (if bcd_mode c then c\<lparr>count := 0x9999, count_binary := 9999\<rparr>
         else c\<lparr>count := 0xFFFF, count_binary := 0xFFFF\<rparr>)
      else set_count_to_binary (c\<lparr>count_binary := (count_binary c + 0xFFFFFFFF) mod 0x100000000\<rparr>))"

function decrement_multiple :: "nat \<Rightarrow> counter \<Rightarrow> counter" where
  "decrement_multiple cycles c =
     (if cycles = 0 then c
      else if cycles \<le> count_binary c then
        set_count_to_binary (c\<lparr>count_binary := count_binary c - cycles\<rparr>)
      else decrement_multiple (cycles - (count_binary c + 1))
             (decrement (set_count_to_binary (c\<lparr>count_binary := 0\<rparr>))))"
  by pat_completeness auto
termination by (relation "measure fst") auto

declare decrement_multiple.simps [simp del]

subsection \<open>One clock of each mode\<close>

definition one_or :: "nat \<Rightarrow> nat" where
  "one_or n = (if n = 0 then 1 else n mod 0x10000)"

definition minus_one :: "nat \<Rightarrow> nat" where
  "minus_one n = (n + 0xFFFF) mod 0x10000"

definition clock_mode0 :: "counter \<Rightarrow> counter" where
  "clock_mode0 c =
     (if count_written c then
        (if null_count c then
           (let c1 = set_count (inlatch c) c in
            c1\<lparr>next_change_time := (if GATE c1 then one_or (count_binary c1) else 0), null_count := False\<rparr>)
         else if GATE c \<and> write_state c \<noteq> MSByte_multiple then
           (let c1 = decrement c in
            if \<not> OUTpin c1 then
              (let c2 = c1\<lparr>next_change_time := count_binary c1 mod 0x10000\<rparr> in
               if count c2 = 0 then set_OUT True c2 else c2)
            else c1\<lparr>next_change_time := 0\<rparr>)
         else c\<lparr>next_change_time := 0\<rparr>)
      else c\<lparr>next_change_time := 0\<rparr>)\<lparr>triggerGATE := False\<rparr>"

definition clock_mode1 :: "counter \<Rightarrow> counter" where
  "clock_mode1 c =
     (if count_written c then
        (if triggerGATE c then
           (let c1 = set_count (inlatch c) c in
            set_OUT False (c1\<lparr>next_change_time := one_or (count_binary c1), null_count := False\<rparr>))
         else
           (let c1 = decrement c in
            if \<not> OUTpin c1 then
              (let c2 = c1\<lparr>next_change_time := one_or (count_binary c1)\<rparr> in
               if count c2 = 0 then set_OUT True c2 else c2)
            else c1\<lparr>next_change_time := 0\<rparr>))
      else c\<lparr>next_change_time := 0\<rparr>)\<lparr>triggerGATE := False\<rparr>"

definition clock_mode2 :: "counter \<Rightarrow> counter" where
  "clock_mode2 c =
     (if count_written c then
        (if triggerGATE c \<or> first_pass c then
           (let c1 = set_count (inlatch c) c;
                c2 = c1\<lparr>next_change_time := minus_one (count_binary c1), null_count := False\<rparr>
            in (if \<not> OUTpin c2 then set_OUT True c2 else c2)\<lparr>first_pass := False\<rparr>)
         else if GATE c then
           (let c1 = decrement c; c2 = c1\<lparr>next_change_time := minus_one (count_binary c1)\<rparr> in
            if count c2 = 1 then (set_OUT False (c2\<lparr>next_change_time := 1\<rparr>))\<lparr>first_pass := True\<rparr> else c2)
         else c\<lparr>next_change_time := 0\<rparr>)
      else c\<lparr>next_change_time := 0\<rparr>)\<lparr>triggerGATE := False\<rparr>"

text \<open>Mode 3: loading the (even part of the) count, and counting down by two.\<close>

definition reload_mode3 :: "counter \<Rightarrow> counter" where
  "reload_mode3 c =
     (let c1 = set_count (inlatch c - inlatch c mod 2) c;
          c2 = c1\<lparr>state_bit_1 := odd (inlatch c1)\<rparr>;
          half = count_binary c2 div 2;
          c3 = c2\<lparr>next_change_time :=
                    (if \<not> OUTpin c2 \<or> \<not> state_bit_1 c2
                     then (if half = 1 then 1 else minus_one half) else one_or half),
                  null_count := False\<rparr>;
          c4 = (if \<not> OUTpin c3 then set_OUT True c3
                else if \<not> first_pass c3 then set_OUT False c3 else c3)
      in c4\<lparr>state_bit_2 := False, first_pass := False\<rparr>)"

definition count_mode3 :: "counter \<Rightarrow> counter" where
  "count_mode3 c =
     (let c1 = decrement (decrement c);
          half = count_binary c1 div 2;
          short = (\<not> OUTpin c1 \<or> \<not> state_bit_1 c1);
          c2 = c1\<lparr>next_change_time := (if short then minus_one half else half mod 0x10000)\<rparr>;
          c3 = (if count c2 = 0 then c2\<lparr>state_bit_2 := True, next_change_time := 1\<rparr> else c2)
      in if count c3 = 2 \<and> short then c3\<lparr>state_bit_2 := True, next_change_time := 1\<rparr> else c3)"

definition clock_mode3 :: "counter \<Rightarrow> counter" where
  "clock_mode3 c =
     (if count_written c then
        (if (triggerGATE c \<or> first_pass c \<or> state_bit_2 c) \<and> GATE c then reload_mode3 c
         else if GATE c then count_mode3 c
         else c\<lparr>next_change_time := 0\<rparr>)
      else c\<lparr>next_change_time := 0\<rparr>)\<lparr>triggerGATE := False\<rparr>"

text \<open>The common tail of modes 4 and 5: one step of the strobe countdown.\<close>

definition strobe_step :: "counter \<Rightarrow> counter" where
  "strobe_step c =
     (let c1 = decrement c in
      if first_pass c1 then
        (let c2 = c1\<lparr>next_change_time := count_binary c1 mod 0x10000\<rparr> in
         if count c2 = 0 then (set_OUT False c2)\<lparr>next_change_time := 1, first_pass := False\<rparr> else c2)
      else c1\<lparr>next_change_time := 0\<rparr>)"

definition clock_mode4 :: "counter \<Rightarrow> counter" where
  "clock_mode4 c =
     (if count_written c then
        (let c0 = (if \<not> OUTpin c then set_OUT True c else c) in
         if null_count c0 then
           (let c1 = set_count (inlatch c0) c0 in
            c1\<lparr>next_change_time := (if GATE c1 then one_or (count_binary c1) else 0), null_count := False,
               first_pass := True\<rparr>)
         else if GATE c0 then strobe_step c0
         else c0\<lparr>next_change_time := 0\<rparr>)
      else c\<lparr>next_change_time := 0\<rparr>)\<lparr>triggerGATE := False\<rparr>"

definition clock_mode5 :: "counter \<Rightarrow> counter" where
  "clock_mode5 c =
     (if count_written c then
        (let c0 = (if \<not> OUTpin c then set_OUT True c else c) in
         if triggerGATE c0 then
           (let c1 = set_count (inlatch c0) c0 in
            c1\<lparr>next_change_time := one_or (count_binary c1), null_count := False, first_pass := True\<rparr>)
         else strobe_step c0)
      else c\<lparr>next_change_time := 0\<rparr>)\<lparr>triggerGATE := False\<rparr>"

definition clock :: "counter \<Rightarrow> counter" where
  "clock c =
     (if mode c = 0 then clock_mode0 c else if mode c = 1 then clock_mode1 c
      else if mode c = 2 then clock_mode2 c else if mode c = 3 then clock_mode3 c
      else if mode c = 4 then clock_mode4 c else if mode c = 5 then clock_mode5 c
      else c\<lparr>next_change_time := 0, triggerGATE := False\<rparr>)"

text \<open>Clocking a counter whose next event is unknown or never: only the count moves.\<close>

definition free_run :: "nat \<Rightarrow> counter \<Rightarrow> counter" where
  "free_run cycles c =
     (if \<not> count_written c then c
      else if mode c = 0 then
        (if GATE c \<and> write_state c \<noteq> MSByte_multiple then decrement_multiple cycles c else c)
      else if mode c = 1 \<or> mode c = 5 then decrement_multiple cycles c
      else if mode c = 2 then (if \<not> first_pass c \<and> GATE c then decrement_multiple cycles c else c)
      else if mode c = 3 then
        (if \<not> first_pass c \<and> GATE c then decrement_multiple (2 * cycles mod 0x100000000) c else c)
      else if mode c = 4 then (if GATE c then decrement_multiple cycles c else c)
      else c)"

text \<open>Cycles up to the next event, during which a counter in mode 3 counts by two.\<close>

definition skip :: "nat \<Rightarrow> counter \<Rightarrow> counter" where
  "skip cycles c =
     (if mode c = 3 then decrement_multiple (2 * cycles mod 0x100000000) c else decrement_multiple cycles c)"

function clock_multiple :: "nat \<Rightarrow> counter \<Rightarrow> counter" where
  "clock_multiple cycles c =
     (if cycles = 0 then c
      else if next_change_time c = 0 then free_run cycles c
      else if mode c > 5 then c
      else if next_change_time c > cycles then
        (skip cycles c)\<lparr>next_change_time := next_change_time c - cycles\<rparr>
      else clock_multiple (cycles - next_change_time c) (clock (skip (next_change_time c - 1) c)))"
  by pat_completeness auto
termination by (relation "measure fst") auto

declare clock_multiple.simps [simp del]

subsection \<open>The chip\<close>

definition pit_init :: "pit \<Rightarrow> pit" where
  "pit_init p = p\<lparr>counters := map counter_init (counters p)\<rparr>"

definition upd :: "nat \<Rightarrow> (counter \<Rightarrow> counter) \<Rightarrow> pit \<Rightarrow> pit" where
  "upd i f p = (if i > 2 then p else p\<lparr>counters := (counters p)[i := f (counters p ! i)]\<rparr>)"

definition clock_all :: "nat \<Rightarrow> pit \<Rightarrow> pit" where
  "clock_all cycles p =
     upd 2 (clock_multiple cycles) (upd 1 (clock_multiple cycles) (upd 0 (clock_multiple cycles) p))"

text \<open>Reading one counter: the byte and the counter after.\<close>

definition read_counter :: "counter \<Rightarrow> nat \<times> counter" where
  "read_counter c =
     (let to_msb = (\<lambda>c. if read_state c = LSByte_multiple then c\<lparr>read_state := MSByte_multiple\<rparr> else c);
          to_lsb = (\<lambda>c. if read_state c = MSByte_multiple then c\<lparr>read_state := LSByte_multiple\<rparr> else c)
      in if status_latched c then
           (if count_MSB_latched c \<and> read_state c = MSByte_multiple then (0, c)
            else (status_latch c, c\<lparr>status_latched := False\<rparr>))
         else if count_LSB_latched c then
           (outlatch c mod 256, (to_msb c)\<lparr>count_LSB_latched := False\<rparr>)
         else if count_MSB_latched c then
           (outlatch c div 256 mod 256, (to_lsb c)\<lparr>count_MSB_latched := False\<rparr>)
         else if read_state c = LSByte \<or> read_state c = LSByte_multiple then
           (count c mod 256, to_msb c)
         else (count c div 256 mod 256, to_lsb c))"

definition read_pit :: "nat \<Rightarrow> pit \<Rightarrow> nat \<times> pit" where
  "read_pit address p =
     (if address > 2 then (0, p)
      else (let (v, c) = read_counter (counters p ! address) in (v, upd address (\<lambda>_. c) p)))"

definition latch_status :: "counter \<Rightarrow> counter" where
  "latch_status c =
     (if status_latched c then c
      else c\<lparr>status_latch := 128 * of_bool (OUTpin c) + 64 * of_bool (null_count c) +
               16 * (rw_mode c mod 4) + 2 * (mode c mod 8) + of_bool (bcd_mode c),
             status_latched := True\<rparr>)"

definition read_back :: "nat \<Rightarrow> counter \<Rightarrow> counter" where
  "read_back cw c =
     (let c1 = (if even (cw div 32) then latch_counter c else c) in
      if even (cw div 16) then latch_status c1 else c1)"

definition program_counter :: "nat \<Rightarrow> counter \<Rightarrow> counter" where
  "program_counter cw c =
     (let RW = cw div 16 mod 4; M = cw div 2 mod 8;
          c1 = c\<lparr>null_count := True, count_LSB_latched := False, count_MSB_latched := False,
                 status_latched := False, inlatch := 0, count_written := False, first_pass := True,
                 rw_mode := RW, bcd_mode := odd cw, mode := M\<rparr>;
          c2 = (if RW = 1 then c1\<lparr>read_state := LSByte, write_state := LSByte\<rparr>
                else if RW = 2 then c1\<lparr>read_state := MSByte, write_state := MSByte\<rparr>
                else if RW = 3 then c1\<lparr>read_state := LSByte_multiple, write_state := LSByte_multiple\<rparr>
                else c1)
      in (set_OUT (M \<noteq> 0) c2)\<lparr>next_change_time := 0\<rparr>)"

definition write_control :: "nat \<Rightarrow> pit \<Rightarrow> pit" where
  "write_control data p =
     (let p1 = p\<lparr>controlword := data\<rparr>; SC = data div 64 mod 4; RW = data div 16 mod 4; M = data div 2 mod 8 in
      if SC = 3 then
        fold (\<lambda>i q. if odd (M div 2 ^ i) then upd i (read_back data) q else q) [0, 1, 2] p1
      else if RW = 0 then upd SC latch_counter p1
      else upd SC (program_counter data) p1)"

definition write_initial_count :: "nat \<Rightarrow> counter \<Rightarrow> counter" where
  "write_initial_count data c =
     (let c1 = (case write_state c of
                  LSByte_multiple \<Rightarrow> c\<lparr>inlatch := data, write_state := MSByte_multiple\<rparr>
                | LSByte \<Rightarrow> c\<lparr>inlatch := data, count_written := True\<rparr>
                | MSByte_multiple \<Rightarrow>
                    c\<lparr>write_state := LSByte_multiple,
                      inlatch := inlatch c OR push_bit 8 data, count_written := True\<rparr>
                | MSByte \<Rightarrow> c\<lparr>inlatch := 256 * data, count_written := True\<rparr>);
          c2 = (if count_written c1 \<and> write_state c1 \<noteq> MSByte_multiple
                then set_count (inlatch c1) (c1\<lparr>null_count := True\<rparr>) else c1)
      in if mode c2 = 0 then
           (if write_state c2 = MSByte_multiple then set_OUT False c2 else c2)\<lparr>next_change_time := 1\<rparr>
         else if mode c2 = 1 \<or> mode c2 = 5 then
           (if triggerGATE c2 then c2\<lparr>next_change_time := 1\<rparr> else c2)
         else if mode c2 \<le> 7 then c2\<lparr>next_change_time := 1\<rparr>
         else c2)"

definition write_pit :: "nat \<Rightarrow> nat \<Rightarrow> pit \<Rightarrow> pit" where
  "write_pit address data p =
     (if address > 3 then p
      else if address = 3 then write_control data p
      else upd address (write_initial_count data) p)"

definition gate_event :: "bool \<Rightarrow> counter \<Rightarrow> counter" where
  "gate_event d c =
     (let countdown = one_or (count_binary c) in
      if mode c = 0 then
        c\<lparr>next_change_time :=
            (if d \<and> count_written c then
               (if null_count c then 1
                else if \<not> OUTpin c \<and> write_state c \<noteq> MSByte_multiple then countdown else 0)
             else if null_count c then 1 else 0)\<rparr>
      else if mode c = 1 \<or> mode c = 5 then
        (if d \<and> count_written c then c\<lparr>next_change_time := 1\<rparr> else c)
      else if mode c = 2 then
        (if \<not> d then (set_OUT True c)\<lparr>next_change_time := 0\<rparr>
         else c\<lparr>next_change_time := (if count_written c then 1 else 0)\<rparr>)
      else if mode c = 3 then
        (if \<not> d then (set_OUT True c)\<lparr>first_pass := True, next_change_time := 0\<rparr>
         else c\<lparr>next_change_time := (if count_written c then 1 else 0)\<rparr>)
      else if mode c = 4 then
        c\<lparr>next_change_time :=
            (if \<not> OUTpin c \<or> null_count c then 1
             else if d \<and> count_written c then (if first_pass c then countdown else 0)
             else 0)\<rparr>
      else c)"

definition set_GATE :: "bool \<Rightarrow> counter \<Rightarrow> counter" where
  "set_GATE d c =
     (if GATE c = d then c
      else (let c1 = c\<lparr>GATE := d\<rparr>; c2 = (if d then c1\<lparr>triggerGATE := True\<rparr> else c1) in gate_event d c2))"

definition read_OUT :: "nat \<Rightarrow> pit \<Rightarrow> bool" where
  "read_OUT i p = (if i > 2 then False else OUTpin (counters p ! i))"

definition read_GATE :: "nat \<Rightarrow> pit \<Rightarrow> bool" where
  "read_GATE i p = (if i > 2 then False else GATE (counters p ! i))"

definition get_clock_event_time :: "nat \<Rightarrow> pit \<Rightarrow> nat" where
  "get_clock_event_time i p = (if i > 2 then 0 else next_change_time (counters p ! i))"

definition get_next_event_time :: "pit \<Rightarrow> nat" where
  "get_next_event_time p =
     (let t0 = get_clock_event_time 0 p; t1 = get_clock_event_time 1 p; t2 = get_clock_event_time 2 p;
          out0 = t0; out1 = (if t1 \<noteq> 0 \<and> t1 < out0 then t1 else out0)
      in if t2 \<noteq> 0 \<and> t2 < out1 then t2 else out1)"

definition set_OUT_handler :: "nat \<Rightarrow> bool \<Rightarrow> pit \<Rightarrow> pit" where
  "set_OUT_handler i h p = upd i (\<lambda>c. c\<lparr>out_handler := h\<rparr>) p"

subsection \<open>The device\<close>

record pit_dev =
  timer :: pit
  speaker_data_on :: bool
  beep :: "nat option"
  refresh_clock_div2 :: bool
  last_usec :: nat
  last_next_event_time :: nat
  total_ticks :: nat
  total_usec :: nat
  armed :: "nat option"
  pic_lines :: pics

text \<open>\<^verbatim>\<open>TICKS_TO_USEC\<close> on a \<^verbatim>\<open>Bit32u\<close>: the product is a 32-bit unsigned one.\<close>

definition ticks_to_usec :: "nat \<Rightarrow> nat" where
  "ticks_to_usec a = (a * 1000000) mod 0x100000000 div 1193181"

definition usec_to_ticks :: "nat \<Rightarrow> nat" where
  "usec_to_ticks a = (a * 1193181) mod 0x10000000000000000 div 1000000"

definition irq_handler :: "bool \<Rightarrow> pics \<Rightarrow> pics" where
  "irq_handler v s = (if v then raise_irq 0 s else lower_irq 0 s)"

text \<open>The OUT handler calls that a chip operation made, in their order.\<close>

definition deliver :: "pit_dev \<Rightarrow> pit_dev" where
  "deliver d =
     d\<lparr>pic_lines := fold irq_handler (calls (counters (timer d) ! 0)) (pic_lines d),
       timer := upd 0 (\<lambda>c. c\<lparr>calls := []\<rparr>) (timer d)\<rparr>"

text \<open>\<^verbatim>\<open>deactivate_timer\<close>, then \<^verbatim>\<open>activate_timer\<close> if an event is due.\<close>

definition rearm :: "pit_dev \<Rightarrow> pit_dev" where
  "rearm d =
     (let next_event = get_next_event_time (timer d) in
      d\<lparr>armed := (if next_event \<noteq> 0 then Some (max 1 (ticks_to_usec next_event)) else None),
        last_next_event_time := next_event\<rparr>)"

definition pit_dev_init :: "nat \<Rightarrow> pit_dev \<Rightarrow> pit_dev" where
  "pit_dev_init now d =
     (let d1 = d\<lparr>speaker_data_on := False, refresh_clock_div2 := False,
                 timer := set_OUT_handler 0 True (pit_init (timer d))\<rparr>
      in (rearm d1)\<lparr>last_usec := now, total_ticks := 0, total_usec := 0\<rparr>)"

function tick_loop :: "nat \<Rightarrow> pit \<Rightarrow> pit" where
  "tick_loop ticks_delta p =
     (if ticks_delta = 0 then p
      else (let maxchange = get_next_event_time p;
                timedelta = (if maxchange = 0 \<or> maxchange > ticks_delta then ticks_delta else maxchange)
            in tick_loop (ticks_delta - timedelta) (clock_all timedelta p)))"
  by pat_completeness auto
termination by (relation "measure fst") (auto simp: Let_def)

declare tick_loop.simps [simp del]

text \<open>Both running totals are reduced by whole seconds.\<close>

function whole_seconds :: "nat \<Rightarrow> nat \<Rightarrow> nat \<times> nat" where
  "whole_seconds ticks usec =
     (if ticks \<ge> 1193181 \<and> usec \<ge> 1000000 then whole_seconds (ticks - 1193181) (usec - 1000000)
      else (ticks, usec))"
  by pat_completeness auto
termination by (relation "measure fst") auto

declare whole_seconds.simps [simp del]

definition ticks_due :: "nat \<Rightarrow> pit_dev \<Rightarrow> nat" where
  "ticks_due usec_delta d =
     (usec_to_ticks (total_usec d + usec_delta) + 0x10000000000000000 - total_ticks d) mod 0x100000000"

definition periodic :: "nat \<Rightarrow> pit_dev \<Rightarrow> pit_dev" where
  "periodic usec_delta d =
     (let usec = total_usec d + usec_delta; ticks_delta = ticks_due usec_delta d;
          (ticks, usec') = whole_seconds (total_ticks d + ticks_delta) usec
      in deliver (d\<lparr>total_ticks := ticks, total_usec := usec',
                    timer := tick_loop ticks_delta (timer d)\<rparr>))"

text \<open>The elapsed time is a 64-bit difference, clocked through as a 32-bit one.\<close>

definition elapsed :: "nat \<Rightarrow> pit_dev \<Rightarrow> nat" where
  "elapsed now d = (now + 0x10000000000000000 - last_usec d) mod 0x10000000000000000"

definition catch_up :: "nat \<Rightarrow> pit_dev \<Rightarrow> pit_dev" where
  "catch_up now d =
     (let time_passed = elapsed now d;
          time_passed32 = time_passed mod 0x100000000;
          d1 = (if time_passed32 \<noteq> 0 then periodic time_passed32 d else d)
      in d1\<lparr>last_usec := (last_usec d1 + time_passed) mod 0x10000000000000000\<rparr>)"

definition rearm_if :: "nat \<Rightarrow> pit_dev \<Rightarrow> pit_dev" where
  "rearm_if time_passed d =
     (if time_passed \<noteq> 0 \<or> last_next_event_time d \<noteq> get_next_event_time (timer d) then rearm d else d)"

definition handle_timer :: "nat \<Rightarrow> pit_dev \<Rightarrow> pit_dev" where
  "handle_timer now d = rearm_if (elapsed now d) (catch_up now d)"

definition read_port :: "nat \<Rightarrow> nat \<Rightarrow> pit_dev \<Rightarrow> nat \<times> pit_dev" where
  "read_port now address d =
     (let d1 = handle_timer now d in
      if 0x40 \<le> address \<and> address \<le> 0x43 then
        (let (v, p) = read_pit (address - 0x40) (timer d1) in (v, d1\<lparr>timer := p\<rparr>))
      else if address = 0x61 then
        (let d2 = d1\<lparr>refresh_clock_div2 := odd (now div 15)\<rparr> in
         (32 * of_bool (read_OUT 2 (timer d2)) + 16 * of_bool (refresh_clock_div2 d2) +
          2 * of_bool (speaker_data_on d2) + of_bool (read_GATE 2 (timer d2)), d2))
      else (0, d1\<lparr>pic_lines := pic_panic ''unsupported io read'' (pic_lines d1)\<rparr>))"

definition write_port :: "nat \<Rightarrow> nat \<Rightarrow> nat \<Rightarrow> pit_dev \<Rightarrow> pit_dev" where
  "write_port now address dvalue d =
     (let d1 = catch_up now d; value = dvalue mod 256;
          d2 = (if 0x40 \<le> address \<and> address \<le> 0x43 then
                  deliver (d1\<lparr>timer := write_pit (address - 0x40) value (timer d1)\<rparr>)
                else if address = 0x61 then
                  deliver (d1\<lparr>speaker_data_on := odd (value div 2),
                              beep := (if odd (value div 2) then Some (inlatch (counters (timer d1) ! 2)) else None),
                              timer := upd 2 (set_GATE (odd value)) (timer d1)\<rparr>)
                else d1\<lparr>pic_lines := pic_panic ''unsupported io write'' (pic_lines d1)\<rparr>)
      in rearm_if (elapsed now d) d2)"


subsection \<open>Counting down in one step\<close>

lemma dm_zero [simp]: "decrement_multiple 0 c = c"
  by (simp add: decrement_multiple.simps)

lemma to_binary_fields [simp]:
  "count_binary (set_count_to_binary c) = count_binary c"
  "mode (set_count_to_binary c) = mode c" "GATE (set_count_to_binary c) = GATE c"
  "bcd_mode (set_count_to_binary c) = bcd_mode c"
  "count_written (set_count_to_binary c) = count_written c"
  "first_pass (set_count_to_binary c) = first_pass c"
  "write_state (set_count_to_binary c) = write_state c"
  "read_state (set_count_to_binary c) = read_state c"
  "next_change_time (set_count_to_binary c) = next_change_time c"
  "OUTpin (set_count_to_binary c) = OUTpin c" "inlatch (set_count_to_binary c) = inlatch c"
  "triggerGATE (set_count_to_binary c) = triggerGATE c"
  by (simp_all add: set_count_to_binary_def)

lemma to_binary_absorb:
  "set_count_to_binary ((set_count_to_binary c)\<lparr>count_binary := n\<rparr>) = set_count_to_binary (c\<lparr>count_binary := n\<rparr>)"
  by (simp add: set_count_to_binary_def)

lemma decrement_fields [simp]:
  "mode (decrement c) = mode c" "GATE (decrement c) = GATE c"
  "bcd_mode (decrement c) = bcd_mode c"
  "count_written (decrement c) = count_written c"
  "first_pass (decrement c) = first_pass c"
  "write_state (decrement c) = write_state c"
  "read_state (decrement c) = read_state c"
  "next_change_time (decrement c) = next_change_time c"
  "OUTpin (decrement c) = OUTpin c" "inlatch (decrement c) = inlatch c"
  "triggerGATE (decrement c) = triggerGATE c"
  by (simp_all add: decrement_def)

lemma dm_fields [simp]:
  "mode (decrement_multiple n c) = mode c" "GATE (decrement_multiple n c) = GATE c"
  "bcd_mode (decrement_multiple n c) = bcd_mode c"
  "count_written (decrement_multiple n c) = count_written c"
  "first_pass (decrement_multiple n c) = first_pass c"
  "write_state (decrement_multiple n c) = write_state c"
  "next_change_time (decrement_multiple n c) = next_change_time c"
  by (induction n c rule: decrement_multiple.induct; subst decrement_multiple.simps; simp)+

lemma decrement_nct: "decrement (c\<lparr>next_change_time := t\<rparr>) = (decrement c)\<lparr>next_change_time := t\<rparr>"
  by (simp add: decrement_def set_count_to_binary_def)

lemma dm_nct: "decrement_multiple n (c\<lparr>next_change_time := t\<rparr>) = (decrement_multiple n c)\<lparr>next_change_time := t\<rparr>"
proof (induction n c rule: decrement_multiple.induct)
  case (1 n c)
  have s: "set_count_to_binary (c\<lparr>next_change_time := t, count_binary := k\<rparr>) =
      (set_count_to_binary (c\<lparr>count_binary := k\<rparr>))\<lparr>next_change_time := t\<rparr>" for k
    by (simp add: set_count_to_binary_def)
  show ?case
    using 1 by (subst (1 2) decrement_multiple.simps) (simp add: s decrement_nct)
qed

lemma dm_add: "decrement_multiple (a + b) c = decrement_multiple b (decrement_multiple a c)"
proof (induction a c rule: decrement_multiple.induct)
  case (1 a c)
  consider "a = 0" | "0 < a" "a \<le> count_binary c" | "count_binary c < a" by linarith
  then show ?case
  proof cases
    case 2
    let ?d = "set_count_to_binary (c\<lparr>count_binary := count_binary c - a\<rparr>)"
    have a: "decrement_multiple a c = ?d" using 2 by (simp add: decrement_multiple.simps)
    show ?thesis
    proof (cases "b = 0 \<or> a + b \<le> count_binary c")
      case True
      then show ?thesis using 2
        by (auto simp: a decrement_multiple.simps [of "a + b"] decrement_multiple.simps [of b] to_binary_absorb)
    next
      case False
      have "decrement_multiple b ?d =
          decrement_multiple (b - (count_binary c - a + 1)) (decrement (set_count_to_binary (c\<lparr>count_binary := 0\<rparr>)))"
        using False 2 by (subst decrement_multiple.simps) (auto simp: to_binary_absorb)
      moreover have "decrement_multiple (a + b) c =
          decrement_multiple (a + b - (count_binary c + 1)) (decrement (set_count_to_binary (c\<lparr>count_binary := 0\<rparr>)))"
        using False 2 by (subst decrement_multiple.simps) simp
      moreover have "a + b - (count_binary c + 1) = b - (count_binary c - a + 1)" using False 2 by linarith
      ultimately show ?thesis by (simp only: a)
    qed
  next
    case 3
    then have "decrement_multiple (a + b) c =
        decrement_multiple (a - (count_binary c + 1) + b) (decrement (set_count_to_binary (c\<lparr>count_binary := 0\<rparr>)))"
      by (subst decrement_multiple.simps) (simp add: algebra_simps)
    also have "\<dots> = decrement_multiple b (decrement_multiple (a - (count_binary c + 1))
        (decrement (set_count_to_binary (c\<lparr>count_binary := 0\<rparr>))))"
      using 1 3 by simp
    also have "decrement_multiple (a - (count_binary c + 1)) (decrement (set_count_to_binary (c\<lparr>count_binary := 0\<rparr>))) =
        decrement_multiple a c"
      using 3 by (subst (2) decrement_multiple.simps) simp
    finally show ?thesis .
  qed simp
qed

subsection \<open>Time slices do not matter\<close>

lemma free_run_nct [simp]: "next_change_time (free_run n c) = next_change_time c"
  by (simp add: free_run_def)

lemma free_run_add:
  assumes "a + b < 0x80000000"
  shows "free_run (a + b) c = free_run b (free_run a c)"
proof -
  have "2 * (a + b) mod 0x100000000 = 2 * a mod 0x100000000 + 2 * b mod 0x100000000" using assms by simp
  then show ?thesis by (simp add: free_run_def dm_add)
qed

lemma skip_add:
  assumes "a + b < 0x80000000"
  shows "skip (a + b) c = skip b (skip a c)"
proof -
  have "2 * (a + b) mod 0x100000000 = 2 * a mod 0x100000000 + 2 * b mod 0x100000000" using assms by simp
  then show ?thesis by (simp add: skip_def dm_add)
qed

lemma skip_fields [simp]: "mode (skip n c) = mode c" "next_change_time (skip n c) = next_change_time c"
  by (simp_all add: skip_def)

lemma skip_nct: "skip n (c\<lparr>next_change_time := t\<rparr>) = (skip n c)\<lparr>next_change_time := t\<rparr>"
  by (simp add: skip_def dm_nct)

lemma set_count_nct: "set_count d (c\<lparr>next_change_time := t\<rparr>) = (set_count d c)\<lparr>next_change_time := t\<rparr>"
  by (simp add: set_count_def set_binary_to_count_def)

lemma set_OUT_nct: "set_OUT d (c\<lparr>next_change_time := t\<rparr>) = (set_OUT d c)\<lparr>next_change_time := t\<rparr>"
  by (simp add: set_OUT_def)

lemma set_count_fields [simp]:
  "mode (set_count d c) = mode c" "GATE (set_count d c) = GATE c" "inlatch (set_count d c) = inlatch c"
  "OUTpin (set_count d c) = OUTpin c" "first_pass (set_count d c) = first_pass c"
  "count_written (set_count d c) = count_written c" "triggerGATE (set_count d c) = triggerGATE c"
  "bcd_mode (set_count d c) = bcd_mode c" "next_change_time (set_count d c) = next_change_time c"
  by (simp_all add: set_count_def set_binary_to_count_def)

lemma set_OUT_fields [simp]:
  "mode (set_OUT d c) = mode c" "GATE (set_OUT d c) = GATE c" "inlatch (set_OUT d c) = inlatch c"
  "OUTpin (set_OUT d c) = d" "first_pass (set_OUT d c) = first_pass c" "count (set_OUT d c) = count c"
  "count_binary (set_OUT d c) = count_binary c" "null_count (set_OUT d c) = null_count c"
  "count_written (set_OUT d c) = count_written c" "triggerGATE (set_OUT d c) = triggerGATE c"
  "bcd_mode (set_OUT d c) = bcd_mode c" "next_change_time (set_OUT d c) = next_change_time c"
  by (simp_all add: set_OUT_def)

lemma nct_simps:
  "c\<lparr>next_change_time := t, next_change_time := u\<rparr> = c\<lparr>next_change_time := u\<rparr>"
  "c\<lparr>next_change_time := t, state_bit_1 := b\<rparr> = c\<lparr>state_bit_1 := b, next_change_time := t\<rparr>"
  "mode (c\<lparr>next_change_time := t\<rparr>) = mode c"
  "GATE (c\<lparr>next_change_time := t\<rparr>) = GATE c"
  "OUTpin (c\<lparr>next_change_time := t\<rparr>) = OUTpin c"
  "count (c\<lparr>next_change_time := t\<rparr>) = count c"
  "count_binary (c\<lparr>next_change_time := t\<rparr>) = count_binary c"
  "inlatch (c\<lparr>next_change_time := t\<rparr>) = inlatch c"
  "null_count (c\<lparr>next_change_time := t\<rparr>) = null_count c"
  "count_written (c\<lparr>next_change_time := t\<rparr>) = count_written c"
  "first_pass (c\<lparr>next_change_time := t\<rparr>) = first_pass c"
  "write_state (c\<lparr>next_change_time := t\<rparr>) = write_state c"
  "triggerGATE (c\<lparr>next_change_time := t\<rparr>) = triggerGATE c"
  "state_bit_1 (c\<lparr>next_change_time := t\<rparr>) = state_bit_1 c"
  "state_bit_2 (c\<lparr>next_change_time := t\<rparr>) = state_bit_2 c"
  by simp_all

lemmas push_nct = decrement_nct set_count_nct set_OUT_nct nct_simps

lemma strobe_nct: "strobe_step (c\<lparr>next_change_time := t\<rparr>) = strobe_step c"
  by (simp only: strobe_step_def Let_def push_nct)

lemma clock_mode0_nct: "clock_mode0 (c\<lparr>next_change_time := t\<rparr>) = clock_mode0 c"
  by (simp only: clock_mode0_def Let_def push_nct)

lemma clock_mode1_nct: "clock_mode1 (c\<lparr>next_change_time := t\<rparr>) = clock_mode1 c"
  by (simp only: clock_mode1_def Let_def push_nct)

lemma clock_mode2_nct: "clock_mode2 (c\<lparr>next_change_time := t\<rparr>) = clock_mode2 c"
  by (simp only: clock_mode2_def Let_def push_nct)

lemma clock_mode3_nct: "clock_mode3 (c\<lparr>next_change_time := t\<rparr>) = clock_mode3 c"
  by (simp only: clock_mode3_def reload_mode3_def count_mode3_def Let_def push_nct)

lemma clock_mode4_nct: "clock_mode4 (c\<lparr>next_change_time := t\<rparr>) = clock_mode4 c"
  unfolding clock_mode4_def by (cases "OUTpin c") (simp_all only: Let_def push_nct strobe_nct if_True if_False not_True_eq_False not_False_eq_True)

lemma clock_mode5_nct: "clock_mode5 (c\<lparr>next_change_time := t\<rparr>) = clock_mode5 c"
  unfolding clock_mode5_def by (cases "OUTpin c") (simp_all only: Let_def push_nct strobe_nct if_True if_False not_True_eq_False not_False_eq_True)

lemma clock_nct: "clock (c\<lparr>next_change_time := t\<rparr>) = clock c"
  by (simp only: clock_def clock_mode0_nct clock_mode1_nct clock_mode2_nct clock_mode3_nct clock_mode4_nct clock_mode5_nct)
     simp


lemma clock_multiple_add:
  assumes "a + b < 0x80000000"
  shows "clock_multiple (a + b) c = clock_multiple b (clock_multiple a c)"
  using assms
proof (induction a c arbitrary: b rule: clock_multiple.induct)
  case (1 a c)
  let ?t = "next_change_time c"
  consider "a = 0 \<or> b = 0" | "0 < a" "0 < b" "?t = 0" | "0 < a" "0 < b" "?t \<noteq> 0" "mode c > 5"
    | (skip) "0 < a" "0 < b" "mode c \<le> 5" "a < ?t" | (rec) "0 < a" "0 < b" "mode c \<le> 5" "?t \<noteq> 0" "?t \<le> a"
    by linarith
  then show ?case
  proof cases
    case 1
    then show ?thesis by (auto simp: clock_multiple.simps [of 0])
  next
    case 2
    then show ?thesis using 1(2) by (simp add: clock_multiple.simps free_run_add)
  next
    case 3
    then show ?thesis by (simp add: clock_multiple.simps)
  next
    case skip
    let ?c = "(skip a c)\<lparr>next_change_time := ?t - a\<rparr>"
    have a: "clock_multiple a c = ?c" using skip by (simp add: clock_multiple.simps)
    show ?thesis
    proof (cases "a + b < ?t")
      case True
      then show ?thesis using skip 1(2) unfolding a
        by (simp add: clock_multiple.simps [of "a + b"] clock_multiple.simps [of b] skip_nct skip_add)
    next
      case False
      have "skip (?t - a - 1) (skip a c) = skip (?t - 1) c"
        using skip_add [of a "?t - a - 1" c] skip False 1(2) by simp
      then show ?thesis using skip False unfolding a
        by (simp add: clock_multiple.simps [of "a + b"] clock_multiple.simps [of b] skip_nct clock_nct add.commute)
    qed
  next
    case rec
    have "clock_multiple (a + b) c = clock_multiple (a - ?t + b) (clock (skip (?t - 1) c))"
      using rec by (simp add: clock_multiple.simps [of "a + b"])
    also have "\<dots> = clock_multiple b (clock_multiple (a - ?t) (clock (skip (?t - 1) c)))"
      using rec 1(2) by (intro "1.IH") simp_all
    also have "clock_multiple (a - ?t) (clock (skip (?t - 1) c)) = clock_multiple a c"
      using rec by (simp add: clock_multiple.simps [of a])
    finally show ?thesis .
  qed
qed

definition all_clocked :: "nat \<Rightarrow> pit \<Rightarrow> pit" where
  "all_clocked n p = p\<lparr>counters := map (clock_multiple n) (counters p)\<rparr>"

lemma three_counters: "length (counters p) = 3 \<Longrightarrow> \<exists>a b c. counters p = [a, b, c]"
  by (auto simp: numeral_eq_Suc length_Suc_conv)

lemma clock_all_map: "length (counters p) = 3 \<Longrightarrow> clock_all n p = all_clocked n p"
  using three_counters [of p] by (auto simp: clock_all_def upd_def all_clocked_def)

lemma all_clocked_add:
  "a + b < 0x80000000 \<Longrightarrow> all_clocked b (all_clocked a p) = all_clocked (a + b) p"
  by (simp add: all_clocked_def clock_multiple_add)

lemma all_clocked_0: "all_clocked 0 p = p"
  by (simp add: all_clocked_def clock_multiple.simps [of 0] map_idI)

lemma tick_loop_all:
  "length (counters p) = 3 \<Longrightarrow> n < 0x80000000 \<Longrightarrow> tick_loop n p = all_clocked n p"
proof (induction n p rule: tick_loop.induct)
  case (1 n p)
  define t where "t = (if get_next_event_time p = 0 \<or> get_next_event_time p > n then n else get_next_event_time p)"
  have t: "t \<le> n" by (simp add: t_def)
  show ?case
  proof (cases "n = 0")
    case True
    then show ?thesis by (simp add: tick_loop.simps [of 0] all_clocked_0)
  next
    case False
    have "tick_loop n p = tick_loop (n - t) (all_clocked t p)"
      using False 1(2) by (subst tick_loop.simps) (simp add: t_def [symmetric] Let_def clock_all_map)
    also have "\<dots> = all_clocked (n - t) (all_clocked t p)"
      using "1.IH" [OF False refl refl] 1(2,3) by (simp add: t_def [symmetric] clock_all_map all_clocked_def)
    finally show ?thesis using t 1(3) by (simp add: all_clocked_add)
  qed
qed

text \<open>How the emulator slices time does not matter: whatever next-event times the wrapper
  reads and however many slices it clocks the chip with, each counter ends as if it had been
  clocked once with the whole number of ticks, and clocking in two steps is clocking with the
  sum (for less than 2^31 ticks, about half an hour).\<close>

theorem pit_slices:
  assumes "length (counters p) = 3" and "m + n < 0x80000000"
  shows "counters (tick_loop (m + n) p) = map (clock_multiple (m + n)) (counters p) \<and>
     tick_loop n (tick_loop m p) = tick_loop (m + n) p"
proof -
  have "length (counters (all_clocked m p)) = 3" using assms(1) by (simp add: all_clocked_def)
  then show ?thesis using assms by (simp add: tick_loop_all all_clocked_add) (simp add: all_clocked_def)
qed

subsection \<open>No drift\<close>

lemma whole_seconds_spec:
  assumes "ticks = usec * 1193181 div 1000000"
  shows "fst (whole_seconds ticks usec) = snd (whole_seconds ticks usec) * 1193181 div 1000000 \<and>
    snd (whole_seconds ticks usec) < 1000000 \<and>
    (\<exists>k. usec = snd (whole_seconds ticks usec) + k * 1000000 \<and> ticks = fst (whole_seconds ticks usec) + k * 1193181)"
  using assms
proof (induction ticks usec rule: whole_seconds.induct)
  case (1 ticks usec)
  show ?case
  proof (cases "ticks \<ge> 1193181 \<and> usec \<ge> 1000000")
    case True
    have w: "whole_seconds ticks usec = whole_seconds (ticks - 1193181) (usec - 1000000)"
      using True by (subst whole_seconds.simps) simp
    obtain u where u: "usec = u + 1000000" using True by (metis add.commute le_Suc_ex)
    have "ticks - 1193181 = (usec - 1000000) * 1193181 div 1000000"
      using 1(2) unfolding u by (simp add: algebra_simps)
    from "1.IH" [OF True this] obtain k where k:
      "fst (whole_seconds ticks usec) = snd (whole_seconds ticks usec) * 1193181 div 1000000"
      "snd (whole_seconds ticks usec) < 1000000"
      "usec - 1000000 = snd (whole_seconds ticks usec) + k * 1000000"
      "ticks - 1193181 = fst (whole_seconds ticks usec) + k * 1193181"
      unfolding w by blast
    have "usec = snd (whole_seconds ticks usec) + Suc k * 1000000"
      "ticks = fst (whole_seconds ticks usec) + Suc k * 1193181"
      using k(3,4) True unfolding mult_Suc by linarith+
    then show ?thesis using k(1,2) by blast
  next
    case False
    have "usec < 1000000"
    proof (rule ccontr)
      assume "\<not> ?thesis"
      then have "1193181 \<le> usec * 1193181 div 1000000" using div_le_mono [of "1000000 * 1193181" "usec * 1193181" 1000000] by simp
      then show False using False 1(2) \<open>\<not> usec < 1000000\<close> by simp
    qed
    moreover have "whole_seconds ticks usec = (ticks, usec)"
      using False by (simp only: whole_seconds.simps [of ticks usec] if_False)
    ultimately show ?thesis using 1(2) by auto
  qed
qed

definition in_step :: "pit_dev \<Rightarrow> bool" where
  "in_step d \<longleftrightarrow> total_usec d < 1000000 \<and> total_ticks d = total_usec d * 1193181 div 1000000"

lemma ticks_due_exact:
  assumes "in_step d" and "u < 0x80000000"
  shows "total_ticks d + ticks_due u d = (total_usec d + u) * 1193181 div 1000000"
proof -
  let ?T = "(total_usec d + u) * 1193181 div 1000000"
  have "(total_usec d + u) * 1193181 < 0x10000000000000000"
    using assms by (simp add: in_step_def)
  then have T: "usec_to_ticks (total_usec d + u) = ?T" by (simp add: usec_to_ticks_def)
  have le: "total_ticks d \<le> ?T" using assms(1) unfolding in_step_def by (simp add: div_le_mono)
  have "?T \<le> (1000000 + 0x80000000) * 1193181 div 1000000"
    using assms by (intro div_le_mono mult_le_mono1) (simp add: in_step_def)
  then have small: "?T < 0x100000000" by simp
  obtain x where x: "?T = total_ticks d + x" using le by (metis le_Suc_ex)
  have "(?T + 0x10000000000000000 - total_ticks d) mod 0x100000000 = x"
  proof -
    have "(x + 0x100000000 * 0x100000000) mod 0x100000000 = x mod 0x100000000"
      by (rule mod_mult_self2)
    then show ?thesis using small unfolding x by simp
  qed
  then show ?thesis unfolding ticks_due_def T by (simp only: x)
qed

lemma periodic_in_step:
  assumes "in_step d" and "u < 0x80000000"
  shows "in_step (periodic u d)"
    and "\<exists>k. total_usec d + u = total_usec (periodic u d) + k * 1000000 \<and>
       total_ticks d + ticks_due u d = total_ticks (periodic u d) + k * 1193181"
proof -
  obtain t v where w: "whole_seconds (total_ticks d + ticks_due u d) (total_usec d + u) = (t, v)" by fastforce
  have "total_ticks (periodic u d) = t" "total_usec (periodic u d) = v"
    by (simp_all add: periodic_def w deliver_def Let_def)
  then show "in_step (periodic u d)"
      "\<exists>k. total_usec d + u = total_usec (periodic u d) + k * 1000000 \<and>
       total_ticks d + ticks_due u d = total_ticks (periodic u d) + k * 1193181"
    using whole_seconds_spec [OF ticks_due_exact [OF assms]] unfolding w by (auto simp: in_step_def)
qed

text \<open>The ticks the chip is clocked with over a sequence of elapsed times.\<close>

fun ticks_run :: "nat list \<Rightarrow> pit_dev \<Rightarrow> nat" where
  "ticks_run [] d = 0"
| "ticks_run (u # us) d = ticks_due u d + ticks_run us (periodic u d)"

lemma ticks_run_exact:
  assumes "in_step d" and "\<forall>u\<in>set us. u < 0x80000000"
  shows "total_ticks d + ticks_run us d = (total_usec d + sum_list us) * 1193181 div 1000000"
  using assms
proof (induction us arbitrary: d)
  case Nil
  then show ?case by (simp add: in_step_def)
next
  case (Cons u us)
  have u: "u < 0x80000000" using Cons.prems(2) by simp
  obtain k where k: "total_usec d + u = total_usec (periodic u d) + k * 1000000"
     "total_ticks d + ticks_due u d = total_ticks (periodic u d) + k * 1193181"
    using periodic_in_step(2) [OF Cons.prems(1) u] by blast
  have IH: "total_ticks (periodic u d) + ticks_run us (periodic u d) =
      (total_usec (periodic u d) + sum_list us) * 1193181 div 1000000"
    using Cons.IH [OF periodic_in_step(1) [OF Cons.prems(1) u]] Cons.prems(2) by simp
  have "(total_usec d + sum_list (u # us)) * 1193181 div 1000000 =
      ((total_usec (periodic u d) + sum_list us) * 1193181 + k * 1193181 * 1000000) div 1000000"
    using k(1) by (simp add: algebra_simps)
  also have "\<dots> = total_ticks (periodic u d) + ticks_run us (periodic u d) + k * 1193181"
    using IH by (subst div_mult_self1) simp_all
  finally show ?case using k(2) by simp
qed

text \<open>No drift: however the elapsed time is chopped into pieces, the ticks clocked into the
  chip since \<^verbatim>\<open>init\<close> are exactly the floor of the elapsed microseconds times 1.193181.\<close>

theorem pit_no_drift:
  assumes "\<forall>u\<in>set us. u < 0x80000000"
  shows "ticks_run us (pit_dev_init now d) = sum_list us * 1193181 div 1000000"
proof -
  have "in_step (pit_dev_init now d)" by (simp add: in_step_def pit_dev_init_def Let_def)
  from ticks_run_exact [OF this assms] show ?thesis by (simp add: pit_dev_init_def Let_def)
qed


definition counter0 :: counter where
  "counter0 = counter_init \<lparr>GATE = True, OUTpin = True, count = 0, outlatch = 0, inlatch = 0, status_latch = 0,
     rw_mode = 1, mode = 4, bcd_mode = False, null_count = False, count_LSB_latched = False,
     count_MSB_latched = False, status_latched = False, count_binary = 0, triggerGATE = False,
     write_state = LSByte, read_state = LSByte, count_written = True, first_pass = False,
     state_bit_1 = False, state_bit_2 = False, next_change_time = 0, out_handler = False, calls = []\<rparr>"

definition pit0 :: pit where
  "pit0 = \<lparr>counters = [counter0, counter0, counter0], controlword = 0\<rparr>"

definition pit_dev0 :: pit_dev where
  "pit_dev0 = \<lparr>timer = pit0, speaker_data_on = False, beep = None, refresh_clock_div2 = False, last_usec = 0,
     last_next_event_time = 0, total_ticks = 0, total_usec = 0, armed = None, pic_lines = pics0\<rparr>"

theorem pit_no_drift_witness:
  "ticks_run [55, 1000000, 3] (pit_dev_init 7 pit_dev0) = 1000058 * 1193181 div 1000000"
  using pit_no_drift [of "[55, 1000000, 3]" 7 pit_dev0] by simp

theorem pit_slices_witness:
  "tick_loop 70000 (tick_loop 5 (fold (\<lambda>(a, v). write_pit a v) [(3, 0x36), (0, 0xFF), (0, 0xFF)] pit0)) =
     tick_loop 70005 (fold (\<lambda>(a, v). write_pit a v) [(3, 0x36), (0, 0xFF), (0, 0xFF)] pit0)"
proof -
  have "length (counters (fold (\<lambda>(a, v). write_pit a v) [(3, 0x36), (0, 0xFF), (0, 0xFF)] pit0)) = 3"
    by (simp add: write_pit_def write_control_def upd_def pit0_def)
  from pit_slices [OF this, of 5 70000] show ?thesis by simp
qed

subsection \<open>The square wave of mode 3\<close>

text \<open>A counter running in mode 3 with latched count \<open>n\<close>: output, handler calls, current count,
  whether it reloads at the next clock, and the time of the next event.\<close>

definition at3 :: "nat \<Rightarrow> bool \<Rightarrow> bool list \<Rightarrow> nat \<Rightarrow> bool \<Rightarrow> nat \<Rightarrow> counter \<Rightarrow> bool" where
  "at3 n q cl v b t c \<longleftrightarrow> mode c = 3 \<and> GATE c \<and> count_written c \<and> \<not> bcd_mode c \<and> inlatch c = n \<and>
     \<not> first_pass c \<and> \<not> triggerGATE c \<and> state_bit_1 c = odd n \<and> OUTpin c = q \<and> out_handler c \<and>
     calls c = cl \<and> count_binary c = v \<and> count c = v \<and> state_bit_2 c = b \<and> next_change_time c = t"

lemma at3_skip:
  assumes "at3 n q cl v b t c" and "2 * k \<le> v" and "k < 0x80000000"
  shows "at3 n q cl (v - 2 * k) b t (skip k c)"
  using assms by (auto simp: at3_def skip_def decrement_multiple.simps set_count_to_binary_def)

lemma at3_nct: "at3 n q cl v b t c \<Longrightarrow> at3 n q cl v b u (c\<lparr>next_change_time := u\<rparr>)"
  by (simp add: at3_def)

lemma at3_two:
  assumes "at3 n q cl v b t c" and "2 \<le> v" and "v \<le> 0xFFFF"
  shows "decrement (decrement c) = c\<lparr>count := v - 2, count_binary := v - 2\<rparr>"
proof -
  have "(v + 0xFFFFFFFF) mod 0x100000000 = v - 1" "(v - 1 + 0xFFFFFFFF) mod 0x100000000 = v - 2"
    using assms(2,3) by (simp_all add: mod_if)
  then show ?thesis using assms by (simp add: at3_def decrement_def set_count_to_binary_def)
qed

lemma at3_count:
  assumes "at3 n q cl v False t c" and "2 \<le> v" and "v \<le> 0xFFFF"
  shows "clock c = (count_mode3 c)\<lparr>triggerGATE := False\<rparr>"
  using assms by (simp add: at3_def clock_def clock_mode3_def)

lemma at3_four:
  assumes "at3 n q cl 4 False t c"
  shows "at3 n q cl 2 (\<not> q \<or> even n) 1 (clock c)"
proof -
  have "clock c = c\<lparr>count := 2, count_binary := 2, next_change_time := 1,
      state_bit_2 := (\<not> q \<or> even n), triggerGATE := False\<rparr>"
    using at3_count [OF assms] at3_two [OF assms] assms
    by (cases "\<not> q \<or> even n") (simp_all add: at3_def count_mode3_def Let_def)
  then show ?thesis using assms by (simp add: at3_def)
qed

lemma at3_last:
  assumes "at3 n q cl 2 False t c"
  shows "at3 n q cl 0 True 1 (clock c)"
proof -
  have "clock c = c\<lparr>count := 0, count_binary := 0, next_change_time := 1,
      state_bit_2 := True, triggerGATE := False\<rparr>"
    using at3_count [OF assms] at3_two [OF assms] assms by (simp add: count_mode3_def Let_def)
  then show ?thesis using assms by (simp add: at3_def)
qed

lemma half_facts:
  assumes "4 \<le> n" and "n \<le> 0xFFFF"
  shows "(n - n mod 2) mod 0x10000 = n - n mod 2" "(n - n mod 2) div 2 = n div 2"
    "n div 2 \<noteq> 1" "minus_one (n div 2) = n div 2 - 1" "one_or (n div 2) = n div 2"
proof -
  show "(n - n mod 2) mod 0x10000 = n - n mod 2" "(n - n mod 2) div 2 = n div 2" using assms(2) by (auto, presburger)
  have 2: "n div 2 \<noteq> 1" "n div 2 \<noteq> 0" using assms(1) by auto
  then show "n div 2 \<noteq> 1" by simp
  have "n div 2 + 0xFFFF = n div 2 - 1 + 1 * 0x10000" using 2 by simp
  then have "minus_one (n div 2) = (n div 2 - 1 + 1 * 0x10000) mod 0x10000" unfolding minus_one_def by (rule arg_cong)
  then show "minus_one (n div 2) = n div 2 - 1" unfolding mod_mult_self3 using assms(2) by simp
  show "one_or (n div 2) = n div 2" using 2 assms(2) by (simp add: one_or_def)
qed

lemma reload_result:
  assumes c1: "set_count (inlatch c - inlatch c mod 2) c = c\<lparr>count := v, count_binary := v\<rparr>"
    and h: "v div 2 = h" "h \<noteq> 1" "minus_one h = h'" "one_or h = h"
    and c: "inlatch c = n" "OUTpin c = q" "\<not> first_pass c" "out_handler c" "calls c = cl"
  shows "reload_mode3 c = c\<lparr>count := v, count_binary := v, state_bit_1 := odd n,
     next_change_time := (if q \<and> odd n then h else h'), null_count := False, OUTpin := \<not> q,
     calls := cl @ [\<not> q], state_bit_2 := False, first_pass := False\<rparr>"
  unfolding reload_mode3_def c1 using c h by (cases q) (simp_all add: Let_def set_OUT_def)

lemma at3_reload:
  assumes "at3 n q cl v True t c" and "4 \<le> n" and "n \<le> 0xFFFF"
  shows "at3 n (\<not> q) (cl @ [\<not> q]) (n - n mod 2) False
     (if q \<and> odd n then n div 2 else n div 2 - 1) (clock c)"
proof -
  note half = half_facts [OF assms(2,3)] and c = assms(1) [unfolded at3_def]
  have c1: "set_count (inlatch c - inlatch c mod 2) c = c\<lparr>count := n - n mod 2, count_binary := n - n mod 2\<rparr>"
    using c half(1) by (simp only: set_count_def set_binary_to_count_def) simp
  have "clock c = (reload_mode3 c)\<lparr>triggerGATE := False\<rparr>" using c by (simp add: clock_def clock_mode3_def)
  moreover have "reload_mode3 c = c\<lparr>count := n - n mod 2, count_binary := n - n mod 2, state_bit_1 := odd n,
     next_change_time := (if q \<and> odd n then n div 2 else n div 2 - 1), null_count := False, OUTpin := \<not> q,
     calls := cl @ [\<not> q], state_bit_2 := False, first_pass := False\<rparr>"
    using c by (intro reload_result [OF c1 half(2,3,4,5)]) blast+
  ultimately show ?thesis using c unfolding at3_def by simp
qed

text \<open>The start of a half period.\<close>

definition phase3 :: "nat \<Rightarrow> bool \<Rightarrow> bool list \<Rightarrow> counter \<Rightarrow> bool" where
  "phase3 n q cl c \<longleftrightarrow>
     (\<exists>t. at3 n q cl (n - n mod 2) False t c \<and> (t = n div 2 \<and> odd n \<or> t = n div 2 - 1 \<and> (q \<or> even n)))"

lemma at3_out: "at3 n q cl v b t c \<Longrightarrow> OUTpin c = q \<and> calls c = cl"
  by (simp add: at3_def)

lemma cm_before:
  assumes "at3 n q cl v False t c" and "j < t" and "2 * (t - 1) \<le> v" and "t < 0x80000000"
  shows "at3 n q cl (v - 2 * j) False (t - j) (clock_multiple j c)"
proof (cases "j = 0")
  case True
  then show ?thesis using assms(1) by (simp add: clock_multiple.simps [of 0])
next
  case False
  have m: "next_change_time c = t" "mode c = 3" using assms(1) by (simp_all add: at3_def)
  have "clock_multiple j c = (skip j c)\<lparr>next_change_time := t - j\<rparr>"
    using False assms(2) m by (subst clock_multiple.simps) simp
  moreover have "at3 n q cl (v - 2 * j) False t (skip j c)"
    using assms by (intro at3_skip) simp_all
  ultimately show ?thesis by (simp add: at3_nct)
qed

lemma cm_event:
  assumes "at3 n q cl v False t c" and "0 < t" and "2 * (t - 1) \<le> v" and "t < 0x80000000"
  shows "clock_multiple t c = clock (skip (t - 1) c) \<and> at3 n q cl (v - 2 * (t - 1)) False t (skip (t - 1) c)"
proof -
  have m: "next_change_time c = t" "mode c = 3" using assms(1) by (simp_all add: at3_def)
  have "clock_multiple t c = clock (skip (t - 1) c)"
    using assms(2) m by (subst clock_multiple.simps) (simp add: clock_multiple.simps [of 0])
  moreover have "at3 n q cl (v - 2 * (t - 1)) False t (skip (t - 1) c)"
    using assms by (intro at3_skip) simp_all
  ultimately show ?thesis by blast
qed

lemma cm_one:
  assumes "at3 n q cl v b 1 c"
  shows "clock_multiple 1 c = clock c"
proof -
  have m: "next_change_time c = 1" "mode c = 3" using assms by (simp_all add: at3_def)
  then show ?thesis by (subst clock_multiple.simps) (simp add: skip_def clock_multiple.simps [of 0])
qed

lemma cm_reload:
  assumes "at3 n q cl v True 1 c" and "4 \<le> n" and "n \<le> 0xFFFF"
  shows "phase3 n (\<not> q) (cl @ [\<not> q]) (clock_multiple 1 c)"
  unfolding phase3_def cm_one [OF assms(1)]
  using at3_reload [OF assms] by (cases "q \<and> odd n") auto

lemma phase3_run:
  assumes ph: "phase3 n q cl c" and n: "4 \<le> n" "n \<le> 0xFFFF"
  shows "phase3 n (\<not> q) (cl @ [\<not> q]) (clock_multiple ((n + 1) div 2) c) \<and>
     (\<forall>j < (n + 1) div 2. OUTpin (clock_multiple j c) = q \<and> calls (clock_multiple j c) = cl)"
proof -
  obtain t where a: "at3 n q cl (n - n mod 2) False t c"
    and t: "t = n div 2 \<and> odd n \<or> t = n div 2 - 1 \<and> (q \<or> even n)" using ph unfolding phase3_def by blast
  have "t = n div 2 \<or> t = n div 2 - 1" using t by blast
  then have b: "0 < t" "2 * (t - 1) \<le> n - n mod 2" "t < 0x80000000" using n by auto
  note before = at3_out [OF cm_before [OF a _ b(2,3)]]
  note ev = cm_event [OF a b]
  have add: "clock_multiple (t + k) c = clock_multiple k (clock_multiple t c)" if "k < 3" for k
    using that t n by (intro clock_multiple_add) auto
  consider (even) "even n" "t = n div 2 - 1" | (low) "odd n" "t = n div 2" | (high) "odd n" "t = n div 2 - 1" "q"
    using t by blast
  then show ?thesis
  proof cases
    case even
    have v: "n - n mod 2 - 2 * (t - 1) = 4" using even n by auto
    have 2: "at3 n q cl 2 True 1 (clock_multiple t c)" using ev at3_four [of n q cl t "skip (t - 1) c"] even(1) v by simp
    have h: "(n + 1) div 2 = t + 1" using even n by auto
    have "OUTpin (clock_multiple j c) = q \<and> calls (clock_multiple j c) = cl" if "j < t + 1" for j
      using before [of j] at3_out [OF 2] that by (cases "j = t") auto
    then show ?thesis using cm_reload [OF 2 n] add [of 1] unfolding h by simp
  next
    case low
    have v: "n - n mod 2 - 2 * (t - 1) = 2" using low n by (auto, presburger)
    have 0: "at3 n q cl 0 True 1 (clock_multiple t c)" using ev at3_last [of n q cl t "skip (t - 1) c"] v by simp
    have h: "(n + 1) div 2 = t + 1" using low by (auto elim: oddE)
    have "OUTpin (clock_multiple j c) = q \<and> calls (clock_multiple j c) = cl" if "j < t + 1" for j
      using before [of j] at3_out [OF 0] that by (cases "j = t") auto
    then show ?thesis using cm_reload [OF 0 n] add [of 1] unfolding h by simp
  next
    case high
    have v: "n - n mod 2 - 2 * (t - 1) = 4" using high n by (auto, presburger)
    have 2: "at3 n q cl 2 False 1 (clock_multiple t c)" using ev at3_four [of n q cl t "skip (t - 1) c"] high v by simp
    have 0: "at3 n q cl 0 True 1 (clock_multiple (t + 1) c)"
      using at3_last [OF 2] cm_one [OF 2] add [of 1] by simp
    have h: "(n + 1) div 2 = t + 2" using high n by (auto elim: oddE)
    have "OUTpin (clock_multiple j c) = q \<and> calls (clock_multiple j c) = cl" if j: "j < t + 2" for j
    proof -
      consider "j < t" | "j = t" | "j = t + 1" using j by linarith
      then show ?thesis using before [of j] at3_out [OF 2] at3_out [OF 0] by cases auto
    qed
    moreover have "clock_multiple (t + 2) c = clock_multiple 1 (clock_multiple (t + 1) c)"
      using clock_multiple_add [of "t + 1" 1 c] t n by auto
    ultimately show ?thesis using cm_reload [OF 0 n] unfolding h by simp
  qed
qed

lemma or_bytes: "n mod 256 OR push_bit 8 (n div 256) = n" for n :: nat
proof -
  have "take_bit 8 n OR push_bit 8 (drop_bit 8 n) = n"
  proof (rule bit_eqI)
    show "bit (take_bit 8 n OR push_bit 8 (drop_bit 8 n)) i \<longleftrightarrow> bit n i" for i
      by (cases "i < 8") (simp_all add: bit_simps)
  qed
  then show ?thesis by (simp add: take_bit_eq_mod drop_bit_eq_div)
qed

text \<open>Control word 0x36 (both bytes, mode 3, binary), then the count low byte first.\<close>

definition programmed3 :: "nat \<Rightarrow> counter \<Rightarrow> counter" where
  "programmed3 n c = write_initial_count (n div 256) (write_initial_count (n mod 256) (program_counter 0x36 c))"

definition loaded3 :: "nat \<Rightarrow> counter \<Rightarrow> bool" where
  "loaded3 n p \<longleftrightarrow> mode p = 3 \<and> GATE p \<and> count_written p \<and> \<not> bcd_mode p \<and> inlatch p = n \<and>
     first_pass p \<and> OUTpin p \<and> out_handler p \<and> next_change_time p = 1"

lemma control_0x36:
  "program_counter 0x36 c = (set_OUT True (c\<lparr>null_count := True, count_LSB_latched := False, count_MSB_latched := False,
     status_latched := False, inlatch := 0, count_written := False, first_pass := True,
     rw_mode := 3, bcd_mode := False, mode := 3, read_state := LSByte_multiple, write_state := LSByte_multiple\<rparr>))
     \<lparr>next_change_time := 0\<rparr>"
  by (simp add: program_counter_def Let_def)

lemma programmed3_loaded:
  assumes "GATE c" and "out_handler c"
  shows "loaded3 n (programmed3 n c)"
proof -
  let ?p = "program_counter 0x36 c"
  have p: "write_state ?p = LSByte_multiple" "mode ?p = 3" "\<not> count_written ?p" "GATE ?p" "\<not> bcd_mode ?p"
    "first_pass ?p" "OUTpin ?p" "out_handler ?p"
    using assms by (simp_all add: control_0x36 set_OUT_def)
  let ?q = "write_initial_count (n mod 256) ?p"
  have "?q = ?p\<lparr>inlatch := n mod 256, write_state := MSByte_multiple, next_change_time := 1\<rparr>"
    using p by (simp add: write_initial_count_def Let_def)
  then have q: "write_state ?q = MSByte_multiple" "mode ?q = 3" "GATE ?q" "\<not> bcd_mode ?q"
    "first_pass ?q" "OUTpin ?q" "out_handler ?q" "inlatch ?q = n mod 256" using p by simp_all
  have "write_initial_count (n div 256) ?q = (set_count n (?q\<lparr>write_state := LSByte_multiple, inlatch := n,
      count_written := True, null_count := True\<rparr>))\<lparr>next_change_time := 1\<rparr>"
    using q by (simp add: write_initial_count_def Let_def or_bytes)
  then show ?thesis using q unfolding programmed3_def loaded3_def
    by (simp add: set_count_def set_binary_to_count_def)
qed

lemma programmed3_calls: "OUTpin c \<Longrightarrow> calls (programmed3 n c) = calls c"
  by (simp add: programmed3_def write_initial_count_def Let_def control_0x36 set_OUT_def set_count_def
      set_binary_to_count_def)

lemma first_load:
  assumes "loaded3 n p" and n: "4 \<le> n" "n \<le> 0xFFFF"
  shows "phase3 n True (calls p) (clock_multiple 1 p)"
proof -
  note p = assms(1) [unfolded loaded3_def] and half = half_facts [OF n]
  have c1: "set_count (inlatch p - inlatch p mod 2) p = p\<lparr>count := n - n mod 2, count_binary := n - n mod 2\<rparr>"
    using p half(1) by (simp only: set_count_def set_binary_to_count_def) simp
  have "reload_mode3 p = p\<lparr>count := n - n mod 2, count_binary := n - n mod 2, state_bit_1 := odd n,
     next_change_time := (if odd n then n div 2 else n div 2 - 1), null_count := False,
     state_bit_2 := False, first_pass := False\<rparr>"
    unfolding reload_mode3_def c1 using p half(2-5) by (simp add: Let_def)
  moreover have "clock_multiple 1 p = (reload_mode3 p)\<lparr>triggerGATE := False\<rparr>"
    using p by (subst clock_multiple.simps) (simp add: skip_def clock_multiple.simps [of 0] clock_def clock_mode3_def)
  ultimately have "at3 n True (calls p) (n - n mod 2) False (if odd n then n div 2 else n div 2 - 1) (clock_multiple 1 p)"
    using p by (simp add: at3_def)
  then show ?thesis unfolding phase3_def by (cases "odd n") auto
qed

lemma phases:
  assumes "loaded3 n p" and n: "4 \<le> n" "n \<le> 0xFFFF" and "1 + q * ((n + 1) div 2) < 0x80000000"
  shows "phase3 n (even q) (calls p @ map even [1..<Suc q]) (clock_multiple (1 + q * ((n + 1) div 2)) p)"
  using assms(4)
proof (induction q)
  case 0
  then show ?case using first_load [OF assms(1) n] by simp
next
  case (Suc q)
  let ?h = "(n + 1) div 2"
  have "clock_multiple (1 + Suc q * ?h) p = clock_multiple ?h (clock_multiple (1 + q * ?h) p)"
    using clock_multiple_add [of "1 + q * ?h" ?h p] Suc.prems by (simp add: algebra_simps)
  moreover have "phase3 n (even q) (calls p @ map even [1..<Suc q]) (clock_multiple (1 + q * ?h) p)"
    using Suc.prems by (intro Suc.IH) simp
  ultimately have "phase3 n (\<not> even q) ((calls p @ map even [1..<Suc q]) @ [\<not> even q]) (clock_multiple (1 + Suc q * ?h) p)"
    using phase3_run [OF _ n] by metis
  moreover have "[1..<Suc (Suc q)] = [1..<Suc q] @ [Suc q]" by (rule upt_Suc_append) simp
  ultimately show ?case by (simp only: map_append append_assoc list.map even_Suc)
qed

lemma square_wave:
  assumes "GATE c" and "out_handler c" and n: "4 \<le> n" "n \<le> 0xFFFF" and "Suc m < 0x80000000"
  shows "(OUTpin (clock_multiple (Suc m) (programmed3 n c)) \<longleftrightarrow> even (m div ((n + 1) div 2))) \<and>
    calls (clock_multiple (Suc m) (programmed3 n c)) =
      calls (programmed3 n c) @ map even [1..<Suc (m div ((n + 1) div 2))]"
proof -
  let ?h = "(n + 1) div 2" and ?p = "programmed3 n c"
  let ?q = "m div ?h" and ?j = "m mod ?h"
  have h: "0 < ?h" using n by auto
  have m: "Suc m = 1 + ?q * ?h + ?j" using div_mult_mod_eq [of m ?h] by linarith
  have ph: "phase3 n (even ?q) (calls ?p @ map even [1..<Suc ?q]) (clock_multiple (1 + ?q * ?h) ?p)"
    using assms(5) m by (intro phases [OF programmed3_loaded [OF assms(1,2)] n]) linarith
  have "clock_multiple (Suc m) ?p = clock_multiple ?j (clock_multiple (1 + ?q * ?h) ?p)"
    using clock_multiple_add [of "1 + ?q * ?h" ?j ?p] assms(5) m by metis
  moreover have "?j < ?h" using h by simp
  ultimately show ?thesis
    using phase3_run [OF ph n] by metis+
qed

subsection \<open>The timer as the kernel programs it\<close>

text \<open>Port writes to the chip in the order the program makes them: register and byte.\<close>

definition program_count3 :: "nat \<Rightarrow> pit \<Rightarrow> pit" where
  "program_count3 n p = write_pit 0 (n div 256) (write_pit 0 (n mod 256) (write_pit 3 0x36 p))"

lemma program_count3_counters:
  assumes "length (counters p) = 3"
  shows "counters (program_count3 n p) ! 0 = programmed3 n (counters p ! 0)"
    and "length (counters (program_count3 n p)) = 3"
  using three_counters [OF assms]
  by (auto simp: program_count3_def write_pit_def write_control_def upd_def Let_def programmed3_def)

text \<open>C38. The square wave of mode 3, through the ports: programmed with control word 0x36 and a
  count n of at least 4, with its GATE high, the output of counter 0 after \<open>m + 1\<close> clocks, in
  whatever slices, has toggled every \<open>(n + 1) div 2\<close> clocks since the first, and the IRQ handler
  was called with the new level at each toggle. So for odd n the period is \<open>n + 1\<close> clocks.\<close>

theorem timer_square_wave:
  assumes "length (counters p) = 3" and "GATE (counters p ! 0)" and "out_handler (counters p ! 0)"
    and "4 \<le> n" and "n \<le> 0xFFFF" and "Suc m < 0x80000000"
  shows "(read_OUT 0 (tick_loop (Suc m) (program_count3 n p)) \<longleftrightarrow> even (m div ((n + 1) div 2))) \<and>
     calls (counters (tick_loop (Suc m) (program_count3 n p)) ! 0) =
       calls (counters (program_count3 n p) ! 0) @ map even [1..<Suc (m div ((n + 1) div 2))]"
proof -
  note pc = program_count3_counters [OF assms(1), of n]
  have "counters (tick_loop (Suc m) (program_count3 n p)) ! 0 = clock_multiple (Suc m) (programmed3 n (counters p ! 0))"
    using tick_loop_all [OF pc(2) assms(6)] pc by (simp add: all_clocked_def)
  then show ?thesis using square_wave [OF assms(2-6)] pc(1) by (simp add: read_OUT_def)
qed

definition pit_irq :: pit where
  "pit_irq = set_OUT_handler 0 True pit0"

theorem timer_square_wave_witness:
  "read_OUT 0 (tick_loop 11 (program_count3 7 pit_irq)) = True \<and> read_OUT 0 (tick_loop 13 (program_count3 7 pit_irq)) = False"
proof -
  have p: "length (counters pit_irq) = 3" "GATE (counters pit_irq ! 0)" "out_handler (counters pit_irq ! 0)"
    by (simp_all add: pit_irq_def pit0_def counter0_def counter_init_def set_OUT_handler_def upd_def)
  show ?thesis using timer_square_wave [OF p, of 7 10] timer_square_wave [OF p, of 7 12] by simp
qed

lemma rising_edges: "length (filter id (map even [1..<Suc q])) = q div 2"
proof (induction q)
  case (Suc q)
  have "[1..<Suc (Suc q)] = [1..<Suc q] @ [Suc q]" by (rule upt_Suc_append) simp
  then show ?case using Suc by (cases "even q") (auto elim: evenE oddE)
qed simp

text \<open>The timer of the kernel: \<^verbatim>\<open>makeTimerInterrupt\<close> writes 0x36, 0xFF, 0xFF, and from then on
  IRQ 0 is raised once every 65536 clocks of 1193181 Hz, about 18.2 times a second; the comment
  there says 12, and \<^verbatim>\<open>sleep\<close> counts 125 of these ticks as one second.\<close>

theorem kernel_timer_period:
  assumes "length (counters p) = 3" and "GATE (counters p ! 0)" and "out_handler (counters p ! 0)"
    and "Suc m < 0x80000000"
  shows "length (filter id (calls (counters (tick_loop (Suc m)
       (write_pit 0 0xFF (write_pit 0 0xFF (write_pit 3 0x36 p)))) ! 0))) =
     length (filter id (calls (counters (write_pit 0 0xFF (write_pit 0 0xFF (write_pit 3 0x36 p))) ! 0))) + m div 65536"
proof -
  have p: "write_pit 0 0xFF (write_pit 0 0xFF (write_pit 3 0x36 p)) = program_count3 0xFFFF p"
    by (simp add: program_count3_def)
  note pc = program_count3_counters [OF assms(1), of "0xFFFF"]
  have "counters (tick_loop (Suc m) (program_count3 0xFFFF p)) ! 0 =
      clock_multiple (Suc m) (programmed3 0xFFFF (counters p ! 0))"
    using tick_loop_all [OF pc(2) assms(4)] pc by (simp add: all_clocked_def)
  then show ?thesis
    using square_wave [OF assms(2,3), of "0xFFFF" m] assms(4) pc(1) rising_edges [of "m div 32768"]
    unfolding p by (simp del: upt_Suc add: div_mult2_eq [symmetric])
qed

theorem kernel_timer_period_witness:
  "length (filter id (calls (counters (tick_loop 1193182
      (write_pit 0 0xFF (write_pit 0 0xFF (write_pit 3 0x36 pit_irq)))) ! 0))) = 18"
proof -
  have p: "length (counters pit_irq) = 3" "GATE (counters pit_irq ! 0)" "out_handler (counters pit_irq ! 0)"
    by (simp_all add: pit_irq_def pit0_def counter0_def counter_init_def set_OUT_handler_def upd_def)
  have "OUTpin (counters pit_irq ! 0)" "calls (counters pit_irq ! 0) = []"
    by (simp_all add: pit_irq_def pit0_def counter0_def counter_init_def set_OUT_handler_def upd_def)
  then have "calls (counters (program_count3 0xFFFF pit_irq) ! 0) = []"
    using program_count3_counters [OF p(1)] programmed3_calls by simp
  then have "calls (counters (write_pit 0 0xFF (write_pit 0 0xFF (write_pit 3 0x36 pit_irq))) ! 0) = []"
    by (simp add: program_count3_def)
  then show ?thesis using kernel_timer_period [OF p, of 1193181] by simp
qed

subsection \<open>Clocking one clock at a time\<close>

text \<open>The start of a half period, whatever the next event time.\<close>

definition starts3 :: "nat \<Rightarrow> bool \<Rightarrow> counter \<Rightarrow> bool" where
  "starts3 n q c \<longleftrightarrow> (\<exists>cl t. at3 n q cl (n - n mod 2) False t c)"

lemma count_far:
  assumes "decrement (decrement c) = c\<lparr>count := w, count_binary := w\<rparr>" and "w \<noteq> 0" "w \<noteq> 2"
  shows "\<exists>u. count_mode3 c = c\<lparr>count := w, count_binary := w, next_change_time := u\<rparr>"
  unfolding count_mode3_def assms(1) using assms(2,3) by (simp add: Let_def) blast

lemma at3_dec:
  assumes "at3 n q cl v False t c" and "4 < v" and "v \<le> 0xFFFF"
  shows "\<exists>t. at3 n q cl (v - 2) False t (clock c)"
proof -
  have v: "2 \<le> v" "v - 2 \<noteq> 0" "v - 2 \<noteq> 2" using assms(2) by simp_all
  obtain u where "count_mode3 c = c\<lparr>count := v - 2, count_binary := v - 2, next_change_time := u\<rparr>"
    using count_far [OF at3_two [OF assms(1) v(1) assms(3)] v(2,3)] by blast
  then have "at3 n q cl (v - 2) False u (clock c)"
    using at3_count [OF assms(1) v(1) assms(3)] assms(1) by (simp add: at3_def)
  then show ?thesis by blast
qed

lemma at3_decs:
  assumes "at3 n q cl v False t c" and "2 * k + 4 \<le> v" and "v \<le> 0xFFFF"
  shows "\<exists>t. at3 n q cl (v - 2 * k) False t ((clock ^^ k) c)"
  using assms(2)
proof (induction k)
  case 0
  then show ?case using assms(1) by auto
next
  case (Suc k)
  then obtain t where "at3 n q cl (v - 2 * k) False t ((clock ^^ k) c)" by auto
  from at3_dec [OF this] show ?case using Suc.prems assms(3) by simp
qed

text \<open>One half period of an odd count n: \<open>(n + 1) div 2\<close> clocks high, \<open>n div 2\<close> clocks low.\<close>

lemma odd_half:
  assumes "starts3 n q c" and "odd n" "5 \<le> n" "n \<le> 0xFFFF"
  shows "starts3 n (\<not> q) ((clock ^^ (n div 2 + of_bool q)) c) \<and> (\<forall>j < n div 2 + of_bool q. OUTpin ((clock ^^ j) c) = q)"
proof -
  obtain cl t where a: "at3 n q cl (n - 1) False t c" using assms(1,2) by (auto simp: starts3_def odd_iff_mod_2_eq_one)
  let ?k = "n div 2 - 2"
  have n: "n - 1 = 2 * ?k + 4" "4 \<le> n" "n div 2 = ?k + 2" using assms(2,3) by (auto elim!: oddE)
  note dec = at3_decs [OF a]
  have out: "OUTpin ((clock ^^ j) c) = q" if "j \<le> ?k" for j
    using dec [of j] that n assms(4) at3_out by fastforce
  have "2 * ?k + 4 \<le> n - 1" "n - 1 \<le> 0xFFFF" "n - 1 - 2 * ?k = 4" using n(1) assms(4) by linarith+
  then obtain u where "at3 n q cl 4 False u ((clock ^^ ?k) c)" using dec [of ?k] by auto
  from at3_four [OF this] have 2: "at3 n q cl 2 (\<not> q) 1 ((clock ^^ Suc ?k) c)" using assms(2) by simp
  show ?thesis
  proof (cases q)
    case True
    have 0: "at3 n q cl 0 True 1 ((clock ^^ Suc (Suc ?k)) c)" using at3_last [of n q cl 1] 2 True by simp
    have "starts3 n (\<not> q) ((clock ^^ Suc (Suc (Suc ?k))) c)"
      using at3_reload [OF 0 n(2) assms(4)] unfolding starts3_def by auto
    moreover have "OUTpin ((clock ^^ j) c) = q" if j: "j < Suc (Suc (Suc ?k))" for j
    proof -
      consider "j \<le> ?k" | "j = Suc ?k" | "j = Suc (Suc ?k)" using j by linarith
      then show ?thesis using out [of j] at3_out [OF 2] at3_out [OF 0] by cases simp_all
    qed
    moreover have "n div 2 + of_bool q = Suc (Suc (Suc ?k))" using True n(3) by simp
    ultimately show ?thesis by metis
  next
    case False
    have "starts3 n (\<not> q) ((clock ^^ Suc (Suc ?k)) c)"
      using at3_reload [of n q cl 2 1 "(clock ^^ Suc ?k) c"] 2 False n(2) assms(4) unfolding starts3_def by auto
    moreover have "OUTpin ((clock ^^ j) c) = q" if j: "j < Suc (Suc ?k)" for j
    proof -
      consider "j \<le> ?k" | "j = Suc ?k" using j by linarith
      then show ?thesis using out [of j] at3_out [OF 2] by cases simp_all
    qed
    moreover have "n div 2 + of_bool q = Suc (Suc ?k)" using False n(3) by simp
    ultimately show ?thesis by metis
  qed
qed

lemma odd_period:
  assumes "starts3 n True c" and "odd n" "5 \<le> n" "n \<le> 0xFFFF"
  shows "starts3 n True ((clock ^^ (n * k)) c)"
proof (induction k)
  case (Suc k)
  have n: "n = n div 2 + (n div 2 + 1)" using assms(2) by (auto elim!: oddE)
  let ?c = "(clock ^^ (n * k)) c"
  have "starts3 n False ((clock ^^ (n div 2 + 1)) ?c)" using odd_half [OF Suc assms(2-4)] by simp
  from odd_half [OF this assms(2-4)] have "starts3 n True ((clock ^^ (n div 2)) ((clock ^^ (n div 2 + 1)) ?c))" by simp
  then have "starts3 n True ((clock ^^ (n div 2 + (n div 2 + 1) + n * k)) c)"
    by (simp only: funpow_add o_apply)
  moreover have "n div 2 + (n div 2 + 1) + n * k = n * Suc k" by (simp only: n [symmetric] mult_Suc_right)
  ultimately show ?case by (simp only:)
qed (use assms(1) in simp)

lemma loaded3_clock: "loaded3 n p \<Longrightarrow> clock p = clock_multiple 1 p"
  by (subst clock_multiple.simps) (simp add: loaded3_def skip_def clock_multiple.simps [of 0])

text \<open>What skipping to the next event costs: clocked one clock at a time, an odd count n gives
  the 82C54's period of exactly n clocks, \<open>(n + 1) div 2\<close> high and \<open>n div 2\<close> low.\<close>

theorem odd_count_singly:
  assumes "GATE c" and "out_handler c" and "odd n" and "5 \<le> n" and "n \<le> 0xFFFF"
  shows "OUTpin ((clock ^^ Suc m) (programmed3 n c)) \<longleftrightarrow> m mod n < (n + 1) div 2"
proof -
  let ?p = "programmed3 n c" and ?h = "(n + 1) div 2"
  have l: "loaded3 n ?p" by (rule programmed3_loaded [OF assms(1,2)])
  have "starts3 n True (clock ?p)"
    using first_load [OF l] assms(4,5) unfolding loaded3_clock [OF l] phase3_def starts3_def by auto
  from odd_period [OF this assms(3-5)] have st: "starts3 n True ((clock ^^ (n * (m div n))) (clock ?p))" .
  have n: "n = n div 2 + ?h" "?h = n div 2 + 1" using assms(3) by (auto elim!: oddE)
  let ?c = "(clock ^^ (n * (m div n))) (clock ?p)"
  have "Suc m = m mod n + n * (m div n) + 1" by simp
  then have split: "(clock ^^ Suc m) ?p = (clock ^^ (m mod n)) ?c"
    by (metis One_nat_def comp_apply funpow_0 funpow_add funpow_simps_right(2))
  show ?thesis
  proof (cases "m mod n < ?h")
    case True
    then show ?thesis using odd_half [OF st assms(3-5)] n(2) unfolding split by simp
  next
    case False
    let ?j = "m mod n - ?h"
    have low: "starts3 n False ((clock ^^ ?h) ?c)" using odd_half [OF st assms(3-5)] n(2) by simp
    have "m mod n < n" using assms(4) by simp
    then have "?j < n div 2" using n False by linarith
    then have "\<not> OUTpin ((clock ^^ ?j) ((clock ^^ ?h) ?c))" using odd_half [OF low assms(3-5)] by simp
    moreover have "m mod n = ?j + ?h" using False by simp
    ultimately show ?thesis using False unfolding split by (metis comp_apply funpow_add)
  qed
qed

theorem odd_count_singly_witness:
  "OUTpin ((clock ^^ 6) (programmed3 5 (counters pit_irq ! 0))) \<and> \<not> OUTpin ((clock ^^ 5) (programmed3 5 (counters pit_irq ! 0)))"
proof -
  have p: "GATE (counters pit_irq ! 0)" "out_handler (counters pit_irq ! 0)"
    by (simp_all add: pit_irq_def pit0_def counter0_def counter_init_def set_OUT_handler_def upd_def)
  show ?thesis using odd_count_singly [OF p, of 5 5] odd_count_singly [OF p, of 5 4] by (simp only: Suc_numeral) simp
qed


subsection \<open>Decrementing many times at once\<close>

definition good_count :: "counter \<Rightarrow> bool" where
  "good_count c \<longleftrightarrow>
     (if bcd_mode c then count_binary c \<le> 9999 \<and> count c = bcd_of (count_binary c)
      else count_binary c \<le> 0xFFFF \<and> count c = count_binary c)"

lemma bcd_digits: "n \<le> 9999 \<Longrightarrow> n = n mod 10 + 10 * (n div 10 mod 10) + 100 * (n div 100 mod 10) + 1000 * (n div 1000 mod 10)"
  for n :: nat
proof -
  assume "n \<le> 9999"
  then have "n div 1000 < 10" by auto
  then have "n div 1000 mod 10 = n div 1000" by (rule mod_less)
  moreover have "n = 10 * (n div 10) + n mod 10" "n div 10 = 10 * (n div 100) + n div 10 mod 10"
    "n div 100 = 10 * (n div 1000) + n div 100 mod 10"
    using div_mult2_eq [of n 10 10] div_mult2_eq [of n 100 10] by (simp_all only: mult_div_mod_eq) simp_all
  ultimately show ?thesis by linarith
qed

lemma bcd_of_0: "n \<le> 9999 \<Longrightarrow> bcd_of n = 0 \<longleftrightarrow> n = 0"
  using bcd_digits [of n] by (auto simp: bcd_of_def)

lemma of_bcd_of: "n \<le> 9999 \<Longrightarrow> of_bcd (bcd_of n) = n"
proof -
  assume n: "n \<le> 9999"
  define a b c d where "a = n mod 10" and "b = n div 10 mod 10" and "c = n div 100 mod 10" and "d = n div 1000 mod 10"
  have lt: "a < 10" "b < 10" "c < 10" "d < 10" by (simp_all add: a_def b_def c_def d_def)
  have v: "bcd_of n = a + 16 * (b + 16 * (c + 16 * d))"
    by (simp add: bcd_of_def a_def b_def c_def d_def)
  have nib: "(x + 16 * y) mod 16 = x" "(x + 16 * y) div 16 = y" if "x < 10" for x y :: nat using that by simp_all
  have 1: "bcd_of n mod 16 = a" "bcd_of n div 16 = b + 16 * (c + 16 * d)" using nib [OF lt(1)] unfolding v by blast+
  have 2: "bcd_of n div 16 mod 16 = b" "bcd_of n div 16 div 16 = c + 16 * d" unfolding 1 using nib [OF lt(2)] by blast+
  have 3: "bcd_of n div 16 div 16 mod 16 = c" "bcd_of n div 16 div 16 div 16 = d" unfolding 2 using nib [OF lt(3)] by blast+
  have 4: "bcd_of n div 256 = bcd_of n div 16 div 16" "bcd_of n div 4096 = bcd_of n div 16 div 16 div 16"
    by (simp_all add: div_mult2_eq [symmetric])
  have "d mod 16 = d" using lt by simp
  then have "of_bcd (bcd_of n) = a + 10 * b + 100 * c + 1000 * d" unfolding of_bcd_def 4 1(1) 2(1) 3 by simp
  then show ?thesis using bcd_digits [OF n] by (simp only: a_def b_def c_def d_def)
qed

lemma good_zero: "good_count c \<Longrightarrow> count c = 0 \<longleftrightarrow> count_binary c = 0"
  by (auto simp: good_count_def bcd_of_0 split: if_splits)

lemma good_decrement: "good_count c \<Longrightarrow> good_count (decrement c)"
proof -
  assume g: "good_count c"
  show ?thesis
  proof (cases "count c = 0")
    case True
    have "bcd_of 9999 = 0x9999" by (simp add: bcd_of_def)
    then show ?thesis using True by (simp add: decrement_def good_count_def)
  next
    case False
    then have pos: "count_binary c \<noteq> 0" using good_zero [OF g] by simp
    have "count_binary c \<le> 0xFFFF" using g by (auto simp: good_count_def split: if_splits)
    then have "(count_binary c + 0xFFFFFFFF) mod 0x100000000 = count_binary c - 1" using pos by (simp add: mod_if)
    then show ?thesis using False g by (auto simp: decrement_def good_count_def set_count_to_binary_def split: if_splits)
  qed
qed

lemma dm_one: "good_count c \<Longrightarrow> decrement_multiple 1 c = decrement c"
proof -
  assume g: "good_count c"
  have le: "count_binary c \<le> 0xFFFF" using g by (auto simp: good_count_def split: if_splits)
  show ?thesis
  proof (cases "count_binary c = 0")
    case True
    have "set_count_to_binary (c\<lparr>count_binary := 0\<rparr>) = c"
      using g True by (cases c) (auto simp: good_count_def set_count_to_binary_def split: if_splits)
    then show ?thesis using True by (subst decrement_multiple.simps) simp
  next
    case False
    then have "(count_binary c + 0xFFFFFFFF) mod 0x100000000 = count_binary c - 1" using le by (simp add: mod_if)
    then show ?thesis using False good_zero [OF g] by (subst decrement_multiple.simps) (simp add: decrement_def)
  qed
qed

text \<open>Counting down n clocks in one step of arithmetic is decrementing n times, across any
  number of wrap-arounds, in binary and in BCD, and the 16-bit register stays the encoding of
  the binary value it is read back from.\<close>

theorem decrement_multiple_iterates:
  assumes "good_count c"
  shows "decrement_multiple n c = (decrement ^^ n) c \<and> good_count (decrement_multiple n c) \<and>
     set_binary_to_count (decrement_multiple n c) = decrement_multiple n c"
proof (induction n)
  case 0
  have "set_binary_to_count c = c"
    using assms by (cases c) (auto simp: good_count_def set_binary_to_count_def of_bcd_of split: if_splits)
  then show ?case using assms by simp
next
  case (Suc n)
  have step: "decrement_multiple (Suc n) c = decrement (decrement_multiple n c)"
    using dm_add [of n 1 c] dm_one [of "decrement_multiple n c"] Suc unfolding Suc_eq_plus1 by metis
  have g: "good_count (decrement (decrement_multiple n c))" using Suc by (intro good_decrement) blast
  have "set_binary_to_count d = d" if "good_count d" for d
    using that by (cases d) (auto simp: good_count_def set_binary_to_count_def of_bcd_of split: if_splits)
  then show ?case using Suc g by (simp add: step)
qed

theorem decrement_multiple_iterates_witness:
  "decrement_multiple 20003 (counter0\<lparr>bcd_mode := True\<rparr>) = (decrement ^^ 20003) (counter0\<lparr>bcd_mode := True\<rparr>)"
proof -
  have "good_count (counter0\<lparr>bcd_mode := True\<rparr>)" by (simp add: counter0_def counter_init_def good_count_def bcd_of_def)
  from decrement_multiple_iterates [OF this] show ?thesis by blast
qed

subsection \<open>Latched reads\<close>

definition latch_view :: "counter \<Rightarrow> nat \<times> bool \<times> bool \<times> bool \<times> rw_status" where
  "latch_view c = (outlatch c, count_LSB_latched c, count_MSB_latched c, status_latched c, read_state c)"

lemma latch_view_simps [simp]:
  "latch_view (decrement c) = latch_view c"
  "latch_view (set_count d c) = latch_view c"
  "latch_view (set_OUT b c) = latch_view c"
  "latch_view (set_count_to_binary c) = latch_view c"
  "latch_view (c\<lparr>count_binary := d\<rparr>) = latch_view c"
  "latch_view (c\<lparr>next_change_time := d\<rparr>) = latch_view c"
  "latch_view (c\<lparr>null_count := b\<rparr>) = latch_view c"
  "latch_view (c\<lparr>first_pass := b\<rparr>) = latch_view c"
  "latch_view (c\<lparr>state_bit_1 := b\<rparr>) = latch_view c"
  "latch_view (c\<lparr>state_bit_2 := b\<rparr>) = latch_view c"
  "latch_view (c\<lparr>triggerGATE := b\<rparr>) = latch_view c"
  by (simp_all add: latch_view_def decrement_def set_count_def set_binary_to_count_def
      set_count_to_binary_def set_OUT_def)

lemma latch_view_dm [simp]: "latch_view (decrement_multiple n c) = latch_view c"
  by (induction n c rule: decrement_multiple.induct) (subst decrement_multiple.simps, simp)

lemmas latch_view_if = if_distrib [of latch_view]

lemma latch_view_clock [simp]: "latch_view (clock c) = latch_view c"
  by (simp only: clock_def clock_mode0_def clock_mode1_def clock_mode2_def clock_mode3_def clock_mode4_def
      clock_mode5_def reload_mode3_def count_mode3_def strobe_step_def Let_def latch_view_if latch_view_simps if_cancel)

lemma latch_view_multiple: "latch_view (clock_multiple n c) = latch_view c"
  by (induction n c rule: clock_multiple.induct)
     (subst clock_multiple.simps, simp add: free_run_def skip_def)

text \<open>A latched count is read back whole: after the latch command for counter i (programmed
  for two-byte access, nothing latched), the next two reads of it return the low and the high
  byte of the count at the time of the command, whatever clocks pass before and between
  them.\<close>

theorem latched_count_reads:
  assumes "length (counters p) = 3" and "i < 3" and "read_state (counters p ! i) = LSByte_multiple"
    and "\<not> count_LSB_latched (counters p ! i)" and "\<not> count_MSB_latched (counters p ! i)"
    and "\<not> status_latched (counters p ! i)" and "m < 0x80000000" and "n < 0x80000000"
    and "read_pit i (tick_loop m (write_pit 3 (64 * i) p)) = (lo, q)"
    and "read_pit i (tick_loop n q) = (hi, r)"
  shows "lo + 256 * hi = count (counters p ! i) mod 0x10000"
proof -
  let ?c = "counters p ! i" and ?v = "count (counters p ! i) mod 0x10000"
  have w: "write_pit 3 (64 * i) p = upd i latch_counter (p\<lparr>controlword := 64 * i\<rparr>)"
    using assms(2) by (auto simp: write_pit_def write_control_def Let_def)
  let ?p1 = "write_pit 3 (64 * i) p"
  have l1: "length (counters ?p1) = 3" "latch_view (counters ?p1 ! i) = (?v, True, True, False, LSByte_multiple)"
    using assms(1-6) unfolding w by (simp_all add: upd_def latch_counter_def latch_view_def)
  let ?c2 = "clock_multiple m (counters ?p1 ! i)"
  have l2: "latch_view ?c2 = (?v, True, True, False, LSByte_multiple)" using l1(2) latch_view_multiple by simp
  have t2: "tick_loop m ?p1 = all_clocked m ?p1" by (rule tick_loop_all [OF l1(1) assms(7)])
  then have c2: "counters (tick_loop m ?p1) ! i = ?c2" using l1(1) assms(2) by (simp add: all_clocked_def)
  have r2: "read_counter ?c2 = (?v mod 256, ?c2\<lparr>read_state := MSByte_multiple, count_LSB_latched := False\<rparr>)"
    using l2 by (simp add: read_counter_def latch_view_def Let_def)
  then have lo: "lo = ?v mod 256" and q: "counters q ! i = ?c2\<lparr>read_state := MSByte_multiple, count_LSB_latched := False\<rparr>"
    "length (counters q) = 3"
    using assms(2,9) l1(1) t2 c2 by (auto simp: read_pit_def upd_def all_clocked_def)
  let ?c3 = "clock_multiple n (counters q ! i)"
  have "latch_view (counters q ! i) = (?v, False, True, False, MSByte_multiple)"
    using l2 unfolding q(1) by (simp add: latch_view_def)
  then have l3: "latch_view ?c3 = (?v, False, True, False, MSByte_multiple)" by (simp only: latch_view_multiple)
  have t3: "tick_loop n q = all_clocked n q" by (rule tick_loop_all [OF q(2) assms(8)])
  have "fst (read_counter ?c3) = ?v div 256 mod 256" using l3 by (simp add: read_counter_def latch_view_def Let_def)
  then have "hi = ?v div 256 mod 256" using assms(2,10) q(2) unfolding t3
    by (auto simp: read_pit_def all_clocked_def split: prod.splits)
  moreover have "?v div 256 < 256" by (simp add: less_mult_imp_div_less)
  ultimately show ?thesis unfolding lo by simp
qed

lemma latch_view_write: "latch_view (write_initial_count d c) = latch_view c"
proof -
  have u: "latch_view (c\<lparr>inlatch := a, write_state := w\<rparr>) = latch_view c"
    "latch_view (c\<lparr>inlatch := a, count_written := b\<rparr>) = latch_view c"
    "latch_view (c\<lparr>write_state := w, inlatch := a, count_written := b\<rparr>) = latch_view c" for a w b
    by (simp_all add: latch_view_def)
  show ?thesis
    by (cases "write_state c") (simp_all only: write_initial_count_def Let_def latch_view_if latch_view_simps
        if_cancel rw_status.case u)
qed

theorem latched_count_reads_witness:
  "fst (read_pit 0 (tick_loop 5 (write_pit 3 0 (program_count3 0x1234 pit_irq)))) +
   256 * fst (read_pit 0 (tick_loop 7 (snd (read_pit 0 (tick_loop 5 (write_pit 3 0 (program_count3 0x1234 pit_irq))))))) =
   count (counters (program_count3 0x1234 pit_irq) ! 0) mod 0x10000"
proof -
  let ?p = "program_count3 0x1234 pit_irq"
  have i: "length (counters pit_irq) = 3"
    by (simp add: pit_irq_def pit0_def set_OUT_handler_def upd_def)
  have "latch_view (programmed3 n c) = (outlatch c, False, False, False, LSByte_multiple)" for n c
    unfolding programmed3_def latch_view_write by (simp add: control_0x36 latch_view_def set_OUT_def)
  then have "latch_view (counters ?p ! 0) = (outlatch (counters pit_irq ! 0), False, False, False, LSByte_multiple)"
    using program_count3_counters(1) [OF i] by simp
  then have v: "read_state (counters ?p ! 0) = LSByte_multiple" "\<not> count_LSB_latched (counters ?p ! 0)"
    "\<not> count_MSB_latched (counters ?p ! 0)" "\<not> status_latched (counters ?p ! 0)"
    by (simp_all add: latch_view_def)
  show ?thesis
    by (rule latched_count_reads [OF program_count3_counters(2) [OF i] _ v, of 5 7, unfolded mult_zero_right,
          OF _ _ _ surjective_pairing surjective_pairing]) simp_all
qed

text \<open>The 32-bit product in \<^verbatim>\<open>TICKS_TO_USEC\<close> wraps: the wrapper may wake up too early, never too
  late.\<close>

lemma ticks_to_usec_early:
  "ticks_to_usec a \<le> a * 1000000 div 1193181" "ticks_to_usec 32767 = 2264" "32767 * 1000000 div 1193181 = (27461::nat)"
  by (simp_all add: ticks_to_usec_def div_le_mono)

end
