(* ===== verification/OS_Clock.thy ===== *)
theory OS_Clock
  imports OS_Sched Bochs_PIT "HOL-Library.Sublist"
begin

section \<open>From the crystal to the scheduler\<close>

text \<open>
  Composes the timer device of the emulator (\<open>Bochs_PIT\<close>), its interrupt controllers
  (\<open>Bochs_PIC\<close>), the part of \<^verbatim>\<open>cpu/cpu.cc\<close> that takes an interrupt, and the timer routine
  of the kernel (\<^verbatim>\<open>timer_ISR\<close> of \<^verbatim>\<open>project6/kernel.asm\<close>, then \<open>OS_Sched\<close>): what the
  scheduler sees of elapsed time. The model is that of a running process with the interrupt flag
  set; \<open>Bochs_Events\<close> has the conditions under which the CPU takes an interrupt.
\<close>

subsection \<open>The machine\<close>

record clocked =
  hardware :: pit_dev
  processes :: procs

text \<open>The timer setup in \<^verbatim>\<open>makeTimerInterrupt\<close>.\<close>

definition makeTimerInterrupt :: "pit \<Rightarrow> pit" where
  "makeTimerInterrupt p = write_pit 0 0xFF (write_pit 0 0xFF (write_pit 3 0x36 p))"

text \<open>The timer routine: end of interrupt, then the scheduler with the segment and the stack
  pointer of the interrupted process.\<close>

definition timer_ISR :: "int \<Rightarrow> int \<Rightarrow> clocked \<Rightarrow> clocked" where
  "timer_ISR ss sp M =
     M\<lparr>hardware := (hardware M)\<lparr>pic_lines := pic_write 0x20 0x20 (pic_lines (hardware M))\<rparr>,
       processes := snd (handleTimerInterrupt ss sp (processes M))\<rparr>"

text \<open>\<^verbatim>\<open>handleAsyncEvent\<close>: when INTR is up, acknowledge and enter the routine of the vector.
  The kernel sets up vector 8; the others are the BIOS's, a parameter.\<close>

definition handleAsyncEvent ::
    "(byte \<Rightarrow> clocked \<Rightarrow> clocked) \<Rightarrow> int \<Rightarrow> int \<Rightarrow> clocked \<Rightarrow> clocked" where
  "handleAsyncEvent bios ss sp M =
     (if intr (pic_lines (hardware M)) then
        (let (vector, l) = IAC (pic_lines (hardware M));
             M1 = M\<lparr>hardware := (hardware M)\<lparr>pic_lines := l\<rparr>\<rparr>
         in if vector = 8 then timer_ISR ss sp M1 else bios vector M1)
      else M)"

text \<open>\<open>u\<close> microseconds pass, then the CPU looks for interrupts; \<open>ss\<close> and \<open>sp\<close> are the stack of
  the running process.\<close>

definition elapse :: "(byte \<Rightarrow> clocked \<Rightarrow> clocked) \<Rightarrow> nat \<times> int \<times> int \<Rightarrow> clocked \<Rightarrow> clocked" where
  "elapse bios e M =
     (case e of (u, ss, sp) \<Rightarrow> handleAsyncEvent bios ss sp (M\<lparr>hardware := periodic u (hardware M)\<rparr>))"

subsection \<open>The handler calls of a slice\<close>

definition forget :: "counter \<Rightarrow> counter" where
  "forget c = c\<lparr>calls := []\<rparr>"

lemma forget_idem [simp]: "forget (forget c) = forget c"
  by (simp add: forget_def)

lemma forget_calls: "calls c = [] \<Longrightarrow> forget c = c"
  by (simp add: forget_def)

lemma forget_fields [simp]:
  "calls (forget c) = []" "count (forget c) = count c" "count_binary (forget c) = count_binary c"
  "mode (forget c) = mode c" "GATE (forget c) = GATE c" "next_change_time (forget c) = next_change_time c"
  "bcd_mode (forget c) = bcd_mode c" "count_written (forget c) = count_written c"
  "first_pass (forget c) = first_pass c" "write_state (forget c) = write_state c" "OUTpin (forget c) = OUTpin c"
  "inlatch (forget c) = inlatch c" "null_count (forget c) = null_count c" "triggerGATE (forget c) = triggerGATE c"
  "state_bit_1 (forget c) = state_bit_1 c" "state_bit_2 (forget c) = state_bit_2 c"
  "out_handler (forget c) = out_handler c"
  by (simp_all add: forget_def)

lemma forget_set_count_to_binary: "forget (set_count_to_binary c) = set_count_to_binary (forget c)"
  and forget_set_count: "forget (set_count d c) = set_count d (forget c)"
  by (simp_all add: forget_def set_count_to_binary_def set_count_def set_binary_to_count_def)

lemma forget_decrement: "forget (decrement c) = decrement (forget c)"
  by (simp add: forget_def decrement_def set_count_to_binary_def)

lemma forget_dm: "forget (decrement_multiple n c) = decrement_multiple n (forget c)"
proof (induction n c rule: decrement_multiple.induct)
  case (1 n c)
  have s: "forget (decrement (set_count_to_binary (c\<lparr>count_binary := k\<rparr>))) =
      decrement (set_count_to_binary ((forget c)\<lparr>count_binary := k\<rparr>))" for k
    by (simp add: forget_def decrement_def set_count_to_binary_def)
  have t: "forget (set_count_to_binary (c\<lparr>count_binary := k\<rparr>)) = set_count_to_binary ((forget c)\<lparr>count_binary := k\<rparr>)" for k
    by (simp add: forget_def set_count_to_binary_def)
  show ?case
    using 1 by (subst (1 2) decrement_multiple.simps) (simp add: s t)
qed

lemma forget_set_OUT: "forget (set_OUT v c) = (forget c)\<lparr>OUTpin := v\<rparr>"
  by (simp add: set_OUT_def forget_def)

text \<open>An update of other fields commutes with it.\<close>

lemma forget_upd:
  "forget (c\<lparr>next_change_time := t\<rparr>) = (forget c)\<lparr>next_change_time := t\<rparr>"
  "forget (c\<lparr>null_count := b\<rparr>) = (forget c)\<lparr>null_count := b\<rparr>"
  "forget (c\<lparr>first_pass := b\<rparr>) = (forget c)\<lparr>first_pass := b\<rparr>"
  "forget (c\<lparr>state_bit_1 := b\<rparr>) = (forget c)\<lparr>state_bit_1 := b\<rparr>"
  "forget (c\<lparr>state_bit_2 := b\<rparr>) = (forget c)\<lparr>state_bit_2 := b\<rparr>"
  "forget (c\<lparr>triggerGATE := b\<rparr>) = (forget c)\<lparr>triggerGATE := b\<rparr>"
  by (simp_all add: forget_def)

lemmas forget_ops = forget_set_OUT forget_upd forget_set_count forget_decrement

lemma forget_reads:
  "count (decrement (forget c)) = count (decrement c)"
  "count_binary (decrement (forget c)) = count_binary (decrement c)"
  "count_binary (set_count n (forget c)) = count_binary (set_count n c)"
  "null_count (decrement (forget c)) = null_count (decrement c)"
  "state_bit_1 (decrement (forget c)) = state_bit_1 (decrement c)"
  by (simp_all add: forget_def decrement_def set_count_to_binary_def set_count_def set_binary_to_count_def)

lemma forget_modes:
  "forget (clock_mode0 c) = forget (clock_mode0 (forget c))" "forget (clock_mode1 c) = forget (clock_mode1 (forget c))"
  "forget (clock_mode2 c) = forget (clock_mode2 (forget c))"
  by (simp_all add: clock_mode0_def clock_mode1_def clock_mode2_def Let_def forget_ops forget_reads if_distrib [of forget])

lemma forget_mode3: "forget (clock_mode3 c) = forget (clock_mode3 (forget c))"
proof -
  have "forget (reload_mode3 c) = forget (reload_mode3 (forget c))"
    by (simp add: reload_mode3_def Let_def forget_ops forget_reads if_distrib [of forget])
  moreover have "forget (count_mode3 c) = forget (count_mode3 (forget c))"
  proof -
    have d: "decrement (decrement (forget c)) = forget (decrement (decrement c))" by (simp add: forget_decrement)
    let ?c1 = "decrement (decrement c)"
    show ?thesis
      unfolding count_mode3_def d
      by (cases "count ?c1 = 0"; cases "count ?c1 = 2"; cases "OUTpin ?c1 \<and> state_bit_1 ?c1")
         (simp_all add: Let_def forget_upd)
  qed
  ultimately show ?thesis by (simp add: clock_mode3_def forget_ops if_distrib [of forget])
qed

lemma forget_strobe: "forget (strobe_step c) = forget (strobe_step (forget c))"
  by (simp add: strobe_step_def Let_def forget_ops forget_reads if_distrib [of forget])

lemma forget_mode45:
  "forget (clock_mode4 c) = forget (clock_mode4 (forget c))" "forget (clock_mode5 c) = forget (clock_mode5 (forget c))"
proof -
  have high: "forget (strobe_step (set_OUT True c)) = forget (strobe_step (set_OUT True (forget c)))" for c
    using forget_strobe [of "set_OUT True c"] forget_strobe [of "set_OUT True (forget c)"] by (simp add: forget_set_OUT)
  have out: "inlatch (set_OUT v c) = inlatch c" "null_count (set_OUT v c) = null_count c"
    "triggerGATE (set_OUT v c) = triggerGATE c" "GATE (set_OUT v c) = GATE c" for v c
    by (simp_all add: set_OUT_def)
  have cut: "count_binary (set_count n (set_OUT v c)) = count_binary (set_count n c)"
    "GATE (set_count n c) = GATE c" for n v c
    by (simp_all add: set_OUT_def set_count_def set_binary_to_count_def)
  show "forget (clock_mode4 c) = forget (clock_mode4 (forget c))"
    using high [of c] forget_strobe [of c]
    by (cases "OUTpin c") (simp_all add: clock_mode4_def Let_def out cut forget_ops forget_reads if_distrib [of forget])
  show "forget (clock_mode5 c) = forget (clock_mode5 (forget c))"
    using high [of c] forget_strobe [of c]
    by (cases "OUTpin c") (simp_all add: clock_mode5_def Let_def out cut forget_ops forget_reads if_distrib [of forget])
qed

lemma forget_clock: "forget (clock c) = forget (clock (forget c))"
  using forget_modes [of c] forget_mode3 [of c] forget_mode45 [of c] by (simp add: clock_def forget_upd)

lemma forget_clock_multiple: "forget (clock_multiple n c) = forget (clock_multiple n (forget c))"
proof (induction n arbitrary: c rule: less_induct)
  case (less n c)
  have skip: "forget (skip k d) = skip k (forget d)" and free: "forget (free_run k d) = free_run k (forget d)" for k d
    by (simp_all add: skip_def free_run_def forget_dm)
  show ?case
  proof (cases "n = 0 \<or> next_change_time c = 0 \<or> mode c > 5 \<or> next_change_time c > n")
    case True
    then show ?thesis
      by (subst (1 2) clock_multiple.simps) (auto simp: free skip forget_upd)
  next
    case False
    let ?t = "next_change_time c"
    have "clock_multiple n c = clock_multiple (n - ?t) (clock (skip (?t - 1) c))"
      "clock_multiple n (forget c) = clock_multiple (n - ?t) (clock (skip (?t - 1) (forget c)))"
      using False by (subst clock_multiple.simps; simp)+
    moreover have "forget (clock (skip (?t - 1) c)) = forget (clock (skip (?t - 1) (forget c)))"
      using forget_clock [of "skip (?t - 1) c"] by (simp add: skip)
    moreover have "n - ?t < n" using False by simp
    ultimately show ?thesis
      using less.IH [of "n - ?t" "clock (skip (?t - 1) c)"] less.IH [of "n - ?t" "clock (skip (?t - 1) (forget c))"]
      by simp
  qed
qed

text \<open>Counter 0 after \<open>t\<close> clocks since it was programmed with \<open>n\<close>, every handler call delivered.\<close>

definition wave :: "nat \<Rightarrow> nat \<Rightarrow> counter \<Rightarrow> bool" where
  "wave n t c \<longleftrightarrow>
     (if t = 0 then loaded3 n c \<and> calls c = []
      else \<exists>c0. phase3 n (even ((t - 1) div ((n + 1) div 2))) [] c0 \<and>
             c = clock_multiple ((t - 1) mod ((n + 1) div 2)) c0)"

lemma phase3_forget: "phase3 n q cl c \<Longrightarrow> phase3 n q [] (forget c)"
  by (auto simp: phase3_def at3_def)

lemma phase_slice:
  assumes ph: "phase3 n q [] c0" and n: "4 \<le> n" "n \<le> 0xFFFF" and j: "j < (n + 1) div 2" and k: "k \<le> (n + 1) div 2"
  defines "h \<equiv> (n + 1) div 2"
  shows "if j + k < h then calls (clock_multiple k (clock_multiple j c0)) = [] \<and>
            forget (clock_multiple k (clock_multiple j c0)) = clock_multiple (j + k) c0
         else calls (clock_multiple k (clock_multiple j c0)) = [\<not> q] \<and>
            (\<exists>c1. phase3 n (\<not> q) [] c1 \<and> forget (clock_multiple k (clock_multiple j c0)) = clock_multiple (j + k - h) c1)"
proof -
  have h: "h \<le> 0x8000" using n unfolding h_def by linarith
  have add: "clock_multiple k (clock_multiple j c0) = clock_multiple (j + k) c0"
    using j k h unfolding h_def by (intro clock_multiple_add [symmetric]) linarith
  note run = phase3_run [OF ph n, folded h_def]
  show ?thesis
  proof (cases "j + k < h")
    case True
    then show ?thesis using run by (simp add: add forget_calls)
  next
    case False
    let ?c1 = "clock_multiple h c0" and ?j = "j + k - h"
    have "clock_multiple (h + ?j) c0 = clock_multiple ?j ?c1"
      using j k h unfolding h_def by (intro clock_multiple_add) linarith
    then have c: "clock_multiple (j + k) c0 = clock_multiple ?j ?c1" using False by simp
    have j': "?j < h" using j k False unfolding h_def by linarith
    have p1: "phase3 n (\<not> q) [\<not> q] ?c1" using run by simp
    have "calls (clock_multiple ?j ?c1) = [\<not> q]" using phase3_run [OF p1 n, folded h_def] j' by blast
    moreover have "calls (clock_multiple ?j (forget ?c1)) = []"
      using phase3_run [OF phase3_forget [OF p1] n, folded h_def] j' by blast
    then have "forget (clock_multiple ?j ?c1) = clock_multiple ?j (forget ?c1)"
      using forget_clock_multiple [of ?j ?c1] forget_calls by metis
    ultimately show ?thesis using False phase3_forget [OF p1] by (auto simp: add c)
  qed
qed

lemma one_more: "r < H \<Longrightarrow> (q * H + (H + r)) div H = Suc q \<and> (q * H + (H + r)) mod H = r" for q :: nat
proof -
  assume r: "r < H"
  have "q * H + (H + r) = r + Suc q * H" by simp
  then show ?thesis using r by (simp only: div_mult_self1 mod_mult_self1) simp
qed

lemma wave_slice:
  assumes w: "wave n t c" and n: "4 \<le> n" "n \<le> 0xFFFF" and k: "k \<le> (n + 1) div 2"
  shows "calls (clock_multiple k c) = map even [Suc ((t - 1) div ((n + 1) div 2)) ..< Suc ((t + k - 1) div ((n + 1) div 2))]"
    and "wave n (t + k) (forget (clock_multiple k c))"
proof -
  let ?h = "(n + 1) div 2"
  have h: "0 < ?h" "?h \<le> 0x8000" using n by linarith+
  have "calls (clock_multiple k c) = map even [Suc ((t - 1) div ?h) ..< Suc ((t + k - 1) div ?h)] \<and>
     wave n (t + k) (forget (clock_multiple k c))"
  proof (cases "t = 0")
    case True
    then have l: "loaded3 n c" "calls c = []" using w by (simp_all add: wave_def)
    have ph: "phase3 n True [] (clock_multiple 1 c)" using first_load [OF l(1) n] l(2) by simp
    show ?thesis
    proof (cases k)
      case 0
      then show ?thesis using True w l(2) by (simp add: clock_multiple.simps [of 0] forget_calls)
    next
      case (Suc i)
      have i: "i < ?h" using k Suc by simp
      have c: "clock_multiple k c = clock_multiple i (clock_multiple 1 c)"
        using Suc k h clock_multiple_add [of 1 i c] by simp
      have "calls (clock_multiple k c) = []" using phase3_run [OF ph n] i unfolding c by blast
      then show ?thesis using True Suc i ph c by (auto simp: wave_def forget_calls)
    qed
  next
    case False
    define s where "s = t - 1"
    have t: "t = Suc s" using False by (simp add: s_def)
    obtain c0 where c0: "phase3 n (even (s div ?h)) [] c0" "c = clock_multiple (s mod ?h) c0"
      using w unfolding wave_def t by auto
    have j: "s mod ?h < ?h" using h(1) by simp
    note S = phase_slice [OF c0(1) n j k, folded c0(2)]
    have e: "s + k = s div ?h * ?h + (s mod ?h + k)" using div_mult_mod_eq [of s ?h] by linarith
    have small: "s mod ?h + k < 2 * ?h" using j k by linarith
    show ?thesis
    proof (cases "s mod ?h + k < ?h")
      case True
      have "(s + k) div ?h = s div ?h" "(s + k) mod ?h = s mod ?h + k"
        using True h(1) by (subst e, simp)+
      then show ?thesis using S True c0(1) by (auto simp: wave_def t)
    next
      case False
      define r where "r = s mod ?h + k - ?h"
      have r: "s mod ?h + k = ?h + r" "r < ?h" using False small by (auto simp: r_def)
      have "(s + k) div ?h = Suc (s div ?h)" "(s + k) mod ?h = r"
        using one_more [OF r(2), of "s div ?h"] unfolding e r(1) by simp_all
      then show ?thesis using S False by (auto simp: wave_def t r_def)
    qed
  qed
  then show "calls (clock_multiple k c) = map even [Suc ((t - 1) div ?h) ..< Suc ((t + k - 1) div ?h)]"
    "wave n (t + k) (forget (clock_multiple k c))" by blast+
qed

subsection \<open>The interrupt lines\<close>

text \<open>The controllers between two timer interrupts, set up as the BIOS leaves them and with no
  device requesting; \<open>hi\<close> is the level of IRQ 0.\<close>

definition quiet :: "bool \<Rightarrow> pics \<Rightarrow> bool" where
  "quiet hi s \<longleftrightarrow> \<not> INTpin (master s) \<and> \<not> intr s \<and> lowest_priority (master s) = 7 \<and>
     \<not> special_mask (master s) \<and> \<not> auto_eoi (master s) \<and> interrupt_offset (master s) = 0x08 \<and>
     \<not> bit (imr (master s)) 0 \<and> \<not> bit (edge_level (master s)) 0 \<and>
     isr (master s) = 0 \<and> irr (master s) = 0 \<and> bit (IRQ_in (master s)) 0 = hi"

lemma no_request: "irr p = 0 \<Longrightarrow> service_pick p = None"
  by (simp add: service_pick_def Let_def split: option.splits)

lemma quiet_lower: "quiet hi s \<Longrightarrow> quiet False (lower_irq 0 s)"
  by (auto simp: quiet_def lower_irq_def Let_def line_bit bit_simps irq_bit_simps)

lemma quiet_raise:
  assumes "quiet False s"
  obtains l where "intr (raise_irq 0 s)" and "IAC (raise_irq 0 s) = (8, l)" and "quiet True (pic_write 0x20 0x20 l)"
proof -
  note r = assms [unfolded quiet_def]
  let ?p = "(master s)\<lparr>IRQ_in := IRQ_in (master s) OR irq_bit 0, irr := irq_bit 0\<rparr>"
  have "wanted ?p 0" using r by (simp add: wanted_def bit_simps irq_bit_simps)
  then have pick: "service_pick ?p = Some 0" using r by (intro pick_top) simp_all
  have raised: "raise_irq 0 s = s\<lparr>master := ?p\<lparr>INTpin := True, irq := 0\<rparr>, intr := True\<rparr>"
    using r pick line_bit [of "IRQ_in (master s)" 0]
    by (simp add: raise_irq_def raise_master_def service_master_pic_def Let_def)
  have nz: "irq_bit 0 \<noteq> 0" by (metis irq_bit_simps(1) bit_0_eq bot_apply bot_bool_def zero_less_numeral)
  let ?q = "(master s)\<lparr>IRQ_in := IRQ_in (master s) OR irq_bit 0, irq := 0, INTpin := False,
     irr := 0, isr := irq_bit 0\<rparr>"
  have "service_pick ?q = None" by (rule no_request) simp
  then have iac: "IAC (raise_irq 0 s) = (8, s\<lparr>intr := False, master := ?q\<rparr>)"
    using r nz by (simp add: raised IAC_def take_irq_def Let_def service_master_pic_def)
  have clear: "clear_highest_interrupt ?q = ?q\<lparr>isr := 0\<rparr>"
    using r by (simp add: clear_highest_interrupt_def highest_priority_def next_irq_def eval_nat_numeral
        Let_def bit_simps irq_bit_simps)
  have e: "service_pick (?q\<lparr>isr := 0\<rparr>) = None" by (rule no_request) simp
  have "pic_write 0x20 0x20 (s\<lparr>intr := False, master := ?q\<rparr>) = s\<lparr>intr := False, master := ?q\<lparr>isr := 0\<rparr>\<rparr>"
    using e by (simp add: pic_write_def write_master_command_def ocw2_def clear service_master_pic_def)
  then have "quiet True (pic_write 0x20 0x20 (s\<lparr>intr := False, master := ?q\<rparr>))"
    using r by (simp add: quiet_def bit_simps irq_bit_simps)
  then show ?thesis using that iac raised by simp
qed

subsection \<open>One slice\<close>

text \<open>\<open>t\<close> clocks have passed since the timer was programmed; IRQ 0 is low while the output is.\<close>

definition running_clock :: "nat \<Rightarrow> clocked \<Rightarrow> bool" where
  "running_clock t M \<longleftrightarrow>
     (let d = hardware M in
      length (counters (timer d)) = 3 \<and> wave 0xFFFF t (counters (timer d) ! 0) \<and> in_step d \<and>
      (\<exists>hi. quiet hi (pic_lines d) \<and> (hi \<longrightarrow> even ((t - 1) div 0x8000))))"

lemma ticks_due_short:
  assumes "in_step d" and "u \<le> 27000"
  shows "ticks_due u d \<le> 0x8000"
proof -
  have "total_ticks d + ticks_due u d = (total_usec d + u) * 1193181 div 1000000"
    using assms by (intro ticks_due_exact) simp_all
  also have "\<dots> \<le> (total_usec d * 1193181 + 27000 * 1193181) div 1000000"
    using assms(2) by (intro div_le_mono) simp
  also have "\<dots> \<le> total_usec d * 1193181 div 1000000 + 27000 * 1193181 div 1000000 + 1"
    by (simp add: div_add1_eq [of _ "27000 * 1193181"])
  finally show ?thesis using assms(1) by (simp add: in_step_def)
qed

lemma next_level: "k \<le> 0x8000 \<Longrightarrow> (t + k - 1) div 0x8000 \<le> Suc ((t - 1) div 0x8000)" for t k :: nat
proof -
  assume "k \<le> 0x8000"
  then have "(t + k - 1) div 0x8000 \<le> ((t - 1) + 0x8000) div 0x8000" by (intro div_le_mono) simp
  then show ?thesis by simp
qed

lemma half_level: "(t - 1) div 0x10000 = (t - 1) div 0x8000 div 2" for t :: nat
  using div_mult2_eq [of "t - 1" "0x8000" 2] by simp

text \<open>What the device does in a slice.\<close>

lemma periodic_slice:
  assumes "running_clock t M" and "u \<le> 27000"
  defines "k \<equiv> ticks_due u (hardware M)"
  defines "d \<equiv> periodic u (hardware M)"
  shows "length (counters (timer d)) = 3" and "wave 0xFFFF (t + k) (counters (timer d) ! 0)" and "in_step d"
    and "pic_lines d = fold irq_handler (map even [Suc ((t - 1) div 0x8000) ..< Suc ((t + k - 1) div 0x8000)])
           (pic_lines (hardware M))"
proof -
  let ?d0 = "hardware M"
  note r = assms(1) [unfolded running_clock_def Let_def]
  have k: "k \<le> 0x8000" using ticks_due_short r assms(2) unfolding k_def by blast
  have tl: "tick_loop k (timer ?d0) = all_clocked k (timer ?d0)" using r k by (intro tick_loop_all) simp_all
  let ?c = "clock_multiple k (counters (timer ?d0) ! 0)"
  have c: "counters (all_clocked k (timer ?d0)) ! 0 = ?c" using r by (simp add: all_clocked_def)
  have l: "length (counters (all_clocked k (timer ?d0))) = 3" using r by (simp add: all_clocked_def)
  obtain x v where w: "whole_seconds (total_ticks ?d0 + k) (total_usec ?d0 + u) = (x, v)" by fastforce
  have d: "d = deliver (?d0\<lparr>total_ticks := x, total_usec := v, timer := all_clocked k (timer ?d0)\<rparr>)"
    using w by (simp add: d_def periodic_def k_def [symmetric] tl Let_def)
  have t: "timer d = upd 0 forget (all_clocked k (timer ?d0))"
    and p: "pic_lines d = fold irq_handler (calls ?c) (pic_lines ?d0)"
    by (simp_all add: d deliver_def c forget_def [abs_def])
  note W = wave_slice [of "0xFFFF" t "counters (timer ?d0) ! 0" k, simplified]
  show "length (counters (timer d)) = 3" "wave 0xFFFF (t + k) (counters (timer d) ! 0)"
    using W(2) r k l by (simp_all add: t upd_def c)
  show "in_step d" unfolding d_def using r assms(2) by (intro periodic_in_step) simp_all
  show "pic_lines d = fold irq_handler (map even [Suc ((t - 1) div 0x8000) ..< Suc ((t + k - 1) div 0x8000)]) (pic_lines ?d0)"
    using W(1) r k by (simp add: p)
qed

lemma elapse_step:
  assumes r: "running_clock t M" and u: "u \<le> 27000"
  defines "k \<equiv> ticks_due u (hardware M)"
  shows "running_clock (t + k) (elapse bios (u, ss, sp) M)"
    and "processes (elapse bios (u, ss, sp) M) =
           (if (t + k - 1) div 0x10000 = (t - 1) div 0x10000 then processes M else tick sp (processes M))"
    and "(t + k - 1) div 0x10000 \<le> Suc ((t - 1) div 0x10000)"
    and "total_ticks (hardware (elapse bios (u, ss, sp) M)) = total_ticks (periodic u (hardware M))"
    and "total_usec (hardware (elapse bios (u, ss, sp) M)) = total_usec (periodic u (hardware M))"
proof -
  let ?d = "periodic u (hardware M)" and ?q = "(t - 1) div 0x8000" and ?q' = "(t + k - 1) div 0x8000"
  note P = periodic_slice [OF r u, folded k_def]
  obtain hi where hi: "quiet hi (pic_lines (hardware M))" "hi \<longrightarrow> even ?q"
    using r unfolding running_clock_def Let_def by blast
  have "k \<le> 0x8000" using ticks_due_short r u unfolding k_def running_clock_def Let_def by blast
  then have le: "?q' \<le> Suc ?q" by (rule next_level)
  have ge: "?q \<le> ?q'" by (intro div_le_mono) simp
  note half = half_level [of t] half_level [of "t + k"]
  have e: "elapse bios (u, ss, sp) M = handleAsyncEvent bios ss sp (M\<lparr>hardware := ?d\<rparr>)" by (simp add: elapse_def)
  consider (same) "?q' = ?q" | (fall) "?q' = Suc ?q" "even ?q" | (rise) "?q' = Suc ?q" "odd ?q"
    using le ge by linarith
  then have main: "running_clock (t + k) (elapse bios (u, ss, sp) M) \<and>
      processes (elapse bios (u, ss, sp) M) = (if ?q' div 2 = ?q div 2 then processes M else tick sp (processes M)) \<and>
      ?q' div 2 \<le> Suc (?q div 2) \<and> total_ticks (hardware (elapse bios (u, ss, sp) M)) = total_ticks ?d \<and>
      total_usec (hardware (elapse bios (u, ss, sp) M)) = total_usec ?d"
  proof cases
    case same
    then have l: "pic_lines ?d = pic_lines (hardware M)" using P(4) by simp
    then have "elapse bios (u, ss, sp) M = M\<lparr>hardware := ?d\<rparr>"
      using hi(1) by (simp add: e handleAsyncEvent_def quiet_def)
    then show ?thesis using P(1-3) l hi same by (auto simp: running_clock_def)
  next
    case fall
    then have l: "pic_lines ?d = lower_irq 0 (pic_lines (hardware M))" using P(4) by (simp add: irq_handler_def)
    then have q: "quiet False (pic_lines ?d)" using quiet_lower [OF hi(1)] by simp
    then have "elapse bios (u, ss, sp) M = M\<lparr>hardware := ?d\<rparr>" by (simp add: e handleAsyncEvent_def quiet_def)
    then show ?thesis using P(1-3) q fall by (auto simp: running_clock_def elim: evenE)
  next
    case rise
    then have l: "pic_lines ?d = raise_irq 0 (pic_lines (hardware M))" using P(4) by (simp add: irq_handler_def)
    have "quiet False (pic_lines (hardware M))" using hi rise(2) by (cases hi) simp_all
    from quiet_raise [OF this] obtain x where x: "intr (pic_lines ?d)" "IAC (pic_lines ?d) = (8, x)"
      "quiet True (pic_write 0x20 0x20 x)" unfolding l by metis
    define e1 where "e1 = ?d\<lparr>pic_lines := pic_write 0x20 0x20 x\<rparr>"
    have "elapse bios (u, ss, sp) M = M\<lparr>hardware := e1, processes := tick sp (processes M)\<rparr>"
      using x by (simp add: e e1_def handleAsyncEvent_def timer_ISR_def tick_def handleTimerInterrupt_any_segment [of ss _ _ 0])
    moreover have "in_step e1 = in_step ?d" by (simp add: in_step_def e1_def)
    moreover have "even (Suc ?q)" "Suc ?q div 2 = Suc (?q div 2)" using rise(2) by simp_all
    ultimately show ?thesis using P(1-3) x(3) rise by (auto simp: running_clock_def e1_def)
  qed
  then show "running_clock (t + k) (elapse bios (u, ss, sp) M)"
    "processes (elapse bios (u, ss, sp) M) =
       (if (t + k - 1) div 0x10000 = (t - 1) div 0x10000 then processes M else tick sp (processes M))"
    "(t + k - 1) div 0x10000 \<le> Suc ((t - 1) div 0x10000)"
    "total_ticks (hardware (elapse bios (u, ss, sp) M)) = total_ticks ?d"
    "total_usec (hardware (elapse bios (u, ss, sp) M)) = total_usec ?d"
    unfolding half by blast+
qed

subsection \<open>What the scheduler sees of elapsed time\<close>

lemma ticks_run_cong:
  "total_ticks d = total_ticks e \<Longrightarrow> total_usec d = total_usec e \<Longrightarrow> ticks_run us d = ticks_run us e"
proof (induction us arbitrary: d e)
  case (Cons u us)
  have k: "ticks_due u d = ticks_due u e" using Cons.prems by (simp add: ticks_due_def)
  obtain x v where w: "whole_seconds (total_ticks e + ticks_due u e) (total_usec e + u) = (x, v)" by fastforce
  have "total_ticks (periodic u d) = total_ticks (periodic u e)" "total_usec (periodic u d) = total_usec (periodic u e)"
    using w by (simp_all add: periodic_def deliver_def Let_def k Cons.prems)
  from Cons.IH [OF this] show ?case by (simp add: k)
qed simp

lemma elapsed_ticks:
  assumes "running_clock t M" and "list_all (\<lambda>(u, _). u \<le> 27000) es"
  shows "\<exists>ts. subseq ts (map (\<lambda>e. snd (snd e)) es) \<and> processes (fold (elapse bios) es M) = ticks ts (processes M) \<and>
     length ts + (t - 1) div 0x10000 = (t + ticks_run (map fst es) (hardware M) - 1) div 0x10000"
  using assms
proof (induction es arbitrary: t M)
  case (Cons e es)
  obtain u ss sp where e: "e = (u, ss, sp)" by (cases e)
  let ?k = "ticks_due u (hardware M)" and ?M = "elapse bios (u, ss, sp) M"
  have u: "u \<le> 27000" using Cons.prems(2) e by simp
  note S = elapse_step [OF Cons.prems(1) u]
  obtain ts where ts: "subseq ts (map (\<lambda>e. snd (snd e)) es)" "processes (fold (elapse bios) es ?M) = ticks ts (processes ?M)"
    "length ts + (t + ?k - 1) div 0x10000 = (t + ?k + ticks_run (map fst es) (hardware ?M) - 1) div 0x10000"
    using Cons.IH [OF S(1), of bios ss sp] Cons.prems(2) e by (auto simp: comp_def)
  have run: "?k + ticks_run (map fst es) (hardware ?M) = ticks_run (map fst (e # es)) (hardware M)"
    using ticks_run_cong [OF S(4,5)] e by simp
  have ge: "(t - 1) div 0x10000 \<le> (t + ?k - 1) div 0x10000" by (intro div_le_mono) simp
  show ?case
  proof (cases "(t + ?k - 1) div 0x10000 = (t - 1) div 0x10000")
    case True
    then have "processes ?M = processes M" using S(2) by simp
    then show ?thesis
      using ts True by (intro exI [of _ ts]) (simp add: e list_emb_Cons add.assoc [symmetric] run [unfolded e, simplified, symmetric])
  next
    case False
    then have "processes ?M = tick sp (processes M)" "(t + ?k - 1) div 0x10000 = Suc ((t - 1) div 0x10000)"
      using S(2,3) ge by simp_all
    then show ?thesis
      using ts by (intro exI [of _ "sp # ts"]) (simp add: e add.assoc [symmetric] run [unfolded e, simplified, symmetric])
  qed
qed simp

text \<open>The state in which \<^verbatim>\<open>makeTimerInterrupt\<close> leaves the machine: the chip \<open>p\<close> it found had its
  counter 0 gated on, connected to IRQ 0 and high.\<close>

definition timer_started :: "pit \<Rightarrow> bool \<Rightarrow> clocked \<Rightarrow> bool" where
  "timer_started p hi M \<longleftrightarrow>
     length (counters p) = 3 \<and> GATE (counters p ! 0) \<and> out_handler (counters p ! 0) \<and>
     OUTpin (counters p ! 0) \<and> calls (counters p ! 0) = [] \<and>
     in_step (hardware M) \<and> quiet hi (pic_lines (hardware M)) \<and> timer (hardware M) = makeTimerInterrupt p"

lemma programmed_running:
  assumes "timer_started p hi M" shows "running_clock 0 M"
proof -
  note a = assms [unfolded timer_started_def]
  have l: "length (counters p) = 3" "GATE (counters p ! 0)" "out_handler (counters p ! 0)" "OUTpin (counters p ! 0)"
    using a by blast+
  have m: "makeTimerInterrupt p = program_count3 0xFFFF p"
    by (simp add: makeTimerInterrupt_def program_count3_def)
  show ?thesis
    using a programmed3_loaded [OF l(2,3), of "0xFFFF"] programmed3_calls [OF l(4), of "0xFFFF"]
      program_count3_counters [OF l(1), of "0xFFFF"]
    by (auto simp: running_clock_def wave_def m)
qed

lemma ticks_by_time:
  assumes "timer_started p hi M" and "list_all (\<lambda>(u, _). u \<le> 27000) es"
  defines "clocks \<equiv> (total_usec (hardware M) + sum_list (map fst es)) * 1193181 div 1000000 - total_ticks (hardware M)"
  shows "\<exists>ts. subseq ts (map (\<lambda>e. snd (snd e)) es) \<and> length ts = (clocks - 1) div 65536 \<and>
     processes (fold (elapse bios) es M) = ticks ts (processes M)"
proof -
  have "in_step (hardware M)" using assms(1) by (simp add: timer_started_def)
  moreover have "\<forall>u\<in>set (map fst es). u < 0x80000000" using assms(2) by (auto simp: list_all_iff)
  ultimately have "ticks_run (map fst es) (hardware M) = clocks"
    unfolding clocks_def using ticks_run_exact by fastforce
  then show ?thesis using elapsed_ticks [OF programmed_running [OF assms(1)] assms(2), of bios] by auto
qed

text \<open>C5. From the crystal to the scheduler: with the timer programmed by \<^verbatim>\<open>makeTimerInterrupt\<close> and no
  other device requesting, let time pass in any slices of at most 27 ms, the CPU taking
  interrupts after each. Then the scheduler has made exactly one tick per 65536 clocks of
  1193181 Hz, counted from the first clock, with the stack pointers of the processes it
  interrupted, and nothing else has changed the processes.\<close>

theorem scheduler_ticks:
  assumes "timer_started p hi M" and "list_all (\<lambda>(u, _). u \<le> 27000) es"
  shows "\<exists>ts. subseq ts (map (\<lambda>e. snd (snd e)) es) \<and>
     length ts = ((total_usec (hardware M) + sum_list (map fst es)) * 1193181 div 1000000 - total_ticks (hardware M) - 1)
                 div 65536 \<and>
     processes (fold (elapse bios) es M) = ticks ts (processes M)"
  by (rule ticks_by_time [OF assms])


subsection \<open>A run\<close>

definition started :: "procs \<Rightarrow> clocked" where
  "started s =
     \<lparr>hardware = \<lparr>timer = makeTimerInterrupt pit_irq, speaker_data_on = False, beep = None,
        refresh_clock_div2 = False, last_usec = 0, last_next_event_time = 0, total_ticks = 0, total_usec = 0,
        armed = None, pic_lines = pics0\<lparr>master := (master pics0)\<lparr>imr := 0\<rparr>\<rparr>\<rparr>,
      processes = s\<rparr>"

lemma timer_started_demo: "timer_started pit_irq False (started s)"
  by (simp add: timer_started_def started_def pit_irq_def pit0_def counter0_def counter_init_def set_OUT_handler_def
      upd_def in_step_def quiet_def pics0_def pic_c_init_def pic_init_def)

lemma short_slices: "list_all (\<lambda>(u :: nat, _). u \<le> 27000) (replicate k (27000, ss, sp))"
  by (simp add: list_all_iff)

theorem scheduler_ticks_witness:
  "\<exists>ts. length ts = 2 \<and>
     processes (fold (elapse (\<lambda>_ M. M)) (replicate 5 (27000, 0x2000, 7)) (started demo3)) = ticks ts demo3"
proof -
  have k: "processes (started demo3) = demo3" "total_usec (hardware (started demo3)) = 0"
    "total_ticks (hardware (started demo3)) = 0" by (simp_all add: started_def)
  show ?thesis
    using scheduler_ticks [OF timer_started_demo [of demo3] short_slices [of 5 "0x2000" 7], of "\<lambda>_ M. M"]
    unfolding k map_replicate sum_list_replicate by auto
qed


end
