(* ===== verification/Bochs_Flags.thy ===== *)
theory Bochs_Flags
  imports OS_Prelude
begin

unbundle bit_operations_syntax

section \<open>The arithmetic flags of the emulated CPU\<close>

text \<open>
  Models \<^verbatim>\<open>cpu/lazy_flags.h\<close>, \<^verbatim>\<open>cpu/lazy_flags.cc\<close>, the flag accessors and
  \<^verbatim>\<open>SET_FLAGS\<close> macros of \<^verbatim>\<open>cpu/cpu.h\<close> and \<^verbatim>\<open>force_flags\<close> of
  \<^verbatim>\<open>cpu/flag_ctrl_pro.cc\<close>, for the configured build (64-bit support, so a
  \<^verbatim>\<open>bx_address\<close> has 64 bits). An instruction records its operands and result, each
  sign-extended to 64 bits, and which instruction it was; a flag is computed from that record
  when it is asked for, unless its bit in \<^verbatim>\<open>lf_flags_status\<close> is clear and its value is in
  \<^verbatim>\<open>eflags\<close>.
\<close>

subsection \<open>State\<close>

datatype flag = OF | SF | ZF | AF | PF | CF

datatype width = W8 | W16 | W32 | W64

text \<open>The codes \<^verbatim>\<open>BX_LF_INSTR_ADD8\<close> to \<^verbatim>\<open>BX_LF_INSTR_LOGIC64\<close>: an operation at a width.\<close>

datatype lf_op = LF_ADD | LF_ADC | LF_SUB | LF_SBB | LF_INC | LF_DEC | LF_NEG | LF_LOGIC

record lf_entry =
  op1 :: "64 word"
  op2 :: "64 word"
  lf_result :: "64 word"
  instr :: "lf_op \<times> width"

record cpu_flags =
  eflags :: "32 word"
  lf_status :: "32 word"
  oszapc :: lf_entry

subsection \<open>The values of the flags\<close>

definition bx_parity_lookup :: "nat list" where
  "bx_parity_lookup = [
     1, 0, 0, 1, 0, 1, 1, 0, 0, 1, 1, 0, 1, 0, 0, 1,
     0, 1, 1, 0, 1, 0, 0, 1, 1, 0, 0, 1, 0, 1, 1, 0,
     0, 1, 1, 0, 1, 0, 0, 1, 1, 0, 0, 1, 0, 1, 1, 0,
     1, 0, 0, 1, 0, 1, 1, 0, 0, 1, 1, 0, 1, 0, 0, 1,
     0, 1, 1, 0, 1, 0, 0, 1, 1, 0, 0, 1, 0, 1, 1, 0,
     1, 0, 0, 1, 0, 1, 1, 0, 0, 1, 1, 0, 1, 0, 0, 1,
     1, 0, 0, 1, 0, 1, 1, 0, 0, 1, 1, 0, 1, 0, 0, 1,
     0, 1, 1, 0, 1, 0, 0, 1, 1, 0, 0, 1, 0, 1, 1, 0,
     0, 1, 1, 0, 1, 0, 0, 1, 1, 0, 0, 1, 0, 1, 1, 0,
     1, 0, 0, 1, 0, 1, 1, 0, 0, 1, 1, 0, 1, 0, 0, 1,
     1, 0, 0, 1, 0, 1, 1, 0, 0, 1, 1, 0, 1, 0, 0, 1,
     0, 1, 1, 0, 1, 0, 0, 1, 1, 0, 0, 1, 0, 1, 1, 0,
     1, 0, 0, 1, 0, 1, 1, 0, 0, 1, 1, 0, 1, 0, 0, 1,
     0, 1, 1, 0, 1, 0, 0, 1, 1, 0, 0, 1, 0, 1, 1, 0,
     0, 1, 1, 0, 1, 0, 0, 1, 1, 0, 0, 1, 0, 1, 1, 0,
     1, 0, 0, 1, 0, 1, 1, 0, 0, 1, 1, 0, 1, 0, 0, 1]"

text \<open>\<^verbatim>\<open>op1_8\<close> and so on: the record's fields cut to a width.\<close>

abbreviation cut8 :: "64 word \<Rightarrow> 8 word" where "cut8 \<equiv> ucast"
abbreviation cut16 :: "64 word \<Rightarrow> 16 word" where "cut16 \<equiv> ucast"
abbreviation cut32 :: "64 word \<Rightarrow> 32 word" where "cut32 \<equiv> ucast"

text \<open>For the instructions that do not set the carry lazily the code panics and returns 0.\<close>

definition get_CFLazy :: "lf_entry \<Rightarrow> bool" where
  "get_CFLazy e =
     (case instr e of
        (LF_ADD, W64) \<Rightarrow> lf_result e < op1 e
      | (LF_ADD, _) \<Rightarrow> cut32 (lf_result e) < cut32 (op1 e)
      | (LF_ADC, W64) \<Rightarrow> lf_result e \<le> op1 e
      | (LF_ADC, _) \<Rightarrow> cut32 (lf_result e) \<le> cut32 (op1 e)
      | (LF_SUB, W64) \<Rightarrow> op1 e < op2 e
      | (LF_SUB, _) \<Rightarrow> cut32 (op1 e) < cut32 (op2 e)
      | (LF_SBB, W8) \<Rightarrow> cut8 (op1 e) < cut8 (lf_result e) \<or> cut8 (op2 e) = 0xFF
      | (LF_SBB, W16) \<Rightarrow> cut16 (op1 e) < cut16 (lf_result e) \<or> cut16 (op2 e) = 0xFFFF
      | (LF_SBB, W32) \<Rightarrow> cut32 (op1 e) < cut32 (lf_result e) \<or> cut32 (op2 e) = 0xFFFFFFFF
      | (LF_SBB, W64) \<Rightarrow> op1 e < lf_result e \<or> op2 e = 0xFFFFFFFFFFFFFFFF
      | (LF_NEG, W64) \<Rightarrow> lf_result e \<noteq> 0
      | (LF_NEG, _) \<Rightarrow> cut32 (lf_result e) \<noteq> 0
      | (LF_LOGIC, _) \<Rightarrow> False
      | _ \<Rightarrow> False)"

definition get_AFLazy :: "lf_entry \<Rightarrow> bool" where
  "get_AFLazy e =
     (case fst (instr e) of
        LF_NEG \<Rightarrow> cut8 (lf_result e) AND 0xF \<noteq> 0
      | LF_INC \<Rightarrow> cut8 (lf_result e) AND 0xF = 0
      | LF_DEC \<Rightarrow> cut8 (lf_result e) AND 0xF = 0xF
      | LF_LOGIC \<Rightarrow> False
      | _ \<Rightarrow> (cut8 (op1 e) XOR cut8 (op2 e) XOR cut8 (lf_result e)) AND 0x10 \<noteq> 0)"

definition get_add_overflow :: "'a::len word \<Rightarrow> 'a word \<Rightarrow> 'a word \<Rightarrow> 'a word \<Rightarrow> bool" where
  "get_add_overflow a b r m \<longleftrightarrow> (NOT (a XOR b) AND (b XOR r)) AND m \<noteq> 0"

definition get_sub_overflow :: "'a::len word \<Rightarrow> 'a word \<Rightarrow> 'a word \<Rightarrow> 'a word \<Rightarrow> bool" where
  "get_sub_overflow a b r m \<longleftrightarrow> ((a XOR b) AND (a XOR r)) AND m \<noteq> 0"

definition get_OFLazy :: "lf_entry \<Rightarrow> bool" where
  "get_OFLazy e =
     (let r = lf_result e in
      case instr e of
        (LF_LOGIC, _) \<Rightarrow> False
      | (LF_INC, W8) \<Rightarrow> cut8 r = 0x80
      | (LF_INC, W16) \<Rightarrow> cut16 r = 0x8000
      | (LF_INC, W32) \<Rightarrow> cut32 r = 0x80000000
      | (LF_INC, W64) \<Rightarrow> r = 0x8000000000000000
      | (LF_NEG, W8) \<Rightarrow> cut8 r = 0x80
      | (LF_NEG, W16) \<Rightarrow> cut16 r = 0x8000
      | (LF_NEG, W32) \<Rightarrow> cut32 r = 0x80000000
      | (LF_NEG, W64) \<Rightarrow> r = 0x8000000000000000
      | (LF_DEC, W8) \<Rightarrow> cut8 r = 0x7F
      | (LF_DEC, W16) \<Rightarrow> cut16 r = 0x7FFF
      | (LF_DEC, W32) \<Rightarrow> cut32 r = 0x7FFFFFFF
      | (LF_DEC, W64) \<Rightarrow> r = 0x7FFFFFFFFFFFFFFF
      | (oper, w) \<Rightarrow>
          (if oper \<in> {LF_ADD, LF_ADC} then
             (if w = W64 then get_add_overflow (op1 e) (op2 e) r 0x8000000000000000
              else get_add_overflow (cut32 (op1 e)) (cut32 (op2 e)) (cut32 r) 0x80000000)
           else
             (if w = W64 then get_sub_overflow (op1 e) (op2 e) r 0x8000000000000000
              else get_sub_overflow (cut32 (op1 e)) (cut32 (op2 e)) (cut32 r) 0x80000000)))"

definition get_ZFLazy :: "lf_entry \<Rightarrow> bool" where
  "get_ZFLazy e \<longleftrightarrow> lf_result e = 0"

definition get_SFLazy :: "lf_entry \<Rightarrow> bool" where
  "get_SFLazy e \<longleftrightarrow> drop_bit 63 (lf_result e) \<noteq> 0"

definition get_PFLazy :: "lf_entry \<Rightarrow> bool" where
  "get_PFLazy e \<longleftrightarrow> bx_parity_lookup ! unat (cut8 (lf_result e)) \<noteq> 0"

subsection \<open>The accessors of one flag\<close>

primrec flag_bit :: "flag \<Rightarrow> nat" where
  "flag_bit CF = 0"
| "flag_bit PF = 2"
| "flag_bit AF = 4"
| "flag_bit ZF = 6"
| "flag_bit SF = 7"
| "flag_bit OF = 11"

definition EFlagsMask :: "flag \<Rightarrow> 32 word" where
  "EFlagsMask f = push_bit (flag_bit f) 1"

definition EFlagsOSZAPCMask :: "32 word" where
  "EFlagsOSZAPCMask = EFlagsMask CF OR EFlagsMask PF OR EFlagsMask AF OR EFlagsMask ZF OR EFlagsMask SF OR EFlagsMask OF"

definition EFlagsOSZAPMask :: "32 word" where
  "EFlagsOSZAPMask = EFlagsMask PF OR EFlagsMask AF OR EFlagsMask ZF OR EFlagsMask SF OR EFlagsMask OF"

primrec get_lazy :: "flag \<Rightarrow> lf_entry \<Rightarrow> bool" where
  "get_lazy CF = get_CFLazy"
| "get_lazy PF = get_PFLazy"
| "get_lazy AF = get_AFLazy"
| "get_lazy ZF = get_ZFLazy"
| "get_lazy SF = get_SFLazy"
| "get_lazy OF = get_OFLazy"

definition get_flag :: "flag \<Rightarrow> cpu_flags \<Rightarrow> bool" where
  "get_flag f S =
     (if lf_status S AND EFlagsMask f = 0 then eflags S AND EFlagsMask f \<noteq> 0 else get_lazy f (oszapc S))"

definition set_flag :: "flag \<Rightarrow> bool \<Rightarrow> cpu_flags \<Rightarrow> cpu_flags" where
  "set_flag f v S =
     S\<lparr>lf_status := lf_status S AND NOT (EFlagsMask f),
       eflags := (eflags S AND NOT (EFlagsMask f)) OR push_bit (flag_bit f) (of_bool v)\<rparr>"

definition clear_flag :: "flag \<Rightarrow> cpu_flags \<Rightarrow> cpu_flags" where
  "clear_flag f S =
     S\<lparr>lf_status := lf_status S AND NOT (EFlagsMask f), eflags := eflags S AND NOT (EFlagsMask f)\<rparr>"

definition assert_flag :: "flag \<Rightarrow> cpu_flags \<Rightarrow> cpu_flags" where
  "assert_flag f S =
     S\<lparr>lf_status := lf_status S AND NOT (EFlagsMask f), eflags := eflags S OR EFlagsMask f\<rparr>"

definition force_flag :: "flag \<Rightarrow> cpu_flags \<Rightarrow> cpu_flags" where
  "force_flag f S =
     (if lf_status S AND EFlagsMask f \<noteq> 0 then set_flag f (get_lazy f (oszapc S)) S else S)"

definition set_PF_base :: "8 word \<Rightarrow> cpu_flags \<Rightarrow> cpu_flags" where
  "set_PF_base v S =
     S\<lparr>lf_status := lf_status S AND NOT (EFlagsMask PF),
       eflags := (eflags S AND NOT (push_bit 2 1)) OR push_bit 2 (word_of_nat (bx_parity_lookup ! unat v))\<rparr>"

subsection \<open>The flags of an instruction\<close>

definition SET_FLAGS_OSZAPC :: "'a::len word \<Rightarrow> 'a word \<Rightarrow> 'a word \<Rightarrow> lf_op \<times> width \<Rightarrow> cpu_flags \<Rightarrow> cpu_flags" where
  "SET_FLAGS_OSZAPC a b r ins S =
     S\<lparr>oszapc := \<lparr>op1 = scast a, op2 = scast b, lf_result = scast r, instr = ins\<rparr>,
       lf_status := EFlagsOSZAPCMask\<rparr>"

definition SET_FLAGS_OSZAPC_RESULT :: "'a::len word \<Rightarrow> lf_op \<times> width \<Rightarrow> cpu_flags \<Rightarrow> cpu_flags" where
  "SET_FLAGS_OSZAPC_RESULT r ins S =
     S\<lparr>oszapc := (oszapc S)\<lparr>lf_result := scast r, instr := ins\<rparr>, lf_status := EFlagsOSZAPCMask\<rparr>"

definition SET_FLAGS_OSZAP_RESULT :: "'a::len word \<Rightarrow> lf_op \<times> width \<Rightarrow> cpu_flags \<Rightarrow> cpu_flags" where
  "SET_FLAGS_OSZAP_RESULT r ins S0 =
     (let S = force_flag CF S0 in
      S\<lparr>oszapc := (oszapc S)\<lparr>lf_result := scast r, instr := ins\<rparr>, lf_status := EFlagsOSZAPMask\<rparr>)"

definition ASSERT_FLAGS_OxxxxC :: "cpu_flags \<Rightarrow> cpu_flags" where
  "ASSERT_FLAGS_OxxxxC S =
     S\<lparr>eflags := eflags S OR (EFlagsMask OF OR EFlagsMask CF),
       lf_status := lf_status S AND NOT (EFlagsMask OF OR EFlagsMask CF)\<rparr>"

definition SET_FLAGS_OxxxxC :: "bool \<Rightarrow> bool \<Rightarrow> cpu_flags \<Rightarrow> cpu_flags" where
  "SET_FLAGS_OxxxxC new_of new_cf S =
     S\<lparr>eflags := (eflags S AND NOT (EFlagsMask OF OR EFlagsMask CF)) OR
         (push_bit 11 (of_bool new_of) OR of_bool new_cf),
       lf_status := lf_status S AND NOT (EFlagsMask OF OR EFlagsMask CF)\<rparr>"

text \<open>\<^verbatim>\<open>force_flags\<close>, with \<^verbatim>\<open>setEFlagsOSZAPC\<close>; \<^verbatim>\<open>read_eflags\<close> is its result.\<close>

definition setEFlagsOSZAPC :: "32 word \<Rightarrow> cpu_flags \<Rightarrow> cpu_flags" where
  "setEFlagsOSZAPC flags32 S =
     S\<lparr>eflags := (eflags S AND NOT EFlagsOSZAPCMask) OR (flags32 AND EFlagsOSZAPCMask), lf_status := 0\<rparr>"

definition force_flags :: "cpu_flags \<Rightarrow> cpu_flags" where
  "force_flags S =
     (if lf_status S \<noteq> 0 then
        setEFlagsOSZAPC
          (fold (\<lambda>f flags. flags OR (if get_flag f S then EFlagsMask f else 0)) [CF, PF, AF, ZF, SF, OF] 0) S
      else S)"

section \<open>Reading what was set\<close>

lemma flag_bit_inject [simp]: "flag_bit f = flag_bit g \<longleftrightarrow> f = g"
  by (cases f; cases g) simp_all

lemma flag_bit_less [simp]: "flag_bit f < 32"
  by (cases f) simp_all

lemma bit_EFlagsMask: "bit (EFlagsMask f) n \<longleftrightarrow> n = flag_bit f"
  by (auto simp: EFlagsMask_def bit_simps less_imp_le)

lemma and_EFlagsMask: "x AND EFlagsMask f = 0 \<longleftrightarrow> \<not> bit x (flag_bit f)"
  by (simp add: EFlagsMask_def bit_iff_and_push_bit_not_eq_0)

lemma ex_flag: "(\<exists>f. P f) \<longleftrightarrow> P OF \<or> P SF \<or> P ZF \<or> P AF \<or> P PF \<or> P CF"
proof
  assume "\<exists>f. P f"
  then obtain f where "P f" ..
  then show "P OF \<or> P SF \<or> P ZF \<or> P AF \<or> P PF \<or> P CF" by (cases f) simp_all
qed blast

lemma bit_OSZAPC: "bit EFlagsOSZAPCMask n \<longleftrightarrow> (\<exists>f. n = flag_bit f)"
  by (simp add: EFlagsOSZAPCMask_def bit_simps bit_EFlagsMask ex_flag) blast

lemma bit_OSZAP: "bit EFlagsOSZAPMask n \<longleftrightarrow> (\<exists>f. f \<noteq> CF \<and> n = flag_bit f)"
  by (simp add: EFlagsOSZAPMask_def bit_simps bit_EFlagsMask ex_flag) blast

lemma bit_OSZAPC_flag [simp]: "bit EFlagsOSZAPCMask (flag_bit f)"
  by (auto simp: bit_OSZAPC)

lemma bit_OSZAP_flag [simp]: "bit EFlagsOSZAPMask (flag_bit f) = (f \<noteq> CF)"
  by (auto simp: bit_OSZAP)

lemma bit_OSZAP_0 [simp]: "\<not> bit EFlagsOSZAPMask 0"
  using bit_OSZAP_flag [of CF] by simp

lemma get_flag_bit:
  "get_flag f S = (if bit (lf_status S) (flag_bit f) then get_lazy f (oszapc S) else bit (eflags S) (flag_bit f))"
  by (simp add: get_flag_def and_EFlagsMask)

lemma get_set_flag [simp]: "get_flag g (set_flag f v S) = (if g = f then v else get_flag g S)"
  by (auto simp: get_flag_bit set_flag_def bit_simps bit_EFlagsMask less_imp_le)

lemma get_clear_flag [simp]: "get_flag g (clear_flag f S) = (g \<noteq> f \<and> get_flag g S)"
  by (auto simp: get_flag_bit clear_flag_def bit_simps bit_EFlagsMask)

lemma get_assert_flag [simp]: "get_flag g (assert_flag f S) = (g = f \<or> get_flag g S)"
  by (auto simp: get_flag_bit assert_flag_def bit_simps bit_EFlagsMask)

lemma get_force_flag [simp]: "get_flag g (force_flag f S) = get_flag g S"
  by (simp add: force_flag_def and_EFlagsMask) (simp add: get_flag_bit)

lemma force_flag_status: "\<not> bit (lf_status (force_flag f S)) (flag_bit f)"
  by (simp add: force_flag_def and_EFlagsMask set_flag_def bit_simps bit_EFlagsMask)

lemma get_ASSERT_OxxxxC [simp]: "get_flag g (ASSERT_FLAGS_OxxxxC S) = (g = OF \<or> g = CF \<or> get_flag g S)"
  by (cases g) (auto simp: get_flag_bit ASSERT_FLAGS_OxxxxC_def bit_simps bit_EFlagsMask)

lemma get_SET_OxxxxC [simp]:
  "get_flag g (SET_FLAGS_OxxxxC o' c S) = (if g = OF then o' else if g = CF then c else get_flag g S)"
  by (cases g) (auto simp: get_flag_bit SET_FLAGS_OxxxxC_def bit_simps bit_EFlagsMask)

lemma get_SET_OSZAPC:
  "get_flag f (SET_FLAGS_OSZAPC a b r ins S) =
     get_lazy f \<lparr>op1 = scast a, op2 = scast b, lf_result = scast r, instr = ins\<rparr>"
  by (auto simp: get_flag_bit SET_FLAGS_OSZAPC_def)

lemma get_SET_OSZAPC_RESULT:
  "get_flag f (SET_FLAGS_OSZAPC_RESULT r ins S) = get_lazy f ((oszapc S)\<lparr>lf_result := scast r, instr := ins\<rparr>)"
  by (auto simp: get_flag_bit SET_FLAGS_OSZAPC_RESULT_def)

lemma get_SET_OSZAP_RESULT:
  "get_flag f (SET_FLAGS_OSZAP_RESULT r ins S) =
     (if f = CF then get_flag CF S else get_lazy f ((oszapc (force_flag CF S))\<lparr>lf_result := scast r, instr := ins\<rparr>))"
proof -
  have "get_flag CF S = bit (eflags (force_flag CF S)) 0"
    using get_force_flag [of CF CF S] force_flag_status [of CF S] by (simp add: get_flag_bit)
  then show ?thesis
    by (cases "f = CF") (simp_all add: get_flag_bit SET_FLAGS_OSZAP_RESULT_def Let_def)
qed

lemma get_force_flags [simp]: "get_flag f (force_flags S) = get_flag f S"
proof (cases "lf_status S = 0")
  case False
  define n where "n = fold (\<lambda>f flags. flags OR (if get_flag f S then EFlagsMask f else 0)) [CF, PF, AF, ZF, SF, OF] 0"
  have "bit n (flag_bit f) = get_flag f S" by (cases f) (simp_all add: n_def bit_simps bit_EFlagsMask)
  moreover have "force_flags S = setEFlagsOSZAPC n S" using False by (simp add: force_flags_def n_def)
  ultimately show ?thesis
    by (simp add: get_flag_bit setEFlagsOSZAPC_def bit_and_iff bit_or_iff bit_not_iff)
qed (simp add: force_flags_def)

lemma force_flags_status: "lf_status (force_flags S) = 0"
  by (simp add: force_flags_def setEFlagsOSZAPC_def)

lemma force_flags_other: "(\<And>f. n \<noteq> flag_bit f) \<Longrightarrow> bit (eflags (force_flags S)) n = bit (eflags S) n"
  by (auto simp: force_flags_def setEFlagsOSZAPC_def bit_simps bit_OSZAPC dest: bit_imp_le_length)

section \<open>The flags of the instruction set manual\<close>

text \<open>What the flags mean, over the integers: the carry out of the width and out of the low four
  bits, the overflow of the signed result, its sign, whether it is zero and the parity of its
  low byte.\<close>

definition parity :: "'a::len word \<Rightarrow> bool" where
  "parity r \<longleftrightarrow> even (card {i. i < 8 \<and> bit r i})"

definition signed_range :: "'a::len itself \<Rightarrow> int set" where
  "signed_range _ = {- (2 ^ (LENGTH('a) - 1)) ..< 2 ^ (LENGTH('a) - 1)}"

definition add_flag :: "'a::len word \<Rightarrow> 'a word \<Rightarrow> bool \<Rightarrow> flag \<Rightarrow> bool" where
  "add_flag a b c f =
     (let r = a + b + of_bool c in
      case f of
        CF \<Rightarrow> uint a + uint b + of_bool c \<ge> 2 ^ LENGTH('a)
      | OF \<Rightarrow> sint a + sint b + of_bool c \<notin> signed_range TYPE('a)
      | AF \<Rightarrow> uint a mod 16 + uint b mod 16 + of_bool c \<ge> 16
      | ZF \<Rightarrow> r = 0
      | SF \<Rightarrow> sint r < 0
      | PF \<Rightarrow> parity r)"

definition sub_flag :: "'a::len word \<Rightarrow> 'a word \<Rightarrow> bool \<Rightarrow> flag \<Rightarrow> bool" where
  "sub_flag a b c f =
     (let r = a - (b + of_bool c) in
      case f of
        CF \<Rightarrow> uint a < uint b + of_bool c
      | OF \<Rightarrow> sint a - sint b - of_bool c \<notin> signed_range TYPE('a)
      | AF \<Rightarrow> uint a mod 16 < uint b mod 16 + of_bool c
      | ZF \<Rightarrow> r = 0
      | SF \<Rightarrow> sint r < 0
      | PF \<Rightarrow> parity r)"

definition logic_flag :: "'a::len word \<Rightarrow> flag \<Rightarrow> bool" where
  "logic_flag r f =
     (case f of ZF \<Rightarrow> r = 0 | SF \<Rightarrow> sint r < 0 | PF \<Rightarrow> parity r | _ \<Rightarrow> False)"

subsection \<open>Parity\<close>

text \<open>The table of the parities of the numbers below \<open>2 ^ k\<close>.\<close>

primrec parity_table :: "nat \<Rightarrow> nat list" where
  "parity_table 0 = [1]"
| "parity_table (Suc k) = parity_table k @ map (\<lambda>x. 1 - x) (parity_table k)"

lemma length_parity_table [simp]: "length (parity_table k) = 2 ^ k"
  by (induction k) simp_all

lemma parity_table_nth: "n < 2 ^ k \<Longrightarrow> parity_table k ! n = (if even (card {i. i < k \<and> bit n i}) then 1 else 0)"
proof (induction k arbitrary: n)
  case (Suc k)
  let ?B = "\<lambda>n. {i. i < k \<and> bit n i}"
  have S: "{i. i < Suc k \<and> bit n i} = (if bit n k then insert k (?B n) else ?B n)"
    by (auto simp: less_Suc_eq)
  show ?case
  proof (cases "n < 2 ^ k")
    case True
    then have "\<not> bit n k" by (simp add: bit_iff_odd)
    with S True Suc.IH show ?thesis by (simp add: nth_append)
  next
    case False
    then have n: "n - 2 ^ k < 2 ^ k" "2 ^ k \<le> n" using Suc.prems by simp_all
    then have "n div 2 ^ k = 1" "n mod 2 ^ k = n - 2 ^ k"
      using Suc.prems mod_nat_eqI [of "n - 2 ^ k" "2 ^ k" n] by (auto intro: div_nat_eqI)
    then have "bit n k" and "?B (n - 2 ^ k) = ?B n"
      by (auto simp: bit_iff_odd) (metis bit_take_bit_iff take_bit_eq_mod bit_iff_odd)+
    then show ?thesis using S n Suc.IH [OF n(1)] False Suc.prems by (simp add: nth_append)
  qed
qed simp

lemma parity_table_8: "bx_parity_lookup = parity_table 8"
  by (simp add: bx_parity_lookup_def numeral_eq_Suc)

lemma parity_lookup: "bx_parity_lookup ! unat (v :: 8 word) = (if parity v then 1 else 0)"
proof -
  have u: "unat v < 2 ^ 8" using unsigned_less [of v] by simp
  have "{i. i < 8 \<and> bit v i} = {i. i < 8 \<and> bit (unat v) i}" by (simp add: bit_unsigned_iff)
  then show ?thesis using parity_table_nth [OF u] by (simp add: parity_table_8 parity_def)
qed

subsection \<open>Words as integers\<close>

lemma mod_once: "(x :: int) mod m = (if x < 0 then x + m else if m \<le> x then x - m else x)"
  if "- m \<le> x" "x < 2 * m"
proof -
  have "(x + m) mod m = x + m" if "x < 0" using that \<open>- m \<le> x\<close> by (intro mod_pos_pos_trivial) auto
  moreover have "(x - m) mod m = x - m" if "m \<le> x" using that \<open>x < 2 * m\<close> by (intro mod_pos_pos_trivial) auto
  moreover have "x mod m = x" if "0 \<le> x" "x < m" using that by (rule mod_pos_pos_trivial)
  ultimately show ?thesis by auto
qed

lemma word_signs:
  fixes a :: "'a::len word"
  shows "0 \<le> sint a \<and> sint a < 2 ^ (LENGTH('a) - 1) \<and> uint a = sint a \<or>
    sint a < 0 \<and> - (2 ^ (LENGTH('a) - 1)) \<le> sint a \<and> uint a = sint a + 2 * 2 ^ (LENGTH('a) - 1)"
proof -
  have l: "(2 :: int) ^ LENGTH('a) = 2 * 2 ^ (LENGTH('a) - 1)" by (cases "LENGTH('a)") simp_all
  have "uint a = uint (word_of_int (sint a) :: 'a word)" by simp
  also have "\<dots> = sint a mod 2 ^ LENGTH('a)" by (simp only: uint_word_of_int)
  finally have u: "uint a = sint a mod 2 ^ LENGTH('a)" .
  show ?thesis using u l sint_ge [of a] sint_lt [of a] mod_once [of "2 ^ LENGTH('a)" "sint a"] by auto
qed

lemma uint_scast:
  assumes "LENGTH('a) \<le> LENGTH('b)"
  shows "uint (scast (a :: 'a::len word) :: 'b::len word) =
     uint a + (if sint a < 0 then 2 ^ LENGTH('b) - 2 ^ LENGTH('a) else 0)"
proof -
  let ?s = "sint a"
  have le: "(2 :: int) ^ LENGTH('a) \<le> 2 ^ LENGTH('b)" using assms by simp
  have l: "(2 :: int) ^ LENGTH('a) = 2 * 2 ^ (LENGTH('a) - 1)" by (cases "LENGTH('a)") simp_all
  have "uint (scast a :: 'b word) = ?s mod 2 ^ LENGTH('b)" by (simp only: scast_eq uint_word_of_int)
  then show ?thesis using word_signs [of a] l le mod_once [of "2 ^ LENGTH('b)" ?s] by auto
qed

lemma two_power_length: "(2 :: int) ^ LENGTH('a::len) = 2 * 2 ^ (LENGTH('a) - 1)"
  by (cases "LENGTH('a)") simp_all

text \<open>Sign extension keeps the unsigned order, and the cuts of the record recover the values.\<close>

lemma scast_less:
  assumes "LENGTH('a) \<le> LENGTH('b)"
  shows "(scast (a :: 'a::len word) :: 'b::len word) < scast (c :: 'a word) \<longleftrightarrow> uint a < uint c"
proof -
  have "(2 :: int) ^ LENGTH('a) \<le> 2 ^ LENGTH('b)" using assms by simp
  then show ?thesis
    using word_signs [of a] word_signs [of c] two_power_length [where 'a = 'a]
    by (auto simp: word_less_def uint_scast [OF assms])
qed

lemma scast_eq_iff:
  assumes "LENGTH('a) \<le> LENGTH('b)"
  shows "(scast (a :: 'a::len word) :: 'b::len word) = scast (c :: 'a word) \<longleftrightarrow> a = c"
  using scast_less [OF assms, of a c] scast_less [OF assms, of c a] by (metis linorder_neq_iff word_uint_eqI)

lemma scast_zero_iff: "LENGTH('a) \<le> LENGTH('b) \<Longrightarrow> (scast (a :: 'a::len word) :: 'b::len word) = 0 \<longleftrightarrow> a = 0"
  using scast_eq_iff [of a 0] by simp

lemma cut32_scast: "LENGTH('a) \<le> 32 \<Longrightarrow> cut32 (scast (a :: 'a::len word)) = scast a"
  by (rule bit_word_eqI) (auto simp: bit_simps)

lemma cut8_scast: "8 \<le> LENGTH('a) \<Longrightarrow> cut8 (scast (a :: 'a::len word)) = ucast a"
  by (rule bit_word_eqI) (auto simp: bit_simps)

lemma uint_cut: "LENGTH('a) = LENGTH('b) \<Longrightarrow> LENGTH('a) \<le> 64 \<Longrightarrow>
    uint (ucast (scast (a :: 'a::len word) :: 64 word) :: 'b::len word) = uint a"
proof (rule bit_eqI)
  assume l: "LENGTH('a) = LENGTH('b)" "LENGTH('a) \<le> 64"
  show "bit (uint (ucast (scast a :: 64 word) :: 'b word)) n = bit (uint a) n" for n
  proof (cases "n < LENGTH('a)")
    case True
    then have "min (LENGTH('a) - Suc 0) n = n" by simp
    then show ?thesis using True l by (auto simp: bit_simps)
  qed (use l in \<open>auto simp: bit_simps dest: bit_imp_le_length\<close>)
qed

lemma bit_last_scast: "LENGTH('a) \<le> LENGTH('b) \<Longrightarrow>
    bit (scast (a :: 'a::len word) :: 'b::len word) (LENGTH('b) - 1) \<longleftrightarrow> sint a < 0"
  using bit_last_iff [of a] by (auto simp: bit_simps min_def not_less)

subsection \<open>Sums and differences\<close>

lemma wrap_add: "(x + y + of_bool c) mod m = (let s = x + y + of_bool c in if m \<le> s then s - m else s)"
  if "0 \<le> x" "x < m" "0 \<le> y" "y < m" for x y m :: int
  using that mod_once [of m "x + y + of_bool c"] by (cases c) (simp_all add: Let_def)

lemma wrap_sub: "(x - y - of_bool c) mod m = (let s = x - y - of_bool c in if s < 0 then s + m else s)"
  if "0 \<le> x" "x < m" "0 \<le> y" "y < m" for x y m :: int
  using that mod_once [of m "x - y - of_bool c"] by (cases c) (simp_all add: Let_def)

lemma uint_add_carry:
  "uint (a + b + of_bool c :: 'a::len word) =
     (let s = uint a + uint b + of_bool c in if 2 ^ LENGTH('a) \<le> s then s - 2 ^ LENGTH('a) else s)"
proof -
  have "uint (a + b + of_bool c) = (uint a + uint b + of_bool c) mod 2 ^ LENGTH('a)"
    by (simp add: uint_word_ariths mod_simps)
  then show ?thesis by (simp only: wrap_add [OF uint_ge_0 uint_lt2p uint_ge_0 uint_lt2p])
qed

lemma uint_sub_borrow:
  "uint (a - (b + of_bool c) :: 'a::len word) =
     (let s = uint a - uint b - of_bool c in if s < 0 then s + 2 ^ LENGTH('a) else s)"
proof -
  have "uint (a - (b + of_bool c)) = (uint a - uint b - of_bool c) mod 2 ^ LENGTH('a)"
    by (simp add: uint_word_ariths mod_simps diff_diff_eq)
  then show ?thesis by (simp only: wrap_sub [OF uint_ge_0 uint_lt2p uint_ge_0 uint_lt2p])
qed

text \<open>Signed wrap-around: a sum that leaves the range comes back with the other sign.\<close>

lemma sint_wrap:
  assumes "- (2 * 2 ^ (LENGTH('a) - 1)) \<le> t" and "t < 2 * 2 ^ (LENGTH('a) - 1)"
  shows "sint (word_of_int t :: 'a::len word) =
     (if t < - (2 ^ (LENGTH('a) - 1)) then t + 2 * 2 ^ (LENGTH('a) - 1)
      else if 2 ^ (LENGTH('a) - 1) \<le> t then t - 2 * 2 ^ (LENGTH('a) - 1) else t)"
proof -
  define H :: int where "H = 2 ^ (LENGTH('a) - 1)"
  have "uint (word_of_int t :: 'a word) = t mod (2 * H)" by (simp add: uint_word_of_int H_def two_power_length)
  moreover have "t mod (2 * H) = (if t < 0 then t + 2 * H else t)"
    using assms mod_once [of "2 * H" t] by (simp add: H_def)
  ultimately show ?thesis
    using assms word_signs [of "word_of_int t :: 'a word"] unfolding H_def [symmetric]
    by (simp split: if_splits) linarith+
qed

lemma add_overflow_iff:
  fixes a b :: "'a::len word"
  assumes "r = a + b + of_bool c"
  shows "(sint a < 0) = (sint b < 0) \<and> (sint b < 0) \<noteq> (sint r < 0) \<longleftrightarrow>
     sint a + sint b + of_bool c \<notin> signed_range TYPE('a)"
proof -
  define H :: int where "H = 2 ^ (LENGTH('a) - 1)"
  have bounds: "- H \<le> sint a" "sint a < H" "- H \<le> sint b" "sint b < H"
    using sint_ge [of a] sint_lt [of a] sint_ge [of b] sint_lt [of b] by (simp_all add: H_def)
  have "r = word_of_int (sint a + sint b + of_bool c)" by (simp add: assms)
  then show ?thesis
    using bounds sint_wrap [where 'a = 'a and t = "sint a + sint b + of_bool c"]
    unfolding signed_range_def H_def [symmetric] by (cases c) (auto split: if_splits)
qed

lemma sub_overflow_iff:
  fixes a b :: "'a::len word"
  assumes "r = a - (b + of_bool c)"
  shows "(sint a < 0) \<noteq> (sint b < 0) \<and> (sint a < 0) \<noteq> (sint r < 0) \<longleftrightarrow>
     sint a - sint b - of_bool c \<notin> signed_range TYPE('a)"
proof -
  define H :: int where "H = 2 ^ (LENGTH('a) - 1)"
  have bounds: "- H \<le> sint a" "sint a < H" "- H \<le> sint b" "sint b < H"
    using sint_ge [of a] sint_lt [of a] sint_ge [of b] sint_lt [of b] by (simp_all add: H_def)
  have "r = word_of_int (sint a - sint b - of_bool c)" by (simp add: assms diff_diff_eq)
  then show ?thesis
    using bounds sint_wrap [where 'a = 'a and t = "sint a - sint b - of_bool c"]
    unfolding signed_range_def H_def [symmetric] by (cases c) (auto split: if_splits)
qed

text \<open>A carry out of the low four bits, seen in the parity of the quotients by 16.\<close>

lemma div16_sum:
  fixes p u q v k :: int
  assumes "0 \<le> u" "u < 16" "0 \<le> v" "v < 16"
  shows "(16 * p + u + (16 * q + v) + of_bool c + 32 * k) div 16 = p + q + 2 * k + of_bool (16 \<le> u + v + of_bool c)"
  by (rule int_div_pos_eq [where r = "u + v + of_bool c - 16 * of_bool (16 \<le> u + v + of_bool c)"])
    (use assms in \<open>auto simp: of_bool_def\<close>)

lemma div16_diff:
  fixes p u q v k :: int
  assumes "0 \<le> u" "u < 16" "0 \<le> v" "v < 16"
  shows "(16 * p + u - (16 * q + v) - of_bool c + 32 * k) div 16 = p - q + 2 * k - of_bool (u < v + of_bool c)"
  by (rule int_div_pos_eq [where r = "u - v - of_bool c + 16 * of_bool (u < v + of_bool c)"])
    (use assms in \<open>auto simp: of_bool_def\<close>)

lemma odd_carry:
  "odd (x div 16) \<noteq> (odd (y div 16) \<noteq> odd ((x + y + of_bool c + 32 * k) div 16)) \<longleftrightarrow>
     16 \<le> x mod 16 + y mod 16 + of_bool c" for x y k :: int
  using div16_sum [of "x mod 16" "y mod 16" "x div 16" "y div 16" c k] by simp blast

lemma odd_borrow:
  "odd (x div 16) \<noteq> (odd (y div 16) \<noteq> odd ((x - y - of_bool c + 32 * k) div 16)) \<longleftrightarrow>
     x mod 16 < y mod 16 + of_bool c" for x y k :: int
  using div16_diff [of "x mod 16" "y mod 16" "x div 16" "y div 16" c k] by simp blast

section \<open>The lazy flags are the architectural flags\<close>

definition width_of :: "nat \<Rightarrow> width" where
  "width_of n = (if n = 8 then W8 else if n = 16 then W16 else if n = 32 then W32 else W64)"

abbreviation x86_width :: "'a::len itself \<Rightarrow> bool" where
  "x86_width _ \<equiv> LENGTH('a) \<in> {8, 16, 32, 64}"

lemma bit4_and: "x AND 0x10 \<noteq> 0 \<longleftrightarrow> bit x 4" for x :: "8 word"
  using bit_iff_and_push_bit_not_eq_0 [of x 4] by simp

lemma af_xor:
  fixes a b r :: "'a::len word"
  assumes "x86_width TYPE('a)"
  shows "(cut8 (scast a) XOR cut8 (scast b) XOR cut8 (scast r)) AND 0x10 \<noteq> 0 \<longleftrightarrow>
     odd (uint a div 16) \<noteq> (odd (uint b div 16) \<noteq> odd (uint r div 16))"
proof -
  have 8: "8 \<le> LENGTH('a)" using assms by auto
  have "bit (ucast x :: 8 word) 4 = odd (uint x div 16)" for x :: "'a word"
  proof -
    have "bit (ucast x :: 8 word) 4 = bit (uint x) 4" using 8 by (simp add: bit_ucast_iff bit_uint_iff)
    then show ?thesis by (simp add: bit_iff_odd)
  qed
  then show ?thesis unfolding bit4_and by (simp add: bit_xor_iff cut8_scast [OF 8])
qed

lemma two_power_32: "x86_width TYPE('a::len) \<Longrightarrow> (2 :: int) ^ LENGTH('a) = 32 * 2 ^ (LENGTH('a) - 5)"
  by auto

lemma af_add:
  fixes a b :: "'a::len word"
  assumes "x86_width TYPE('a)" and "r = a + b + of_bool c"
  shows "odd (uint a div 16) \<noteq> (odd (uint b div 16) \<noteq> odd (uint r div 16)) \<longleftrightarrow>
     16 \<le> uint a mod 16 + uint b mod 16 + of_bool c"
proof -
  have "\<exists>k. uint r = uint a + uint b + of_bool c + 32 * k"
    using uint_add_carry [of a b c] two_power_32 [OF assms(1)] unfolding assms(2) Let_def
    by (auto intro: exI [of _ 0] exI [of _ "- (2 ^ (LENGTH('a) - 5))"])
  then show ?thesis using odd_carry by metis
qed

lemma af_sub:
  fixes a b :: "'a::len word"
  assumes "x86_width TYPE('a)" and "r = a - (b + of_bool c)"
  shows "odd (uint a div 16) \<noteq> (odd (uint b div 16) \<noteq> odd (uint r div 16)) \<longleftrightarrow>
     uint a mod 16 < uint b mod 16 + of_bool c"
proof -
  have "\<exists>k. uint r = uint a - uint b - of_bool c + 32 * k"
    using uint_sub_borrow [of a b c] two_power_32 [OF assms(1)] unfolding assms(2) Let_def
    by (auto intro: exI [of _ 0] exI [of _ "2 ^ (LENGTH('a) - 5)"])
  then show ?thesis using odd_borrow by metis
qed

subsection \<open>Zero, sign and parity\<close>

lemma lazy_zsp:
  fixes r :: "'a::len word"
  assumes "x86_width TYPE('a)" and "lf_result e = scast r"
  shows "get_ZFLazy e = (r = 0)" and "get_SFLazy e = (sint r < 0)" and "get_PFLazy e = parity r"
proof -
  have l: "LENGTH('a) \<le> 64" "8 \<le> LENGTH('a)" using assms(1) by auto
  show "get_ZFLazy e = (r = 0)" by (simp add: get_ZFLazy_def assms(2) scast_zero_iff l)
  have "drop_bit 63 (scast r :: 64 word) \<noteq> 0 \<longleftrightarrow> bit (scast r :: 64 word) 63"
    using drop_bit_eq_zero_iff_not_bit_last [of "scast r :: 64 word"] by simp
  then show "get_SFLazy e = (sint r < 0)"
    using bit_last_scast [where 'b = 64, of r] l(1) by (simp add: get_SFLazy_def assms(2))
  have "{i. i < 8 \<and> bit (ucast r :: 8 word) i} = {i. i < 8 \<and> bit r i}" by (auto simp: bit_ucast_iff)
  then show "get_PFLazy e = parity r"
    by (simp add: get_PFLazy_def assms(2) cut8_scast l parity_lookup parity_def)
qed

subsection \<open>Carry and overflow\<close>

lemma sign_overflow:
  "(NOT (x XOR y) AND (y XOR z)) AND m \<noteq> 0 \<longleftrightarrow> (bit x n = bit y n) \<and> bit y n \<noteq> bit z n"
  "((x XOR y) AND (x XOR z)) AND m \<noteq> 0 \<longleftrightarrow> bit x n \<noteq> bit y n \<and> bit x n \<noteq> bit z n"
  if "m = push_bit n 1" "n < LENGTH('b)" for x y z m :: "'b::len word"
  using that(2) unfolding that(1) bit_iff_and_push_bit_not_eq_0 [symmetric] by (auto simp: bit_simps)

lemma lazy_overflow:
  fixes a b r :: "'a::len word"
  assumes "x86_width TYPE('a)" and "op1 e = scast a" "op2 e = scast b" "lf_result e = scast r"
  shows "instr e = (LF_ADD, width_of LENGTH('a)) \<or> instr e = (LF_ADC, width_of LENGTH('a)) \<Longrightarrow>
      get_OFLazy e = ((sint a < 0) = (sint b < 0) \<and> (sint b < 0) \<noteq> (sint r < 0))"
    and "instr e = (LF_SUB, width_of LENGTH('a)) \<or> instr e = (LF_SBB, width_of LENGTH('a)) \<Longrightarrow>
      get_OFLazy e = ((sint a < 0) \<noteq> (sint b < 0) \<and> (sint a < 0) \<noteq> (sint r < 0))"
proof -
  have b64: "bit (scast x :: 64 word) 63 = (sint x < 0)" if "LENGTH('a) \<le> 64" for x :: "'a word"
    using bit_last_scast [where 'b = 64, of x] that by simp
  have b32: "bit (scast x :: 32 word) 31 = (sint x < 0)" if "LENGTH('a) \<le> 32" for x :: "'a word"
    using bit_last_scast [where 'b = 32, of x] that by simp
  have m: "(0x80000000 :: 32 word) = push_bit 31 1" "(0x8000000000000000 :: 64 word) = push_bit 63 1" by simp_all
  note o32 = sign_overflow [where 'b = 32, OF m(1), simplified] and o64 = sign_overflow [where 'b = 64, OF m(2), simplified]
  consider "LENGTH('a) = 64" "width_of LENGTH('a) = W64" | "LENGTH('a) \<le> 32" "width_of LENGTH('a) \<in> {W8, W16, W32}"
    using assms(1) by (auto simp: width_of_def)
  note w = this
  show "get_OFLazy e = ((sint a < 0) = (sint b < 0) \<and> (sint b < 0) \<noteq> (sint r < 0))"
    if "instr e = (LF_ADD, width_of LENGTH('a)) \<or> instr e = (LF_ADC, width_of LENGTH('a))"
    using w that
    by cases (auto simp: get_OFLazy_def get_add_overflow_def assms o32 o64 b32 b64 cut32_scast Let_def)
  show "get_OFLazy e = ((sint a < 0) \<noteq> (sint b < 0) \<and> (sint a < 0) \<noteq> (sint r < 0))"
    if "instr e = (LF_SUB, width_of LENGTH('a)) \<or> instr e = (LF_SBB, width_of LENGTH('a))"
    using w that
    by cases (auto simp: get_OFLazy_def get_sub_overflow_def assms o32 o64 b32 b64 cut32_scast Let_def)
qed

lemma carry_compare:
  fixes x y m :: int
  assumes "0 \<le> y" and "y < m"
  shows "(if m \<le> x + y then x + y - m else x + y) < x \<longleftrightarrow> m \<le> x + y"
    and "(if m \<le> x + y + 1 then x + y + 1 - m else x + y + 1) \<le> x \<longleftrightarrow> m \<le> x + y + 1"
  using assms by auto

lemma borrow_compare:
  fixes x y m :: int
  assumes "0 \<le> y" and "y < m" and "x < m"
  shows "x < (if x - y - 1 < 0 then x - y - 1 + m else x - y - 1) \<or> y = m - 1 \<longleftrightarrow> x < y + 1"
  using assms by auto

lemma lazy_carry_add:
  fixes a b :: "'a::len word"
  assumes "x86_width TYPE('a)" and "r = a + b + of_bool c"
    and "op1 e = scast a" "lf_result e = scast r" "instr e = (if c then LF_ADC else LF_ADD, width_of LENGTH('a))"
  shows "get_CFLazy e = (2 ^ LENGTH('a) \<le> uint a + uint b + of_bool c)"
proof -
  have cmp: "uint r < uint a \<longleftrightarrow> 2 ^ LENGTH('a) \<le> uint a + uint b" if "\<not> c"
    using uint_add_carry [of a b c] carry_compare [OF uint_ge_0 uint_lt2p, of "uint a" b]
    by (simp add: assms(2) that Let_def)
  have cmp1: "uint r \<le> uint a \<longleftrightarrow> 2 ^ LENGTH('a) \<le> uint a + uint b + 1" if c
    using uint_add_carry [of a b c] carry_compare [OF uint_ge_0 uint_lt2p, of "uint a" b]
    by (simp add: assms(2) that Let_def)
  consider "LENGTH('a) = 64" "width_of LENGTH('a) = W64" | "LENGTH('a) \<le> 32" "width_of LENGTH('a) \<in> {W8, W16, W32}"
    using assms(1) by (auto simp: width_of_def)
  then show ?thesis
  proof cases
    case 1
    then show ?thesis using cmp cmp1
      by (simp add: get_CFLazy_def assms(3-5) scast_less not_less [symmetric])
  next
    case 2
    then show ?thesis using cmp cmp1
      by (auto simp: get_CFLazy_def assms(3-5) scast_less cut32_scast not_less [symmetric])
  qed
qed

lemma lazy_carry_sub:
  fixes a b :: "'a::len word"
  assumes "x86_width TYPE('a)" and "r = a - (b + of_bool c)"
    and "op1 e = scast a" "op2 e = scast b" "lf_result e = scast r"
      "instr e = (if c then LF_SBB else LF_SUB, width_of LENGTH('a))"
  shows "get_CFLazy e = (uint a < uint b + of_bool c)"
proof -
  have cmp: "uint a < uint r \<or> uint b = 2 ^ LENGTH('a) - 1 \<longleftrightarrow> uint a < uint b + 1" if c
    using uint_sub_borrow [of a b c] borrow_compare [OF uint_ge_0 uint_lt2p uint_lt2p, of a b]
    by (simp only: assms(2) that Let_def of_bool_eq)
  have cut: "cut8 (scast x) < cut8 (scast y) \<longleftrightarrow> uint x < uint y" "cut8 (scast x) = 0xFF \<longleftrightarrow> uint x = 2 ^ LENGTH('a) - 1"
    if "LENGTH('a) = 8" for x y :: "'a word"
    using that by (simp_all add: word_less_def uint_cut word_uint_eq_iff)
  have cut': "cut16 (scast x) < cut16 (scast y) \<longleftrightarrow> uint x < uint y" "cut16 (scast x) = 0xFFFF \<longleftrightarrow> uint x = 2 ^ LENGTH('a) - 1"
    if "LENGTH('a) = 16" for x y :: "'a word"
    using that by (simp_all add: word_less_def uint_cut word_uint_eq_iff)
  have cut'': "cut32 (scast x) < cut32 (scast y) \<longleftrightarrow> uint x < uint y" "cut32 (scast x) = 0xFFFFFFFF \<longleftrightarrow> uint x = 2 ^ LENGTH('a) - 1"
    if "LENGTH('a) = 32" for x y :: "'a word"
    using that by (simp_all add: word_less_def uint_cut word_uint_eq_iff)
  have cut''': "(scast x :: 64 word) < scast y \<longleftrightarrow> uint x < uint y" "(scast x :: 64 word) = 0xFFFFFFFFFFFFFFFF \<longleftrightarrow> uint x = 2 ^ LENGTH('a) - 1"
    if "LENGTH('a) = 64" for x y :: "'a word"
    using that by (simp_all add: scast_less) (simp add: word_uint_eq_iff uint_scast)
  consider "LENGTH('a) = 8" | "LENGTH('a) = 16" | "LENGTH('a) = 32" | "LENGTH('a) = 64"
    using assms(1) by auto
  then show ?thesis
  proof cases
    case 1
    then show ?thesis using cmp cut [OF 1]
      by (auto simp: get_CFLazy_def assms(3-6) width_of_def scast_less cut32_scast)
  next
    case 2
    then show ?thesis using cmp cut' [OF 2]
      by (auto simp: get_CFLazy_def assms(3-6) width_of_def scast_less cut32_scast)
  next
    case 3
    then show ?thesis using cmp cut'' [OF 3]
      by (auto simp: get_CFLazy_def assms(3-6) width_of_def scast_less cut32_scast)
  next
    case 4
    then show ?thesis using cmp cut''' [OF 4]
      by (auto simp: get_CFLazy_def assms(3-6) width_of_def)
  qed
qed

subsection \<open>The instructions\<close>

lemma lazy_flags_add:
  fixes a b :: "'a::len word"
  assumes "x86_width TYPE('a)"
  shows "get_flag f (SET_FLAGS_OSZAPC a b (a + b + of_bool c) (if c then LF_ADC else LF_ADD, width_of LENGTH('a)) S) =
     add_flag a b c f"
proof -
  let ?r = "a + b + of_bool c"
  define e where "e = \<lparr>op1 = scast a, op2 = scast b, lf_result = scast ?r,
    instr = (if c then LF_ADC else LF_ADD, width_of LENGTH('a))\<rparr>"
  have e: "op1 e = scast a" "op2 e = scast b" "lf_result e = scast ?r"
    "instr e = (if c then LF_ADC else LF_ADD, width_of LENGTH('a))" by (simp_all add: e_def)
  have "get_AFLazy e = ((cut8 (scast a) XOR cut8 (scast b) XOR cut8 (scast ?r)) AND 0x10 \<noteq> 0)"
    by (cases c) (simp_all add: get_AFLazy_def e)
  then have "get_AFLazy e = (16 \<le> uint a mod 16 + uint b mod 16 + of_bool c)"
    by (simp only: af_xor [OF assms] af_add [OF assms refl])
  moreover have "get_OFLazy e = (sint a + sint b + of_bool c \<notin> signed_range TYPE('a))"
    using lazy_overflow(1) [OF assms e(1-3)] add_overflow_iff [OF refl, of a b c] e(4) by simp
  moreover note lazy_carry_add [OF assms refl e(1,3,4)] lazy_zsp [OF assms e(3)]
  ultimately show ?thesis
    unfolding get_SET_OSZAPC e_def [symmetric] by (cases f) (simp_all add: add_flag_def Let_def)
qed

lemma lazy_flags_sub:
  fixes a b :: "'a::len word"
  assumes "x86_width TYPE('a)"
  shows "get_flag f (SET_FLAGS_OSZAPC a b (a - (b + of_bool c)) (if c then LF_SBB else LF_SUB, width_of LENGTH('a)) S) =
     sub_flag a b c f"
proof -
  let ?r = "a - (b + of_bool c)"
  define e where "e = \<lparr>op1 = scast a, op2 = scast b, lf_result = scast ?r,
    instr = (if c then LF_SBB else LF_SUB, width_of LENGTH('a))\<rparr>"
  have e: "op1 e = scast a" "op2 e = scast b" "lf_result e = scast ?r"
    "instr e = (if c then LF_SBB else LF_SUB, width_of LENGTH('a))" by (simp_all add: e_def)
  have "get_AFLazy e = ((cut8 (scast a) XOR cut8 (scast b) XOR cut8 (scast ?r)) AND 0x10 \<noteq> 0)"
    by (cases c) (simp_all add: get_AFLazy_def e)
  then have "get_AFLazy e = (uint a mod 16 < uint b mod 16 + of_bool c)"
    by (simp only: af_xor [OF assms] af_sub [OF assms refl])
  moreover have "get_OFLazy e = (sint a - sint b - of_bool c \<notin> signed_range TYPE('a))"
    using lazy_overflow(2) [OF assms e(1-3)] sub_overflow_iff [OF refl, of a b c] e(4) by simp
  moreover note lazy_carry_sub [OF assms refl e] lazy_zsp [OF assms e(3)]
  ultimately show ?thesis
    unfolding get_SET_OSZAPC e_def [symmetric] by (cases f) (simp_all add: sub_flag_def Let_def)
qed

text \<open>C26. Lazy flags, additions: for every operand width, after \<^verbatim>\<open>ADD\<close> (carry in 0) or \<^verbatim>\<open>ADC\<close>
  (carry in 1) has recorded its operands and its wrapped result, each of the six flags read
  back is the architectural one: carry out of the width, signed overflow, carry out of the low
  four bits, zero, sign and parity.\<close>

theorem lazy_add:
  assumes "LENGTH('a::len) \<in> {8, 16, 32, 64}"
  shows "get_flag f (SET_FLAGS_OSZAPC a b (a + b + of_bool c) (if c then LF_ADC else LF_ADD, width_of LENGTH('a)) S) =
     add_flag (a :: 'a word) b c f"
  by (rule lazy_flags_add [OF assms])

text \<open>The instruction record before anything ran.\<close>

definition flags0 :: cpu_flags where
  "flags0 = \<lparr>eflags = 2, lf_status = 0, oszapc = \<lparr>op1 = 0, op2 = 0, lf_result = 0, instr = (LF_LOGIC, W8)\<rparr>\<rparr>"

theorem lazy_add_witness:
  "get_flag OF (SET_FLAGS_OSZAPC (0x7F :: 8 word) 0x7F (0x7F + 0x7F + of_bool True) (LF_ADC, W8) flags0) =
     add_flag (0x7F :: 8 word) 0x7F True OF"
  using lazy_add [where 'a = 8, of OF "0x7F" "0x7F" True flags0] by (simp add: width_of_def)

text \<open>C27. Lazy flags, subtractions: for every operand width, after \<^verbatim>\<open>SUB\<close> or \<^verbatim>\<open>CMP\<close> (borrow in 0)
  or \<^verbatim>\<open>SBB\<close> (borrow in 1) each of the six flags read back is the architectural one, also when
  the subtrahend and the borrow together wrap around.\<close>

theorem lazy_sub:
  assumes "LENGTH('a::len) \<in> {8, 16, 32, 64}"
  shows "get_flag f (SET_FLAGS_OSZAPC a b (a - (b + of_bool c)) (if c then LF_SBB else LF_SUB, width_of LENGTH('a)) S) =
     sub_flag (a :: 'a word) b c f"
  by (rule lazy_flags_sub [OF assms])

theorem lazy_sub_witness:
  "get_flag CF (SET_FLAGS_OSZAPC (0 :: 16 word) 0xFFFF (0 - (0xFFFF + of_bool True)) (LF_SBB, W16) flags0) =
     sub_flag (0 :: 16 word) 0xFFFF True CF"
  using lazy_sub [where 'a = 16, of CF "0" "0xFFFF" True flags0] by (simp add: width_of_def)

subsection \<open>Increment, decrement, negation and logic\<close>

lemma nibble:
  "(ucast (r :: 'a::len word) :: 8 word) AND 0xF = 0 \<longleftrightarrow> uint r mod 16 = 0"
  "(ucast r :: 8 word) AND 0xF = 0xF \<longleftrightarrow> uint r mod 16 = 15" if "8 \<le> LENGTH('a)"
proof -
  have "uint ((ucast r :: 8 word) AND 0xF) = uint (ucast r :: 8 word) AND 0xF" by (simp add: unsigned_and_eq)
  also have "(0xF :: int) = mask 4" by (simp add: mask_eq_exp_minus_1)
  also have "uint (ucast r :: 8 word) AND mask 4 = uint (ucast r :: 8 word) mod 16"
    by (simp add: take_bit_eq_mod flip: take_bit_eq_mask)
  also have "\<dots> = uint r mod 16" by (simp add: unsigned_ucast_eq take_bit_eq_mod mod_mod_cancel)
  finally have "uint ((ucast r :: 8 word) AND 0xF) = uint r mod 16" .
  then show "(ucast r :: 8 word) AND 0xF = 0 \<longleftrightarrow> uint r mod 16 = 0"
    "(ucast r :: 8 word) AND 0xF = 0xF \<longleftrightarrow> uint r mod 16 = 15"
    by (simp_all only: word_uint_eq_iff) simp_all
qed

text \<open>The result at which a signed increment, negation or decrement leaves the range.\<close>

lemma top_iff:
  fixes r :: "'a::len word"
  assumes "x86_width TYPE('a)" and "lf_result e = scast r"
  shows "fst (instr e) = LF_INC \<or> fst (instr e) = LF_NEG \<Longrightarrow> snd (instr e) = width_of LENGTH('a) \<Longrightarrow>
      get_OFLazy e = (uint r = 2 ^ (LENGTH('a) - 1))"
    and "fst (instr e) = LF_DEC \<Longrightarrow> snd (instr e) = width_of LENGTH('a) \<Longrightarrow>
      get_OFLazy e = (uint r = 2 ^ (LENGTH('a) - 1) - 1)"
proof -
  consider "LENGTH('a) = 8" | "LENGTH('a) = 16" | "LENGTH('a) = 32" | "LENGTH('a) = 64"
    using assms(1) by auto
  note w = this
  have cut64: "uint (scast r :: 64 word) = uint r" if "LENGTH('a) = 64"
    using uint_cut [where 'b = 64, of r] that by simp
  obtain oper w where i: "instr e = (oper, w)" by (cases "instr e")
  show "get_OFLazy e = (uint r = 2 ^ (LENGTH('a) - 1))"
    if "fst (instr e) = LF_INC \<or> fst (instr e) = LF_NEG" "snd (instr e) = width_of LENGTH('a)"
    using w that
    by cases (auto simp: i get_OFLazy_def assms(2) width_of_def Let_def word_uint_eq_iff uint_cut cut64)
  show "get_OFLazy e = (uint r = 2 ^ (LENGTH('a) - 1) - 1)"
    if "fst (instr e) = LF_DEC" "snd (instr e) = width_of LENGTH('a)"
    using w that
    by cases (auto simp: i get_OFLazy_def assms(2) width_of_def Let_def word_uint_eq_iff uint_cut cut64)
qed

text \<open>The reference: \<open>INC\<close> is the addition and \<open>DEC\<close> the subtraction of 1 except for the carry,
  \<open>NEG\<close> the subtraction from 0.\<close>

lemma uint_inc: "uint (a + 1 :: 'a::len word) = (if uint a = 2 ^ LENGTH('a) - 1 then 0 else uint a + 1)"
proof -
  have "uint a = 2 ^ LENGTH('a) - 1 \<or> uint a + 1 < 2 ^ LENGTH('a)" using uint_lt2p [of a] by linarith
  then show ?thesis using uint_add_carry [of a 0 True] by auto
qed

lemma uint_dec: "uint (a - 1 :: 'a::len word) = (if uint a = 0 then 2 ^ LENGTH('a) - 1 else uint a - 1)"
proof -
  have "uint a = 0 \<or> 1 \<le> uint a" using uint_ge_0 [of a] by linarith
  then show ?thesis using uint_sub_borrow [of a 0 True] by auto
qed

lemma uint_neg: "uint (- a :: 'a::len word) = (if uint a = 0 then 0 else 2 ^ LENGTH('a) - uint a)"
proof -
  have "uint a = 0 \<or> 1 \<le> uint a" using uint_ge_0 [of a] by linarith
  then show ?thesis using uint_sub_borrow [of 0 a False] by auto
qed

lemma extreme_signed:
  fixes a :: "'a::len word"
  shows "uint a = 2 ^ (LENGTH('a) - 1) - 1 \<longleftrightarrow> sint a = 2 ^ (LENGTH('a) - 1) - 1"
    and "uint a = 2 ^ (LENGTH('a) - 1) \<longleftrightarrow> sint a = - (2 ^ (LENGTH('a) - 1))"
proof -
  define H :: int where "H = 2 ^ (LENGTH('a) - 1)"
  have "1 \<le> H" by (simp add: H_def)
  then show "uint a = 2 ^ (LENGTH('a) - 1) - 1 \<longleftrightarrow> sint a = 2 ^ (LENGTH('a) - 1) - 1"
    and "uint a = 2 ^ (LENGTH('a) - 1) \<longleftrightarrow> sint a = - (2 ^ (LENGTH('a) - 1))"
    using word_signs [of a] unfolding H_def [symmetric] by auto
qed

lemma mod16_inc: "(x + 1) mod 16 = 0 \<longleftrightarrow> 16 \<le> x mod 16 + 1" "(x - 1) mod 16 = 15 \<longleftrightarrow> x mod 16 < 1" for x :: int
  by presburger+

lemma mod16_neg: "- x mod 16 = 0 \<longleftrightarrow> \<not> 0 < x mod 16" for x :: int
  by presburger

lemma neg_carry:
  fixes a :: "'a::len word"
  assumes "x86_width TYPE('a)" and "lf_result e = scast (- a)" "instr e = (LF_NEG, width_of LENGTH('a))"
  shows "get_CFLazy e = (0 < uint a)"
proof -
  have z: "0 < uint a \<longleftrightarrow> a \<noteq> 0" by (metis uint_0_iff uint_ge_0 less_le)
  consider "LENGTH('a) = 64" "width_of LENGTH('a) = W64" | "LENGTH('a) \<le> 32" "width_of LENGTH('a) \<in> {W8, W16, W32}"
    using assms(1) by (auto simp: width_of_def)
  then show ?thesis
    by cases (auto simp: get_CFLazy_def assms(2,3) z scast_zero_iff cut32_scast)
qed

lemma mod16_word:
  fixes a :: "'a::len word"
  assumes "x86_width TYPE('a)"
  shows "uint (a + 1) mod 16 = (uint a + 1) mod 16" and "uint (a - 1) mod 16 = (uint a - 1) mod 16"
    and "uint (- a) mod 16 = - uint a mod 16"
proof -
  have "(16 :: int) dvd 2 ^ LENGTH('a)" using assms by auto
  then show "uint (a + 1) mod 16 = (uint a + 1) mod 16" and "uint (a - 1) mod 16 = (uint a - 1) mod 16"
    and "uint (- a) mod 16 = - uint a mod 16"
    by (simp_all add: uint_word_ariths mod_mod_cancel)
qed

lemma half_bounds:
  fixes a :: "'a::len word"
  assumes "x86_width TYPE('a)"
  shows "uint (a + 1) = 2 ^ (LENGTH('a) - 1) \<longleftrightarrow> sint a + 1 \<notin> signed_range TYPE('a)"
    and "uint (a - 1) = 2 ^ (LENGTH('a) - 1) - 1 \<longleftrightarrow> sint a - 1 \<notin> signed_range TYPE('a)"
    and "uint (- a) = 2 ^ (LENGTH('a) - 1) \<longleftrightarrow> - sint a \<notin> signed_range TYPE('a)"
proof -
  define H :: int where "H = 2 ^ (LENGTH('a) - 1)"
  have H: "2 ^ LENGTH('a) = 2 * H" "2 \<le> H" using assms by (auto simp: H_def)
  have b: "- H \<le> sint a" "sint a < H" using sint_ge [of a] sint_lt [of a] by (simp_all add: H_def)
  have R: "t \<notin> signed_range TYPE('a) \<longleftrightarrow> t < - H \<or> H \<le> t" for t by (auto simp: signed_range_def H_def)
  note e = extreme_signed [of a, folded H_def]
  have "uint (a + 1) = H \<longleftrightarrow> uint a = H - 1" using uint_inc [of a] H by auto
  then show "uint (a + 1) = 2 ^ (LENGTH('a) - 1) \<longleftrightarrow> sint a + 1 \<notin> signed_range TYPE('a)"
    unfolding R H_def [symmetric] e using b by linarith
  have "uint (a - 1) = H - 1 \<longleftrightarrow> uint a = H" using uint_dec [of a] H by auto
  then show "uint (a - 1) = 2 ^ (LENGTH('a) - 1) - 1 \<longleftrightarrow> sint a - 1 \<notin> signed_range TYPE('a)"
    unfolding R H_def [symmetric] e using b by linarith
  have "uint (- a) = H \<longleftrightarrow> uint a = H" using uint_neg [of a] H by auto
  then show "uint (- a) = 2 ^ (LENGTH('a) - 1) \<longleftrightarrow> - sint a \<notin> signed_range TYPE('a)"
    unfolding R H_def [symmetric] e using b by linarith
qed

lemma inc_flags:
  fixes a :: "'a::len word"
  assumes w: "x86_width TYPE('a)" and e: "lf_result e = scast (a + 1)" "instr e = (LF_INC, width_of LENGTH('a))"
    and f: "f \<noteq> CF"
  shows "get_lazy f e = add_flag a 1 False f"
proof -
  have 8: "8 \<le> LENGTH('a)" and ne: "LENGTH('a) \<noteq> Suc 0" using w by auto
  have "get_AFLazy e = (16 \<le> uint a mod 16 + 1)"
    by (simp add: get_AFLazy_def e cut8_scast [OF 8] nibble [OF 8] mod16_word [OF w] mod16_inc)
  moreover have "get_OFLazy e = (sint a + 1 \<notin> signed_range TYPE('a))"
    using top_iff(1) [OF w e(1)] e(2) half_bounds(1) [OF w, of a] by simp
  ultimately show ?thesis
    using f lazy_zsp [OF w e(1)] by (cases f) (simp_all add: add_flag_def ne)
qed

lemma dec_flags:
  fixes a :: "'a::len word"
  assumes w: "x86_width TYPE('a)" and e: "lf_result e = scast (a - 1)" "instr e = (LF_DEC, width_of LENGTH('a))"
    and f: "f \<noteq> CF"
  shows "get_lazy f e = sub_flag a 1 False f"
proof -
  have 8: "8 \<le> LENGTH('a)" and ne: "LENGTH('a) \<noteq> Suc 0" using w by auto
  have "get_AFLazy e = (uint a mod 16 < 1)"
    by (simp add: get_AFLazy_def e cut8_scast [OF 8] nibble [OF 8] mod16_word [OF w] mod16_inc)
  moreover have "get_OFLazy e = (sint a - 1 \<notin> signed_range TYPE('a))"
    using top_iff(2) [OF w e(1)] e(2) half_bounds(2) [OF w, of a] by simp
  ultimately show ?thesis
    using f lazy_zsp [OF w e(1)] by (cases f) (simp_all add: sub_flag_def ne)
qed

lemma neg_flags:
  fixes a :: "'a::len word"
  assumes w: "x86_width TYPE('a)" and e: "lf_result e = scast (- a)" "instr e = (LF_NEG, width_of LENGTH('a))"
  shows "get_lazy f e = sub_flag 0 a False f"
proof -
  have 8: "8 \<le> LENGTH('a)" using w by auto
  have "get_AFLazy e = (0 < uint a mod 16)"
    by (simp add: get_AFLazy_def e cut8_scast [OF 8] nibble [OF 8] mod16_word [OF w] mod16_neg)
  moreover have "get_OFLazy e = (- sint a \<notin> signed_range TYPE('a))"
    using top_iff(1) [OF w e(1)] e(2) half_bounds(3) [OF w, of a] by simp
  moreover have "get_CFLazy e = (0 < uint a)" using e by (intro neg_carry [OF w])
  ultimately show ?thesis
    using lazy_zsp [OF w e(1)] by (cases f) (simp_all add: sub_flag_def)
qed

text \<open>Lazy flags, one-operand instructions: for every operand width, after \<^verbatim>\<open>INC\<close> and \<^verbatim>\<open>DEC\<close>
  the carry is the one before, whether it was stored or still pending, and the five other flags
  are those of adding and subtracting 1; after \<^verbatim>\<open>NEG\<close> all six are those of subtracting the
  operand from 0, and after a logic instruction zero, sign and parity are those of the result and
  the rest is clear.\<close>

theorem lazy_unary:
  assumes "LENGTH('a::len) \<in> {8, 16, 32, 64}"
  shows "get_flag f (SET_FLAGS_OSZAP_RESULT (a + 1 :: 'a word) (LF_INC, width_of LENGTH('a)) S) =
       (if f = CF then get_flag CF S else add_flag a 1 False f) \<and>
     get_flag f (SET_FLAGS_OSZAP_RESULT (a - 1) (LF_DEC, width_of LENGTH('a)) S) =
       (if f = CF then get_flag CF S else sub_flag a 1 False f) \<and>
     get_flag f (SET_FLAGS_OSZAPC_RESULT (- a) (LF_NEG, width_of LENGTH('a)) S) = sub_flag 0 a False f \<and>
     get_flag f (SET_FLAGS_OSZAPC_RESULT a (LF_LOGIC, width_of LENGTH('a)) S) = logic_flag a f"
proof -
  define e where "e = (oszapc S)\<lparr>lf_result := scast a, instr := (LF_LOGIC, width_of LENGTH('a))\<rparr>"
  have "get_lazy f e = logic_flag a f"
    using lazy_zsp [OF assms, of e a]
    by (cases f; cases "width_of LENGTH('a)")
      (simp_all add: e_def logic_flag_def get_CFLazy_def get_AFLazy_def get_OFLazy_def)
  then show ?thesis
    using inc_flags [OF assms] dec_flags [OF assms] neg_flags [OF assms]
    by (simp add: get_SET_OSZAP_RESULT get_SET_OSZAPC_RESULT e_def)
qed

theorem lazy_unary_witness:
  "get_flag CF (SET_FLAGS_OSZAP_RESULT (0xFF + 1 :: 8 word) (LF_INC, W8)
      (SET_FLAGS_OSZAPC (3 :: 8 word) 5 (3 - 5) (LF_SUB, W8) flags0)) \<and>
   get_flag OF (SET_FLAGS_OSZAP_RESULT (0x80 - 1 :: 8 word) (LF_DEC, W8) flags0) = sub_flag (0x80 :: 8 word) 1 False OF"
proof -
  have "get_flag CF (SET_FLAGS_OSZAPC (3 :: 8 word) 5 (3 - 5) (LF_SUB, W8) flags0)"
    using lazy_flags_sub [where 'a = 8, of CF 3 5 False flags0] by (simp add: width_of_def sub_flag_def)
  then show ?thesis
    using lazy_unary [where 'a = 8, of CF "0xFF" "SET_FLAGS_OSZAPC (3 :: 8 word) 5 (3 - 5) (LF_SUB, W8) flags0"]
      lazy_unary [where 'a = 8, of OF "0x80" flags0] by (simp add: width_of_def)
qed

section \<open>Bringing the flags up to date\<close>

text \<open>Reading EFLAGS: \<^verbatim>\<open>force_flags\<close> leaves no flag pending, stores in each of the six bits of
  \<^verbatim>\<open>eflags\<close> the value the flag had, keeps every other bit, and no flag read afterwards differs
  from what it was before.\<close>

theorem force_flags_stores:
  "lf_status (force_flags S) = 0 \<and>
   (\<forall>f. bit (eflags (force_flags S)) (flag_bit f) = get_flag f S \<and> get_flag f (force_flags S) = get_flag f S) \<and>
   {n. bit (eflags (force_flags S)) n \<noteq> bit (eflags S) n} \<subseteq> range flag_bit"
proof -
  have s: "lf_status (force_flags S) = 0" by (rule force_flags_status)
  have "bit (eflags (force_flags S)) (flag_bit f) = get_flag f (force_flags S)" for f
    by (simp add: get_flag_bit s)
  moreover have "bit (eflags (force_flags S)) n = bit (eflags S) n" if "n \<notin> range flag_bit" for n
    using that by (intro force_flags_other) auto
  ultimately show ?thesis using s by auto
qed

end
