(* ===== verification/Bochs_ALU.thy ===== *)
theory Bochs_ALU
  imports Bochs_Flags
begin

unbundle bit_operations_syntax

section \<open>The 8-bit instructions of the emulated CPU\<close>

text \<open>
  Models \<^verbatim>\<open>cpu/arith8.cc\<close>, \<^verbatim>\<open>cpu/logical8.cc\<close>, \<^verbatim>\<open>cpu/mult8.cc\<close>,
  \<^verbatim>\<open>cpu/shift8.cc\<close>, \<^verbatim>\<open>cpu/bcd.cc\<close> and the flag instructions of
  \<^verbatim>\<open>cpu/flag_ctrl.cc\<close> that do not depend on the processor mode. An instruction works on the
  general registers, on the flags and on at most one byte of memory, the one its address bytes
  denote: \<open>mem_operand\<close>. How that byte is found (segmentation, paging and their faults) is not
  modelled. Where the code calls \<^verbatim>\<open>exception\<close>, which does not return, the result is the
  number of the exception.
\<close>

subsection \<open>Registers and instructions\<close>

record cpu =
  gen_reg :: "nat \<Rightarrow> 64 word"
  flags :: cpu_flags
  mem_operand :: "8 word"

record bxInstruction =
  nnn :: nat
  rm :: nat
  extend8bitL :: bool
  modC0 :: bool
  b1 :: "8 word"
  Ib :: "8 word"

text \<open>The views of one register in \<^verbatim>\<open>bx_gen_reg_t\<close>.\<close>

definition byte_rl :: "64 word \<Rightarrow> 8 word" where "byte_rl r = ucast r"

definition byte_rh :: "64 word \<Rightarrow> 8 word" where "byte_rh r = ucast (drop_bit 8 r)"

definition word_rx :: "64 word \<Rightarrow> 16 word" where "word_rx r = ucast r"

definition set_rl :: "8 word \<Rightarrow> 64 word \<Rightarrow> 64 word" where
  "set_rl v r = (r AND NOT 0xFF) OR ucast v"

definition set_rh :: "8 word \<Rightarrow> 64 word \<Rightarrow> 64 word" where
  "set_rh v r = (r AND NOT 0xFF00) OR push_bit 8 (ucast v)"

definition set_rx :: "16 word \<Rightarrow> 64 word \<Rightarrow> 64 word" where
  "set_rx v r = (r AND NOT 0xFFFF) OR ucast v"

definition upd_reg :: "nat \<Rightarrow> (64 word \<Rightarrow> 64 word) \<Rightarrow> cpu \<Rightarrow> cpu" where
  "upd_reg n f c = c\<lparr>gen_reg := (gen_reg c)(n := f (gen_reg c n))\<rparr>"

definition READ_8BIT_REGx :: "nat \<Rightarrow> bool \<Rightarrow> cpu \<Rightarrow> 8 word" where
  "READ_8BIT_REGx n ext c =
     (if n AND 4 = 0 \<or> ext then byte_rl (gen_reg c n) else byte_rh (gen_reg c (n - 4)))"

definition WRITE_8BIT_REGx :: "nat \<Rightarrow> bool \<Rightarrow> 8 word \<Rightarrow> cpu \<Rightarrow> cpu" where
  "WRITE_8BIT_REGx n ext v c =
     (if n AND 4 = 0 \<or> ext then upd_reg n (set_rl v) c else upd_reg (n - 4) (set_rh v) c)"

abbreviation AL :: "cpu \<Rightarrow> 8 word" where "AL c \<equiv> byte_rl (gen_reg c 0)"
abbreviation AH :: "cpu \<Rightarrow> 8 word" where "AH c \<equiv> byte_rh (gen_reg c 0)"
abbreviation AX :: "cpu \<Rightarrow> 16 word" where "AX c \<equiv> word_rx (gen_reg c 0)"
abbreviation CL :: "cpu \<Rightarrow> 8 word" where "CL c \<equiv> byte_rl (gen_reg c 1)"
abbreviation set_AL :: "8 word \<Rightarrow> cpu \<Rightarrow> cpu" where "set_AL v \<equiv> upd_reg 0 (set_rl v)"
abbreviation set_AH :: "8 word \<Rightarrow> cpu \<Rightarrow> cpu" where "set_AH v \<equiv> upd_reg 0 (set_rh v)"
abbreviation set_AX :: "16 word \<Rightarrow> cpu \<Rightarrow> cpu" where "set_AX v \<equiv> upd_reg 0 (set_rx v)"

definition upd_flags :: "(cpu_flags \<Rightarrow> cpu_flags) \<Rightarrow> cpu \<Rightarrow> cpu" where
  "upd_flags f c = c\<lparr>flags := f (flags c)\<rparr>"

abbreviation reg_nnn :: "bxInstruction \<Rightarrow> cpu \<Rightarrow> 8 word" where
  "reg_nnn i \<equiv> READ_8BIT_REGx (nnn i) (extend8bitL i)"
abbreviation reg_rm :: "bxInstruction \<Rightarrow> cpu \<Rightarrow> 8 word" where
  "reg_rm i \<equiv> READ_8BIT_REGx (rm i) (extend8bitL i)"
abbreviation set_nnn :: "bxInstruction \<Rightarrow> 8 word \<Rightarrow> cpu \<Rightarrow> cpu" where
  "set_nnn i \<equiv> WRITE_8BIT_REGx (nnn i) (extend8bitL i)"
abbreviation set_rm :: "bxInstruction \<Rightarrow> 8 word \<Rightarrow> cpu \<Rightarrow> cpu" where
  "set_rm i \<equiv> WRITE_8BIT_REGx (rm i) (extend8bitL i)"
abbreviation set_mem :: "8 word \<Rightarrow> cpu \<Rightarrow> cpu" where
  "set_mem v c \<equiv> c\<lparr>mem_operand := v\<rparr>"

abbreviation flags_add8 :: "8 word \<Rightarrow> 8 word \<Rightarrow> 8 word \<Rightarrow> cpu \<Rightarrow> cpu" where
  "flags_add8 a b r \<equiv> upd_flags (SET_FLAGS_OSZAPC a b r (LF_ADD, W8))"
abbreviation flags_sub8 :: "8 word \<Rightarrow> 8 word \<Rightarrow> 8 word \<Rightarrow> cpu \<Rightarrow> cpu" where
  "flags_sub8 a b r \<equiv> upd_flags (SET_FLAGS_OSZAPC a b r (LF_SUB, W8))"
abbreviation flags_adc8 :: "bool \<Rightarrow> 8 word \<Rightarrow> 8 word \<Rightarrow> 8 word \<Rightarrow> cpu \<Rightarrow> cpu" where
  "flags_adc8 cf a b r \<equiv> upd_flags (SET_FLAGS_OSZAPC a b r (if cf then LF_ADC else LF_ADD, W8))"
abbreviation flags_sbb8 :: "bool \<Rightarrow> 8 word \<Rightarrow> 8 word \<Rightarrow> 8 word \<Rightarrow> cpu \<Rightarrow> cpu" where
  "flags_sbb8 cf a b r \<equiv> upd_flags (SET_FLAGS_OSZAPC a b r (if cf then LF_SBB else LF_SUB, W8))"
abbreviation flags_logic8 :: "8 word \<Rightarrow> cpu \<Rightarrow> cpu" where
  "flags_logic8 r \<equiv> upd_flags (SET_FLAGS_OSZAPC_RESULT r (LF_LOGIC, W8))"

subsection \<open>Arithmetic\<close>

definition ADD_EbGbM :: "bxInstruction \<Rightarrow> cpu \<Rightarrow> cpu" where
  "ADD_EbGbM i c = (let op1 = mem_operand c; op2 = reg_nnn i c; sum = op1 + op2
     in flags_add8 op1 op2 sum (set_mem sum c))"

definition ADD_GbEbR :: "bxInstruction \<Rightarrow> cpu \<Rightarrow> cpu" where
  "ADD_GbEbR i c = (let op1 = reg_nnn i c; op2 = reg_rm i c; sum = op1 + op2
     in flags_add8 op1 op2 sum (set_nnn i sum c))"

definition ADD_ALIb :: "bxInstruction \<Rightarrow> cpu \<Rightarrow> cpu" where
  "ADD_ALIb i c = (let op1 = AL c; op2 = Ib i; sum = op1 + op2
     in flags_add8 op1 op2 sum (set_AL sum c))"

definition ADD_EbIbM :: "bxInstruction \<Rightarrow> cpu \<Rightarrow> cpu" where
  "ADD_EbIbM i c = (let op1 = mem_operand c; op2 = Ib i; sum = op1 + op2
     in flags_add8 op1 op2 sum (set_mem sum c))"

definition ADD_EbIbR :: "bxInstruction \<Rightarrow> cpu \<Rightarrow> cpu" where
  "ADD_EbIbR i c = (let op1 = reg_rm i c; op2 = Ib i; sum = op1 + op2
     in flags_add8 op1 op2 sum (set_rm i sum c))"

definition ADC_EbGbM :: "bxInstruction \<Rightarrow> cpu \<Rightarrow> cpu" where
  "ADC_EbGbM i c = (let temp_CF = get_flag CF (flags c); op1 = mem_operand c; op2 = reg_nnn i c; sum = op1 + op2 + of_bool temp_CF
     in flags_adc8 temp_CF op1 op2 sum (set_mem sum c))"

definition ADC_GbEbR :: "bxInstruction \<Rightarrow> cpu \<Rightarrow> cpu" where
  "ADC_GbEbR i c = (let temp_CF = get_flag CF (flags c); op1 = reg_nnn i c; op2 = reg_rm i c; sum = op1 + op2 + of_bool temp_CF
     in flags_adc8 temp_CF op1 op2 sum (set_nnn i sum c))"

definition ADC_ALIb :: "bxInstruction \<Rightarrow> cpu \<Rightarrow> cpu" where
  "ADC_ALIb i c = (let temp_CF = get_flag CF (flags c); op1 = AL c; op2 = Ib i; sum = op1 + op2 + of_bool temp_CF
     in flags_adc8 temp_CF op1 op2 sum (set_AL sum c))"

definition ADC_EbIbM :: "bxInstruction \<Rightarrow> cpu \<Rightarrow> cpu" where
  "ADC_EbIbM i c = (let temp_CF = get_flag CF (flags c); op1 = mem_operand c; op2 = Ib i; sum = op1 + op2 + of_bool temp_CF
     in flags_adc8 temp_CF op1 op2 sum (set_mem sum c))"

definition ADC_EbIbR :: "bxInstruction \<Rightarrow> cpu \<Rightarrow> cpu" where
  "ADC_EbIbR i c = (let temp_CF = get_flag CF (flags c); op1 = reg_rm i c; op2 = Ib i; sum = op1 + op2 + of_bool temp_CF
     in flags_adc8 temp_CF op1 op2 sum (set_rm i sum c))"

definition SBB_EbGbM :: "bxInstruction \<Rightarrow> cpu \<Rightarrow> cpu" where
  "SBB_EbGbM i c = (let temp_CF = get_flag CF (flags c); op1 = mem_operand c; op2 = reg_nnn i c; diff = op1 - (op2 + of_bool temp_CF)
     in flags_sbb8 temp_CF op1 op2 diff (set_mem diff c))"

definition SBB_GbEbR :: "bxInstruction \<Rightarrow> cpu \<Rightarrow> cpu" where
  "SBB_GbEbR i c = (let temp_CF = get_flag CF (flags c); op1 = reg_nnn i c; op2 = reg_rm i c; diff = op1 - (op2 + of_bool temp_CF)
     in flags_sbb8 temp_CF op1 op2 diff (set_nnn i diff c))"

definition SBB_ALIb :: "bxInstruction \<Rightarrow> cpu \<Rightarrow> cpu" where
  "SBB_ALIb i c = (let temp_CF = get_flag CF (flags c); op1 = AL c; op2 = Ib i; diff = op1 - (op2 + of_bool temp_CF)
     in flags_sbb8 temp_CF op1 op2 diff (set_AL diff c))"

definition SBB_EbIbM :: "bxInstruction \<Rightarrow> cpu \<Rightarrow> cpu" where
  "SBB_EbIbM i c = (let temp_CF = get_flag CF (flags c); op1 = mem_operand c; op2 = Ib i; diff = op1 - (op2 + of_bool temp_CF)
     in flags_sbb8 temp_CF op1 op2 diff (set_mem diff c))"

definition SBB_EbIbR :: "bxInstruction \<Rightarrow> cpu \<Rightarrow> cpu" where
  "SBB_EbIbR i c = (let temp_CF = get_flag CF (flags c); op1 = reg_rm i c; op2 = Ib i; diff = op1 - (op2 + of_bool temp_CF)
     in flags_sbb8 temp_CF op1 op2 diff (set_rm i diff c))"

definition SUB_EbGbM :: "bxInstruction \<Rightarrow> cpu \<Rightarrow> cpu" where
  "SUB_EbGbM i c = (let op1 = mem_operand c; op2 = reg_nnn i c; diff = op1 - op2
     in flags_sub8 op1 op2 diff (set_mem diff c))"

definition SUB_GbEbR :: "bxInstruction \<Rightarrow> cpu \<Rightarrow> cpu" where
  "SUB_GbEbR i c = (let op1 = reg_nnn i c; op2 = reg_rm i c; diff = op1 - op2
     in flags_sub8 op1 op2 diff (set_nnn i diff c))"

definition SUB_ALIb :: "bxInstruction \<Rightarrow> cpu \<Rightarrow> cpu" where
  "SUB_ALIb i c = (let op1 = AL c; op2 = Ib i; diff = op1 - op2
     in flags_sub8 op1 op2 diff (set_AL diff c))"

definition SUB_EbIbM :: "bxInstruction \<Rightarrow> cpu \<Rightarrow> cpu" where
  "SUB_EbIbM i c = (let op1 = mem_operand c; op2 = Ib i; diff = op1 - op2
     in flags_sub8 op1 op2 diff (set_mem diff c))"

definition SUB_EbIbR :: "bxInstruction \<Rightarrow> cpu \<Rightarrow> cpu" where
  "SUB_EbIbR i c = (let op1 = reg_rm i c; op2 = Ib i; diff = op1 - op2
     in flags_sub8 op1 op2 diff (set_rm i diff c))"

definition CMP_EbGbM :: "bxInstruction \<Rightarrow> cpu \<Rightarrow> cpu" where
  "CMP_EbGbM i c = (let op1 = mem_operand c; op2 = reg_nnn i c; diff = op1 - op2 in flags_sub8 op1 op2 diff c)"

definition CMP_GbEbR :: "bxInstruction \<Rightarrow> cpu \<Rightarrow> cpu" where
  "CMP_GbEbR i c = (let op1 = reg_nnn i c; op2 = reg_rm i c; diff = op1 - op2 in flags_sub8 op1 op2 diff c)"

definition CMP_ALIb :: "bxInstruction \<Rightarrow> cpu \<Rightarrow> cpu" where
  "CMP_ALIb i c = (let op1 = AL c; op2 = Ib i; diff = op1 - op2 in flags_sub8 op1 op2 diff c)"

definition CMP_EbIbM :: "bxInstruction \<Rightarrow> cpu \<Rightarrow> cpu" where
  "CMP_EbIbM i c = (let op1 = mem_operand c; op2 = Ib i; diff = op1 - op2 in flags_sub8 op1 op2 diff c)"

definition CMP_EbIbR :: "bxInstruction \<Rightarrow> cpu \<Rightarrow> cpu" where
  "CMP_EbIbR i c = (let op1 = reg_rm i c; op2 = Ib i; diff = op1 - op2 in flags_sub8 op1 op2 diff c)"

definition NEG_EbM :: "bxInstruction \<Rightarrow> cpu \<Rightarrow> cpu" where
  "NEG_EbM i c = (let op1 = - (mem_operand c) in upd_flags (SET_FLAGS_OSZAPC_RESULT op1 (LF_NEG, W8)) (set_mem op1 c))"

definition INC_EbM :: "bxInstruction \<Rightarrow> cpu \<Rightarrow> cpu" where
  "INC_EbM i c = (let op1 = mem_operand c + 1 in upd_flags (SET_FLAGS_OSZAP_RESULT op1 (LF_INC, W8)) (set_mem op1 c))"

definition DEC_EbM :: "bxInstruction \<Rightarrow> cpu \<Rightarrow> cpu" where
  "DEC_EbM i c = (let op1 = mem_operand c - 1 in upd_flags (SET_FLAGS_OSZAP_RESULT op1 (LF_DEC, W8)) (set_mem op1 c))"

definition NEG_EbR :: "bxInstruction \<Rightarrow> cpu \<Rightarrow> cpu" where
  "NEG_EbR i c = (let op1 = - (reg_rm i c) in upd_flags (SET_FLAGS_OSZAPC_RESULT op1 (LF_NEG, W8)) (set_rm i op1 c))"

definition INC_EbR :: "bxInstruction \<Rightarrow> cpu \<Rightarrow> cpu" where
  "INC_EbR i c = (let op1 = reg_rm i c + 1 in upd_flags (SET_FLAGS_OSZAP_RESULT op1 (LF_INC, W8)) (set_rm i op1 c))"

definition DEC_EbR :: "bxInstruction \<Rightarrow> cpu \<Rightarrow> cpu" where
  "DEC_EbR i c = (let op1 = reg_rm i c - 1 in upd_flags (SET_FLAGS_OSZAP_RESULT op1 (LF_DEC, W8)) (set_rm i op1 c))"

text \<open>The register form writes the sum last, in case both operands are the same register.\<close>

definition XADD_EbGbM :: "bxInstruction \<Rightarrow> cpu \<Rightarrow> cpu" where
  "XADD_EbGbM i c = (let op1 = mem_operand c; op2 = reg_nnn i c; sum = op1 + op2
     in flags_add8 op1 op2 sum (set_nnn i op1 (set_mem sum c)))"

definition XADD_EbGbR :: "bxInstruction \<Rightarrow> cpu \<Rightarrow> cpu" where
  "XADD_EbGbR i c = (let op1 = reg_rm i c; op2 = reg_nnn i c; sum = op1 + op2
     in flags_add8 op1 op2 sum (set_rm i sum (set_nnn i op1 c)))"

definition CMPXCHG_EbGbM :: "bxInstruction \<Rightarrow> cpu \<Rightarrow> cpu" where
  "CMPXCHG_EbGbM i c = (let op1 = mem_operand c; diff = AL c - op1; c1 = flags_sub8 (AL c) op1 diff c
     in if diff = 0 then set_mem (reg_nnn i c1) c1 else set_AL op1 c1)"

definition CMPXCHG_EbGbR :: "bxInstruction \<Rightarrow> cpu \<Rightarrow> cpu" where
  "CMPXCHG_EbGbR i c = (let op1 = reg_rm i c; diff = AL c - op1; c1 = flags_sub8 (AL c) op1 diff c
     in if diff = 0 then set_rm i (reg_nnn i c1) c1 else set_AL op1 c1)"

subsection \<open>Logic\<close>

definition XOR_EbGbM :: "bxInstruction \<Rightarrow> cpu \<Rightarrow> cpu" where
  "XOR_EbGbM i c = (let op1 = mem_operand c XOR reg_nnn i c in flags_logic8 op1 (set_mem op1 c))"

definition XOR_GbEbR :: "bxInstruction \<Rightarrow> cpu \<Rightarrow> cpu" where
  "XOR_GbEbR i c = (let op1 = reg_nnn i c XOR reg_rm i c in flags_logic8 op1 (set_nnn i op1 c))"

definition XOR_ALIb :: "bxInstruction \<Rightarrow> cpu \<Rightarrow> cpu" where
  "XOR_ALIb i c = (let op1 = AL c XOR Ib i in flags_logic8 op1 (set_AL op1 c))"

definition XOR_EbIbM :: "bxInstruction \<Rightarrow> cpu \<Rightarrow> cpu" where
  "XOR_EbIbM i c = (let op1 = mem_operand c XOR Ib i in flags_logic8 op1 (set_mem op1 c))"

definition XOR_EbIbR :: "bxInstruction \<Rightarrow> cpu \<Rightarrow> cpu" where
  "XOR_EbIbR i c = (let op1 = reg_rm i c XOR Ib i in flags_logic8 op1 (set_rm i op1 c))"

definition OR_EbGbM :: "bxInstruction \<Rightarrow> cpu \<Rightarrow> cpu" where
  "OR_EbGbM i c = (let op1 = mem_operand c OR reg_nnn i c in flags_logic8 op1 (set_mem op1 c))"

definition OR_GbEbR :: "bxInstruction \<Rightarrow> cpu \<Rightarrow> cpu" where
  "OR_GbEbR i c = (let op1 = reg_nnn i c OR reg_rm i c in flags_logic8 op1 (set_nnn i op1 c))"

definition OR_ALIb :: "bxInstruction \<Rightarrow> cpu \<Rightarrow> cpu" where
  "OR_ALIb i c = (let op1 = AL c OR Ib i in flags_logic8 op1 (set_AL op1 c))"

definition OR_EbIbM :: "bxInstruction \<Rightarrow> cpu \<Rightarrow> cpu" where
  "OR_EbIbM i c = (let op1 = mem_operand c OR Ib i in flags_logic8 op1 (set_mem op1 c))"

definition OR_EbIbR :: "bxInstruction \<Rightarrow> cpu \<Rightarrow> cpu" where
  "OR_EbIbR i c = (let op1 = reg_rm i c OR Ib i in flags_logic8 op1 (set_rm i op1 c))"

definition AND_EbGbM :: "bxInstruction \<Rightarrow> cpu \<Rightarrow> cpu" where
  "AND_EbGbM i c = (let op1 = mem_operand c AND reg_nnn i c in flags_logic8 op1 (set_mem op1 c))"

definition AND_GbEbR :: "bxInstruction \<Rightarrow> cpu \<Rightarrow> cpu" where
  "AND_GbEbR i c = (let op1 = reg_nnn i c AND reg_rm i c in flags_logic8 op1 (set_nnn i op1 c))"

definition AND_ALIb :: "bxInstruction \<Rightarrow> cpu \<Rightarrow> cpu" where
  "AND_ALIb i c = (let op1 = AL c AND Ib i in flags_logic8 op1 (set_AL op1 c))"

definition AND_EbIbM :: "bxInstruction \<Rightarrow> cpu \<Rightarrow> cpu" where
  "AND_EbIbM i c = (let op1 = mem_operand c AND Ib i in flags_logic8 op1 (set_mem op1 c))"

definition AND_EbIbR :: "bxInstruction \<Rightarrow> cpu \<Rightarrow> cpu" where
  "AND_EbIbR i c = (let op1 = reg_rm i c AND Ib i in flags_logic8 op1 (set_rm i op1 c))"

definition NOT_EbM :: "bxInstruction \<Rightarrow> cpu \<Rightarrow> cpu" where
  "NOT_EbM i c = set_mem (NOT (mem_operand c)) c"

definition NOT_EbR :: "bxInstruction \<Rightarrow> cpu \<Rightarrow> cpu" where
  "NOT_EbR i c = set_rm i (NOT (reg_rm i c)) c"

definition TEST_EbGbR :: "bxInstruction \<Rightarrow> cpu \<Rightarrow> cpu" where
  "TEST_EbGbR i c = (let op1 = reg_rm i c AND reg_nnn i c in flags_logic8 op1 c)"

definition TEST_ALIb :: "bxInstruction \<Rightarrow> cpu \<Rightarrow> cpu" where
  "TEST_ALIb i c = (let op1 = AL c AND Ib i in flags_logic8 op1 c)"

definition TEST_EbIbR :: "bxInstruction \<Rightarrow> cpu \<Rightarrow> cpu" where
  "TEST_EbIbR i c = (let op1 = reg_rm i c AND Ib i in flags_logic8 op1 c)"

subsection \<open>Decimal adjustment\<close>

definition AAA :: "cpu \<Rightarrow> cpu" where
  "AAA c0 =
     (let c1 = (if AL c0 AND 0x0F > 9 \<or> get_flag AF (flags c0)
                then upd_flags (assert_flag CF \<circ> assert_flag AF) (set_AX (AX c0 + 0x106) c0)
                else upd_flags (clear_flag CF \<circ> clear_flag AF) c0);
          c2 = set_AL (AL c1 AND 0x0F) c1
      in upd_flags (set_PF_base (AL c2) \<circ> set_flag ZF (AL c2 = 0) \<circ> clear_flag SF \<circ> clear_flag OF) c2)"

definition AAS :: "cpu \<Rightarrow> cpu" where
  "AAS c0 =
     (let c1 = (if AL c0 AND 0x0F > 0x09 \<or> get_flag AF (flags c0)
                then upd_flags (assert_flag CF \<circ> assert_flag AF) (set_AX (AX c0 - 0x106) c0)
                else upd_flags (clear_flag AF \<circ> clear_flag CF) c0);
          c2 = set_AL (AL c1 AND 0x0F) c1
      in upd_flags (set_PF_base (AL c2) \<circ> set_flag ZF (AL c2 = 0) \<circ> clear_flag SF \<circ> clear_flag OF) c2)"

definition DE_EXCEPTION :: nat where "DE_EXCEPTION = 0"

definition AAM :: "bxInstruction \<Rightarrow> cpu \<Rightarrow> nat + cpu" where
  "AAM i c =
     (let imm8 = Ib i in
      if imm8 = 0 then Inl DE_EXCEPTION
      else let al = AL c; c1 = set_AL (al mod imm8) (set_AH (al div imm8) c)
           in Inr (flags_logic8 (AL c1) c1))"

definition AAD :: "bxInstruction \<Rightarrow> cpu \<Rightarrow> cpu" where
  "AAD i c =
     (let tmp = (ucast (AH c) :: 16 word); tmp = tmp * ucast (Ib i); tmp = tmp + ucast (AL c);
          c1 = set_AX (tmp AND 0xFF) c
      in flags_logic8 (AL c1) c1)"

text \<open>\<^verbatim>\<open>DAA\<close> and \<^verbatim>\<open>DAS\<close>; the flags that steer the second adjustment are read after the first.\<close>

definition DAA :: "cpu \<Rightarrow> cpu" where
  "DAA c0 =
     (let tmpAL = AL c0;
          c1 = (if tmpAL AND 0x0F > 0x09 \<or> get_flag AF (flags c0)
                then upd_flags (assert_flag AF) (set_AL (AL c0 + 0x06) c0)
                else upd_flags (clear_flag AF) c0);
          high = (tmpAL > 0x99 \<or> get_flag CF (flags c1));
          c2 = (if high then set_AL (AL c1 + 0x60) c1 else c1);
          tmpCF = high
      in upd_flags (set_flag CF tmpCF \<circ> set_PF_base (AL c2) \<circ> set_flag ZF (AL c2 = 0) \<circ>
                    set_flag SF (AL c2 \<ge> 0x80) \<circ> clear_flag OF) c2)"

definition DAS :: "cpu \<Rightarrow> cpu" where
  "DAS c0 =
     (let tmpAL = AL c0;
          low = (tmpAL AND 0x0F > 0x09 \<or> get_flag AF (flags c0));
          tmpCF = (low \<and> (AL c0 < 0x06 \<or> get_flag CF (flags c0)));
          c1 = (if low then upd_flags (assert_flag AF) (set_AL (AL c0 - 0x06) c0)
                else upd_flags (clear_flag AF) c0);
          high = (tmpAL > 0x99 \<or> get_flag CF (flags c1));
          c2 = (if high then set_AL (AL c1 - 0x60) c1 else c1);
          tmpCF = (high \<or> tmpCF)
      in upd_flags (set_flag CF tmpCF \<circ> set_PF_base (AL c2) \<circ> set_flag ZF (AL c2 = 0) \<circ>
                    set_flag SF (AL c2 \<ge> 0x80) \<circ> clear_flag OF) c2)"

subsection \<open>Multiplication and division\<close>

definition MUL_ALEbR :: "bxInstruction \<Rightarrow> cpu \<Rightarrow> cpu" where
  "MUL_ALEbR i c =
     (let op1 = AL c; op2 = reg_rm i c;
          product_16 = (ucast op1 * ucast op2 :: 32 word);
          product_8l = (ucast (product_16 AND 0xFF) :: 8 word);
          product_8h = (ucast (drop_bit 8 product_16) :: 8 word);
          c1 = flags_logic8 product_8l (set_AX (ucast product_16) c)
      in if product_8h \<noteq> 0 then upd_flags ASSERT_FLAGS_OxxxxC c1 else c1)"

text \<open>The operands are promoted to \<^verbatim>\<open>int\<close>; the product fits in 16 bits.\<close>

definition IMUL_ALEbR :: "bxInstruction \<Rightarrow> cpu \<Rightarrow> cpu" where
  "IMUL_ALEbR i c =
     (let op1 = AL c; op2 = reg_rm i c;
          product_16 = (word_of_int (sint op1 * sint op2) :: 16 word);
          product_8 = (ucast (product_16 AND 0xFF) :: 8 word);
          c1 = flags_logic8 product_8 (set_AX product_16 c)
      in if sint product_16 \<noteq> sint (ucast product_16 :: 8 word) then upd_flags ASSERT_FLAGS_OxxxxC c1 else c1)"

definition DIV_ALEbR :: "bxInstruction \<Rightarrow> cpu \<Rightarrow> nat + cpu" where
  "DIV_ALEbR i c =
     (let op2 = reg_rm i c in
      if op2 = 0 then Inl DE_EXCEPTION
      else
        (let op1 = AX c;
             quotient_16 = op1 div ucast op2;
             remainder_8 = (ucast (op1 mod ucast op2) :: 8 word);
             quotient_8l = (ucast (quotient_16 AND 0xFF) :: 8 word)
         in if quotient_16 \<noteq> ucast quotient_8l then Inl DE_EXCEPTION
            else Inr (set_AH remainder_8 (set_AL quotient_8l c))))"

text \<open>C's division truncates toward zero.\<close>

definition IDIV_ALEbR :: "bxInstruction \<Rightarrow> cpu \<Rightarrow> nat + cpu" where
  "IDIV_ALEbR i c =
     (let op1 = AX c in
      if op1 = 0x8000 then Inl DE_EXCEPTION
      else
        (let op2 = reg_rm i c in
         if op2 = 0 then Inl DE_EXCEPTION
         else
           (let quotient_16 = (word_of_int (sint op1 sdiv sint op2) :: 16 word);
                remainder_8 = (word_of_int (sint op1 smod sint op2) :: 8 word);
                quotient_8l = (ucast (quotient_16 AND 0xFF) :: 8 word)
            in if sint quotient_16 \<noteq> sint quotient_8l then Inl DE_EXCEPTION
               else Inr (set_AH remainder_8 (set_AL quotient_8l c)))))"

subsection \<open>Shifts and rotations\<close>

definition shift_count :: "bxInstruction \<Rightarrow> cpu \<Rightarrow> nat" where
  "shift_count i c = (if b1 i = 0xD2 then unat (CL c) else unat (Ib i))"

definition eb_read :: "bxInstruction \<Rightarrow> cpu \<Rightarrow> 8 word" where
  "eb_read i c = (if modC0 i then reg_rm i c else mem_operand c)"

definition eb_write :: "bxInstruction \<Rightarrow> 8 word \<Rightarrow> cpu \<Rightarrow> cpu" where
  "eb_write i v c = (if modC0 i then set_rm i v c else set_mem v c)"

text \<open>In C the bytes are promoted to \<^verbatim>\<open>int\<close> before they are shifted and cut to 8 bits when the
  result is stored; \<open>bit_at n x\<close> is \<^verbatim>\<open>(x >> n) & 1\<close>.\<close>

abbreviation bit_at :: "nat \<Rightarrow> 8 word \<Rightarrow> bool" where "bit_at n x \<equiv> bit x n"

definition ROL_Eb :: "bxInstruction \<Rightarrow> cpu \<Rightarrow> cpu" where
  "ROL_Eb i c =
     (let count = shift_count i c; op1 = eb_read i c in
      if count AND 0x07 = 0 then
        (if count AND 0x18 \<noteq> 0
         then upd_flags (SET_FLAGS_OxxxxC (bit_at 0 op1 \<noteq> bit_at 7 op1) (bit_at 0 op1)) c else c)
      else
        (let count = count AND 0x7; res = push_bit count op1 OR drop_bit (8 - count) op1
         in upd_flags (SET_FLAGS_OxxxxC (bit_at 0 res \<noteq> bit_at 7 res) (bit_at 0 res)) (eb_write i res c)))"

definition ROR_Eb :: "bxInstruction \<Rightarrow> cpu \<Rightarrow> cpu" where
  "ROR_Eb i c =
     (let count = shift_count i c; op1 = eb_read i c in
      if count AND 0x07 = 0 then
        (if count AND 0x18 \<noteq> 0
         then upd_flags (SET_FLAGS_OxxxxC (bit_at 6 op1 \<noteq> bit_at 7 op1) (bit_at 7 op1)) c else c)
      else
        (let count = count AND 0x7; res = drop_bit count op1 OR push_bit (8 - count) op1
         in upd_flags (SET_FLAGS_OxxxxC (bit_at 6 res \<noteq> bit_at 7 res) (bit_at 7 res)) (eb_write i res c)))"

definition RCL_Eb :: "bxInstruction \<Rightarrow> cpu \<Rightarrow> cpu" where
  "RCL_Eb i c =
     (let op1 = eb_read i c; count = (shift_count i c AND 0x1F) mod 9; cf0 = of_bool (get_flag CF (flags c)) in
      if count = 0 then c
      else
        (let res = (if count = 1 then push_bit 1 op1 OR cf0
                    else push_bit count op1 OR push_bit (count - 1) cf0 OR drop_bit (9 - count) op1);
             cf = bit_at (8 - count) op1
         in upd_flags (SET_FLAGS_OxxxxC (cf \<noteq> bit_at 7 res) cf) (eb_write i res c)))"

definition RCR_Eb :: "bxInstruction \<Rightarrow> cpu \<Rightarrow> cpu" where
  "RCR_Eb i c =
     (let op1 = eb_read i c; count = (shift_count i c AND 0x1F) mod 9; cf0 = of_bool (get_flag CF (flags c)) in
      if count = 0 then c
      else
        (let res = drop_bit count op1 OR push_bit (8 - count) cf0 OR push_bit (9 - count) op1;
             cf = bit_at (count - 1) op1
         in upd_flags (SET_FLAGS_OxxxxC (bit_at 6 res \<noteq> bit_at 7 res) cf) (eb_write i res c)))"

definition SHL_Eb :: "bxInstruction \<Rightarrow> cpu \<Rightarrow> cpu" where
  "SHL_Eb i c =
     (let count = shift_count i c AND 0x1F; op1 = eb_read i c in
      if count = 0 then c
      else
        (let res = (if count \<le> 8 then push_bit count op1 else 0);
             cf = (if count \<le> 8 then bit_at (8 - count) op1 else False);
             ov = (if count \<le> 8 then cf \<noteq> bit_at 7 res else False)
         in upd_flags (SET_FLAGS_OxxxxC ov cf) (flags_logic8 res (eb_write i res c))))"

definition SHR_Eb :: "bxInstruction \<Rightarrow> cpu \<Rightarrow> cpu" where
  "SHR_Eb i c =
     (let count = shift_count i c AND 0x1F; op1 = eb_read i c in
      if count = 0 then c
      else
        (let res = drop_bit count op1; cf = bit_at (count - 1) op1; ov = (bit_at 6 res \<noteq> bit_at 7 res)
         in upd_flags (SET_FLAGS_OxxxxC ov cf) (flags_logic8 res (eb_write i res c))))"

definition SAR_Eb :: "bxInstruction \<Rightarrow> cpu \<Rightarrow> cpu" where
  "SAR_Eb i c =
     (let count = shift_count i c AND 0x1F; op1 = eb_read i c in
      if count = 0 then c
      else
        (let neg = (op1 AND 0x80 \<noteq> 0);
             res = (if count < 8 then
                      (if neg then drop_bit count op1 OR push_bit (8 - count) 0xFF else drop_bit count op1)
                    else (if neg then 0xFF else 0));
             cf = (if count < 8 then bit_at (count - 1) op1 else bit_at 0 res)
         in eb_write i res (upd_flags (SET_FLAGS_OxxxxC False cf) (flags_logic8 res c))))"

subsection \<open>Flag instructions\<close>

definition SAHF :: "cpu \<Rightarrow> cpu" where
  "SAHF c =
     upd_flags (set_flag PF (bit (AH c) 2) \<circ> set_flag CF (bit (AH c) 0) \<circ> set_flag AF (bit (AH c) 4) \<circ>
                set_flag ZF (bit (AH c) 6) \<circ> set_flag SF (bit (AH c) 7)) c"

definition LAHF :: "cpu \<Rightarrow> cpu" where
  "LAHF c = (let c1 = upd_flags force_flags c in set_AH (ucast (eflags (flags c1) AND 0xFF)) c1)"

definition CLC :: "cpu \<Rightarrow> cpu" where "CLC = upd_flags (clear_flag CF)"

definition STC :: "cpu \<Rightarrow> cpu" where "STC = upd_flags (assert_flag CF)"

definition CMC :: "cpu \<Rightarrow> cpu" where
  "CMC c = upd_flags (set_flag CF (\<not> get_flag CF (flags c))) c"

definition SALC :: "cpu \<Rightarrow> cpu" where
  "SALC c = (if get_flag CF (flags c) then set_AL 0xFF c else set_AL 0x00 c)"

section \<open>Operands\<close>

lemma byte_masks:
  "(0xFF :: 64 word) = mask 8" "(0xFF00 :: 64 word) = push_bit 8 (mask 8)" "(0xFFFF :: 64 word) = mask 16"
  by (simp_all add: mask_eq_exp_minus_1)

lemmas view_defs = byte_rl_def byte_rh_def word_rx_def set_rl_def set_rh_def set_rx_def byte_masks

lemma byte_views [simp]:
  "byte_rl (set_rl v r) = v" "byte_rh (set_rl v r) = byte_rh r"
  "byte_rh (set_rh v r) = v" "byte_rl (set_rh v r) = byte_rl r"
  "word_rx (set_rx w r) = w" "byte_rl (set_rx w r) = ucast w" "byte_rh (set_rx w r) = ucast (drop_bit 8 w)"
  by (rule bit_word_eqI; auto simp: view_defs bit_simps dest: bit_imp_le_length)+

lemma uint_views:
  "uint (byte_rl r) = uint r mod 256" "uint (byte_rh r) = uint r div 256 mod 256" "uint (word_rx r) = uint r mod 65536"
  by (simp_all add: byte_rl_def byte_rh_def word_rx_def unsigned_ucast_eq take_bit_eq_mod drop_bit_eq_div uint_div)

lemma uint_word_rx: "uint (word_rx r) = 256 * uint (byte_rh r) + uint (byte_rl r)"
  using mod_mult2_eq' [of "uint r" 256 256] by (simp add: uint_views)

lemma upd_reg_simps [simp]:
  "gen_reg (upd_reg n f c) m = (if m = n then f (gen_reg c n) else gen_reg c m)"
  "flags (upd_reg n f c) = flags c" "mem_operand (upd_reg n f c) = mem_operand c"
  "gen_reg (upd_flags g c) = gen_reg c" "mem_operand (upd_flags g c) = mem_operand c"
  "flags (upd_flags g c) = g (flags c)"
  by (simp_all add: upd_reg_def upd_flags_def)

lemma write_8bit [simp]:
  "READ_8BIT_REGx n x (WRITE_8BIT_REGx n x v c) = v"
  "flags (WRITE_8BIT_REGx n x v c) = flags c" "mem_operand (WRITE_8BIT_REGx n x v c) = mem_operand c"
  "READ_8BIT_REGx n x (upd_flags g c) = READ_8BIT_REGx n x c"
  "READ_8BIT_REGx n x (c\<lparr>mem_operand := v\<rparr>) = READ_8BIT_REGx n x c"
  by (simp_all add: READ_8BIT_REGx_def WRITE_8BIT_REGx_def)

text \<open>What an operand promises to the instruction that uses it: a byte that is read back as it was
  written, apart from the flags.\<close>

locale byte_operand =
  fixes rd :: "cpu \<Rightarrow> 8 word" and wr :: "8 word \<Rightarrow> cpu \<Rightarrow> cpu"
  assumes rd_wr: "rd (wr v c) = v"
    and rd_flags: "rd (upd_flags g c) = rd c"
    and flags_wr: "flags (wr v c) = flags c"
begin

text \<open>An addition with carry and the subtraction with the carry it left restore the operand.\<close>

lemma add_then_subtract:
  assumes "c' = upd_flags (SET_FLAGS_OSZAPC (rd c) b (rd c + b) (LF_ADD, W8)) (wr (rd c + b) c)"
  shows "rd c' - b = rd c" and "get_flag CF (flags c') = (256 \<le> uint (rd c) + uint b)"
    and "get_flag ZF (flags c') = (rd c' = 0)"
  using lazy_flags_add [where 'a = 8, of CF "rd c" b False "flags c"]
    lazy_flags_add [where 'a = 8, of ZF "rd c" b False "flags c"]
  by (simp_all add: assms rd_wr rd_flags flags_wr width_of_def add_flag_def Let_def)

lemma compare_below:
  assumes "c' = upd_flags (SET_FLAGS_OSZAPC (rd c) b (rd c - b) (LF_SUB, W8)) c"
  shows "get_flag CF (flags c') = (rd c < b)" and "get_flag ZF (flags c') = (rd c = b)"
    and "(get_flag SF (flags c') \<noteq> get_flag OF (flags c')) = (sint (rd c) < sint b)"
proof -
  note s = lazy_flags_sub [where 'a = 8, of _ "rd c" b False "flags c", simplified]
  show "get_flag CF (flags c') = (rd c < b)" "get_flag ZF (flags c') = (rd c = b)"
    using s [of CF] s [of ZF] by (simp_all add: assms width_of_def sub_flag_def word_less_def)
  have "(sint (rd c - b) < 0) \<noteq> (sint (rd c) - sint b \<notin> signed_range TYPE(8)) \<longleftrightarrow> sint (rd c) < sint b"
    using sint_wrap [where 'a = 8 and t = "sint (rd c) - sint b"] sint_ge [of "rd c"] sint_lt [of "rd c"]
      sint_ge [of b] sint_lt [of b]
    by (auto simp: signed_range_def split: if_splits)
  then show "(get_flag SF (flags c') \<noteq> get_flag OF (flags c')) = (sint (rd c) < sint b)"
    using s [of SF] s [of OF] by (simp add: assms width_of_def sub_flag_def)
qed

end

interpretation reg: byte_operand "READ_8BIT_REGx n x" "WRITE_8BIT_REGx n x" for n x
  by unfold_locales simp_all

interpretation acc: byte_operand AL set_AL
  by unfold_locales simp_all

interpretation memory: byte_operand mem_operand "\<lambda>v c. c\<lparr>mem_operand := v\<rparr>"
  by unfold_locales simp_all

section \<open>Two-operand instructions\<close>

text \<open>The reference: what each operation computes and what its flags mean, and where each form
  of an instruction finds its operands.\<close>

datatype alu = Add | Adc | Sub | Sbb | Cmp | And | Or | Xor | Test

datatype operand = Rm | Nnn | Mem | Acc | Imm

fun alu_result :: "alu \<Rightarrow> 'a::len word \<Rightarrow> 'a word \<Rightarrow> bool \<Rightarrow> 'a word" where
  "alu_result Add a b _ = a + b"
| "alu_result Adc a b cf = a + b + of_bool cf"
| "alu_result Sbb a b cf = a - (b + of_bool cf)"
| "alu_result And a b _ = a AND b"
| "alu_result Or a b _ = a OR b"
| "alu_result Xor a b _ = a XOR b"
| "alu_result Test a b _ = a AND b"
| "alu_result _ a b _ = a - b"

fun alu_flag :: "alu \<Rightarrow> 'a::len word \<Rightarrow> 'a word \<Rightarrow> bool \<Rightarrow> flag \<Rightarrow> bool" where
  "alu_flag Add a b _ = add_flag a b False"
| "alu_flag Adc a b cf = add_flag a b cf"
| "alu_flag Sub a b _ = sub_flag a b False"
| "alu_flag Cmp a b _ = sub_flag a b False"
| "alu_flag Sbb a b cf = sub_flag a b cf"
| "alu_flag oper a b cf = logic_flag (alu_result oper a b cf)"

primrec operand_value :: "operand \<Rightarrow> bxInstruction \<Rightarrow> cpu \<Rightarrow> 8 word" where
  "operand_value Rm i c = reg_rm i c"
| "operand_value Nnn i c = reg_nnn i c"
| "operand_value Mem i c = mem_operand c"
| "operand_value Acc i c = AL c"
| "operand_value Imm i c = Ib i"

primrec operand_store :: "operand \<Rightarrow> bxInstruction \<Rightarrow> 8 word \<Rightarrow> cpu \<Rightarrow> cpu" where
  "operand_store Rm i v c = set_rm i v c"
| "operand_store Nnn i v c = set_nnn i v c"
| "operand_store Mem i v c = set_mem v c"
| "operand_store Acc i v c = set_AL v c"
| "operand_store Imm i v c = c"

definition performs :: "(bxInstruction \<Rightarrow> cpu \<Rightarrow> cpu) \<Rightarrow> alu \<Rightarrow> operand \<Rightarrow> operand \<Rightarrow> bool" where
  "performs exec oper dst src \<longleftrightarrow>
     (\<forall>i c. let a = operand_value dst i c; b = operand_value src i c; cf = get_flag CF (flags c);
               c' = (if oper \<in> {Cmp, Test} then c else operand_store dst i (alu_result oper a b cf) c)
            in exec i c = c'\<lparr>flags := flags (exec i c)\<rparr> \<and>
               (\<forall>f. get_flag f (flags (exec i c)) = alu_flag oper a b cf f))"

definition alu8_table :: "((bxInstruction \<Rightarrow> cpu \<Rightarrow> cpu) \<times> alu \<times> operand \<times> operand) list" where
  "alu8_table = [
     (ADD_EbGbM, Add, Mem, Nnn), (ADD_GbEbR, Add, Nnn, Rm),
     (ADD_ALIb, Add, Acc, Imm), (ADD_EbIbM, Add, Mem, Imm),
     (ADD_EbIbR, Add, Rm, Imm), (ADC_EbGbM, Adc, Mem, Nnn),
     (ADC_GbEbR, Adc, Nnn, Rm), (ADC_ALIb, Adc, Acc, Imm),
     (ADC_EbIbM, Adc, Mem, Imm), (ADC_EbIbR, Adc, Rm, Imm),
     (SUB_EbGbM, Sub, Mem, Nnn), (SUB_GbEbR, Sub, Nnn, Rm),
     (SUB_ALIb, Sub, Acc, Imm), (SUB_EbIbM, Sub, Mem, Imm),
     (SUB_EbIbR, Sub, Rm, Imm), (SBB_EbGbM, Sbb, Mem, Nnn),
     (SBB_GbEbR, Sbb, Nnn, Rm), (SBB_ALIb, Sbb, Acc, Imm),
     (SBB_EbIbM, Sbb, Mem, Imm), (SBB_EbIbR, Sbb, Rm, Imm),
     (CMP_EbGbM, Cmp, Mem, Nnn), (CMP_GbEbR, Cmp, Nnn, Rm),
     (CMP_ALIb, Cmp, Acc, Imm), (CMP_EbIbM, Cmp, Mem, Imm),
     (CMP_EbIbR, Cmp, Rm, Imm), (AND_EbGbM, And, Mem, Nnn),
     (AND_GbEbR, And, Nnn, Rm), (AND_ALIb, And, Acc, Imm),
     (AND_EbIbM, And, Mem, Imm), (AND_EbIbR, And, Rm, Imm),
     (OR_EbGbM, Or, Mem, Nnn), (OR_GbEbR, Or, Nnn, Rm),
     (OR_ALIb, Or, Acc, Imm), (OR_EbIbM, Or, Mem, Imm),
     (OR_EbIbR, Or, Rm, Imm), (XOR_EbGbM, Xor, Mem, Nnn),
     (XOR_GbEbR, Xor, Nnn, Rm), (XOR_ALIb, Xor, Acc, Imm),
     (XOR_EbIbM, Xor, Mem, Imm), (XOR_EbIbR, Xor, Rm, Imm),
     (TEST_EbGbR, Test, Rm, Nnn), (TEST_ALIb, Test, Acc, Imm),
     (TEST_EbIbR, Test, Rm, Imm)]"

lemmas alu8_defs = ADD_EbGbM_def ADD_GbEbR_def ADD_ALIb_def ADD_EbIbM_def ADD_EbIbR_def
  ADC_EbGbM_def ADC_GbEbR_def ADC_ALIb_def ADC_EbIbM_def ADC_EbIbR_def
  SUB_EbGbM_def SUB_GbEbR_def SUB_ALIb_def SUB_EbIbM_def SUB_EbIbR_def
  SBB_EbGbM_def SBB_GbEbR_def SBB_ALIb_def SBB_EbIbM_def SBB_EbIbR_def
  CMP_EbGbM_def CMP_GbEbR_def CMP_ALIb_def CMP_EbIbM_def CMP_EbIbR_def
  AND_EbGbM_def AND_GbEbR_def AND_ALIb_def AND_EbIbM_def AND_EbIbR_def
  OR_EbGbM_def OR_GbEbR_def OR_ALIb_def OR_EbIbM_def OR_EbIbR_def
  XOR_EbGbM_def XOR_GbEbR_def XOR_ALIb_def XOR_EbIbM_def XOR_EbIbR_def
  TEST_EbGbR_def TEST_ALIb_def TEST_EbIbR_def

text \<open>Lazy flags at 8 bits, in the form the instructions use them.\<close>

lemmas flags8 =
  lazy_flags_add [where 'a = 8, of _ _ _ False, simplified, simplified width_of_def, simplified]
  lazy_flags_add [where 'a = 8, simplified width_of_def, simplified]
  lazy_flags_sub [where 'a = 8, of _ _ _ False, simplified, simplified width_of_def, simplified]
  lazy_flags_sub [where 'a = 8, simplified width_of_def, simplified]

lemma flags8_logic: "get_flag f (SET_FLAGS_OSZAPC_RESULT (r :: 8 word) (LF_LOGIC, W8) S) = logic_flag r f"
proof -
  define e where "e = (oszapc S)\<lparr>lf_result := scast r, instr := (LF_LOGIC, W8)\<rparr>"
  have "get_ZFLazy e = (r = 0)" "get_SFLazy e = (sint r < 0)" "get_PFLazy e = parity r"
    by (rule lazy_zsp [of e r]; simp add: e_def)+
  then have "get_lazy f e = logic_flag r f"
    by (cases f) (simp_all add: e_def logic_flag_def get_CFLazy_def get_AFLazy_def get_OFLazy_def)
  then show ?thesis by (simp add: get_SET_OSZAPC_RESULT e_def)
qed

lemma upd_flags_eq: "upd_flags g c = c\<lparr>flags := g (flags c)\<rparr>"
  by (simp add: upd_flags_def)

text \<open>The 8-bit arithmetic and logic instructions: every one of the 43 two-operand forms
  (to and from registers, memory, AL, with a register or an immediate operand) stores the result
  of its operation in its destination, except for the compares and tests, which store nothing,
  changes nothing but that and the flags, and leaves the architectural flags of the operation.\<close>

theorem alu8_forms:
  "list_all (\<lambda>(exec, oper, dst, src). performs exec oper dst src) alu8_table"
  by (simp add: alu8_table_def performs_def alu8_defs Let_def upd_flags_eq flags8 flags8_logic)

text \<open>The one-operand instructions in the same way; \<^verbatim>\<open>NOT\<close> leaves the flags alone.\<close>

datatype alu1 = Inc | Dec | Neg | Not

primrec alu1_result :: "alu1 \<Rightarrow> 'a::len word \<Rightarrow> 'a word" where
  "alu1_result Inc a = a + 1"
| "alu1_result Dec a = a - 1"
| "alu1_result Neg a = - a"
| "alu1_result Not a = NOT a"

primrec alu1_flag :: "alu1 \<Rightarrow> 'a::len word \<Rightarrow> (flag \<Rightarrow> bool) \<Rightarrow> flag \<Rightarrow> bool" where
  "alu1_flag Inc a old f = (if f = CF then old CF else add_flag a 1 False f)"
| "alu1_flag Dec a old f = (if f = CF then old CF else sub_flag a 1 False f)"
| "alu1_flag Neg a old f = sub_flag 0 a False f"
| "alu1_flag Not a old f = old f"

definition performs1 :: "(bxInstruction \<Rightarrow> cpu \<Rightarrow> cpu) \<Rightarrow> alu1 \<Rightarrow> operand \<Rightarrow> bool" where
  "performs1 exec oper dst \<longleftrightarrow>
     (\<forall>i c. let a = operand_value dst i c in
            exec i c = (operand_store dst i (alu1_result oper a) c)\<lparr>flags := flags (exec i c)\<rparr> \<and>
            (\<forall>f. get_flag f (flags (exec i c)) = alu1_flag oper a (\<lambda>g. get_flag g (flags c)) f))"

lemma flags8_unary:
  "get_flag f (SET_FLAGS_OSZAP_RESULT (a + 1 :: 8 word) (LF_INC, W8) S) =
     (if f = CF then get_flag CF S else add_flag a 1 False f)"
  "get_flag f (SET_FLAGS_OSZAP_RESULT (a - 1 :: 8 word) (LF_DEC, W8) S) =
     (if f = CF then get_flag CF S else sub_flag a 1 False f)"
  "get_flag f (SET_FLAGS_OSZAPC_RESULT (- a :: 8 word) (LF_NEG, W8) S) = sub_flag 0 a False f"
  by (simp_all add: get_SET_OSZAP_RESULT get_SET_OSZAPC_RESULT inc_flags dec_flags neg_flags width_of_def)

lemma write_same_flags: "(WRITE_8BIT_REGx n x v c)\<lparr>flags := flags c\<rparr> = WRITE_8BIT_REGx n x v c"
  by (simp add: WRITE_8BIT_REGx_def upd_reg_def)

text \<open>The 8-bit increments, decrements, negations and complements, on registers and memory: each
  stores the result of its operation in its operand and changes nothing but that and the flags;
  increment and decrement keep the carry, complement keeps every flag.\<close>

theorem unary8_forms:
  "list_all (\<lambda>(exec, oper, dst). performs1 exec oper dst)
     [(INC_EbM, Inc, Mem), (INC_EbR, Inc, Rm), (DEC_EbM, Dec, Mem), (DEC_EbR, Dec, Rm),
      (NEG_EbM, Neg, Mem), (NEG_EbR, Neg, Rm), (NOT_EbM, Not, Mem), (NOT_EbR, Not, Rm)]"
  by (simp add: performs1_def INC_EbM_def INC_EbR_def DEC_EbM_def DEC_EbR_def NEG_EbM_def NEG_EbR_def
      NOT_EbM_def NOT_EbR_def Let_def upd_flags_eq flags8_unary write_same_flags)

section \<open>Decimal arithmetic\<close>

text \<open>Packed decimal: two digits in a byte.\<close>

definition bcd :: "int \<Rightarrow> 8 word" where
  "bcd x = word_of_int (16 * (x div 10) + x mod 10)"

lemma uint_bcd: "0 \<le> x \<Longrightarrow> x < 100 \<Longrightarrow> uint (bcd x) = 16 * (x div 10) + x mod 10"
  unfolding bcd_def uint_word_of_int by (rule mod_pos_pos_trivial) auto

lemma low_nibble: "uint (v AND 0x0F :: 8 word) = uint v mod 16"
proof -
  have "(0x0F :: 8 word) = mask 4" by (simp add: mask_eq_exp_minus_1)
  then have "v AND 0x0F = take_bit 4 v" by (simp only: take_bit_eq_mask)
  then show ?thesis by (simp add: take_bit_eq_mod uint_mod)
qed

lemma low_nibble_above: "v AND 0x0F > (9 :: 8 word) \<longleftrightarrow> 9 < uint v mod 16"
  by (simp add: word_less_def low_nibble)

text \<open>The adjustments over the integers. Two decimal numbers \<open>x = 10 * p + u\<close>, \<open>y = 10 * q + v\<close> and a carry
  \<open>k\<close>: \<open>n\<close> is the sum of the high digits, \<open>t\<close> that of the low ones.\<close>

lemma digits:
  fixes n t :: int
  assumes "0 \<le> n" "n \<le> 18" "0 \<le> t" "t \<le> 19"
  defines "r \<equiv> 10 * n + t"
  shows "100 \<le> r \<longleftrightarrow> 0x99 < 16 * n + t"
    and "(16 * n + t + (if 10 \<le> t then 6 else 0) + (if 100 \<le> r then 0x60 else 0)) mod 256 =
      16 * (r mod 100 div 10) + r mod 100 mod 10"
proof -
  consider "n \<le> 8" | "n = 9" | "10 \<le> n" by linarith
  then show "100 \<le> r \<longleftrightarrow> 0x99 < 16 * n + t" using assms by cases auto
  define d m where "d = (if 10 \<le> t then t - 10 else t)" and "m = (if 10 \<le> t then n + 1 else n)"
  have d: "0 \<le> d" "d \<le> 9" "0 \<le> m" "m \<le> 19" "r = 10 * m + d"
    using assms by (auto simp: d_def m_def)
  have e: "16 * n + t + (if 10 \<le> t then 6 else 0) = 16 * m + d" by (simp add: d_def m_def)
  have "r div 10 = m" "r mod 10 = d" using d by simp_all
  show "(16 * n + t + (if 10 \<le> t then 6 else 0) + (if 100 \<le> r then 0x60 else 0)) mod 256 =
      16 * (r mod 100 div 10) + r mod 100 mod 10"
  proof (cases "100 \<le> r")
    case True
    define z where "z = m - 10"
    have z: "m = z + 10" "0 \<le> z" "z \<le> 9" using True d by (auto simp: z_def)
    have "r mod 100 = 10 * z + d" using d z by (intro int_mod_pos_eq [where q = 1]) auto
    moreover have "(16 * m + d + 0x60) mod 256 = 16 * z + d" using d z by (intro int_mod_pos_eq [where q = 1]) auto
    moreover have "(10 * z + d) div 10 = z" "(10 * z + d) mod 10 = d" using d(1,2) by simp_all
    ultimately show ?thesis unfolding e using True by simp
  next
    case False
    then have "r mod 100 = 10 * m + d" "m \<le> 9" using d by auto
    then show ?thesis unfolding e using False d by simp
  qed
qed

lemma daa_value:
  fixes x y k :: int and b :: "8 word"
  assumes "0 \<le> x" "x < 100" "0 \<le> y" "y < 100" "0 \<le> k" "k \<le> 1"
    and b: "b = bcd x + bcd y + word_of_int k"
    and low: "low \<longleftrightarrow> 9 < uint b mod 16 \<or> 16 \<le> uint (bcd x) mod 16 + uint (bcd y) mod 16 + k"
    and high: "high \<longleftrightarrow> 0x99 < uint b \<or> 256 \<le> uint (bcd x) + uint (bcd y) + k"
  shows "b + (if low then 6 else 0) + (if high then 0x60 else 0) = bcd ((x + y + k) mod 100)"
    and "high \<longleftrightarrow> 100 \<le> x + y + k"
proof -
  define n t where "n = x div 10 + y div 10" and "t = x mod 10 + y mod 10 + k"
  have r: "x + y + k = 10 * n + t" by (simp add: n_def t_def)
  have "x div 10 \<le> 9" "y div 10 \<le> 9" "x mod 10 \<le> 9" "y mod 10 \<le> 9" using assms(2,4) by simp_all
  then have n: "0 \<le> n" "n \<le> 18" and t: "0 \<le> t" "t \<le> 19" using assms(1,3,5,6) by (auto simp: n_def t_def)
  have s: "uint (bcd x) + uint (bcd y) + k = 16 * n + t"
    using assms(1-4) by (simp add: uint_bcd n_def t_def)
  have bw: "b = word_of_int (16 * n + t)" unfolding s [symmetric] b by simp
  then have ub: "uint b = (16 * n + t) mod 256" by (simp only: uint_word_of_int) simp
  have "uint b mod 16 = t mod 16" by (simp add: ub mod_mod_cancel)
  moreover have "uint (bcd x) mod 16 + uint (bcd y) mod 16 + k = t" using assms(1-4) by (simp add: uint_bcd t_def)
  moreover have "t mod 16 = (if t < 16 then t else t - 16)" using t by (auto intro!: int_mod_pos_eq [where q = 1])
  ultimately have low': "low \<longleftrightarrow> 10 \<le> t" using low t by auto
  have "high \<longleftrightarrow> 0x99 < 16 * n + t"
    unfolding high s using ub n t mod_once [of 256 "16 * n + t"] by (auto split: if_splits)
  then show high': "high \<longleftrightarrow> 100 \<le> x + y + k" using digits(1) [OF n t] by (simp add: r)
  have "b + (if low then 6 else 0) + (if high then 0x60 else 0) =
      word_of_int (16 * n + t + (if 10 \<le> t then 6 else 0) + (if 100 \<le> 10 * n + t then 0x60 else 0))"
    unfolding bw low' high' r by simp
  also have "\<dots> = word_of_int ((16 * n + t + (if 10 \<le> t then 6 else 0) + (if 100 \<le> 10 * n + t then 0x60 else 0)) mod 256)"
    by (rule word_uint_eqI) (simp only: uint_word_of_int, simp)
  also have "\<dots> = bcd ((x + y + k) mod 100)" unfolding digits(2) [OF n t] r bcd_def ..
  finally show "b + (if low then 6 else 0) + (if high then 0x60 else 0) = bcd ((x + y + k) mod 100)" .
qed

lemma borrow_digits:
  fixes n t :: int
  assumes "- 9 \<le> n" "n \<le> 9" "- 10 \<le> t" "t \<le> 9"
  defines "r \<equiv> 10 * n + t"
  shows "r < 0 \<longleftrightarrow> 16 * n + t < 0" and "0 \<le> 16 * n + t \<Longrightarrow> t < 0 \<Longrightarrow> 6 \<le> 16 * n + t"
    and "(16 * n + t - (if t < 0 then 6 else 0) - (if r < 0 then 0x60 else 0)) mod 256 =
      16 * (r mod 100 div 10) + r mod 100 mod 10"
proof -
  consider "n < 0" | "n = 0" | "0 < n" by linarith
  then show "r < 0 \<longleftrightarrow> 16 * n + t < 0" and "0 \<le> 16 * n + t \<Longrightarrow> t < 0 \<Longrightarrow> 6 \<le> 16 * n + t"
    using assms by (cases; auto)+
  define d m where "d = (if t < 0 then t + 10 else t)" and "m = (if t < 0 then n - 1 else n)"
  have d: "0 \<le> d" "d \<le> 9" "- 10 \<le> m" "m \<le> 9" "r = 10 * m + d"
    using assms by (auto simp: d_def m_def)
  have e: "16 * n + t - (if t < 0 then 6 else 0) = 16 * m + d" by (simp add: d_def m_def)
  have dm: "(10 * z + d) div 10 = z" "(10 * z + d) mod 10 = d" for z using d(1,2) by simp_all
  show "(16 * n + t - (if t < 0 then 6 else 0) - (if r < 0 then 0x60 else 0)) mod 256 =
      16 * (r mod 100 div 10) + r mod 100 mod 10"
  proof (cases "r < 0")
    case True
    define z where "z = m + 10"
    have z: "m = z - 10" "0 \<le> z" "z \<le> 9" using True d by (auto simp: z_def)
    have "r mod 100 = 10 * z + d" using d z by (intro int_mod_pos_eq [where q = "- 1"]) auto
    moreover have "(16 * m + d - 0x60) mod 256 = 16 * z + d" using d z by (intro int_mod_pos_eq [where q = "- 1"]) auto
    ultimately show ?thesis unfolding e using True dm [of z] by simp
  next
    case False
    then have "0 \<le> m" "r mod 100 = 10 * m + d" using d by auto
    moreover have "(16 * m + d) mod 256 = 16 * m + d" using d \<open>0 \<le> m\<close> by simp
    ultimately show ?thesis unfolding e using False dm [of m] by simp
  qed
qed

lemma das_value:
  fixes x y k :: int and b :: "8 word"
  assumes "0 \<le> x" "x < 100" "0 \<le> y" "y < 100" "0 \<le> k" "k \<le> 1"
    and b: "b = bcd x - (bcd y + word_of_int k)"
    and low: "low \<longleftrightarrow> 9 < uint b mod 16 \<or> uint (bcd x) mod 16 < uint (bcd y) mod 16 + k"
    and high: "high \<longleftrightarrow> 0x99 < uint b \<or> uint (bcd x) < uint (bcd y) + k"
  shows "b - (if low then 6 else 0) - (if high then 0x60 else 0) = bcd ((x - y - k) mod 100)"
    and "high \<longleftrightarrow> x - y - k < 0" and "low \<Longrightarrow> uint b < 6 \<Longrightarrow> high"
proof -
  define n t where "n = x div 10 - y div 10" and "t = x mod 10 - y mod 10 - k"
  have r: "x - y - k = 10 * n + t"
  proof -
    have "x = 10 * p + u \<Longrightarrow> y = 10 * q + v \<Longrightarrow> x - y - k = 10 * (p - q) + (u - v - k)" for p q u v by simp
    from this [of "x div 10" "x mod 10" "y div 10" "y mod 10"] show ?thesis by (simp add: n_def t_def)
  qed
  have "0 \<le> x div 10" "x div 10 \<le> 9" "0 \<le> y div 10" "y div 10 \<le> 9" "0 \<le> x mod 10" "x mod 10 \<le> 9" "0 \<le> y mod 10" "y mod 10 \<le> 9"
    using assms(1-4) by simp_all
  then have n: "- 9 \<le> n" "n \<le> 9" and t: "- 10 \<le> t" "t \<le> 9" using assms(5,6) by (auto simp: n_def t_def)
  note dg = borrow_digits [OF n t]
  have s: "uint (bcd x) - uint (bcd y) - k = 16 * n + t"
    using assms(1-4) by (simp add: uint_bcd n_def t_def)
  then have s': "uint (bcd x) < uint (bcd y) + k \<longleftrightarrow> 16 * n + t < 0" by linarith
  have bw: "b = word_of_int (16 * n + t)" unfolding s [symmetric] b by simp
  then have ub: "uint b = (16 * n + t) mod 256" by (simp only: uint_word_of_int) simp
  have ub': "uint b = (if 16 * n + t < 0 then 16 * n + t + 256 else 16 * n + t)"
    unfolding ub using n t mod_once [of 256 "16 * n + t"] by auto
  have "uint b mod 16 = t mod 16" by (simp add: ub mod_mod_cancel)
  moreover have "uint (bcd x) mod 16 < uint (bcd y) mod 16 + k \<longleftrightarrow> t < 0" using assms(1-4) by (auto simp: uint_bcd t_def)
  moreover have "t mod 16 = t" if "0 \<le> t" using that t by simp
  ultimately have low': "low \<longleftrightarrow> t < 0" using low t by (cases "t < 0") auto
  have "high \<longleftrightarrow> 16 * n + t < 0"
    unfolding high s' using ub' n t by auto
  then show high': "high \<longleftrightarrow> x - y - k < 0" using dg(1) by (simp add: r)
  show "low \<Longrightarrow> uint b < 6 \<Longrightarrow> high"
    using dg(1,2) ub' unfolding low' high' r by (auto split: if_splits)
  have "b - (if low then 6 else 0) - (if high then 0x60 else 0) =
      word_of_int (16 * n + t - (if t < 0 then 6 else 0) - (if 10 * n + t < 0 then 0x60 else 0))"
    unfolding bw low' high' r by simp
  also have "\<dots> = word_of_int ((16 * n + t - (if t < 0 then 6 else 0) - (if 10 * n + t < 0 then 0x60 else 0)) mod 256)"
    by (rule word_uint_eqI) (simp only: uint_word_of_int, simp)
  also have "\<dots> = bcd ((x - y - k) mod 100)" unfolding dg(3) r bcd_def ..
  finally show "b - (if low then 6 else 0) - (if high then 0x60 else 0) = bcd ((x - y - k) mod 100)" .
qed

text \<open>Decimal addition: when AL and the immediate operand hold the packed decimal digits of \<open>x\<close>
  and \<open>y\<close>, then \<^verbatim>\<open>ADC\<close> followed by \<^verbatim>\<open>DAA\<close> leaves in AL the packed digits of the sum
  (with the carry before) modulo 100, and the carry says whether the sum reached 100, so that
  numbers of any length can be added byte by byte.\<close>

theorem daa_adds:
  assumes "0 \<le> x" and "x < 100" and "0 \<le> y" and "y < 100" and "AL c = bcd x" and "Ib i = bcd y"
  shows "AL (DAA (ADC_ALIb i c)) = bcd ((x + y + of_bool (get_flag CF (flags c))) mod 100) \<and>
     get_flag CF (flags (DAA (ADC_ALIb i c))) = (100 \<le> x + y + of_bool (get_flag CF (flags c)))"
proof -
  let ?k = "get_flag CF (flags c)"
  define c1 where "c1 = ADC_ALIb i c"
  define b where "b = bcd x + bcd y + word_of_int (of_bool ?k)"
  have al: "AL c1 = b" by (simp add: c1_def ADC_ALIb_def assms b_def Let_def)
  have fl: "get_flag AF (flags c1) = (16 \<le> uint (bcd x) mod 16 + uint (bcd y) mod 16 + of_bool ?k)"
    "get_flag CF (flags c1) = (256 \<le> uint (bcd x) + uint (bcd y) + of_bool ?k)"
    by (simp_all add: c1_def ADC_ALIb_def assms Let_def flags8 add_flag_def)
  define low where "low = (AL c1 AND 0x0F > 0x09 \<or> get_flag AF (flags c1))"
  define high where "high = (AL c1 > 0x99 \<or> get_flag CF (flags c1))"
  have low: "low \<longleftrightarrow> 9 < uint b mod 16 \<or> 16 \<le> uint (bcd x) mod 16 + uint (bcd y) mod 16 + of_bool ?k"
    by (simp add: low_def al fl low_nibble_above)
  have high: "high \<longleftrightarrow> 0x99 < uint b \<or> 256 \<le> uint (bcd x) + uint (bcd y) + of_bool ?k"
    by (simp add: high_def al fl word_less_def)
  have v: "b + (if low then 6 else 0) + (if high then 0x60 else 0) = bcd ((x + y + of_bool ?k) mod 100)"
    "high \<longleftrightarrow> 100 \<le> x + y + of_bool ?k"
    using daa_value [OF assms(1-4) _ _ b_def low high] by simp_all
  have "AL (DAA c1) = b + (if low then 6 else 0) + (if high then 0x60 else 0)"
    and "get_flag CF (flags (DAA c1)) = high"
    by (simp_all add: DAA_def Let_def low_def high_def al)
  then show ?thesis using v by (simp add: c1_def)
qed

lemma flags0_CF: "\<not> get_flag CF flags0"
  by (simp add: get_flag_bit flags0_def)

theorem daa_adds_witness:
  "AL (DAA (ADC_ALIb \<lparr>nnn = 0, rm = 0, extend8bitL = False, modC0 = True, b1 = 0x14, Ib = 0x57\<rparr>
        (set_AL 0x68 \<lparr>gen_reg = \<lambda>_. 0, flags = flags0, mem_operand = 0\<rparr>))) = 0x25"
proof -
  have b: "bcd 68 = 0x68" "bcd 57 = 0x57" "bcd 25 = 0x25" by (simp_all add: bcd_def)
  show ?thesis
    using daa_adds [of 68 57 "set_AL 0x68 \<lparr>gen_reg = \<lambda>_. 0, flags = flags0, mem_operand = 0\<rparr>"
        "\<lparr>nnn = 0, rm = 0, extend8bitL = False, modC0 = True, b1 = 0x14, Ib = 0x57\<rparr>"]
    by (simp add: b flags0_CF)
qed

text \<open>Decimal subtraction: with the same operands \<^verbatim>\<open>SBB\<close> followed by \<^verbatim>\<open>DAS\<close> leaves in AL the
  packed digits of the difference modulo 100, and the carry is the decimal borrow.\<close>

theorem das_subtracts:
  assumes "0 \<le> x" and "x < 100" and "0 \<le> y" and "y < 100" and "AL c = bcd x" and "Ib i = bcd y"
  shows "AL (DAS (SBB_ALIb i c)) = bcd ((x - y - of_bool (get_flag CF (flags c))) mod 100) \<and>
     get_flag CF (flags (DAS (SBB_ALIb i c))) = (x < y + of_bool (get_flag CF (flags c)))"
proof -
  let ?k = "get_flag CF (flags c)"
  define c1 where "c1 = SBB_ALIb i c"
  define b where "b = bcd x - (bcd y + word_of_int (of_bool ?k))"
  have al: "AL c1 = b" by (simp add: c1_def SBB_ALIb_def assms b_def Let_def)
  have fl: "get_flag AF (flags c1) = (uint (bcd x) mod 16 < uint (bcd y) mod 16 + of_bool ?k)"
    "get_flag CF (flags c1) = (uint (bcd x) < uint (bcd y) + of_bool ?k)"
    by (simp_all add: c1_def SBB_ALIb_def assms Let_def flags8 sub_flag_def)
  define low where "low = (AL c1 AND 0x0F > 0x09 \<or> get_flag AF (flags c1))"
  define high where "high = (AL c1 > 0x99 \<or> get_flag CF (flags c1))"
  have low: "low \<longleftrightarrow> 9 < uint b mod 16 \<or> uint (bcd x) mod 16 < uint (bcd y) mod 16 + of_bool ?k"
    by (simp add: low_def al fl low_nibble_above)
  have high: "high \<longleftrightarrow> 0x99 < uint b \<or> uint (bcd x) < uint (bcd y) + of_bool ?k"
    by (simp add: high_def al fl word_less_def)
  have v: "b - (if low then 6 else 0) - (if high then 0x60 else 0) = bcd ((x - y - of_bool ?k) mod 100)"
    "high \<longleftrightarrow> x - y - of_bool ?k < 0" "low \<Longrightarrow> b < 6 \<Longrightarrow> high"
    using das_value [OF assms(1-4) _ _ b_def low high] by (simp_all add: word_less_def)
  have "AL (DAS c1) = b - (if low then 6 else 0) - (if high then 0x60 else 0)"
    by (simp add: DAS_def Let_def low_def high_def al)
  moreover have "get_flag CF (flags (DAS c1)) = high"
    using v(3) by (auto simp: DAS_def Let_def low_def high_def al)
  ultimately show ?thesis using v by (auto simp: c1_def)
qed

theorem das_subtracts_witness:
  "AL (DAS (SBB_ALIb \<lparr>nnn = 0, rm = 0, extend8bitL = False, modC0 = True, b1 = 0x1C, Ib = 0x57\<rparr>
        (set_AL 0x12 \<lparr>gen_reg = \<lambda>_. 0, flags = flags0, mem_operand = 0\<rparr>))) = 0x55"
proof -
  have b: "bcd 12 = 0x12" "bcd 57 = 0x57" "bcd 55 = 0x55" by (simp_all add: bcd_def)
  show ?thesis
    using das_subtracts [of 12 57 "set_AL 0x12 \<lparr>gen_reg = \<lambda>_. 0, flags = flags0, mem_operand = 0\<rparr>"
        "\<lparr>nnn = 0, rm = 0, extend8bitL = False, modC0 = True, b1 = 0x1C, Ib = 0x57\<rparr>"]
    by (simp add: b flags0_CF)
qed

section \<open>Multiplication and division\<close>

lemma mask8_16: "(0xFF :: 16 word) = mask 8" "(0xFF :: 32 word) = mask 8"
  by (simp_all add: mask_eq_exp_minus_1)

lemma low8: "(ucast ((x :: 16 word) AND 0xFF) :: 8 word) = ucast x" "(ucast ((y :: 32 word) AND 0xFF) :: 8 word) = ucast y"
  by (rule bit_word_eqI; auto simp: mask8_16 bit_simps)+

lemma uint_ucast8: "uint (ucast (x :: 16 word) :: 8 word) = uint x mod 256"
  by (simp add: unsigned_ucast_eq take_bit_eq_mod)

lemma byte_le: "uint (x :: 8 word) \<le> 255"
proof -
  have "uint x < 256" by (rule order_less_le_trans [OF uint_lt2p]) simp
  then show ?thesis by linarith
qed

lemma uint_up_ucast8: "uint (ucast (x :: 8 word) :: 16 word) = uint x"
proof -
  have "uint x < 65536" by (rule order_less_trans [OF uint_lt2p]) simp
  then show ?thesis by (simp add: unsigned_ucast_eq take_bit_eq_mod)
qed

lemma mod256_id: "0 \<le> q \<Longrightarrow> q \<noteq> q mod 256 \<longleftrightarrow> 255 < q" for q :: int
  using pos_mod_bound [of 256 q] by (cases "q < 256") (simp, linarith)

lemma uint_AX: "uint (AX c) = 256 * uint (AH c) + uint (AL c)"
  by (rule uint_word_rx)

text \<open>Unsigned division: \<^verbatim>\<open>DIV\<close> raises the divide error exactly when the divisor is 0 or the
  quotient does not fit in a byte; otherwise AL is the quotient and AH the remainder of the division
  of AX, the remainder is below the divisor, and nothing else but these bytes is changed.\<close>

theorem div8_result:
  "DIV_ALEbR i c =
     (if reg_rm i c = 0 \<or> uint (AX c) div uint (reg_rm i c) > 255 then Inl DE_EXCEPTION
      else Inr (set_AH (word_of_int (uint (AX c) mod uint (reg_rm i c)))
                 (set_AL (word_of_int (uint (AX c) div uint (reg_rm i c))) c)))"
proof -
  let ?d = "reg_rm i c" let ?n = "AX c"
  have u: "uint (ucast ?d :: 16 word) = uint ?d"
    by (rule uint_up_ucast8)
  have q: "uint (?n div ucast ?d) = uint ?n div uint ?d" and r: "uint (?n mod ucast ?d) = uint ?n mod uint ?d"
    by (simp_all add: uint_div uint_mod u)
  have fits: "?n div ucast ?d \<noteq> ucast (ucast (?n div ucast ?d) :: 8 word) \<longleftrightarrow> 255 < uint ?n div uint ?d" (is "?l \<longleftrightarrow> ?r")
  proof -
    have "uint (ucast (ucast (?n div ucast ?d) :: 8 word) :: 16 word) = uint ?n div uint ?d mod 256"
      by (simp only: uint_up_ucast8 uint_ucast8 q)
    then have "?l \<longleftrightarrow> uint ?n div uint ?d \<noteq> uint ?n div uint ?d mod 256"
      by (simp add: word_uint_eq_iff q)
    then show ?thesis using mod256_id [of "uint ?n div uint ?d"] by (simp add: div_int_pos_iff)
  qed
  have "(ucast (?n mod ucast ?d) :: 8 word) = word_of_int (uint ?n mod uint ?d)"
    "(ucast (?n div ucast ?d) :: 8 word) = word_of_int (uint ?n div uint ?d)"
    unfolding q [symmetric] r [symmetric] by (rule ucast_eq)+
  then show ?thesis using fits by (simp add: DIV_ALEbR_def Let_def low8)
qed

text \<open>Division truncated toward zero.\<close>

lemma sdiv_bound: "d \<noteq> 0 \<Longrightarrow> \<bar>n sdiv d\<bar> \<le> \<bar>n\<bar>" for n d :: int
proof -
  assume "d \<noteq> 0"
  have "\<bar>n sdiv d\<bar> = \<bar>n\<bar> div \<bar>d\<bar>"
    using \<open>d \<noteq> 0\<close> by (cases "n = 0") (simp_all add: signed_divide_int_def abs_mult abs_sgn_eq div_int_pos_iff)
  moreover have "\<bar>n\<bar> div \<bar>d\<bar> \<le> \<bar>n\<bar> div 1" using \<open>d \<noteq> 0\<close> by (intro zdiv_mono2) auto
  ultimately show ?thesis by simp
qed

lemma sdiv_big: "d \<noteq> 0 \<Longrightarrow> - 128 \<le> d \<Longrightarrow> d < 128 \<Longrightarrow> (- 32768) sdiv d < - 128 \<or> 127 < (- 32768) sdiv d" for d :: int
proof -
  assume d: "d \<noteq> 0" "- 128 \<le> d" "d < 128"
  have "32768 div 128 \<le> 32768 div \<bar>d\<bar>" using d by (intro zdiv_mono2) auto
  then show ?thesis using d by (cases "0 < d") (auto simp: signed_divide_int_def)
qed

lemma sint_of_byte: "x \<noteq> sint (word_of_int x :: 8 word) \<longleftrightarrow> x < - 128 \<or> 127 < x"
proof (cases "x < - 128 \<or> 127 < x")
  case True
  then show ?thesis using sint_ge [of "word_of_int x :: 8 word"] sint_lt [of "word_of_int x :: 8 word"] by auto
next
  case False
  then show ?thesis using sint_wrap [where 'a = 8 and t = x] by auto
qed

text \<open>Signed division: \<^verbatim>\<open>IDIV\<close> raises the divide error exactly when the divisor is 0 or the
  quotient, truncated toward zero, is outside \<open>-128..127\<close> (the early test for the smallest
  dividend refuses no division whose quotient would fit); otherwise AL and AH are the truncated
  quotient and the remainder.\<close>

theorem idiv8_result:
  "IDIV_ALEbR i c =
     (let n = sint (AX c); d = sint (reg_rm i c) in
      if d = 0 \<or> n sdiv d < - 128 \<or> 127 < n sdiv d then Inl DE_EXCEPTION
      else Inr (set_AH (word_of_int (n smod d)) (set_AL (word_of_int (n sdiv d)) c)))"
proof -
  let ?n = "sint (AX c)" let ?d = "sint (reg_rm i c)" let ?q = "?n sdiv ?d"
  have dz: "reg_rm i c = 0 \<longleftrightarrow> ?d = 0" by (simp add: signed_eq_0_iff)
  have n: "- 32768 \<le> ?n" "?n < 32768" using sint_ge [of "AX c"] sint_lt [of "AX c"] by simp_all
  have d: "- 128 \<le> ?d" "?d < 128" using sint_ge [of "reg_rm i c"] sint_lt [of "reg_rm i c"] by simp_all
  have low: "(ucast (word_of_int x :: 16 word) :: 8 word) = word_of_int x" for x
    by (rule bit_word_eqI) (simp add: bit_simps)
  show ?thesis
  proof (cases "AX c = 0x8000")
    case True
    then have "?n = - 32768" by simp
    moreover have "?q < - 128 \<or> 127 < ?q" if "?d \<noteq> 0"
      using that d sdiv_big [of ?d] by (simp add: \<open>?n = - 32768\<close>)
    ultimately show ?thesis using True by (auto simp: IDIV_ALEbR_def Let_def)
  next
    case False
    then have n': "?n \<noteq> - 32768" using signed_word_eqI [of "AX c" "0x8000"] by auto
    have q: "- 32768 < ?q" "?q < 32768" if "?d \<noteq> 0" using sdiv_bound [OF that, of ?n] n n' by auto
    have q16: "sint (word_of_int ?q :: 16 word) = ?q" if "?d \<noteq> 0"
      using sint_wrap [where 'a = 16 and t = ?q] q [OF that] by simp
    have q8: "sint (word_of_int ?q :: 16 word) \<noteq> sint (word_of_int ?q :: 8 word) \<longleftrightarrow> ?q < - 128 \<or> 127 < ?q" if "?d \<noteq> 0"
      using sint_of_byte [of ?q] unfolding q16 [OF that] by blast
    show ?thesis using False q8 by (simp add: IDIV_ALEbR_def Let_def dz low8 low)
  qed
qed

text \<open>Multiplication: \<^verbatim>\<open>MUL\<close> leaves the full product in AX and sets carry and overflow exactly
  when it does not fit in a byte; \<^verbatim>\<open>IMUL\<close> leaves the full signed product and sets both exactly when
  it is outside \<open>-128..127\<close>.\<close>

theorem mul8_result:
  "uint (AX (MUL_ALEbR i c)) = uint (AL c) * uint (reg_rm i c) \<and>
   get_flag CF (flags (MUL_ALEbR i c)) = (255 < uint (AL c) * uint (reg_rm i c)) \<and>
   get_flag OF (flags (MUL_ALEbR i c)) = (255 < uint (AL c) * uint (reg_rm i c)) \<and>
   sint (AX (IMUL_ALEbR i c)) = sint (AL c) * sint (reg_rm i c) \<and>
   get_flag CF (flags (IMUL_ALEbR i c)) = (sint (AL c) * sint (reg_rm i c) \<notin> {- 128 .. 127}) \<and>
   get_flag OF (flags (IMUL_ALEbR i c)) = (sint (AL c) * sint (reg_rm i c) \<notin> {- 128 .. 127})"
proof -
  let ?a = "AL c" let ?b = "reg_rm i c"
  let ?p = "(ucast ?a * ucast ?b :: 32 word)" let ?s = "sint ?a * sint ?b"
  have up: "uint (ucast x :: 32 word) = uint x" for x :: "8 word"
  proof -
    have "uint x < 2 ^ 32" by (rule order_less_trans [OF uint_lt2p]) simp
    then show ?thesis by (simp add: unsigned_ucast_eq take_bit_eq_mod)
  qed
  have bound: "uint ?a * uint ?b \<le> 255 * 255"
    by (intro mult_mono byte_le) auto
  have p: "uint ?p = uint ?a * uint ?b" using bound by (simp add: uint_word_ariths up)
  have "uint (ucast ?p :: 16 word) = uint ?p mod 65536" by (simp add: unsigned_ucast_eq take_bit_eq_mod)
  then have ax: "uint (ucast ?p :: 16 word) = uint ?a * uint ?b" using bound p by simp
  have "uint (ucast (drop_bit 8 ?p) :: 8 word) = uint ?p div 256 mod 256"
    by (simp add: unsigned_ucast_eq take_bit_eq_mod drop_bit_eq_div uint_div)
  moreover have "uint ?a * uint ?b div 256 < 256" "0 \<le> uint ?a * uint ?b div 256" using bound by (simp_all add: div_int_pos_iff)
  ultimately have hi: "(ucast (drop_bit 8 ?p) :: 8 word) \<noteq> 0 \<longleftrightarrow> 255 < uint ?a * uint ?b"
    by (auto simp: word_uint_eq_iff p)
  have mul: "MUL_ALEbR i c =
      (let c1 = flags_logic8 (ucast ?p) (set_AX (ucast ?p) c) in
       if 255 < uint ?a * uint ?b then upd_flags ASSERT_FLAGS_OxxxxC c1 else c1)"
    using hi by (simp add: MUL_ALEbR_def Let_def low8)
  have m: "- 128 \<le> sint ?a" "sint ?a < 128" "- 128 \<le> sint ?b" "sint ?b < 128"
    using sint_ge [of ?a] sint_lt [of ?a] sint_ge [of ?b] sint_lt [of ?b] by simp_all
  have "\<bar>?s\<bar> \<le> 128 * 128" unfolding abs_mult using m by (intro mult_mono) auto
  then have sp: "sint (word_of_int ?s :: 16 word) = ?s" using sint_wrap [where 'a = 16 and t = ?s] by auto
  have low: "(ucast (word_of_int x :: 16 word) :: 8 word) = word_of_int x" for x
    by (rule bit_word_eqI) (simp add: bit_simps)
  have imul: "IMUL_ALEbR i c =
      (let c1 = flags_logic8 (word_of_int ?s) (set_AX (word_of_int ?s) c) in
       if ?s \<notin> {- 128 .. 127} then upd_flags ASSERT_FLAGS_OxxxxC c1 else c1)"
  proof -
    have eq: "?s \<noteq> sint (word_of_int ?s :: 8 word) \<longleftrightarrow> ?s \<notin> {- 128 .. 127}"
      using sint_of_byte [of ?s] by auto
    show ?thesis unfolding IMUL_ALEbR_def Let_def low8 low sp by (simp only: eq)
  qed
  have sp': "sint (scast ?a * scast ?b :: 16 word) = ?s" using sp by simp
  show ?thesis unfolding mul imul by (simp add: Let_def flags8_logic logic_flag_def ax sp')
qed

section \<open>Shifts and rotations\<close>

lemma upd_flags_reads [simp]:
  "eb_read i (upd_flags g c) = eb_read i c" "eb_read i (eb_write i v c) = v" "flags (eb_write i v c) = flags c"
  by (simp_all add: eb_read_def eb_write_def)

lemma count_31: "n AND 31 = n mod 32" for n :: nat
  using take_bit_eq_mask [of 5 n] by (simp add: take_bit_eq_mod mask_eq_exp_minus_1)

lemma count_7: "n AND 7 = n mod 8" for n :: nat
  using take_bit_eq_mask [of 3 n] by (simp add: take_bit_eq_mod mask_eq_exp_minus_1)

lemma byte_mod: "uint (x :: 8 word) mod 256 = uint x"
  using byte_le [of x] by (intro mod_pos_pos_trivial) auto

lemma shift_bytes:
  "uint (push_bit n x :: 8 word) = uint x * 2 ^ n mod 256" "uint (drop_bit n x :: 8 word) = uint x div 2 ^ n"
  by (simp only: unsigned_push_bit_eq, simp add: push_bit_eq_mult take_bit_eq_mod)
    (simp only: unsigned_drop_bit_eq, simp add: drop_bit_eq_div take_bit_eq_mod byte_mod)

lemma bit_byte: "bit (x :: 8 word) n \<longleftrightarrow> odd (uint x div 2 ^ n)"
proof -
  have "bit x n = bit (uint x) n" by (auto simp: bit_uint_iff dest: bit_imp_le_length)
  then show ?thesis by (simp only: bit_iff_odd [of "uint x"])
qed

lemma high_bit [simp]: "8 \<le> n \<Longrightarrow> \<not> bit (x :: 8 word) n"
  by (auto dest: bit_imp_le_length)

text \<open>The operand and the carry as one 9-bit number, the carry on top.\<close>

definition with_carry :: "bool \<Rightarrow> 8 word \<Rightarrow> 9 word" where
  "with_carry cf x = push_bit 8 (of_bool cf) OR ucast x"

lemma bit_with_carry: "bit (with_carry cf x) n \<longleftrightarrow> (if n = 8 then cf else bit x n)"
  by (auto simp: with_carry_def bit_simps dest: bit_imp_le_length)

lemma rotate_9:
  assumes "0 < n" "n < 9"
  shows "with_carry (bit x (8 - n)) (push_bit n x OR push_bit (n - 1) (of_bool cf) OR drop_bit (9 - n) x) =
      word_rotl n (with_carry cf x)"
    and "with_carry (bit x (n - 1)) (drop_bit n x OR push_bit (8 - n) (of_bool cf) OR push_bit (9 - n) x) =
      word_rotr n (with_carry cf x)"
proof -
  show "with_carry (bit x (8 - n)) (push_bit n x OR push_bit (n - 1) (of_bool cf) OR drop_bit (9 - n) x) =
      word_rotl n (with_carry cf x)"
  proof (rule bit_word_eqI)
    fix m assume "m < LENGTH(9)"
    then have m: "m < 9" by simp
    have "(m + (LENGTH(9) - n mod LENGTH(9))) mod LENGTH(9) = (if n \<le> m then m - n else 9 + m - n)"
      using assms m by (auto simp: mod_if)
    then have idx: "bit (word_rotl n w) m = bit w (if n \<le> m then m - n else 9 + m - n)" for w :: "9 word"
      using m by (simp only: bit_word_rotl_iff) simp
    show "bit (with_carry (bit x (8 - n)) (push_bit n x OR push_bit (n - 1) (of_bool cf) OR drop_bit (9 - n) x)) m =
        bit (word_rotl n (with_carry cf x)) m"
      unfolding idx using assms m by (cases "n \<le> m"; cases "m = 8"; cases "m = n - 1")
        (auto simp: bit_with_carry bit_or_iff bit_push_bit_iff bit_drop_bit_eq bit_1_iff of_bool_def)
  qed
  show "with_carry (bit x (n - 1)) (drop_bit n x OR push_bit (8 - n) (of_bool cf) OR push_bit (9 - n) x) =
      word_rotr n (with_carry cf x)"
  proof (rule bit_word_eqI)
    fix m assume "m < LENGTH(9)"
    then have m: "m < 9" by simp
    have "(m + n) mod LENGTH(9) = (if m + n < 9 then m + n else m + n - 9)"
      using assms m by (auto simp: mod_if)
    then have idx: "bit (word_rotr n w) m = bit w (if m + n < 9 then m + n else m + n - 9)" for w :: "9 word"
      using m by (simp only: bit_word_rotr_iff) simp
    show "bit (with_carry (bit x (n - 1)) (drop_bit n x OR push_bit (8 - n) (of_bool cf) OR push_bit (9 - n) x)) m =
        bit (word_rotr n (with_carry cf x)) m"
      unfolding idx using assms m by (cases "m + n < 9"; cases "m = 8"; cases "m = 8 - n")
        (auto simp: bit_with_carry bit_or_iff bit_push_bit_iff bit_drop_bit_eq bit_1_iff of_bool_def ac_simps)
  qed
qed

lemma rotate_8:
  "n < 8 \<Longrightarrow> push_bit n x OR drop_bit (8 - n) x = word_rotl n (x :: 8 word)"
  "n < 8 \<Longrightarrow> drop_bit n x OR push_bit (8 - n) x = word_rotr n (x :: 8 word)"
proof -
  assume n: "n < 8"
  show "push_bit n x OR drop_bit (8 - n) x = word_rotl n (x :: 8 word)"
  proof (rule bit_word_eqI)
    fix m assume "m < LENGTH(8)"
    then have m: "m < 8" by simp
    have "(m + (LENGTH(8) - n mod LENGTH(8))) mod LENGTH(8) = (if n \<le> m then m - n else 8 + m - n)"
      using n m by (auto simp: mod_if)
    then have idx: "bit (word_rotl n w) m = bit w (if n \<le> m then m - n else 8 + m - n)" for w :: "8 word"
      using m by (simp only: bit_word_rotl_iff) simp
    show "bit (push_bit n x OR drop_bit (8 - n) x) m = bit (word_rotl n x) m"
      unfolding idx using n m by (cases "n \<le> m") (auto simp: bit_or_iff bit_push_bit_iff bit_drop_bit_eq ac_simps)
  qed
  show "drop_bit n x OR push_bit (8 - n) x = word_rotr n (x :: 8 word)"
  proof (rule bit_word_eqI)
    fix m assume "m < LENGTH(8)"
    then have m: "m < 8" by simp
    have "(m + n) mod LENGTH(8) = (if m + n < 8 then m + n else m + n - 8)"
      using n m by (auto simp: mod_if)
    then have idx: "bit (word_rotr n w) m = bit w (if m + n < 8 then m + n else m + n - 8)" for w :: "8 word"
      using m by (simp only: bit_word_rotr_iff) simp
    show "bit (drop_bit n x OR push_bit (8 - n) x) m = bit (word_rotr n x) m"
      unfolding idx using n m by (cases "m + n < 8") (auto simp: bit_or_iff bit_push_bit_iff bit_drop_bit_eq ac_simps)
  qed
qed

lemma rotate_0: "word_rotl 0 w = w" "word_rotr 0 w = (w :: 'a::len word)"
  by (rule bit_word_eqI; simp add: bit_word_rotl_iff bit_word_rotr_iff)+

lemma rotate_mod: "word_rotl (n mod 8) x = word_rotl n (x :: 8 word)" "word_rotr (n mod 8) x = word_rotr n (x :: 8 word)"
  by (rule bit_word_eqI; simp add: bit_word_rotl_iff bit_word_rotr_iff mod_simps)+

text \<open>Rotation through carry: for every count, \<^verbatim>\<open>RCL\<close> and \<^verbatim>\<open>RCR\<close> rotate the 9 bits of the
  carry and the operand together, left and right, by the count modulo 32 modulo 9; \<^verbatim>\<open>ROL\<close> and
  \<^verbatim>\<open>ROR\<close> rotate the 8 bits of the operand by the count.\<close>

theorem rotates:
  "with_carry (get_flag CF (flags (RCL_Eb i c))) (eb_read i (RCL_Eb i c)) =
     word_rotl (shift_count i c mod 32 mod 9) (with_carry (get_flag CF (flags c)) (eb_read i c)) \<and>
   with_carry (get_flag CF (flags (RCR_Eb i c))) (eb_read i (RCR_Eb i c)) =
     word_rotr (shift_count i c mod 32 mod 9) (with_carry (get_flag CF (flags c)) (eb_read i c)) \<and>
   eb_read i (ROL_Eb i c) = word_rotl (shift_count i c) (eb_read i c) \<and>
   eb_read i (ROR_Eb i c) = word_rotr (shift_count i c) (eb_read i c)"
proof -
  let ?x = "eb_read i c" let ?cf = "get_flag CF (flags c)"
  have rcl: "with_carry (get_flag CF (flags (RCL_Eb i c))) (eb_read i (RCL_Eb i c)) =
     word_rotl (shift_count i c mod 32 mod 9) (with_carry ?cf ?x)"
  proof -
    define n where "n = shift_count i c mod 32 mod 9"
    have n: "n < 9" by (simp add: n_def)
    show ?thesis
    proof (cases "n = 0")
      case True
      then show ?thesis by (simp add: RCL_Eb_def Let_def count_31 n_def [symmetric] rotate_0)
    next
      case False
      define res where "res = push_bit n ?x OR push_bit (n - 1) (of_bool ?cf) OR drop_bit (9 - n) ?x"
      have one: "push_bit 1 ?x OR of_bool ?cf = push_bit 1 ?x OR push_bit (1 - 1) (of_bool ?cf) OR drop_bit (9 - 1) ?x"
        by (rule bit_word_eqI) (simp add: bit_simps)
      then have "RCL_Eb i c = upd_flags (SET_FLAGS_OxxxxC (bit_at (8 - n) ?x \<noteq> bit_at 7 res) (bit_at (8 - n) ?x)) (eb_write i res c)"
        using False by (simp add: RCL_Eb_def Let_def count_31 n_def [symmetric] res_def)
      then show ?thesis using rotate_9(1) [of n ?x ?cf] False n by (simp add: res_def n_def [symmetric])
    qed
  qed
  have rcr: "with_carry (get_flag CF (flags (RCR_Eb i c))) (eb_read i (RCR_Eb i c)) =
     word_rotr (shift_count i c mod 32 mod 9) (with_carry ?cf ?x)"
  proof -
    define n where "n = shift_count i c mod 32 mod 9"
    have n: "n < 9" by (simp add: n_def)
    show ?thesis
    proof (cases "n = 0")
      case True
      then show ?thesis by (simp add: RCR_Eb_def Let_def count_31 n_def [symmetric] rotate_0)
    next
      case False
      then show ?thesis using rotate_9(2) [of n ?x ?cf] n
        by (simp add: RCR_Eb_def Let_def count_31 n_def [symmetric])
    qed
  qed
  have r8: "shift_count i c mod 8 < 8" by simp
  have "eb_read i (ROL_Eb i c) = word_rotl (shift_count i c mod 8) ?x"
    using rotate_8(1) [OF r8, of ?x] by (auto simp: ROL_Eb_def Let_def count_7 rotate_0)
  moreover have "eb_read i (ROR_Eb i c) = word_rotr (shift_count i c mod 8) ?x"
    using rotate_8(2) [OF r8, of ?x] by (auto simp: ROR_Eb_def Let_def count_7 rotate_0)
  ultimately show ?thesis using rcl rcr by (simp add: rotate_mod)
qed

lemma sign_bit: "x AND 0x80 \<noteq> 0 \<longleftrightarrow> bit x 7" for x :: "8 word"
  using bit_iff_and_push_bit_not_eq_0 [of x 7] by simp

lemma bit_sint_byte: "bit (sint (x :: 8 word)) n = bit x (min 7 n)"
  by (cases "n = 7") (auto simp: bit_sint_iff min_def)

lemma sar_result:
  "(if n < 8 then (if bit x 7 then drop_bit n x OR push_bit (8 - n) 0xFF else drop_bit n x)
    else (if bit x 7 then 0xFF else 0)) = signed_drop_bit n (x :: 8 word)"
proof (rule bit_word_eqI)
  fix m assume "m < LENGTH(8)"
  then have m: "m < 8" by simp
  have f: "(0xFF :: 8 word) = mask 8" by (simp add: mask_eq_exp_minus_1)
  have sd: "bit (signed_drop_bit n x) m = bit x (if 8 \<le> m + n then 7 else m + n)"
    using m by (auto simp: bit_signed_drop_bit_iff add.commute simp del: One_nat_def)
  show "bit (if n < 8 then (if bit x 7 then drop_bit n x OR push_bit (8 - n) 0xFF else drop_bit n x)
      else (if bit x 7 then 0xFF else 0)) m = bit (signed_drop_bit n x) m"
    using m unfolding f sd
    by (auto simp: bit_or_iff bit_push_bit_iff bit_mask_iff bit_drop_bit_eq add.commute)
qed

text \<open>Shifts: for a count \<open>n = count mod 32 > 0\<close>, \<^verbatim>\<open>SHL\<close> multiplies by \<open>2 ^ n\<close> modulo 256,
  \<^verbatim>\<open>SHR\<close> divides the unsigned and \<^verbatim>\<open>SAR\<close> the signed operand by \<open>2 ^ n\<close> rounding down, also for
  counts above the width; the carry is the last bit shifted out, for \<^verbatim>\<open>SHL\<close> by counts up to 8;
  above, the code clears it.\<close>

theorem shifts:
  assumes "n = shift_count i c mod 32" and "0 < n"
  shows "uint (eb_read i (SHL_Eb i c)) = uint (eb_read i c) * 2 ^ n mod 256 \<and>
     get_flag CF (flags (SHL_Eb i c)) = odd (uint (eb_read i c) * 2 ^ n div 256) \<and>
     uint (eb_read i (SHR_Eb i c)) = uint (eb_read i c) div 2 ^ n \<and>
     get_flag CF (flags (SHR_Eb i c)) = odd (uint (eb_read i c) div 2 ^ (n - 1)) \<and>
     sint (eb_read i (SAR_Eb i c)) = sint (eb_read i c) div 2 ^ n \<and>
     get_flag CF (flags (SAR_Eb i c)) = odd (sint (eb_read i c) div 2 ^ (n - 1))"
proof -
  let ?x = "eb_read i c"
  have n: "shift_count i c AND 31 = n" using assms by (simp add: count_31)
  have "uint (eb_read i (SHL_Eb i c)) = uint ?x * 2 ^ n mod 256"
  proof (cases "n \<le> 8")
    case False
    then have "(2 :: int) ^ n = 256 * 2 ^ (n - 8)" using power_add [of "2 :: int" 8 "n - 8"] by simp
    then show ?thesis using assms(2) False by (simp add: SHL_Eb_def Let_def n)
  qed (use assms(2) in \<open>simp add: SHL_Eb_def Let_def n shift_bytes\<close>)
  moreover have "get_flag CF (flags (SHL_Eb i c)) = odd (uint ?x * 2 ^ n div 256)"
  proof (cases "n \<le> 8")
    case True
    have "uint ?x * 2 ^ n div (2 ^ (8 - n) * 2 ^ n) = uint ?x div 2 ^ (8 - n)" by simp
    moreover have "(2 :: int) ^ (8 - n) * 2 ^ n = 256" using True by (simp flip: power_add)
    ultimately show ?thesis using assms(2) True by (simp add: SHL_Eb_def Let_def n bit_byte)
  next
    case False
    then have "(2 :: int) ^ n = 256 * (2 * 2 ^ (n - 9))"
      using power_add [of "2 :: int" 9 "n - 9"] by simp
    then show ?thesis using assms(2) False by (simp add: SHL_Eb_def Let_def n)
  qed
  moreover have "uint (eb_read i (SHR_Eb i c)) = uint ?x div 2 ^ n"
    using assms(2) by (simp add: SHR_Eb_def Let_def n shift_bytes)
  moreover have "get_flag CF (flags (SHR_Eb i c)) = odd (uint ?x div 2 ^ (n - 1))"
    using assms(2) by (simp add: SHR_Eb_def Let_def n bit_byte)
  moreover have sar: "sint (eb_read i (SAR_Eb i c)) = sint ?x div 2 ^ n"
  proof -
    have "eb_read i (SAR_Eb i c) = signed_drop_bit n ?x"
      using assms(2) by (simp add: SAR_Eb_def Let_def n sign_bit flip: sar_result)
    then show ?thesis by (simp add: sint_signed_drop_bit_eq drop_bit_eq_div)
  qed
  moreover have "get_flag CF (flags (SAR_Eb i c)) = odd (sint ?x div 2 ^ (n - 1))"
  proof -
    have "get_flag CF (flags (SAR_Eb i c)) = bit ?x (min 7 (n - 1))"
      using assms(2) by (auto simp: SAR_Eb_def Let_def n sign_bit min_def bit_0)
    then show ?thesis unfolding bit_sint_byte [symmetric] by (simp only: bit_iff_odd)
  qed
  ultimately show ?thesis by simp
qed

theorem shifts_witness:
  "sint (eb_read \<lparr>nnn = 0, rm = 0, extend8bitL = False, modC0 = False, b1 = 0xC0, Ib = 0x22\<rparr>
     (SAR_Eb \<lparr>nnn = 0, rm = 0, extend8bitL = False, modC0 = False, b1 = 0xC0, Ib = 0x22\<rparr>
        \<lparr>gen_reg = \<lambda>_. 0, flags = flags0, mem_operand = 0xF5\<rparr>)) = - 3"
proof -
  let ?i = "\<lparr>nnn = 0, rm = 0, extend8bitL = False, modC0 = False, b1 = 0xC0, Ib = 0x22\<rparr>"
  let ?c = "\<lparr>gen_reg = \<lambda>_. 0, flags = flags0, mem_operand = 0xF5\<rparr>"
  have "2 = shift_count ?i ?c mod 32" by (simp add: shift_count_def)
  from shifts [OF this] show ?thesis by (simp add: eb_read_def)
qed

section \<open>The other instructions\<close>

text \<open>Unpacked decimal: for every nonzero base in the instruction, \<^verbatim>\<open>AAM\<close> splits AL into the
  digits AH and AL of that base, the low one below the base, and \<^verbatim>\<open>AAD\<close> puts them together
  again; base 0 raises the divide error.\<close>

theorem aam_aad:
  "case AAM i c of
     Inl e \<Rightarrow> e = DE_EXCEPTION \<and> Ib i = 0
   | Inr c' \<Rightarrow> Ib i \<noteq> 0 \<and> AL c' < Ib i \<and> uint (AL c) = uint (AH c') * uint (Ib i) + uint (AL c') \<and>
       AL (AAD i c') = AL c \<and> AH (AAD i c') = 0"
proof (cases "Ib i = 0")
  case True
  then show ?thesis by (simp add: AAM_def)
next
  case False
  let ?b = "Ib i" let ?h = "AL c div ?b" let ?l = "AL c mod ?b"
  define c' where "c' = flags_logic8 ?l (set_AL ?l (set_AH ?h c))"
  have aam: "AAM i c = Inr c'" using False by (simp add: AAM_def Let_def c'_def)
  have v: "AL c' = ?l" "AH c' = ?h" by (simp_all add: c'_def)
  have sum: "uint ?h * uint ?b + uint ?l = uint (AL c)"
    by (simp add: uint_div uint_mod)
  have up: "(ucast ?h * ucast ?b + ucast ?l :: 16 word) = ucast (AL c)"
  proof (rule word_uint_eqI)
    have "uint (ucast ?h * ucast ?b + ucast ?l :: 16 word) = (uint ?h * uint ?b + uint ?l) mod 65536"
      by (simp add: uint_word_ariths uint_up_ucast8 mod_simps)
    also have "\<dots> = uint (AL c)" unfolding sum using byte_le [of "AL c"] by (intro mod_pos_pos_trivial) auto
    finally show "uint (ucast ?h * ucast ?b + ucast ?l :: 16 word) = uint (ucast (AL c) :: 16 word)"
      by (simp only: uint_up_ucast8)
  qed
  have low: "(ucast (AL c) AND 0xFF :: 16 word) = ucast (AL c)" "(ucast (ucast (AL c) :: 16 word) :: 8 word) = AL c"
    "(ucast (drop_bit 8 (ucast (AL c) :: 16 word)) :: 8 word) = 0"
    by (rule bit_word_eqI; auto simp: mask8_16 bit_simps dest: bit_imp_le_length)+
  have "0 < uint ?b" using False by (metis uint_0_iff uint_ge_0 less_le)
  then have "?l < ?b" by (simp add: word_less_def uint_mod)
  moreover have "AL (AAD i c') = AL c" "AH (AAD i c') = 0"
    by (simp_all add: AAD_def Let_def v up low)
  ultimately show ?thesis using False sum by (simp add: aam v)
qed

text \<open>Compare and exchange: when AL equals the destination, the source is stored there and AL is
  kept; otherwise AL receives the destination, which is kept. The zero flag says which. Exchange and
  add leaves the sum in the destination and the old destination in the source; when both
  are the same register, the sum stays.\<close>

theorem cmpxchg_xadd:
  "get_flag ZF (flags (CMPXCHG_EbGbM i c)) = (AL c = mem_operand c) \<and>
   mem_operand (CMPXCHG_EbGbM i c) = (if AL c = mem_operand c then reg_nnn i c else mem_operand c) \<and>
   AL (CMPXCHG_EbGbM i c) = mem_operand c \<and>
   get_flag ZF (flags (CMPXCHG_EbGbR i c)) = (AL c = reg_rm i c) \<and>
   reg_rm i (CMPXCHG_EbGbR i c) = (if AL c = reg_rm i c then reg_nnn i c else reg_rm i c) \<and>
   mem_operand (XADD_EbGbM i c) = mem_operand c + reg_nnn i c \<and>
   reg_nnn i (XADD_EbGbM i c) = mem_operand c \<and>
   reg_rm i (XADD_EbGbR i c) = reg_rm i c + reg_nnn i c"
proof -
  have zf: "get_flag ZF (SET_FLAGS_OSZAPC a b (r :: 8 word) ins S) = (r = 0)" for a b r ins S
    by (simp add: get_SET_OSZAPC get_ZFLazy_def scast_zero_iff)
  have "AL c = reg_rm i c \<or> reg_rm i (set_AL v (upd_flags g c)) = reg_rm i c" for v g
    by (auto simp: READ_8BIT_REGx_def)
  then show ?thesis
    by (auto simp: CMPXCHG_EbGbM_def CMPXCHG_EbGbR_def XADD_EbGbM_def XADD_EbGbR_def Let_def zf)
qed

text \<open>Storing the flags and loading them back: \<^verbatim>\<open>LAHF\<close>, any change of the flags, and \<^verbatim>\<open>SAHF\<close> restore
  sign, zero, auxiliary carry, parity and carry, pending or not, and leave the overflow flag
  as the change made it.\<close>

theorem lahf_sahf:
  "get_flag f (flags (SAHF (upd_flags g (LAHF c)))) =
     (if f = OF then get_flag OF (g (force_flags (flags c))) else get_flag f (flags c))"
proof -
  have b: "bit (AH (LAHF c)) n = bit (eflags (force_flags (flags c))) n" if "n < 8" for n
  proof -
    have m: "(0xFF :: 32 word) = mask 8" by (simp add: mask_eq_exp_minus_1)
    show ?thesis using that unfolding LAHF_def Let_def m by (simp add: bit_simps)
  qed
  have e: "bit (eflags (force_flags S)) (flag_bit f) = get_flag f S" for f S
  proof -
    have "get_flag f (force_flags S) = bit (eflags (force_flags S)) (flag_bit f)"
      by (simp only: get_flag_bit force_flags_status) simp
    then show ?thesis by simp
  qed
  have "flags (LAHF c) = force_flags (flags c)" by (simp add: LAHF_def Let_def)
  then show ?thesis
    using e [of _ SF] e [of _ ZF] e [of _ AF] e [of _ PF] e [of _ CF] by (cases f) (simp_all add: SAHF_def b)
qed


section \<open>Frame of the flags\<close>

text \<open>What an instruction may do to the flag state: the bits of \<^verbatim>\<open>eflags\<close> outside the six
  arithmetic flags stay, and only arithmetic flags are marked as pending.\<close>

definition pending_ok :: "cpu_flags \<Rightarrow> bool" where
  "pending_ok S \<longleftrightarrow> lf_status S AND NOT EFlagsOSZAPCMask = 0"

definition flags_typed :: "cpu_flags \<Rightarrow> cpu_flags \<Rightarrow> bool" where
  "flags_typed S S' \<longleftrightarrow>
     eflags S' AND NOT EFlagsOSZAPCMask = eflags S AND NOT EFlagsOSZAPCMask \<and> (pending_ok S \<longrightarrow> pending_ok S')"

lemma flags_typed_bits:
  "flags_typed S S' \<longleftrightarrow>
     (\<forall>n<32. bit EFlagsOSZAPCMask n \<or> bit (eflags S') n = bit (eflags S) n) \<and>
     ((\<forall>n<32. bit (lf_status S) n \<longrightarrow> bit EFlagsOSZAPCMask n) \<longrightarrow>
      (\<forall>n<32. bit (lf_status S') n \<longrightarrow> bit EFlagsOSZAPCMask n))"
proof -
  have "x = y \<longleftrightarrow> (\<forall>n<32. bit x n = bit y n)" for x y :: "32 word"
    by (auto intro: bit_word_eqI)
  then show ?thesis unfolding flags_typed_def pending_ok_def by (auto simp: bit_simps)
qed

lemma flags_typed_refl [simp]: "flags_typed S S"
  by (simp add: flags_typed_def)

lemma flags_typed_trans: "flags_typed S T \<Longrightarrow> flags_typed T U \<Longrightarrow> flags_typed S U"
  by (simp add: flags_typed_def)

lemma OSZAPC_bits:
  "bit EFlagsOSZAPCMask 0" "bit EFlagsOSZAPCMask 2" "bit EFlagsOSZAPCMask 11"
  using bit_OSZAPC_flag [of CF] bit_OSZAPC_flag [of PF] bit_OSZAPC_flag [of OF] by simp_all

lemma parity_lookup_bool: "bx_parity_lookup ! unat (v :: 8 word) = 0 \<or> bx_parity_lookup ! unat v = 1"
proof -
  have "list_all (\<lambda>x. x = 0 \<or> x = 1) bx_parity_lookup" "length bx_parity_lookup = 256"
    by (simp_all add: bx_parity_lookup_def)
  then show ?thesis using unsigned_less [of v, where 'a = nat] by (auto simp: list_all_length)
qed

lemma flags_typed_step:
  "flags_typed S (set_flag f v S)" "flags_typed S (clear_flag f S)" "flags_typed S (assert_flag f S)"
  "flags_typed S (force_flag f S)" "flags_typed S (SET_FLAGS_OSZAPC a b r ins S)"
  "flags_typed S (SET_FLAGS_OSZAPC_RESULT r ins S)" "flags_typed S (ASSERT_FLAGS_OxxxxC S)"
  "flags_typed S (SET_FLAGS_OxxxxC ov cf S)" "flags_typed S (force_flags S)"
  by (auto simp: flags_typed_bits set_flag_def clear_flag_def assert_flag_def force_flag_def SET_FLAGS_OSZAPC_def
      SET_FLAGS_OSZAPC_RESULT_def ASSERT_FLAGS_OxxxxC_def SET_FLAGS_OxxxxC_def force_flags_def setEFlagsOSZAPC_def
      bit_simps bit_EFlagsMask OSZAPC_bits split: if_splits)
    (metis OSZAPC_bits(1) gr0I)

lemma set_PF_base_eq: "set_PF_base v S = set_flag PF (bx_parity_lookup ! unat v \<noteq> 0) S"
  using parity_lookup_bool [of v] by (auto simp: set_PF_base_def set_flag_def EFlagsMask_def)

lemma flags_typed_OSZAP: "flags_typed S (SET_FLAGS_OSZAP_RESULT r ins S)"
proof -
  have "flags_typed T (T\<lparr>oszapc := x, lf_status := EFlagsOSZAPMask\<rparr>)" for T x
    by (auto simp: flags_typed_bits bit_OSZAP bit_OSZAPC)
  from flags_typed_trans [OF flags_typed_step(4) this] show ?thesis
    by (simp add: SET_FLAGS_OSZAP_RESULT_def Let_def)
qed

lemmas flags_typed_steps = flags_typed_step flags_typed_OSZAP

lemma flags_typed_then:
  "flags_typed S T \<Longrightarrow> flags_typed S (set_flag f v T)" "flags_typed S T \<Longrightarrow> flags_typed S (clear_flag f T)"
  "flags_typed S T \<Longrightarrow> flags_typed S (assert_flag f T)" "flags_typed S T \<Longrightarrow> flags_typed S (SET_FLAGS_OSZAPC a b r ins T)"
  "flags_typed S T \<Longrightarrow> flags_typed S (SET_FLAGS_OSZAPC_RESULT r ins T)"
  "flags_typed S T \<Longrightarrow> flags_typed S (SET_FLAGS_OSZAP_RESULT r ins T)"
  "flags_typed S T \<Longrightarrow> flags_typed S (ASSERT_FLAGS_OxxxxC T)"
  "flags_typed S T \<Longrightarrow> flags_typed S (SET_FLAGS_OxxxxC ov cf T)" "flags_typed S T \<Longrightarrow> flags_typed S (force_flags T)"
  by (erule flags_typed_trans, rule flags_typed_steps)+

definition instructions8 :: "(bxInstruction \<Rightarrow> cpu \<Rightarrow> cpu) list" where
  "instructions8 =
     map fst alu8_table @
     [INC_EbM, INC_EbR, DEC_EbM, DEC_EbR, NEG_EbM, NEG_EbR, NOT_EbM, NOT_EbR, XADD_EbGbM, XADD_EbGbR,
      CMPXCHG_EbGbM, CMPXCHG_EbGbR, AAD, MUL_ALEbR, IMUL_ALEbR, ROL_Eb, ROR_Eb, RCL_Eb, RCR_Eb, SHL_Eb,
      SHR_Eb, SAR_Eb, \<lambda>_. AAA, \<lambda>_. AAS, \<lambda>_. DAA, \<lambda>_. DAS, \<lambda>_. SAHF, \<lambda>_. LAHF, \<lambda>_. CLC, \<lambda>_. STC,
      \<lambda>_. CMC, \<lambda>_. SALC]"


end
