(* ===== verification/Bochs_Seg.thy ===== *)
theory Bochs_Seg
  imports Bochs_ALU
begin

unbundle bit_operations_syntax

section \<open>Segments, real-mode memory and the stack\<close>

text \<open>
  Models \<^verbatim>\<open>cpu/access.cc\<close>, the accesses of \<^verbatim>\<open>cpu/access32.cc\<close>, \<^verbatim>\<open>cpu/stack.h\<close>,
  the real-mode part of \<^verbatim>\<open>load_seg_reg\<close> (\<^verbatim>\<open>cpu/segment_ctrl_pro.cc\<close>) and the address
  forms of \<^verbatim>\<open>cpu/resolver.cc\<close> for a CPU in real mode, where paging is off and the privilege level
  is 0: no alignment check is made and a linear address is a physical one. Memory is RAM as
  \<open>Bochs_Mem\<close> shows it to behave, an array of bytes behind the A20 mask; the TLB keeps host pointers to the same
  bytes. An access that is refused calls \<^verbatim>\<open>exception\<close>, which does not return: the result is then
  \<^const>\<open>Inl\<close> of the vector and the state reached.
\<close>

subsection \<open>State\<close>

text \<open>\<^verbatim>\<open>bx_segment_reg_t\<close>: selector and descriptor cache. The other selector fields and the descriptor
  privilege level play no part in real mode.\<close>

record seg_reg =
  selector :: "16 word"
  valid :: "32 word"
  present :: bool
  seg_type :: nat
  seg_base :: "64 word"
  limit_scaled :: "32 word"
  d_b :: bool

record real_cpu =
  core :: cpu
  sregs :: "nat \<Rightarrow> seg_reg"
  memory :: "32 word \<Rightarrow> 8 word"
  a20 :: "32 word"
  idtr_base :: "64 word"
  idtr_limit :: "16 word"
  dr6 :: "32 word"
  dr7 :: "32 word"
  prev_rip :: "64 word"
  prev_rsp :: "64 word"
  speculative_rsp :: bool
  inhibit_mask :: "32 word"
  async_event :: "32 word"
  debug_trap :: "32 word"
  EXT :: bool
  errorno :: nat
  curr_exception :: nat
  save_cs :: seg_reg
  save_ss :: seg_reg
  save_eip :: "64 word"
  save_esp :: "64 word"
  pending_NMI :: bool
  disable_NMI :: bool

text \<open>The outcome of a step: the vector of a fault with the state at the call of \<^verbatim>\<open>exception\<close>, or a result.\<close>

type_synonym 'a fallible = "(nat \<times> real_cpu) + 'a"

abbreviation (input) ES :: nat where "ES \<equiv> 0"
abbreviation (input) CS :: nat where "CS \<equiv> 1"
abbreviation (input) SS :: nat where "SS \<equiv> 2"
abbreviation (input) DS :: nat where "DS \<equiv> 3"
abbreviation (input) FS :: nat where "FS \<equiv> 4"
abbreviation (input) GS :: nat where "GS \<equiv> 5"
abbreviation (input) RSP_reg :: nat where "RSP_reg \<equiv> 4"
abbreviation (input) RIP_reg :: nat where "RIP_reg \<equiv> 16"

definition SegAccessROK :: "32 word" where "SegAccessROK = 2"
definition SegAccessWOK :: "32 word" where "SegAccessWOK = 4"

text \<open>Registers at 16, 32 and 64 bits.\<close>

definition dword_erx :: "64 word \<Rightarrow> 32 word" where "dword_erx r = ucast r"

definition set_erx :: "32 word \<Rightarrow> 64 word \<Rightarrow> 64 word" where
  "set_erx v r = (r AND NOT 0xFFFFFFFF) OR ucast v"

abbreviation rx :: "nat \<Rightarrow> real_cpu \<Rightarrow> 16 word" where "rx n c \<equiv> word_rx (gen_reg (core c) n)"
abbreviation erx :: "nat \<Rightarrow> real_cpu \<Rightarrow> 32 word" where "erx n c \<equiv> dword_erx (gen_reg (core c) n)"
abbreviation rrx :: "nat \<Rightarrow> real_cpu \<Rightarrow> 64 word" where "rrx n c \<equiv> gen_reg (core c) n"

definition on_core :: "(cpu \<Rightarrow> cpu) \<Rightarrow> real_cpu \<Rightarrow> real_cpu" where
  "on_core f c = c\<lparr>core := f (core c)\<rparr>"

abbreviation put_rx :: "nat \<Rightarrow> 16 word \<Rightarrow> real_cpu \<Rightarrow> real_cpu" where
  "put_rx n v \<equiv> on_core (upd_reg n (set_rx v))"
abbreviation put_erx :: "nat \<Rightarrow> 32 word \<Rightarrow> real_cpu \<Rightarrow> real_cpu" where
  "put_erx n v \<equiv> on_core (upd_reg n (set_erx v))"
abbreviation put_rrx :: "nat \<Rightarrow> 64 word \<Rightarrow> real_cpu \<Rightarrow> real_cpu" where
  "put_rrx n v \<equiv> on_core (upd_reg n (\<lambda>_. v))"

abbreviation IP :: "real_cpu \<Rightarrow> 16 word" where "IP \<equiv> rx RIP_reg"
abbreviation SP :: "real_cpu \<Rightarrow> 16 word" where "SP \<equiv> rx RSP_reg"
abbreviation (input) ESP :: "real_cpu \<Rightarrow> 32 word" where "ESP \<equiv> erx RSP_reg"

definition put_sreg :: "nat \<Rightarrow> seg_reg \<Rightarrow> real_cpu \<Rightarrow> real_cpu" where
  "put_sreg s r c = c\<lparr>sregs := (sregs c)(s := r)\<rparr>"

subsection \<open>Instructions\<close>

datatype resolver = BxResolve16BaseIndex | BxResolve32Base | BxResolve32BaseIndex

text \<open>\<^verbatim>\<open>bxInstruction_c\<close>: the byte instructions use \<open>i8\<close>. The immediates of different widths are a union,
  as are the displacement and the second immediate.\<close>

record instruction =
  i8 :: bxInstruction
  Id :: "32 word"
  Id2 :: "32 word"
  iseg :: nat
  sibBase :: nat
  sibIndex :: nat
  sibScale :: nat
  ResolveModrm :: resolver
  os32L :: bool
  as32L :: bool
  repUsed :: nat
  ilen :: nat

definition Iw :: "instruction \<Rightarrow> 16 word" where "Iw i = ucast (Id i)"
definition Iw2 :: "instruction \<Rightarrow> 16 word" where "Iw2 i = ucast (Id2 i)"
definition Ib2 :: "instruction \<Rightarrow> 8 word" where "Ib2 i = ucast (Id2 i)"
abbreviation displ16s :: "instruction \<Rightarrow> 16 word" where "displ16s \<equiv> Iw2"
abbreviation displ32s :: "instruction \<Rightarrow> 32 word" where "displ32s \<equiv> Id2"
abbreviation r_nnn :: "instruction \<Rightarrow> nat" where "r_nnn i \<equiv> nnn (i8 i)"
abbreviation r_rm :: "instruction \<Rightarrow> nat" where "r_rm i \<equiv> rm (i8 i)"

definition resolve :: "instruction \<Rightarrow> real_cpu \<Rightarrow> 32 word" where
  "resolve i c = (case ResolveModrm i of
     BxResolve16BaseIndex \<Rightarrow> ucast (rx (sibBase i) c + rx (sibIndex i) c + displ16s i)
   | BxResolve32Base \<Rightarrow> erx (sibBase i) c + displ32s i
   | BxResolve32BaseIndex \<Rightarrow> erx (sibBase i) c + push_bit (sibScale i) (erx (sibIndex i) c) + displ32s i)"

subsection \<open>Linear memory\<close>

text \<open>\<^verbatim>\<open>access_write_linear\<close> and \<^verbatim>\<open>access_read_linear\<close> with paging off. The physical address of a
  byte is its linear address behind the A20 mask; an access over the end of a page continues in the next page, and over
  the end of the address space at 0.\<close>

definition phys_byte :: "real_cpu \<Rightarrow> 32 word \<Rightarrow> 8 word" where
  "phys_byte c a = memory c (a AND a20 c)"

primrec access_write_linear :: "32 word \<Rightarrow> 8 word list \<Rightarrow> real_cpu \<Rightarrow> real_cpu" where
  "access_write_linear a [] c = c"
| "access_write_linear a (b # bs) c = access_write_linear (a + 1) bs (c\<lparr>memory := (memory c)(a AND a20 c := b)\<rparr>)"

definition access_read_linear :: "32 word \<Rightarrow> nat \<Rightarrow> real_cpu \<Rightarrow> 8 word list" where
  "access_read_linear a n c = map (\<lambda>i. phys_byte c (a + of_nat i)) [0..<n]"

text \<open>Little endian, as \<^verbatim>\<open>WriteHostWordToLittleEndian\<close> and the like.\<close>

definition word_bytes_le :: "16 word \<Rightarrow> 8 word list" where
  "word_bytes_le v = [ucast v, ucast (drop_bit 8 v)]"

definition dword_bytes_le :: "32 word \<Rightarrow> 8 word list" where
  "dword_bytes_le v = [ucast v, ucast (drop_bit 8 v), ucast (drop_bit 16 v), ucast (drop_bit 24 v)]"

definition of_bytes_le :: "8 word list \<Rightarrow> 'a::len word" where
  "of_bytes_le bs = foldr (\<lambda>b v. ucast b OR push_bit 8 v) bs 0"

definition system_read_word :: "64 word \<Rightarrow> real_cpu \<Rightarrow> 16 word" where
  "system_read_word laddr c = of_bytes_le (access_read_linear (ucast laddr) 2 c)"

subsection \<open>Segment checks\<close>

definition int_number :: "nat \<Rightarrow> nat" where
  "int_number s = (if s = SS then 12 else 13)"

definition upper_limit :: "seg_reg \<Rightarrow> 32 word" where
  "upper_limit r = (if d_b r then 0xFFFFFFFF else 0xFFFF)"

definition expand_up_bad :: "seg_reg \<Rightarrow> 32 word \<Rightarrow> 32 word \<Rightarrow> bool" where
  "expand_up_bad r offset len \<longleftrightarrow> offset > limit_scaled r - len + 1 \<or> len - 1 > limit_scaled r"

definition expand_down_bad :: "seg_reg \<Rightarrow> 32 word \<Rightarrow> 32 word \<Rightarrow> bool" where
  "expand_down_bad r offset len \<longleftrightarrow>
     offset \<le> limit_scaled r \<or> offset > upper_limit r \<or> upper_limit r - offset < len - 1"

definition mark_ok :: "32 word \<Rightarrow> seg_reg \<Rightarrow> seg_reg" where
  "mark_ok m r = (if limit_scaled r \<ge> 15 then r\<lparr>valid := valid r OR m\<rparr> else r)"

text \<open>The results: whether the access is allowed, and the segment register with its cached rights. A type
  above 15 is a panic after which the access is made.\<close>

definition write_virtual_checks :: "seg_reg \<Rightarrow> 32 word \<Rightarrow> 32 word \<Rightarrow> bool \<times> seg_reg" where
  "write_virtual_checks r offset len =
     (if valid r = 0 then (False, r)
      else if \<not> present r then (False, r)
      else if seg_type r \<in> {0, 1, 4, 5} \<or> seg_type r \<in> {8 .. 15} then (False, r)
      else if seg_type r \<in> {2, 3} then
        (if expand_up_bad r offset len then (False, r) else (True, mark_ok (SegAccessROK OR SegAccessWOK) r))
      else if seg_type r \<in> {6, 7} then
        (if expand_down_bad r offset len then (False, r) else (True, r))
      else (True, r))"

definition read_virtual_checks :: "seg_reg \<Rightarrow> 32 word \<Rightarrow> 32 word \<Rightarrow> bool \<times> seg_reg" where
  "read_virtual_checks r offset len =
     (if valid r = 0 then (False, r)
      else if \<not> present r then (False, r)
      else if seg_type r \<in> {0, 1, 2, 3, 10, 11, 14, 15} then
        (if expand_up_bad r offset len then (False, r) else (True, mark_ok SegAccessROK r))
      else if seg_type r \<in> {4, 5, 6, 7} then
        (if expand_down_bad r offset len then (False, r) else (True, r))
      else if seg_type r \<in> {8, 9, 12, 13} then (False, r)
      else (True, r))"

definition execute_virtual_checks :: "seg_reg \<Rightarrow> 32 word \<Rightarrow> 32 word \<Rightarrow> bool \<times> seg_reg" where
  "execute_virtual_checks r offset len =
     (if valid r = 0 then (False, r)
      else if \<not> present r then (False, r)
      else if seg_type r \<in> {0, 1, 2, 3, 10, 11, 14, 15} then
        (if expand_up_bad r offset len then (False, r) else (True, mark_ok SegAccessROK r))
      else if seg_type r \<in> {8, 9, 12, 13} then (\<not> expand_up_bad r offset len, r)
      else if seg_type r \<in> {4, 5, 6, 7} then
        (if expand_down_bad r offset len then (False, r) else (True, r))
      else (True, r))"

subsection \<open>Virtual memory\<close>

definition get_laddr32 :: "nat \<Rightarrow> 32 word \<Rightarrow> real_cpu \<Rightarrow> 32 word" where
  "get_laddr32 s offset c = ucast (seg_base (sregs c s)) + offset"

text \<open>The limit test once the rights are cached, for 1, 2, 4 and 8 bytes.\<close>

definition simple_limit_ok :: "nat \<Rightarrow> 32 word \<Rightarrow> seg_reg \<Rightarrow> bool" where
  "simple_limit_ok len offset r =
     (if len = 1 then offset \<le> limit_scaled r
      else if len = 2 then offset < limit_scaled r
      else if len = 4 then offset < limit_scaled r - 2
      else offset \<le> limit_scaled r - 7)"

text \<open>The common part of the accesses up to \<^verbatim>\<open>accessOK\<close>: the linear address.\<close>

definition access_check ::
    "(seg_reg \<Rightarrow> 32 word \<Rightarrow> 32 word \<Rightarrow> bool \<times> seg_reg) \<Rightarrow> 32 word \<Rightarrow> nat \<Rightarrow> nat \<Rightarrow> 32 word \<Rightarrow> real_cpu
      \<Rightarrow> (32 word \<times> real_cpu) fallible" where
  "access_check checks right len s offset c =
     (if valid (sregs c s) AND right \<noteq> 0 then
        (if simple_limit_ok len offset (sregs c s) then Inr (get_laddr32 s offset c, c) else Inl (int_number s, c))
      else
        (let (ok, r) = checks (sregs c s) offset (of_nat len); c' = put_sreg s r c
         in if ok then Inr (get_laddr32 s offset c', c') else Inl (int_number s, c')))"

definition write_check :: "nat \<Rightarrow> nat \<Rightarrow> 32 word \<Rightarrow> real_cpu \<Rightarrow> (32 word \<times> real_cpu) fallible" where
  "write_check = access_check write_virtual_checks SegAccessWOK"

definition read_check :: "nat \<Rightarrow> nat \<Rightarrow> 32 word \<Rightarrow> real_cpu \<Rightarrow> (32 word \<times> real_cpu) fallible" where
  "read_check = access_check read_virtual_checks SegAccessROK"

definition write_virtual_byte_32 :: "nat \<Rightarrow> 32 word \<Rightarrow> 8 word \<Rightarrow> real_cpu \<Rightarrow> real_cpu fallible" where
  "write_virtual_byte_32 s offset v c =
     and_then (write_check 1 s offset c) (\<lambda>(laddr, c). Inr (access_write_linear laddr [v] c))"

definition write_virtual_word_32 :: "nat \<Rightarrow> 32 word \<Rightarrow> 16 word \<Rightarrow> real_cpu \<Rightarrow> real_cpu fallible" where
  "write_virtual_word_32 s offset v c =
     and_then (write_check 2 s offset c) (\<lambda>(laddr, c). Inr (access_write_linear laddr (word_bytes_le v) c))"

definition write_virtual_dword_32 :: "nat \<Rightarrow> 32 word \<Rightarrow> 32 word \<Rightarrow> real_cpu \<Rightarrow> real_cpu fallible" where
  "write_virtual_dword_32 s offset v c =
     and_then (write_check 4 s offset c) (\<lambda>(laddr, c). Inr (access_write_linear laddr (dword_bytes_le v) c))"

definition read_virtual_byte_32 :: "nat \<Rightarrow> 32 word \<Rightarrow> real_cpu \<Rightarrow> (8 word \<times> real_cpu) fallible" where
  "read_virtual_byte_32 s offset c =
     and_then (read_check 1 s offset c) (\<lambda>(laddr, c). Inr (of_bytes_le (access_read_linear laddr 1 c), c))"

definition read_virtual_word_32 :: "nat \<Rightarrow> 32 word \<Rightarrow> real_cpu \<Rightarrow> (16 word \<times> real_cpu) fallible" where
  "read_virtual_word_32 s offset c =
     and_then (read_check 2 s offset c) (\<lambda>(laddr, c). Inr (of_bytes_le (access_read_linear laddr 2 c), c))"

definition read_virtual_dword_32 :: "nat \<Rightarrow> 32 word \<Rightarrow> real_cpu \<Rightarrow> (32 word \<times> real_cpu) fallible" where
  "read_virtual_dword_32 s offset c =
     and_then (read_check 4 s offset c) (\<lambda>(laddr, c). Inr (of_bytes_le (access_read_linear laddr 4 c), c))"

text \<open>A read that a write to the same place follows: it is checked as a write and hands the linear address on
  (\<^verbatim>\<open>address_xlation\<close>).\<close>

definition read_RMW_virtual_byte_32 :: "nat \<Rightarrow> 32 word \<Rightarrow> real_cpu \<Rightarrow> (8 word \<times> 32 word \<times> real_cpu) fallible" where
  "read_RMW_virtual_byte_32 s offset c =
     and_then (write_check 1 s offset c) (\<lambda>(laddr, c). Inr (of_bytes_le (access_read_linear laddr 1 c), laddr, c))"

definition read_RMW_virtual_word_32 :: "nat \<Rightarrow> 32 word \<Rightarrow> real_cpu \<Rightarrow> (16 word \<times> 32 word \<times> real_cpu) fallible" where
  "read_RMW_virtual_word_32 s offset c =
     and_then (write_check 2 s offset c) (\<lambda>(laddr, c). Inr (of_bytes_le (access_read_linear laddr 2 c), laddr, c))"

definition write_RMW_virtual_byte :: "32 word \<Rightarrow> 8 word \<Rightarrow> real_cpu \<Rightarrow> real_cpu" where
  "write_RMW_virtual_byte laddr v c = access_write_linear laddr [v] c"

definition write_RMW_virtual_word :: "32 word \<Rightarrow> 16 word \<Rightarrow> real_cpu \<Rightarrow> real_cpu" where
  "write_RMW_virtual_word laddr v c = access_write_linear laddr (word_bytes_le v) c"

subsection \<open>Segment registers in real mode\<close>

definition load_seg_reg :: "nat \<Rightarrow> 16 word \<Rightarrow> real_cpu \<Rightarrow> real_cpu" where
  "load_seg_reg s v c = put_sreg s
     ((sregs c s)\<lparr>selector := v, valid := 1, seg_base := push_bit 4 (ucast v), present := True\<rparr>) c"

subsection \<open>The stack\<close>

definition push_16 :: "16 word \<Rightarrow> real_cpu \<Rightarrow> real_cpu fallible" where
  "push_16 v c =
     (if d_b (sregs c SS) then
        and_then (write_virtual_word_32 SS (ESP c - 2) v c) (\<lambda>c. Inr (put_erx RSP_reg (ESP c - 2) c))
      else
        and_then (write_virtual_word_32 SS (ucast (SP c - 2)) v c) (\<lambda>c. Inr (put_rx RSP_reg (SP c - 2) c)))"

definition push_32 :: "32 word \<Rightarrow> real_cpu \<Rightarrow> real_cpu fallible" where
  "push_32 v c =
     (if d_b (sregs c SS) then
        and_then (write_virtual_dword_32 SS (ESP c - 4) v c) (\<lambda>c. Inr (put_erx RSP_reg (ESP c - 4) c))
      else
        and_then (write_virtual_dword_32 SS (ucast (SP c - 4)) v c) (\<lambda>c. Inr (put_rx RSP_reg (SP c - 4) c)))"

definition pop_16 :: "real_cpu \<Rightarrow> (16 word \<times> real_cpu) fallible" where
  "pop_16 c =
     (if d_b (sregs c SS) then
        and_then (read_virtual_word_32 SS (ESP c) c) (\<lambda>(v, c). Inr (v, put_erx RSP_reg (ESP c + 2) c))
      else
        and_then (read_virtual_word_32 SS (ucast (SP c)) c) (\<lambda>(v, c). Inr (v, put_rx RSP_reg (SP c + 2) c)))"

definition pop_32 :: "real_cpu \<Rightarrow> (32 word \<times> real_cpu) fallible" where
  "pop_32 c =
     (if d_b (sregs c SS) then
        and_then (read_virtual_dword_32 SS (ESP c) c) (\<lambda>(v, c). Inr (v, put_erx RSP_reg (ESP c + 4) c))
      else
        and_then (read_virtual_dword_32 SS (ucast (SP c)) c) (\<lambda>(v, c). Inr (v, put_rx RSP_reg (SP c + 4) c)))"

definition RSP_SPECULATIVE :: "real_cpu \<Rightarrow> real_cpu" where
  "RSP_SPECULATIVE c = c\<lparr>speculative_rsp := True, prev_rsp := rrx RSP_reg c\<rparr>"

definition RSP_COMMIT :: "real_cpu \<Rightarrow> real_cpu" where
  "RSP_COMMIT c = c\<lparr>speculative_rsp := False\<rparr>"

subsection \<open>What the segment checks decide\<close>

text \<open>The rule without word arithmetic and without cached rights: the bytes of the access lie within the limit, or above
  it in a segment that expands down.\<close>

definition seg_allows :: "bool \<Rightarrow> nat \<Rightarrow> 32 word \<Rightarrow> seg_reg \<Rightarrow> bool" where
  "seg_allows w len offset r \<longleftrightarrow> valid r \<noteq> 0 \<and> present r \<and>
     (if w then seg_type r \<in> {2, 3, 6, 7} else seg_type r \<notin> {8, 9, 12, 13}) \<and>
     (if seg_type r \<in> {4, 5, 6, 7}
      then unat (limit_scaled r) < unat offset \<and> unat offset + len \<le> unat (upper_limit r) + 1
      else unat offset + len \<le> unat (limit_scaled r) + 1)"

text \<open>Cached rights are only ever set for a segment they hold for.\<close>

definition seg_ok :: "seg_reg \<Rightarrow> bool" where
  "seg_ok r \<longleftrightarrow> seg_type r \<le> 15 \<and>
     (valid r AND SegAccessROK \<noteq> 0 \<longrightarrow> present r \<and> 15 \<le> limit_scaled r \<and> seg_type r \<in> {0, 1, 2, 3, 10, 11, 14, 15}) \<and>
     (valid r AND SegAccessWOK \<noteq> 0 \<longrightarrow> present r \<and> 15 \<le> limit_scaled r \<and> seg_type r \<in> {2, 3})"

lemma unat_minus: "unat (a - b :: 'a::len word) = (if b \<le> a then unat a - unat b else 2 ^ LENGTH('a) + unat a - unat b)"
proof (cases "b \<le> a")
  case False
  have "uint (a - b) = (uint a - uint b) mod 2 ^ LENGTH('a)" by (simp add: uint_word_ariths)
  also have "\<dots> = uint a - uint b + 2 ^ LENGTH('a)"
  proof -
    have "uint a - uint b < 0" "- (2 ^ LENGTH('a)) \<le> uint a - uint b" "uint a - uint b < 2 * 2 ^ LENGTH('a)"
      using False uint_lt2p [of b] uint_ge_0 [of a] uint_lt2p [of a] uint_ge_0 [of b] unfolding word_le_def by linarith+
    thus ?thesis using mod_once [of "2 ^ LENGTH('a)" "uint a - uint b"] by simp
  qed
  finally have eq: "uint (a - b) = uint a - uint b + 2 ^ LENGTH('a)" .
  have "unat b \<le> 2 ^ LENGTH('a) + unat a" using unsigned_less [of b] by (intro trans_le_add1 less_imp_le)
  hence "int (unat (a - b)) = int (2 ^ LENGTH('a) + unat a - unat b)" by (simp add: eq)
  hence "unat (a - b) = 2 ^ LENGTH('a) + unat a - unat b" by (simp only: of_nat_eq_iff)
  thus ?thesis using False by simp
qed (simp add: unat_sub word_le_nat_alt)

lemma limit_test:
  fixes offset limit :: "32 word"
  assumes "1 \<le> len" "len \<le> 8"
  shows "(offset > limit - of_nat len + 1 \<or> of_nat len - 1 > limit) \<longleftrightarrow> unat limit + 1 < unat offset + len"
proof -
  have l: "unat (of_nat len :: 32 word) = len" using assms by (simp add: unat_of_nat take_bit_eq_mod)
  have l1: "unat (of_nat len - 1 :: 32 word) = len - 1" using assms l by (simp add: unat_minus word_le_nat_alt)
  have m: "unat limit < 2 ^ 32" "unat offset < 2 ^ 32" using unsigned_less [of limit] unsigned_less [of offset] by simp_all
  have eq: "limit - of_nat len + 1 = limit - (of_nat len - 1)" by simp
  have u: "unat (limit - of_nat len + 1) = (if len - 1 \<le> unat limit then unat limit - (len - 1) else 2 ^ 32 + unat limit - (len - 1))"
    unfolding eq unat_minus [of limit "of_nat len - 1"] word_le_nat_alt l1 by simp
  show ?thesis unfolding word_less_nat_alt l1 u using m assms by (auto split: if_splits)
qed

lemma limit_test_simple:
  assumes "len \<in> {1, 2, 4, 8}" "15 \<le> limit_scaled r"
  shows "simple_limit_ok len offset r \<longleftrightarrow> unat offset + len \<le> unat (limit_scaled r) + 1"
proof -
  have k: "unat (limit_scaled r - k) = unat (limit_scaled r) - unat k" if "k \<le> 15" for k
    using order.trans [OF that assms(2)] by (simp add: unat_minus [of "limit_scaled r" k])
  have "15 \<le> unat (limit_scaled r)" using assms(2) by (simp add: word_le_nat_alt)
  thus ?thesis using assms(1) k [of 2] k [of 7]
    by (auto simp: simple_limit_ok_def word_le_nat_alt word_less_nat_alt simp del: One_nat_def)
qed

lemma expand_down_test:
  assumes "1 \<le> len" "len \<le> 8"
  shows "expand_down_bad r offset (of_nat len) \<longleftrightarrow>
    \<not> (unat (limit_scaled r) < unat offset \<and> unat offset + len \<le> unat (upper_limit r) + 1)"
proof -
  have l: "unat (of_nat len :: 32 word) = len" using assms by (simp add: unat_of_nat take_bit_eq_mod)
  have l1: "unat (of_nat len - 1 :: 32 word) = len - 1" using assms l by (simp add: unat_minus word_le_nat_alt)
  show ?thesis unfolding expand_down_bad_def word_less_nat_alt word_le_nat_alt l1 unat_minus [of "upper_limit r" offset]
    using assms by (auto split: if_splits)
qed

text \<open>What an allowed access leaves in the register.\<close>

definition touched :: "bool \<Rightarrow> seg_reg \<Rightarrow> seg_reg" where
  "touched w r =
     (if valid r AND (if w then SegAccessWOK else SegAccessROK) \<noteq> 0 \<or> seg_type r \<in> {4, 5, 6, 7} then r
      else mark_ok (if w then SegAccessROK OR SegAccessWOK else SegAccessROK) r)"

definition touch :: "bool \<Rightarrow> nat \<Rightarrow> real_cpu \<Rightarrow> real_cpu" where
  "touch w s c = put_sreg s (touched w (sregs c s)) c"

lemma less_16: "n \<le> 15 \<longleftrightarrow> n \<in> {0, 1, 2, 3, 4, 5, 6, 7, 8, 9, 10, 11, 12, 13, 14, 15}" for n :: nat
  by (simp add: numeral_eq_Suc le_Suc_eq)

lemma write_checks:
  assumes "seg_type r \<le> 15" "1 \<le> len" "len \<le> 8" "valid r AND SegAccessWOK = 0"
  shows "write_virtual_checks r offset (of_nat len) =
    (if seg_allows True len offset r then (True, touched True r) else (False, r))"
  using assms(1,4) unfolding less_16
  by (auto simp: write_virtual_checks_def seg_allows_def touched_def expand_up_bad_def limit_test [OF assms(2,3)]
      expand_down_test [OF assms(2,3)])

lemma read_checks:
  assumes "seg_type r \<le> 15" "1 \<le> len" "len \<le> 8" "valid r AND SegAccessROK = 0"
  shows "read_virtual_checks r offset (of_nat len) =
    (if seg_allows False len offset r then (True, touched False r) else (False, r))"
  using assms(1,4) unfolding less_16
  by (auto simp: read_virtual_checks_def seg_allows_def touched_def expand_up_bad_def limit_test [OF assms(2,3)]
      expand_down_test [OF assms(2,3)])

text \<open>The rule decides, whatever rights are cached, and an allowed access only adds cached rights that hold.\<close>

lemma put_sreg_same [simp]: "put_sreg s (sregs c s) c = c"
  by (simp add: put_sreg_def)

lemma mark_ok_fields [simp]:
  "selector (mark_ok m r) = selector r" "present (mark_ok m r) = present r" "seg_type (mark_ok m r) = seg_type r"
  "seg_base (mark_ok m r) = seg_base r" "limit_scaled (mark_ok m r) = limit_scaled r" "d_b (mark_ok m r) = d_b r"
  by (simp_all add: mark_ok_def)

lemma touched_fields [simp]:
  "selector (touched w r) = selector r" "present (touched w r) = present r" "seg_type (touched w r) = seg_type r"
  "seg_base (touched w r) = seg_base r" "limit_scaled (touched w r) = limit_scaled r" "d_b (touched w r) = d_b r"
  by (simp_all add: touched_def)

lemma touch_fields [simp]:
  "core (touch w s c) = core c" "memory (touch w s c) = memory c" "a20 (touch w s c) = a20 c"
  "idtr_base (touch w s c) = idtr_base c" "idtr_limit (touch w s c) = idtr_limit c" "dr6 (touch w s c) = dr6 c"
  "dr7 (touch w s c) = dr7 c" "prev_rip (touch w s c) = prev_rip c" "prev_rsp (touch w s c) = prev_rsp c"
  "speculative_rsp (touch w s c) = speculative_rsp c" "inhibit_mask (touch w s c) = inhibit_mask c"
  "async_event (touch w s c) = async_event c" "debug_trap (touch w s c) = debug_trap c" "EXT (touch w s c) = EXT c"
  "errorno (touch w s c) = errorno c" "curr_exception (touch w s c) = curr_exception c"
  "save_cs (touch w s c) = save_cs c" "save_ss (touch w s c) = save_ss c" "save_eip (touch w s c) = save_eip c"
  "save_esp (touch w s c) = save_esp c" "pending_NMI (touch w s c) = pending_NMI c" "disable_NMI (touch w s c) = disable_NMI c"
  "sregs (touch w s c) t = (if t = s then touched w (sregs c s) else sregs c t)"
  by (simp_all add: touch_def put_sreg_def)

lemma or_and_nonzero: "(v OR m) AND k \<noteq> 0 \<longleftrightarrow> v AND k \<noteq> 0 \<or> m AND k \<noteq> 0" for v m k :: "32 word"
  by (simp add: bit.conj_disj_distrib2 or_eq_0_iff)

lemma valid_touched: "valid r \<noteq> 0 \<Longrightarrow> valid (touched w r) \<noteq> 0"
  by (simp add: touched_def mark_ok_def or_eq_0_iff)

lemma laddr_touch [simp]: "get_laddr32 t offset (touch w s c) = get_laddr32 t offset c"
  by (simp add: get_laddr32_def)

lemma touch_cached: "valid (sregs c s) AND (if w then SegAccessWOK else SegAccessROK) \<noteq> 0 \<Longrightarrow> touch w s c = c"
  by (simp add: touch_def touched_def)

lemma laddr_put: "get_laddr32 s offset (put_sreg s (touched w (sregs c s)) c) = get_laddr32 s offset c"
  by (simp add: get_laddr32_def put_sreg_def)

lemma access_check_eq:
  assumes "right = (if w then SegAccessWOK else SegAccessROK)"
    and "valid (sregs c s) AND right = 0 \<Longrightarrow>
      checks (sregs c s) offset (of_nat len) = (if P then (True, touched w (sregs c s)) else (False, sregs c s))"
    and "valid (sregs c s) AND right \<noteq> 0 \<Longrightarrow> simple_limit_ok len offset (sregs c s) = P"
  shows "access_check checks right len s offset c = (if P then Inr (get_laddr32 s offset c, touch w s c) else Inl (int_number s, c))"
proof (cases "valid (sregs c s) AND right = 0")
  case True
  note e = assms(2) [OF True]
  show ?thesis
  proof (cases P)
    case P: True
    thus ?thesis using True e by (simp add: access_check_def laddr_put touch_def)
  next
    case P: False
    thus ?thesis using True e by (simp add: access_check_def)
  qed
next
  case False
  have "touch w s c = c" using False by (intro touch_cached) (simp add: assms(1))
  thus ?thesis using False assms(3) [OF False] by (simp add: access_check_def)
qed

lemma write_check_eq:
  assumes "seg_ok (sregs c s)" "len \<in> {1, 2, 4, 8}"
  shows "write_check len s offset c =
    (if seg_allows True len offset (sregs c s) then Inr (get_laddr32 s offset c, touch True s c) else Inl (int_number s, c))"
proof -
  let ?r = "sregs c s"
  have a: "write_virtual_checks ?r offset (of_nat len) = (if seg_allows True len offset ?r then (True, touched True ?r) else (False, ?r))"
    if "valid ?r AND SegAccessWOK = 0"
    using assms that by (intro write_checks) (auto simp: seg_ok_def)
  have b: "simple_limit_ok len offset ?r = seg_allows True len offset ?r" if f: "valid ?r AND SegAccessWOK \<noteq> 0"
  proof -
    have r: "present ?r" "15 \<le> limit_scaled ?r" "seg_type ?r \<in> {2, 3}" using assms(1) f unfolding seg_ok_def by blast+
    have v: "valid ?r \<noteq> 0" using f by (intro notI) simp
    have t: "seg_type ?r \<notin> {4, 5, 6, 7}" "seg_type ?r \<in> {2, 3, 6, 7}" using r(3) by auto
    show ?thesis by (simp only: seg_allows_def limit_test_simple [OF assms(2) r(2)] t v r(1) if_True if_False simp_thms)
  qed
  show ?thesis unfolding write_check_def by (rule access_check_eq, simp, erule a, erule b)
qed

lemma read_check_eq:
  assumes "seg_ok (sregs c s)" "len \<in> {1, 2, 4, 8}"
  shows "read_check len s offset c =
    (if seg_allows False len offset (sregs c s) then Inr (get_laddr32 s offset c, touch False s c) else Inl (int_number s, c))"
proof -
  let ?r = "sregs c s"
  have a: "read_virtual_checks ?r offset (of_nat len) = (if seg_allows False len offset ?r then (True, touched False ?r) else (False, ?r))"
    if "valid ?r AND SegAccessROK = 0"
    using assms that by (intro read_checks) (auto simp: seg_ok_def)
  have b: "simple_limit_ok len offset ?r = seg_allows False len offset ?r" if f: "valid ?r AND SegAccessROK \<noteq> 0"
  proof -
    have r: "present ?r" "15 \<le> limit_scaled ?r" "seg_type ?r \<in> {0, 1, 2, 3, 10, 11, 14, 15}"
      using assms(1) f unfolding seg_ok_def by blast+
    have v: "valid ?r \<noteq> 0" using f by (intro notI) simp
    have t: "seg_type ?r \<notin> {4, 5, 6, 7}" "seg_type ?r \<notin> {8, 9, 12, 13}" using r(3) by auto
    show ?thesis by (simp only: seg_allows_def limit_test_simple [OF assms(2) r(2)] t v r(1) if_True if_False simp_thms)
  qed
  show ?thesis unfolding read_check_def by (rule access_check_eq, simp, erule a, erule b)
qed

lemma seg_ok_touched:
  assumes "seg_ok r" "seg_allows w len offset r"
  shows "seg_ok (touched w r)"
proof -
  have t: "seg_type r \<le> 15" "present r" and ok: "\<And>k. k \<in> {SegAccessROK, SegAccessWOK} \<Longrightarrow> valid r AND k \<noteq> 0 \<Longrightarrow>
      15 \<le> limit_scaled r" "valid r AND SegAccessROK \<noteq> 0 \<Longrightarrow> seg_type r \<in> {0, 1, 2, 3, 10, 11, 14, 15}"
      "valid r AND SegAccessWOK \<noteq> 0 \<Longrightarrow> seg_type r \<in> {2, 3}"
    using assms unfolding seg_ok_def seg_allows_def by blast+
  have w: "seg_type r \<notin> {4, 5, 6, 7} \<Longrightarrow> w \<Longrightarrow> seg_type r \<in> {2, 3}"
    "seg_type r \<notin> {4, 5, 6, 7} \<Longrightarrow> \<not> w \<Longrightarrow> seg_type r \<in> {0, 1, 2, 3, 10, 11, 14, 15}"
    using assms(2) t(1) unfolding seg_allows_def less_16 by auto
  have k: "SegAccessROK AND SegAccessWOK = 0" "SegAccessWOK AND SegAccessROK = 0"
    by (simp_all add: SegAccessROK_def SegAccessWOK_def)
  show ?thesis
  proof (cases "touched w r = r")
    case False
    hence m: "touched w r = r\<lparr>valid := valid r OR (if w then SegAccessROK OR SegAccessWOK else SegAccessROK)\<rparr>"
      "15 \<le> limit_scaled r" "seg_type r \<notin> {4, 5, 6, 7}"
      by (auto simp: touched_def mark_ok_def split: if_splits)
    have v: "valid (touched w r) AND SegAccessWOK \<noteq> 0 \<longleftrightarrow> valid r AND SegAccessWOK \<noteq> 0 \<or> w"
      by (simp add: m(1) or_and_nonzero k) (simp add: SegAccessROK_def SegAccessWOK_def)
    show ?thesis unfolding seg_ok_def v touched_fields using t ok(2,3) w m(2,3) by blast
  qed (use assms(1) in simp)
qed

subsection \<open>Words in memory\<close>

lemma of_bytes_word [simp]: "of_bytes_le (word_bytes_le v) = v"
  by (rule bit_word_eqI) (auto simp: of_bytes_le_def word_bytes_le_def bit_or_iff bit_push_bit_iff bit_ucast_iff bit_drop_bit_eq)

lemma access_read_word: "access_read_linear a 2 c = [phys_byte c a, phys_byte c (a + 1)]"
  by (simp add: access_read_linear_def numeral_2_eq_2)

text \<open>The A20 mask clears bit 20 or nothing, so bytes less than a megabyte apart stay apart.\<close>

definition a20_good :: "real_cpu \<Rightarrow> bool" where
  "a20_good c \<longleftrightarrow> a20 c = 0xFFFFFFFF \<or> a20 c = 0xFFEFFFFF"

lemma word_split_mask: "(z AND NOT m) + (z AND m) = z" for z m :: "'a::len word"
proof -
  have "(z AND NOT m) AND (z AND m) = 0" by (rule bit_word_eqI) (auto simp: bit_and_iff bit_not_iff)
  hence "(z AND NOT m) + (z AND m) = (z AND NOT m) OR (z AND m)" by (rule disjunctive_add_eq_or)
  also have "\<dots> = z" by (rule bit_word_eqI) (auto simp: bit_or_iff bit_and_iff bit_not_iff)
  finally show ?thesis .
qed

lemma and_power: "z AND 2 ^ n = (if bit z n then 2 ^ n else 0)" for z :: "'a::len word"
  by (rule bit_word_eqI) (auto simp: bit_and_iff bit_exp_iff)

lemma a20_apart:
  assumes "a20_good c" "x AND a20 c = y AND a20 c"
  shows "x = y \<or> x - y = 0x100000 \<or> y - x = 0x100000"
proof (cases "a20 c = 0xFFFFFFFF")
  case True
  have "0xFFFFFFFF = (- 1 :: 32 word)" by simp
  hence "z AND 0xFFFFFFFF = z" for z :: "32 word" by (simp only: and.right_neutral)
  thus ?thesis using assms(2) True by simp
next
  case False
  hence m: "a20 c = NOT 0x100000" using assms(1) by (simp add: a20_good_def)
  note split = word_split_mask [of _ "0x100000 :: 32 word"]
  have two: "z AND 0x100000 = 0 \<or> z AND 0x100000 = 0x100000" for z :: "32 word"
    using and_power [of z 20] by (cases "bit z 20") simp_all
  obtain p where p: "x AND NOT 0x100000 = p" "y AND NOT 0x100000 = p" using assms(2) unfolding m by metis
  have "x = p + (x AND 0x100000)" "y = p + (y AND 0x100000)" using split [of x] split [of y] p by metis+
  thus ?thesis using two [of x] two [of y] by (metis add.right_neutral add_diff_cancel_left')
qed

subsection \<open>The real-mode stack\<close>

text \<open>A stack segment as the machine starts with: writable, 64K, 16-bit stack pointer.\<close>

definition real_stack :: "real_cpu \<Rightarrow> bool" where
  "real_stack c \<longleftrightarrow> seg_ok (sregs c SS) \<and> valid (sregs c SS) \<noteq> 0 \<and> present (sregs c SS) \<and>
     seg_type (sregs c SS) \<in> {2, 3} \<and> 0xFFFF \<le> limit_scaled (sregs c SS) \<and> \<not> d_b (sregs c SS) \<and> a20_good c"

definition stack_byte :: "16 word \<Rightarrow> real_cpu \<Rightarrow> 8 word" where
  "stack_byte off c = phys_byte c (get_laddr32 SS (ucast off) c)"

definition stack_word :: "16 word \<Rightarrow> real_cpu \<Rightarrow> 16 word" where
  "stack_word off c = of_bytes_le [stack_byte off c, stack_byte (off + 1) c]"

definition store_stack :: "16 word \<Rightarrow> 16 word \<Rightarrow> real_cpu \<Rightarrow> real_cpu" where
  "store_stack off v c = access_write_linear (get_laddr32 SS (ucast off) c) (word_bytes_le v) c"

lemma store_stack_memory:
  "store_stack off v c = c\<lparr>memory := memory (store_stack off v c)\<rparr>"
  by (simp add: store_stack_def word_bytes_le_def)

lemma store_stack_fields [simp]:
  "core (store_stack off v c) = core c" "sregs (store_stack off v c) = sregs c" "a20 (store_stack off v c) = a20 c"
  "idtr_base (store_stack off v c) = idtr_base c" "idtr_limit (store_stack off v c) = idtr_limit c"
  "dr6 (store_stack off v c) = dr6 c" "dr7 (store_stack off v c) = dr7 c" "prev_rip (store_stack off v c) = prev_rip c"
  "prev_rsp (store_stack off v c) = prev_rsp c" "speculative_rsp (store_stack off v c) = speculative_rsp c"
  "inhibit_mask (store_stack off v c) = inhibit_mask c" "async_event (store_stack off v c) = async_event c"
  "debug_trap (store_stack off v c) = debug_trap c" "EXT (store_stack off v c) = EXT c" "errorno (store_stack off v c) = errorno c"
  "curr_exception (store_stack off v c) = curr_exception c" "save_cs (store_stack off v c) = save_cs c"
  "save_ss (store_stack off v c) = save_ss c" "save_eip (store_stack off v c) = save_eip c"
  "save_esp (store_stack off v c) = save_esp c" "pending_NMI (store_stack off v c) = pending_NMI c"
  "disable_NMI (store_stack off v c) = disable_NMI c"
  by (simp_all add: store_stack_def word_bytes_le_def)

lemma laddr_store [simp]: "get_laddr32 s x (store_stack off v c) = get_laddr32 s x c"
  by (simp add: get_laddr32_def)

lemma unat_ucast_16_32 [simp]: "unat (ucast (x :: 16 word) :: 32 word) = unat x"
  by (simp add: unsigned_ucast_eq take_bit_nat_eq_self order.strict_trans [OF unsigned_less])

lemma ucast_succ: "off \<noteq> 0xFFFF \<Longrightarrow> ucast (off + 1) = (ucast off + 1 :: 32 word)" for off :: "16 word"
proof -
  assume o: "off \<noteq> 0xFFFF"
  have "1 + off \<noteq> 0"
  proof
    assume "1 + off = 0"
    hence "off = - 1" by (simp only: eq_neg_iff_add_eq_0 add.commute)
    thus False using o by simp
  qed
  hence s: "unat (off + 1) = unat off + 1" by (simp add: unatSuc add.commute)
  have "unat off < 65536" using unsigned_less [of off] by simp
  hence "unat (ucast off + 1 :: 32 word) = unat off + 1" by (simp add: unat_word_ariths(1))
  thus ?thesis by (simp only: word_unat_eq_iff unat_ucast_16_32 s)
qed

lemma stack_apart:
  fixes x y :: "16 word"
  assumes "a20_good c" "x \<noteq> y"
  shows "get_laddr32 s (ucast x) c AND a20 c \<noteq> get_laddr32 s (ucast y) c AND a20 c"
proof
  let ?l = "\<lambda>x. get_laddr32 s (ucast (x :: 16 word)) c"
  have far: "ucast u - ucast w \<noteq> (0x100000 :: 32 word)" for u w :: "16 word"
  proof
    assume "ucast u - ucast w = (0x100000 :: 32 word)"
    hence "(ucast u :: 32 word) = ucast w + 0x100000" by (simp add: algebra_simps)
    hence "unat (ucast u :: 32 word) = unat (ucast w + 0x100000 :: 32 word)" by simp
    moreover have "unat u < 65536" "unat w < 65536" using unsigned_less [of u] unsigned_less [of w] by simp_all
    ultimately show False by (simp add: unat_word_ariths(1))
  qed
  assume "?l x AND a20 c = ?l y AND a20 c"
  hence "?l x = ?l y \<or> ?l x - ?l y = 0x100000 \<or> ?l y - ?l x = 0x100000" by (rule a20_apart [OF assms(1)])
  hence "(ucast x :: 32 word) = ucast y" using far [of x y] far [of y x] by (simp add: get_laddr32_def)
  hence "unat (ucast x :: 32 word) = unat (ucast y :: 32 word)" by simp
  thus False using assms(2) by (simp add: word_unat_eq_iff)
qed

lemma get_laddr32_succ: "off \<noteq> 0xFFFF \<Longrightarrow> get_laddr32 s (ucast (off :: 16 word)) c + 1 = get_laddr32 s (ucast (off + 1)) c"
  by (simp add: get_laddr32_def ucast_succ)

lemma word_not_succ: "(x :: 16 word) \<noteq> x + 1"
  by (metis add_cancel_left_right one_neq_zero)

lemma stack_byte_store:
  assumes "a20_good c" "off \<noteq> 0xFFFF"
  shows "stack_byte x (store_stack off v c) =
    (if x = off then ucast v else if x = off + 1 then ucast (drop_bit 8 v) else stack_byte x c)"
proof -
  let ?a = "\<lambda>x. get_laddr32 SS (ucast (x :: 16 word)) c AND a20 c"
  have apart: "?a x = ?a y \<longleftrightarrow> x = y" for x y using stack_apart [OF assms(1), of x y] by blast
  have m: "memory (store_stack off v c) = (memory c)(?a off := ucast v, ?a (off + 1) := ucast (drop_bit 8 v))"
    by (simp add: store_stack_def word_bytes_le_def get_laddr32_succ [OF assms(2)])
  show ?thesis using word_not_succ [of off] apart [of x off] apart [of x "off + 1"]
    by (auto simp: stack_byte_def phys_byte_def m)
qed

lemma stack_word_store:
  assumes "a20_good c" "off \<noteq> 0xFFFF"
  shows "stack_word off (store_stack off v c) = v"
    and "x \<noteq> 0xFFFF \<Longrightarrow> x \<noteq> off \<Longrightarrow> x \<noteq> off + 1 \<Longrightarrow> x + 1 \<noteq> off \<Longrightarrow> stack_word x (store_stack off v c) = stack_word x c"
  using word_not_succ [of off] of_bytes_word [of v]
  by (simp_all add: stack_word_def stack_byte_store [OF assms] word_bytes_le_def)

lemma stack_word_other [simp]:
  "stack_word x (on_core f c) = stack_word x c" "stack_word x (touch w s c) = stack_word x c"
  "store_stack x v (on_core f c) = on_core f (store_stack x v c)"
  "touch w s (on_core f c) = on_core f (touch w s c)"
  by (simp_all add: stack_word_def stack_byte_def phys_byte_def get_laddr32_def on_core_def store_stack_def word_bytes_le_def
      touch_def put_sreg_def)

lemma on_core_fields [simp]:
  "core (on_core f c) = f (core c)" "sregs (on_core f c) = sregs c" "memory (on_core f c) = memory c" "a20 (on_core f c) = a20 c"
  "idtr_base (on_core f c) = idtr_base c" "idtr_limit (on_core f c) = idtr_limit c" "dr6 (on_core f c) = dr6 c"
  "dr7 (on_core f c) = dr7 c" "prev_rip (on_core f c) = prev_rip c" "prev_rsp (on_core f c) = prev_rsp c"
  "speculative_rsp (on_core f c) = speculative_rsp c" "inhibit_mask (on_core f c) = inhibit_mask c"
  "async_event (on_core f c) = async_event c" "debug_trap (on_core f c) = debug_trap c" "EXT (on_core f c) = EXT c"
  "errorno (on_core f c) = errorno c" "curr_exception (on_core f c) = curr_exception c" "save_cs (on_core f c) = save_cs c"
  "save_ss (on_core f c) = save_ss c" "save_eip (on_core f c) = save_eip c" "save_esp (on_core f c) = save_esp c"
  "pending_NMI (on_core f c) = pending_NMI c" "disable_NMI (on_core f c) = disable_NMI c"
  by (simp_all add: on_core_def)

lemma dword_mask: "(0xFFFFFFFF :: 64 word) = mask 32"
  by (simp add: mask_eq_exp_minus_1)

lemma set_views [simp]:
  "set_rx v (set_rx w r) = set_rx v r" "dword_erx (set_erx u r) = u" "set_erx u (set_erx t r) = set_erx u r"
  "set_rx (word_rx r) r = r" "set_erx (dword_erx r) r = r"
  by (rule bit_word_eqI; auto simp: view_defs dword_erx_def set_erx_def dword_mask bit_simps dest: bit_imp_le_length)+

text \<open>Accesses and the stack when the segment's cached rights hold.\<close>

lemma write_word_eq:
  "seg_ok (sregs c s) \<Longrightarrow> write_virtual_word_32 s off v c =
    (if seg_allows True 2 off (sregs c s) then Inr (access_write_linear (get_laddr32 s off c) (word_bytes_le v) (touch True s c))
     else Inl (int_number s, c))"
  by (simp add: write_virtual_word_32_def write_check_eq)

lemma read_word_eq:
  "seg_ok (sregs c s) \<Longrightarrow> read_virtual_word_32 s off c =
    (if seg_allows False 2 off (sregs c s) then Inr (of_bytes_le (access_read_linear (get_laddr32 s off c) 2 c), touch False s c)
     else Inl (int_number s, c))"
  by (simp add: read_virtual_word_32_def read_check_eq access_read_word phys_byte_def)

lemma stack_allows:
  assumes "real_stack c" "off \<noteq> 0xFFFF"
  shows "seg_allows w 2 (ucast (off :: 16 word)) (sregs c SS)"
proof -
  have "unat off < 65536" "unat off \<noteq> 65535" using unsigned_less [of off] assms(2) by (simp_all add: word_unat_eq_iff)
  hence "unat off + 2 \<le> unat (limit_scaled (sregs c SS)) + 1"
    using assms(1) by (simp add: real_stack_def word_le_nat_alt)
  moreover have "seg_type (sregs c SS) \<in> {2, 3, 6, 7}" "seg_type (sregs c SS) \<notin> {8, 9, 12, 13}" "seg_type (sregs c SS) \<notin> {4, 5, 6, 7}"
    using assms(1) by (auto simp: real_stack_def)
  ultimately show ?thesis using assms(1) unfolding seg_allows_def real_stack_def by simp
qed

lemma stack_refuses:
  "limit_scaled (sregs c SS) = 0xFFFF \<Longrightarrow> seg_type (sregs c SS) \<in> {2, 3} \<Longrightarrow> \<not> seg_allows w 2 0xFFFF (sregs c SS)"
  by (auto simp: seg_allows_def)

lemma real_stack_keeps [simp]:
  "real_stack (on_core f c) = real_stack c" "real_stack (store_stack x v c) = real_stack c"
  by (simp_all add: real_stack_def a20_good_def)

lemma real_stack_touch [simp]: "real_stack c \<Longrightarrow> real_stack (touch w SS c)"
  using seg_ok_touched [OF _ stack_allows [of c 0 w]] valid_touched [of "sregs c SS" w]
  by (simp add: real_stack_def a20_good_def)

lemma push_16_real:
  assumes "real_stack c" "SP c \<noteq> 1"
  shows "push_16 v c = Inr (put_rx RSP_reg (SP c - 2) (store_stack (SP c - 2) v (touch True SS c)))"
proof -
  have "(0xFFFF + 2 :: 16 word) = 1" by simp
  hence "SP c - 2 \<noteq> 0xFFFF" using assms(2) by (metis diff_add_cancel)
  hence "seg_allows True 2 (ucast (SP c - 2)) (sregs c SS)" by (rule stack_allows [OF assms(1)])
  thus ?thesis using assms(1) by (simp add: push_16_def write_word_eq real_stack_def store_stack_def word_bytes_le_def)
qed

lemma pop_16_real:
  assumes "real_stack c" "SP c \<noteq> 0xFFFF"
  shows "pop_16 c = Inr (stack_word (SP c) c, put_rx RSP_reg (SP c + 2) (touch False SS c))"
  using stack_allows [OF assms] assms
  by (simp add: pop_16_def read_word_eq real_stack_def stack_word_def stack_byte_def access_read_word get_laddr32_succ)

text \<open>The state after a push and after a pop.\<close>

definition pushed :: "16 word \<Rightarrow> real_cpu \<Rightarrow> real_cpu" where
  "pushed v c = put_rx RSP_reg (SP c - 2) (store_stack (SP c - 2) v (touch True SS c))"

definition popped :: "real_cpu \<Rightarrow> real_cpu" where
  "popped c = put_rx RSP_reg (SP c + 2) (touch False SS c)"

lemma push_16_pushed: "real_stack c \<Longrightarrow> SP c \<noteq> 1 \<Longrightarrow> push_16 v c = Inr (pushed v c)"
  unfolding pushed_def by (rule push_16_real)

lemma pop_16_popped: "real_stack c \<Longrightarrow> SP c \<noteq> 0xFFFF \<Longrightarrow> pop_16 c = Inr (stack_word (SP c) c, popped c)"
  unfolding popped_def by (rule pop_16_real)

lemma pushed_popped_fields [simp]:
  "gen_reg (core (pushed v c)) n = (if n = RSP_reg then set_rx (SP c - 2) (gen_reg (core c) n) else gen_reg (core c) n)"
  "gen_reg (core (popped c)) n = (if n = RSP_reg then set_rx (SP c + 2) (gen_reg (core c) n) else gen_reg (core c) n)"
  "flags (core (pushed v c)) = flags (core c)" "flags (core (popped c)) = flags (core c)"
  "mem_operand (core (pushed v c)) = mem_operand (core c)" "mem_operand (core (popped c)) = mem_operand (core c)"
  "sregs (pushed v c) t = (if t = SS then touched True (sregs c SS) else sregs c t)"
  "sregs (popped c) t = (if t = SS then touched False (sregs c SS) else sregs c t)"
  "memory (popped c) = memory c" "a20 (pushed v c) = a20 c" "a20 (popped c) = a20 c"
  "idtr_base (pushed v c) = idtr_base c" "idtr_limit (pushed v c) = idtr_limit c"
  "real_stack c \<Longrightarrow> real_stack (pushed v c)" "real_stack c \<Longrightarrow> real_stack (popped c)"
  "stack_word x (popped c) = stack_word x c" "get_laddr32 s o' (pushed v c) = get_laddr32 s o' c" "get_laddr32 s o' (popped c) = get_laddr32 s o' c"
  by (simp_all add: pushed_def popped_def get_laddr32_def)

text \<open>Words of the stack that do not overlap.\<close>

definition apart :: "16 word \<Rightarrow> 16 word \<Rightarrow> bool" where
  "apart x y \<longleftrightarrow> x - y \<notin> {0, 1, - 1}"

lemma apartD: "apart x y \<Longrightarrow> x \<noteq> y \<and> x \<noteq> y + 1 \<and> x + 1 \<noteq> y"
  by (auto simp: apart_def)

lemma stack_word_pushed:
  assumes "real_stack c" "SP c \<noteq> 1"
  shows "stack_word (SP c - 2) (pushed v c) = v"
    and "x \<noteq> 0xFFFF \<Longrightarrow> apart x (SP c - 2) \<Longrightarrow> stack_word x (pushed v c) = stack_word x c"
proof -
  have "(0xFFFF + 2 :: 16 word) = 1" by simp
  hence o: "SP c - 2 \<noteq> 0xFFFF" using assms(2) by (metis diff_add_cancel)
  have a: "a20_good (touch True SS c)" using assms(1) by (simp add: real_stack_def a20_good_def)
  show "stack_word (SP c - 2) (pushed v c) = v" by (simp add: pushed_def stack_word_store(1) [OF a o])
  show "stack_word x (pushed v c) = stack_word x c" if "x \<noteq> 0xFFFF" "apart x (SP c - 2)"
    using stack_word_store(2) [OF a o that(1)] apartD [OF that(2)] by (simp add: pushed_def)
qed

text \<open>Pushing a list of words: where they lie afterwards.\<close>

definition pushed_all :: "16 word list \<Rightarrow> real_cpu \<Rightarrow> real_cpu" where
  "pushed_all vs c = foldl (\<lambda>c v. pushed v c) c vs"

definition room :: "nat \<Rightarrow> 16 word \<Rightarrow> bool" where
  "room n sp \<longleftrightarrow> n \<le> 0x7FFF \<and> (\<forall>i < n. sp - 2 * of_nat i \<noteq> 1)"

lemma pushed_all_Nil [simp]: "pushed_all [] c = c"
  by (simp add: pushed_all_def)

lemma pushed_all_snoc: "pushed_all (vs @ [v]) c = pushed v (pushed_all vs c)"
  by (simp add: pushed_all_def)

lemma pushed_all_Cons: "pushed_all (v # vs) c = pushed_all vs (pushed v c)"
  by (simp add: pushed_all_def)

lemma room_mono: "room n sp \<Longrightarrow> m \<le> n \<Longrightarrow> room m sp"
  by (auto simp: room_def)

lemma pushed_regs: "gen_reg (core (pushed v c)) = (gen_reg (core c))(RSP_reg := set_rx (SP c - 2) (gen_reg (core c) RSP_reg))"
  by (rule ext) simp

lemma pushed_all_fields:
  assumes "real_stack c"
  shows "real_stack (pushed_all vs c)" "flags (core (pushed_all vs c)) = flags (core c)"
    "mem_operand (core (pushed_all vs c)) = mem_operand (core c)"
    "gen_reg (core (pushed_all vs c)) =
       (gen_reg (core c))(RSP_reg := set_rx (SP c - 2 * of_nat (length vs)) (gen_reg (core c) RSP_reg))"
    "get_laddr32 s off (pushed_all vs c) = get_laddr32 s off c"
    "t \<noteq> SS \<Longrightarrow> sregs (pushed_all vs c) t = sregs c t"
    "\<exists>v. sregs (pushed_all vs c) SS = (sregs c SS)\<lparr>valid := v\<rparr>"
proof (induction vs rule: rev_induct)
  case (snoc v vs)
  have t: "touched w r = r\<lparr>valid := valid (touched w r)\<rparr>" for w r by (simp add: touched_def mark_ok_def)
  { case 1 show ?case using snoc(1) by (simp add: pushed_all_snoc) }
  { case 2 show ?case using snoc(2) by (simp add: pushed_all_snoc) }
  { case 3 show ?case using snoc(3) by (simp add: pushed_all_snoc) }
  { case 4 show ?case using snoc(4) by (simp add: pushed_all_snoc pushed_regs algebra_simps fun_eq_iff) }
  { case 5 show ?case using snoc(5) by (simp add: pushed_all_snoc) }
  { case 6 show ?case using snoc(6) 6 by (simp add: pushed_all_snoc) }
  { case 7
    obtain x where x: "sregs (pushed_all vs c) SS = (sregs c SS)\<lparr>valid := x\<rparr>" using snoc(7) by blast
    have "sregs (pushed_all (vs @ [v]) c) SS = touched True ((sregs c SS)\<lparr>valid := x\<rparr>)" using x by (simp add: pushed_all_snoc)
    also have "\<dots> = (sregs c SS)\<lparr>valid := valid (touched True ((sregs c SS)\<lparr>valid := x\<rparr>))\<rparr>"
      by (subst t) simp
    finally show ?case by blast }
qed (use assms in \<open>auto intro: exI [of _ "valid (sregs c SS)"]\<close>)

lemma SP_pushed_all [simp]: "real_stack c \<Longrightarrow> SP (pushed_all vs c) = SP c - 2 * of_nat (length vs)"
  by (simp add: pushed_all_fields)

lemma apart_slots:
  assumes "i < n" "n \<le> 0x7FFE"
  shows "apart (sp - 2 * of_nat (Suc i)) (sp - 2 * of_nat (Suc n))"
proof -
  obtain d where d: "n = i + d" "0 < d" using assms(1) by (metis less_imp_add_positive)
  have diff: "(sp - 2 * of_nat (Suc i)) - (sp - 2 * of_nat (Suc n)) = of_nat (2 * d)" by (simp add: d algebra_simps)
  have u: "unat (of_nat (2 * d) :: 16 word) = 2 * d" 
    unfolding unat_of_nat using assms(2) d by simp
  have "unat (of_nat (2 * d) :: 16 word) \<notin> {unat (0 :: 16 word), unat (1 :: 16 word), unat (- 1 :: 16 word)}"
    unfolding u using assms(2) d by (simp add: unsigned_minus_1_eq_mask mask_eq_exp_minus_1)
  hence "of_nat (2 * d) \<noteq> (0 :: 16 word)" "of_nat (2 * d) \<noteq> (1 :: 16 word)" "of_nat (2 * d) \<noteq> (- 1 :: 16 word)" by auto
  thus ?thesis unfolding apart_def diff by simp
qed

lemma stack_word_pushed_all:
  assumes "real_stack c" "room (length vs) (SP c)" "i < length vs"
  shows "stack_word (SP c - 2 * of_nat (Suc i)) (pushed_all vs c) = vs ! i"
  using assms(2,3)
proof (induction vs rule: rev_induct)
  case (snoc v vs)
  let ?p = "pushed_all vs c"
  have r: "real_stack ?p" "SP ?p = SP c - 2 * of_nat (length vs)" using assms(1) by (simp_all add: pushed_all_fields)
  have ne: "SP ?p \<noteq> 1" using snoc.prems(1) unfolding r(2) by (simp add: room_def)
  have top: "SP ?p - 2 = SP c - 2 * of_nat (Suc (length vs))" unfolding r(2) by (simp add: algebra_simps)
  have no: "SP c - 2 * of_nat (Suc i) \<noteq> 0xFFFF"
  proof
    assume "SP c - 2 * of_nat (Suc i) = 0xFFFF"
    hence "SP c - 2 * of_nat i = 0xFFFF + 2" by (simp add: algebra_simps)
    also have "0xFFFF + 2 = (1 :: 16 word)" by simp
    finally show False using snoc.prems by (auto simp: room_def)
  qed
  show ?case
  proof (cases "i = length vs")
    case True
    thus ?thesis using stack_word_pushed(1) [OF r(1) ne, of v] unfolding top by (simp add: pushed_all_snoc)
  next
    case False
    hence i: "i < length vs" using snoc.prems(2) by simp
    have "apart (SP c - 2 * of_nat (Suc i)) (SP ?p - 2)" unfolding top
      using i snoc.prems(1) by (intro apart_slots) (simp_all add: room_def)
    hence "stack_word (SP c - 2 * of_nat (Suc i)) (pushed v ?p) = stack_word (SP c - 2 * of_nat (Suc i)) ?p"
      by (rule stack_word_pushed(2) [OF r(1) ne no])
    thus ?thesis using snoc.IH i snoc.prems(1) room_mono [of _ "SP c" "length vs"] by (simp add: pushed_all_snoc nth_append)
  qed
qed simp

lemma room_step: "room (Suc n) sp \<Longrightarrow> sp \<noteq> 1 \<and> room n (sp - 2)"
proof -
  assume r: "room (Suc n) sp"
  have "sp - 2 - 2 * of_nat i \<noteq> 1" if "i < n" for i
    using r that by (auto simp: room_def algebra_simps dest: spec [of _ "Suc i"])
  thus ?thesis using r by (auto simp: room_def dest: spec [of _ 0])
qed

text \<open>The pushes of a list of words, and the pops of so many words.\<close>

primrec push_list :: "16 word list \<Rightarrow> real_cpu \<Rightarrow> real_cpu fallible" where
  "push_list [] c = Inr c"
| "push_list (v # vs) c = and_then (push_16 v c) (push_list vs)"

lemma push_list_pushed: "real_stack c \<Longrightarrow> room (length vs) (SP c) \<Longrightarrow> push_list vs c = Inr (pushed_all vs c)"
proof (induction vs arbitrary: c)
  case (Cons v vs)
  have "SP c \<noteq> 1" "room (length vs) (SP c - 2)" using room_step [of "length vs" "SP c"] Cons.prems(2) by simp_all
  thus ?case using Cons by (simp add: push_16_pushed pushed_all_Cons)
qed simp

lemma frame_room: "room 3 sp \<longleftrightarrow> sp \<notin> {1, 3, 5}" for sp :: "16 word"
  by (auto simp: room_def numeral_3_eq_3 less_Suc_eq diff_eq_eq)

text \<open>A push and a pop bring the value back and leave the registers as they were.\<close>

lemma push_pop:
  assumes "real_stack c" "SP c \<noteq> 1"
  shows "and_then (push_16 v c) pop_16 = Inr (v, popped (pushed v c))"
    and "gen_reg (core (popped (pushed v c))) = gen_reg (core c)"
proof -
  have "(0xFFFF + 2 :: 16 word) = 1" by simp
  hence o: "SP c - 2 \<noteq> 0xFFFF" using assms(2) by (metis diff_add_cancel)
  show "and_then (push_16 v c) pop_16 = Inr (v, popped (pushed v c))"
    using assms o by (simp add: push_16_pushed pop_16_popped stack_word_pushed)
  show "gen_reg (core (popped (pushed v c))) = gen_reg (core c)" by (rule ext) simp
qed

lemma seg_allows_touched:
  "seg_allows w len off r \<Longrightarrow> seg_allows w' n x (touched w r) = seg_allows w' n x r"
  using valid_touched [of r w] by (simp add: seg_allows_def upper_limit_def)

text \<open>C13. Caching a segment's access rights changes no decision: whatever is cached, an access of 1, 2, 4 or 8 bytes goes to base plus
  offset if the segment is valid, present, of a type that permits it and holds all its bytes, and otherwise raises the stack or
  protection fault with the state unchanged. What an access caches is right, and leaves every later decision as it was.\<close>

theorem cached_rights_exact:
  assumes "seg_ok (sregs c s)" and "len \<in> {1, 2, 4, 8}"
  shows "write_check len s off c =
      (if seg_allows True len off (sregs c s) then Inr (get_laddr32 s off c, touch True s c) else Inl (int_number s, c)) \<and>
    read_check len s off c =
      (if seg_allows False len off (sregs c s) then Inr (get_laddr32 s off c, touch False s c) else Inl (int_number s, c)) \<and>
    (seg_allows w len off (sregs c s) \<longrightarrow> seg_ok (sregs (touch w s c) s) \<and>
       (\<forall>w' n x. seg_allows w' n x (sregs (touch w s c) s) = seg_allows w' n x (sregs c s)))"
  using write_check_eq [OF assms] read_check_eq [OF assms] seg_ok_touched [OF assms(1)] seg_allows_touched [of w len off "sregs c s"]
  by simp

text \<open>The segments of the machine after a reset, and a machine.\<close>

definition reset_seg :: "16 word \<Rightarrow> seg_reg" where
  "reset_seg v = \<lparr>selector = v, valid = 1, present = True, seg_type = 3, seg_base = push_bit 4 (ucast v),
     limit_scaled = 0xFFFF, d_b = False\<rparr>"

definition real_machine :: real_cpu where
  "real_machine = \<lparr>core = \<lparr>gen_reg = (\<lambda>_. 0), flags = flags0, mem_operand = 0\<rparr>, sregs = (\<lambda>_. reset_seg 0x2000),
     memory = (\<lambda>_. 0), a20 = 0xFFFFFFFF, idtr_base = 0, idtr_limit = 0xFFFF, dr6 = 0xFFFF0FF0, dr7 = 0x400,
     prev_rip = 0, prev_rsp = 0, speculative_rsp = False, inhibit_mask = 0, async_event = 0, debug_trap = 0,
     EXT = False, errorno = 0, curr_exception = 0, save_cs = reset_seg 0, save_ss = reset_seg 0, save_eip = 0,
     save_esp = 0, pending_NMI = False, disable_NMI = False\<rparr>"

lemma real_machine_fields [simp]:
  "sregs real_machine s = reset_seg 0x2000" "a20 real_machine = 0xFFFFFFFF" "idtr_base real_machine = 0"
  "idtr_limit real_machine = 0xFFFF" "gen_reg (core real_machine) n = 0" "flags (core real_machine) = flags0"
  "memory real_machine a = 0" "errorno real_machine = 0" "prev_rip real_machine = 0" "speculative_rsp real_machine = False"
  "EXT real_machine = False" "inhibit_mask real_machine = 0" "debug_trap real_machine = 0" "async_event real_machine = 0"
  "pending_NMI real_machine = False" "curr_exception real_machine = 0" "disable_NMI real_machine = False"
  by (simp_all add: real_machine_def)

lemma reset_seg_fields [simp]:
  "selector (reset_seg v) = v" "valid (reset_seg v) = 1" "present (reset_seg v)" "seg_type (reset_seg v) = 3"
  "seg_base (reset_seg v) = push_bit 4 (ucast v)" "limit_scaled (reset_seg v) = 0xFFFF" "\<not> d_b (reset_seg v)"
  by (simp_all add: reset_seg_def)

lemma seg_ok_reset [simp]: "seg_ok (reset_seg v)"
  by (simp add: seg_ok_def SegAccessROK_def SegAccessWOK_def)

lemma real_stack_machine [simp]: "real_stack real_machine"
  by (simp add: real_stack_def a20_good_def)

theorem cached_rights_exact_witness:
  "write_check 2 SS 0xFFFE real_machine = Inr (0x2FFFE, touch True SS real_machine) \<and>
   write_check 2 SS 0xFFFF real_machine = Inl (12, real_machine)"
  using conjunct1 [OF cached_rights_exact [of real_machine SS 2 "0xFFFE"]]
    conjunct1 [OF cached_rights_exact [of real_machine SS 2 "0xFFFF"]]
  by (simp add: seg_allows_def get_laddr32_def int_number_def)

end
