(* ===== verification/Bochs_Except.thy ===== *)
theory Bochs_Except
  imports Bochs_Seg
begin

unbundle bit_operations_syntax

section \<open>Interrupts and exceptions in real mode\<close>

text \<open>
  Models of \<^verbatim>\<open>cpu/exception.cc\<close> the real-mode delivery of interrupts and exceptions, with double and
  triple faults, of \<^verbatim>\<open>cpu/flag_ctrl_pro.cc\<close> the writes of the flags register, of \<^verbatim>\<open>cpu/flag_ctrl.cc\<close> the
  flag instructions as they act in real mode, and of \<^verbatim>\<open>cpu/cpu.cc\<close> how the main loop executes one instruction.
  \<^verbatim>\<open>exception\<close> does not return: a fault while it delivers calls it again, so it is modelled as
  a tail call, and the \<^verbatim>\<open>longjmp\<close> at its end is \<open>Continues\<close>. The error code is not pushed in real mode and is
  left out, as are the log, the instruction prefetch and the virtual machine extensions (not configured).
\<close>

subsection \<open>The flags register\<close>

abbreviation (input) TF_bit :: nat where "TF_bit \<equiv> 8"
abbreviation (input) IF_bit :: nat where "IF_bit \<equiv> 9"
abbreviation (input) DF_bit :: nat where "DF_bit \<equiv> 10"
abbreviation (input) RF_bit :: nat where "RF_bit \<equiv> 16"
abbreviation (input) AC_bit :: nat where "AC_bit \<equiv> 18"

definition eflag :: "nat \<Rightarrow> real_cpu \<Rightarrow> bool" where
  "eflag n c = bit (eflags (flags (core c))) n"

definition map_eflags :: "(32 word \<Rightarrow> 32 word) \<Rightarrow> real_cpu \<Rightarrow> real_cpu" where
  "map_eflags f = on_core (upd_flags (\<lambda>S. S\<lparr>eflags := f (eflags S)\<rparr>))"

definition clear_eflag :: "nat \<Rightarrow> real_cpu \<Rightarrow> real_cpu" where
  "clear_eflag n = map_eflags (\<lambda>e. e AND NOT (push_bit n 1))"

definition assert_eflag :: "nat \<Rightarrow> real_cpu \<Rightarrow> real_cpu" where
  "assert_eflag n = map_eflags (\<lambda>e. e OR push_bit n 1)"

text \<open>RF, IF and TF make the main loop look for events.\<close>

definition assert_event_flag :: "nat \<Rightarrow> real_cpu \<Rightarrow> real_cpu" where
  "assert_event_flag n c = assert_eflag n (c\<lparr>async_event := 1\<rparr>)"

definition read_eflags :: "real_cpu \<Rightarrow> 32 word \<times> real_cpu" where
  "read_eflags c = (let S = force_flags (flags (core c)) in (eflags S, on_core (upd_flags (\<lambda>_. S)) c))"

definition setEFlags :: "32 word \<Rightarrow> real_cpu \<Rightarrow> real_cpu" where
  "setEFlags val c =
     (let c = (if val AND 0x10100 \<noteq> 0 then c\<lparr>async_event := 1\<rparr> else c);
          c = (if bit val IF_bit \<and> \<not> eflag IF_bit c then c\<lparr>async_event := 1\<rparr> else c)
      in on_core (upd_flags (\<lambda>S. S\<lparr>eflags := val, lf_status := 0\<rparr>)) c)"

definition writeEFlags :: "32 word \<Rightarrow> 32 word \<Rightarrow> real_cpu \<Rightarrow> real_cpu" where
  "writeEFlags fl changeMask c =
     (let changeMask = changeMask AND (0x00037FD5 OR 0x00200000 OR 0x00040000 OR 0x00100000 OR 0x00080000)
      in setEFlags ((eflags (flags (core c)) AND NOT changeMask) OR (fl AND changeMask)) c)"

definition write_flags :: "16 word \<Rightarrow> bool \<Rightarrow> bool \<Rightarrow> real_cpu \<Rightarrow> real_cpu" where
  "write_flags fl change_IOPL change_IF c =
     (let m = 0x0DD5 OR 0x4000; m = (if change_IOPL then m OR 0x3000 else m); m = (if change_IF then m OR 0x200 else m)
      in writeEFlags (ucast fl) m c)"

subsection \<open>Delivery\<close>

definition real_mode_int :: "8 word \<Rightarrow> real_cpu \<Rightarrow> real_cpu fallible" where
  "real_mode_int vector c =
     (if unat vector * 4 + 3 > unat (idtr_limit c) then Inl (13, c)
      else
        (let (fl, c) = read_eflags c in
         and_then (push_16 (ucast fl) c) (\<lambda>c.
         and_then (push_16 (selector (sregs c CS)) c) (\<lambda>c.
         and_then (push_16 (IP c) c) (\<lambda>c.
           let new_ip = system_read_word (idtr_base c + 4 * ucast vector) c in
           if ucast new_ip > limit_scaled (sregs c CS) then Inl (13, c)
           else
             (let cs_selector = system_read_word (idtr_base c + 4 * ucast vector + 2) c;
                  c = load_seg_reg CS cs_selector c;
                  c = put_erx RIP_reg (ucast new_ip) c
              in Inr (clear_eflag RF_bit (clear_eflag AC_bit (clear_eflag TF_bit (clear_eflag IF_bit c))))))))))"

text \<open>The kind of the interrupt only matters outside real mode.\<close>

definition interrupt :: "8 word \<Rightarrow> real_cpu \<Rightarrow> real_cpu fallible" where
  "interrupt vector c =
     real_mode_int vector (c\<lparr>debug_trap := 0, inhibit_mask := 0, save_cs := sregs c CS, save_ss := sregs c SS,
       save_eip := rrx RIP_reg c, save_esp := rrx RSP_reg c\<rparr>)"

subsection \<open>Exceptions\<close>

abbreviation (input) ET_BENIGN :: nat where "ET_BENIGN \<equiv> 0"
abbreviation (input) ET_CONTRIBUTORY :: nat where "ET_CONTRIBUTORY \<equiv> 1"
abbreviation (input) ET_PAGE_FAULT :: nat where "ET_PAGE_FAULT \<equiv> 2"
abbreviation (input) ET_DOUBLE_FAULT :: nat where "ET_DOUBLE_FAULT \<equiv> 10"

datatype exc_class = TRAP | FAULT | ABORT

text \<open>Type and class of exceptions 0 to 19; a vector above that is a panic.\<close>

definition exceptions_info :: "(nat \<times> exc_class) list" where
  "exceptions_info =
     [(ET_CONTRIBUTORY, FAULT), (ET_BENIGN, FAULT), (ET_BENIGN, FAULT), (ET_BENIGN, TRAP), (ET_BENIGN, TRAP),
      (ET_BENIGN, FAULT), (ET_BENIGN, FAULT), (ET_BENIGN, FAULT), (ET_DOUBLE_FAULT, ABORT), (ET_BENIGN, ABORT),
      (ET_CONTRIBUTORY, FAULT), (ET_CONTRIBUTORY, FAULT), (ET_CONTRIBUTORY, FAULT), (ET_CONTRIBUTORY, FAULT),
      (ET_PAGE_FAULT, FAULT), (ET_BENIGN, FAULT), (ET_BENIGN, FAULT), (ET_BENIGN, FAULT), (ET_BENIGN, ABORT),
      (ET_BENIGN, FAULT)]"

definition exception_type :: "nat \<Rightarrow> nat" where
  "exception_type v = (if v < 20 then fst (exceptions_info ! v) else 0)"

definition exception_class :: "nat \<Rightarrow> exc_class" where
  "exception_class v = (if v < 20 then snd (exceptions_info ! v) else FAULT)"

definition is_exception_OK :: "nat \<Rightarrow> nat \<Rightarrow> bool" where
  "is_exception_OK a b = ([[True, True, True], [True, False, True], [True, False, False]] ! a ! b)"

text \<open>How a call of \<^verbatim>\<open>exception\<close> ends: in the main loop, or in a reset or shutdown.\<close>

datatype cpu_exit = Continues real_cpu | TripleFault real_cpu

definition restore_saved :: "real_cpu \<Rightarrow> real_cpu" where
  "restore_saved c = put_rrx RSP_reg (save_esp c) (put_rrx RIP_reg (save_eip c)
     (put_sreg SS (save_ss c) (put_sreg CS (save_cs c) c)))"

text \<open>Faults go back to the start of the instruction and to the stack pointer it had.\<close>

definition back_up :: "nat \<Rightarrow> real_cpu \<Rightarrow> real_cpu" where
  "back_up v c =
     (if exception_class v = FAULT then
        (let c = put_rrx RIP_reg (prev_rip c) c;
             c = (if speculative_rsp c then put_rrx RSP_reg (prev_rsp c) c else c)
         in if v \<noteq> 1 then assert_event_flag RF_bit c else c)
      else c)"

definition debug_registers :: "nat \<Rightarrow> real_cpu \<Rightarrow> real_cpu" where
  "debug_registers v c =
     (if v = 1 then c\<lparr>dr6 := (dr6 c AND 0xFFFF0FF0) OR (debug_trap c AND 0x0000E00F), dr7 := dr7 c AND NOT 0x2000\<rparr> else c)"

subsection \<open>What a step may change\<close>

text \<open>The memory accesses of a step change registers, segment registers and memory, and nothing of the state that exceptions
  keep.\<close>

definition keeps_rest :: "real_cpu \<Rightarrow> real_cpu \<Rightarrow> bool" where
  "keeps_rest c c' \<longleftrightarrow> c' = c\<lparr>core := core c', sregs := sregs c', memory := memory c'\<rparr>"

lemma keeps_rest_refl [simp, intro]: "keeps_rest c c"
  by (simp add: keeps_rest_def)

lemma keeps_rest_trans [trans]: "keeps_rest a b \<Longrightarrow> keeps_rest b c \<Longrightarrow> keeps_rest a c"
  unfolding keeps_rest_def
  by (metis (no_types, lifting) real_cpu.surjective real_cpu.update_convs(1,2,3))

lemma keeps_rest_basic [simp]:
  "keeps_rest c (on_core f c)" "keeps_rest c (put_sreg s r c)" "keeps_rest c (touch w s c)" "keeps_rest c (store_stack x v c)"
  by (simp_all add: keeps_rest_def on_core_def put_sreg_def touch_def store_stack_def word_bytes_le_def)

lemma keeps_rest_write: "keeps_rest c (access_write_linear a bs c)"
proof (induction bs arbitrary: a c)
  case (Cons b bs)
  have "keeps_rest c (c\<lparr>memory := (memory c)(a AND a20 c := b)\<rparr>)" by (simp add: keeps_rest_def)
  thus ?case using Cons keeps_rest_trans by (simp only: access_write_linear.simps)
qed simp

lemma keeps_restD:
  assumes "keeps_rest c c'"
  shows "errorno c' = errorno c" "curr_exception c' = curr_exception c" "EXT c' = EXT c" "prev_rip c' = prev_rip c"
    "prev_rsp c' = prev_rsp c" "speculative_rsp c' = speculative_rsp c" "a20 c' = a20 c" "idtr_base c' = idtr_base c"
    "idtr_limit c' = idtr_limit c" "save_cs c' = save_cs c" "save_ss c' = save_ss c" "save_eip c' = save_eip c"
    "save_esp c' = save_esp c" "inhibit_mask c' = inhibit_mask c" "async_event c' = async_event c" "debug_trap c' = debug_trap c"
    "pending_NMI c' = pending_NMI c" "disable_NMI c' = disable_NMI c" "dr6 c' = dr6 c" "dr7 c' = dr7 c"
  by (subst assms [unfolded keeps_rest_def], simp)+

lemma access_check_keeps:
  "access_check checks right len s off c = Inr (a, c') \<Longrightarrow> keeps_rest c c'"
  "access_check checks right len s off c = Inl (v, c') \<Longrightarrow> keeps_rest c c'"
  by (auto simp: access_check_def Let_def split: if_splits prod.splits)

lemma write_word_keeps:
  "write_virtual_word_32 s off v c = Inr c' \<Longrightarrow> keeps_rest c c'"
  "write_virtual_word_32 s off v c = Inl (n, c') \<Longrightarrow> keeps_rest c c'"
  unfolding write_virtual_word_32_def write_check_def and_then_Inr and_then_Inl
  by (auto dest!: access_check_keeps intro: keeps_rest_trans keeps_rest_write)

lemma read_word_keeps:
  "read_virtual_word_32 s off c = Inr (v, c') \<Longrightarrow> keeps_rest c c'"
  "read_virtual_word_32 s off c = Inl (n, c') \<Longrightarrow> keeps_rest c c'"
  unfolding read_virtual_word_32_def read_check_def and_then_Inr and_then_Inl
  by (auto dest!: access_check_keeps)

lemma push_16_keeps:
  "push_16 v c = Inr c' \<Longrightarrow> keeps_rest c c'"
  "push_16 v c = Inl (n, c') \<Longrightarrow> keeps_rest c c'"
  unfolding push_16_def
  by (auto simp: and_then_Inr and_then_Inl dest!: write_word_keeps intro: keeps_rest_trans split: if_splits)

lemma pop_16_keeps:
  "pop_16 c = Inr (v, c') \<Longrightarrow> keeps_rest c c'"
  "pop_16 c = Inl (n, c') \<Longrightarrow> keeps_rest c c'"
  unfolding pop_16_def
  by (auto simp: and_then_Inr and_then_Inl dest!: read_word_keeps intro: keeps_rest_trans split: if_splits)

lemma real_mode_int_fault:
  assumes "real_mode_int vector c = Inl (n, c')"
  shows "keeps_rest c c'"
proof (cases "unat vector * 4 + 3 > unat (idtr_limit c)")
  case False
  define S where "S = force_flags (flags (core c))"
  let ?c0 = "on_core (upd_flags (\<lambda>_. S)) c"
  have "keeps_rest ?c0 c'"
    using assms False unfolding real_mode_int_def read_eflags_def Let_def S_def [symmetric]
    by (auto simp: and_then_Inl dest!: push_16_keeps split: if_splits intro: keeps_rest_trans)
  thus ?thesis using keeps_rest_trans [of c ?c0] by simp
qed (use assms in \<open>simp add: real_mode_int_def\<close>)

lemma interrupt_fault:
  assumes "interrupt vector c = Inl (n, c')"
  shows "errorno c' = errorno c \<and> curr_exception c' = curr_exception c"
  using keeps_restD [OF real_mode_int_fault [OF assms [unfolded interrupt_def]]] by simp

subsection \<open>Exceptions, continued\<close>

text \<open>A second fault while the first is delivered is delivered in turn, or as a double fault when the two do not go
  together; the fourth, or one during a double fault, is a triple fault.\<close>

function exception :: "nat \<Rightarrow> real_cpu \<Rightarrow> cpu_exit" where
  "exception v c =
     (let again = (errorno c > 0); c1 = (if again then restore_saved c else c) in
      if again \<and> (errorno c > 2 \<or> curr_exception c = ET_DOUBLE_FAULT) then TripleFault c1
      else
        (let c2 = (debug_registers v (back_up v c1))\<lparr>EXT := True\<rparr> in
         if again \<and> exception_type v \<noteq> ET_DOUBLE_FAULT \<and> \<not> is_exception_OK (curr_exception c) (exception_type v)
         then exception 8 c2
         else (case interrupt (word_of_nat v) (c2\<lparr>curr_exception := exception_type v, errorno := errorno c + 1\<rparr>) of
                 Inl (v', c3) \<Rightarrow> exception v' c3
               | Inr c3 \<Rightarrow> Continues (c3\<lparr>errorno := 0\<rparr>))))"
  by pat_completeness auto

lemma restore_saved_fields [simp]:
  "errorno (restore_saved c) = errorno c" "curr_exception (restore_saved c) = curr_exception c"
  by (simp_all add: restore_saved_def put_sreg_def)

lemma map_eflags_fields [simp]:
  "sregs (map_eflags f c) = sregs c" "memory (map_eflags f c) = memory c" "errorno (map_eflags f c) = errorno c"
  "curr_exception (map_eflags f c) = curr_exception c" "speculative_rsp (map_eflags f c) = speculative_rsp c"
  "prev_rsp (map_eflags f c) = prev_rsp c" "prev_rip (map_eflags f c) = prev_rip c" "a20 (map_eflags f c) = a20 c"
  "gen_reg (core (map_eflags f c)) = gen_reg (core c)" "idtr_base (map_eflags f c) = idtr_base c"
  "idtr_limit (map_eflags f c) = idtr_limit c" "debug_trap (map_eflags f c) = debug_trap c" "EXT (map_eflags f c) = EXT c"
  "eflags (flags (core (map_eflags f c))) = f (eflags (flags (core c)))"
  "lf_status (flags (core (map_eflags f c))) = lf_status (flags (core c))"
  "oszapc (flags (core (map_eflags f c))) = oszapc (flags (core c))"
  by (simp_all add: map_eflags_def)

lemma back_up_fields [simp]:
  "errorno (back_up v c) = errorno c" "curr_exception (back_up v c) = curr_exception c"
  by (simp_all add: back_up_def assert_event_flag_def assert_eflag_def Let_def)

lemma debug_registers_fields [simp]:
  "errorno (debug_registers v c) = errorno c" "curr_exception (debug_registers v c) = curr_exception c"
  by (simp_all add: debug_registers_def)

text \<open>The measure of the attempts that are left.\<close>

definition attempts :: "nat \<times> real_cpu \<Rightarrow> nat" where
  "attempts = (\<lambda>(v, c). if 0 < errorno c \<and> curr_exception c = ET_DOUBLE_FAULT then 0
     else 2 * (4 - errorno c) + (if v = 8 then 0 else 1))"

lemma exception_type_8: "exception_type v = ET_DOUBLE_FAULT \<longleftrightarrow> v = 8"
proof -
  have "\<forall>v < 20. fst (exceptions_info ! v) = ET_DOUBLE_FAULT \<longleftrightarrow> v = 8"
    by (simp add: exceptions_info_def numeral_eq_Suc All_less_Suc)
  thus ?thesis by (auto simp: exception_type_def)
qed

termination exception
proof (relation "measure attempts", simp)
  fix v c again c1 c2
  assume "again = (errorno c > 0)" "c1 = (if again then restore_saved c else c)"
    "\<not> (again \<and> (errorno c > 2 \<or> curr_exception c = ET_DOUBLE_FAULT))"
    "c2 = (debug_registers v (back_up v c1))\<lparr>EXT := True\<rparr>"
    "again \<and> exception_type v \<noteq> ET_DOUBLE_FAULT \<and> \<not> is_exception_OK (curr_exception c) (exception_type v)"
  thus "((8, c2), v, c) \<in> measure attempts"
    using exception_type_8 [of v] by (simp add: attempts_def)
next
  fix v c again c1 c2 p v' c3
  assume h: "again = (errorno c > 0)" "c1 = (if again then restore_saved c else c)"
    "\<not> (again \<and> (errorno c > 2 \<or> curr_exception c = ET_DOUBLE_FAULT))"
    "interrupt (word_of_nat v) (c2\<lparr>curr_exception := exception_type v, errorno := errorno c + 1\<rparr>) = Inl p" "(v', c3) = p"
  let ?c = "c2\<lparr>curr_exception := exception_type v, errorno := errorno c + 1\<rparr>"
  have "errorno c3 = errorno ?c \<and> curr_exception c3 = curr_exception ?c"
    by (rule interrupt_fault [of "word_of_nat v" _ v']) (use h(4,5) in simp)
  hence "errorno c3 = errorno c + 1" "curr_exception c3 = exception_type v" by simp_all
  thus "((v', c3), v, c) \<in> measure attempts"
    using h(1,3) exception_type_8 [of v] by (cases "v = 8") (auto simp: attempts_def)
qed

declare exception.simps [simp del]

subsection \<open>The main loop\<close>

text \<open>After an exception the loop starts over; after an instruction the new instruction pointer is committed.\<close>

definition loop_entry :: "real_cpu \<Rightarrow> real_cpu" where
  "loop_entry c = c\<lparr>prev_rip := rrx RIP_reg c, speculative_rsp := False, EXT := False, errorno := 0\<rparr>"

definition execute1 :: "(instruction \<Rightarrow> real_cpu \<Rightarrow> real_cpu fallible) \<Rightarrow> instruction \<Rightarrow> real_cpu \<Rightarrow> cpu_exit" where
  "execute1 exec i c =
     (case exec i (put_rrx RIP_reg (rrx RIP_reg c + of_nat (ilen i)) c) of
        Inr c' \<Rightarrow> Continues (c'\<lparr>prev_rip := rrx RIP_reg c'\<rparr>)
      | Inl (v, c') \<Rightarrow> (case exception v c' of
            Continues c'' \<Rightarrow> Continues (loop_entry c'')
          | TripleFault c'' \<Rightarrow> TripleFault c''))"

subsection \<open>Flag instructions\<close>

definition CLI :: "instruction \<Rightarrow> real_cpu \<Rightarrow> real_cpu fallible" where
  "CLI i c = Inr (clear_eflag IF_bit c)"

definition BX_INHIBIT_INTERRUPTS :: "32 word" where "BX_INHIBIT_INTERRUPTS = 1"
definition BX_INHIBIT_DEBUG :: "32 word" where "BX_INHIBIT_DEBUG = 2"
definition BX_INHIBIT_INTERRUPTS_SHADOW :: "32 word" where "BX_INHIBIT_INTERRUPTS_SHADOW = 4"
definition BX_INHIBIT_DEBUG_SHADOW :: "32 word" where "BX_INHIBIT_DEBUG_SHADOW = 8"

definition STI :: "instruction \<Rightarrow> real_cpu \<Rightarrow> real_cpu fallible" where
  "STI i c =
     (if \<not> eflag IF_bit c
      then Inr ((assert_event_flag IF_bit c)\<lparr>inhibit_mask := inhibit_mask c OR BX_INHIBIT_INTERRUPTS, async_event := 1\<rparr>)
      else Inr c)"

definition CLD :: "instruction \<Rightarrow> real_cpu \<Rightarrow> real_cpu fallible" where
  "CLD i c = Inr (clear_eflag DF_bit c)"

definition STD :: "instruction \<Rightarrow> real_cpu \<Rightarrow> real_cpu fallible" where
  "STD i c = Inr (assert_eflag DF_bit c)"

definition PUSHF_Fw :: "instruction \<Rightarrow> real_cpu \<Rightarrow> real_cpu fallible" where
  "PUSHF_Fw i c = (let (fl, c) = read_eflags c in push_16 (ucast fl) c)"

definition POPF_Fw :: "instruction \<Rightarrow> real_cpu \<Rightarrow> real_cpu fallible" where
  "POPF_Fw i c =
     and_then (pop_16 (RSP_SPECULATIVE c)) (\<lambda>(flags16, c).
       let changeMask = EFlagsOSZAPCMask OR 0x100 OR 0x400 OR 0x4000; changeMask = changeMask OR (0x3000 OR 0x200)
       in Inr (RSP_COMMIT (writeEFlags (ucast flags16) changeMask c)))"

definition PUSHF_Fd :: "instruction \<Rightarrow> real_cpu \<Rightarrow> real_cpu fallible" where
  "PUSHF_Fd i c = (let (fl, c) = read_eflags c in push_32 (fl AND 0x00FCFFFF) c)"

definition POPF_Fd :: "instruction \<Rightarrow> real_cpu \<Rightarrow> real_cpu fallible" where
  "POPF_Fd i c =
     and_then (pop_32 (RSP_SPECULATIVE c)) (\<lambda>(flags32, c).
       let changeMask = EFlagsOSZAPCMask OR 0x100 OR 0x400 OR 0x4000 OR 0x10000; changeMask = changeMask OR (0x200000 OR 0x40000);
           changeMask = changeMask OR (0x3000 OR 0x200)
       in Inr (RSP_COMMIT (writeEFlags flags32 changeMask c)))"

subsection \<open>Delivery on a working stack\<close>

declare One_nat_def [simp del]

text \<open>There is room for the frame of three words, the vector lies in the table and every offset in the code segment.\<close>

definition frame_fits :: "8 word \<Rightarrow> real_cpu \<Rightarrow> bool" where
  "frame_fits v c \<longleftrightarrow> real_stack c \<and> room 3 (SP c) \<and> unat v * 4 + 3 \<le> unat (idtr_limit c) \<and> 0xFFFF \<le> limit_scaled (sregs c CS)"

definition forced :: "real_cpu \<Rightarrow> real_cpu" where
  "forced = on_core (upd_flags force_flags)"

lemma read_eflags_forced: "read_eflags c = (eflags (force_flags (flags (core c))), forced c)"
  by (simp add: read_eflags_def forced_def Let_def on_core_def upd_flags_def)

definition frame_flags :: "real_cpu \<Rightarrow> 16 word" where
  "frame_flags c = ucast (eflags (force_flags (flags (core c))))"

definition handler_state :: "8 word \<Rightarrow> real_cpu \<Rightarrow> real_cpu" where
  "handler_state v c =
     clear_eflag RF_bit (clear_eflag AC_bit (clear_eflag TF_bit (clear_eflag IF_bit
       (put_erx RIP_reg (ucast (system_read_word (idtr_base c + 4 * ucast v) c))
         (load_seg_reg CS (system_read_word (idtr_base c + 4 * ucast v + 2) c) c)))))"

definition saving :: "real_cpu \<Rightarrow> real_cpu" where
  "saving c = c\<lparr>debug_trap := 0, inhibit_mask := 0, save_cs := sregs c CS, save_ss := sregs c SS,
     save_eip := rrx RIP_reg c, save_esp := rrx RSP_reg c\<rparr>"

definition framed :: "real_cpu \<Rightarrow> real_cpu" where
  "framed c = pushed_all [frame_flags c, selector (sregs c CS), IP c] (forced (saving c))"

lemma saving_fields [simp]:
  "core (saving c) = core c" "sregs (saving c) = sregs c" "memory (saving c) = memory c" "a20 (saving c) = a20 c"
  "idtr_base (saving c) = idtr_base c" "idtr_limit (saving c) = idtr_limit c" "errorno (saving c) = errorno c"
  "prev_rip (saving c) = prev_rip c" "prev_rsp (saving c) = prev_rsp c" "speculative_rsp (saving c) = speculative_rsp c"
  "curr_exception (saving c) = curr_exception c" "real_stack (saving c) = real_stack c" "EXT (saving c) = EXT c"
  "save_cs (saving c) = sregs c CS" "save_ss (saving c) = sregs c SS" "save_eip (saving c) = rrx RIP_reg c"
  "save_esp (saving c) = rrx RSP_reg c" "debug_trap (saving c) = 0" "inhibit_mask (saving c) = 0"
  "async_event (saving c) = async_event c" "disable_NMI (saving c) = disable_NMI c" "pending_NMI (saving c) = pending_NMI c"
  by (simp_all add: saving_def real_stack_def a20_good_def)

lemma system_word_fits: "0xFFFF \<le> limit \<Longrightarrow> \<not> limit < (ucast (x :: 16 word) :: 32 word)"
proof -
  have "unat x < 65536" using unsigned_less [of x] by simp
  thus "0xFFFF \<le> limit \<Longrightarrow> \<not> limit < (ucast x :: 32 word)" by (simp add: word_less_nat_alt word_le_nat_alt)
qed

lemma push3:
  assumes "real_stack c" "room 3 (SP c)"
  shows "and_then (push_16 a c) (\<lambda>c. and_then (push_16 (h c) c) (\<lambda>c. and_then (push_16 (g c) c) f)) =
    f (let b = h (pushed a c) in pushed_all [a, b, g (pushed b (pushed a c))] c)"
proof -
  have 1: "SP c \<noteq> 1 \<and> room 2 (SP c - 2)" using assms(2) by (intro room_step) (simp add: numeral_eq_Suc)
  have 2: "SP c - 2 \<noteq> 1 \<and> room 1 (SP c - 2 - 2)" using 1 by (intro room_step) (simp add: numeral_eq_Suc One_nat_def)
  have 3: "SP c - 2 - 2 \<noteq> 1" using 2 room_step [of 0 "SP c - 2 - 2"] by (simp add: One_nat_def)
  show ?thesis using assms(1) 1 2 3 by (simp add: push_16_pushed pushed_all_Cons Let_def)
qed

lemma interrupt_real:
  assumes "frame_fits v c"
  shows "interrupt v c = Inr (handler_state v (framed c))"
proof -
  let ?c = "forced (saving c)"
  have r: "real_stack ?c" "room 3 (SP ?c)" using assms by (simp_all add: frame_fits_def forced_def)
  have CS: "sregs (framed c) CS = sregs c CS" unfolding framed_def using pushed_all_fields(6) [OF r(1), of CS] by (simp add: forced_def)
  have i: "\<not> unat (idtr_limit (saving c)) < unat v * 4 + 3" using assms by (simp add: frame_fits_def not_less)
  have lim: "\<not> limit_scaled (sregs c CS) < ucast (x :: 16 word)" for x
    using assms by (intro system_word_fits) (simp add: frame_fits_def)
  have e: "read_eflags (saving c) = (eflags (force_flags (flags (core c))), ?c)" by (simp add: read_eflags_forced)
  have IP: "IP (pushed b (pushed a ?c)) = IP c" "selector (sregs (pushed a ?c) CS) = selector (sregs c CS)" for a b by (simp_all add: forced_def)
  show ?thesis
    unfolding interrupt_def saving_def [symmetric] real_mode_int_def if_not_P [OF i] e Let_def prod.case push3 [OF r, unfolded Let_def] IP
      frame_flags_def [symmetric] framed_def [symmetric] CS if_not_P [OF lim] handler_state_def ..
qed

subsection \<open>The frame and the handler\<close>

lemma forced_fields [simp]:
  "gen_reg (core (forced c)) = gen_reg (core c)" "flags (core (forced c)) = force_flags (flags (core c))"
  "sregs (forced c) = sregs c" "memory (forced c) = memory c" "a20 (forced c) = a20 c" "idtr_base (forced c) = idtr_base c"
  "idtr_limit (forced c) = idtr_limit c" "real_stack (forced c) = real_stack c" "keeps_rest c (forced c)"
  "mem_operand (core (forced c)) = mem_operand (core c)"
  by (simp_all add: forced_def)

lemma keeps_rest_pushed_all: "keeps_rest c (pushed_all vs c)"
proof (induction vs rule: rev_induct)
  case (snoc v vs)
  have "keeps_rest c (pushed v c)" for c unfolding pushed_def by (meson keeps_rest_trans keeps_rest_basic)
  thus ?case using snoc keeps_rest_trans by (auto simp: pushed_all_snoc)
qed simp

lemma framed_facts:
  assumes "frame_fits v c"
  shows "gen_reg (core (framed c)) = (gen_reg (core c))(RSP_reg := set_rx (SP c - 6) (gen_reg (core c) RSP_reg))"
    "flags (core (framed c)) = force_flags (flags (core c))" "mem_operand (core (framed c)) = mem_operand (core c)"
    "real_stack (framed c)" "keeps_rest (saving c) (framed c)"
    "stack_word (SP c - 2) (framed c) = frame_flags c" "stack_word (SP c - 4) (framed c) = selector (sregs c CS)"
    "stack_word (SP c - 6) (framed c) = IP c"
    "t \<noteq> SS \<Longrightarrow> sregs (framed c) t = sregs c t" "\<exists>x. sregs (framed c) SS = (sregs c SS)\<lparr>valid := x\<rparr>"
proof -
  let ?vs = "[frame_flags c, selector (sregs c CS), IP c]" and ?c = "forced (saving c)"
  have r: "real_stack ?c" and room: "room (length ?vs) (SP ?c)" using assms by (simp_all add: frame_fits_def numeral_3_eq_3 One_nat_def)
  note f = pushed_all_fields [OF r, where vs = ?vs, folded framed_def]
  note w = stack_word_pushed_all [OF r room, folded framed_def]
  show "gen_reg (core (framed c)) = (gen_reg (core c))(RSP_reg := set_rx (SP c - 6) (gen_reg (core c) RSP_reg))"
    using f(4) by simp
  show "flags (core (framed c)) = force_flags (flags (core c))" "mem_operand (core (framed c)) = mem_operand (core c)"
    "real_stack (framed c)" "t \<noteq> SS \<Longrightarrow> sregs (framed c) t = sregs c t" "\<exists>x. sregs (framed c) SS = (sregs c SS)\<lparr>valid := x\<rparr>"
    using f(1,2,3,6,7) by simp_all
  show "keeps_rest (saving c) (framed c)"
    using keeps_rest_trans [OF forced_fields(9) keeps_rest_pushed_all] by (simp add: framed_def)
  show "stack_word (SP c - 2) (framed c) = frame_flags c" "stack_word (SP c - 4) (framed c) = selector (sregs c CS)"
    "stack_word (SP c - 6) (framed c) = IP c"
    using w [of 0] w [of 1] w [of 2] by (simp_all add: One_nat_def numeral_eq_Suc)
qed

lemma stack_word_cong:
  "memory d = memory c \<Longrightarrow> a20 d = a20 c \<Longrightarrow> seg_base (sregs d SS) = seg_base (sregs c SS) \<Longrightarrow> stack_word x d = stack_word x c"
  by (simp add: stack_word_def stack_byte_def phys_byte_def get_laddr32_def)

lemma load_seg_reg_fields [simp]:
  "core (load_seg_reg s v c) = core c" "memory (load_seg_reg s v c) = memory c" "a20 (load_seg_reg s v c) = a20 c"
  "sregs (load_seg_reg s v c) t =
     (if t = s then (sregs c s)\<lparr>selector := v, valid := 1, seg_base := push_bit 4 (ucast v), present := True\<rparr> else sregs c t)"
  "keeps_rest c (load_seg_reg s v c)"
  by (simp_all add: load_seg_reg_def) (simp_all add: put_sreg_def)

lemma map_eflags_core [simp]:
  "core (map_eflags f c) = (core c)\<lparr>flags := (flags (core c))\<lparr>eflags := f (eflags (flags (core c)))\<rparr>\<rparr>"
  "keeps_rest c (map_eflags f c)"
  by (simp_all add: map_eflags_def upd_flags_def)

definition handler_eflags :: "32 word \<Rightarrow> 32 word" where
  "handler_eflags e = (((e AND NOT (push_bit IF_bit 1)) AND NOT (push_bit TF_bit 1)) AND NOT (push_bit AC_bit 1)) AND NOT (push_bit RF_bit 1)"

lemma handler_facts:
  fixes c :: real_cpu and v :: "8 word"
  defines "ip \<equiv> system_read_word (idtr_base c + 4 * ucast v) c" and "cs \<equiv> system_read_word (idtr_base c + 4 * ucast v + 2) c"
  shows "gen_reg (core (handler_state v c)) = (gen_reg (core c))(RIP_reg := set_erx (ucast ip) (gen_reg (core c) RIP_reg))"
    "flags (core (handler_state v c)) = (flags (core c))\<lparr>eflags := handler_eflags (eflags (flags (core c)))\<rparr>"
    "mem_operand (core (handler_state v c)) = mem_operand (core c)"
    "memory (handler_state v c) = memory c" "a20 (handler_state v c) = a20 c"
    "sregs (handler_state v c) CS = (sregs c CS)\<lparr>selector := cs, valid := 1, seg_base := push_bit 4 (ucast cs), present := True\<rparr>"
    "t \<noteq> CS \<Longrightarrow> sregs (handler_state v c) t = sregs c t"
    "keeps_rest c (handler_state v c)" "stack_word x (handler_state v c) = stack_word x c"
    "real_stack (handler_state v c) = real_stack c"
proof -
  show "stack_word x (handler_state v c) = stack_word x c"
    by (rule stack_word_cong) (simp_all add: handler_state_def clear_eflag_def)
  show "keeps_rest c (handler_state v c)"
    unfolding handler_state_def clear_eflag_def by (intro keeps_rest_trans [OF _ map_eflags_core(2)] keeps_rest_trans [OF _ keeps_rest_basic(1)] load_seg_reg_fields)
qed (simp_all add: handler_state_def clear_eflag_def handler_eflags_def upd_reg_def assms on_core_def real_stack_def a20_good_def fun_eq_iff)

subsection \<open>One fault, and the fault that ends it all\<close>

text \<open>The state in which a first exception is delivered.\<close>

definition faulted :: "nat \<Rightarrow> real_cpu \<Rightarrow> real_cpu" where
  "faulted v c = (debug_registers v (back_up v c))\<lparr>EXT := True, curr_exception := exception_type v, errorno := 1\<rparr>"

lemma exception_first:
  assumes "errorno c = 0" "frame_fits (word_of_nat v) (faulted v c)"
  shows "exception v c = Continues ((handler_state (word_of_nat v) (framed (faulted v c)))\<lparr>errorno := 0\<rparr>)"
proof -
  have "(debug_registers v (back_up v c))\<lparr>EXT := True, curr_exception := exception_type v, errorno := 1\<rparr> = faulted v c"
    by (simp add: faulted_def)
  thus ?thesis using assms(1) interrupt_real [OF assms(2)] by (subst exception.simps) (simp add: Let_def)
qed

text \<open>A stack pointer of 1 on a 16-bit stack of 64 KB: the first word of a frame would lie at offset 0xFFFF.\<close>

definition stack_stuck :: "real_cpu \<Rightarrow> bool" where
  "stack_stuck c \<longleftrightarrow> seg_ok (sregs c SS) \<and> seg_type (sregs c SS) \<in> {2, 3} \<and> limit_scaled (sregs c SS) = 0xFFFF \<and>
     \<not> d_b (sregs c SS) \<and> SP c = 1 \<and> \<not> speculative_rsp c"

definition stuck_again :: "real_cpu \<Rightarrow> bool" where
  "stuck_again c \<longleftrightarrow> stack_stuck c \<and> (0 < errorno c \<longrightarrow> save_ss c = sregs c SS \<and> save_esp c = rrx RSP_reg c)"

lemma ucast_minus_1: "(ucast (- 1 :: 16 word) :: 32 word) = 0xFFFF"
  by (simp add: word_unat_eq_iff unsigned_minus_1_eq_mask mask_eq_exp_minus_1)

lemma push_stuck: "stack_stuck c \<Longrightarrow> push_16 v c = Inl (12, c)"
proof -
  assume s: "stack_stuck c"
  have "\<not> seg_allows True 2 0xFFFF (sregs c SS)" using s by (intro stack_refuses) (simp_all add: stack_stuck_def)
  moreover have "(ucast (SP c - 2) :: 32 word) = 0xFFFF" using s by (simp add: stack_stuck_def ucast_minus_1)
  ultimately show ?thesis using s by (simp add: stack_stuck_def push_16_def write_word_eq int_number_def)
qed

lemma stack_stuck_keeps [simp]:
  "stack_stuck (map_eflags f c) = stack_stuck c" "stack_stuck (forced c) = stack_stuck c" "stack_stuck (saving c) = stack_stuck c"
  "stack_stuck (debug_registers v c) = stack_stuck c" "stack_stuck (c\<lparr>EXT := e\<rparr>) = stack_stuck c"
  "stack_stuck (c\<lparr>curr_exception := t, errorno := k\<rparr>) = stack_stuck c" "stack_stuck (c\<lparr>async_event := a\<rparr>) = stack_stuck c"
  by (simp_all add: stack_stuck_def saving_def forced_def debug_registers_def)

lemma interrupt_stuck:
  assumes "stack_stuck c"
  shows "\<exists>n c'. interrupt v c = Inl (n, c') \<and> stuck_again c'"
proof -
  have e: "read_eflags (saving c) = (eflags (force_flags (flags (core c))), forced (saving c))" by (simp add: read_eflags_forced)
  have p: "push_16 x (forced (saving c)) = Inl (12, forced (saving c))" for x using assms by (simp add: push_stuck)
  have "stuck_again (saving c)" "stuck_again (forced (saving c))" using assms by (simp_all add: stuck_again_def) (simp_all add: forced_def)
  thus ?thesis unfolding interrupt_def saving_def [symmetric] real_mode_int_def e Let_def prod.case p by auto
qed

lemma back_up_stuck: "stack_stuck c \<Longrightarrow> stack_stuck (back_up v c)"
proof -
  assume s: "stack_stuck c"
  have "stack_stuck (put_rrx RIP_reg (prev_rip c) c)" using s by (simp add: stack_stuck_def upd_reg_def)
  thus ?thesis using s by (simp add: back_up_def Let_def assert_event_flag_def assert_eflag_def) (simp add: stack_stuck_def)
qed

lemma kept_saved [simp]:
  "save_ss (back_up v c) = save_ss c" "save_esp (back_up v c) = save_esp c" "sregs (back_up v c) = sregs c"
  "save_ss (debug_registers v c) = save_ss c" "save_esp (debug_registers v c) = save_esp c"
  "sregs (debug_registers v c) = sregs c" "core (debug_registers v c) = core c"
  "save_ss (restore_saved c) = save_ss c" "save_esp (restore_saved c) = save_esp c"
  "sregs (restore_saved c) SS = save_ss c" "gen_reg (core (restore_saved c)) RSP_reg = save_esp c"
  by (simp_all add: back_up_def Let_def assert_event_flag_def assert_eflag_def debug_registers_def restore_saved_def map_eflags_def)
    (simp_all add: put_sreg_def)

lemma back_up_RSP: "\<not> speculative_rsp c \<Longrightarrow> gen_reg (core (back_up v c)) RSP_reg = gen_reg (core c) RSP_reg"
  by (simp add: back_up_def Let_def assert_event_flag_def assert_eflag_def)

lemma restore_stuck: "stack_stuck c \<Longrightarrow> save_ss c = sregs c SS \<Longrightarrow> save_esp c = rrx RSP_reg c \<Longrightarrow> stack_stuck (restore_saved c)"
  by (simp add: restore_saved_def stack_stuck_def upd_reg_def) (simp add: put_sreg_def)

lemma exception_stuck: "stuck_again c \<Longrightarrow> \<exists>c'. exception v c = TripleFault c'"
proof (induction v c rule: exception.induct)
  case (1 v c)
  let ?again = "errorno c > 0" and ?c1 = "if errorno c > 0 then restore_saved c else c"
  let ?c2 = "(debug_registers v (back_up v ?c1))\<lparr>EXT := True\<rparr>"
  let ?c3 = "?c2\<lparr>curr_exception := exception_type v, errorno := errorno c + 1\<rparr>"
  have c1: "stack_stuck ?c1" using 1(3) restore_stuck by (simp add: stuck_again_def)
  have c2: "stack_stuck ?c2" using back_up_stuck [OF c1] by simp
  show ?case
  proof (cases "?again \<and> (errorno c > 2 \<or> curr_exception c = ET_DOUBLE_FAULT)")
    case True
    thus ?thesis by (subst exception.simps) (simp add: Let_def)
  next
    case no: False
    show ?thesis
    proof (cases "?again \<and> exception_type v \<noteq> ET_DOUBLE_FAULT \<and> \<not> is_exception_OK (curr_exception c) (exception_type v)")
      case True
      have "stuck_again ?c2" using c2 True c1 back_up_RSP [of ?c1 v]
        by (simp add: stuck_again_def) (simp add: stack_stuck_def)
      thus ?thesis using 1(1) [OF refl refl no refl True] no True by (subst exception.simps) (simp add: Let_def)
    next
      case False
      have "stack_stuck ?c3" using c2 by simp
      then obtain n c' where i: "interrupt (word_of_nat v) ?c3 = Inl (n, c')" and s: "stuck_again c'" using interrupt_stuck by blast
      have "\<exists>d. exception n c' = TripleFault d" by (rule 1(2) [OF refl refl no refl False i refl s])
      thus ?thesis using no False i by (subst exception.simps) (simp only: Let_def if_not_P if_False sum.case prod.case)
    qed
  qed
qed



end
