(* ===== verification/Bochs_Real.thy ===== *)
theory Bochs_Real
  imports Bochs_Except
begin

unbundle bit_operations_syntax

section \<open>The 16-bit instructions in real mode\<close>

text \<open>
  Models \<^verbatim>\<open>cpu/stack16.cc\<close>, \<^verbatim>\<open>cpu/ctrl_xfer16.cc\<close>, \<^verbatim>\<open>cpu/soft_int.cc\<close>,
  \<^verbatim>\<open>cpu/data_xfer16.cc\<close> and the 16-bit far pointer loads of \<^verbatim>\<open>cpu/segment_ctrl.cc\<close>, on the segments and the
  stack of \<open>Bochs_Seg\<close> and with the delivery of \<open>Bochs_Except\<close>. An instruction is run with
  RIP already behind it. Left out are the branches for protected, virtual and long mode, the prefetch queue, the trace cache,
  the debugger and the instrumentation.
\<close>

abbreviation (input) cflag :: "flag \<Rightarrow> real_cpu \<Rightarrow> bool" where "cflag f c \<equiv> get_flag f (flags (core c))"

type_synonym executor = "instruction \<Rightarrow> real_cpu \<Rightarrow> real_cpu fallible"

subsection \<open>Stack instructions\<close>

definition PUSH_RX :: executor where
  "PUSH_RX i c = push_16 (rx (r_rm i) c) c"

definition PUSH16_CS :: executor where
  "PUSH16_CS i c = push_16 (selector (sregs c CS)) c"

definition PUSH16_DS :: executor where
  "PUSH16_DS i c = push_16 (selector (sregs c DS)) c"

definition PUSH16_ES :: executor where
  "PUSH16_ES i c = push_16 (selector (sregs c ES)) c"

definition PUSH16_FS :: executor where
  "PUSH16_FS i c = push_16 (selector (sregs c FS)) c"

definition PUSH16_GS :: executor where
  "PUSH16_GS i c = push_16 (selector (sregs c GS)) c"

definition PUSH16_SS :: executor where
  "PUSH16_SS i c = push_16 (selector (sregs c SS)) c"

definition POP16_DS :: executor where
  "POP16_DS i c = and_then (pop_16 (RSP_SPECULATIVE c)) (\<lambda>(ds, c). Inr (RSP_COMMIT (load_seg_reg DS ds c)))"

definition POP16_ES :: executor where
  "POP16_ES i c = and_then (pop_16 (RSP_SPECULATIVE c)) (\<lambda>(es, c). Inr (RSP_COMMIT (load_seg_reg ES es c)))"

definition POP16_FS :: executor where
  "POP16_FS i c = and_then (pop_16 (RSP_SPECULATIVE c)) (\<lambda>(fs, c). Inr (RSP_COMMIT (load_seg_reg FS fs c)))"

definition POP16_GS :: executor where
  "POP16_GS i c = and_then (pop_16 (RSP_SPECULATIVE c)) (\<lambda>(gs, c). Inr (RSP_COMMIT (load_seg_reg GS gs c)))"

definition inhibit_by_movss :: "real_cpu \<Rightarrow> real_cpu" where
  "inhibit_by_movss c =
     c\<lparr>inhibit_mask := inhibit_mask c OR (BX_INHIBIT_INTERRUPTS OR BX_INHIBIT_DEBUG), async_event := 1\<rparr>"

definition POP16_SS :: executor where
  "POP16_SS i c =
     and_then (pop_16 (RSP_SPECULATIVE c)) (\<lambda>(ss, c). Inr (inhibit_by_movss (RSP_COMMIT (load_seg_reg SS ss c))))"

definition POP_RX :: executor where
  "POP_RX i c = and_then (pop_16 c) (\<lambda>(v, c). Inr (put_rx (r_rm i) v c))"

text \<open>The address of the destination is computed with the stack pointer after the pop.\<close>

definition POP_EwM :: executor where
  "POP_EwM i c =
     and_then (pop_16 (RSP_SPECULATIVE c)) (\<lambda>(val16, c).
     and_then (write_virtual_word_32 (iseg i) (resolve i c) val16 c) (\<lambda>c. Inr (RSP_COMMIT c)))"

definition PUSH_Iw :: executor where
  "PUSH_Iw i c = push_16 (Iw i) c"

definition PUSH_EwM :: executor where
  "PUSH_EwM i c = and_then (read_virtual_word_32 (iseg i) (resolve i c) c) (\<lambda>(op1_16, c). push_16 op1_16 c)"

text \<open>Eight words below the stack pointer, which moves only when all are written.\<close>

primrec write_words :: "(32 word \<times> 16 word) list \<Rightarrow> real_cpu \<Rightarrow> real_cpu fallible" where
  "write_words [] c = Inr c"
| "write_words (w # ws) c = and_then (write_virtual_word_32 SS (fst w) (snd w) c) (write_words ws)"

primrec read_words :: "32 word list \<Rightarrow> real_cpu \<Rightarrow> (16 word list \<times> real_cpu) fallible" where
  "read_words [] c = Inr ([], c)"
| "read_words (a # as) c =
     and_then (read_virtual_word_32 SS a c) (\<lambda>(v, c). and_then (read_words as c) (\<lambda>(vs, c). Inr (v # vs, c)))"

definition PUSHAD16 :: executor where
  "PUSHAD16 i c =
     (let temp_ESP = ESP c; temp_SP = SP c; vs = [rx 0 c, rx 1 c, rx 2 c, rx 3 c, temp_SP, rx 5 c, rx 6 c, rx 7 c] in
      if d_b (sregs c SS) then
        and_then (write_words (zip (map (\<lambda>n. temp_ESP - n) [2, 4, 6, 8, 10, 12, 14, 16]) vs) c) (\<lambda>c.
          Inr (put_erx RSP_reg (ESP c - 16) c))
      else
        and_then (write_words (zip (map (\<lambda>n. ucast (temp_SP - n)) [2, 4, 6, 8, 10, 12, 14, 16]) vs) c) (\<lambda>c.
          Inr (put_rx RSP_reg (SP c - 16) c)))"

definition put_popped :: "16 word list \<Rightarrow> real_cpu \<Rightarrow> real_cpu" where
  "put_popped vs c = put_rx 0 (vs ! 7) (put_rx 1 (vs ! 6) (put_rx 2 (vs ! 5) (put_rx 3 (vs ! 4)
     (put_rx 5 (vs ! 2) (put_rx 6 (vs ! 1) (put_rx 7 (vs ! 0) c))))))"

definition POPAD16 :: executor where
  "POPAD16 i c =
     (if d_b (sregs c SS) then
        (let temp_ESP = ESP c in
         and_then (read_words (map (\<lambda>n. temp_ESP + n) [0, 2, 4, 6, 8, 10, 12, 14]) c) (\<lambda>(vs, c).
           Inr (put_popped vs (put_erx RSP_reg (ESP c + 16) c))))
      else
        (let temp_SP = SP c in
         and_then (read_words (map (\<lambda>n. ucast (temp_SP + n)) [0, 2, 4, 6, 8, 10, 12, 14]) c) (\<lambda>(vs, c).
           Inr (put_popped vs (put_rx RSP_reg (SP c + 16) c)))))"

text \<open>The loop of \<^verbatim>\<open>ENTER\<close> over the outer frame pointers; \<open>wide\<close> is the size of the stack.\<close>

primrec enter_levels :: "bool \<Rightarrow> nat \<Rightarrow> 32 word \<Rightarrow> real_cpu \<Rightarrow> real_cpu fallible" where
  "enter_levels wide 0 bp c = Inr c"
| "enter_levels wide (Suc n) bp c =
     (let bp = (if wide then bp - 2 else ucast (ucast bp - 2 :: 16 word)) in
      and_then (read_virtual_word_32 SS bp c) (\<lambda>(temp16, c). and_then (push_16 temp16 c) (enter_levels wide n bp)))"

definition ENTER16_IwIb :: executor where
  "ENTER16_IwIb i c =
     (let imm16 = Iw i; level = unat (Ib2 i AND 0x1F); wide = d_b (sregs c SS) in
      and_then (push_16 (rx 5 c) (RSP_SPECULATIVE c)) (\<lambda>c.
        let frame_ptr16 = SP c; bp = (if wide then erx 5 c else ucast (rx 5 c)) in
        and_then (if level > 0 then and_then (enter_levels wide (level - 1) bp c) (push_16 frame_ptr16) else Inr c) (\<lambda>c.
          let c = (if wide then put_erx RSP_reg (ESP c - ucast imm16) c else put_rx RSP_reg (SP c - imm16) c) in
          and_then (read_RMW_virtual_word_32 SS (if wide then ESP c else ucast (SP c)) c) (\<lambda>(_, _, c).
            Inr (RSP_COMMIT (put_rx 5 frame_ptr16 c))))))"

definition LEAVE16 :: executor where
  "LEAVE16 i c =
     (if d_b (sregs c SS) then
        and_then (read_virtual_word_32 SS (erx 5 c) c) (\<lambda>(value16, c).
          Inr (put_rx 5 value16 (put_erx RSP_reg (erx 5 c + 2) c)))
      else
        and_then (read_virtual_word_32 SS (ucast (rx 5 c)) c) (\<lambda>(value16, c).
          Inr (put_rx 5 value16 (put_rx RSP_reg (rx 5 c + 2) c))))"

subsection \<open>Jumps, calls and returns\<close>

definition BX_ASYNC_EVENT_STOP_TRACE :: "32 word" where "BX_ASYNC_EVENT_STOP_TRACE = 0x80000000"

definition beyond_CS :: "16 word \<Rightarrow> real_cpu \<Rightarrow> bool" where
  "beyond_CS ip c \<longleftrightarrow> ucast ip > limit_scaled (sregs c CS)"

text \<open>The trace cache is configured, so a branch also ends the trace.\<close>

definition branch_near16 :: "16 word \<Rightarrow> real_cpu \<Rightarrow> real_cpu fallible" where
  "branch_near16 new_IP c =
     (if beyond_CS new_IP c then Inl (13, c)
      else Inr ((put_erx RIP_reg (ucast new_IP) c)\<lparr>async_event := async_event c OR BX_ASYNC_EVENT_STOP_TRACE\<rparr>))"

definition RETnear16_Iw :: executor where
  "RETnear16_Iw i c =
     and_then (pop_16 (RSP_SPECULATIVE c)) (\<lambda>(return_IP, c).
       if beyond_CS return_IP c then Inl (13, c)
       else
         (let c = put_erx RIP_reg (ucast return_IP) c; imm16 = Iw i;
              c = (if d_b (sregs c SS) then put_erx RSP_reg (ESP c + ucast imm16) c else put_rx RSP_reg (SP c + imm16) c)
          in Inr (RSP_COMMIT c)))"

definition RETnear16 :: executor where
  "RETnear16 i c =
     and_then (pop_16 (RSP_SPECULATIVE c)) (\<lambda>(return_IP, c).
       if beyond_CS return_IP c then Inl (13, c) else Inr (RSP_COMMIT (put_erx RIP_reg (ucast return_IP) c)))"

text \<open>The immediate of the far return is signed, which shows on a 32-bit stack.\<close>

definition RETfar16_Iw :: executor where
  "RETfar16_Iw i c =
     (let imm16 = Iw i in
      and_then (pop_16 (RSP_SPECULATIVE c)) (\<lambda>(ip, c). and_then (pop_16 c) (\<lambda>(cs_raw, c).
        if beyond_CS ip c then Inl (13, c)
        else
          (let c = put_rrx RIP_reg (ucast ip) (load_seg_reg CS cs_raw c);
               c = (if d_b (sregs c SS) then put_erx RSP_reg (ESP c + scast imm16) c else put_rx RSP_reg (SP c + imm16) c)
           in Inr (RSP_COMMIT c)))))"

definition RETfar16 :: executor where
  "RETfar16 i c =
     and_then (pop_16 (RSP_SPECULATIVE c)) (\<lambda>(ip, c). and_then (pop_16 c) (\<lambda>(cs_raw, c).
       if beyond_CS ip c then Inl (13, c)
       else Inr (RSP_COMMIT (put_erx RIP_reg (ucast ip) (load_seg_reg CS cs_raw c)))))"

definition CALL_Jw :: executor where
  "CALL_Jw i c =
     and_then (push_16 (IP c) (RSP_SPECULATIVE c)) (\<lambda>c.
     and_then (branch_near16 (IP c + Iw i) c) (\<lambda>c. Inr (RSP_COMMIT c)))"

definition far_call :: "16 word \<Rightarrow> 16 word \<Rightarrow> real_cpu \<Rightarrow> real_cpu fallible" where
  "far_call cs_raw disp16 c =
     and_then (push_16 (selector (sregs c CS)) (RSP_SPECULATIVE c)) (\<lambda>c. and_then (push_16 (IP c) c) (\<lambda>c.
       if beyond_CS disp16 c then Inl (13, c)
       else Inr (RSP_COMMIT (put_erx RIP_reg (ucast disp16) (load_seg_reg CS cs_raw c)))))"

definition CALL16_Ap :: executor where
  "CALL16_Ap i c = far_call (Iw2 i) (Iw i) c"

definition CALL_EwR :: executor where
  "CALL_EwR i c =
     (let new_IP = rx (r_rm i) c in
      and_then (push_16 (IP c) (RSP_SPECULATIVE c)) (\<lambda>c.
      and_then (branch_near16 new_IP c) (\<lambda>c. Inr (RSP_COMMIT c))))"

definition CALL16_Ep :: executor where
  "CALL16_Ep i c =
     (let eaddr = resolve i c in
      and_then (read_virtual_word_32 (iseg i) eaddr c) (\<lambda>(op1_16, c).
      and_then (read_virtual_word_32 (iseg i) (eaddr + 2) c) (\<lambda>(cs_raw, c). far_call cs_raw op1_16 c)))"

definition JMP_Jw :: executor where
  "JMP_Jw i c = branch_near16 (IP c + Iw i) c"

definition JO_Jw :: executor where
  "JO_Jw i c = (if cflag OF c then branch_near16 (IP c + Iw i) c else Inr c)"

definition JNO_Jw :: executor where
  "JNO_Jw i c = (if \<not> cflag OF c then branch_near16 (IP c + Iw i) c else Inr c)"

definition JB_Jw :: executor where
  "JB_Jw i c = (if cflag CF c then branch_near16 (IP c + Iw i) c else Inr c)"

definition JNB_Jw :: executor where
  "JNB_Jw i c = (if \<not> cflag CF c then branch_near16 (IP c + Iw i) c else Inr c)"

definition JZ_Jw :: executor where
  "JZ_Jw i c = (if cflag ZF c then branch_near16 (IP c + Iw i) c else Inr c)"

definition JNZ_Jw :: executor where
  "JNZ_Jw i c = (if \<not> cflag ZF c then branch_near16 (IP c + Iw i) c else Inr c)"

definition JBE_Jw :: executor where
  "JBE_Jw i c = (if cflag CF c \<or> cflag ZF c then branch_near16 (IP c + Iw i) c else Inr c)"

definition JNBE_Jw :: executor where
  "JNBE_Jw i c = (if \<not> (cflag CF c \<or> cflag ZF c) then branch_near16 (IP c + Iw i) c else Inr c)"

definition JS_Jw :: executor where
  "JS_Jw i c = (if cflag SF c then branch_near16 (IP c + Iw i) c else Inr c)"

definition JNS_Jw :: executor where
  "JNS_Jw i c = (if \<not> cflag SF c then branch_near16 (IP c + Iw i) c else Inr c)"

definition JP_Jw :: executor where
  "JP_Jw i c = (if cflag PF c then branch_near16 (IP c + Iw i) c else Inr c)"

definition JNP_Jw :: executor where
  "JNP_Jw i c = (if \<not> cflag PF c then branch_near16 (IP c + Iw i) c else Inr c)"

definition JL_Jw :: executor where
  "JL_Jw i c = (if cflag SF c \<noteq> cflag OF c then branch_near16 (IP c + Iw i) c else Inr c)"

definition JNL_Jw :: executor where
  "JNL_Jw i c = (if cflag SF c = cflag OF c then branch_near16 (IP c + Iw i) c else Inr c)"

definition JLE_Jw :: executor where
  "JLE_Jw i c = (if cflag ZF c \<or> cflag SF c \<noteq> cflag OF c then branch_near16 (IP c + Iw i) c else Inr c)"

definition JNLE_Jw :: executor where
  "JNLE_Jw i c = (if \<not> cflag ZF c \<and> cflag SF c = cflag OF c then branch_near16 (IP c + Iw i) c else Inr c)"

definition JMP_EwR :: executor where
  "JMP_EwR i c = branch_near16 (rx (r_rm i) c) c"

definition JMP16_Ep :: executor where
  "JMP16_Ep i c =
     (let eaddr = resolve i c in
      and_then (read_virtual_word_32 (iseg i) eaddr c) (\<lambda>(op1_16, c).
      and_then (read_virtual_word_32 (iseg i) (eaddr + 2) c) (\<lambda>(cs_raw, c).
        if beyond_CS op1_16 c then Inl (13, c)
        else Inr (put_erx RIP_reg (ucast op1_16) (load_seg_reg CS cs_raw c)))))"

definition IRET16 :: executor where
  "IRET16 i c =
     and_then (pop_16 (RSP_SPECULATIVE (c\<lparr>disable_NMI := False\<rparr>))) (\<lambda>(ip, c).
     and_then (pop_16 c) (\<lambda>(cs_raw, c).
     and_then (pop_16 c) (\<lambda>(fl, c).
       if beyond_CS ip c then Inl (13, c)
       else Inr (RSP_COMMIT (write_flags fl True True (put_rrx RIP_reg (ucast ip) (load_seg_reg CS cs_raw c)))))))"

definition JCXZ_Jb :: executor where
  "JCXZ_Jb i c =
     (let temp_ECX = (if as32L i then erx 1 c else ucast (rx 1 c)) in
      if temp_ECX = 0 then branch_near16 (IP c + Iw i) c else Inr c)"

text \<open>The counter is written only after the branch could not fault any more.\<close>

definition LOOPNE16_Jb :: executor where
  "LOOPNE16_Jb i c =
     (if as32L i then
        (let count = erx 1 c - 1 in
         and_then (if count \<noteq> 0 \<and> \<not> cflag ZF c then branch_near16 (IP c + Iw i) c else Inr c) (\<lambda>c. Inr (put_erx 1 count c)))
      else
        (let count = rx 1 c - 1 in
         and_then (if count \<noteq> 0 \<and> \<not> cflag ZF c then branch_near16 (IP c + Iw i) c else Inr c) (\<lambda>c. Inr (put_rx 1 count c))))"

definition LOOPE16_Jb :: executor where
  "LOOPE16_Jb i c =
     (if as32L i then
        (let count = erx 1 c - 1 in
         and_then (if count \<noteq> 0 \<and> cflag ZF c then branch_near16 (IP c + Iw i) c else Inr c) (\<lambda>c. Inr (put_erx 1 count c)))
      else
        (let count = rx 1 c - 1 in
         and_then (if count \<noteq> 0 \<and> cflag ZF c then branch_near16 (IP c + Iw i) c else Inr c) (\<lambda>c. Inr (put_rx 1 count c))))"

definition LOOP16_Jb :: executor where
  "LOOP16_Jb i c =
     (if as32L i then
        (let count = erx 1 c - 1 in
         and_then (if count \<noteq> 0 then branch_near16 (IP c + Iw i) c else Inr c) (\<lambda>c. Inr (put_erx 1 count c)))
      else
        (let count = rx 1 c - 1 in
         and_then (if count \<noteq> 0 then branch_near16 (IP c + Iw i) c else Inr c) (\<lambda>c. Inr (put_rx 1 count c))))"

subsection \<open>Software interrupts\<close>

definition BOUND_GwMa :: executor where
  "BOUND_GwMa i c =
     (let op1_16 = rx (r_nnn i) c; eaddr = resolve i c in
      and_then (read_virtual_word_32 (iseg i) eaddr c) (\<lambda>(bound_min, c).
      and_then (read_virtual_word_32 (iseg i) (eaddr + 2) c) (\<lambda>(bound_max, c).
        if sint op1_16 < sint bound_min \<or> sint op1_16 > sint bound_max then Inl (5, c) else Inr c)))"

definition BOUND_GdMa :: executor where
  "BOUND_GdMa i c =
     (let op1_32 = erx (r_nnn i) c; eaddr = resolve i c in
      and_then (read_virtual_dword_32 (iseg i) eaddr c) (\<lambda>(bound_min, c).
      and_then (read_virtual_dword_32 (iseg i) (eaddr + 4) c) (\<lambda>(bound_max, c).
        if sint op1_32 < sint bound_min \<or> sint op1_32 > sint bound_max then Inl (5, c) else Inr c)))"

definition software_interrupt :: "8 word \<Rightarrow> real_cpu \<Rightarrow> real_cpu fallible" where
  "software_interrupt vector c = and_then (interrupt vector (RSP_SPECULATIVE c)) (\<lambda>c. Inr (RSP_COMMIT c))"

definition INT1 :: executor where
  "INT1 i c = software_interrupt 1 c"

definition INT3 :: executor where
  "INT3 i c = software_interrupt 3 c"

definition INT_Ib :: executor where
  "INT_Ib i c = software_interrupt (Ib (i8 i)) c"

definition INTO :: executor where
  "INTO i c = (if cflag OF c then software_interrupt 4 c else Inr c)"

subsection \<open>Moves\<close>

definition MOV_RXIw :: executor where
  "MOV_RXIw i c = Inr (put_rx (r_rm i) (Iw i) c)"

definition XCHG_RXAX :: executor where
  "XCHG_RXAX i c = (let temp16 = rx 0 c; c = put_rx 0 (rx (r_rm i) c) c in Inr (put_rx (r_rm i) temp16 c))"

definition MOV_EwGwM :: executor where
  "MOV_EwGwM i c = write_virtual_word_32 (iseg i) (resolve i c) (rx (r_nnn i) c) c"

definition MOV_GwEwR :: executor where
  "MOV_GwEwR i c = Inr (put_rx (r_nnn i) (rx (r_rm i) c) c)"

definition MOV_GwEwM :: executor where
  "MOV_GwEwM i c =
     and_then (read_virtual_word_32 (iseg i) (resolve i c) c) (\<lambda>(val16, c). Inr (put_rx (r_nnn i) val16 c))"

definition MOV_EwSwR :: executor where
  "MOV_EwSwR i c =
     (if r_nnn i \<ge> 6 then Inl (6, c)
      else
        (let seg_reg = selector (sregs c (r_nnn i)) in
         if os32L i then Inr (put_rrx (r_rm i) (ucast seg_reg) c) else Inr (put_rx (r_rm i) seg_reg c)))"

definition MOV_EwSwM :: executor where
  "MOV_EwSwM i c =
     (if r_nnn i \<ge> 6 then Inl (6, c)
      else write_virtual_word_32 (iseg i) (resolve i c) (selector (sregs c (r_nnn i))) c)"

definition MOV_SwEw :: executor where
  "MOV_SwEw i c =
     (if r_nnn i \<ge> 6 \<or> r_nnn i = CS then Inl (6, c)
      else
        and_then (if modC0 (i8 i) then Inr (rx (r_rm i) c, c) else read_virtual_word_32 (iseg i) (resolve i c) c)
          (\<lambda>(op2_16, c). let c = load_seg_reg (r_nnn i) op2_16 c in
             Inr (if r_nnn i = SS then inhibit_by_movss c else c)))"

definition LEA_GwM :: executor where
  "LEA_GwM i c = Inr (put_rx (r_nnn i) (ucast (resolve i c)) c)"

definition MOV_AXOd :: executor where
  "MOV_AXOd i c = and_then (read_virtual_word_32 (iseg i) (Id i) c) (\<lambda>(v, c). Inr (put_rx 0 v c))"

definition MOV_OdAX :: executor where
  "MOV_OdAX i c = write_virtual_word_32 (iseg i) (Id i) (rx 0 c) c"

definition MOV_EwIwM :: executor where
  "MOV_EwIwM i c = write_virtual_word_32 (iseg i) (resolve i c) (Iw i) c"

definition MOVZX_GwEbM :: executor where
  "MOVZX_GwEbM i c =
     and_then (read_virtual_byte_32 (iseg i) (resolve i c) c) (\<lambda>(op2_8, c). Inr (put_rx (r_nnn i) (ucast op2_8) c))"

definition MOVZX_GwEbR :: executor where
  "MOVZX_GwEbR i c = Inr (put_rx (r_nnn i) (ucast (reg_rm (i8 i) (core c))) c)"

definition MOVSX_GwEbM :: executor where
  "MOVSX_GwEbM i c =
     and_then (read_virtual_byte_32 (iseg i) (resolve i c) c) (\<lambda>(op2_8, c). Inr (put_rx (r_nnn i) (scast op2_8) c))"

definition MOVSX_GwEbR :: executor where
  "MOVSX_GwEbR i c = Inr (put_rx (r_nnn i) (scast (reg_rm (i8 i) (core c))) c)"

definition XCHG_EwGwM :: executor where
  "XCHG_EwGwM i c =
     and_then (read_RMW_virtual_word_32 (iseg i) (resolve i c) c) (\<lambda>(op1_16, laddr, c).
       let op2_16 = rx (r_nnn i) c in Inr (put_rx (r_nnn i) op1_16 (write_RMW_virtual_word laddr op2_16 c)))"

definition XCHG_EwGwR :: executor where
  "XCHG_EwGwR i c =
     (let op1_16 = rx (r_rm i) c; op2_16 = rx (r_nnn i) c
      in Inr (put_rx (r_rm i) op2_16 (put_rx (r_nnn i) op1_16 c)))"

definition CMOVO_GwEwR :: executor where
  "CMOVO_GwEwR i c = Inr (if cflag OF c then put_rx (r_nnn i) (rx (r_rm i) c) c else c)"

definition CMOVNO_GwEwR :: executor where
  "CMOVNO_GwEwR i c = Inr (if \<not> cflag OF c then put_rx (r_nnn i) (rx (r_rm i) c) c else c)"

definition CMOVB_GwEwR :: executor where
  "CMOVB_GwEwR i c = Inr (if cflag CF c then put_rx (r_nnn i) (rx (r_rm i) c) c else c)"

definition CMOVNB_GwEwR :: executor where
  "CMOVNB_GwEwR i c = Inr (if \<not> cflag CF c then put_rx (r_nnn i) (rx (r_rm i) c) c else c)"

definition CMOVZ_GwEwR :: executor where
  "CMOVZ_GwEwR i c = Inr (if cflag ZF c then put_rx (r_nnn i) (rx (r_rm i) c) c else c)"

definition CMOVNZ_GwEwR :: executor where
  "CMOVNZ_GwEwR i c = Inr (if \<not> cflag ZF c then put_rx (r_nnn i) (rx (r_rm i) c) c else c)"

definition CMOVBE_GwEwR :: executor where
  "CMOVBE_GwEwR i c = Inr (if cflag CF c \<or> cflag ZF c then put_rx (r_nnn i) (rx (r_rm i) c) c else c)"

definition CMOVNBE_GwEwR :: executor where
  "CMOVNBE_GwEwR i c = Inr (if \<not> (cflag CF c \<or> cflag ZF c) then put_rx (r_nnn i) (rx (r_rm i) c) c else c)"

definition CMOVS_GwEwR :: executor where
  "CMOVS_GwEwR i c = Inr (if cflag SF c then put_rx (r_nnn i) (rx (r_rm i) c) c else c)"

definition CMOVNS_GwEwR :: executor where
  "CMOVNS_GwEwR i c = Inr (if \<not> cflag SF c then put_rx (r_nnn i) (rx (r_rm i) c) c else c)"

definition CMOVP_GwEwR :: executor where
  "CMOVP_GwEwR i c = Inr (if cflag PF c then put_rx (r_nnn i) (rx (r_rm i) c) c else c)"

definition CMOVNP_GwEwR :: executor where
  "CMOVNP_GwEwR i c = Inr (if \<not> cflag PF c then put_rx (r_nnn i) (rx (r_rm i) c) c else c)"

definition CMOVL_GwEwR :: executor where
  "CMOVL_GwEwR i c = Inr (if cflag SF c \<noteq> cflag OF c then put_rx (r_nnn i) (rx (r_rm i) c) c else c)"

definition CMOVNL_GwEwR :: executor where
  "CMOVNL_GwEwR i c = Inr (if cflag SF c = cflag OF c then put_rx (r_nnn i) (rx (r_rm i) c) c else c)"

definition CMOVLE_GwEwR :: executor where
  "CMOVLE_GwEwR i c = Inr (if cflag ZF c \<or> cflag SF c \<noteq> cflag OF c then put_rx (r_nnn i) (rx (r_rm i) c) c else c)"

definition CMOVNLE_GwEwR :: executor where
  "CMOVNLE_GwEwR i c = Inr (if \<not> cflag ZF c \<and> cflag SF c = cflag OF c then put_rx (r_nnn i) (rx (r_rm i) c) c else c)"

subsection \<open>Far pointers\<close>

definition load_far_16 :: "nat \<Rightarrow> executor" where
  "load_far_16 s i c =
     (let eaddr = resolve i c in
      and_then (read_virtual_word_32 (iseg i) eaddr c) (\<lambda>(reg_16, c).
      and_then (read_virtual_word_32 (iseg i) (eaddr + 2) c) (\<lambda>(sel, c).
        Inr (put_rx (r_nnn i) reg_16 (load_seg_reg s sel c)))))"

definition LES_GwMp :: executor where
  "LES_GwMp = load_far_16 ES"

definition LDS_GwMp :: executor where
  "LDS_GwMp = load_far_16 DS"

definition LFS_GwMp :: executor where
  "LFS_GwMp = load_far_16 FS"

definition LGS_GwMp :: executor where
  "LGS_GwMp = load_far_16 GS"

definition LSS_GwMp :: executor where
  "LSS_GwMp = load_far_16 SS"

subsection \<open>Faults leave the instruction undone\<close>

text \<open>Segment registers that differ in the cached rights only.\<close>

definition same_seg :: "seg_reg \<Rightarrow> seg_reg \<Rightarrow> bool" where
  "same_seg r r' \<longleftrightarrow> r' = r\<lparr>valid := valid r'\<rparr> \<and> (valid r \<noteq> 0 \<longrightarrow> valid r' \<noteq> 0) \<and> (seg_ok r \<longrightarrow> seg_ok r')"

text \<open>\<open>undoable c0 c\<close>: a fault that goes back from \<open>c\<close> finds the registers, the flags and the segments of
  \<open>c0\<close>, and the state that delivery uses. Memory may have changed.\<close>

definition undoable :: "real_cpu \<Rightarrow> real_cpu \<Rightarrow> bool" where
  "undoable c0 c \<longleftrightarrow>
     (\<forall>n. n \<noteq> RSP_reg \<longrightarrow> rrx n c = rrx n c0) \<and>
     (if speculative_rsp c then prev_rsp c else rrx RSP_reg c) = rrx RSP_reg c0 \<and>
     force_flags (flags (core c)) = force_flags (flags (core c0)) \<and> mem_operand (core c) = mem_operand (core c0) \<and>
     (\<forall>t. same_seg (sregs c0 t) (sregs c t)) \<and>
     a20 c = a20 c0 \<and> idtr_base c = idtr_base c0 \<and> idtr_limit c = idtr_limit c0 \<and> prev_rip c = prev_rip c0 \<and>
     errorno c = errorno c0"

text \<open>The outcomes of a step: a fault that can be undone, or a result with a property.\<close>

definition outcome :: "real_cpu \<Rightarrow> 'a fallible \<Rightarrow> ('a \<Rightarrow> bool) \<Rightarrow> bool" where
  "outcome c0 m Q = (case m of Inl (v, c) \<Rightarrow> undoable c0 c \<and> v \<in> {5, 6, 12, 13} | Inr x \<Rightarrow> Q x)"

lemma same_seg_refl [simp]: "same_seg r r"
  by (simp add: same_seg_def)

lemma same_seg_trans: "same_seg a b \<Longrightarrow> same_seg b c \<Longrightarrow> same_seg a c"
  unfolding same_seg_def by (metis seg_reg.surjective seg_reg.update_convs(2))

lemma undoable_refl: "\<not> speculative_rsp c \<Longrightarrow> undoable c c"
  by (simp add: undoable_def)

lemma undoable_start: "\<not> speculative_rsp c \<Longrightarrow> undoable c (RSP_SPECULATIVE c)"
  by (simp add: undoable_def RSP_SPECULATIVE_def)

lemma outcome_Inr: "Q x \<Longrightarrow> outcome c0 (Inr x) Q"
  by (simp add: outcome_def)

lemma outcome_Inl: "undoable c0 c \<Longrightarrow> v \<in> {5, 6, 12, 13} \<Longrightarrow> outcome c0 (Inl (v, c)) Q"
  by (simp add: outcome_def)

lemma outcome_then: "outcome c0 m (\<lambda>x. outcome c0 (f x) Q) \<Longrightarrow> outcome c0 (and_then m f) Q"
  by (cases m) (auto simp: outcome_def)

lemma outcome_if: "(b \<Longrightarrow> outcome c0 m Q) \<Longrightarrow> (\<not> b \<Longrightarrow> outcome c0 n Q) \<Longrightarrow> outcome c0 (if b then m else n) Q"
  by simp

lemma outcome_mono: "outcome c0 m P \<Longrightarrow> (\<And>x. P x \<Longrightarrow> Q x) \<Longrightarrow> outcome c0 m Q"
  by (cases m) (auto simp: outcome_def)

text \<open>A memory access changes at most cached rights.\<close>

lemma checks_refuse: "write_virtual_checks r off len = (False, r') \<Longrightarrow> r' = r" "read_virtual_checks r off len = (False, r') \<Longrightarrow> r' = r"
  by (auto simp: write_virtual_checks_def read_virtual_checks_def split: if_splits)

lemma same_seg_mark: "\<not> seg_ok r \<Longrightarrow> valid r \<noteq> 0 \<Longrightarrow> same_seg r (mark_ok m r)"
  using or_and_nonzero [of "valid r" m "- 1"] by (auto simp: same_seg_def mark_ok_def)

lemma checks_allow:
  assumes "\<not> seg_ok r"
  shows "write_virtual_checks r off len = (True, r') \<Longrightarrow> same_seg r r'" "read_virtual_checks r off len = (True, r') \<Longrightarrow> same_seg r r'"
  using same_seg_mark [OF assms]
  by (auto simp: write_virtual_checks_def read_virtual_checks_def split: if_splits)

lemma same_seg_touched: "seg_ok r \<Longrightarrow> seg_allows w len off r \<Longrightarrow> same_seg r (touched w r)"
  using seg_ok_touched [of r w len off] valid_touched [of r w] by (simp add: same_seg_def touched_def mark_ok_def)

lemma access_check_step:
  assumes "access_check checks right len s off c = Inl (v, c')"
    and "\<And>off len r'. checks (sregs c s) off len = (False, r') \<Longrightarrow> r' = sregs c s"
  shows "c' = c \<and> v = int_number s"
  using assms(1) by (auto simp: access_check_def Let_def split: if_splits prod.splits dest!: assms(2))

lemma access_check_same:
  assumes "access_check checks right len s off c = Inr (a, c')"
    and "\<And>off len r'. checks (sregs c s) off len = (True, r') \<Longrightarrow> same_seg (sregs c s) r'"
  shows "\<exists>r. c' = put_sreg s r c \<and> same_seg (sregs c s) r"
  using assms unfolding access_check_def Let_def
  by (auto split: if_splits prod.splits) (metis put_sreg_same same_seg_refl)

lemma check_result:
  assumes "len \<in> {1, 2, 4, 8}"
  shows "write_check len s off c = Inr (a, c') \<Longrightarrow> \<exists>r. c' = put_sreg s r c \<and> same_seg (sregs c s) r"
    and "read_check len s off c = Inr (a, c') \<Longrightarrow> \<exists>r. c' = put_sreg s r c \<and> same_seg (sregs c s) r"
proof -
  show "\<exists>r. c' = put_sreg s r c \<and> same_seg (sregs c s) r" if w: "write_check len s off c = Inr (a, c')"
  proof (cases "seg_ok (sregs c s)")
    case True
    thus ?thesis using w same_seg_touched [OF True, of True len off] unfolding write_check_eq [OF True assms] touch_def
      by (auto split: if_splits)
  next
    case False
    show ?thesis using access_check_same [OF w [unfolded write_check_def] checks_allow(1) [OF False]] .
  qed
  show "\<exists>r. c' = put_sreg s r c \<and> same_seg (sregs c s) r" if w: "read_check len s off c = Inr (a, c')"
  proof (cases "seg_ok (sregs c s)")
    case True
    thus ?thesis using w same_seg_touched [OF True, of False len off] unfolding read_check_eq [OF True assms] touch_def
      by (auto split: if_splits)
  next
    case False
    show ?thesis using access_check_same [OF w [unfolded read_check_def] checks_allow(2) [OF False]] .
  qed
qed

lemma check_fault:
  "write_check len s off c = Inl (v, c') \<Longrightarrow> c' = c \<and> v = int_number s"
  "read_check len s off c = Inl (v, c') \<Longrightarrow> c' = c \<and> v = int_number s"
  unfolding write_check_def read_check_def by (erule access_check_step, erule checks_refuse)+

lemma int_number_fault: "int_number s \<in> {5, 6, 12, 13}"
  by (simp add: int_number_def)

text \<open>\<open>goes_on c c'\<close>: an access took \<open>c\<close> to \<open>c'\<close>.\<close>

definition goes_on :: "real_cpu \<Rightarrow> real_cpu \<Rightarrow> bool" where
  "goes_on c c' \<longleftrightarrow> keeps_rest c c' \<and> core c' = core c \<and> (\<forall>t. same_seg (sregs c t) (sregs c' t))"

lemma goes_on_refl [simp]: "goes_on c c"
  by (simp add: goes_on_def)

lemma goes_on_trans: "goes_on a b \<Longrightarrow> goes_on b c \<Longrightarrow> goes_on a c"
  unfolding goes_on_def by (metis keeps_rest_trans same_seg_trans)

lemma goes_on_put: "same_seg (sregs c s) r \<Longrightarrow> goes_on c (put_sreg s r c)"
  by (simp add: goes_on_def) (simp add: put_sreg_def)

lemma access_write_fields [simp]:
  "core (access_write_linear a bs c) = core c" "sregs (access_write_linear a bs c) = sregs c"
  by (induction bs arbitrary: a c) simp_all

lemma goes_on_write [simp]: "goes_on c (access_write_linear a bs c)"
  by (simp add: goes_on_def keeps_rest_write)

lemma undoable_goes_on: "undoable c0 c \<Longrightarrow> goes_on c c' \<Longrightarrow> undoable c0 c'"
proof -
  assume u: "undoable c0 c" and g: "goes_on c c'"
  note k = keeps_restD [OF conjunct1 [OF g [unfolded goes_on_def]]]
  have "\<forall>t. same_seg (sregs c0 t) (sregs c' t)" using u g same_seg_trans unfolding undoable_def goes_on_def by metis
  thus ?thesis using u g k unfolding undoable_def goes_on_def by (cases "speculative_rsp c") simp_all
qed

text \<open>The rules for the accesses, the pushes and the pops.\<close>

lemma goes_on_spec: "goes_on c c' \<Longrightarrow> speculative_rsp c' = speculative_rsp c"
  by (simp add: goes_on_def keeps_restD)

lemma outcome_checks:
  assumes "undoable c0 c" "\<And>a c'. undoable c0 c' \<Longrightarrow> goes_on c c' \<Longrightarrow> speculative_rsp c' = speculative_rsp c \<Longrightarrow> Q (a, c')"
    and "len \<in> {1, 2, 4, 8}"
  shows "outcome c0 (read_check len s off c) Q" "outcome c0 (write_check len s off c) Q"
proof -
  have go: "Q (a, c')" if "\<exists>r. c' = put_sreg s r c \<and> same_seg (sregs c s) r" for a c'
    using that assms(2) undoable_goes_on [OF assms(1)] goes_on_put goes_on_spec by blast
  show "outcome c0 (read_check len s off c) Q"
    using check_fault(2) [of len s off c] check_result(2) [OF assms(3), of s off c] go assms(1) int_number_fault [of s]
    by (auto simp: outcome_def split: sum.split)
  show "outcome c0 (write_check len s off c) Q"
    using check_fault(1) [of len s off c] check_result(1) [OF assms(3), of s off c] go assms(1) int_number_fault [of s]
    by (auto simp: outcome_def split: sum.split)
qed

lemma outcome_access:
  assumes u: "undoable c0 c"
  shows outcome_read_word: "(\<And>v c'. undoable c0 c' \<Longrightarrow> goes_on c c' \<Longrightarrow> speculative_rsp c' = speculative_rsp c \<Longrightarrow> Q (v, c')) \<Longrightarrow>
      outcome c0 (read_virtual_word_32 s off c) Q"
    and outcome_read_byte: "(\<And>v c'. undoable c0 c' \<Longrightarrow> goes_on c c' \<Longrightarrow> speculative_rsp c' = speculative_rsp c \<Longrightarrow> Qb (v, c')) \<Longrightarrow>
      outcome c0 (read_virtual_byte_32 s off c) Qb"
    and outcome_read_dword: "(\<And>v c'. undoable c0 c' \<Longrightarrow> goes_on c c' \<Longrightarrow> speculative_rsp c' = speculative_rsp c \<Longrightarrow> Qd (v, c')) \<Longrightarrow>
      outcome c0 (read_virtual_dword_32 s off c) Qd"
    and outcome_write_word: "(\<And>c'. undoable c0 c' \<Longrightarrow> goes_on c c' \<Longrightarrow> speculative_rsp c' = speculative_rsp c \<Longrightarrow> Qw c') \<Longrightarrow>
      outcome c0 (write_virtual_word_32 s off v c) Qw"
    and outcome_RMW_word: "(\<And>v a c'. undoable c0 c' \<Longrightarrow> goes_on c c' \<Longrightarrow> speculative_rsp c' = speculative_rsp c \<Longrightarrow> Qr (v, a, c')) \<Longrightarrow>
      outcome c0 (read_RMW_virtual_word_32 s off c) Qr"
  unfolding read_virtual_word_32_def read_virtual_byte_32_def read_virtual_dword_32_def write_virtual_word_32_def read_RMW_virtual_word_32_def
  by (intro outcome_then outcome_checks [OF u]; simp add: outcome_Inr
      undoable_goes_on [OF _ goes_on_write] goes_on_trans [OF _ goes_on_write] goes_on_spec [OF goes_on_write])+

lemma undoable_RSP: "undoable c0 c \<Longrightarrow> speculative_rsp c \<Longrightarrow> undoable c0 (on_core (upd_reg RSP_reg f) c)"
  by (auto simp: undoable_def upd_reg_def)

lemma outcome_push:
  assumes "undoable c0 c" "\<And>c'. speculative_rsp c' = speculative_rsp c \<Longrightarrow> (speculative_rsp c \<Longrightarrow> undoable c0 c') \<Longrightarrow> Q c'"
  shows "outcome c0 (push_16 v c) Q"
  unfolding push_16_def
  by (intro outcome_if outcome_then outcome_write_word [OF assms(1)] outcome_Inr assms(2)) (simp_all add: undoable_RSP)

lemma outcome_pop:
  assumes "undoable c0 c" "\<And>v c'. speculative_rsp c' = speculative_rsp c \<Longrightarrow> (speculative_rsp c \<Longrightarrow> undoable c0 c') \<Longrightarrow> Q (v, c')"
  shows "outcome c0 (pop_16 c) Q"
  unfolding pop_16_def
  by (intro outcome_if outcome_then outcome_read_word [OF assms(1)]) (simp_all add: undoable_RSP outcome_Inr assms(2))

lemma force_flags_idem [simp]: "force_flags (force_flags S) = force_flags S"
  using force_flags_status [of S] by (simp add: force_flags_def [of "force_flags S"])

lemma undoable_saving: "undoable c0 c \<Longrightarrow> undoable c0 (saving c)" "undoable c0 c \<Longrightarrow> undoable c0 (forced c)"
  "undoable c0 c \<Longrightarrow> undoable c0 (c\<lparr>disable_NMI := b\<rparr>)"
  by (auto simp: undoable_def) (auto simp: forced_def)

lemma spec_fields [simp]:
  "speculative_rsp (load_seg_reg s v c) = speculative_rsp c"
  "speculative_rsp (RSP_COMMIT c) = False" "speculative_rsp (RSP_SPECULATIVE c) = True" "speculative_rsp (forced c) = speculative_rsp c"
  "speculative_rsp (inhibit_by_movss c) = speculative_rsp c" "speculative_rsp (write_flags fl a b c) = speculative_rsp c"
  "speculative_rsp (put_popped vs c) = speculative_rsp c" "speculative_rsp (write_RMW_virtual_word l w c) = speculative_rsp c"
  using goes_on_spec [OF goes_on_write]
  by (simp_all add: load_seg_reg_def put_sreg_def RSP_COMMIT_def RSP_SPECULATIVE_def forced_def inhibit_by_movss_def write_flags_def
      writeEFlags_def setEFlags_def Let_def put_popped_def write_RMW_virtual_word_def)

lemma outcome_interrupt:
  assumes "undoable c0 c" "speculative_rsp c"
  shows "outcome c0 (interrupt v c) (\<lambda>_. True)"
proof -
  have u: "undoable c0 (forced (saving c))" "speculative_rsp (forced (saving c))" using assms undoable_saving by simp_all
  show ?thesis unfolding interrupt_def saving_def [symmetric] real_mode_int_def read_eflags_forced Let_def prod.case
    using assms u undoable_saving(1) [OF assms(1)]
    by (intro outcome_if outcome_then outcome_Inl outcome_push outcome_Inr) simp_all
qed

lemma outcome_soft:
  "\<not> speculative_rsp c \<Longrightarrow> outcome c (software_interrupt v c) (\<lambda>c. \<not> speculative_rsp c)"
  unfolding software_interrupt_def
  by (intro outcome_then outcome_mono [OF outcome_interrupt]) (simp_all add: undoable_start outcome_Inr)

lemma outcome_write_words:
  "undoable c0 c \<Longrightarrow> (\<And>c'. speculative_rsp c' = speculative_rsp c \<Longrightarrow> Q c') \<Longrightarrow> outcome c0 (write_words ws c) Q"
proof (induction ws arbitrary: c)
  case (Cons w ws)
  show ?case unfolding write_words.simps
    by (intro outcome_then outcome_write_word [OF Cons.prems(1)] Cons.IH Cons.prems(2)) simp_all
qed (simp add: outcome_Inr)

lemma outcome_read_words:
  "undoable c0 c \<Longrightarrow> (\<And>vs c'. undoable c0 c' \<Longrightarrow> speculative_rsp c' = speculative_rsp c \<Longrightarrow> Q (vs, c')) \<Longrightarrow>
    outcome c0 (read_words as c) Q"
proof (induction as arbitrary: c Q)
  case (Cons a as)
  show ?case unfolding read_words.simps
  proof (intro outcome_then outcome_read_word [OF Cons.prems(1)], clarify)
    fix v c' assume "undoable c0 c'" "speculative_rsp c' = speculative_rsp c"
    thus "outcome c0 (and_then (read_words as c') (\<lambda>(vs, c). Inr (v # vs, c))) Q"
      by (intro outcome_then Cons.IH) (auto intro!: outcome_Inr Cons.prems(2))
  qed
qed (simp add: outcome_Inr)

lemma outcome_branch:
  "undoable c0 c \<Longrightarrow> (\<And>c'. speculative_rsp c' = speculative_rsp c \<Longrightarrow> Q c') \<Longrightarrow> outcome c0 (branch_near16 ip c) Q"
  unfolding branch_near16_def by (intro outcome_if outcome_Inl outcome_Inr) simp_all

lemma outcome_enter_levels:
  "undoable c0 c \<Longrightarrow> speculative_rsp c \<Longrightarrow> outcome c0 (enter_levels wide n bp c) (\<lambda>c'. undoable c0 c' \<and> speculative_rsp c')"
proof (induction n arbitrary: bp c)
  case (Suc n)
  show ?case unfolding enter_levels.simps Let_def
  proof (intro outcome_then outcome_read_word [OF Suc.prems(1)], clarify)
    fix v c' assume "undoable c0 c'" "speculative_rsp c' = speculative_rsp c"
    thus "outcome c0 (and_then (push_16 v c') (enter_levels wide n (if wide then bp - 2 else ucast (ucast bp - 2 :: 16 word))))
        (\<lambda>c'. undoable c0 c' \<and> speculative_rsp c')"
      using Suc.prems(2) by (intro outcome_then outcome_push Suc.IH) auto
  qed
qed (simp add: outcome_Inr)

definition undoes :: "executor \<Rightarrow> bool" where
  "undoes exec \<longleftrightarrow> (\<forall>i c. \<not> speculative_rsp c \<longrightarrow> outcome c (exec i c) (\<lambda>c'. \<not> speculative_rsp c'))"

lemmas outcome_rules = outcome_if outcome_then outcome_Inl outcome_Inr outcome_push outcome_pop outcome_read_word outcome_read_byte
  outcome_read_dword outcome_write_word outcome_RMW_word outcome_write_words outcome_read_words outcome_branch outcome_soft

lemmas executor_defs = PUSH_RX_def PUSH16_CS_def PUSH16_DS_def PUSH16_ES_def PUSH16_FS_def PUSH16_GS_def PUSH16_SS_def POP16_DS_def
  POP16_ES_def POP16_FS_def POP16_GS_def POP16_SS_def POP_RX_def POP_EwM_def PUSH_Iw_def PUSH_EwM_def PUSHAD16_def
  POPAD16_def ENTER16_IwIb_def LEAVE16_def RETnear16_Iw_def RETnear16_def RETfar16_Iw_def RETfar16_def CALL_Jw_def
  CALL16_Ap_def CALL_EwR_def CALL16_Ep_def JMP_Jw_def JO_Jw_def JNO_Jw_def JB_Jw_def JNB_Jw_def JZ_Jw_def JNZ_Jw_def
  JBE_Jw_def JNBE_Jw_def JS_Jw_def JNS_Jw_def JP_Jw_def JNP_Jw_def JL_Jw_def JNL_Jw_def JLE_Jw_def JNLE_Jw_def
  JMP_EwR_def JMP16_Ep_def IRET16_def JCXZ_Jb_def LOOPNE16_Jb_def LOOPE16_Jb_def LOOP16_Jb_def BOUND_GwMa_def
  BOUND_GdMa_def INT1_def INT3_def INT_Ib_def INTO_def MOV_RXIw_def XCHG_RXAX_def MOV_EwGwM_def MOV_GwEwR_def
  MOV_GwEwM_def MOV_EwSwR_def MOV_EwSwM_def MOV_SwEw_def LEA_GwM_def MOV_AXOd_def MOV_OdAX_def MOV_EwIwM_def
  MOVZX_GwEbM_def MOVZX_GwEbR_def MOVSX_GwEbM_def MOVSX_GwEbR_def XCHG_EwGwM_def XCHG_EwGwR_def CMOVO_GwEwR_def
  CMOVNO_GwEwR_def CMOVB_GwEwR_def CMOVNB_GwEwR_def CMOVZ_GwEwR_def CMOVNZ_GwEwR_def CMOVBE_GwEwR_def CMOVNBE_GwEwR_def
  CMOVS_GwEwR_def CMOVNS_GwEwR_def CMOVP_GwEwR_def CMOVNP_GwEwR_def CMOVL_GwEwR_def CMOVNL_GwEwR_def CMOVLE_GwEwR_def
  CMOVNLE_GwEwR_def LES_GwMp_def LDS_GwMp_def LFS_GwMp_def LGS_GwMp_def LSS_GwMp_def CLI_def STI_def CLD_def STD_def
  PUSHF_Fw_def POPF_Fw_def
  clear_eflag_def assert_eflag_def assert_event_flag_def read_eflags_forced far_call_def load_far_16_def

lemma undoable_spec: "undoable c0 c \<Longrightarrow> \<not> speculative_rsp c \<Longrightarrow> undoable c0 (RSP_SPECULATIVE c)"
  by (simp add: undoable_def RSP_SPECULATIVE_def)

lemma outcome_enter:
  "undoable c0 c \<Longrightarrow> speculative_rsp c \<Longrightarrow> (\<And>c'. undoable c0 c' \<Longrightarrow> speculative_rsp c' \<Longrightarrow> Q c') \<Longrightarrow>
    outcome c0 (enter_levels wide n bp c) Q"
  by (rule outcome_mono [OF outcome_enter_levels]) simp_all

text \<open>The instructions, and that each of them can be undone.\<close>

definition real_instructions :: "executor list" where
  "real_instructions =
     [PUSH_RX, PUSH16_CS, PUSH16_DS, PUSH16_ES, PUSH16_FS, PUSH16_GS, PUSH16_SS, POP16_DS, POP16_ES, POP16_FS, POP16_GS,
      POP16_SS, POP_RX, POP_EwM, PUSH_Iw, PUSH_EwM, PUSHAD16, POPAD16, ENTER16_IwIb, LEAVE16, RETnear16_Iw, RETnear16,
      RETfar16_Iw, RETfar16, CALL_Jw, CALL16_Ap, CALL_EwR, CALL16_Ep, JMP_Jw, JO_Jw, JNO_Jw, JB_Jw, JNB_Jw, JZ_Jw, JNZ_Jw,
      JBE_Jw, JNBE_Jw, JS_Jw, JNS_Jw, JP_Jw, JNP_Jw, JL_Jw, JNL_Jw, JLE_Jw, JNLE_Jw, JMP_EwR, JMP16_Ep, IRET16, JCXZ_Jb,
      LOOPNE16_Jb, LOOPE16_Jb, LOOP16_Jb, BOUND_GwMa, BOUND_GdMa, INT1, INT3, INT_Ib, INTO, MOV_RXIw, XCHG_RXAX, MOV_EwGwM,
      MOV_GwEwR, MOV_GwEwM, MOV_EwSwR, MOV_EwSwM, MOV_SwEw, LEA_GwM, MOV_AXOd, MOV_OdAX, MOV_EwIwM, MOVZX_GwEbM,
      MOVZX_GwEbR, MOVSX_GwEbM, MOVSX_GwEbR, XCHG_EwGwM, XCHG_EwGwR, CMOVO_GwEwR, CMOVNO_GwEwR, CMOVB_GwEwR, CMOVNB_GwEwR,
      CMOVZ_GwEwR, CMOVNZ_GwEwR, CMOVBE_GwEwR, CMOVNBE_GwEwR, CMOVS_GwEwR, CMOVNS_GwEwR, CMOVP_GwEwR, CMOVNP_GwEwR,
      CMOVL_GwEwR, CMOVNL_GwEwR, CMOVLE_GwEwR, CMOVNLE_GwEwR, LES_GwMp, LDS_GwMp, LFS_GwMp, LGS_GwMp, LSS_GwMp, CLI, STI,
      CLD, STD, PUSHF_Fw, POPF_Fw]"

lemma undoes_each:
  "undoes PUSH_RX" "undoes PUSH16_CS" "undoes PUSH16_DS" "undoes PUSH16_ES" "undoes PUSH16_FS" "undoes PUSH16_GS"
  "undoes PUSH16_SS" "undoes POP16_DS" "undoes POP16_ES" "undoes POP16_FS" "undoes POP16_GS" "undoes POP16_SS"
  "undoes POP_RX" "undoes POP_EwM" "undoes PUSH_Iw" "undoes PUSH_EwM" "undoes PUSHAD16" "undoes POPAD16"
  "undoes ENTER16_IwIb" "undoes LEAVE16" "undoes RETnear16_Iw" "undoes RETnear16" "undoes RETfar16_Iw"
  "undoes RETfar16" "undoes CALL_Jw" "undoes CALL16_Ap" "undoes CALL_EwR" "undoes CALL16_Ep" "undoes JMP_Jw"
  "undoes JO_Jw" "undoes JNO_Jw" "undoes JB_Jw" "undoes JNB_Jw" "undoes JZ_Jw" "undoes JNZ_Jw" "undoes JBE_Jw"
  "undoes JNBE_Jw" "undoes JS_Jw" "undoes JNS_Jw" "undoes JP_Jw" "undoes JNP_Jw" "undoes JL_Jw" "undoes JNL_Jw"
  "undoes JLE_Jw" "undoes JNLE_Jw" "undoes JMP_EwR" "undoes JMP16_Ep" "undoes IRET16" "undoes JCXZ_Jb"
  "undoes LOOPNE16_Jb" "undoes LOOPE16_Jb" "undoes LOOP16_Jb" "undoes BOUND_GwMa" "undoes BOUND_GdMa" "undoes INT1"
  "undoes INT3" "undoes INT_Ib" "undoes INTO" "undoes MOV_RXIw" "undoes XCHG_RXAX" "undoes MOV_EwGwM"
  "undoes MOV_GwEwR" "undoes MOV_GwEwM" "undoes MOV_EwSwR" "undoes MOV_EwSwM" "undoes MOV_SwEw" "undoes LEA_GwM"
  "undoes MOV_AXOd" "undoes MOV_OdAX" "undoes MOV_EwIwM" "undoes MOVZX_GwEbM" "undoes MOVZX_GwEbR" "undoes MOVSX_GwEbM"
  "undoes MOVSX_GwEbR" "undoes XCHG_EwGwM" "undoes XCHG_EwGwR" "undoes CMOVO_GwEwR" "undoes CMOVNO_GwEwR"
  "undoes CMOVB_GwEwR" "undoes CMOVNB_GwEwR" "undoes CMOVZ_GwEwR" "undoes CMOVNZ_GwEwR" "undoes CMOVBE_GwEwR"
  "undoes CMOVNBE_GwEwR" "undoes CMOVS_GwEwR" "undoes CMOVNS_GwEwR" "undoes CMOVP_GwEwR" "undoes CMOVNP_GwEwR"
  "undoes CMOVL_GwEwR" "undoes CMOVNL_GwEwR" "undoes CMOVLE_GwEwR" "undoes CMOVNLE_GwEwR" "undoes LES_GwMp"
  "undoes LDS_GwMp" "undoes LFS_GwMp" "undoes LGS_GwMp" "undoes LSS_GwMp" "undoes CLI" "undoes STI" "undoes CLD"
  "undoes STD" "undoes PUSHF_Fw" "undoes POPF_Fw"
  unfolding undoes_def executor_defs Let_def
  by (auto intro!: outcome_rules outcome_enter undoable_RSP undoable_spec simp: undoable_refl undoable_saving)+

lemma undoes_all: "exec \<in> set real_instructions \<Longrightarrow> undoes exec"
  using undoes_each by (auto simp: real_instructions_def)

subsection \<open>A fault enters its handler\<close>

lemma bit_forced:
  "bit (eflags (force_flags S)) n = (if \<exists>f. n = flag_bit f then get_flag (THE f. n = flag_bit f) S else bit (eflags S) n)"
proof (cases "\<exists>f. n = flag_bit f")
  case True
  then obtain f where f: "n = flag_bit f" by blast
  have "bit (eflags (force_flags S)) (flag_bit f) = get_flag f (force_flags S)" by (simp add: get_flag_bit force_flags_status)
  thus ?thesis using f by simp
next
  case False
  thus ?thesis using force_flags_other [of n S] by auto
qed

lemma RF_high: "n < 16 \<Longrightarrow> \<not> bit (0x10000 :: 32 word) n"
proof -
  have e: "(0x10000 :: 32 word) = 2 ^ 16" by simp
  show "n < 16 \<Longrightarrow> \<not> bit (0x10000 :: 32 word) n" unfolding e bit_exp_iff by simp
qed

lemma frame_flags_cong:
  assumes "force_flags (flags (core c)) = force_flags (flags (core c0))"
  shows "frame_flags (assert_eflag RF_bit c) = frame_flags c0" "frame_flags c = frame_flags c0"
proof -
  let ?S = "flags (core c)" and ?T = "flags (core (assert_eflag RF_bit c))"
  have T: "?T = ?S\<lparr>eflags := eflags ?S OR push_bit RF_bit 1\<rparr>" by (simp add: assert_eflag_def upd_flags_def)
  have "bit (eflags (force_flags ?T)) n = bit (eflags (force_flags ?S)) n" if "n < 16" for n
    using that RF_high unfolding bit_forced T by (auto simp: get_flag_bit bit_or_iff)
  hence "frame_flags (assert_eflag RF_bit c) = frame_flags c" unfolding frame_flags_def by (intro bit_word_eqI) (simp add: bit_ucast_iff)
  thus "frame_flags (assert_eflag RF_bit c) = frame_flags c0" "frame_flags c = frame_flags c0"
    using assms by (simp_all add: frame_flags_def)
qed

text \<open>Between two instructions: the state the main loop starts over from.\<close>

definition at_boundary :: "real_cpu \<Rightarrow> bool" where
  "at_boundary c \<longleftrightarrow> prev_rip c = rrx RIP_reg c \<and> \<not> speculative_rsp c \<and> errorno c = 0"

lemma exception_class_fault: "v \<in> {5, 6, 12, 13} \<Longrightarrow> exception_class v = FAULT"
  by (auto simp: exception_class_def exceptions_info_def numeral_eq_Suc)

lemma faulted_undone:
  assumes u: "undoable c0 c" and v: "v \<in> {5, 6, 12, 13}" and p: "prev_rip c0 = rip"
  shows "gen_reg (core (faulted v c)) = (gen_reg (core c0))(RIP_reg := rip)"
    "frame_flags (faulted v c) = frame_flags c0" "same_seg (sregs c0 t) (sregs (faulted v c) t)"
    "a20 (faulted v c) = a20 c0" "idtr_base (faulted v c) = idtr_base c0" "idtr_limit (faulted v c) = idtr_limit c0"
proof -
  have r: "gen_reg (core (on_core (upd_reg n f) d)) = (gen_reg (core d))(n := f (gen_reg (core d) n))" for n f d
    by (simp add: upd_reg_def)
  have v1: "v \<noteq> 1" using v by auto
  define b where "b = (let d = put_rrx RIP_reg (prev_rip c) c in if speculative_rsp d then put_rrx RSP_reg (prev_rsp d) d else d)"
  have e: "faulted v c = (assert_event_flag RF_bit b)\<lparr>EXT := True, curr_exception := exception_type v, errorno := 1\<rparr>"
    using v1 exception_class_fault [OF v] by (simp add: faulted_def debug_registers_def back_up_def b_def Let_def)
  have g: "gen_reg (core b) = (gen_reg (core c0))(RIP_reg := rip)"
  proof
    fix n show "rrx n b = ((gen_reg (core c0))(RIP_reg := rip)) n"
      using u p by (cases "n = RSP_reg"; cases "speculative_rsp c") (auto simp: undoable_def b_def Let_def r)
  qed
  have f: "force_flags (flags (core b)) = force_flags (flags (core c0))" "sregs b = sregs c" "a20 b = a20 c"
      "idtr_base b = idtr_base c" "idtr_limit b = idtr_limit c"
    using u by (auto simp: undoable_def b_def Let_def)
  show "gen_reg (core (faulted v c)) = (gen_reg (core c0))(RIP_reg := rip)"
    unfolding e assert_event_flag_def assert_eflag_def by (simp add: g)
  show "frame_flags (faulted v c) = frame_flags c0"
    using frame_flags_cong(1) [of "b\<lparr>async_event := 1\<rparr>" c0] f(1) unfolding e assert_event_flag_def
    by (simp add: frame_flags_def)
  show "same_seg (sregs c0 t) (sregs (faulted v c) t)" "a20 (faulted v c) = a20 c0" "idtr_base (faulted v c) = idtr_base c0"
      "idtr_limit (faulted v c) = idtr_limit c0"
    using u f(2-) unfolding e assert_event_flag_def assert_eflag_def undoable_def by simp_all
qed

text \<open>The state in a handler, for a processor that was at \<open>c\<close> with the instruction pointer \<open>ip\<close>: the
  general registers of \<open>c\<close> with three words less stack, the frame on it, control where the vector table says, and interrupts
  off.\<close>

definition in_handler :: "8 word \<Rightarrow> real_cpu \<Rightarrow> real_cpu \<Rightarrow> bool" where
  "in_handler v c d \<longleftrightarrow>
     (\<forall>n. n \<noteq> RSP_reg \<and> n \<noteq> RIP_reg \<longrightarrow> rrx n d = rrx n c) \<and> rrx RSP_reg d = set_rx (SP c - 6) (rrx RSP_reg c) \<and>
     stack_word (SP c - 2) d = frame_flags c \<and> stack_word (SP c - 4) d = selector (sregs c CS) \<and> stack_word (SP c - 6) d = IP c \<and>
     erx RIP_reg d = ucast (system_read_word (idtr_base c + 4 * ucast v) d) \<and>
     selector (sregs d CS) = system_read_word (idtr_base c + 4 * ucast v + 2) d \<and>
     seg_base (sregs d CS) = push_bit 4 (ucast (selector (sregs d CS))) \<and>
     (\<forall>t. t \<noteq> CS \<longrightarrow> selector (sregs d t) = selector (sregs c t) \<and> seg_base (sregs d t) = seg_base (sregs c t)) \<and>
     \<not> eflag IF_bit d \<and> \<not> eflag TF_bit d \<and> real_stack d"

lemma bit_clear: "bit (e AND NOT (push_bit k 1)) n \<longleftrightarrow> bit e n \<and> n \<noteq> k" for e :: "'a::len word"
  by (auto simp: bit_simps dest: bit_imp_le_length)

lemma handler_eflags_bits: "bit (handler_eflags e) n \<longleftrightarrow> bit e n \<and> n \<notin> {IF_bit, TF_bit, AC_bit, RF_bit}"
  unfolding handler_eflags_def bit_clear by auto

lemma system_read_cong: "memory d = memory c \<Longrightarrow> a20 d = a20 c \<Longrightarrow> system_read_word a d = system_read_word a c"
  by (simp add: system_read_word_def access_read_linear_def phys_byte_def)

lemma framed_segs:
  assumes "frame_fits v c" "t \<noteq> CS"
  shows "selector (sregs (framed c) t) = selector (sregs c t) \<and> seg_base (sregs (framed c) t) = seg_base (sregs c t)"
  using framed_facts(9,10) [OF assms(1)] by (cases "t = SS") auto

lemma in_handler_state:
  assumes "frame_fits v c"
  shows "in_handler v c (handler_state v (framed c))"
proof -
  note k = keeps_restD [OF framed_facts(5) [OF assms]]
  have read: "system_read_word a (handler_state v (framed c)) = system_read_word a (framed c)" for a
    by (rule system_read_cong) (simp_all add: handler_facts)
  show ?thesis
    unfolding in_handler_def read eflag_def handler_facts
    using framed_facts [OF assms] framed_segs [OF assms] k by (simp add: handler_eflags_bits handler_facts(7))
qed

lemma in_handler_cong:
  assumes "in_handler v c e" and d: "core d = core e" "sregs d = sregs e" "memory d = memory e" "a20 d = a20 e"
  shows "in_handler v c d"
proof -
  have w: "stack_word x d = stack_word x e" for x using d by (intro stack_word_cong) simp_all
  have r: "system_read_word a d = system_read_word a e" for a using d by (intro system_read_cong) simp_all
  have s: "real_stack d = real_stack e" using d by (simp add: real_stack_def a20_good_def)
  show ?thesis using assms(1) unfolding in_handler_def eflag_def w r s d .
qed

lemma real_stack_same: "same_seg (sregs c SS) (sregs d SS) \<Longrightarrow> a20 d = a20 c \<Longrightarrow> real_stack c \<Longrightarrow> real_stack d"
proof -
  assume s: "same_seg (sregs c SS) (sregs d SS)" and a: "a20 d = a20 c" "real_stack c"
  obtain x where "sregs d SS = (sregs c SS)\<lparr>valid := x\<rparr>" using s unfolding same_seg_def by metis
  thus "real_stack d" using s a unfolding real_stack_def a20_good_def same_seg_def by simp
qed

lemma faulted_frame:
  assumes "undoable c0 c" "v \<in> {5, 6, 12, 13}" "frame_fits w c0"
  shows "frame_fits w (faulted v c)"
proof -
  note f = faulted_undone [OF assms(1,2) refl]
  have "sregs (faulted v c) CS = (sregs c0 CS)\<lparr>valid := valid (sregs (faulted v c) CS)\<rparr>" using f(3) [of CS] by (simp add: same_seg_def)
  hence "limit_scaled (sregs (faulted v c) CS) = limit_scaled (sregs c0 CS)" by (metis seg_reg.select_convs(6) seg_reg.surjective seg_reg.update_convs(2))
  thus ?thesis using assms(3) f(1,6) real_stack_same [OF f(3,4)] by (simp add: frame_fits_def)
qed

lemma in_handler_start:
  assumes "in_handler v b d" "\<forall>n. n \<noteq> RIP_reg \<longrightarrow> rrx n b = rrx n c" "frame_flags b = frame_flags c" "IP b = IP c" "idtr_base b = idtr_base c"
    "\<forall>t. same_seg (sregs c t) (sregs b t)"
  shows "in_handler v c d"
proof -
  have "selector (sregs b t) = selector (sregs c t) \<and> seg_base (sregs b t) = seg_base (sregs c t)" for t
    using assms(6) unfolding same_seg_def by (metis seg_reg.select_convs(1,5) seg_reg.surjective seg_reg.update_convs(2))
  thus ?thesis using assms unfolding in_handler_def by simp
qed


text \<open>A 16-bit instruction with all fields 0.\<close>

definition plain :: instruction where
  "plain = \<lparr>i8 = \<lparr>nnn = 0, rm = 0, extend8bitL = False, modC0 = True, b1 = 0, Ib = 0\<rparr>, Id = 0, Id2 = 0, iseg = DS, sibBase = 3,
     sibIndex = 6, sibScale = 0, ResolveModrm = BxResolve16BaseIndex, os32L = False, as32L = False, repUsed = 0, ilen = 1\<rparr>"

lemma word_neg_1: "(0xFFFF :: 16 word) = - 1"
  by (simp add: One_nat_def)

lemma pop_at_end: "real_stack c \<Longrightarrow> limit_scaled (sregs c SS) = 0xFFFF \<Longrightarrow> SP c = 0xFFFF \<Longrightarrow> pop_16 c = Inl (12, c)"
proof -
  assume c: "real_stack c" "limit_scaled (sregs c SS) = 0xFFFF" "SP c = 0xFFFF"
  have "\<not> seg_allows False 2 0xFFFF (sregs c SS)" using c by (intro stack_refuses) (simp_all add: real_stack_def)
  moreover have "(ucast (SP c) :: 32 word) = 0xFFFF"
    unfolding c(3) using ucast_minus_1 by (simp only: word_neg_1)
  ultimately show ?thesis using c(1) by (simp add: pop_16_def real_stack_def read_word_eq int_number_def)
qed


subsection \<open>Interrupts return\<close>

lemma pop3:
  assumes "real_stack c" "SP c \<noteq> 0xFFFF" "SP c + 2 \<noteq> 0xFFFF" "SP c + 4 \<noteq> 0xFFFF"
  shows "and_then (pop_16 c) (\<lambda>(x, c). and_then (pop_16 c) (\<lambda>(y, c). and_then (pop_16 c) (\<lambda>(z, c). f x y z c))) =
    f (stack_word (SP c) c) (stack_word (SP c + 2) c) (stack_word (SP c + 4) c) (popped (popped (popped c)))"
proof -
  have "SP c + 2 + 2 = SP c + 4" by simp
  thus ?thesis using assms by (simp add: pop_16_popped add.commute [of _ 4])
qed

lemma room_3_pops: "room 3 sp \<Longrightarrow> sp - 6 \<noteq> 0xFFFF \<and> sp - 4 \<noteq> 0xFFFF \<and> sp - 2 \<noteq> 0xFFFF" for sp :: "16 word"
proof -
  assume "room 3 sp"
  hence r: "sp \<noteq> 1" "sp \<noteq> 3" "sp \<noteq> 5" by (simp_all add: frame_room)
  have "(0xFFFF + 6 :: 16 word) = 5" "(0xFFFF + 4 :: 16 word) = 3" "(0xFFFF + 2 :: 16 word) = 1" by (simp_all add: One_nat_def)
  thus ?thesis using r by (metis diff_add_cancel)
qed

lemma iret16_frame:
  assumes "real_stack c" "SP c \<noteq> 0xFFFF" "SP c + 2 \<noteq> 0xFFFF" "SP c + 4 \<noteq> 0xFFFF" "0xFFFF \<le> limit_scaled (sregs c CS)"
  defines "c1 \<equiv> popped (popped (popped (RSP_SPECULATIVE (c\<lparr>disable_NMI := False\<rparr>))))"
  shows "IRET16 i c = Inr (RSP_COMMIT (write_flags (stack_word (SP c + 4) c) True True
    (put_rrx RIP_reg (ucast (stack_word (SP c) c)) (load_seg_reg CS (stack_word (SP c + 2) c) c1))))"
proof -
  let ?c = "RSP_SPECULATIVE (c\<lparr>disable_NMI := False\<rparr>)"
  have s: "core ?c = core c" "sregs ?c = sregs c" "memory ?c = memory c" "a20 ?c = a20 c" by (simp_all add: RSP_SPECULATIVE_def)
  have w: "stack_word x ?c = stack_word x c" for x using s by (intro stack_word_cong) simp_all
  have r: "real_stack ?c" using assms(1) s by (simp add: real_stack_def a20_good_def)
  have "\<not> beyond_CS x c1" for x using assms(5) system_word_fits [of _ x] s by (simp add: beyond_CS_def c1_def)
  thus ?thesis unfolding IRET16_def by (subst pop3) (use assms(1-4) s w r in \<open>simp_all add: c1_def\<close>)
qed

abbreviation (input) returned_mask :: "32 word" where "returned_mask \<equiv> 0x7FD5"

lemma returned_mask_bits: "bit returned_mask 8" "bit returned_mask 9" "bit returned_mask n \<Longrightarrow> n < 16"
proof -
  have t: "returned_mask = take_bit 16 returned_mask" by (simp add: One_nat_def)
  show "bit returned_mask n \<Longrightarrow> n < 16" by (subst (asm) t) (simp only: bit_take_bit_iff)
qed (simp_all add: One_nat_def)

lemma write_flags_returned:
  "write_flags fl True True c = setEFlags ((eflags (flags (core c)) AND NOT returned_mask) OR (ucast fl AND returned_mask)) c"
proof -
  have "(((0x0DD5 OR 0x4000) OR 0x3000) OR 0x200) AND (0x00037FD5 OR 0x00200000 OR 0x00040000 OR 0x00100000 OR 0x00080000) = returned_mask"
    by (simp add: One_nat_def)
  thus ?thesis by (simp only: write_flags_def writeEFlags_def Let_def if_True)
qed

definition returned_eflags :: "32 word \<Rightarrow> 32 word" where
  "returned_eflags e = (e AND NOT (push_bit RF_bit 1)) AND NOT (push_bit AC_bit 1)"

lemma returned_flags:
  "(handler_eflags e AND NOT returned_mask) OR (ucast (ucast e :: 16 word) AND returned_mask) = returned_eflags e"
proof (rule bit_word_eqI)
  fix n :: nat assume n: "n < LENGTH(32)"
  have u: "bit (ucast (ucast e :: 16 word) :: 32 word) n \<longleftrightarrow> n < 16 \<and> bit e n" using n by (simp add: bit_ucast_iff)
  have m: "n = 8 \<or> n = 9 \<Longrightarrow> bit returned_mask n" "bit returned_mask n \<Longrightarrow> n < 16" using returned_mask_bits by auto
  have r: "bit (returned_eflags e) n \<longleftrightarrow> bit e n \<and> n \<noteq> 16 \<and> n \<noteq> 18" unfolding returned_eflags_def bit_clear by simp
  show "bit ((handler_eflags e AND NOT returned_mask) OR (ucast (ucast e :: 16 word) AND returned_mask)) n = bit (returned_eflags e) n"
    unfolding bit_or_iff bit_and_iff bit_not_iff_eq u r handler_eflags_bits
    using n m by auto
qed

lemma rsp_fields [simp]:
  "core (RSP_COMMIT c) = core c" "sregs (RSP_COMMIT c) = sregs c" "memory (RSP_COMMIT c) = memory c" "a20 (RSP_COMMIT c) = a20 c"
  "core (RSP_SPECULATIVE c) = core c" "sregs (RSP_SPECULATIVE c) = sregs c" "memory (RSP_SPECULATIVE c) = memory c"
  "a20 (RSP_SPECULATIVE c) = a20 c" "idtr_base (RSP_SPECULATIVE c) = idtr_base c" "idtr_limit (RSP_SPECULATIVE c) = idtr_limit c"
  by (simp_all add: RSP_COMMIT_def RSP_SPECULATIVE_def)

lemma popped3_fields:
  fixes c :: real_cpu
  defines "p \<equiv> popped (popped (popped c))"
  shows "gen_reg (core p) = (gen_reg (core c))(RSP_reg := set_rx (SP c + 6) (rrx RSP_reg c))" "flags (core p) = flags (core c)"
    "selector (sregs p t) = selector (sregs c t)" "seg_base (sregs p t) = seg_base (sregs c t)"
  by (rule ext) (simp_all add: p_def touched_def mark_ok_def add.commute [of 6])

lemma setEFlags_fields [simp]:
  "gen_reg (core (setEFlags v c)) = gen_reg (core c)" "sregs (setEFlags v c) = sregs c"
  "eflags (flags (core (setEFlags v c))) = v" "lf_status (flags (core (setEFlags v c))) = 0"
  by (simp_all add: setEFlags_def Let_def upd_flags_def)



end
