(* ===== verification/OS_Switch.thy ===== *)
theory OS_Switch
  imports OS_Kernel Bochs_Real
begin

unbundle bit_operations_syntax

section \<open>Process switches on the emulated CPU\<close>

text \<open>
  The two halves of the timer routine of \<^verbatim>\<open>project6/kernel.asm\<close> that save and load a process's registers, as
  the 16-bit instructions of \<open>Bochs_Real\<close> run them: \<^verbatim>\<open>timer_ISR\<close> up to its last push, and
  \<^verbatim>\<open>_returnFromTimer\<close> from the switch of the stack to its \<^verbatim>\<open>iret\<close>. The scheduler
  that runs between the two is \<open>OS_Sched\<close>; here it is any code that leaves the process's saved words alone and puts
  its segment and stack pointer into BX and CX, as the pops before the switch do. An instruction is already decoded: fetch and
  decoding are not modelled, and the lengths of the instructions only move the instruction pointer.
\<close>

subsection \<open>Code\<close>

text \<open>A piece of assembly: the instructions with their executors, run one after the other as the main loop does, with the
  instruction pointer moved on before each.\<close>

type_synonym asm = "(executor \<times> instruction) list"

definition fetched :: "instruction \<Rightarrow> real_cpu \<Rightarrow> real_cpu" where
  "fetched i c = put_rrx RIP_reg (rrx RIP_reg c + of_nat (ilen i)) c"

primrec run :: "asm \<Rightarrow> real_cpu \<Rightarrow> real_cpu fallible" where
  "run [] c = Inr c"
| "run (p # ps) c = and_then (fst p (snd p) (fetched (snd p) c)) (run ps)"

definition on_reg :: "nat \<Rightarrow> instruction" where
  "on_reg n = plain\<lparr>i8 := (i8 plain)\<lparr>rm := n\<rparr>\<rparr>"

definition on_regs :: "nat \<Rightarrow> nat \<Rightarrow> instruction" where
  "on_regs n m = plain\<lparr>i8 := (i8 plain)\<lparr>nnn := n, rm := m\<rparr>, ilen := 2\<rparr>"

text \<open>What the routine keeps: general registers and segment registers.\<close>

datatype source = Reg nat | Seg nat

primrec source_value :: "source \<Rightarrow> real_cpu \<Rightarrow> 16 word" where
  "source_value (Reg n) c = rx n c"
| "source_value (Seg s) c = selector (sregs c s)"

primrec push_of :: "source \<Rightarrow> executor \<times> instruction" where
  "push_of (Reg n) = (PUSH_RX, on_reg n)"
| "push_of (Seg s) = (if s = DS then PUSH16_DS else PUSH16_ES, plain)"

primrec pop_of :: "source \<Rightarrow> executor \<times> instruction" where
  "pop_of (Reg n) = (POP_RX, on_reg n)"
| "pop_of (Seg s) = (if s = DS then POP16_DS else POP16_ES, plain)"

definition proper :: "source \<Rightarrow> bool" where
  "proper s \<longleftrightarrow> (case s of Reg n \<Rightarrow> n < 8 \<and> n \<noteq> RSP_reg | Seg t \<Rightarrow> t \<in> {DS, ES})"

subsection \<open>Pushing and popping a context\<close>

lemma run_append: "run (ps @ qs) c = and_then (run ps c) (run qs)"
proof (induction ps arbitrary: c)
  case (Cons p ps)
  have "run (ps @ qs) = (\<lambda>y. and_then (run ps y) (run qs))" by (rule ext) (rule Cons)
  thus ?case by (simp add: and_then_assoc)
qed simp

lemma pushed_fetched: "pushed v (fetched i c) = fetched i (pushed v c)"
proof -
  have "on_core (upd_reg RSP_reg f) (on_core (upd_reg RIP_reg g) d) = on_core (upd_reg RIP_reg g) (on_core (upd_reg RSP_reg f) d)" for f g d
    by (simp add: on_core_def upd_reg_def fun_upd_twist)
  thus ?thesis by (simp add: pushed_def fetched_def)
qed

lemma fetched_fields [simp]:
  "sregs (fetched i c) = sregs c" "memory (fetched i c) = memory c" "a20 (fetched i c) = a20 c"
  "n \<noteq> RIP_reg \<Longrightarrow> rrx n (fetched i c) = rrx n c" "flags (core (fetched i c)) = flags (core c)"
  "real_stack (fetched i c) = real_stack c" "stack_word x (fetched i c) = stack_word x c"
  "speculative_rsp (fetched i c) = speculative_rsp c"
  by (simp_all add: fetched_def)

lemma source_fetched [simp]: "proper s \<Longrightarrow> source_value s (fetched i c) = source_value s c"
  by (cases s) (simp_all add: proper_def)

lemma source_pushed [simp]: "proper s \<Longrightarrow> source_value s (pushed v c) = source_value s c"
  by (cases s) (auto simp: proper_def)

lemma push_of_step: "proper s \<Longrightarrow> fst (push_of s) (snd (push_of s)) (fetched i c) = push_16 (source_value s c) (fetched i c)"
  by (cases s) (auto simp: proper_def PUSH_RX_def PUSH16_DS_def PUSH16_ES_def on_reg_def)

text \<open>Where the instruction pointer is after a piece of straight code.\<close>

definition moved_on :: "asm \<Rightarrow> real_cpu \<Rightarrow> real_cpu" where
  "moved_on ps c = fold (\<lambda>p. fetched (snd p)) ps c"

lemma moved_on_simps [simp]: "moved_on [] c = c" "moved_on (p # ps) c = moved_on ps (fetched (snd p) c)"
  by (simp_all add: moved_on_def)

lemma pushed_moved_on: "pushed v (moved_on ps c) = moved_on ps (pushed v c)"
  by (induction ps arbitrary: c) (simp_all add: pushed_fetched)

lemma run_pushes:
  assumes "list_all proper ss" "real_stack c" "room (length ss) (SP c)"
  shows "run (map push_of ss) c = Inr (moved_on (map push_of ss) (pushed_all (map (\<lambda>s. source_value s c) ss) c))"
  using assms
proof (induction ss arbitrary: c)
  case (Cons s ss)
  have r: "SP c \<noteq> 1" "room (length ss) (SP c - 2)" using room_step [of "length ss" "SP c"] Cons.prems(3) by simp_all
  have p: "proper s" using Cons.prems(1) by simp
  let ?f = "fetched (snd (push_of s))" and ?v = "source_value s c"
  have "fst (push_of s) (snd (push_of s)) (?f c) = Inr (?f (pushed ?v c))"
    using push_of_step [OF p] push_16_pushed [of "?f c" ?v] Cons.prems(2) r(1) by (simp add: pushed_fetched)
  moreover have m: "map (\<lambda>t. source_value t (?f (pushed ?v c))) ss = map (\<lambda>t. source_value t c) ss"
    using Cons.prems(1) by (auto simp: list_all_iff)
  moreover have "pushed_all vs (?f d) = ?f (pushed_all vs d)" for vs d
    by (induction vs arbitrary: d) (simp_all add: pushed_all_Cons pushed_fetched)
  moreover have "run (map push_of ss) (?f (pushed ?v c)) =
      Inr (moved_on (map push_of ss) (pushed_all (map (\<lambda>t. source_value t c) ss) (?f (pushed ?v c))))"
    using Cons.IH [of "?f (pushed ?v c)", unfolded m] Cons.prems r by simp
  ultimately show ?case by (simp add: pushed_all_Cons)
qed simp

lemma source_popped [simp]: "proper s \<Longrightarrow> source_value s (popped c) = source_value s c"
  by (cases s) (auto simp: proper_def)

text \<open>One pop: it loads its register and leaves the others and the stack's words.\<close>

lemma pop_of_step:
  assumes "proper s" "real_stack c" "SP c \<noteq> 0xFFFF"
  obtains d where "fst (pop_of s) (snd (pop_of s)) (fetched i c) = Inr d" "SP d = SP c + 2" "real_stack d"
    "source_value s d = stack_word (SP c) c" "\<And>t. proper t \<Longrightarrow> t \<noteq> s \<Longrightarrow> source_value t d = source_value t c"
    "\<And>x. stack_word x d = stack_word x c" "sregs d CS = sregs c CS"
    "selector (sregs d SS) = selector (sregs c SS)" "seg_base (sregs d SS) = seg_base (sregs c SS)"
proof -
  let ?c = "RSP_SPECULATIVE (fetched i c)"
  have c: "real_stack (fetched i c)" "SP (fetched i c) \<noteq> 0xFFFF" "real_stack ?c" "SP ?c \<noteq> 0xFFFF"
    using assms(2,3) by (simp_all add: real_stack_def a20_good_def)
  have w: "stack_word x ?c = stack_word x c" for x by (rule stack_word_cong) simp_all
  show ?thesis
  proof (cases s)
    case (Reg n)
    hence n: "n \<noteq> RSP_reg" "n < 8" using assms(1) by (simp_all add: proper_def)
    show ?thesis
      by (rule that [of "put_rx n (stack_word (SP c) c) (popped (fetched i c))"])
        (use n assms c Reg in \<open>auto simp: POP_RX_def on_reg_def pop_16_popped proper_def split: source.splits\<close>)
  next
    case (Seg t)
    let ?d = "RSP_COMMIT (load_seg_reg t (stack_word (SP c) c) (popped ?c))"
    have t: "t = DS \<or> t = ES" using assms(1) Seg by (auto simp: proper_def)
    have e: "fst (pop_of s) (snd (pop_of s)) (fetched i c) = Inr ?d"
      using t c w Seg by (auto simp: POP16_DS_def POP16_ES_def pop_16_popped)
    have "stack_word x ?d = stack_word x (popped ?c)" for x
      by (rule stack_word_cong) (use t in auto)
    moreover have "real_stack ?d = real_stack (popped ?c)" using t by (auto simp: real_stack_def a20_good_def)
    ultimately show ?thesis
      by (intro that [OF e]) (use t assms c w Seg in \<open>auto simp: proper_def split: source.splits\<close>)
  qed
qed

definition pops_clear :: "nat \<Rightarrow> 16 word \<Rightarrow> bool" where
  "pops_clear n sp \<longleftrightarrow> (\<forall>i < n. sp + 2 * of_nat i \<noteq> 0xFFFF)"

lemma pops_clear_step: "pops_clear (Suc n) sp \<Longrightarrow> sp \<noteq> 0xFFFF \<and> pops_clear n (sp + 2)"
proof -
  assume r: "pops_clear (Suc n) sp"
  have "sp + 2 + 2 * of_nat i \<noteq> 0xFFFF" if "i < n" for i
    using r that by (auto simp: pops_clear_def algebra_simps dest: spec [of _ "Suc i"])
  thus ?thesis using r by (auto simp: pops_clear_def dest: spec [of _ 0])
qed

lemma run_pops:
  assumes "list_all proper ss" "distinct ss" "real_stack c" "pops_clear (length ss) (SP c)"
  shows "\<exists>d. run (map pop_of ss) c = Inr d \<and> SP d = SP c + 2 * of_nat (length ss) \<and> real_stack d \<and>
    (\<forall>i < length ss. source_value (ss ! i) d = stack_word (SP c + 2 * of_nat i) c) \<and>
    (\<forall>t. proper t \<and> t \<notin> set ss \<longrightarrow> source_value t d = source_value t c) \<and>
    (\<forall>x. stack_word x d = stack_word x c) \<and> sregs d CS = sregs c CS \<and> selector (sregs d SS) = selector (sregs c SS) \<and>
    seg_base (sregs d SS) = seg_base (sregs c SS)"
  using assms
proof (induction ss arbitrary: c)
  case (Cons s ss)
  have r: "SP c \<noteq> 0xFFFF" "pops_clear (length ss) (SP c + 2)" using pops_clear_step Cons.prems(4) by auto
  have p: "proper s" using Cons.prems(1) by simp
  obtain d where d: "fst (pop_of s) (snd (pop_of s)) (fetched (snd (pop_of s)) c) = Inr d" "SP d = SP c + 2" "real_stack d"
    "source_value s d = stack_word (SP c) c" "\<And>t. proper t \<Longrightarrow> t \<noteq> s \<Longrightarrow> source_value t d = source_value t c"
    "\<And>x. stack_word x d = stack_word x c" "sregs d CS = sregs c CS"
    "selector (sregs d SS) = selector (sregs c SS)" "seg_base (sregs d SS) = seg_base (sregs c SS)"
    using pop_of_step [OF p Cons.prems(3) r(1)] by metis
  obtain e where e: "run (map pop_of ss) d = Inr e" "SP e = SP d + 2 * of_nat (length ss)" "real_stack e"
    "\<forall>i < length ss. source_value (ss ! i) e = stack_word (SP d + 2 * of_nat i) d"
    "\<forall>t. proper t \<and> t \<notin> set ss \<longrightarrow> source_value t e = source_value t d"
    "\<forall>x. stack_word x e = stack_word x d" "sregs e CS = sregs d CS"
    "selector (sregs e SS) = selector (sregs d SS)" "seg_base (sregs e SS) = seg_base (sregs d SS)"
    using Cons.IH [of d] Cons.prems d r by auto
  have "source_value ((s # ss) ! i) e = stack_word (SP c + 2 * of_nat i) c" if "i < length (s # ss)" for i
  proof (cases i)
    case 0
    have "source_value s e = source_value s d" using e(5) p Cons.prems(2) by simp
    thus ?thesis using d(4) 0 by simp
  next
    case (Suc j)
    hence "source_value (ss ! j) e = stack_word (SP d + 2 * of_nat j) d" using e(4) that by simp
    thus ?thesis using d(2,6) Suc by (simp add: algebra_simps)
  qed
  moreover have "source_value t e = source_value t c" if "proper t" "t \<notin> set (s # ss)" for t
    using that e(5) d(5) by simp
  ultimately have "run (map pop_of (s # ss)) c = Inr e \<and> SP e = SP c + 2 * of_nat (length (s # ss)) \<and> real_stack e \<and>
    (\<forall>i < length (s # ss). source_value ((s # ss) ! i) e = stack_word (SP c + 2 * of_nat i) c) \<and>
    (\<forall>t. proper t \<and> t \<notin> set (s # ss) \<longrightarrow> source_value t e = source_value t c) \<and>
    (\<forall>x. stack_word x e = stack_word x c) \<and> sregs e CS = sregs c CS \<and> selector (sregs e SS) = selector (sregs c SS) \<and>
    seg_base (sregs e SS) = seg_base (sregs c SS)"
    using d(1,2,6-) e(1,2,3,6-) by (simp add: algebra_simps)
  thus ?case by blast
qed simp

section \<open>The timer routine of the kernel\<close>

text \<open>\<^verbatim>\<open>timer_ISR\<close> of \<^verbatim>\<open>project6/kernel.asm\<close>: what it pushes, and what the end of
  \<^verbatim>\<open>_returnFromTimer\<close> pops.\<close>

definition saved_registers :: "source list" where
  "saved_registers = [Reg 3, Reg 1, Reg 2, Reg 6, Reg 7, Reg 5, Reg 0, Seg DS, Seg ES]"

definition loaded_registers :: "source list" where
  "loaded_registers = [Seg ES, Seg DS, Reg 0, Reg 5, Reg 7, Reg 6, Reg 2, Reg 1, Reg 3]"

definition timer_save :: asm where
  "timer_save = (CLI, plain) # map push_of saved_registers"

definition timer_resume :: asm where
  "timer_resume = [(MOV_GwEwR, on_regs RSP_reg 1), (MOV_SwEw, on_regs SS 3)] @ map pop_of loaded_registers @
     [(STI, plain), (IRET16, plain)]"

lemma registers_reversed: "loaded_registers = rev saved_registers"
  by (simp add: loaded_registers_def saved_registers_def)

lemma registers_proper: "list_all proper saved_registers" "list_all proper loaded_registers" "distinct loaded_registers"
  "length saved_registers = 9" "length loaded_registers = 9"
  by (simp_all add: saved_registers_def loaded_registers_def proper_def)

lemma pushed_all_append: "pushed_all (xs @ ys) c = pushed_all ys (pushed_all xs c)"
  by (simp add: pushed_all_def)

text \<open>Words that lay on the stack stay there under further pushes.\<close>

lemma stack_word_above:
  assumes "real_stack c" "room (length vs) (SP c)" "SP c + 2 * of_nat j \<noteq> 0xFFFF" "j + length vs \<le> 0x7FFE"
  shows "stack_word (SP c + 2 * of_nat j) (pushed_all vs c) = stack_word (SP c + 2 * of_nat j) c"
  using assms(2,4)
proof (induction vs rule: rev_induct)
  case (snoc v vs)
  let ?p = "pushed_all vs c" and ?x = "SP c + 2 * of_nat j" and ?n = "j + length vs + 1"
  have r: "real_stack ?p" "SP ?p = SP c - 2 * of_nat (length vs)" using assms(1) by (simp_all add: pushed_all_fields)
  have ne: "SP ?p \<noteq> 1" using snoc.prems(1) unfolding r(2) by (simp add: room_def)
  have "apart (?x + 2 - 2 * of_nat (Suc 0)) (?x + 2 - 2 * of_nat (Suc ?n))"
    using snoc.prems(2) by (intro apart_slots) simp_all
  moreover have "?x + 2 - 2 * of_nat (Suc 0) = ?x" "?x + 2 - 2 * of_nat (Suc ?n) = SP ?p - 2"
    unfolding r(2) by (simp_all add: algebra_simps)
  ultimately have "stack_word ?x (pushed v ?p) = stack_word ?x ?p"
    using stack_word_pushed(2) [OF r(1) ne assms(3), of v] by simp
  thus ?case using snoc room_mono [OF snoc.prems(1), of "length vs"] by (simp add: pushed_all_snoc)
qed simp

lemma moved_on_fields [simp]:
  "sregs (moved_on ps c) = sregs c" "memory (moved_on ps c) = memory c" "a20 (moved_on ps c) = a20 c"
  "n \<noteq> RIP_reg \<Longrightarrow> rrx n (moved_on ps c) = rrx n c" "stack_word x (moved_on ps c) = stack_word x c"
  "real_stack (moved_on ps c) = real_stack c"
  by (induction ps arbitrary: c) simp_all

text \<open>The process's stack once the routine has saved its registers: twelve words, the top first.\<close>

definition context_of :: "real_cpu \<Rightarrow> 16 word list" where
  "context_of p = map (\<lambda>s. source_value s p) loaded_registers @ [IP p, selector (sregs p CS), frame_flags p]"

lemma length_context [simp]: "length (context_of p) = 12"
  by (simp add: context_of_def registers_proper)

lemma in_handler_source: "in_handler v p c \<Longrightarrow> proper s \<Longrightarrow> source_value s c = source_value s p"
  by (cases s) (auto simp: in_handler_def proper_def)

lemma clear_eflag_stack [simp]:
  "real_stack (clear_eflag n c) = real_stack c" "stack_word x (clear_eflag n c) = stack_word x c" "rrx m (clear_eflag n c) = rrx m c"
  "sregs (clear_eflag n c) = sregs c"
  by (simp_all add: clear_eflag_def real_stack_def a20_good_def stack_word_def stack_byte_def phys_byte_def get_laddr32_def)

lemma source_clear [simp]: "source_value s (clear_eflag n c) = source_value s c"
  by (cases s) simp_all

lemma timer_saved:
  assumes h: "in_handler v p c" and room: "room 12 (SP p)"
  shows "\<exists>d. run timer_save c = Inr d \<and> SP d = SP p - 24 \<and> real_stack d \<and> a20 d = a20 c \<and>
    selector (sregs d SS) = selector (sregs p SS) \<and> seg_base (sregs d SS) = seg_base (sregs p SS) \<and>
    (\<forall>i < 12. stack_word (SP d + 2 * of_nat i) d = context_of p ! i)"
proof -
  let ?c = "clear_eflag IF_bit (fetched plain c)" and ?vs = "map (\<lambda>s. source_value s p) saved_registers"
  let ?d = "moved_on (map push_of saved_registers) (pushed_all ?vs ?c)"
  have c: "real_stack ?c" "SP ?c = SP p - 6" using h by (simp_all add: in_handler_def)
  have room9: "room 9 (SP ?c)" unfolding c(2) using room by (auto simp: room_def dest: spec [of _ "i + 3" for i])
  have vs: "map (\<lambda>s. source_value s ?c) saved_registers = ?vs"
    using registers_proper(1) in_handler_source [OF h] by (auto simp: list_all_iff)
  have run: "run timer_save c = Inr ?d"
    using run_pushes [OF registers_proper(1) c(1)] room9 unfolding vs registers_proper(4) by (simp add: timer_save_def CLI_def)
  have len: "length ?vs = 9" using registers_proper by simp
  have sp: "SP ?d = SP p - 24" using SP_pushed_all [OF c(1), of ?vs] c(2) len by simp
  have w: "stack_word x ?d = stack_word x (pushed_all ?vs ?c)" for x by simp
  have low: "stack_word (SP ?d + 2 * of_nat i) ?d = context_of p ! i" if i: "i < 9" for i
  proof -
    have "stack_word (SP ?c - 2 * of_nat (Suc (8 - i))) (pushed_all ?vs ?c) = ?vs ! (8 - i)"
      by (rule stack_word_pushed_all [OF c(1)]) (use room9 i len in simp_all)
    moreover have "SP ?c - 2 * of_nat (Suc (8 - i)) = SP ?d + 2 * of_nat i"
      unfolding c(2) sp using i by (simp add: of_nat_diff algebra_simps)
    moreover have "?vs ! (8 - i) = context_of p ! i"
      using i registers_proper(4) by (simp add: context_of_def nth_append registers_reversed rev_nth)
    ultimately show ?thesis by (simp add: w)
  qed
  have high: "stack_word (SP ?d + 2 * of_nat (9 + j)) ?d = context_of p ! (9 + j)" if j: "j < 3" for j
  proof -
    have x: "SP ?d + 2 * of_nat (9 + j) = SP ?c + 2 * of_nat j" unfolding c(2) sp by (simp add: algebra_simps)
    have "SP ?c + 2 * of_nat j \<noteq> 0xFFFF" unfolding c(2)
      using room_3_pops [OF room_mono [OF room, of 3]] j by (auto simp: less_Suc_eq numeral_3_eq_3 algebra_simps)
    hence "stack_word (SP ?c + 2 * of_nat j) (pushed_all ?vs ?c) = stack_word (SP ?c + 2 * of_nat j) ?c"
      using stack_word_above [OF c(1), of ?vs j] room9 len j by simp
    moreover have "stack_word (SP ?c + 2 * of_nat j) c = [IP p, selector (sregs p CS), frame_flags p] ! j"
      unfolding c(2) using h j by (auto simp: in_handler_def less_Suc_eq numeral_3_eq_3 algebra_simps)
    ultimately show ?thesis unfolding w x by (simp add: context_of_def nth_append registers_proper)
  qed
  have "stack_word (SP ?d + 2 * of_nat i) ?d = context_of p ! i" if i: "i < 12" for i
    using low [of i] high [of "i - 9"] i by (cases "i < 9") simp_all
  moreover have "real_stack ?d" "a20 ?d = a20 c" using pushed_all_fields(1) [OF c(1), of ?vs] keeps_restD(7) [OF keeps_rest_pushed_all [of ?c ?vs]]
    by (simp_all add: clear_eflag_def)
  moreover obtain x where "sregs (pushed_all ?vs ?c) SS = (sregs ?c SS)\<lparr>valid := x\<rparr>" using pushed_all_fields(7) [OF c(1), of ?vs] by blast
  hence "selector (sregs ?d SS) = selector (sregs p SS) \<and> seg_base (sregs ?d SS) = seg_base (sregs p SS)"
    using h by (simp add: in_handler_def)
  ultimately show ?thesis using run sp by blast
qed

lemma real_stack_load: "real_stack e \<Longrightarrow> real_stack (load_seg_reg SS v e)"
  by (auto simp: real_stack_def seg_ok_def a20_good_def SegAccessROK_def SegAccessWOK_def)

lemma inhibit_fields [simp]:
  "core (inhibit_by_movss c) = core c" "sregs (inhibit_by_movss c) = sregs c" "memory (inhibit_by_movss c) = memory c"
  "a20 (inhibit_by_movss c) = a20 c"
  by (simp_all add: inhibit_by_movss_def)

text \<open>The first two instructions take the processor to the process's stack.\<close>

lemma stack_switched:
  assumes "real_stack e"
  shows "\<exists>g. run [(MOV_GwEwR, on_regs RSP_reg 1), (MOV_SwEw, on_regs SS 3)] e = Inr g \<and> SP g = rx 1 e \<and> real_stack g \<and>
    (\<forall>x. stack_word x g = stack_word x (load_seg_reg SS (rx 3 e) e)) \<and> selector (sregs g SS) = rx 3 e \<and>
    seg_base (sregs g SS) = push_bit 4 (ucast (rx 3 e)) \<and> sregs g CS = sregs e CS"
proof -
  let ?a = "put_rx RSP_reg (rx 1 e) (fetched (on_regs RSP_reg 1) e)"
  let ?g = "inhibit_by_movss (load_seg_reg SS (rx 3 e) (fetched (on_regs SS 3) ?a))"
  have "run [(MOV_GwEwR, on_regs RSP_reg 1), (MOV_SwEw, on_regs SS 3)] e = Inr ?g"
    by (simp add: MOV_GwEwR_def MOV_SwEw_def on_regs_def plain_def)
  moreover have "real_stack ?g"
    using real_stack_load [of e "rx 3 e"] assms by (simp add: real_stack_def a20_good_def)
  moreover have "stack_word x ?g = stack_word x (load_seg_reg SS (rx 3 e) e)" for x by (rule stack_word_cong) simp_all
  ultimately show ?thesis by auto
qed

lemma masked_part: "((a AND NOT m) OR (b AND m)) AND m = b AND m" for a b m :: "32 word"
  by (rule bit_word_eqI) (auto simp: bit_simps)

lemma iret_tail:
  assumes "real_stack g" "pops_clear 3 (SP g)" "0xFFFF \<le> limit_scaled (sregs g CS)"
  shows "\<exists>f. run [(STI, plain), (IRET16, plain)] g = Inr f \<and> (\<forall>s. proper s \<longrightarrow> source_value s f = source_value s g) \<and>
    SP f = SP g + 6 \<and> rrx RIP_reg f = ucast (stack_word (SP g) g) \<and> selector (sregs f CS) = stack_word (SP g + 2) g \<and>
    seg_base (sregs f CS) = push_bit 4 (ucast (selector (sregs f CS))) \<and>
    selector (sregs f SS) = selector (sregs g SS) \<and> seg_base (sregs f SS) = seg_base (sregs g SS) \<and>
    eflags (flags (core f)) AND returned_mask = ucast (stack_word (SP g + 4) g) AND returned_mask"
proof -
  obtain h where h: "STI plain (fetched plain g) = Inr h" "sregs h = sregs g" "memory h = memory g" "a20 h = a20 g"
    "\<And>n. n \<noteq> RIP_reg \<Longrightarrow> rrx n h = rrx n g"
    by (cases "eflag IF_bit (fetched plain g)")
      (use that in \<open>auto simp: STI_def assert_event_flag_def assert_eflag_def\<close>)
  let ?h = "fetched plain h"
  have w: "stack_word x ?h = stack_word x g" for x by (rule stack_word_cong) (simp_all add: h)
  have sp: "SP ?h = SP g" by (simp add: h)
  have r: "real_stack ?h" using assms(1) h by (simp add: real_stack_def a20_good_def)
  have ne: "SP ?h \<noteq> 0xFFFF" "SP ?h + 2 \<noteq> 0xFFFF" "SP ?h + 4 \<noteq> 0xFFFF"
    using assms(2) unfolding sp by (auto simp: pops_clear_def dest: spec [of _ 0] spec [of _ 1] spec [of _ 2])
  note i = iret16_frame [OF r ne, of plain, unfolded w sp]
  let ?p = "popped (popped (popped (RSP_SPECULATIVE (?h\<lparr>disable_NMI := False\<rparr>))))"
  let ?f = "RSP_COMMIT (write_flags (stack_word (SP g + 4) g) True True
    (put_rrx RIP_reg (ucast (stack_word (SP g) g)) (load_seg_reg CS (stack_word (SP g + 2) g) ?p)))"
  have "run [(STI, plain), (IRET16, plain)] g = Inr ?f" using i assms(3) h by simp
  moreover have "source_value s ?f = source_value s g" if "proper s" for s
    using that h by (cases s) (auto simp: proper_def write_flags_returned popped3_fields)
  moreover have "SP ?f = SP g + 6" using sp by (simp add: write_flags_returned popped3_fields)
  moreover have "eflags (flags (core ?f)) AND returned_mask = ucast (stack_word (SP g + 4) g) AND returned_mask"
    by (simp only: write_flags_returned rsp_fields setEFlags_fields masked_part)
  moreover have "rrx RIP_reg ?f = ucast (stack_word (SP g) g)" by (simp add: write_flags_returned)
  moreover have "selector (sregs ?f CS) = stack_word (SP g + 2) g" "seg_base (sregs ?f CS) = push_bit 4 (ucast (selector (sregs ?f CS)))"
    "selector (sregs ?f SS) = selector (sregs g SS)" "seg_base (sregs ?f SS) = seg_base (sregs g SS)"
    using h by (simp_all add: write_flags_returned popped3_fields)
  ultimately show ?thesis by blast
qed

lemma pops_clear_parts: "pops_clear 12 sp \<Longrightarrow> pops_clear 9 sp \<and> pops_clear 3 (sp + 18)"
proof -
  assume r: "pops_clear 12 sp"
  have "sp + 18 + 2 * of_nat i \<noteq> 0xFFFF" if "i < 3" for i
    using r that by (auto simp: pops_clear_def algebra_simps dest: spec [of _ "9 + i"])
  thus ?thesis using r by (auto simp: pops_clear_def)
qed

text \<open>The word of the saved context number \<open>i\<close>, at the segment and stack pointer in BX and CX.\<close>

definition context_word :: "nat \<Rightarrow> real_cpu \<Rightarrow> 16 word" where
  "context_word i e = stack_word (rx 1 e + 2 * of_nat i) (load_seg_reg SS (rx 3 e) e)"

lemma resumed:
  assumes "real_stack e" "0xFFFF \<le> limit_scaled (sregs e CS)" "pops_clear 12 (rx 1 e)"
  shows "\<exists>f. run timer_resume e = Inr f \<and> (\<forall>i < 9. source_value (loaded_registers ! i) f = context_word i e) \<and>
    rrx RIP_reg f = ucast (context_word 9 e) \<and> selector (sregs f CS) = context_word 10 e \<and>
    seg_base (sregs f CS) = push_bit 4 (ucast (selector (sregs f CS))) \<and>
    eflags (flags (core f)) AND returned_mask = ucast (context_word 11 e) AND returned_mask \<and>
    SP f = rx 1 e + 24 \<and> selector (sregs f SS) = rx 3 e \<and> seg_base (sregs f SS) = push_bit 4 (ucast (rx 3 e))"
proof -
  note pc = pops_clear_parts [OF assms(3)]
  obtain a where a: "run [(MOV_GwEwR, on_regs RSP_reg 1), (MOV_SwEw, on_regs SS 3)] e = Inr a" "SP a = rx 1 e" "real_stack a"
    "\<forall>x. stack_word x a = stack_word x (load_seg_reg SS (rx 3 e) e)" "selector (sregs a SS) = rx 3 e"
    "seg_base (sregs a SS) = push_bit 4 (ucast (rx 3 e))" "sregs a CS = sregs e CS"
    using stack_switched [OF assms(1)] by blast
  obtain g where g: "run (map pop_of loaded_registers) a = Inr g" "SP g = SP a + 2 * of_nat 9" "real_stack g"
    "\<forall>i < 9. source_value (loaded_registers ! i) g = stack_word (SP a + 2 * of_nat i) a" "\<forall>x. stack_word x g = stack_word x a"
    "sregs g CS = sregs a CS" "selector (sregs g SS) = selector (sregs a SS)" "seg_base (sregs g SS) = seg_base (sregs a SS)"
    using run_pops [OF registers_proper(2,3) a(3)] pc a(2) unfolding registers_proper(5) by auto
  have sp: "SP g = rx 1 e + 18" using g(2) a(2) by simp
  obtain f where f: "run [(STI, plain), (IRET16, plain)] g = Inr f" "\<forall>s. proper s \<longrightarrow> source_value s f = source_value s g"
    "SP f = SP g + 6" "rrx RIP_reg f = ucast (stack_word (SP g) g)" "selector (sregs f CS) = stack_word (SP g + 2) g"
    "seg_base (sregs f CS) = push_bit 4 (ucast (selector (sregs f CS)))" "selector (sregs f SS) = selector (sregs g SS)"
    "seg_base (sregs f SS) = seg_base (sregs g SS)"
    "eflags (flags (core f)) AND returned_mask = ucast (stack_word (SP g + 4) g) AND returned_mask"
    using iret_tail [OF g(3)] pc sp assms(2) a(7) g(6) by auto
  have w: "stack_word (rx 1 e + 2 * of_nat i) g = context_word i e" for i using g(5) a(4) by (simp add: context_word_def)
  have w3: "stack_word (SP g) g = context_word 9 e" "stack_word (SP g + 2) g = context_word 10 e" "stack_word (SP g + 4) g = context_word 11 e"
    using w [of 9] w [of 10] w [of 11] unfolding sp by (simp_all add: add.assoc)
  have "source_value (loaded_registers ! i) f = context_word i e" if "i < 9" for i
  proof -
    have "proper (loaded_registers ! i)" using registers_proper(2,5) that by (simp add: list_all_length)
    thus ?thesis using f(2) g(4,5) w that a(2) by simp
  qed
  moreover have "run timer_resume e = Inr f"
    unfolding timer_resume_def run_append using a(1) g(1) f(1) by simp
  ultimately show ?thesis using f w3 sp g(7,8) a(5,6) by (intro exI [of _ f]) simp
qed
declare One_nat_def [simp del]

section \<open>The kernel's resumption of a process\<close>

text \<open>The memory as the kernel's model has it.\<close>

definition kernel_memory :: "real_cpu \<Rightarrow> mem" where
  "kernel_memory e = (\<lambda>a. memory e (of_nat a))"

lemma phys_word: "(of_nat (phys seg off) :: 32 word) = push_bit 4 (ucast (word_of_int seg :: 16 word)) + ucast (word_of_int off :: 16 word)"
proof -
  have u: "(ucast (word_of_int x :: 16 word) :: 32 word) = word_of_int (u16 x)" for x
    by (simp add: u16_def unsigned_ucast_eq ucast_eq uint_word_of_int)
  have "int (phys seg off) = u16 seg * 16 + u16 off" using u16_bounds [of seg] u16_bounds [of off] by (simp add: phys_def)
  hence "(of_nat (phys seg off) :: 32 word) = word_of_int (u16 seg * 16 + u16 off)"
    by (metis of_int_of_nat_eq)
  also have "\<dots> = word_of_int (u16 seg) * 16 + word_of_int (u16 off)" by simp
  finally show ?thesis by (simp add: u push_bit_eq_mult)
qed

lemma bytes_value: "uint (of_bytes_le [a, b] :: 16 word) = uint a + 256 * uint b"
proof -
  let ?w = "of_bytes_le [a, b] :: 16 word"
  have "word_rx (ucast ?w) = ?w" "byte_rl (ucast ?w) = a" "byte_rh (ucast ?w) = b"
    by (rule bit_word_eqI; auto simp: view_defs of_bytes_le_def bit_simps dest: bit_imp_le_length)+
  thus ?thesis using uint_word_rx [of "ucast ?w"] by simp
qed

lemma cut_base: "cut32 (push_bit 4 (ucast (s :: 16 word))) = push_bit 4 (ucast s)"
  by (rule bit_word_eqI) (auto simp: bit_ucast_iff bit_push_bit_iff dest: bit_imp_le_length)

lemma context_word_peek:
  assumes "a20 e = 0xFFFFFFFF" "rx 3 e = word_of_int seg" "rx 1 e = word_of_int sp"
  shows "context_word i e = word_of_int (peek_word seg (sp + 2 * int i) (kernel_memory e))"
proof -
  let ?e = "load_seg_reg SS (rx 3 e) e" and ?off = "\<lambda>k. sp + 2 * int i + k"
  have m: "(0xFFFFFFFF :: 32 word) = - 1" by (simp add: One_nat_def)
  have all: "x AND 0xFFFFFFFF = x" for x :: "32 word" unfolding m by simp
  have b: "stack_byte (word_of_int o') ?e = kernel_memory e (phys seg o')" for o'
    by (simp add: stack_byte_def phys_byte_def get_laddr32_def kernel_memory_def phys_word assms all cut_base)
  have "rx 1 e + 2 * of_nat i = word_of_int (?off 0)" "rx 1 e + 2 * of_nat i + 1 = word_of_int (?off 1)" by (simp_all add: assms(3))
  hence "context_word i e = of_bytes_le [stack_byte (word_of_int (?off 0)) ?e, stack_byte (word_of_int (?off 1)) ?e]"
    unfolding context_word_def stack_word_def by (simp only:)
  also have "\<dots> = of_bytes_le [kernel_memory e (phys seg (?off 0)), kernel_memory e (phys seg (?off 1))]" by (simp only: b)
  finally have "uint (context_word i e) = peek_word seg (sp + 2 * int i) (kernel_memory e)"
    by (simp add: bytes_value peek_word_def)
  thus ?thesis by (metis word_of_int_uint)
qed

text \<open>The registers as a context says.\<close>

definition has_context :: "cpu_context \<Rightarrow> real_cpu \<Rightarrow> bool" where
  "has_context k f \<longleftrightarrow>
     selector (sregs f ES) = word_of_int (cES k) \<and> selector (sregs f DS) = word_of_int (cDS k) \<and>
     rx 0 f = word_of_int (cAX k) \<and> rx 5 f = word_of_int (cBP k) \<and> rx 7 f = word_of_int (cDI k) \<and>
     rx 6 f = word_of_int (cSI k) \<and> rx 2 f = word_of_int (cDX k) \<and> rx 1 f = word_of_int (cCX k) \<and>
     rx 3 f = word_of_int (cBX k) \<and> rrx RIP_reg f = ucast (word_of_int (cIP k) :: 16 word) \<and>
     selector (sregs f CS) = word_of_int (cCS k) \<and> seg_base (sregs f CS) = push_bit 4 (ucast (selector (sregs f CS))) \<and>
     eflags (flags (core f)) AND returned_mask = ucast (word_of_int (cFLAGS k) :: 16 word) AND returned_mask \<and>
     SP f = word_of_int (cSP k)"

lemma resumed_context:
  assumes "real_stack e" "0xFFFF \<le> limit_scaled (sregs e CS)" "a20 e = 0xFFFFFFFF"
    "rx 3 e = word_of_int seg" "rx 1 e = word_of_int sp" "pops_clear 12 (word_of_int sp)"
  shows "\<exists>f. run timer_resume e = Inr f \<and> has_context (returnFromTimer seg sp (kernel_memory e)) f \<and>
    selector (sregs f SS) = word_of_int seg"
proof -
  have w: "context_word i e = word_of_int (peek_word seg (sp + 2 * int i) (kernel_memory e))" for i
    using context_word_peek assms(3-5) by simp
  obtain f where f: "run timer_resume e = Inr f" "\<forall>i < 9. source_value (loaded_registers ! i) f = context_word i e"
    "rrx RIP_reg f = ucast (context_word 9 e)" "selector (sregs f CS) = context_word 10 e"
    "seg_base (sregs f CS) = push_bit 4 (ucast (selector (sregs f CS)))"
    "eflags (flags (core f)) AND returned_mask = ucast (context_word 11 e) AND returned_mask"
    "SP f = rx 1 e + 24" "selector (sregs f SS) = rx 3 e"
    using resumed [of e] assms by metis
  have "\<forall>i < 9. source_value (loaded_registers ! i) f = word_of_int (peek_word seg (sp + 2 * int i) (kernel_memory e))"
    using f(2) w by simp
  thus ?thesis using f(1,3-) w [of 9] w [of 10] w [of 11] assms(4,5)
    by (intro exI [of _ f]) (simp add: has_context_def returnFromTimer_def Let_def loaded_registers_def All_less_Suc numeral_eq_Suc)
qed

text \<open>C9. The emulated CPU, running the code at the end of returnFromTimer, loads exactly the registers that the kernel's model of
  returnFromTimer says: from the twelve words at the given segment and stack pointer ES, DS, AX, BP, DI, SI, DX, CX, BX, the
  instruction pointer, the code segment and the flags, with the stack pointer behind them.\<close>

theorem returnFromTimer_refined:
  assumes "real_stack e" and "0xFFFF \<le> limit_scaled (sregs e CS)" and "a20 e = 0xFFFFFFFF"
    and "rx 3 e = word_of_int seg" and "rx 1 e = word_of_int sp" and "pops_clear 12 (word_of_int sp)"
  shows "\<exists>f. run timer_resume e = Inr f \<and> has_context (returnFromTimer seg sp (kernel_memory e)) f \<and>
    selector (sregs f SS) = word_of_int seg"
  using resumed_context [OF assms] .

text \<open>A processor in the kernel, about to resume what lies at \<open>seg:sp\<close>.\<close>

definition resuming :: "int \<Rightarrow> int \<Rightarrow> mem \<Rightarrow> real_cpu" where
  "resuming seg sp m = put_rx 3 (word_of_int seg) (put_rx 1 (word_of_int sp) (real_machine\<lparr>memory := (\<lambda>a. m (unat a))\<rparr>))"

lemma resuming_ready:
  "real_stack (resuming seg sp m)" "0xFFFF \<le> limit_scaled (sregs (resuming seg sp m) CS)" "a20 (resuming seg sp m) = 0xFFFFFFFF"
  "rx 3 (resuming seg sp m) = word_of_int seg" "rx 1 (resuming seg sp m) = word_of_int sp"
  using real_stack_machine by (simp_all add: resuming_def real_stack_def a20_good_def)

lemma resuming_memory: "returnFromTimer seg sp (kernel_memory (resuming seg' sp' m)) = returnFromTimer seg sp m"
proof -
  have "kernel_memory (resuming seg' sp' m) (phys a b) = m (phys a b)" for a b
  proof -
    have "phys a b < 2 ^ 32" using u16_bounds [of a] u16_bounds [of b] by (simp add: phys_def)
    thus ?thesis by (simp add: kernel_memory_def resuming_def unat_of_nat take_bit_nat_eq_self)
  qed
  thus ?thesis by (simp add: returnFromTimer_def peek_word_def)
qed

lemma pops_clear_even: "even sp \<Longrightarrow> pops_clear n sp"
proof -
  assume e: "even sp"
  have "sp + 2 * of_nat i \<noteq> 0xFFFF" for i
  proof
    assume s: "sp + 2 * of_nat i = 0xFFFF"
    have "even (sp + 2 * of_nat i)" using e by simp
    thus False unfolding s by simp
  qed
  thus ?thesis by (simp add: pops_clear_def)
qed

theorem returnFromTimer_refined_witness:
  "\<exists>f. run timer_resume (resuming 0x3000 (- 256) (initializeProgram 0x3000 (\<lambda>_. 0))) = Inr f \<and>
    has_context (start_context 0x3000) f \<and> selector (sregs f SS) = 0x3000"
proof -
  let ?m = "initializeProgram 0x3000 (\<lambda>_. 0)"
  have "pops_clear 12 (word_of_int (- 256))" by (rule pops_clear_even) simp
  thus ?thesis using returnFromTimer_refined [of "resuming 0x3000 (- 256) ?m" "0x3000" "- 256"] resuming_ready
    by (simp add: resuming_memory initializeProgram_context)
qed

text \<open>A program that initializeProgram prepared starts on the emulated CPU at offset 0 of its segment, with all segment registers on it,
  the general registers 0 and the stack pointer at 0xFF18, and with interrupts off: no timer interrupt takes the processor from it
  until it turns them on (what \<^verbatim>\<open>enableInterrupts\<close> of \<^verbatim>\<open>lib.asm\<close> is for).\<close>

theorem program_starts:
  assumes "m = initializeProgram seg m0"
  shows "\<exists>f. run timer_resume (resuming seg (- 256) m) = Inr f \<and> rrx RIP_reg f = 0 \<and> SP f = 0xFF18 \<and>
    (\<forall>s \<in> {CS, DS, ES, SS}. selector (sregs f s) = word_of_int seg) \<and> (\<forall>n \<in> {0, 1, 2, 3, 5, 6, 7}. rx n f = 0) \<and>
    \<not> eflag IF_bit f"
proof -
  have "pops_clear 12 (word_of_int (- 256))" by (rule pops_clear_even) simp
  then obtain f where f: "run timer_resume (resuming seg (- 256) m) = Inr f" "has_context (start_context seg) f"
    "selector (sregs f SS) = word_of_int seg"
    using resumed_context [of "resuming seg (- 256) m" seg "- 256"] resuming_ready assms
    by (auto simp: resuming_memory initializeProgram_context)
  have u: "(word_of_int (u16 seg) :: 16 word) = word_of_int seg" by (simp add: u16_def word_of_int_eq_iff take_bit_eq_mod)
  have "eflags (flags (core f)) AND returned_mask = 0" using f(2) by (simp add: has_context_def start_context_def)
  hence "\<not> (bit (eflags (flags (core f))) 9 \<and> bit returned_mask 9)" by (metis bit_and_iff bit_0_eq bot_apply bot_bool_def)
  hence flag: "\<not> eflag IF_bit f" using returned_mask_bits(2) by (simp add: eflag_def)
  have "SP f = - 232" using f(2) by (simp add: has_context_def start_context_def)
  moreover have "(0xFF18 :: 16 word) = - 232" by (simp add: One_nat_def)
  ultimately have e: "SP f = 0xFF18" by (simp only:)
  show ?thesis
    by (intro exI [of _ f] conjI f(1) e flag) (use f in \<open>simp_all add: has_context_def start_context_def u\<close>)
qed

theorem program_starts_witness:
  "\<exists>f. run timer_resume (resuming 0x2000 (- 256) (initializeProgram 0x2000 (\<lambda>_. 0x90))) = Inr f \<and> rrx RIP_reg f = 0 \<and>
    \<not> eflag IF_bit f"
  using program_starts [of "initializeProgram 0x2000 (\<lambda>_. 0x90)" "0x2000" "\<lambda>_. 0x90"] by auto

section \<open>Preemption is transparent\<close>

lemma context_kept:
  assumes "\<forall>k < 24. stack_byte (SP d + of_nat k) (load_seg_reg SS (rx 3 e) e) = stack_byte (SP d + of_nat k) d"
    and "rx 1 e = SP d" and "i < 12"
  shows "context_word i e = stack_word (SP d + 2 * of_nat i) d"
proof -
  have "2 * i < 24" "2 * i + 1 < 24" using assms(3) by simp_all
  thus ?thesis using assms(1) [rule_format, of "2 * i"] assms(1) [rule_format, of "2 * i + 1"]
    by (simp add: context_word_def stack_word_def assms(2) add.assoc)
qed

lemma room_pops: "room 12 sp \<Longrightarrow> pops_clear 12 (sp - 24)"
proof -
  assume r: "room 12 sp"
  have "sp - 24 + 2 * of_nat i \<noteq> 0xFFFF" if i: "i < 12" for i
  proof
    assume "sp - 24 + 2 * of_nat i = 0xFFFF"
    hence "sp - 24 + 2 * of_nat i + 2 = 0xFFFF + 2" by simp
    moreover have "sp - 24 + 2 * of_nat i + 2 = sp - 2 * of_nat (11 - i)" using i by (simp add: of_nat_diff algebra_simps)
    moreover have "(0xFFFF + 2 :: 16 word) = 1" by (simp add: One_nat_def)
    moreover have "sp - 2 * of_nat (11 - i) \<noteq> 1" 
      by (rule r [unfolded room_def, THEN conjunct2, rule_format]) simp
    ultimately show False by metis
  qed
  thus ?thesis by (simp add: pops_clear_def)
qed

lemma frame_flags_low: "ucast (frame_flags p) AND returned_mask = fst (read_eflags p) AND returned_mask"
  unfolding frame_flags_def read_eflags_forced
  by (rule bit_word_eqI) (use returned_mask_bits(3) in \<open>auto simp: bit_and_iff bit_ucast_iff\<close>)

text \<open>C2. A timer interrupt is transparent to the process it takes the processor from. Whatever runs in between, if it leaves the 24 bytes
  below the process's stack pointer alone and hands its segment and stack pointer back, the process goes on where it was: at
  the same instruction, with the same general and segment registers, stack pointer and flags.\<close>

theorem preempted_process_resumes:
  assumes "frame_fits v p" and "room 12 (SP p)" and "seg_base (sregs p SS) = push_bit 4 (ucast (selector (sregs p SS)))"
    and "interrupt v p = Inr c" and "run timer_save c = Inr d"
    and "real_stack e" and "0xFFFF \<le> limit_scaled (sregs e CS)" and "rx 3 e = selector (sregs d SS)" and "rx 1 e = SP d"
    and "\<forall>k < 24. stack_byte (SP d + of_nat k) (load_seg_reg SS (rx 3 e) e) = stack_byte (SP d + of_nat k) d"
  shows "\<exists>f. run timer_resume e = Inr f \<and> (\<forall>n < 8. rx n f = rx n p) \<and> IP f = IP p \<and>
    (\<forall>s \<in> {CS, DS, ES, SS}. selector (sregs f s) = selector (sregs p s)) \<and> seg_base (sregs f SS) = seg_base (sregs p SS) \<and>
    eflags (flags (core f)) AND 0x7FD5 = fst (read_eflags p) AND 0x7FD5"
proof -
  have c: "c = handler_state v (framed p)" using interrupt_real [OF assms(1)] assms(4) by simp
  have d: "SP d = SP p - 24" "selector (sregs d SS) = selector (sregs p SS)"
    "\<forall>i < 12. stack_word (SP d + 2 * of_nat i) d = context_of p ! i"
    using timer_saved [OF in_handler_state [OF assms(1)] assms(2)] assms(5) unfolding c by auto
  have w: "context_word i e = context_of p ! i" if "i < 12" for i
    using context_kept [OF assms(10,9) that] d(3) that by simp
  have pc: "pops_clear 12 (rx 1 e)" using room_pops [OF assms(2)] by (simp add: assms(9) d(1))
  obtain f where f: "run timer_resume e = Inr f" "\<forall>i < 9. source_value (loaded_registers ! i) f = context_word i e"
    "rrx RIP_reg f = ucast (context_word 9 e)" "selector (sregs f CS) = context_word 10 e"
    "eflags (flags (core f)) AND returned_mask = ucast (context_word 11 e) AND returned_mask"
    "SP f = rx 1 e + 24" "selector (sregs f SS) = rx 3 e" "seg_base (sregs f SS) = push_bit 4 (ucast (rx 3 e))"
    using resumed [OF assms(6,7) pc] by blast
  have ctx: "context_of p ! i = source_value (loaded_registers ! i) p" if "i < 9" for i
    using that by (simp add: context_of_def nth_append registers_proper)
  have "\<forall>i < 9. source_value (loaded_registers ! i) f = source_value (loaded_registers ! i) p"
    using f(2) w ctx by simp
  hence s: "\<forall>s \<in> set loaded_registers. source_value s f = source_value s p"
    by (simp only: all_set_conv_all_nth registers_proper)
  have top: "context_of p ! 9 = IP p" "context_of p ! 10 = selector (sregs p CS)" "context_of p ! 11 = frame_flags p"
    by (simp_all add: context_of_def nth_append registers_proper)
  have sp: "SP f = SP p" using f(6) assms(9) d(1) by simp
  have regs: "rx n f = rx n p" if "n < 8" for n
  proof -
    have "n \<in> {0, 1, 2, 3, 4, 5, 6, 7}" using that by (simp only: insert_iff empty_iff) linarith
    thus ?thesis using s sp by (auto simp: loaded_registers_def)
  qed
  have segs: "selector (sregs f DS) = selector (sregs p DS)" "selector (sregs f ES) = selector (sregs p ES)"
    using s by (simp_all add: loaded_registers_def)
  have "word_rx (ucast x) = x" for x :: "16 word"
    by (rule bit_word_eqI) (auto simp: word_rx_def bit_simps dest: bit_imp_le_length)
  hence "IP f = IP p" using f(3) w [of 9] top by simp
  thus ?thesis using f(1,4,5,7,8) w [of 10] w [of 11] top regs segs assms(3,8) d(2) frame_flags_low [of p]
    by (intro exI [of _ f]) simp
qed

theorem preempted_process_resumes_witness:
  "\<exists>c d f. interrupt 8 real_machine = Inr c \<and> run timer_save c = Inr d \<and>
    run timer_resume (put_rx 3 0x2000 (put_rx 1 (SP d) (real_machine\<lparr>memory := memory d\<rparr>))) = Inr f \<and>
    (\<forall>n < 8. rx n f = rx n real_machine) \<and> IP f = IP real_machine"
proof -
  let ?p = real_machine and ?c = "handler_state 8 (framed real_machine)"
  have F: "frame_fits 8 ?p" by (simp add: frame_fits_def frame_room word_rx_def)
  have r: "room 12 (SP ?p)"
  proof -
    have "(0 :: 16 word) - 2 * of_nat i \<noteq> 1" for i
    proof
      assume s: "(0 :: 16 word) - 2 * of_nat i = 1"
      have "even ((0 :: 16 word) - 2 * of_nat i)" by simp
      thus False unfolding s by simp
    qed
    thus ?thesis by (simp add: room_def word_rx_def)
  qed
  obtain d where d: "run timer_save ?c = Inr d" "SP d = SP ?p - 24" "real_stack d" "a20 d = a20 ?c"
    "selector (sregs d SS) = 0x2000" "seg_base (sregs d SS) = push_bit 4 0x2000"
    using timer_saved [OF in_handler_state [OF F] r] by auto
  let ?e = "put_rx 3 0x2000 (put_rx 1 (SP d) (?p\<lparr>memory := memory d\<rparr>))"
  have "a20 (framed ?p) = 0xFFFFFFFF" using keeps_restD(7) [OF framed_facts(5) [OF F]] by simp
  hence a: "a20 d = 0xFFFFFFFF" using d(4) by (simp add: handler_facts)
  have "stack_byte x (load_seg_reg SS (rx 3 ?e) ?e) = stack_byte x d" for x
    using a d(6) by (simp add: stack_byte_def phys_byte_def get_laddr32_def)
  hence k: "\<forall>k < 24. stack_byte (SP d + of_nat k) (load_seg_reg SS (rx 3 ?e) ?e) = stack_byte (SP d + of_nat k) d" by blast
  have s: "real_stack ?e" "0xFFFF \<le> limit_scaled (sregs ?e CS)" "rx 3 ?e = selector (sregs d SS)" "rx 1 ?e = SP d"
    using real_stack_machine d(5) by (simp_all add: real_stack_def a20_good_def)
  have "seg_base (sregs ?p SS) = push_bit 4 (ucast (selector (sregs ?p SS)))" by simp
  from preempted_process_resumes [OF F r this interrupt_real [OF F] d(1) s k] show ?thesis
    using interrupt_real [OF F] d(1) by blast
qed

end
