(* ===== verification/Bochs_DMA.thy ===== *)
theory Bochs_DMA
  imports OS_Prelude
begin

unbundle bit_operations_syntax

section \<open>The DMA controllers of the emulator\<close>

text \<open>
  Models \<^verbatim>\<open>iodev/dma.cc\<close>: two 8237 controllers with four channels each, DMA-1 cascaded
  through channel 0 of DMA-2 (channel 4). \<open>s False\<close> is DMA-1 and \<open>s True\<close> DMA-2, as in
  \<^verbatim>\<open>s[ma_sl]\<close>. Arrays are functions of the index; every index the code uses is masked to
  0..3, and to 0..15 for the extra page registers. The line HRQ of the CPU
  (\<^verbatim>\<open>pc_system.cc\<close>), physical memory and the state of the attached devices are part of the
  state, because a device handler may call back into the controller. \<open>panics\<close> collects the
  messages of \<^verbatim>\<open>BX_PANIC\<close>; execution goes on after one.
\<close>

subsection \<open>State\<close>

record dma_mode =
  mode_type :: nat
  address_decrement :: bool
  autoinit_enable :: bool
  transfer_type :: nat

record dma_chan =
  mode :: dma_mode
  base_address :: "16 word"
  current_address :: "16 word"
  base_count :: "16 word"
  current_count :: "16 word"
  page_reg :: byte
  used :: bool

record dma_ctrl =
  DRQ :: "nat \<Rightarrow> bool"
  DACK :: "nat \<Rightarrow> bool"
  masked :: "nat \<Rightarrow> bool"
  flip_flop :: bool
  status_reg :: byte
  command_reg :: byte
  ctrl_disabled :: bool
  chan :: "nat \<Rightarrow> dma_chan"

record 'd dma =
  s :: "bool \<Rightarrow> dma_ctrl"
  HLDA :: bool
  TC :: bool
  ext_page_reg :: "nat \<Rightarrow> byte"
  HRQ :: bool
  memory :: "nat \<Rightarrow> byte"
  device :: 'd
  panics :: "string list"

text \<open>The handlers the devices register; they get and return the whole state.\<close>

record 'd dma_handlers =
  dmaRead8 :: "nat \<Rightarrow> (byte \<Rightarrow> 'd dma \<Rightarrow> 'd dma) option"
  dmaWrite8 :: "nat \<Rightarrow> ('d dma \<Rightarrow> byte \<times> 'd dma) option"
  dmaRead16 :: "nat \<Rightarrow> (16 word \<Rightarrow> 'd dma \<Rightarrow> 'd dma) option"
  dmaWrite16 :: "nat \<Rightarrow> ('d dma \<Rightarrow> 16 word \<times> 'd dma) option"

definition panic :: "string \<Rightarrow> 'd dma \<Rightarrow> 'd dma" where
  "panic msg d = d\<lparr>panics := panics d @ [msg]\<rparr>"

definition upd_s :: "bool \<Rightarrow> (dma_ctrl \<Rightarrow> dma_ctrl) \<Rightarrow> 'd dma \<Rightarrow> 'd dma" where
  "upd_s k f d = d\<lparr>s := (s d)(k := f (s d k))\<rparr>"

definition upd_chan :: "bool \<Rightarrow> nat \<Rightarrow> (dma_chan \<Rightarrow> dma_chan) \<Rightarrow> 'd dma \<Rightarrow> 'd dma" where
  "upd_chan k c f = upd_s k (\<lambda>ct. ct\<lparr>chan := (chan ct)(c := f (chan ct c))\<rparr>)"

definition status_bit :: "nat \<Rightarrow> byte" where
  "status_bit n = push_bit n 1"

subsection \<open>Channels and reset\<close>

definition registerDMA8Channel :: "nat \<Rightarrow> 'd dma \<Rightarrow> nat \<times> 'd dma" where
  "registerDMA8Channel channel d =
     (if channel > 3 then (0, panic ''registerDMA8Channel: invalid channel'' d)
      else if used (chan (s d False) channel) then (0, panic ''registerDMA8Channel: in use'' d)
      else (1, upd_chan False channel (\<lambda>c. c\<lparr>used := True\<rparr>) d))"

definition registerDMA16Channel :: "nat \<Rightarrow> 'd dma \<Rightarrow> nat \<times> 'd dma" where
  "registerDMA16Channel channel d =
     (if channel < 4 \<or> channel > 7 then (0, panic ''registerDMA16Channel: invalid channel'' d)
      else if used (chan (s d True) (channel mod 4)) then (0, panic ''registerDMA16Channel: in use'' d)
      else (1, upd_chan True (channel mod 4) (\<lambda>c. c\<lparr>used := True\<rparr>) d))"

definition unregisterDMAChannel :: "nat \<Rightarrow> 'd dma \<Rightarrow> nat \<times> 'd dma" where
  "unregisterDMAChannel channel d = (1, upd_chan (channel > 3) (channel mod 4) (\<lambda>c. c\<lparr>used := False\<rparr>) d)"

definition get_TC :: "'d dma \<Rightarrow> bool" where
  "get_TC d = TC d"

definition fresh_chan :: dma_chan where
  "fresh_chan =
     \<lparr>mode = \<lparr>mode_type = 0, address_decrement = False, autoinit_enable = False, transfer_type = 0\<rparr>,
      base_address = 0, current_address = 0, base_count = 0, current_count = 0, page_reg = 0, used = False\<rparr>"

definition dma_init :: "'d dma \<Rightarrow> 'd dma" where
  "dma_init d =
     d\<lparr>s := (\<lambda>k. (s d k)\<lparr>DRQ := \<lambda>_. False, DACK := \<lambda>_. False,
               chan := (\<lambda>c. fresh_chan\<lparr>used := (k \<and> c = 0)\<rparr>)\<rparr>),
       HLDA := False, TC := False, ext_page_reg := \<lambda>_. 0\<rparr>"

definition reset_controller :: "bool \<Rightarrow> 'd dma \<Rightarrow> 'd dma" where
  "reset_controller k =
     upd_s k (\<lambda>ct. ct\<lparr>masked := \<lambda>_. True, ctrl_disabled := False, command_reg := 0, status_reg := 0,
                      flip_flop := False\<rparr>)"

definition dma_reset :: "'d dma \<Rightarrow> 'd dma" where
  "dma_reset d = reset_controller True (reset_controller False d)"

subsection \<open>Requests\<close>

text \<open>The loop that finds the highest-priority channel with a request and no mask.\<close>

definition requesting :: "dma_ctrl \<Rightarrow> nat option" where
  "requesting ct = find (\<lambda>channel. bit (status_reg ct) (channel + 4) \<and> \<not> masked ct channel) [0..<4]"

text \<open>\<^verbatim>\<open>control_HRQ\<close> with its two outputs: \<open>deassert\<close> and \<open>assert\<close> are the line to the CPU for
  DMA-2, and channel 4 for DMA-1.\<close>

definition control_HRQ_with ::
    "bool \<Rightarrow> ('d dma \<Rightarrow> 'd dma) \<Rightarrow> ('d dma \<Rightarrow> 'd dma) \<Rightarrow> 'd dma \<Rightarrow> 'd dma" where
  "control_HRQ_with k deassert assert d =
     (if ctrl_disabled (s d k) then d
      else if status_reg (s d k) AND 0xF0 = 0 then deassert d
      else if requesting (s d k) \<noteq> None then assert d
      else d)"

definition control_HRQ_2 :: "'d dma \<Rightarrow> 'd dma" where
  "control_HRQ_2 = control_HRQ_with True (\<lambda>d. d\<lparr>HRQ := False\<rparr>) (\<lambda>d. d\<lparr>HRQ := True\<rparr>)"

definition start_address :: "bool \<Rightarrow> dma_chan \<Rightarrow> 32 word" where
  "start_address k c = push_bit 16 (ucast (page_reg c)) OR push_bit (of_bool k) (ucast (base_address c))"

definition roof_address :: "bool \<Rightarrow> dma_chan \<Rightarrow> 32 word" where
  "roof_address k c =
     (if \<not> address_decrement (mode c) then start_address k c + push_bit (of_bool k) (ucast (base_count c))
      else start_address k c - push_bit (of_bool k) (ucast (base_count c)))"

text \<open>\<^verbatim>\<open>set_DRQ\<close> on a controller, with the \<^verbatim>\<open>control_HRQ\<close> it ends with.\<close>

definition set_DRQ_with :: "('d dma \<Rightarrow> 'd dma) \<Rightarrow> bool \<Rightarrow> nat \<Rightarrow> bool \<Rightarrow> 'd dma \<Rightarrow> 'd dma" where
  "set_DRQ_with control k channel val d =
     (let d1 = upd_s k (\<lambda>ct. ct\<lparr>DRQ := (DRQ ct)(channel := val)\<rparr>) d; c = chan (s d1 k) channel in
      if \<not> used c then panic ''set_DRQ: not connected'' d1
      else if \<not> val then
        control (upd_s k (\<lambda>ct. ct\<lparr>status_reg := status_reg ct AND NOT (status_bit (channel + 4))\<rparr>) d1)
      else
        (let d2 = upd_s k (\<lambda>ct. ct\<lparr>status_reg := status_reg ct OR status_bit (channel + 4)\<rparr>) d1;
             d3 = (if mode_type (mode c) = 2 then panic ''set_DRQ: mode_type not handled'' d2 else d2);
             window = push_bit (of_bool k) (0x7FFF0000 :: 32 word);
             d4 = (if start_address k c AND window \<noteq> roof_address k c AND window
                   then panic ''request outside boundary'' d3 else d3)
         in control d4))"

definition control_HRQ_1 :: "'d dma \<Rightarrow> 'd dma" where
  "control_HRQ_1 =
     control_HRQ_with False (set_DRQ_with control_HRQ_2 True 0 False) (set_DRQ_with control_HRQ_2 True 0 True)"

definition control_HRQ :: "bool \<Rightarrow> 'd dma \<Rightarrow> 'd dma" where
  "control_HRQ k = (if k then control_HRQ_2 else control_HRQ_1)"

definition set_DRQ :: "nat \<Rightarrow> bool \<Rightarrow> 'd dma \<Rightarrow> 'd dma" where
  "set_DRQ channel val d =
     (if channel > 7 then panic ''set_DRQ: channel > 7'' d
      else set_DRQ_with (control_HRQ (channel > 3)) (channel > 3) (channel mod 4) val d)"

subsection \<open>Ports\<close>

definition port_channel :: "nat \<Rightarrow> nat" where
  "port_channel address = drop_bit (1 + of_bool (address \<ge> 0xC0)) address mod 4"

definition is_address_port :: "nat \<Rightarrow> bool" where
  "is_address_port a \<longleftrightarrow> a \<in> {0x00, 0x02, 0x04, 0x06, 0xC0, 0xC4, 0xC8, 0xCC}"

definition is_count_port :: "nat \<Rightarrow> bool" where
  "is_count_port a \<longleftrightarrow> a \<in> {0x01, 0x03, 0x05, 0x07, 0xC2, 0xC6, 0xCA, 0xCE}"

definition is_page_port :: "nat \<Rightarrow> bool" where
  "is_page_port a \<longleftrightarrow> a \<in> {0x81, 0x82, 0x83, 0x87, 0x89, 0x8A, 0x8B, 0x8F}"

definition is_ext_page_port :: "nat \<Rightarrow> bool" where
  "is_ext_page_port a \<longleftrightarrow> a \<in> {0x80, 0x84, 0x85, 0x86, 0x88, 0x8C, 0x8D, 0x8E}"

definition channelindex :: "nat list" where
  "channelindex = [2, 3, 1, 0, 0, 0, 0]"

definition toggle :: "bool \<Rightarrow> 'd dma \<Rightarrow> 'd dma" where
  "toggle k = upd_s k (\<lambda>ct. ct\<lparr>flip_flop := \<not> flip_flop ct\<rparr>)"

definition lo_byte :: "16 word \<Rightarrow> byte" where "lo_byte w = ucast (w AND 0xFF)"

definition hi_byte :: "16 word \<Rightarrow> byte" where "hi_byte w = ucast (drop_bit 8 w)"

definition dma_read :: "nat \<Rightarrow> 'd dma \<Rightarrow> byte \<times> 'd dma" where
  "dma_read address d =
     (let k = (address \<ge> 0xC0); ct = s d k in
      if is_address_port address then
        (let w = current_address (chan ct (port_channel address)) in
         (if \<not> flip_flop ct then lo_byte w else hi_byte w, toggle k d))
      else if is_count_port address then
        (let w = current_count (chan ct (port_channel address)) in
         (if \<not> flip_flop ct then lo_byte w else hi_byte w, toggle k d))
      else if address = 0x08 \<or> address = 0xD0 then
        (status_reg ct, upd_s k (\<lambda>ct. ct\<lparr>status_reg := status_reg ct AND 0xF0\<rparr>) d)
      else if address = 0x0D \<or> address = 0xDA then (0, d)
      else if is_page_port address then
        (if address < 0x88 then (page_reg (chan (s d False) (channelindex ! (address - 0x81))), d)
         else (page_reg (chan (s d True) (channelindex ! (address - 0x89))), d))
      else if is_ext_page_port address then (ext_page_reg d (address mod 16), d)
      else if address = 0x0F \<or> address = 0xDE then
        (0xF0 OR (of_bool (masked ct 0) OR push_bit 1 (of_bool (masked ct 1)) OR
                  push_bit 2 (of_bool (masked ct 2)) OR push_bit 3 (of_bool (masked ct 3))), d)
      else (0, d))"

text \<open>The first byte replaces the register, the second is or-ed into its high half.\<close>

definition put_byte :: "bool \<Rightarrow> byte \<Rightarrow> 16 word \<Rightarrow> 16 word" where
  "put_byte second v w = (if \<not> second then ucast v else w OR push_bit 8 (ucast v))"

definition dma_write1 :: "nat \<Rightarrow> byte \<Rightarrow> 'd dma \<Rightarrow> 'd dma" where
  "dma_write1 address v d =
     (let k = (address \<ge> 0xC0); ct = s d k; channel = unat (v AND 3) in
      if is_address_port address then
        toggle k (upd_chan k (port_channel address)
          (\<lambda>c. c\<lparr>base_address := put_byte (flip_flop ct) v (base_address c),
                 current_address := put_byte (flip_flop ct) v (current_address c)\<rparr>) d)
      else if is_count_port address then
        toggle k (upd_chan k (port_channel address)
          (\<lambda>c. c\<lparr>base_count := put_byte (flip_flop ct) v (base_count c),
                 current_count := put_byte (flip_flop ct) v (current_count c)\<rparr>) d)
      else if address = 0x08 \<or> address = 0xD0 then
        control_HRQ k (upd_s k (\<lambda>ct. ct\<lparr>command_reg := v, ctrl_disabled := bit v 2\<rparr>) d)
      else if address = 0x09 \<or> address = 0xD2 then
        control_HRQ k (upd_s k (\<lambda>ct. ct\<lparr>status_reg :=
          (if v AND 4 \<noteq> 0 then status_reg ct OR status_bit (channel + 4)
           else status_reg ct AND NOT (status_bit (channel + 4)))\<rparr>) d)
      else if address = 0x0A \<or> address = 0xD4 then
        control_HRQ k (upd_s k (\<lambda>ct. ct\<lparr>masked := (masked ct)(channel := (v AND 4 > 0))\<rparr>) d)
      else if address = 0x0B \<or> address = 0xD6 then
        upd_chan k channel (\<lambda>c. c\<lparr>mode :=
          \<lparr>mode_type = unat (drop_bit 6 v AND 3), address_decrement = bit v 5, autoinit_enable = bit v 4,
           transfer_type = unat (drop_bit 2 v AND 3)\<rparr>\<rparr>) d
      else if address = 0x0C \<or> address = 0xD8 then upd_s k (\<lambda>ct. ct\<lparr>flip_flop := False\<rparr>) d
      else if address = 0x0D \<or> address = 0xDA then reset_controller k d
      else if address = 0x0E \<or> address = 0xDC then
        control_HRQ k (upd_s k (\<lambda>ct. ct\<lparr>masked := (masked ct)(0 := False, 1 := False, 2 := False, 3 := False)\<rparr>) d)
      else if address = 0x0F \<or> address = 0xDE then
        control_HRQ k (upd_s k (\<lambda>ct. ct\<lparr>masked :=
          (masked ct)(0 := bit v 0, 1 := bit v 1, 2 := bit v 2, 3 := bit v 3)\<rparr>) d)
      else if is_page_port address then
        (if address < 0x88 then upd_chan False (channelindex ! (address - 0x81)) (\<lambda>c. c\<lparr>page_reg := v\<rparr>) d
         else upd_chan True (channelindex ! (address - 0x89)) (\<lambda>c. c\<lparr>page_reg := v\<rparr>) d)
      else if is_ext_page_port address then d\<lparr>ext_page_reg := (ext_page_reg d)(address mod 16 := v)\<rparr>
      else d)"

text \<open>Wider writes are refused but for two bytes to the mode register.\<close>

definition dma_write :: "nat \<Rightarrow> 32 word \<Rightarrow> nat \<Rightarrow> 'd dma \<Rightarrow> 'd dma" where
  "dma_write address v io_len d =
     (if io_len > 1 then
        (if io_len = 2 \<and> address = 0x0B then
           dma_write1 (address + 1) (ucast (drop_bit 8 v)) (dma_write1 address (ucast (v AND 0xFF)) d)
         else d)
      else dma_write1 address (ucast v) d)"

subsection \<open>Transfers\<close>

text \<open>\<^verbatim>\<open>raise_HLDA\<close> in its parts: the channel that is served, the counting, the transfer of one
  unit, and what follows the last one. \<open>junk\<close> is the content of the uninitialised local
  variable when a device has no handler.\<close>

definition pick_channel :: "'d dma \<Rightarrow> (bool \<times> nat) option \<times> 'd dma" where
  "pick_channel d =
     (case requesting (s d True) of
        None \<Rightarrow> (None, d)
      | Some channel \<Rightarrow>
          (if channel = 0 then
             (let d1 = upd_s True (\<lambda>ct. ct\<lparr>DACK := (DACK ct)(0 := True)\<rparr>) d in
              (map_option (Pair False) (requesting (s d1 False)), d1))
           else (Some (True, channel), d)))"

definition transfer_address :: "bool \<Rightarrow> dma_chan \<Rightarrow> nat" where
  "transfer_address k c =
     unat (push_bit 16 (ucast (page_reg c)) OR push_bit (of_bool k) (ucast (current_address c)) :: 32 word)"

definition count_down :: "dma_chan \<Rightarrow> dma_chan" where
  "count_down c =
     c\<lparr>current_address := (if \<not> address_decrement (mode c) then current_address c + 1 else current_address c - 1),
       current_count := current_count c - 1\<rparr>"

definition reload :: "dma_chan \<Rightarrow> dma_chan" where
  "reload c = c\<lparr>current_address := base_address c, current_count := base_count c\<rparr>"

definition count_transfer :: "bool \<Rightarrow> nat \<Rightarrow> 'd dma \<Rightarrow> bool \<times> 'd dma" where
  "count_transfer k channel d =
     (let d1 = upd_chan k channel count_down
                 (upd_s k (\<lambda>ct. ct\<lparr>DACK := (DACK ct)(channel := True)\<rparr>) d)
      in if current_count (chan (s d1 k) channel) = 0xFFFF then
           (let d2 = (upd_s k (\<lambda>ct. ct\<lparr>status_reg := status_reg ct OR status_bit channel\<rparr>) d1)\<lparr>TC := True\<rparr> in
            (True, if \<not> autoinit_enable (mode (chan (s d2 k) channel))
                   then upd_s k (\<lambda>ct. ct\<lparr>masked := (masked ct)(channel := True)\<rparr>) d2
                   else upd_chan k channel reload d2))
         else (False, d1))"

definition put_memory :: "nat \<Rightarrow> byte \<Rightarrow> 'd dma \<Rightarrow> 'd dma" where
  "put_memory a v d = d\<lparr>memory := (memory d)(a := v)\<rparr>"

definition from_device8 :: "'d dma_handlers \<Rightarrow> byte \<Rightarrow> nat \<Rightarrow> 'd dma \<Rightarrow> byte \<times> 'd dma" where
  "from_device8 h junk channel d =
     (case dmaWrite8 h channel of
        Some f \<Rightarrow> f d | None \<Rightarrow> (junk, panic ''no dmaWrite handler'' d))"

definition from_device16 :: "'d dma_handlers \<Rightarrow> 16 word \<Rightarrow> nat \<Rightarrow> 'd dma \<Rightarrow> 16 word \<times> 'd dma" where
  "from_device16 h junk channel d =
     (case dmaWrite16 h channel of
        Some f \<Rightarrow> f d | None \<Rightarrow> (junk, panic ''no dmaWrite handler'' d))"

definition transfer_unit ::
    "'d dma_handlers \<Rightarrow> 16 word \<Rightarrow> bool \<Rightarrow> nat \<Rightarrow> nat \<Rightarrow> nat \<Rightarrow> 'd dma \<Rightarrow> 'd dma" where
  "transfer_unit h junk k channel type a d =
     (if type = 1 then
        (if \<not> k then (let (v, d1) = from_device8 h (ucast junk) channel d in put_memory a v d1)
         else (let (v, d1) = from_device16 h junk channel d
               in put_memory (a + 1) (hi_byte v) (put_memory a (lo_byte v) d1)))
      else if type = 2 then
        (if \<not> k then (case dmaRead8 h channel of Some f \<Rightarrow> f (memory d a) d | None \<Rightarrow> d)
         else (case dmaRead16 h channel of
                 Some f \<Rightarrow> f (ucast (memory d a) OR push_bit 8 (ucast (memory d (a + 1)))) d
               | None \<Rightarrow> d))
      else if type = 0 then
        (if \<not> k then snd (from_device8 h (ucast junk) channel d) else snd (from_device16 h junk channel d))
      else panic ''hlda: transfer_type 3 is undefined'' d)"

definition last_unit :: "bool \<Rightarrow> nat \<Rightarrow> 'd dma \<Rightarrow> 'd dma" where
  "last_unit k channel d =
     (let d1 = upd_s k (\<lambda>ct. ct\<lparr>DACK := (DACK ct)(channel := False)\<rparr>) (d\<lparr>TC := False, HLDA := False, HRQ := False\<rparr>)
      in if \<not> k then upd_s True (\<lambda>ct. ct\<lparr>DACK := (DACK ct)(0 := False)\<rparr>) (set_DRQ 4 False d1) else d1)"

definition raise_HLDA :: "'d dma_handlers \<Rightarrow> 16 word \<Rightarrow> 'd dma \<Rightarrow> 'd dma" where
  "raise_HLDA h junk d =
     (case pick_channel (d\<lparr>HLDA := True\<rparr>) of
        (None, d1) \<Rightarrow> d1
      | (Some (k, channel), d1) \<Rightarrow>
          (let c = chan (s d1 k) channel; a = transfer_address k c;
               (count_expired, d2) = count_transfer k channel d1;
               d3 = transfer_unit h junk k channel (transfer_type (mode c)) a d2
           in if count_expired then last_unit k channel d3 else d3))"

section \<open>Registers\<close>

lemma upd_s_simps [simp]:
  "s (upd_s k f d) j = (if j = k then f (s d k) else s d j)"
  "HLDA (upd_s k f d) = HLDA d" "TC (upd_s k f d) = TC d" "HRQ (upd_s k f d) = HRQ d"
  "memory (upd_s k f d) = memory d" "device (upd_s k f d) = device d" "panics (upd_s k f d) = panics d"
  "ext_page_reg (upd_s k f d) = ext_page_reg d"
  by (simp_all add: upd_s_def)

lemma upd_chan_simps [simp]:
  "s (upd_chan k c f d) j =
     (if j = k then (s d k)\<lparr>chan := (chan (s d k))(c := f (chan (s d k) c))\<rparr> else s d j)"
  "HLDA (upd_chan k c f d) = HLDA d" "TC (upd_chan k c f d) = TC d" "HRQ (upd_chan k c f d) = HRQ d"
  "memory (upd_chan k c f d) = memory d" "device (upd_chan k c f d) = device d"
  "panics (upd_chan k c f d) = panics d" "ext_page_reg (upd_chan k c f d) = ext_page_reg d"
  by (simp_all add: upd_chan_def)

lemma toggle_simps [simp]:
  "s (toggle k d) j = (if j = k then (s d k)\<lparr>flip_flop := \<not> flip_flop (s d k)\<rparr> else s d j)"
  "memory (toggle k d) = memory d" "HRQ (toggle k d) = HRQ d"
  by (simp_all add: toggle_def)

definition address_port :: "bool \<Rightarrow> nat \<Rightarrow> nat" where
  "address_port k c = (if k then 0xC0 + 4 * c else 2 * c)"

definition count_port :: "bool \<Rightarrow> nat \<Rightarrow> nat" where
  "count_port k c = (if k then 0xC2 + 4 * c else 2 * c + 1)"

lemma channel_cases: "c < 4 \<Longrightarrow> c = 0 \<or> c = 1 \<or> c = 2 \<or> c = (3 :: nat)"
  by linarith

lemma ports:
  assumes "c < 4"
  shows "is_address_port (address_port k c)" "is_count_port (count_port k c)" "\<not> is_address_port (count_port k c)"
    "port_channel (address_port k c) = c" "port_channel (count_port k c) = c"
    "(0xC0 \<le> address_port k c) = k" "(0xC0 \<le> count_port k c) = k"
  using channel_cases [OF assms]
  by (cases k; auto simp: address_port_def count_port_def is_address_port_def is_count_port_def port_channel_def
      drop_bit_eq_div)+

lemma two_bytes: "put_byte True (hi_byte w) (put_byte False (lo_byte w) v) = w"
proof -
  have m: "(0xFF :: 16 word) = mask 8" by (simp add: mask_eq_exp_minus_1)
  show ?thesis
    unfolding put_byte_def lo_byte_def hi_byte_def m by (rule bit_word_eqI) (auto simp: bit_simps)
qed

lemma flip_flop_same:
  "\<not> flip_flop ct \<Longrightarrow> ct\<lparr>chan := x, flip_flop := False\<rparr> = ct\<lparr>chan := x\<rparr>"
  "\<not> flip_flop ct \<Longrightarrow> ct\<lparr>flip_flop := False\<rparr> = ct"
  by (cases ct; simp)+

text \<open>The bytes of a word through a register, the byte pointer cleared first.\<close>

definition clear_flip_flop :: "bool \<Rightarrow> 'd dma \<Rightarrow> 'd dma" where
  "clear_flip_flop k = dma_write1 (if k then 0xD8 else 0x0C) 0"

definition write_word :: "nat \<Rightarrow> 16 word \<Rightarrow> 'd dma \<Rightarrow> 'd dma" where
  "write_word port w d = dma_write1 port (hi_byte w) (dma_write1 port (lo_byte w) d)"

definition read_word :: "nat \<Rightarrow> 'd dma \<Rightarrow> 16 word \<times> 'd dma" where
  "read_word port d =
     (let (lo, d1) = dma_read port d; (hi, d2) = dma_read port d1 in (put_byte True hi (put_byte False lo 0), d2))"

lemma write_address:
  "c < 4 \<Longrightarrow> \<not> flip_flop (s d k) \<Longrightarrow>
     write_word (address_port k c) w d = upd_chan k c (\<lambda>ch. ch\<lparr>base_address := w, current_address := w\<rparr>) d"
  by (simp add: write_word_def dma_write1_def ports Let_def)
     (simp add: toggle_def upd_chan_def upd_s_def two_bytes flip_flop_same)

lemma write_count:
  "c < 4 \<Longrightarrow> \<not> flip_flop (s d k) \<Longrightarrow>
     write_word (count_port k c) w d = upd_chan k c (\<lambda>ch. ch\<lparr>base_count := w, current_count := w\<rparr>) d"
  by (simp add: write_word_def dma_write1_def ports Let_def)
     (simp add: toggle_def upd_chan_def upd_s_def two_bytes flip_flop_same)

lemma read_address:
  "c < 4 \<Longrightarrow> \<not> flip_flop (s d k) \<Longrightarrow> read_word (address_port k c) d = (current_address (chan (s d k) c), d)"
  by (simp add: read_word_def dma_read_def ports Let_def two_bytes)
     (simp add: toggle_def upd_s_def flip_flop_same)

lemma read_count:
  "c < 4 \<Longrightarrow> \<not> flip_flop (s d k) \<Longrightarrow> read_word (count_port k c) d = (current_count (chan (s d k) c), d)"
  by (simp add: read_word_def dma_read_def ports Let_def two_bytes)
     (simp add: toggle_def upd_s_def flip_flop_same)

definition program_channel :: "bool \<Rightarrow> nat \<Rightarrow> 16 word \<Rightarrow> 16 word \<Rightarrow> 'd dma \<Rightarrow> 'd dma" where
  "program_channel k c a n d =
     write_word (count_port k c) n (write_word (address_port k c) a (clear_flip_flop k d))"

lemma clear_flip_flop_eq: "clear_flip_flop k d = upd_s k (\<lambda>ct. ct\<lparr>flip_flop := False\<rparr>) d"
  by (simp add: clear_flip_flop_def dma_write1_def is_address_port_def is_count_port_def Let_def)

text \<open>Programming a channel: with the byte pointer cleared, writing an address and a count to the
  ports of any of the eight channels, low byte first, sets base and current registers of that
  channel and nothing else, and the same ports then read back what was written.\<close>

theorem dma_programming:
  assumes "c < 4"
  shows "program_channel k c a n d =
      upd_chan k c (\<lambda>ch. ch\<lparr>base_address := a, current_address := a, base_count := n, current_count := n\<rparr>)
        (clear_flip_flop k d) \<and>
    read_word (address_port k c) (program_channel k c a n d) = (a, program_channel k c a n d) \<and>
    read_word (count_port k c) (program_channel k c a n d) = (n, program_channel k c a n d)"
proof -
  have "program_channel k c a n d =
      upd_chan k c (\<lambda>ch. ch\<lparr>base_address := a, current_address := a, base_count := n, current_count := n\<rparr>)
        (clear_flip_flop k d)"
    using assms by (simp add: program_channel_def clear_flip_flop_eq write_address write_count)
       (simp add: upd_chan_def upd_s_def)
  then show ?thesis using assms by (simp add: read_address read_count clear_flip_flop_eq)
qed

text \<open>A controller after power-on; the device counts the bytes it has delivered.\<close>

definition dma0 :: "nat dma" where
  "dma0 = dma_reset (dma_init
     \<lparr>s = \<lambda>_. \<lparr>DRQ = \<lambda>_. False, DACK = \<lambda>_. False, masked = \<lambda>_. False, flip_flop = False, status_reg = 0,
               command_reg = 0, ctrl_disabled = False, chan = \<lambda>_. fresh_chan\<rparr>,
      HLDA = False, TC = False, ext_page_reg = \<lambda>_. 0, HRQ = False, memory = \<lambda>_. 0, device = 0, panics = []\<rparr>)"

theorem dma_programming_witness:
  "fst (read_word 0x04 (program_channel False 2 0x1234 0x01FF dma0)) = 0x1234 \<and>
   fst (read_word 0xC6 (program_channel True 1 0x8000 0x00FF dma0)) = 0x00FF"
  using conjunct2 [OF dma_programming [of 2 False "0x1234" "0x01FF" dma0]]
    conjunct2 [OF dma_programming [of 1 True "0x8000" "0x00FF" dma0]]
  by (simp add: address_port_def count_port_def)

section \<open>What request lines leave alone\<close>

definition same_registers :: "'d dma \<Rightarrow> 'd dma \<Rightarrow> bool" where
  "same_registers d d' \<longleftrightarrow>
     memory d' = memory d \<and> device d' = device d \<and> TC d' = TC d \<and> HLDA d' = HLDA d \<and>
     ext_page_reg d' = ext_page_reg d \<and>
     (\<forall>k. chan (s d' k) = chan (s d k) \<and> masked (s d' k) = masked (s d k) \<and> DACK (s d' k) = DACK (s d k) \<and>
          ctrl_disabled (s d' k) = ctrl_disabled (s d k) \<and> flip_flop (s d' k) = flip_flop (s d k) \<and>
          (\<forall>n<4. bit (status_reg (s d' k)) n = bit (status_reg (s d k)) n))"

lemma same_registers_refl [simp]: "same_registers d d"
  by (simp add: same_registers_def)

lemma same_registers_trans: "same_registers d e \<Longrightarrow> same_registers e f \<Longrightarrow> same_registers d f"
  by (simp add: same_registers_def)

lemma bit_status_bit [simp]: "bit (status_bit n) m \<longleftrightarrow> m = n \<and> n < 8"
  by (auto simp: status_bit_def bit_simps)

lemma same_control:
  "(\<And>d. same_registers d (f d)) \<Longrightarrow> (\<And>d. same_registers d (g d)) \<Longrightarrow> same_registers d (control_HRQ_with k f g d)"
  by (simp add: control_HRQ_with_def)

lemma same_panic [simp]: "same_registers d (panic m d)"
  by (simp add: same_registers_def panic_def)

lemma same_upd:
  "same_registers d (upd_s k (\<lambda>ct. ct\<lparr>DRQ := x\<rparr>) d)"
  "same_registers d (upd_s k (\<lambda>ct. ct\<lparr>DRQ := (DRQ ct)(i := v)\<rparr>) d)"
  "same_registers d (upd_s k (\<lambda>ct. ct\<lparr>status_reg := status_reg ct AND NOT (status_bit (i + 4))\<rparr>) d)"
  "same_registers d (upd_s k (\<lambda>ct. ct\<lparr>status_reg := status_reg ct OR status_bit (i + 4)\<rparr>) d)"
  by (auto simp: same_registers_def bit_simps)

lemma same_if: "same_registers d e \<Longrightarrow> same_registers d f \<Longrightarrow> same_registers d (if b then e else f)"
  by simp

lemma same_set_DRQ_with:
  assumes "\<And>d. same_registers d (control d)"
  shows "same_registers d (set_DRQ_with control k i v d)"
proof -
  have t: "same_registers d (control e)" if "same_registers d e" for e
    by (rule same_registers_trans [OF that assms])
  have p: "same_registers d (panic m e)" if "same_registers d e" for e m
    by (rule same_registers_trans [OF that same_panic])
  have u: "same_registers d (upd_s k (\<lambda>ct. ct\<lparr>DRQ := (DRQ ct)(i := v)\<rparr>) d)" by (rule same_upd(2))
  show ?thesis
    unfolding set_DRQ_with_def Let_def
    by (intro same_if p t u same_registers_trans [OF u same_upd(3)] same_registers_trans [OF u same_upd(4)])
qed

lemma same_control_HRQ_2: "same_registers d (control_HRQ_2 d)"
  unfolding control_HRQ_2_def by (rule same_control) (simp_all add: same_registers_def)

lemma same_control_HRQ: "same_registers d (control_HRQ k d)"
  by (simp add: control_HRQ_def control_HRQ_1_def same_control_HRQ_2 same_control same_set_DRQ_with)

lemma same_set_DRQ: "same_registers d (set_DRQ c v d)"
  unfolding set_DRQ_def by (intro same_if same_panic same_set_DRQ_with same_control_HRQ)

section \<open>Block transfers\<close>

text \<open>A device that streams bytes into memory, as the floppy controller does while it reads a
  sector: every call hands out the next byte, and at the terminal count the device drops its
  request.\<close>

definition streaming_device :: "nat \<Rightarrow> ('d \<Rightarrow> byte) \<Rightarrow> ('d \<Rightarrow> 'd) \<Rightarrow> 'd dma \<Rightarrow> byte \<times> 'd dma" where
  "streaming_device c out nxt d =
     (out (device d),
      (let d' = d\<lparr>device := nxt (device d)\<rparr> in if get_TC d then set_DRQ c False d' else d'))"

definition serving :: "nat \<Rightarrow> 'd dma \<Rightarrow> bool" where
  "serving c d \<longleftrightarrow> requesting (s d True) = Some 0 \<and> requesting (s d False) = Some c"

definition one_unit :: "nat \<Rightarrow> ('d \<Rightarrow> byte) \<Rightarrow> ('d \<Rightarrow> 'd) \<Rightarrow> 'd dma \<Rightarrow> 'd dma" where
  "one_unit c out nxt d =
     put_memory (transfer_address False (chan (s d False) c)) (out (device d))
       ((upd_chan False c count_down
          (upd_s False (\<lambda>ct. ct\<lparr>DACK := (DACK ct)(c := True)\<rparr>)
            (upd_s True (\<lambda>ct. ct\<lparr>DACK := (DACK ct)(0 := True)\<rparr>) (d\<lparr>HLDA := True\<rparr>))))\<lparr>device := nxt (device d)\<rparr>)"

lemma put_memory_simps [simp]:
  "s (put_memory a v d) = s d" "device (put_memory a v d) = device d" "HRQ (put_memory a v d) = HRQ d"
  "TC (put_memory a v d) = TC d" "HLDA (put_memory a v d) = HLDA d"
  "memory (put_memory a v d) = (memory d)(a := v)"
  by (simp_all add: put_memory_def)

lemma requesting_cong [simp]:
  "requesting (ct\<lparr>DACK := x\<rparr>) = requesting ct" "requesting (ct\<lparr>chan := y\<rparr>) = requesting ct"
  "requesting (ct\<lparr>DRQ := x\<rparr>) = requesting ct"
  by (simp_all add: requesting_def)

lemma count_expires: "current_count (count_down ch) = 0xFFFF \<longleftrightarrow> current_count ch = 0"
proof -
  have "current_count ch - 1 = 0xFFFF \<longleftrightarrow> current_count ch = 0xFFFF + 1" by (rule diff_eq_eq)
  also have "(0xFFFF :: 16 word) + 1 = 0" by code_simp
  finally show ?thesis by (simp add: count_down_def)
qed

lemma serving_one_unit [simp]: "serving c (one_unit a out nxt d) = serving c d"
  by (auto simp: serving_def one_unit_def requesting_def)

lemma raise_HLDA_unit:
  assumes "serving c d" and "transfer_type (mode (chan (s d False) c)) = 1"
    and "dmaWrite8 h c = Some (streaming_device c out nxt)"
    and "current_count (chan (s d False) c) \<noteq> 0" and "\<not> TC d"
  shows "raise_HLDA h junk d = one_unit c out nxt d"
  using assms
  by (simp add: raise_HLDA_def pick_channel_def serving_def count_transfer_def count_expires Let_def
      transfer_unit_def from_device8_def streaming_device_def get_TC_def one_unit_def put_memory_def)

lemma one_unit_simps [simp]:
  "device (one_unit c out nxt d) = nxt (device d)" "TC (one_unit c out nxt d) = TC d"
  "HRQ (one_unit c out nxt d) = HRQ d" "HLDA (one_unit c out nxt d)"
  "memory (one_unit c out nxt d) = (memory d)(transfer_address False (chan (s d False) c) := out (device d))"
  "chan (s (one_unit c out nxt d) k) =
     (if k then chan (s d k) else (chan (s d False))(c := count_down (chan (s d False) c)))"
  "masked (s (one_unit c out nxt d) k) = masked (s d k)"
  "status_reg (s (one_unit c out nxt d) k) = status_reg (s d k)"
  "ctrl_disabled (s (one_unit c out nxt d) k) = ctrl_disabled (s d k)"
  by (auto simp: one_unit_def)

lemma count_down_iter [simp]:
  "mode ((count_down ^^ i) ch) = mode ch" "page_reg ((count_down ^^ i) ch) = page_reg ch"
  "used ((count_down ^^ i) ch) = used ch" "base_address ((count_down ^^ i) ch) = base_address ch"
  "base_count ((count_down ^^ i) ch) = base_count ch"
  "current_count ((count_down ^^ i) ch) = current_count ch - of_nat i"
  by (induction i) (simp_all add: count_down_def)

text \<open>The address of the \<open>i\<close>-th unit: the page register gives the upper bits, the address register
  wraps within 64 KiB.\<close>

definition unit_address :: "dma_chan \<Rightarrow> nat \<Rightarrow> nat" where
  "unit_address ch i =
     unat (page_reg ch) * 65536 +
     unat (if address_decrement (mode ch) then current_address ch - of_nat i else current_address ch + of_nat i)"

lemma count_down_step:
  "current_address (count_down ch) =
     (if address_decrement (mode ch) then current_address ch - 1 else current_address ch + 1)"
  by (simp add: count_down_def)

lemma count_down_address:
  "current_address ((count_down ^^ i) ch) =
     (if address_decrement (mode ch) then current_address ch - of_nat i else current_address ch + of_nat i)"
  by (induction i) (simp_all add: count_down_step)

lemma unat_b: "unat (w :: 'a::len word) < 2 ^ LENGTH('a)"
  by (rule unsigned_less)

lemma transfer_address_8: "transfer_address False ch = unat (page_reg ch) * 65536 + unat (current_address ch)"
proof -
  let ?p = "push_bit 16 (ucast (page_reg ch)) :: 32 word" and ?a = "ucast (current_address ch) :: 32 word"
  have b: "unat (page_reg ch) < 256" using unat_b [of "page_reg ch"] by (simp del: unsigned_less)
  then have b4: "unat (page_reg ch) < 4294967296" "unat (page_reg ch) * 65536 < 4294967296" by linarith+
  have c: "unat (current_address ch) < 65536" using unat_b [of "current_address ch"] by (simp del: unsigned_less)
  have d: "?p AND ?a = 0"
    by (rule bit_word_eqI) (auto simp: bit_simps dest: bit_imp_le_length)
  have pa: "?p OR ?a = ?p + ?a" using d by (simp add: disjunctive_add_eq_or)
  have p: "unat ?p = unat (page_reg ch) * 65536"
    using b4
    by (subst unsigned_push_bit_eq, subst unsigned_ucast_eq)
       (simp add: push_bit_eq_mult take_bit_eq_mod b4)
  have a: "unat ?a = unat (current_address ch)"
    using c by (simp add: unsigned_ucast_eq take_bit_nat_eq_self)
  have "unat (page_reg ch) * 65536 + unat (current_address ch) < 4294967296" using b c by linarith
  then show ?thesis
    by (simp add: transfer_address_def pa p a unat_word_ariths)
qed

lemma transfer_address_iter: "transfer_address False ((count_down ^^ i) ch) = unit_address ch i"
  by (simp add: transfer_address_8 unit_address_def count_down_address)

subsection \<open>Dropping a request\<close>

definition pending :: "dma_ctrl \<Rightarrow> nat \<Rightarrow> bool" where
  "pending ct j \<longleftrightarrow> bit (status_reg ct) (j + 4) \<and> \<not> masked ct j"

lemma requesting_None_iff: "requesting ct = None \<longleftrightarrow> (\<forall>j<4. \<not> pending ct j)"
  by (auto simp: requesting_def pending_def find_None_iff)

lemma requesting_least: "requesting ct = Some c \<longleftrightarrow> c < 4 \<and> pending ct c \<and> (\<forall>j<c. \<not> pending ct j)"
  by (auto simp: requesting_def pending_def find_Some_iff)

lemma ex_channel: "(\<exists>j<4. P j) = (P 0 \<or> P 1 \<or> P 2 \<or> P (3 :: nat))"
  by (auto simp: numeral_eq_Suc less_Suc_eq)

lemma no_request_bits: "ct AND 0xF0 = 0 \<Longrightarrow> j < 4 \<Longrightarrow> \<not> bit (ct :: byte) (j + 4)"
proof -
  assume z: "ct AND 0xF0 = 0" and j: "j < 4"
  have "bit (ct AND 0xF0) (j + 4) = bit ct (j + 4)"
    using channel_cases [OF j] by (auto simp: bit_and_iff)
  with z show ?thesis by simp
qed

lemma control_HRQ_2_simps [simp]:
  "s (control_HRQ_2 d) = s d" "memory (control_HRQ_2 d) = memory d" "device (control_HRQ_2 d) = device d"
  by (simp_all add: control_HRQ_2_def control_HRQ_with_def)

lemma HRQ_control_2:
  "HRQ (control_HRQ_2 d) =
     (if ctrl_disabled (s d True) then HRQ d
      else if \<exists>j<4. pending (s d True) j then True
      else if status_reg (s d True) AND 0xF0 = 0 then False else HRQ d)"
  by (auto simp: control_HRQ_2_def control_HRQ_with_def requesting_None_iff pending_def dest: no_request_bits)

lemma set_DRQ_2_s_False [simp]: "s (set_DRQ_with control_HRQ_2 True i v d) False = s d False"
  by (auto simp: set_DRQ_with_def Let_def panic_def)

lemma set_DRQ_2_status:
  "n \<noteq> i + 4 \<Longrightarrow>
     bit (status_reg (s (set_DRQ_with control_HRQ_2 True i v d) True)) n = bit (status_reg (s d True)) n"
  by (auto simp: set_DRQ_with_def Let_def panic_def bit_simps dest: bit_imp_le_length)

lemma control_HRQ_1_s_False [simp]: "s (control_HRQ_1 d) False = s d False"
  by (auto simp: control_HRQ_1_def control_HRQ_with_def)

lemma control_HRQ_1_status:
  "n \<noteq> 4 \<Longrightarrow> bit (status_reg (s (control_HRQ_1 d) True)) n = bit (status_reg (s d True)) n"
  by (simp add: control_HRQ_1_def control_HRQ_with_def set_DRQ_2_status)

lemma drop_DMA1:
  assumes "c < 4" and "used (chan (s d False) c)"
  shows "s (set_DRQ c False d) False =
      (s d False)\<lparr>DRQ := (DRQ (s d False))(c := False),
                  status_reg := status_reg (s d False) AND NOT (status_bit (c + 4))\<rparr>"
    and "n \<noteq> 4 \<Longrightarrow> bit (status_reg (s (set_DRQ c False d) True)) n = bit (status_reg (s d True)) n"
  using assms
  by (simp_all add: set_DRQ_def set_DRQ_with_def control_HRQ_def Let_def control_HRQ_1_status)

lemma drop_cascade:
  assumes "used (chan (s d True) 0)" and "\<not> HRQ d"
  shows "s (set_DRQ 4 False d) False = s d False"
    and "bit (status_reg (s (set_DRQ 4 False d) True)) n = (bit (status_reg (s d True)) n \<and> n \<noteq> 4)"
    and "HRQ (set_DRQ 4 False d) =
      (\<not> ctrl_disabled (s d True) \<and> (\<exists>j\<in>{1, 2, 3}. pending (s d True) j))"
proof -
  have 4: "set_DRQ 4 False d = control_HRQ_2 (upd_s True (\<lambda>ct. ct\<lparr>status_reg := status_reg ct AND NOT (status_bit 4)\<rparr>)
      (upd_s True (\<lambda>ct. ct\<lparr>DRQ := (DRQ ct)(0 := False)\<rparr>) d))" (is "_ = control_HRQ_2 ?e")
    using assms(1) by (simp add: set_DRQ_def set_DRQ_with_def control_HRQ_def Let_def)
  show "s (set_DRQ 4 False d) False = s d False" by (simp add: 4)
  show "bit (status_reg (s (set_DRQ 4 False d) True)) n = (bit (status_reg (s d True)) n \<and> n \<noteq> 4)"
    by (auto simp: 4 bit_simps dest: bit_imp_le_length)
  have p: "pending (s ?e True) j = (pending (s d True) j \<and> j \<noteq> 0)" if "j < 4" for j
    using that by (auto simp: pending_def bit_simps)
  have "(\<exists>j<4. pending (s ?e True) j) = (\<exists>j\<in>{1, 2, 3}. pending (s d True) j)"
    using p [of 0] p [of 1] p [of 2] p [of 3] by (simp add: ex_channel)
  then show "HRQ (set_DRQ 4 False d) = (\<not> ctrl_disabled (s d True) \<and> (\<exists>j\<in>{1, 2, 3}. pending (s d True) j))"
    unfolding 4 HRQ_control_2 using assms(2) by simp
qed

subsection \<open>The last unit\<close>

text \<open>The state in which the device sees the terminal count.\<close>

definition at_terminal_count :: "nat \<Rightarrow> ('d \<Rightarrow> 'd) \<Rightarrow> 'd dma \<Rightarrow> 'd dma" where
  "at_terminal_count c nxt d =
     (snd (count_transfer False c (upd_s True (\<lambda>ct. ct\<lparr>DACK := (DACK ct)(0 := True)\<rparr>) (d\<lparr>HLDA := True\<rparr>))))
       \<lparr>device := nxt (device d)\<rparr>"

lemma raise_HLDA_last:
  assumes "serving c d" and "transfer_type (mode (chan (s d False) c)) = 1"
    and "dmaWrite8 h c = Some (streaming_device c out nxt)"
    and "current_count (chan (s d False) c) = 0"
  shows "raise_HLDA h junk d =
    last_unit False c (put_memory (transfer_address False (chan (s d False) c)) (out (device d))
      (set_DRQ c False (at_terminal_count c nxt d)))"
  using assms
  by (simp add: raise_HLDA_def pick_channel_def serving_def count_transfer_def count_expires Let_def
      transfer_unit_def from_device8_def streaming_device_def get_TC_def at_terminal_count_def)

lemma at_terminal_count_simps:
  assumes "current_count (chan (s d False) c) = 0"
  shows "chan (s (at_terminal_count c nxt d) k) j =
      (if \<not> k \<and> j = c then
         if autoinit_enable (mode (chan (s d False) c)) then reload (count_down (chan (s d False) c))
         else count_down (chan (s d False) c)
       else chan (s d k) j)"
    and "masked (s (at_terminal_count c nxt d) k) j =
      (if \<not> k \<and> j = c \<and> \<not> autoinit_enable (mode (chan (s d False) c)) then True else masked (s d k) j)"
    and "status_reg (s (at_terminal_count c nxt d) k) =
      (if k then status_reg (s d True) else status_reg (s d False) OR status_bit c)"
    and "ctrl_disabled (s (at_terminal_count c nxt d) k) = ctrl_disabled (s d k)"
    and "memory (at_terminal_count c nxt d) = memory d" "device (at_terminal_count c nxt d) = nxt (device d)"
proof -
  have m: "mode (count_down ch) = mode ch" for ch by (simp add: count_down_def)
  note e = at_terminal_count_def count_transfer_def Let_def count_expires [THEN iffD2, OF assms] m
  show "chan (s (at_terminal_count c nxt d) k) j =
      (if \<not> k \<and> j = c then
         if autoinit_enable (mode (chan (s d False) c)) then reload (count_down (chan (s d False) c))
         else count_down (chan (s d False) c)
       else chan (s d k) j)" by (simp add: e)
  show "masked (s (at_terminal_count c nxt d) k) j =
      (if \<not> k \<and> j = c \<and> \<not> autoinit_enable (mode (chan (s d False) c)) then True else masked (s d k) j)"
    by (simp add: e)
  show "status_reg (s (at_terminal_count c nxt d) k) =
      (if k then status_reg (s d True) else status_reg (s d False) OR status_bit c)"
    by (simp add: e)
  show "ctrl_disabled (s (at_terminal_count c nxt d) k) = ctrl_disabled (s d k)" by (simp add: e)
  show "memory (at_terminal_count c nxt d) = memory d" "device (at_terminal_count c nxt d) = nxt (device d)"
    by (simp_all add: e)
qed

text \<open>What the last unit leaves: \<open>ready\<close> collects what a block transfer on DMA-1 needs.\<close>

definition ready :: "nat \<Rightarrow> ('d \<Rightarrow> byte) \<Rightarrow> ('d \<Rightarrow> 'd) \<Rightarrow> 'd dma_handlers \<Rightarrow> 'd dma \<Rightarrow> bool" where
  "ready c out nxt h d \<longleftrightarrow>
     serving c d \<and> transfer_type (mode (chan (s d False) c)) = 1 \<and> used (chan (s d False) c) \<and>
     used (chan (s d True) 0) \<and> \<not> TC d \<and> dmaWrite8 h c = Some (streaming_device c out nxt)"

lemma last_unit_outcome:
  fixes d :: "'d dma" and junk :: "16 word"
  assumes r: "ready c out nxt h d" and n: "current_count (chan (s d False) c) = 0"
  defines "d' \<equiv> raise_HLDA h junk d" and "ch \<equiv> chan (s d False) c"
  shows "memory d' = (memory d)(transfer_address False ch := out (device d))"
    and "device d' = nxt (device d)" and "\<not> TC d'" and "\<not> HLDA d'"
    and "chan (s d' k) j = (if \<not> k \<and> j = c then if autoinit_enable (mode ch) then reload (count_down ch) else count_down ch
                            else chan (s d k) j)"
    and "masked (s d' k) j = (if \<not> k \<and> j = c \<and> \<not> autoinit_enable (mode ch) then True else masked (s d k) j)"
    and "bit (status_reg (s d' False)) i = ((bit (status_reg (s d False)) i \<or> i = c) \<and> i \<noteq> c + 4)"
    and "i \<noteq> 4 \<Longrightarrow> bit (status_reg (s d' True)) i = bit (status_reg (s d True)) i"
    and "\<not> bit (status_reg (s d' True)) 4"
    and "\<not> DACK (s d' False) c" and "\<not> DACK (s d' True) 0"
    and "HRQ d' = (\<not> ctrl_disabled (s d True) \<and> (\<exists>j\<in>{1, 2, 3}. pending (s d True) j))"
    and "ctrl_disabled (s d' k) = ctrl_disabled (s d k)"
proof -
  let ?e = "at_terminal_count c nxt d"
  define f where "f = set_DRQ c False ?e"
  define g where "g = upd_s False (\<lambda>ct. ct\<lparr>DACK := (DACK ct)(c := False)\<rparr>)
      ((put_memory (transfer_address False ch) (out (device d)) f)\<lparr>TC := False, HLDA := False, HRQ := False\<rparr>)"
  have c: "c < 4" using r by (simp add: ready_def serving_def requesting_least)
  have d': "d' = upd_s True (\<lambda>ct. ct\<lparr>DACK := (DACK ct)(0 := False)\<rparr>) (set_DRQ 4 False g)"
    using r n by (simp add: d'_def ready_def raise_HLDA_last [of c d h out nxt] last_unit_def Let_def g_def f_def ch_def)
  note e = at_terminal_count_simps [OF n, of nxt, folded ch_def]
  have u: "used (chan (s ?e False) c)"
    using r by (simp add: e ready_def ch_def reload_def count_down_def)
  note drop = drop_DMA1 [OF c u, folded f_def]
  have same: "same_registers ?e f" by (simp add: f_def same_set_DRQ)
  have sg: "same_registers g (set_DRQ 4 False g)" by (rule same_set_DRQ)
  have ug: "used (chan (s g True) 0)" and hg: "\<not> HRQ g"
    using r same by (simp_all add: g_def same_registers_def e ready_def)
  note casc = drop_cascade [OF ug hg]
  have sf: "s d' False = s g False" by (simp add: d' casc)
  show "memory d' = (memory d)(transfer_address False ch := out (device d))" "device d' = nxt (device d)"
    "\<not> TC d'" "\<not> HLDA d'"
    using same sg by (simp_all add: d' same_registers_def g_def e)
  show "chan (s d' k) j = (if \<not> k \<and> j = c then if autoinit_enable (mode ch) then reload (count_down ch) else count_down ch
                            else chan (s d k) j)"
    using same sg by (simp add: d' same_registers_def g_def e)
  show "masked (s d' k) j = (if \<not> k \<and> j = c \<and> \<not> autoinit_enable (mode ch) then True else masked (s d k) j)"
    using same sg by (simp add: d' same_registers_def g_def e)
  show "bit (status_reg (s d' False)) i = ((bit (status_reg (s d False)) i \<or> i = c) \<and> i \<noteq> c + 4)"
    using c by (auto simp: sf g_def drop e bit_simps dest: bit_imp_le_length)
  have tr: "i \<noteq> 4 \<Longrightarrow> bit (status_reg (s g True)) i = bit (status_reg (s d True)) i" for i
    by (simp add: g_def drop e)
  show "i \<noteq> 4 \<Longrightarrow> bit (status_reg (s d' True)) i = bit (status_reg (s d True)) i"
    by (simp add: d' casc tr)
  show "\<not> bit (status_reg (s d' True)) 4" by (simp add: d' casc)
  show "\<not> DACK (s d' False) c" "\<not> DACK (s d' True) 0"
    using sg by (simp_all add: sf) (simp_all add: d' g_def same_registers_def)
  have p: "pending (s g True) j = pending (s d True) j" if "j \<in> {1, 2, 3}" for j
    using that tr [of "j + 4"] same by (auto simp: pending_def g_def same_registers_def e)
  show "HRQ d' = (\<not> ctrl_disabled (s d True) \<and> (\<exists>j\<in>{1, 2, 3}. pending (s d True) j))"
    using p same by (simp add: d' casc) (simp add: g_def same_registers_def e)
  show "ctrl_disabled (s d' k) = ctrl_disabled (s d k)"
    using same sg by (simp add: d' same_registers_def g_def e)
qed

subsection \<open>A whole block\<close>

lemma ready_one_unit: "ready c out nxt h d \<Longrightarrow> ready c out nxt h (one_unit c out nxt d)"
  by (simp add: ready_def count_down_def)

lemma ready_units: "ready c out nxt h d \<Longrightarrow> ready c out nxt h ((one_unit c out nxt ^^ i) d)"
  by (induction i) (simp_all add: ready_one_unit)

lemma units_simps [simp]:
  "device ((one_unit c out nxt ^^ i) d) = (nxt ^^ i) (device d)"
  "chan (s ((one_unit c out nxt ^^ i) d) k) j =
     (if \<not> k \<and> j = c then (count_down ^^ i) (chan (s d False) c) else chan (s d k) j)"
  "masked (s ((one_unit c out nxt ^^ i) d) k) = masked (s d k)"
  "status_reg (s ((one_unit c out nxt ^^ i) d) k) = status_reg (s d k)"
  "ctrl_disabled (s ((one_unit c out nxt ^^ i) d) k) = ctrl_disabled (s d k)"
  by (induction i) auto

lemma units_memory:
  "memory ((one_unit c out nxt ^^ Suc i) d) =
     (memory ((one_unit c out nxt ^^ i) d))(unit_address (chan (s d False) c) i := out ((nxt ^^ i) (device d)))"
  by (simp add: transfer_address_iter)

lemma raise_HLDA_units:
  assumes r: "ready c out nxt h d" and "i \<le> unat (current_count (chan (s d False) c))"
  shows "(raise_HLDA h junk ^^ i) d = (one_unit c out nxt ^^ i) d"
  using assms(2)
proof (induction i)
  case (Suc i)
  let ?n = "current_count (chan (s d False) c)"
  have "?n - of_nat i \<noteq> 0"
  proof
    assume "?n - of_nat i = 0"
    then have "unat ?n = unat (of_nat i :: 16 word)" by simp
    also have "\<dots> = i" using Suc.prems unat_b [of ?n] by (simp add: unat_of_nat del: unsigned_less)
    finally show False using Suc.prems by simp
  qed
  then have "raise_HLDA h junk ((one_unit c out nxt ^^ i) d) = one_unit c out nxt ((one_unit c out nxt ^^ i) d)"
    using ready_units [OF r, of i] by (intro raise_HLDA_unit) (simp_all add: ready_def)
  with Suc show ?case by simp
qed simp

lemma unit_address_inj:
  assumes "unit_address ch i = unit_address ch j" and "i < 65536" and "j < 65536"
  shows "i = j"
proof -
  have "(of_nat i :: 16 word) = of_nat j" using assms(1) 
    by (auto simp: unit_address_def word_unat_eq_iff [symmetric] split: if_splits)
  then have "unat (of_nat i :: 16 word) = unat (of_nat j :: 16 word)" by simp
  with assms(2,3) show ?thesis by (simp add: unat_of_nat)
qed

definition block_written :: "('d \<Rightarrow> byte) \<Rightarrow> ('d \<Rightarrow> 'd) \<Rightarrow> dma_chan \<Rightarrow> 'd \<Rightarrow> nat \<Rightarrow> (nat \<Rightarrow> byte) \<Rightarrow> (nat \<Rightarrow> byte) \<Rightarrow> bool" where
  "block_written out nxt ch dev n m m' \<longleftrightarrow>
     (\<forall>i<n. m' (unit_address ch i) = out ((nxt ^^ i) dev)) \<and>
     (\<forall>x. (\<forall>i<n. x \<noteq> unit_address ch i) \<longrightarrow> m' x = m x)"

lemma block_written_Suc:
  assumes "block_written out nxt ch dev n m m'" and "n < 65536"
  shows "block_written out nxt ch dev (Suc n) m (m'(unit_address ch n := out ((nxt ^^ n) dev)))"
proof -
  have "unit_address ch i \<noteq> unit_address ch n" if "i < n" for i
    using unit_address_inj [of ch i n] that assms(2) by auto
  then show ?thesis using assms(1) by (auto simp: block_written_def less_Suc_eq)
qed

lemma units_written:
  "i \<le> 65536 \<Longrightarrow>
     block_written out nxt (chan (s d False) c) (device d) i (memory d) (memory ((one_unit c out nxt ^^ i) d))"
proof (induction i)
  case (Suc i)
  then show ?case unfolding units_memory by (intro block_written_Suc) simp_all
qed (simp add: block_written_def)

lemma block_last:
  assumes r: "ready c out nxt h d"
  defines "n \<equiv> unat (current_count (chan (s d False) c))"
  defines "e \<equiv> (one_unit c out nxt ^^ n) d"
  shows "ready c out nxt h e" and "current_count (chan (s e False) c) = 0"
    and "(raise_HLDA h junk ^^ Suc n) d = raise_HLDA h junk e"
    and "block_written out nxt (chan (s d False) c) (device d) (Suc n) (memory d) (memory (raise_HLDA h junk e))"
    and "device (raise_HLDA h junk e) = (nxt ^^ Suc n) (device d)"
proof -
  have n: "n < 65536" unfolding n_def using unat_b [of "current_count (chan (s d False) c)"] by (simp del: unsigned_less)
  show re: "ready c out nxt h e" unfolding e_def by (rule ready_units [OF r])
  show z: "current_count (chan (s e False) c) = 0" by (simp add: e_def n_def)
  show "(raise_HLDA h junk ^^ Suc n) d = raise_HLDA h junk e"
    using raise_HLDA_units [OF r, of n junk] by (simp add: n_def e_def)
  note l = last_unit_outcome(1,2) [OF re z, of junk]
  show "device (raise_HLDA h junk e) = (nxt ^^ Suc n) (device d)" unfolding l by (simp add: e_def)
  have "memory (raise_HLDA h junk e) =
      (memory e)(unit_address (chan (s d False) c) n := out ((nxt ^^ n) (device d)))"
    unfolding l by (simp add: e_def transfer_address_iter)
  moreover have "block_written out nxt (chan (s d False) c) (device d) n (memory d) (memory e)"
    unfolding e_def using n by (intro units_written) simp
  ultimately show "block_written out nxt (chan (s d False) c) (device d) (Suc n) (memory d) (memory (raise_HLDA h junk e))"
    using block_written_Suc n by simp
qed

lemma reload_iter: "reload (count_down ((count_down ^^ n) ch)) = reload ch"
  by (cases "(count_down ^^ n) ch", cases ch) (use count_down_iter [of n ch] in \<open>simp add: reload_def count_down_def\<close>)

lemma current_address_iter:
  "current_address ((count_down ^^ n) ch) =
     (if address_decrement (mode ch) then current_address ch - of_nat n else current_address ch + of_nat n)"
  by (rule count_down_address)


text \<open>A request that waits behind a finished block is dropped: when another unmasked channel of
  DMA-1 requests service while the block ends, and no channel of DMA-2 does, the request stays
  pending in DMA-1, but the cascade request and HRQ have been cleared, so the next
  acknowledge finds no channel and transfers nothing until some device raises a request again.\<close>

theorem dma_waiting_request_dropped:
  assumes "ready c out nxt h d" and "current_count (chan (s d False) c) = 0"
    and "j \<noteq> c" and "j < 4" and "pending (s d False) j"
    and "\<forall>i\<in>{1, 2, 3}. \<not> pending (s d True) i"
  shows "let d' = raise_HLDA h junk d in
    pending (s d' False) j \<and> requesting (s d' True) = None \<and> \<not> HRQ d' \<and>
    raise_HLDA h junk d' = d'\<lparr>HLDA := True\<rparr>"
proof -
  let ?d' = "raise_HLDA h junk d"
  note l = last_unit_outcome [OF assms(1,2), where junk = junk]
  have 1: "pending (s ?d' False) j" using assms(3-5) by (simp add: pending_def l(6,7))
  have no: "\<not> pending (s ?d' True) i" if "i < 4" for i
    using channel_cases [OF that] assms(6) l(9) by (auto simp: pending_def l(6) l(8))
  then have 2: "requesting (s ?d' True) = None" by (simp add: requesting_None_iff)
  have 3: "\<not> HRQ ?d'" using assms(6) by (simp add: l(12))
  have 4: "raise_HLDA h junk e = e\<lparr>HLDA := True\<rparr>" if "requesting (s e True) = None" for e
    using that by (simp add: raise_HLDA_def pick_channel_def)
  show ?thesis unfolding Let_def using 1 2 3 4 [OF 2] by blast
qed

text \<open>Channel 2 with a request of its device: the cascade is open, four bytes go to \<open>0x51000\<close>.\<close>

definition floppy_channel :: "16 word \<Rightarrow> dma_chan" where
  "floppy_channel left =
     \<lparr>mode = \<lparr>mode_type = 1, address_decrement = False, autoinit_enable = False, transfer_type = 1\<rparr>,
      base_address = 0x1000, current_address = 0x1003 - left, base_count = 3, current_count = left,
      page_reg = 5, used = True\<rparr>"

definition requests_of :: "byte \<Rightarrow> (nat \<Rightarrow> bool) \<Rightarrow> (nat \<Rightarrow> dma_chan) \<Rightarrow> dma_ctrl" where
  "requests_of status m chans =
     \<lparr>DRQ = \<lambda>i. bit status (i + 4), DACK = \<lambda>_. False, masked = m, flip_flop = False, status_reg = status,
      command_reg = 0, ctrl_disabled = False, chan = chans\<rparr>"

definition floppy_request :: "16 word \<Rightarrow> byte \<Rightarrow> nat dma" where
  "floppy_request left status =
     dma0\<lparr>HRQ := True,
          s := (\<lambda>k. if k then requests_of 0x10 (\<lambda>i. i \<noteq> 0) (\<lambda>i. fresh_chan\<lparr>used := (i = 0)\<rparr>)
               else requests_of status (\<lambda>i. i < 2) (\<lambda>i. if i = 2 then floppy_channel left else fresh_chan))\<rparr>"

definition counting_device :: "nat dma_handlers" where
  "counting_device =
     \<lparr>dmaRead8 = \<lambda>_. None, dmaWrite8 = \<lambda>_. Some (streaming_device 2 (\<lambda>n. of_nat (n + 7)) Suc),
      dmaRead16 = \<lambda>_. None, dmaWrite16 = \<lambda>_. None\<rparr>"

lemma floppy_request_ready:
  assumes "status = 0x40 \<or> status = 0xC0"
  shows "ready 2 (\<lambda>n. of_nat (n + 7)) Suc counting_device (floppy_request left status)"
  using assms
  by (auto simp: ready_def serving_def floppy_request_def requests_of_def requesting_def counting_device_def
      floppy_channel_def dma0_def dma_reset_def reset_controller_def dma_init_def upt_rec)


theorem dma_waiting_request_dropped_witness:
  "HRQ (floppy_request 0 0xC0) \<and> \<not> HRQ (raise_HLDA counting_device 0 (floppy_request 0 0xC0))"
proof -
  let ?d = "floppy_request 0 0xC0"
  have n: "current_count (chan (s ?d False) 2) = 0" "pending (s ?d False) 3"
    "\<forall>i\<in>{1, 2, 3}. \<not> pending (s ?d True) i" "HRQ ?d"
    by (simp_all add: floppy_request_def requests_of_def floppy_channel_def pending_def)
  show ?thesis
    using dma_waiting_request_dropped [OF floppy_request_ready n(1) _ _ n(2,3), of 0] n(4)
    by (simp add: Let_def)
qed

end
