(* ===== verification/Bochs_Timers.thy ===== *)
theory Bochs_Timers
  imports OS_Prelude
begin

section \<open>The timers of the emulator\<close>

text \<open>
  Models the timer framework of \<^verbatim>\<open>pc_system.cc\<close> and \<^verbatim>\<open>pc_system.h\<close>: an array of timers with
  absolute due times, and a 32-bit countdown to the earliest of them that the CPU loop decrements once per
  instruction (\<^verbatim>\<open>tick1\<close>, \<^verbatim>\<open>tickn\<close>). A callback is an identifier, its effect is a parameter
  of the events; \<^verbatim>\<open>NULL\<close> is \<open>None\<close>. \<open>crashed\<close> stands for the undefined behaviour of a call through
  \<^verbatim>\<open>NULL\<close> and of a write behind the array. The double \<^verbatim>\<open>m_ips\<close> enters only through
  \<open>to_ticks\<close>, the conversion of microseconds to ticks, which is a parameter.
  \<^verbatim>\<open>BX_TIMER_DEBUG\<close> is 0 as in \<^verbatim>\<open>config.h\<close>.
\<close>

subsection \<open>State\<close>

record 'h sys_timer =
  inUse :: bool
  period :: "64 word"
  timeToFire :: "64 word"
  active :: bool
  continuous :: bool
  funct :: "'h option"

record ('h, 'd) pc_system =
  timer :: "nat \<Rightarrow> 'h sys_timer"
  numTimers :: nat
  triggeredTimer :: nat
  currCountdown :: "32 word"
  currCountdownPeriod :: "32 word"
  ticksTotal :: "64 word"
  devices :: 'd
  crashed :: bool

definition BX_MAX_TIMERS :: nat where "BX_MAX_TIMERS = 64"

definition NullTimerInterval :: "64 word" where "NullTimerInterval = 0x7FFFFFFF"

definition MinAllowableTimerPeriod :: "64 word" where "MinAllowableTimerPeriod = 1"

definition upd_timer :: "nat \<Rightarrow> ('h sys_timer \<Rightarrow> 'h sys_timer) \<Rightarrow> ('h, 'd) pc_system \<Rightarrow> ('h, 'd) pc_system" where
  "upd_timer i f p = p\<lparr>timer := (timer p)(i := f (timer p i))\<rparr>"

text \<open>The constructor and \<^verbatim>\<open>initialize\<close> together; \<open>null\<close> is the callback \<^verbatim>\<open>nullTimer\<close>.\<close>

definition pc_initialize :: "'h \<Rightarrow> 'h sys_timer \<Rightarrow> 'd \<Rightarrow> ('h, 'd) pc_system" where
  "pc_initialize null unset d =
     \<lparr>timer = (\<lambda>_. unset)(0 := unset\<lparr>inUse := True, period := NullTimerInterval, timeToFire := NullTimerInterval,
                                  active := True, continuous := True, funct := Some null\<rparr>),
      numTimers = 1, triggeredTimer = 0, currCountdown = ucast NullTimerInterval,
      currCountdownPeriod = ucast NullTimerInterval, ticksTotal = 0, devices = d, crashed = False\<rparr>"

definition time_ticks :: "('h, 'd) pc_system \<Rightarrow> 64 word" where
  "time_ticks p = ticksTotal p + ucast (currCountdownPeriod p - currCountdown p)"

subsection \<open>Setting timers\<close>

text \<open>The new timer needs to fire before the current countdown: the countdown and its period become smaller by
  the same amount.\<close>

definition skew_countdown :: "64 word \<Rightarrow> ('h, 'd) pc_system \<Rightarrow> ('h, 'd) pc_system" where
  "skew_countdown ticks p =
     (if ticks < ucast (currCountdown p) then
        p\<lparr>currCountdownPeriod := currCountdownPeriod p - (currCountdown p - ucast ticks),
          currCountdown := ucast ticks\<rparr>
      else p)"

definition sane_ticks :: "64 word \<Rightarrow> 64 word" where
  "sane_ticks ticks = (if ticks < MinAllowableTimerPeriod then MinAllowableTimerPeriod else ticks)"

definition free_slot :: "('h, 'd) pc_system \<Rightarrow> nat" where
  "free_slot p = (case find (\<lambda>i. \<not> inUse (timer p i)) [1..<numTimers p] of Some i \<Rightarrow> i | None \<Rightarrow> max 1 (numTimers p))"

definition register_timer_ticks ::
    "'h option \<Rightarrow> 64 word \<Rightarrow> bool \<Rightarrow> bool \<Rightarrow> ('h, 'd) pc_system \<Rightarrow> nat \<times> ('h, 'd) pc_system" where
  "register_timer_ticks f ticks0 cont act p =
     (let ticks = sane_ticks ticks0; i = free_slot p;
          p1 = upd_timer i (\<lambda>t. t\<lparr>inUse := True, period := ticks, timeToFire := time_ticks p + ticks, active := act,
                                  continuous := cont, funct := f\<rparr>) p;
          p2 = (if act then skew_countdown ticks p1 else p1);
          p3 = (if i = numTimers p then p2\<lparr>numTimers := numTimers p + 1\<rparr> else p2)
      in (i, p3\<lparr>crashed := crashed p \<or> i \<ge> BX_MAX_TIMERS\<rparr>))"

definition register_timer ::
    "(32 word \<Rightarrow> 64 word) \<Rightarrow> 'h option \<Rightarrow> 32 word \<Rightarrow> bool \<Rightarrow> bool \<Rightarrow> ('h, 'd) pc_system \<Rightarrow>
     nat \<times> ('h, 'd) pc_system" where
  "register_timer to_ticks f useconds cont act = register_timer_ticks f (to_ticks useconds) cont act"

definition activate_timer_ticks :: "nat \<Rightarrow> 64 word \<Rightarrow> bool \<Rightarrow> ('h, 'd) pc_system \<Rightarrow> ('h, 'd) pc_system" where
  "activate_timer_ticks i ticks0 cont p =
     (let ticks = sane_ticks ticks0 in
      skew_countdown ticks
        (upd_timer i (\<lambda>t. t\<lparr>period := ticks, timeToFire := time_ticks p + ticks, active := True, continuous := cont\<rparr>) p))"

definition activate_timer ::
    "(32 word \<Rightarrow> 64 word) \<Rightarrow> nat \<Rightarrow> 32 word \<Rightarrow> bool \<Rightarrow> ('h, 'd) pc_system \<Rightarrow> ('h, 'd) pc_system" where
  "activate_timer to_ticks i useconds cont p =
     (if useconds = 0 then activate_timer_ticks i (period (timer p i)) cont p
      else (let ticks = sane_ticks (to_ticks useconds) in
            activate_timer_ticks i ticks cont (upd_timer i (\<lambda>t. t\<lparr>period := ticks\<rparr>) p)))"

definition deactivate_timer :: "nat \<Rightarrow> ('h, 'd) pc_system \<Rightarrow> ('h, 'd) pc_system" where
  "deactivate_timer i = upd_timer i (\<lambda>t. t\<lparr>active := False\<rparr>)"

definition unregisterTimer :: "nat \<Rightarrow> ('h, 'd) pc_system \<Rightarrow> bool \<times> ('h, 'd) pc_system" where
  "unregisterTimer i p =
     (if active (timer p i) then (False, p)
      else (True,
        (let p1 = upd_timer i (\<lambda>t. t\<lparr>inUse := False, period := 0x7FFFFFFFFFFFFFFF, timeToFire := 0x7FFFFFFFFFFFFFFF,
                                     continuous := False, funct := None\<rparr>) p
         in if i = numTimers p - 1 then p1\<lparr>numTimers := numTimers p - 1\<rparr> else p1)))"

subsection \<open>Events\<close>

text \<open>One round of the first loop of \<^verbatim>\<open>countdownEvent\<close>: timer, \<^verbatim>\<open>triggered\<close> and
  \<^verbatim>\<open>minTimeToFire\<close>.\<close>

definition earlier :: "64 word \<Rightarrow> 64 word \<Rightarrow> 64 word" where
  "earlier t m = (if t < m then t else m)"

definition is_due :: "64 word \<Rightarrow> 'h sys_timer \<Rightarrow> bool" where
  "is_due t tm \<longleftrightarrow> active tm \<and> t = timeToFire tm"

definition rearm_timer :: "'h sys_timer \<Rightarrow> 'h sys_timer" where
  "rearm_timer tm = (if \<not> continuous tm then tm\<lparr>active := False\<rparr> else tm\<lparr>timeToFire := timeToFire tm + period tm\<rparr>)"

definition service :: "64 word \<Rightarrow> 'h sys_timer \<Rightarrow> 64 word \<Rightarrow> 'h sys_timer \<times> bool \<times> 64 word" where
  "service t tm m =
     (if active tm then
        (if t = timeToFire tm then
           (rearm_timer tm, True, if \<not> continuous tm then m else earlier (timeToFire (rearm_timer tm)) m)
         else (tm, False, earlier (timeToFire tm) m))
      else (tm, False, m))"

definition service_step ::
    "64 word \<Rightarrow> nat \<Rightarrow> (nat \<Rightarrow> 'h sys_timer) \<times> (nat \<Rightarrow> bool) \<times> 64 word \<Rightarrow>
     (nat \<Rightarrow> 'h sys_timer) \<times> (nat \<Rightarrow> bool) \<times> 64 word" where
  "service_step t i = (\<lambda>(tms, trig, m). (let (tm, b, m') = service t (tms i) m in (tms(i := tm), trig(i := b), m')))"

definition call_timer ::
    "('h \<Rightarrow> ('h, 'd) pc_system \<Rightarrow> ('h, 'd) pc_system) \<Rightarrow> nat \<Rightarrow> ('h, 'd) pc_system \<Rightarrow> ('h, 'd) pc_system" where
  "call_timer H i p =
     (case funct (timer p i) of
        None \<Rightarrow> p\<lparr>triggeredTimer := 0, crashed := True\<rparr>
      | Some h \<Rightarrow> (H h (p\<lparr>triggeredTimer := i\<rparr>))\<lparr>triggeredTimer := 0\<rparr>)"

text \<open>\<^verbatim>\<open>countdownEvent\<close>. Both loops read \<^verbatim>\<open>numTimers\<close> in every round, so a callback that
  registers a timer makes the second loop read flags the first one has not set: \<open>junk\<close> is the content of that local
  array.\<close>

definition countdownEvent ::
    "('h \<Rightarrow> ('h, 'd) pc_system \<Rightarrow> ('h, 'd) pc_system) \<Rightarrow> (nat \<Rightarrow> bool) \<Rightarrow> ('h, 'd) pc_system \<Rightarrow> ('h, 'd) pc_system" where
  "countdownEvent H junk p =
     (let t = ticksTotal p + ucast (currCountdownPeriod p);
          (tms, triggered, minTimeToFire) = fold (service_step t) [0..<numTimers p] (timer p, junk, -1);
          left = ucast (minTimeToFire - t)
      in fold (\<lambda>i q. if i < numTimers q \<and> triggered i then call_timer H i q else q) [0..<BX_MAX_TIMERS]
           (p\<lparr>ticksTotal := t, timer := tms, currCountdown := left, currCountdownPeriod := left\<rparr>))"

definition tick1 ::
    "('h \<Rightarrow> ('h, 'd) pc_system \<Rightarrow> ('h, 'd) pc_system) \<Rightarrow> (nat \<Rightarrow> bool) \<Rightarrow> ('h, 'd) pc_system \<Rightarrow> ('h, 'd) pc_system" where
  "tick1 H junk p =
     (let p1 = p\<lparr>currCountdown := currCountdown p - 1\<rparr> in
      if currCountdown p1 = 0 then countdownEvent H junk p1 else p1)"

text \<open>The loop of \<^verbatim>\<open>tickn\<close>, which does not end when an event leaves a countdown of 0.\<close>

partial_function (option) tickn ::
    "('h \<Rightarrow> ('h, 'd) pc_system \<Rightarrow> ('h, 'd) pc_system) \<Rightarrow> (nat \<Rightarrow> bool) \<Rightarrow> 32 word \<Rightarrow> ('h, 'd) pc_system \<Rightarrow>
     ('h, 'd) pc_system option" where
  "tickn H junk n p =
     (if n \<ge> currCountdown p then
        tickn H junk (n - currCountdown p) (countdownEvent H junk (p\<lparr>currCountdown := 0\<rparr>))
      else Some (p\<lparr>currCountdown := currCountdown p - n\<rparr>))"

section \<open>The calendar\<close>

text \<open>What the framework promises: at every tick exactly the active timers that are due at that tick are
  re-armed and called, in the order of their numbers. There is no countdown here.\<close>

record ('h, 'd) calendar =
  now :: "64 word"
  slots :: "nat \<Rightarrow> 'h sys_timer"
  count :: nat
  firing :: nat
  clients :: 'd
  fault :: bool

definition cal_call :: "('h \<Rightarrow> ('h, 'd) calendar \<Rightarrow> ('h, 'd) calendar) \<Rightarrow> nat \<Rightarrow> ('h, 'd) calendar \<Rightarrow> ('h, 'd) calendar" where
  "cal_call K i c =
     (case funct (slots c i) of
        None \<Rightarrow> c\<lparr>firing := 0, fault := True\<rparr>
      | Some h \<Rightarrow> (K h (c\<lparr>firing := i\<rparr>))\<lparr>firing := 0\<rparr>)"

definition rearm_due :: "64 word \<Rightarrow> nat \<Rightarrow> (nat \<Rightarrow> 'h sys_timer) \<Rightarrow> nat \<Rightarrow> 'h sys_timer" where
  "rearm_due t n tms i = (if i < n \<and> is_due t (tms i) then rearm_timer (tms i) else tms i)"

definition cal_tick :: "('h \<Rightarrow> ('h, 'd) calendar \<Rightarrow> ('h, 'd) calendar) \<Rightarrow> ('h, 'd) calendar \<Rightarrow> ('h, 'd) calendar" where
  "cal_tick K c =
     (let t = now c + 1 in
      fold (cal_call K) (filter (\<lambda>i. is_due t (slots c i)) [0..<count c])
        (c\<lparr>now := t, slots := rearm_due t (count c) (slots c)\<rparr>))"

definition abs_timers :: "('h, 'd) pc_system \<Rightarrow> ('h, 'd) calendar" where
  "abs_timers p =
     \<lparr>now = time_ticks p, slots = timer p, count = numTimers p, firing = triggeredTimer p,
      clients = devices p, fault = crashed p\<rparr>"

text \<open>The state between two instructions, and inside a callback: the countdown is running and ends no later than
  any active timer is due; timer 0 is the null timer.\<close>

definition next_event :: "('h, 'd) pc_system \<Rightarrow> nat" where
  "next_event p = unat (ticksTotal p) + unat (currCountdownPeriod p)"

definition tick_count :: "('h, 'd) pc_system \<Rightarrow> nat" where
  "tick_count p = unat (ticksTotal p) + (unat (currCountdownPeriod p) - unat (currCountdown p))"

definition timer_ok :: "nat \<Rightarrow> 'h sys_timer \<Rightarrow> bool" where
  "timer_ok e tm \<longleftrightarrow> active tm \<longrightarrow> e \<le> unat (timeToFire tm) \<and> 1 \<le> unat (period tm) \<and> unat (period tm) \<le> 2 ^ 63"

definition null_timer_ok :: "nat \<Rightarrow> 'h sys_timer \<Rightarrow> bool" where
  "null_timer_ok t tm \<longleftrightarrow> active tm \<and> continuous tm \<and> period tm = NullTimerInterval \<and>
     unat (timeToFire tm) \<le> t + unat NullTimerInterval"

definition timers_ok :: "('h, 'd) pc_system \<Rightarrow> bool" where
  "timers_ok p \<longleftrightarrow>
     1 \<le> numTimers p \<and> numTimers p \<le> BX_MAX_TIMERS \<and>
     0 < unat (currCountdown p) \<and> unat (currCountdown p) \<le> unat (currCountdownPeriod p) \<and> tick_count p < 2 ^ 63 \<and>
     null_timer_ok (unat (ticksTotal p)) (timer p 0) \<and> (\<forall>i<numTimers p. timer_ok (next_event p) (timer p i))"

section \<open>The countdown implements the calendar\<close>

lemma word32_lt: "unat (w :: 32 word) < 2 ^ 32"
  using unsigned_less [of w] by (simp del: unsigned_less)

lemma word64_lt: "unat (w :: 64 word) < 2 ^ 64"
  using unsigned_less [of w] by (simp del: unsigned_less)

lemma unat_add_64: "unat a + unat b < 2 ^ 64 \<Longrightarrow> unat (a + b :: 64 word) = unat a + unat b"
  by (simp add: unat_word_ariths)

lemma unat_sub_64: "unat b \<le> unat a \<Longrightarrow> unat (a - b :: 64 word) = unat a - unat b"
  by (simp add: unat_sub word_le_nat_alt)

lemma unat_sub_32: "unat b \<le> unat a \<Longrightarrow> unat (a - b :: 32 word) = unat a - unat b"
  by (simp add: unat_sub word_le_nat_alt)

lemma unat_ucast_64 [simp]: "unat (ucast (w :: 32 word) :: 64 word) = unat w"
proof -
  have "unat w < 2 ^ 64" using word32_lt [of w] by (rule less_trans) simp
  then show ?thesis by (simp add: unsigned_ucast_eq take_bit_nat_eq_self)
qed

lemma unat_ucast_32: "unat w < 2 ^ 32 \<Longrightarrow> unat (ucast (w :: 64 word) :: 32 word) = unat w"
  by (simp add: unsigned_ucast_eq take_bit_nat_eq_self)

lemma time_is_clock:
  assumes "timers_ok p"
  shows "unat (time_ticks p) = tick_count p" and "next_event p = tick_count p + unat (currCountdown p)"
    and "tick_count p < next_event p" and "next_event p < 2 ^ 63 + 2 ^ 32"
proof -
  have le: "unat (currCountdown p) \<le> unat (currCountdownPeriod p)" and c: "tick_count p < 2 ^ 63"
    and pos: "0 < unat (currCountdown p)"
    using assms by (simp_all add: timers_ok_def)
  have "unat (currCountdownPeriod p - currCountdown p) = unat (currCountdownPeriod p) - unat (currCountdown p)"
    by (rule unat_sub_32 [OF le])
  then show "unat (time_ticks p) = tick_count p"
    using c by (simp add: time_ticks_def tick_count_def unat_add_64)
  show n: "next_event p = tick_count p + unat (currCountdown p)" using le by (simp add: next_event_def tick_count_def)
  show "tick_count p < next_event p" using n pos by simp
  show "next_event p < 2 ^ 63 + 2 ^ 32" using n c word32_lt [of "currCountdown p"] by linarith
qed

subsection \<open>Setting a timer\<close>

lemma upd_timer_simps [simp]:
  "timer (upd_timer i f p) j = (if j = i then f (timer p i) else timer p j)"
  "numTimers (upd_timer i f p) = numTimers p" "currCountdown (upd_timer i f p) = currCountdown p"
  "currCountdownPeriod (upd_timer i f p) = currCountdownPeriod p" "ticksTotal (upd_timer i f p) = ticksTotal p"
  "triggeredTimer (upd_timer i f p) = triggeredTimer p" "devices (upd_timer i f p) = devices p"
  "crashed (upd_timer i f p) = crashed p" "time_ticks (upd_timer i f p) = time_ticks p"
  "tick_count (upd_timer i f p) = tick_count p" "next_event (upd_timer i f p) = next_event p"
  by (simp_all add: upd_timer_def time_ticks_def tick_count_def next_event_def)

lemma skew_simps [simp]:
  "timer (skew_countdown t p) = timer p" "numTimers (skew_countdown t p) = numTimers p"
  "ticksTotal (skew_countdown t p) = ticksTotal p" "triggeredTimer (skew_countdown t p) = triggeredTimer p"
  "devices (skew_countdown t p) = devices p" "crashed (skew_countdown t p) = crashed p"
  by (simp_all add: skew_countdown_def)

lemma skew_clock:
  assumes "0 < unat (currCountdown p)" and "unat (currCountdown p) \<le> unat (currCountdownPeriod p)"
    and "1 \<le> unat t"
  defines "q \<equiv> skew_countdown t p"
  shows "tick_count q = tick_count p" and "time_ticks q = time_ticks p"
    and "next_event q = min (next_event p) (tick_count p + unat t)"
    and "0 < unat (currCountdown q)" and "unat (currCountdown q) \<le> unat (currCountdownPeriod q)"
proof -
  let ?C = "currCountdown p" and ?P = "currCountdownPeriod p"
  have "tick_count q = tick_count p \<and> time_ticks q = time_ticks p \<and> next_event q = min (next_event p) (tick_count p + unat t) \<and>
      0 < unat (currCountdown q) \<and> unat (currCountdown q) \<le> unat (currCountdownPeriod q)"
  proof (cases "t < ucast ?C")
    case True
    then have l: "unat t < unat ?C" by (simp add: word_less_nat_alt)
    then have t: "unat (ucast t :: 32 word) = unat t"
      using word32_lt [of ?C] by (intro unat_ucast_32) linarith
    have d: "unat (?C - ucast t) = unat ?C - unat t" using l t by (simp add: unat_sub_32)
    have P: "unat (?P - (?C - ucast t)) = unat ?P - (unat ?C - unat t)"
      using assms(2) d by (subst unat_sub_32) simp_all
    have w: "?P - (?C - ucast t) - ucast t = ?P - ?C" by simp
    show ?thesis
      using True l assms(2,3) t P w
      by (simp add: q_def skew_countdown_def tick_count_def next_event_def time_ticks_def) linarith
  next
    case False
    then have "unat ?C \<le> unat t" by (simp add: word_less_nat_alt not_less)
    with False assms(1,2) show ?thesis
      by (simp add: q_def skew_countdown_def tick_count_def next_event_def)
  qed
  then show "tick_count q = tick_count p" "time_ticks q = time_ticks p" "next_event q = min (next_event p) (tick_count p + unat t)"
    "0 < unat (currCountdown q)" "unat (currCountdown q) \<le> unat (currCountdownPeriod q)" by blast+
qed

lemma timer_ok_mono: "timer_ok e tm \<Longrightarrow> e' \<le> e \<Longrightarrow> timer_ok e' tm"
  by (auto simp: timer_ok_def)

lemma sane_ticks_pos [simp]: "1 \<le> unat (sane_ticks t)"
proof -
  have "t = 0" if "unat t = 0" using that by (simp add: unat_eq_zero)
  then show ?thesis by (auto simp: sane_ticks_def MinAllowableTimerPeriod_def word_less_nat_alt not_less)
qed

lemma sane_ticks_le: "unat t \<le> 2 ^ 63 \<Longrightarrow> unat (sane_ticks t) \<le> 2 ^ 63"
  by (simp add: sane_ticks_def MinAllowableTimerPeriod_def)

text \<open>Putting a new due time into a slot other than 0 and skewing the countdown keeps the invariant; that is
  what registering and activating a timer do.\<close>

lemma timers_ok_set:
  assumes ok: "timers_ok p" and i: "i \<noteq> 0" and t: "1 \<le> unat t" "unat t \<le> 2 ^ 63"
    and f: "timeToFire (f (timer p i)) = time_ticks p + t" "period (f (timer p i)) = t"
  shows "timers_ok (skew_countdown t (upd_timer i f p))" (is "timers_ok ?q")
proof -
  note c = time_is_clock [OF ok]
  have sk: "0 < unat (currCountdown (upd_timer i f p))"
    "unat (currCountdown (upd_timer i f p)) \<le> unat (currCountdownPeriod (upd_timer i f p))"
    using ok by (simp_all add: timers_ok_def)
  note q = skew_clock [OF sk t(1)]
  have ttf: "unat (time_ticks p + t) = tick_count p + unat t"
    using ok t c(1) by (subst unat_add_64) (simp_all add: timers_ok_def)
  have le: "next_event ?q \<le> next_event p" and le': "next_event ?q \<le> tick_count p + unat t" using q(3) by simp_all
  have "timer_ok (next_event ?q) (timer ?q j)" if "j < numTimers p" for j
  proof (cases "j = i")
    case True
    then show ?thesis using f t le' ttf by (simp add: timer_ok_def)
  next
    case False
    have "timer_ok (next_event p) (timer p j)" using ok that by (simp add: timers_ok_def)
    with False le show ?thesis by (simp add: timer_ok_mono)
  qed
  then show ?thesis using ok i q(1,4,5) by (simp add: timers_ok_def)
qed

lemma timers_ok_activate:
  "timers_ok p \<Longrightarrow> i \<noteq> 0 \<Longrightarrow> unat t \<le> 2 ^ 63 \<Longrightarrow> timers_ok (activate_timer_ticks i t cont p)"
  unfolding activate_timer_ticks_def Let_def
  by (rule timers_ok_set) (assumption | rule sane_ticks_pos sane_ticks_le | simp)+

lemma timers_ok_deactivate: "timers_ok p \<Longrightarrow> i \<noteq> 0 \<Longrightarrow> timers_ok (deactivate_timer i p)"
  by (auto simp: timers_ok_def deactivate_timer_def timer_ok_def)

subsection \<open>The first loop of an event\<close>

definition least_due :: "64 word \<Rightarrow> nat list \<Rightarrow> (nat \<Rightarrow> 'h sys_timer) \<Rightarrow> 64 word \<Rightarrow> bool" where
  "least_due m is tms m0 \<longleftrightarrow>
     m \<le> m0 \<and> (\<forall>i\<in>set is. active (tms i) \<longrightarrow> m \<le> timeToFire (tms i)) \<and>
     (m = m0 \<or> (\<exists>i\<in>set is. active (tms i) \<and> m = timeToFire (tms i)))"

lemma service_cases:
  "fst (service t tm m) = (if is_due t tm then rearm_timer tm else tm)"
  "fst (snd (service t tm m)) = is_due t tm"
  "snd (snd (service t tm m)) =
     (if active (fst (service t tm m)) then earlier (timeToFire (fst (service t tm m))) m else m)"
  by (auto simp: service_def is_due_def rearm_timer_def)

lemma earlier_least:
  "earlier a m \<le> a" "earlier a m \<le> m" "earlier a m = a \<or> earlier a m = m"
  by (auto simp: earlier_def)

lemma services:
  assumes "fold (service_step t) is (tms, trig, m0) = (tms', trig', m)" and "distinct is"
  shows "tms' = (\<lambda>i. if i \<in> set is \<and> is_due t (tms i) then rearm_timer (tms i) else tms i)"
    and "trig' = (\<lambda>i. if i \<in> set is then is_due t (tms i) else trig i)"
    and "least_due m is tms' m0"
proof -
  have "tms' = (\<lambda>i. if i \<in> set is \<and> is_due t (tms i) then rearm_timer (tms i) else tms i) \<and>
      trig' = (\<lambda>i. if i \<in> set is then is_due t (tms i) else trig i) \<and> least_due m is tms' m0"
    using assms
  proof (induction "is" arbitrary: tms trig m0)
    case Nil
    then show ?case by (auto simp: least_due_def)
  next
    case (Cons a as)
    obtain tm b m1 where s: "service t (tms a) m0 = (tm, b, m1)" by (metis prod_cases3)
    have f: "fold (service_step t) as (tms(a := tm), trig(a := b), m1) = (tms', trig', m)"
      using Cons.prems(1) by (simp add: service_step_def [of t a] s)
    have tm: "tm = (if is_due t (tms a) then rearm_timer (tms a) else tms a)" and b: "b = is_due t (tms a)"
      and m1: "m1 = (if active tm then earlier (timeToFire tm) m0 else m0)"
      using service_cases [of t "tms a" m0] unfolding s fst_conv snd_conv by simp_all
    have IH: "tms' = (\<lambda>i. if i \<in> set as \<and> is_due t ((tms(a := tm)) i) then rearm_timer ((tms(a := tm)) i) else (tms(a := tm)) i)"
      "trig' = (\<lambda>i. if i \<in> set as then is_due t ((tms(a := tm)) i) else (trig(a := b)) i)"
      "least_due m as tms' m1"
      using Cons.IH [OF f] Cons.prems(2) by auto
    have a: "a \<notin> set as" using Cons.prems(2) by simp
    have ta: "tms' a = tm" using a by (simp add: IH(1))
    have "least_due m (a # as) tms' m0"
      using IH(3) ta m1 earlier_least [of "timeToFire tm" m0]
      by (auto simp: least_due_def split: if_splits dest: order_trans)
    then show ?case using a IH(1,2) tm b by (auto simp: fun_eq_iff)
  qed
  then show "tms' = (\<lambda>i. if i \<in> set is \<and> is_due t (tms i) then rearm_timer (tms i) else tms i)"
    "trig' = (\<lambda>i. if i \<in> set is then is_due t (tms i) else trig i)" "least_due m is tms' m0" by blast+
qed

text \<open>The state in which the callbacks of an event start.\<close>

definition serviced :: "(nat \<Rightarrow> bool) \<Rightarrow> ('h, 'd) pc_system \<Rightarrow> (nat \<Rightarrow> bool) \<times> ('h, 'd) pc_system" where
  "serviced junk p =
     (let t = ticksTotal p + ucast (currCountdownPeriod p);
          (tms, triggered, minTimeToFire) = fold (service_step t) [0..<numTimers p] (timer p, junk, -1);
          left = ucast (minTimeToFire - t)
      in (triggered, p\<lparr>ticksTotal := t, timer := tms, currCountdown := left, currCountdownPeriod := left\<rparr>))"

lemma countdownEvent_serviced:
  "countdownEvent H junk p =
     fold (\<lambda>i q. if i < numTimers q \<and> fst (serviced junk p) i then call_timer H i q else q) [0..<BX_MAX_TIMERS]
       (snd (serviced junk p))"
  by (simp add: countdownEvent_def serviced_def Let_def split: prod.split)

lemma serviced_ok:
  assumes N: "1 \<le> numTimers p" "numTimers p \<le> BX_MAX_TIMERS"
    and null: "null_timer_ok (unat (ticksTotal p)) (timer p 0)"
    and all: "\<forall>i<numTimers p. timer_ok (next_event p) (timer p i)"
    and lim: "next_event p < 2 ^ 63"
  defines "t \<equiv> ticksTotal p + ucast (currCountdownPeriod p)"
  shows "timers_ok (snd (serviced junk p))"
    and "abs_timers (snd (serviced junk p)) =
      (abs_timers p)\<lparr>now := t, slots := rearm_due t (numTimers p) (timer p)\<rparr>"
    and "fst (serviced junk p) = (\<lambda>i. if i < numTimers p then is_due t (timer p i) else junk i)"
    and "unat t = next_event p"
proof -
  obtain tms trig m where f: "fold (service_step t) [0..<numTimers p] (timer p, junk, -1) = (tms, trig, m)"
    by (metis prod_cases3)
  note s = services [OF f distinct_upt]
  let ?q = "snd (serviced junk p)"
  have q: "?q = p\<lparr>ticksTotal := t, timer := tms, currCountdown := ucast (m - t), currCountdownPeriod := ucast (m - t)\<rparr>"
    and tr: "fst (serviced junk p) = trig"
    using f by (simp_all add: serviced_def Let_def t_def)
  show tn: "unat t = next_event p" using lim by (simp add: t_def next_event_def unat_add_64)
  have tms: "tms = rearm_due t (numTimers p) (timer p)"
    by (simp add: s(1) rearm_due_def fun_eq_iff)
  have later: "unat t < unat (timeToFire (tms i)) \<and> 1 \<le> unat (period (tms i)) \<and> unat (period (tms i)) \<le> 2 ^ 63"
    if i: "i < numTimers p" and a: "active (tms i)" for i
  proof (cases "is_due t (timer p i)")
    case True
    then have c: "continuous (timer p i)" and e: "tms i = rearm_timer (timer p i)"
      using i a by (auto simp: tms rearm_due_def rearm_timer_def split: if_splits)
    have b: "1 \<le> unat (period (timer p i))" "unat (period (timer p i)) \<le> 2 ^ 63"
      using all i True by (auto simp: timer_ok_def is_due_def)
    have "unat (timeToFire (timer p i) + period (timer p i)) = unat t + unat (period (timer p i))"
      using True tn lim b by (simp add: is_due_def unat_add_64)
    then show ?thesis using b by (simp add: e rearm_timer_def c)
  next
    case False
    then have e: "tms i = timer p i" by (simp add: tms rearm_due_def)
    with False a have "t \<noteq> timeToFire (timer p i)" by (simp add: is_due_def)
    then have "unat t \<noteq> unat (timeToFire (timer p i))" by (simp add: word_unat_eq_iff)
    moreover have "timer_ok (next_event p) (timer p i)" using all i by blast
    ultimately show ?thesis using a e tn by (simp add: timer_ok_def)
  qed
  have nt: "active (tms 0)" "continuous (tms 0)" "period (tms 0) = NullTimerInterval"
    using null by (auto simp: tms rearm_due_def rearm_timer_def null_timer_ok_def)
  have n0: "unat (timeToFire (tms 0)) \<le> unat t + unat NullTimerInterval"
  proof (cases "is_due t (timer p 0)")
    case True
    then have "timeToFire (tms 0) = t + NullTimerInterval"
      using null N by (simp add: tms rearm_due_def rearm_timer_def is_due_def null_timer_ok_def)
    moreover have "unat (t + NullTimerInterval) = unat t + unat NullTimerInterval"
      using tn lim by (subst unat_add_64) (simp_all add: NullTimerInterval_def)
    ultimately show ?thesis by simp
  next
    case False
    then show ?thesis using null tn by (simp add: tms rearm_due_def null_timer_ok_def next_event_def)
  qed
  have m0: "m \<le> timeToFire (tms 0)" and mi: "\<forall>i<numTimers p. active (tms i) \<longrightarrow> m \<le> timeToFire (tms i)"
    and mx: "m = -1 \<or> (\<exists>i<numTimers p. active (tms i) \<and> m = timeToFire (tms i))"
    using s(3) N nt(1) by (auto simp: least_due_def)
  have mt: "unat t < unat m"
    using mx
  proof
    assume "m = -1"
    then have "unat m = 2 ^ 64 - 1" by (simp add: unsigned_minus_1_eq_mask mask_eq_exp_minus_1)
    then show ?thesis using tn lim by simp
  qed (use later in blast)
  have mle: "unat m \<le> unat t + unat NullTimerInterval" using m0 n0 by (simp add: word_le_nat_alt)
  have d: "unat (m - t) = unat m - unat t" using mt by (simp add: unat_sub_64)
  have l: "unat (ucast (m - t) :: 32 word) = unat m - unat t"
    using d mle by (subst unat_ucast_32) (simp_all add: NullTimerInterval_def)
  have ne: "next_event ?q = unat m" and cl: "tick_count ?q = unat t"
    using mt l by (simp_all add: q next_event_def tick_count_def)
  have "timer_ok (next_event ?q) (timer ?q i)" if "i < numTimers ?q" for i
    using that later [of i] mi ne by (auto simp: timer_ok_def q word_le_nat_alt)
  moreover have "null_timer_ok (unat (ticksTotal ?q)) (timer ?q 0)"
    using nt n0 by (simp add: null_timer_ok_def q)
  ultimately show "timers_ok ?q"
    using N cl tn lim l mt by (simp add: timers_ok_def q)
  have "time_ticks ?q = t" by (simp add: q time_ticks_def)
  then show "abs_timers ?q = (abs_timers p)\<lparr>now := t, slots := rearm_due t (numTimers p) (timer p)\<rparr>"
    by (simp add: abs_timers_def tms) (simp add: q tms)
  show "fst (serviced junk p) = (\<lambda>i. if i < numTimers p then is_due t (timer p i) else junk i)"
    by (simp add: tr s(2) fun_eq_iff)
qed

subsection \<open>Callbacks\<close>

text \<open>What the framework expects of the callbacks \<open>H\<close>: they keep the invariant, register no timers, take no
  time, and have a meaning \<open>K\<close> on the calendar.\<close>

locale timer_callbacks =
  fixes H :: "'h \<Rightarrow> ('h, 'd) pc_system \<Rightarrow> ('h, 'd) pc_system"
    and K :: "'h \<Rightarrow> ('h, 'd) calendar \<Rightarrow> ('h, 'd) calendar"
  assumes callback_ok: "timers_ok p \<Longrightarrow> timers_ok (H h p)"
    and callback_abs: "timers_ok p \<Longrightarrow> abs_timers (H h p) = K h (abs_timers p)"
    and callback_count: "timers_ok p \<Longrightarrow> numTimers (H h p) = numTimers p"
    and callback_time: "timers_ok p \<Longrightarrow> time_ticks (H h p) = time_ticks p"

lemma timers_ok_trigger [simp]:
  "timers_ok (p\<lparr>triggeredTimer := i\<rparr>) = timers_ok p" "timers_ok (p\<lparr>crashed := b\<rparr>) = timers_ok p"
  "time_ticks (p\<lparr>triggeredTimer := i\<rparr>) = time_ticks p" "time_ticks (p\<lparr>crashed := b\<rparr>) = time_ticks p"
  by (simp_all add: timers_ok_def tick_count_def next_event_def time_ticks_def)

lemma abs_timers_trigger:
  "abs_timers (p\<lparr>triggeredTimer := i\<rparr>) = (abs_timers p)\<lparr>firing := i\<rparr>"
  "abs_timers (p\<lparr>crashed := b\<rparr>) = (abs_timers p)\<lparr>fault := b\<rparr>"
  by (simp_all add: abs_timers_def)

lemma abs_timers_sel [simp]:
  "slots (abs_timers p) = timer p" "count (abs_timers p) = numTimers p" "now (abs_timers p) = time_ticks p"
  "firing (abs_timers p) = triggeredTimer p" "clients (abs_timers p) = devices p" "fault (abs_timers p) = crashed p"
  by (simp_all add: abs_timers_def)

lemma not_due_before:
  assumes "timers_ok p" and "i < numTimers p" and "unat t < next_event p"
  shows "\<not> is_due t (timer p i)"
  using assms by (auto simp: timers_ok_def timer_ok_def is_due_def dest: spec [of _ i])

lemma countdown_step:
  assumes ok: "timers_ok p" and lim: "tick_count p + 1 < 2 ^ 63"
  defines "q \<equiv> p\<lparr>currCountdown := currCountdown p - 1\<rparr>"
  shows "unat (currCountdown q) = unat (currCountdown p) - 1" and "next_event q = next_event p"
    and "currCountdown q \<noteq> 0 \<Longrightarrow> timers_ok q" and "tick_count q = tick_count p + 1"
    and "currCountdown q = 0 \<Longrightarrow> next_event p = tick_count p + 1"
proof -
  have pos: "0 < unat (currCountdown p)" and le: "unat (currCountdown p) \<le> unat (currCountdownPeriod p)"
    using ok by (simp_all add: timers_ok_def)
  have "unat (currCountdown p - 1) = unat (currCountdown p) - unat (1 :: 32 word)"
    using pos by (intro unat_sub_32) simp
  then show c: "unat (currCountdown q) = unat (currCountdown p) - 1" by (simp add: q_def)
  show n: "next_event q = next_event p" by (simp add: q_def next_event_def)
  show cl: "tick_count q = tick_count p + 1" using c pos le by (simp add: tick_count_def q_def)
  show "currCountdown q = 0 \<Longrightarrow> next_event p = tick_count p + 1"
    using c pos time_is_clock(2) [OF ok] by simp
  assume "currCountdown q \<noteq> 0"
  then have "0 < unat (currCountdown q)" by (simp add: unat_gt_0)
  then show "timers_ok q"
    using ok c n cl lim le by (auto simp: timers_ok_def q_def)
qed

context timer_callbacks
begin

lemma call_refines:
  assumes "timers_ok p"
  shows "timers_ok (call_timer H i p)" and "abs_timers (call_timer H i p) = cal_call K i (abs_timers p)"
    and "numTimers (call_timer H i p) = numTimers p" and "time_ticks (call_timer H i p) = time_ticks p"
  using assms callback_ok [of "p\<lparr>triggeredTimer := i\<rparr>"] callback_abs [of "p\<lparr>triggeredTimer := i\<rparr>"]
    callback_count [of "p\<lparr>triggeredTimer := i\<rparr>"] callback_time [of "p\<lparr>triggeredTimer := i\<rparr>"]
  by (auto simp: call_timer_def cal_call_def abs_timers_trigger split: option.splits)

lemma calls_refine:
  assumes "timers_ok p" and "numTimers p = n"
  shows "timers_ok (fold (\<lambda>i q. if i < numTimers q \<and> trig i then call_timer H i q else q) js p) \<and>
    abs_timers (fold (\<lambda>i q. if i < numTimers q \<and> trig i then call_timer H i q else q) js p) =
      fold (cal_call K) (filter (\<lambda>i. i < n \<and> trig i) js) (abs_timers p) \<and>
    numTimers (fold (\<lambda>i q. if i < numTimers q \<and> trig i then call_timer H i q else q) js p) = n \<and>
    time_ticks (fold (\<lambda>i q. if i < numTimers q \<and> trig i then call_timer H i q else q) js p) = time_ticks p"
  using assms
proof (induction js arbitrary: p)
  case (Cons a as)
  then show ?case
    using call_refines [of p a] Cons.IH [of "call_timer H a p"] Cons.IH [of p] by auto
qed simp

lemma event_refines:
  assumes "1 \<le> numTimers p" "numTimers p \<le> BX_MAX_TIMERS"
    and "null_timer_ok (unat (ticksTotal p)) (timer p 0)"
    and "\<forall>i<numTimers p. timer_ok (next_event p) (timer p i)" and "next_event p < 2 ^ 63"
  defines "t \<equiv> ticksTotal p + ucast (currCountdownPeriod p)"
  shows "timers_ok (countdownEvent H junk p)" and "numTimers (countdownEvent H junk p) = numTimers p"
    and "time_ticks (countdownEvent H junk p) = t"
    and "abs_timers (countdownEvent H junk p) =
      fold (cal_call K) (filter (\<lambda>i. is_due t (timer p i)) [0..<numTimers p])
        ((abs_timers p)\<lparr>now := t, slots := rearm_due t (numTimers p) (timer p)\<rparr>)"
proof -
  note s = serviced_ok(1-3) [OF assms(1-5), of junk, folded t_def]
  let ?q = "snd (serviced junk p)"
  have n: "numTimers ?q = numTimers p" and tq: "time_ticks ?q = t"
    using arg_cong [OF s(2), of count] arg_cong [OF s(2), of now] by simp_all
  have fil: "filter (\<lambda>i. i < numTimers p \<and> fst (serviced junk p) i) [0..<BX_MAX_TIMERS] =
      filter (\<lambda>i. is_due t (timer p i)) [0..<numTimers p]"
  proof -
    have "[0..<BX_MAX_TIMERS] = [0..<numTimers p] @ [numTimers p..<BX_MAX_TIMERS]"
      using assms(2) upt_add_eq_append [of 0 "numTimers p" "BX_MAX_TIMERS - numTimers p"] by simp
    then show ?thesis unfolding s(3) by (auto simp: filter_empty_conv intro: filter_cong)
  qed
  note c = calls_refine [OF s(1) n, where trig = "fst (serviced junk p)" and js = "[0..<BX_MAX_TIMERS]", folded countdownEvent_serviced]
  show "timers_ok (countdownEvent H junk p)" "numTimers (countdownEvent H junk p) = numTimers p"
    "time_ticks (countdownEvent H junk p) = t"
    using c tq by simp_all
  show "abs_timers (countdownEvent H junk p) =
      fold (cal_call K) (filter (\<lambda>i. is_due t (timer p i)) [0..<numTimers p])
        ((abs_timers p)\<lparr>now := t, slots := rearm_due t (numTimers p) (timer p)\<rparr>)"
    using c unfolding fil s(2) by simp
qed

text \<open>One tick of the countdown is one tick of the calendar.\<close>

lemma tick1_refines:
  assumes ok: "timers_ok p" and lim: "tick_count p + 1 < 2 ^ 63"
  shows "timers_ok (tick1 H junk p)" and "abs_timers (tick1 H junk p) = cal_tick K (abs_timers p)"
    and "tick_count (tick1 H junk p) = tick_count p + 1" and "numTimers (tick1 H junk p) = numTimers p"
proof -
  let ?q = "p\<lparr>currCountdown := currCountdown p - 1\<rparr>"
  note c = countdown_step [OF ok lim]
  have tn: "unat (time_ticks p + 1) = tick_count p + 1"
    using time_is_clock(1) [OF ok] lim by (subst unat_add_64) simp_all
  have inv: "1 \<le> numTimers p" "numTimers p \<le> BX_MAX_TIMERS" "null_timer_ok (unat (ticksTotal p)) (timer p 0)"
    "\<forall>i<numTimers p. timer_ok (next_event p) (timer p i)"
    using ok by (simp_all add: timers_ok_def)
  have "timers_ok (tick1 H junk p) \<and> abs_timers (tick1 H junk p) = cal_tick K (abs_timers p) \<and>
      tick_count (tick1 H junk p) = tick_count p + 1 \<and> numTimers (tick1 H junk p) = numTimers p"
  proof (cases "currCountdown ?q = 0")
    case True
    note ne = c(5) [OF True]
    have ev: "1 \<le> numTimers ?q" "numTimers ?q \<le> BX_MAX_TIMERS" "null_timer_ok (unat (ticksTotal ?q)) (timer ?q 0)"
      "\<forall>i<numTimers ?q. timer_ok (next_event ?q) (timer ?q i)" "next_event ?q < 2 ^ 63"
      using inv ne lim c(2) by simp_all
    have t: "ticksTotal ?q + ucast (currCountdownPeriod ?q) = time_ticks p + 1"
      using ne tn lim by (simp add: word_unat_eq_iff next_event_def unat_add_64)
    have tick: "tick1 H junk p = countdownEvent H junk ?q" using True by (simp add: tick1_def Let_def)
    note e = event_refines [OF ev, of junk, unfolded t]
    have aq: "(abs_timers ?q)\<lparr>now := u, slots := v\<rparr> = (abs_timers p)\<lparr>now := u, slots := v\<rparr>" for u v
      by (simp add: abs_timers_def)
    have "abs_timers (countdownEvent H junk ?q) = cal_tick K (abs_timers p)"
      using e(4) unfolding aq by (simp add: cal_tick_def Let_def)
    moreover have "tick_count (countdownEvent H junk ?q) = tick_count p + 1"
      using time_is_clock(1) [OF e(1)] e(3) tn by simp
    ultimately show ?thesis using e(1,2) by (simp add: tick)
  next
    case False
    have tick: "tick1 H junk p = ?q" using False by (simp add: tick1_def Let_def)
    have "unat (time_ticks ?q) = tick_count p + 1" using time_is_clock(1) [OF c(3) [OF False]] c(4) by simp
    then have tq: "time_ticks ?q = time_ticks p + 1" using tn by (simp add: word_unat_eq_iff)
    have "next_event p \<noteq> tick_count p + 1"
      using False c(1) time_is_clock(2) [OF ok] by (auto simp: unat_eq_zero)
    then have "unat (time_ticks p + 1) < next_event p" using time_is_clock(3) [OF ok] tn by simp
    then have nd: "\<not> is_due (time_ticks p + 1) (timer p i)" if "i < numTimers p" for i
      using not_due_before [OF ok that] by blast
    then have "filter (\<lambda>i. is_due (time_ticks p + 1) (timer p i)) [0..<numTimers p] = []"
      and "rearm_due (time_ticks p + 1) (numTimers p) (timer p) = timer p"
      by (auto simp: filter_empty_conv rearm_due_def fun_eq_iff)
    then have "cal_tick K (abs_timers p) = abs_timers ?q"
      by (simp add: cal_tick_def Let_def) (simp add: abs_timers_def tq)
    then show ?thesis using c(3) [OF False] c(4) by (simp add: tick)
  qed
  then show "timers_ok (tick1 H junk p)" "abs_timers (tick1 H junk p) = cal_tick K (abs_timers p)"
    "tick_count (tick1 H junk p) = tick_count p + 1" "numTimers (tick1 H junk p) = numTimers p" by blast+
qed

lemma ticks_refine:
  assumes "timers_ok p" and "tick_count p + n < 2 ^ 63"
  shows "timers_ok ((tick1 H junk ^^ n) p) \<and> tick_count ((tick1 H junk ^^ n) p) = tick_count p + n \<and>
    abs_timers ((tick1 H junk ^^ n) p) = (cal_tick K ^^ n) (abs_timers p)"
  using assms(2)
proof (induction n)
  case (Suc n)
  then have IH: "timers_ok ((tick1 H junk ^^ n) p)" "tick_count ((tick1 H junk ^^ n) p) = tick_count p + n"
    "abs_timers ((tick1 H junk ^^ n) p) = (cal_tick K ^^ n) (abs_timers p)" by auto
  have "tick_count ((tick1 H junk ^^ n) p) + 1 < 2 ^ 63" using IH(2) Suc.prems by simp
  from tick1_refines [OF IH(1) this, of junk] show ?case using IH(2,3) by simp
qed (use assms(1) in simp)

text \<open>Below the end of the countdown, single ticks only count.\<close>

lemma quiet_ticks:
  assumes "timers_ok p" and "n < unat (currCountdown p)"
  shows "(tick1 H junk ^^ n) p = p\<lparr>currCountdown := currCountdown p - of_nat n\<rparr>"
  using assms(2)
proof (induction n)
  case (Suc n)
  have "currCountdown p - of_nat n - 1 \<noteq> 0"
  proof
    assume "currCountdown p - of_nat n - 1 = 0"
    then have "currCountdown p = of_nat (Suc n)" by (simp add: diff_eq_eq)
    then have "unat (currCountdown p) = unat (of_nat (Suc n) :: 32 word)" by simp
    also have "\<dots> \<le> Suc n" by (simp only: unat_of_nat mod_less_eq_dividend)
    finally show False using Suc.prems by simp
  qed
  with Suc show ?case by (simp add: tick1_def Let_def algebra_simps)
qed simp

lemma quiet_ticks_event:
  assumes "timers_ok p"
  shows "(tick1 H junk ^^ unat (currCountdown p)) p = countdownEvent H junk (p\<lparr>currCountdown := 0\<rparr>)"
proof -
  obtain m where m: "unat (currCountdown p) = Suc m" using assms by (auto simp: timers_ok_def gr0_conv_Suc)
  have "currCountdown p = of_nat (Suc m)" unfolding m [symmetric] by simp
  then have "currCountdown p - of_nat m - 1 = 0" by simp
  then show ?thesis using quiet_ticks [OF assms, of m junk] m by (simp add: tick1_def Let_def)
qed

lemma tickn_ticks:
  assumes "timers_ok p" and "tick_count p + unat n < 2 ^ 63"
  shows "tickn H junk n p = Some ((tick1 H junk ^^ unat n) p)"
  using assms
proof (induction "unat n" arbitrary: n p rule: less_induct)
  case less
  have c: "0 < unat (currCountdown p)" using less.prems(1) by (simp add: timers_ok_def)
  show ?case
  proof (cases "n \<ge> currCountdown p")
    case True
    then have le: "unat (currCountdown p) \<le> unat n" by (simp add: word_le_nat_alt)
    let ?q = "countdownEvent H junk (p\<lparr>currCountdown := 0\<rparr>)"
    have d: "unat (n - currCountdown p) = unat n - unat (currCountdown p)" by (rule unat_sub_32 [OF le])
    have q: "?q = (tick1 H junk ^^ unat (currCountdown p)) p" using quiet_ticks_event [OF less.prems(1)] by simp
    have "tick_count p + unat (currCountdown p) < 2 ^ 63" using le less.prems(2) by simp
    from ticks_refine [OF less.prems(1) this, of junk]
    have "timers_ok ?q" "tick_count ?q = tick_count p + unat (currCountdown p)" by (simp_all add: q)
    then have "tickn H junk (n - currCountdown p) ?q = Some ((tick1 H junk ^^ unat (n - currCountdown p)) ?q)"
      using c le less.prems(2) by (intro less.hyps) (simp_all add: d)
    then have "tickn H junk n p = Some ((tick1 H junk ^^ (unat n - unat (currCountdown p))) ?q)"
      using True d by (subst tickn.simps) simp
    also have "(tick1 H junk ^^ (unat n - unat (currCountdown p))) ?q = (tick1 H junk ^^ unat n) p"
      using le by (simp add: q funpow_add [symmetric, THEN fun_cong, simplified comp_apply])
    finally show ?thesis .
  next
    case False
    then have "unat n < unat (currCountdown p)" by (simp add: word_le_nat_alt)
    then show ?thesis using False quiet_ticks [OF less.prems(1), of "unat n" junk]
      by (subst tickn.simps) simp
  qed
qed

end

subsection \<open>Device programs\<close>

text \<open>The callbacks of the devices: they compute a new state of the device from the number of the triggered timer
  and then set timers.\<close>

datatype timer_call = Activate nat "64 word" bool | Deactivate nat

fun run_call :: "timer_call \<Rightarrow> ('h, 'd) pc_system \<Rightarrow> ('h, 'd) pc_system" where
  "run_call (Activate i t c) = activate_timer_ticks i t c"
| "run_call (Deactivate i) = deactivate_timer i"

type_synonym ('h, 'd) device_program = "'h \<Rightarrow> nat \<Rightarrow> 'd \<Rightarrow> 'd \<times> timer_call list"

definition device_handler :: "('h, 'd) device_program \<Rightarrow> 'h \<Rightarrow> ('h, 'd) pc_system \<Rightarrow> ('h, 'd) pc_system" where
  "device_handler prog h p =
     (let (d, calls) = prog h (triggeredTimer p) (devices p) in fold run_call calls (p\<lparr>devices := d\<rparr>))"

fun cal_run_call :: "timer_call \<Rightarrow> ('h, 'd) calendar \<Rightarrow> ('h, 'd) calendar" where
  "cal_run_call (Activate i t c) cal =
     cal\<lparr>slots := (slots cal)(i := (slots cal i)\<lparr>period := sane_ticks t, timeToFire := now cal + sane_ticks t,
                                                active := True, continuous := c\<rparr>)\<rparr>"
| "cal_run_call (Deactivate i) cal = cal\<lparr>slots := (slots cal)(i := (slots cal i)\<lparr>active := False\<rparr>)\<rparr>"

definition cal_handler :: "('h, 'd) device_program \<Rightarrow> 'h \<Rightarrow> ('h, 'd) calendar \<Rightarrow> ('h, 'd) calendar" where
  "cal_handler prog h c =
     (let (d, calls) = prog h (firing c) (clients c) in fold cal_run_call calls (c\<lparr>clients := d\<rparr>))"

fun call_slot :: "timer_call \<Rightarrow> nat" where
  "call_slot (Activate i t c) = i"
| "call_slot (Deactivate i) = i"

fun valid_call :: "timer_call \<Rightarrow> bool" where
  "valid_call (Activate i t c) \<longleftrightarrow> i \<noteq> 0 \<and> unat t \<le> 2 ^ 63"
| "valid_call (Deactivate i) \<longleftrightarrow> i \<noteq> 0"

lemma skew_time [simp]:
  "timers_ok p \<Longrightarrow> time_ticks (skew_countdown (sane_ticks t) (upd_timer i f p)) = time_ticks p"
  by (subst skew_clock(2)) (simp_all add: timers_ok_def sane_ticks_pos [simplified])

lemma run_call_ok:
  assumes "timers_ok p" and "valid_call c"
  shows "timers_ok (run_call c p)" and "abs_timers (run_call c p) = cal_run_call c (abs_timers p)"
    and "numTimers (run_call c p) = numTimers p" and "time_ticks (run_call c p) = time_ticks p"
    and "triggeredTimer (run_call c p) = triggeredTimer p" and "devices (run_call c p) = devices p"
proof -
  show "timers_ok (run_call c p)"
    using assms by (cases c) (simp_all add: timers_ok_activate timers_ok_deactivate)
  show t: "time_ticks (run_call c p) = time_ticks p"
    using assms by (cases c) (simp_all add: activate_timer_ticks_def Let_def deactivate_timer_def)
  show n: "numTimers (run_call c p) = numTimers p" and "triggeredTimer (run_call c p) = triggeredTimer p"
    and "devices (run_call c p) = devices p"
    by (cases c; simp add: activate_timer_ticks_def Let_def deactivate_timer_def)+
  show "abs_timers (run_call c p) = cal_run_call c (abs_timers p)"
    using t by (cases c) (simp_all add: abs_timers_def activate_timer_ticks_def Let_def deactivate_timer_def fun_eq_iff)
qed

lemma run_calls_ok:
  assumes "timers_ok p" and "\<forall>c\<in>set cs. valid_call c"
  shows "timers_ok (fold run_call cs p) \<and> abs_timers (fold run_call cs p) = fold cal_run_call cs (abs_timers p) \<and>
    numTimers (fold run_call cs p) = numTimers p \<and> time_ticks (fold run_call cs p) = time_ticks p"
  using assms
proof (induction cs arbitrary: p)
  case (Cons c cs)
  then show ?case using run_call_ok [of p c] Cons.IH [of "run_call c p"] by simp
qed simp

lemma timers_ok_devices [simp]:
  "timers_ok (p\<lparr>devices := d\<rparr>) = timers_ok p" "time_ticks (p\<lparr>devices := d\<rparr>) = time_ticks p"
  by (simp_all add: timers_ok_def tick_count_def next_event_def time_ticks_def)

locale device_programs =
  fixes prog :: "('h, 'd) device_program"
  assumes calls_valid: "c \<in> set (snd (prog h i d)) \<Longrightarrow> valid_call c"

sublocale device_programs \<subseteq> timer_callbacks "device_handler prog" "cal_handler prog"
proof
  fix p :: "('h, 'd) pc_system" and h :: 'h
  assume ok: "timers_ok p"
  obtain d cs where r: "prog h (triggeredTimer p) (devices p) = (d, cs)" by (cases "prog h (triggeredTimer p) (devices p)")
  have v: "\<forall>c\<in>set cs. valid_call c" using calls_valid [of _ h "triggeredTimer p" "devices p"] r by simp
  have H: "device_handler prog h p = fold run_call cs (p\<lparr>devices := d\<rparr>)" using r by (simp add: device_handler_def)
  have a: "abs_timers (p\<lparr>devices := d\<rparr>) = (abs_timers p)\<lparr>clients := d\<rparr>" by (simp add: abs_timers_def)
  have K: "cal_handler prog h (abs_timers p) = fold cal_run_call cs ((abs_timers p)\<lparr>clients := d\<rparr>)"
    using r by (simp add: cal_handler_def)
  show "timers_ok (device_handler prog h p)" "abs_timers (device_handler prog h p) = cal_handler prog h (abs_timers p)"
    "numTimers (device_handler prog h p) = numTimers p" "time_ticks (device_handler prog h p) = time_ticks p"
    using run_calls_ok [of "p\<lparr>devices := d\<rparr>" cs] ok v unfolding H K a by simp_all
qed

context device_programs
begin

lemma callbacks: "timer_callbacks (device_handler prog) (cal_handler prog)"
  by (rule timer_callbacks_axioms)

end

text \<open>The callbacks of \<^verbatim>\<open>pc_system.cc\<close> itself: the null timer purges the instruction caches, the
  benchmark timer asks the emulator to stop.\<close>

datatype pc_callback = null_timer | benchmark_timer

record pc_flags =
  icache_purges :: nat
  kill_bochs_request :: bool

fun pc_program :: "(pc_callback, pc_flags) device_program" where
  "pc_program null_timer _ d = (d\<lparr>icache_purges := icache_purges d + 1\<rparr>, [])"
| "pc_program benchmark_timer _ d = (d\<lparr>kill_bochs_request := True\<rparr>, [])"

lemma pc_programs: "device_programs pc_program"
proof
  fix c :: timer_call and h i d
  assume "c \<in> set (snd (pc_program h i d))"
  then show "valid_call c" by (cases h) simp_all
qed

interpretation pc_timers: device_programs pc_program
  by (rule pc_programs)

subsection \<open>Periodic timers\<close>

lemma cal_call_slot:
  assumes "\<And>h c. slots (K h c) i = slots c i"
  shows "slots (cal_call K j c) i = slots c i"
  using assms by (simp add: cal_call_def split: option.split)

lemma cal_tick_slot:
  assumes "\<And>h c. slots (K h c) i = slots c i"
  shows "slots (cal_tick K c) i = rearm_due (now c + 1) (count c) (slots c) i"
proof -
  have "slots (fold (cal_call K) js c) i = slots c i" for js c
    by (induction js arbitrary: c) (simp_all add: cal_call_slot [OF assms])
  then show ?thesis by (simp add: cal_tick_def Let_def)
qed

lemma cal_run_call_slot: "call_slot c \<noteq> i \<Longrightarrow> slots (cal_run_call c cal) i = slots cal i"
  by (cases c) auto

lemma cal_run_calls_slot:
  "\<forall>x\<in>set cs. call_slot x \<noteq> i \<Longrightarrow> slots (fold cal_run_call cs c) i = slots c i"
  by (induction cs arbitrary: c) (simp_all add: cal_run_call_slot)

lemma cal_handler_slot:
  assumes "\<And>h j d. \<forall>c\<in>set (snd (prog h j d)). call_slot c \<noteq> i"
  shows "slots (cal_handler prog h c) i = slots c i"
  using assms [of h "firing c" "clients c"]
  by (auto simp: cal_handler_def cal_run_calls_slot split: prod.splits)

definition periodic_at :: "nat \<Rightarrow> nat \<Rightarrow> nat \<Rightarrow> 'h sys_timer \<Rightarrow> bool" where
  "periodic_at t0 P n tm \<longleftrightarrow> active tm \<and> continuous tm \<and> unat (period tm) = P \<and>
     (\<exists>k. unat (timeToFire tm) = t0 + Suc k * P \<and> n < Suc k * P \<and> k * P \<le> n)"

lemma periodic_due:
  assumes "periodic_at t0 P n tm" and "unat t = t0 + n + 1"
  shows "is_due t tm \<longleftrightarrow> P dvd (n + 1)"
proof -
  obtain k where k: "unat (timeToFire tm) = t0 + Suc k * P" "n < Suc k * P" "k * P \<le> n"
    using assms(1) by (auto simp: periodic_at_def)
  have "is_due t tm \<longleftrightarrow> n + 1 = Suc k * P"
    using assms k(1) by (auto simp: is_due_def periodic_at_def word_unat_eq_iff)
  also have "\<dots> \<longleftrightarrow> P dvd (n + 1)"
  proof
    assume "P dvd (n + 1)"
    then obtain m where m: "n + 1 = m * P" by (metis dvd_def mult.commute)
    have "m * P \<le> Suc k * P" "k * P < m * P" using m k(2,3) by linarith+
    then have "m \<le> Suc k \<and> k < m" by (metis mult_le_cancel2 mult_less_cancel2)
    then have "m = Suc k" by linarith
    then show "n + 1 = Suc k * P" using m by simp
  qed (metis dvd_triv_right)
  finally show ?thesis .
qed

lemma periodic_step:
  assumes per: "periodic_at t0 P n tm" and t: "unat t = t0 + n + 1" and lim: "t0 + n + 1 < 2 ^ 63" "P \<le> 2 ^ 63"
  shows "periodic_at t0 P (Suc n) (if is_due t tm then rearm_timer tm else tm)"
proof -
  obtain k where k: "unat (timeToFire tm) = t0 + Suc k * P" "n < Suc k * P" "k * P \<le> n"
    using per by (auto simp: periodic_at_def)
  have b: "active tm" "continuous tm" "unat (period tm) = P" using per by (auto simp: periodic_at_def)
  show ?thesis
  proof (cases "is_due t tm")
    case True
    then have e: "timeToFire tm = t" "n + 1 = Suc k * P" using t k(1) by (auto simp: is_due_def)
    have pos: "0 < P" using k(2) by (cases P) simp_all
    have "unat (t + period tm) = t0 + n + 1 + P" using t lim b(3) by (subst unat_add_64) simp_all
    then have "unat (timeToFire (rearm_timer tm)) = t0 + Suc (Suc k) * P" using e b by (simp add: rearm_timer_def)
    moreover have "Suc n < Suc (Suc k) * P" "Suc k * P \<le> Suc n" using e(2) pos by simp_all
    ultimately have "\<exists>k. unat (timeToFire (rearm_timer tm)) = t0 + Suc k * P \<and> Suc n < Suc k * P \<and> k * P \<le> Suc n" by blast
    then show ?thesis using True b unfolding periodic_at_def by (simp add: rearm_timer_def)
  next
    case False
    then have "timeToFire tm \<noteq> t" using b(1) by (auto simp: is_due_def)
    then have "n + 1 \<noteq> Suc k * P" using k(1) t by (auto simp: word_unat_eq_iff)
    then have "Suc n < Suc k * P" "k * P \<le> Suc n" using k by auto
    then show ?thesis using False b k(1) by (auto simp: periodic_at_def)
  qed
qed

section \<open>What the timers promise\<close>

lemma free_slot_cases:
  assumes "1 \<le> numTimers p"
  shows "free_slot p \<noteq> 0" and "free_slot p \<le> numTimers p"
  using assms by (auto simp: free_slot_def find_Some_iff split: option.splits)

lemma inactive_set_ok:
  "timers_ok p \<Longrightarrow> i \<noteq> 0 \<Longrightarrow> \<not> active (f (timer p i)) \<Longrightarrow> timers_ok (upd_timer i f p)"
  by (auto simp: timers_ok_def timer_ok_def)

lemma numTimers_update_simps [simp]:
  "tick_count (p\<lparr>numTimers := n\<rparr>) = tick_count p" "next_event (p\<lparr>numTimers := n\<rparr>) = next_event p"
  "tick_count (p\<lparr>crashed := b\<rparr>) = tick_count p"
  by (simp_all add: tick_count_def next_event_def)

lemma timers_ok_count:
  assumes "timers_ok p" and "1 \<le> n" and "n \<le> BX_MAX_TIMERS"
    and "\<And>i. i < n \<Longrightarrow> numTimers p \<le> i \<Longrightarrow> timer_ok (next_event p) (timer p i)"
  shows "timers_ok (p\<lparr>numTimers := n\<rparr>)"
proof -
  have "timer_ok (next_event p) (timer p i)" if "i < n" for i
    using assms(1,4) that by (cases "i < numTimers p") (auto simp: timers_ok_def)
  then show ?thesis using assms(1-3) by (simp add: timers_ok_def)
qed

lemma timers_ok_register:
  assumes ok: "timers_ok p" and t: "unat t \<le> 2 ^ 63" and i: "free_slot p < BX_MAX_TIMERS"
  shows "timers_ok (snd (register_timer_ticks f t cont act p))"
    and "crashed (snd (register_timer_ticks f t cont act p)) = crashed p"
proof -
  let ?i = "free_slot p" and ?t = "sane_ticks t"
  have n: "1 \<le> numTimers p" using ok by (simp add: timers_ok_def)
  note s = free_slot_cases [OF n]
  let ?u = "upd_timer ?i (\<lambda>tm. tm\<lparr>inUse := True, period := ?t, timeToFire := time_ticks p + ?t, active := act,
                                  continuous := cont, funct := f\<rparr>) p"
  let ?q = "if act then skew_countdown ?t ?u else ?u"
  have q: "timers_ok ?q"
    using ok s(1) t sane_ticks_pos [of t] sane_ticks_le [OF t]
    by (auto intro!: timers_ok_set inactive_set_ok simp del: One_nat_def)
  have nq: "numTimers ?q = numTimers p" by simp
  have new: "timer_ok (next_event ?q) (timer ?q ?i)"
  proof (cases act)
    case True
    have sk: "0 < unat (currCountdown ?u)" "unat (currCountdown ?u) \<le> unat (currCountdownPeriod ?u)"
      using ok by (simp_all add: timers_ok_def)
    have "next_event (skew_countdown ?t ?u) \<le> tick_count p + unat ?t"
      using skew_clock(3) [OF sk sane_ticks_pos] by simp
    moreover have "unat (time_ticks p + ?t) = tick_count p + unat ?t"
      using ok time_is_clock(1) [OF ok] sane_ticks_le [OF t]
      by (subst unat_add_64) (simp_all add: timers_ok_def del: One_nat_def)
    ultimately show ?thesis
      using True sane_ticks_pos [of t] sane_ticks_le [OF t] by (simp add: timer_ok_def del: One_nat_def)
  qed (simp add: timer_ok_def)
  have "timers_ok (?q\<lparr>numTimers := numTimers p + 1\<rparr>)" if "?i = numTimers p"
  proof (rule timers_ok_count [OF q])
    show "numTimers p + 1 \<le> BX_MAX_TIMERS" using i that by simp
    fix j assume "j < numTimers p + 1" "numTimers ?q \<le> j"
    then have "j = ?i" using that nq by simp
    then show "timer_ok (next_event ?q) (timer ?q j)" using new by simp
  qed simp
  then show "timers_ok (snd (register_timer_ticks f t cont act p))"
    using q by (simp add: register_timer_ticks_def Let_def)
  show "crashed (snd (register_timer_ticks f t cont act p)) = crashed p"
    using i by (simp add: register_timer_ticks_def Let_def)
qed

lemma timers_ok_initialize: "timers_ok (pc_initialize null unset d)"
  by (simp add: timers_ok_def pc_initialize_def BX_MAX_TIMERS_def tick_count_def next_event_def null_timer_ok_def
      timer_ok_def NullTimerInterval_def)

lemma timers_ok_unregister:
  assumes "timers_ok p" and "i \<noteq> 0" and "i < numTimers p"
  shows "timers_ok (snd (unregisterTimer i p))"
proof (cases "active (timer p i)")
  case False
  let ?u = "upd_timer i (\<lambda>t. t\<lparr>inUse := False, period := 0x7FFFFFFFFFFFFFFF, timeToFire := 0x7FFFFFFFFFFFFFFF,
                               continuous := False, funct := None\<rparr>) p"
  have u: "timers_ok ?u" using assms(1,2) False by (intro inactive_set_ok) simp_all
  moreover have "timers_ok (?u\<lparr>numTimers := numTimers p - 1\<rparr>)" if "i = numTimers p - 1"
    using u assms that by (intro timers_ok_count) (auto simp: timers_ok_def)
  ultimately show ?thesis using False by (simp add: unregisterTimer_def Let_def)
qed (simp add: unregisterTimer_def assms)

definition sys_tick :: "('h, 'd) device_program \<Rightarrow> (nat \<Rightarrow> bool) \<Rightarrow> ('h, 'd) pc_system \<Rightarrow> ('h, 'd) pc_system" where
  "sys_tick prog junk = tick1 (device_handler prog) junk"

text \<open>The invariant of the timer array holds after initialisation and is kept by every operation: by
  registering a timer while a slot is free, activating and deactivating a timer other than the
  null timer, unregistering one, and by every tick with its callbacks.\<close>

theorem timers_invariant:
  "timers_ok (pc_initialize null unset d) \<and>
   (timers_ok p \<and> unat t \<le> 2 ^ 63 \<and> free_slot p < BX_MAX_TIMERS \<longrightarrow>
      timers_ok (snd (register_timer_ticks f t cont act p))) \<and>
   (timers_ok p \<and> i \<noteq> 0 \<and> unat t \<le> 2 ^ 63 \<longrightarrow> timers_ok (activate_timer_ticks i t cont p)) \<and>
   (timers_ok p \<and> i \<noteq> 0 \<longrightarrow> timers_ok (deactivate_timer i p)) \<and>
   (timers_ok p \<and> i \<noteq> 0 \<and> i < numTimers p \<longrightarrow> timers_ok (snd (unregisterTimer i p))) \<and>
   (timers_ok q \<and> device_programs prog \<and> tick_count q + 1 < 2 ^ 63 \<longrightarrow> timers_ok (sys_tick prog junk q))"
proof -
  have "timers_ok (sys_tick prog junk q)" if "timers_ok q" "device_programs prog" "tick_count q + 1 < 2 ^ 63"
    unfolding sys_tick_def
    by (rule timer_callbacks.tick1_refines(1) [OF device_programs.callbacks [OF that(2)] that(1,3)])
  then show ?thesis
    by (intro conjI impI; (elim conjE)?)
       (assumption | rule timers_ok_initialize timers_ok_register timers_ok_activate timers_ok_deactivate
          timers_ok_unregister)+
qed

text \<open>A system with the null timer and one registered periodic timer.\<close>

definition unset_timer :: "pc_callback sys_timer" where
  "unset_timer = \<lparr>inUse = False, period = 0, timeToFire = 0, active = False, continuous = False, funct = None\<rparr>"

definition pc0 :: "(pc_callback, pc_flags) pc_system" where
  "pc0 = pc_initialize null_timer unset_timer \<lparr>icache_purges = 0, kill_bochs_request = False\<rparr>"

lemma pc0_simps [simp]: "timers_ok pc0" "tick_count pc0 = 0" "free_slot pc0 = 1" "crashed pc0 = False"
  by (simp_all add: pc0_def timers_ok_initialize) (simp_all add: pc_initialize_def tick_count_def free_slot_def)

theorem timers_invariant_witness:
  "timers_ok (activate_timer_ticks 1 5 False (snd (register_timer_ticks (Some benchmark_timer) 3 True True pc0)))"
proof -
  note reg = timers_invariant [THEN conjunct2, THEN conjunct1, THEN mp]
    and act = timers_invariant [THEN conjunct2, THEN conjunct2, THEN conjunct1, THEN mp]
  show ?thesis by (intro act conjI reg) (simp_all add: BX_MAX_TIMERS_def)
qed

text \<open>C19. The countdown is exact: whatever timers are running, \<open>n\<close> ticks of the emulator, which only decrement
  a 32-bit countdown until it reaches zero, have the same effect on clock, timers and devices as \<open>n\<close> ticks of the
  calendar, which looks at every timer at every tick and calls exactly those that are due, in
  order. Here the callbacks are device programs, which may restart and stop timers.\<close>

theorem timers_refine_calendar:
  assumes "device_programs prog" and "timers_ok p" and "tick_count p + n < 2 ^ 63"
  shows "abs_timers ((sys_tick prog junk ^^ n) p) = (cal_tick (cal_handler prog) ^^ n) (abs_timers p) \<and>
    timers_ok ((sys_tick prog junk ^^ n) p)"
  unfolding sys_tick_def using timer_callbacks.ticks_refine [OF device_programs.callbacks [OF assms(1)] assms(2,3), of junk] by blast

theorem timers_refine_calendar_witness:
  "now (abs_timers ((sys_tick pc_program (\<lambda>_. False) ^^ 1000) pc0)) =
     now ((cal_tick (cal_handler pc_program) ^^ 1000) (abs_timers pc0))"
  using timers_refine_calendar [OF pc_programs, of pc0 1000 "\<lambda>_. False"] by simp

text \<open>C24. \<^verbatim>\<open>tickn\<close> returns, and is \<open>n\<close> single ticks: its loop, which takes a whole countdown at a time and would
  run forever on a countdown of zero, ends for every \<open>n\<close> from every state that meets the invariant, with
  exactly the state that \<open>n\<close> calls of \<^verbatim>\<open>tick1\<close> leave.\<close>

theorem tickn_is_ticks:
  assumes "device_programs prog" and "timers_ok p" and "tick_count p + unat n < 2 ^ 63"
  shows "tickn (device_handler prog) junk n p = Some ((sys_tick prog junk ^^ unat n) p)"
  unfolding sys_tick_def by (rule timer_callbacks.tickn_ticks [OF device_programs.callbacks [OF assms(1)] assms(2,3)])

theorem tickn_is_ticks_witness:
  "tickn (device_handler pc_program) (\<lambda>_. False) 0xFFFFFFFF pc0 = Some ((sys_tick pc_program (\<lambda>_. False) ^^ 4294967295) pc0)"
  using tickn_is_ticks [OF pc_programs, of pc0 "0xFFFFFFFF" "\<lambda>_. False"] by simp

definition fires_next :: "nat \<Rightarrow> ('h, 'd) pc_system \<Rightarrow> bool" where
  "fires_next i p \<longleftrightarrow> i < numTimers p \<and> is_due (time_ticks p + 1) (timer p i)"

lemma timers_frame:
  fixes junk :: "nat \<Rightarrow> bool"
  assumes "device_programs prog" and "timers_ok p" and "tick_count p + n < 2 ^ 63"
    and "\<And>h j d. \<forall>c\<in>set (snd (prog h j d)). call_slot c \<noteq> i" and "i < numTimers p"
    and "periodic_at (tick_count p) P 0 (timer p i)" and "P \<le> 2 ^ 63"
  defines "q \<equiv> (sys_tick prog junk ^^ n) p"
  shows "i < numTimers q \<and> timers_ok q \<and> tick_count q = tick_count p + n \<and> periodic_at (tick_count p) P n (timer q i)"
  using assms(3) unfolding q_def
proof (induction n)
  case 0
  then show ?case using assms(2,5,6) by simp
next
  case (Suc n)
  let ?q = "(sys_tick prog junk ^^ n) p"
  have IH: "i < numTimers ?q" "timers_ok ?q" "tick_count ?q = tick_count p + n" "periodic_at (tick_count p) P n (timer ?q i)"
    using Suc by auto
  note cb = device_programs.callbacks [OF assms(1)]
  have lim: "tick_count ?q + 1 < 2 ^ 63" using IH(3) Suc.prems by simp
  note t1 = timer_callbacks.tick1_refines [OF cb IH(2) lim, of junk, folded sys_tick_def]
  have s: "timer (sys_tick prog junk ?q) i = rearm_due (time_ticks ?q + 1) (numTimers ?q) (timer ?q) i"
    using arg_cong [OF t1(2), of "\<lambda>c. slots c i"] cal_tick_slot [OF cal_handler_slot [OF assms(4)], where c = "abs_timers ?q"]
    by simp
  have tn: "unat (time_ticks ?q + 1) = tick_count p + n + 1"
    using time_is_clock(1) [OF IH(2)] IH(3) lim by (subst unat_add_64) simp_all
  have "periodic_at (tick_count p) P (Suc n) (timer (sys_tick prog junk ?q) i)"
    using periodic_step [OF IH(4) tn _ assms(7)] Suc.prems IH(1) by (simp add: s rearm_due_def)
  moreover have "numTimers (sys_tick prog junk ?q) = numTimers ?q"
    by (rule t1(4))
  ultimately show ?case using t1(1,3) IH(1,3) by simp
qed

text \<open>A periodic timer fires on time, forever: a continuous timer registered with a period of \<open>P\<close> ticks, that
  no device program restarts or stops, is called at exactly the ticks \<open>P\<close>, \<open>2 P\<close>, \<open>3 P\<close> ... after its
  registration, whatever other timers run, are restarted or stopped between, as long as the clock
  stays below \<open>2 ^ 63\<close>.\<close>

theorem periodic_timer_on_time:
  assumes "device_programs prog" and "timers_ok p" and "free_slot p < BX_MAX_TIMERS"
    and "0 < unat P" and "unat P \<le> 2 ^ 63" and "tick_count p + n < 2 ^ 63"
    and "\<And>h j d. \<forall>c\<in>set (snd (prog h j d)). call_slot c \<noteq> free_slot p"
  shows "let (i, q) = register_timer_ticks f P True True p in
    fires_next i ((sys_tick prog junk ^^ n) q) \<longleftrightarrow> unat P dvd (n + 1)"
proof -
  let ?i = "free_slot p" and ?q = "snd (register_timer_ticks f P True True p)"
  have ok: "timers_ok ?q" by (rule timers_ok_register [OF assms(2,5,3)])
  have sane: "sane_ticks P = P"
    using assms(4) by (simp add: sane_ticks_def MinAllowableTimerPeriod_def word_less_nat_alt)
  let ?u = "upd_timer ?i (\<lambda>t. t\<lparr>inUse := True, period := P, timeToFire := time_ticks p + P, active := True,
                                  continuous := True, funct := f\<rparr>) p"
  have sk: "0 < unat (currCountdown ?u)" "unat (currCountdown ?u) \<le> unat (currCountdownPeriod ?u)"
    using assms(2) by (simp_all add: timers_ok_def)
  have P: "1 \<le> unat P" using assms(4) by simp
  have r: "register_timer_ticks f P True True p = (?i, ?q)" by (simp add: register_timer_ticks_def Let_def)
  have "tick_count ?q = tick_count (skew_countdown P ?u)"
    by (simp add: register_timer_ticks_def Let_def sane)
  then have cl: "tick_count ?q = tick_count p" using skew_clock(1) [OF sk P] by simp
  have i: "?i < numTimers ?q"
    using free_slot_cases(2) [of p] assms(2) by (auto simp: register_timer_ticks_def Let_def timers_ok_def)
  have tq: "timer ?q ?i = (timer p ?i)\<lparr>inUse := True, period := P, timeToFire := time_ticks p + P, active := True,
      continuous := True, funct := f\<rparr>"
    by (simp add: register_timer_ticks_def Let_def sane)
  have "unat (time_ticks p + P) = tick_count p + unat P"
    using assms(2,5) time_is_clock(1) [OF assms(2)] by (subst unat_add_64) (simp_all add: timers_ok_def)
  then have per: "periodic_at (tick_count ?q) (unat P) 0 (timer ?q ?i)"
    using assms(4) by (auto simp: periodic_at_def tq cl intro: exI [of _ 0])
  have lim: "tick_count ?q + n < 2 ^ 63" using assms(6) cl by simp
  note f = timers_frame [OF assms(1) ok lim assms(7) i per assms(5), of junk]
  let ?r = "(sys_tick prog junk ^^ n) ?q"
  have "unat (time_ticks ?r + 1) = tick_count ?q + n + 1"
    using f time_is_clock(1) [of ?r] lim by (subst unat_add_64) simp_all
  from periodic_due [OF _ this]
  have "is_due (time_ticks ?r + 1) (timer ?r ?i) \<longleftrightarrow> unat P dvd (n + 1)" using f by blast
  moreover have "?i < numTimers ?r" using f by blast
  ultimately show ?thesis by (subst r) (simp add: fires_next_def)
qed

theorem periodic_timer_on_time_witness:
  "fires_next 1 ((sys_tick pc_program (\<lambda>_. False) ^^ 2999) (snd (register_timer_ticks (Some benchmark_timer) 1000 True True pc0))) \<and>
   \<not> fires_next 1 ((sys_tick pc_program (\<lambda>_. False) ^^ 3000) (snd (register_timer_ticks (Some benchmark_timer) 1000 True True pc0)))"
proof -
  have no: "\<forall>c\<in>set (snd (pc_program h j d)). call_slot c \<noteq> free_slot pc0" for h j d
    by (cases h) simp_all
  define q where "q = snd (register_timer_ticks (Some benchmark_timer) 1000 True True pc0)"
  have r: "register_timer_ticks (Some benchmark_timer) 1000 True True pc0 = (1, q)" unfolding q_def
    by (simp add: register_timer_ticks_def Let_def)
  note p = periodic_timer_on_time [OF pc_programs pc0_simps(1) _ _ _ _ no, of 1000, where f = "Some benchmark_timer"
      and junk = "\<lambda>_. False"]
  have d: "\<not> (1000 :: nat) dvd 3001" by (simp add: dvd_eq_mod_eq_0)
  show ?thesis
    unfolding q_def [symmetric] using p [of 2999, unfolded r] p [of 3000, unfolded r] d
    by (simp add: BX_MAX_TIMERS_def)
qed

end
