(* ===== verification/Bochs_CMOS.thy ===== *)
theory Bochs_CMOS
  imports Bochs_Timers "HOL-Library.Signed_Division"
begin

unbundle bit_operations_syntax

section \<open>CMOS memory and real-time clock of the emulator\<close>

text \<open>
  Models \<^verbatim>\<open>iodev/cmos.cc\<close>. The C library's \<^verbatim>\<open>localtime\<close> and \<^verbatim>\<open>mktime\<close>, the
  conversion of microseconds to ticks and the numbers of the three timers the device registers are parameters
  (\<open>cmos_env\<close>). The interrupt line 8 is a field of the state; calls of the timer framework are returned as
  lists of \<open>timer_call\<close>, in the order the code makes them, so that the three handlers form a
  device program of theory \<open>Bochs_Timers\<close>. \<^verbatim>\<open>time_t\<close> is \<open>int\<close>.
\<close>

subsection \<open>State\<close>

record tm =
  tm_sec :: int
  tm_min :: int
  tm_hour :: int
  tm_mday :: int
  tm_mon :: int
  tm_year :: int
  tm_wday :: int
  tm_isdst :: int

record cmos_env =
  localtime :: "int \<Rightarrow> tm"
  mktime :: "tm \<Rightarrow> int"
  to_ticks :: "32 word \<Rightarrow> 64 word"
  periodic_timer_index :: nat
  one_second_timer_index :: nat
  uip_timer_index :: nat

record cmos =
  timeval :: int
  cmos_mem_address :: nat
  timeval_change :: bool
  rtc_mode_12hour :: bool
  rtc_mode_binary :: bool
  periodic_interval_usec :: "32 word"
  reg :: "nat \<Rightarrow> byte"
  irq8 :: bool
  cmos_panics :: "string list"

abbreviation "REG_SEC \<equiv> 0x00 :: nat"
abbreviation "REG_SEC_ALARM \<equiv> 0x01 :: nat"
abbreviation "REG_MIN \<equiv> 0x02 :: nat"
abbreviation "REG_MIN_ALARM \<equiv> 0x03 :: nat"
abbreviation "REG_HOUR \<equiv> 0x04 :: nat"
abbreviation "REG_HOUR_ALARM \<equiv> 0x05 :: nat"
abbreviation "REG_WEEK_DAY \<equiv> 0x06 :: nat"
abbreviation "REG_MONTH_DAY \<equiv> 0x07 :: nat"
abbreviation "REG_MONTH \<equiv> 0x08 :: nat"
abbreviation "REG_YEAR \<equiv> 0x09 :: nat"
abbreviation "REG_STAT_A \<equiv> 0x0A :: nat"
abbreviation "REG_STAT_B \<equiv> 0x0B :: nat"
abbreviation "REG_STAT_C \<equiv> 0x0C :: nat"
abbreviation "REG_STAT_D \<equiv> 0x0D :: nat"
abbreviation "REG_SHUTDOWN_STATUS \<equiv> 0x0F :: nat"
abbreviation "REG_CSUM_HIGH \<equiv> 0x2E :: nat"
abbreviation "REG_CSUM_LOW \<equiv> 0x2F :: nat"
abbreviation "REG_IBM_CENTURY_BYTE \<equiv> 0x32 :: nat"
abbreviation "REG_IBM_PS2_CENTURY_BYTE \<equiv> 0x37 :: nat"

definition set_reg :: "nat \<Rightarrow> byte \<Rightarrow> cmos \<Rightarrow> cmos" where
  "set_reg r v c = c\<lparr>reg := (reg c)(r := v)\<rparr>"

definition cmos_panic :: "string \<Rightarrow> cmos \<Rightarrow> cmos" where
  "cmos_panic m c = c\<lparr>cmos_panics := cmos_panics c @ [m]\<rparr>"

definition raise_irq8 :: "cmos \<Rightarrow> cmos" where
  "raise_irq8 c = c\<lparr>irq8 := True\<rparr>"

subsection \<open>Binary and BCD\<close>

definition bcd_to_bin :: "byte \<Rightarrow> bool \<Rightarrow> byte" where
  "bcd_to_bin value is_binary = (if is_binary then value else drop_bit 4 value * 10 + (value AND 0x0F))"

definition bin_to_bcd :: "byte \<Rightarrow> bool \<Rightarrow> byte" where
  "bin_to_bcd value is_binary = (if is_binary then value else push_bit 4 (value div 10) OR (value mod 10))"

subsection \<open>The time registers\<close>

definition hour_register :: "int \<Rightarrow> cmos \<Rightarrow> byte" where
  "hour_register h c =
     (if rtc_mode_12hour c then
        (let hour0 = word_of_int h :: byte;
             flag = (if hour0 > 11 then 0x80 else 0);
             hour1 = (if hour0 > 11 then hour0 - 12 else hour0);
             hour = (if hour1 = 0 then 12 else hour1)
         in flag OR bin_to_bcd hour (rtc_mode_binary c))
      else bin_to_bcd (word_of_int h) (rtc_mode_binary c))"

definition update_clock :: "cmos_env \<Rightarrow> cmos \<Rightarrow> cmos" where
  "update_clock env c =
     (let t = localtime env (timeval c); bcd = (\<lambda>v. bin_to_bcd (word_of_int v) (rtc_mode_binary c));
          century = bcd (tm_year t sdiv 100 + 19)
      in c\<lparr>reg := (reg c)(REG_SEC := bcd (tm_sec t), REG_MIN := bcd (tm_min t),
             REG_HOUR := hour_register (tm_hour t) c, REG_WEEK_DAY := bcd (tm_wday t + 1),
             REG_MONTH_DAY := bcd (tm_mday t), REG_MONTH := bcd (tm_mon t + 1),
             REG_YEAR := bcd (tm_year t smod 100), REG_IBM_CENTURY_BYTE := century,
             REG_IBM_PS2_CENTURY_BYTE := century)\<rparr>)"

text \<open>\<open>junk\<close> is the uninitialised \<^verbatim>\<open>struct tm\<close>; \<^verbatim>\<open>val_bin\<close> is a byte.\<close>

definition hour_value :: "cmos \<Rightarrow> byte" where
  "hour_value c =
     (if rtc_mode_12hour c then
        (let pm_flag = reg c REG_HOUR AND 0x80;
             val_bin = bcd_to_bin (reg c REG_HOUR AND 0x70) (rtc_mode_binary c)
         in if val_bin < 12 \<and> pm_flag > 0 then val_bin + 12
            else if val_bin = 12 \<and> pm_flag = 0 then 0
            else val_bin)
      else bcd_to_bin (reg c REG_HOUR) (rtc_mode_binary c))"

definition year_value :: "cmos \<Rightarrow> byte" where
  "year_value c =
     (bcd_to_bin (reg c REG_IBM_CENTURY_BYTE) (rtc_mode_binary c) - 19) * 100 +
     bcd_to_bin (reg c REG_YEAR) (rtc_mode_binary c)"

definition time_registers :: "tm \<Rightarrow> cmos \<Rightarrow> tm" where
  "time_registers junk c =
     (let bin = (\<lambda>r. uint (bcd_to_bin (reg c r) (rtc_mode_binary c))) in
      junk\<lparr>tm_sec := bin REG_SEC, tm_min := bin REG_MIN, tm_hour := uint (hour_value c), tm_mday := bin REG_MONTH_DAY,
           tm_mon := bin REG_MONTH - 1, tm_year := uint (year_value c)\<rparr>)"

definition update_timeval :: "cmos_env \<Rightarrow> tm \<Rightarrow> cmos \<Rightarrow> cmos" where
  "update_timeval env junk c = c\<lparr>timeval := mktime env (time_registers junk c)\<rparr>"

subsection \<open>Timers\<close>

definition start_timer :: "cmos_env \<Rightarrow> nat \<Rightarrow> 32 word \<Rightarrow> bool \<Rightarrow> timer_call" where
  "start_timer env i useconds cont = Activate i (sane_ticks (to_ticks env useconds)) cont"

definition periodic_interval :: "byte \<Rightarrow> 32 word" where
  "periodic_interval nibble = word_of_nat (1000000 * 2 ^ (unat nibble - 1) div 32768)"

definition CRA_change :: "cmos_env \<Rightarrow> cmos \<Rightarrow> cmos \<times> timer_call list" where
  "CRA_change env c =
     (let nibble = reg c REG_STAT_A AND 0x0F; dcc = drop_bit 4 (reg c REG_STAT_A) AND 0x07 in
      if nibble = 0 \<or> dcc AND 0x06 = 0 then
        (c\<lparr>periodic_interval_usec := -1\<rparr>, [Deactivate (periodic_timer_index env)])
      else
        (let usec = periodic_interval (if nibble \<le> 2 then nibble + 7 else nibble) in
         (c\<lparr>periodic_interval_usec := usec\<rparr>,
          [if reg c REG_STAT_B AND 0x40 \<noteq> 0 then start_timer env (periodic_timer_index env) usec True
           else Deactivate (periodic_timer_index env)])))"

definition cmos_reset :: "cmos_env \<Rightarrow> cmos \<Rightarrow> cmos \<times> timer_call list" where
  "cmos_reset env c =
     (let c1 = set_reg REG_STAT_C 0 (set_reg REG_STAT_B (reg c REG_STAT_B AND 0x8F) (c\<lparr>cmos_mem_address := 0\<rparr>));
          (c2, calls) = CRA_change env c1
      in (c2, start_timer env (one_second_timer_index env) 1000000 True # calls))"

text \<open>The part of \<^verbatim>\<open>init\<close> that generates the registers when no image file is used.\<close>

definition cmos_generate :: "cmos_env \<Rightarrow> int \<Rightarrow> cmos \<Rightarrow> cmos" where
  "cmos_generate env time0 c =
     update_clock env
       (c\<lparr>timeval := time0, timeval_change := False, rtc_mode_12hour := False, rtc_mode_binary := False,
          reg := (reg c)(REG_STAT_A := 0x26, REG_STAT_B := 0x02, REG_STAT_C := 0, REG_STAT_D := 0x80,
                         0x14 := reg c 0x14 OR 0x02)\<rparr>)"

text \<open>The part of \<^verbatim>\<open>init\<close> that loads the registers from an image file of 64 or 128 bytes; \<open>rtc_init\<close> is the option that
  takes the time from the file.\<close>

definition cmos_load :: "cmos_env \<Rightarrow> tm \<Rightarrow> int \<Rightarrow> bool \<Rightarrow> byte list \<Rightarrow> cmos \<Rightarrow> cmos" where
  "cmos_load env junk time0 rtc_init bs c =
     (let r = (\<lambda>i. if i < length bs then bs ! i else reg c i);
          c1 = c\<lparr>timeval := time0, reg := r, rtc_mode_12hour := (r REG_STAT_B AND 0x02 = 0),
                 rtc_mode_binary := (r REG_STAT_B AND 0x04 \<noteq> 0)\<rparr>
      in (if rtc_init then update_timeval env junk c1 else update_clock env c1)\<lparr>timeval_change := False\<rparr>)"

definition periodic_timer :: "cmos \<Rightarrow> cmos" where
  "periodic_timer c =
     (if reg c REG_STAT_B AND 0x40 \<noteq> 0 then raise_irq8 (set_reg REG_STAT_C (reg c REG_STAT_C OR 0xC0) c) else c)"

definition one_second_timer :: "cmos_env \<Rightarrow> cmos \<Rightarrow> cmos \<times> timer_call list" where
  "one_second_timer env c =
     (if reg c REG_STAT_A AND 0x60 = 0x60 then (c, [])
      else (let c1 = c\<lparr>timeval := timeval c + 1\<rparr> in
            if reg c REG_STAT_B AND 0x80 \<noteq> 0 then (c1, [])
            else (set_reg REG_STAT_A (reg c REG_STAT_A OR 0x80) c1,
                  [start_timer env (uip_timer_index env) 244 False])))"

definition alarm_field :: "byte \<Rightarrow> byte \<Rightarrow> bool" where
  "alarm_field alarm value \<longleftrightarrow> \<not> (alarm AND 0xC0 \<noteq> 0xC0 \<and> value \<noteq> alarm)"

definition alarm_match :: "cmos \<Rightarrow> bool" where
  "alarm_match c \<longleftrightarrow> alarm_field (reg c REG_SEC_ALARM) (reg c REG_SEC) \<and>
     alarm_field (reg c REG_MIN_ALARM) (reg c REG_MIN) \<and> alarm_field (reg c REG_HOUR_ALARM) (reg c REG_HOUR)"

definition uip_timer :: "cmos_env \<Rightarrow> cmos \<Rightarrow> cmos" where
  "uip_timer env c =
     (let c1 = update_clock env c;
          c2 = (if reg c1 REG_STAT_B AND 0x10 \<noteq> 0
                then raise_irq8 (set_reg REG_STAT_C (reg c1 REG_STAT_C OR 0x90) c1) else c1);
          c3 = (if reg c2 REG_STAT_B AND 0x20 \<noteq> 0 \<and> alarm_match c2
                then raise_irq8 (set_reg REG_STAT_C (reg c2 REG_STAT_C OR 0xA0) c2) else c2)
      in set_reg REG_STAT_A (reg c3 REG_STAT_A AND 0x7F) c3)"

subsection \<open>Ports\<close>

definition cmos_read :: "nat \<Rightarrow> cmos \<Rightarrow> byte \<times> cmos" where
  "cmos_read address c =
     (if address = 0x70 then (0xFF, c)
      else if address = 0x71 then
        (reg c (cmos_mem_address c),
         if cmos_mem_address c = REG_STAT_C then (set_reg REG_STAT_C 0 c)\<lparr>irq8 := False\<rparr> else c)
      else (0, cmos_panic ''unsupported cmos read'' c))"

definition is_time_reg :: "nat \<Rightarrow> bool" where
  "is_time_reg r \<longleftrightarrow> r \<in> {REG_SEC, REG_MIN, REG_HOUR, REG_WEEK_DAY, REG_MONTH_DAY, REG_MONTH, REG_YEAR,
     REG_IBM_CENTURY_BYTE, REG_IBM_PS2_CENTURY_BYTE}"

definition write_time_reg :: "cmos_env \<Rightarrow> tm \<Rightarrow> byte \<Rightarrow> cmos \<Rightarrow> cmos" where
  "write_time_reg env junk v c =
     (let r = cmos_mem_address c; c1 = set_reg r v c;
          c2 = (if r = REG_IBM_PS2_CENTURY_BYTE then set_reg REG_IBM_CENTURY_BYTE v c1 else c1)
      in if reg c2 REG_STAT_B AND 0x80 \<noteq> 0 then c2\<lparr>timeval_change := True\<rparr> else update_timeval env junk c2)"

definition write_stat_A :: "cmos_env \<Rightarrow> byte \<Rightarrow> cmos \<Rightarrow> cmos \<times> timer_call list" where
  "write_stat_A env v c =
     (let dcc = drop_bit 4 v AND 0x07;
          c1 = (if dcc AND 0x06 \<noteq> 0x06 \<and> dcc > 0x02 then cmos_panic ''CRA: divider chain control'' c else c)
      in CRA_change env (set_reg REG_STAT_A ((reg c1 REG_STAT_A AND 0x80) OR (v AND 0x7F)) c1))"

definition write_stat_B :: "cmos_env \<Rightarrow> tm \<Rightarrow> byte \<Rightarrow> cmos \<Rightarrow> cmos \<times> timer_call list" where
  "write_stat_B env junk v0 c =
     (let v1 = v0 AND 0xF7; v = (if v1 AND 0x80 \<noteq> 0 then v1 AND 0xEF else v1);
          prev = reg c REG_STAT_B;
          c1 = set_reg REG_STAT_B v c;
          c2 = (if prev AND 0x02 \<noteq> v AND 0x02 then update_clock env (c1\<lparr>rtc_mode_12hour := (v AND 0x02 = 0)\<rparr>) else c1);
          c3 = (if prev AND 0x04 \<noteq> v AND 0x04 then update_clock env (c2\<lparr>rtc_mode_binary := (v AND 0x04 \<noteq> 0)\<rparr>) else c2);
          calls = (if prev AND 0x40 \<noteq> v AND 0x40 then
                     (if prev AND 0x40 \<noteq> 0 then [Deactivate (periodic_timer_index env)]
                      else if reg c3 REG_STAT_A AND 0x0F \<noteq> 0
                      then [start_timer env (periodic_timer_index env) (periodic_interval_usec c3) True] else [])
                   else [])
      in (if prev \<ge> 0x80 \<and> v < 0x80 \<and> timeval_change c3
          then (update_timeval env junk c3)\<lparr>timeval_change := False\<rparr> else c3, calls))"

text \<open>The alarm registers, the diagnostic and shutdown bytes and the plain memory just keep the value.\<close>

definition cmos_write :: "cmos_env \<Rightarrow> tm \<Rightarrow> nat \<Rightarrow> byte \<Rightarrow> cmos \<Rightarrow> cmos \<times> timer_call list" where
  "cmos_write env junk address v c =
     (if address = 0x70 then (c\<lparr>cmos_mem_address := unat (v AND 0x7F)\<rparr>, [])
      else if address = 0x71 then
        (if is_time_reg (cmos_mem_address c) then (write_time_reg env junk v c, [])
         else if cmos_mem_address c = REG_STAT_A then write_stat_A env v c
         else if cmos_mem_address c = REG_STAT_B then write_stat_B env junk v c
         else if cmos_mem_address c = REG_STAT_C \<or> cmos_mem_address c = REG_STAT_D then (c, [])
         else (set_reg (cmos_mem_address c) v c, []))
      else (c, []))"

text \<open>\<^verbatim>\<open>checksum_cmos\<close> over the registers \<open>0x10\<close> to \<open>0x2D\<close>.\<close>

definition cmos_sum :: "cmos \<Rightarrow> 16 word" where
  "cmos_sum c = fold (\<lambda>i sum. sum + ucast (reg c i)) [0x10..<0x2E] 0"

definition checksum_cmos :: "cmos \<Rightarrow> cmos" where
  "checksum_cmos c =
     (let sum = cmos_sum c in
      set_reg REG_CSUM_LOW (ucast (sum AND 0xFF)) (set_reg REG_CSUM_HIGH (ucast (drop_bit 8 sum AND 0xFF)) c))"

text \<open>The handlers of the three timers, as a device program.\<close>

datatype cmos_callback = other_timer | periodic_timer_handler | one_second_timer_handler | uip_timer_handler

fun cmos_program :: "cmos_env \<Rightarrow> (cmos_callback, cmos) device_program" where
  "cmos_program env other_timer _ c = (c, [])"
| "cmos_program env periodic_timer_handler _ c = (periodic_timer c, [])"
| "cmos_program env one_second_timer_handler _ c = one_second_timer env c"
| "cmos_program env uip_timer_handler _ c = (uip_timer env c, [])"

section \<open>Registers and calendar time\<close>

lemma bcd_round_trip: "n < 100 \<Longrightarrow> bcd_to_bin (bin_to_bcd (word_of_nat n) b) b = word_of_nat n"
proof -
  have "\<forall>n\<in>set [0..<100]. bcd_to_bin (bin_to_bcd (word_of_nat n) False) False = word_of_nat n" by code_simp
  then show "n < 100 \<Longrightarrow> bcd_to_bin (bin_to_bcd (word_of_nat n) b) b = word_of_nat n"
    by (cases b) (auto simp: bcd_to_bin_def bin_to_bcd_def)
qed

lemma bcd_word: "0 \<le> v \<Longrightarrow> v < 100 \<Longrightarrow> bcd_to_bin (bin_to_bcd (word_of_int v) b) b = word_of_int v"
  using bcd_round_trip [of "nat v" b] by simp

lemma uint_byte: "0 \<le> v \<Longrightarrow> v < 256 \<Longrightarrow> uint (word_of_int v :: byte) = v"
  by (simp add: unsigned_of_int take_bit_eq_mod)

definition calendar_time :: "tm \<Rightarrow> bool" where
  "calendar_time t \<longleftrightarrow> 0 \<le> tm_sec t \<and> tm_sec t \<le> 60 \<and> 0 \<le> tm_min t \<and> tm_min t < 60 \<and> 0 \<le> tm_hour t \<and> tm_hour t < 24 \<and>
     1 \<le> tm_mday t \<and> tm_mday t \<le> 31 \<and> 0 \<le> tm_mon t \<and> tm_mon t < 12 \<and> 0 \<le> tm_year t \<and> tm_year t < 8100"

lemma sdiv_smod_nonneg: "0 \<le> y \<Longrightarrow> y sdiv 100 = y div (100 :: int)" "0 \<le> y \<Longrightarrow> y smod 100 = y mod (100 :: int)"
  by (cases "y = 0"; simp add: signed_divide_int_def signed_modulo_int_def)+

lemma year_roundtrip:
  assumes "0 \<le> y" and "y < 8100"
  shows "(bcd_to_bin (bin_to_bcd (word_of_int (y sdiv 100 + 19)) b) b - 19) * 100 +
     bcd_to_bin (bin_to_bcd (word_of_int (y smod 100)) b) b = (word_of_int y :: byte)"
proof -
  have c: "bcd_to_bin (bin_to_bcd (word_of_int (y div 100 + 19)) b) b = word_of_int (y div 100 + 19)"
    using assms by (intro bcd_word) auto
  have m: "bcd_to_bin (bin_to_bcd (word_of_int (y mod 100)) b) b = word_of_int (y mod 100)"
    by (intro bcd_word) auto
  have "(word_of_int (y div 100 + 19) - 19) * 100 + word_of_int (y mod 100) = (word_of_int (y div 100 * 100 + y mod 100) :: byte)"
    by (simp only: of_int_add of_int_mult of_int_numeral) simp
  then show ?thesis unfolding sdiv_smod_nonneg [OF assms(1)] c m by simp
qed

lemma update_clock_reg:
  "reg (update_clock env c) REG_SEC = bin_to_bcd (word_of_int (tm_sec (localtime env (timeval c)))) (rtc_mode_binary c)"
  "reg (update_clock env c) REG_MIN = bin_to_bcd (word_of_int (tm_min (localtime env (timeval c)))) (rtc_mode_binary c)"
  "reg (update_clock env c) REG_HOUR = hour_register (tm_hour (localtime env (timeval c))) c"
  "reg (update_clock env c) REG_MONTH_DAY = bin_to_bcd (word_of_int (tm_mday (localtime env (timeval c)))) (rtc_mode_binary c)"
  "reg (update_clock env c) REG_MONTH = bin_to_bcd (word_of_int (tm_mon (localtime env (timeval c)) + 1)) (rtc_mode_binary c)"
  "reg (update_clock env c) REG_YEAR = bin_to_bcd (word_of_int (tm_year (localtime env (timeval c)) smod 100)) (rtc_mode_binary c)"
  "reg (update_clock env c) REG_IBM_CENTURY_BYTE =
     bin_to_bcd (word_of_int (tm_year (localtime env (timeval c)) sdiv 100 + 19)) (rtc_mode_binary c)"
  "\<not> is_time_reg r \<Longrightarrow> reg (update_clock env c) r = reg c r"
  "rtc_mode_binary (update_clock env c) = rtc_mode_binary c" "rtc_mode_12hour (update_clock env c) = rtc_mode_12hour c"
  "timeval (update_clock env c) = timeval c"
  by (simp_all add: update_clock_def Let_def is_time_reg_def)

text \<open>In 24-hour mode, BCD or binary, the time registers hold the calendar time: what \<^verbatim>\<open>update_clock\<close>
  writes into them, \<^verbatim>\<open>update_timeval\<close> reads back field by field, except that the year, kept in a
  byte while it is computed, comes back modulo 256, so exactly for the years 1900 to 2155. When
  \<^verbatim>\<open>mktime\<close> maps these fields back to the time they came from, the time is unchanged.\<close>

theorem rtc_registers_roundtrip:
  assumes "\<not> rtc_mode_12hour c" and "calendar_time (localtime env (timeval c))"
  shows "let t = localtime env (timeval c);
             back = junk\<lparr>tm_sec := tm_sec t, tm_min := tm_min t, tm_hour := tm_hour t, tm_mday := tm_mday t,
                        tm_mon := tm_mon t, tm_year := tm_year t mod 256\<rparr>
         in time_registers junk (update_clock env c) = back \<and>
            (mktime env back = timeval c \<longrightarrow> timeval (update_timeval env junk (update_clock env c)) = timeval c)"
proof -
  let ?t = "localtime env (timeval c)" and ?b = "rtc_mode_binary c"
  have r: "0 \<le> tm_sec ?t" "tm_sec ?t < 100" "0 \<le> tm_min ?t" "tm_min ?t < 100" "0 \<le> tm_hour ?t" "tm_hour ?t < 100"
    "0 \<le> tm_mday ?t" "tm_mday ?t < 100" "0 \<le> tm_mon ?t + 1" "tm_mon ?t + 1 < 100"
    using assms(2) by (auto simp: calendar_time_def)
  have y: "year_value (update_clock env c) = word_of_int (tm_year ?t)"
    using assms(2) by (simp only: year_value_def update_clock_reg year_roundtrip calendar_time_def)
  have h: "hour_value (update_clock env c) = word_of_int (tm_hour ?t)"
    using assms(1) r(5,6) by (simp only: hour_value_def update_clock_reg hour_register_def bcd_word if_False)
  have fld: "uint (bcd_to_bin (bin_to_bcd (word_of_int v) ?b) ?b) = v" if "0 \<le> v" "v < 100" for v
    using that by (simp add: bcd_word uint_byte)
  have "uint (word_of_int (tm_hour ?t) :: byte) = tm_hour ?t" using r(5,6) by (intro uint_byte) simp_all
  moreover have "uint (word_of_int (tm_year ?t) :: byte) = tm_year ?t mod 256" by (simp add: unsigned_of_int take_bit_eq_mod)
  ultimately have "time_registers junk (update_clock env c) =
      junk\<lparr>tm_sec := tm_sec ?t, tm_min := tm_min ?t, tm_hour := tm_hour ?t, tm_mday := tm_mday ?t,
           tm_mon := tm_mon ?t, tm_year := tm_year ?t mod 256\<rparr>"
    unfolding time_registers_def Let_def y h update_clock_reg
      fld [OF r(1,2)] fld [OF r(3,4)] fld [OF r(7,8)] fld [OF r(9,10)] by simp
  then show ?thesis by (simp add: Let_def update_timeval_def)
qed

text \<open>In 12-hour mode the hour does not survive: \<^verbatim>\<open>update_timeval\<close> masks the register with
  \<open>0x70\<close>, which drops the low digit. Of the 24 hours only 10 and 22 come back in BCD mode, and only 0 and 12 in
  binary mode; every other hour a program or \<^verbatim>\<open>update_clock\<close> leaves in the register is changed when
  the time is next read from the registers.\<close>

theorem twelve_hour_mode_loses_hour:
  assumes "rtc_mode_12hour c" and "0 \<le> h" and "h < 24"
  shows "uint (hour_value (set_reg REG_HOUR (hour_register h c) c)) = h \<longleftrightarrow>
    h \<in> (if rtc_mode_binary c then {0, 12} else {10, 22})"
proof -
  define f where "f b n = (let hour0 = word_of_nat n :: byte; flag = (if hour0 > 11 then 0x80 else 0 :: byte);
             hour1 = (if hour0 > 11 then hour0 - 12 else hour0); hour = (if hour1 = 0 then 12 else hour1);
             r = flag OR bin_to_bcd hour b; pm_flag = r AND 0x80; val_bin = bcd_to_bin (r AND 0x70) b
         in if val_bin < 12 \<and> pm_flag > 0 then val_bin + 12
            else if val_bin = 12 \<and> pm_flag = 0 then 0 else val_bin)" for b and n :: nat
  have all: "\<forall>b\<in>{True, False}. \<forall>n\<in>set [0..<24]. uint (f b n) = int n \<longleftrightarrow> n \<in> (if b then {0, 12} else {10, 22})"
    unfolding f_def by code_simp
  have "hour_value (set_reg REG_HOUR (hour_register (int n) c) c) = f (rtc_mode_binary c) n" for n
    using assms(1) by (simp add: hour_value_def hour_register_def set_reg_def f_def Let_def)
  moreover obtain n where "h = int n" "n < 24" using assms(2,3) by (metis nat_0_le nat_less_iff of_nat_numeral)
  ultimately show ?thesis using all by (auto split: if_splits)
qed

text \<open>A clock on 31 December 2023, 23:59:58, in a zone where the time is the number of seconds since that
  instant; the year 2200 for the times from 1000 on.\<close>

definition env0 :: cmos_env where
  "env0 = \<lparr>localtime = (\<lambda>t. \<lparr>tm_sec = (58 + t) mod 60, tm_min = 59, tm_hour = 23, tm_mday = 31, tm_mon = 11,
                            tm_year = (if t < 1000 then 123 else 300), tm_wday = 0, tm_isdst = 0\<rparr>),
           mktime = (\<lambda>t. tm_sec t - 58), to_ticks = (\<lambda>u. ucast u), periodic_timer_index = 1,
           one_second_timer_index = 2, uip_timer_index = 3\<rparr>"

definition cmos0 :: "int \<Rightarrow> cmos" where
  "cmos0 t = cmos_generate env0 t
     \<lparr>timeval = 0, cmos_mem_address = 0, timeval_change = False, rtc_mode_12hour = False, rtc_mode_binary = False,
      periodic_interval_usec = 0, reg = \<lambda>_. 0, irq8 = False, cmos_panics = []\<rparr>"

theorem rtc_registers_roundtrip_witness:
  "timeval (update_timeval env0 (localtime env0 0) (update_clock env0 (cmos0 1))) = 1 \<and>
   tm_year (time_registers (localtime env0 0) (update_clock env0 (cmos0 1000))) = 44"
proof -
  have m: "\<not> rtc_mode_12hour (cmos0 t)" "timeval (cmos0 t) = t" for t
    by (simp_all add: cmos0_def cmos_generate_def update_clock_reg)
  have c: "calendar_time (localtime env0 (timeval (cmos0 t)))" for t
    by (simp add: calendar_time_def env0_def)
  note q = rtc_registers_roundtrip [OF m(1) c, where junk = "localtime env0 0"]
  show ?thesis
    using q [of 1] q [of 1000]
    by (simp add: Let_def m) (simp add: env0_def)
qed

theorem twelve_hour_mode_loses_hour_witness:
  "let c = (cmos0 0)\<lparr>rtc_mode_12hour := True\<rparr> in uint (hour_value (set_reg REG_HOUR (hour_register 9 c) c)) \<noteq> 9"
  using twelve_hour_mode_loses_hour [of "(cmos0 0)\<lparr>rtc_mode_12hour := True\<rparr>" 9]
  by (simp add: Let_def cmos0_def cmos_generate_def update_clock_reg)

section \<open>Interrupts and checksum\<close>

text \<open>The end of an update: the time registers are refreshed, interrupt 8 is raised exactly when the
  update-ended interrupt is enabled, or the alarm interrupt is enabled and every alarm
  register that is not a don't-care value agrees with the refreshed time; register C records which, and the
  update-in-progress flag is clear.\<close>

theorem update_ended:
  "let c' = uip_timer env c; fresh = update_clock env c;
       ended = bit (reg c REG_STAT_B) 4; alarm = bit (reg c REG_STAT_B) 5 \<and> alarm_match fresh in
     (\<forall>r. is_time_reg r \<longrightarrow> reg c' r = reg fresh r) \<and>
     irq8 c' = (irq8 c \<or> ended \<or> alarm) \<and>
     reg c' REG_STAT_C = (reg c REG_STAT_C OR (if ended then 0x90 else 0) OR (if alarm then 0xA0 else 0)) \<and>
     \<not> bit (reg c' REG_STAT_A) 7 \<and> timeval c' = timeval c"
proof -
  let ?u = "update_clock env c"
  have b: "v AND 0x10 \<noteq> 0 \<longleftrightarrow> bit v 4" "v AND 0x20 \<noteq> 0 \<longleftrightarrow> bit v 5" for v :: byte
    by (simp_all add: and_exp_eq_0_iff_not_bit [of v 4, simplified] and_exp_eq_0_iff_not_bit [of v 5, simplified])
  have u: "reg ?u REG_STAT_B = reg c REG_STAT_B" "reg ?u REG_STAT_C = reg c REG_STAT_C" "irq8 ?u = irq8 c"
    by (simp_all add: update_clock_def Let_def)
  have a: "alarm_match (raise_irq8 (set_reg REG_STAT_C v ?u)) = alarm_match ?u" for v
    by (simp add: alarm_match_def raise_irq8_def set_reg_def)
  have sev: "\<not> bit (v AND 0x7F) 7" for v :: byte by (simp add: bit_and_iff)
  show ?thesis
    unfolding uip_timer_def Let_def b
    by (simp add: u a sev) (auto simp: raise_irq8_def set_reg_def u sev is_time_reg_def update_clock_reg ac_simps)
qed

theorem update_ended_witness:
  "let c = set_reg REG_STAT_B 0x20 (set_reg REG_HOUR_ALARM 0xFF (set_reg REG_MIN_ALARM 0x59 (set_reg REG_SEC_ALARM 0x59 (cmos0 1))))
   in irq8 (uip_timer env0 c)"
proof -
  let ?c = "set_reg REG_STAT_B 0x20 (set_reg REG_HOUR_ALARM 0xFF (set_reg REG_MIN_ALARM 0x59 (set_reg REG_SEC_ALARM 0x59 (cmos0 1))))"
  have "bit (reg ?c REG_STAT_B) 5" by (simp add: set_reg_def)
  moreover have "alarm_match (update_clock env0 ?c)" by code_simp
  ultimately show ?thesis using update_ended [of env0 ?c] by (simp add: Let_def)
qed

lemma sum_bytes: "fold (\<lambda>i sum. sum + ucast (f i)) is (s :: 16 word) = s + (\<Sum>i\<leftarrow>is. ucast (f i :: byte))"
  by (induction "is" arbitrary: s) (simp_all add: ac_simps)

text \<open>The checksum: afterwards the two checksum bytes, high and low, are the sum of the registers \<open>0x10\<close> to
  \<open>0x2D\<close>, exactly, since 30 bytes cannot overflow 16 bits, and no other register has changed.\<close>

theorem checksum_is_sum:
  "unat (reg (checksum_cmos c) REG_CSUM_HIGH) * 256 + unat (reg (checksum_cmos c) REG_CSUM_LOW) =
     (\<Sum>i\<leftarrow>[0x10..<0x2E]. unat (reg (checksum_cmos c) i)) \<and>
   (\<forall>r. reg (checksum_cmos c) r = (if r = REG_CSUM_HIGH then ucast (drop_bit 8 (cmos_sum c) AND 0xFF)
      else if r = REG_CSUM_LOW then ucast (cmos_sum c AND 0xFF) else reg c r))"
proof -
  have r: "reg (checksum_cmos c) r = (if r = REG_CSUM_HIGH then ucast (drop_bit 8 (cmos_sum c) AND 0xFF)
      else if r = REG_CSUM_LOW then ucast (cmos_sum c AND 0xFF) else reg c r)" for r
    by (simp add: checksum_cmos_def Let_def set_reg_def)
  have two: "unat (ucast (drop_bit 8 w AND 0xFF) :: byte) * 256 + unat (ucast (w AND 0xFF) :: byte) = unat (w :: 16 word)" for w
  proof -
    have m: "(0xFF :: 16 word) = mask 8" by (simp add: mask_eq_exp_minus_1)
    have w: "unat w < 65536" using unsigned_less [of w] by (simp del: unsigned_less)
    have "unat (ucast (drop_bit 8 w AND 0xFF) :: byte) = unat w div 256 mod 256"
      unfolding m by (simp add: unsigned_ucast_eq unsigned_and_eq unsigned_drop_bit_eq take_bit_eq_mask [symmetric] take_bit_eq_mod drop_bit_eq_div
          unat_div_distrib unat_mod_distrib)
    moreover have "unat (ucast (w AND 0xFF) :: byte) = unat w mod 256"
      unfolding m by (simp add: unsigned_ucast_eq take_bit_eq_mask [symmetric] take_bit_eq_mod unat_mod_distrib)
    ultimately show ?thesis using w by simp
  qed
  have bound: "(\<Sum>i\<leftarrow>is. unat (reg c i)) \<le> 255 * length is" for "is"
  proof (induction "is")
    case (Cons a as)
    have "unat (reg c a) < 256" using unsigned_less [of "reg c a"] by (simp del: unsigned_less)
    then have "unat (reg c a) \<le> 255" by linarith
    with Cons show ?case by (simp only: list.map sum_list.Cons length_Cons mult_Suc_right)
  qed simp
  have "unat (\<Sum>i\<leftarrow>is. ucast (reg c i) :: 16 word) = (\<Sum>i\<leftarrow>is. unat (reg c i))" if "length is < 200" for "is"
    using that
  proof (induction "is")
    case (Cons a as)
    have "unat (reg c a) < 256" using unsigned_less [of "reg c a"] by (simp del: unsigned_less)
    then have lt: "unat (reg c a) < 65536" by linarith
    have a: "unat (ucast (reg c a) :: 16 word) = unat (reg c a)"
      by (subst unsigned_ucast_eq) (simp add: take_bit_eq_mod lt)
    have "unat (reg c a) + (\<Sum>i\<leftarrow>as. unat (reg c i)) < 65536"
      using Cons.prems bound [of as] \<open>unat (reg c a) < 256\<close> by (simp only: length_Cons)
    with Cons a show ?case by (simp add: unat_word_ariths)
  qed simp
  from this [of "[0x10..<0x2E]"]
  have "unat (cmos_sum c) = (\<Sum>i\<leftarrow>[0x10..<0x2E]. unat (reg c i))" by (simp only: cmos_sum_def sum_bytes) simp
  also have "\<dots> = (\<Sum>i\<leftarrow>[0x10..<0x2E]. unat (reg (checksum_cmos c) i))"
    by (intro arg_cong [where f = sum_list] map_cong) (auto simp: r)
  finally show ?thesis using two [of "cmos_sum c"] r by simp
qed

section \<open>Keeping time\<close>

text \<open>What the emulator sets up: the three timers are registered with their handlers and with nothing else under
  these handlers, the times are sane, and the one-second timer is a periodic one.\<close>

definition one_second :: "cmos_env \<Rightarrow> 64 word" where
  "one_second env = sane_ticks (sane_ticks (to_ticks env 1000000))"

definition update_time :: "cmos_env \<Rightarrow> 64 word" where
  "update_time env = sane_ticks (sane_ticks (to_ticks env 244))"

definition env_ok :: "cmos_env \<Rightarrow> bool" where
  "env_ok env \<longleftrightarrow> (\<forall>u. unat (to_ticks env u) \<le> 2 ^ 63) \<and> unat (update_time env) < unat (one_second env) \<and>
     periodic_timer_index env \<noteq> 0 \<and> one_second_timer_index env \<noteq> 0 \<and> uip_timer_index env \<noteq> 0 \<and>
     one_second_timer_index env \<noteq> uip_timer_index env"

definition installed :: "cmos_env \<Rightarrow> nat \<Rightarrow> (nat \<Rightarrow> cmos_callback sys_timer) \<Rightarrow> bool" where
  "installed env n tms \<longleftrightarrow> one_second_timer_index env < n \<and> uip_timer_index env < n \<and>
     (\<forall>i<n. funct (tms i) = Some one_second_timer_handler \<longleftrightarrow> i = one_second_timer_index env) \<and>
     (\<forall>i<n. funct (tms i) = Some uip_timer_handler \<longleftrightarrow> i = uip_timer_index env)"

definition UIP :: "cmos \<Rightarrow> bool" where
  "UIP c \<longleftrightarrow> bit (reg c REG_STAT_A) 7"

definition stopped :: "cmos \<Rightarrow> bool" where
  "stopped c \<longleftrightarrow> reg c REG_STAT_A AND 0x60 = 0x60"

definition rtc_ok :: "cmos_env \<Rightarrow> (nat \<Rightarrow> cmos_callback sys_timer) \<Rightarrow> cmos \<Rightarrow> bool" where
  "rtc_ok env tms c \<longleftrightarrow>
     (let one = tms (one_second_timer_index env); uip = tms (uip_timer_index env) in
      active one \<and> continuous one \<and> period one = one_second env \<and> (UIP c \<longleftrightarrow> active uip) \<and>
      (active uip \<longrightarrow> \<not> continuous uip \<and> unat (timeToFire uip) < unat (timeToFire one)))"

lemma sane_ticks_valid: "unat t \<le> 2 ^ 63 \<Longrightarrow> unat (sane_ticks (sane_ticks t)) \<le> 2 ^ 63"
  by (intro sane_ticks_le)

lemma cmos_programs: "env_ok env \<Longrightarrow> device_programs (cmos_program env)"
proof
  fix call h i d
  assume "env_ok env" and "call \<in> set (snd (cmos_program env h i d))"
  then show "valid_call call"
    by (cases h) (auto simp: one_second_timer_def start_timer_def env_ok_def Let_def sane_ticks_le [simplified] split: if_splits)
qed

text \<open>The calls returned are those of \<^verbatim>\<open>bx_pc_system.activate_timer\<close>.\<close>

lemma start_timer_activates:
  "useconds \<noteq> 0 \<Longrightarrow> run_call (start_timer env i useconds cont) p = activate_timer (to_ticks env) i useconds cont p"
  by (simp add: start_timer_def activate_timer_def activate_timer_ticks_def Let_def sane_ticks_def
      MinAllowableTimerPeriod_def upd_timer_def time_ticks_def skew_countdown_def)

subsection \<open>The handlers one by one\<close>

lemma flag_bits:
  "bit ((v :: byte) OR 0x80) 7" "\<not> bit (v AND 0x7F) 7"
  "(v OR 0x80) AND 0x60 = v AND 0x60" "(v AND 0x7F) AND 0x60 = v AND 0x60"
proof -
  show "bit (v OR 0x80) 7" "\<not> bit (v AND 0x7F) 7" by (simp_all add: bit_or_iff bit_and_iff)
  show "(v OR 0x80) AND 0x60 = v AND 0x60" by (simp add: bit.conj_disj_distrib2)
  show "(v AND 0x7F) AND 0x60 = v AND 0x60" by (simp add: and.assoc)
qed

lemma set_reg_simps [simp]:
  "reg (set_reg r v c) q = (if q = r then v else reg c q)" "timeval (set_reg r v c) = timeval c"
  "irq8 (set_reg r v c) = irq8 c"
  by (simp_all add: set_reg_def)

lemma raise_irq8_simps [simp]: "reg (raise_irq8 c) = reg c" "timeval (raise_irq8 c) = timeval c"
  by (simp_all add: raise_irq8_def)

lemma periodic_timer_frame:
  "timeval (periodic_timer c) = timeval c" "UIP (periodic_timer c) = UIP c" "stopped (periodic_timer c) = stopped c"
  "is_time_reg r \<Longrightarrow> reg (periodic_timer c) r = reg c r"
  by (auto simp: periodic_timer_def UIP_def stopped_def is_time_reg_def)

lemma uip_timer_frame:
  "timeval (uip_timer env c) = timeval c" "\<not> UIP (uip_timer env c)" "stopped (uip_timer env c) = stopped c"
  by (auto simp: uip_timer_def Let_def UIP_def stopped_def flag_bits update_clock_reg is_time_reg_def)

lemma one_second_timer_frame:
  "timeval (fst (one_second_timer env c)) = timeval c + of_bool (\<not> stopped c)"
  "stopped (fst (one_second_timer env c)) = stopped c"
  "is_time_reg r \<Longrightarrow> reg (fst (one_second_timer env c)) r = reg c r"
  "snd (one_second_timer env c) = [] \<Longrightarrow> UIP (fst (one_second_timer env c)) = UIP c"
  "snd (one_second_timer env c) = [] \<or>
     snd (one_second_timer env c) = [start_timer env (uip_timer_index env) 244 False] \<and> UIP (fst (one_second_timer env c))"
  by (auto simp: one_second_timer_def Let_def UIP_def stopped_def flag_bits is_time_reg_def)

subsection \<open>One tick\<close>

lemma cal_run_call_frame:
  "clients (cal_run_call x c) = clients c" "count (cal_run_call x c) = count c" "now (cal_run_call x c) = now c"
  "funct (slots (cal_run_call x c) i) = funct (slots c i)" "firing (cal_run_call x c) = firing c"
  by (cases x; simp)+

lemma installed_cong:
  "(\<And>i. funct (tms' i) = funct (tms i)) \<Longrightarrow> installed env n tms' = installed env n tms"
  by (simp add: installed_def)

text \<open>The state while the callbacks of a tick run, \<open>js\<close> still to be called: the flag and the timers agree, but for the
  update timer that is still to be called.\<close>

definition midway :: "cmos_env \<Rightarrow> nat list \<Rightarrow> (cmos_callback, cmos) calendar \<Rightarrow> bool" where
  "midway env js c \<longleftrightarrow>
     (let one = slots c (one_second_timer_index env); uip = slots c (uip_timer_index env) in
      installed env (count c) (slots c) \<and> (\<forall>j\<in>set js. j < count c) \<and>
      active one \<and> continuous one \<and> period one = one_second env \<and> unat (now c) < unat (timeToFire one) \<and>
      (one_second_timer_index env \<in> set js \<longrightarrow>
         unat (timeToFire one) = unat (now c) + unat (one_second env) \<and> uip_timer_index env \<notin> set js) \<and>
      (if uip_timer_index env \<in> set js then \<not> active uip
       else (UIP (clients c) \<longleftrightarrow> active uip) \<and>
            (active uip \<longrightarrow> \<not> continuous uip \<and> unat (timeToFire uip) < unat (timeToFire one))))"

lemma call_other:
  assumes "funct (slots c j) \<noteq> Some one_second_timer_handler" and "funct (slots c j) \<noteq> Some uip_timer_handler"
  shows "slots (cal_call (cal_handler (cmos_program env)) j c) = slots c"
    and "UIP (clients (cal_call (cal_handler (cmos_program env)) j c)) = UIP (clients c)"
    and "stopped (clients (cal_call (cal_handler (cmos_program env)) j c)) = stopped (clients c)"
    and "timeval (clients (cal_call (cal_handler (cmos_program env)) j c)) = timeval (clients c)"
    and "is_time_reg r \<Longrightarrow> reg (clients (cal_call (cal_handler (cmos_program env)) j c)) r = reg (clients c) r"
    and "count (cal_call (cal_handler (cmos_program env)) j c) = count c"
    and "now (cal_call (cal_handler (cmos_program env)) j c) = now c"
proof -
  let ?c = "cal_call (cal_handler (cmos_program env)) j c"
  have "slots ?c = slots c \<and> UIP (clients ?c) = UIP (clients c) \<and> stopped (clients ?c) = stopped (clients c) \<and>
      timeval (clients ?c) = timeval (clients c) \<and> (is_time_reg r \<longrightarrow> reg (clients ?c) r = reg (clients c) r) \<and>
      count ?c = count c \<and> now ?c = now c"
  proof (cases "funct (slots c j)")
    case None
    then show ?thesis by (simp add: cal_call_def)
  next
    case (Some h)
    then show ?thesis using assms by (cases h) (simp_all add: cal_call_def cal_handler_def periodic_timer_frame)
  qed
  then show "slots ?c = slots c" "UIP (clients ?c) = UIP (clients c)" "stopped (clients ?c) = stopped (clients c)"
    "timeval (clients ?c) = timeval (clients c)" "is_time_reg r \<Longrightarrow> reg (clients ?c) r = reg (clients c) r"
    "count ?c = count c" "now ?c = now c" by blast+
qed

lemma call_uip:
  assumes "funct (slots c j) = Some uip_timer_handler"
  shows "slots (cal_call (cal_handler (cmos_program env)) j c) = slots c"
    and "clients (cal_call (cal_handler (cmos_program env)) j c) = uip_timer env (clients c)"
    and "count (cal_call (cal_handler (cmos_program env)) j c) = count c"
    and "now (cal_call (cal_handler (cmos_program env)) j c) = now c"
  using assms by (simp_all add: cal_call_def cal_handler_def)

lemma call_one:
  fixes env :: cmos_env
  assumes "funct (slots c j) = Some one_second_timer_handler"
  defines "c' \<equiv> cal_call (cal_handler (cmos_program env)) j c"
  shows "clients c' = fst (one_second_timer env (clients c))" and "count c' = count c" and "now c' = now c"
    and "slots c' = (if snd (one_second_timer env (clients c)) = [] then slots c
      else (slots c)(uip_timer_index env := (slots c (uip_timer_index env))
        \<lparr>period := update_time env, timeToFire := now c + update_time env, active := True, continuous := False\<rparr>))"
proof -
  obtain d xs where o: "one_second_timer env (clients c) = (d, xs)" by (cases "one_second_timer env (clients c)")
  have xs: "xs = [] \<or> xs = [start_timer env (uip_timer_index env) 244 False]"
    using one_second_timer_frame(5) [of env "clients c"] o by auto
  show "clients c' = fst (one_second_timer env (clients c))" "count c' = count c" "now c' = now c"
    using assms(1) xs o by (auto simp: c'_def cal_call_def cal_handler_def cal_run_call_frame)
  show "slots c' = (if snd (one_second_timer env (clients c)) = [] then slots c
      else (slots c)(uip_timer_index env := (slots c (uip_timer_index env))
        \<lparr>period := update_time env, timeToFire := now c + update_time env, active := True, continuous := False\<rparr>))"
    using assms(1) xs o by (auto simp: c'_def cal_call_def cal_handler_def start_timer_def update_time_def)
qed

lemma midway_call:
  assumes env: "env_ok env" and m: "midway env (j # js) c" and d: "distinct (j # js)" and lim: "unat (now c) < 2 ^ 63"
  defines "c' \<equiv> cal_call (cal_handler (cmos_program env)) j c"
  shows "midway env js c'" and "now c' = now c" and "count c' = count c"
    and "stopped (clients c') = stopped (clients c)"
    and "timeval (clients c') = timeval (clients c) + of_bool (j = one_second_timer_index env \<and> \<not> stopped (clients c))"
    and "is_time_reg r \<Longrightarrow> j \<noteq> uip_timer_index env \<Longrightarrow> reg (clients c') r = reg (clients c) r"
    and "slots c' (uip_timer_index env) = slots c (uip_timer_index env) \<or>
      timeToFire (slots c' (uip_timer_index env)) = now c + update_time env"
proof -
  let ?K = "cal_handler (cmos_program env)" and ?i = "one_second_timer_index env" and ?u = "uip_timer_index env"
  have j: "j < count c" and inst: "installed env (count c) (slots c)" and ne: "?i \<noteq> ?u"
    using m env by (auto simp: midway_def Let_def env_ok_def)
  have fi: "funct (slots c j) = Some one_second_timer_handler \<longleftrightarrow> j = ?i"
    and fu: "funct (slots c j) = Some uip_timer_handler \<longleftrightarrow> j = ?u" using inst j by (auto simp: installed_def)
  consider "j = ?i" | "j = ?u" | "j \<noteq> ?i" "j \<noteq> ?u" by blast
  then have "midway env js c' \<and> now c' = now c \<and> count c' = count c \<and> stopped (clients c') = stopped (clients c) \<and>
      timeval (clients c') = timeval (clients c) + of_bool (j = ?i \<and> \<not> stopped (clients c)) \<and>
      (is_time_reg r \<longrightarrow> j \<noteq> ?u \<longrightarrow> reg (clients c') r = reg (clients c) r) \<and>
      (slots c' ?u = slots c ?u \<or> timeToFire (slots c' ?u) = now c + update_time env)"
  proof cases
    case 1
    have f: "funct (slots c j) = Some one_second_timer_handler" using fi 1 by simp
    note o = call_one [OF f, where env = env, folded c'_def]
    have us: "unat (now c + update_time env) = unat (now c) + unat (update_time env)"
      using lim env sane_ticks_valid [of "to_ticks env 244"]
      by (subst unat_add_64) (simp_all add: env_ok_def update_time_def)
    have lt: "unat (update_time env) < unat (one_second env)" using env by (simp add: env_ok_def)
    have inst': "installed env (count c') (slots c')"
      using inst by (simp add: o installed_def)
    have "midway env js c'"
      using m d 1 ne inst' us lt one_second_timer_frame(4,5) [of env "clients c"]
      by (auto simp: midway_def Let_def o split: if_splits)
    then show ?thesis using 1 o one_second_timer_frame(1,2) [of env "clients c"]
        one_second_timer_frame(3) [of r env "clients c"] by auto
  next
    case 2
    have f: "funct (slots c j) = Some uip_timer_handler" using fu 2 by simp
    note o = call_uip [OF f, where env = env, folded c'_def]
    have "midway env js c'"
      using m d 2 ne uip_timer_frame(2) [of env "clients c"] by (auto simp: midway_def Let_def o split: if_splits)
    then show ?thesis using 2 o ne by (simp add: uip_timer_frame)
  next
    case 3
    have f: "funct (slots c j) \<noteq> Some one_second_timer_handler" "funct (slots c j) \<noteq> Some uip_timer_handler"
      using fi fu 3 by simp_all
    note o = call_other [OF f, where env = env, folded c'_def]
    have "midway env js c'" using m 3 by (auto simp: midway_def Let_def o split: if_splits)
    then show ?thesis using 3 o by simp
  qed
  then show "midway env js c'" "now c' = now c" "count c' = count c" "stopped (clients c') = stopped (clients c)"
    "timeval (clients c') = timeval (clients c) + of_bool (j = ?i \<and> \<not> stopped (clients c))"
    "is_time_reg r \<Longrightarrow> j \<noteq> ?u \<Longrightarrow> reg (clients c') r = reg (clients c) r"
    "slots c' ?u = slots c ?u \<or> timeToFire (slots c' ?u) = now c + update_time env" by blast+
qed

definition running_rtc :: "cmos_env \<Rightarrow> (cmos_callback, cmos) calendar \<Rightarrow> bool" where
  "running_rtc env c \<longleftrightarrow> installed env (count c) (slots c) \<and> rtc_ok env (slots c) (clients c) \<and>
     unat (now c) < unat (timeToFire (slots c (one_second_timer_index env)))"

definition one_second_due :: "cmos_env \<Rightarrow> (cmos_callback, cmos) calendar \<Rightarrow> bool" where
  "one_second_due env c \<longleftrightarrow> is_due (now c + 1) (slots c (one_second_timer_index env))"

lemma midway_calls:
  assumes "env_ok env" and "midway env js c" and "distinct js" and "unat (now c) < 2 ^ 63"
  defines "c' \<equiv> fold (cal_call (cal_handler (cmos_program env))) js c"
  shows "midway env [] c' \<and> now c' = now c \<and> count c' = count c \<and> stopped (clients c') = stopped (clients c) \<and>
    timeval (clients c') = timeval (clients c) + of_bool (one_second_timer_index env \<in> set js \<and> \<not> stopped (clients c)) \<and>
    (\<forall>r. is_time_reg r \<longrightarrow> uip_timer_index env \<notin> set js \<longrightarrow> reg (clients c') r = reg (clients c) r) \<and>
    (slots c' (uip_timer_index env) = slots c (uip_timer_index env) \<or>
      timeToFire (slots c' (uip_timer_index env)) = now c + update_time env)"
  using assms(2-4) unfolding c'_def
proof (induction js arbitrary: c)
  case (Cons j js)
  note s = midway_call [OF assms(1) Cons.prems]
  have d: "distinct js" and l: "unat (now (cal_call (cal_handler (cmos_program env)) j c)) < 2 ^ 63"
    using Cons.prems by (simp_all add: s(2))
  note IH = Cons.IH [OF s(1) d l]
  show ?case using IH s(2-7) Cons.prems(2) by auto
qed simp

lemma rtc_tick:
  assumes env: "env_ok env" and ok: "running_rtc env c" and lim: "unat (now c) + 1 < 2 ^ 63"
  defines "c' \<equiv> cal_tick (cal_handler (cmos_program env)) c"
  shows "running_rtc env c'" and "now c' = now c + 1" and "stopped (clients c') = stopped (clients c)"
    and "timeval (clients c') = timeval (clients c) + of_bool (one_second_due env c \<and> \<not> stopped (clients c))"
    and "is_time_reg r \<Longrightarrow> \<not> is_due (now c + 1) (slots c (uip_timer_index env)) \<Longrightarrow>
      reg (clients c') r = reg (clients c) r"
    and "active (slots c' (uip_timer_index env)) \<Longrightarrow> slots c' (uip_timer_index env) = slots c (uip_timer_index env) \<or>
      timeToFire (slots c' (uip_timer_index env)) = now c + 1 + update_time env"
proof -
  let ?i = "one_second_timer_index env" and ?u = "uip_timer_index env" and ?t = "now c + 1"
  let ?js = "filter (\<lambda>i. is_due ?t (slots c i)) [0..<count c]"
  let ?c = "c\<lparr>now := ?t, slots := rearm_due ?t (count c) (slots c)\<rparr>"
  have iu: "?i < count c" "?u < count c" "?i \<noteq> ?u"
    using ok env by (simp_all add: running_rtc_def installed_def env_ok_def)
  have one: "active (slots c ?i)" "continuous (slots c ?i)" "period (slots c ?i) = one_second env"
    and uip: "UIP (clients c) \<longleftrightarrow> active (slots c ?u)"
      "active (slots c ?u) \<Longrightarrow> \<not> continuous (slots c ?u) \<and> unat (timeToFire (slots c ?u)) < unat (timeToFire (slots c ?i))"
    and fut: "unat (now c) < unat (timeToFire (slots c ?i))"
    using ok by (auto simp: running_rtc_def rtc_ok_def Let_def)
  have tn: "unat ?t = unat (now c) + 1" using lim by (subst unat_add_64) simp_all
  have P: "1 \<le> unat (one_second env)" "unat (one_second env) \<le> 2 ^ 63"
    using env sane_ticks_pos [of "sane_ticks (to_ticks env 1000000)"] sane_ticks_valid [of "to_ticks env 1000000"]
    by (simp_all only: env_ok_def one_second_def)
  have ad: "unat (?t + one_second env) = unat ?t + unat (one_second env)"
    using P lim tn by (subst unat_add_64) simp_all
  have s1: "slots ?c ?i = (if is_due ?t (slots c ?i) then (slots c ?i)\<lparr>timeToFire := ?t + one_second env\<rparr> else slots c ?i)"
    using iu one by (auto simp: rearm_due_def rearm_timer_def is_due_def)
  have s2: "slots ?c ?u = (if is_due ?t (slots c ?u) then (slots c ?u)\<lparr>active := False\<rparr> else slots c ?u)"
    using iu uip by (auto simp: rearm_due_def rearm_timer_def is_due_def)
  have inst: "installed env (count ?c) (slots ?c)"
  proof -
    have f: "funct (slots ?c j) = funct (slots c j)" for j by (simp add: rearm_due_def rearm_timer_def)
    show ?thesis using ok unfolding running_rtc_def by (simp add: installed_cong [OF f [simplified]])
  qed
  have excl: "is_due ?t (slots c ?u) \<Longrightarrow> \<not> is_due ?t (slots c ?i)" using uip(2) by (auto simp: is_due_def)
  have mem: "j \<in> set ?js \<longleftrightarrow> j < count c \<and> is_due ?t (slots c j)" for j by auto
  have later: "\<not> is_due ?t (slots c ?i) \<Longrightarrow> unat ?t < unat (timeToFire (slots c ?i))"
    using fut tn one(1) by (auto simp: is_due_def word_unat_eq_iff)
  have m: "midway env ?js ?c"
    unfolding midway_def Let_def mem s1 s2
    using inst iu one uip excl ad later P by (auto simp: is_due_def)
  have d: "distinct ?js" by simp
  have l: "unat (now ?c) < 2 ^ 63" using tn lim by simp
  have c': "c' = fold (cal_call (cal_handler (cmos_program env))) ?js ?c" by (simp add: c'_def cal_tick_def Let_def)
  note f = midway_calls [OF env m d l, folded c']
  show n: "now c' = now c + 1" using f by simp
  show "stopped (clients c') = stopped (clients c)" using f by simp
  show "timeval (clients c') = timeval (clients c) + of_bool (one_second_due env c \<and> \<not> stopped (clients c))"
    using f iu by (simp add: one_second_due_def)
  show "is_time_reg r \<Longrightarrow> \<not> is_due ?t (slots c ?u) \<Longrightarrow> reg (clients c') r = reg (clients c) r"
    using f by simp
  show "active (slots c' ?u) \<Longrightarrow> slots c' ?u = slots c ?u \<or> timeToFire (slots c' ?u) = now c + 1 + update_time env"
    using f s2 by (auto split: if_splits)
  show "running_rtc env c'"
    using f [THEN conjunct1] n by (simp add: midway_def running_rtc_def rtc_ok_def Let_def)
qed

subsection \<open>The clock of the emulator\<close>

definition rtc_tick_n :: "cmos_env \<Rightarrow> nat \<Rightarrow> (cmos_callback, cmos) pc_system \<Rightarrow> (cmos_callback, cmos) pc_system" where
  "rtc_tick_n env n = (sys_tick (cmos_program env) (\<lambda>_. False) ^^ n)"

definition rtc_running :: "cmos_env \<Rightarrow> (cmos_callback, cmos) pc_system \<Rightarrow> bool" where
  "rtc_running env p \<longleftrightarrow> timers_ok p \<and> running_rtc env (abs_timers p)"

lemma rtc_steps:
  assumes env: "env_ok env" and ok: "rtc_running env p" and lim: "tick_count p + n < 2 ^ 63"
  shows "rtc_running env (rtc_tick_n env n p) \<and> tick_count (rtc_tick_n env n p) = tick_count p + n \<and>
    stopped (devices (rtc_tick_n env n p)) = stopped (devices p)"
  using lim
proof (induction n)
  case 0
  then show ?case using ok by (simp add: rtc_tick_n_def)
next
  case (Suc n)
  let ?q = "rtc_tick_n env n p"
  have IH: "timers_ok ?q" "running_rtc env (abs_timers ?q)" "tick_count ?q = tick_count p + n" "stopped (devices ?q) = stopped (devices p)"
    using Suc by (auto simp: rtc_running_def)
  have l: "tick_count ?q + 1 < 2 ^ 63" using IH(3) Suc.prems by simp
  note t = timer_callbacks.tick1_refines [OF device_programs.callbacks [OF cmos_programs [OF env]] IH(1) l, of "\<lambda>_. False",
      folded sys_tick_def]
  have l': "unat (now (abs_timers ?q)) + 1 < 2 ^ 63" using time_is_clock(1) [OF IH(1)] l by simp
  note r = rtc_tick(1,3) [OF env IH(2) l', folded t(2)]
  have s: "rtc_tick_n env (Suc n) p = sys_tick (cmos_program env) (\<lambda>_. False) ?q" by (simp add: rtc_tick_n_def)
  show ?case using t(1,3) r IH(3,4) by (simp add: s rtc_running_def)
qed

lemma rtc_step:
  assumes env: "env_ok env" and ok: "rtc_running env p" and lim: "tick_count p + Suc n < 2 ^ 63"
  defines "q \<equiv> rtc_tick_n env n p"
  shows "timeval (devices (rtc_tick_n env (Suc n) p)) =
      timeval (devices q) + of_bool (fires_next (one_second_timer_index env) q \<and> \<not> stopped (devices p))"
    and "is_time_reg r \<Longrightarrow> \<not> fires_next (uip_timer_index env) q \<Longrightarrow>
      reg (devices (rtc_tick_n env (Suc n) p)) r = reg (devices q) r"
    and "active (timer (rtc_tick_n env (Suc n) p) (uip_timer_index env)) \<Longrightarrow>
      timer (rtc_tick_n env (Suc n) p) (uip_timer_index env) = timer q (uip_timer_index env) \<or>
      timeToFire (timer (rtc_tick_n env (Suc n) p) (uip_timer_index env)) = time_ticks q + 1 + update_time env"
proof -
  have "tick_count p + n < 2 ^ 63" using lim by simp
  note st = rtc_steps [OF env ok this, folded q_def]
  then have IH: "timers_ok q" "running_rtc env (abs_timers q)" "tick_count q = tick_count p + n" "stopped (devices q) = stopped (devices p)"
    by (auto simp: rtc_running_def)
  have l: "tick_count q + 1 < 2 ^ 63" using IH(3) lim by simp
  note t = timer_callbacks.tick1_refines(2) [OF device_programs.callbacks [OF cmos_programs [OF env]] IH(1) l, of "\<lambda>_. False",
      folded sys_tick_def]
  have l': "unat (now (abs_timers q)) + 1 < 2 ^ 63" using time_is_clock(1) [OF IH(1)] l by simp
  note r = rtc_tick(4,5,6) [OF env IH(2) l', folded t]
  have s: "rtc_tick_n env (Suc n) p = sys_tick (cmos_program env) (\<lambda>_. False) q" by (simp add: rtc_tick_n_def q_def)
  have i: "one_second_timer_index env < numTimers q" "uip_timer_index env < numTimers q"
    using IH(2) by (simp_all add: running_rtc_def installed_def)
  show "timeval (devices (rtc_tick_n env (Suc n) p)) =
      timeval (devices q) + of_bool (fires_next (one_second_timer_index env) q \<and> \<not> stopped (devices p))"
    using r(1) i IH(4) by (simp add: s one_second_due_def fires_next_def)
  show "is_time_reg r \<Longrightarrow> \<not> fires_next (uip_timer_index env) q \<Longrightarrow>
      reg (devices (rtc_tick_n env (Suc n) p)) r = reg (devices q) r"
    using r(2) i by (simp add: s fires_next_def)
  show "active (timer (rtc_tick_n env (Suc n) p) (uip_timer_index env)) \<Longrightarrow>
      timer (rtc_tick_n env (Suc n) p) (uip_timer_index env) = timer q (uip_timer_index env) \<or>
      timeToFire (timer (rtc_tick_n env (Suc n) p) (uip_timer_index env)) = time_ticks q + 1 + update_time env"
    using r(3) by (simp add: s)
qed

lemma one_second_fires:
  assumes env: "env_ok env" and ok: "rtc_running env p" and lim: "tick_count p + n < 2 ^ 63"
    and start: "unat (timeToFire (timer p (one_second_timer_index env))) = tick_count p + unat (one_second env)"
  shows "fires_next (one_second_timer_index env) (rtc_tick_n env n p) \<longleftrightarrow> unat (one_second env) dvd (n + 1)"
proof -
  let ?i = "one_second_timer_index env"
  have cm: "\<forall>x\<in>set (snd (cmos_program env h j d)). call_slot x \<noteq> ?i" for h j d
    using env by (cases h) (auto simp: one_second_timer_def Let_def start_timer_def env_ok_def)
  have P: "1 \<le> unat (one_second env)" "unat (one_second env) \<le> 2 ^ 63"
    using env sane_ticks_pos [of "sane_ticks (to_ticks env 1000000)"] sane_ticks_valid [of "to_ticks env 1000000"]
    by (simp_all only: env_ok_def one_second_def)
  have t: "timers_ok p" and i: "?i < numTimers p" and a: "active (timer p ?i)" "continuous (timer p ?i)"
    "period (timer p ?i) = one_second env"
    using ok by (auto simp: rtc_running_def running_rtc_def installed_def rtc_ok_def Let_def)
  have per: "periodic_at (tick_count p) (unat (one_second env)) 0 (timer p ?i)"
    using a start P by (auto simp: periodic_at_def intro: exI [of _ 0])
  note f = timers_frame [OF cmos_programs [OF env] t lim cm i per P(2), of "\<lambda>_. False", folded rtc_tick_n_def]
  let ?r = "rtc_tick_n env n p"
  have "unat (time_ticks ?r + 1) = tick_count p + n + 1"
    using f time_is_clock(1) [of ?r] lim by (subst unat_add_64) simp_all
  from periodic_due [OF _ this]
  have "is_due (time_ticks ?r + 1) (timer ?r ?i) \<longleftrightarrow> unat (one_second env) dvd (n + 1)" using f by blast
  moreover have "?i < numTimers ?r" using f by blast
  ultimately show ?thesis by (simp add: fires_next_def)
qed


text \<open>The update-in-progress flag protects a reader: while the clock runs, the flag is set exactly while an
  update is pending, and once a program has seen it clear, the time registers do not change during the next 244
  microseconds' worth of ticks, so that they can be read one after the other.\<close>

theorem uip_protects_reader:
  assumes "env_ok env" and "rtc_running env p" and "\<not> UIP (devices p)"
    and "n \<le> unat (update_time env)" and "tick_count p + n < 2 ^ 62" and "is_time_reg r"
  shows "reg (devices (rtc_tick_n env n p)) r = reg (devices p) r \<and>
    (UIP (devices (rtc_tick_n env n p)) \<longleftrightarrow> active (timer (rtc_tick_n env n p) (uip_timer_index env)))"
proof -
  let ?u = "uip_timer_index env" and ?N = "unat (update_time env)"
  have flag: "UIP (devices q) \<longleftrightarrow> active (timer q ?u)" if "rtc_running env q" for q
    using that by (simp add: rtc_running_def running_rtc_def rtc_ok_def Let_def)
  have N: "?N \<le> 2 ^ 63" using assms(1) sane_ticks_valid [of "to_ticks env 244"] by (simp add: env_ok_def update_time_def)
  have "rtc_running env (rtc_tick_n env m p) \<and> tick_count (rtc_tick_n env m p) = tick_count p + m \<and>
      reg (devices (rtc_tick_n env m p)) r = reg (devices p) r \<and>
      (active (timer (rtc_tick_n env m p) ?u) \<longrightarrow> tick_count p + ?N < unat (timeToFire (timer (rtc_tick_n env m p) ?u)))"
    if "m \<le> n" for m
    using that
  proof (induction m)
    case 0
    then show ?case using assms(2,3) flag [OF assms(2)] by (simp add: rtc_tick_n_def)
  next
    case (Suc m)
    let ?q = "rtc_tick_n env m p" and ?q' = "rtc_tick_n env (Suc m) p"
    have IH: "rtc_running env ?q" "tick_count ?q = tick_count p + m" "reg (devices ?q) r = reg (devices p) r"
      "active (timer ?q ?u) \<Longrightarrow> tick_count p + ?N < unat (timeToFire (timer ?q ?u))" using Suc by auto
    have l: "tick_count p + Suc m < 2 ^ 63" using assms(5) Suc.prems by simp
    note s = rtc_step [OF assms(1,2) l]
    note st = rtc_steps [OF assms(1,2) l]
    have tq: "unat (time_ticks ?q) = tick_count p + m" using time_is_clock(1) [of ?q] IH(1,2) by (simp add: rtc_running_def)
    have t1: "unat (time_ticks ?q + 1) = tick_count p + m + 1" using tq l by (subst unat_add_64) simp_all
    have "\<not> fires_next ?u ?q"
    proof
      assume "fires_next ?u ?q"
      then have "active (timer ?q ?u)" "unat (timeToFire (timer ?q ?u)) = tick_count p + m + 1"
        using t1 by (auto simp: fires_next_def is_due_def)
      then show False using IH(4) Suc.prems assms(4) by simp
    qed
    then have "reg (devices ?q') r = reg (devices p) r" using s(2) [OF assms(6)] IH(3) by simp
    moreover have "tick_count p + ?N < unat (timeToFire (timer ?q' ?u))" if a: "active (timer ?q' ?u)"
      using s(3) [OF a]
    proof
      assume "timer ?q' ?u = timer ?q ?u"
      then show ?thesis using IH(4) a by simp
    next
      assume e: "timeToFire (timer ?q' ?u) = time_ticks ?q + 1 + update_time env"
      have "unat (time_ticks ?q + 1 + update_time env) = tick_count p + m + 1 + ?N"
        using t1 N assms(5) Suc.prems by (subst unat_add_64) simp_all
      then show ?thesis by (simp add: e)
    qed
    ultimately show ?case using st by simp
  qed
  from this [OF order_refl] show ?thesis using flag by blast
qed

text \<open>An emulator at one tick per microsecond: null timer, the three timers of the device, the second just
  started.\<close>

definition a_timer :: "64 word \<Rightarrow> bool \<Rightarrow> bool \<Rightarrow> cmos_callback \<Rightarrow> cmos_callback sys_timer" where
  "a_timer t act cont h =
     \<lparr>inUse = True, period = t, timeToFire = t, active = act, continuous = cont, funct = Some h\<rparr>"

definition rtc0 :: "(cmos_callback, cmos) pc_system" where
  "rtc0 =
     \<lparr>timer = (\<lambda>i. if i = 0 then a_timer NullTimerInterval True True other_timer
                  else if i = 1 then a_timer 1000000 False True periodic_timer_handler
                  else if i = 2 then a_timer 1000000 True True one_second_timer_handler
                  else a_timer 244 False False uip_timer_handler),
      numTimers = 4, triggeredTimer = 0, currCountdown = 1000000, currCountdownPeriod = 1000000,
      ticksTotal = 0, devices = cmos0 0, crashed = False\<rparr>"

lemma rtc0_device: "reg (devices rtc0) REG_STAT_A = 0x26" "timeval (devices rtc0) = 0"
  by (simp_all add: rtc0_def cmos0_def cmos_generate_def update_clock_reg is_time_reg_def)

lemma env0_ok: "env_ok env0" "one_second env0 = 1000000" "update_time env0 = 244"
proof -
  show s: "one_second env0 = 1000000" "update_time env0 = 244" by code_simp+
  have "unat (to_ticks env0 u) \<le> 2 ^ 63" for u
    using word32_lt [of u] by (simp add: env0_def)
  then show "env_ok env0" using s by (simp add: env_ok_def) (simp add: env0_def)
qed

lemma rtc0_running: "rtc_running env0 rtc0"
proof -
  have four: "i < 4 \<Longrightarrow> i = 0 \<or> i = 1 \<or> i = 2 \<or> i = (3 :: nat)" for i by linarith
  have ix: "one_second_timer_index env0 = 2" "uip_timer_index env0 = 3" by (simp_all add: env0_def)
  have t: "timers_ok rtc0"
    by (auto simp: timers_ok_def rtc0_def BX_MAX_TIMERS_def tick_count_def next_event_def null_timer_ok_def timer_ok_def
        a_timer_def NullTimerInterval_def dest!: four)
  have "installed env0 (numTimers rtc0) (timer rtc0)"
    by (auto simp: installed_def ix rtc0_def a_timer_def dest!: four)
  moreover have "\<not> UIP (devices rtc0)" by (simp add: UIP_def rtc0_device)
  ultimately show ?thesis
    using t time_is_clock(1) [OF t]
    by (simp add: rtc_running_def running_rtc_def rtc_ok_def Let_def ix env0_ok)
       (simp add: rtc0_def a_timer_def tick_count_def)
qed


theorem uip_protects_reader_witness:
  "reg (devices (rtc_tick_n env0 244 rtc0)) REG_SEC = reg (devices rtc0) REG_SEC"
proof -
  have "\<not> UIP (devices rtc0)" by (simp add: UIP_def rtc0_device)
  moreover have "tick_count rtc0 + 244 < 2 ^ 62" by (simp add: rtc0_def tick_count_def)
  ultimately show ?thesis
    using uip_protects_reader [OF env0_ok(1) rtc0_running, of 244 REG_SEC] by (simp add: env0_ok is_time_reg_def)
qed

end
