(* ===== verification/Bochs_Floppy.thy ===== *)
theory Bochs_Floppy
  imports Bochs_DMA OS_Disk
begin

unbundle bit_operations_syntax

section \<open>The floppy disk controller of the emulator\<close>

text \<open>
  Models \<^verbatim>\<open>iodev/floppy.cc\<close>: the phases of a command (command bytes, execution, result
  bytes), the transfer of sectors through DMA channel 2 and the timer. What the controller asks of
  other devices, the DMA request line and its timer, is appended to \<open>requests\<close> in the order of the code;
  the interrupt line 6 is a field. The image file of a drive is a function that is 0 behind the end of the file,
  which is what \<^verbatim>\<open>floppy_xfer\<close> makes of a short read. \<open>command\<close> keeps what is written at
  any index; in the code the places from 10 on are other fields of the controller. Log output, the status bar and the host code
  that opens image files (\<^verbatim>\<open>evaluate_media\<close>) are left out.
\<close>

subsection \<open>State\<close>

datatype media_kind =
  FLOPPY_NONE | FLOPPY_160K | FLOPPY_180K | FLOPPY_320K | FLOPPY_360K | FLOPPY_720K | FLOPPY_1_2 | FLOPPY_1_44 | FLOPPY_2_88

record fd_media =
  media_kind :: media_kind
  sectors_per_track :: "32 word"
  sectors :: "32 word"
  tracks :: "32 word"
  heads :: "32 word"
  write_protected :: bool

datatype fd_request = Set_drq bool | Start_timer "32 word"

record fd =
  data_rate :: byte
  command :: "nat \<Rightarrow> byte"
  command_index :: byte
  command_size :: byte
  command_complete :: bool
  pending_command :: byte
  multi_track :: bool
  pending_irq :: bool
  reset_sensei :: byte
  format_count :: byte
  format_fillbyte :: byte
  result :: "nat \<Rightarrow> byte"
  result_index :: byte
  result_size :: byte
  DOR :: byte
  cylinder :: "nat \<Rightarrow> byte"
  head :: "nat \<Rightarrow> byte"
  sector :: "nat \<Rightarrow> byte"
  eot :: "nat \<Rightarrow> byte"
  FTC :: bool
  main_status_reg :: byte
  status_reg0 :: byte
  status_reg1 :: byte
  status_reg2 :: byte
  status_reg3 :: byte
  media :: "nat \<Rightarrow> fd_media"
  floppy_buffer :: "nat \<Rightarrow> byte"
  floppy_buffer_index :: nat
  media_present :: "nat \<Rightarrow> bool"
  device_type :: "nat \<Rightarrow> byte"
  DIR :: "nat \<Rightarrow> byte"
  fd_lock :: byte
  SRT :: byte
  HUT :: byte
  HLT :: byte
  config :: byte
  pretrk :: byte
  perp_mode :: byte
  image :: "nat \<Rightarrow> nat \<Rightarrow> byte"
  irq6 :: bool
  requests :: "fd_request list"
  fd_panics :: "string list"

abbreviation "FD_MS_MRQ \<equiv> 0x80 :: byte"
abbreviation "FD_MS_DIO \<equiv> 0x40 :: byte"
abbreviation "FD_MS_NDMA \<equiv> 0x20 :: byte"
abbreviation "FD_MS_BUSY \<equiv> 0x10 :: byte"

definition request :: "fd_request \<Rightarrow> fd \<Rightarrow> fd" where
  "request r f = f\<lparr>requests := requests f @ [r]\<rparr>"

definition fd_panic :: "string \<Rightarrow> fd \<Rightarrow> fd" where
  "fd_panic m f = f\<lparr>fd_panics := fd_panics f @ [m]\<rparr>"

definition panic_if :: "bool \<Rightarrow> string \<Rightarrow> fd \<Rightarrow> fd" where
  "panic_if b m f = (if b then fd_panic m f else f)"

definition set_msr :: "byte \<Rightarrow> byte \<Rightarrow> fd \<Rightarrow> fd" where
  "set_msr keep add f = f\<lparr>main_status_reg := (main_status_reg f AND keep) OR add\<rparr>"

definition NDMA :: "fd \<Rightarrow> bool" where
  "NDMA f \<longleftrightarrow> main_status_reg f AND FD_MS_NDMA \<noteq> 0"

definition drop_drq :: "fd \<Rightarrow> fd" where
  "drop_drq f = (if \<not> NDMA f then request (Set_drq False) f else f)"

definition raise_drq :: "fd \<Rightarrow> fd" where
  "raise_drq f = (if \<not> NDMA f then request (Set_drq True) f else f)"

definition fd_drive :: "fd \<Rightarrow> nat" where
  "fd_drive f = unat (DOR f AND 0x03)"

definition drive_bits :: "nat \<Rightarrow> byte" where
  "drive_bits d = word_of_nat d"

definition raise_interrupt :: "fd \<Rightarrow> fd" where
  "raise_interrupt f = f\<lparr>irq6 := True, pending_irq := True, reset_sensei := 0\<rparr>"

definition lower_interrupt :: "fd \<Rightarrow> fd" where
  "lower_interrupt f = (if pending_irq f then f\<lparr>irq6 := False, pending_irq := False\<rparr> else f)"

subsection \<open>Phases\<close>

definition enter_idle_phase :: "fd \<Rightarrow> fd" where
  "enter_idle_phase f =
     (set_msr (FD_MS_NDMA OR 0x0F) FD_MS_MRQ f)
       \<lparr>command_complete := True, command_index := 0, command_size := 0, pending_command := 0,
        floppy_buffer_index := 0\<rparr>"

definition results :: "byte list \<Rightarrow> fd \<Rightarrow> fd" where
  "results bs f =
     f\<lparr>result_size := word_of_nat (length bs),
       result := (\<lambda>i. if i < length bs then bs ! i else result f i)\<rparr>"

definition is_read :: "byte \<Rightarrow> bool" where
  "is_read c \<longleftrightarrow> c \<in> {0x46, 0x66, 0xC6, 0xE6}"

definition is_write :: "byte \<Rightarrow> bool" where
  "is_write c \<longleftrightarrow> c \<in> {0x45, 0xC5}"

definition enter_result_phase :: "fd \<Rightarrow> fd" where
  "enter_result_phase f0 =
     (let drive = fd_drive f0;
          f = set_msr 0xFF (FD_MS_MRQ OR FD_MS_DIO OR FD_MS_BUSY) (f0\<lparr>result_index := 0\<rparr>);
          c = pending_command f
      in if status_reg0 f AND 0xC0 = 0x80 then results [status_reg0 f] f
         else if c = 0x04 then results [status_reg3 f] f
         else if c = 0x08 then results [status_reg0 f, cylinder f drive] f
         else if c = 0x0E then
           results [cylinder f 0, cylinder f 1, cylinder f 2, cylinder f 3, push_bit 4 (SRT f) OR HUT f,
                    push_bit 1 (HLT f) OR (if NDMA f then 1 else 0), eot f drive,
                    push_bit 7 (fd_lock f) OR (perp_mode f AND 0x7F), config f, pretrk f] f
         else if c = 0x10 then results [0x90] f
         else if c = 0x14 \<or> c = 0x94 then
           (let f1 = f\<lparr>fd_lock := drop_bit 7 c\<rparr> in results [push_bit 4 (fd_lock f1)] f1)
         else if c = 0x4A \<or> c = 0x4D \<or> is_read c \<or> is_write c then
           raise_interrupt (results [status_reg0 f, status_reg1 f, status_reg2 f, cylinder f drive, head f drive,
                                     sector f drive, 2] f)
         else f)"

definition reset_changeline :: "fd \<Rightarrow> fd" where
  "reset_changeline f =
     (if media_present f (fd_drive f) then f\<lparr>DIR := (DIR f)(fd_drive f := DIR f (fd_drive f) AND NOT 0x80)\<rparr> else f)"

definition drate_in_k :: "32 word list" where
  "drate_in_k = [500, 300, 250, 1000]"

definition calculate_step_delay :: "nat \<Rightarrow> byte \<Rightarrow> fd \<Rightarrow> 32 word \<times> fd" where
  "calculate_step_delay drive new_cylinder f =
     (let same = (new_cylinder = cylinder f drive);
          steps = (if same then 1
                   else if new_cylinder > cylinder f drive then new_cylinder - cylinder f drive
                   else cylinder f drive - new_cylinder) :: byte;
          f1 = (if same then f else reset_changeline f);
          one = (ucast (SRT f1 XOR 0x0F) + 1) * 500000 div drate_in_k ! unat (data_rate f1)
      in (ucast steps * one, f1))"

subsection \<open>Sectors\<close>

definition logical_sector :: "nat \<Rightarrow> fd \<Rightarrow> 32 word" where
  "logical_sector drive f =
     ucast (cylinder f drive) * heads (media f drive) * sectors_per_track (media f drive) +
     ucast (head f drive) * sectors_per_track (media f drive) + (ucast (sector f drive) - 1)"

definition floppy_xfer_from :: "nat \<Rightarrow> 32 word \<Rightarrow> fd \<Rightarrow> fd" where
  "floppy_xfer_from drive offset f0 =
     (let f = panic_if (device_type f0 drive = 0) ''floppy_xfer: bad drive'' f0 in
      f\<lparr>floppy_buffer := (\<lambda>i. if i < 512 then image f drive (unat offset + i) else floppy_buffer f i)\<rparr>)"

definition floppy_xfer_to :: "nat \<Rightarrow> 32 word \<Rightarrow> fd \<Rightarrow> fd" where
  "floppy_xfer_to drive offset f0 =
     (let f = panic_if (device_type f0 drive = 0) ''floppy_xfer: bad drive'' f0 in
      f\<lparr>image := (image f)(drive := (\<lambda>a. if unat offset \<le> a \<and> a < unat offset + 512
                                         then floppy_buffer f (a - unat offset) else image f drive a))\<rparr>)"

definition sector_time :: "nat \<Rightarrow> fd \<Rightarrow> 32 word" where
  "sector_time drive f = 200000 div sectors_per_track (media f drive)"

definition increment_sector :: "fd \<Rightarrow> fd" where
  "increment_sector f0 =
     (let drive = fd_drive f0; f = f0\<lparr>sector := (sector f0)(drive := sector f0 drive + 1)\<rparr> in
      if sector f drive > eot f drive \<or> ucast (sector f drive) > sectors_per_track (media f drive) then
        (let f1 = f\<lparr>sector := (sector f)(drive := 1)\<rparr>;
             next_cylinder = (\<lambda>g. reset_changeline (g\<lparr>cylinder := (cylinder g)(drive := cylinder g drive + 1)\<rparr>));
             f2 = (if multi_track f1 then
                     (let g = f1\<lparr>head := (head f1)(drive := head f1 drive + 1)\<rparr> in
                      if head g drive > 1 then next_cylinder (g\<lparr>head := (head g)(drive := 0)\<rparr>) else g)
                   else next_cylinder f1)
         in if ucast (cylinder f2 drive) \<ge> tracks (media f2 drive)
            then f2\<lparr>cylinder := (cylinder f2)(drive := ucast (tracks (media f2 drive)))\<rparr> else f2)
      else f)"

text \<open>\<^verbatim>\<open>get_tc\<close>: \<open>tc\<close> is the line from the DMA controller.\<close>

definition fd_get_tc :: "bool \<Rightarrow> fd \<Rightarrow> bool" where
  "fd_get_tc tc f =
     (if NDMA f then
        (let drive = fd_drive f in
         floppy_buffer_index f = 512 \<and> sector f drive = eot f drive \<and> ucast (head f drive) = heads (media f drive) - 1)
      else tc)"

definition good_status :: "nat \<Rightarrow> fd \<Rightarrow> fd" where
  "good_status drive f =
     f\<lparr>status_reg0 := push_bit 2 (head f drive) OR drive_bits drive, status_reg1 := 0, status_reg2 := 0\<rparr>"

text \<open>The handlers the controller gives to the DMA controller: \<^verbatim>\<open>dma_write\<close> is a byte from the floppy to
  memory, \<^verbatim>\<open>dma_read\<close> one from memory to the floppy.\<close>

definition fd_dma_write :: "bool \<Rightarrow> fd \<Rightarrow> byte \<times> fd" where
  "fd_dma_write tc f0 =
     (let drive = fd_drive f0;
          byte = floppy_buffer f0 (floppy_buffer_index f0);
          f1 = f0\<lparr>floppy_buffer_index := floppy_buffer_index f0 + 1\<rparr>;
          f2 = f1\<lparr>FTC := fd_get_tc tc f1\<rparr>;
          f3 = (if floppy_buffer_index f2 \<ge> 512 then (increment_sector f2)\<lparr>floppy_buffer_index := 0\<rparr> else f2)
      in (byte,
          if floppy_buffer_index f2 \<ge> 512 \<or> FTC f2 then
            (if FTC f3 then enter_result_phase (drop_drq (good_status drive f3))
             else request (Start_timer (sector_time drive f3))
                    (drop_drq (floppy_xfer_from drive (logical_sector drive f3 * 512) f3)))
          else f2))"

definition fd_dma_format :: "byte \<Rightarrow> fd \<Rightarrow> fd" where
  "fd_dma_format v f0 =
     (let drive = fd_drive f0; f = f0\<lparr>format_count := format_count f0 - 1\<rparr>; field = 3 - (format_count f AND 0x03) in
      if field = 0 then f\<lparr>cylinder := (cylinder f)(drive := v)\<rparr>
      else if field = 1 then f
      else if field = 2 then f\<lparr>sector := (sector f)(drive := v)\<rparr>
      else
        (let f1 = f\<lparr>floppy_buffer := (\<lambda>i. if i < 512 then format_fillbyte f else floppy_buffer f i)\<rparr>;
             f2 = floppy_xfer_to drive (logical_sector drive f1 * 512) f1
         in request (Start_timer (sector_time drive f2)) (drop_drq f2)))"

definition fd_dma_read :: "bool \<Rightarrow> byte \<Rightarrow> fd \<Rightarrow> fd" where
  "fd_dma_read tc v f0 =
     (let drive = fd_drive f0 in
      if pending_command f0 = 0x4D then fd_dma_format v f0
      else
        (let f1 = f0\<lparr>floppy_buffer := (floppy_buffer f0)(floppy_buffer_index f0 := v),
                     floppy_buffer_index := floppy_buffer_index f0 + 1\<rparr>;
             f2 = f1\<lparr>FTC := fd_get_tc tc f1\<rparr>
         in if floppy_buffer_index f2 \<ge> 512 \<or> FTC f2 then
              (if write_protected (media f2 drive) then
                 enter_result_phase (f2\<lparr>status_reg0 := 0x40 OR push_bit 2 (head f2 drive) OR drive_bits drive,
                                       status_reg1 := 0x27, status_reg2 := 0x31\<rparr>)
               else
                 (let f3 = floppy_xfer_to drive (logical_sector drive f2 * 512) f2;
                      f4 = (increment_sector f3)\<lparr>floppy_buffer_index := 0\<rparr>;
                      f5 = request (Start_timer (sector_time drive f4)) (drop_drq f4)
                  in if NDMA f5 \<and> FTC f5 then enter_result_phase f5 else f5))
            else f2))"

subsection \<open>Commands\<close>

definition select_drive :: "nat \<Rightarrow> fd \<Rightarrow> fd" where
  "select_drive drive f = f\<lparr>DOR := (DOR f AND 0xFC) OR drive_bits drive\<rparr>"

definition motor_on :: "nat \<Rightarrow> fd \<Rightarrow> bool" where
  "motor_on drive f \<longleftrightarrow> drop_bit (drive + 4) (DOR f) AND 0x01 \<noteq> 0"

definition busy :: "fd \<Rightarrow> fd" where
  "busy f = set_msr FD_MS_NDMA FD_MS_BUSY f"

definition abnormal :: "nat \<Rightarrow> byte \<Rightarrow> byte \<Rightarrow> fd \<Rightarrow> fd" where
  "abnormal drive st1 st2 f =
     enter_result_phase (f\<lparr>status_reg0 := 0x40 OR push_bit 2 (head f drive) OR drive_bits drive,
                           status_reg1 := st1, status_reg2 := st2\<rparr>)"

definition set_position :: "nat \<Rightarrow> byte \<Rightarrow> byte \<Rightarrow> byte \<Rightarrow> fd \<Rightarrow> fd" where
  "set_position drive cyl hd1 sec f =
     f\<lparr>cylinder := (cylinder f)(drive := cyl), head := (head f)(drive := hd1), sector := (sector f)(drive := sec)\<rparr>"

definition command_head :: "nat \<Rightarrow> fd \<Rightarrow> fd" where
  "command_head drive f = f\<lparr>head := (head f)(drive := drop_bit 2 (command f 1) AND 0x01)\<rparr>"

definition cmd_specify :: "fd \<Rightarrow> fd" where
  "cmd_specify f =
     enter_idle_phase (set_msr 0xFF (if command f 2 AND 0x01 \<noteq> 0 then FD_MS_NDMA else 0)
       (f\<lparr>SRT := drop_bit 4 (command f 1), HUT := command f 1 AND 0x0F, HLT := drop_bit 1 (command f 2)\<rparr>))"

definition cmd_get_status :: "fd \<Rightarrow> fd" where
  "cmd_get_status f0 =
     (let drive = unat (command f0 1 AND 0x03); f = command_head drive f0;
          st3 = 0x28 OR push_bit 2 (head f drive) OR drive_bits drive OR
                (if write_protected (media f drive) then 0x40 else 0)
      in enter_result_phase (f\<lparr>status_reg3 :=
           (if device_type f drive \<noteq> 0 \<and> cylinder f drive = 0 then st3 OR 0x10 else st3)\<rparr>))"

definition start_seek :: "nat \<Rightarrow> byte \<Rightarrow> fd \<Rightarrow> fd" where
  "start_seek drive cyl f =
     (let (delay, f1) = calculate_step_delay drive cyl f; f2 = request (Start_timer delay) f1 in
      set_msr FD_MS_NDMA (push_bit drive 1) (f2\<lparr>cylinder := (cylinder f2)(drive := cyl)\<rparr>))"

definition cmd_recalibrate :: "fd \<Rightarrow> fd" where
  "cmd_recalibrate f = (let drive = unat (command f 1 AND 0x03) in start_seek drive 0 (select_drive drive f))"

definition cmd_seek :: "fd \<Rightarrow> fd" where
  "cmd_seek f =
     (let drive = unat (command f 1 AND 0x03) in
      start_seek drive (command f 2) (command_head drive (select_drive drive f)))"

definition cmd_sense_interrupt :: "fd \<Rightarrow> fd" where
  "cmd_sense_interrupt f =
     enter_result_phase
       (if reset_sensei f > 0 then
          (let drive = 4 - reset_sensei f in
           f\<lparr>status_reg0 := (status_reg0 f AND 0xF8) OR (push_bit 2 (head f (unat drive)) OR drive),
             reset_sensei := reset_sensei f - 1\<rparr>)
        else if \<not> pending_irq f then f\<lparr>status_reg0 := 0x80\<rparr> else f)"

definition cmd_configure :: "fd \<Rightarrow> fd" where
  "cmd_configure f = enter_idle_phase (f\<lparr>config := command f 2, pretrk := command f 3\<rparr>)"

definition cmd_read_id :: "fd \<Rightarrow> fd" where
  "cmd_read_id f0 =
     (let drive = unat (command f0 1 AND 0x03); f = select_drive drive (command_head drive f0) in
      if \<not> motor_on drive f \<or> device_type f drive = 0 \<or> \<not> media_present f drive then busy f
      else busy (request (Start_timer (sector_time drive f))
             (f\<lparr>status_reg0 := push_bit 2 (head f drive) OR drive_bits drive\<rparr>)))"

definition cmd_format :: "fd \<Rightarrow> fd" where
  "cmd_format f0 =
     (let drive = unat (command f0 1 AND 0x03); f1 = select_drive drive f0;
          f2 = (command_head drive (panic_if (\<not> motor_on drive f1) ''format track: motor not on'' f1))
                 \<lparr>format_count := command f0 3, format_fillbyte := command f0 5\<rparr>;
          f3 = panic_if (device_type f2 drive = 0) ''format track: bad drive'' f2;
          f4 = panic_if (command f0 2 \<noteq> 0x02) ''format track: sector size'' f3;
          f5 = panic_if (ucast (format_count f4) \<noteq> sectors_per_track (media f4 drive)) ''format track: sectors/track'' f4
      in if \<not> media_present f5 drive then f5
         else if write_protected (media f5 drive) then abnormal drive 0x27 0x31 f5
         else busy (raise_drq (f5\<lparr>format_count := push_bit 2 (format_count f5)\<rparr>)))"

text \<open>The execution of a read or write once the parameters are accepted.\<close>

definition rw_start :: "nat \<Rightarrow> fd \<Rightarrow> fd" where
  "rw_start drive f =
     (if command f 0 AND 0x4F = 0x46 then
        (let f1 = busy (floppy_xfer_from drive (logical_sector drive f * 512) f);
             f2 = (if NDMA f1 then set_msr 0xFF (FD_MS_MRQ OR FD_MS_DIO) f1 else f1)
         in request (Start_timer (sector_time drive f2)) f2)
      else if command f 0 AND 0x7F = 0x45 then
        (let f1 = busy f in if NDMA f1 then set_msr 0xFF FD_MS_MRQ f1 else request (Set_drq True) f1)
      else fd_panic ''unknown read/write command'' f)"

definition rw_accept :: "nat \<Rightarrow> fd \<Rightarrow> fd" where
  "rw_accept drive f0 =
     (let cyl = command f0 2; m = media f0 drive; eot0 = command f0 6;
          f1 = (if cyl \<noteq> cylinder f0 drive then reset_changeline f0 else f0);
          f2 = set_position drive cyl (command f0 3 AND 0x01) (command f0 4) f1;
          f3 = panic_if (logical_sector drive f2 \<ge> sectors m) ''logical sector out of bounds'' f2
      in rw_start drive
           (f3\<lparr>eot := (eot f3)(drive := (if eot0 = 0 then ucast (sectors_per_track m) else eot0))\<rparr>))"

definition rw_check :: "nat \<Rightarrow> fd \<Rightarrow> fd" where
  "rw_check drive f =
     (if command f 3 AND 0x01 \<noteq> drop_bit 2 (command f 1) AND 1 then abnormal drive 0x04 0x00 f
      else if \<not> media_present f drive then f
      else
        (let f1 = panic_if (command f 5 \<noteq> 0x02) ''read/write: sector size'' f; m = media f1 drive in
         if ucast (command f1 2) \<ge> tracks m then fd_panic ''norm r/w parms out of range'' f1
         else if ucast (command f1 4) > sectors_per_track m then
           abnormal drive 0x04 0x00 (set_position drive (command f1 2) (command f1 3 AND 0x01) (command f1 4) f1)
         else rw_accept drive f1))"

definition cmd_read_write :: "fd \<Rightarrow> fd" where
  "cmd_read_write f0 =
     (let drive = unat (command f0 1 AND 0x03);
          f1 = f0\<lparr>multi_track := bit (command f0 0) 7\<rparr>;
          f2 = select_drive drive (panic_if (DOR f1 AND 0x08 = 0) ''read/write with DMA and int disabled'' f1);
          f3 = panic_if (\<not> motor_on drive f2) ''read/write: motor not on'' f2
      in rw_check drive (panic_if (device_type f3 drive = 0) ''read/write: bad drive'' f3))"

definition floppy_command :: "fd \<Rightarrow> fd" where
  "floppy_command f0 =
     (let f = f0\<lparr>pending_command := command f0 0\<rparr>; c = pending_command f in
      if c = 0x03 then cmd_specify f
      else if c = 0x04 then cmd_get_status f
      else if c = 0x07 then cmd_recalibrate f
      else if c = 0x08 then cmd_sense_interrupt f
      else if c = 0x0F then cmd_seek f
      else if c = 0x13 then cmd_configure f
      else if c = 0x4A then cmd_read_id f
      else if c = 0x4D then cmd_format f
      else if is_read c \<or> is_write c then cmd_read_write f
      else if c = 0x12 then enter_idle_phase (f\<lparr>perp_mode := command f 1\<rparr>)
      else fd_panic ''You should never get here!'' f)"

subsection \<open>Ports and timer\<close>

text \<open>The first byte of a command: its length, or the result at once.\<close>

definition command_length :: "byte \<Rightarrow> byte option" where
  "command_length v =
     (if v \<in> {0x03, 0x0F} then Some 3
      else if v \<in> {0x04, 0x07, 0x4A, 0x12} then Some 2
      else if v = 0x08 then Some 1
      else if v = 0x4D then Some 6
      else if is_write v \<or> is_read v then Some 9
      else if v = 0x13 then Some 4
      else None)"

definition first_byte :: "byte \<Rightarrow> fd \<Rightarrow> fd" where
  "first_byte v f0 =
     (let f1 = panic_if (pending_command f0 \<noteq> 0) ''receiving new command, old one pending'' f0;
          f = set_msr (NOT FD_MS_DIO) (FD_MS_MRQ OR FD_MS_BUSY)
                (f1\<lparr>command := (command f1)(0 := v), command_complete := False, command_index := 1\<rparr>)
      in case command_length v of
           Some n \<Rightarrow> f\<lparr>command_size := n\<rparr>
         | None \<Rightarrow>
             if v \<in> {0x0E, 0x10, 0x14, 0x94} then enter_result_phase (f\<lparr>command_size := 0, pending_command := v\<rparr>)
             else enter_result_phase (f\<lparr>command_size := 0, status_reg0 := 0x80\<rparr>))"

definition data_write :: "bool \<Rightarrow> byte \<Rightarrow> fd \<Rightarrow> fd" where
  "data_write tc v f =
     (if NDMA f \<and> pending_command f AND 0x4F = 0x45 then lower_interrupt (fd_dma_read tc v f)
      else
        (let f1 = (if command_complete f then first_byte v f
                   else f\<lparr>command := (command f)(unat (command_index f) := v), command_index := command_index f + 1\<rparr>)
         in if command_index f1 = command_size f1 then (floppy_command f1)\<lparr>command_complete := True\<rparr> else f1))"

definition data_read :: "bool \<Rightarrow> fd \<Rightarrow> byte \<times> fd" where
  "data_read tc f =
     (if NDMA f \<and> pending_command f AND 0x4F = 0x46 then
        (let (v, f1) = fd_dma_write tc f; f2 = lower_interrupt f1 in (v, if FTC f2 then enter_idle_phase f2 else f2))
      else if result_size f = 0 then (result f 0, set_msr FD_MS_NDMA 0 f)
      else
        (let v = result f (unat (result_index f));
             f1 = lower_interrupt (set_msr 0xF0 0 (f\<lparr>result_index := result_index f + 1\<rparr>))
         in (v, if result_index f1 \<ge> result_size f1 then enter_idle_phase f1 else f1)))"

text \<open>The other ports; \<open>hd1\<close> is what the hard disk controller answers on the shared ports.\<close>

fun tape_drive_register :: "media_kind \<Rightarrow> byte" where
  "tape_drive_register FLOPPY_720K = 0xC0"
| "tape_drive_register FLOPPY_1_44 = 0x80"
| "tape_drive_register FLOPPY_2_88 = 0x40"
| "tape_drive_register FLOPPY_NONE = 0x20"
| "tape_drive_register _ = 0x00"

definition fd_read :: "bool \<Rightarrow> byte \<Rightarrow> nat \<Rightarrow> fd \<Rightarrow> byte \<times> fd" where
  "fd_read tc hd1 address f =
     (if address = 0x3F2 then (DOR f, f)
      else if address = 0x3F4 then (main_status_reg f, f)
      else if address = 0x3F5 then data_read tc f
      else if address = 0x3F3 then
        (let drive = fd_drive f in
         (if media_present f drive then tape_drive_register (media_kind (media f drive)) else 0x20, f))
      else if address = 0x3F6 then (hd1, f)
      else if address = 0x3F7 then
        (let drive = fd_drive f; v = hd1 AND 0x7F in
         (if DOR f AND push_bit (drive + 4) 1 \<noteq> 0 then v OR (DIR f drive AND 0x80) else v, f))
      else (0, f))"

definition fd_write :: "bool \<Rightarrow> nat \<Rightarrow> byte \<Rightarrow> fd \<Rightarrow> fd" where
  "fd_write tc address v f =
     (if address = 0x3F2 then
        (let prev = DOR f AND 0x04; normal = v AND 0x04; f1 = f\<lparr>DOR := v\<rparr> in
         if prev = 0 \<and> normal \<noteq> 0 then request (Start_timer 250) f1
         else if prev \<noteq> 0 \<and> normal = 0 then (set_msr FD_MS_NDMA 0 f1)\<lparr>pending_command := 0xFE\<rparr>
         else f1)
      else if address = 0x3F4 then
        (let f1 = f\<lparr>data_rate := v AND 0x03\<rparr> in
         if v AND 0x80 \<noteq> 0 then request (Start_timer 250) ((set_msr FD_MS_NDMA 0 f1)\<lparr>pending_command := 0xFE\<rparr>) else f1)
      else if address = 0x3F5 then data_write tc v f
      else if address = 0x3F7 then f\<lparr>data_rate := v AND 0x03\<rparr>
      else f)"

text \<open>\<^verbatim>\<open>init\<close>: \<open>devtype\<close> is the configured type of the drives 0 and 1, 0 for none, \<open>inserted\<close> the
  medium the host finds for them. \<open>floppy_equipment\<close> gives the CMOS registers 0x10 and 0x14, the second from its old
  value.\<close>

definition fd_init :: "(nat \<Rightarrow> nat) \<Rightarrow> (nat \<Rightarrow> fd_media option) \<Rightarrow> fd \<Rightarrow> fd" where
  "fd_init devtype inserted f =
     f\<lparr>media := (\<lambda>i. if i < 2 \<and> inserted i \<noteq> None then the (inserted i)
                  else if i < 4 then (media f i)\<lparr>media_kind := FLOPPY_NONE, sectors_per_track := 0, tracks := 0,
                                                  heads := 0, sectors := 0\<rparr>
                  else media f i),
       media_present := (\<lambda>i. if i < 4 then i < 2 \<and> inserted i \<noteq> None else media_present f i),
       device_type := (\<lambda>i. if i < 2 \<and> devtype i \<noteq> 0 then push_bit (devtype i - 1) 1
                        else if i < 4 then 0 else device_type f i),
       main_status_reg := main_status_reg f AND NOT FD_MS_NDMA, SRT := 0, HUT := 0, HLT := 0\<rparr>"

definition floppy_equipment :: "(nat \<Rightarrow> nat) \<Rightarrow> byte \<Rightarrow> byte \<times> byte" where
  "floppy_equipment devtype old =
     (let num = (if devtype 0 \<noteq> 0 then 1 else 0) + (if devtype 1 \<noteq> 0 then 1 else 0) :: nat in
      (push_bit 4 (word_of_nat (devtype 0)) OR word_of_nat (devtype 1),
       if num > 0 then (old AND 0x3E) OR push_bit 6 (word_of_nat (num - 1)) OR 1 else old AND 0x3E))"

definition fd_reset :: "bool \<Rightarrow> fd \<Rightarrow> fd" where
  "fd_reset hardware f0 =
     (let f1 = f0\<lparr>pending_irq := False, reset_sensei := 0, main_status_reg := 0, status_reg0 := 0, status_reg1 := 0,
                 status_reg2 := 0, status_reg3 := 0\<rparr>;
          f2 = (if hardware then f1\<lparr>DOR := 0x0C, DIR := (\<lambda>i. if i < 4 then DIR f1 i OR 0x80 else DIR f1 i),
                                   data_rate := 2, fd_lock := 0\<rparr> else f1);
          f3 = (if fd_lock f2 = 0 then f2\<lparr>config := 0, pretrk := 0\<rparr> else f2);
          f4 = f3\<lparr>perp_mode := 0, cylinder := \<lambda>_. 0, head := \<lambda>_. 0, sector := \<lambda>_. 0, eot := \<lambda>_. 0, irq6 := False\<rparr>
      in enter_idle_phase (drop_drq f4))"

definition fd_timer :: "fd \<Rightarrow> fd" where
  "fd_timer f =
     (let drive = fd_drive f; c = pending_command f in
      if c = 0x07 then
        (let st = 0x20 OR drive_bits drive;
             bad = (device_type f drive = 0 \<or> \<not> motor_on drive f)
         in raise_interrupt (enter_idle_phase (f\<lparr>status_reg0 := (if bad then st OR 0x50 else st)\<rparr>)))
      else if c = 0x0F then
        raise_interrupt (enter_idle_phase (f\<lparr>status_reg0 := 0x20 OR push_bit 2 (head f drive) OR drive_bits drive\<rparr>))
      else if c = 0x4A then enter_result_phase f
      else if is_write c then
        (if FTC f then enter_result_phase (good_status drive f) else raise_drq f)
      else if is_read c then
        (if NDMA f then set_msr (NOT FD_MS_BUSY) (FD_MS_MRQ OR FD_MS_DIO) f else request (Set_drq True) f)
      else if c = 0x4D then
        (if format_count f = 0 \<or> FTC f then
           enter_result_phase (f\<lparr>format_count := 0, status_reg0 := push_bit 2 (head f drive) OR drive_bits drive\<rparr>)
         else raise_drq f)
      else if c = 0xFE then
        (raise_interrupt ((fd_reset False f)\<lparr>pending_command := 0, status_reg0 := 0xC0\<rparr>))\<lparr>reset_sensei := 4\<rparr>
      else if c = 0x00 then f
      else fd_panic ''floppy:timer(): unknown case'' f)"

text \<open>\<^verbatim>\<open>set_media_status\<close>: \<open>inserted\<close> is what the host finds in the image file, if it can be opened.\<close>

definition set_media_status :: "nat \<Rightarrow> bool \<Rightarrow> media_kind \<Rightarrow> fd_media option \<Rightarrow> fd \<Rightarrow> bool \<times> fd" where
  "set_media_status drive status kind inserted f =
     (if status = media_present f drive \<and> (\<not> status \<or> kind = media_kind (media f drive)) then (status, f)
      else if \<not> status then
        (False, f\<lparr>media_present := (media_present f)(drive := False), DIR := (DIR f)(drive := DIR f drive OR 0x80)\<rparr>)
      else
        (case inserted of
           Some m \<Rightarrow> (True, f\<lparr>media := (media f)(drive := m), media_present := (media_present f)(drive := True)\<rparr>)
         | None \<Rightarrow> (False, f\<lparr>media_present := (media_present f)(drive := False)\<rparr>)))"

text \<open>The handlers as the DMA controller sees them: the controller is the attached device, its requests go to the
  request line of channel 2; those to the timer are kept.\<close>

fun carry_out :: "fd_request \<Rightarrow> fd dma \<Rightarrow> fd dma" where
  "carry_out (Set_drq v) d = set_DRQ 2 v d"
| "carry_out (Start_timer t) d = d\<lparr>device := request (Start_timer t) (device d)\<rparr>"

definition with_device :: "(fd \<Rightarrow> fd) \<Rightarrow> fd dma \<Rightarrow> fd dma" where
  "with_device op d = (let f = op ((device d)\<lparr>requests := []\<rparr>) in
     fold carry_out (requests f) (d\<lparr>device := f\<lparr>requests := requests (device d)\<rparr>\<rparr>))"

definition floppy_dmaWrite8 :: "fd dma \<Rightarrow> byte \<times> fd dma" where
  "floppy_dmaWrite8 d =
     (fst (fd_dma_write (get_TC d) (device d)), with_device (\<lambda>f. snd (fd_dma_write (get_TC d) f)) d)"

definition floppy_dmaRead8 :: "byte \<Rightarrow> fd dma \<Rightarrow> fd dma" where
  "floppy_dmaRead8 v d = with_device (fd_dma_read (get_TC d) v) d"

definition floppy_handlers :: "fd dma_handlers" where
  "floppy_handlers =
     \<lparr>dmaRead8 = (\<lambda>c. if c = 2 then Some floppy_dmaRead8 else None),
      dmaWrite8 = (\<lambda>c. if c = 2 then Some floppy_dmaWrite8 else None),
      dmaRead16 = \<lambda>_. None, dmaWrite16 = \<lambda>_. None\<rparr>"

section \<open>The command phase\<close>

definition command_phase :: "byte list \<Rightarrow> fd \<Rightarrow> fd" where
  "command_phase bs = fold (data_write False) bs"

definition idle :: "fd \<Rightarrow> bool" where
  "idle f \<longleftrightarrow> command_complete f \<and> pending_command f = 0 \<and> \<not> NDMA f"

text \<open>The controller after \<open>k\<close> bytes of a command of \<open>n\<close> bytes.\<close>

definition collecting :: "fd \<Rightarrow> byte list \<Rightarrow> nat \<Rightarrow> fd" where
  "collecting f bs n =
     (set_msr (NOT FD_MS_DIO) (FD_MS_MRQ OR FD_MS_BUSY) f)
       \<lparr>command := (\<lambda>i. if i < length bs then bs ! i else command f i), command_complete := False,
        command_index := word_of_nat (length bs), command_size := word_of_nat n\<rparr>"

lemma msr_dma: "NDMA (set_msr k a f) \<longleftrightarrow> ((main_status_reg f AND k) OR a) AND FD_MS_NDMA \<noteq> 0"
  by (simp add: NDMA_def set_msr_def)

lemma NDMA_update [simp]:
  "NDMA (f\<lparr>command := x1\<rparr>) = NDMA f" "NDMA (f\<lparr>command_index := x2\<rparr>) = NDMA f" "NDMA (f\<lparr>command_size := x2\<rparr>) = NDMA f"
  "NDMA (f\<lparr>command_complete := x3\<rparr>) = NDMA f" "NDMA (f\<lparr>pending_command := x2\<rparr>) = NDMA f"
  "NDMA (f\<lparr>floppy_buffer_index := x4\<rparr>) = NDMA f" "NDMA (f\<lparr>FTC := x3\<rparr>) = NDMA f" "NDMA (f\<lparr>requests := x5\<rparr>) = NDMA f"
  "NDMA (f\<lparr>status_reg0 := x2\<rparr>) = NDMA f" "NDMA (f\<lparr>status_reg1 := x2\<rparr>) = NDMA f" "NDMA (f\<lparr>status_reg2 := x2\<rparr>) = NDMA f"
  "NDMA (f\<lparr>floppy_buffer := x6\<rparr>) = NDMA f" "NDMA (f\<lparr>sector := x6\<rparr>) = NDMA f" "NDMA (f\<lparr>head := x6\<rparr>) = NDMA f"
  "NDMA (f\<lparr>cylinder := x6\<rparr>) = NDMA f" "NDMA (f\<lparr>DIR := x6\<rparr>) = NDMA f" "NDMA (f\<lparr>eot := x6\<rparr>) = NDMA f"
  "NDMA (f\<lparr>multi_track := x3\<rparr>) = NDMA f" "NDMA (f\<lparr>DOR := x2\<rparr>) = NDMA f" "NDMA (f\<lparr>fd_panics := x7\<rparr>) = NDMA f"
  by (simp_all add: NDMA_def)

lemma NDMA_collecting: "NDMA (collecting f bs n) = NDMA f"
proof -
  have "((v AND NOT 0x40) OR (0x80 OR 0x10)) AND 0x20 = v AND (0x20 :: byte)" for v
    by (simp add: bit.conj_disj_distrib2 and.assoc)
  then show ?thesis by (simp add: collecting_def NDMA_def set_msr_def)
qed

lemma collect_first:
  assumes "idle f" and "command_length v = Some n" and "n \<noteq> 1"
  shows "data_write False v f = collecting f [v] (unat n)"
proof -
  have "(\<lambda>i. if i < length [v] then [v] ! i else command f i) = (command f)(0 := v)" by auto
  then show ?thesis
    using assms by (simp add: data_write_def idle_def first_byte_def panic_if_def collecting_def set_msr_def Let_def)
qed

lemma collect_next:
  assumes "\<not> NDMA f" and "Suc (length bs) < n" and "n \<le> 10"
  shows "data_write False v (collecting f bs n) = collecting f (bs @ [v]) n"
proof -
  have b: "length bs < 256" "Suc (length bs) < 256" "n < 256" using assms by auto
  have i: "unat (word_of_nat (length bs) :: byte) = length bs" using b(1) by (simp add: unat_of_nat)
  have ne: "(word_of_nat (length bs) :: byte) + 1 \<noteq> word_of_nat n"
  proof
    assume "(word_of_nat (length bs) :: byte) + 1 = word_of_nat n"
    then have "(word_of_nat (Suc (length bs)) :: byte) = word_of_nat n" by (simp add: add.commute)
    then have "unat (word_of_nat (Suc (length bs)) :: byte) = unat (word_of_nat n :: byte)" by simp
    then show False using b assms(2) by (simp only: unat_of_nat) simp
  qed
  have c: "(command (collecting f bs n))(length bs := v) = (\<lambda>i. if i < length (bs @ [v]) then (bs @ [v]) ! i else command f i)"
    by (auto simp: collecting_def nth_append)
  show ?thesis
    using assms(1) ne i unfolding data_write_def NDMA_collecting
    by (simp add: collecting_def Let_def set_msr_def) (use c in \<open>simp add: collecting_def\<close>)
qed

lemma collect_last:
  assumes "\<not> NDMA f" and "Suc (length bs) = n" and "n \<le> 10"
  shows "data_write False v (collecting f bs n) =
    (floppy_command (collecting f (bs @ [v]) n))\<lparr>command_complete := True\<rparr>"
proof -
  have i: "unat (word_of_nat (length bs) :: byte) = length bs" using assms by (simp add: unat_of_nat)
  have e: "(word_of_nat (length bs) :: byte) + 1 = word_of_nat n" using assms(2) by auto
  have c: "(command (collecting f bs n))(length bs := v) = (\<lambda>i. if i < length (bs @ [v]) then (bs @ [v]) ! i else command f i)"
    by (auto simp: collecting_def nth_append)
  have "collecting f bs n\<lparr>command := (command (collecting f bs n))(unat (command_index (collecting f bs n)) := v),
      command_index := command_index (collecting f bs n) + 1\<rparr> = collecting f (bs @ [v]) n"
    using c i e by (simp add: collecting_def set_msr_def add.commute)
  moreover have "\<not> command_complete (collecting f bs n)" "command_index (collecting f (bs @ [v]) n) = command_size (collecting f (bs @ [v]) n)"
    using assms(2) by (simp_all add: collecting_def)
  ultimately show ?thesis
    using assms(1) unfolding data_write_def NDMA_collecting by simp
qed

lemma collect_many:
  assumes "\<not> NDMA f" and "length bs + length vs < n" and "n \<le> 10"
  shows "fold (data_write False) vs (collecting f bs n) = collecting f (bs @ vs) n"
  using assms(2)
proof (induction vs arbitrary: bs)
  case (Cons v vs)
  then show ?case using collect_next [OF assms(1) _ assms(3), of bs v] by simp
qed simp

text \<open>The command phase: an idle controller that is written a command byte of length \<open>n\<close> and its \<open>n - 1\<close>
  parameters executes exactly that command, with those parameters, when the last byte arrives, and not
  before.\<close>

theorem command_phase_executes:
  assumes "idle f" and "command_length v = Some n" and "length bs + 1 = unat n" and "bs \<noteq> []"
  shows "command_phase (v # bs) f = (floppy_command (collecting f (v # bs) (unat n)))\<lparr>command_complete := True\<rparr> \<and>
    (\<forall>m<length bs. command_phase (v # take m bs) f = collecting f (v # take m bs) (unat n))"
proof -
  have n: "unat n \<le> 10" using assms(2) by (auto simp: command_length_def split: if_splits)
  have n1: "n \<noteq> 1" using assms(3,4) by auto
  have nd: "\<not> NDMA f" using assms(1) by (simp add: idle_def)
  have few: "command_phase (v # take m bs) f = collecting f (v # take m bs) (unat n)" if "m < length bs" for m
    using collect_first [OF assms(1,2) n1] collect_many [OF nd _ n, of "[v]" "take m bs"] that assms(3)
    by (simp add: command_phase_def)
  obtain vs w where bs: "bs = vs @ [w]" using assms(4) by (metis rev_exhaust)
  have "command_phase (v # vs) f = collecting f (v # vs) (unat n)" using few [of "length vs"] by (simp add: bs)
  then have "command_phase (v # bs) f = data_write False w (collecting f (v # vs) (unat n))"
    by (simp add: command_phase_def bs)
  also have "\<dots> = (floppy_command (collecting f ((v # vs) @ [w]) (unat n)))\<lparr>command_complete := True\<rparr>"
    using assms(3) by (intro collect_last [OF nd _ n]) (simp add: bs)
  finally show ?thesis using few by (simp add: bs)
qed

section \<open>Reading a sector\<close>

definition disk144 :: "fd_media \<Rightarrow> bool" where
  "disk144 m \<longleftrightarrow> sectors_per_track m = 18 \<and> heads m = 2 \<and> tracks m = 80 \<and> sectors m = 2880"

text \<open>An idle controller with a 1.44 MB disk in drive 0, its motor on.\<close>

definition disk_ready :: "fd \<Rightarrow> bool" where
  "disk_ready f \<longleftrightarrow> idle f \<and> floppy_buffer_index f = 0 \<and> disk144 (media f 0) \<and> media_present f 0 \<and>
     device_type f 0 \<noteq> 0 \<and> DOR f AND 0x08 \<noteq> 0 \<and> bit (DOR f) 4"

text \<open>The parameters of a read of one sector, as the BIOS writes them; \<open>e\<close>, \<open>g\<close> and \<open>l\<close> are end of
  track, gap and data length.\<close>

definition read_bytes :: "nat \<times> nat \<times> nat \<Rightarrow> byte \<Rightarrow> byte \<Rightarrow> byte \<Rightarrow> byte list" where
  "read_bytes = (\<lambda>(t, h, sc) e g l.
     [word_of_nat (4 * h), word_of_nat t, word_of_nat h, word_of_nat sc, 2, e, g, l])"

lemma head_param:
  assumes "h < 2"
  shows "(word_of_nat (4 * h) :: byte) AND 3 = 0" "(word_of_nat h :: byte) AND 1 = word_of_nat h"
    "drop_bit 2 (word_of_nat (4 * h) :: byte) AND 1 = word_of_nat h"
proof -
  have "h = 0 \<or> h = 1" using assms by linarith
  then show "(word_of_nat (4 * h) :: byte) AND 3 = 0" "(word_of_nat h :: byte) AND 1 = word_of_nat h"
    "drop_bit 2 (word_of_nat (4 * h) :: byte) AND 1 = word_of_nat h" by auto
qed

lemma chs_bounds:
  assumes "n < 2880" and "chs n = (t, h, sc)"
  shows "t < 80" "h < 2" "1 \<le> sc" "sc \<le> 18" "n = t * 36 + h * 18 + (sc - 1)"
proof -
  show "t < 80" "h < 2" "1 \<le> sc" "sc \<le> 18" using assms by (auto simp: chs_def)
  have "n = n div 36 * 36 + n mod 36" by simp
  moreover have "n mod 36 = n div 18 mod 2 * 18 + n mod 18" by (simp add: mod_mult2_eq [of n 18 2, simplified])
  ultimately show "n = t * 36 + h * 18 + (sc - 1)" using assms(2) by (auto simp: chs_def)
qed

lemma chs_words:
  assumes "n < 2880" and "chs n = (t, h, sc)"
  shows "ucast (word_of_nat t :: byte) * 2 * 18 + ucast (word_of_nat h :: byte) * 18 + (ucast (word_of_nat sc :: byte) - 1)
      = (word_of_nat n :: 32 word)"
    and "(ucast (word_of_nat t :: byte) :: 32 word) < 80" and "(ucast (word_of_nat sc :: byte) :: 32 word) \<le> 18"
    and "unat ((word_of_nat n :: 32 word) * 512) = n * 512"
proof -
  note b = chs_bounds [OF assms]
  have u: "ucast (word_of_nat k :: byte) = (word_of_nat k :: 32 word)" if "k < 256" for k
    using that by (intro word_unat_eq_iff [THEN iffD2]) (simp add: unsigned_ucast_eq unat_of_nat take_bit_eq_mod)
  have ut: "ucast (word_of_nat t :: byte) = (word_of_nat t :: 32 word)" "ucast (word_of_nat h :: byte) = (word_of_nat h :: 32 word)"
    "ucast (word_of_nat sc :: byte) = (word_of_nat sc :: 32 word)"
    using b by (intro u; linarith)+
  obtain k where k: "sc = Suc k" using b(3) by (cases sc) auto
  have s1: "(word_of_nat sc :: 32 word) - 1 = word_of_nat (sc - 1)" by (simp add: k)
  have "(word_of_nat t :: 32 word) * 2 * 18 + word_of_nat h * 18 + word_of_nat (sc - 1) = word_of_nat (t * 2 * 18 + h * 18 + (sc - 1))"
    by (simp only: of_nat_add of_nat_mult of_nat_numeral)
  also have "t * 2 * 18 + h * 18 + (sc - 1) = n" using b(5) by simp
  finally show "ucast (word_of_nat t :: byte) * 2 * 18 + ucast (word_of_nat h :: byte) * 18 + (ucast (word_of_nat sc :: byte) - 1)
      = (word_of_nat n :: 32 word)"
    unfolding ut s1 .
  show "(ucast (word_of_nat t :: byte) :: 32 word) < 80" "(ucast (word_of_nat sc :: byte) :: 32 word) \<le> 18"
    unfolding ut using b by (simp_all add: word_less_nat_alt word_le_nat_alt unat_of_nat)
  have e: "(word_of_nat n :: 32 word) * 512 = word_of_nat (n * 512)" by (simp only: of_nat_mult of_nat_numeral)
  have "n * 512 < 2 ^ LENGTH(32)" using assms(1) by simp
  then show "unat ((word_of_nat n :: 32 word) * 512) = n * 512" unfolding e by (simp only: unat_of_nat mod_less)
qed

text \<open>What a read command leaves until the timer expires.\<close>

definition sector_loaded :: "nat \<Rightarrow> fd \<Rightarrow> fd \<Rightarrow> bool" where
  "sector_loaded n f f1 \<longleftrightarrow>
     (\<forall>i<512. floppy_buffer f1 i = image f 0 (n * 512 + i)) \<and> image f1 = image f \<and>
     floppy_buffer_index f1 = 0 \<and> pending_command f1 = 0xE6 \<and> \<not> NDMA f1 \<and> fd_drive f1 = 0 \<and>
     requests f1 = requests f @ [Start_timer (200000 div 18)] \<and> fd_panics f1 = fd_panics f \<and> irq6 f1 = irq6 f"

lemma select_zero: "((v AND 0xFC) OR drive_bits 0) AND 0x03 = (0 :: byte)"
  by (simp add: drive_bits_def and.assoc)

lemma motor_zero: "motor_on 0 (select_drive 0 f) = bit (DOR f) 4"
proof -
  have "drop_bit 4 ((v AND 0xFC) OR 0) AND 1 = (if bit v 4 then 1 else 0 :: byte)" for v
    by (rule bit_word_eqI) (auto simp: bit_simps intro: gr0I)
  then show ?thesis by (simp add: motor_on_def select_drive_def drive_bits_def)
qed

lemma reset_changeline_simps [simp]:
  "media (reset_changeline f) = media f" "media_present (reset_changeline f) = media_present f"
  "device_type (reset_changeline f) = device_type f" "image (reset_changeline f) = image f"
  "command (reset_changeline f) = command f" "DOR (reset_changeline f) = DOR f" "NDMA (reset_changeline f) = NDMA f"
  "floppy_buffer_index (reset_changeline f) = floppy_buffer_index f" "requests (reset_changeline f) = requests f"
  "fd_panics (reset_changeline f) = fd_panics f" "irq6 (reset_changeline f) = irq6 f"
  "pending_command (reset_changeline f) = pending_command f" "floppy_buffer (reset_changeline f) = floppy_buffer f"
  "cylinder (reset_changeline f) = cylinder f" "head (reset_changeline f) = head f" "sector (reset_changeline f) = sector f"
  "eot (reset_changeline f) = eot f" "multi_track (reset_changeline f) = multi_track f" "FTC (reset_changeline f) = FTC f"
  "main_status_reg (reset_changeline f) = main_status_reg f"
  by (simp_all add: reset_changeline_def NDMA_def)

lemma select_drive_simps [simp]:
  "media (select_drive d f) = media f" "media_present (select_drive d f) = media_present f"
  "device_type (select_drive d f) = device_type f" "command (select_drive d f) = command f"
  "cylinder (select_drive d f) = cylinder f"
  by (simp_all add: select_drive_def)

text \<open>The parameters of a command that is accepted, for drive 0.\<close>

definition accepted :: "fd \<Rightarrow> bool" where
  "accepted g \<longleftrightarrow> command g 1 AND 0x03 = 0 \<and> command g 3 AND 0x01 = drop_bit 2 (command g 1) AND 1 \<and> command g 5 = 2 \<and>
     DOR g AND 0x08 \<noteq> 0 \<and> bit (DOR g) 4 \<and> device_type g 0 \<noteq> 0 \<and> media_present g 0 \<and>
     ucast (command g 2) < tracks (media g 0) \<and> ucast (command g 4) \<le> sectors_per_track (media g 0) \<and>
     ucast (command g 2) * heads (media g 0) * sectors_per_track (media g 0) +
       ucast (command g 3 AND 0x01) * sectors_per_track (media g 0) + (ucast (command g 4) - 1) < sectors (media g 0)"

lemma accepted_starts:
  assumes "accepted g"
  shows "\<exists>g'. cmd_read_write g = rw_start 0 g' \<and> media g' = media g \<and> image g' = image g \<and> command g' = command g \<and>
    DOR g' = (DOR g AND 0xFC) OR drive_bits 0 \<and> NDMA g' = NDMA g \<and> floppy_buffer_index g' = floppy_buffer_index g \<and>
    requests g' = requests g \<and> fd_panics g' = fd_panics g \<and> irq6 g' = irq6 g \<and> pending_command g' = pending_command g \<and>
    cylinder g' 0 = command g 2 \<and> head g' 0 = (command g 3 AND 0x01) \<and> sector g' 0 = command g 4 \<and>
    device_type g' = device_type g \<and> main_status_reg g' = main_status_reg g"
proof -
  let ?g1 = "select_drive 0 (g\<lparr>multi_track := bit (command g 0) 7\<rparr>)"
  let ?g2 = "if command g 2 \<noteq> cylinder g 0 then reset_changeline ?g1 else ?g1"
  let ?g3 = "set_position 0 (command g 2) (command g 3 AND 0x01) (command g 4) ?g2"
  let ?g' = "?g3\<lparr>eot := (eot ?g3)(0 := (if command g 6 = 0 then ucast (sectors_per_track (media g 0)) else command g 6))\<rparr>"
  have m: "motor_on 0 ?g1"
    using assms motor_zero [of "g\<lparr>multi_track := bit (command g 0) 7\<rparr>"] by (simp add: accepted_def)
  have f: "media ?g3 = media g" "eot ?g3 = eot ?g2" "cylinder ?g3 0 = command g 2" "head ?g3 0 = (command g 3 AND 0x01)"
    "sector ?g3 0 = command g 4"
    by (simp_all add: set_position_def select_drive_def)
  have l: "logical_sector 0 ?g3 < sectors (media g 0)"
    using assms unfolding logical_sector_def f accepted_def by blast
  have a: "unat (command g 1 AND 0x03) = 0" "\<not> DOR g AND 0x08 = 0" "command g 3 AND 0x01 = drop_bit 2 (command g 1) AND 1"
    "media_present g 0" "command g 5 = 2" "device_type g 0 \<noteq> 0" "\<not> tracks (media g 0) \<le> ucast (command g 2)"
    "\<not> sectors_per_track (media g 0) < ucast (command g 4)"
    using assms by (auto simp: accepted_def not_le not_less)
  have "cmd_read_write g = rw_check 0 ?g1"
    using a(2,6) m by (simp add: cmd_read_write_def Let_def a(1) [simplified] panic_if_def)
  also have "\<dots> = rw_accept 0 ?g1"
    using a(3-8) by (simp add: rw_check_def Let_def panic_if_def)
  also have "\<dots> = rw_start 0 ?g'"
    using l by (simp add: rw_accept_def Let_def panic_if_def not_le [symmetric])
  finally have "cmd_read_write g = rw_start 0 ?g'" .
  then show ?thesis
    by (intro exI [of _ ?g'] conjI) (simp_all add: set_position_def select_drive_def NDMA_def)
qed

lemma read_command_loads:
  fixes e g l :: byte
  assumes r: "disk_ready f" and n: "n < 2880" "chs n = (t, h, sc)"
  defines "f1 \<equiv> command_phase (0xE6 # read_bytes (t, h, sc) e g l) f"
  shows "sector_loaded n f f1" and "head f1 0 = word_of_nat h" and "media f1 = media f"
proof -
  note b = chs_bounds [OF n] and w = chs_words [OF n] and hp = head_param [OF chs_bounds(2) [OF n]]
  let ?bs = "0xE6 # read_bytes (t, h, sc) e g l"
  let ?g = "(collecting f ?bs 9)\<lparr>pending_command := 0xE6\<rparr>"
  have i: "idle f" "\<not> NDMA f" using r by (simp_all add: disk_ready_def idle_def)
  have len: "command_length 0xE6 = Some (9 :: byte)" by (simp add: command_length_def is_read_def is_write_def)
  have "f1 = (floppy_command (collecting f ?bs 9))\<lparr>command_complete := True\<rparr>"
    using command_phase_executes [OF i(1) len, of "read_bytes (t, h, sc) e g l"]
    by (simp add: f1_def read_bytes_def)
  moreover have c: "command ?g 0 = 0xE6" "command ?g 1 = word_of_nat (4 * h)" "command ?g 2 = word_of_nat t"
    "command ?g 3 = word_of_nat h" "command ?g 4 = word_of_nat sc" "command ?g 5 = 2"
    by (simp_all add: collecting_def read_bytes_def numeral_eq_Suc)
  have "floppy_command (collecting f ?bs 9) = cmd_read_write ?g"
    using c(1) by (simp add: floppy_command_def Let_def is_read_def)
  ultimately have f1: "f1 = (cmd_read_write ?g)\<lparr>command_complete := True\<rparr>" by simp
  have k: "media ?g = media f" "image ?g = image f" "DOR ?g = DOR f" "device_type ?g = device_type f"
    "media_present ?g = media_present f" "floppy_buffer_index ?g = floppy_buffer_index f" "requests ?g = requests f"
    "fd_panics ?g = fd_panics f" "irq6 ?g = irq6 f" "\<not> NDMA ?g"
    using i(2) NDMA_collecting [of f ?bs 9] by (simp_all add: collecting_def set_msr_def NDMA_def)
  have d: "sectors_per_track (media f 0) = 18" "heads (media f 0) = 2" "tracks (media f 0) = 80" "sectors (media f 0) = 2880"
    using r by (simp_all add: disk_ready_def disk144_def)
  have ac: "accepted ?g"
    unfolding accepted_def c k d hp w(1)
    using r w(2,3) n(1) by (simp add: disk_ready_def word_less_nat_alt unat_of_nat)
  obtain g' where g': "cmd_read_write ?g = rw_start 0 g'" "media g' = media f" "image g' = image f"
    "command g' 0 = 0xE6" "DOR g' = (DOR f AND 0xFC) OR drive_bits 0" "\<not> NDMA g'" "floppy_buffer_index g' = floppy_buffer_index f"
    "requests g' = requests f" "fd_panics g' = fd_panics f" "irq6 g' = irq6 f" "pending_command g' = 0xE6"
    "cylinder g' 0 = word_of_nat t" "head g' 0 = word_of_nat h" "sector g' 0 = word_of_nat sc"
    "device_type g' = device_type f"
    using accepted_starts [OF ac] k c hp by auto
  have ls: "logical_sector 0 g' = word_of_nat n" unfolding logical_sector_def g' d by (rule w(1))
  have dt: "device_type f 0 \<noteq> 0" using r by (simp add: disk_ready_def)
  let ?h = "busy (floppy_xfer_from 0 (word_of_nat n * 512) g')"
  have nd: "\<not> NDMA ?h"
    using g'(6) by (simp add: busy_def NDMA_def set_msr_def floppy_xfer_from_def Let_def panic_if_def dt g'
        bit.conj_disj_distrib2 and.assoc)
  have rw: "rw_start 0 g' = request (Start_timer (sector_time 0 ?h)) ?h"
    using nd unfolding rw_start_def Let_def ls g' by simp
  have h: "media ?h = media f" "floppy_buffer ?h i = (if i < 512 then image f 0 (n * 512 + i) else floppy_buffer g' i)"
    "image ?h = image f" "floppy_buffer_index ?h = floppy_buffer_index f" "pending_command ?h = 0xE6" "DOR ?h = DOR g'"
    "requests ?h = requests f" "fd_panics ?h = fd_panics f" "irq6 ?h = irq6 f" "head ?h 0 = word_of_nat h" for i
    by (simp_all add: busy_def set_msr_def floppy_xfer_from_def Let_def panic_if_def dt g' w(4))
  have st: "sector_time 0 ?h = 200000 div 18" unfolding sector_time_def h d ..
  have dr: "fd_drive ?h = 0" unfolding fd_drive_def h g' select_zero by simp
  show "sector_loaded n f f1" "head f1 0 = word_of_nat h" "media f1 = media f"
    using r nd dr unfolding f1 g'(1) rw st sector_loaded_def
    by (simp_all add: request_def h fd_drive_def disk_ready_def)
qed

subsection \<open>The transfer of the sector\<close>

lemma increment_sector_simps [simp]:
  "requests (increment_sector f) = requests f" "floppy_buffer (increment_sector f) = floppy_buffer f"
  "FTC (increment_sector f) = FTC f" "main_status_reg (increment_sector f) = main_status_reg f"
  "irq6 (increment_sector f) = irq6 f" "image (increment_sector f) = image f"
  "fd_panics (increment_sector f) = fd_panics f" "pending_command (increment_sector f) = pending_command f"
  "DOR (increment_sector f) = DOR f" "NDMA (increment_sector f) = NDMA f"
  by (simp_all add: increment_sector_def Let_def NDMA_def)

lemma increment_head:
  "head f (fd_drive f) = 0 \<or> head f (fd_drive f) = 1 \<Longrightarrow>
     head (increment_sector f) (fd_drive f) = 0 \<or> head (increment_sector f) (fd_drive f) = 1"
  by (auto simp: increment_sector_def Let_def)

definition fd_out :: "fd \<Rightarrow> byte" where
  "fd_out f = floppy_buffer f (floppy_buffer_index f)"

definition fd_nxt :: "fd \<Rightarrow> fd" where
  "fd_nxt f = (snd (fd_dma_write (floppy_buffer_index f = 511) (f\<lparr>requests := []\<rparr>)))\<lparr>requests := requests f\<rparr>"

text \<open>A sector in the buffer, \<open>i\<close> bytes of which have been handed out.\<close>

definition sending :: "nat \<Rightarrow> fd \<Rightarrow> bool" where
  "sending i f \<longleftrightarrow> floppy_buffer_index f = i \<and> \<not> NDMA f"

lemma fd_dma_write_middle:
  assumes "sending i f" and "i < 511"
  shows "fd_dma_write False f = (fd_out f, f\<lparr>floppy_buffer_index := Suc i, FTC := False\<rparr>)"
  using assms by (simp add: sending_def fd_dma_write_def Let_def fd_get_tc_def fd_out_def)

text \<open>The controller after the last byte of a sector, at the terminal count.\<close>

definition sector_sent :: "fd \<Rightarrow> fd" where
  "sector_sent f = (let g = increment_sector (f\<lparr>floppy_buffer_index := 512, FTC := True\<rparr>) in
     enter_result_phase (request (Set_drq False) (good_status (fd_drive f) (g\<lparr>floppy_buffer_index := 0\<rparr>))))"

lemma fd_dma_write_end:
  assumes "sending 511 f"
  shows "fd_dma_write True f = (fd_out f, sector_sent f)"
  using assms
  by (simp add: sending_def fd_dma_write_def Let_def fd_get_tc_def fd_out_def sector_sent_def drop_drq_def
      good_status_def NDMA_def)

lemma enter_result_phase_simps [simp]:
  "requests (enter_result_phase f) = requests f" "image (enter_result_phase f) = image f"
  "fd_panics (enter_result_phase f) = fd_panics f" "status_reg0 (enter_result_phase f) = status_reg0 f"
  "status_reg1 (enter_result_phase f) = status_reg1 f" "status_reg2 (enter_result_phase f) = status_reg2 f"
  by (simp_all add: enter_result_phase_def Let_def results_def raise_interrupt_def set_msr_def)

lemma good_status_simps [simp]:
  "requests (good_status d f) = requests f" "image (good_status d f) = image f"
  "fd_panics (good_status d f) = fd_panics f" "status_reg1 (good_status d f) = 0" "status_reg2 (good_status d f) = 0"
  "pending_command (good_status d f) = pending_command f" "DOR (good_status d f) = DOR f"
  by (simp_all add: good_status_def)

lemma sector_sent_simps [simp]:
  "requests (sector_sent f) = requests f @ [Set_drq False]" "image (sector_sent f) = image f"
  "fd_panics (sector_sent f) = fd_panics f" "status_reg1 (sector_sent f) = 0" "status_reg2 (sector_sent f) = 0"
  by (simp_all add: sector_sent_def Let_def request_def)

text \<open>The result phase of a read that ended well.\<close>

definition read_done :: "fd \<Rightarrow> bool" where
  "read_done f \<longleftrightarrow> irq6 f \<and> pending_irq f \<and> result_index f = 0 \<and> result_size f = 7 \<and>
     result f 0 AND 0xC0 = 0 \<and> result f 1 = 0 \<and> result f 2 = 0 \<and> result f 6 = 2 \<and>
     main_status_reg f AND (FD_MS_MRQ OR FD_MS_DIO OR FD_MS_BUSY) = FD_MS_MRQ OR FD_MS_DIO OR FD_MS_BUSY"

lemma msr_or: "((v AND 0xFF) OR m) AND m = (m :: byte)"
  by (rule bit_word_eqI) (auto simp: bit_simps)

lemma normal_status:
  assumes "w = 0 \<or> w = (1 :: byte)"
  shows "(push_bit 2 w OR drive_bits 0) AND 0xC0 = 0"
  using assms by (auto simp: drive_bits_def)

lemma sector_sent_done:
  assumes "pending_command f = 0xE6" and "fd_drive f = 0" and "head f 0 = 0 \<or> head f 0 = 1"
  shows "read_done (sector_sent f)"
proof -
  define g where "g = (increment_sector (f\<lparr>floppy_buffer_index := 512, FTC := True\<rparr>))\<lparr>floppy_buffer_index := 0\<rparr>"
  define r where "r = request (Set_drq False) (good_status 0 g)"
  have h: "head g 0 = 0 \<or> head g 0 = 1"
    using increment_head [of "f\<lparr>floppy_buffer_index := 512, FTC := True\<rparr>"] assms(2,3) by (simp add: g_def fd_drive_def)
  have p: "pending_command r = 0xE6" "status_reg0 r = push_bit 2 (head g 0) OR drive_bits 0"
    "status_reg1 r = 0" "status_reg2 r = 0"
    using assms(1) by (simp_all add: r_def g_def request_def good_status_def)
  have z: "status_reg0 r AND 0xC0 = 0" unfolding p by (rule normal_status [OF h])
  have "sector_sent f = enter_result_phase r" by (simp add: sector_sent_def r_def g_def Let_def assms(2))
  then show ?thesis
    using z p(1,3,4)
    by (simp add: read_done_def enter_result_phase_def Let_def is_read_def results_def raise_interrupt_def set_msr_def
        msr_or bit.conj_disj_distrib2)
qed

lemma fd_nxt_middle: "sending i f \<Longrightarrow> i < 511 \<Longrightarrow> fd_nxt f = f\<lparr>floppy_buffer_index := Suc i, FTC := False\<rparr>"
  using fd_dma_write_middle [of i "f\<lparr>requests := []\<rparr>"] by (simp add: fd_nxt_def sending_def)

lemma fd_nxt_end: "sending 511 f \<Longrightarrow> fd_nxt f = (sector_sent (f\<lparr>requests := []\<rparr>))\<lparr>requests := requests f\<rparr>"
  using fd_dma_write_end [of "f\<lparr>requests := []\<rparr>"] by (simp add: fd_nxt_def sending_def)

lemma fd_nxt_iter:
  assumes "sending 0 f" and "i < 512"
  shows "(fd_nxt ^^ i) f = f\<lparr>floppy_buffer_index := i, FTC := (if i = 0 then FTC f else False)\<rparr>"
  using assms(2)
proof (induction i)
  case 0
  then show ?case using assms(1) by (simp add: sending_def)
next
  case (Suc i)
  then have "(fd_nxt ^^ i) f = f\<lparr>floppy_buffer_index := i, FTC := (if i = 0 then FTC f else False)\<rparr>" by simp
  moreover have "sending i (f\<lparr>floppy_buffer_index := i, FTC := (if i = 0 then FTC f else False)\<rparr>)"
    using assms(1) by (simp add: sending_def)
  ultimately show ?case using fd_nxt_middle Suc.prems by simp
qed

text \<open>With the terminal count at its last byte, the controller is a streaming device.\<close>

lemma floppy_streams:
  assumes "sending i (device d)" and "i < 512" and "TC d \<longleftrightarrow> i = 511"
  shows "floppy_dmaWrite8 d = streaming_device 2 fd_out fd_nxt d"
proof (cases "i = 511")
  case True
  let ?f = "(device d)\<lparr>requests := []\<rparr>"
  have f: "sending 511 (device d)" "sending 511 ?f" using assms(1) True by (simp_all add: sending_def)
  have t: "TC d" using assms(3) True by simp
  have s: "snd (fd_dma_write True ?f) = sector_sent ?f" "fst (fd_dma_write True (device d)) = fd_out (device d)"
    using fd_dma_write_end [OF f(1)] fd_dma_write_end [OF f(2)] by simp_all
  show ?thesis
    using s fd_nxt_end [OF f(1)]
    by (simp add: floppy_dmaWrite8_def streaming_device_def with_device_def get_TC_def Let_def t)
next
  case False
  let ?f = "(device d)\<lparr>requests := []\<rparr>"
  have i: "i < 511" using assms(2) False by simp
  have f: "sending i ?f" using assms(1) by (simp add: sending_def)
  have t: "\<not> TC d" using assms(3) False by simp
  show ?thesis
    using fd_dma_write_middle [OF assms(1) i] fd_dma_write_middle [OF f i] fd_nxt_middle [OF assms(1) i]
    by (simp add: floppy_dmaWrite8_def streaming_device_def with_device_def get_TC_def Let_def t)
qed

text \<open>An acknowledge depends on the handler only at the state in which it is called.\<close>

definition handler_state :: "nat \<Rightarrow> 'd dma \<Rightarrow> 'd dma" where
  "handler_state c d =
     snd (count_transfer False c (upd_s True (\<lambda>ct. ct\<lparr>DACK := (DACK ct)(0 := True)\<rparr>) (d\<lparr>HLDA := True\<rparr>)))"

lemma handler_state_simps:
  "device (handler_state c d) = device d"
  "\<not> TC d \<Longrightarrow> TC (handler_state c d) \<longleftrightarrow> current_count (chan (s d False) c) = 0"
  by (simp_all add: handler_state_def count_transfer_def Let_def count_expires)

lemma raise_HLDA_handler:
  assumes "serving c d" and "transfer_type (mode (chan (s d False) c)) = 1"
    and "dmaWrite8 h c = Some w" and "dmaWrite8 h' c = Some w'" and "w (handler_state c d) = w' (handler_state c d)"
  shows "raise_HLDA h junk d = raise_HLDA h' junk d"
proof -
  let ?d = "upd_s True (\<lambda>ct. ct\<lparr>DACK := (DACK ct)(0 := True)\<rparr>) (d\<lparr>HLDA := True\<rparr>)"
  have p: "pick_channel (d\<lparr>HLDA := True\<rparr>) = (Some (False, c), ?d)"
  proof -
    have r: "requesting (s (d\<lparr>HLDA := True\<rparr>) True) = Some 0" "requesting (s ?d False) = Some c"
      using assms(1) by (simp_all add: serving_def)
    show ?thesis unfolding pick_channel_def r option.case Let_def by (simp only: r option.map refl if_True)
  qed
  obtain x where x: "count_transfer False c ?d = (x, handler_state c d)"
    by (rule that [OF surjective_pairing [of "count_transfer False c ?d", folded handler_state_def]])
  have t: "transfer_type (mode (chan (s ?d False) c)) = 1" using assms(2) by simp
  show ?thesis
    unfolding raise_HLDA_def p prod.case option.case Let_def x t
    by (simp add: transfer_unit_def from_device8_def assms(3-5) Let_def)
qed

definition streaming_floppy :: "fd dma_handlers" where
  "streaming_floppy = floppy_handlers\<lparr>dmaWrite8 := (\<lambda>c. Some (streaming_device 2 fd_out fd_nxt))\<rparr>"

lemma floppy_units:
  assumes r: "ready 2 fd_out fd_nxt streaming_floppy d" and f: "sending 0 (device d)"
    and n: "current_count (chan (s d False) 2) = 511" and "i \<le> 512"
  shows "(raise_HLDA floppy_handlers junk ^^ i) d = (raise_HLDA streaming_floppy junk ^^ i) d"
  using assms(4)
proof (induction i)
  case (Suc i)
  let ?e = "(one_unit 2 fd_out fd_nxt ^^ i) d"
  have i: "i \<le> unat (current_count (chan (s d False) 2))" using Suc.prems n by simp
  have e: "(raise_HLDA streaming_floppy junk ^^ i) d = ?e" by (rule raise_HLDA_units [OF r i])
  have re: "ready 2 fd_out fd_nxt streaming_floppy ?e" by (rule ready_units [OF r])
  have d: "device ?e = (device d)\<lparr>floppy_buffer_index := i, FTC := (if i = 0 then FTC (device d) else False)\<rparr>"
    using fd_nxt_iter [OF f] Suc.prems by simp
  then have se: "sending i (device (handler_state 2 ?e))"
    using f by (simp add: handler_state_simps sending_def)
  have c: "current_count (chan (s ?e False) 2) = 511 - of_nat i" using n by simp
  have "(511 - of_nat i :: 16 word) = 0 \<longleftrightarrow> i = 511"
  proof
    assume "(511 - of_nat i :: 16 word) = 0"
    then have "unat (511 :: 16 word) = unat (of_nat i :: 16 word)" by simp
    also have "\<dots> = i" using Suc.prems by (simp add: unat_of_nat)
    finally show "i = 511" by simp
  qed simp
  then have "TC (handler_state 2 ?e) \<longleftrightarrow> i = 511"
    using re c by (simp add: handler_state_simps ready_def)
  then have "floppy_dmaWrite8 (handler_state 2 ?e) = streaming_device 2 fd_out fd_nxt (handler_state 2 ?e)"
    using floppy_streams [OF se] Suc.prems by simp
  then have "raise_HLDA floppy_handlers junk ?e = raise_HLDA streaming_floppy junk ?e"
    using re by (intro raise_HLDA_handler [of 2 _ _ floppy_dmaWrite8 _ "streaming_device 2 fd_out fd_nxt"])
       (simp_all add: ready_def floppy_handlers_def streaming_floppy_def)
  then show ?case using Suc e by simp
qed simp

subsection \<open>From the command to the bytes in memory\<close>

text \<open>The DMA controller as the BIOS leaves it for a sector: channel 2 programmed for 512 bytes into memory and
  open, the cascade open, no request of higher priority.\<close>

definition floppy_dma :: "fd dma \<Rightarrow> bool" where
  "floppy_dma d \<longleftrightarrow>
     current_count (chan (s d False) 2) = 511 \<and> transfer_type (mode (chan (s d False) 2)) = 1 \<and>
     used (chan (s d False) 2) \<and> \<not> masked (s d False) 2 \<and> \<not> pending (s d False) 0 \<and> \<not> pending (s d False) 1 \<and>
     used (chan (s d True) 0) \<and> \<not> masked (s d True) 0 \<and> \<not> ctrl_disabled (s d False) \<and> \<not> ctrl_disabled (s d True) \<and> \<not> TC d"

lemma panic_simps [simp]: "s (panic m d) = s d" "HRQ (panic m d) = HRQ d"
  by (simp_all add: panic_def)

lemma raise_cascade:
  assumes "used (chan (s d True) 0)" and "\<not> masked (s d True) 0" and "\<not> ctrl_disabled (s d True)"
  shows "requesting (s (set_DRQ_with control_HRQ_2 True 0 True d) True) = Some 0"
    and "HRQ (set_DRQ_with control_HRQ_2 True 0 True d)"
proof -
  obtain e where e: "set_DRQ_with control_HRQ_2 True 0 True d = control_HRQ_2 e"
    and se: "status_reg (s e True) = status_reg (s d True) OR status_bit 4" "masked (s e True) = masked (s d True)"
      "ctrl_disabled (s e True) = ctrl_disabled (s d True)"
    using assms(1) by (simp add: set_DRQ_with_def Let_def)
  have p: "pending (s e True) 0" using se assms(2) by (simp add: pending_def bit_simps)
  then show "requesting (s (set_DRQ_with control_HRQ_2 True 0 True d) True) = Some 0"
    unfolding e by (simp add: requesting_least)
  show "HRQ (set_DRQ_with control_HRQ_2 True 0 True d)"
    unfolding e HRQ_control_2 using p se assms(3) by (auto simp: ex_channel)
qed

lemma raise_floppy_request:
  assumes "floppy_dma d"
  shows "serving 2 (set_DRQ 2 True d)" and "HRQ (set_DRQ 2 True d)"
proof -
  obtain e where e: "set_DRQ 2 True d = control_HRQ_1 e"
    and se: "s e True = s d True" "status_reg (s e False) = status_reg (s d False) OR status_bit 6"
      "masked (s e False) = masked (s d False)" "ctrl_disabled (s e False) = ctrl_disabled (s d False)"
    using assms by (simp add: set_DRQ_def set_DRQ_with_def Let_def floppy_dma_def control_HRQ_def)
  have p: "pending (s e False) 2" "\<not> pending (s e False) 0" "\<not> pending (s e False) 1"
    using se assms by (simp_all add: pending_def bit_simps floppy_dma_def)
  have "\<not> pending (s e False) j" if "j < 2" for j using p that by (cases j) (auto simp: less_2_cases_iff)
  then have q: "requesting (s e False) = Some 2" using p(1) by (simp add: requesting_least)
  have z: "status_reg (s e False) AND 0xF0 \<noteq> 0"
    using p(1) no_request_bits [of "status_reg (s e False)" 2] by (auto simp: pending_def)
  have c: "control_HRQ_1 e = set_DRQ_with control_HRQ_2 True 0 True e"
    using q z se assms by (simp add: control_HRQ_1_def control_HRQ_with_def floppy_dma_def)
  have k: "used (chan (s e True) 0)" "\<not> masked (s e True) 0" "\<not> ctrl_disabled (s e True)"
    using assms by (simp_all add: se floppy_dma_def)
  show "serving 2 (set_DRQ 2 True d)" "HRQ (set_DRQ 2 True d)"
    using raise_cascade [OF k] q by (simp_all add: e c serving_def)
qed

lemma fd_timer_read:
  "pending_command f = 0xE6 \<Longrightarrow> \<not> NDMA f \<Longrightarrow> fd_timer f = request (Set_drq True) f"
  by (simp add: fd_timer_def Let_def is_read_def is_write_def)

lemma requests_update [simp]:
  "disk_ready (f\<lparr>requests := x\<rparr>) = disk_ready f" "read_done (f\<lparr>requests := x\<rparr>) = read_done f"
  by (simp_all add: disk_ready_def idle_def read_done_def)

text \<open>The state in which the transfer starts.\<close>

lemma read_command_requests:
  fixes e g l :: byte
  assumes "disk_ready (device d)" and "floppy_dma d" and n: "n < 2880" "chs n = (t, h, sc)"
  defines "d1 \<equiv> with_device (command_phase (0xE6 # read_bytes (t, h, sc) e g l)) d"
  defines "d2 \<equiv> with_device fd_timer d1"
  shows "ready 2 fd_out fd_nxt streaming_floppy d2" and "same_registers d1 d2" and "HRQ d2"
    and "sending 0 (device d2)" and "\<forall>i<512. floppy_buffer (device d2) i = image (device d) 0 (n * 512 + i)"
    and "image (device d2) = image (device d)" and "fd_panics (device d2) = fd_panics (device d)"
    and "pending_command (device d2) = 0xE6" and "fd_drive (device d2) = 0"
    and "head (device d2) 0 = 0 \<or> head (device d2) 0 = 1"
    and "requests (device d2) = requests (device d) @ [Start_timer (200000 div 18)]"
    and "chan (s d2 False) = chan (s d False)" and "memory d2 = memory d"
    and "status_reg (s d1 False) = status_reg (s d False)"
proof -
  let ?f = "(device d)\<lparr>requests := []\<rparr>"
  let ?f1 = "command_phase (0xE6 # read_bytes (t, h, sc) e g l) ?f"
  let ?t = "Start_timer (200000 div 18)"
  have l: "sector_loaded n ?f ?f1" "head ?f1 0 = word_of_nat h"
    using read_command_loads [OF _ n, of ?f] assms(1) by simp_all
  then have q: "requests ?f1 = [?t]" "pending_command ?f1 = 0xE6" "\<not> NDMA ?f1"
    by (simp_all add: sector_loaded_def)
  have d1: "d1 = d\<lparr>device := ?f1\<lparr>requests := requests (device d) @ [?t]\<rparr>\<rparr>"
    using q(1) by (simp add: d1_def with_device_def Let_def request_def)
  let ?h = "(device d1)\<lparr>requests := []\<rparr>"
  have t: "fd_timer ?h = request (Set_drq True) ?h" using q by (intro fd_timer_read) (simp_all add: d1)
  have "with_device fd_timer d1 = set_DRQ 2 True (d1\<lparr>device := device d1\<rparr>)"
    unfolding with_device_def t Let_def by (simp add: request_def)
  then have d2: "d2 = set_DRQ 2 True d1" by (simp add: d2_def)
  have p: "floppy_dma d1" using assms(2) by (simp add: d1 floppy_dma_def)
  note r = raise_floppy_request [OF p, folded d2]
  show same: "same_registers d1 d2" unfolding d2 by (rule same_set_DRQ)
  show "HRQ d2" by (rule r)
  have dev: "device d2 = device d1" and ch: "chan (s d2 k) = chan (s d k)" and m: "memory d2 = memory d" and "TC d2 = TC d" for k
    using same by (simp_all add: same_registers_def d1)
  then show "ready 2 fd_out fd_nxt streaming_floppy d2"
    using r(1) assms(2) by (simp add: ready_def floppy_dma_def streaming_floppy_def)
  show "chan (s d2 False) = chan (s d False)" "memory d2 = memory d" by (fact ch m)+
  show "status_reg (s d1 False) = status_reg (s d False)" by (simp add: d1)
  have "h = 0 \<or> h = 1" using chs_bounds(2) [OF n] by linarith
  then show "head (device d2) 0 = 0 \<or> head (device d2) 0 = 1" unfolding dev d1 using l(2) by auto
  show "sending 0 (device d2)" "\<forall>i<512. floppy_buffer (device d2) i = image (device d) 0 (n * 512 + i)"
    "image (device d2) = image (device d)" "fd_panics (device d2) = fd_panics (device d)"
    "pending_command (device d2) = 0xE6" "fd_drive (device d2) = 0"
    "requests (device d2) = requests (device d) @ [?t]"
    using l(1) by (simp_all add: dev d1 sector_loaded_def sending_def fd_drive_def)
qed

text \<open>The transfer itself.\<close>

lemma sector_transfer:
  fixes junk :: "16 word"
  assumes r: "ready 2 fd_out fd_nxt streaming_floppy d" and f: "sending 0 (device d)"
    and n: "current_count (chan (s d False) 2) = 511"
  defines "d' \<equiv> (raise_HLDA floppy_handlers junk ^^ 512) d"
  shows "\<forall>i<512. memory d' (unit_address (chan (s d False) 2) i) = floppy_buffer (device d) i"
    and "\<forall>x. (\<forall>i<512. x \<noteq> unit_address (chan (s d False) 2) i) \<longrightarrow> memory d' x = memory d x"
    and "device d' =
      (sector_sent ((device d)\<lparr>floppy_buffer_index := 511, FTC := False, requests := []\<rparr>))\<lparr>requests := requests (device d)\<rparr>"
    and "bit (status_reg (s d' False)) 2" and "\<not> bit (status_reg (s d' False)) 6"
proof -
  have k: "Suc (unat (current_count (chan (s d False) 2))) = 512" by (simp add: n)
  note b = block_last(3-5) [OF r, where junk = junk, unfolded k]
  have d': "d' = (raise_HLDA streaming_floppy junk ^^ 512) d"
    unfolding d'_def by (rule floppy_units [OF r f n]) simp
  note w = b(2,3) [folded b(1), folded d']
  have out: "fd_out ((fd_nxt ^^ i) (device d)) = floppy_buffer (device d) i" if "i < 512" for i
    using fd_nxt_iter [OF f that] by (simp add: fd_out_def)
  show "\<forall>i<512. memory d' (unit_address (chan (s d False) 2) i) = floppy_buffer (device d) i"
    "\<forall>x. (\<forall>i<512. x \<noteq> unit_address (chan (s d False) 2) i) \<longrightarrow> memory d' x = memory d x"
    using w(1) out by (simp_all add: block_written_def)
  have "(fd_nxt ^^ 512) (device d) = fd_nxt ((fd_nxt ^^ 511) (device d))"
    using funpow.simps(2) [of 511 fd_nxt] by (simp del: funpow.simps)
  moreover have "sending 511 ((device d)\<lparr>floppy_buffer_index := 511, FTC := False\<rparr>)" using f by (simp add: sending_def)
  ultimately show "device d' =
      (sector_sent ((device d)\<lparr>floppy_buffer_index := 511, FTC := False, requests := []\<rparr>))\<lparr>requests := requests (device d)\<rparr>"
    using w(2) fd_nxt_iter [OF f, of 511] fd_nxt_end by simp
  note l = last_unit_outcome(7) [OF block_last(1,2) [OF r], where junk = junk, folded b(1), folded d']
  show "bit (status_reg (s d' False)) 2" "\<not> bit (status_reg (s d' False)) 6" using l [of 2] l [of 6] by simp_all
qed

lemma sector_sent_read:
  assumes "sending 0 f" and "pending_command f = 0xE6" and "fd_drive f = 0" and "head f 0 = 0 \<or> head f 0 = 1"
  shows "read_done (sector_sent (f\<lparr>floppy_buffer_index := 511, FTC := False, requests := []\<rparr>))"
  using assms by (intro sector_sent_done) (simp_all add: fd_drive_def)

text \<open>C3. Reading a sector, from the command to memory: with a 1.44 MB disk in drive 0 and DMA channel 2 programmed
  for 512 bytes, the nine bytes of a read command for the track, head and sector that
  \<open>readSector\<close> computes for sector \<open>n\<close>, the timer, and 512 bus acknowledges put exactly the 512 bytes of the
  image at \<open>512 n\<close> at the channel's addresses and change no other byte of memory nor the image; the bus was requested, the terminal
  count is recorded and the request dropped, interrupt 6 is raised, and the seven result bytes report a normal
  end.\<close>

theorem floppy_reads_sector:
  assumes "disk_ready (device d)" and "floppy_dma d" and "n < 2880"
  shows "let ch = chan (s d False) 2;
      d1 = with_device (command_phase (0xE6 # read_bytes (chs n) e g l)) d;
      d2 = with_device fd_timer d1;
      d3 = (raise_HLDA floppy_handlers junk ^^ 512) d2
    in HRQ d2 \<and> (\<forall>i<512. memory d3 (unit_address ch i) = image (device d) 0 (n * 512 + i)) \<and>
       (\<forall>x. (\<forall>i<512. x \<noteq> unit_address ch i) \<longrightarrow> memory d3 x = memory d x) \<and>
       image (device d3) = image (device d) \<and> fd_panics (device d3) = fd_panics (device d) \<and>
       requests (device d3) = requests (device d) @ [Start_timer (200000 div 18)] \<and>
       bit (status_reg (s d3 False)) 2 \<and> \<not> bit (status_reg (s d3 False)) 6 \<and> read_done (device d3)"
proof -
  obtain t h sc where n: "chs n = (t, h, sc)" by (cases "chs n")
  note c = read_command_requests [OF assms n, of e g l, folded n]
  define d2 where "d2 = with_device fd_timer (with_device (command_phase (0xE6 # read_bytes (chs n) e g l)) d)"
  note c = c [folded d2_def]
  have k: "current_count (chan (s d2 False) 2) = 511" using assms(2) by (simp add: c(12) floppy_dma_def)
  note m = sector_transfer [OF c(1,4) k, of junk, unfolded c(12)]
  show ?thesis
    unfolding Let_def d2_def [symmetric]
    using m c(3,5-7,11,13) sector_sent_read [OF c(4,8,9,10)]
    by (simp add: c(13))
qed

section \<open>Bytes behind a command without parameters\<close>

lemma stray_bytes:
  assumes "\<not> NDMA f" and "\<not> command_complete f" and "command_size f = 0"
    and "command_index f = word_of_nat k" and "k + length bs < 256"
  shows "fold (data_write False) bs f =
    f\<lparr>command := (\<lambda>i. if k \<le> i \<and> i < k + length bs then bs ! (i - k) else command f i),
      command_index := word_of_nat (k + length bs)\<rparr>"
  using assms
proof (induction bs arbitrary: f k)
  case (Cons v bs)
  let ?f = "f\<lparr>command := (command f)(k := v), command_index := word_of_nat (Suc k)\<rparr>"
  have k: "unat (word_of_nat k :: byte) = k" "k < 255" using Cons.prems(5) by (simp_all add: unat_of_nat)
  have "unat (word_of_nat (Suc k) :: byte) = Suc k" using k(2) by (simp only: unat_of_nat) simp
  then have z: "word_of_nat k + 1 \<noteq> (0 :: byte)" by (metis add.commute nat.simps(3) of_nat_Suc unsigned_0)
  have "data_write False v f = ?f"
    using Cons.prems k(1) z by (simp add: data_write_def Let_def add.commute)
  moreover have "fold (data_write False) bs ?f =
    ?f\<lparr>command := (\<lambda>i. if Suc k \<le> i \<and> i < Suc k + length bs then bs ! (i - Suc k) else ((command f)(k := v)) i),
       command_index := word_of_nat (Suc k + length bs)\<rparr>"
    using Cons.IH [of ?f "Suc k"] Cons.prems by (simp cong: if_cong)
  moreover have "(\<lambda>i. if Suc k \<le> i \<and> i < Suc k + length bs then bs ! (i - Suc k) else ((command f)(k := v)) i) =
      (\<lambda>i. if k \<le> i \<and> i < k + length (v # bs) then (v # bs) ! (i - k) else command f i)"
    by (auto simp: nth_Cons' fun_eq_iff)
  ultimately show ?case by (simp cong: if_cong)
next
  case Nil
  have "(\<lambda>i. if k \<le> i \<and> i < k then [] ! (i - k) else command f i) = command f" by (rule ext) auto
  then show ?case using Nil by (cases f) simp
qed

lemma no_parameters:
  assumes "idle f" and "v \<in> {0x0E, 0x10, 0x14, 0x94}"
  defines "f1 \<equiv> data_write False v f"
  shows "\<not> NDMA f1" and "\<not> command_complete f1" and "command_size f1 = 0" and "command_index f1 = 1"
proof -
  have l: "command_length v = None" using assms(2) by (auto simp: command_length_def is_read_def is_write_def)
  let ?g = "(set_msr (NOT FD_MS_DIO) (FD_MS_MRQ OR FD_MS_BUSY)
      (f\<lparr>command := (command f)(0 := v), command_complete := False, command_index := 1\<rparr>))\<lparr>command_size := 0, pending_command := v\<rparr>"
  have r: "main_status_reg (enter_result_phase g) = (main_status_reg g AND 0xFF) OR (FD_MS_MRQ OR FD_MS_DIO OR FD_MS_BUSY)"
    "command_complete (enter_result_phase g) = command_complete g" "command_size (enter_result_phase g) = command_size g"
    "command_index (enter_result_phase g) = command_index g" for g
    by (simp_all add: enter_result_phase_def Let_def results_def raise_interrupt_def set_msr_def)
  have f1: "f1 = enter_result_phase ?g"
    using assms(1,2) l by (auto simp: f1_def data_write_def idle_def first_byte_def panic_if_def Let_def r set_msr_def)
  have "NDMA f1 = NDMA f"
    by (simp add: f1 NDMA_def r set_msr_def bit.conj_disj_distrib2 and.assoc)
  then show "\<not> NDMA f1" "\<not> command_complete f1" "command_size f1 = 0" "command_index f1 = 1"
    using assms(1) by (simp_all add: idle_def f1 r set_msr_def)
qed

text \<open>The command buffer has ten bytes and no bound is checked: after one of the commands without parameters (dump registers, version, lock,
  unlock), every further byte written to the data port before the result is read goes to the next place of the
  buffer, so that the tenth such byte and all up to the 254th are stored behind its end.\<close>

theorem command_buffer_overrun:
  assumes "idle f" and "v \<in> {0x0E, 0x10, 0x14, 0x94}" and "length bs < 255" and "i < length bs"
  shows "command (command_phase (v # bs) f) (Suc i) = bs ! i"
  using stray_bytes [OF no_parameters(1-3) [OF assms(1,2)], of 1 bs] no_parameters(4) [OF assms(1,2)] assms(3,4)
  by (simp add: command_phase_def)

section \<open>An instance\<close>

text \<open>A controller after reset with a 1.44 MB disk, whose byte \<open>a\<close> is \<open>a div 512\<close>, in drive 0 and its motor on.\<close>

definition image_disk :: fd_media where
  "image_disk = \<lparr>media_kind = FLOPPY_1_44, sectors_per_track = 18, sectors = 2880, tracks = 80, heads = 2, write_protected = False\<rparr>"

definition fd0 :: fd where
  "fd0 =
     \<lparr>data_rate = 0, command = \<lambda>_. 0, command_index = 0, command_size = 0, command_complete = True, pending_command = 0,
      multi_track = False, pending_irq = False, reset_sensei = 0, format_count = 0, format_fillbyte = 0, result = \<lambda>_. 0,
      result_index = 0, result_size = 0, DOR = 0x1C, cylinder = \<lambda>_. 0, head = \<lambda>_. 0, sector = \<lambda>_. 0, eot = \<lambda>_. 0, FTC = False,
      main_status_reg = 0x80, status_reg0 = 0, status_reg1 = 0, status_reg2 = 0, status_reg3 = 0, media = \<lambda>_. image_disk,
      floppy_buffer = \<lambda>_. 0, floppy_buffer_index = 0, media_present = \<lambda>i. i = 0, device_type = \<lambda>_. 4, DIR = \<lambda>_. 0, fd_lock = 0,
      SRT = 0, HUT = 0, HLT = 0, config = 0, pretrk = 0, perp_mode = 0, image = \<lambda>_ a. word_of_nat (a div 512),
      irq6 = False, requests = [], fd_panics = []\<rparr>"

lemma fd0_ready: "disk_ready fd0" "idle fd0"
proof -
  show "disk_ready fd0"
    by (simp add: disk_ready_def idle_def fd0_def NDMA_def disk144_def image_disk_def bit_numeral_rec)
  then show "idle fd0" by (simp add: disk_ready_def)
qed

theorem command_phase_executes_witness:
  "command_phase [0x0F, 0, 5] fd0 = (floppy_command (collecting fd0 [0x0F, 0, 5] 3))\<lparr>command_complete := True\<rparr>"
  using command_phase_executes [OF fd0_ready(2), of "0x0F" 3 "[0, 5]"] by (simp add: command_length_def)

theorem command_buffer_overrun_witness:
  "command (command_phase (0x10 # replicate 20 7) fd0) 20 = 7"
  using command_buffer_overrun [OF fd0_ready(2), of "0x10" "replicate 20 7" 19] by simp

definition disk_dma :: "fd dma" where
  "disk_dma =
     \<lparr>s = (\<lambda>k. if k then requests_of 0 (\<lambda>i. i \<noteq> 0) (\<lambda>i. fresh_chan\<lparr>used := (i = 0)\<rparr>)
               else requests_of 0 (\<lambda>_. False) (\<lambda>i. if i = 2 then floppy_channel 511 else fresh_chan)),
      HLDA = False, TC = False, ext_page_reg = \<lambda>_. 0, HRQ = False, memory = \<lambda>_. 0, device = fd0, panics = []\<rparr>"

lemma disk_dma_ready: "floppy_dma disk_dma" "device disk_dma = fd0"
  by (simp_all add: floppy_dma_def disk_dma_def requests_of_def floppy_channel_def pending_def)

theorem floppy_reads_sector_witness:
  "memory ((raise_HLDA floppy_handlers 0 ^^ 512) (with_device fd_timer
     (with_device (command_phase (0xE6 # read_bytes (chs 259) 18 27 255)) disk_dma)))
     (unit_address (chan (s disk_dma False) 2) 100) = 3"
proof -
  have i: "image fd0 0 (259 * 512 + 100) = 3" by (simp add: fd0_def)
  show ?thesis
    using floppy_reads_sector [of disk_dma 259 18 27 255 0, unfolded Let_def disk_dma_ready(2), OF fd0_ready(1) disk_dma_ready(1)] i
    by simp
qed

end
