(* ===== verification/Bochs_Mem.thy ===== *)
theory Bochs_Mem
  imports OS_Prelude
begin

unbundle bit_operations_syntax

section \<open>The physical memory of the emulated machine\<close>

text \<open>
  Models \<^verbatim>\<open>memory/memory.cc\<close> and \<^verbatim>\<open>memory/misc_mem.cc\<close> with the memory types of
  \<^verbatim>\<open>iodev/pci.cc\<close> and the block accesses of \<^verbatim>\<open>iodev/iodev.h\<close>. Guest memory is kept in blocks of one
  megabyte that are taken from one host array (\<open>vector\<close>) on first use. A buffer of \<^verbatim>\<open>len\<close>
  bytes is a list of that length, lowest address first. A memory handler is a device's: its functions are named
  by the type \<open>'h\<close>, what they do to the device state \<open>'d\<close> is the argument \<open>ops\<close> of the accesses.
  \<^verbatim>\<open>BX_PANIC\<close> and an index outside an array are values of \<open>mem_error\<close>. The write stamps of the instruction
  cache and the debugger's entries are left out.
\<close>

subsection \<open>State\<close>

datatype mem_error = CrossPage | HostExhausted | OutOfBlocks | BadImage

definition BX_MEM_BLOCK_LEN :: nat where "BX_MEM_BLOCK_LEN = 1024 * 1024"

definition BIOSROMSZ :: nat where "BIOSROMSZ = 2 ^ 19"

definition EXROMSIZE :: nat where "EXROMSIZE = 0x20000"

definition BIOS_MASK :: "32 word" where "BIOS_MASK = 0x7FFFF"

definition EXROM_MASK :: "32 word" where "EXROM_MASK = 0x1FFFF"

record 'h memory_handler =
  param :: nat
  begin_addr :: "32 word"
  end_addr :: "32 word"
  read_handler :: 'h
  write_handler :: 'h

record ('h, 'd) handler_ops =
  run_read :: "'h \<Rightarrow> nat \<Rightarrow> 32 word \<Rightarrow> 8 word list \<Rightarrow> 'd \<Rightarrow> bool \<times> 8 word list \<times> 'd"
  run_write :: "'h \<Rightarrow> nat \<Rightarrow> 32 word \<Rightarrow> 8 word list \<Rightarrow> 'd \<Rightarrow> bool \<times> 'd"

record ('h, 'd) mem =
  a20_mask :: "32 word"
  pci_conf :: "nat \<Rightarrow> 8 word"
  memory_handlers :: "nat \<Rightarrow> 'h memory_handler list"
  rom_present :: "nat \<Rightarrow> bool"
  pci_enabled :: bool
  smram_available :: bool
  smram_enable :: bool
  smram_restricted :: bool
  mem_len :: nat
  allocated :: nat
  vector :: "nat \<Rightarrow> 8 word"
  blocks :: "nat \<Rightarrow> nat option"
  rom :: "nat \<Rightarrow> 8 word"
  bogus :: "nat \<Rightarrow> 8 word"
  used_blocks :: nat
  devs :: 'd

text \<open>What an access needs to know of the CPU that makes it; a device has none. \<open>apic_base\<close> is the
  page of the local APIC when it is enabled.\<close>

record mem_client =
  smm_mode :: bool
  apic_base :: "32 word option"

definition is_selected :: "32 word \<Rightarrow> mem_client \<Rightarrow> bool" where
  "is_selected a c \<longleftrightarrow> apic_base c = Some (a AND NOT 0xFFF)"

definition init_memory :: "nat \<Rightarrow> nat \<Rightarrow> bool \<Rightarrow> (nat \<Rightarrow> 8 word) \<Rightarrow> ('h, 'd) mem \<Rightarrow> ('h, 'd) mem" where
  "init_memory guest host pci fresh m = m\<lparr>vector := fresh, mem_len := guest, allocated := host,
     rom := (\<lambda>_. 0xFF), bogus := (\<lambda>_. 0xFF),
     rom_present := (\<lambda>i. if i < 65 then False else rom_present m i),
     blocks := (\<lambda>_. None), used_blocks := 0, memory_handlers := (\<lambda>_. []), pci_enabled := pci,
     smram_available := False, smram_enable := False, smram_restricted := False\<rparr>"

subsection \<open>Blocks of host memory\<close>

definition allocate_block :: "nat \<Rightarrow> ('h, 'd) mem \<Rightarrow> mem_error + ('h, 'd) mem" where
  "allocate_block block m =
     (if used_blocks m \<ge> allocated m div BX_MEM_BLOCK_LEN then Inl HostExhausted
      else Inr (m\<lparr>blocks := (blocks m)(block := Some (used_blocks m)), used_blocks := used_blocks m + 1\<rparr>))"

definition get_vector :: "32 word \<Rightarrow> ('h, 'd) mem \<Rightarrow> mem_error + nat \<times> ('h, 'd) mem" where
  "get_vector a m = (let block = unat a div BX_MEM_BLOCK_LEN in
     if block \<ge> mem_len m div BX_MEM_BLOCK_LEN then Inl OutOfBlocks
     else and_then (if blocks m block = None then allocate_block block m else Inr m)
       (\<lambda>m'. Inr (the (blocks m' block) * BX_MEM_BLOCK_LEN + unat a mod BX_MEM_BLOCK_LEN, m')))"

text \<open>Storing and loading through a host pointer.\<close>

definition poke :: "nat \<Rightarrow> 8 word list \<Rightarrow> ('h, 'd) mem \<Rightarrow> ('h, 'd) mem" where
  "poke p data m = m\<lparr>vector := (\<lambda>i. if p \<le> i \<and> i < p + length data then data ! (i - p) else vector m i)\<rparr>"

definition peek :: "nat \<Rightarrow> nat \<Rightarrow> ('h, 'd) mem \<Rightarrow> 8 word list" where
  "peek p n m = map (\<lambda>i. vector m (p + i)) [0..<n]"

subsection \<open>Memory types of the PCI bridge\<close>

text \<open>The byte and the bit that \<^verbatim>\<open>rd_memType\<close> tests for each 16K area; \<^verbatim>\<open>wr_memType\<close> tests the next bit.\<close>

definition pam_entry :: "32 word \<Rightarrow> (nat \<times> nat) option" where
  "pam_entry a = (let k = drop_bit 12 (a AND 0xFC000) in
     if k = 0xC0 then Some (0x5A, 0) else if k = 0xC4 then Some (0x5A, 4)
     else if k = 0xC8 then Some (0x5B, 0) else if k = 0xCC then Some (0x5B, 4)
     else if k = 0xD0 then Some (0x5C, 0) else if k = 0xD4 then Some (0x5C, 4)
     else if k = 0xD8 then Some (0x5D, 0) else if k = 0xDC then Some (0x5D, 4)
     else if k = 0xE0 then Some (0x5E, 0) else if k = 0xE4 then Some (0x5E, 4)
     else if k = 0xE8 then Some (0x5F, 0) else if k = 0xEC then Some (0x5F, 4)
     else if k = 0xF0 \<or> k = 0xF4 \<or> k = 0xF8 \<or> k = 0xFC then Some (0x59, 4) else None)"

definition rd_memType :: "32 word \<Rightarrow> ('h, 'd) mem \<Rightarrow> bool" where
  "rd_memType a m = (case pam_entry a of Some (r, k) \<Rightarrow> bit (pci_conf m r) k | None \<Rightarrow> False)"

definition wr_memType :: "32 word \<Rightarrow> ('h, 'd) mem \<Rightarrow> bool" where
  "wr_memType a m = (case pam_entry a of Some (r, k) \<Rightarrow> bit (pci_conf m r) (k + 1) | None \<Rightarrow> False)"

subsection \<open>Memory handlers\<close>

definition registerMemoryHandlers :: "'h memory_handler \<Rightarrow> ('h, 'd) mem \<Rightarrow> bool \<times> ('h, 'd) mem" where
  "registerMemoryHandlers h m =
     (if end_addr h < begin_addr h then (False, m)
      else (True, m\<lparr>memory_handlers := (\<lambda>i.
        if unat (drop_bit 20 (begin_addr h)) \<le> i \<and> i \<le> unat (drop_bit 20 (end_addr h))
        then h # memory_handlers m i else memory_handlers m i)\<rparr>))"

text \<open>The search loop of \<^verbatim>\<open>unregisterMemoryHandlers\<close>: it goes on while every one of the four
  fields differs.\<close>

fun unlink_handler :: "'h memory_handler \<Rightarrow> 'h memory_handler list \<Rightarrow> 'h memory_handler list option" where
  "unlink_handler w [] = None"
| "unlink_handler w (h # hs) =
     (if read_handler h \<noteq> read_handler w \<and> write_handler h \<noteq> write_handler w \<and>
         begin_addr h \<noteq> begin_addr w \<and> end_addr h \<noteq> end_addr w
      then map_option (\<lambda>r. h # r) (unlink_handler w hs) else Some hs)"

definition unregisterMemoryHandlers :: "'h memory_handler \<Rightarrow> ('h, 'd) mem \<Rightarrow> bool \<times> ('h, 'd) mem" where
  "unregisterMemoryHandlers w m = (let lo = unat (drop_bit 20 (begin_addr w)); hi = unat (drop_bit 20 (end_addr w)) in
     (list_all (\<lambda>i. unlink_handler w (memory_handlers m i) \<noteq> None) [lo..<hi + 1],
      m\<lparr>memory_handlers := (\<lambda>i. if lo \<le> i \<and> i \<le> hi then
          (case unlink_handler w (memory_handlers m i) of Some hs \<Rightarrow> hs | None \<Rightarrow> memory_handlers m i)
        else memory_handlers m i)\<rparr>))"

definition covers :: "'h memory_handler \<Rightarrow> 32 word \<Rightarrow> bool" where
  "covers h a \<longleftrightarrow> begin_addr h \<le> a \<and> end_addr h \<ge> a"

text \<open>The loops over the handlers of one megabyte: the first that covers the address and accepts
  the access ends it.\<close>

fun try_write :: "('h, 'd) handler_ops \<Rightarrow> 'h memory_handler list \<Rightarrow> 32 word \<Rightarrow> 8 word list \<Rightarrow> 'd \<Rightarrow> bool \<times> 'd" where
  "try_write ops [] a data d = (False, d)"
| "try_write ops (h # hs) a data d =
     (if covers h a then
        (case run_write ops (write_handler h) (param h) a data d of
           (True, d') \<Rightarrow> (True, d') | (False, d') \<Rightarrow> try_write ops hs a data d')
      else try_write ops hs a data d)"

fun try_read :: "('h, 'd) handler_ops \<Rightarrow> 'h memory_handler list \<Rightarrow> 32 word \<Rightarrow> 8 word list \<Rightarrow> 'd \<Rightarrow>
    bool \<times> 8 word list \<times> 'd" where
  "try_read ops [] a data d = (False, data, d)"
| "try_read ops (h # hs) a data d =
     (if covers h a then
        (case run_read ops (read_handler h) (param h) a data d of
           (True, data', d') \<Rightarrow> (True, data', d') | (False, data', d') \<Rightarrow> try_read ops hs a data' d')
      else try_read ops hs a data d)"

subsection \<open>System management memory\<close>

definition enable_smram :: "bool \<Rightarrow> bool \<Rightarrow> ('h, 'd) mem \<Rightarrow> ('h, 'd) mem" where
  "enable_smram en restricted m = m\<lparr>smram_available := True, smram_enable := en, smram_restricted := restricted\<rparr>"

definition disable_smram :: "('h, 'd) mem \<Rightarrow> ('h, 'd) mem" where
  "disable_smram m = m\<lparr>smram_available := False, smram_enable := False, smram_restricted := False\<rparr>"

definition is_smram_accessible :: "('h, 'd) mem \<Rightarrow> bool" where
  "is_smram_accessible m \<longleftrightarrow> smram_available m \<and> (smram_enable m \<or> \<not> smram_restricted m)"

text \<open>The test at the head of both accesses: go straight to memory, past the handlers.\<close>

definition smram_access :: "mem_client option \<Rightarrow> 32 word \<Rightarrow> ('h, 'd) mem \<Rightarrow> bool" where
  "smram_access cpu a m \<longleftrightarrow> (case cpu of None \<Rightarrow> False | Some c \<Rightarrow>
     0xA0000 \<le> a \<and> a < 0xC0000 \<and> smram_available m \<and>
     (smram_enable m \<or> smm_mode c \<and> \<not> smram_restricted m))"

subsection \<open>Writing\<close>

definition is_bios :: "32 word \<Rightarrow> bool" where "is_bios a \<longleftrightarrow> a \<ge> NOT BIOS_MASK"

definition dos_hole :: "32 word \<Rightarrow> bool" where "dos_hole a \<longleftrightarrow> \<not> (a < 0xA0000 \<or> a \<ge> 0x100000)"

definition host_width :: "nat \<Rightarrow> bool" where "host_width n \<longleftrightarrow> n = 8 \<or> n = 4 \<or> n = 2 \<or> n = 1"

fun write_bytes :: "32 word \<Rightarrow> 8 word list \<Rightarrow> ('h, 'd) mem \<Rightarrow> mem_error + ('h, 'd) mem" where
  "write_bytes a [] m = Inr m"
| "write_bytes a (b # bs) m = and_then (get_vector a m) (\<lambda>(p, m'). write_bytes (a + 1) bs (poke p [b] m'))"

fun write_hole :: "bool \<Rightarrow> 32 word \<Rightarrow> 8 word list \<Rightarrow> ('h, 'd) mem \<Rightarrow> mem_error + ('h, 'd) mem" where
  "write_hole cpu a [] m = Inr m"
| "write_hole cpu a (b # bs) m = and_then
     (if a < 0xC0000 then
        (if cpu then and_then (get_vector a m) (\<lambda>(p, m'). Inr (poke p [b] m')) else Inr m)
      else if pci_enabled m \<and> a AND 0xFFFC0000 = 0xC0000 then
        (if wr_memType a m then and_then (get_vector a m) (\<lambda>(p, m'). Inr (poke p [b] m')) else Inr m)
      else Inr m)
     (\<lambda>m'. write_hole cpu (a + 1) bs m')"

definition mem_write :: "mem_client option \<Rightarrow> 32 word \<Rightarrow> 8 word list \<Rightarrow> ('h, 'd) mem \<Rightarrow> mem_error + ('h, 'd) mem" where
  "mem_write cpu a data m =
     (if unat a < mem_len m \<and> \<not> is_bios a then
        (if \<not> dos_hole a then
           (if host_width (length data) then and_then (get_vector a m) (\<lambda>(p, m'). Inr (poke p data m'))
            else write_bytes a data m)
         else write_hole (cpu \<noteq> None) a data m)
      else Inr m)"

definition crosses_page :: "32 word \<Rightarrow> nat \<Rightarrow> bool" where
  "crosses_page a n \<longleftrightarrow> drop_bit 12 a \<noteq> drop_bit 12 (a + of_nat n - 1)"

definition writePhysicalPage :: "('h, 'd) handler_ops \<Rightarrow> mem_client option \<Rightarrow> 32 word \<Rightarrow> 8 word list \<Rightarrow>
    ('h, 'd) mem \<Rightarrow> mem_error + ('h, 'd) mem" where
  "writePhysicalPage ops cpu addr data m = (let a = addr AND a20_mask m in
     if crosses_page addr (length data) then Inl CrossPage
     else if smram_access cpu a m then mem_write cpu a data m
     else (case try_write ops (memory_handlers m (unat (drop_bit 20 a))) a data (devs m) of
             (done, d) \<Rightarrow> if done then Inr (m\<lparr>devs := d\<rparr>) else mem_write cpu a data (m\<lparr>devs := d\<rparr>)))"

subsection \<open>Reading\<close>

text \<open>\<open>buf\<close> is what the buffer of the caller holds; some bytes may keep it.\<close>

definition rom_byte :: "32 word \<Rightarrow> ('h, 'd) mem \<Rightarrow> 8 word" where
  "rom_byte a m = (if a AND 0xFFFE0000 = 0xE0000 then rom m (unat (a AND BIOS_MASK))
                   else rom m (unat (a AND EXROM_MASK) + BIOSROMSZ))"

fun read_bytes :: "32 word \<Rightarrow> 8 word list \<Rightarrow> ('h, 'd) mem \<Rightarrow> mem_error + 8 word list \<times> ('h, 'd) mem" where
  "read_bytes a [] m = Inr ([], m)"
| "read_bytes a (b # bs) m = and_then (get_vector a m) (\<lambda>(p, m').
     and_then (read_bytes (a + 1) bs m') (\<lambda>(r, m''). Inr (vector m' p # r, m'')))"

definition vector_byte :: "32 word \<Rightarrow> ('h, 'd) mem \<Rightarrow> mem_error + 8 word \<times> ('h, 'd) mem" where
  "vector_byte a m = and_then (get_vector a m) (\<lambda>(p, m'). Inr (vector m' p, m'))"

fun read_hole :: "bool \<Rightarrow> 32 word \<Rightarrow> 8 word list \<Rightarrow> ('h, 'd) mem \<Rightarrow> mem_error + 8 word list \<times> ('h, 'd) mem" where
  "read_hole cpu a [] m = Inr ([], m)"
| "read_hole cpu a (b # bs) m = and_then
     (if a < 0xC0000 then (if cpu then vector_byte a m else Inr (b, m))
      else if pci_enabled m \<and> a AND 0xFFFC0000 = 0xC0000 then
        (if rd_memType a m then vector_byte a m else Inr (rom_byte a m, m))
      else if a AND 0xFFFC0000 \<noteq> 0xC0000 then vector_byte a m
      else Inr (rom_byte a m, m))
     (\<lambda>(x, m'). and_then (read_hole cpu (a + 1) bs m') (\<lambda>(r, m''). Inr (x # r, m'')))"

definition mem_read :: "mem_client option \<Rightarrow> 32 word \<Rightarrow> 8 word list \<Rightarrow> ('h, 'd) mem \<Rightarrow>
    mem_error + 8 word list \<times> ('h, 'd) mem" where
  "mem_read cpu a buf m =
     (if unat a \<le> mem_len m \<and> \<not> is_bios a then
        (if \<not> dos_hole a then
           (if host_width (length buf) then and_then (get_vector a m) (\<lambda>(p, m'). Inr (peek p (length buf) m', m'))
            else read_bytes a buf m)
         else read_hole (cpu \<noteq> None) a buf m)
      else if a \<ge> NOT BIOS_MASK then
        Inr (map (\<lambda>i. rom m (unat ((a + of_nat i) AND BIOS_MASK))) [0..<length buf], m)
      else Inr (replicate (length buf) 0xFF, m))"

definition readPhysicalPage :: "('h, 'd) handler_ops \<Rightarrow> mem_client option \<Rightarrow> 32 word \<Rightarrow> 8 word list \<Rightarrow>
    ('h, 'd) mem \<Rightarrow> mem_error + 8 word list \<times> ('h, 'd) mem" where
  "readPhysicalPage ops cpu addr buf m = (let a = addr AND a20_mask m in
     if crosses_page addr (length buf) then Inl CrossPage
     else if smram_access cpu a m then mem_read cpu a buf m
     else (case try_read ops (memory_handlers m (unat (drop_bit 20 a))) a buf (devs m) of
             (done, buf', d) \<Rightarrow> if done then Inr (buf', m\<lparr>devs := d\<rparr>) else mem_read cpu a buf' (m\<lparr>devs := d\<rparr>)))"

subsection \<open>Direct access\<close>

datatype access = BX_READ | BX_WRITE | BX_EXECUTE | BX_RW

datatype host_ptr = Vec nat | Rom nat | Bogus nat

definition ram_pointer :: "32 word \<Rightarrow> ('h, 'd) mem \<Rightarrow> mem_error + host_ptr option \<times> ('h, 'd) mem" where
  "ram_pointer a m = and_then (get_vector a m) (\<lambda>(p, m'). Inr (Some (Vec p), m'))"

definition rom_pointer :: "32 word \<Rightarrow> host_ptr" where
  "rom_pointer a = (if a AND 0xFFFE0000 = 0xE0000 then Rom (unat (a AND BIOS_MASK))
                    else Rom (unat (a AND EXROM_MASK) + BIOSROMSZ))"

definition getHostMemAddr :: "mem_client option \<Rightarrow> 32 word \<Rightarrow> access \<Rightarrow> ('h, 'd) mem \<Rightarrow>
    mem_error + host_ptr option \<times> ('h, 'd) mem" where
  "getHostMemAddr cpu addr rw m = (let a = addr AND a20_mask m; write = (rw = BX_WRITE \<or> rw = BX_RW) in
     if (case cpu of None \<Rightarrow> False | Some c \<Rightarrow> is_selected a c) then Inr (None, m)
     else if (case cpu of None \<Rightarrow> False | Some c \<Rightarrow> rw = BX_EXECUTE \<and> 0xA0000 \<le> a \<and> a < 0xC0000 \<and>
                smram_available m \<and> (smram_enable m \<or> smm_mode c)) then ram_pointer a m
     else if list_ex (\<lambda>h. covers h a) (memory_handlers m (unat (drop_bit 20 a))) then Inr (None, m)
     else if \<not> write then
       (if 0xA0000 \<le> a \<and> a < 0xC0000 then Inr (None, m)
        else if pci_enabled m \<and> 0xC0000 \<le> a \<and> a < 0x100000 then
          (if rd_memType a m then ram_pointer a m else Inr (Some (rom_pointer a), m))
        else if unat a < mem_len m \<and> \<not> is_bios a then
          (if a < 0xC0000 \<or> a \<ge> 0x100000 then ram_pointer a m else Inr (Some (rom_pointer a), m))
        else if a \<ge> NOT BIOS_MASK then Inr (Some (Rom (unat (a AND BIOS_MASK))), m)
        else Inr (Some (Bogus (unat (a AND 0xFFF))), m))
     else
       (if unat a \<ge> mem_len m \<or> is_bios a then Inr (None, m)
        else if 0xA0000 \<le> a \<and> a < 0xC0000 then Inr (None, m)
        else if pci_enabled m \<and> 0xC0000 \<le> a \<and> a < 0x100000 then Inr (None, m)
        else if a < 0xC0000 \<or> a \<ge> 0x100000 then ram_pointer a m
        else Inr (None, m)))"

text \<open>Loading through a host pointer.\<close>

fun load_host :: "host_ptr \<Rightarrow> nat \<Rightarrow> ('h, 'd) mem \<Rightarrow> 8 word list" where
  "load_host (Vec p) n m = peek p n m"
| "load_host (Rom p) n m = map (\<lambda>i. rom m (p + i)) [0..<n]"
| "load_host (Bogus p) n m = map (\<lambda>i. bogus m (p + i)) [0..<n]"

fun shift_ptr :: "nat \<Rightarrow> host_ptr \<Rightarrow> host_ptr" where
  "shift_ptr k (Vec p) = Vec (p + k)" | "shift_ptr k (Rom p) = Rom (p + k)" | "shift_ptr k (Bogus p) = Bogus (p + k)"

subsection \<open>Accesses of devices\<close>

definition page_rest :: "32 word \<Rightarrow> nat" where "page_rest a = 0x1000 - unat (a AND 0xFFF)"

definition DEV_MEM_READ_PHYSICAL :: "('h, 'd) handler_ops \<Rightarrow> 32 word \<Rightarrow> 8 word list \<Rightarrow> ('h, 'd) mem \<Rightarrow>
    mem_error + 8 word list \<times> ('h, 'd) mem" where
  "DEV_MEM_READ_PHYSICAL ops a buf m = (let r = page_rest a in
     if length buf \<le> r then readPhysicalPage ops None a buf m
     else and_then (readPhysicalPage ops None a (take r buf) m) (\<lambda>(x, m').
       and_then (readPhysicalPage ops None (a + of_nat r) (drop r buf) m') (\<lambda>(y, m''). Inr (x @ y, m''))))"

definition DEV_MEM_WRITE_PHYSICAL :: "('h, 'd) handler_ops \<Rightarrow> 32 word \<Rightarrow> 8 word list \<Rightarrow> ('h, 'd) mem \<Rightarrow>
    mem_error + ('h, 'd) mem" where
  "DEV_MEM_WRITE_PHYSICAL ops a data m = (let r = page_rest a in
     if length data \<le> r then writePhysicalPage ops None a data m
     else and_then (writePhysicalPage ops None a (take r data) m) (\<lambda>m'.
       writePhysicalPage ops None (a + of_nat r) (drop r data) m'))"

subsection \<open>ROM images\<close>

text \<open>\<open>img\<close> is the file: \<^const>\<open>None\<close> when it cannot be opened. \<open>w\<close> is the number of bits of
  \<^verbatim>\<open>unsigned long\<close>, in which the end of the image is computed. A checksum error of a system or
  optional ROM is only logged.\<close>

definition store_rom :: "nat \<Rightarrow> 8 word list \<Rightarrow> ('h, 'd) mem \<Rightarrow> ('h, 'd) mem" where
  "store_rom p data m = m\<lparr>rom := (\<lambda>i. if p \<le> i \<and> i < p + length data then data ! (i - p) else rom m i)\<rparr>"

definition check_rom :: "32 word \<Rightarrow> nat \<Rightarrow> nat \<Rightarrow> 8 word list \<Rightarrow> ('h, 'd) mem \<Rightarrow> mem_error + ('h, 'd) mem" where
  "check_rom romaddress typ p data m =
     (if (romaddress AND 0xFFFFF \<noteq> 0xE0000 \<or> rom m p = 0x55 \<and> rom m (p + 1) = 0xAA) \<and>
         sum_list data \<noteq> 0 \<and> typ = 1 then Inl BadImage else Inr m)"

definition rom_pages :: "32 word \<Rightarrow> nat \<Rightarrow> nat list" where
  "rom_pages romaddress sz = (if romaddress < 0xE0000
     then (let start = unat (drop_bit 11 (romaddress - 0xC0000)) in
       [start ..< start + sz div 2048 + (if sz mod 2048 > 0 then 1 else 0)])
     else [])"

definition load_ROM :: "nat \<Rightarrow> 8 word list option \<Rightarrow> 32 word \<Rightarrow> nat \<Rightarrow> ('h, 'd) mem \<Rightarrow> mem_error + ('h, 'd) mem" where
  "load_ROM w img romaddress typ m = (case img of
     None \<Rightarrow> (if typ < 2 then Inl BadImage else Inr m)
   | Some data \<Rightarrow> (let sz = length data in
       if sz > (if typ > 0 then 0x20000 else BIOSROMSZ) then Inl BadImage
       else if typ = 0 then
         (let last = (unat romaddress + sz) mod 2 ^ w;
              addr = (if romaddress > 0 then romaddress else - of_nat sz);
              p = unat (addr AND BIOS_MASK);
              m1 = (if addr AND 0xF0000 < 0xF0000 then m\<lparr>rom_present := (rom_present m)(64 := True)\<rparr> else m)
          in if romaddress > 0 \<and> last \<noteq> 0x100000 \<and> last \<noteq> 0 then Inl BadImage
             else check_rom addr typ p data (store_rom p data m1))
       else if sz mod 512 \<noteq> 0 \<or> unat romaddress mod 2048 \<noteq> 0 then Inl BadImage
       else if romaddress < 0xC0000 \<or> (unat romaddress + sz) mod 2 ^ w > 0xE0000 \<and> romaddress < 0xE0000 then Inl BadImage
       else if list_ex (rom_present m) (rom_pages romaddress sz) then Inl BadImage
       else (let p = (if romaddress < 0xE0000 then unat (romaddress AND EXROM_MASK) + BIOSROMSZ
                      else unat (romaddress AND BIOS_MASK));
                 m1 = m\<lparr>rom_present := (\<lambda>i. i \<in> set (rom_pages romaddress sz) \<or> rom_present m i)\<rparr>
             in check_rom romaddress typ p data (store_rom p data m1))))"
section \<open>Blocks\<close>

definition mem_ok :: "('h, 'd) mem \<Rightarrow> bool" where
  "mem_ok m \<longleftrightarrow> mem_len m mod BX_MEM_BLOCK_LEN = 0 \<and>
     (\<forall>i b. blocks m i = Some b \<longrightarrow> i < mem_len m div BX_MEM_BLOCK_LEN \<and> b < used_blocks m) \<and>
     inj_on (blocks m) (dom (blocks m)) \<and> card (dom (blocks m)) = used_blocks m \<and>
     used_blocks m \<le> allocated m div BX_MEM_BLOCK_LEN"

definition host_of :: "('h, 'd) mem \<Rightarrow> nat \<Rightarrow> nat option" where
  "host_of m x = map_option (\<lambda>b. b * BX_MEM_BLOCK_LEN + x mod BX_MEM_BLOCK_LEN) (blocks m (x div BX_MEM_BLOCK_LEN))"

definition byte_at :: "('h, 'd) mem \<Rightarrow> nat \<Rightarrow> 8 word option" where
  "byte_at m x = map_option (vector m) (host_of m x)"

lemma block_pos [simp]: "0 < BX_MEM_BLOCK_LEN"
  by (simp add: BX_MEM_BLOCK_LEN_def)

lemma finite_blocks: "mem_ok m \<Longrightarrow> finite (dom (blocks m))"
  unfolding mem_ok_def
  by (rule finite_subset [of _ "{..< mem_len m div BX_MEM_BLOCK_LEN}"]) auto

lemma mem_okD:
  assumes "mem_ok m"
  shows "blocks m i = Some b \<Longrightarrow> i < mem_len m div BX_MEM_BLOCK_LEN"
    and "blocks m i = Some b \<Longrightarrow> b < used_blocks m"
    and "blocks m i = Some b \<Longrightarrow> blocks m j = Some b \<Longrightarrow> i = j"
  using assms unfolding mem_ok_def by (blast, blast, metis domI inj_onD)

lemma host_inj:
  assumes "mem_ok m" "host_of m x = Some p" "host_of m y = Some p"
  shows "x = y"
proof -
  obtain b c where bc: "blocks m (x div BX_MEM_BLOCK_LEN) = Some b" "blocks m (y div BX_MEM_BLOCK_LEN) = Some c"
    and eq: "b * BX_MEM_BLOCK_LEN + x mod BX_MEM_BLOCK_LEN = c * BX_MEM_BLOCK_LEN + y mod BX_MEM_BLOCK_LEN"
    using assms(2,3) by (auto simp: host_of_def)
  have "(b * BX_MEM_BLOCK_LEN + x mod BX_MEM_BLOCK_LEN) div BX_MEM_BLOCK_LEN = b"
    "(c * BX_MEM_BLOCK_LEN + y mod BX_MEM_BLOCK_LEN) div BX_MEM_BLOCK_LEN = c" by simp_all
  hence "b = c" using eq by simp
  hence "x mod BX_MEM_BLOCK_LEN = y mod BX_MEM_BLOCK_LEN" using eq by simp
  moreover have "x div BX_MEM_BLOCK_LEN = y div BX_MEM_BLOCK_LEN"
    using mem_okD(3) [OF assms(1)] bc \<open>b = c\<close> by blast
  ultimately show ?thesis by (metis div_mult_mod_eq)
qed

text \<open>Allocating a block keeps the invariant, and with as much host memory as guest memory it
  never fails.\<close>

lemma allocate_ok:
  assumes "mem_ok m" "blocks m i = None" "i < mem_len m div BX_MEM_BLOCK_LEN" "allocate_block i m = Inr m'"
  shows "mem_ok m'"
  using assms finite_blocks [OF assms(1)]
  by (auto simp: mem_ok_def allocate_block_def inj_on_def domIff split: if_splits)
     (force simp: less_Suc_eq)+

lemma room_for_block:
  assumes "mem_ok m" "mem_len m \<le> allocated m" "blocks m i = None" "i < mem_len m div BX_MEM_BLOCK_LEN"
  shows "used_blocks m < allocated m div BX_MEM_BLOCK_LEN"
proof -
  have "dom (blocks m) \<subset> {..< mem_len m div BX_MEM_BLOCK_LEN}"
    using assms by (auto simp: mem_ok_def)
  hence "card (dom (blocks m)) < mem_len m div BX_MEM_BLOCK_LEN"
    using psubset_card_mono [of "{..< mem_len m div BX_MEM_BLOCK_LEN}"] by simp
  thus ?thesis using assms(1,2) div_le_mono [OF assms(2), of BX_MEM_BLOCK_LEN] by (simp add: mem_ok_def)
qed

lemma get_vector_returns:
  assumes "mem_ok m" "mem_len m \<le> allocated m" "unat a < mem_len m"
  obtains p m' where "get_vector a m = Inr (p, m')"
proof -
  have i: "unat a div BX_MEM_BLOCK_LEN < mem_len m div BX_MEM_BLOCK_LEN"
    using assms(1,3) by (auto simp: mem_ok_def less_mult_imp_div_less mod_eq_0_iff_dvd dvd_def algebra_simps)
  show ?thesis
  proof (cases "blocks m (unat a div BX_MEM_BLOCK_LEN)")
    case None
    thus ?thesis using that i room_for_block [OF assms(1,2) None i]
      by (simp add: get_vector_def Let_def allocate_block_def)
  qed (use that i in \<open>simp add: get_vector_def Let_def\<close>)
qed

text \<open>The states that a lookup may lead to: the same memory with more blocks allocated.\<close>

definition extends :: "('h, 'd) mem \<Rightarrow> ('h, 'd) mem \<Rightarrow> bool" where
  "extends m m' \<longleftrightarrow> m' = m\<lparr>blocks := blocks m', used_blocks := used_blocks m'\<rparr> \<and> blocks m \<subseteq>\<^sub>m blocks m'"

lemma extends_refl [simp]: "extends m m"
  by (simp add: extends_def)

lemma extends_fields:
  assumes "extends m m'"
  shows "a20_mask m' = a20_mask m" "pci_conf m' = pci_conf m" "memory_handlers m' = memory_handlers m"
    "pci_enabled m' = pci_enabled m" "smram_available m' = smram_available m" "smram_enable m' = smram_enable m"
    "smram_restricted m' = smram_restricted m" "mem_len m' = mem_len m" "allocated m' = allocated m"
    "vector m' = vector m" "rom m' = rom m" "bogus m' = bogus m" "devs m' = devs m"
proof -
  obtain bl u where "m' = m\<lparr>blocks := bl, used_blocks := u\<rparr>" using assms extends_def by blast
  thus "a20_mask m' = a20_mask m" "pci_conf m' = pci_conf m" "memory_handlers m' = memory_handlers m"
    "pci_enabled m' = pci_enabled m" "smram_available m' = smram_available m" "smram_enable m' = smram_enable m"
    "smram_restricted m' = smram_restricted m" "mem_len m' = mem_len m" "allocated m' = allocated m"
    "vector m' = vector m" "rom m' = rom m" "bogus m' = bogus m" "devs m' = devs m" by simp_all
qed

lemma get_vector_extends: "get_vector a m = Inr (p, m') \<Longrightarrow> extends m m'"
  by (auto simp: get_vector_def Let_def extends_def allocate_block_def and_then_Inr map_le_def split: if_splits)

lemma get_vector_host: "get_vector a m = Inr (p, m') \<Longrightarrow> host_of m' (unat a) = Some p"
  by (auto simp: get_vector_def Let_def host_of_def allocate_block_def and_then_Inr split: if_splits)

lemma get_vector_ok: "mem_ok m \<Longrightarrow> get_vector a m = Inr (p, m') \<Longrightarrow> mem_ok m'"
  by (auto simp: get_vector_def Let_def and_then_Inr not_le intro: allocate_ok split: if_splits)

lemma get_vector_again: "mem_ok m \<Longrightarrow> host_of m (unat a) = Some p \<Longrightarrow> get_vector a m = Inr (p, m)"
  using mem_okD(1) [of m "unat a div BX_MEM_BLOCK_LEN"] by (auto simp: get_vector_def host_of_def Let_def)

lemma extends_host: "extends m m' \<Longrightarrow> host_of m x = Some p \<Longrightarrow> host_of m' x = Some p"
  by (auto simp: extends_def host_of_def map_le_def domIff) (metis domI)

lemma extends_byte: "extends m m' \<Longrightarrow> byte_at m x = Some v \<Longrightarrow> byte_at m' x = Some v"
  by (auto simp: byte_at_def extends_fields dest: extends_host)

text \<open>Blocks are multiples of a page: inside a page host addresses are consecutive.\<close>

lemma same_block:
  assumes "x mod 4096 + k < 4096"
  shows "(x + k) div BX_MEM_BLOCK_LEN = x div BX_MEM_BLOCK_LEN"
    "(x + k) mod BX_MEM_BLOCK_LEN = x mod BX_MEM_BLOCK_LEN + k"
proof -
  have "x mod BX_MEM_BLOCK_LEN mod 4096 = x mod 4096"
    by (rule mod_mod_cancel) (simp add: BX_MEM_BLOCK_LEN_def)
  moreover have "x mod BX_MEM_BLOCK_LEN div 4096 < 256"
    using mod_less_divisor [of BX_MEM_BLOCK_LEN x] by (simp add: BX_MEM_BLOCK_LEN_def less_mult_imp_div_less)
  ultimately have "x mod BX_MEM_BLOCK_LEN + k < BX_MEM_BLOCK_LEN"
    using assms div_mult_mod_eq [of "x mod BX_MEM_BLOCK_LEN" 4096] by (simp add: BX_MEM_BLOCK_LEN_def)
  moreover have "x + k = x div BX_MEM_BLOCK_LEN * BX_MEM_BLOCK_LEN + (x mod BX_MEM_BLOCK_LEN + k)" by simp
  ultimately show "(x + k) div BX_MEM_BLOCK_LEN = x div BX_MEM_BLOCK_LEN"
    "(x + k) mod BX_MEM_BLOCK_LEN = x mod BX_MEM_BLOCK_LEN + k"
    by (metis div_mult_self3 div_less add.right_neutral block_pos neq0_conv add.commute,
        metis mod_mult_self3 mod_less)
qed

lemma host_of_page: "x mod 4096 + k < 4096 \<Longrightarrow> host_of m x = Some p \<Longrightarrow> host_of m (x + k) = Some (p + k)"
  by (auto simp: host_of_def same_block)

subsection \<open>Accesses to RAM\<close>

text \<open>\<open>in_page a n\<close>: the \<open>n\<close> bytes at \<open>a\<close> lie in one page. For such an access the byte loops do what one
  host access does.\<close>

definition in_page :: "32 word \<Rightarrow> nat \<Rightarrow> bool" where
  "in_page a n \<longleftrightarrow> 0 < n \<and> unat a mod 4096 + n \<le> 4096"

lemma unat_page_add:
  assumes "unat a mod 4096 + k < 4096"
  shows "unat (a + of_nat k :: 32 word) = unat a + k"
proof -
  have "unat a < 2 ^ 32" using unsigned_less [of a] by simp
  hence "unat a div 4096 < 1048576" by (simp add: less_mult_imp_div_less)
  hence "unat a + k < 4294967296" using assms div_mult_mod_eq [of "unat a" 4096] by linarith
  thus ?thesis using assms by (simp add: unat_word_ariths unat_of_nat take_bit_eq_mod)
qed

lemma in_page_Suc: "in_page a (Suc (Suc n)) \<Longrightarrow> in_page (a + 1) (Suc n)"
  using unat_page_add [of a 1] mod_Suc [of "unat a" 4096] by (auto simp: in_page_def)

lemma poke_fields [simp]:
  "a20_mask (poke p d m) = a20_mask m" "pci_conf (poke p d m) = pci_conf m"
  "memory_handlers (poke p d m) = memory_handlers m" "pci_enabled (poke p d m) = pci_enabled m"
  "mem_len (poke p d m) = mem_len m" "allocated (poke p d m) = allocated m" "blocks (poke p d m) = blocks m"
  "used_blocks (poke p d m) = used_blocks m" "rom (poke p d m) = rom m" "devs (poke p d m) = devs m"
  "smram_available (poke p d m) = smram_available m" "smram_enable (poke p d m) = smram_enable m"
  "smram_restricted (poke p d m) = smram_restricted m" "bogus (poke p d m) = bogus m"
  by (simp_all add: poke_def)

lemma mem_ok_poke [simp]: "mem_ok (poke p d m) = mem_ok m"
  by (simp add: mem_ok_def)

lemma host_of_poke [simp]: "host_of (poke p d m) x = host_of m x"
  by (simp add: host_of_def)

lemma poke_Nil [simp]: "poke p [] m = m"
proof -
  have "(\<lambda>i. if p \<le> i \<and> i < p + length [] then [] ! (i - p) else vector m i) = vector m"
    by (rule ext) auto
  thus ?thesis by (simp only: poke_def) simp
qed

lemma poke_Cons: "poke (Suc p) bs (poke p [b] m) = poke p (b # bs) m"
  by (auto simp: poke_def fun_eq_iff nth_Cons' intro!: arg_cong [of _ _ "\<lambda>f. m\<lparr>vector := f\<rparr>"])

lemma write_bytes_page:
  assumes "mem_ok m" "in_page a (length data)"
  shows "write_bytes a data m = and_then (get_vector a m) (\<lambda>(p, m'). Inr (poke p data m'))"
  using assms
proof (induction data arbitrary: a m)
  case Nil thus ?case by (simp add: in_page_def)
next
  case (Cons b bs)
  show ?case
  proof (cases "get_vector a m")
    case (Inr pm)
    obtain p m' where pm: "pm = (p, m')" by (cases pm)
    note g = Inr [unfolded pm]
    show ?thesis
    proof (cases bs)
      case (Cons c cs)
      have page: "in_page (a + 1) (length bs)" using Cons.prems(2) Cons in_page_Suc by simp
      have "unat (a + 1) = unat a + 1" using Cons.prems(2) Cons unat_page_add [of a 1] by (simp add: in_page_def)
      hence "host_of (poke p [b] m') (unat (a + 1)) = Some (p + 1)"
        using host_of_page [of "unat a" 1 m' p] get_vector_host [OF g] Cons.prems(2) Cons by (simp add: in_page_def)
      hence "get_vector (a + 1) (poke p [b] m') = Inr (p + 1, poke p [b] m')"
        using get_vector_again [of "poke p [b] m'" "a + 1"] get_vector_ok [OF Cons.prems(1) g] by simp
      thus ?thesis using g Cons.IH [OF _ page, of "poke p [b] m'"] get_vector_ok [OF Cons.prems(1) g]
        by (simp add: poke_Cons)
    qed (use g in simp)
  qed simp
qed

lemma read_bytes_page:
  assumes "mem_ok m" "in_page a (length buf)"
  shows "read_bytes a buf m = and_then (get_vector a m) (\<lambda>(p, m'). Inr (peek p (length buf) m', m'))"
  using assms
proof (induction buf arbitrary: a m)
  case Nil thus ?case by (simp add: in_page_def)
next
  case (Cons b bs)
  show ?case
  proof (cases "get_vector a m")
    case (Inr pm)
    obtain p m' where pm: "pm = (p, m')" by (cases pm)
    note g = Inr [unfolded pm]
    show ?thesis
    proof (cases bs)
      case (Cons c cs)
      have page: "in_page (a + 1) (length bs)" using Cons.prems(2) Cons in_page_Suc by simp
      have "unat (a + 1) = unat a + 1" using Cons.prems(2) Cons unat_page_add [of a 1] by (simp add: in_page_def)
      hence "host_of m' (unat (a + 1)) = Some (p + 1)"
        using host_of_page [of "unat a" 1 m' p] get_vector_host [OF g] Cons.prems(2) Cons by (simp add: in_page_def)
      hence "get_vector (a + 1) m' = Inr (p + 1, m')"
        using get_vector_again get_vector_ok [OF Cons.prems(1) g] by simp
      thus ?thesis using g Cons.IH [OF get_vector_ok [OF Cons.prems(1) g] page]
        by (simp add: peek_def upt_conv_Cons map_Suc_upt [symmetric] del: upt_Suc)
    qed (use g in \<open>simp add: peek_def\<close>)
  qed simp
qed

text \<open>The A20 mask of \<^verbatim>\<open>pc_system.cc\<close> is one of two values; it does not touch the offset in the page.\<close>

definition a20_ok :: "('h, 'd) mem \<Rightarrow> bool" where
  "a20_ok m \<longleftrightarrow> a20_mask m = 0xFFFFFFFF \<or> a20_mask m = 0xFFEFFFFF"

lemma unat_page_offset: "unat (a AND 0xFFF :: 32 word) = unat a mod 4096"
proof -
  have "a AND 0xFFF = take_bit 12 a" by (simp add: take_bit_eq_mask mask_eq_exp_minus_1)
  thus ?thesis by (simp add: take_bit_eq_mod unat_mod_distrib)
qed

lemma a20_offset: "a20_ok m \<Longrightarrow> unat (a AND a20_mask m) mod 4096 = unat a mod 4096"
  unfolding unat_page_offset [symmetric] by (auto simp: a20_ok_def and.assoc)

lemma drop_bit_12: "unat (drop_bit 12 (a :: 32 word)) = unat a div 4096"
  by (simp add: drop_bit_eq_div unat_div_distrib)

lemma nat_mod_once: "m \<le> x \<Longrightarrow> x < 2 * m \<Longrightarrow> x mod m = x - m" for x m :: nat
  by (metis le_add_diff_inverse mod_add_self1 mod_less mult_2 nat_add_left_cancel_less)

lemma not_crosses_page:
  assumes "0 < n" "n \<le> 4096"
  shows "\<not> crosses_page a n \<longleftrightarrow> unat a mod 4096 + n \<le> 4096"
proof -
  obtain k where n: "n = Suc k" using assms by (cases n) simp_all
  have eq: "a + of_nat n - 1 = a + of_nat k" by (simp add: n)
  have div: "unat a div 4096 * 4096 + unat a mod 4096 = unat a" by (rule div_mult_mod_eq)
  have "(drop_bit 12 a = drop_bit 12 (a + of_nat k)) = (unat a mod 4096 + k < 4096)"
  proof (cases "unat a mod 4096 + k < 4096")
    case True
    have "(unat a + k) div 4096 = unat a div 4096"
    proof (intro div_nat_eqI)
      show "4096 * (unat a div 4096) \<le> unat a + k" using div by linarith
      show "unat a + k < 4096 * Suc (unat a div 4096)" using True div unfolding mult_Suc_right by linarith
    qed
    thus ?thesis using True unat_page_add [OF True] by (simp add: word_unat_eq_iff drop_bit_12)
  next
    case False
    have "unat a div 4096 \<noteq> unat (a + of_nat k) div 4096"
    proof (cases "unat a + k < 2 ^ 32")
      case True
      have "Suc (unat a div 4096) * 4096 \<le> unat a + k" using False div unfolding mult_Suc by linarith
      hence "Suc (unat a div 4096) \<le> (unat a + k) div 4096"
        by (simp only: less_eq_div_iff_mult_less_eq zero_less_numeral)
      moreover have "unat (a + of_nat k) = unat a + k"
        using True by (simp add: unat_word_ariths unat_of_nat take_bit_eq_mod)
      ultimately show ?thesis by simp
    next
      case wrap: False
      have less: "unat a < 4294967296" using unsigned_less [of a] by simp
      hence "unat (a + of_nat k) = unat a + k - 4294967296"
        using wrap assms n by (simp add: unat_word_ariths unat_of_nat take_bit_eq_mod nat_mod_once)
      hence "unat (a + of_nat k) div 4096 = 0" using assms n less by simp
      moreover have "unat a div 4096 \<noteq> 0" using wrap assms n by (simp add: div_eq_0_iff)
      ultimately show ?thesis by simp
    qed
    thus ?thesis using False by (simp add: word_unat_eq_iff drop_bit_12)
  qed
  thus ?thesis by (simp only: crosses_page_def eq) (simp add: n Suc_le_eq)
qed

text \<open>\<open>ram m a n\<close>: the access is to memory that neither a device nor a ROM nor the hole below one megabyte
  claims.\<close>

definition ram :: "('h, 'd) mem \<Rightarrow> 32 word \<Rightarrow> nat \<Rightarrow> bool" where
  "ram m a n \<longleftrightarrow> in_page a n \<and> unat a < mem_len m \<and> \<not> is_bios a \<and> \<not> dos_hole a \<and>
     (\<forall>h \<in> set (memory_handlers m (unat (drop_bit 20 a))). \<not> covers h a)"

lemma try_write_none: "\<forall>h \<in> set hs. \<not> covers h a \<Longrightarrow> try_write ops hs a data d = (False, d)"
  by (induction hs) auto

lemma try_read_none: "\<forall>h \<in> set hs. \<not> covers h a \<Longrightarrow> try_read ops hs a data d = (False, data, d)"
  by (induction hs) auto

lemma devs_id [simp]: "m\<lparr>devs := devs m\<rparr> = m"
  by simp

lemma in_page_crosses: "in_page a n \<Longrightarrow> n \<le> 4096 \<and> 0 < n"
  by (simp add: in_page_def)

lemma not_hole_smram: "\<not> dos_hole a \<Longrightarrow> \<not> smram_access cpu a m"
  by (auto simp: dos_hole_def smram_access_def word_less_nat_alt word_le_nat_alt split: option.splits)

lemma write_ram:
  assumes "mem_ok m" "a20_ok m" "ram m (addr AND a20_mask m) (length data)"
  shows "writePhysicalPage ops cpu addr data m =
    and_then (get_vector (addr AND a20_mask m) m) (\<lambda>(p, m'). Inr (poke p data m'))"
proof -
  let ?a = "addr AND a20_mask m"
  have page: "in_page ?a (length data)" using assms(3) by (simp add: ram_def)
  hence "\<not> crosses_page addr (length data)"
    using not_crosses_page [of "length data" addr] a20_offset [OF assms(2), of addr] by (simp add: in_page_def)
  thus ?thesis using assms(3) not_hole_smram [of ?a cpu m] write_bytes_page [OF assms(1) page]
    by (simp add: writePhysicalPage_def Let_def ram_def try_write_none mem_write_def)
qed

lemma read_ram:
  assumes "mem_ok m" "a20_ok m" "ram m (addr AND a20_mask m) (length buf)"
  shows "readPhysicalPage ops cpu addr buf m =
    and_then (get_vector (addr AND a20_mask m) m) (\<lambda>(p, m'). Inr (peek p (length buf) m', m'))"
proof -
  let ?a = "addr AND a20_mask m"
  have page: "in_page ?a (length buf)" using assms(3) by (simp add: ram_def)
  hence "\<not> crosses_page addr (length buf)"
    using not_crosses_page [of "length buf" addr] a20_offset [OF assms(2), of addr] by (simp add: in_page_def)
  thus ?thesis using assms(3) not_hole_smram [of ?a cpu m] read_bytes_page [OF assms(1) page]
    by (simp add: readPhysicalPage_def Let_def ram_def try_read_none mem_read_def)
qed

lemma length_peek [simp]: "length (peek p n m) = n"
  by (simp add: peek_def)

lemma vector_poke: "vector (poke p data m) i = (if p \<le> i \<and> i < p + length data then data ! (i - p) else vector m i)"
  by (simp add: poke_def)

lemma poke_byte:
  assumes "mem_ok m" "host_of m x = Some p" "x mod 4096 + length data \<le> 4096"
  shows "byte_at (poke p data m) y =
    (if x \<le> y \<and> y < x + length data then Some (data ! (y - x)) else byte_at m y)"
proof (cases "x \<le> y \<and> y < x + length data")
  case True
  hence "host_of m (x + (y - x)) = Some (p + (y - x))" using assms by (intro host_of_page) linarith+
  hence "host_of m y = Some (p + (y - x))" using True by simp
  moreover have "p \<le> p + (y - x)" "p + (y - x) < p + length data" using True by linarith+
  ultimately show ?thesis using True by (simp add: byte_at_def vector_poke)
next
  case out: False
  have "\<not> (p \<le> q \<and> q < p + length data)" if q: "host_of m y = Some q" for q
  proof
    assume r: "p \<le> q \<and> q < p + length data"
    hence "host_of m (x + (q - p)) = Some q" using host_of_page [of x "q - p" m p] assms by auto
    hence "y = x + (q - p)" by (rule host_inj [OF assms(1) q])
    thus False using out r by auto
  qed
  thus ?thesis using out by (cases "host_of m y") (auto simp: byte_at_def vector_poke)
qed

lemma peek_byte:
  assumes "host_of m x = Some p" "x mod 4096 + n \<le> 4096" "i < n"
  shows "byte_at m (x + i) = Some (peek p n m ! i)"
  using host_of_page [of x i m p] assms by (simp add: peek_def byte_at_def)

text \<open>Reads and writes of RAM in terms of the bytes of the guest: the flat memory that the blocks stand for.\<close>

lemma ram_write:
  assumes ok: "mem_ok m" "a20_ok m" "mem_len m \<le> allocated m"
    and ram: "ram m (addr AND a20_mask m) (length data)"
  obtains m' where "writePhysicalPage ops cpu addr data m = Inr m'" "mem_ok m'"
    "\<And>i. i < length data \<Longrightarrow> byte_at m' (unat (addr AND a20_mask m) + i) = Some (data ! i)"
    "\<And>y v. byte_at m y = Some v \<Longrightarrow> \<not> (unat (addr AND a20_mask m) \<le> y \<and> y < unat (addr AND a20_mask m) + length data)
       \<Longrightarrow> byte_at m' y = Some v"
    "\<And>a n. ram m' a n = ram m a n" "a20_mask m' = a20_mask m" "mem_len m' = mem_len m" "allocated m' = allocated m"
proof -
  let ?a = "addr AND a20_mask m"
  have page: "unat ?a mod 4096 + length data \<le> 4096" and len: "unat ?a < mem_len m"
    using ram by (simp_all add: ram_def in_page_def)
  obtain p m1 where g: "get_vector ?a m = Inr (p, m1)" using get_vector_returns [OF ok(1,3) len] by blast
  note f = extends_fields [OF get_vector_extends [OF g]]
  note pb = poke_byte [OF get_vector_ok [OF ok(1) g] get_vector_host [OF g] page]
  show thesis
    by (rule that [of "poke p data m1"])
       (use write_ram [OF ok(1,2) ram] g get_vector_ok [OF ok(1) g] pb extends_byte [OF get_vector_extends [OF g]]
        in \<open>auto simp: Let_def ram_def f\<close>)
qed

lemma ram_read:
  assumes ok: "mem_ok m" "a20_ok m" "mem_len m \<le> allocated m"
    and ram: "ram m (addr AND a20_mask m) (length buf)"
  obtains r m' where "readPhysicalPage ops cpu addr buf m = Inr (r, m')" "mem_ok m'" "length r = length buf"
    "\<And>i. i < length buf \<Longrightarrow> byte_at m' (unat (addr AND a20_mask m) + i) = Some (r ! i)"
    "\<And>y v. byte_at m y = Some v \<Longrightarrow> byte_at m' y = Some v"
proof -
  let ?a = "addr AND a20_mask m"
  have page: "unat ?a mod 4096 + length buf \<le> 4096" and len: "unat ?a < mem_len m"
    using ram by (simp_all add: ram_def in_page_def)
  obtain p m1 where g: "get_vector ?a m = Inr (p, m1)" using get_vector_returns [OF ok(1,3) len] by blast
  have "readPhysicalPage ops cpu addr buf m = Inr (peek p (length buf) m1, m1)"
    using read_ram [OF ok(1,2) ram] g by simp
  thus thesis
    using that [OF _ get_vector_ok [OF ok(1) g] length_peek peek_byte [OF get_vector_host [OF g] page] extends_byte [OF get_vector_extends [OF g]]] by blast
qed

text \<open>C23. What is written to RAM is read back, and every other byte of RAM keeps its value: whatever the order in which
  the one-megabyte blocks were taken from the host, guest memory behaves as flat memory. With as much host
  memory as guest memory neither access fails.\<close>

theorem ram_keeps_bytes:
  assumes "mem_ok m" and "a20_ok m" and "mem_len m \<le> allocated m"
    and "ram m (a AND a20_mask m) (length data)" and "ram m (b AND a20_mask m) (length buf)"
  shows "\<exists>m' r m''. writePhysicalPage ops cpu a data m = Inr m' \<and> mem_ok m' \<and>
    readPhysicalPage ops cpu' b buf m' = Inr (r, m'') \<and> mem_ok m'' \<and> length r = length buf \<and>
    (\<forall>i < length buf. let x = unat (a AND a20_mask m); y = unat (b AND a20_mask m) + i in
       (x \<le> y \<and> y < x + length data \<longrightarrow> r ! i = data ! (y - x)) \<and>
       (\<forall>v. \<not> (x \<le> y \<and> y < x + length data) \<and> byte_at m y = Some v \<longrightarrow> r ! i = v))"
proof -
  obtain m' where w: "writePhysicalPage ops cpu a data m = Inr m'" "mem_ok m'"
    "\<And>i. i < length data \<Longrightarrow> byte_at m' (unat (a AND a20_mask m) + i) = Some (data ! i)"
    "\<And>y v. byte_at m y = Some v \<Longrightarrow> \<not> (unat (a AND a20_mask m) \<le> y \<and> y < unat (a AND a20_mask m) + length data)
       \<Longrightarrow> byte_at m' y = Some v"
    "\<And>a n. ram m' a n = ram m a n" "a20_mask m' = a20_mask m" "mem_len m' = mem_len m" "allocated m' = allocated m"
    using ram_write [OF assms(1-4)] by blast
  have ok: "a20_ok m'" "mem_len m' \<le> allocated m'" "ram m' (b AND a20_mask m') (length buf)"
    using assms w by (simp_all add: a20_ok_def)
  obtain r m'' where r: "readPhysicalPage ops cpu' b buf m' = Inr (r, m'')" "mem_ok m''" "length r = length buf"
    "\<And>i. i < length buf \<Longrightarrow> byte_at m'' (unat (b AND a20_mask m') + i) = Some (r ! i)"
    "\<And>y v. byte_at m' y = Some v \<Longrightarrow> byte_at m'' y = Some v"
    using ram_read [OF w(2) ok] by blast
  have "r ! i = v" if "i < length buf" "byte_at m' (unat (b AND a20_mask m) + i) = Some v" for i v
    using r(4) [OF that(1)] r(5) [OF that(2)] w(6) by simp
  moreover have "r ! i = data ! (unat (b AND a20_mask m) + i - unat (a AND a20_mask m))"
    if "i < length buf" "unat (a AND a20_mask m) \<le> unat (b AND a20_mask m) + i"
       "unat (b AND a20_mask m) + i < unat (a AND a20_mask m) + length data" for i
    using calculation [OF that(1)] w(3) [of "unat (b AND a20_mask m) + i - unat (a AND a20_mask m)"] that by simp
  ultimately show ?thesis using w r by (auto simp: Let_def)
qed

subsection \<open>Host pointers\<close>

text \<open>The TLB keeps the host pointer of a page and the instructions access memory through it. It has to give what
  the slow path gives for every byte of the page. \<open>a\<close> is the address of a page, \<open>k\<close> an offset in it.\<close>

definition page_addr :: "32 word \<Rightarrow> bool" where "page_addr a \<longleftrightarrow> unat a mod 4096 = 0"

lemma page_bits: "page_addr a \<longleftrightarrow> a AND 0xFFF = 0"
  by (simp add: page_addr_def unat_page_offset [symmetric] unat_eq_0)

lemma offset_bits: "k < 4096 \<Longrightarrow> of_nat k AND 0xFFF = (of_nat k :: 32 word)"
  by (simp add: word_unat_eq_iff unat_page_offset unat_of_nat take_bit_eq_mod)

lemma page_or:
  assumes "page_addr a" "k < 4096"
  shows "a + of_nat k = a OR (of_nat k :: 32 word)"
proof (rule disjunctive_add)
  fix n
  have "\<not> bit (a AND 0xFFF) n" using assms(1) by (simp add: page_bits)
  moreover have "bit (of_nat k AND 0xFFF :: 32 word) n = bit (of_nat k :: 32 word) n"
    using offset_bits [OF assms(2)] by simp
  ultimately show "\<not> bit a n \<or> \<not> bit (of_nat k :: 32 word) n" by (auto simp: bit_and_iff)
qed

lemma page_and:
  assumes "page_addr a" "k < 4096"
  shows "(a + of_nat k) AND M = (a AND M) OR (of_nat k AND M)"
  by (simp add: page_or [OF assms] bit.conj_disj_distrib2)

lemma and_page: "page_addr a \<Longrightarrow> page_addr (a AND M)"
proof -
  assume "page_addr a"
  moreover have "(a AND M) AND 0xFFF = (a AND 0xFFF) AND M" by (simp only: and.assoc and.commute [of M])
  ultimately show ?thesis by (simp add: page_bits)
qed

lemma page_keep:
  assumes "page_addr a" "k < 4096" "M AND 0xFFF = 0xFFF"
  shows "(a + of_nat k) AND M = (a AND M) + of_nat k"
proof -
  have "of_nat k AND M = (of_nat k AND 0xFFF) AND M" using offset_bits [OF assms(2)] by simp
  also have "\<dots> = of_nat k AND (M AND 0xFFF)" by (simp only: and.assoc and.commute [of M])
  also have "\<dots> = of_nat k" using assms(3) offset_bits [OF assms(2)] by simp
  finally show ?thesis using page_and [OF assms(1,2)] page_or [OF and_page [OF assms(1)] assms(2)] by simp
qed

lemma page_drop:
  assumes "page_addr a" "k < 4096" "M AND 0xFFF = 0"
  shows "(a + of_nat k) AND M = a AND M"
proof -
  have "of_nat k AND M = (of_nat k AND 0xFFF) AND M" using offset_bits [OF assms(2)] by simp
  also have "\<dots> = of_nat k AND (M AND 0xFFF)" by (simp only: and.assoc and.commute [of M])
  finally show ?thesis using page_and [OF assms(1,2)] assms(3) by simp
qed

lemma page_add: "page_addr a \<Longrightarrow> k < 4096 \<Longrightarrow> unat (a + of_nat k) = unat a + k"
  by (rule unat_page_add) (simp add: page_addr_def)

lemma page_mod:
  assumes "page_addr a" "k < 4096"
  shows "unat (a + of_nat k) mod 4096 = k"
proof -
  have "(unat a + k) mod 4096 = (unat a mod 4096 + k) mod 4096" by (simp only: mod_add_left_eq)
  thus ?thesis using assms page_add [OF assms] by (simp add: page_addr_def)
qed

lemma page_nat_less: "k < 4096 \<Longrightarrow> (4096 * q + k < 4096 * r) = (4096 * q < 4096 * r)" for k q r :: nat
  using mult_le_mono2 [of "Suc q" r 4096] by (cases "q < r") auto

lemma page_less:
  assumes "page_addr a" "k < 4096" "page_addr b"
  shows "a + of_nat k < b \<longleftrightarrow> a < b" "b \<le> a + of_nat k \<longleftrightarrow> b \<le> a"
proof -
  obtain q r where qr: "unat a = 4096 * q" "unat b = 4096 * r"
    using assms by (auto simp: page_addr_def mod_eq_0_iff_dvd dvd_def)
  have "(4096 * q + k < 4096 * r) = (4096 * q < 4096 * r)" by (rule page_nat_less [OF assms(2)])
  thus "a + of_nat k < b \<longleftrightarrow> a < b" using qr page_add [OF assms(1,2)] by (simp add: word_less_nat_alt)
  thus "b \<le> a + of_nat k \<longleftrightarrow> b \<le> a" by (simp add: linorder_not_less [symmetric])
qed

lemma page_len:
  assumes "page_addr a" "k < 4096" "mem_ok m"
  shows "unat (a + of_nat k) < mem_len m \<longleftrightarrow> unat a < mem_len m"
proof -
  have "(4096::nat) dvd BX_MEM_BLOCK_LEN" by (simp add: BX_MEM_BLOCK_LEN_def)
  hence "4096 dvd mem_len m" using assms(3) by (auto simp: mem_ok_def mod_eq_0_iff_dvd intro: dvd_trans)
  then obtain q r where qr: "unat a = 4096 * q" "mem_len m = 4096 * r"
    using assms(1) by (auto simp: page_addr_def mod_eq_0_iff_dvd dvd_def)
  have "(4096 * q + k < 4096 * r) = (4096 * q < 4096 * r)" by (rule page_nat_less [OF assms(2)])
  thus ?thesis using qr page_add [OF assms(1,2)] by simp
qed

lemma page_mb: "page_addr a \<Longrightarrow> k < 4096 \<Longrightarrow> drop_bit 20 (a + of_nat k) = drop_bit 20 a"
proof -
  assume a: "page_addr a" "k < 4096"
  then obtain q where q: "unat a = 4096 * q" by (auto simp: page_addr_def mod_eq_0_iff_dvd dvd_def)
  have "(4096 * q + k) div (4096 * 256) = 4096 * q div (4096 * 256)"
    using a(2) unfolding div_mult2_eq by simp
  thus ?thesis using q page_add [OF a] by (simp add: word_unat_eq_iff drop_bit_eq_div unat_div_distrib)
qed

text \<open>Handlers that start and end with a page.\<close>

definition page_granular :: "'h memory_handler \<Rightarrow> bool" where
  "page_granular h \<longleftrightarrow> page_addr (begin_addr h) \<and> page_addr (end_addr h + 1)"

lemma page_covers:
  assumes "page_granular h" "page_addr a" "k < 4096"
  shows "covers h (a + of_nat k) = covers h a"
proof -
  have "end_addr h \<ge> a + of_nat k \<longleftrightarrow> end_addr h \<ge> a"
  proof (cases "end_addr h = - 1")
    case False
    hence "\<And>x. end_addr h \<ge> x \<longleftrightarrow> x < end_addr h + 1"
      using unatSuc [of "end_addr h"] by (auto simp: word_less_nat_alt word_le_nat_alt add.commute eq_neg_iff_add_eq_0)
    thus ?thesis using page_less(1) [of a k "end_addr h + 1"] assms by (simp add: page_granular_def)
  qed simp
  thus ?thesis using page_less(2) [of a k "begin_addr h"] assms by (simp add: covers_def page_granular_def)
qed

lemma read_hole_rom:
  assumes "\<And>i. i < length buf \<Longrightarrow> \<not> a + of_nat i < 0xC0000 \<and> (a + of_nat i) AND 0xFFFC0000 = 0xC0000 \<and>
    \<not> (pci_enabled m \<and> rd_memType (a + of_nat i) m)"
  shows "read_hole cpu a buf m = Inr (map (\<lambda>i. rom_byte (a + of_nat i) m) [0..<length buf], m)"
  using assms
proof (induction buf arbitrary: a)
  case (Cons b bs)
  have "read_hole cpu (a + 1) bs m = Inr (map (\<lambda>i. rom_byte (a + 1 + of_nat i) m) [0..<length bs], m)"
    using Cons.prems [of "Suc _"] by (intro Cons.IH) (simp add: add.assoc)
  thus ?case using Cons.prems [of 0]
    by (auto simp: upt_conv_Cons add.assoc simp flip: map_Suc_upt simp del: upt_Suc)
qed simp

lemma read_hole_ram:
  assumes "pci_enabled m" "\<And>i. i < length buf \<Longrightarrow> \<not> a + of_nat i < 0xC0000 \<and>
    (a + of_nat i) AND 0xFFFC0000 = 0xC0000 \<and> rd_memType (a + of_nat i) m"
  shows "read_hole cpu a buf m = read_bytes a buf m"
  using assms
proof (induction buf arbitrary: a m)
  case (Cons b bs)
  show ?case
  proof (cases "get_vector a m")
    case (Inr pm)
    obtain p m' where pm: "pm = (p, m')" by (cases pm)
    note f = extends_fields [OF get_vector_extends [OF Inr [unfolded pm]]]
    have "\<And>x. rd_memType x m' = rd_memType x m" unfolding rd_memType_def f by (rule refl)
    hence "read_hole cpu (a + 1) bs m' = read_bytes (a + 1) bs m'"
      using Cons.prems(1) Cons.prems(2) [of "Suc _"] by (intro Cons.IH) (simp_all add: add.assoc f)
    thus ?thesis using Cons.prems(1) Cons.prems(2) [of 0] Inr pm by (simp add: vector_byte_def and_then_assoc)
  qed (use Cons.prems(1) Cons.prems(2) [of 0] in \<open>simp add: vector_byte_def\<close>)
qed simp

text \<open>An access inside a page of which no handler covers the start reaches memory itself.\<close>

lemma read_at:
  assumes "a20_ok m" "page_addr a" "0 < length buf" "k + length buf \<le> 4096"
    and "\<forall>h \<in> set (memory_handlers m (unat (drop_bit 20 (a AND a20_mask m)))). page_granular h \<and> \<not> covers h (a AND a20_mask m)"
    and "\<not> (0xA0000 \<le> a AND a20_mask m \<and> a AND a20_mask m < 0xC0000)"
  shows "readPhysicalPage ops cpu (a + of_nat k) buf m = mem_read cpu ((a AND a20_mask m) + of_nat k) buf m"
proof -
  let ?b = "a AND a20_mask m"
  have k: "k < 4096" using assms(3,4) by linarith
  have page: "page_addr ?b" by (rule and_page [OF assms(2)])
  have mask: "a20_mask m AND 0xFFF = 0xFFF" using assms(1) by (auto simp: a20_ok_def)
  have "\<not> crosses_page (a + of_nat k) (length buf)"
    using not_crosses_page [of "length buf" "a + of_nat k"] page_mod [OF assms(2) k] assms(3,4) by auto
  moreover have "\<not> smram_access cpu (?b + of_nat k) m"
    using assms(6) page_less [OF page k, of "0xA0000"] page_less [OF page k, of "0xC0000"]
    by (auto simp: smram_access_def page_addr_def split: option.splits)
  moreover have "\<forall>h \<in> set (memory_handlers m (unat (drop_bit 20 (?b + of_nat k)))). \<not> covers h (?b + of_nat k)"
    unfolding page_mb [OF page k] using assms(5) page_covers [OF _ page k] by blast
  ultimately show ?thesis
    by (simp add: readPhysicalPage_def Let_def page_keep [OF assms(2) k mask] try_read_none)
qed

lemma page_read_bytes:
  assumes "mem_ok m" "page_addr b" "0 < length buf" "k + length buf \<le> 4096" "host_of m (unat b) = Some p"
  shows "get_vector (b + of_nat k) m = Inr (p + k, m)"
    and "read_bytes (b + of_nat k) buf m = Inr (peek (p + k) (length buf) m, m)"
proof -
  have k: "k < 4096" using assms(3,4) by linarith
  have host: "host_of m (unat (b + of_nat k)) = Some (p + k)"
    using host_of_page [OF _ assms(5), of k] page_add [OF assms(2) k] assms(2) k by (simp add: page_addr_def)
  thus g: "get_vector (b + of_nat k) m = Inr (p + k, m)" by (intro get_vector_again [OF assms(1)])
  have "in_page (b + of_nat k) (length buf)"
    using assms(3,4) page_mod [OF assms(2) k] by (simp add: in_page_def)
  from read_bytes_page [OF assms(1) this] g
  show "read_bytes (b + of_nat k) buf m = Inr (peek (p + k) (length buf) m, m)" by simp
qed

lemma page_area:
  assumes "page_addr b" "k < 4096"
  shows "pam_entry (b + of_nat k) = pam_entry b"
    and "b + of_nat k AND 0xFFFC0000 = b AND 0xFFFC0000" "b + of_nat k AND 0xFFFE0000 = b AND 0xFFFE0000"
proof -
  have "(b + of_nat k) AND 0xFC000 = b AND 0xFC000" by (rule page_drop [OF assms]) simp
  thus "pam_entry (b + of_nat k) = pam_entry b" by (simp add: pam_entry_def)
qed (simp_all add: page_drop [OF assms])

lemma hole_area:
  assumes "0xC0000 \<le> b" "b < (0x100000 :: 32 word)"
  shows "b AND 0xFFFC0000 = 0xC0000"
proof -
  have "b div 0x40000 = 3"
    using assms by (simp add: word_unat_eq_iff unat_div_distrib word_le_nat_alt word_less_nat_alt)
  hence "drop_bit 18 b = 3" by (simp add: drop_bit_eq_div)
  moreover have "b AND NOT (mask 18) = push_bit 18 (drop_bit 18 b)"
    by (rule bit_word_eqI) (auto simp: bit_simps)
  moreover have "(0xFFFC0000 :: 32 word) = NOT (mask 18)" by (simp add: mask_eq_exp_minus_1)
  ultimately have "b AND 0xFFFC0000 = push_bit 18 3" by (simp only:)
  thus ?thesis by simp
qed

lemma rom_byte_page:
  assumes "page_addr b" "k + i < 4096"
  shows "rom_byte (b + of_nat (k + i)) m = (case rom_pointer b of Rom p \<Rightarrow> rom m (p + k + i))"
proof -
  have e: "unat ((b + of_nat (k + i)) AND M) = unat (b AND M) + (k + i)" if "M AND 0xFFF = 0xFFF" for M
    using page_keep [OF assms that] page_add [OF and_page [OF assms(1)] assms(2)] by simp
  have "unat ((b + of_nat (k + i)) AND BIOS_MASK) = unat (b AND BIOS_MASK) + (k + i)"
    "unat ((b + of_nat (k + i)) AND EXROM_MASK) = unat (b AND EXROM_MASK) + (k + i)"
    by (rule e, simp add: BIOS_MASK_def EXROM_MASK_def)+
  thus ?thesis by (simp only: rom_byte_def rom_pointer_def page_area(3) [OF assms]) (simp add: ac_simps)
qed

text \<open>The hole: ROM or shadow RAM by the memory type of the page.\<close>

lemma hole_read:
  assumes ok: "mem_ok m" "0x100000 \<le> mem_len m"
    and page: "page_addr b" "0 < length buf" "k + length buf \<le> 4096"
    and hole: "0xC0000 \<le> b" "b < 0x100000"
  shows "pci_enabled m \<and> rd_memType b m \<Longrightarrow> host_of m (unat b) = Some p \<Longrightarrow>
           mem_read cpu (b + of_nat k) buf m = Inr (peek (p + k) (length buf) m, m)"
    and "\<not> (pci_enabled m \<and> rd_memType b m) \<Longrightarrow>
           mem_read cpu (b + of_nat k) buf m = Inr (load_host (shift_ptr k (rom_pointer b)) (length buf) m, m)"
proof -
  have k: "k < 4096" using page(2,3) by linarith
  have in_hole: "0xC0000 \<le> b + of_nat j \<and> b + of_nat j < 0x100000 \<and> (b + of_nat j) AND 0xFFFC0000 = 0xC0000 \<and>
      rd_memType (b + of_nat j) m = rd_memType b m" if "j < 4096" for j
    using page_less [OF page(1) that, of "0xC0000"] page_less [OF page(1) that, of "0x100000"] hole hole_area [OF hole]
      page_area [OF page(1) that] by (simp add: page_addr_def rd_memType_def)
  have "unat (b + of_nat k) < 0x100000" using in_hole [OF k] by (simp add: word_less_nat_alt)
  hence r: "mem_read cpu (b + of_nat k) buf m = read_hole (cpu \<noteq> None) (b + of_nat k) buf m"
    using in_hole [OF k] ok(2)
    by (auto simp: mem_read_def is_bios_def BIOS_MASK_def dos_hole_def word_less_nat_alt word_le_nat_alt)
  have j: "\<not> b + of_nat k + of_nat i < 0xC0000 \<and> (b + of_nat k + of_nat i) AND 0xFFFC0000 = 0xC0000 \<and>
      rd_memType (b + of_nat k + of_nat i) m = rd_memType b m" if "i < length buf" for i
    using in_hole [of "k + i"] that page(3) by (simp add: add.assoc linorder_not_less)
  show "mem_read cpu (b + of_nat k) buf m = Inr (peek (p + k) (length buf) m, m)"
    if "pci_enabled m \<and> rd_memType b m" "host_of m (unat b) = Some p"
    using read_hole_ram [of m buf "b + of_nat k"] j that page_read_bytes(2) [OF ok(1) page that(2)] r by simp
  show "mem_read cpu (b + of_nat k) buf m = Inr (load_host (shift_ptr k (rom_pointer b)) (length buf) m, m)"
    if shadow: "\<not> (pci_enabled m \<and> rd_memType b m)"
  proof -
    have "rom_byte (b + of_nat k + of_nat i) m = (case rom_pointer b of Rom p \<Rightarrow> rom m (p + k + i))"
      if "i < length buf" for i
      using rom_byte_page [OF page(1), of k i m] that page(3) by (simp add: add.assoc)
    moreover have "read_hole (cpu \<noteq> None) (b + of_nat k) buf m =
        Inr (map (\<lambda>i. rom_byte (b + of_nat k + of_nat i) m) [0..<length buf], m)"
      by (rule read_hole_rom) (use j shadow in auto)
    ultimately show ?thesis using r by (simp add: rom_pointer_def)
  qed
qed

lemma bios_read:
  assumes "page_addr b" "0 < length buf" "k + length buf \<le> 4096" "is_bios b"
  shows "mem_read cpu (b + of_nat k) buf m = Inr (load_host (Rom (unat (b AND BIOS_MASK) + k)) (length buf) m, m)"
proof -
  have k: "k < 4096" using assms(2,3) by linarith
  have e: "unat ((b + of_nat j) AND BIOS_MASK) = unat (b AND BIOS_MASK) + j" if "j < 4096" for j
    using page_keep [OF assms(1) that, of BIOS_MASK] page_add [OF and_page [OF assms(1)] that] by (simp add: BIOS_MASK_def)
  have "is_bios (b + of_nat k)"
    using assms(4) page_less [OF assms(1) k, of "NOT BIOS_MASK"] by (simp add: is_bios_def page_addr_def BIOS_MASK_def)
  moreover have "unat ((b + of_nat k + of_nat i) AND BIOS_MASK) = unat (b AND BIOS_MASK) + k + i" if "i < length buf" for i
    using e [of "k + i"] that assms(3) by (simp add: add.assoc)
  ultimately show ?thesis by (simp add: mem_read_def is_bios_def)
qed

lemma beyond_read:
  assumes "page_addr b" "0 < length buf" "k + length buf \<le> 4096" "mem_len m < unat b" "\<not> is_bios b"
    and "\<forall>i < 4096. bogus m i = 0xFF"
  shows "mem_read cpu (b + of_nat k) buf m = Inr (load_host (Bogus k) (length buf) m, m)"
proof -
  have k: "k < 4096" using assms(2,3) by linarith
  have "\<not> is_bios (b + of_nat k)"
    using assms(5) page_less [OF assms(1) k, of "NOT BIOS_MASK"] by (simp add: is_bios_def page_addr_def BIOS_MASK_def)
  moreover have "mem_len m < unat (b + of_nat k)" using assms(4) page_add [OF assms(1) k] by simp
  moreover have "load_host (Bogus k) (length buf) m = replicate (length buf) 0xFF"
    by (rule nth_equalityI) (use assms(3,6) in simp_all)
  ultimately show ?thesis by (simp add: mem_read_def is_bios_def)
qed

text \<open>C29. The host pointer that the TLB keeps for a page reads, at every offset, the bytes that the slow path reads: RAM,
  ROM, shadow RAM and the absence of memory. The two exceptions of the code are excluded: a handler that covers only
  part of a page, and the page right after the end of memory (\<open>read_after_end\<close>).\<close>

theorem host_pointer_reads:
  assumes "mem_ok m" and "a20_ok m" and "mem_len m \<le> allocated m" and "0x100000 \<le> mem_len m"
    and "\<forall>i < 4096. bogus m i = 0xFF"
    and "page_addr a" and "0 < length buf" and "k + length buf \<le> 4096"
    and "\<forall>h \<in> set (memory_handlers m (unat (drop_bit 20 (a AND a20_mask m)))). page_granular h"
    and "unat (a AND a20_mask m) \<noteq> mem_len m"
    and "getHostMemAddr (Some c) a BX_READ m = Inr (Some h, m')"
  shows "readPhysicalPage ops cpu (a + of_nat k) buf m' = Inr (load_host (shift_ptr k h) (length buf) m', m')"
proof -
  let ?b = "a AND a20_mask m"
  have page: "page_addr ?b" by (rule and_page [OF assms(6)])
  have k: "k < 4096" using assms(7,8) by linarith
  note less = page_less [OF page k] and lit = page_addr_def is_bios_def BIOS_MASK_def dos_hole_def
  have no: "\<not> list_ex (\<lambda>h. covers h ?b) (memory_handlers m (unat (drop_bit 20 ?b)))"
    "\<not> (0xA0000 \<le> ?b \<and> ?b < 0xC0000)"
    using assms(11) by (auto simp: getHostMemAddr_def Let_def split: if_splits)
  have ext: "extends m m' \<and> mem_ok m'"
    using assms(1,11) get_vector_extends get_vector_ok [OF assms(1)]
    by (auto simp: getHostMemAddr_def Let_def ram_pointer_def and_then_Inr split: if_splits)
  note f = extends_fields [OF conjunct1 [OF ext]]
  have at: "readPhysicalPage ops cpu (a + of_nat k) buf m' = mem_read cpu (?b + of_nat k) buf m'"
    using read_at [of m' a buf k ops cpu] assms(2,6-9) no by (auto simp: f a20_ok_def list_ex_iff)
  have vec: "host_of m' (unat ?b) = Some p" if "ram_pointer ?b m = Inr (Some h, m')" "h = Vec p" for p
    using that get_vector_host by (auto simp: ram_pointer_def and_then_Inr)
  consider (hole) "0xC0000 \<le> ?b" "?b < 0x100000"
    | (ram) "?b < 0xA0000 \<or> 0x100000 \<le> ?b" "unat ?b < mem_len m" "\<not> is_bios ?b"
    | (bios) "is_bios ?b" "0x100000 \<le> ?b"
    | (none) "mem_len m < unat ?b" "\<not> is_bios ?b" "0x100000 \<le> ?b"
    using no(2) assms(4,10) by (fastforce simp: word_less_nat_alt word_le_nat_alt lit)
  thus ?thesis
  proof cases
    case hole
    have b: "unat ?b < mem_len m" "\<not> is_bios ?b"
      using hole(2) assms(4) by (auto simp: word_less_nat_alt word_le_nat_alt lit)
    show ?thesis
    proof (cases "pci_enabled m \<and> rd_memType ?b m")
      case True
      hence r: "ram_pointer ?b m = Inr (Some h, m')"
        using assms(11) hole no by (auto simp: getHostMemAddr_def Let_def split: if_splits)
      then obtain p where p: "h = Vec p" by (auto simp: ram_pointer_def and_then_Inr)
      have "pci_enabled m' \<and> rd_memType ?b m'" using True unfolding rd_memType_def f .
      thus ?thesis using hole_read(1) [OF conjunct2 [OF ext] _ page assms(7,8) hole _ vec [OF r p]] assms(4) at p by (simp add: f)
    next
      case False
      hence r: "h = rom_pointer ?b \<and> m' = m"
        using assms(11) hole no b by (auto simp: getHostMemAddr_def Let_def linorder_not_less split: if_splits)
      thus ?thesis using hole_read(2) [OF assms(1,4) page assms(7,8) hole False] at by simp
    qed
  next
    case ram
    have r: "ram_pointer ?b m = Inr (Some h, m')"
      using assms(11) ram no by (auto simp: getHostMemAddr_def Let_def word_less_nat_alt word_le_nat_alt split: if_splits)
    then obtain p where p: "h = Vec p" by (auto simp: ram_pointer_def and_then_Inr)
    note rb = page_read_bytes [OF conjunct2 [OF ext] page assms(7,8) vec [OF r p]]
    have "unat (?b + of_nat k) \<le> mem_len m" "\<not> is_bios (?b + of_nat k)" "\<not> dos_hole (?b + of_nat k)"
      using ram page_len [OF page k assms(1)] less [of "NOT BIOS_MASK"] less [of "0xA0000"] less [of "0x100000"]
      by (auto simp: lit)
    thus ?thesis using at rb p by (simp add: mem_read_def f)
  next
    case bios
    have r: "h = Rom (unat (?b AND BIOS_MASK)) \<and> m' = m"
      using assms(11) bios no by (auto simp: getHostMemAddr_def Let_def is_bios_def split: if_splits)
    thus ?thesis using at bios_read [OF page assms(7,8) bios(1)] by simp
  next
    case none
    have r: "h = Bogus (unat (?b AND 0xFFF)) \<and> m' = m"
      using assms(11) none no by (auto simp: getHostMemAddr_def Let_def is_bios_def split: if_splits)
    moreover have "?b AND 0xFFF = 0" using page by (simp add: page_bits)
    ultimately show ?thesis using at beyond_read [OF page assms(7,8) none(1,2) assms(5)] by simp
  qed
qed

lemma host_pointer_writes:
  assumes "mem_ok m" "a20_ok m" "page_addr a" "0 < length data" "k + length data \<le> 4096"
    and "\<forall>h \<in> set (memory_handlers m (unat (drop_bit 20 (a AND a20_mask m)))). page_granular h"
    and "getHostMemAddr (Some c) a BX_WRITE m = Inr (Some h, m')"
  shows "\<exists>p. h = Vec p \<and> writePhysicalPage ops cpu (a + of_nat k) data m' = Inr (poke (p + k) data m')"
proof -
  let ?b = "a AND a20_mask m"
  have page: "page_addr ?b" by (rule and_page [OF assms(3)])
  have k: "k < 4096" using assms(4,5) by linarith
  note less = page_less [OF page k] and lit = page_addr_def is_bios_def BIOS_MASK_def dos_hole_def
  have r: "ram_pointer ?b m = Inr (Some h, m')"
    and b: "unat ?b < mem_len m" "\<not> is_bios ?b" "?b < 0xA0000 \<or> 0x100000 \<le> ?b"
      "\<forall>h \<in> set (memory_handlers m (unat (drop_bit 20 ?b))). \<not> covers h ?b"
    using assms(7) by (auto simp: getHostMemAddr_def Let_def list_ex_iff linorder_not_less split: if_splits)
  obtain p where p: "h = Vec p" "get_vector ?b m = Inr (p, m')" using r by (auto simp: ram_pointer_def and_then_Inr)
  note ok = get_vector_ok [OF assms(1) p(2)] and f = extends_fields [OF get_vector_extends [OF p(2)]]
  have "get_vector (?b + of_nat k) m' = Inr (p + k, m')"
    by (rule page_read_bytes(1) [OF ok page assms(4,5) get_vector_host [OF p(2)]])
  moreover have "ram m' (?b + of_nat k) (length data)"
    using b page_len [OF page k assms(1)] less [of "NOT BIOS_MASK"] less [of "0xA0000"] less [of "0x100000"]
      page_mod [OF page k] assms(4-6) page_covers [OF _ page k] unfolding page_mb [OF page k] ram_def f
    by (auto simp: lit in_page_def f)
  moreover have "(a + of_nat k) AND a20_mask m' = ?b + of_nat k"
    using page_keep [OF assms(3) k, of "a20_mask m"] assms(2) by (auto simp: a20_ok_def f)
  ultimately show ?thesis
    using write_ram [OF ok, of "a + of_nat k" data ops cpu] assms(2) p(1) by (simp add: f a20_ok_def)
qed

lemma read_after_end_parts:
  assumes "mem_ok m" and "a20_mask m = 0xFFFFFFFF" and "0x100000 \<le> mem_len m" and "mem_len m < 0xFFF80000"
    and "unat a = mem_len m" and "memory_handlers m (unat (drop_bit 20 a)) = []"
    and "0 < length buf" and "length buf \<le> 4096"
  shows "readPhysicalPage ops (Some c) a buf m = Inl OutOfBlocks"
    and "writePhysicalPage ops (Some c) a buf m = Inr m"
    and "apic_base c \<noteq> Some a \<Longrightarrow> getHostMemAddr (Some c) a BX_READ m = Inr (Some (Bogus 0), m)"
proof -
  have "(0xFFFFFFFF :: 32 word) = - 1" by simp
  hence mask: "a AND a20_mask m = a" using assms(2) by (simp only: and.right_neutral)
  have "(4096::nat) dvd BX_MEM_BLOCK_LEN" by (simp add: BX_MEM_BLOCK_LEN_def)
  hence "4096 dvd mem_len m" using assms(1) by (auto simp: mem_ok_def mod_eq_0_iff_dvd intro: dvd_trans)
  hence page: "page_addr a" by (simp add: page_addr_def assms(5))
  have np: "\<not> crosses_page a (length buf)"
    using not_crosses_page [OF assms(7,8), of a] page assms(8) by (simp add: page_addr_def)
  have b: "\<not> is_bios a" "\<not> dos_hole a" "\<not> (0xA0000 \<le> a \<and> a < 0xC0000)" "\<not> a < 0x100000"
    using assms(3-5) by (auto simp: is_bios_def BIOS_MASK_def dos_hole_def word_less_nat_alt word_le_nat_alt)
  have g: "get_vector a m = Inl OutOfBlocks" by (simp add: get_vector_def assms(5))
  obtain x xs where buf: "buf = x # xs" using assms(7) by (cases buf) auto
  have "mem_read (Some c) a buf m = Inl OutOfBlocks" using b g buf by (simp add: mem_read_def assms(5))
  thus "readPhysicalPage ops (Some c) a buf m = Inl OutOfBlocks"
    using np not_hole_smram [OF b(2), of "Some c" m]
    by (simp only: readPhysicalPage_def Let_def mask assms(6)) simp
  show "writePhysicalPage ops (Some c) a buf m = Inr m"
    using np not_hole_smram [OF b(2), of "Some c" m]
    by (simp only: writePhysicalPage_def Let_def mask assms(6)) (simp add: mem_write_def assms(5))
  assume apic: "apic_base c \<noteq> Some a"
  have z: "a AND 0xFFF = 0" using page by (simp add: page_bits)
  have "a = (a AND NOT 0xFFF) OR (a AND 0xFFF)" by (simp flip: bit.conj_disj_distrib)
  hence "a AND NOT 0xFFF = a" using z by simp
  thus "getHostMemAddr (Some c) a BX_READ m = Inr (Some (Bogus 0), m)"
    using b apic z assms(5) by (simp only: getHostMemAddr_def Let_def mask assms(6)) (simp add: is_selected_def is_bios_def)
qed

text \<open>The test of the slow read path is off by one. At the address right after the end of guest memory it takes the
  block after the last one from the table of blocks, past its end; the write path ignores the access and the
  host pointer reads a byte of all ones.\<close>

theorem read_after_end:
  assumes "mem_ok m" and "a20_mask m = 0xFFFFFFFF" and "0x100000 \<le> mem_len m" and "mem_len m < 0xFFF80000"
    and "unat a = mem_len m" and "memory_handlers m (unat (drop_bit 20 a)) = []"
    and "0 < length buf" and "length buf \<le> 4096"
  shows "readPhysicalPage ops (Some c) a buf m = Inl OutOfBlocks \<and>
    writePhysicalPage ops (Some c) a buf m = Inr m \<and>
    (apic_base c \<noteq> Some a \<longrightarrow> getHostMemAddr (Some c) a BX_READ m = Inr (Some (Bogus 0), m))"
  using read_after_end_parts [OF assms] by blast

text \<open>Unregistering a memory handler can remove another one: the search stops at the first handler that has any
  one field in common with the one to remove. Of two handlers that end at the same address, the older cannot be removed;
  the newer disappears in its place.\<close>

theorem unregister_removes_other:
  assumes "begin_addr h \<le> end_addr h" and "begin_addr w \<le> end_addr w"
    and "end_addr h = end_addr w" and "drop_bit 20 (begin_addr h) = drop_bit 20 (end_addr h)"
    and "drop_bit 20 (begin_addr w) = drop_bit 20 (end_addr w)"
  shows "let m1 = snd (registerMemoryHandlers w m); m2 = snd (registerMemoryHandlers h m1);
           (found, m3) = unregisterMemoryHandlers w m2
         in found \<and> memory_handlers m3 = memory_handlers m1 \<and>
            w \<in> set (memory_handlers m3 (unat (drop_bit 20 (end_addr w))))"
  using assms by (auto simp: registerMemoryHandlers_def unregisterMemoryHandlers_def Let_def fun_eq_iff)

text \<open>For comparison: with the search that skips a handler unless every field agrees, removing undoes
  registering.\<close>

lemma unregister_newest:
  assumes "begin_addr w \<le> end_addr w" "registerMemoryHandlers w m = (True, m1)"
  shows "memory_handlers (snd (unregisterMemoryHandlers w m1)) = memory_handlers m"
  using assms by (auto simp: registerMemoryHandlers_def unregisterMemoryHandlers_def Let_def fun_eq_iff split: if_splits)

subsection \<open>Invariant\<close>

lemma mem_ok_init: "guest mod BX_MEM_BLOCK_LEN = 0 \<Longrightarrow> mem_ok (init_memory guest host pci fresh m)"
  by (simp add: mem_ok_def init_memory_def)

lemma get_poke_ok:
  assumes "mem_ok m" "and_then (get_vector a m) (\<lambda>(p, m'). Inr (poke p d m')) = Inr m'"
  shows "mem_ok m'"
  using assms(2) get_vector_ok [OF assms(1)] by (auto simp: and_then_Inr)

lemma vector_byte_ok: "mem_ok m \<Longrightarrow> vector_byte a m = Inr (x, m') \<Longrightarrow> mem_ok m'"
  using get_vector_ok by (auto simp: vector_byte_def and_then_Inr)

lemma write_bytes_ok: "mem_ok m \<Longrightarrow> write_bytes a data m = Inr m' \<Longrightarrow> mem_ok m'"
proof (induction data arbitrary: a m)
  case (Cons b bs)
  obtain p m1 where g: "get_vector a m = Inr (p, m1)" and w: "write_bytes (a + 1) bs (poke p [b] m1) = Inr m'"
    using Cons.prems(2) by (auto simp: and_then_Inr)
  show ?case using Cons.IH [OF _ w] get_vector_ok [OF Cons.prems(1) g] by simp
qed simp

lemma read_bytes_ok: "mem_ok m \<Longrightarrow> read_bytes a buf m = Inr (r, m') \<Longrightarrow> mem_ok m'"
proof (induction buf arbitrary: a m r)
  case (Cons b bs)
  obtain p m1 r1 where g: "get_vector a m = Inr (p, m1)" and w: "read_bytes (a + 1) bs m1 = Inr (r1, m')"
    using Cons.prems(2) by (auto simp: and_then_Inr)
  show ?case using Cons.IH [OF get_vector_ok [OF Cons.prems(1) g] w] .
qed simp

lemma write_hole_ok: "mem_ok m \<Longrightarrow> write_hole cpu a data m = Inr m' \<Longrightarrow> mem_ok m'"
proof (induction data arbitrary: a m)
  case (Cons b bs)
  obtain m1 where m1: "m1 = m \<or> and_then (get_vector a m) (\<lambda>(p, m'). Inr (poke p [b] m')) = Inr m1"
    and w: "write_hole cpu (a + 1) bs m1 = Inr m'"
    using Cons.prems(2) by (auto simp: and_then_Inr split: if_splits)
  show ?case using Cons.IH [OF _ w] get_poke_ok [OF Cons.prems(1)] m1 Cons.prems(1) by blast
qed simp

lemma read_hole_ok: "mem_ok m \<Longrightarrow> read_hole cpu a buf m = Inr (r, m') \<Longrightarrow> mem_ok m'"
proof (induction buf arbitrary: a m r)
  case (Cons b bs)
  obtain x m1 r1 where m1: "m1 = m \<or> vector_byte a m = Inr (x, m1)"
    and w: "read_hole cpu (a + 1) bs m1 = Inr (r1, m')"
    using Cons.prems(2) by (auto simp: and_then_Inr split: if_splits)
  show ?case using Cons.IH [OF _ w] vector_byte_ok [OF Cons.prems(1)] m1 Cons.prems(1) by blast
qed simp

lemma mem_ok_devs [simp]: "mem_ok (m\<lparr>devs := d\<rparr>) = mem_ok m"
  by (simp add: mem_ok_def)

lemma mem_write_ok:
  assumes "mem_ok m" "mem_write cpu a data m = Inr m'"
  shows "mem_ok m'"
  using assms(2) get_poke_ok [OF assms(1)] write_bytes_ok [OF assms(1)] write_hole_ok [OF assms(1)] assms(1)
  unfolding mem_write_def by (metis sum.inject(2))

lemma mem_read_ok:
  assumes "mem_ok m" "mem_read cpu a buf m = Inr (r, m')"
  shows "mem_ok m'"
  using assms get_vector_ok [OF assms(1)] read_bytes_ok [OF assms(1)] read_hole_ok [OF assms(1)]
  by (auto simp: mem_read_def and_then_Inr split: if_splits)

lemma write_page_ok:
  assumes "mem_ok m" "writePhysicalPage ops cpu a data m = Inr m'"
  shows "mem_ok m'"
proof -
  have "\<exists>b d. mem_write cpu b data m = Inr m' \<or> m' = m\<lparr>devs := d\<rparr> \<or> mem_write cpu b data (m\<lparr>devs := d\<rparr>) = Inr m'"
    using assms(2) unfolding writePhysicalPage_def Let_def by (auto split: if_splits prod.splits)
  moreover have "mem_ok (m\<lparr>devs := d\<rparr>)" for d using assms(1) by simp
  ultimately show ?thesis using mem_write_ok assms(1) by blast
qed

lemma read_page_ok:
  assumes "mem_ok m" "readPhysicalPage ops cpu a buf m = Inr (r, m')"
  shows "mem_ok m'"
proof -
  have "\<exists>b x d. mem_read cpu b x m = Inr (r, m') \<or> m' = m\<lparr>devs := d\<rparr> \<or> mem_read cpu b x (m\<lparr>devs := d\<rparr>) = Inr (r, m')"
    using assms(2) unfolding readPhysicalPage_def Let_def by (auto split: if_splits prod.splits)
  moreover have "mem_ok (m\<lparr>devs := d\<rparr>)" for d using assms(1) by simp
  ultimately show ?thesis using mem_read_ok assms(1) by blast
qed

lemma mem_invariant_parts:
  assumes "mem_ok m"
  shows "writePhysicalPage ops cpu a data m = Inr m' \<Longrightarrow> mem_ok m'"
    and "readPhysicalPage ops cpu a data m = Inr (r, m') \<Longrightarrow> mem_ok m'"
    and "getHostMemAddr cpu a rw m = Inr (h, m') \<Longrightarrow> mem_ok m'"
    and "DEV_MEM_WRITE_PHYSICAL ops a data m = Inr m' \<Longrightarrow> mem_ok m'"
    and "DEV_MEM_READ_PHYSICAL ops a data m = Inr (r, m') \<Longrightarrow> mem_ok m'"
    and "host_of m x = Some p \<Longrightarrow> host_of m y = Some p \<Longrightarrow> x = y"
  using write_page_ok [OF assms] read_page_ok [OF assms] host_inj [OF assms] assms get_vector_ok [OF assms]
proof -
  show "getHostMemAddr cpu a rw m = Inr (h, m') \<Longrightarrow> mem_ok m'"
    using assms get_vector_ok [OF assms]
    by (auto simp: getHostMemAddr_def Let_def ram_pointer_def and_then_Inr split: if_splits)
  show "DEV_MEM_WRITE_PHYSICAL ops a data m = Inr m' \<Longrightarrow> mem_ok m'"
    unfolding DEV_MEM_WRITE_PHYSICAL_def Let_def
    by (auto simp: and_then_Inr split: if_splits intro: write_page_ok write_page_ok [OF write_page_ok [OF assms]] assms)
  show "DEV_MEM_READ_PHYSICAL ops a data m = Inr (r, m') \<Longrightarrow> mem_ok m'"
    unfolding DEV_MEM_READ_PHYSICAL_def Let_def
    by (auto simp: and_then_Inr split: if_splits intro: read_page_ok read_page_ok [OF read_page_ok [OF assms]] assms)
qed

text \<open>The table of blocks stays an injection into the host memory taken so far, whatever is accessed, by whom,
  through whatever handlers: no two addresses of the guest ever share a host byte.\<close>

theorem mem_invariant:
  assumes "mem_ok m"
  shows "(\<forall>cpu a data m'. writePhysicalPage ops cpu a data m = Inr m' \<longrightarrow> mem_ok m') \<and>
    (\<forall>cpu a buf r m'. readPhysicalPage ops cpu a buf m = Inr (r, m') \<longrightarrow> mem_ok m') \<and>
    (\<forall>cpu a rw h m'. getHostMemAddr cpu a rw m = Inr (h, m') \<longrightarrow> mem_ok m') \<and>
    (\<forall>a data m'. DEV_MEM_WRITE_PHYSICAL ops a data m = Inr m' \<longrightarrow> mem_ok m') \<and>
    (\<forall>a buf r m'. DEV_MEM_READ_PHYSICAL ops a buf m = Inr (r, m') \<longrightarrow> mem_ok m') \<and>
    (\<forall>x y p. host_of m x = Some p \<and> host_of m y = Some p \<longrightarrow> x = y)"
  by (intro conjI allI impI)
    (erule mem_invariant_parts [OF assms] | elim conjE, erule (1) mem_invariant_parts(6) [OF assms])+

subsection \<open>ROM images\<close>

lemma check_rom_Inr: "check_rom a t p data m = Inr m' \<Longrightarrow> m' = m"
  by (auto simp: check_rom_def split: if_splits)

lemma off17: "0xC0000 \<le> unat ra \<Longrightarrow> unat ra < 0xE0000 \<Longrightarrow> unat (take_bit 17 (ra :: 32 word)) = unat ra - 0xC0000"
  using div_mult_mod_eq [of "unat ra" 131072] div_nat_eqI [of 131072 6 "unat ra"]
  by (simp add: take_bit_eq_mod unat_mod_distrib)

lemma ceil_div: "j * 2048 < n \<Longrightarrow> j < n div 2048 + (if n mod 2048 > 0 then 1 else 0)" for j n :: nat
proof -
  assume n: "j * 2048 < n"
  have e: "n div 2048 * 2048 + n mod 2048 = n" by (rule div_mult_mod_eq)
  have le: "n mod 2048 < 2048" by simp
  show ?thesis
  proof (cases "n mod 2048 = 0")
    case True
    hence "j * 2048 < n div 2048 * 2048" using n e by linarith
    thus ?thesis using True by simp
  next
    case False
    have "j * 2048 < (n div 2048 + 1) * 2048" using n e le unfolding add_mult_distrib by linarith
    hence "j < n div 2048 + 1" by (simp only: mult_less_cancel2)
    thus ?thesis using False by simp
  qed
qed

lemma rom_store: "rom (store_rom p data m) i = (if p \<le> i \<and> i < p + length data then data ! (i - p) else rom m i)"
  by (simp add: store_rom_def)

lemma rom_page_hit:
  assumes "unat ra mod 2048 = 0" "0xC0000 \<le> ra" "ra < (0xE0000 :: 32 word)"
    and "unat (ra AND EXROM_MASK) + BIOSROMSZ \<le> BIOSROMSZ + i * 2048 + k"
    and "BIOSROMSZ + i * 2048 + k < unat (ra AND EXROM_MASK) + BIOSROMSZ + n" and "k < 2048"
  shows "i \<in> set (rom_pages ra n)"
proof -
  have ge: "0xC0000 \<le> unat ra" "unat ra < 0xE0000" using assms(2,3) by (simp_all add: word_le_nat_alt word_less_nat_alt)
  have "ra AND EXROM_MASK = take_bit 17 ra" by (simp add: EXROM_MASK_def take_bit_eq_mask mask_eq_exp_minus_1)
  hence off: "unat (ra AND EXROM_MASK) = unat ra - 0xC0000"
    using ge by (simp add: off17)
  obtain q where q: "unat ra = 2048 * q" using assms(1) by (auto simp: mod_eq_0_iff_dvd dvd_def)
  have "unat (ra - 0xC0000) = unat ra - 0xC0000" using assms(2) by (simp add: unat_sub)
  hence start: "unat (drop_bit 11 (ra - 0xC0000)) = q - 384"
    using q by (simp add: drop_bit_eq_div unat_div_distrib)
  have lo: "q - 384 \<le> i" using assms(4,6) off q ge by (simp add: BIOSROMSZ_def)
  have "(i - (q - 384)) * 2048 < n" using assms(5) off q lo ge by (simp add: BIOSROMSZ_def diff_mult_distrib)
  hence "i - (q - 384) < n div 2048 + (if n mod 2048 > 0 then 1 else 0)"
    by (rule ceil_div)
  thus ?thesis using lo assms(3) by (simp add: rom_pages_def Let_def start less_diff_conv2 split: if_splits)
qed

lemma expansion_roms_disjoint_parts:
  assumes "load_ROM w (Some data) ra typ m = Inr m'" and "0 < typ" and "ra < 0xE0000"
  shows "i < 64 \<Longrightarrow> rom_present m i \<Longrightarrow> k < 2048 \<Longrightarrow>
           rom m' (BIOSROMSZ + i * 2048 + k) = rom m (BIOSROMSZ + i * 2048 + k)"
    and "j < length data \<Longrightarrow> rom m' (unat (ra AND EXROM_MASK) + BIOSROMSZ + j) = data ! j"
    and "i \<in> set (rom_pages ra (length data)) \<Longrightarrow> rom_present m' i"
proof -
  let ?p = "unat (ra AND EXROM_MASK) + BIOSROMSZ"
  have ok: "unat ra mod 2048 = 0" "0xC0000 \<le> ra" "\<not> list_ex (rom_present m) (rom_pages ra (length data))"
    and m': "m' = store_rom ?p data (m\<lparr>rom_present := (\<lambda>i. i \<in> set (rom_pages ra (length data)) \<or> rom_present m i)\<rparr>)"
    using assms by (auto simp: load_ROM_def Let_def not_less dest!: check_rom_Inr split: if_splits)
  show "rom m' (?p + j) = data ! j" if "j < length data" using that m' by (simp add: store_rom_def)
  show "rom_present m' i" if "i \<in> set (rom_pages ra (length data))" using that m' by (simp add: store_rom_def)
  assume i: "i < 64" "rom_present m i" "k < 2048"
  have "i \<notin> set (rom_pages ra (length data))" using i(2) ok(3) by (auto simp: list_ex_iff)
  hence "\<not> (?p \<le> BIOSROMSZ + i * 2048 + k \<and> BIOSROMSZ + i * 2048 + k < ?p + length data)"
    using rom_page_hit [OF ok(1,2) assms(3) _ _ i(3)] by blast
  thus "rom m' (BIOSROMSZ + i * 2048 + k) = rom m (BIOSROMSZ + i * 2048 + k)"
    using m' by (simp only: rom_store if_False) simp
qed

text \<open>Expansion ROMs do not overwrite each other: an image for \<^verbatim>\<open>0xC0000\<close> to \<^verbatim>\<open>0xDFFFF\<close> is only loaded when none of its 2K
  pages is in use, every byte of the pages in use keeps its value, and afterwards its own pages are in use.\<close>

theorem expansion_roms_disjoint:
  assumes "load_ROM w (Some data) ra typ m = Inr m'" and "0 < typ" and "ra < 0xE0000"
  shows "(\<forall>i < 64. \<forall>k < 2048. rom_present m i \<longrightarrow>
       rom m' (BIOSROMSZ + i * 2048 + k) = rom m (BIOSROMSZ + i * 2048 + k)) \<and>
    (\<forall>j < length data. rom m' (unat (ra AND EXROM_MASK) + BIOSROMSZ + j) = data ! j) \<and>
    (\<forall>i \<in> set (rom_pages ra (length data)). rom_present m' i)"
  using expansion_roms_disjoint_parts [OF assms] by blast

text \<open>An optional ROM at or above \<^verbatim>\<open>E0000\<close> is never refused for what it covers: not for the system BIOS
  there, and not when it runs over the end of the BIOS area into the ROM of \<^verbatim>\<open>C0000\<close>.\<close>

lemma option_rom_unchecked:
  assumes "0xE0000 \<le> ra" "unat ra mod 2048 = 0" "length data mod 512 = 0" "length data \<le> 0x20000"
  obtains m' where "load_ROM w (Some data) ra 2 m = Inr m'"
    "\<And>j. j < length data \<Longrightarrow> rom m' (unat (ra AND BIOS_MASK) + j) = data ! j"
proof -
  have "\<not> ra < 0xC0000" "\<not> ra < 0xE0000" using assms(1) by (simp_all add: word_less_nat_alt word_le_nat_alt)
  thus thesis
    using that assms by (simp add: load_ROM_def Let_def rom_pages_def check_rom_def store_rom_def)
qed

subsection \<open>Witnesses\<close>

text \<open>A machine with two megabytes, PCI on, the video memory handled by a device that accepts every access.\<close>

definition vga_handler :: "unit memory_handler" where
  "vga_handler = \<lparr>param = 0, begin_addr = 0xA0000, end_addr = 0xBFFFF, read_handler = (), write_handler = ()\<rparr>"

definition mem2 :: "(unit, unit) mem" where
  "mem2 = snd (registerMemoryHandlers vga_handler (init_memory 0x200000 0x200000 True (\<lambda>_. 0)
     \<lparr>a20_mask = 0xFFEFFFFF, pci_conf = (\<lambda>_. 0), memory_handlers = (\<lambda>_. []), rom_present = (\<lambda>_. False),
      pci_enabled = False, smram_available = False, smram_enable = False, smram_restricted = False,
      mem_len = 0, allocated = 0, vector = (\<lambda>_. 0), blocks = (\<lambda>_. None), rom = (\<lambda>_. 0), bogus = (\<lambda>_. 0),
      used_blocks = 0, devs = ()\<rparr>))"

definition accept_all :: "(unit, unit) handler_ops" where
  "accept_all = \<lparr>run_read = (\<lambda>_ _ _ buf d. (True, buf, d)), run_write = (\<lambda>_ _ _ _ d. (True, d))\<rparr>"

lemma mem2_fields:
  "a20_mask mem2 = 0xFFEFFFFF" "mem_len mem2 = 0x200000" "allocated mem2 = 0x200000" "devs mem2 = ()"
  "memory_handlers mem2 0 = [vga_handler]" "\<And>i. i \<noteq> 0 \<Longrightarrow> memory_handlers mem2 i = []" "pci_enabled mem2"
  "blocks mem2 = (\<lambda>_. None)" "used_blocks mem2 = 0" "bogus mem2 i = 0xFF" "rom mem2 i = 0xFF" "rom_present mem2 i = False"
  "pci_conf mem2 i = 0"
  by (simp_all add: mem2_def registerMemoryHandlers_def vga_handler_def init_memory_def)

lemma mem2_ok: "mem_ok mem2" "a20_ok mem2"
  by (simp_all add: mem_ok_def a20_ok_def mem2_fields BX_MEM_BLOCK_LEN_def)

lemma mem2_ram: "ram mem2 (0x10000 AND a20_mask mem2) (Suc (Suc 0))" "ram mem2 (0x10001 AND a20_mask mem2) (Suc 0)"
  by (simp_all add: ram_def in_page_def is_bios_def BIOS_MASK_def dos_hole_def covers_def mem2_fields vga_handler_def)

theorem ram_keeps_bytes_witness:
  "\<exists>m' r m''. writePhysicalPage accept_all None 0x10000 [0x34, 0x12] mem2 = Inr m' \<and>
     readPhysicalPage accept_all None 0x10001 [0] m' = Inr (r, m'') \<and> r ! 0 = 0x12"
  using ram_keeps_bytes [OF mem2_ok(1,2), of "0x10000" "[0x34, 0x12]" "0x10001" "[0]" accept_all None None]
    mem2_ram by (fastforce simp: mem2_fields)

theorem host_pointer_reads_witness:
  "readPhysicalPage accept_all None (0xE0000 + of_nat 5) [0, 0] mem2 =
     Inr (load_host (shift_ptr 5 (Rom 0x60000)) (length [0, 0 :: 8 word]) mem2, mem2)"
  using host_pointer_reads [OF mem2_ok, of "0xE0000" "[0, 0]" 5 "\<lparr>smm_mode = False, apic_base = None\<rparr>" "Rom 0x60000" mem2
    accept_all None]
  by (simp add: mem2_fields page_addr_def page_granular_def vga_handler_def getHostMemAddr_def Let_def is_selected_def
      covers_def rd_memType_def pam_entry_def rom_pointer_def BIOS_MASK_def)

theorem read_after_end_witness:
  "readPhysicalPage accept_all (Some \<lparr>smm_mode = False, apic_base = None\<rparr>) 0x200000 [0]
     (mem2\<lparr>a20_mask := 0xFFFFFFFF\<rparr>) = Inl OutOfBlocks"
  using read_after_end [of "mem2\<lparr>a20_mask := 0xFFFFFFFF\<rparr>" "0x200000" "[0]" accept_all "\<lparr>smm_mode = False, apic_base = None\<rparr>"]
  by (simp add: mem_ok_def mem2_fields BX_MEM_BLOCK_LEN_def)

theorem unregister_removes_other_witness:
  "let w = vga_handler; h = vga_handler\<lparr>begin_addr := 0xB8000\<rparr>;
     m1 = snd (registerMemoryHandlers w mem2); m2 = snd (registerMemoryHandlers h m1);
     (found, m3) = unregisterMemoryHandlers w m2
   in found \<and> memory_handlers m3 = memory_handlers m1 \<and> w \<in> set (memory_handlers m3 (unat (drop_bit 20 (end_addr w))))"
  unfolding Let_def [of vga_handler] Let_def [of "vga_handler\<lparr>begin_addr := 0xB8000\<rparr>"]
  by (rule unregister_removes_other) (simp_all add: vga_handler_def)

theorem mem_invariant_witness:
  "\<exists>m'. writePhysicalPage accept_all None 0x10000 [0x34, 0x12] mem2 = Inr m' \<and> mem_ok m'"
proof -
  have r: "ram mem2 (0x10000 AND a20_mask mem2) (length [0x34, 0x12 :: 8 word])" using mem2_ram(1) by simp
  obtain m' where w: "writePhysicalPage accept_all None 0x10000 [0x34, 0x12] mem2 = Inr m'"
    using ram_write [OF mem2_ok _ r, of accept_all None thesis] by (simp add: mem2_fields)
  moreover have "mem_ok m'"
    using conjunct1 [OF mem_invariant [OF mem2_ok(1), of accept_all]] w by (elim allE impE) assumption+
  ultimately show ?thesis by (intro exI conjI)
qed

theorem expansion_roms_disjoint_witness:
  "load_ROM 64 (Some (replicate 512 0)) 0xD0000 2 (mem2\<lparr>rom_present := (\<lambda>i. i = 0)\<rparr>) =
     Inr (store_rom 0x90000 (replicate 512 0) (mem2\<lparr>rom_present := (\<lambda>i. i = 32 \<or> i = 0)\<rparr>)) \<and>
   rom (store_rom 0x90000 (replicate 512 0) (mem2\<lparr>rom_present := (\<lambda>i. i = 32 \<or> i = 0)\<rparr>)) (BIOSROMSZ + 0 * 2048 + 7) = rom mem2 (BIOSROMSZ + 0 * 2048 + 7)"
proof -
  have l: "load_ROM 64 (Some (replicate 512 0)) 0xD0000 2 (mem2\<lparr>rom_present := (\<lambda>i. i = 0)\<rparr>) =
     Inr (store_rom 0x90000 (replicate 512 0) (mem2\<lparr>rom_present := (\<lambda>i. i = 32 \<or> i = 0)\<rparr>))"
    by (simp add: load_ROM_def rom_pages_def check_rom_def EXROM_MASK_def BIOSROMSZ_def Let_def)
  have "\<forall>i < 64. \<forall>k < 2048. i = 0 \<longrightarrow>
      rom (store_rom 0x90000 (replicate 512 0) (mem2\<lparr>rom_present := (\<lambda>i. i = 32 \<or> i = 0)\<rparr>)) (BIOSROMSZ + i * 2048 + k) =
      rom mem2 (BIOSROMSZ + i * 2048 + k)"
    using expansion_roms_disjoint [OF l] by simp
  hence "rom (store_rom 0x90000 (replicate 512 0) (mem2\<lparr>rom_present := (\<lambda>i. i = 32 \<or> i = 0)\<rparr>)) (BIOSROMSZ + 0 * 2048 + 7) =
      rom mem2 (BIOSROMSZ + 0 * 2048 + 7)"
    by (elim allE [of _ 0] allE [of _ 7] impE) simp_all
  thus ?thesis using l by blast
qed

end
