(* ===== verification/Bochs_Events.thy ===== *)
theory Bochs_Events
  imports Bochs_Real Bochs_PIC
begin

unbundle bit_operations_syntax

declare One_nat_def [simp del]

section \<open>Events between instructions\<close>

text \<open>
  Models \<^verbatim>\<open>handleAsyncEvent\<close> of \<^verbatim>\<open>cpu/cpu.cc\<close> and its place in the main loop: what a running
  processor looks at between two instructions, in order of priority, on the processor of \<open>Bochs_Except\<close> and the interrupt
  controllers of \<open>Bochs_PIC\<close>. A DMA request is the argument \<open>hrq\<close>. The bus hold that grants it is the argument
  \<open>raise_hlda\<close>: it runs a transfer, which may change memory, ends with a request of its own or none, and may
  raise an interrupt (\<open>Bochs_DMA\<close> has the controllers). Left out are the halted states, system management and INIT, the local APIC (the interrupt line is the
  controllers' alone) and virtual machines.
\<close>

text \<open>The loop goes on with the next instruction, or \<^verbatim>\<open>exception\<close> started it anew or ended the run.\<close>

datatype async_exit = Proceeds pics real_cpu | Leaves pics cpu_exit

definition restarted :: "cpu_exit \<Rightarrow> cpu_exit" where
  "restarted x = (case x of Continues c \<Rightarrow> Continues (loop_entry c) | TripleFault c \<Rightarrow> TripleFault c)"

text \<open>External events; after a maskable interrupt the new state is committed.\<close>

definition external_event ::
    "bool \<Rightarrow> (pics \<times> real_cpu \<Rightarrow> bool \<times> pics \<times> real_cpu) \<Rightarrow> pics \<Rightarrow> real_cpu \<Rightarrow>
     (pics \<times> nat \<times> real_cpu) + (bool \<times> pics \<times> real_cpu)" where
  "external_event hrq raise_hlda l c =
     (if inhibit_mask c AND BX_INHIBIT_INTERRUPTS_SHADOW \<noteq> 0 then Inr (hrq, l, c)
      else if pending_NMI c \<and> \<not> disable_NMI c then
        (case interrupt 2 (c\<lparr>pending_NMI := False, disable_NMI := True, errorno := 0, EXT := True\<rparr>) of
           Inl (v, c) \<Rightarrow> Inl (l, v, c) | Inr c \<Rightarrow> Inr (hrq, l, c))
      else if intr l \<and> eflag IF_bit c then
        (let (vector, l) = IAC l in
         case interrupt vector (c\<lparr>errorno := 0, EXT := True\<rparr>) of
           Inl (v, c) \<Rightarrow> Inl (l, v, c) | Inr c \<Rightarrow> Inr (hrq, l, loop_entry c))
      else if hrq then Inr (raise_hlda (l, c))
      else Inr (hrq, l, c))"

text \<open>The end: RF, single stepping, and whether there is anything left to look at.\<close>

definition settle :: "bool \<Rightarrow> pics \<Rightarrow> real_cpu \<Rightarrow> real_cpu" where
  "settle hrq l c =
     (let c = (if eflag RF_bit c then clear_eflag RF_bit c else c);
          c = (if eflag TF_bit c then c\<lparr>debug_trap := debug_trap c OR 0x4000\<rparr> else c)
      in if \<not> (intr l \<and> eflag IF_bit c \<or> debug_trap c \<noteq> 0 \<or> hrq) then c\<lparr>async_event := 0\<rparr> else c)"

definition handle_async_event ::
    "bool \<Rightarrow> (pics \<times> real_cpu \<Rightarrow> bool \<times> pics \<times> real_cpu) \<Rightarrow> pics \<times> real_cpu \<Rightarrow> async_exit" where
  "handle_async_event hrq raise_hlda = (\<lambda>(l, c).
     let c = c\<lparr>inhibit_mask := push_bit 2 (inhibit_mask c) AND 0xF\<rparr> in
     if debug_trap c AND 0x8000 \<noteq> 0 then Leaves l (restarted (exception 1 c))
     else if debug_trap c \<noteq> 0 \<and> inhibit_mask c AND BX_INHIBIT_DEBUG_SHADOW = 0 then Leaves l (restarted (exception 1 c))
     else
       (case external_event hrq raise_hlda l c of
          Inl (l, v, c) \<Rightarrow> Leaves l (restarted (exception v c))
        | Inr (hrq, l, c) \<Rightarrow> Proceeds l (settle hrq l c)))"

subsection \<open>The interrupt shadow\<close>

lemma shadow_bits:
  "m AND BX_INHIBIT_INTERRUPTS \<noteq> 0 \<longleftrightarrow> bit m 0" "m AND BX_INHIBIT_INTERRUPTS_SHADOW \<noteq> 0 \<longleftrightarrow> bit m 2"
proof -
  have "BX_INHIBIT_INTERRUPTS = push_bit 0 1" "BX_INHIBIT_INTERRUPTS_SHADOW = push_bit 2 1"
    by (simp_all add: BX_INHIBIT_INTERRUPTS_def BX_INHIBIT_INTERRUPTS_SHADOW_def)
  thus "m AND BX_INHIBIT_INTERRUPTS \<noteq> 0 \<longleftrightarrow> bit m 0" "m AND BX_INHIBIT_INTERRUPTS_SHADOW \<noteq> 0 \<longleftrightarrow> bit m 2"
    by (simp_all only: bit_iff_and_push_bit_not_eq_0)
qed

lemma shifted_bits: "bit (push_bit 2 m AND 0xF :: 32 word) n \<longleftrightarrow> n \<in> {2, 3} \<and> bit m (n - 2)"
proof -
  have f: "(0xF :: 32 word) = mask 4" by (simp add: mask_eq_exp_minus_1)
  show ?thesis unfolding f bit_and_iff bit_push_bit_iff bit_mask_iff by (auto simp: less_Suc_eq numeral_eq_Suc)
qed

lemma settle_fields [simp]:
  "gen_reg (core (settle hrq l c)) = gen_reg (core c)" "sregs (settle hrq l c) = sregs c" "memory (settle hrq l c) = memory c"
  "inhibit_mask (settle hrq l c) = inhibit_mask c"
  by (simp_all add: settle_def Let_def clear_eflag_def map_eflags_def)

text \<open>An instruction that inhibits interrupts, as it does when it succeeds.\<close>

definition inhibits :: "executor \<Rightarrow> instruction \<Rightarrow> real_cpu \<Rightarrow> bool" where
  "inhibits exec i c \<longleftrightarrow> exec = STI \<and> \<not> eflag IF_bit c \<or> exec = POP16_SS \<or> exec = MOV_SwEw \<and> r_nnn i = SS"
lemma inhibits_sets:
  assumes "inhibits exec i c" "exec i c = Inr d"
  shows "bit (inhibit_mask d) 0"
proof -
  have b: "bit (m OR BX_INHIBIT_INTERRUPTS) 0" "bit (m OR (BX_INHIBIT_INTERRUPTS OR BX_INHIBIT_DEBUG)) 0" for m
    by (simp_all add: bit_or_iff BX_INHIBIT_INTERRUPTS_def)
  show ?thesis using assms b unfolding inhibits_def
    by (auto simp: STI_def POP16_SS_def MOV_SwEw_def inhibit_by_movss_def Let_def and_then_Inr split: if_splits)
qed

lemma no_event_in_shadow:
  fixes l :: pics and hrq :: bool
  assumes "bit (inhibit_mask d) 0" "debug_trap d = 0"
  defines "e \<equiv> settle hrq l (d\<lparr>inhibit_mask := push_bit 2 (inhibit_mask d) AND 0xF\<rparr>)"
  shows "handle_async_event hrq raise_hlda (l, d) = Proceeds l e" "\<not> bit (push_bit 2 (inhibit_mask e) AND 0xF) 2"
proof -
  have "bit (push_bit 2 (inhibit_mask d) AND 0xF) 2" using assms(1) unfolding shifted_bits by simp
  thus "handle_async_event hrq raise_hlda (l, d) = Proceeds l e"
    using assms(2) by (simp add: handle_async_event_def Let_def external_event_def shadow_bits e_def)
  have "inhibit_mask e = push_bit 2 (inhibit_mask d) AND 0xF" by (simp add: e_def)
  thus "\<not> bit (push_bit 2 (inhibit_mask e) AND 0xF) 2" unfolding shifted_bits by (simp add: shifted_bits)
qed

lemma event_after_shadow:
  assumes "\<not> bit (push_bit 2 (inhibit_mask f) AND 0xF) 2" "debug_trap f = 0" "\<not> pending_NMI f" "intr l" "eflag IF_bit f"
    and "frame_fits (fst (IAC l)) f"
  shows "\<exists>g. handle_async_event hrq raise_hlda (l, f) = Proceeds (snd (IAC l)) g \<and> in_handler (fst (IAC l)) f g"
proof -
  let ?f = "f\<lparr>inhibit_mask := push_bit 2 (inhibit_mask f) AND 0xF, errorno := 0, EXT := True\<rparr>" and ?v = "fst (IAC l)"
  have F: "frame_fits ?v ?f" using assms(6) by (simp add: frame_fits_def real_stack_def a20_good_def)
  let ?h = "loop_entry (handler_state ?v (framed ?f))"
  have "in_handler ?v ?f ?h" by (rule in_handler_cong [OF in_handler_state [OF F]]) (simp_all add: loop_entry_def)
  hence h: "in_handler ?v f ?h" by (simp add: in_handler_def frame_flags_def)
  have s: "eflag n (settle hrq l' g) \<longrightarrow> eflag n g" "stack_word x (settle hrq l' g) = stack_word x g" "a20 (settle hrq l' g) = a20 g"
    for n x l' g
    by (auto simp: settle_def Let_def clear_eflag_def map_eflags_def eflag_def bit_and_iff stack_word_def stack_byte_def phys_byte_def
        get_laddr32_def)
  have w: "system_read_word a (settle hrq l' g) = system_read_word a g" for a l' g by (rule system_read_cong) (simp_all add: s)
  have "in_handler ?v f (settle hrq (snd (IAC l)) ?h)"
    using h s(1) unfolding in_handler_def s(2) w by (auto simp: real_stack_def a20_good_def s(3))
  moreover have "handle_async_event hrq raise_hlda (l, f) = Proceeds (snd (IAC l)) (settle hrq (snd (IAC l)) ?h)"
    using assms interrupt_real [OF F]
    by (simp add: handle_async_event_def Let_def external_event_def shadow_bits eflag_def case_prod_beta)
  ultimately show ?thesis by blast
qed



subsection \<open>A non-maskable interrupt is not committed\<close>

text \<open>After a maskable interrupt the code commits the new instruction pointer; after a non-maskable one it does not: the
  address that a fault in the first instruction of its handler goes back to is still the one of the interrupted program, now
  in the handler's code segment.\<close>

lemma nmi_not_committed:
  assumes "pending_NMI c" "\<not> disable_NMI c" "debug_trap c = 0" "inhibit_mask c = 0" "frame_fits 2 c" "prev_rip c = rrx RIP_reg c"
  shows "\<exists>d. handle_async_event hrq raise_hlda (l, c) = Proceeds l d \<and> prev_rip d = rrx RIP_reg c \<and>
    erx RIP_reg d = ucast (system_read_word (idtr_base c + 8) d) \<and>
    selector (sregs d CS) = system_read_word (idtr_base c + 10) d"
proof -
  let ?c = "c\<lparr>inhibit_mask := 0, pending_NMI := False, disable_NMI := True, errorno := 0, EXT := True\<rparr>"
  let ?h = "handler_state 2 (framed ?c)"
  have F: "frame_fits 2 ?c" using assms(5) by (simp add: frame_fits_def real_stack_def a20_good_def)
  have p: "prev_rip ?h = prev_rip c" using keeps_restD(4) [OF handler_facts(8)] keeps_restD(4) [OF framed_facts(5) [OF F]] by simp
  have q: "prev_rip (settle hrq l g) = prev_rip g" "system_read_word a (settle hrq l g) = system_read_word a g" for a g
    by (simp add: settle_def Let_def clear_eflag_def)
      (rule system_read_cong; simp add: settle_def Let_def clear_eflag_def)
  have "in_handler 2 ?c ?h" by (rule in_handler_state [OF F])
  hence "erx RIP_reg ?h = ucast (system_read_word (idtr_base c + 8) ?h)" "selector (sregs ?h CS) = system_read_word (idtr_base c + 10) ?h"
    by (simp_all add: in_handler_def add.assoc)
  moreover have "handle_async_event hrq raise_hlda (l, c) = Proceeds l (settle hrq l ?h)"
    using assms(1-4) interrupt_real [OF F] by (simp add: handle_async_event_def Let_def external_event_def)
  ultimately show ?thesis using p assms(6) by (intro exI [of _ "settle hrq l ?h"]) (simp add: q)
qed

end
