(* ===== verification/Bochs_ALU16.thy ===== *)
theory Bochs_ALU16
  imports Bochs_Real
begin

unbundle bit_operations_syntax

section \<open>The 16-bit arithmetic and logic instructions\<close>

text \<open>
  Models \<^verbatim>\<open>cpu/arith16.cc\<close> and \<^verbatim>\<open>cpu/logical16.cc\<close>, with memory operands in real mode: a
  read-modify-write is checked once, as a write, before anything changes. The operations and their flags are those
  of the 8-bit instructions in \<open>Bochs_ALU\<close> at the wider type.
\<close>

abbreviation on_flags :: "(cpu_flags \<Rightarrow> cpu_flags) \<Rightarrow> real_cpu \<Rightarrow> real_cpu" where
  "on_flags f \<equiv> on_core (upd_flags f)"
abbreviation flags_add16 :: "16 word \<Rightarrow> 16 word \<Rightarrow> 16 word \<Rightarrow> real_cpu \<Rightarrow> real_cpu" where
  "flags_add16 a b r \<equiv> on_flags (SET_FLAGS_OSZAPC a b r (LF_ADD, W16))"
abbreviation flags_sub16 :: "16 word \<Rightarrow> 16 word \<Rightarrow> 16 word \<Rightarrow> real_cpu \<Rightarrow> real_cpu" where
  "flags_sub16 a b r \<equiv> on_flags (SET_FLAGS_OSZAPC a b r (LF_SUB, W16))"
abbreviation flags_adc16 :: "bool \<Rightarrow> 16 word \<Rightarrow> 16 word \<Rightarrow> 16 word \<Rightarrow> real_cpu \<Rightarrow> real_cpu" where
  "flags_adc16 cf a b r \<equiv> on_flags (SET_FLAGS_OSZAPC a b r (if cf then LF_ADC else LF_ADD, W16))"
abbreviation flags_sbb16 :: "bool \<Rightarrow> 16 word \<Rightarrow> 16 word \<Rightarrow> 16 word \<Rightarrow> real_cpu \<Rightarrow> real_cpu" where
  "flags_sbb16 cf a b r \<equiv> on_flags (SET_FLAGS_OSZAPC a b r (if cf then LF_SBB else LF_SUB, W16))"
abbreviation flags_logic16 :: "16 word \<Rightarrow> real_cpu \<Rightarrow> real_cpu" where
  "flags_logic16 r \<equiv> on_flags (SET_FLAGS_OSZAPC_RESULT r (LF_LOGIC, W16))"
abbreviation inc16 :: "16 word \<Rightarrow> real_cpu \<Rightarrow> real_cpu" where
  "inc16 r \<equiv> on_flags (SET_FLAGS_OSZAP_RESULT r (LF_INC, W16))"
abbreviation dec16 :: "16 word \<Rightarrow> real_cpu \<Rightarrow> real_cpu" where
  "dec16 r \<equiv> on_flags (SET_FLAGS_OSZAP_RESULT r (LF_DEC, W16))"

text \<open>Both kinds of memory access at the operand's address.\<close>

abbreviation rmw :: "instruction \<Rightarrow> real_cpu \<Rightarrow> (16 word \<times> 32 word \<times> real_cpu) fallible" where
  "rmw i c \<equiv> read_RMW_virtual_word_32 (iseg i) (resolve i c) c"
abbreviation rd16 :: "instruction \<Rightarrow> real_cpu \<Rightarrow> (16 word \<times> real_cpu) fallible" where
  "rd16 i c \<equiv> read_virtual_word_32 (iseg i) (resolve i c) c"

subsection \<open>Arithmetic\<close>

definition INC_RX :: executor where
  "INC_RX i c = (let v = rx (r_rm i) c + 1 in Inr (inc16 v (put_rx (r_rm i) v c)))"

definition DEC_RX :: executor where
  "DEC_RX i c = (let v = rx (r_rm i) c - 1 in Inr (dec16 v (put_rx (r_rm i) v c)))"

definition ADD_EwGwM :: executor where
  "ADD_EwGwM i c =
     and_then (rmw i c) (\<lambda>(op1, laddr, c). let op2 = rx (r_nnn i) c; sum = op1 + op2 in
        Inr (flags_add16 op1 op2 sum (write_RMW_virtual_word laddr sum c)))"

definition ADD_GwEwR :: executor where
  "ADD_GwEwR i c =
     (let op1 = rx (r_nnn i) c; op2 = rx (r_rm i) c; sum = op1 + op2
      in Inr (flags_add16 op1 op2 sum (put_rx (r_nnn i) sum c)))"

definition ADD_AXIw :: executor where
  "ADD_AXIw i c =
     (let op1 = rx 0 c; op2 = Iw i; sum = op1 + op2
      in Inr (flags_add16 op1 op2 sum (put_rx 0 sum c)))"

definition ADD_EwIwM :: executor where
  "ADD_EwIwM i c =
     and_then (rmw i c) (\<lambda>(op1, laddr, c). let op2 = Iw i; sum = op1 + op2 in
        Inr (flags_add16 op1 op2 sum (write_RMW_virtual_word laddr sum c)))"

definition ADD_EwIwR :: executor where
  "ADD_EwIwR i c =
     (let op1 = rx (r_rm i) c; op2 = Iw i; sum = op1 + op2
      in Inr (flags_add16 op1 op2 sum (put_rx (r_rm i) sum c)))"

definition ADC_EwGwM :: executor where
  "ADC_EwGwM i c =
     (let temp_CF = cflag CF c in
      and_then (rmw i c) (\<lambda>(op1, laddr, c). let op2 = rx (r_nnn i) c; sum = op1 + op2 + of_bool temp_CF in
        Inr (flags_adc16 temp_CF op1 op2 sum (write_RMW_virtual_word laddr sum c))))"

definition ADC_GwEwR :: executor where
  "ADC_GwEwR i c =
     (let temp_CF = cflag CF c; op1 = rx (r_nnn i) c; op2 = rx (r_rm i) c; sum = op1 + op2 + of_bool temp_CF
      in Inr (flags_adc16 temp_CF op1 op2 sum (put_rx (r_nnn i) sum c)))"

definition ADC_AXIw :: executor where
  "ADC_AXIw i c =
     (let temp_CF = cflag CF c; op1 = rx 0 c; op2 = Iw i; sum = op1 + op2 + of_bool temp_CF
      in Inr (flags_adc16 temp_CF op1 op2 sum (put_rx 0 sum c)))"

definition ADC_EwIwM :: executor where
  "ADC_EwIwM i c =
     (let temp_CF = cflag CF c in
      and_then (rmw i c) (\<lambda>(op1, laddr, c). let op2 = Iw i; sum = op1 + op2 + of_bool temp_CF in
        Inr (flags_adc16 temp_CF op1 op2 sum (write_RMW_virtual_word laddr sum c))))"

definition ADC_EwIwR :: executor where
  "ADC_EwIwR i c =
     (let temp_CF = cflag CF c; op1 = rx (r_rm i) c; op2 = Iw i; sum = op1 + op2 + of_bool temp_CF
      in Inr (flags_adc16 temp_CF op1 op2 sum (put_rx (r_rm i) sum c)))"

definition SBB_EwGwM :: executor where
  "SBB_EwGwM i c =
     (let temp_CF = cflag CF c in
      and_then (rmw i c) (\<lambda>(op1, laddr, c). let op2 = rx (r_nnn i) c; diff = op1 - (op2 + of_bool temp_CF) in
        Inr (flags_sbb16 temp_CF op1 op2 diff (write_RMW_virtual_word laddr diff c))))"

definition SBB_GwEwR :: executor where
  "SBB_GwEwR i c =
     (let temp_CF = cflag CF c; op1 = rx (r_nnn i) c; op2 = rx (r_rm i) c; diff = op1 - (op2 + of_bool temp_CF)
      in Inr (flags_sbb16 temp_CF op1 op2 diff (put_rx (r_nnn i) diff c)))"

definition SBB_AXIw :: executor where
  "SBB_AXIw i c =
     (let temp_CF = cflag CF c; op1 = rx 0 c; op2 = Iw i; diff = op1 - (op2 + of_bool temp_CF)
      in Inr (flags_sbb16 temp_CF op1 op2 diff (put_rx 0 diff c)))"

definition SBB_EwIwM :: executor where
  "SBB_EwIwM i c =
     (let temp_CF = cflag CF c in
      and_then (rmw i c) (\<lambda>(op1, laddr, c). let op2 = Iw i; diff = op1 - (op2 + of_bool temp_CF) in
        Inr (flags_sbb16 temp_CF op1 op2 diff (write_RMW_virtual_word laddr diff c))))"

definition SBB_EwIwR :: executor where
  "SBB_EwIwR i c =
     (let temp_CF = cflag CF c; op1 = rx (r_rm i) c; op2 = Iw i; diff = op1 - (op2 + of_bool temp_CF)
      in Inr (flags_sbb16 temp_CF op1 op2 diff (put_rx (r_rm i) diff c)))"

definition SUB_EwGwM :: executor where
  "SUB_EwGwM i c =
     and_then (rmw i c) (\<lambda>(op1, laddr, c). let op2 = rx (r_nnn i) c; diff = op1 - op2 in
        Inr (flags_sub16 op1 op2 diff (write_RMW_virtual_word laddr diff c)))"

definition SUB_GwEwR :: executor where
  "SUB_GwEwR i c =
     (let op1 = rx (r_nnn i) c; op2 = rx (r_rm i) c; diff = op1 - op2
      in Inr (flags_sub16 op1 op2 diff (put_rx (r_nnn i) diff c)))"

definition SUB_AXIw :: executor where
  "SUB_AXIw i c =
     (let op1 = rx 0 c; op2 = Iw i; diff = op1 - op2
      in Inr (flags_sub16 op1 op2 diff (put_rx 0 diff c)))"

definition SUB_EwIwM :: executor where
  "SUB_EwIwM i c =
     and_then (rmw i c) (\<lambda>(op1, laddr, c). let op2 = Iw i; diff = op1 - op2 in
        Inr (flags_sub16 op1 op2 diff (write_RMW_virtual_word laddr diff c)))"

definition SUB_EwIwR :: executor where
  "SUB_EwIwR i c =
     (let op1 = rx (r_rm i) c; op2 = Iw i; diff = op1 - op2
      in Inr (flags_sub16 op1 op2 diff (put_rx (r_rm i) diff c)))"

definition CMP_EwGwM :: executor where
  "CMP_EwGwM i c =
     and_then (rd16 i c) (\<lambda>(op1, c). let op2 = rx (r_nnn i) c; diff = op1 - op2 in Inr (flags_sub16 op1 op2 diff c))"

definition CMP_GwEwR :: executor where
  "CMP_GwEwR i c =
     (let op1 = rx (r_nnn i) c; op2 = rx (r_rm i) c; diff = op1 - op2
      in Inr (flags_sub16 op1 op2 diff c))"

definition CMP_AXIw :: executor where
  "CMP_AXIw i c =
     (let op1 = rx 0 c; op2 = Iw i; diff = op1 - op2
      in Inr (flags_sub16 op1 op2 diff c))"

definition CMP_EwIwM :: executor where
  "CMP_EwIwM i c =
     and_then (rd16 i c) (\<lambda>(op1, c). let op2 = Iw i; diff = op1 - op2 in Inr (flags_sub16 op1 op2 diff c))"

definition CMP_EwIwR :: executor where
  "CMP_EwIwR i c =
     (let op1 = rx (r_rm i) c; op2 = Iw i; diff = op1 - op2
      in Inr (flags_sub16 op1 op2 diff c))"

definition NEG_EwM :: executor where
  "NEG_EwM i c =
     and_then (rmw i c) (\<lambda>(op1, laddr, c). let op1 = - op1 in
       Inr (on_flags (SET_FLAGS_OSZAPC_RESULT op1 (LF_NEG, W16)) (write_RMW_virtual_word laddr op1 c)))"

definition NEG_EwR :: executor where
  "NEG_EwR i c =
     (let op1 = - rx (r_rm i) c in Inr (on_flags (SET_FLAGS_OSZAPC_RESULT op1 (LF_NEG, W16)) (put_rx (r_rm i) op1 c)))"

definition INC_EwM :: executor where
  "INC_EwM i c =
     and_then (rmw i c) (\<lambda>(op1, laddr, c). let op1 = op1 + 1 in Inr (inc16 op1 (write_RMW_virtual_word laddr op1 c)))"

definition DEC_EwM :: executor where
  "DEC_EwM i c =
     and_then (rmw i c) (\<lambda>(op1, laddr, c). let op1 = op1 - 1 in Inr (dec16 op1 (write_RMW_virtual_word laddr op1 c)))"

definition CBW :: executor where
  "CBW i c = Inr (put_rx 0 (scast (AL (core c))) c)"

definition CWD :: executor where
  "CWD i c = Inr (put_rx 2 (if rx 0 c AND 0x8000 \<noteq> 0 then 0xFFFF else 0) c)"

definition XADD_EwGwM :: executor where
  "XADD_EwGwM i c =
     and_then (rmw i c) (\<lambda>(op1, laddr, c). let op2 = rx (r_nnn i) c; sum = op1 + op2 in
       Inr (flags_add16 op1 op2 sum (put_rx (r_nnn i) op1 (write_RMW_virtual_word laddr sum c))))"

definition XADD_EwGwR :: executor where
  "XADD_EwGwR i c =
     (let op1 = rx (r_rm i) c; op2 = rx (r_nnn i) c; sum = op1 + op2
      in Inr (flags_add16 op1 op2 sum (put_rx (r_rm i) sum (put_rx (r_nnn i) op1 c))))"

definition CMPXCHG_EwGwM :: executor where
  "CMPXCHG_EwGwM i c =
     and_then (rmw i c) (\<lambda>(op1, laddr, c). let diff = rx 0 c - op1; c = flags_sub16 (rx 0 c) op1 diff c in
       Inr (if diff = 0 then write_RMW_virtual_word laddr (rx (r_nnn i) c) c else put_rx 0 op1 c))"

definition CMPXCHG_EwGwR :: executor where
  "CMPXCHG_EwGwR i c =
     (let op1 = rx (r_rm i) c; diff = rx 0 c - op1; c = flags_sub16 (rx 0 c) op1 diff c
      in Inr (if diff = 0 then put_rx (r_rm i) (rx (r_nnn i) c) c else put_rx 0 op1 c))"

subsection \<open>Logic\<close>

definition XOR_EwGwM :: executor where
  "XOR_EwGwM i c =
     and_then (rmw i c) (\<lambda>(op1, laddr, c). let op1 = op1 XOR rx (r_nnn i) c in
        Inr (flags_logic16 op1 (write_RMW_virtual_word laddr op1 c)))"

definition XOR_GwEwR :: executor where
  "XOR_GwEwR i c =
     (let op1 = rx (r_nnn i) c XOR rx (r_rm i) c in Inr (flags_logic16 op1 (put_rx (r_nnn i) op1 c)))"

definition XOR_AXIw :: executor where
  "XOR_AXIw i c =
     (let op1 = rx 0 c XOR Iw i in Inr (flags_logic16 op1 (put_rx 0 op1 c)))"

definition XOR_EwIwM :: executor where
  "XOR_EwIwM i c =
     and_then (rmw i c) (\<lambda>(op1, laddr, c). let op1 = op1 XOR Iw i in
        Inr (flags_logic16 op1 (write_RMW_virtual_word laddr op1 c)))"

definition XOR_EwIwR :: executor where
  "XOR_EwIwR i c =
     (let op1 = rx (r_rm i) c XOR Iw i in Inr (flags_logic16 op1 (put_rx (r_rm i) op1 c)))"

definition OR_EwGwM :: executor where
  "OR_EwGwM i c =
     and_then (rmw i c) (\<lambda>(op1, laddr, c). let op1 = op1 OR rx (r_nnn i) c in
        Inr (flags_logic16 op1 (write_RMW_virtual_word laddr op1 c)))"

definition OR_GwEwR :: executor where
  "OR_GwEwR i c =
     (let op1 = rx (r_nnn i) c OR rx (r_rm i) c in Inr (flags_logic16 op1 (put_rx (r_nnn i) op1 c)))"

definition OR_AXIw :: executor where
  "OR_AXIw i c =
     (let op1 = rx 0 c OR Iw i in Inr (flags_logic16 op1 (put_rx 0 op1 c)))"

definition OR_EwIwM :: executor where
  "OR_EwIwM i c =
     and_then (rmw i c) (\<lambda>(op1, laddr, c). let op1 = op1 OR Iw i in
        Inr (flags_logic16 op1 (write_RMW_virtual_word laddr op1 c)))"

definition OR_EwIwR :: executor where
  "OR_EwIwR i c =
     (let op1 = rx (r_rm i) c OR Iw i in Inr (flags_logic16 op1 (put_rx (r_rm i) op1 c)))"

definition AND_EwGwM :: executor where
  "AND_EwGwM i c =
     and_then (rmw i c) (\<lambda>(op1, laddr, c). let op1 = op1 AND rx (r_nnn i) c in
        Inr (flags_logic16 op1 (write_RMW_virtual_word laddr op1 c)))"

definition AND_GwEwR :: executor where
  "AND_GwEwR i c =
     (let op1 = rx (r_nnn i) c AND rx (r_rm i) c in Inr (flags_logic16 op1 (put_rx (r_nnn i) op1 c)))"

definition AND_AXIw :: executor where
  "AND_AXIw i c =
     (let op1 = rx 0 c AND Iw i in Inr (flags_logic16 op1 (put_rx 0 op1 c)))"

definition AND_EwIwM :: executor where
  "AND_EwIwM i c =
     and_then (rmw i c) (\<lambda>(op1, laddr, c). let op1 = op1 AND Iw i in
        Inr (flags_logic16 op1 (write_RMW_virtual_word laddr op1 c)))"

definition AND_EwIwR :: executor where
  "AND_EwIwR i c =
     (let op1 = rx (r_rm i) c AND Iw i in Inr (flags_logic16 op1 (put_rx (r_rm i) op1 c)))"

definition NOT_EwM :: executor where
  "NOT_EwM i c = and_then (rmw i c) (\<lambda>(op1, laddr, c). Inr (write_RMW_virtual_word laddr (NOT op1) c))"

definition NOT_EwR :: executor where
  "NOT_EwR i c = Inr (put_rx (r_rm i) (NOT (rx (r_rm i) c)) c)"

definition TEST_EwGwR :: executor where
  "TEST_EwGwR i c =
     (let op1 = rx (r_rm i) c AND rx (r_nnn i) c in Inr (flags_logic16 op1 c))"

definition TEST_AXIw :: executor where
  "TEST_AXIw i c =
     (let op1 = rx 0 c AND Iw i in Inr (flags_logic16 op1 c))"

definition TEST_EwIwR :: executor where
  "TEST_EwIwR i c =
     (let op1 = rx (r_rm i) c AND Iw i in Inr (flags_logic16 op1 c))"

subsection \<open>What they compute\<close>

text \<open>Where an operand is: its value, how to store to it, and the state after looking; a memory operand that is written is
  checked for writing.\<close>

primrec fetch16 :: "operand \<Rightarrow> bool \<Rightarrow> instruction \<Rightarrow> real_cpu \<Rightarrow> (16 word \<times> (16 word \<Rightarrow> real_cpu \<Rightarrow> real_cpu) \<times> real_cpu) fallible" where
  "fetch16 Rm w i c = Inr (rx (r_rm i) c, put_rx (r_rm i), c)"
| "fetch16 Nnn w i c = Inr (rx (r_nnn i) c, put_rx (r_nnn i), c)"
| "fetch16 Acc w i c = Inr (rx 0 c, put_rx 0, c)"
| "fetch16 Imm w i c = Inr (Iw i, \<lambda>v c. c, c)"
| "fetch16 Mem w i c =
     (if w then and_then (rmw i c) (\<lambda>(v, laddr, c). Inr (v, write_RMW_virtual_word laddr, c))
      else and_then (rd16 i c) (\<lambda>(v, c). Inr (v, \<lambda>v c. c, c)))"

primrec source16 :: "operand \<Rightarrow> instruction \<Rightarrow> real_cpu \<Rightarrow> 16 word" where
  "source16 Rm i c = rx (r_rm i) c"
| "source16 Nnn i c = rx (r_nnn i) c"
| "source16 Acc i c = rx 0 c"
| "source16 Imm i c = Iw i"
| "source16 Mem i c = 0"

definition performs16 :: "executor \<Rightarrow> alu \<Rightarrow> operand \<Rightarrow> operand \<Rightarrow> bool" where
  "performs16 exec oper dst src \<longleftrightarrow>
     (\<forall>i c. let cf = cflag CF c; stores = (oper \<notin> {Cmp, Test}) in
        case fetch16 dst stores i c of
          Inl fault \<Rightarrow> exec i c = Inl fault
        | Inr (a, store, c1) \<Rightarrow>
            (let b = source16 src i c1; c2 = (if stores then store (alu_result oper a b cf) c1 else c1) in
             \<exists>S. exec i c = Inr (on_flags (\<lambda>_. S) c2) \<and> (\<forall>f. get_flag f S = alu_flag oper a b cf f)))"

definition alu16_table :: "(executor \<times> alu \<times> operand \<times> operand) list" where
  "alu16_table =
     [(ADD_EwGwM, Add, Mem, Nnn), (ADD_GwEwR, Add, Nnn, Rm), (ADD_AXIw, Add, Acc, Imm), (ADD_EwIwM, Add, Mem, Imm),
      (ADD_EwIwR, Add, Rm, Imm), (ADC_EwGwM, Adc, Mem, Nnn), (ADC_GwEwR, Adc, Nnn, Rm), (ADC_AXIw, Adc, Acc, Imm),
      (ADC_EwIwM, Adc, Mem, Imm), (ADC_EwIwR, Adc, Rm, Imm), (SBB_EwGwM, Sbb, Mem, Nnn), (SBB_GwEwR, Sbb, Nnn, Rm),
      (SBB_AXIw, Sbb, Acc, Imm), (SBB_EwIwM, Sbb, Mem, Imm), (SBB_EwIwR, Sbb, Rm, Imm), (SUB_EwGwM, Sub, Mem, Nnn),
      (SUB_GwEwR, Sub, Nnn, Rm), (SUB_AXIw, Sub, Acc, Imm), (SUB_EwIwM, Sub, Mem, Imm), (SUB_EwIwR, Sub, Rm, Imm),
      (CMP_EwGwM, Cmp, Mem, Nnn), (CMP_GwEwR, Cmp, Nnn, Rm), (CMP_AXIw, Cmp, Acc, Imm), (CMP_EwIwM, Cmp, Mem, Imm),
      (CMP_EwIwR, Cmp, Rm, Imm), (XOR_EwGwM, Xor, Mem, Nnn), (XOR_GwEwR, Xor, Nnn, Rm), (XOR_AXIw, Xor, Acc, Imm),
      (XOR_EwIwM, Xor, Mem, Imm), (XOR_EwIwR, Xor, Rm, Imm), (OR_EwGwM, Or, Mem, Nnn), (OR_GwEwR, Or, Nnn, Rm),
      (OR_AXIw, Or, Acc, Imm), (OR_EwIwM, Or, Mem, Imm), (OR_EwIwR, Or, Rm, Imm), (AND_EwGwM, And, Mem, Nnn),
      (AND_GwEwR, And, Nnn, Rm), (AND_AXIw, And, Acc, Imm), (AND_EwIwM, And, Mem, Imm), (AND_EwIwR, And, Rm, Imm),
      (TEST_EwGwR, Test, Rm, Nnn), (TEST_AXIw, Test, Acc, Imm), (TEST_EwIwR, Test, Rm, Imm)]"

lemmas alu16_defs = ADD_EwGwM_def ADD_GwEwR_def ADD_AXIw_def ADD_EwIwM_def ADD_EwIwR_def ADC_EwGwM_def ADC_GwEwR_def ADC_AXIw_def
  ADC_EwIwM_def ADC_EwIwR_def SBB_EwGwM_def SBB_GwEwR_def SBB_AXIw_def SBB_EwIwM_def SBB_EwIwR_def SUB_EwGwM_def
  SUB_GwEwR_def SUB_AXIw_def SUB_EwIwM_def SUB_EwIwR_def CMP_EwGwM_def CMP_GwEwR_def CMP_AXIw_def CMP_EwIwM_def
  CMP_EwIwR_def XOR_EwGwM_def XOR_GwEwR_def XOR_AXIw_def XOR_EwIwM_def XOR_EwIwR_def OR_EwGwM_def OR_GwEwR_def
  OR_AXIw_def OR_EwIwM_def OR_EwIwR_def AND_EwGwM_def AND_GwEwR_def AND_AXIw_def AND_EwIwM_def AND_EwIwR_def
  TEST_EwGwR_def TEST_AXIw_def TEST_EwIwR_def

lemmas flags16 =
  lazy_flags_add [where 'a = 16, of _ _ _ False, simplified, simplified width_of_def, simplified]
  lazy_flags_add [where 'a = 16, of _ _ _ True, simplified, simplified width_of_def, simplified]
  lazy_flags_add [where 'a = 16, simplified width_of_def, simplified]
  lazy_flags_sub [where 'a = 16, of _ _ _ False, simplified, simplified width_of_def, simplified]
  lazy_flags_sub [where 'a = 16, of _ _ _ True, simplified, simplified width_of_def, simplified]
  lazy_flags_sub [where 'a = 16, simplified width_of_def, simplified]

lemma flags16_logic: "get_flag f (SET_FLAGS_OSZAPC_RESULT (r :: 16 word) (LF_LOGIC, W16) S) = logic_flag r f"
proof -
  define e where "e = (oszapc S)\<lparr>lf_result := scast r, instr := (LF_LOGIC, W16)\<rparr>"
  have "get_ZFLazy e = (r = 0)" "get_SFLazy e = (sint r < 0)" "get_PFLazy e = parity r"
    by (rule lazy_zsp [of e r]; simp add: e_def)+
  then have "get_lazy f e = logic_flag r f"
    by (cases f) (simp_all add: e_def logic_flag_def get_CFLazy_def get_AFLazy_def get_OFLazy_def)
  then show ?thesis by (simp add: get_SET_OSZAPC_RESULT e_def)
qed

lemma on_flags_const: "on_flags g c = on_flags (\<lambda>_. g (flags (core c))) c"
  by (simp add: on_core_def upd_flags_def)

lemma left_by:
  "(\<And>S f. get_flag f (g S) = F f) \<Longrightarrow> \<exists>S. on_flags g c = on_flags (\<lambda>_. S) c \<and> (\<forall>f. get_flag f S = F f)"
  by (metis on_flags_const)

text \<open>C10. The 16-bit arithmetic and logic instructions with two operands, in all 43 forms, registers, memory, accumulator or immediate:
  when the memory operand cannot be accessed, the instruction faults as the access does, before anything is changed; otherwise
  the result of the operation is stored in the destination (not by comparisons and tests), the six flags are those of the
  operation, and nothing else changes.\<close>

theorem alu16_forms:
  "list_all (\<lambda>(exec, oper, dst, src). performs16 exec oper dst src) alu16_table"
  by (simp add: alu16_table_def performs16_def alu16_defs Let_def and_then_def left_by flags16 flags16_logic split: sum.split prod.split)

text \<open>The one-operand instructions in the same way; \<^verbatim>\<open>NOT\<close> leaves the flags alone.\<close>

definition performs1_16 :: "executor \<Rightarrow> alu1 \<Rightarrow> operand \<Rightarrow> bool" where
  "performs1_16 exec oper dst \<longleftrightarrow>
     (\<forall>i c. case fetch16 dst True i c of
          Inl fault \<Rightarrow> exec i c = Inl fault
        | Inr (a, store, c1) \<Rightarrow>
            (\<exists>S. exec i c = Inr (on_flags (\<lambda>_. S) (store (alu1_result oper a) c1)) \<and>
              (\<forall>f. get_flag f S = alu1_flag oper a (\<lambda>g. cflag g c) f)))"

lemma flags16_unary:
  "get_flag f (SET_FLAGS_OSZAP_RESULT (a + 1 :: 16 word) (LF_INC, W16) S) =
     (if f = CF then get_flag CF S else add_flag a 1 False f)"
  "get_flag f (SET_FLAGS_OSZAP_RESULT (a - 1 :: 16 word) (LF_DEC, W16) S) =
     (if f = CF then get_flag CF S else sub_flag a 1 False f)"
  "get_flag f (SET_FLAGS_OSZAPC_RESULT (- a :: 16 word) (LF_NEG, W16) S) = sub_flag 0 a False f"
  by (simp_all add: get_SET_OSZAP_RESULT get_SET_OSZAPC_RESULT inc_flags dec_flags neg_flags width_of_def)

lemma rmw_core: "rmw i c = Inr (v, laddr, c1) \<Longrightarrow> core c1 = core c"
  using check_result(1) [of 2 "iseg i" "resolve i c" c]
  by (auto simp: read_RMW_virtual_word_32_def and_then_def put_sreg_def split: sum.splits)

lemma left_from:
  "(\<And>f. get_flag f (g (flags (core c))) = F f) \<Longrightarrow> \<exists>S. on_flags g c = on_flags (\<lambda>_. S) c \<and> (\<forall>f. get_flag f S = F f)"
  by (metis on_flags_const)

lemma on_flags_same: "c = on_flags (\<lambda>_. flags (core c)) c"
  by (simp add: on_core_def upd_flags_def)

lemma left_alone: "(\<And>f. cflag f c = F f) \<Longrightarrow> \<exists>S. c = on_flags (\<lambda>_. S) c \<and> (\<forall>f. get_flag f S = F f)"
  by (metis on_flags_same)

lemma flags_put_rx: "flags (core (put_rx n v c)) = flags (core c)"
  by (simp add: on_core_def upd_reg_def)

theorem unary16_forms:
  "list_all (\<lambda>(exec, oper, dst). performs1_16 exec oper dst)
     [(INC_RX, Inc, Rm), (DEC_RX, Dec, Rm), (INC_EwM, Inc, Mem), (DEC_EwM, Dec, Mem),
      (NEG_EwM, Neg, Mem), (NEG_EwR, Neg, Rm), (NOT_EwM, Not, Mem), (NOT_EwR, Not, Rm)]"
  by (auto simp: performs1_16_def INC_RX_def DEC_RX_def INC_EwM_def DEC_EwM_def NEG_EwM_def NEG_EwR_def NOT_EwM_def NOT_EwR_def
      Let_def and_then_def flags16_unary flags_put_rx write_RMW_virtual_word_def dest: rmw_core intro!: left_from left_alone
      split: sum.split prod.split split del: if_split)

subsection \<open>Comparisons and conditional jumps\<close>

text \<open>What each jump asks of the two operands of the comparison before it.\<close>

definition jump_table :: "(executor \<times> (16 word \<Rightarrow> 16 word \<Rightarrow> bool)) list" where
  "jump_table =
     [(JZ_Jw, \<lambda>a b. a = b), (JNZ_Jw, \<lambda>a b. a \<noteq> b),
      (JB_Jw, \<lambda>a b. uint a < uint b), (JNB_Jw, \<lambda>a b. uint b \<le> uint a),
      (JBE_Jw, \<lambda>a b. uint a \<le> uint b), (JNBE_Jw, \<lambda>a b. uint b < uint a),
      (JL_Jw, \<lambda>a b. sint a < sint b), (JNL_Jw, \<lambda>a b. sint b \<le> sint a),
      (JLE_Jw, \<lambda>a b. sint a \<le> sint b), (JNLE_Jw, \<lambda>a b. sint b < sint a),
      (JO_Jw, \<lambda>a b. sint a - sint b \<notin> {- 32768 .. 32767}), (JNO_Jw, \<lambda>a b. sint a - sint b \<in> {- 32768 .. 32767})]"

definition compare_table :: "(executor \<times> operand \<times> operand) list" where
  "compare_table =
     [(CMP_EwGwM, Mem, Nnn), (CMP_GwEwR, Nnn, Rm), (CMP_AXIw, Acc, Imm), (CMP_EwIwM, Mem, Imm), (CMP_EwIwR, Rm, Imm)]"

definition decides :: "executor \<Rightarrow> operand \<Rightarrow> operand \<Rightarrow> executor \<Rightarrow> (16 word \<Rightarrow> 16 word \<Rightarrow> bool) \<Rightarrow> bool" where
  "decides cmp dst src jump rel \<longleftrightarrow>
     (\<forall>i j c. case fetch16 dst False i c of
        Inl fault \<Rightarrow> cmp i c = Inl fault
      | Inr (a, store, c1) \<Rightarrow>
          (\<exists>S. let c2 = on_flags (\<lambda>_. S) c1 in
             cmp i c = Inr c2 \<and>
             jump j c2 = (if rel a (source16 src i c1) then branch_near16 (IP c1 + Iw j) c2 else Inr c2)))"

lemma sint_bounds16: "- 32768 \<le> sint (x :: 16 word)" "sint x < 32768"
  using sint_ge [of x] sint_lt [of x] by simp_all

lemma signed_less16:
  "(sint (a - b) < 0) \<noteq> (sint a - sint b \<notin> {- 32768 .. 32767}) \<longleftrightarrow> sint a < sint (b :: 16 word)"
proof -
  have "a - b = word_of_int (sint a - sint b)" by (simp add: scast_eq)
  then have "sint (a - b) = (if sint a - sint b < - 32768 then sint a - sint b + 65536
      else if 32768 \<le> sint a - sint b then sint a - sint b - 65536 else sint a - sint b)"
    using sint_wrap [where 'a = 16 and t = "sint a - sint b"] sint_bounds16 [of a] sint_bounds16 [of b] by simp
  then show ?thesis using sint_bounds16 [of a] sint_bounds16 [of b] by (auto split: if_splits)
qed

lemma compared_flags:
  assumes "\<And>f. get_flag f S = sub_flag a (b :: 16 word) False f"
  shows "get_flag ZF S \<longleftrightarrow> a = b" "get_flag CF S \<longleftrightarrow> uint a < uint b"
    "get_flag OF S \<longleftrightarrow> sint a - sint b \<notin> {- 32768 .. 32767}" "get_flag SF S \<noteq> get_flag OF S \<longleftrightarrow> sint a < sint b"
proof -
  have r: "signed_range TYPE(16) = {- 32768 .. 32767}" by (auto simp: signed_range_def)
  show "get_flag ZF S \<longleftrightarrow> a = b" "get_flag CF S \<longleftrightarrow> uint a < uint b"
    "get_flag OF S \<longleftrightarrow> sint a - sint b \<notin> {- 32768 .. 32767}" "get_flag SF S \<noteq> get_flag OF S \<longleftrightarrow> sint a < sint b"
    unfolding signed_less16 [symmetric] using assms by (simp_all add: sub_flag_def r)
qed

lemma jump_decides:
  assumes "(jump, rel) \<in> set jump_table" and "\<And>f. get_flag f S = sub_flag a (b :: 16 word) False f"
  shows "jump j (on_flags (\<lambda>_. S) c) =
    (if rel a b then branch_near16 (IP c + Iw j) (on_flags (\<lambda>_. S) c) else Inr (on_flags (\<lambda>_. S) c))"
proof -
  have f: "cflag f (on_flags (\<lambda>_. S) c) = get_flag f S" "IP (on_flags (\<lambda>_. S) c) = IP c" for f
    by (simp_all add: on_core_def upd_flags_def)
  have o: "uint a = uint b \<longleftrightarrow> a = b" "sint a = sint b \<longleftrightarrow> a = b"
    using signed_word_eqI [of a b] unfolding word_uint_eq_iff [symmetric] by blast+
  have le: "uint a \<le> uint b \<longleftrightarrow> uint a < uint b \<or> a = b" "sint a \<le> sint b \<longleftrightarrow> a = b \<or> sint a < sint b"
    "uint b < uint a \<longleftrightarrow> \<not> (uint a < uint b \<or> a = b)" "sint b < sint a \<longleftrightarrow> \<not> (a = b \<or> sint a < sint b)"
    "uint b \<le> uint a \<longleftrightarrow> \<not> uint a < uint b" "sint b \<le> sint a \<longleftrightarrow> \<not> sint a < sint b"
    using o by (auto simp: less_le)
  note g = compared_flags [OF assms(2)]
  have ov: "sint a - sint b \<in> {- 32768 .. 32767} \<longleftrightarrow> \<not> get_flag OF S" using g(3) by blast
  have n: "get_flag SF S = get_flag OF S \<longleftrightarrow> \<not> sint a < sint b" using g(4) by blast
  show ?thesis using assms(1) unfolding jump_table_def le
    by (auto simp: JZ_Jw_def JNZ_Jw_def JB_Jw_def JNB_Jw_def JBE_Jw_def JNBE_Jw_def JL_Jw_def JNL_Jw_def JLE_Jw_def JNLE_Jw_def
        JO_Jw_def JNO_Jw_def f g(1,2,4) n ov o simp del: atLeastAtMost_iff)
qed

lemma compare_performs: "(cmp, dst, src) \<in> set compare_table \<Longrightarrow> performs16 cmp Cmp dst src"
  by (auto simp: compare_table_def performs16_def alu16_defs Let_def and_then_def left_by flags16 split: sum.split prod.split)

text \<open>C7. Comparing and jumping decides the comparison. After any form of the 16-bit comparison, with operands in registers, in memory or
  immediate, the conditional jumps branch exactly when the operands are related as their names say: equal, below and above as
  unsigned numbers, less and greater as signed numbers, also when the difference overflows. A memory operand that faults does
  so in the comparison.\<close>

theorem compare_branches:
  "list_all (\<lambda>(cmp, dst, src). list_all (\<lambda>(jump, rel). decides cmp dst src jump rel) jump_table) compare_table"
proof -
  have "decides cmp dst src jump rel" if c: "(cmp, dst, src) \<in> set compare_table" and j: "(jump, rel) \<in> set jump_table" for cmp dst src jump rel
    unfolding decides_def
  proof (intro allI)
    fix i j c
    show "case fetch16 dst False i c of Inl fault \<Rightarrow> cmp i c = Inl fault
      | Inr (a, store, c1) \<Rightarrow> (\<exists>S. let c2 = on_flags (\<lambda>_. S) c1 in cmp i c = Inr c2 \<and>
          jump j c2 = (if rel a (source16 src i c1) then branch_near16 (IP c1 + Iw j) c2 else Inr c2))"
      using compare_performs [OF c, unfolded performs16_def, THEN spec [of _ i], THEN spec [of _ c]] jump_decides [OF j]
      by (auto simp: Let_def split: sum.splits prod.splits)
  qed
  then show ?thesis by (auto simp: list_all_iff)
qed

end
