(* ===== verification/Bochs_Shift16.thy ===== *)
theory Bochs_Shift16
  imports Bochs_ALU16
begin

unbundle bit_operations_syntax

section \<open>The 16-bit shifts and rotations\<close>

text \<open>Models \<^verbatim>\<open>cpu/shift16.cc\<close> and, below, \<^verbatim>\<open>cpu/mult16.cc\<close>. The operand is a register or a word of memory, which is checked for writing before the count is
  looked at; the count is CL or an immediate byte.\<close>

definition shift_count16 :: "instruction \<Rightarrow> real_cpu \<Rightarrow> nat" where
  "shift_count16 i c = (if b1 (i8 i) = 0xD3 then unat (CL (core c)) else unat (Ib (i8 i)))"

definition ew_read :: "instruction \<Rightarrow> real_cpu \<Rightarrow> (16 word \<times> 32 word \<times> real_cpu) fallible" where
  "ew_read i c = (if modC0 (i8 i) then Inr (rx (r_rm i) c, 0, c) else rmw i c)"

definition ew_write :: "instruction \<Rightarrow> 32 word \<Rightarrow> 16 word \<Rightarrow> real_cpu \<Rightarrow> real_cpu" where
  "ew_write i laddr v c = (if modC0 (i8 i) then put_rx (r_rm i) v c else write_RMW_virtual_word laddr v c)"

abbreviation flags_oc :: "bool \<Rightarrow> bool \<Rightarrow> real_cpu \<Rightarrow> real_cpu" where
  "flags_oc ov cf \<equiv> on_flags (SET_FLAGS_OxxxxC ov cf)"

definition SHLD_EwGwM :: executor where
  "SHLD_EwGwM i c =
     (let count = (if b1 (i8 i) = 0xA4 then unat (Ib (i8 i)) else unat (CL (core c))) AND 0x1F in
      and_then (rmw i c) (\<lambda>(op1, laddr, c).
        if count = 0 then Inr c
        else
          (let op2 = rx (r_nnn i) c;
               temp_32 = push_bit 16 (ucast op1) OR ucast op2 :: 32 word;
               result_32 = push_bit count temp_32;
               result_32 = (if count > 16 then result_32 OR push_bit (count - 16) (ucast op1) else result_32);
               res = ucast (drop_bit 16 result_32);
               cf = bit temp_32 (32 - count)
           in Inr (flags_oc (cf \<noteq> bit res 15) cf (flags_logic16 res (write_RMW_virtual_word laddr res c))))))"

definition SHLD_EwGwR :: executor where
  "SHLD_EwGwR i c =
     (let count = (if b1 (i8 i) = 0xA4 then unat (Ib (i8 i)) else unat (CL (core c))) AND 0x1F in
      if count = 0 then Inr c
      else
        (let op1 = rx (r_rm i) c; op2 = rx (r_nnn i) c;
             temp_32 = push_bit 16 (ucast op1) OR ucast op2 :: 32 word;
             result_32 = push_bit count temp_32;
             result_32 = (if count > 16 then result_32 OR push_bit (count - 16) (ucast op1) else result_32);
             res = ucast (drop_bit 16 result_32);
             cf = bit temp_32 (32 - count)
         in Inr (flags_oc (cf \<noteq> bit res 15) cf (flags_logic16 res (put_rx (r_rm i) res c)))))"

definition SHRD_EwGwM :: executor where
  "SHRD_EwGwM i c =
     (let count = (if b1 (i8 i) = 0xAC then unat (Ib (i8 i)) else unat (CL (core c))) AND 0x1F in
      and_then (rmw i c) (\<lambda>(op1, laddr, c).
        if count = 0 then Inr c
        else
          (let op2 = rx (r_nnn i) c;
               temp_32 = push_bit 16 (ucast op2) OR ucast op1 :: 32 word;
               result_32 = drop_bit count temp_32;
               result_32 = (if count > 16 then result_32 OR push_bit (32 - count) (ucast op1) else result_32);
               res = ucast result_32;
               cf = bit op1 (count - 1)
           in Inr (flags_oc (bit res 14 \<noteq> bit res 15) cf (flags_logic16 res (write_RMW_virtual_word laddr res c))))))"

definition SHRD_EwGwR :: executor where
  "SHRD_EwGwR i c =
     (let count = (if b1 (i8 i) = 0xAC then unat (Ib (i8 i)) else unat (CL (core c))) AND 0x1F in
      if count = 0 then Inr c
      else
        (let op1 = rx (r_rm i) c; op2 = rx (r_nnn i) c;
             temp_32 = push_bit 16 (ucast op2) OR ucast op1 :: 32 word;
             result_32 = drop_bit count temp_32;
             result_32 = (if count > 16 then result_32 OR push_bit (32 - count) (ucast op1) else result_32);
             res = ucast result_32;
             cf = bit op1 (count - 1)
         in Inr (flags_oc (bit res 14 \<noteq> bit res 15) cf (flags_logic16 res (put_rx (r_rm i) res c)))))"

definition ROL_Ew :: executor where
  "ROL_Ew i c =
     (let count = shift_count16 i c in
      and_then (ew_read i c) (\<lambda>(op1, laddr, c).
        if count AND 0x0F = 0 then
          Inr (if count AND 0x10 \<noteq> 0 then flags_oc (bit op1 0 \<noteq> bit op1 15) (bit op1 0) c else c)
        else
          (let count = count AND 0x0F; res = push_bit count op1 OR drop_bit (16 - count) op1
           in Inr (flags_oc (bit res 0 \<noteq> bit res 15) (bit res 0) (ew_write i laddr res c)))))"

definition ROR_Ew :: executor where
  "ROR_Ew i c =
     (let count = shift_count16 i c in
      and_then (ew_read i c) (\<lambda>(op1, laddr, c).
        if count AND 0x0F = 0 then
          Inr (if count AND 0x10 \<noteq> 0 then flags_oc (bit op1 14 \<noteq> bit op1 15) (bit op1 15) c else c)
        else
          (let count = count AND 0x0F; res = drop_bit count op1 OR push_bit (16 - count) op1
           in Inr (flags_oc (bit res 14 \<noteq> bit res 15) (bit res 15) (ew_write i laddr res c)))))"

definition RCL_Ew :: executor where
  "RCL_Ew i c =
     (let count = (shift_count16 i c AND 0x1F) mod 17 in
      and_then (ew_read i c) (\<lambda>(op1, laddr, c).
        if count = 0 then Inr c
        else
          (let cf0 = of_bool (cflag CF c);
               res = (if count = 1 then push_bit 1 op1 OR cf0
                      else if count = 16 then push_bit 15 cf0 OR drop_bit 1 op1
                      else push_bit count op1 OR push_bit (count - 1) cf0 OR drop_bit (17 - count) op1);
               cf = bit op1 (16 - count)
           in Inr (flags_oc (cf \<noteq> bit res 15) cf (ew_write i laddr res c)))))"

definition RCR_Ew :: executor where
  "RCR_Ew i c =
     (let count = (shift_count16 i c AND 0x1F) mod 17 in
      and_then (ew_read i c) (\<lambda>(op1, laddr, c).
        if count = 0 then Inr c
        else
          (let cf0 = of_bool (cflag CF c);
               res = drop_bit count op1 OR push_bit (16 - count) cf0 OR push_bit (17 - count) op1;
               cf = bit op1 (count - 1)
           in Inr (flags_oc (bit res 14 \<noteq> bit res 15) cf (ew_write i laddr res c)))))"

definition SHL_Ew :: executor where
  "SHL_Ew i c =
     (let count = shift_count16 i c AND 0x1F in
      and_then (ew_read i c) (\<lambda>(op1, laddr, c).
        if count = 0 then Inr c
        else
          (let res = (if count \<le> 16 then push_bit count op1 else 0);
               cf = (if count \<le> 16 then bit op1 (16 - count) else False);
               ov = (if count \<le> 16 then cf \<noteq> bit res 15 else False)
           in Inr (flags_oc ov cf (flags_logic16 res (ew_write i laddr res c))))))"

definition SHR_Ew :: executor where
  "SHR_Ew i c =
     (let count = shift_count16 i c AND 0x1F in
      and_then (ew_read i c) (\<lambda>(op1, laddr, c).
        if count = 0 then Inr c
        else
          (let res = drop_bit count op1; cf = bit op1 (count - 1)
           in Inr (flags_oc (bit res 14 \<noteq> bit res 15) cf (flags_logic16 res (ew_write i laddr res c))))))"

definition SAR_Ew :: executor where
  "SAR_Ew i c =
     (let count = shift_count16 i c AND 0x1F in
      and_then (ew_read i c) (\<lambda>(op1, laddr, c).
        if count = 0 then Inr c
        else
          (let neg = (op1 AND 0x8000 \<noteq> 0);
               res = (if count < 16 then
                        (if neg then drop_bit count op1 OR push_bit (16 - count) 0xFFFF else drop_bit count op1)
                      else (if neg then 0xFFFF else 0));
               cf = (if count < 16 then bit op1 (count - 1) else bit res 0)
           in Inr (ew_write i laddr res (flags_oc False cf (flags_logic16 res c))))))"

subsection \<open>What they compute\<close>

datatype shift = Rol | Ror | Rcl | Rcr | Shl | Shr | Sar | Shld | Shrd

text \<open>The operand with the carry on top, and the 48 bits that the double shifts move over: the operand, the source and
  the operand again.\<close>

definition with_carry16 :: "bool \<Rightarrow> 16 word \<Rightarrow> 17 word" where
  "with_carry16 cf x = push_bit 16 (of_bool cf) OR ucast x"

definition triple :: "16 word \<Rightarrow> 16 word \<Rightarrow> 48 word" where
  "triple x y = push_bit 32 (ucast x) OR push_bit 16 (ucast y) OR ucast x"

fun shift_result :: "shift \<Rightarrow> nat \<Rightarrow> bool \<Rightarrow> 16 word \<Rightarrow> 16 word \<Rightarrow> 16 word" where
  "shift_result Rol n cf x y = word_rotl n x"
| "shift_result Ror n cf x y = word_rotr n x"
| "shift_result Rcl n cf x y = ucast (word_rotl n (with_carry16 cf x))"
| "shift_result Rcr n cf x y = ucast (word_rotr n (with_carry16 cf x))"
| "shift_result Shl n cf x y = word_of_int (uint x * 2 ^ n)"
| "shift_result Shr n cf x y = word_of_int (uint x div 2 ^ n)"
| "shift_result Sar n cf x y = word_of_int (sint x div 2 ^ n)"
| "shift_result Shld n cf x y = ucast (drop_bit 32 (push_bit n (triple x y)))"
| "shift_result Shrd n cf x y = ucast (drop_bit n (triple x y))"

fun shift_carry :: "shift \<Rightarrow> nat \<Rightarrow> bool \<Rightarrow> 16 word \<Rightarrow> 16 word \<Rightarrow> bool" where
  "shift_carry Rol n cf x y = bit (word_rotl n x) 0"
| "shift_carry Ror n cf x y = bit (word_rotr n x) 15"
| "shift_carry Rcl n cf x y = bit (word_rotl n (with_carry16 cf x)) 16"
| "shift_carry Rcr n cf x y = bit (word_rotr n (with_carry16 cf x)) 16"
| "shift_carry Shl n cf x y = odd (uint x * 2 ^ n div 65536)"
| "shift_carry Shr n cf x y = odd (uint x div 2 ^ (n - 1))"
| "shift_carry Sar n cf x y = odd (sint x div 2 ^ (n - 1))"
| "shift_carry Shld n cf x y = bit (triple x y) (48 - n)"
| "shift_carry Shrd n cf x y = (n \<le> 16 \<and> bit (triple x y) (n - 1))"

definition shift_flag :: "shift \<Rightarrow> 16 word \<Rightarrow> bool \<Rightarrow> (flag \<Rightarrow> bool) \<Rightarrow> flag \<Rightarrow> bool" where
  "shift_flag sh r carry old f =
     (if f = CF then carry
      else if f = OF then
        (if sh \<in> {Rol, Rcl, Shl, Shld} then carry \<noteq> bit r 15 else if sh = Sar then False else bit r 14 \<noteq> bit r 15)
      else if sh \<in> {Rol, Ror, Rcl, Rcr} then old f else logic_flag r f)"

text \<open>Where the instruction takes its operand and its count.\<close>

definition ew_access :: "bool \<Rightarrow> instruction \<Rightarrow> real_cpu \<Rightarrow> (16 word \<times> 32 word \<times> real_cpu) fallible" where
  "ew_access mem i c = (if mem then rmw i c else Inr (rx (r_rm i) c, 0, c))"

definition ew_store :: "bool \<Rightarrow> instruction \<Rightarrow> 32 word \<Rightarrow> 16 word \<Rightarrow> real_cpu \<Rightarrow> real_cpu" where
  "ew_store mem i laddr v c = (if mem then write_RMW_virtual_word laddr v c else put_rx (r_rm i) v c)"

fun effective_count :: "shift \<Rightarrow> instruction \<Rightarrow> real_cpu \<Rightarrow> nat" where
  "effective_count Shld i c = (if b1 (i8 i) = 0xA4 then unat (Ib (i8 i)) else unat (CL (core c))) mod 32"
| "effective_count Shrd i c = (if b1 (i8 i) = 0xAC then unat (Ib (i8 i)) else unat (CL (core c))) mod 32"
| "effective_count Rcl i c = shift_count16 i c mod 32 mod 17"
| "effective_count Rcr i c = shift_count16 i c mod 32 mod 17"
| "effective_count sh i c = shift_count16 i c mod 32"

definition shifts_by :: "executor \<Rightarrow> shift \<Rightarrow> (instruction \<Rightarrow> bool) \<Rightarrow> bool" where
  "shifts_by exec sh mem \<longleftrightarrow>
     (\<forall>i c. let n = effective_count sh i c; cf = cflag CF c in
        case ew_access (mem i) i c of
          Inl fault \<Rightarrow> exec i c = Inl fault
        | Inr (x, laddr, c1) \<Rightarrow>
            if n = 0 then exec i c = Inr c1
            else (let y = rx (r_nnn i) c1; r = shift_result sh n cf x y in
              \<exists>S. exec i c = Inr (on_flags (\<lambda>_. S) (ew_store (mem i) i laddr r c1)) \<and>
                (\<forall>f. get_flag f S = shift_flag sh r (shift_carry sh n cf x y) (\<lambda>g. cflag g c) f)))"

lemma mask_counts: "n AND 0x1F = n mod 32" "n AND 0x0F = n mod 16" for n :: nat
  using take_bit_eq_mask [of 5 n] take_bit_eq_mask [of 4 n] by (simp_all add: take_bit_eq_mod mask_eq_exp_minus_1)

lemma bit_4: "n AND 0x10 = 0 \<longleftrightarrow> even (n div 16)" for n :: nat
  using bit_iff_and_push_bit_not_eq_0 [of n 4] bit_iff_odd [of n 4] by (cases "n AND 16 = 0") auto

lemma bit_rotl: "n < LENGTH('a) \<Longrightarrow> m < LENGTH('a) \<Longrightarrow>
    bit (word_rotl n w) m = bit w (if n \<le> m then m - n else LENGTH('a) + m - n)" for w :: "'a::len word"
proof -
  assume nm: "n < LENGTH('a)" "m < LENGTH('a)"
  have "(m + (LENGTH('a) - n mod LENGTH('a))) mod LENGTH('a) = (if n \<le> m then m - n else LENGTH('a) + m - n)"
    using nm by (auto simp: mod_if)
  then show ?thesis using nm by (simp only: bit_word_rotl_iff) simp
qed

lemma bit_rotr: "n < LENGTH('a) \<Longrightarrow> m < LENGTH('a) \<Longrightarrow>
    bit (word_rotr n w) m = bit w (if m + n < LENGTH('a) then m + n else m + n - LENGTH('a))" for w :: "'a::len word"
proof -
  assume nm: "n < LENGTH('a)" "m < LENGTH('a)"
  have "(m + n) mod LENGTH('a) = (if m + n < LENGTH('a) then m + n else m + n - LENGTH('a))"
    using nm by (auto simp: mod_if)
  then show ?thesis using nm by (simp only: bit_word_rotr_iff) simp
qed

lemma high_bit16 [simp]: "16 \<le> n \<Longrightarrow> \<not> bit (x :: 16 word) n"
  by (auto dest: bit_imp_le_length)

lemma rotate_16:
  assumes "n < 16"
  shows "push_bit n x OR drop_bit (16 - n) x = word_rotl n (x :: 16 word)"
    and "drop_bit n x OR push_bit (16 - n) x = word_rotr n (x :: 16 word)"
proof -
  show "push_bit n x OR drop_bit (16 - n) x = word_rotl n x"
    by (rule bit_word_eqI) (use assms in \<open>auto simp: bit_rotl bit_or_iff bit_push_bit_iff bit_drop_bit_eq ac_simps\<close>)
  show "drop_bit n x OR push_bit (16 - n) x = word_rotr n x"
    by (rule bit_word_eqI) (use assms in \<open>auto simp: bit_rotr bit_or_iff bit_push_bit_iff bit_drop_bit_eq ac_simps\<close>)
qed

lemma bit_with_carry16: "bit (with_carry16 cf x) n \<longleftrightarrow> (if n = 16 then cf else bit x n)"
  by (auto simp: with_carry16_def bit_simps dest: bit_imp_le_length)

lemma rotate_17:
  assumes "0 < n" "n < 17"
  shows "push_bit n x OR push_bit (n - 1) (of_bool cf) OR drop_bit (17 - n) x = ucast (word_rotl n (with_carry16 cf x))"
    and "drop_bit n x OR push_bit (16 - n) (of_bool cf) OR push_bit (17 - n) x = ucast (word_rotr n (with_carry16 cf x))"
    and "bit (word_rotl n (with_carry16 cf x)) 16 = bit x (16 - n)"
    and "bit (word_rotr n (with_carry16 cf x)) 16 = bit x (n - 1)"
proof -
  show "push_bit n x OR push_bit (n - 1) (of_bool cf) OR drop_bit (17 - n) x = ucast (word_rotl n (with_carry16 cf x))"
  proof (rule bit_word_eqI)
    fix m assume "m < LENGTH(16)"
    then have m: "m < 16" by simp
    show "bit (push_bit n x OR push_bit (n - 1) (of_bool cf) OR drop_bit (17 - n) x) m =
        bit (ucast (word_rotl n (with_carry16 cf x)) :: 16 word) m"
      using assms m by (cases "n \<le> m"; cases "m = n - 1")
        (auto simp: bit_rotl bit_with_carry16 bit_ucast_iff bit_or_iff bit_push_bit_iff bit_drop_bit_eq bit_1_iff of_bool_def)
  qed
  show "drop_bit n x OR push_bit (16 - n) (of_bool cf) OR push_bit (17 - n) x = ucast (word_rotr n (with_carry16 cf x))"
  proof (rule bit_word_eqI)
    fix m assume "m < LENGTH(16)"
    then have m: "m < 16" by simp
    show "bit (drop_bit n x OR push_bit (16 - n) (of_bool cf) OR push_bit (17 - n) x) m =
        bit (ucast (word_rotr n (with_carry16 cf x)) :: 16 word) m"
      using assms m by (cases "m + n < 17"; cases "m = 16 - n")
        (auto simp: bit_rotr bit_with_carry16 bit_ucast_iff bit_or_iff bit_push_bit_iff bit_drop_bit_eq bit_1_iff of_bool_def ac_simps)
  qed
  show "bit (word_rotl n (with_carry16 cf x)) 16 = bit x (16 - n)" "bit (word_rotr n (with_carry16 cf x)) 16 = bit x (n - 1)"
    using assms by (auto simp: bit_rotl bit_rotr bit_with_carry16 One_nat_def)
qed

lemma bit_uint16: "bit (x :: 16 word) n = odd (uint x div 2 ^ n)"
proof -
  have "bit x n = bit (uint x) n" by (auto simp: bit_uint_iff dest: bit_imp_le_length)
  then show ?thesis by (simp only: bit_iff_odd [of "uint x"])
qed

lemma bit_sint16: "bit (sint (x :: 16 word)) n = bit x (min 15 n)"
  by (cases "n = 15") (auto simp: bit_sint_iff min_def)

lemma shl_16:
  assumes "0 < n"
  shows "(if n \<le> 16 then push_bit n x else 0) = (word_of_int (uint x * 2 ^ n) :: 16 word)"
    and "odd (uint x * 2 ^ n div 65536) = (if n \<le> 16 then bit x (16 - n) else False)"
proof -
  have p: "push_bit n x = word_of_int (uint x * 2 ^ n)" by (simp add: push_bit_eq_mult)
  moreover have "push_bit n x = 0" if "16 < n" by (rule bit_word_eqI) (use that in \<open>simp add: bit_push_bit_iff\<close>)
  ultimately show "(if n \<le> 16 then push_bit n x else 0) = (word_of_int (uint x * 2 ^ n) :: 16 word)" by simp
  show "odd (uint x * 2 ^ n div 65536) = (if n \<le> 16 then bit x (16 - n) else False)"
  proof (cases "n \<le> 16")
    case True
    have "uint x * 2 ^ n div (2 ^ (16 - n) * 2 ^ n) = uint x div 2 ^ (16 - n)" by simp
    moreover have "(2 :: int) ^ (16 - n) * 2 ^ n = 65536" using True by (simp flip: power_add)
    ultimately show ?thesis using True by (simp add: bit_uint16)
  next
    case False
    then have "(2 :: int) ^ n = 65536 * (2 * 2 ^ (n - 17))" using power_add [of "2 :: int" 17 "n - 17"] by simp
    then show ?thesis using False by simp
  qed
qed

lemma shr_16: "drop_bit n x = (word_of_int (uint x div 2 ^ n) :: 16 word)"
proof -
  have "drop_bit n x = (word_of_int (drop_bit n (uint x)) :: 16 word)"
    by (rule bit_word_eqI) (auto simp: bit_word_of_int_iff bit_drop_bit_eq bit_uint_iff dest: bit_imp_le_length)
  then show ?thesis by (simp only: drop_bit_eq_div)
qed

lemma sign_bit16: "x AND 0x8000 \<noteq> 0 \<longleftrightarrow> bit x 15" for x :: "16 word"
  using bit_iff_and_push_bit_not_eq_0 [of x 15] by simp

lemma sar_16:
  "(if n < 16 then (if bit x 15 then drop_bit n x OR push_bit (16 - n) 0xFFFF else drop_bit n x)
    else (if bit x 15 then 0xFFFF else 0)) = (word_of_int (sint x div 2 ^ n) :: 16 word)"
proof (rule bit_word_eqI)
  fix m assume "m < LENGTH(16)"
  then have m: "m < 16" by simp
  have f: "(0xFFFF :: 16 word) = mask 16" by (simp add: mask_eq_exp_minus_1)
  have "bit (word_of_int (sint x div 2 ^ n) :: 16 word) m = bit (sint x) (m + n)"
    using m by (simp add: bit_word_of_int_iff flip: drop_bit_eq_div) (simp add: bit_drop_bit_eq add.commute)
  then have sd: "bit (word_of_int (sint x div 2 ^ n) :: 16 word) m = bit x (min 15 (m + n))" by (simp only: bit_sint16)
  show "bit (if n < 16 then (if bit x 15 then drop_bit n x OR push_bit (16 - n) 0xFFFF else drop_bit n x)
      else (if bit x 15 then 0xFFFF else 0)) m = bit (word_of_int (sint x div 2 ^ n) :: 16 word) m"
    using m unfolding f sd by (cases "m + n < 15"; cases "m + n = 15")
      (auto simp: bit_or_iff bit_push_bit_iff bit_mask_iff bit_drop_bit_eq add.commute)
qed

lemma sar_carry_16:
  assumes "0 < n"
  shows "odd (sint (x :: 16 word) div 2 ^ (n - 1)) =
     (if n < 16 then bit x (n - 1) else bit (if bit x 15 then 0xFFFF else (0 :: 16 word)) 0)"
proof -
  have "odd (sint x div 2 ^ (n - 1)) = bit x (min 15 (n - 1))" by (simp only: bit_iff_odd [symmetric] bit_sint16)
  then show ?thesis using assms by (auto simp: min_def)
qed

lemma bit_triple: "bit (triple x y) m \<longleftrightarrow> m < 48 \<and> (if m < 16 then bit x m else if m < 32 then bit y (m - 16) else bit x (m - 32))"
  by (auto simp: triple_def bit_or_iff bit_push_bit_iff bit_ucast_iff dest: bit_imp_le_length)

lemma bit_pair: "bit (push_bit 16 (ucast x) OR ucast y :: 32 word) m \<longleftrightarrow> (if m < 16 then bit y m else bit (x :: 16 word) (m - 16))"
  for y :: "16 word"
  by (auto simp: bit_or_iff bit_push_bit_iff bit_ucast_iff dest: bit_imp_le_length)

lemma shld_16:
  fixes x y :: "16 word"
  assumes "0 < n" "n < 32"
  defines "t \<equiv> push_bit 16 (ucast x) OR ucast y :: 32 word"
  shows "(ucast (drop_bit 16 (if n > 16 then push_bit n t OR push_bit (n - 16) (ucast x) else push_bit n t)) :: 16 word) =
      ucast (drop_bit 32 (push_bit n (triple x y)))"
    and "bit t (32 - n) = bit (triple x y) (48 - n)"
proof -
  show "(ucast (drop_bit 16 (if n > 16 then push_bit n t OR push_bit (n - 16) (ucast x) else push_bit n t)) :: 16 word) =
      ucast (drop_bit 32 (push_bit n (triple x y)))"
  proof (rule bit_word_eqI)
    fix m assume "m < LENGTH(16)"
    then have m: "m < 16" by simp
    consider "n \<le> m" | "m < n" "n \<le> 16" | "16 < n" "n \<le> 16 + m" | "16 + m < n" by linarith
    then show "bit (ucast (drop_bit 16 (if n > 16 then push_bit n t OR push_bit (n - 16) (ucast x) else push_bit n t)) :: 16 word) m =
        bit (ucast (drop_bit 32 (push_bit n (triple x y))) :: 16 word) m"
      by cases (use assms(1,2) m in \<open>auto simp: t_def bit_ucast_iff bit_drop_bit_eq bit_or_iff [where 'a = "32 word"] bit_push_bit_iff bit_triple bit_pair\<close>)
  qed
  show "bit t (32 - n) = bit (triple x y) (48 - n)" using assms(1,2) by (auto simp: t_def bit_triple bit_pair)
qed

lemma shrd_16:
  fixes x y :: "16 word"
  assumes "0 < n" "n < 32"
  defines "t \<equiv> push_bit 16 (ucast y) OR ucast x :: 32 word"
  shows "(ucast (if n > 16 then drop_bit n t OR push_bit (32 - n) (ucast x) else drop_bit n t) :: 16 word) =
      ucast (drop_bit n (triple x y))"
    and "bit x (n - 1) = (n \<le> 16 \<and> bit (triple x y) (n - 1))"
proof -
  show "(ucast (if n > 16 then drop_bit n t OR push_bit (32 - n) (ucast x) else drop_bit n t) :: 16 word) =
      ucast (drop_bit n (triple x y))"
  proof (rule bit_word_eqI)
    fix m assume "m < LENGTH(16)"
    then have m: "m < 16" by simp
    consider "m + n < 16" | "16 \<le> m + n" "m + n < 32" | "32 \<le> m + n" by linarith
    then show "bit (ucast (if n > 16 then drop_bit n t OR push_bit (32 - n) (ucast x) else drop_bit n t) :: 16 word) m =
        bit (ucast (drop_bit n (triple x y)) :: 16 word) m"
      by cases (use assms(1,2) m in \<open>auto simp: t_def bit_ucast_iff bit_drop_bit_eq bit_or_iff [where 'a = "32 word"] bit_push_bit_iff bit_triple bit_pair ac_simps\<close>)
  qed
  show "bit x (n - 1) = (n \<le> 16 \<and> bit (triple x y) (n - 1))" using assms(1,2) by (auto simp: bit_triple)
qed

lemma ew_by_mod: "ew_read i c = ew_access (\<not> modC0 (i8 i)) i c" "ew_write i laddr v c = ew_store (\<not> modC0 (i8 i)) i laddr v c"
  by (simp_all add: ew_read_def ew_write_def ew_access_def ew_store_def)

lemma on_flags_merge: "on_flags f (on_flags g c) = on_flags (\<lambda>S. f (g S)) c"
  by (simp add: on_core_def upd_flags_def)

lemma write_linear_core: "access_write_linear a bs (on_core f c) = on_core f (access_write_linear a bs c)"
proof (induction bs arbitrary: a c)
  case (Cons b bs)
  have *: "(on_core f c)\<lparr>memory := m\<rparr> = on_core f (c\<lparr>memory := m\<rparr>)" "memory (on_core f c) = memory c" "a20 (on_core f c) = a20 c" for m
    by (simp_all add: on_core_def)
  show ?case by (simp only: access_write_linear.simps * Cons.IH)
qed simp

lemma ew_store_flags: "ew_store m i laddr v (on_flags f c) = on_flags f (ew_store m i laddr v c)"
  by (simp add: ew_store_def write_RMW_virtual_word_def write_linear_core) (simp add: on_core_def upd_flags_def upd_reg_def)

lemma put_rx_same: "put_rx n (rx n c) c = c"
  by (simp add: on_core_def upd_reg_def)

lemma word_bytes_of: "word_bytes_le (of_bytes_le [p, q] :: 16 word) = [p, q]"
  unfolding word_bytes_le_def of_bytes_le_def
  by (simp; rule conjI; rule bit_word_eqI; auto simp: bit_simps dest: bit_imp_le_length)

lemma write_back: "write_RMW_virtual_word laddr (of_bytes_le (access_read_linear laddr 2 c)) c = c"
proof -
  have r: "access_read_linear laddr 2 c = [phys_byte c laddr, phys_byte c (laddr + 1)]"
    by (simp add: access_read_linear_def numeral_2_eq_2)
  show ?thesis unfolding write_RMW_virtual_word_def r word_bytes_of by (simp add: phys_byte_def)
qed

lemma ew_store_same: "ew_access m i c = Inr (x, laddr, c1) \<Longrightarrow> ew_store m i laddr x c1 = c1"
  by (auto simp: ew_access_def ew_store_def put_rx_same read_RMW_virtual_word_32_def and_then_def write_back split: sum.splits if_splits)

lemma ew_access_flags: "ew_access m i c = Inr (x, laddr, c1) \<Longrightarrow> core c1 = core c"
  using check_result(1) [of 2 "iseg i" "resolve i c" c]
  by (auto simp: ew_access_def read_RMW_virtual_word_32_def and_then_def put_sreg_def split: sum.splits if_splits)

lemma ew_store_keeps: "flags (core (ew_store m i laddr v c)) = flags (core c)"
  by (simp add: ew_store_def write_RMW_virtual_word_def)

lemma logic_then_oc:
  "get_flag f (SET_FLAGS_OxxxxC ov cf (SET_FLAGS_OSZAPC_RESULT (r :: 16 word) (LF_LOGIC, W16) S)) =
     (if f = OF then ov else if f = CF then cf else logic_flag r f)"
  by (simp add: flags16_logic)

lemma shifts_byI:
  assumes "\<And>i c e. ew_access (mem i) i c = Inl e \<Longrightarrow> exec i c = Inl e"
    and "\<And>i c x laddr c1. ew_access (mem i) i c = Inr (x, laddr, c1) \<Longrightarrow> effective_count sh i c = 0 \<Longrightarrow> exec i c = Inr c1"
    and "\<And>i c x laddr c1 n y r. ew_access (mem i) i c = Inr (x, laddr, c1) \<Longrightarrow> n = effective_count sh i c \<Longrightarrow> 0 < n \<Longrightarrow>
      y = rx (r_nnn i) c1 \<Longrightarrow> r = shift_result sh n (cflag CF c) x y \<Longrightarrow>
      \<exists>g. exec i c = Inr (on_flags g (ew_store (mem i) i laddr r c1)) \<and>
        (\<forall>S f. get_flag f (g S) = shift_flag sh r (shift_carry sh n (cflag CF c) x y) (\<lambda>g. get_flag g S) f)"
  shows "shifts_by exec sh mem"
  unfolding shifts_by_def Let_def
proof (intro allI)
  fix i c
  show "case ew_access (mem i) i c of Inl fault \<Rightarrow> exec i c = Inl fault
    | Inr (x, laddr, c1) \<Rightarrow>
        if effective_count sh i c = 0 then exec i c = Inr c1
        else \<exists>S. exec i c = Inr (on_flags (\<lambda>_. S)
              (ew_store (mem i) i laddr (shift_result sh (effective_count sh i c) (cflag CF c) x (rx (r_nnn i) c1)) c1)) \<and>
            (\<forall>f. get_flag f S = shift_flag sh (shift_result sh (effective_count sh i c) (cflag CF c) x (rx (r_nnn i) c1))
               (shift_carry sh (effective_count sh i c) (cflag CF c) x (rx (r_nnn i) c1)) (\<lambda>g. cflag g c) f)"
  proof (cases "ew_access (mem i) i c")
    case (Inl e)
    then show ?thesis using assms(1) by simp
  next
    case (Inr t)
    obtain x laddr c1 where t: "t = (x, laddr, c1)" by (cases t)
    note acc = Inr [unfolded t]
    show ?thesis
    proof (cases "effective_count sh i c = 0")
      case True
      then show ?thesis using assms(2) [OF acc] by (simp add: acc)
    next
      case False
      then obtain g where "exec i c = Inr (on_flags g (ew_store (mem i) i laddr
          (shift_result sh (effective_count sh i c) (cflag CF c) x (rx (r_nnn i) c1)) c1))"
        "\<forall>S f. get_flag f (g S) = shift_flag sh (shift_result sh (effective_count sh i c) (cflag CF c) x (rx (r_nnn i) c1))
           (shift_carry sh (effective_count sh i c) (cflag CF c) x (rx (r_nnn i) c1)) (\<lambda>g. get_flag g S) f"
        using assms(3) [OF acc refl _ refl refl] by auto
      then show ?thesis using False ew_access_flags [OF acc] ew_store_keeps
        by (auto simp: acc on_flags_const [of g])
    qed
  qed
qed

lemma rotate_mod16:
  "word_rotl (k mod 32) x = word_rotl (k mod 16) (x :: 16 word)" "word_rotr (k mod 32) x = word_rotr (k mod 16) (x :: 16 word)"
proof -
  have m: "k mod 32 mod 16 = k mod 16" by (simp add: mod_mod_cancel)
  have a: "(n + k mod 32) mod 16 = (n + k) mod 16" for n using m by (metis mod_add_right_eq)
  show "word_rotl (k mod 32) x = word_rotl (k mod 16) x" "word_rotr (k mod 32) x = word_rotr (k mod 16) x"
    by (rule bit_word_eqI; simp add: bit_word_rotl_iff bit_word_rotr_iff m a mod_add_right_eq)+
qed

lemma full_turn: "k mod 16 = 0 \<Longrightarrow> 0 < k mod 32 \<Longrightarrow> odd (k div 16)" "k mod 16 = 0 \<Longrightarrow> k mod 32 = 0 \<Longrightarrow> even (k div 16)" for k :: nat
  using mod_mult2_eq [of k 16 2] by auto

lemma rol_shifts: "shifts_by ROL_Ew Rol (\<lambda>i. \<not> modC0 (i8 i))"
proof (rule shifts_byI)
  fix i c x laddr c1 n y r
  assume acc: "ew_access (\<not> modC0 (i8 i)) i c = Inr (x, laddr, c1)" and n: "n = effective_count Rol i c" "0 < n"
    and "r = shift_result Rol n (cflag CF c) x y"
  then have r: "r = word_rotl (shift_count16 i c mod 16) x" by (simp add: rotate_mod16)
  have e: "ROL_Ew i c = Inr (on_flags (SET_FLAGS_OxxxxC (bit r 0 \<noteq> bit r 15) (bit r 0)) (ew_store (\<not> modC0 (i8 i)) i laddr r c1))"
  proof (cases "shift_count16 i c mod 16 = 0")
    case True
    then show ?thesis using r n full_turn(1) [OF True] ew_store_same [OF acc]
      by (simp add: ROL_Ew_def Let_def ew_by_mod acc mask_counts bit_4 rotate_0)
  next
    case False
    then show ?thesis using r rotate_16(1) [of "shift_count16 i c mod 16" x]
      by (simp add: ROL_Ew_def Let_def ew_by_mod acc mask_counts)
  qed
  show "\<exists>g. ROL_Ew i c = Inr (on_flags g (ew_store (\<not> modC0 (i8 i)) i laddr r c1)) \<and>
      (\<forall>S f. get_flag f (g S) = shift_flag Rol r (shift_carry Rol n (cflag CF c) x y) (\<lambda>g. get_flag g S) f)"
    by (intro exI conjI, rule e) (use r n in \<open>simp add: shift_flag_def rotate_mod16\<close>)
qed (auto simp: ROL_Ew_def Let_def ew_by_mod mask_counts bit_4 full_turn and_then_def)

lemma ror_shifts: "shifts_by ROR_Ew Ror (\<lambda>i. \<not> modC0 (i8 i))"
proof (rule shifts_byI)
  fix i c x laddr c1 n y r
  assume acc: "ew_access (\<not> modC0 (i8 i)) i c = Inr (x, laddr, c1)" and n: "n = effective_count Ror i c" "0 < n"
    and "r = shift_result Ror n (cflag CF c) x y"
  then have r: "r = word_rotr (shift_count16 i c mod 16) x" by (simp add: rotate_mod16)
  have e: "ROR_Ew i c = Inr (on_flags (SET_FLAGS_OxxxxC (bit r 14 \<noteq> bit r 15) (bit r 15)) (ew_store (\<not> modC0 (i8 i)) i laddr r c1))"
  proof (cases "shift_count16 i c mod 16 = 0")
    case True
    then show ?thesis using r n full_turn(1) [OF True] ew_store_same [OF acc]
      by (simp add: ROR_Ew_def Let_def ew_by_mod acc mask_counts bit_4 rotate_0)
  next
    case False
    then show ?thesis using r rotate_16(2) [of "shift_count16 i c mod 16" x]
      by (simp add: ROR_Ew_def Let_def ew_by_mod acc mask_counts)
  qed
  show "\<exists>g. ROR_Ew i c = Inr (on_flags g (ew_store (\<not> modC0 (i8 i)) i laddr r c1)) \<and>
      (\<forall>S f. get_flag f (g S) = shift_flag Ror r (shift_carry Ror n (cflag CF c) x y) (\<lambda>g. get_flag g S) f)"
    by (intro exI conjI, rule e) (use r n in \<open>simp add: shift_flag_def rotate_mod16\<close>)
qed (auto simp: ROR_Ew_def Let_def ew_by_mod mask_counts bit_4 full_turn and_then_def)

lemma rcl_shifts: "shifts_by RCL_Ew Rcl (\<lambda>i. \<not> modC0 (i8 i))"
proof (rule shifts_byI)
  fix i c x laddr c1 n y r
  assume acc: "ew_access (\<not> modC0 (i8 i)) i c = Inr (x, laddr, c1)" and n: "n = effective_count Rcl i c" "0 < n"
    and r: "r = shift_result Rcl n (cflag CF c) x y"
  have n17: "n < 17" "(shift_count16 i c AND 0x1F) mod 17 = n" using n by (simp_all add: mask_counts)
  have one: "push_bit 1 x OR of_bool b = push_bit 1 x OR push_bit (1 - 1) (of_bool b) OR drop_bit (17 - 1) x"
    "push_bit 15 (of_bool b) OR drop_bit 1 x = push_bit 16 x OR push_bit (16 - 1) (of_bool b) OR drop_bit (17 - 16) x" for b
    by (rule bit_word_eqI; simp add: bit_or_iff bit_push_bit_iff bit_drop_bit_eq One_nat_def; blast)+
  have "(if n = 1 then push_bit 1 x OR of_bool (cflag CF c)
      else if n = 16 then push_bit 15 (of_bool (cflag CF c)) OR drop_bit 1 x
      else push_bit n x OR push_bit (n - 1) (of_bool (cflag CF c)) OR drop_bit (17 - n) x) = r"
    using rotate_17(1) [OF n(2) n17(1), of x "cflag CF c"] one r by auto
  then have e: "RCL_Ew i c = Inr (on_flags (SET_FLAGS_OxxxxC (bit x (16 - n) \<noteq> bit r 15) (bit x (16 - n)))
      (ew_store (\<not> modC0 (i8 i)) i laddr r c1))"
    using n(2) ew_access_flags [OF acc] by (simp add: RCL_Ew_def Let_def ew_by_mod acc n17(2))
  show "\<exists>g. RCL_Ew i c = Inr (on_flags g (ew_store (\<not> modC0 (i8 i)) i laddr r c1)) \<and>
      (\<forall>S f. get_flag f (g S) = shift_flag Rcl r (shift_carry Rcl n (cflag CF c) x y) (\<lambda>g. get_flag g S) f)"
    by (intro exI conjI, rule e) (use rotate_17(3) [OF n(2) n17(1)] in \<open>simp add: shift_flag_def\<close>)
qed (auto simp: RCL_Ew_def Let_def ew_by_mod mask_counts and_then_def)

lemma rcr_shifts: "shifts_by RCR_Ew Rcr (\<lambda>i. \<not> modC0 (i8 i))"
proof (rule shifts_byI)
  fix i c x laddr c1 n y r
  assume acc: "ew_access (\<not> modC0 (i8 i)) i c = Inr (x, laddr, c1)" and n: "n = effective_count Rcr i c" "0 < n"
    and r: "r = shift_result Rcr n (cflag CF c) x y"
  have n17: "n < 17" "(shift_count16 i c AND 0x1F) mod 17 = n" using n by (simp_all add: mask_counts)
  have e: "RCR_Ew i c = Inr (on_flags (SET_FLAGS_OxxxxC (bit r 14 \<noteq> bit r 15) (bit x (n - 1)))
      (ew_store (\<not> modC0 (i8 i)) i laddr r c1))"
    using n(2) rotate_17(2) [OF n(2) n17(1), of x "cflag CF c"] r ew_access_flags [OF acc]
    by (simp add: RCR_Ew_def Let_def ew_by_mod acc n17(2))
  show "\<exists>g. RCR_Ew i c = Inr (on_flags g (ew_store (\<not> modC0 (i8 i)) i laddr r c1)) \<and>
      (\<forall>S f. get_flag f (g S) = shift_flag Rcr r (shift_carry Rcr n (cflag CF c) x y) (\<lambda>g. get_flag g S) f)"
    by (intro exI conjI, rule e) (use rotate_17(4) [OF n(2) n17(1)] in \<open>simp add: shift_flag_def\<close>)
qed (auto simp: RCR_Ew_def Let_def ew_by_mod mask_counts and_then_def)

text \<open>The shifts proper: the result goes to the operand, then all flags are set from it.\<close>

lemma shift_proper:
  assumes "exec i c = Inr (flags_oc ov cy (flags_logic16 r (ew_store m i laddr r c1)))"
    and "cy = shift_carry sh n cf x y" and "ov = shift_flag sh r cy (\<lambda>_. False) OF" and "sh \<notin> {Rol, Ror, Rcl, Rcr}"
  shows "\<exists>g. exec i c = Inr (on_flags g (ew_store m i laddr r c1)) \<and>
      (\<forall>S f. get_flag f (g S) = shift_flag sh r (shift_carry sh n cf x y) (\<lambda>g. get_flag g S) f)"
  using assms by (intro exI conjI, simp add: on_flags_merge) (simp add: flags16_logic shift_flag_def)

lemma shl_shifts: "shifts_by SHL_Ew Shl (\<lambda>i. \<not> modC0 (i8 i))"
proof (rule shifts_byI)
  fix i c x laddr c1 n y r
  assume acc: "ew_access (\<not> modC0 (i8 i)) i c = Inr (x, laddr, c1)" and n: "n = effective_count Shl i c" "0 < n"
    and r: "r = shift_result Shl n (cflag CF c) x y"
  have m: "shift_count16 i c AND 0x1F = n" using n by (simp add: mask_counts)
  note s = shl_16 [OF n(2), of x]
  show "\<exists>g. SHL_Ew i c = Inr (on_flags g (ew_store (\<not> modC0 (i8 i)) i laddr r c1)) \<and>
      (\<forall>S f. get_flag f (g S) = shift_flag Shl r (shift_carry Shl n (cflag CF c) x y) (\<lambda>g. get_flag g S) f)"
  proof (rule shift_proper)
    let ?cy = "if n \<le> 16 then bit x (16 - n) else False"
    show "SHL_Ew i c = Inr (flags_oc (if n \<le> 16 then ?cy \<noteq> bit r 15 else False) ?cy
        (flags_logic16 r (ew_store (\<not> modC0 (i8 i)) i laddr r c1)))"
      unfolding SHL_Ew_def Let_def ew_by_mod m using n(2) by (simp only: acc and_then_def sum.case prod.case s(1) r shift_result.simps) simp
    show "(if n \<le> 16 then ?cy \<noteq> bit r 15 else False) = shift_flag Shl r ?cy (\<lambda>_. False) OF"
      using s(1) r by (cases "n \<le> 16") (auto simp: shift_flag_def)
  qed (use s(2) in simp_all)
qed (auto simp: SHL_Ew_def Let_def ew_by_mod mask_counts and_then_def)

lemma shr_shifts: "shifts_by SHR_Ew Shr (\<lambda>i. \<not> modC0 (i8 i))"
proof (rule shifts_byI)
  fix i c x laddr c1 n y r
  assume acc: "ew_access (\<not> modC0 (i8 i)) i c = Inr (x, laddr, c1)" and n: "n = effective_count Shr i c" "0 < n"
    and r: "r = shift_result Shr n (cflag CF c) x y"
  have m: "shift_count16 i c AND 0x1F = n" using n by (simp add: mask_counts)
  show "\<exists>g. SHR_Ew i c = Inr (on_flags g (ew_store (\<not> modC0 (i8 i)) i laddr r c1)) \<and>
      (\<forall>S f. get_flag f (g S) = shift_flag Shr r (shift_carry Shr n (cflag CF c) x y) (\<lambda>g. get_flag g S) f)"
  proof (rule shift_proper)
    show "SHR_Ew i c = Inr (flags_oc (bit r 14 \<noteq> bit r 15) (bit x (n - 1))
        (flags_logic16 r (ew_store (\<not> modC0 (i8 i)) i laddr r c1)))"
      using n(2) shr_16 [of n x] r by (simp add: SHR_Ew_def Let_def ew_by_mod acc m)
  qed (simp_all add: shift_flag_def bit_uint16)
qed (auto simp: SHR_Ew_def Let_def ew_by_mod mask_counts and_then_def)

lemma sar_shifts: "shifts_by SAR_Ew Sar (\<lambda>i. \<not> modC0 (i8 i))"
proof (rule shifts_byI)
  fix i c x laddr c1 n y r
  assume acc: "ew_access (\<not> modC0 (i8 i)) i c = Inr (x, laddr, c1)" and n: "n = effective_count Sar i c" "0 < n"
    and r: "r = shift_result Sar n (cflag CF c) x y"
  have m: "shift_count16 i c AND 0x1F = n" using n by (simp add: mask_counts)
  show "\<exists>g. SAR_Ew i c = Inr (on_flags g (ew_store (\<not> modC0 (i8 i)) i laddr r c1)) \<and>
      (\<forall>S f. get_flag f (g S) = shift_flag Sar r (shift_carry Sar n (cflag CF c) x y) (\<lambda>g. get_flag g S) f)"
  proof (rule shift_proper)
    show "SAR_Ew i c = Inr (flags_oc False (odd (sint x div 2 ^ (n - 1))) (flags_logic16 r (ew_store (\<not> modC0 (i8 i)) i laddr r c1)))"
      using n(2) sar_16 [of n x] sar_carry_16 [OF n(2), of x] r
      by (simp add: SAR_Ew_def Let_def ew_by_mod acc m sign_bit16 ew_store_flags)
  qed (simp_all add: shift_flag_def)
qed (auto simp: SAR_Ew_def Let_def ew_by_mod mask_counts and_then_def)

text \<open>The double shifts.\<close>

lemma shld_memory: "shifts_by SHLD_EwGwM Shld (\<lambda>i. True)"
proof (rule shifts_byI)
  fix i c x laddr c1 n y r
  assume acc: "ew_access True i c = Inr (x, laddr, c1)" and n: "n = effective_count Shld i c" "0 < n"
    and y: "y = rx (r_nnn i) c1" and r: "r = shift_result Shld n (cflag CF c) x y"
  have m: "(if b1 (i8 i) = 0xA4 then unat (Ib (i8 i)) else unat (CL (core c))) AND 0x1F = n" using n by (simp add: mask_counts)
  have n32: "n < 32" and nz: "(n = 0) = False" using n by simp_all
  have s: "rmw i c = Inr (x, laddr, c1)" using acc by (simp add: ew_access_def)
  let ?t = "push_bit 16 (ucast x) OR ucast y :: 32 word"
  show "\<exists>g. SHLD_EwGwM i c = Inr (on_flags g (ew_store True i laddr r c1)) \<and>
      (\<forall>S f. get_flag f (g S) = shift_flag Shld r (shift_carry Shld n (cflag CF c) x y) (\<lambda>g. get_flag g S) f)"
  proof (rule shift_proper)
    show "SHLD_EwGwM i c = Inr (flags_oc (bit ?t (32 - n) \<noteq> bit r 15) (bit ?t (32 - n)) (flags_logic16 r (ew_store True i laddr r c1)))"
      unfolding SHLD_EwGwM_def Let_def m
      by (simp only: s and_then_def sum.case prod.case y [symmetric] shld_16(1) [OF n(2) n32] r shift_result.simps ew_store_def if_True if_False nz)
  qed (use shld_16(2) [OF n(2) n32, of x y] in \<open>simp_all add: shift_flag_def\<close>)
qed (auto simp: SHLD_EwGwM_def Let_def ew_access_def mask_counts and_then_def)

lemma shld_register: "shifts_by SHLD_EwGwR Shld (\<lambda>i. False)"
proof (rule shifts_byI)
  fix i c x laddr c1 n y r
  assume acc: "ew_access False i c = Inr (x, laddr, c1)" and n: "n = effective_count Shld i c" "0 < n"
    and y: "y = rx (r_nnn i) c1" and r: "r = shift_result Shld n (cflag CF c) x y"
  have m: "(if b1 (i8 i) = 0xA4 then unat (Ib (i8 i)) else unat (CL (core c))) AND 0x1F = n" using n by (simp add: mask_counts)
  have n32: "n < 32" and nz: "(n = 0) = False" using n by simp_all
  have s: "rx (r_rm i) c1 = x" "c = c1" using acc by (auto simp: ew_access_def)
  let ?t = "push_bit 16 (ucast x) OR ucast y :: 32 word"
  show "\<exists>g. SHLD_EwGwR i c = Inr (on_flags g (ew_store False i laddr r c1)) \<and>
      (\<forall>S f. get_flag f (g S) = shift_flag Shld r (shift_carry Shld n (cflag CF c) x y) (\<lambda>g. get_flag g S) f)"
  proof (rule shift_proper)
    show "SHLD_EwGwR i c = Inr (flags_oc (bit ?t (32 - n) \<noteq> bit r 15) (bit ?t (32 - n)) (flags_logic16 r (ew_store False i laddr r c1)))"
      unfolding SHLD_EwGwR_def Let_def m
      by (simp only: s y [symmetric] shld_16(1) [OF n(2) n32] r shift_result.simps ew_store_def if_True if_False nz)
  qed (use shld_16(2) [OF n(2) n32, of x y] in \<open>simp_all add: shift_flag_def\<close>)
qed (auto simp: SHLD_EwGwR_def Let_def ew_access_def mask_counts)

lemma shrd_memory: "shifts_by SHRD_EwGwM Shrd (\<lambda>i. True)"
proof (rule shifts_byI)
  fix i c x laddr c1 n y r
  assume acc: "ew_access True i c = Inr (x, laddr, c1)" and n: "n = effective_count Shrd i c" "0 < n"
    and y: "y = rx (r_nnn i) c1" and r: "r = shift_result Shrd n (cflag CF c) x y"
  have m: "(if b1 (i8 i) = 0xAC then unat (Ib (i8 i)) else unat (CL (core c))) AND 0x1F = n" using n by (simp add: mask_counts)
  have n32: "n < 32" and nz: "(n = 0) = False" using n by simp_all
  have s: "rmw i c = Inr (x, laddr, c1)" using acc by (simp add: ew_access_def)
  show "\<exists>g. SHRD_EwGwM i c = Inr (on_flags g (ew_store True i laddr r c1)) \<and>
      (\<forall>S f. get_flag f (g S) = shift_flag Shrd r (shift_carry Shrd n (cflag CF c) x y) (\<lambda>g. get_flag g S) f)"
  proof (rule shift_proper)
    show "SHRD_EwGwM i c = Inr (flags_oc (bit r 14 \<noteq> bit r 15) (bit x (n - 1)) (flags_logic16 r (ew_store True i laddr r c1)))"
      unfolding SHRD_EwGwM_def Let_def m
      by (simp only: s and_then_def sum.case prod.case y [symmetric] shrd_16(1) [OF n(2) n32] r shift_result.simps ew_store_def if_True if_False nz)
  qed (use shrd_16(2) [OF n(2) n32, of x y] in \<open>simp_all add: shift_flag_def\<close>)
qed (auto simp: SHRD_EwGwM_def Let_def ew_access_def mask_counts and_then_def)

lemma shrd_register: "shifts_by SHRD_EwGwR Shrd (\<lambda>i. False)"
proof (rule shifts_byI)
  fix i c x laddr c1 n y r
  assume acc: "ew_access False i c = Inr (x, laddr, c1)" and n: "n = effective_count Shrd i c" "0 < n"
    and y: "y = rx (r_nnn i) c1" and r: "r = shift_result Shrd n (cflag CF c) x y"
  have m: "(if b1 (i8 i) = 0xAC then unat (Ib (i8 i)) else unat (CL (core c))) AND 0x1F = n" using n by (simp add: mask_counts)
  have n32: "n < 32" and nz: "(n = 0) = False" using n by simp_all
  have s: "rx (r_rm i) c1 = x" "c = c1" using acc by (auto simp: ew_access_def)
  show "\<exists>g. SHRD_EwGwR i c = Inr (on_flags g (ew_store False i laddr r c1)) \<and>
      (\<forall>S f. get_flag f (g S) = shift_flag Shrd r (shift_carry Shrd n (cflag CF c) x y) (\<lambda>g. get_flag g S) f)"
  proof (rule shift_proper)
    show "SHRD_EwGwR i c = Inr (flags_oc (bit r 14 \<noteq> bit r 15) (bit x (n - 1)) (flags_logic16 r (ew_store False i laddr r c1)))"
      unfolding SHRD_EwGwR_def Let_def m
      by (simp only: s y [symmetric] shrd_16(1) [OF n(2) n32] r shift_result.simps ew_store_def if_True if_False nz)
  qed (use shrd_16(2) [OF n(2) n32, of x y] in \<open>simp_all add: shift_flag_def\<close>)
qed (auto simp: SHRD_EwGwR_def Let_def ew_access_def mask_counts)


section \<open>Multiplication and division\<close>

text \<open>\<^verbatim>\<open>cpu/mult16.cc\<close>. The divide error is vector 0; nothing has changed when it is raised.\<close>

definition MUL_AXEwR :: executor where
  "MUL_AXEwR i c =
     (let op1 = rx 0 c; op2 = rx (r_rm i) c;
          product_32 = ucast op1 * ucast op2 :: 32 word;
          product_16l = ucast (product_32 AND 0xFFFF); product_16h = ucast (drop_bit 16 product_32);
          c1 = flags_logic16 product_16l (put_rx 2 product_16h (put_rx 0 product_16l c))
      in Inr (if product_16h \<noteq> 0 then on_flags ASSERT_FLAGS_OxxxxC c1 else c1))"

definition IMUL_AXEwR :: executor where
  "IMUL_AXEwR i c =
     (let op1 = rx 0 c; op2 = rx (r_rm i) c;
          product_32 = scast op1 * scast op2 :: 32 word;
          product_16l = ucast (product_32 AND 0xFFFF); product_16h = ucast (drop_bit 16 product_32);
          c1 = flags_logic16 product_16l (put_rx 2 product_16h (put_rx 0 product_16l c))
      in Inr (if product_32 \<noteq> scast (ucast product_32 :: 16 word) then on_flags ASSERT_FLAGS_OxxxxC c1 else c1))"

definition DIV_AXEwR :: executor where
  "DIV_AXEwR i c =
     (let op2 = rx (r_rm i) c in
      if op2 = 0 then Inl (0, c)
      else
        (let op1 = push_bit 16 (ucast (rx 2 c)) OR ucast (rx 0 c) :: 32 word;
             quotient_32 = op1 div ucast op2;
             remainder_16 = ucast (op1 mod ucast op2) :: 16 word;
             quotient_16l = ucast (quotient_32 AND 0xFFFF) :: 16 word
         in if quotient_32 \<noteq> ucast quotient_16l then Inl (0, c)
            else Inr (put_rx 2 remainder_16 (put_rx 0 quotient_16l c))))"

definition IDIV_AXEwR :: executor where
  "IDIV_AXEwR i c =
     (let op1 = push_bit 16 (ucast (rx 2 c)) OR ucast (rx 0 c) :: 32 word in
      if op1 = 0x80000000 then Inl (0, c)
      else
        (let op2 = rx (r_rm i) c in
         if op2 = 0 then Inl (0, c)
         else
           (let quotient_32 = word_of_int (sint op1 sdiv sint op2) :: 32 word;
                remainder_16 = word_of_int (sint op1 smod sint op2) :: 16 word;
                quotient_16l = ucast (quotient_32 AND 0xFFFF) :: 16 word
            in if quotient_32 \<noteq> scast quotient_16l then Inl (0, c)
               else Inr (put_rx 2 remainder_16 (put_rx 0 quotient_16l c)))))"

definition IMUL_GwEwIwR :: executor where
  "IMUL_GwEwIwR i c =
     (let op2 = rx (r_rm i) c; op3 = Iw i;
          product_32 = scast op2 * scast op3 :: 32 word;
          product_16 = ucast (product_32 AND 0xFFFF);
          c1 = flags_logic16 product_16 (put_rx (r_nnn i) product_16 c)
      in Inr (if product_32 \<noteq> scast (ucast product_32 :: 16 word) then on_flags ASSERT_FLAGS_OxxxxC c1 else c1))"

definition IMUL_GwEwR :: executor where
  "IMUL_GwEwR i c =
     (let op1 = rx (r_nnn i) c; op2 = rx (r_rm i) c;
          product_32 = scast op1 * scast op2 :: 32 word;
          product_16 = ucast (product_32 AND 0xFFFF);
          c1 = flags_logic16 product_16 (put_rx (r_nnn i) product_16 c)
      in Inr (if product_32 \<noteq> scast (ucast product_32 :: 16 word) then on_flags ASSERT_FLAGS_OxxxxC c1 else c1))"

subsection \<open>What they compute\<close>

text \<open>The double word in DX and AX.\<close>

definition DX_AX :: "real_cpu \<Rightarrow> 32 word" where
  "DX_AX c = push_bit 16 (ucast (rx 2 c)) OR ucast (rx 0 c)"

lemma low16: "(ucast ((x :: 32 word) AND 0xFFFF) :: 16 word) = ucast x"
proof -
  have "(0xFFFF :: 32 word) = mask 16" by (simp add: mask_eq_exp_minus_1)
  then show ?thesis unfolding \<open>(0xFFFF :: 32 word) = mask 16\<close> by (intro bit_word_eqI) (auto simp: bit_simps)
qed

lemma halves: "push_bit 16 (ucast (ucast (drop_bit 16 p) :: 16 word)) OR ucast (ucast p :: 16 word) = (p :: 32 word)"
  by (rule bit_word_eqI) (auto simp: bit_simps)

lemma high_half: "ucast (drop_bit 16 p) = (0 :: 16 word) \<longleftrightarrow> uint (p :: 32 word) < 65536"
proof -
  have "uint (ucast (drop_bit 16 p) :: 16 word) = uint p div 65536"
  proof -
    have "uint p div 65536 < 65536" "0 \<le> uint p div 65536" using uint_lt2p [of p] by (simp_all add: pos_imp_zdiv_nonneg_iff)
    then have "uint p div 65536 mod 65536 = uint p div 65536" by (intro mod_pos_pos_trivial)
    then show ?thesis
      by (simp add: unsigned_ucast_eq unsigned_drop_bit_eq take_bit_eq_mod drop_bit_eq_div uint_div)
  qed
  moreover have "uint p div 65536 = 0 \<longleftrightarrow> uint p < 65536"
    using zdiv_eq_0_iff [of "uint p" 65536] uint_ge_0 [of p] by linarith
  ultimately show ?thesis by (simp add: word_uint_eq_iff)
qed

lemma word16_bound: "uint (x :: 16 word) \<le> 65535"
proof -
  have "uint x < 65536" by (rule order_less_le_trans [OF uint_lt2p]) simp
  then show ?thesis by linarith
qed

lemma uint_up16: "uint (ucast (x :: 16 word) :: 32 word) = uint x"
  by (simp add: unsigned_ucast_eq take_bit_eq_mod le_less_trans [OF word16_bound])

lemma uint_product: "uint (ucast (x :: 16 word) * ucast (y :: 16 word) :: 32 word) = uint x * uint y"
proof -
  have "uint x * uint y \<le> 65535 * 65535" by (intro mult_mono word16_bound) simp_all
  then show ?thesis by (simp add: uint_word_ariths uint_up16)
qed

lemma sint_product: "sint (scast (x :: 16 word) * scast (y :: 16 word) :: 32 word) = sint x * sint y"
proof -
  define p where "p = sint x * sint y"
  have "\<bar>p\<bar> \<le> 32768 * 32768"
    unfolding p_def abs_mult using sint_bounds16 [of x] sint_bounds16 [of y] by (intro mult_mono) auto
  then have "- 1073741824 \<le> p" "p \<le> 1073741824" by linarith+
  then have "sint (word_of_int p :: 32 word) = p" using sint_wrap [where 'a = 32 and t = p] by simp
  moreover have "scast x * scast y = (word_of_int p :: 32 word)" by (simp only: scast_eq p_def of_int_mult)
  ultimately show ?thesis by (simp only: p_def)
qed

lemma sint_of_word16: "x \<noteq> sint (word_of_int x :: 16 word) \<longleftrightarrow> x < - 32768 \<or> 32767 < x"
proof (cases "x < - 32768 \<or> 32767 < x")
  case True
  then show ?thesis using sint_bounds16 [of "word_of_int x"] by auto
next
  case False
  then show ?thesis using sint_wrap [where 'a = 16 and t = x] by auto
qed

lemma product_fits: "(p :: 32 word) \<noteq> scast (ucast p :: 16 word) \<longleftrightarrow> sint p < - 32768 \<or> 32767 < sint p"
proof -
  have "p \<noteq> scast (ucast p :: 16 word) \<longleftrightarrow> sint p \<noteq> sint (scast (ucast p :: 16 word) :: 32 word)"
    using signed_word_eqI [of p "scast (ucast p :: 16 word)"] by auto
  moreover have "sint (scast (ucast p :: 16 word) :: 32 word) = sint (ucast p :: 16 word)" by (rule sint_up_scast) (simp add: is_up)
  moreover have "(ucast p :: 16 word) = word_of_int (sint p)" by (simp flip: scast_eq) (rule bit_word_eqI, simp add: bit_simps)
  ultimately show ?thesis using sint_of_word16 [of "sint p"] by simp
qed

lemma dividend_bounds: "- 2147483648 \<le> sint (x :: 32 word)" "sint x < 2147483648"
  using sint_ge [of x] sint_lt [of x] by simp_all

lemma sdiv_big16: "d \<noteq> 0 \<Longrightarrow> - 32768 \<le> d \<Longrightarrow> d < 32768 \<Longrightarrow>
    (- 2147483648) sdiv d < - 32768 \<or> 32767 < (- 2147483648) sdiv d" for d :: int
proof -
  assume d: "d \<noteq> 0" "- 32768 \<le> d" "d < 32768"
  have "2147483648 div 32768 \<le> 2147483648 div \<bar>d\<bar>" using d by (intro zdiv_mono2) auto
  then show ?thesis using d by (cases "0 < d") (auto simp: signed_divide_int_def)
qed

text \<open>Division: the error is raised exactly when the divisor is 0 or the quotient does not fit in 16 bits; the early test of
  \<^verbatim>\<open>IDIV\<close> for the least dividend refuses no quotient that would fit.\<close>

lemma div16_result:
  "DIV_AXEwR i c =
     (let n = uint (DX_AX c); d = uint (rx (r_rm i) c) in
      if d = 0 \<or> 65535 < n div d then Inl (0, c)
      else Inr (put_rx 2 (word_of_int (n mod d)) (put_rx 0 (word_of_int (n div d)) c)))"
proof -
  let ?d = "rx (r_rm i) c" let ?n = "DX_AX c"
  have q: "uint (?n div ucast ?d) = uint ?n div uint ?d" and r: "uint (?n mod ucast ?d) = uint ?n mod uint ?d"
    by (simp_all add: uint_div uint_mod uint_up16)
  have fits: "?n div ucast ?d \<noteq> ucast (ucast (?n div ucast ?d) :: 16 word) \<longleftrightarrow> 65535 < uint ?n div uint ?d"
  proof -
    have "uint (ucast (?n div ucast ?d) :: 16 word) = uint ?n div uint ?d mod 65536"
      by (simp add: unsigned_ucast_eq take_bit_eq_mod q)
    then have "uint (ucast (ucast (?n div ucast ?d) :: 16 word) :: 32 word) = uint ?n div uint ?d mod 65536"
      by (simp only: uint_up16)
    moreover have "0 \<le> uint ?n div uint ?d" by (simp add: div_int_pos_iff)
    then have "uint ?n div uint ?d \<noteq> uint ?n div uint ?d mod 65536 \<longleftrightarrow> 65535 < uint ?n div uint ?d"
      using pos_mod_bound [of 65536 "uint ?n div uint ?d"] by (cases "uint ?n div uint ?d < 65536") (simp, linarith)
    ultimately show ?thesis by (simp add: word_uint_eq_iff q)
  qed
  have w: "(ucast (?n mod ucast ?d) :: 16 word) = word_of_int (uint ?n mod uint ?d)"
    "(ucast (?n div ucast ?d) :: 16 word) = word_of_int (uint ?n div uint ?d)"
    unfolding q [symmetric] r [symmetric] by (rule ucast_eq)+
  have z: "uint ?d = 0 \<longleftrightarrow> ?d = 0" by (simp add: uint_0_iff)
  show "DIV_AXEwR i c =
     (let n = uint ?n; d = uint ?d in
      if d = 0 \<or> 65535 < n div d then Inl (0, c)
      else Inr (put_rx 2 (word_of_int (n mod d)) (put_rx 0 (word_of_int (n div d)) c)))"
    using fits unfolding DIV_AXEwR_def Let_def low16 DX_AX_def [symmetric] w z by simp
qed

lemma idiv16_result:
  "IDIV_AXEwR i c =
     (let n = sint (DX_AX c); d = sint (rx (r_rm i) c) in
      if d = 0 \<or> n sdiv d < - 32768 \<or> 32767 < n sdiv d then Inl (0, c)
      else Inr (put_rx 2 (word_of_int (n smod d)) (put_rx 0 (word_of_int (n sdiv d)) c)))"
proof -
  let ?n = "sint (DX_AX c)" let ?d = "sint (rx (r_rm i) c)" let ?q = "?n sdiv ?d"
  have dz: "rx (r_rm i) c = 0 \<longleftrightarrow> ?d = 0" by (simp add: signed_eq_0_iff)
  show "IDIV_AXEwR i c = (let n = ?n; d = ?d in
      if d = 0 \<or> n sdiv d < - 32768 \<or> 32767 < n sdiv d then Inl (0, c)
      else Inr (put_rx 2 (word_of_int (n smod d)) (put_rx 0 (word_of_int (n sdiv d)) c)))"
  proof (cases "DX_AX c = 0x80000000")
    case True
    then have n: "?n = - 2147483648" by (simp add: One_nat_def)
    have "?q < - 32768 \<or> 32767 < ?q" if "?d \<noteq> 0" unfolding n using that sint_bounds16 by (intro sdiv_big16)
    then show ?thesis using True unfolding IDIV_AXEwR_def Let_def DX_AX_def [symmetric] by auto
  next
    case False
    then have n': "?n \<noteq> - 2147483648" using signed_word_eqI [of "DX_AX c" "0x80000000"] by (auto simp: One_nat_def)
    have q32: "sint (word_of_int ?q :: 32 word) = ?q" if "?d \<noteq> 0"
      using sint_wrap [where 'a = 32 and t = ?q] sdiv_bound [OF that, of ?n] dividend_bounds [of "DX_AX c"] n' by auto
    have u: "(ucast (word_of_int x :: 32 word) :: 16 word) = word_of_int x" for x by (rule bit_word_eqI) (simp add: bit_simps)
    have f: "(word_of_int ?q :: 32 word) \<noteq> scast (word_of_int ?q :: 16 word) \<longleftrightarrow> ?q < - 32768 \<or> 32767 < ?q" if "?d \<noteq> 0"
      using product_fits [of "word_of_int ?q"] unfolding q32 [OF that] u .
    show ?thesis using False f unfolding IDIV_AXEwR_def Let_def DX_AX_def [symmetric] low16 u dz by auto
  qed
qed

lemma rx_on_flags: "rx n (on_flags f c) = rx n c"
  by (simp add: on_core_def upd_flags_def)

lemma rx_put_rx: "rx n (put_rx m v c) = (if n = m then v else rx n c)"
  by (simp add: on_core_def upd_reg_def)

lemma cflag_put_rx: "cflag f (put_rx m v c) = cflag f c"
  by (simp add: on_core_def upd_reg_def)

lemma cflag_on_flags: "cflag f (on_flags g c) = get_flag f (g (flags (core c)))"
  by (simp add: on_core_def upd_flags_def)

lemma DX_AX_product: "DX_AX (put_rx 2 (ucast (drop_bit 16 p)) (put_rx 0 (ucast p) c)) = p"
  by (simp add: DX_AX_def rx_put_rx halves)

lemma DX_AX_on_flags: "DX_AX (on_flags f c) = DX_AX c"
  by (simp add: DX_AX_def rx_on_flags)

text \<open>The state after a multiplication.\<close>

lemma mul16_result:
  assumes "r_rm i \<notin> {0, 2}"
  obtains c1 where "MUL_AXEwR i c = Inr c1" "uint (DX_AX c1) = uint (rx 0 c) * uint (rx (r_rm i) c)"
    "cflag CF c1 = (65535 < uint (rx 0 c) * uint (rx (r_rm i) c))" "rx (r_rm i) c1 = rx (r_rm i) c"
proof -
  define p where "p = (ucast (rx 0 c) * ucast (rx (r_rm i) c) :: 32 word)"
  define c0 where "c0 = flags_logic16 (ucast p) (put_rx 2 (ucast (drop_bit 16 p)) (put_rx 0 (ucast p) c))"
  have m: "MUL_AXEwR i c = Inr (if ucast (drop_bit 16 p) \<noteq> (0 :: 16 word) then on_flags ASSERT_FLAGS_OxxxxC c0 else c0)"
    unfolding MUL_AXEwR_def Let_def low16 p_def [symmetric] c0_def ..
  have u: "uint p = uint (rx 0 c) * uint (rx (r_rm i) c)" unfolding p_def by (rule uint_product)
  have "DX_AX c0 = p" "rx (r_rm i) c0 = rx (r_rm i) c" "\<not> cflag CF c0"
    using assms by (simp_all add: c0_def DX_AX_on_flags DX_AX_product rx_on_flags rx_put_rx cflag_on_flags flags16_logic logic_flag_def)
  then show ?thesis using u by (intro that [OF m]) (auto simp: high_half DX_AX_on_flags rx_on_flags cflag_on_flags)
qed

lemma imul16_result:
  assumes "r_rm i \<notin> {0, 2}"
  obtains c1 where "IMUL_AXEwR i c = Inr c1" "sint (DX_AX c1) = sint (rx 0 c) * sint (rx (r_rm i) c)"
    "cflag CF c1 = (sint (rx 0 c) * sint (rx (r_rm i) c) \<notin> {- 32768 .. 32767})" "rx (r_rm i) c1 = rx (r_rm i) c"
proof -
  define p where "p = (scast (rx 0 c) * scast (rx (r_rm i) c) :: 32 word)"
  define c0 where "c0 = flags_logic16 (ucast p) (put_rx 2 (ucast (drop_bit 16 p)) (put_rx 0 (ucast p) c))"
  have m: "IMUL_AXEwR i c = Inr (if p \<noteq> scast (ucast p :: 16 word) then on_flags ASSERT_FLAGS_OxxxxC c0 else c0)"
    unfolding IMUL_AXEwR_def Let_def low16 p_def [symmetric] c0_def ..
  have u: "sint p = sint (rx 0 c) * sint (rx (r_rm i) c)" unfolding p_def by (rule sint_product)
  have "DX_AX c0 = p" "rx (r_rm i) c0 = rx (r_rm i) c" "\<not> cflag CF c0"
    using assms by (simp_all add: c0_def DX_AX_on_flags DX_AX_product rx_on_flags rx_put_rx cflag_on_flags flags16_logic logic_flag_def)
  then show ?thesis using u by (intro that [OF m]) (auto simp: product_fits DX_AX_on_flags rx_on_flags cflag_on_flags)
qed

lemma mult_sdiv: "d \<noteq> 0 \<Longrightarrow> (x * d) sdiv d = x" "(x * d) smod d = 0" for x d :: int
proof -
  show "(x * d) sdiv d = x" if "d \<noteq> 0"
    using that nonzero_mult_div_cancel_right [of d "- x"] nonzero_mult_div_cancel_right [of "- d" "- x"]
    by (cases "0 < d"; cases "0 < x"; cases "x = 0") (simp_all add: signed_divide_int_def abs_mult sgn_mult)
  then show "(x * d) smod d = 0" by (cases "d = 0") (simp_all add: signed_modulo_int_def)
qed

text \<open>C15. Multiplication and division undo each other: for every operand outside AX and DX that is not 0, the product of AX and the
  operand is in DX and AX in full, the carry says whether it needs DX, and dividing by the same operand raises no error and
  leaves what was in AX, with remainder 0. This holds for the unsigned pair and for the signed one.\<close>

theorem multiply_divide:
  assumes "r_rm i \<notin> {0, 2}" and "rx (r_rm i) c \<noteq> 0"
  shows "(\<exists>c1 c2. MUL_AXEwR i c = Inr c1 \<and> DIV_AXEwR i c1 = Inr c2 \<and> rx 0 c2 = rx 0 c \<and> rx 2 c2 = 0 \<and>
      uint (DX_AX c1) = uint (rx 0 c) * uint (rx (r_rm i) c) \<and> cflag CF c1 = (65535 < uint (rx 0 c) * uint (rx (r_rm i) c))) \<and>
    (\<exists>c1 c2. IMUL_AXEwR i c = Inr c1 \<and> IDIV_AXEwR i c1 = Inr c2 \<and> rx 0 c2 = rx 0 c \<and> rx 2 c2 = 0 \<and>
      sint (DX_AX c1) = sint (rx 0 c) * sint (rx (r_rm i) c) \<and>
      cflag CF c1 = (sint (rx 0 c) * sint (rx (r_rm i) c) \<notin> {- 32768 .. 32767}))"
proof
  let ?d = "rx (r_rm i) c"
  have d: "uint ?d \<noteq> 0" "sint ?d \<noteq> 0" using assms(2) by (simp_all add: uint_0_iff signed_eq_0_iff)
  obtain c1 where c1: "MUL_AXEwR i c = Inr c1" "uint (DX_AX c1) = uint (rx 0 c) * uint ?d"
    "cflag CF c1 = (65535 < uint (rx 0 c) * uint ?d)" "rx (r_rm i) c1 = ?d" by (rule mul16_result [OF assms(1), of c])
  have "DIV_AXEwR i c1 = Inr (put_rx 2 0 (put_rx 0 (rx 0 c) c1))"
    using d word16_bound [of "rx 0 c"] by (simp add: div16_result Let_def c1)
  then show "\<exists>c1 c2. MUL_AXEwR i c = Inr c1 \<and> DIV_AXEwR i c1 = Inr c2 \<and> rx 0 c2 = rx 0 c \<and> rx 2 c2 = 0 \<and>
      uint (DX_AX c1) = uint (rx 0 c) * uint ?d \<and> cflag CF c1 = (65535 < uint (rx 0 c) * uint ?d)"
    using c1 by (intro exI [of _ c1] exI [of _ "put_rx 2 0 (put_rx 0 (rx 0 c) c1)"]) (simp add: rx_put_rx)
  obtain c1 where c1: "IMUL_AXEwR i c = Inr c1" "sint (DX_AX c1) = sint (rx 0 c) * sint ?d"
    "cflag CF c1 = (sint (rx 0 c) * sint ?d \<notin> {- 32768 .. 32767})" "rx (r_rm i) c1 = ?d" by (rule imul16_result [OF assms(1), of c])
  have "IDIV_AXEwR i c1 = Inr (put_rx 2 0 (put_rx 0 (rx 0 c) c1))"
    using d sint_bounds16 [of "rx 0 c"] by (simp add: idiv16_result Let_def c1 mult_sdiv)
  then show "\<exists>c1 c2. IMUL_AXEwR i c = Inr c1 \<and> IDIV_AXEwR i c1 = Inr c2 \<and> rx 0 c2 = rx 0 c \<and> rx 2 c2 = 0 \<and>
      sint (DX_AX c1) = sint (rx 0 c) * sint ?d \<and> cflag CF c1 = (sint (rx 0 c) * sint ?d \<notin> {- 32768 .. 32767})"
    using c1 by (intro exI [of _ c1] exI [of _ "put_rx 2 0 (put_rx 0 (rx 0 c) c1)"]) (simp add: rx_put_rx)
qed

theorem multiply_divide_witness:
  "\<exists>c1 c2. IMUL_AXEwR (plain\<lparr>i8 := (i8 plain)\<lparr>rm := 1\<rparr>\<rparr>) (put_rx 1 0xFFFE (put_rx 0 0x4000 real_machine)) = Inr c1 \<and>
    IDIV_AXEwR (plain\<lparr>i8 := (i8 plain)\<lparr>rm := 1\<rparr>\<rparr>) c1 = Inr c2 \<and> rx 0 c2 = 0x4000 \<and> rx 2 c2 = 0"
  using multiply_divide [of "plain\<lparr>i8 := (i8 plain)\<lparr>rm := 1\<rparr>\<rparr>" "put_rx 1 0xFFFE (put_rx 0 0x4000 real_machine)"]
  by (simp add: rx_put_rx One_nat_def) blast

end
