(* ===== verification/Bochs_Scancodes.thy ===== *)
theory Bochs_Scancodes
  imports OS_Prelude
begin

unbundle bit_operations_syntax

section \<open>Scan codes of the keyboard\<close>

text \<open>
  The tables of \<^verbatim>\<open>iodev/scancodes.cc\<close>: for each key, in the order of the \<^verbatim>\<open>BX_KEY\<close> constants of
  \<^verbatim>\<open>gui/gui.h\<close>, the make and break code in the scan code sets 1 (mf1, XT), 2 (mf2, AT) and 3 (mf3, PS/2), and the
  8042's translation of bytes, in rows of sixteen as in the source. The string \<^verbatim>\<open>"\xF0x58"\<close> is four characters in C.
\<close>

definition translation8042_rows :: "byte list list" where
  "translation8042_rows =
     [[0xFF, 0x43, 0x41, 0x3F, 0x3D, 0x3B, 0x3C, 0x58, 0x64, 0x44, 0x42, 0x40, 0x3E, 0x0F, 0x29, 0x59],
      [0x65, 0x38, 0x2A, 0x70, 0x1D, 0x10, 0x02, 0x5A, 0x66, 0x71, 0x2C, 0x1F, 0x1E, 0x11, 0x03, 0x5B],
      [0x67, 0x2E, 0x2D, 0x20, 0x12, 0x05, 0x04, 0x5C, 0x68, 0x39, 0x2F, 0x21, 0x14, 0x13, 0x06, 0x5D],
      [0x69, 0x31, 0x30, 0x23, 0x22, 0x15, 0x07, 0x5E, 0x6A, 0x72, 0x32, 0x24, 0x16, 0x08, 0x09, 0x5F],
      [0x6B, 0x33, 0x25, 0x17, 0x18, 0x0B, 0x0A, 0x60, 0x6C, 0x34, 0x35, 0x26, 0x27, 0x19, 0x0C, 0x61],
      [0x6D, 0x73, 0x28, 0x74, 0x1A, 0x0D, 0x62, 0x6E, 0x3A, 0x36, 0x1C, 0x1B, 0x75, 0x2B, 0x63, 0x76],
      [0x55, 0x56, 0x77, 0x78, 0x79, 0x7A, 0x0E, 0x7B, 0x7C, 0x4F, 0x7D, 0x4B, 0x47, 0x7E, 0x7F, 0x6F],
      [0x52, 0x53, 0x50, 0x4C, 0x4D, 0x48, 0x01, 0x45, 0x57, 0x4E, 0x51, 0x4A, 0x37, 0x49, 0x46, 0x54],
      [0x80, 0x81, 0x82, 0x41, 0x54, 0x85, 0x86, 0x87, 0x88, 0x89, 0x8A, 0x8B, 0x8C, 0x8D, 0x8E, 0x8F],
      [0x90, 0x91, 0x92, 0x93, 0x94, 0x95, 0x96, 0x97, 0x98, 0x99, 0x9A, 0x9B, 0x9C, 0x9D, 0x9E, 0x9F],
      [0xA0, 0xA1, 0xA2, 0xA3, 0xA4, 0xA5, 0xA6, 0xA7, 0xA8, 0xA9, 0xAA, 0xAB, 0xAC, 0xAD, 0xAE, 0xAF],
      [0xB0, 0xB1, 0xB2, 0xB3, 0xB4, 0xB5, 0xB6, 0xB7, 0xB8, 0xB9, 0xBA, 0xBB, 0xBC, 0xBD, 0xBE, 0xBF],
      [0xC0, 0xC1, 0xC2, 0xC3, 0xC4, 0xC5, 0xC6, 0xC7, 0xC8, 0xC9, 0xCA, 0xCB, 0xCC, 0xCD, 0xCE, 0xCF],
      [0xD0, 0xD1, 0xD2, 0xD3, 0xD4, 0xD5, 0xD6, 0xD7, 0xD8, 0xD9, 0xDA, 0xDB, 0xDC, 0xDD, 0xDE, 0xDF],
      [0xE0, 0xE1, 0xE2, 0xE3, 0xE4, 0xE5, 0xE6, 0xE7, 0xE8, 0xE9, 0xEA, 0xEB, 0xEC, 0xED, 0xEE, 0xEF],
      [0xF0, 0xF1, 0xF2, 0xF3, 0xF4, 0xF5, 0xF6, 0xF7, 0xF8, 0xF9, 0xFA, 0xFB, 0xFC, 0xFD, 0xFE, 0xFF]]"

definition translation8042 :: "byte \<Rightarrow> byte" where
  "translation8042 b = translation8042_rows ! (unat b div 16) ! (unat b mod 16)"

type_synonym scancode = "byte list \<times> byte list"

definition control_scancodes :: "scancode list list" where
  "control_scancodes =
     [[([0x1D], [0x9D]), ([0x14], [0xF0, 0x14]), ([0x11], [0xF0, 0x11])],
      [([0x2A], [0xAA]), ([0x12], [0xF0, 0x12]), ([0x12], [0xF0, 0x12])],
      [([0x3B], [0xBB]), ([0x05], [0xF0, 0x05]), ([0x07], [0xF0, 0x07])],
      [([0x3C], [0xBC]), ([0x06], [0xF0, 0x06]), ([0x0F], [0xF0, 0x0F])],
      [([0x3D], [0xBD]), ([0x04], [0xF0, 0x04]), ([0x17], [0xF0, 0x17])],
      [([0x3E], [0xBE]), ([0x0C], [0xF0, 0x0C]), ([0x1F], [0xF0, 0x1F])],
      [([0x3F], [0xBF]), ([0x03], [0xF0, 0x03]), ([0x27], [0xF0, 0x27])],
      [([0x40], [0xC0]), ([0x0B], [0xF0, 0x0B]), ([0x2F], [0xF0, 0x2F])],
      [([0x41], [0xC1]), ([0x83], [0xF0, 0x83]), ([0x37], [0xF0, 0x37])],
      [([0x42], [0xC2]), ([0x0A], [0xF0, 0x0A]), ([0x3F], [0xF0, 0x3F])],
      [([0x43], [0xC3]), ([0x01], [0xF0, 0x01]), ([0x47], [0xF0, 0x47])],
      [([0x44], [0xC4]), ([0x09], [0xF0, 0x09]), ([0x4F], [0xF0, 0x4F])],
      [([0x57], [0xD7]), ([0x78], [0xF0, 0x78]), ([0x56], [0xF0, 0x56])],
      [([0x58], [0xD8]), ([0x07], [0xF0, 0x07]), ([0x5E], [0xF0, 0x5E])],
      [([0xE0, 0x1D], [0xE0, 0x9D]), ([0xE0, 0x14], [0xE0, 0xF0, 0x14]), ([0x58], [0xF0, 0x78, 0x35, 0x38])],
      [([0x36], [0xB6]), ([0x59], [0xF0, 0x59]), ([0x59], [0xF0, 0x59])],
      [([0x3A], [0xBA]), ([0x58], [0xF0, 0x58]), ([0x14], [0xF0, 0x14])],
      [([0x45], [0xC5]), ([0x77], [0xF0, 0x77]), ([0x76], [0xF0, 0x76])],
      [([0x38], [0xB8]), ([0x11], [0xF0, 0x11]), ([0x19], [0xF0, 0x19])],
      [([0xE0, 0x38], [0xE0, 0xB8]), ([0xE0, 0x11], [0xE0, 0xF0, 0x11]), ([0x39], [0xF0, 0x39])]]"

definition letter_scancodes :: "scancode list list" where
  "letter_scancodes =
     [[([0x1E], [0x9E]), ([0x1C], [0xF0, 0x1C]), ([0x1C], [0xF0, 0x1C])],
      [([0x30], [0xB0]), ([0x32], [0xF0, 0x32]), ([0x32], [0xF0, 0x32])],
      [([0x2E], [0xAE]), ([0x21], [0xF0, 0x21]), ([0x21], [0xF0, 0x21])],
      [([0x20], [0xA0]), ([0x23], [0xF0, 0x23]), ([0x23], [0xF0, 0x23])],
      [([0x12], [0x92]), ([0x24], [0xF0, 0x24]), ([0x24], [0xF0, 0x24])],
      [([0x21], [0xA1]), ([0x2B], [0xF0, 0x2B]), ([0x2B], [0xF0, 0x2B])],
      [([0x22], [0xA2]), ([0x34], [0xF0, 0x34]), ([0x34], [0xF0, 0x34])],
      [([0x23], [0xA3]), ([0x33], [0xF0, 0x33]), ([0x33], [0xF0, 0x33])],
      [([0x17], [0x97]), ([0x43], [0xF0, 0x43]), ([0x43], [0xF0, 0x43])],
      [([0x24], [0xA4]), ([0x3B], [0xF0, 0x3B]), ([0x3B], [0xF0, 0x3B])],
      [([0x25], [0xA5]), ([0x42], [0xF0, 0x42]), ([0x42], [0xF0, 0x42])],
      [([0x26], [0xA6]), ([0x4B], [0xF0, 0x4B]), ([0x4B], [0xF0, 0x4B])],
      [([0x32], [0xB2]), ([0x3A], [0xF0, 0x3A]), ([0x3A], [0xF0, 0x3A])],
      [([0x31], [0xB1]), ([0x31], [0xF0, 0x31]), ([0x31], [0xF0, 0x31])],
      [([0x18], [0x98]), ([0x44], [0xF0, 0x44]), ([0x44], [0xF0, 0x44])],
      [([0x19], [0x99]), ([0x4D], [0xF0, 0x4D]), ([0x4D], [0xF0, 0x4D])],
      [([0x10], [0x90]), ([0x15], [0xF0, 0x15]), ([0x15], [0xF0, 0x15])],
      [([0x13], [0x93]), ([0x2D], [0xF0, 0x2D]), ([0x2D], [0xF0, 0x2D])],
      [([0x1F], [0x9F]), ([0x1B], [0xF0, 0x1B]), ([0x1B], [0xF0, 0x1B])],
      [([0x14], [0x94]), ([0x2C], [0xF0, 0x2C]), ([0x2C], [0xF0, 0x2C])],
      [([0x16], [0x96]), ([0x3C], [0xF0, 0x3C]), ([0x3C], [0xF0, 0x3C])],
      [([0x2F], [0xAF]), ([0x2A], [0xF0, 0x2A]), ([0x2A], [0xF0, 0x2A])],
      [([0x11], [0x91]), ([0x1D], [0xF0, 0x1D]), ([0x1D], [0xF0, 0x1D])],
      [([0x2D], [0xAD]), ([0x22], [0xF0, 0x22]), ([0x22], [0xF0, 0x22])],
      [([0x15], [0x95]), ([0x35], [0xF0, 0x35]), ([0x35], [0xF0, 0x35])],
      [([0x2C], [0xAC]), ([0x1A], [0xF0, 0x1A]), ([0x1A], [0xF0, 0x1A])]]"

definition typing_scancodes :: "scancode list list" where
  "typing_scancodes =
     [[([0x0B], [0x8B]), ([0x45], [0xF0, 0x45]), ([0x45], [0xF0, 0x45])],
      [([0x02], [0x82]), ([0x16], [0xF0, 0x16]), ([0x16], [0xF0, 0x16])],
      [([0x03], [0x83]), ([0x1E], [0xF0, 0x1E]), ([0x1E], [0xF0, 0x1E])],
      [([0x04], [0x84]), ([0x26], [0xF0, 0x26]), ([0x26], [0xF0, 0x26])],
      [([0x05], [0x85]), ([0x25], [0xF0, 0x25]), ([0x25], [0xF0, 0x25])],
      [([0x06], [0x86]), ([0x2E], [0xF0, 0x2E]), ([0x2E], [0xF0, 0x2E])],
      [([0x07], [0x87]), ([0x36], [0xF0, 0x36]), ([0x36], [0xF0, 0x36])],
      [([0x08], [0x88]), ([0x3D], [0xF0, 0x3D]), ([0x3D], [0xF0, 0x3D])],
      [([0x09], [0x89]), ([0x3E], [0xF0, 0x3E]), ([0x3E], [0xF0, 0x3E])],
      [([0x0A], [0x8A]), ([0x46], [0xF0, 0x46]), ([0x46], [0xF0, 0x46])],
      [([0x01], [0x81]), ([0x76], [0xF0, 0x76]), ([0x08], [0xF0, 0x08])],
      [([0x39], [0xB9]), ([0x29], [0xF0, 0x29]), ([0x29], [0xF0, 0x29])],
      [([0x28], [0xA8]), ([0x52], [0xF0, 0x52]), ([0x52], [0xF0, 0x52])],
      [([0x33], [0xB3]), ([0x41], [0xF0, 0x41]), ([0x41], [0xF0, 0x41])],
      [([0x34], [0xB4]), ([0x49], [0xF0, 0x49]), ([0x49], [0xF0, 0x49])],
      [([0x35], [0xB5]), ([0x4A], [0xF0, 0x4A]), ([0x4A], [0xF0, 0x4A])],
      [([0x27], [0xA7]), ([0x4C], [0xF0, 0x4C]), ([0x4C], [0xF0, 0x4C])],
      [([0x0D], [0x8D]), ([0x55], [0xF0, 0x55]), ([0x55], [0xF0, 0x55])],
      [([0x1A], [0x9A]), ([0x54], [0xF0, 0x54]), ([0x54], [0xF0, 0x54])],
      [([0x2B], [0xAB]), ([0x5D], [0xF0, 0x5D]), ([0x53], [0xF0, 0x53])],
      [([0x1B], [0x9B]), ([0x5B], [0xF0, 0x5B]), ([0x5B], [0xF0, 0x5B])],
      [([0x0C], [0x8C]), ([0x4E], [0xF0, 0x4E]), ([0x4E], [0xF0, 0x4E])],
      [([0x29], [0xA9]), ([0x0E], [0xF0, 0x0E]), ([0x0E], [0xF0, 0x0E])],
      [([0x0E], [0x8E]), ([0x66], [0xF0, 0x66]), ([0x66], [0xF0, 0x66])]]"

definition editing_scancodes :: "scancode list list" where
  "editing_scancodes =
     [[([0x1C], [0x9C]), ([0x5A], [0xF0, 0x5A]), ([0x5A], [0xF0, 0x5A])],
      [([0x0F], [0x8F]), ([0x0D], [0xF0, 0x0D]), ([0x0D], [0xF0, 0x0D])],
      [([0x56], [0xD6]), ([0x61], [0xF0, 0x61]), ([0x13], [0xF0, 0x13])],
      [([0xE0, 0x2A, 0xE0, 0x37], [0xE0, 0xB7, 0xE0, 0xAA]), ([0xE0, 0x12, 0xE0, 0x7C], [0xE0, 0xF0, 0x7C, 0xE0, 0xF0, 0x12]), ([0x57], [0xF0, 0x57])],
      [([0x46], [0xC6]), ([0x7E], [0xF0, 0x7E]), ([0x5F], [0xF0, 0x5F])],
      [([0xE1, 0x1D, 0x45, 0xE1, 0x9D, 0xC5], []), ([0xE1, 0x14, 0x77, 0xE1, 0xF0, 0x14, 0xF0, 0x77], []), ([0x62], [0xF0, 0x62])],
      [([0xE0, 0x52], [0xE0, 0xD2]), ([0xE0, 0x70], [0xE0, 0xF0, 0x70]), ([0x67], [0xF0, 0x67])],
      [([0xE0, 0x53], [0xE0, 0xD3]), ([0xE0, 0x71], [0xE0, 0xF0, 0x71]), ([0x64], [0xF0, 0x64])],
      [([0xE0, 0x47], [0xE0, 0xC7]), ([0xE0, 0x6C], [0xE0, 0xF0, 0x6C]), ([0x6E], [0xF0, 0x6E])],
      [([0xE0, 0x4F], [0xE0, 0xCF]), ([0xE0, 0x69], [0xE0, 0xF0, 0x69]), ([0x65], [0xF0, 0x65])],
      [([0xE0, 0x49], [0xE0, 0xC9]), ([0xE0, 0x7D], [0xE0, 0xF0, 0x7D]), ([0x6F], [0xF0, 0x6F])],
      [([0xE0, 0x51], [0xE0, 0xD1]), ([0xE0, 0x7A], [0xE0, 0xF0, 0x7A]), ([0x6D], [0xF0, 0x6D])],
      [([0x4E], [0xCE]), ([0x79], [0xF0, 0x79]), ([0x7C], [0xF0, 0x7C])],
      [([0x4A], [0xCA]), ([0x7B], [0xF0, 0x7B]), ([0x84], [0xF0, 0x84])],
      [([0x4F], [0xCF]), ([0x69], [0xF0, 0x69]), ([0x69], [0xF0, 0x69])],
      [([0x50], [0xD0]), ([0x72], [0xF0, 0x72]), ([0x72], [0xF0, 0x72])],
      [([0x51], [0xD1]), ([0x7A], [0xF0, 0x7A]), ([0x7A], [0xF0, 0x7A])],
      [([0x4B], [0xCB]), ([0x6B], [0xF0, 0x6B]), ([0x6B], [0xF0, 0x6B])],
      [([0x4D], [0xCD]), ([0x74], [0xF0, 0x74]), ([0x74], [0xF0, 0x74])],
      [([0x47], [0xC7]), ([0x6C], [0xF0, 0x6C]), ([0x6C], [0xF0, 0x6C])],
      [([0x48], [0xC8]), ([0x75], [0xF0, 0x75]), ([0x75], [0xF0, 0x75])],
      [([0x49], [0xC9]), ([0x7D], [0xF0, 0x7D]), ([0x7D], [0xF0, 0x7D])],
      [([0x52], [0xD2]), ([0x70], [0xF0, 0x70]), ([0x70], [0xF0, 0x70])],
      [([0x53], [0xD3]), ([0x71], [0xF0, 0x71]), ([0x71], [0xF0, 0x71])],
      [([0x4C], [0xCC]), ([0x73], [0xF0, 0x73]), ([0x73], [0xF0, 0x73])]]"

definition other_scancodes :: "scancode list list" where
  "other_scancodes =
     [[([0xE0, 0x48], [0xE0, 0xC8]), ([0xE0, 0x75], [0xE0, 0xF0, 0x75]), ([0x63], [0xF0, 0x63])],
      [([0xE0, 0x50], [0xE0, 0xD0]), ([0xE0, 0x72], [0xE0, 0xF0, 0x72]), ([0x60], [0xF0, 0x60])],
      [([0xE0, 0x4B], [0xE0, 0xCB]), ([0xE0, 0x6B], [0xE0, 0xF0, 0x6B]), ([0x61], [0xF0, 0x61])],
      [([0xE0, 0x4D], [0xE0, 0xCD]), ([0xE0, 0x74], [0xE0, 0xF0, 0x74]), ([0x6A], [0xF0, 0x6A])],
      [([0xE0, 0x1C], [0xE0, 0x9C]), ([0xE0, 0x5A], [0xE0, 0xF0, 0x5A]), ([0x79], [0xF0, 0x79])],
      [([0x37], [0xB7]), ([0x7C], [0xF0, 0x7C]), ([0x7E], [0xF0, 0x7E])],
      [([0xE0, 0x35], [0xE0, 0xB5]), ([0xE0, 0x4A], [0xE0, 0xF0, 0x4A]), ([0x77], [0xF0, 0x77])],
      [([0xE0, 0x5B], [0xE0, 0xDB]), ([0xE0, 0x1F], [0xE0, 0xF0, 0x1F]), ([0x8B], [0xF0, 0x8B])],
      [([0xE0, 0x5C], [0xE0, 0xDC]), ([0xE0, 0x27], [0xE0, 0xF0, 0x27]), ([0x8C], [0xF0, 0x8C])],
      [([0xE0, 0x5D], [0xE0, 0xDD]), ([0xE0, 0x2F], [0xE0, 0xF0, 0x2F]), ([0x8D], [0xF0, 0x8D])],
      [([0x54], [0xD4]), ([0x84], [0xF0, 0x84]), ([0x57], [0xF0, 0x57])],
      [([0xE0, 0x46], [0xE0, 0xC6]), ([0xE0, 0x7E], [0xE0, 0xF0, 0x7E]), ([0x62], [0xF0, 0x62])],
      [([0xE0, 0x6A], [0xE0, 0xEA]), ([0xE0, 0x38], [0xE0, 0xF0, 0x38]), ([0x38], [0xF0, 0x38])],
      [([0xE0, 0x69], [0xE0, 0xE9]), ([0xE0, 0x30], [0xE0, 0xF0, 0x30]), ([0x30], [0xF0, 0x30])],
      [([0xE0, 0x68], [0xE0, 0xE8]), ([0xE0, 0x28], [0xE0, 0xF0, 0x28]), ([0x28], [0xF0, 0x28])],
      [([0xE0, 0x6C], [0xE0, 0xEC]), ([0xE0, 0x48], [0xE0, 0xF0, 0x48]), ([0x48], [0xF0, 0x48])],
      [([0xE0, 0x65], [0xE0, 0xE5]), ([0xE0, 0x10], [0xE0, 0xF0, 0x10]), ([0x10], [0xF0, 0x10])],
      [([0xE0, 0x66], [0xE0, 0xE6]), ([0xE0, 0x18], [0xE0, 0xF0, 0x18]), ([0x18], [0xF0, 0x18])],
      [([0xE0, 0x32], [0xE0, 0xB2]), ([0xE0, 0x3A], [0xE0, 0xF0, 0x3A]), ([0x97], [0xF0, 0x97])],
      [([0xE0, 0x6B], [0xE0, 0xEB]), ([0xE0, 0x40], [0xE0, 0xF0, 0x40]), ([0x40], [0xF0, 0x40])],
      [([0xE0, 0x21], [0xE0, 0xA1]), ([0xE0, 0x2B], [0xE0, 0xF0, 0x2B]), ([0x99], [0xF0, 0x99])],
      [([0xE0, 0x5F], [0xE0, 0xDF]), ([0xE0, 0x3F], [0xE0, 0xF0, 0x3F]), ([0x7F], [0xF0, 0x7F])],
      [([0xE0, 0x5E], [0xE0, 0xDE]), ([0xE0, 0x37], [0xE0, 0xF0, 0x37]), ([], [])],
      [([0xE0, 0x63], [0xE0, 0xE3]), ([0xE0, 0x5E], [0xE0, 0xF0, 0x5E]), ([], [])]]"

definition scancodes :: "scancode list list" where
  "scancodes = control_scancodes @ letter_scancodes @ typing_scancodes @ editing_scancodes @ other_scancodes"

lemmas scancodes_defs = scancodes_def control_scancodes_def letter_scancodes_def typing_scancodes_def editing_scancodes_def other_scancodes_def

text \<open>The translation of a code: the prefix \<open>0xF0\<close> of a break code becomes the high bit of the next byte.\<close>

fun translate :: "byte \<Rightarrow> byte list \<Rightarrow> byte list" where
  "translate escaped [] = []"
| "translate escaped (s # ss) =
     (if s = 0xF0 then translate 0x80 ss else (translation8042 s OR escaped) # translate 0 ss)"

definition translates_to_set1 :: "scancode list \<Rightarrow> bool" where
  "translates_to_set1 row \<longleftrightarrow>
     length row = 3 \<and> translate 0 (fst (row ! 1)) = fst (row ! 0) \<and> translate 0 (snd (row ! 1)) = snd (row ! 0)"

lemma length_scancodes [simp]: "length scancodes = 119"
  by (simp add: scancodes_defs)

text \<open>For every key, the translation of its codes in set 2, which is what a keyboard sends after a reset, is exactly
  what set 1 has for it.\<close>

lemma all_translate: "list_all translates_to_set1 scancodes"
  unfolding scancodes_defs
  by (simp add: translates_to_set1_def translation8042_def translation8042_rows_def)

text \<open>Releasing the right control key in set 3: the break code is not the prefix and the make code.\<close>

lemma ctrl_r_break_set3: "scancodes ! 14 ! 2 = ([0x58], [0xF0, 0x78, 0x35, 0x38])"
  by (simp add: scancodes_defs)

end
