(* ===== verification/Bochs_Keyboard.thy ===== *)
theory Bochs_Keyboard
  imports Bochs_PIC Bochs_Scancodes
begin

unbundle bit_operations_syntax

section \<open>The keyboard controller\<close>

text \<open>
  Models \<^verbatim>\<open>iodev/keyboard.cc\<close>: the 8042 controller with its ports, the keyboard and the mouse behind it with
  their buffers, and the pasting of text. Each port and the timer are an operation on one state, which also holds what the
  controller drives: the interrupt controllers of \<open>Bochs_PIC\<close>, the A20 line and the count of processor resets.
  \<open>panics\<close> collects the messages of \<^verbatim>\<open>BX_PANIC\<close>, after which the code goes on; \<open>crashed\<close> records an
  access outside an array. Parameters are the key map, which is a file of the user (\<open>find_char\<close>), and a removable keyboard
  that may take a key first (\<open>taken\<close>). The status bar, log messages and saving the state are left out.
\<close>

subsection \<open>State\<close>

text \<open>The two ring buffers have one shape; their sizes are 16 and 48 bytes.\<close>

record ring =
  num_elements :: nat
  buffer :: "byte list"
  head :: nat

abbreviation (input) BX_KBD_ELEMENTS :: nat where "BX_KBD_ELEMENTS \<equiv> 16"
abbreviation (input) BX_MOUSE_BUFF_SIZE :: nat where "BX_MOUSE_BUFF_SIZE \<equiv> 48"
abbreviation (input) BX_KBD_CONTROLLER_QSIZE :: nat where "BX_KBD_CONTROLLER_QSIZE \<equiv> 5"

definition ring_put :: "nat \<Rightarrow> byte \<Rightarrow> ring \<Rightarrow> ring" where
  "ring_put n v r =
     r\<lparr>buffer := (buffer r)[(head r + num_elements r) mod n := v], num_elements := num_elements r + 1\<rparr>"

definition ring_first :: "ring \<Rightarrow> byte" where
  "ring_first r = buffer r ! head r"

definition ring_drop :: "nat \<Rightarrow> ring \<Rightarrow> ring" where
  "ring_drop n r = r\<lparr>head := (head r + 1) mod n, num_elements := num_elements r - 1\<rparr>"

datatype kbd_type = XT_TYPE | AT_TYPE | MF_TYPE

datatype mouse_type = MOUSE_NONE | MOUSE_PS2 | MOUSE_IMPS2 | MOUSE_OTHER

datatype mouse_mode = MODE_RESET | MODE_STREAM | MODE_REMOTE | MODE_WRAP

record keyb =
  pare :: bool
  tim :: bool
  auxb :: bool
  keyl :: bool
  c_d :: bool
  sysf :: bool
  inpb :: bool
  outb :: bool
  kbd_clock_enabled :: bool
  aux_clock_enabled :: bool
  allow_irq1 :: bool
  allow_irq12 :: bool
  kbd_output_buffer :: byte
  aux_output_buffer :: byte
  last_comm :: byte
  expecting_port60h :: bool
  expecting_mouse_parameter :: bool
  last_mouse_command :: byte
  timer_pending :: "32 word"
  irq1_requested :: bool
  irq12_requested :: bool
  scancodes_translate :: bool
  expecting_scancodes_set :: bool
  current_scancodes_set :: byte
  bat_in_progress :: bool
  type_of_mouse :: mouse_type
  sample_rate :: byte
  resolution_cpmm :: byte
  scaling :: byte
  mode :: mouse_mode
  saved_mode :: mouse_mode
  mouse_enable :: bool
  button_status :: byte
  delayed_dx :: int
  delayed_dy :: int
  delayed_dz :: int
  im_request :: byte
  im_mode :: bool
  kbd_internal_buffer :: ring
  expecting_typematic :: bool
  expecting_led_write :: bool
  delay :: byte
  repeat_rate :: byte
  led_status :: byte
  scanning_enabled :: bool
  mouse_internal_buffer :: ring
  controller_Q :: "byte list"
  controller_Qsize :: nat
  controller_Qsource :: nat
  pastebuf :: "byte list option"
  pastebuf_ptr :: nat
  pastedelay :: "32 word"
  paste_service :: bool
  stop_paste :: bool
  count_before_paste :: "32 word"
  kbd_initialized :: bool
  keyboard_type :: kbd_type
  pic_lines :: pics
  enable_a20 :: bool
  cpu_resets :: nat
  panics :: "string list"
  crashed :: bool

definition kbd_panic :: "string \<Rightarrow> keyb \<Rightarrow> keyb" where
  "kbd_panic msg k = k\<lparr>panics := panics k @ [msg]\<rparr>"

definition empty_ring :: "nat \<Rightarrow> ring" where
  "empty_ring n = \<lparr>num_elements = 0, buffer = replicate n 0, head = 0\<rparr>"

definition resetinternals :: "bool \<Rightarrow> keyb \<Rightarrow> keyb" where
  "resetinternals powerup k =
     (let k = k\<lparr>kbd_internal_buffer := empty_ring BX_KBD_ELEMENTS, expecting_typematic := False,
                expecting_scancodes_set := False, current_scancodes_set := 1\<rparr>
      in if powerup then k\<lparr>expecting_led_write := False, delay := 1, repeat_rate := 0x0b\<rparr> else k)"

text \<open>\<open>k\<close> is the object before the initialisation; the arguments are the options of the configuration.\<close>

definition kbd_init :: "mouse_type \<Rightarrow> 32 word \<Rightarrow> keyb \<Rightarrow> keyb" where
  "kbd_init mouse paste_delay k =
     (resetinternals True k)
       \<lparr>led_status := 0, scanning_enabled := True, mouse_internal_buffer := empty_ring BX_MOUSE_BUFF_SIZE,
        pare := False, tim := False, auxb := False, keyl := True, c_d := True, sysf := False, inpb := False, outb := False,
        kbd_clock_enabled := True, aux_clock_enabled := False, allow_irq1 := True, allow_irq12 := True,
        kbd_output_buffer := 0, aux_output_buffer := 0, last_comm := 0, expecting_port60h := False,
        irq1_requested := False, irq12_requested := False, expecting_mouse_parameter := False, bat_in_progress := False,
        scancodes_translate := True, timer_pending := 0,
        type_of_mouse := mouse, sample_rate := 100, resolution_cpmm := 4, scaling := 1, mode := MODE_RESET,
        mouse_enable := False, delayed_dx := 0, delayed_dy := 0, delayed_dz := 0, im_request := 0, im_mode := False,
        controller_Q := replicate BX_KBD_CONTROLLER_QSIZE 0, controller_Qsize := 0, controller_Qsource := 0,
        pastebuf := None, pastebuf_ptr := 0, pastedelay := paste_delay div 100, paste_service := False, stop_paste := False\<rparr>"

definition kbd_reset :: "keyb \<Rightarrow> keyb" where
  "kbd_reset k = (if pastebuf k \<noteq> None then k\<lparr>stop_paste := True\<rparr> else k)"

definition system_reset :: "keyb \<Rightarrow> keyb" where
  "system_reset k = k\<lparr>enable_a20 := True, cpu_resets := cpu_resets k + 1\<rparr>"

definition kbd_activate_timer :: "keyb \<Rightarrow> keyb" where
  "kbd_activate_timer k = (if timer_pending k = 0 then k\<lparr>timer_pending := 1\<rparr> else k)"

subsection \<open>Queues and output buffers\<close>

definition controller_enQ :: "byte \<Rightarrow> nat \<Rightarrow> keyb \<Rightarrow> keyb" where
  "controller_enQ data source k =
     (if outb k then
        (let full = BX_KBD_CONTROLLER_QSIZE \<le> controller_Qsize k;
             k = (if full then kbd_panic ''controller_enq(): controller_Q full!'' k else k)
         in k\<lparr>controller_Q := (controller_Q k)[controller_Qsize k := data], controller_Qsize := controller_Qsize k + 1,
              controller_Qsource := source, crashed := crashed k \<or> full\<rparr>)
      else if source = 0 then
        (let k = k\<lparr>kbd_output_buffer := data, outb := True, auxb := False, inpb := False\<rparr>
         in if allow_irq1 k then k\<lparr>irq1_requested := True\<rparr> else k)
      else
        (let k = k\<lparr>aux_output_buffer := data, outb := True, auxb := True, inpb := False\<rparr>
         in if allow_irq12 k then k\<lparr>irq12_requested := True\<rparr> else k))"

definition kbd_enQ_imm :: "byte \<Rightarrow> keyb \<Rightarrow> keyb" where
  "kbd_enQ_imm val k =
     (if num_elements (kbd_internal_buffer k) \<ge> BX_KBD_ELEMENTS then kbd_panic ''internal keyboard buffer full (imm)'' k
      else
        (let k = k\<lparr>kbd_output_buffer := val, outb := True\<rparr>
         in if allow_irq1 k then k\<lparr>irq1_requested := True\<rparr> else k))"

definition kbd_enQ :: "byte \<Rightarrow> keyb \<Rightarrow> keyb" where
  "kbd_enQ scancode k =
     (if num_elements (kbd_internal_buffer k) \<ge> BX_KBD_ELEMENTS then k
      else
        (let k = k\<lparr>kbd_internal_buffer := ring_put BX_KBD_ELEMENTS scancode (kbd_internal_buffer k)\<rparr>
         in if \<not> outb k \<and> kbd_clock_enabled k then kbd_activate_timer k else k))"

definition mouse_enQ :: "byte \<Rightarrow> keyb \<Rightarrow> keyb" where
  "mouse_enQ mouse_data k =
     (if num_elements (mouse_internal_buffer k) \<ge> BX_MOUSE_BUFF_SIZE then k
      else
        (let k = k\<lparr>mouse_internal_buffer := ring_put BX_MOUSE_BUFF_SIZE mouse_data (mouse_internal_buffer k)\<rparr>
         in if \<not> outb k \<and> aux_clock_enabled k then kbd_activate_timer k else k))"

definition mouse_enQ_packet :: "byte \<Rightarrow> byte \<Rightarrow> byte \<Rightarrow> byte \<Rightarrow> keyb \<Rightarrow> keyb" where
  "mouse_enQ_packet b1 b2 b3 b4 k =
     (let bytes = (if im_mode k then 4 else 3) in
      if num_elements (mouse_internal_buffer k) + bytes \<ge> BX_MOUSE_BUFF_SIZE then k
      else
        (let k = mouse_enQ b3 (mouse_enQ b2 (mouse_enQ b1 k))
         in if im_mode k then mouse_enQ b4 k else k))"

subsection \<open>The clock lines\<close>

definition set_kbd_clock_enable :: "bool \<Rightarrow> keyb \<Rightarrow> keyb" where
  "set_kbd_clock_enable on k =
     (if \<not> on then k\<lparr>kbd_clock_enabled := False\<rparr>
      else
        (let prev = kbd_clock_enabled k; k = k\<lparr>kbd_clock_enabled := True\<rparr>
         in if \<not> prev \<and> \<not> outb k then kbd_activate_timer k else k))"

definition set_aux_clock_enable :: "bool \<Rightarrow> keyb \<Rightarrow> keyb" where
  "set_aux_clock_enable on k =
     (if \<not> on then k\<lparr>aux_clock_enabled := False\<rparr>
      else
        (let prev = aux_clock_enabled k; k = k\<lparr>aux_clock_enabled := True\<rparr>
         in if \<not> prev \<and> \<not> outb k then kbd_activate_timer k else k))"

subsection \<open>Reading the ports\<close>

text \<open>The head of the controller's queue goes to the mouse's output buffer, on both branches.\<close>

definition shift_Q :: "keyb \<Rightarrow> keyb" where
  "shift_Q k =
     k\<lparr>controller_Q := fold (\<lambda>i q. q[i := q ! (i + 1)]) [0 ..< controller_Qsize k - 1] (controller_Q k),
       controller_Qsize := controller_Qsize k - 1\<rparr>"

definition next_from_Q :: "keyb \<Rightarrow> keyb" where
  "next_from_Q k = k\<lparr>aux_output_buffer := controller_Q k ! 0, outb := True, auxb := True\<rparr>"

definition kbd_read :: "nat \<Rightarrow> keyb \<Rightarrow> byte \<times> keyb" where
  "kbd_read address k =
     (if address = 0x60 then
        (if auxb k then
           (let val = aux_output_buffer k;
                k = k\<lparr>aux_output_buffer := 0, outb := False, auxb := False, irq12_requested := False\<rparr>;
                k = (if controller_Qsize k \<noteq> 0 then
                       (let k = next_from_Q k in shift_Q (if allow_irq12 k then k\<lparr>irq12_requested := True\<rparr> else k))
                     else k);
                k = k\<lparr>pic_lines := lower_irq 12 (pic_lines k)\<rparr>
            in (val, kbd_activate_timer k))
         else if outb k then
           (let val = kbd_output_buffer k;
                k = k\<lparr>outb := False, auxb := False, irq1_requested := False, bat_in_progress := False\<rparr>;
                k = (if controller_Qsize k \<noteq> 0 then
                       (let k = next_from_Q k in shift_Q (if allow_irq1 k then k\<lparr>irq1_requested := True\<rparr> else k))
                     else k);
                k = k\<lparr>pic_lines := lower_irq 1 (pic_lines k)\<rparr>
            in (val, kbd_activate_timer k))
         else (kbd_output_buffer k, k))
      else if address = 0x64 then
        (push_bit 7 (of_bool (pare k)) OR push_bit 6 (of_bool (tim k)) OR push_bit 5 (of_bool (auxb k)) OR
         push_bit 4 (of_bool (keyl k)) OR push_bit 3 (of_bool (c_d k)) OR push_bit 2 (of_bool (sysf k)) OR
         push_bit 1 (of_bool (inpb k)) OR of_bool (outb k), k\<lparr>tim := False\<rparr>)
      else (0, kbd_panic ''unknown address in io read to keyboard port'' k))"

subsection \<open>Commands to the keyboard\<close>

definition kbd_ctrl_to_kbd :: "byte \<Rightarrow> keyb \<Rightarrow> keyb" where
  "kbd_ctrl_to_kbd value k =
     (if expecting_typematic k then
        kbd_enQ 0xFA (k\<lparr>expecting_typematic := False, delay := drop_bit 5 value AND 0x03, repeat_rate := value AND 0x1f\<rparr>)
      else if expecting_led_write k then
        kbd_enQ 0xFA (k\<lparr>expecting_led_write := False, led_status := value\<rparr>)
      else if expecting_scancodes_set k then
        (let k = k\<lparr>expecting_scancodes_set := False\<rparr> in
         if value \<noteq> 0 then
           (if value < 4 then kbd_enQ 0xFA (k\<lparr>current_scancodes_set := value - 1\<rparr>) else kbd_enQ 0xFF k)
         else
           (let k = kbd_enQ 0xFA k in kbd_enQ (1 + current_scancodes_set k) k))
      else if value = 0x00 then kbd_enQ 0xFA k
      else if value = 0x05 then kbd_enQ_imm 0xfe (k\<lparr>sysf := True\<rparr>)
      else if value = 0xed then kbd_enQ_imm 0xFA (k\<lparr>expecting_led_write := True\<rparr>)
      else if value = 0xee then kbd_enQ 0xEE k
      else if value = 0xf0 then kbd_enQ 0xFA (k\<lparr>expecting_scancodes_set := True\<rparr>)
      else if value = 0xf2 then
        (if keyboard_type k \<noteq> XT_TYPE then
           (let k = kbd_enQ 0xFA k in
            if keyboard_type k = MF_TYPE then
              (let k = kbd_enQ 0xAB k in if scancodes_translate k then kbd_enQ 0x41 k else kbd_enQ 0x83 k)
            else k)
         else k)
      else if value = 0xf3 then kbd_enQ 0xFA (k\<lparr>expecting_typematic := True\<rparr>)
      else if value = 0xf4 then kbd_enQ 0xFA (k\<lparr>scanning_enabled := True\<rparr>)
      else if value = 0xf5 then (kbd_enQ 0xFA (resetinternals True k))\<lparr>scanning_enabled := False\<rparr>
      else if value = 0xf6 then (kbd_enQ 0xFA (resetinternals True k))\<lparr>scanning_enabled := True\<rparr>
      else if value = 0xfe then kbd_panic ''got 0xFE (resend)'' k
      else if value = 0xff then kbd_enQ 0xAA ((kbd_enQ 0xFA (resetinternals True k))\<lparr>bat_in_progress := True\<rparr>)
      else if value = 0xd3 then kbd_enQ 0xfa k
      else kbd_enQ 0xFE k)"

subsection \<open>Commands to the mouse\<close>

definition get_status_byte :: "keyb \<Rightarrow> byte" where
  "get_status_byte k =
     (if mode k = MODE_REMOTE then 0x40 else 0) OR push_bit 5 (of_bool (mouse_enable k)) OR
     (if scaling k = 1 then 0 else push_bit 4 1) OR push_bit 2 (button_status k AND 0x1) OR (button_status k AND 0x2)"

definition get_resolution_byte :: "keyb \<Rightarrow> byte \<times> keyb" where
  "get_resolution_byte k =
     (if resolution_cpmm k = 1 then (0, k)
      else if resolution_cpmm k = 2 then (1, k)
      else if resolution_cpmm k = 4 then (2, k)
      else if resolution_cpmm k = 8 then (3, k)
      else (0, kbd_panic ''mouse: invalid resolution_cpmm'' k))"

definition is_ps2 :: "keyb \<Rightarrow> bool" where
  "is_ps2 k \<longleftrightarrow> type_of_mouse k = MOUSE_PS2 \<or> type_of_mouse k = MOUSE_IMPS2"

definition set_mouse_parameter :: "byte \<Rightarrow> keyb \<Rightarrow> keyb" where
  "set_mouse_parameter value k =
     (if last_mouse_command k = 0xf3 then
        (let k = k\<lparr>sample_rate := value\<rparr>;
             k = (if value = 200 \<and> im_request k = 0 then k\<lparr>im_request := 1\<rparr>
                  else if value = 100 \<and> im_request k = 1 then k\<lparr>im_request := 2\<rparr>
                  else if value = 80 \<and> im_request k = 2 then
                    (if type_of_mouse k = MOUSE_IMPS2 then k\<lparr>im_mode := True\<rparr> else k)\<lparr>im_request := 0\<rparr>
                  else k\<lparr>im_request := 0\<rparr>)
         in controller_enQ 0xFA 1 k)
      else if last_mouse_command k = 0xe8 then
        (let k = (if value = 0 then k\<lparr>resolution_cpmm := 1\<rparr>
                  else if value = 1 then k\<lparr>resolution_cpmm := 2\<rparr>
                  else if value = 2 then k\<lparr>resolution_cpmm := 4\<rparr>
                  else if value = 3 then k\<lparr>resolution_cpmm := 8\<rparr>
                  else kbd_panic ''mouse: unknown resolution'' k)
         in controller_enQ 0xFA 1 k)
      else kbd_panic ''MOUSE: unknown last command'' k)"

definition mouse_defaults :: "mouse_mode \<Rightarrow> keyb \<Rightarrow> keyb" where
  "mouse_defaults m k = k\<lparr>sample_rate := 100, resolution_cpmm := 4, scaling := 1, mouse_enable := False, mode := m\<rparr>"

definition mouse_absent :: "keyb \<Rightarrow> keyb" where
  "mouse_absent k = (controller_enQ 0xFE 1 k)\<lparr>tim := True\<rparr>"

definition mouse_command :: "byte \<Rightarrow> keyb \<Rightarrow> keyb" where
  "mouse_command value k =
     (let ack = controller_enQ 0xFA 1 in
      if value = 0xe6 then (ack k)\<lparr>scaling := 2\<rparr>
      else if value = 0xe7 then (ack k)\<lparr>scaling := 2\<rparr>
      else if value = 0xe8 then (ack k)\<lparr>expecting_mouse_parameter := True\<rparr>
      else if value = 0xea then ack (k\<lparr>mode := MODE_STREAM\<rparr>)
      else if value = 0xec then (if mode k = MODE_WRAP then ack (k\<lparr>mode := saved_mode k\<rparr>) else k)
      else if value = 0xee then ack (k\<lparr>saved_mode := mode k, mode := MODE_WRAP\<rparr>)
      else if value = 0xf0 then ack (k\<lparr>mode := MODE_REMOTE\<rparr>)
      else if value = 0xf2 then (let k = ack k in controller_enQ (if im_mode k then 0x03 else 0x00) 1 k)
      else if value = 0xf3 then (ack k)\<lparr>expecting_mouse_parameter := True\<rparr>
      else if value = 0xf4 then (if is_ps2 k then ack (k\<lparr>mouse_enable := True\<rparr>) else mouse_absent k)
      else if value = 0xf5 then ack (k\<lparr>mouse_enable := False\<rparr>)
      else if value = 0xf6 then ack (mouse_defaults MODE_STREAM k)
      else if value = 0xff then
        (if is_ps2 k then
           controller_enQ 0x00 1 (controller_enQ 0xAA 1 (ack ((mouse_defaults MODE_RESET k)\<lparr>im_mode := False\<rparr>)))
         else mouse_absent k)
      else if value = 0xe9 then
        (let k = ack k;
             k = controller_enQ (get_status_byte k) 1 k;
             (res, k) = get_resolution_byte k;
             k = controller_enQ res 1 k
         in controller_enQ (sample_rate k) 1 k)
      else if value = 0xeb then mouse_enQ_packet ((button_status k AND 0x0f) OR 0x08) 0x00 0x00 0x00 (ack k)
      else if value = 0xbb then k
      else if is_ps2 k then controller_enQ 0xFE 1 k
      else k)"

definition kbd_ctrl_to_mouse :: "byte \<Rightarrow> keyb \<Rightarrow> keyb" where
  "kbd_ctrl_to_mouse value k =
     (if expecting_mouse_parameter k then set_mouse_parameter value (k\<lparr>expecting_mouse_parameter := False\<rparr>)
      else
        (let k = k\<lparr>expecting_mouse_parameter := False, last_mouse_command := value\<rparr> in
         if mode k = MODE_WRAP \<and> value \<noteq> 0xff \<and> value \<noteq> 0xec then controller_enQ value 1 k
         else mouse_command value k))"

subsection \<open>Writing the ports\<close>

definition write_command_byte :: "byte \<Rightarrow> keyb \<Rightarrow> keyb" where
  "write_command_byte value k =
     (let k = k\<lparr>sysf := bit value 2, allow_irq1 := bit value 0, allow_irq12 := bit value 1\<rparr>;
          k = set_aux_clock_enable (\<not> bit value 5) (set_kbd_clock_enable (\<not> bit value 4) k);
          k = (if allow_irq12 k \<and> auxb k then k\<lparr>irq12_requested := True\<rparr>
               else if allow_irq1 k \<and> outb k then k\<lparr>irq1_requested := True\<rparr> else k)
      in k\<lparr>scancodes_translate := bit value 6\<rparr>)"

definition command_byte :: "keyb \<Rightarrow> byte" where
  "command_byte k =
     push_bit 6 (of_bool (scancodes_translate k)) OR push_bit 5 (of_bool (\<not> aux_clock_enabled k)) OR
     push_bit 4 (of_bool (\<not> kbd_clock_enabled k)) OR push_bit 2 (of_bool (sysf k)) OR
     push_bit 1 (of_bool (allow_irq12 k)) OR of_bool (allow_irq1 k)"

definition write_data :: "byte \<Rightarrow> keyb \<Rightarrow> keyb" where
  "write_data value k =
     (if expecting_port60h k then
        (let k = k\<lparr>expecting_port60h := False, c_d := False\<rparr>;
             k = (if inpb k then kbd_panic ''write to port 60h, not ready for write'' k else k)
         in if last_comm k = 0x60 then write_command_byte value k
            else if last_comm k = 0xcb then k
            else if last_comm k = 0xd1 then
              (let k = k\<lparr>enable_a20 := bit value 1\<rparr> in if \<not> bit value 0 then system_reset k else k)
            else if last_comm k = 0xd4 then kbd_ctrl_to_mouse value k
            else if last_comm k = 0xd3 then controller_enQ value 1 k
            else if last_comm k = 0xd2 then controller_enQ value 0 k
            else kbd_panic ''unsupported write to port 60h'' k)
      else
        (let k = k\<lparr>c_d := False, expecting_port60h := False\<rparr>;
             k = (if \<not> kbd_clock_enabled k then set_kbd_clock_enable True k else k)
         in kbd_ctrl_to_kbd value k))"

text \<open>Commands that answer when the output buffer is empty; otherwise they do nothing, some after a panic.\<close>

definition reply :: "bool \<Rightarrow> byte \<Rightarrow> keyb \<Rightarrow> keyb" where
  "reply fatal data k =
     (if outb k then (if fatal then kbd_panic ''OUTB set and command encountered'' k else k) else controller_enQ data 0 k)"

definition self_test :: "keyb \<Rightarrow> keyb" where
  "self_test k =
     (let k = (if \<not> kbd_initialized k then k\<lparr>controller_Qsize := 0, outb := False, kbd_initialized := True\<rparr> else k)
      in if outb k then k else controller_enQ 0x55 0 (k\<lparr>sysf := True\<rparr>))"

definition write_command :: "byte \<Rightarrow> keyb \<Rightarrow> keyb" where
  "write_command value k =
     (let k = k\<lparr>c_d := True, last_comm := value, expecting_port60h := False\<rparr> in
      if value = 0x20 then reply False (command_byte k) k
      else if value \<in> {0x60, 0xcb, 0xd1, 0xd2, 0xd3, 0xd4} then k\<lparr>expecting_port60h := True\<rparr>
      else if value = 0xa0 \<or> value = 0xa1 then k
      else if value = 0xa7 then set_aux_clock_enable False k
      else if value = 0xa8 then set_aux_clock_enable True k
      else if value = 0xa9 then reply True 0x00 k
      else if value = 0xaa then self_test k
      else if value = 0xab then reply True 0x00 k
      else if value = 0xad then set_kbd_clock_enable False k
      else if value = 0xae then set_kbd_clock_enable True k
      else if value = 0xaf then k
      else if value = 0xc0 then reply True 0x80 k
      else if value = 0xca then controller_enQ 0x01 0 k
      else if value = 0xd0 then
        reply True (push_bit 5 (of_bool (irq12_requested k)) OR push_bit 4 (of_bool (irq1_requested k)) OR
          push_bit 1 (of_bool (enable_a20 k)) OR 0x01) k
      else if value = 0xdd then k\<lparr>enable_a20 := False\<rparr>
      else if value = 0xdf then k\<lparr>enable_a20 := True\<rparr>
      else if value \<in> {0xc1, 0xc2, 0xe0} then kbd_panic ''io write 0x64: command'' k
      else if value = 0xfe then system_reset k
      else k)"

definition kbd_write :: "nat \<Rightarrow> byte \<Rightarrow> keyb \<Rightarrow> keyb" where
  "kbd_write address value k =
     (if address = 0x60 then write_data value k
      else if address = 0x64 then write_command value k
      else kbd_panic ''unknown address in bx_keyb_c::write()'' k)"

subsection \<open>Keys and pasted text\<close>

fun send_translated :: "byte \<Rightarrow> byte list \<Rightarrow> keyb \<Rightarrow> keyb" where
  "send_translated escaped [] k = k"
| "send_translated escaped (s # ss) k =
     (if s = 0xF0 then send_translated 0x80 ss k
      else send_translated 0 ss (kbd_enQ (translation8042 s OR escaped) k))"

definition BX_KEY_RELEASED :: "32 word" where "BX_KEY_RELEASED = 0x80000000"

definition gen_scancode :: "(byte list \<Rightarrow> bool) \<Rightarrow> 32 word \<Rightarrow> keyb \<Rightarrow> keyb" where
  "gen_scancode taken key k =
     (if pastebuf k \<noteq> None \<and> \<not> paste_service k then k\<lparr>stop_paste := True\<rparr>
      else if \<not> kbd_clock_enabled k then k
      else if \<not> scanning_enabled k then k
      else if \<not> unat (key AND 0xFF) < length scancodes then k\<lparr>crashed := True\<rparr>
      else
        (let code = scancodes ! unat (key AND 0xFF) ! unat (current_scancodes_set k);
             scancode = (if key AND BX_KEY_RELEASED \<noteq> 0 then snd code else fst code)
         in if taken scancode then k
            else if scancodes_translate k then send_translated 0 scancode k
            else fold kbd_enQ scancode k))"

abbreviation (input) BX_KEYMAP_UNKNOWN :: "32 word" where "BX_KEYMAP_UNKNOWN \<equiv> 0xFFFFFFFF"

definition paste_char :: "(byte list \<Rightarrow> bool) \<Rightarrow> (byte \<Rightarrow> (32 word \<times> 32 word) option) \<Rightarrow> byte \<Rightarrow> keyb \<Rightarrow> keyb" where
  "paste_char taken find_char b k =
     (case find_char b of
        None \<Rightarrow> k
      | Some (baseKey, modKey) \<Rightarrow>
          (let k = (if modKey \<noteq> BX_KEYMAP_UNKNOWN then gen_scancode taken modKey k else k);
               k = gen_scancode taken (baseKey OR BX_KEY_RELEASED) (gen_scancode taken baseKey k)
           in if modKey \<noteq> BX_KEYMAP_UNKNOWN then gen_scancode taken (modKey OR BX_KEY_RELEASED) k else k))"

text \<open>The loop over the bytes from \<^verbatim>\<open>pastebuf_ptr\<close> on; the buffer is given up at its end or when the paste is stopped.\<close>

fun paste_loop :: "(byte list \<Rightarrow> bool) \<Rightarrow> (byte \<Rightarrow> (32 word \<times> 32 word) option) \<Rightarrow> byte list \<Rightarrow> keyb \<Rightarrow> keyb" where
  "paste_loop taken find_char bs k =
     (if bs \<noteq> [] \<and> \<not> stop_paste k then
        (if num_elements (kbd_internal_buffer k) \<ge> BX_KBD_ELEMENTS - 8 then k\<lparr>paste_service := False\<rparr>
         else
           (let k = paste_char taken find_char (hd bs) k
            in paste_loop taken find_char (tl bs) (k\<lparr>pastebuf_ptr := pastebuf_ptr k + 1\<rparr>)))
      else k\<lparr>pastebuf := None, stop_paste := False, paste_service := False\<rparr>)"

declare paste_loop.simps [simp del]

definition service_paste_buf :: "(byte list \<Rightarrow> bool) \<Rightarrow> (byte \<Rightarrow> (32 word \<times> 32 word) option) \<Rightarrow> keyb \<Rightarrow> keyb" where
  "service_paste_buf taken find_char k =
     (case pastebuf k of
        None \<Rightarrow> k
      | Some bs \<Rightarrow> paste_loop taken find_char (drop (pastebuf_ptr k) bs) (k\<lparr>paste_service := True\<rparr>))"

definition paste_bytes :: "(byte list \<Rightarrow> bool) \<Rightarrow> (byte \<Rightarrow> (32 word \<times> 32 word) option) \<Rightarrow> byte list \<Rightarrow> keyb \<Rightarrow> keyb" where
  "paste_bytes taken find_char bs k =
     service_paste_buf taken find_char (k\<lparr>pastebuf := Some bs, pastebuf_ptr := 0\<rparr>)"

subsection \<open>Motion of the mouse\<close>

text \<open>One axis of a packet: the reported byte, its sign bit, and what is left of the delayed motion.\<close>

definition clip_motion :: "int \<Rightarrow> int" where
  "clip_motion d = (let d = (if d > 254 then 254 else d) in if d < -254 then -254 else d)"

definition packet_axis :: "int \<Rightarrow> int \<Rightarrow> byte \<times> bool \<times> int" where
  "packet_axis delta delayed =
     (if 0 \<le> delta \<and> delta \<le> 255 then (word_of_int delta, False, i16 (delayed - delta))
      else if delta > 255 then (0xff, False, i16 (delayed - 255))
      else if delta \<ge> -256 then (word_of_int delta, True, i16 (delayed - delta))
      else (0x00, True, i16 (delayed + 256)))"

definition create_mouse_packet :: "bool \<Rightarrow> keyb \<Rightarrow> keyb" where
  "create_mouse_packet force_enq k =
     (if num_elements (mouse_internal_buffer k) \<noteq> 0 \<and> \<not> force_enq then k
      else
        (let delta_x = delayed_dx k; delta_y = delayed_dy k; button_state = button_status k OR 0x08 in
         if \<not> force_enq \<and> delta_x = 0 \<and> delta_y = 0 then k
         else
           (let (b2, negx, restx) = packet_axis (clip_motion delta_x) (delayed_dx k);
                (b3, negy, resty) = packet_axis (clip_motion delta_y) (delayed_dy k);
                b1 = (button_state AND 0x0f) OR 0x08 OR (if negx then 0x10 else 0) OR (if negy then 0x20 else 0);
                b4 = word_of_int (- delayed_dz k)
            in mouse_enQ_packet b1 b2 b3 b4 (k\<lparr>delayed_dx := restx, delayed_dy := resty\<rparr>))))"

definition mouse_enabled_changed :: "keyb \<Rightarrow> keyb" where
  "mouse_enabled_changed k =
     (if delayed_dx k \<noteq> 0 \<or> delayed_dy k \<noteq> 0 \<or> delayed_dz k \<noteq> 0 then create_mouse_packet True k else k)
       \<lparr>delayed_dx := 0, delayed_dy := 0, delayed_dz := 0\<rparr>"

definition half_motion :: "int \<Rightarrow> int" where
  "half_motion d = (if d < -1 \<or> d > 1 then cdiv d 2 else d)"

definition bound_motion :: "int \<Rightarrow> int" where
  "bound_motion d = (let d = (if d > 255 then 255 else d) in if d < -256 then -256 else d)"

definition mouse_motion :: "int \<Rightarrow> int \<Rightarrow> int \<Rightarrow> 32 word \<Rightarrow> keyb \<Rightarrow> keyb" where
  "mouse_motion delta_x delta_y delta_z button_state k =
     (if mode k = MODE_REMOTE then k
      else if \<not> mouse_enable k then k
      else
        (let delta_x = half_motion delta_x; delta_y = half_motion delta_y;
             delta_z = (if im_mode k then delta_z else 0);
             buttons = ucast (button_state AND 0x7) :: byte
         in if delta_x = 0 \<and> delta_y = 0 \<and> delta_z = 0 \<and> button_status k = buttons then k
            else
              (let force = (button_status k \<noteq> buttons \<or> delta_z \<noteq> 0);
                   k = k\<lparr>button_status := buttons, delayed_dx := i16 (delayed_dx k + bound_motion delta_x),
                         delayed_dy := i16 (delayed_dy k + bound_motion delta_y), delayed_dz := i16 delta_z\<rparr>;
                   force = (force \<or> delayed_dx k > 255 \<or> delayed_dx k < -256 \<or> delayed_dy k > 255 \<or> delayed_dy k < -256)
               in create_mouse_packet force k)))"

subsection \<open>The timer\<close>

definition transfer :: "keyb \<Rightarrow> keyb" where
  "transfer k =
     (if num_elements (kbd_internal_buffer k) \<noteq> 0 \<and> (kbd_clock_enabled k \<or> bat_in_progress k) then
        (let k = k\<lparr>kbd_output_buffer := ring_first (kbd_internal_buffer k), outb := True,
                   kbd_internal_buffer := ring_drop BX_KBD_ELEMENTS (kbd_internal_buffer k)\<rparr>
         in if allow_irq1 k then k\<lparr>irq1_requested := True\<rparr> else k)
      else
        (let k = create_mouse_packet False k in
         if aux_clock_enabled k \<and> num_elements (mouse_internal_buffer k) \<noteq> 0 then
           (let k = k\<lparr>aux_output_buffer := ring_first (mouse_internal_buffer k), outb := True, auxb := True,
                      mouse_internal_buffer := ring_drop BX_MOUSE_BUFF_SIZE (mouse_internal_buffer k)\<rparr>
            in if allow_irq12 k then k\<lparr>irq12_requested := True\<rparr> else k)
         else k))"

definition kbd_periodic ::
    "(byte list \<Rightarrow> bool) \<Rightarrow> (byte \<Rightarrow> (32 word \<times> 32 word) option) \<Rightarrow> 32 word \<Rightarrow> keyb \<Rightarrow> (bool \<times> bool) \<times> keyb" where
  "kbd_periodic taken find_char usec_delta k =
     (let k = (if kbd_clock_enabled k then
                 (let k = k\<lparr>count_before_paste := count_before_paste k + 1\<rparr> in
                  if count_before_paste k \<ge> pastedelay k
                  then (service_paste_buf taken find_char k)\<lparr>count_before_paste := 0\<rparr> else k)
               else k);
          retval = (irq1_requested k, irq12_requested k);
          k = k\<lparr>irq1_requested := False, irq12_requested := False\<rparr>
      in if timer_pending k = 0 then (retval, k)
         else if usec_delta \<ge> timer_pending k then
           (let k = k\<lparr>timer_pending := 0\<rparr> in (retval, if outb k then k else transfer k))
         else (retval, k\<lparr>timer_pending := timer_pending k - usec_delta\<rparr>))"

definition kbd_timer :: "(byte list \<Rightarrow> bool) \<Rightarrow> (byte \<Rightarrow> (32 word \<times> 32 word) option) \<Rightarrow> keyb \<Rightarrow> keyb" where
  "kbd_timer taken find_char k =
     (let ((raise1, raise12), k) = kbd_periodic taken find_char 1 k;
          k = (if raise1 then k\<lparr>pic_lines := raise_irq 1 (pic_lines k)\<rparr> else k)
      in if raise12 then k\<lparr>pic_lines := raise_irq 12 (pic_lines k)\<rparr> else k)"

subsection \<open>A buffer of bounded size\<close>

text \<open>What the controller needs of a buffer: the bytes come out in the order in which they were put, up to its capacity.\<close>

locale bounded_buffer =
  fixes cap :: nat
    and put :: "'a \<Rightarrow> 'b \<Rightarrow> 'b"
    and first :: "'b \<Rightarrow> 'a"
    and rest :: "'b \<Rightarrow> 'b"
    and contents :: "'b \<Rightarrow> 'a list"
    and ok :: "'b \<Rightarrow> bool"
  assumes contents_cap: "ok r \<Longrightarrow> length (contents r) \<le> cap"
    and put_ok: "ok r \<Longrightarrow> length (contents r) < cap \<Longrightarrow> ok (put v r)"
    and put_contents: "ok r \<Longrightarrow> length (contents r) < cap \<Longrightarrow> contents (put v r) = contents r @ [v]"
    and first_contents: "ok r \<Longrightarrow> contents r = x # xs \<Longrightarrow> first r = x"
    and rest_ok: "ok r \<Longrightarrow> contents r \<noteq> [] \<Longrightarrow> ok (rest r)"
    and rest_contents: "ok r \<Longrightarrow> contents r = x # xs \<Longrightarrow> contents (rest r) = xs"
begin

lemma put_all:
  "ok r \<Longrightarrow> length (contents r) + length vs \<le> cap \<Longrightarrow>
     ok (fold put vs r) \<and> contents (fold put vs r) = contents r @ vs"
proof (induction vs arbitrary: r)
  case (Cons v vs)
  then show ?case using put_ok [of r v] put_contents [of r v] Cons.IH [of "put v r"] by simp
qed simp

primrec take_out :: "nat \<Rightarrow> 'b \<Rightarrow> 'a list \<times> 'b" where
  "take_out 0 r = ([], r)"
| "take_out (Suc n) r = (let (xs, r') = take_out n (rest r) in (first r # xs, r'))"

lemma take_out_contents:
  "ok r \<Longrightarrow> contents r = xs @ ys \<Longrightarrow> fst (take_out (length xs) r) = xs \<and> contents (snd (take_out (length xs) r)) = ys"
proof (induction xs arbitrary: r)
  case (Cons x xs)
  then have "ok (rest r)" "contents (rest r) = xs @ ys" "first r = x"
    using rest_ok [of r] rest_contents [of r x "xs @ ys"] first_contents [of r x "xs @ ys"] by simp_all
  then show ?case using Cons.IH [of "rest r"] by (simp add: case_prod_beta)
qed simp

lemma first_in_first_out:
  assumes "ok r" "contents r = []" "length vs \<le> cap"
  shows "fst (take_out (length vs) (fold put vs r)) = vs"
  using put_all [of r vs] take_out_contents [of "fold put vs r" vs "[]"] assms by simp

end

definition ring_ok :: "nat \<Rightarrow> ring \<Rightarrow> bool" where
  "ring_ok n r \<longleftrightarrow> length (buffer r) = n \<and> head r < n \<and> num_elements r \<le> n"

definition ring_contents :: "nat \<Rightarrow> ring \<Rightarrow> byte list" where
  "ring_contents n r = map (\<lambda>i. buffer r ! ((head r + i) mod n)) [0 ..< num_elements r]"

lemma length_ring_contents [simp]: "length (ring_contents n r) = num_elements r"
  by (simp add: ring_contents_def)

lemma ring_put_contents:
  assumes "ring_ok n r" "num_elements r < n"
  shows "ring_contents n (ring_put n v r) = ring_contents n r @ [v]"
proof -
  have "(head r + num_elements r) mod n \<noteq> (head r + i) mod n" if "i < num_elements r" for i
  proof
    assume "(head r + num_elements r) mod n = (head r + i) mod n"
    then have "(head r + i) mod n = (head r + num_elements r) mod n" by simp
    then have "(head r + num_elements r - (head r + i)) mod n = 0"
      using mod_eq_dvd_iff_nat [of "head r + i" "head r + num_elements r" n] that by (simp add: mod_eq_0_iff_dvd)
    then show False using that assms(2) by simp
  qed
  then have "map (\<lambda>i. (buffer r)[(head r + num_elements r) mod n := v] ! ((head r + i) mod n)) [0 ..< num_elements r] =
      ring_contents n r"
    unfolding ring_contents_def by (intro map_cong refl nth_list_update_neq) auto
  moreover have "(head r + num_elements r) mod n < length (buffer r)" using assms by (simp add: ring_ok_def)
  ultimately show ?thesis by (simp add: ring_contents_def ring_put_def)
qed

lemma ring_drop_contents: "ring_contents n r = x # xs \<Longrightarrow> ring_contents n (ring_drop n r) = xs"
proof -
  assume a: "ring_contents n r = x # xs"
  have m: "num_elements r = Suc (length xs)" using arg_cong [OF a, of length] by simp
  have "xs ! i = buffer r ! (Suc (head r + i) mod n)" if "i < length xs" for i
    using arg_cong [OF a, of "\<lambda>l. l ! Suc i"] that by (simp add: ring_contents_def m del: upt_Suc)
  then show ?thesis by (intro nth_equalityI) (simp_all add: ring_contents_def ring_drop_def m mod_add_left_eq)
qed

lemma ring_buffer: "bounded_buffer n (ring_put n) ring_first (ring_drop n) (ring_contents n) (ring_ok n)"
proof
  fix r :: ring and v x :: byte and xs
  assume ok: "ring_ok n r"
  show "length (ring_contents n r) \<le> n" using ok by (simp add: ring_ok_def)
  show "ring_ok n (ring_put n v r)" if "length (ring_contents n r) < n"
    using ok that by (simp add: ring_ok_def ring_put_def)
  show "ring_contents n (ring_put n v r) = ring_contents n r @ [v]" if "length (ring_contents n r) < n"
    using ring_put_contents ok that by simp
  show "ring_first r = x" if "ring_contents n r = x # xs"
  proof -
    have "0 < num_elements r" using arg_cong [OF that, of length] by simp
    then have "ring_contents n r = buffer r ! (head r mod n) # map (\<lambda>i. buffer r ! ((head r + i) mod n)) [1 ..< num_elements r]"
      by (simp add: ring_contents_def upt_conv_Cons)
    then show ?thesis using ok that by (simp add: ring_first_def ring_ok_def)
  qed
  show "ring_ok n (ring_drop n r)" if "ring_contents n r \<noteq> []"
    using ok by (auto simp: ring_ok_def ring_drop_def intro: mod_less_divisor)
  show "ring_contents n (ring_drop n r) = xs" if "ring_contents n r = x # xs"
    using ring_drop_contents that .
qed

interpretation keys: bounded_buffer 16 "ring_put 16" ring_first "ring_drop 16" "ring_contents 16" "ring_ok 16"
  by (rule ring_buffer)

interpretation motions: bounded_buffer 48 "ring_put 48" ring_first "ring_drop 48" "ring_contents 48" "ring_ok 48"
  by (rule ring_buffer)

lemma ring_put_ok: "ring_ok n r \<Longrightarrow> num_elements r < n \<Longrightarrow> ring_ok n (ring_put n v r)"
  by (simp add: ring_ok_def ring_put_def)

lemma ring_drop_ok: "ring_ok n r \<Longrightarrow> ring_ok n (ring_drop n r)"
  by (auto simp: ring_ok_def ring_drop_def intro: mod_less_divisor)

lemma empty_ring_ok: "0 < n \<Longrightarrow> ring_ok n (empty_ring n)"
  by (simp add: ring_ok_def empty_ring_def)

subsection \<open>The invariant\<close>

text \<open>A byte waits when the output buffer is free and the clock of its line runs. Then the timer is armed.\<close>

definition waiting :: "keyb \<Rightarrow> bool" where
  "waiting k \<longleftrightarrow> \<not> outb k \<and>
     (kbd_clock_enabled k \<and> num_elements (kbd_internal_buffer k) \<noteq> 0 \<or>
      aux_clock_enabled k \<and> num_elements (mouse_internal_buffer k) \<noteq> 0)"

definition kbd_shape :: "keyb \<Rightarrow> bool" where
  "kbd_shape k \<longleftrightarrow> ring_ok 16 (kbd_internal_buffer k) \<and> ring_ok 48 (mouse_internal_buffer k) \<and>
     length (controller_Q k) = 5 \<and> controller_Qsize k \<le> 5 \<and> (controller_Qsize k \<noteq> 0 \<longrightarrow> outb k) \<and> (auxb k \<longrightarrow> outb k) \<and>
     timer_pending k \<le> 1 \<and> current_scancodes_set k \<le> 2 \<and> resolution_cpmm k \<in> {1, 2, 4, 8}"

definition kbd_ok :: "keyb \<Rightarrow> bool" where
  "kbd_ok k \<longleftrightarrow> kbd_shape k \<and> (waiting k \<longrightarrow> timer_pending k = 1)"

definition intact :: "keyb \<Rightarrow> bool" where
  "intact k \<longleftrightarrow> crashed k \<or> kbd_ok k"

lemma intact_upd [simp]:
  "intact (k\<lparr>tim := b\<rparr>) = intact k" "intact (k\<lparr>c_d := b\<rparr>) = intact k" "intact (k\<lparr>sysf := b\<rparr>) = intact k"
  "intact (k\<lparr>inpb := b\<rparr>) = intact k" "intact (k\<lparr>allow_irq1 := b\<rparr>) = intact k" "intact (k\<lparr>allow_irq12 := b\<rparr>) = intact k"
  "intact (k\<lparr>irq1_requested := b\<rparr>) = intact k" "intact (k\<lparr>irq12_requested := b\<rparr>) = intact k"
  "intact (k\<lparr>kbd_output_buffer := v\<rparr>) = intact k" "intact (k\<lparr>aux_output_buffer := v\<rparr>) = intact k"
  "intact (k\<lparr>last_comm := v\<rparr>) = intact k" "intact (k\<lparr>expecting_port60h := b\<rparr>) = intact k"
  "intact (k\<lparr>expecting_mouse_parameter := b\<rparr>) = intact k" "intact (k\<lparr>last_mouse_command := v\<rparr>) = intact k"
  "intact (k\<lparr>scancodes_translate := b\<rparr>) = intact k" "intact (k\<lparr>expecting_scancodes_set := b\<rparr>) = intact k"
  "intact (k\<lparr>bat_in_progress := b\<rparr>) = intact k" "intact (k\<lparr>sample_rate := v\<rparr>) = intact k" "intact (k\<lparr>scaling := v\<rparr>) = intact k"
  "intact (k\<lparr>mode := m\<rparr>) = intact k" "intact (k\<lparr>saved_mode := m\<rparr>) = intact k" "intact (k\<lparr>mouse_enable := b\<rparr>) = intact k"
  "intact (k\<lparr>button_status := v\<rparr>) = intact k" "intact (k\<lparr>delayed_dx := i\<rparr>) = intact k" "intact (k\<lparr>delayed_dy := i\<rparr>) = intact k"
  "intact (k\<lparr>delayed_dz := i\<rparr>) = intact k" "intact (k\<lparr>im_request := v\<rparr>) = intact k" "intact (k\<lparr>im_mode := b\<rparr>) = intact k"
  "intact (k\<lparr>expecting_typematic := b\<rparr>) = intact k" "intact (k\<lparr>expecting_led_write := b\<rparr>) = intact k"
  "intact (k\<lparr>delay := v\<rparr>) = intact k" "intact (k\<lparr>repeat_rate := v\<rparr>) = intact k" "intact (k\<lparr>led_status := v\<rparr>) = intact k"
  "intact (k\<lparr>scanning_enabled := b\<rparr>) = intact k" "intact (k\<lparr>pastebuf := pb\<rparr>) = intact k" "intact (k\<lparr>pastebuf_ptr := n\<rparr>) = intact k"
  "intact (k\<lparr>paste_service := b\<rparr>) = intact k" "intact (k\<lparr>stop_paste := b\<rparr>) = intact k"
  "intact (k\<lparr>count_before_paste := w\<rparr>) = intact k" "intact (k\<lparr>kbd_initialized := b\<rparr>) = intact k"
  "intact (k\<lparr>pic_lines := l\<rparr>) = intact k" "intact (k\<lparr>enable_a20 := b\<rparr>) = intact k" "intact (k\<lparr>cpu_resets := n\<rparr>) = intact k"
  "intact (k\<lparr>panics := ps\<rparr>) = intact k"
  by (simp_all add: intact_def kbd_ok_def kbd_shape_def waiting_def)

lemma intact_panic [simp]: "intact (kbd_panic m k) = intact k"
  by (simp add: kbd_panic_def)

lemma intact_crashed [simp]: "intact (k\<lparr>crashed := True\<rparr>)"
  by (simp add: intact_def)

lemma small_timer: "t \<le> 1 \<longleftrightarrow> t = 0 \<or> t = (1 :: 32 word)"
proof -
  have "t < 2 \<longleftrightarrow> t = 0 \<or> t = 1" by (simp add: word_less_nat_alt word_unat_eq_iff) arith
  moreover have "t \<le> 1 \<longleftrightarrow> t < 2" by (simp add: word_less_nat_alt word_le_nat_alt) arith
  ultimately show ?thesis by simp
qed

lemma intact_activate [intro!]: "intact k \<Longrightarrow> intact (kbd_activate_timer k)"
  by (auto simp: kbd_activate_timer_def intact_def kbd_ok_def kbd_shape_def waiting_def)

lemma intact_outb [intro!]: "intact k \<Longrightarrow> intact (k\<lparr>outb := True\<rparr>)" "intact k \<Longrightarrow> intact (k\<lparr>outb := True, auxb := b\<rparr>)"
  by (auto simp: intact_def kbd_ok_def kbd_shape_def waiting_def)

lemma intact_controller_enQ [intro!]: "intact k \<Longrightarrow> intact (controller_enQ v s k)"
  by (auto simp: controller_enQ_def Let_def intact_def kbd_ok_def kbd_shape_def waiting_def kbd_panic_def)

lemma intact_kbd_enQ_imm [intro!]: "intact k \<Longrightarrow> intact (kbd_enQ_imm v k)"
  by (auto simp: kbd_enQ_imm_def Let_def intact_def kbd_ok_def kbd_shape_def waiting_def kbd_panic_def)

lemma intact_kbd_enQ [intro!]: "intact k \<Longrightarrow> intact (kbd_enQ v k)"
  by (auto simp: kbd_enQ_def Let_def intact_def kbd_ok_def kbd_shape_def waiting_def kbd_activate_timer_def ring_put_ok small_timer)

lemma intact_mouse_enQ [intro!]: "intact k \<Longrightarrow> intact (mouse_enQ v k)"
  by (auto simp: mouse_enQ_def Let_def intact_def kbd_ok_def kbd_shape_def waiting_def kbd_activate_timer_def ring_put_ok small_timer)

lemma intact_packet [intro!]: "intact k \<Longrightarrow> intact (mouse_enQ_packet a b c d k)"
  by (auto simp: mouse_enQ_packet_def Let_def)

lemma intact_clocks [intro!]:
  "intact k \<Longrightarrow> intact (set_kbd_clock_enable b k)" "intact k \<Longrightarrow> intact (set_aux_clock_enable b k)"
  by (auto simp: set_kbd_clock_enable_def set_aux_clock_enable_def Let_def intact_def kbd_ok_def kbd_shape_def waiting_def kbd_activate_timer_def small_timer)

lemma intact_if: "intact a \<Longrightarrow> intact b \<Longrightarrow> intact (if c then a else b)"
  by simp

lemma intact_set_selected: "intact k \<Longrightarrow> v \<le> 2 \<Longrightarrow> intact (k\<lparr>current_scancodes_set := v\<rparr>)"
  by (auto simp: intact_def kbd_ok_def kbd_shape_def waiting_def)

lemma intact_next_from_Q: "intact k \<Longrightarrow> intact (next_from_Q k)"
  unfolding next_from_Q_def by (auto simp: intact_def kbd_ok_def kbd_shape_def waiting_def)

lemma length_shifted [simp]: "length (fold (\<lambda>i q. q[i := q ! Suc i]) is q) = length q"
  by (induction "is" arbitrary: q) simp_all

lemma intact_shift_Q: "intact k \<Longrightarrow> outb k \<Longrightarrow> intact (shift_Q k)"
  unfolding shift_Q_def by (auto simp: intact_def kbd_ok_def kbd_shape_def waiting_def)

text \<open>A read that empties the output buffer refills it from the queue, and arms the timer.\<close>

lemma intact_refilled:
  assumes "intact (e\<lparr>outb := True\<rparr>)" "\<not> outb e" "\<not> auxb e"
  shows "intact (kbd_activate_timer (if controller_Qsize e \<noteq> 0 then shift_Q (next_from_Q e) else e))"
proof (cases "controller_Qsize e = 0")
  case True
  then show ?thesis using assms
    by (auto simp: kbd_activate_timer_def intact_def kbd_ok_def kbd_shape_def waiting_def small_timer)
next
  case False
  have "next_from_Q e = next_from_Q (e\<lparr>outb := True\<rparr>)" by (simp add: next_from_Q_def)
  then have "intact (shift_Q (next_from_Q e))"
    using intact_shift_Q [OF intact_next_from_Q [OF assms(1)]] by (simp add: next_from_Q_def)
  then show ?thesis using False by auto
qed

lemma shift_Q_upd:
  "shift_Q (k\<lparr>irq1_requested := b\<rparr>) = (shift_Q k)\<lparr>irq1_requested := b\<rparr>"
  "shift_Q (k\<lparr>irq12_requested := b\<rparr>) = (shift_Q k)\<lparr>irq12_requested := b\<rparr>"
  by (simp_all add: shift_Q_def)

lemma kbd_activate_timer_upd [simp]:
  "kbd_activate_timer (k\<lparr>pic_lines := l\<rparr>) = (kbd_activate_timer k)\<lparr>pic_lines := l\<rparr>"
  "kbd_activate_timer (k\<lparr>irq1_requested := b\<rparr>) = (kbd_activate_timer k)\<lparr>irq1_requested := b\<rparr>"
  "kbd_activate_timer (k\<lparr>irq12_requested := b\<rparr>) = (kbd_activate_timer k)\<lparr>irq12_requested := b\<rparr>"
  "kbd_activate_timer (k\<lparr>aux_output_buffer := v\<rparr>) = (kbd_activate_timer k)\<lparr>aux_output_buffer := v\<rparr>"
  "kbd_activate_timer (k\<lparr>bat_in_progress := b\<rparr>) = (kbd_activate_timer k)\<lparr>bat_in_progress := b\<rparr>"
  by (simp_all add: kbd_activate_timer_def)

lemma intact_read [intro!]: "intact k \<Longrightarrow> intact (snd (kbd_read a k))"
proof -
  assume k: "intact k"
  let ?m = "k\<lparr>aux_output_buffer := 0, outb := False, auxb := False, irq12_requested := False\<rparr>"
  let ?b = "k\<lparr>outb := False, auxb := False, irq1_requested := False, bat_in_progress := False\<rparr>"
  have "intact (?m\<lparr>outb := True\<rparr>)" "intact (?b\<lparr>outb := True\<rparr>)" using k by (auto simp: intact_def kbd_ok_def kbd_shape_def waiting_def)
  then show ?thesis using k intact_refilled [of ?m] intact_refilled [of ?b] by (auto simp: kbd_read_def Let_def shift_Q_upd del: intact_activate)
qed

lemma intact_reset [intro!]:
  "intact k \<Longrightarrow> intact (kbd_reset k)" "intact k \<Longrightarrow> intact (system_reset k)"
  by (simp_all add: kbd_reset_def system_reset_def)

lemma intact_resetinternals [intro!]: "intact k \<Longrightarrow> intact (resetinternals b k)"
  by (auto simp: resetinternals_def Let_def empty_ring_ok intact_def kbd_ok_def kbd_shape_def waiting_def empty_ring_def ring_ok_def)

lemma small_set:
  fixes v :: byte
  assumes "v \<noteq> 0" "v < 4" shows "v - 1 \<le> 2"
proof -
  have "unat v < 4" "0 < unat v" using assms by (simp_all add: word_less_nat_alt unat_gt_0)
  then show ?thesis using assms(1) by (simp add: word_le_nat_alt unat_minus_one)
qed

lemma intact_resolution [intro!]: "intact k \<Longrightarrow> v \<in> {1, 2, 4, 8} \<Longrightarrow> intact (k\<lparr>resolution_cpmm := v\<rparr>)"
  by (auto simp: intact_def kbd_ok_def kbd_shape_def waiting_def)

lemma intact_select_set:
  "intact k \<Longrightarrow> v \<noteq> 0 \<Longrightarrow> intact (if v < 4 then kbd_enQ 0xFA (k\<lparr>current_scancodes_set := v - 1\<rparr>) else kbd_enQ 0xFF k)"
  using small_set [of v] by (auto intro: intact_set_selected)

lemma intact_to_kbd [intro!]: "intact k \<Longrightarrow> intact (kbd_ctrl_to_kbd v k)"
proof -
  assume k: "intact k"
  have s: "intact (if v \<noteq> 0 then if v < 4 then kbd_enQ 0xFA ((k\<lparr>expecting_scancodes_set := False\<rparr>)\<lparr>current_scancodes_set := v - 1\<rparr>)
      else kbd_enQ 0xFF (k\<lparr>expecting_scancodes_set := False\<rparr>) else c)" if "intact c" for c
    using intact_select_set [of "k\<lparr>expecting_scancodes_set := False\<rparr>" v] k that by simp
  show ?thesis unfolding kbd_ctrl_to_kbd_def Let_def
    by (intro s intact_if intact_kbd_enQ intact_kbd_enQ_imm intact_resetinternals intact_upd [THEN iffD2] k intact_panic [THEN iffD2])
qed

lemma intact_mouse_parameter [intro!]: "intact k \<Longrightarrow> intact (set_mouse_parameter v k)"
  unfolding set_mouse_parameter_def Let_def by (auto split: if_splits)

lemma intact_defaults [intro!]: "intact k \<Longrightarrow> intact (mouse_defaults m k)"
  unfolding mouse_defaults_def by (auto simp: intact_def kbd_ok_def kbd_shape_def waiting_def)

lemma intact_absent [intro!]: "intact k \<Longrightarrow> intact (mouse_absent k)"
  unfolding mouse_absent_def by auto

lemma intact_resolution_byte: "intact (snd (get_resolution_byte k)) = intact k"
  by (simp add: get_resolution_byte_def)

lemma intact_mouse_command [intro!]: "intact k \<Longrightarrow> intact (mouse_command v k)"
  unfolding mouse_command_def Let_def
  by (auto simp: case_prod_beta intact_resolution_byte split: if_splits)

lemma intact_to_mouse [intro!]: "intact k \<Longrightarrow> intact (kbd_ctrl_to_mouse v k)"
  unfolding kbd_ctrl_to_mouse_def Let_def by auto

lemma intact_command_byte [intro!]: "intact k \<Longrightarrow> intact (write_command_byte v k)"
  unfolding write_command_byte_def Let_def by (auto split: if_splits)

lemma intact_write_data [intro!]: "intact k \<Longrightarrow> intact (write_data v k)"
  unfolding write_data_def Let_def
  by (intro intact_if intact_command_byte intact_to_mouse intact_controller_enQ intact_to_kbd intact_clocks intact_reset
      intact_upd [THEN iffD2] intact_panic [THEN iffD2])

lemma intact_self_test [intro!]: "intact k \<Longrightarrow> intact (self_test k)"
  unfolding self_test_def Let_def
  by (auto simp: controller_enQ_def Let_def intact_def kbd_ok_def kbd_shape_def waiting_def)

lemma intact_write_command [intro!]: "intact k \<Longrightarrow> intact (write_command v k)"
  unfolding write_command_def Let_def reply_def
  by (intro intact_if intact_self_test intact_controller_enQ intact_clocks intact_reset
      intact_upd [THEN iffD2] intact_panic [THEN iffD2])

lemma intact_write [intro!]: "intact k \<Longrightarrow> intact (kbd_write a v k)"
  unfolding kbd_write_def by auto

lemma intact_fold_enQ [intro!]: "intact k \<Longrightarrow> intact (fold kbd_enQ vs k)"
  by (induction vs arbitrary: k) auto

lemma send_translated_fold: "send_translated e ss k = fold kbd_enQ (translate e ss) k"
  by (induction e ss k rule: send_translated.induct) simp_all

lemma intact_gen_scancode [intro!]: "intact k \<Longrightarrow> intact (gen_scancode t key k)"
  unfolding gen_scancode_def Let_def send_translated_fold by auto

lemma intact_paste_char [intro!]: "intact k \<Longrightarrow> intact (paste_char t f b k)"
  unfolding paste_char_def Let_def by (auto split: option.split)

lemma intact_paste_loop [intro!]: "intact k \<Longrightarrow> intact (paste_loop t f bs k)"
proof (induction t f bs k rule: paste_loop.induct)
  case (1 t f bs k)
  then show ?case unfolding paste_loop.simps [of t f bs k] Let_def by auto
qed

lemma intact_service_paste [intro!]: "intact k \<Longrightarrow> intact (service_paste_buf t f k)"
  unfolding service_paste_buf_def by (auto split: option.split)

lemma intact_paste_bytes [intro!]: "intact k \<Longrightarrow> intact (paste_bytes t f bs k)"
  unfolding paste_bytes_def by auto

lemma intact_mouse_packet [intro!]: "intact k \<Longrightarrow> intact (create_mouse_packet b k)"
  unfolding create_mouse_packet_def Let_def by (auto simp: case_prod_beta)

lemma intact_enabled_changed [intro!]: "intact k \<Longrightarrow> intact (mouse_enabled_changed k)"
  unfolding mouse_enabled_changed_def by auto

lemma intact_motion [intro!]: "intact k \<Longrightarrow> intact (mouse_motion x y z b k)"
  unfolding mouse_motion_def Let_def by auto

text \<open>A transfer happens with the output buffer free and the timer just spent; it leaves nothing waiting.\<close>

lemma mouse_enQ_fields [simp]:
  "outb (mouse_enQ v k) = outb k" "kbd_clock_enabled (mouse_enQ v k) = kbd_clock_enabled k" "im_mode (mouse_enQ v k) = im_mode k"
  "kbd_internal_buffer (mouse_enQ v k) = kbd_internal_buffer k" "crashed (mouse_enQ v k) = crashed k"
  "delayed_dx (mouse_enQ v k) = delayed_dx k" "delayed_dy (mouse_enQ v k) = delayed_dy k"
  by (simp_all add: mouse_enQ_def kbd_activate_timer_def Let_def)

lemma mouse_enQ_packet_fields [simp]:
  "outb (mouse_enQ_packet a b c d k) = outb k" "kbd_clock_enabled (mouse_enQ_packet a b c d k) = kbd_clock_enabled k"
  "kbd_internal_buffer (mouse_enQ_packet a b c d k) = kbd_internal_buffer k" "crashed (mouse_enQ_packet a b c d k) = crashed k"
  "delayed_dx (mouse_enQ_packet a b c d k) = delayed_dx k" "delayed_dy (mouse_enQ_packet a b c d k) = delayed_dy k"
  by (simp_all add: mouse_enQ_packet_def Let_def)

lemma create_mouse_packet_fields [simp]:
  "outb (create_mouse_packet b k) = outb k" "kbd_clock_enabled (create_mouse_packet b k) = kbd_clock_enabled k"
  "kbd_internal_buffer (create_mouse_packet b k) = kbd_internal_buffer k" "crashed (create_mouse_packet b k) = crashed k"
  by (simp_all add: create_mouse_packet_def Let_def case_prod_beta)

lemma shape_mouse_enQ: "kbd_shape k \<Longrightarrow> kbd_shape (mouse_enQ v k)"
  by (auto simp: kbd_shape_def mouse_enQ_def kbd_activate_timer_def Let_def ring_put_ok)

lemma shape_packet: "kbd_shape k \<Longrightarrow> kbd_shape (mouse_enQ_packet a b c d k)"
  by (simp add: mouse_enQ_packet_def Let_def shape_mouse_enQ)

lemma shape_create_packet: "kbd_shape k \<Longrightarrow> kbd_shape (create_mouse_packet b k)"
proof -
  assume k: "kbd_shape k"
  have "kbd_shape (k\<lparr>delayed_dx := x, delayed_dy := y\<rparr>)" for x y using k by (simp add: kbd_shape_def)
  then show ?thesis using k by (simp add: create_mouse_packet_def Let_def case_prod_beta shape_packet)
qed

lemma shape_transfer: "kbd_shape k \<Longrightarrow> kbd_shape (transfer k)"
proof -
  assume k: "kbd_shape k"
  have "kbd_shape (create_mouse_packet False k)" by (rule shape_create_packet [OF k])
  with k show ?thesis by (simp add: transfer_def Let_def kbd_shape_def ring_drop_ok)
qed

lemma transfer_settles: "\<not> waiting (transfer k)"
proof (cases "num_elements (kbd_internal_buffer k) \<noteq> 0 \<and> (kbd_clock_enabled k \<or> bat_in_progress k)")
  case True
  then show ?thesis by (simp add: transfer_def Let_def waiting_def)
next
  case False
  define d where "d = create_mouse_packet False k"
  have "outb d = outb k" "kbd_clock_enabled d = kbd_clock_enabled k" "kbd_internal_buffer d = kbd_internal_buffer k"
    by (simp_all add: d_def)
  with False show ?thesis by (auto simp: transfer_def Let_def waiting_def d_def [symmetric])
qed

lemma crashed_transfer [simp]: "crashed (transfer k) = crashed k"
  by (simp add: transfer_def Let_def)

lemma intact_spent: "intact k \<Longrightarrow> intact (let k = k\<lparr>timer_pending := 0\<rparr> in if outb k then k else transfer k)"
proof -
  assume k: "intact k"
  have s: "kbd_shape (k\<lparr>timer_pending := 0\<rparr>)" if "kbd_shape k" using that by (simp add: kbd_shape_def)
  show ?thesis
  proof (cases "outb k")
    case True
    then show ?thesis using k s by (auto simp: intact_def kbd_ok_def waiting_def)
  next
    case False
    then show ?thesis using k s shape_transfer transfer_settles by (auto simp: intact_def kbd_ok_def)
  qed
qed

lemma intact_periodic [intro!]: "intact k \<Longrightarrow> intact (snd (kbd_periodic t f u k))" if "1 \<le> u"
proof -
  assume k: "intact k"
  define j where "j = (if kbd_clock_enabled k then
      (let k = k\<lparr>count_before_paste := count_before_paste k + 1\<rparr> in
       if count_before_paste k \<ge> pastedelay k then (service_paste_buf t f k)\<lparr>count_before_paste := 0\<rparr> else k) else k)"
  define i where "i = j\<lparr>irq1_requested := False, irq12_requested := False\<rparr>"
  have "intact j" using k unfolding j_def Let_def by auto
  then have i: "intact i" by (simp add: i_def)
  have e: "snd (kbd_periodic t f u k) = (if timer_pending i = 0 then i else if u \<ge> timer_pending i then
      (let k = i\<lparr>timer_pending := 0\<rparr> in if outb k then k else transfer k) else i\<lparr>timer_pending := timer_pending i - u\<rparr>)"
    unfolding kbd_periodic_def Let_def i_def j_def by simp
  show ?thesis
  proof (cases "crashed i")
    case True
    then show ?thesis unfolding e using intact_spent [OF i] by (simp add: intact_def)
  next
    case False
    then have "timer_pending i = 0 \<or> timer_pending i \<le> u"
      using i that by (auto simp: intact_def kbd_ok_def kbd_shape_def small_timer)
    then show ?thesis unfolding e using i intact_spent [OF i] by auto
  qed
qed

lemma intact_timer [intro!]: "intact k \<Longrightarrow> intact (kbd_timer t f k)"
  using intact_periodic [of 1 k t f] by (simp add: kbd_timer_def Let_def case_prod_beta)

subsection \<open>Everything that can happen\<close>

text \<open>The configuration, ports, keys, mouse and timer as one step relation's labels; parameters stay fixed.\<close>

datatype kbd_event =
    PowerUp mouse_type "32 word" | HostReset | ReadPort nat | WritePort nat byte | Key "32 word" | Paste "byte list"
  | Motion int int int "32 word" | MouseCaptured | Tick

fun kbd_do :: "(byte list \<Rightarrow> bool) \<Rightarrow> (byte \<Rightarrow> (32 word \<times> 32 word) option) \<Rightarrow> kbd_event \<Rightarrow> keyb \<Rightarrow> keyb" where
  "kbd_do t f (PowerUp m d) k = kbd_init m d k"
| "kbd_do t f HostReset k = kbd_reset k"
| "kbd_do t f (ReadPort a) k = snd (kbd_read a k)"
| "kbd_do t f (WritePort a v) k = kbd_write a v k"
| "kbd_do t f (Key key) k = gen_scancode t key k"
| "kbd_do t f (Paste bs) k = paste_bytes t f bs k"
| "kbd_do t f (Motion x y z b) k = mouse_motion x y z b k"
| "kbd_do t f MouseCaptured k = mouse_enabled_changed k"
| "kbd_do t f Tick k = kbd_timer t f k"

lemma kbd_init_ok: "kbd_ok (kbd_init m d k)"
  by (simp add: kbd_init_def resetinternals_def Let_def kbd_ok_def kbd_shape_def waiting_def empty_ring_ok)
    (simp add: empty_ring_def)

lemma intact_do: "intact k \<Longrightarrow> intact (kbd_do t f e k)"
  using kbd_init_ok by (cases e) (auto simp: intact_def [of "kbd_init _ _ _"])

lemma intact_run: "intact k \<Longrightarrow> intact (fold (kbd_do t f) es k)"
  by (induction es arbitrary: k) (simp_all add: intact_do)


text \<open>A controller that has just been switched on.\<close>

definition kbd0 :: keyb where
  "kbd0 = kbd_init MOUSE_PS2 100000
     \<lparr>pare = False, tim = False, auxb = False, keyl = False, c_d = False, sysf = False, inpb = False, outb = False,
      kbd_clock_enabled = False, aux_clock_enabled = False, allow_irq1 = False, allow_irq12 = False,
      kbd_output_buffer = 0, aux_output_buffer = 0, last_comm = 0, expecting_port60h = False,
      expecting_mouse_parameter = False, last_mouse_command = 0, timer_pending = 0, irq1_requested = False,
      irq12_requested = False, scancodes_translate = False, expecting_scancodes_set = False, current_scancodes_set = 0,
      bat_in_progress = False, type_of_mouse = MOUSE_PS2, sample_rate = 0, resolution_cpmm = 0, scaling = 0,
      mode = MODE_RESET, saved_mode = MODE_RESET, mouse_enable = False, button_status = 0, delayed_dx = 0, delayed_dy = 0,
      delayed_dz = 0, im_request = 0, im_mode = False, kbd_internal_buffer = empty_ring 16, expecting_typematic = False,
      expecting_led_write = False, delay = 0, repeat_rate = 0, led_status = 0, scanning_enabled = False,
      mouse_internal_buffer = empty_ring 48, controller_Q = [], controller_Qsize = 0, controller_Qsource = 0,
      pastebuf = None, pastebuf_ptr = 0, pastedelay = 0, paste_service = False, stop_paste = False, count_before_paste = 0,
      kbd_initialized = False, keyboard_type = MF_TYPE, pic_lines = pics0, enable_a20 = True, cpu_resets = 0,
      panics = [], crashed = False\<rparr>"

lemmas kbd0_defs = kbd0_def kbd_init_def resetinternals_def empty_ring_def Let_def

subsection \<open>What the user types\<close>

text \<open>The interrupt routine of the keyboard: two periods of the timer, the first of which takes a byte out of the buffer and
  the second of which raises the line, then a read of the data port. It notes whether IRQ 1 was up.\<close>

definition IRQ1_up :: "keyb \<Rightarrow> bool" where
  "IRQ1_up k = bit (IRQ_in (master (pic_lines k))) 1"

definition serve_key :: "(byte list \<Rightarrow> bool) \<Rightarrow> (byte \<Rightarrow> (32 word \<times> 32 word) option) \<Rightarrow> keyb \<Rightarrow> (bool \<times> byte) \<times> keyb" where
  "serve_key t f k =
     (let k = kbd_timer t f (kbd_timer t f k); (v, k') = kbd_read 0x60 k in ((IRQ1_up k, v), k'))"

primrec serve_keys ::
    "(byte list \<Rightarrow> bool) \<Rightarrow> (byte \<Rightarrow> (32 word \<times> 32 word) option) \<Rightarrow> nat \<Rightarrow> keyb \<Rightarrow> (bool \<times> byte) list \<times> keyb" where
  "serve_keys t f 0 k = ([], k)"
| "serve_keys t f (Suc n) k = (let (x, k) = serve_key t f k; (xs, k) = serve_keys t f n k in (x # xs, k))"

text \<open>A key going down or up, its code to \<^verbatim>\<open>gen_scancode\<close>, and its bytes in scan code set 1.\<close>

type_synonym key_press = "nat \<times> bool"

definition key_code :: "key_press \<Rightarrow> 32 word" where
  "key_code p = of_nat (fst p) OR (if snd p then BX_KEY_RELEASED else 0)"

definition set1_code :: "key_press \<Rightarrow> byte list" where
  "set1_code p = (if snd p then snd (scancodes ! fst p ! 0) else fst (scancodes ! fst p ! 0))"

text \<open>A controller at rest, with interrupts of the keyboard on, translation to set 1, and no paste in progress.\<close>

definition typing :: "byte list \<Rightarrow> keyb \<Rightarrow> bool" where
  "typing bs k \<longleftrightarrow> kbd_ok k \<and> ring_contents 16 (kbd_internal_buffer k) = bs \<and> \<not> outb k \<and> kbd_clock_enabled k \<and>
     scanning_enabled k \<and> scancodes_translate k \<and> current_scancodes_set k = 1 \<and> allow_irq1 k \<and>
     \<not> irq1_requested k \<and> \<not> irq12_requested k \<and> pastebuf k = None \<and> \<not> crashed k"

lemma typing_enQ:
  assumes "typing bs k" "length bs < 16"
  shows "typing (bs @ [v]) (kbd_enQ v k)"
proof -
  have n: "num_elements (kbd_internal_buffer k) = length bs"
    using assms(1) by (auto simp: typing_def)
  have "kbd_ok (kbd_enQ v k)"
    using assms(1) intact_kbd_enQ [of k v] unfolding typing_def intact_def
    by (simp add: kbd_enQ_def kbd_activate_timer_def Let_def split: if_splits)
  moreover have "ring_contents 16 (ring_put 16 v (kbd_internal_buffer k)) = bs @ [v]"
    using assms n by (simp add: ring_put_contents typing_def kbd_ok_def kbd_shape_def)
  ultimately show ?thesis using assms n by (simp add: typing_def kbd_enQ_def kbd_activate_timer_def Let_def)
qed

lemma typing_enQs: "typing bs k \<Longrightarrow> length (bs @ vs) \<le> 16 \<Longrightarrow> typing (bs @ vs) (fold kbd_enQ vs k)"
proof (induction vs arbitrary: bs k)
  case (Cons v vs)
  then show ?case using typing_enQ [of bs k v] Cons.IH [of "bs @ [v]"] by simp
qed simp

lemma key_code_bits:
  assumes "n < 119"
  shows "unat (key_code (n, r) AND 0xFF) = n" "key_code (n, r) AND BX_KEY_RELEASED \<noteq> 0 \<longleftrightarrow> r"
proof -
  have m: "(0xFF :: 32 word) = mask 8" "(0x80000000 :: 32 word) = push_bit 31 1" by (simp_all add: mask_eq_exp_minus_1)
  have n: "take_bit 8 n = n" using assms by (simp add: take_bit_nat_eq_self)
  have n0: "\<not> bit (of_nat n :: 32 word) 31"
    using assms by (simp add: bit_of_nat_iff bit_iff_odd [where 'a = nat])
  have h: "bit (0x80000000 :: 32 word) i \<longleftrightarrow> i = 31" for i
    unfolding m(2) bit_push_bit_iff bit_1_iff by (simp add: le_less) arith
  have n31: "of_nat n AND (0x80000000 :: 32 word) = 0"
  proof (rule bit_word_eqI)
    fix i
    show "bit (of_nat n AND (0x80000000 :: 32 word)) i = bit 0 i"
      using n0 h [of i] by (cases "i = 31") (simp_all only: bit_and_iff bit_0_eq bot_apply bot_bool_def simp_thms)
  qed
  have "of_nat n AND (0xFF :: 32 word) = of_nat n"
    unfolding m(1) take_bit_eq_mask [symmetric] take_bit_of_nat n ..
  then have "key_code (n, r) AND 0xFF = of_nat n"
    by (simp add: key_code_def BX_KEY_RELEASED_def and.commute and.left_commute bit.conj_disj_distrib bit.conj_disj_distrib2)
  then show "unat (key_code (n, r) AND 0xFF) = n" using assms by (simp add: unat_of_nat)
  show "key_code (n, r) AND BX_KEY_RELEASED \<noteq> 0 \<longleftrightarrow> r"
    using n31 by (simp add: key_code_def BX_KEY_RELEASED_def bit.conj_disj_distrib2)
qed

lemma set1_translated:
  assumes "n < 119"
  shows "translate 0 (if r then snd (scancodes ! n ! 1) else fst (scancodes ! n ! 1)) = set1_code (n, r)"
  using all_translate assms by (simp add: list_all_length translates_to_set1_def set1_code_def)

lemma typing_key:
  assumes "typing bs k" "fst p < 119" "length (bs @ set1_code p) \<le> 16" "\<not> t (if snd p then snd (scancodes ! fst p ! 1) else fst (scancodes ! fst p ! 1))"
  shows "typing (bs @ set1_code p) (gen_scancode t (key_code p) k)"
proof -
  obtain n r where p: "p = (n, r)" by (cases p)
  have "gen_scancode t (key_code p) k = fold kbd_enQ (set1_code p) k"
    using assms(1,2,4) key_code_bits [of n r] set1_translated [of n r]
    by (auto simp: gen_scancode_def typing_def Let_def send_translated_fold p)
  then show ?thesis using typing_enQs [OF assms(1,3)] by simp
qed

lemma typing_keys:
  assumes "typing bs k" "\<forall>p \<in> set ps. fst p < 119" "length (bs @ concat (map set1_code ps)) \<le> 16"
  shows "typing (bs @ concat (map set1_code ps)) (fold (\<lambda>p. gen_scancode (\<lambda>_. False) (key_code p)) ps k)"
  using assms
proof (induction ps arbitrary: bs k)
  case (Cons p ps)
  then show ?case using typing_key [of bs k p "\<lambda>_. False"] Cons.IH [of "bs @ set1_code p"] by simp
qed simp

text \<open>Serving a key.\<close>

lemma raised_line: "bit (IRQ_in (master (raise_irq 1 s))) 1"
proof -
  have "IRQ_in m AND irq_bit 1 \<noteq> 0 \<longleftrightarrow> bit (IRQ_in m) 1" for m :: pic
    by (simp add: irq_bit_def bit_iff_and_push_bit_not_eq_0)
  moreover have "IRQ_in (master (service_master_pic s)) = IRQ_in (master s)" for s
    by (simp add: service_master_pic_def split: option.split)
  ultimately show ?thesis by (simp add: raise_irq_def raise_master_def Let_def irq_bit_def bit_simps)
qed

lemma service_nothing [simp]: "pastebuf k = None \<Longrightarrow> service_paste_buf t f k = k"
  by (simp add: service_paste_buf_def)

definition paste_tick :: "keyb \<Rightarrow> keyb" where
  "paste_tick k = k\<lparr>count_before_paste :=
     (if count_before_paste k + 1 \<ge> pastedelay k then 0 else count_before_paste k + 1)\<rparr>"

lemma paste_ticks:
  assumes "kbd_clock_enabled k" "pastebuf k = None"
  shows "kbd_periodic t f 1 k =
    (let k = paste_tick k; retval = (irq1_requested k, irq12_requested k); k = k\<lparr>irq1_requested := False, irq12_requested := False\<rparr>
     in if timer_pending k = 0 then (retval, k)
        else if 1 \<ge> timer_pending k then (let k = k\<lparr>timer_pending := 0\<rparr> in (retval, if outb k then k else transfer k))
        else (retval, k\<lparr>timer_pending := timer_pending k - 1\<rparr>))"
  using assms by (simp add: kbd_periodic_def paste_tick_def Let_def)

lemma tick_moves_key:
  assumes "typing (b # bs) k"
  shows "kbd_timer t f k = paste_tick k\<lparr>irq1_requested := False, irq12_requested := False, timer_pending := 0,
      kbd_output_buffer := b, outb := True, kbd_internal_buffer := ring_drop 16 (kbd_internal_buffer k), irq1_requested := True\<rparr>"
proof -
  have r: "ring_ok 16 (kbd_internal_buffer k)" "ring_contents 16 (kbd_internal_buffer k) = b # bs"
    using assms by (simp_all add: typing_def kbd_ok_def kbd_shape_def)
  have n: "num_elements (kbd_internal_buffer k) = Suc (length bs)"
    using arg_cong [OF r(2), of length] by simp
  have b: "ring_first (kbd_internal_buffer k) = b" by (rule keys.first_contents [OF r])
  have t: "timer_pending k = 1" using assms n by (simp add: typing_def kbd_ok_def waiting_def)
  have k: "kbd_clock_enabled k" "\<not> irq1_requested k" "\<not> irq12_requested k" "\<not> outb k" "allow_irq1 k" "pastebuf k = None"
    using assms by (simp_all add: typing_def)
  show ?thesis using paste_ticks [OF k(1,6)] k n t b by (simp add: kbd_timer_def Let_def transfer_def paste_tick_def)
qed

lemma tick_raises_line:
  assumes "irq1_requested k" "\<not> irq12_requested k" "timer_pending k = 0" "kbd_clock_enabled k" "pastebuf k = None"
  shows "kbd_timer t f k = paste_tick k\<lparr>irq1_requested := False, irq12_requested := False, pic_lines := raise_irq 1 (pic_lines k)\<rparr>"
  using assms by (simp add: kbd_timer_def paste_ticks Let_def paste_tick_def)

lemma paste_tick_fields [simp]:
  "auxb (paste_tick k) = auxb k" "controller_Qsize (paste_tick k) = controller_Qsize k" "pic_lines (paste_tick k) = pic_lines k"
  "kbd_clock_enabled (paste_tick k) = kbd_clock_enabled k" "pastebuf (paste_tick k) = pastebuf k" "crashed (paste_tick k) = crashed k"
  "outb (paste_tick k) = outb k" "kbd_output_buffer (paste_tick k) = kbd_output_buffer k" "timer_pending (paste_tick k) = timer_pending k"
  "kbd_internal_buffer (paste_tick k) = kbd_internal_buffer k" "scanning_enabled (paste_tick k) = scanning_enabled k"
  "scancodes_translate (paste_tick k) = scancodes_translate k" "current_scancodes_set (paste_tick k) = current_scancodes_set k"
  "allow_irq1 (paste_tick k) = allow_irq1 k" "irq12_requested (paste_tick k) = irq12_requested k"
  "irq1_requested (paste_tick k) = irq1_requested k"
  by (simp_all add: paste_tick_def)

lemma serve_key_typing:
  assumes "typing (b # bs) k"
  shows "fst (serve_key t f k) = (True, b) \<and> typing bs (snd (serve_key t f k))"
proof -
  define k1 where "k1 = kbd_timer t f k"
  define k2 where "k2 = kbd_timer t f k1"
  have s: "auxb k = False" "controller_Qsize k = 0" "kbd_clock_enabled k" "pastebuf k = None" "\<not> irq12_requested k"
    "ring_contents 16 (kbd_internal_buffer k) = b # bs" "scanning_enabled k" "scancodes_translate k"
    "current_scancodes_set k = 1" "allow_irq1 k" "\<not> crashed k" "kbd_ok k"
    using assms by (auto simp: typing_def kbd_ok_def kbd_shape_def)
  have 1: "auxb k1 = False" "controller_Qsize k1 = 0" "kbd_clock_enabled k1" "pastebuf k1 = None" "\<not> irq12_requested k1"
    "ring_contents 16 (kbd_internal_buffer k1) = bs" "scanning_enabled k1" "scancodes_translate k1"
    "current_scancodes_set k1 = 1" "allow_irq1 k1" "\<not> crashed k1" "irq1_requested k1" "timer_pending k1 = 0" "outb k1"
    "kbd_output_buffer k1 = b"
    using s by (simp_all add: k1_def tick_moves_key [OF assms] ring_drop_contents)
  have 2: "auxb k2 = False" "controller_Qsize k2 = 0" "kbd_clock_enabled k2" "pastebuf k2 = None" "\<not> irq12_requested k2"
    "ring_contents 16 (kbd_internal_buffer k2) = bs" "scanning_enabled k2" "scancodes_translate k2"
    "current_scancodes_set k2 = 1" "allow_irq1 k2" "\<not> crashed k2" "outb k2" "kbd_output_buffer k2 = b" "IRQ1_up k2"
    using 1 raised_line by (simp_all add: k2_def tick_raises_line IRQ1_up_def)
  have i: "intact (snd (kbd_read 0x60 k2))"
    using s(12) by (auto simp: k2_def k1_def intact_def [of k])
  define k3 where "k3 = k2\<lparr>outb := False, auxb := False, irq1_requested := False, bat_in_progress := False,
      pic_lines := lower_irq 1 (pic_lines k2)\<rparr>"
  have e: "kbd_read 0x60 k2 = (b, kbd_activate_timer k3)"
    using 2 by (simp add: kbd_read_def Let_def k3_def del: kbd_activate_timer_upd)
  have "typing bs (kbd_activate_timer k3)"
    using i 2 unfolding e by (cases "timer_pending k2 = 0") (simp_all add: typing_def intact_def k3_def kbd_activate_timer_def)
  then show ?thesis using 2 by (simp add: serve_key_def k1_def [symmetric] k2_def [symmetric] e Let_def)
qed

lemma serve_keys_typing:
  "typing bs k \<Longrightarrow> fst (serve_keys t f (length bs) k) = map (Pair True) bs \<and> typing [] (snd (serve_keys t f (length bs) k))"
proof (induction bs arbitrary: k)
  case (Cons b bs)
  then show ?case using serve_key_typing [of b bs k t f] Cons.IH [of "snd (serve_key t f k)"] by (simp add: case_prod_beta Let_def)
qed simp


lemma kbd0_typing: "typing [] kbd0"
  using kbd_init_ok by (simp add: typing_def kbd0_defs kbd_ok_def kbd_shape_def ring_ok_def waiting_def ring_contents_def)


subsection \<open>The motion of the mouse\<close>

text \<open>The signed number of nine bits that a packet reports for an axis.\<close>

definition reported :: "byte \<Rightarrow> bool \<Rightarrow> int" where
  "reported b neg = uint b - (if neg then 256 else 0)"

lemma axis_reports:
  assumes "-32768 \<le> d" "d \<le> 32767"
  shows "case packet_axis (clip_motion d) d of (b, neg, left) \<Rightarrow> reported b neg + left = d \<and> reported b neg = clip_motion d"
proof -
  have c: "-254 \<le> clip_motion d" "clip_motion d \<le> 254" "\<bar>d - clip_motion d\<bar> \<le> \<bar>d\<bar>" "0 \<le> d \<longrightarrow> clip_motion d \<le> d" "d \<le> 0 \<longrightarrow> d \<le> clip_motion d"
    by (auto simp: clip_motion_def Let_def)
  have i: "i16 (d - clip_motion d) = d - clip_motion d"
    using c assms by (intro i16_id) linarith+
  show ?thesis
  proof (cases "0 \<le> clip_motion d")
    case True
    then have "uint (word_of_int (clip_motion d) :: byte) = clip_motion d" using c by (simp add: uint_word_of_int_eq take_bit_int_eq_self)
    then show ?thesis using True c i by (simp add: packet_axis_def reported_def)
  next
    case False
    then have "uint (word_of_int (clip_motion d) :: byte) = clip_motion d + 256"
      using c by (simp add: uint_word_of_int mod_add_self2 [symmetric, of "clip_motion d"] del: mod_add_self2)
    then show ?thesis using False c i by (simp add: packet_axis_def reported_def)
  qed
qed

definition packet_room :: "keyb \<Rightarrow> bool" where
  "packet_room k \<longleftrightarrow> num_elements (mouse_internal_buffer k) + (if im_mode k then 4 else 3) < 48"

lemma mouse_enQ_ring:
  "num_elements (mouse_internal_buffer k) < 48 \<Longrightarrow>
     mouse_internal_buffer (mouse_enQ v k) = ring_put 48 v (mouse_internal_buffer k)"
  by (simp add: mouse_enQ_def kbd_activate_timer_def Let_def)

lemma packet_stored:
  assumes "ring_ok 48 (mouse_internal_buffer k)" "packet_room k"
  shows "ring_contents 48 (mouse_internal_buffer (mouse_enQ_packet a b c d k)) =
    ring_contents 48 (mouse_internal_buffer k) @ [a, b, c] @ (if im_mode k then [d] else [])"
proof -
  have n: "num_elements (ring_put 48 v r) = num_elements r + 1" for v r by (simp add: ring_put_def)
  have "mouse_internal_buffer (mouse_enQ_packet a b c d k) =
      fold (ring_put 48) ([a, b, c] @ (if im_mode k then [d] else [])) (mouse_internal_buffer k)"
    using assms(2) by (simp add: mouse_enQ_packet_def Let_def packet_room_def mouse_enQ_ring n split: if_splits)
  then show ?thesis
    using motions.put_all [OF assms(1), of "[a, b, c] @ (if im_mode k then [d] else [])"] assms(2)
    by (simp add: packet_room_def split: if_splits)
qed

lemma packet_bits:
  fixes s :: byte
  defines "b1 \<equiv> \<lambda>x y. (((s OR 0x08) AND 0x0f) OR 0x08 OR (if x then 0x10 else 0) OR (if y then 0x20 else 0) :: byte)"
  shows "bit (b1 x y) 4 = x" "bit (b1 x y) 5 = y" "b1 x y AND 7 = s AND 7" "bit (b1 x y) 3"
proof -
  show "bit (b1 x y) 4 = x" "bit (b1 x y) 5 = y" "bit (b1 x y) 3"
    unfolding b1_def by (cases x; cases y; simp add: bit_simps)+
  show "b1 x y AND 7 = s AND 7"
    unfolding b1_def by (cases x; cases y; simp add: bit.conj_disj_distrib2 and.assoc)
qed

text \<open>C18. No motion of the mouse is lost or invented while its buffer has room: the packet that is stored reports, as two signed numbers
  of nine bits, a part of the motion that was pending, at most 254 each way, and what it does not report stays pending. Its
  first byte has the state of the buttons.\<close>

theorem mouse_motion_reported:
  assumes "ring_ok 48 (mouse_internal_buffer k)" and "packet_room k"
    and "in_i16 (delayed_dx k)" and "in_i16 (delayed_dy k)"
  shows "\<exists>b1 b2 b3 more. let k' = create_mouse_packet True k in
    ring_contents 48 (mouse_internal_buffer k') = ring_contents 48 (mouse_internal_buffer k) @ [b1, b2, b3] @ more \<and>
    reported b2 (bit b1 4) = clip_motion (delayed_dx k) \<and> reported b2 (bit b1 4) + delayed_dx k' = delayed_dx k \<and>
    reported b3 (bit b1 5) = clip_motion (delayed_dy k) \<and> reported b3 (bit b1 5) + delayed_dy k' = delayed_dy k \<and>
    b1 AND 7 = button_status k AND 7 \<and> length more = (if im_mode k then 1 else 0)"
proof -
  obtain b2 nx lx where x: "packet_axis (clip_motion (delayed_dx k)) (delayed_dx k) = (b2, nx, lx)" by (metis prod_cases3)
  obtain b3 ny ly where y: "packet_axis (clip_motion (delayed_dy k)) (delayed_dy k) = (b3, ny, ly)" by (metis prod_cases3)
  have rx: "reported b2 nx + lx = delayed_dx k" "reported b2 nx = clip_motion (delayed_dx k)"
    using axis_reports [of "delayed_dx k"] assms(3) x by (simp_all add: in_i16_def)
  have ry: "reported b3 ny + ly = delayed_dy k" "reported b3 ny = clip_motion (delayed_dy k)"
    using axis_reports [of "delayed_dy k"] assms(4) y by (simp_all add: in_i16_def)
  let ?b1 = "((button_status k OR 0x08) AND 0x0f) OR 0x08 OR (if nx then 0x10 else 0) OR (if ny then 0x20 else 0)"
  let ?b4 = "word_of_int (- delayed_dz k) :: byte" and ?k = "k\<lparr>delayed_dx := lx, delayed_dy := ly\<rparr>"
  have e: "create_mouse_packet True k = mouse_enQ_packet ?b1 b2 b3 ?b4 ?k"
    by (simp only: create_mouse_packet_def Let_def x y prod.case simp_thms if_False)
  have "ring_contents 48 (mouse_internal_buffer (create_mouse_packet True k)) =
      ring_contents 48 (mouse_internal_buffer k) @ [?b1, b2, b3] @ (if im_mode k then [?b4] else [])"
    unfolding e using packet_stored [of ?k] assms(1,2) by (simp add: packet_room_def)
  then show ?thesis using rx ry packet_bits [of "button_status k" nx ny]
    by (intro exI [of _ ?b1] exI [of _ b2] exI [of _ b3] exI [of _ "if im_mode k then [?b4] else []"])
      (simp add: Let_def e)
qed

theorem mouse_motion_reported_witness:
  "\<exists>b1 b2 b3 more. ring_contents 48 (mouse_internal_buffer (create_mouse_packet True (kbd0\<lparr>delayed_dx := -300, delayed_dy := 7\<rparr>))) =
     [b1, b2, b3] @ more \<and> reported b2 (bit b1 4) = -254 \<and> reported b3 (bit b1 5) = 7"
proof -
  let ?k = "kbd0\<lparr>delayed_dx := -300, delayed_dy := 7\<rparr>"
  have "ring_ok 48 (mouse_internal_buffer ?k)" "packet_room ?k" "in_i16 (delayed_dx ?k)" "in_i16 (delayed_dy ?k)"
    "ring_contents 48 (mouse_internal_buffer ?k) = []"
    by (simp_all add: kbd0_defs ring_ok_def packet_room_def in_i16_def ring_contents_def)
  with mouse_motion_reported [of ?k] show ?thesis by (force simp: Let_def clip_motion_def)
qed

subsection \<open>Departures\<close>

text \<open>When the buffer has no room for a packet, the packet is dropped, but its motion has been taken off the pending one.\<close>

lemma full_buffer_loses_motion:
  assumes "\<not> packet_room k" "in_i16 (delayed_dx k)" "delayed_dx k = 10"
  shows "delayed_dx (create_mouse_packet True k) = 0 \<and>
    mouse_internal_buffer (create_mouse_packet True k) = mouse_internal_buffer k"
  using assms
  by (simp add: create_mouse_packet_def Let_def case_prod_beta mouse_enQ_packet_def packet_room_def packet_axis_def clip_motion_def)

text \<open>The command to set the scaling to 1:1 sets what the command for 2:1 sets, and the status says 2:1.\<close>

lemma scaling_one_to_one:
  "scaling (mouse_command 0xe6 k) = 2" "mouse_command 0xe6 k = mouse_command 0xe7 k" "bit (get_status_byte (mouse_command 0xe6 k)) 4"
proof -
  show "scaling (mouse_command 0xe6 k) = 2" "mouse_command 0xe6 k = mouse_command 0xe7 k"
    by (simp_all add: mouse_command_def Let_def)
  then show "bit (get_status_byte (mouse_command 0xe6 k)) 4"
    by (simp add: get_status_byte_def bit_simps)
qed

text \<open>A keyboard's answer that is queued behind another one comes out as a byte of the mouse: the queue forgets where it
  came from.\<close>

lemma queued_answer_from_mouse:
  fixes v :: byte
  assumes "outb k" "\<not> auxb k" "controller_Qsize k = 0" "length (controller_Q k) = 5"
  defines "k' \<equiv> snd (kbd_read 0x60 (controller_enQ v 0 k))"
  shows "auxb k' \<and> aux_output_buffer k' = v"
  using assms by (simp add: k'_def controller_enQ_def Let_def kbd_read_def next_from_Q_def shift_Q_def kbd_activate_timer_def nth_list_update)

text \<open>The immediate acknowledgement of a LED command overwrites a byte that has not been read yet.\<close>

lemma immediate_answer_overwrites:
  assumes "outb k" "kbd_output_buffer k = v" "num_elements (kbd_internal_buffer k) < 16"
    "\<not> expecting_typematic k" "\<not> expecting_led_write k" "\<not> expecting_scancodes_set k"
  shows "kbd_output_buffer (kbd_ctrl_to_kbd 0xed k) = 0xFA \<and> kbd_internal_buffer (kbd_ctrl_to_kbd 0xed k) = kbd_internal_buffer k"
  using assms by (simp add: kbd_ctrl_to_kbd_def kbd_enQ_imm_def Let_def)

end
