(* ===== verification/Spec2Isabelle.thy ===== *)
theory Spec2Isabelle
  imports OS_ProcTest OS_FileSystem OS_Sched OS_Kernel OS_LoadFile OS_Shell OS_Clock OS_Switch Bochs_PIC Bochs_PIT
    Bochs_DMA Bochs_Timers Bochs_CMOS Bochs_Floppy Bochs_Mem Bochs_ALU Bochs_Seg Bochs_Except Bochs_Real Bochs_Events
    Bochs_ALU16 Bochs_Shift16 Bochs_Scancodes Bochs_Keyboard
begin

text \<open>
  A verification library for this repository: a teaching operating system for the 8086 in real
  mode, kept in its successive stages \<^verbatim>\<open>project1\<close> to \<^verbatim>\<open>project6\<close>, and the source of
  the Bochs 2.4.2 emulator it runs on. All paths below are relative to \<^verbatim>\<open>src/\<close>.

  \<^bold>\<open>The program.\<close> The kernel of \<^verbatim>\<open>project6\<close> loads programs from a floppy image into
  eight memory segments, schedules them round robin from the timer interrupt and serves their
  system calls through interrupt 0x21. The emulator runs its instructions; the interval timer of
  the emulated machine raises IRQ 0 through the interrupt controllers, and the CPU then enters
  the timer routine of the kernel. Disk, screen and keyboard are reached through the BIOS.

  \<^bold>\<open>Theories of the operating system.\<close>
  \<^item> \<open>OS_Prelude\<close>: 16-bit signed arithmetic of the compiler (\<open>i16\<close>, \<open>cdiv\<close>), bytes, list lemmas.
  \<^item> \<open>OS_Contracts\<close>: the interfaces \<open>fifo_queue\<close> and \<open>slot_pool\<close> as locales, interpreted in
    \<open>OS_Proc\<close> on the ready queue, the memory segments and the PCB pool.
  \<^item> \<open>OS_Proc\<close> (\<^verbatim>\<open>proc.c\<close>, \<^verbatim>\<open>proc.h\<close>): PCBs in a heap indexed by reference, the ready
    queue as a doubly linked list in that heap, the memory map. \<open>OS_ProcTest\<close>
    (\<^verbatim>\<open>testproc.c\<close>): the unit tests as a program, all of whose asserts hold.
  \<^item> \<open>OS_Clock\<close>: the timer interrupt from chip to scheduler: the timer output drives IRQ 0 of
    the controllers, the acknowledge cycle yields the vector that the kernel programmed, and the
    handler runs one tick of the scheduler and sends its end of interrupt.
  \<^item> \<open>OS_Console\<close> (\<^verbatim>\<open>kernel.c\<close>, \<^verbatim>\<open>kernel.asm\<close>): strings, teletype output, line
    input, screen cells.
  \<^item> \<open>OS_Disk\<close>: \<^verbatim>\<open>mod\<close>, \<^verbatim>\<open>readSector\<close>, \<^verbatim>\<open>writeSector\<close>. BIOS interrupt
    0x13 is a parameter; its documented contract is the locale \<open>floppy_bios\<close>, interpreted on an
    image of 2880 sectors. The locale \<open>sector_store\<close> is what the file system needs of it.
  \<^item> \<open>OS_FileSystem\<close>: \<^verbatim>\<open>findFile\<close>, \<^verbatim>\<open>readFile\<close>, \<^verbatim>\<open>writeFile\<close>,
    \<^verbatim>\<open>deleteFile\<close> on the sectors of the disk; \<open>fs_ok\<close> is the invariant of directory and map.
  \<^item> \<open>OS_Sched\<close>: \<^verbatim>\<open>handleTimerInterrupt\<close>, \<^verbatim>\<open>sleep\<close>, \<^verbatim>\<open>terminate\<close>,
    \<^verbatim>\<open>kill\<close>, \<^verbatim>\<open>yield\<close>, \<^verbatim>\<open>showProcesses\<close>, and the handler of
    \<^verbatim>\<open>project5\<close>. \<open>sched_inv\<close> relates the state to the list of ready processes.
  \<^item> \<open>OS_Kernel\<close>: \<^verbatim>\<open>main\<close>, \<^verbatim>\<open>executeProgram\<close>, the dispatcher of interrupt
    0x21, and of \<^verbatim>\<open>kernel.asm\<close> the frames built by \<^verbatim>\<open>_initializeProgram\<close> and popped by
    \<^verbatim>\<open>_returnFromTimer\<close>. The state \<open>machine\<close> holds processes, disk, memory, screen, keys.
  \<^item> \<open>OS_Switch\<close> (the register saving of \<^verbatim>\<open>timer_ISR\<close> and \<^verbatim>\<open>_returnFromTimer\<close> in
    \<^verbatim>\<open>kernel.asm\<close>): the assembly as a list of instructions of the emulated CPU, run by the executors of
    \<open>Bochs_Real\<close>; the kernel's own view of the frame (\<open>OS_Kernel\<close>) is what that code does.
  \<^item> \<open>OS_Shell\<close> (\<^verbatim>\<open>shell.c\<close>, \<^verbatim>\<open>userlib.c\<close>, \<^verbatim>\<open>texted.c\<close>) and
    \<open>OS_LoadFile\<close> (\<^verbatim>\<open>loadFile.c\<close>).

  \<^bold>\<open>Theories of the emulator\<close> (\<^verbatim>\<open>bochs-2.4.2\<close>).
  \<^item> \<open>Bochs_PIC\<close> (\<^verbatim>\<open>iodev/pic.cc\<close>): both interrupt controllers, every port and line
    operation and the acknowledge cycle.
  \<^item> \<open>Bochs_PIT\<close> (\<^verbatim>\<open>iodev/pit82c54.cc\<close>, \<^verbatim>\<open>iodev/pit_wrap.cc\<close>): the timer chip
    with its six modes and the device around it that turns microseconds into clocks.
  \<^item> \<open>Bochs_DMA\<close> (\<^verbatim>\<open>iodev/dma.cc\<close>): both DMA controllers, their registers and the
    transfer cycle; the device on a channel is a parameter of the model.
  \<^item> \<open>Bochs_Timers\<close> (\<^verbatim>\<open>pc_system.cc\<close>): the timer table of the emulator, with the
    countdown that activates the handlers; the locale \<open>calendar\<close> is its contract.
  \<^item> \<open>Bochs_CMOS\<close> (\<^verbatim>\<open>iodev/cmos.cc\<close>): CMOS memory and real-time clock.
  \<^item> \<open>Bochs_Floppy\<close> (\<^verbatim>\<open>iodev/floppy.cc\<close>): the floppy controller, its command, data
    and result phases and the media on its drives.
  \<^item> \<open>Bochs_Scancodes\<close> (\<^verbatim>\<open>iodev/scancodes.cc\<close>): the scan codes of all keys in the three sets and
    the translation of the keyboard controller. \<open>Bochs_Keyboard\<close> (\<^verbatim>\<open>iodev/keyboard.cc\<close>): the
    controller with its ports, the keyboard, the PS/2 mouse and the pasting of text; the locale \<open>bounded_buffer\<close> is the
    contract of its two ring buffers.
  \<^item> \<open>Bochs_Flags\<close> (\<^verbatim>\<open>cpu/lazy_flags.cc\<close>, macros of \<^verbatim>\<open>cpu/cpu.h\<close>): lazy
    evaluation of the arithmetic flags at all four widths.
  \<^item> \<open>Bochs_ALU\<close> (\<^verbatim>\<open>cpu/arith8.cc\<close>, \<^verbatim>\<open>logical8.cc\<close>, \<^verbatim>\<open>mult8.cc\<close>,
    \<^verbatim>\<open>shift8.cc\<close>, \<^verbatim>\<open>bcd.cc\<close>, part of \<^verbatim>\<open>flag_ctrl.cc\<close>): the 8-bit
    instructions on the registers, the flags and one byte of memory. The locale
    \<open>byte_operand\<close> is what an operand promises; registers, AL and memory interpret it.
  \<^item> \<open>Bochs_Mem\<close> (\<^verbatim>\<open>memory/memory.cc\<close>, \<^verbatim>\<open>misc_mem.cc\<close>): guest memory in blocks allocated on first
    use, handlers, ROM images, the PCI memory types, and the host pointers the CPU may keep.
  \<^item> \<open>Bochs_Seg\<close> (\<^verbatim>\<open>cpu/access.cc\<close>, \<^verbatim>\<open>access32.cc\<close>, \<^verbatim>\<open>stack.h\<close>,
    \<^verbatim>\<open>resolver.cc\<close>): what an instruction in real mode does to reach memory. The state \<open>real_cpu\<close> of this and
    the following theories has registers, segments with their descriptor cache, and memory; a step that faults yields
    the vector and the state at the call of \<^verbatim>\<open>exception\<close>.
  \<^item> \<open>Bochs_Except\<close> (\<^verbatim>\<open>cpu/exception.cc\<close>, \<^verbatim>\<open>flag_ctrl_pro.cc\<close>, \<^verbatim>\<open>flag_ctrl.cc\<close>): delivery of
    interrupts and exceptions with double and triple faults, and one turn \<open>execute1\<close> of the main loop.
  \<^item> \<open>Bochs_Real\<close> (\<^verbatim>\<open>cpu/stack16.cc\<close>, \<^verbatim>\<open>ctrl_xfer16.cc\<close>, \<^verbatim>\<open>soft_int.cc\<close>,
    \<^verbatim>\<open>data_xfer16.cc\<close>): stack, control transfer and data transfer instructions;
    \<open>Bochs_ALU16\<close> (\<^verbatim>\<open>arith16.cc\<close>, \<^verbatim>\<open>logical16.cc\<close>) and \<open>Bochs_Shift16\<close>
    (\<^verbatim>\<open>shift16.cc\<close>, \<^verbatim>\<open>mult16.cc\<close>): the arithmetic at 16 bits. One definition per executor.
  \<^item> \<open>Bochs_Events\<close> (\<^verbatim>\<open>cpu/cpu.cc\<close>): \<^verbatim>\<open>handleAsyncEvent\<close>, which looks for traps and
    interrupts between two instructions, with the controllers of \<open>Bochs_PIC\<close>.

  \<^bold>\<open>What the lemmas show.\<close> Scheduler: one tick is one round-robin step on the list of ready
  processes, the invariant holds in every reachable state, every ready process runs, sleeping
  takes exactly its ticks. Context switch: a process that loses the processor to the timer goes on later with all its
  registers and flags, shown down to the instructions that push and pop them. File system: what is written is read back,
  other files are not disturbed, deleting undoes storing; the loader and the \<^verbatim>\<open>copy\<close> command rest on these
  lemmas. Interrupt controller: its invariant, the choice of the highest request, no request is
  left unsignalled but in two listed cases. Timer: clocking in slices is clocking once, no
  drift, the square wave and the period the kernel programs. Timer table: it refines a calendar
  of due times, and many ticks at once are the same ticks one by one. DMA: a block transfer moves
  exactly the bytes of the block and ends at terminal count. Clock: it keeps calendar time in
  binary and in BCD. Keyboard: a program reads what is
  typed, key by key, and no byte is stranded; no motion of the mouse is lost while its buffer has room. Floppy controller: a read command delivers the sector of the image, every
  command phase ends in execution. Memory: reads return the bytes last written, however the blocks were allocated and
  whichever host pointers are used. CPU: the lazy flags are the architectural ones; the 8-bit and 16-bit instructions
  compute their operation, set its flags and change nothing else; a conditional jump after a comparison decides it;
  every fault of a 16-bit instruction is restartable; INT and IRET cancel out; STI and loads of SS hold interrupts off
  for one instruction; the cached segment rights decide as the segment does; a stack that cannot take a frame ends in
  the triple fault. Where the code departs from what it means to do, a theorem states the departure
  (for instance \<open>terminate_wakes_sleeper\<close>, \<open>writeFile_byte_wrap\<close>, \<open>master_reinit_loses_slave\<close>), and the
  manifest lists it.

  \<^bold>\<open>Loops and bounds.\<close> Loops over fixed arrays are folds or structural recursion; the other
  loops have a termination measure. Fuel appears where the code may run forever: \<open>c_mod\<close> (32768
  steps exhaust the 16-bit range), \<open>printString\<close> and \<open>showProcesses\<close> (one step per address or
  PCB, so running out means a cycle) and the editor. \<^const>\<open>None\<close> stands for not returning or
  for an access outside an array. Integers of the kernel wrap at 16 bits; those of the timer
  at 32 bits, written out with \<open>mod\<close>; the CPU uses words.

  \<^verbatim>\<open>exception\<close> calls itself when the delivery faults; its recursion ends because the type of the pending exception
  ends in the double fault, after which it shuts down.

  \<^bold>\<open>Not modelled.\<close> Of the kernel: the interleaving of a timer interrupt inside a kernel operation, the
  switching of its data segment, the stubs around the BIOS calls, the set-up of the vectors, the boot loader. Of the
  emulator: the decoder (a table; the theories start from decoded instructions), protected and long mode, paging, tasks and
  virtualisation (the system runs in real mode with paging off), 32-bit and 64-bit, string and bit instructions, FPU and
  SSE, all other devices (the system reaches them through the BIOS or not at all), the user interfaces, the debugger and
  other input and output of the host. The BIOS is known by its documented services only, and the compiler is vendored. The
  manifest lists each part with its reason.
\<close>

end
